(* ===== verification/Prelude.thy ===== *)
theory Prelude
  imports Main "HOL-Library.Word" "HOL-Library.Multiset"
begin

text \<open>
  What the component theories share: the machine integers of the code as words, the C string
  view of a character array, the \<^verbatim>\<open>std::vector\<close> operations the code uses (erase at an index,
  erase all equal elements, first match), the \<^verbatim>\<open>std::map\<close> operations on key-ordered
  association lists, and the fact collections the proofs of the components rest on.
\<close>

unbundle bit_operations_syntax

section \<open>Fact collections\<close>

named_theorems model_defs \<open>definitions of straight-line operations, safe to unfold\<close>
named_theorems inv_intros \<open>preservation facts of component invariants\<close>

section \<open>Machine integers\<close>

type_synonym u8 = "8 word"
type_synonym u16 = "16 word"
type_synonym u32 = "32 word"
type_synonym u64 = "64 word"

text \<open>A byte array is a list of octets.\<close>

type_synonym octets = "u8 list"

lemma sint_pos_unat:
  fixes w :: u32
  assumes "unat w < 2 ^ 31"
  shows "sint w = int (unat w)"
proof -
  have "int (unat w) < int (2 ^ 31)"
    using assms by (simp only: of_nat_less_iff)
  then have "uint w < 2 ^ 31" by simp
  then have "signed_take_bit 31 (uint w) = uint w"
    by (simp add: signed_take_bit_int_eq_self_iff order.trans [OF _ uint_ge_0])
  then show ?thesis
    by (simp add: sint_uint)
qed

text \<open>The length in bits, which the code computes as \<^verbatim>\<open>ceil(log2(n + 1))\<close>.\<close>

fun bit_len :: "nat \<Rightarrow> nat" where
  "bit_len n = (if n = 0 then 0 else Suc (bit_len (n div 2)))"

declare bit_len.simps [simp del]

lemma bit_len_le: "bit_len n \<le> k \<longleftrightarrow> n < 2 ^ k"
proof (induction n arbitrary: k rule: bit_len.induct)
  case (1 n)
  show ?case
  proof (cases "n = 0")
    case True
    then show ?thesis by (simp add: bit_len.simps)
  next
    case False
    then have e: "bit_len n = Suc (bit_len (n div 2))" by (simp add: bit_len.simps)
    show ?thesis
    proof (cases k)
      case 0
      with e False show ?thesis by simp
    next
      case (Suc j)
      have "bit_len (n div 2) \<le> j \<longleftrightarrow> n div 2 < 2 ^ j" using 1 False by blast
      also have "\<dots> \<longleftrightarrow> n < 2 ^ Suc j" by (simp add: div_less_iff_less_mult mult.commute)
      finally show ?thesis by (simp add: e Suc)
    qed
  qed
qed

section \<open>C strings\<close>

text \<open>The characters a \<^verbatim>\<open>char*\<close> function reads: those before the first NUL.\<close>

definition cstr :: "char list \<Rightarrow> char list" where
  "cstr s = takeWhile (\<lambda>c. c \<noteq> CHR 0x00) s"

definition no_nul :: "char list \<Rightarrow> bool" where
  "no_nul s = list_all (\<lambda>c. c \<noteq> CHR 0x00) s"

lemma cstr_no_nul [simp]: "no_nul s \<Longrightarrow> cstr s = s"
  by (simp add: cstr_def no_nul_def list_all_iff takeWhile_eq_all_conv)

lemma no_nul_take [intro]: "no_nul s \<Longrightarrow> no_nul (take n s)"
  by (auto simp: no_nul_def list_all_iff dest: in_set_takeD)

section \<open>Vectors\<close>

text \<open>\<^verbatim>\<open>v.erase(v.begin() + i)\<close>, for an index inside the vector.\<close>

definition erase_at :: "nat \<Rightarrow> 'a list \<Rightarrow> 'a list" where
  "erase_at i xs = take i xs @ drop (Suc i) xs"

lemma length_erase_at [simp]: "i < length xs \<Longrightarrow> length (erase_at i xs) = length xs - 1"
  by (simp add: erase_at_def)

lemma set_erase_at: "set (erase_at i xs) \<subseteq> set xs"
  using set_take_subset [of i xs] set_drop_subset [of "Suc i" xs] by (auto simp: erase_at_def)

lemma mset_erase_at:
  "i < length xs \<Longrightarrow> add_mset (xs ! i) (mset (erase_at i xs)) = mset xs"
  by (metis add_mset_add_single erase_at_def id_take_nth_drop mset.simps(2) mset_append
      union_mset_add_mset_right)

text \<open>The index of the first element that satisfies a test, as the scanning loops find it.\<close>

fun find_index :: "('a \<Rightarrow> bool) \<Rightarrow> 'a list \<Rightarrow> nat option" where
  "find_index P [] = None"
| "find_index P (x # xs) = (if P x then Some 0 else map_option Suc (find_index P xs))"

lemma find_index_None: "find_index P xs = None \<longleftrightarrow> (\<forall>x \<in> set xs. \<not> P x)"
  by (induction xs) auto

lemma find_index_Some:
  "find_index P xs = Some i \<Longrightarrow> i < length xs \<and> P (xs ! i) \<and> (\<forall>j < i. \<not> P (xs ! j))"
proof (induction xs arbitrary: i)
  case Nil
  then show ?case by simp
next
  case (Cons x xs)
  then show ?case
    by (auto simp: less_Suc_eq_0_disj split: if_splits)
qed

text \<open>Counting over intervals: a block, a periodic test, a test of quotient and remainder.\<close>

lemma upt_block: "[0..<a + b] = [0..<a] @ map ((+) a) [0..<b]"
  by (induction b) simp_all

lemma length_filter_block:
  "length (filter P [0..<a + b]) = length (filter P [0..<a]) + length (filter (\<lambda>j. P (a + j)) [0..<b])"
  by (simp add: upt_block filter_map comp_def)

lemma length_filter_periodic:
  assumes "\<And>p. P (m + p) = P p"
  shows "length (filter P [0..<k * m]) = k * length (filter P [0..<m])"
proof (induction k)
  case 0
  then show ?case by simp
next
  case (Suc k)
  have "length (filter P [0..<Suc k * m]) = length (filter P [0..<m + k * m])" by simp
  also have "\<dots> = length (filter P [0..<m]) + length (filter P [0..<k * m])"
    by (simp only: length_filter_block assms)
  finally show ?case using Suc by simp
qed

lemma length_filter_eq: "i < n \<Longrightarrow> length (filter (\<lambda>j. j = i \<and> q) [0..<n]) = (if q then 1 else (0 :: nat))"
proof (induction n)
  case 0
  then show ?case by simp
next
  case (Suc n)
  have "filter (\<lambda>j. j = n \<and> q) [0..<n] = []" by (auto simp: filter_empty_conv)
  with Suc show ?case by (cases "i = n") auto
qed

lemma length_filter_div_mod:
  assumes i: "i < (n :: nat)"
  shows "length (filter (\<lambda>p. p mod n = i \<and> Q (p div n)) [0..<L * n]) = length (filter Q [0..<L])"
proof (induction L)
  case 0
  then show ?case by simp
next
  case (Suc L)
  have "length (filter (\<lambda>p. p mod n = i \<and> Q (p div n)) [0..<Suc L * n])
      = length (filter (\<lambda>p. p mod n = i \<and> Q (p div n)) [0..<L * n + n])" by (simp add: add.commute)
  also have "\<dots> = length (filter Q [0..<L])
      + length (filter (\<lambda>j. (L * n + j) mod n = i \<and> Q ((L * n + j) div n)) [0..<n])"
    by (simp only: length_filter_block Suc)
  also have "filter (\<lambda>j. (L * n + j) mod n = i \<and> Q ((L * n + j) div n)) [0..<n]
      = filter (\<lambda>j. j = i \<and> Q L) [0..<n]"
    by (rule filter_cong) auto
  finally show ?case using i by (simp add: length_filter_eq)
qed

lemma length_filter_upto_ge:
  "d \<le> L \<Longrightarrow> length (filter (\<lambda>q. L - q \<le> d) [0..<L]) = (d :: nat)"
proof -
  assume d: "d \<le> L"
  have "[0..<L] = [0..<L - d] @ map ((+) (L - d)) [0..<d]"
    using upt_block [of "L - d" d] d by simp
  moreover have "filter (\<lambda>q. L - q \<le> d) [0..<L - d] = []" by (auto simp: filter_empty_conv)
  ultimately show ?thesis using d by (simp add: filter_map comp_def)
qed

section \<open>Ordered maps\<close>

text \<open>
  A \<^verbatim>\<open>std::map\<close> is its sequence of entries in key order; the comparison object is the
  parameter \<^term>\<open>lt\<close>. Two keys are the same entry when neither is less than the other.
\<close>

fun om_insert :: "('k \<Rightarrow> 'k \<Rightarrow> bool) \<Rightarrow> 'k \<Rightarrow> 'v \<Rightarrow> ('k \<times> 'v) list \<Rightarrow> ('k \<times> 'v) list" where
  "om_insert lt k v [] = [(k, v)]"
| "om_insert lt k v ((a, b) # m) =
     (if lt k a then (k, v) # (a, b) # m
      else if lt a k then (a, b) # om_insert lt k v m
      else (a, v) # m)"

fun om_find :: "('k \<Rightarrow> 'k \<Rightarrow> bool) \<Rightarrow> 'k \<Rightarrow> ('k \<times> 'v) list \<Rightarrow> 'v option" where
  "om_find lt k [] = None"
| "om_find lt k ((a, b) # m) = (if lt k a \<or> lt a k then om_find lt k m else Some b)"

fun om_erase :: "('k \<Rightarrow> 'k \<Rightarrow> bool) \<Rightarrow> 'k \<Rightarrow> ('k \<times> 'v) list \<Rightarrow> ('k \<times> 'v) list" where
  "om_erase lt k [] = []"
| "om_erase lt k ((a, b) # m) = (if lt k a \<or> lt a k then (a, b) # om_erase lt k m else m)"

definition om_sorted :: "('k \<Rightarrow> 'k \<Rightarrow> bool) \<Rightarrow> ('k \<times> 'v) list \<Rightarrow> bool" where
  "om_sorted lt m = sorted_wrt lt (map fst m)"

text \<open>
  The contract of a comparison object: a strict total order. Under it the three operations
  behave as lookup, update and removal on finite maps.
\<close>

locale key_order =
  fixes lt :: "'k \<Rightarrow> 'k \<Rightarrow> bool"
  assumes irrefl: "\<not> lt a a"
    and trans: "lt a b \<Longrightarrow> lt b c \<Longrightarrow> lt a c"
    and total: "lt a b \<or> a = b \<or> lt b a"
begin

lemma asym: "lt a b \<Longrightarrow> \<not> lt b a"
  using irrefl trans by blast

lemma neither: "\<not> lt a b \<Longrightarrow> \<not> lt b a \<Longrightarrow> a = b"
  using total by blast

lemma find_map_of: "om_find lt k m = map_of m k"
  by (induction m) (auto simp: irrefl dest: neither)

lemma set_insert:
  "fst ` set (om_insert lt k v m) = insert k (fst ` set m)"
proof (induction m)
  case Nil
  then show ?case by simp
next
  case (Cons p m)
  obtain a b where p: "p = (a, b)" by (cases p)
  show ?case
    using Cons neither [of k a] by (auto simp: p)
qed

lemma sorted_insert: "om_sorted lt m \<Longrightarrow> om_sorted lt (om_insert lt k v m)"
proof (induction m)
  case Nil
  then show ?case by (simp add: om_sorted_def)
next
  case (Cons p m)
  obtain a b where p: "p = (a, b)" by (cases p)
  have rest: "\<forall>y \<in> fst ` set m. lt a y" and "om_sorted lt m"
    using Cons.prems by (auto simp: om_sorted_def p)
  then have IH: "om_sorted lt (om_insert lt k v m)" using Cons.IH by blast
  show ?case
    using rest IH Cons.prems set_insert [of k v m]
    by (auto simp: om_sorted_def p intro: trans dest: neither)
qed

lemma map_of_insert: "map_of (om_insert lt k v m) = (map_of m)(k \<mapsto> v)"
  by (induction m) (auto simp: irrefl fun_eq_iff dest: neither)

lemma set_erase: "fst ` set (om_erase lt k m) \<subseteq> fst ` set m"
proof (induction m)
  case Nil
  then show ?case by simp
next
  case (Cons p m)
  obtain a b where p: "p = (a, b)" by (cases p)
  show ?case using Cons by (auto simp: p)
qed

lemma sorted_erase: "om_sorted lt m \<Longrightarrow> om_sorted lt (om_erase lt k m)"
proof (induction m)
  case Nil
  then show ?case by (simp add: om_sorted_def)
next
  case (Cons p m)
  obtain a b where p: "p = (a, b)" by (cases p)
  have sub: "lt a (fst x)" if "x \<in> set (om_erase lt k m)" for x
  proof -
    from that set_erase [of k m] have "fst x \<in> fst ` set m" by auto
    with Cons.prems show ?thesis by (auto simp: om_sorted_def p)
  qed
  show ?case
    using Cons sub by (simp add: om_sorted_def p subset_iff)
qed

lemma sorted_notin: "om_sorted lt ((a, b) # m) \<Longrightarrow> map_of m a = None"
  using irrefl by (auto simp: om_sorted_def map_of_eq_None_iff)

lemma map_of_erase: "om_sorted lt m \<Longrightarrow> map_of (om_erase lt k m) = (map_of m)(k := None)"
proof (induction m)
  case Nil
  then show ?case by simp
next
  case (Cons p m)
  obtain a b where p: "p = (a, b)" by (cases p)
  have "om_sorted lt m" using Cons.prems by (simp add: om_sorted_def)
  then have IH: "map_of (om_erase lt k m) = (map_of m)(k := None)" by (rule Cons.IH)
  show ?case
  proof (cases "k = a")
    case True
    then show ?thesis
      using sorted_notin [of a b m] Cons.prems by (auto simp: p irrefl fun_eq_iff)
  next
    case False
    then have "lt k a \<or> lt a k" using neither by blast
    with False IH show ?thesis by (auto simp: p fun_eq_iff)
  qed
qed

lemma sorted_distinct: "om_sorted lt m \<Longrightarrow> distinct (map fst m)"
  unfolding om_sorted_def by (induction m) (auto simp: irrefl)

end

text \<open>The built-in order of the unsigned keys satisfies the contract.\<close>

interpretation u32_order: key_order "(<) :: u32 \<Rightarrow> u32 \<Rightarrow> bool"
  by unfold_locales auto

interpretation nat_order: key_order "(<) :: nat \<Rightarrow> nat \<Rightarrow> bool"
  by unfold_locales auto

end
