(* ===== verification/ConfigTree.thy ===== *)
theory ConfigTree
  imports Prelude
begin

text \<open>
  The configuration tree of \<^verbatim>\<open>src/src/cfg/mink_config.cpp\<close>: the node (\<^verbatim>\<open>ConfigItem\<close>), path
  lookup and creation, and the recursive operations of \<^verbatim>\<open>Config\<close> that a transaction is made
  of: \<^verbatim>\<open>copy_nodes\<close>, \<^verbatim>\<open>discard\<close>, \<^verbatim>\<open>commit\<close>, \<^verbatim>\<open>replace_prepare\<close>, \<^verbatim>\<open>reset\<close>. A node owns its children
  in a vector; the parent pointer of a node is the node that holds it, so it is the position in
  the tree here. \<^verbatim>\<open>sort_node\<close> points to a definition node of which only the name is ever read: it
  is that name. The two loops that do not end on some trees (\<^verbatim>\<open>discard\<close>, \<^verbatim>\<open>commit\<close>) are partial
  functions, for which not returning is \<^term>\<open>None\<close>.
\<close>

section \<open>Nodes\<close>

datatype ConfigNodeType = CONFIG_NT_UNKNOWN | CONFIG_NT_BLOCK | CONFIG_NT_ITEM | CONFIG_NT_CMD | CONFIG_NT_PARAM

datatype ConfigNodeState = CONFIG_NS_UNKNOWN | CONFIG_NS_READY | CONFIG_NS_MODIFIED | CONFIG_NS_DELETED

record cfg_data =
  c_name :: string
  c_value :: string
  c_new_value :: string
  c_type :: string
  c_desc :: string
  c_node_type :: ConfigNodeType
  c_node_state :: ConfigNodeState
  c_template :: bool
  c_empty :: bool
  c_new :: bool
  c_onc_exec :: bool
  c_on_change :: "nat option"
  c_sort_node :: "string option"

datatype config_item = Item (dat: cfg_data) (children: "config_item list")

definition new_data :: cfg_data where
  "new_data = \<lparr>c_name = [], c_value = [], c_new_value = [], c_type = [], c_desc = [],
     c_node_type = CONFIG_NT_UNKNOWN, c_node_state = CONFIG_NS_READY, c_template = False,
     c_empty = False, c_new = False, c_onc_exec = False, c_on_change = None, c_sort_node = None\<rparr>"

definition new_item :: config_item where
  "new_item = Item new_data []"

text \<open>The copy constructor and the assignment take every field but the children.\<close>

definition copy_item :: "config_item \<Rightarrow> config_item" where
  "copy_item o1 = Item (dat o1) []"

definition assign_item :: "config_item \<Rightarrow> config_item \<Rightarrow> config_item" where
  "assign_item this o1 = Item (dat o1) (children this)"

fun is_modified :: "config_item \<Rightarrow> bool" where
  "is_modified (Item d cs) \<longleftrightarrow>
     c_node_state d \<noteq> CONFIG_NS_READY \<or> c_new d \<or> list_ex is_modified cs"

fun set_on_change_handler :: "nat option \<Rightarrow> bool \<Rightarrow> config_item \<Rightarrow> config_item" where
  "set_on_change_handler h r (Item d cs) =
     Item (d\<lparr>c_on_change := h\<rparr>) (if r then map (set_on_change_handler h r) cs else cs)"

text \<open>
  The result is the return code, whether the handler ran, and the node after it: flags flip only
  when there is a handler.
\<close>

definition run_on_change_handler :: "config_item \<Rightarrow> int \<times> bool \<times> config_item" where
  "run_on_change_handler it = (let d = dat it in
     case c_on_change d of
       None \<Rightarrow> (1, False, it)
     | Some h \<Rightarrow> (if \<not> c_onc_exec d then 0 else 1, \<not> c_onc_exec d,
         Item (d\<lparr>c_onc_exec := \<not> c_onc_exec d, c_new := \<not> c_new d\<rparr>) (children it)))"

section \<open>Paths\<close>

text \<open>
  \<^verbatim>\<open>tokenize\<close>: the escaped-list splitting is boost's, a parameter that gives the tokens, or
  \<^term>\<open>None\<close> when it throws. Empty tokens are dropped, a token with a space is quoted again on
  demand, and a full result array ends the loop.
\<close>

fun tokenize_loop :: "bool \<Rightarrow> nat \<Rightarrow> string list \<Rightarrow> string list \<Rightarrow> string list" where
  "tokenize_loop kq mx [] res = res"
| "tokenize_loop kq mx (t # ts) res =
     (if t = [] then tokenize_loop kq mx ts res
      else let r = (if kq \<and> CHR '' '' \<in> set t then CHR 0x22 # t @ [CHR 0x22] else t); res' = res @ [r]
        in if mx \<le> length res' then res' else tokenize_loop kq mx ts res')"

definition tokenize :: "(string \<Rightarrow> string list option) \<Rightarrow> string \<Rightarrow> nat \<Rightarrow> bool \<Rightarrow> string list" where
  "tokenize split line mx kq = (case split line of None \<Rightarrow> [] | Some ts \<Rightarrow> tokenize_loop kq mx ts [])"

text \<open>Nodes by position, and the replacement of one.\<close>

type_synonym pos = "nat list"

fun get_at :: "config_item \<Rightarrow> pos \<Rightarrow> config_item option" where
  "get_at it [] = Some it"
| "get_at (Item d cs) (i # p) = (if i < length cs then get_at (cs ! i) p else None)"

fun map_at :: "(config_item \<Rightarrow> config_item) \<Rightarrow> pos \<Rightarrow> config_item \<Rightarrow> config_item" where
  "map_at f [] it = f it"
| "map_at f (i # p) (Item d cs) = Item d (if i < length cs then cs[i := map_at f p (cs ! i)] else cs)"

definition add_child :: "config_item \<Rightarrow> config_item \<Rightarrow> config_item" where
  "add_child c it = Item (dat it) (children it @ [c])"

definition named :: "string \<Rightarrow> config_item \<Rightarrow> bool" where
  "named n c \<longleftrightarrow> \<not> c_template (dat c) \<and> c_name (dat c) = n"

definition child_named :: "string \<Rightarrow> config_item \<Rightarrow> nat option" where
  "child_named n it = find_index (named n) (children it)"

text \<open>The node created for a token: \<^term>\<open>is_last\<close> says whether it is the last one.\<close>

definition created :: "bool \<Rightarrow> ConfigNodeType \<Rightarrow> bool \<Rightarrow> string \<Rightarrow> cfg_data \<Rightarrow> config_item" where
  "created is_last nt fl t par = Item (new_data\<lparr>
     c_node_type := (if is_last then nt else CONFIG_NT_BLOCK), c_node_state := CONFIG_NS_READY,
     c_empty := c_empty par, c_name := t, c_on_change := c_on_change par, c_new := fl\<rparr>) []"

text \<open>
  The token loop. The cursor is a position or the null pointer, which \<^verbatim>\<open>^\<close> at the root gives; a
  null cursor with another token is dereferenced. The result is the tree and the pointer
  returned, \<^term>\<open>None\<close> for the null pointer; without a token it is the null pointer too.
\<close>

fun walk :: "bool \<Rightarrow> ConfigNodeType \<Rightarrow> bool \<Rightarrow> string list \<Rightarrow> config_item \<Rightarrow> pos option \<Rightarrow> pos option
    \<Rightarrow> (config_item \<times> pos option) option" where
  "walk cr nt fl [] root cur res = Some (root, res)"
| "walk cr nt fl (t # ts) root None res = None"
| "walk cr nt fl (t # ts) root (Some p) res =
     (if t = ''^'' then (let up = (if p = [] then None else Some (butlast p))
        in walk cr nt fl ts root up up)
      else case get_at root p of
        None \<Rightarrow> None
      | Some it \<Rightarrow> (case child_named t it of
            Some j \<Rightarrow> walk cr nt fl ts root (Some (p @ [j])) (Some (p @ [j]))
          | None \<Rightarrow> (if cr then (let q = p @ [length (children it)]
                in walk cr nt fl ts (map_at (add_child (created (ts = []) nt fl t (dat it))) p root) (Some q) (Some q))
              else Some (root, None))))"

definition cfg_call :: "(string \<Rightarrow> string list option) \<Rightarrow> config_item \<Rightarrow> pos \<Rightarrow> string \<Rightarrow> bool \<Rightarrow>
    ConfigNodeType \<Rightarrow> bool \<Rightarrow> (config_item \<times> pos option) option" where
  "cfg_call split root p line cr nt fl = walk cr nt fl (tokenize split line 50 False) root (Some p) None"

text \<open>\<^verbatim>\<open>find_parent\<close>: the nearest ancestor with the name, along the data of the ancestors.\<close>

fun find_parent :: "string \<Rightarrow> config_item \<Rightarrow> pos \<Rightarrow> pos option" where
  "find_parent n root p = (if p = [] then None
     else (case get_at root (butlast p) of
        Some it \<Rightarrow> if c_name (dat it) = n then Some (butlast p) else find_parent n root (butlast p)
      | None \<Rightarrow> None))"

text \<open>The value readers; \<^term>\<open>atoi\<close> is the C library's.\<close>

definition node_value :: "(string \<Rightarrow> string list option) \<Rightarrow> config_item \<Rightarrow> pos \<Rightarrow> string option \<Rightarrow>
    string option option" where
  "node_value split root p path = (case path of
       None \<Rightarrow> map_option (\<lambda>it. Some (c_value (dat it))) (get_at root p)
     | Some line \<Rightarrow> (case cfg_call split root p line False CONFIG_NT_UNKNOWN False of
          None \<Rightarrow> None
        | Some (_, None) \<Rightarrow> Some None
        | Some (_, Some q) \<Rightarrow> map_option (\<lambda>it. Some (c_value (dat it))) (get_at root q)))"

definition to_int :: "(string \<Rightarrow> u32) \<Rightarrow> (string \<Rightarrow> string list option) \<Rightarrow> config_item \<Rightarrow> pos \<Rightarrow>
    string option \<Rightarrow> u32 \<Rightarrow> u32 option" where
  "to_int atoi split root p path dflt = (case node_value split root p path of
       None \<Rightarrow> None | Some None \<Rightarrow> Some dflt
     | Some (Some v) \<Rightarrow> Some (if v \<noteq> [] then atoi v else dflt))"

definition to_bool :: "(string \<Rightarrow> u32) \<Rightarrow> (string \<Rightarrow> string list option) \<Rightarrow> config_item \<Rightarrow> pos \<Rightarrow>
    string option \<Rightarrow> bool option" where
  "to_bool atoi split root p path = (case node_value split root p path of
       None \<Rightarrow> None | Some None \<Rightarrow> Some False | Some (Some v) \<Rightarrow> Some (atoi v \<noteq> 0))"

definition val_exists :: "(string \<Rightarrow> string list option) \<Rightarrow> config_item \<Rightarrow> pos \<Rightarrow> string option \<Rightarrow> bool option" where
  "val_exists split root p path = (case node_value split root p path of
       None \<Rightarrow> None | Some None \<Rightarrow> Some False | Some (Some v) \<Rightarrow> Some (v \<noteq> []))"

section \<open>Copy, discard, commit\<close>

text \<open>
  The copies of the children of \<^verbatim>\<open>source\<close>, appended to \<^verbatim>\<open>dest\<close>. The new-node flag and the
  handler are not copied.
\<close>

definition copy_data :: "ConfigNodeState \<Rightarrow> cfg_data \<Rightarrow> cfg_data" where
  "copy_data ns d = new_data\<lparr>c_template := c_template d, c_empty := c_empty d,
     c_node_type := c_node_type d,
     c_node_state := (if ns = CONFIG_NS_UNKNOWN then c_node_state d else ns), c_type := c_type d,
     c_name := c_name d, c_desc := c_desc d, c_value := c_value d, c_new_value := c_new_value d,
     c_sort_node := c_sort_node d\<rparr>"

fun copy_tree :: "ConfigNodeState \<Rightarrow> config_item \<Rightarrow> config_item" where
  "copy_tree ns (Item d cs) = Item (copy_data ns d) (map (copy_tree ns) cs)"

definition copy_nodes :: "config_item \<Rightarrow> config_item \<Rightarrow> ConfigNodeState \<Rightarrow> config_item" where
  "copy_nodes source dest ns = Item (dat dest) (children dest @ map (copy_tree ns) (children source))"

abbreviation set_state :: "ConfigNodeState \<Rightarrow> cfg_data \<Rightarrow> cfg_data" where
  "set_state s d \<equiv> d\<lparr>c_node_state := s\<rparr>"

definition restored :: "cfg_data \<Rightarrow> cfg_data" where
  "restored d = (let d' = set_state CONFIG_NS_READY d
     in if c_node_type d = CONFIG_NT_ITEM then d'\<lparr>c_new_value := c_value d\<rparr> else d')"

text \<open>The loop of \<^verbatim>\<open>discard\<close> at index \<^term>\<open>i\<close> of the children of the node.\<close>

partial_function (option) discard_loop :: "config_item list \<Rightarrow> nat \<Rightarrow> config_item list option" where
  "discard_loop cs i =
     (if i < length cs then
        (if c_template (dat (cs ! i)) then discard_loop cs (Suc i)
         else if c_new (dat (cs ! i)) then
           (if c_node_type (dat (cs ! i)) = CONFIG_NT_BLOCK then discard_loop (erase_at i cs) i
            else discard_loop cs i)
         else if c_node_state (dat (cs ! i)) = CONFIG_NS_READY then
           Option.bind (discard_loop (children (cs ! i)) 0)
             (\<lambda>ch. discard_loop (cs[i := Item (dat (cs ! i)) ch]) (Suc i))
         else if c_node_state (dat (cs ! i)) = CONFIG_NS_MODIFIED
             \<or> c_node_state (dat (cs ! i)) = CONFIG_NS_DELETED then
           Option.bind (discard_loop (children (cs ! i)) 0)
             (\<lambda>ch. discard_loop (cs[i := Item (restored (dat (cs ! i))) ch]) (Suc i))
         else discard_loop cs (Suc i))
      else Some cs)"

definition discard :: "config_item \<Rightarrow> config_item option" where
  "discard it = map_option (Item (dat it)) (discard_loop (children it) 0)"

text \<open>The loop of \<^verbatim>\<open>commit\<close>, with the number of modifications so far.\<close>

definition committed :: "bool \<Rightarrow> cfg_data \<Rightarrow> cfg_data" where
  "committed pretend d = (if pretend then d
     else (let d' = set_state CONFIG_NS_READY d
           in if c_node_type d = CONFIG_NT_ITEM then d'\<lparr>c_value := c_new_value d\<rparr> else d'))"

abbreviation not_new :: "cfg_data \<Rightarrow> cfg_data" where
  "not_new d \<equiv> d\<lparr>c_new := False\<rparr>"

partial_function (option) commit_loop ::
  "bool \<Rightarrow> config_item list \<Rightarrow> nat \<Rightarrow> nat \<Rightarrow> (nat \<times> config_item list) option" where
  "commit_loop pretend cs i res =
     (if i < length cs then
        (if c_template (dat (cs ! i)) then commit_loop pretend cs (Suc i) res
         else if c_node_state (dat (cs ! i)) = CONFIG_NS_READY then
           Option.bind (commit_loop pretend (children (cs ! i)) 0 0)
             (\<lambda>r. commit_loop pretend (cs[i := Item (not_new (dat (cs ! i))) (snd r)]) (Suc i) (res + fst r))
         else if c_node_state (dat (cs ! i)) = CONFIG_NS_MODIFIED then
           Option.bind (commit_loop pretend (children (cs ! i)) 0 0)
             (\<lambda>r. commit_loop pretend (cs[i := Item (committed pretend (not_new (dat (cs ! i)))) (snd r)])
                (Suc i) (res + 1 + fst r))
         else if c_node_state (dat (cs ! i)) = CONFIG_NS_DELETED then
           (if \<not> pretend then
              (if c_node_type (dat (cs ! i)) = CONFIG_NT_BLOCK then
                 commit_loop pretend (erase_at i cs) i (res + 1)
               else if c_node_type (dat (cs ! i)) = CONFIG_NT_ITEM then
                 commit_loop pretend (cs[i := Item ((set_state CONFIG_NS_READY (not_new (dat (cs ! i))))
                     \<lparr>c_value := [], c_new_value := []\<rparr>) (children (cs ! i))]) (Suc i) (res + 1)
               else commit_loop pretend (cs[i := Item (not_new (dat (cs ! i))) (children (cs ! i))]) i (res + 1))
            else commit_loop pretend (cs[i := Item (not_new (dat (cs ! i))) (children (cs ! i))])
                (Suc i) (res + 1))
         else commit_loop pretend (cs[i := Item (not_new (dat (cs ! i))) (children (cs ! i))]) (Suc i) res)
      else Some (res, cs))"

definition commit :: "bool \<Rightarrow> config_item \<Rightarrow> (nat \<times> config_item) option" where
  "commit pretend it = map_option (\<lambda>(n, cs). (n, Item (dat it) cs)) (commit_loop pretend (children it) 0 0)"

section \<open>Replacing the whole configuration\<close>

text \<open>
  \<^verbatim>\<open>replace_prepare\<close>: the scan has passed \<^term>\<open>pre\<close>. A template with other nodes beside it marks
  every node after the first one deleted and ends the scan.
\<close>

abbreviation mark_deleted :: "config_item \<Rightarrow> config_item" where
  "mark_deleted it \<equiv> Item (set_state CONFIG_NS_DELETED (dat it)) (children it)"

fun replace_prepare_loop :: "config_item list \<Rightarrow> config_item list \<Rightarrow> config_item list" where
  "replace_prepare_loop pre [] = pre"
| "replace_prepare_loop pre (Item d ch # cs) =
     (if c_template d then
        (let all = pre @ Item d ch # cs
         in if 1 < length all then hd all # map mark_deleted (tl all)
            else replace_prepare_loop (pre @ [Item d ch]) cs)
      else if c_node_type d = CONFIG_NT_ITEM then
        replace_prepare_loop (pre @ [mark_deleted (Item d ch)]) cs
      else replace_prepare_loop (pre @ [Item d (replace_prepare_loop [] ch)]) cs)"

definition replace_prepare :: "config_item \<Rightarrow> config_item" where
  "replace_prepare it = Item (dat it) (replace_prepare_loop [] (children it))"

text \<open>
  \<^verbatim>\<open>reset\<close>: a template removes every node after the first, then its own children are reset; a
  template that is not the first node has then removed itself, and no result is defined.
\<close>

fun reset_loop :: "config_item list \<Rightarrow> config_item list \<Rightarrow> config_item list option" where
  "reset_loop pre [] = Some pre"
| "reset_loop pre (Item d ch # cs) =
     (if c_template d then
        (if pre \<noteq> [] then None
         else Option.bind (reset_loop [] ch) (\<lambda>ch'. Some [Item d ch']))
      else Option.bind (reset_loop [] ch)
        (\<lambda>ch'. reset_loop (pre @ [Item ((set_state CONFIG_NS_READY d)\<lparr>c_value := [], c_new_value := []\<rparr>) ch']) cs))"

definition reset :: "config_item \<Rightarrow> config_item option" where
  "reset it = map_option (Item (dat it)) (reset_loop [] (children it))"

text \<open>\<^verbatim>\<open>validate_definition\<close>: a template is the only child of its parent.\<close>

fun validate_definition :: "config_item \<Rightarrow> bool" where
  "validate_definition (Item d cs) =
     list_all (\<lambda>c. (c_template (dat c) \<longrightarrow> length cs \<le> 1) \<and> validate_definition c) cs"

section \<open>Listings\<close>

fun flatten :: "config_item \<Rightarrow> config_item list" where
  "flatten (Item d cs) = (if c_template d then [] else Item d cs # concat (map flatten cs))"

text \<open>
  The names of the ancestors up to the node named \<^verbatim>\<open>ROOT\<close>, nearest first; a chain without one
  ends in a null dereference.
\<close>

fun parent_names :: "string list \<Rightarrow> string option" where
  "parent_names [] = None"
| "parent_names (n # ns) = (if n = ''ROOT'' then Some [] else map_option (\<lambda>s. s @ n @ '' '') (parent_names ns))"

definition get_parent_line :: "string list \<Rightarrow> string option" where
  "get_parent_line anc = (if anc = [] then Some [] else parent_names anc)"

fun get_commands_lc :: "config_item list \<Rightarrow> nat" where
  "get_commands_lc [] = 0"
| "get_commands_lc (Item d ch # cs) =
     (if c_template d then get_commands_lc cs
      else if c_name d = [] then get_commands_lc cs
      else if c_node_type d = CONFIG_NT_BLOCK then
        (if c_node_state d = CONFIG_NS_DELETED then 1 + get_commands_lc cs
         else get_commands_lc ch + 1 + get_commands_lc cs)
      else if c_node_type d = CONFIG_NT_ITEM \<and> (c_new_value d \<noteq> [] \<or> c_node_state d = CONFIG_NS_DELETED)
        then 1 + get_commands_lc cs
      else get_commands_lc cs)"

text \<open>\<^verbatim>\<open>show_commands\<close> on a string stream, as the list of its lines; \<^term>\<open>anc\<close> are the names of the
  node the children belong to and of its ancestors.\<close>

fun show_commands :: "string list \<Rightarrow> config_item list \<Rightarrow> string list option" where
  "show_commands anc [] = Some []"
| "show_commands anc (Item d ch # cs) =
     (if c_template d then show_commands anc cs
      else if c_name d = [] then show_commands anc cs
      else if c_node_type d = CONFIG_NT_BLOCK then
        (if c_node_state d = CONFIG_NS_DELETED then
           Option.bind (parent_names anc) (\<lambda>par.
             map_option ((#) (''delete '' @ par @ c_name d)) (show_commands anc cs))
         else Option.bind (parent_names anc) (\<lambda>par. Option.bind (show_commands (c_name d # anc) ch) (\<lambda>sub.
             map_option (\<lambda>rest. (''set '' @ par @ ''!'' @ c_name d) # sub @ rest) (show_commands anc cs))))
      else if c_node_type d = CONFIG_NT_ITEM \<and> (c_new_value d \<noteq> [] \<or> c_node_state d = CONFIG_NS_DELETED)
        then Option.bind (parent_names anc) (\<lambda>par.
          map_option ((#) (if c_node_state d \<noteq> CONFIG_NS_DELETED
              then ''set '' @ par @ c_name d @ '' '' @ [CHR 0x22] @ c_new_value d @ [CHR 0x22]
              else ''delete '' @ par @ c_name d)) (show_commands anc cs))
      else show_commands anc cs)"

text \<open>
  \<^verbatim>\<open>search_definition\<close>: the nodes at the target level whose name starts with the wanted string; a
  leading \<^verbatim>\<open>!\<close> is not part of it.
\<close>

fun search_definition :: "config_item \<Rightarrow> nat \<Rightarrow> string \<Rightarrow> config_item list" where
  "search_definition (Item d cs) 0 target = filter (\<lambda>c. \<not> c_template (dat c) \<and>
     (let other = (if target \<noteq> [] \<and> hd target = CHR ''!'' then tl target else target)
      in take (length other) (c_name (dat c)) = other)) cs"
| "search_definition (Item d cs) (Suc l) target =
     concat (map (\<lambda>c. if c_template (dat c) then [] else search_definition c l target) cs)"

section \<open>What the two loops compute\<close>

text \<open>
  Recursive equations for \<^verbatim>\<open>discard\<close> and \<^verbatim>\<open>commit\<close>, and the exact condition under which their
  loops end: a new node that is not a block stops the progress of \<^verbatim>\<open>discard\<close>, a deleted node that is
  neither block nor value node that of \<^verbatim>\<open>commit\<close>.
\<close>

fun discard_items :: "config_item list \<Rightarrow> config_item list" where
  "discard_items [] = []"
| "discard_items (Item d ch # cs) =
     (if c_template d then Item d ch # discard_items cs
      else if c_new d then discard_items cs
      else if c_node_state d = CONFIG_NS_READY then Item d (discard_items ch) # discard_items cs
      else if c_node_state d = CONFIG_NS_MODIFIED \<or> c_node_state d = CONFIG_NS_DELETED
        then Item (restored d) (discard_items ch) # discard_items cs
      else Item d ch # discard_items cs)"

fun discard_ends :: "config_item list \<Rightarrow> bool" where
  "discard_ends [] = True"
| "discard_ends (Item d ch # cs) =
     ((if c_template d then True
       else if c_new d then c_node_type d = CONFIG_NT_BLOCK
       else if c_node_state d = CONFIG_NS_UNKNOWN then True
       else discard_ends ch) \<and> discard_ends cs)"

lemma at_pre [simp]: "(pre @ c # cs) ! length pre = c" "(pre @ c # cs)[length pre := c'] = pre @ c' # cs"
  "erase_at (length pre) (pre @ c # cs) = pre @ cs"
  by (simp_all add: erase_at_def)

lemma other_state: "s \<noteq> CONFIG_NS_READY \<Longrightarrow> s \<noteq> CONFIG_NS_MODIFIED \<Longrightarrow> s \<noteq> CONFIG_NS_DELETED \<Longrightarrow> s = CONFIG_NS_UNKNOWN"
  by (cases s) simp_all

lemma items_induct [case_names Nil Item]:
  assumes "P []" and "\<And>d ch cs. P ch \<Longrightarrow> P cs \<Longrightarrow> P (Item d ch # cs)"
  shows "P cs"
proof (induction "size_list size cs" arbitrary: cs rule: less_induct)
  case less
  show ?case
  proof (cases cs)
    case Nil
    then show ?thesis using assms(1) by simp
  next
    case (Cons c cs')
    obtain d ch where c: "c = Item d ch" by (cases c)
    have "P ch" "P cs'" by (rule less; simp add: Cons c)+
    then show ?thesis using assms(2) by (simp add: Cons c)
  qed
qed

lemma discard_loop_ends:
  "discard_ends cs \<Longrightarrow> discard_loop (pre @ cs) (length pre) = Some (pre @ discard_items cs)"
proof (induction cs arbitrary: pre rule: items_induct)
  case Nil
  then show ?case by (subst discard_loop.simps) simp
next
  case (Item d ch cs)
  have all: "discard_loop (p @ cs) (length p) = Some (p @ discard_items cs)" for p
    using Item by simp
  have sub: "discard_loop ch 0 = Some (discard_items ch)"
    if "\<not> c_template d" "\<not> c_new d" "c_node_state d \<noteq> CONFIG_NS_UNKNOWN"
    using that Item.IH(1) [of "[]"] Item.prems by simp
  have step: "discard_loop (pre @ c # cs) (Suc (length pre)) = Some (pre @ c # discard_items cs)" for c
    using all [of "pre @ [c]"] by simp
  show ?case
  proof (cases "c_template d \<or> c_node_state d = CONFIG_NS_UNKNOWN \<and> \<not> c_new d")
    case True
    with step show ?thesis by (subst discard_loop.simps) auto
  next
    case False
    show ?thesis
    proof (cases "c_new d")
      case True
      with all [of pre] False Item.prems show ?thesis by (subst discard_loop.simps) auto
    next
      case old: False
      define d' where "d' = (if c_node_state d = CONFIG_NS_READY then d else restored d)"
      have "discard_loop ch 0 = Some (discard_items ch)"
        using old False by (intro sub) auto
      moreover have "discard_loop (pre @ Item d' (discard_items ch) # cs) (Suc (length pre))
          = Some (pre @ Item d' (discard_items ch) # discard_items cs)"
        by (rule step)
      ultimately show ?thesis
        using old False by (subst discard_loop.simps) (cases "c_node_state d"; auto simp: d'_def)
    qed
  qed
qed

lemma discard_loop_only_ends:
  assumes "discard_loop cs i = Some r"
  shows "discard_ends (drop i cs)"
proof (rule discard_loop.raw_induct [where P = "\<lambda>cs i r. discard_ends (drop i cs)", OF _ assms])
  fix f cs i y
  assume IH: "\<And>cs i y. f cs i = Some y \<Longrightarrow> discard_ends (drop i cs)"
    and run: "(if i < length cs then
        (if c_template (dat (cs ! i)) then f cs (Suc i)
         else if c_new (dat (cs ! i)) then
           (if c_node_type (dat (cs ! i)) = CONFIG_NT_BLOCK then f (erase_at i cs) i else f cs i)
         else if c_node_state (dat (cs ! i)) = CONFIG_NS_READY then
           Option.bind (f (children (cs ! i)) 0) (\<lambda>ch. f (cs[i := Item (dat (cs ! i)) ch]) (Suc i))
         else if c_node_state (dat (cs ! i)) = CONFIG_NS_MODIFIED
             \<or> c_node_state (dat (cs ! i)) = CONFIG_NS_DELETED then
           Option.bind (f (children (cs ! i)) 0)
             (\<lambda>ch. f (cs[i := Item (restored (dat (cs ! i))) ch]) (Suc i))
         else f cs (Suc i))
      else Some cs) = Some y"
  show "discard_ends (drop i cs)"
  proof (cases "i < length cs")
    case True
    obtain d ch where c: "cs ! i = Item d ch" by (cases "cs ! i")
    have dr: "drop i cs = Item d ch # drop (Suc i) cs"
      using True c by (metis Cons_nth_drop_Suc)
    have "drop i (erase_at i cs) = drop (Suc i) cs"
      using True by (simp add: erase_at_def)
    then show ?thesis
      using run True IH [of cs "Suc i" y] IH [of "erase_at i cs" i y] IH [of cs i y] IH [of ch 0]
        IH [of "cs[i := _]" "Suc i" y] other_state [of "c_node_state d"]
      by (auto simp: c dr bind_eq_Some_conv split: if_splits)
  qed simp
qed

lemma discard_loop_result:
  "discard_loop cs 0 = (if discard_ends cs then Some (discard_items cs) else None)"
  using discard_loop_ends [of cs "[]"] discard_loop_only_ends [of cs 0]
  by (cases "discard_loop cs 0") auto

fun commit_count :: "config_item list \<Rightarrow> nat" where
  "commit_count [] = 0"
| "commit_count (Item d ch # cs) =
     (if c_template d then 0
      else if c_node_state d = CONFIG_NS_READY then commit_count ch
      else if c_node_state d = CONFIG_NS_MODIFIED then 1 + commit_count ch
      else if c_node_state d = CONFIG_NS_DELETED then 1
      else 0) + commit_count cs"

fun commit_items :: "bool \<Rightarrow> config_item list \<Rightarrow> config_item list" where
  "commit_items p [] = []"
| "commit_items p (Item d ch # cs) =
     (if c_template d then Item d ch # commit_items p cs
      else if c_node_state d = CONFIG_NS_READY then Item (not_new d) (commit_items p ch) # commit_items p cs
      else if c_node_state d = CONFIG_NS_MODIFIED
        then Item (committed p (not_new d)) (commit_items p ch) # commit_items p cs
      else if c_node_state d = CONFIG_NS_DELETED \<and> \<not> p then
        (if c_node_type d = CONFIG_NT_BLOCK then commit_items p cs
         else Item ((set_state CONFIG_NS_READY (not_new d))\<lparr>c_value := [], c_new_value := []\<rparr>) ch
           # commit_items p cs)
      else Item (not_new d) ch # commit_items p cs)"

fun commit_ends :: "bool \<Rightarrow> config_item list \<Rightarrow> bool" where
  "commit_ends p [] = True"
| "commit_ends p (Item d ch # cs) =
     ((if c_template d \<or> c_node_state d = CONFIG_NS_UNKNOWN then True
       else if c_node_state d = CONFIG_NS_DELETED
         then p \<or> c_node_type d = CONFIG_NT_BLOCK \<or> c_node_type d = CONFIG_NT_ITEM
       else commit_ends p ch) \<and> commit_ends p cs)"

lemma commit_ends_pretend [simp]: "commit_ends True cs"
  by (induction cs rule: items_induct) simp_all

lemma commit_loop_ends:
  "commit_ends p cs \<Longrightarrow> commit_loop p (pre @ cs) (length pre) n = Some (n + commit_count cs, pre @ commit_items p cs)"
proof (induction cs arbitrary: pre n rule: items_induct)
  case Nil
  then show ?case by (subst commit_loop.simps) simp
next
  case (Item d ch cs)
  have all: "commit_loop p (q @ cs) (length q) m = Some (m + commit_count cs, q @ commit_items p cs)" for q m
    using Item by simp
  have sub: "commit_loop p ch 0 0 = Some (commit_count ch, commit_items p ch)"
    if "\<not> c_template d" "c_node_state d = CONFIG_NS_READY \<or> c_node_state d = CONFIG_NS_MODIFIED"
    using that Item.IH(1) [of "[]" 0] Item.prems by auto
  have step: "commit_loop p (pre @ c # cs) (Suc (length pre)) m
      = Some (m + commit_count cs, pre @ c # commit_items p cs)" for c m
    using all [of "pre @ [c]"] by simp
  show ?case
  proof (cases "c_template d")
    case True
    with step show ?thesis by (subst commit_loop.simps) auto
  next
    case False
    show ?thesis
    proof (cases "c_node_state d")
      case CONFIG_NS_READY
      with False sub step show ?thesis by (subst commit_loop.simps) auto
    next
      case CONFIG_NS_MODIFIED
      with False sub step show ?thesis by (subst commit_loop.simps) auto
    next
      case CONFIG_NS_UNKNOWN
      with False step show ?thesis by (subst commit_loop.simps) auto
    next
      case CONFIG_NS_DELETED
      with False step all [of pre] Item.prems show ?thesis by (subst commit_loop.simps) auto
    qed
  qed
qed

lemma commit_loop_only_ends:
  assumes "commit_loop p cs i n = Some r"
  shows "commit_ends p (drop i cs)"
proof (rule commit_loop.raw_induct [where P = "\<lambda>p cs i n r. commit_ends p (drop i cs)", OF _ assms])
  fix f p cs i y and n :: nat
  assume IH: "\<And>p cs i n y. f p cs i n = Some y \<Longrightarrow> commit_ends p (drop i cs)"
    and run: "(if i < length cs then
        (if c_template (dat (cs ! i)) then f p cs (Suc i) n
         else if c_node_state (dat (cs ! i)) = CONFIG_NS_READY then
           Option.bind (f p (children (cs ! i)) 0 0)
             (\<lambda>r. f p (cs[i := Item (not_new (dat (cs ! i))) (snd r)]) (Suc i) (n + fst r))
         else if c_node_state (dat (cs ! i)) = CONFIG_NS_MODIFIED then
           Option.bind (f p (children (cs ! i)) 0 0)
             (\<lambda>r. f p (cs[i := Item (committed p (not_new (dat (cs ! i)))) (snd r)]) (Suc i) (n + 1 + fst r))
         else if c_node_state (dat (cs ! i)) = CONFIG_NS_DELETED then
           (if \<not> p then
              (if c_node_type (dat (cs ! i)) = CONFIG_NT_BLOCK then f p (erase_at i cs) i (n + 1)
               else if c_node_type (dat (cs ! i)) = CONFIG_NT_ITEM then
                 f p (cs[i := Item ((set_state CONFIG_NS_READY (not_new (dat (cs ! i))))
                     \<lparr>c_value := [], c_new_value := []\<rparr>) (children (cs ! i))]) (Suc i) (n + 1)
               else f p (cs[i := Item (not_new (dat (cs ! i))) (children (cs ! i))]) i (n + 1))
            else f p (cs[i := Item (not_new (dat (cs ! i))) (children (cs ! i))]) (Suc i) (n + 1))
         else f p (cs[i := Item (not_new (dat (cs ! i))) (children (cs ! i))]) (Suc i) n)
      else Some (n, cs)) = Some y"
  show "commit_ends p (drop i cs)"
  proof (cases "i < length cs")
    case True
    obtain d ch where c: "cs ! i = Item d ch" by (cases "cs ! i")
    have dr: "drop i cs = Item d ch # drop (Suc i) cs"
      using True c by (metis Cons_nth_drop_Suc)
    have er: "drop i (erase_at i cs) = drop (Suc i) cs"
      using True by (simp add: erase_at_def)
    have same: "drop i (cs[i := x]) = x # drop (Suc i) cs" for x
      using True by (metis Cons_nth_drop_Suc drop_update_cancel length_list_update lessI nth_list_update_eq)
    show ?thesis
      using run True IH [of p cs "Suc i" _ y] IH [of p "erase_at i cs" i _ y] IH [of p "cs[i := Item (not_new d) ch]" i _ y]
        IH [of p ch 0] IH [of p "cs[i := _]" "Suc i" _ y] other_state [of "c_node_state d"]
      by (cases "c_node_state d") (auto simp: c dr er same bind_eq_Some_conv split: if_splits)
  qed simp
qed

lemma commit_loop_result:
  "commit_loop p cs 0 0 = (if commit_ends p cs then Some (commit_count cs, commit_items p cs) else None)"
  using commit_loop_ends [of p cs "[]" 0] commit_loop_only_ends [of p cs 0 0]
  by (cases "commit_loop p cs 0 0") auto

text \<open>What a commit or a discard leaves is a fixed point of both.\<close>

lemma not_new_id: "\<not> c_new d \<Longrightarrow> not_new d = d"
  by (cases d) simp

text \<open>Value nodes are leaves.\<close>

fun leaf_items :: "config_item list \<Rightarrow> bool" where
  "leaf_items [] = True"
| "leaf_items (Item d ch # cs) =
     ((c_node_type d = CONFIG_NT_ITEM \<longrightarrow> ch = []) \<and> leaf_items ch \<and> leaf_items cs)"

lemma commit_items_clean:
  "commit_ends False cs \<Longrightarrow> leaf_items cs \<Longrightarrow> commit_ends p (commit_items False cs) \<and> commit_count (commit_items False cs) = 0 \<and>
   commit_items p (commit_items False cs) = commit_items False cs \<and>
   discard_ends (commit_items False cs) \<and> discard_items (commit_items False cs) = commit_items False cs"
proof (induction cs rule: items_induct)
  case Nil
  then show ?case by simp
next
  case (Item d ch cs)
  then show ?case
    by (cases "c_template d"; cases "c_node_state d"; cases "c_node_type d") (simp_all add: committed_def)
qed

lemma discard_items_clean:
  "commit_ends p (discard_items cs) \<and> commit_count (discard_items cs) = 0 \<and>
   commit_items p (discard_items cs) = discard_items cs \<and>
   discard_ends (discard_items cs) \<and> discard_items (discard_items cs) = discard_items cs"
proof (induction cs rule: items_induct)
  case Nil
  then show ?case by simp
next
  case (Item d ch cs)
  then show ?case
    by (cases "c_template d"; cases "c_new d"; cases "c_node_state d"; cases "c_node_type d")
      (simp_all add: restored_def not_new_id Let_def)
qed

section \<open>Listings agree\<close>

lemma show_commands_length:
  "''ROOT'' \<in> set anc \<Longrightarrow> \<exists>ls. show_commands anc cs = Some ls \<and> length ls = get_commands_lc cs"
proof (induction cs arbitrary: anc rule: items_induct)
  case Nil
  then show ?case by simp
next
  case (Item d ch cs)
  have par: "\<exists>s. parent_names anc = Some s" using Item.prems by (induction anc) auto
  have ch: "\<exists>ls. show_commands (c_name d # anc) ch = Some ls \<and> length ls = get_commands_lc ch"
    using Item.prems by (intro Item.IH) simp
  have cs: "\<exists>ls. show_commands anc cs = Some ls \<and> length ls = get_commands_lc cs"
    using Item.prems by (intro Item.IH)
  show ?case
    using par ch cs by auto
qed

section \<open>Creation and lookup\<close>

text \<open>A token that names a child: not the parent symbol.\<close>

definition plain :: "string list \<Rightarrow> bool" where
  "plain ts \<longleftrightarrow> ''^'' \<notin> set ts"

lemma get_at_append: "get_at it (p @ q) = Option.bind (get_at it p) (\<lambda>c. get_at c q)"
  by (induction it p rule: get_at.induct) auto

lemma get_at_map_at: "get_at it p = Some c \<Longrightarrow> get_at (map_at f p it) p = Some (f c)"
  by (induction f p it arbitrary: c rule: map_at.induct) (auto split: if_splits)

text \<open>Adding a last child changes no position's data and removes no node.\<close>

lemma child_named_add:
  "child_named n (add_child c it) = (case child_named n it of Some j \<Rightarrow> Some j
     | None \<Rightarrow> if named n c then Some (length (children it)) else None)"
proof -
  have "find_index P (xs @ [c]) = (case find_index P xs of Some j \<Rightarrow> Some j
     | None \<Rightarrow> if P c then Some (length xs) else None)" for P and xs :: "config_item list"
    by (induction xs) (auto split: option.split)
  then show ?thesis by (simp add: child_named_def add_child_def)
qed

lemma named_created [simp]: "named n (created l nt fl t par) \<longleftrightarrow> n = t"
  by (auto simp: named_def created_def new_data_def)

text \<open>A tree extends another when every node is still there, with its data, and finds its children.\<close>

definition extends :: "config_item \<Rightarrow> config_item \<Rightarrow> bool" where
  "extends new old \<longleftrightarrow> (\<forall>p it. get_at old p = Some it \<longrightarrow>
     (\<exists>it'. get_at new p = Some it' \<and> dat it' = dat it \<and>
        (\<forall>n j. child_named n it = Some j \<longrightarrow> child_named n it' = Some j)))"

lemma extends_refl [simp]: "extends t t"
  by (auto simp: extends_def)

lemma extends_trans: "extends c b \<Longrightarrow> extends b a \<Longrightarrow> extends c a"
  unfolding extends_def by fastforce

lemma dat_map_at: "(\<And>c. dat (f c) = dat c) \<Longrightarrow> dat (map_at f p it) = dat it"
  by (induction f p it rule: map_at.induct) auto

lemma find_index_update:
  "i < length xs \<Longrightarrow> P (xs ! i) = P y \<Longrightarrow> find_index P (xs[i := y]) = find_index P xs"
  by (induction xs arbitrary: i) (auto split: nat.split)

lemma extends_add: "extends (map_at (add_child c) p t) t"
proof -
  have "\<exists>it'. get_at (map_at (add_child c) p t) q = Some it' \<and> dat it' = dat it \<and>
        (\<forall>n j. child_named n it = Some j \<longrightarrow> child_named n it' = Some j)"
    if "get_at t q = Some it" for q it
    using that
  proof (induction p arbitrary: t q)
    case Nil
    show ?case
    proof (cases q)
      case Nil
      with Nil.prems show ?thesis
        by (auto simp: child_named_add) (simp add: add_child_def)
    next
      case (Cons i q')
      with Nil.prems show ?thesis
        by (cases t) (auto simp: add_child_def nth_append split: if_splits)
    qed
  next
    case (Cons j p)
    obtain d cs where t: "t = Item d cs" by (cases t)
    show ?case
    proof (cases q)
      case Nil
      have "dat (map_at (add_child c) p x) = dat x" for x
        by (rule dat_map_at) (simp add: add_child_def)
      then have "find_index (named n) (cs[j := map_at (add_child c) p (cs ! j)]) = find_index (named n) cs"
        if "j < length cs" for n
        using that by (intro find_index_update) (auto simp: named_def)
      with Nil Cons.prems show ?thesis by (auto simp: t child_named_def)
    next
      case q: (Cons i q')
      with Cons.prems Cons.IH [of "cs ! i" q'] show ?thesis
        by (cases "i = j") (auto simp: t split: if_splits)
    qed
  qed
  then show ?thesis by (simp add: extends_def)
qed

lemma walk_extends:
  "walk cr nt fl ts t cur res = Some (t', r) \<Longrightarrow> extends t' t"
proof (induction cr nt fl ts t cur res rule: walk.induct)
  case (3 cr nt fl t ts root p res)
  show ?case
  proof (cases "t = ''^''")
    case True
    with 3 show ?thesis by (simp add: Let_def)
  next
    case False
    then obtain it where it: "get_at root p = Some it" using 3 by (auto split: option.splits)
    show ?thesis
    proof (cases "child_named t it")
      case None
      with 3 False it show ?thesis
        by (cases cr) (auto simp: Let_def intro: extends_trans [OF _ extends_add])
    next
      case (Some j)
      with 3 False it show ?thesis by simp
    qed
  qed
qed simp_all

text \<open>A lookup that succeeds does so in every extension, at the same position.\<close>

lemma get_at_child: "get_at t p = Some it \<Longrightarrow> child_named n it = Some j \<Longrightarrow>
   get_at t (p @ [j]) = Some (children it ! j)"
  by (cases it) (auto simp: get_at_append child_named_def dest: find_index_Some)

lemma walk_creates:
  assumes "plain ts" and "get_at t p \<noteq> None"
  shows "\<exists>t' q. walk True nt fl ts t (Some p) res = Some (t', q) \<and>
    (\<forall>t'' res'. extends t'' t' \<longrightarrow> walk False nt' fl' ts t'' (Some p) res
       = Some (t'', q)) \<and> (ts \<noteq> [] \<longrightarrow> q \<noteq> None)"
  using assms
proof (induction ts arbitrary: t p res)
  case Nil
  then show ?case by simp
next
  case (Cons n ts)
  have n: "n \<noteq> ''^''" "plain ts" using Cons.prems(1) by (auto simp: plain_def)
  obtain it where it: "get_at t p = Some it" using Cons.prems(2) by auto
  define t1 where "t1 = (case child_named n it of Some j \<Rightarrow> t
     | None \<Rightarrow> map_at (add_child (created (ts = []) nt fl n (dat it))) p t)"
  define j where "j = (case child_named n it of Some j \<Rightarrow> j | None \<Rightarrow> length (children it))"
  obtain it1 where it1: "get_at t1 p = Some it1" "child_named n it1 = Some j"
  proof (cases "child_named n it")
    case None
    with it show thesis
      by (intro that [of "add_child (created (ts = []) nt fl n (dat it)) it"])
        (auto simp: t1_def j_def get_at_map_at child_named_add)
  next
    case (Some i)
    with it show thesis by (intro that [of it]) (auto simp: t1_def j_def)
  qed
  have q: "get_at t1 (p @ [j]) \<noteq> None" using get_at_child [OF it1] by simp
  obtain t' q where IH: "walk True nt fl ts t1 (Some (p @ [j])) (Some (p @ [j])) = Some (t', q)"
    "\<forall>t''. extends t'' t' \<longrightarrow> walk False nt' fl' ts t'' (Some (p @ [j])) (Some (p @ [j])) = Some (t'', q)"
    "ts \<noteq> [] \<longrightarrow> q \<noteq> None"
    using Cons.IH [OF n(2) q, of "Some (p @ [j])"] by blast
  have run: "walk True nt fl (n # ts) t (Some p) res = Some (t', q)"
    using n it IH(1) by (auto simp: t1_def j_def Let_def split: option.splits)
  have "walk False nt' fl' (n # ts) t'' (Some p) res = Some (t'', q)" if "extends t'' t'" for t''
  proof -
    have "extends t'' t1" using that walk_extends [OF IH(1)] extends_trans by blast
    then obtain it2 where "get_at t'' p = Some it2" "child_named n it2 = Some j"
      using it1 unfolding extends_def by blast
    with n IH(2) that show ?thesis by simp
  qed
  moreover have "q \<noteq> None" using IH(1,3) by (cases ts) auto
  ultimately show ?case using run by blast
qed

section \<open>Clearing the configuration\<close>

definition no_template :: "config_item list \<Rightarrow> bool" where
  "no_template cs \<longleftrightarrow> list_all (\<lambda>c. \<not> c_template (dat c)) cs"

text \<open>
  A committed tree: templates stand first, beside block nodes only, and hold no values; every
  other node is ready, blocks have no value of their own and value nodes no children.
\<close>

fun settled :: "config_item list \<Rightarrow> bool" where
  "settled [] = True"
| "settled (Item d ch # cs) =
     (if c_template d then reset_loop [] ch = Some ch \<and> no_template cs \<and>
        list_all (\<lambda>c. c_node_type (dat c) = CONFIG_NT_BLOCK) cs
      else c_node_state d = CONFIG_NS_READY \<and> \<not> c_new d \<and> no_template cs \<and> settled cs \<and>
        (if c_node_type d = CONFIG_NT_ITEM then ch = []
         else c_value d = [] \<and> c_new_value d = [] \<and> settled ch))"

lemma replace_prepare_append:
  "no_template cs \<Longrightarrow> replace_prepare_loop pre cs = pre @ replace_prepare_loop [] cs"
proof (induction cs arbitrary: pre rule: items_induct)
  case Nil
  then show ?case by simp
next
  case (Item d ch cs)
  then have nt: "\<not> c_template d" "no_template cs" by (simp_all add: no_template_def)
  have "replace_prepare_loop (pre @ [c]) cs = pre @ [c] @ replace_prepare_loop [] cs" for c
    using Item.IH(2) [OF nt(2), of "pre @ [c]"] by simp
  moreover have "replace_prepare_loop [c] cs = c # replace_prepare_loop [] cs" for c
    using Item.IH(2) [OF nt(2), of "[c]"] by simp
  ultimately show ?case using nt(1) by simp
qed

lemma reset_append:
  "no_template cs \<Longrightarrow> reset_loop pre cs = map_option ((@) pre) (reset_loop [] cs)"
proof (induction cs arbitrary: pre rule: items_induct)
  case Nil
  then show ?case by simp
next
  case (Item d ch cs)
  then have nt: "\<not> c_template d" "no_template cs" by (simp_all add: no_template_def)
  have "reset_loop (pre @ [c]) cs = map_option ((@) (pre @ [c])) (reset_loop [] cs)" for c
    using Item.IH(2) [OF nt(2)] .
  moreover have "reset_loop [c] cs = map_option ((@) [c]) (reset_loop [] cs)" for c
    using Item.IH(2) [OF nt(2)] .
  ultimately show ?case
    using nt(1) by (cases "reset_loop [] ch"; cases "reset_loop [] cs") auto
qed

lemma commit_deleted_blocks:
  "no_template cs \<Longrightarrow> list_all (\<lambda>c. c_node_type (dat c) = CONFIG_NT_BLOCK) cs \<Longrightarrow>
   commit_ends False (map mark_deleted cs) \<and> commit_items False (map mark_deleted cs) = []"
  by (induction cs) (auto simp: no_template_def)

lemma clear_twice:
  "settled cs \<Longrightarrow> commit_ends False (replace_prepare_loop [] cs) \<and>
   reset_loop [] cs = Some (commit_items False (replace_prepare_loop [] cs))"
proof (induction cs rule: items_induct)
  case Nil
  then show ?case by simp
next
  case (Item d ch cs)
  show ?case
  proof (cases "c_template d")
    case True
    then show ?thesis
      using Item.prems commit_deleted_blocks [of cs] by (cases cs) auto
  next
    case False
    then have nt: "no_template cs" and cs: "settled cs"
      and old: "c_node_state d = CONFIG_NS_READY" "\<not> c_new d"
      using Item.prems by auto
    have id: "not_new d = d" "set_state CONFIG_NS_READY d = d" using old by (cases d; simp)+
    have split: "replace_prepare_loop [c] cs = c # replace_prepare_loop [] cs" for c
      using replace_prepare_append [OF nt, of "[c]"] by simp
    have split': "reset_loop [c] cs = map_option ((#) c) (reset_loop [] cs)" for c
      using reset_append [OF nt, of "[c]"] by (cases "reset_loop [] cs") simp_all
    show ?thesis
    proof (cases "c_node_type d = CONFIG_NT_ITEM")
      case True
      then show ?thesis
        using False Item.prems Item.IH(2) [OF cs] old by (simp add: split split')
    next
      case block: False
      then have v: "c_value d = []" "c_new_value d = []" "settled ch" using False Item.prems by auto
      then have "(set_state CONFIG_NS_READY d)\<lparr>c_value := [], c_new_value := []\<rparr> = d"
        using old by (cases d) simp
      then show ?thesis
        using False block Item.IH(1) [OF v(3)] Item.IH(2) [OF cs] old by (simp add: split split' id)
    qed
  qed
qed

section \<open>Properties\<close>

text \<open>
  C16. \<^verbatim>\<open>discard\<close> returns exactly when no node it visits is new without being a block; then new
  blocks are gone, modified and deleted nodes are ready again, value nodes with their committed
  value, and templates and their contents untouched. On any other tree it never returns.
\<close>

theorem discard_result:
  "discard it = (if discard_ends (children it)
     then Some (Item (dat it) (discard_items (children it))) else None)"
  by (simp add: discard_def discard_loop_result)

text \<open>
  \<^verbatim>\<open>commit\<close> returns exactly when it meets no deleted node that is neither block nor value node
  (always when it only pretends); then its result is the number of modifications and the tree with
  deleted blocks removed, deleted values emptied and modified values taken over.
\<close>

theorem commit_result:
  "commit p it = (if commit_ends p (children it)
     then Some (commit_count (children it), Item (dat it) (commit_items p (children it))) else None)"
  by (simp add: commit_def commit_loop_result)

text \<open>
  C15. A commit leaves nothing to do: committing again, or pretending to, finds no modification and
  changes nothing, and discarding changes nothing, so a committed value is never lost.
\<close>

theorem commit_settles:
  assumes "leaf_items (children it)" and "commit False it = Some (n, it')"
  shows "commit p it' = Some (0, it') \<and> discard it' = Some it'"
proof -
  have "commit_ends False (children it)" and it': "it' = Item (dat it) (commit_items False (children it))"
    using assms(2) by (auto simp: commit_def commit_loop_result split: if_splits)
  with commit_items_clean [of "children it" p] assms(1) show ?thesis
    by (simp add: commit_def commit_loop_result discard_def discard_loop_result)
qed

text \<open>A tree in a transaction: a changed value, a new block with a value, a deleted block.\<close>

definition block :: "string \<Rightarrow> config_item list \<Rightarrow> config_item" where
  "block n cs = Item (new_data\<lparr>c_name := n, c_node_type := CONFIG_NT_BLOCK\<rparr>) cs"

definition leaf :: "string \<Rightarrow> string \<Rightarrow> string \<Rightarrow> ConfigNodeState \<Rightarrow> config_item" where
  "leaf n v w s = Item (new_data\<lparr>c_name := n, c_node_type := CONFIG_NT_ITEM, c_value := v,
     c_new_value := w, c_node_state := s\<rparr>) []"

definition in_transaction :: config_item where
  "in_transaction = block ''ROOT''
     [leaf ''port'' ''1'' ''2'' CONFIG_NS_MODIFIED,
      Item ((dat (block ''a'' []))\<lparr>c_new := True, c_node_state := CONFIG_NS_MODIFIED\<rparr>)
        [leaf ''x'' [] ''7'' CONFIG_NS_MODIFIED],
      Item ((dat (block ''b'' []))\<lparr>c_node_state := CONFIG_NS_DELETED\<rparr>) []]"

lemmas tree_defs = in_transaction_def block_def leaf_def new_data_def

theorem commit_settles_witness:
  "\<exists>it'. commit False in_transaction = Some (4, it') \<and>
     map (c_value \<circ> dat) (children it') = [''2'', []] \<and> commit True it' = Some (0, it') \<and> discard it' = Some it'"
proof -
  have leafs: "leaf_items (children in_transaction)" by (simp add: tree_defs)
  define it' where "it' = Item (dat in_transaction) (commit_items False (children in_transaction))"
  have run: "commit False in_transaction = Some (4, it')"
    by (simp add: commit_def commit_loop_result it'_def) (simp add: tree_defs)
  have "map (c_value \<circ> dat) (children it') = [''2'', []]"
    by (simp add: it'_def tree_defs committed_def)
  with run commit_settles [OF leafs run, of True] show ?thesis by (intro exI [of _ it']) simp
qed

text \<open>
  A discard leaves nothing to do: the next commit finds no modification, and a second discard
  changes nothing.
\<close>

theorem discard_settles:
  assumes "discard it = Some it'"
  shows "commit p it' = Some (0, it') \<and> discard it' = Some it'"
proof -
  have "it' = Item (dat it) (discard_items (children it))"
    using assms by (auto simp: discard_def discard_loop_result split: if_splits)
  with discard_items_clean [of p "children it"] show ?thesis
    by (simp add: commit_def commit_loop_result discard_def discard_loop_result)
qed

theorem discard_settles_witness:
  "\<exists>it'. discard in_transaction = Some it' \<and> map (c_new_value \<circ> dat) (children it') = [''1'', []] \<and>
     commit False it' = Some (0, it') \<and> discard it' = Some it'"
proof -
  define it' where "it' = Item (dat in_transaction) (discard_items (children in_transaction))"
  have run: "discard in_transaction = Some it'"
    by (simp add: discard_def discard_loop_result it'_def) (simp add: tree_defs)
  have "map (c_new_value \<circ> dat) (children it') = [''1'', []]"
    by (simp add: it'_def tree_defs restored_def)
  with run discard_settles [OF run, of False] show ?thesis by (intro exI [of _ it']) simp
qed

text \<open>
  Pretending to commit gives the count the commit itself will give, but it clears the new flag
  of every node it visits: a discard after it no longer removes a new block, whereas the discard
  of the tree before it does.
\<close>

theorem pretend_commit_count:
  assumes "commit True it = Some (n, it')"
  shows "(commit False it = None \<or> (\<exists>it''. commit False it = Some (n, it''))) \<and>
    list_all (\<lambda>x. c_template (dat x) \<or> \<not> c_new (dat x)) (children it') \<and>
    length (children it') = length (children it)"
proof -
  have it': "n = commit_count (children it)" "children it' = commit_items True (children it)"
    using assms by (auto simp: commit_def commit_loop_result)
  have "list_all (\<lambda>x. c_template (dat x) \<or> \<not> c_new (dat x)) (commit_items True cs)" for cs
    by (induction cs rule: items_induct) (simp_all add: committed_def)
  moreover have "length (commit_items True cs) = length cs" for cs
    by (induction cs rule: items_induct) simp_all
  ultimately show ?thesis by (simp add: it' commit_def commit_loop_result)
qed

theorem pretend_commit_count_witness:
  "\<exists>it'. commit True in_transaction = Some (4, it') \<and> (\<exists>it''. commit False in_transaction = Some (4, it'')) \<and>
     length (children it') = 3 \<and> map_option (length \<circ> children) (discard it') = Some 3 \<and>
     map_option (length \<circ> children) (discard in_transaction) = Some 2"
proof -
  define it' where "it' = Item (dat in_transaction) (commit_items True (children in_transaction))"
  have run: "commit True in_transaction = Some (4, it')"
    by (simp add: commit_def commit_loop_result it'_def) (simp add: tree_defs)
  have "commit False in_transaction \<noteq> None"
    by (simp add: commit_def commit_loop_result) (simp add: tree_defs)
  moreover have "map_option (length \<circ> children) (discard it') = Some 3"
    "map_option (length \<circ> children) (discard in_transaction) = Some 2"
    by (simp_all add: discard_def discard_loop_result it'_def tree_defs committed_def)
  moreover have "length (children in_transaction) = 3" by (simp add: tree_defs)
  ultimately show ?thesis
    using run pretend_commit_count [OF run] by (intro exI [of _ it']) auto
qed

text \<open>
  C17. Replacing a configuration by nothing is the same as resetting it: marking everything for
  deletion (\<^verbatim>\<open>replace_prepare\<close>) and committing yields, on a committed tree, the tree that \<^verbatim>\<open>reset\<close>
  gives: value nodes emptied, template-based blocks gone, the fixed structure kept.
\<close>

theorem replace_commit_is_reset:
  assumes "settled (children it)"
  shows "map_option snd (commit False (replace_prepare it)) = reset it"
  using clear_twice [OF assms]
  by (simp add: commit_def commit_loop_result replace_prepare_def reset_def)

theorem replace_commit_is_reset_witness:
  "map_option snd (commit False (replace_prepare (block ''ROOT'' [leaf ''port'' ''1'' ''1'' CONFIG_NS_READY,
       block ''list'' [Item ((dat (block ''t'' []))\<lparr>c_template := True\<rparr>) [], block ''n1'' []]])))
   = Some (block ''ROOT'' [leaf ''port'' [] [] CONFIG_NS_READY,
       block ''list'' [Item ((dat (block ''t'' []))\<lparr>c_template := True\<rparr>) []]])"
  by (subst replace_commit_is_reset) (simp_all add: block_def leaf_def new_data_def no_template_def reset_def)

text \<open>
  The listing of a configuration as commands has exactly the number of lines that
  \<^verbatim>\<open>get_commands_lc\<close> announces to the terminal, below any node of the tree under \<^verbatim>\<open>ROOT\<close>.
\<close>

theorem show_commands_lines:
  assumes "''ROOT'' \<in> set anc"
  shows "map_option length (show_commands anc cs) = Some (get_commands_lc cs)"
  using show_commands_length [OF assms, of cs] by auto

theorem show_commands_lines_witness:
  "map_option length (show_commands [''ROOT''] (children in_transaction)) = Some 4 \<and>
   show_commands [''ROOT''] (children in_transaction)
     = Some [''set port '' @ [CHR 0x22] @ ''2'' @ [CHR 0x22], ''set !a'',
         ''set a x '' @ [CHR 0x22] @ ''7'' @ [CHR 0x22], ''delete b'']"
proof -
  have "map_option length (show_commands [''ROOT''] (children in_transaction)) = Some 4"
    by (subst show_commands_lines) (simp_all add: tree_defs)
  moreover have "show_commands [''ROOT''] (children in_transaction)
     = Some [''set port '' @ [CHR 0x22] @ ''2'' @ [CHR 0x22], ''set !a'',
         ''set a x '' @ [CHR 0x22] @ ''7'' @ [CHR 0x22], ''delete b'']"
    by (simp add: tree_defs)
  ultimately show ?thesis by (rule conjI)
qed

text \<open>
  C25. Creating a node by path and looking it up: for a path of plain names, the call with the
  create flag returns a node, and in the tree after it, or after any further creations by path, the
  same path leads to the same node without creating anything; every node that was there before is
  still at its place, with its data.
\<close>

theorem create_then_find:
  assumes "plain ts" and "ts \<noteq> []" and "get_at t p \<noteq> None"
  shows "\<exists>t' q. walk True nt fl ts t (Some p) None = Some (t', Some q) \<and> extends t' t \<and>
    (\<forall>us nt2 fl2 cur t2 r. walk True nt2 fl2 us t' cur None = Some (t2, r) \<longrightarrow>
       walk False nt3 fl3 ts t2 (Some p) None = Some (t2, Some q))"
proof -
  obtain t' q where w: "walk True nt fl ts t (Some p) None = Some (t', Some q)"
    "\<forall>t''. extends t'' t' \<longrightarrow> walk False nt3 fl3 ts t'' (Some p) None = Some (t'', Some q)"
    using walk_creates [OF assms(1,3), of nt fl None nt3 fl3] assms(2) by auto
  show ?thesis
  proof (intro exI conjI allI impI)
    show "walk True nt fl ts t (Some p) None = Some (t', Some q)" by (rule w(1))
    show "extends t' t" by (rule walk_extends [OF w(1)])
    fix us nt2 fl2 cur t2 r
    assume "walk True nt2 fl2 us t' cur None = Some (t2, r)"
    then have "extends t2 t'" by (rule walk_extends)
    with w(2) show "walk False nt3 fl3 ts t2 (Some p) None = Some (t2, Some q)" by simp
  qed
qed

theorem create_then_find_witness:
  "\<exists>t' q. walk True CONFIG_NT_ITEM False [''net'', ''port''] (block ''ROOT'' []) (Some []) None = Some (t', Some q) \<and>
     walk False CONFIG_NT_UNKNOWN False [''net'', ''port''] t' (Some []) None = Some (t', Some q)"
proof -
  have plain: "plain [''net'', ''port'']" by (simp add: plain_def)
  have node: "get_at (block ''ROOT'' []) [] \<noteq> None" by simp
  obtain t' q where "walk True CONFIG_NT_ITEM False [''net'', ''port''] (block ''ROOT'' []) (Some []) None
      = Some (t', Some q)"
    and again: "\<forall>us nt2 fl2 cur t2 r. walk True nt2 fl2 us t' cur None = Some (t2, r) \<longrightarrow>
       walk False CONFIG_NT_UNKNOWN False [''net'', ''port''] t2 (Some []) None = Some (t2, Some q)"
    using create_then_find [OF plain _ node, of CONFIG_NT_ITEM False CONFIG_NT_UNKNOWN False] by auto
  moreover have "walk True CONFIG_NT_UNKNOWN False [] t' None None = Some (t', None)" by simp
  then have "walk False CONFIG_NT_UNKNOWN False [''net'', ''port''] t' (Some []) None = Some (t', Some q)"
    using again by metis
  ultimately show ?thesis by (intro exI conjI)
qed

end
