(* ===== verification/ConfigMerge.thy ===== *)
theory ConfigMerge
  imports ConfigTree
begin

text \<open>
  Patterns, validation and merging of configuration contents, and the state of \<^verbatim>\<open>Config\<close>, of
  \<^verbatim>\<open>src/src/cfg/mink_config.cpp\<close>. A contents tree (a parsed file) is merged into the definition
  tree; both are changed on the way, since a value or a template name loses its enclosing quotes
  when it is matched against a regular expression. The functions that look up a node elsewhere in
  a tree get that tree back from the children list at hand (\<^term>\<open>rebuild\<close>). The regular
  expressions, the tokenizer and \<^verbatim>\<open>std::sort\<close>, of which the standard fixes the result only up to
  the order of equivalent elements, are parameters.
\<close>

section \<open>Patterns\<close>

record cfg_pattern =
  p_name :: string
  p_pattern :: string
  p_desc :: string

record cfg_env =
  e_patterns :: "cfg_pattern list"
  e_regex :: "string \<Rightarrow> string \<Rightarrow> bool option"
  e_split :: "string \<Rightarrow> string list option"
  e_atoi :: "string \<Rightarrow> u32"
  e_sort :: "(config_item \<Rightarrow> config_item \<Rightarrow> bool) \<Rightarrow> config_item list \<Rightarrow> config_item list"

definition get_pattern :: "cfg_env \<Rightarrow> string \<Rightarrow> cfg_pattern option" where
  "get_pattern e ty = map_option ((!) (e_patterns e)) (find_index (\<lambda>p. p_name p = ty) (e_patterns e))"

definition add_pattern :: "cfg_pattern \<Rightarrow> cfg_env \<Rightarrow> cfg_env" where
  "add_pattern p e = e\<lparr>e_patterns := e_patterns e @ [p]\<rparr>"

text \<open>The node a path leads to, if any; the outer option is the dereference of a null pointer.\<close>

definition look_up :: "cfg_env \<Rightarrow> config_item \<Rightarrow> pos \<Rightarrow> string \<Rightarrow> config_item option option" where
  "look_up e root p line = (case cfg_call (e_split e) root p line False CONFIG_NT_UNKNOWN False of
       None \<Rightarrow> None
     | Some (_, None) \<Rightarrow> Some None
     | Some (_, Some q) \<Rightarrow> Some (get_at root q))"

definition quoted :: "string \<Rightarrow> bool" where
  "quoted v \<longleftrightarrow> v \<noteq> [] \<and> hd v = CHR 0x22 \<and> last v = CHR 0x22"

text \<open>
  \<^verbatim>\<open>pattern_valid\<close> on a value of type \<^term>\<open>ty\<close>: the verdict and the value after it. The node the
  value belongs to is given by its tree and the position of its parent. A value that is a single
  quote is erased past its end, and an invalid expression throws: no result.
\<close>

definition pattern_valid :: "cfg_env \<Rightarrow> config_item \<Rightarrow> config_item \<Rightarrow> pos option \<Rightarrow> string \<Rightarrow> string \<Rightarrow>
    (bool \<times> string) option" where
  "pattern_valid e defn croot par ty v = (case get_pattern e ty of
       None \<Rightarrow> Some (False, v)
     | Some p \<Rightarrow> (let s = p_pattern p in
         if take 7 s = '':pmcfg:'' then
           (if 9 < length s \<and> s ! 7 = CHR ''['' \<and> last s = CHR '']'' then
              (let path = take (length s - 9) (drop 8 s);
                   found = (if hd path = CHR ''/'' then look_up e defn [] (tl path)
                            else case par of None \<Rightarrow> Some None | Some q \<Rightarrow> look_up e croot q path)
               in case found of
                    None \<Rightarrow> None
                  | Some None \<Rightarrow> Some (False, v)
                  | Some (Some it) \<Rightarrow> Some (list_ex (named v) (children it), v))
            else Some (False, v))
         else if quoted v then
           (if length v = 1 then None
            else map_option (\<lambda>r. (r, butlast (tl v))) (e_regex e s (butlast (tl v))))
         else map_option (\<lambda>r. (r, v)) (e_regex e s v)))"

section \<open>Validation\<close>

text \<open>The definition child that decides on a contents node: the first template or namesake.\<close>

definition definition_for :: "string \<Rightarrow> config_item list \<Rightarrow> nat option" where
  "definition_for n dch = find_index (\<lambda>c. c_template (dat c) \<or> c_name (dat c) = n) dch"

text \<open>The check of one value against the type of its definition, when that type is a pattern.\<close>

definition check_value :: "cfg_env \<Rightarrow> config_item \<Rightarrow> config_item \<Rightarrow> pos \<Rightarrow> string \<Rightarrow> string \<Rightarrow> (bool \<times> string) option" where
  "check_value e defn croot par ty v =
     (if get_pattern e ty = None then Some (True, v) else pattern_valid e defn croot (Some par) ty v)"

text \<open>
  The loop over the contents children \<^term>\<open>cs\<close>, after the children \<^term>\<open>pre\<close>, against the
  definition children \<^term>\<open>dch\<close>. \<^term>\<open>cpos\<close> is the position of their parent in the contents.
\<close>

fun validate_loop :: "cfg_env \<Rightarrow> config_item \<Rightarrow> config_item list \<Rightarrow> (config_item list \<Rightarrow> config_item) \<Rightarrow> pos \<Rightarrow>
    config_item list \<Rightarrow> config_item list \<Rightarrow> (bool \<times> config_item list) option" where
  "validate_loop e defn dch rebuild cpos pre [] = Some (True, pre)"
| "validate_loop e defn dch rebuild cpos pre (Item d ch # cs) =
     (case definition_for (c_name d) dch of
        None \<Rightarrow> Some (False, pre @ Item d ch # cs)
      | Some j \<Rightarrow>
          if \<not> c_template (dat (dch ! j)) then
            Option.bind
              (if c_node_type d = CONFIG_NT_ITEM
               then check_value e defn (rebuild (pre @ Item d ch # cs)) cpos (c_type (dat (dch ! j))) (c_value d)
               else Some (True, c_value d))
              (\<lambda>r. let d' = d\<lparr>c_value := snd r\<rparr> in
                if \<not> fst r then Some (False, pre @ Item d' ch # cs)
                else Option.bind (validate_loop e defn (children (dch ! j))
                       (\<lambda>x. rebuild (pre @ Item d' x # cs)) (cpos @ [length pre]) [] ch)
                  (\<lambda>s. if \<not> fst s then Some (False, pre @ Item d' (snd s) # cs)
                       else validate_loop e defn dch rebuild cpos (pre @ [Item d' (snd s)]) cs))
          else if c_node_type d \<noteq> CONFIG_NT_BLOCK then Some (False, pre @ Item d ch # cs)
          else Option.bind (validate_loop e defn (map (copy_tree CONFIG_NS_UNKNOWN) (children (dch ! j)))
                 (\<lambda>x. rebuild (pre @ Item d x # cs)) (cpos @ [length pre]) [] ch)
            (\<lambda>s. if \<not> fst s then Some (False, pre @ Item d (snd s) # cs)
                 else validate_loop e defn dch rebuild cpos (pre @ [Item d (snd s)]) cs))"

definition validate :: "cfg_env \<Rightarrow> config_item \<Rightarrow> config_item \<Rightarrow> config_item \<Rightarrow> (bool \<times> config_item) option" where
  "validate e root defn contents = map_option (\<lambda>(r, cs). (r, Item (dat contents) cs))
     (validate_loop e root (children defn) (Item (dat contents)) [] [] (children contents))"

section \<open>Sorting\<close>

fun strcmp_less :: "string \<Rightarrow> string \<Rightarrow> bool" where
  "strcmp_less _ [] = False"
| "strcmp_less [] (_ # _) = True"
| "strcmp_less (a # s) (b # t) =
     (if a = b then strcmp_less s t else (of_char a :: nat) < of_char b)"

text \<open>\<^verbatim>\<open>ConfigItemSort\<close>: by the integer value of the sort node when both nodes have one.\<close>

definition config_item_sort :: "cfg_env \<Rightarrow> config_item \<Rightarrow> config_item \<Rightarrow> bool" where
  "config_item_sort e i j = (let by_name = strcmp_less (c_name (dat i)) (c_name (dat j)) in
     case (c_sort_node (dat i), c_sort_node (dat j)) of
       (Some a, Some b) \<Rightarrow> (case (look_up e i [] a, look_up e j [] b) of
           (Some (Some s1), Some (Some s2)) \<Rightarrow>
             sint (if c_value (dat s1) \<noteq> [] then e_atoi e (c_value (dat s1)) else 0)
               < sint (if c_value (dat s2) \<noteq> [] then e_atoi e (c_value (dat s2)) else 0)
         | _ \<Rightarrow> by_name)
     | _ \<Rightarrow> by_name)"

definition sort_tail :: "cfg_env \<Rightarrow> config_item list \<Rightarrow> config_item list" where
  "sort_tail e cs = take 1 cs @ e_sort e (config_item_sort e) (drop 1 cs)"

section \<open>Merging\<close>

text \<open>The definition node a matched value is stored in.\<close>

definition store_value :: "bool \<Rightarrow> string \<Rightarrow> cfg_data \<Rightarrow> cfg_data" where
  "store_value sns v d = (let d1 = (if \<not> sns then d\<lparr>c_value := v\<rparr> else d); d2 = d1\<lparr>c_new_value := v\<rparr>
     in if sns then set_state CONFIG_NS_MODIFIED d2 else d2)"

definition from_template :: "bool \<Rightarrow> string \<Rightarrow> config_item \<Rightarrow> config_item" where
  "from_template sns n tmpl = (let d = new_data\<lparr>c_node_type := CONFIG_NT_BLOCK,
       c_sort_node := c_sort_node (dat tmpl), c_name := n, c_empty := c_empty (dat tmpl)\<rparr>;
     d' = (if sns then (set_state CONFIG_NS_MODIFIED d)\<lparr>c_new := True\<rparr> else d)
     in copy_nodes tmpl (Item d' []) CONFIG_NS_UNKNOWN)"

text \<open>The template-based node with the name, after the template at index 0.\<close>

definition instance_of :: "string \<Rightarrow> config_item list \<Rightarrow> nat option" where
  "instance_of n dch = map_option Suc (find_index (\<lambda>c. c_name (dat c) = n) (drop 1 dch))"

text \<open>
  The loop of \<^verbatim>\<open>merge\<close>. The result is the return code (0, or 1 on error), the definition children
  and the contents children after it; \<^term>\<open>droot\<close> and \<^term>\<open>croot\<close> give the whole trees. A node
  created from a template joins the definition only after its contents are merged.
\<close>

fun merge_loop :: "cfg_env \<Rightarrow> bool \<Rightarrow> (config_item list \<Rightarrow> config_item) \<Rightarrow> config_item list \<Rightarrow>
    (config_item list \<Rightarrow> config_item) \<Rightarrow> pos \<Rightarrow> config_item list \<Rightarrow> config_item list \<Rightarrow>
    (nat \<times> config_item list \<times> config_item list) option" where
  "merge_loop e sns droot dch croot cpos pre [] = Some (0, dch, pre)"
| "merge_loop e sns droot dch croot cpos pre (Item d ch # cs) =
     (case definition_for (c_name d) dch of
        None \<Rightarrow> Some (1, dch, pre @ Item d ch # cs)
      | Some j \<Rightarrow>
          if \<not> c_template (dat (dch ! j)) then
            (let ty = c_type (dat (dch ! j));
                 d1 = (if c_node_type d = CONFIG_NT_ITEM \<and> get_pattern e ty \<noteq> None then d\<lparr>c_type := ty\<rparr> else d)
             in Option.bind
               (if c_node_type d = CONFIG_NT_ITEM
                then check_value e (droot dch) (croot (pre @ Item d1 ch # cs)) cpos ty (c_value d)
                else Some (True, c_value d))
               (\<lambda>r. let d2 = d1\<lparr>c_value := snd r\<rparr> in
                 if \<not> fst r then Some (1, dch, pre @ Item d2 ch # cs)
                 else let nd = (if c_node_type d = CONFIG_NT_ITEM then store_value sns (snd r) (dat (dch ! j))
                                else dat (dch ! j))
                      in Option.bind (merge_loop e sns (\<lambda>x. droot (dch[j := Item nd x])) (children (dch ! j))
                             (\<lambda>x. croot (pre @ Item d2 x # cs)) (cpos @ [length pre]) [] ch)
                        (\<lambda>s. let dch' = dch[j := Item nd (fst (snd s))]
                             in if fst s \<noteq> 0 then Some (fst s, dch', pre @ Item d2 (snd (snd s)) # cs)
                                else merge_loop e sns droot dch' croot cpos (pre @ [Item d2 (snd (snd s))]) cs)))
          else if c_node_type d \<noteq> CONFIG_NT_BLOCK then Some (1, dch, pre @ Item d ch # cs)
          else Option.bind
            (check_value e (droot dch) (croot (pre @ Item d ch # cs)) cpos (c_type (dat (dch ! j))) (c_name d))
            (\<lambda>r. let d2 = d\<lparr>c_name := snd r\<rparr> in
              if \<not> fst r then Some (1, dch, pre @ Item d2 ch # cs)
              else case (if sns then instance_of (snd r) dch else None) of
                Some k \<Rightarrow>
                  (let nd = not_new (set_state CONFIG_NS_MODIFIED (dat (dch ! k)))
                   in Option.bind (merge_loop e sns (\<lambda>x. droot (dch[k := Item nd x])) (children (dch ! k))
                          (\<lambda>x. croot (pre @ Item d2 x # cs)) (cpos @ [length pre]) [] ch)
                     (\<lambda>s. let dch' = dch[k := Item nd (fst (snd s))]
                          in if fst s \<noteq> 0 then Some (fst s, dch', pre @ Item d2 (snd (snd s)) # cs)
                             else merge_loop e sns droot dch' croot cpos (pre @ [Item d2 (snd (snd s))]) cs))
              | None \<Rightarrow>
                  (let new = from_template sns (snd r) (dch ! j)
                   in Option.bind (merge_loop e sns (\<lambda>x. droot dch) (children new)
                          (\<lambda>x. croot (pre @ Item d2 x # cs)) (cpos @ [length pre]) [] ch)
                     (\<lambda>s. if fst s \<noteq> 0 then Some (fst s, dch, pre @ Item d2 (snd (snd s)) # cs)
                          else let dch1 = dch @ [Item (dat new) (fst (snd s))];
                                   dch' = (if c_empty (dat new) then dch1 else sort_tail e dch1)
                            in merge_loop e sns droot dch' croot cpos (pre @ [Item d2 (snd (snd s))]) cs))))"

definition merge :: "cfg_env \<Rightarrow> (config_item \<Rightarrow> config_item) \<Rightarrow> config_item \<Rightarrow> config_item \<Rightarrow> bool \<Rightarrow>
    (nat \<times> config_item \<times> config_item) option" where
  "merge e root defn contents sns = map_option (\<lambda>(r, ds, cs). (r, Item (dat defn) ds, Item (dat contents) cs))
     (merge_loop e sns (\<lambda>x. root (Item (dat defn) x)) (children defn) (Item (dat contents)) [] []
        (children contents))"

section \<open>What a successful merge stores\<close>

text \<open>Templates stand first among their siblings, everywhere in a definition.\<close>

fun wf_node :: "config_item \<Rightarrow> bool" where
  "wf_node (Item d cs) \<longleftrightarrow> no_template (drop 1 cs) \<and> list_all wf_node cs"

definition wf_items :: "config_item list \<Rightarrow> bool" where
  "wf_items cs \<longleftrightarrow> no_template (drop 1 cs) \<and> list_all wf_node cs"

lemma wf_node_items: "wf_node c \<longleftrightarrow> wf_items (children c)"
  by (cases c) (simp add: wf_items_def)

lemma copy_tree_template [simp]: "c_template (dat (copy_tree s c)) = c_template (dat c)"
  by (cases c) (simp add: copy_data_def)

lemma no_template_copy [simp]: "no_template (map (copy_tree s) cs) = no_template cs"
  by (simp add: no_template_def list_all_iff)

lemma wf_node_copy: "wf_node c \<Longrightarrow> wf_node (copy_tree s c)"
  by (induction c) (simp add: drop_map list_all_iff)

lemma wf_items_copy: "wf_items cs \<Longrightarrow> wf_items (map (copy_tree s) cs)"
  by (simp add: wf_items_def drop_map list_all_iff wf_node_copy)

lemma wf_items_nth: "wf_items dch \<Longrightarrow> j < length dch \<Longrightarrow> wf_items (children (dch ! j))"
  by (simp add: wf_items_def [of dch] list_all_iff flip: wf_node_items)

lemma wf_items_update:
  assumes "wf_items dch" and "j < length dch" and "c_template (dat c) = c_template (dat (dch ! j))"
    and "wf_items (children c)"
  shows "wf_items (dch[j := c])"
proof -
  have "no_template (drop 1 (dch[j := c]))"
  proof (cases j)
    case 0
    then show ?thesis using assms(1) by (simp add: wf_items_def)
  next
    case (Suc i)
    then have "dch ! j \<in> set (drop 1 dch)" using assms(2) by (auto simp: in_set_conv_nth intro!: exI [of _ i])
    then have "\<not> c_template (dat c)" using assms(1,3) by (auto simp: wf_items_def no_template_def list_all_iff)
    moreover have "drop 1 (dch[j := c]) = (drop 1 dch)[i := c]" using Suc by (simp add: drop_update_swap)
    ultimately show ?thesis
      using assms(1) set_update_subset_insert [of "drop 1 dch" i c]
      by (auto simp: wf_items_def no_template_def list_all_iff)
  qed
  moreover have "list_all wf_node (dch[j := c])"
    using assms(1,4) set_update_subset_insert [of dch j c]
    by (auto simp: wf_items_def [of dch] list_all_iff wf_node_items [of c])
  ultimately show ?thesis by (simp add: wf_items_def)
qed

lemma wf_items_snoc:
  "wf_items dch \<Longrightarrow> dch \<noteq> [] \<Longrightarrow> \<not> c_template (dat c) \<Longrightarrow> wf_items (children c) \<Longrightarrow> wf_items (dch @ [c])"
  by (cases dch) (auto simp: wf_items_def wf_node_items no_template_def)

text \<open>What the standard promises of \<^verbatim>\<open>std::sort\<close> for any comparison: a permutation.\<close>

definition sort_ok :: "cfg_env \<Rightarrow> bool" where
  "sort_ok e \<longleftrightarrow> (\<forall>lt xs. mset (e_sort e lt xs) = mset xs)"

lemma sort_set: "sort_ok e \<Longrightarrow> set (e_sort e lt xs) = set xs"
  unfolding sort_ok_def by (metis set_mset_mset)

lemma sort_tail_set: "sort_ok e \<Longrightarrow> set (sort_tail e cs) = set cs"
  by (metis append_take_drop_id set_append sort_set sort_tail_def)

lemma sort_tail_wf: "sort_ok e \<Longrightarrow> wf_items cs \<Longrightarrow> wf_items (sort_tail e cs)"
proof -
  assume e: "sort_ok e" and w: "wf_items cs"
  have "length (take 1 cs) \<le> 1" by simp
  then have "set (drop 1 (sort_tail e cs)) \<subseteq> set (drop 1 cs)"
    using sort_set [OF e, of "config_item_sort e" "drop 1 cs"] by (cases cs) (auto simp: sort_tail_def)
  with w sort_tail_set [OF e, of cs] show ?thesis
    by (auto simp: wf_items_def no_template_def list_all_iff)
qed

text \<open>
  \<^term>\<open>stored sns d n\<close>: the definition node \<^term>\<open>n\<close> carries the contents node \<^term>\<open>d\<close>.
\<close>

definition stored :: "bool \<Rightarrow> cfg_data \<Rightarrow> cfg_data \<Rightarrow> bool" where
  "stored sns d n \<longleftrightarrow> c_name n = c_name d \<and> \<not> c_template n \<and>
     (c_node_type d = CONFIG_NT_ITEM \<longrightarrow> c_new_value n = c_value d \<and>
        (if sns then c_node_state n = CONFIG_NS_MODIFIED else c_value n = c_value d))"

fun applied :: "bool \<Rightarrow> config_item list \<Rightarrow> config_item list \<Rightarrow> bool" where
  "applied sns dch [] = True"
| "applied sns dch (Item d ch # cs) \<longleftrightarrow>
     (\<exists>n \<in> set dch. stored sns d (dat n) \<and> applied sns (children n) ch) \<and> applied sns dch cs"

abbreviation names :: "config_item list \<Rightarrow> string list" where
  "names cs \<equiv> map (\<lambda>c. c_name (dat c)) cs"

fun distinct_items :: "config_item list \<Rightarrow> bool" where
  "distinct_items [] = True"
| "distinct_items (Item d ch # cs) \<longleftrightarrow>
     c_name d \<notin> set (names cs) \<and> distinct_items ch \<and> distinct_items cs"

lemma applied_mono:
  "applied sns dch cs \<Longrightarrow> \<forall>n \<in> set dch. c_name (dat n) \<in> set (names cs) \<longrightarrow> n \<in> set dch' \<Longrightarrow> applied sns dch' cs"
proof (induction cs)
  case Nil
  then show ?case by simp
next
  case (Cons c cs)
  obtain d ch where c: "c = Item d ch" by (cases c)
  from Cons show ?case by (auto simp: c stored_def)
qed

lemma definition_for_Some:
  "definition_for n dch = Some j \<Longrightarrow> j < length dch \<and> (c_template (dat (dch ! j)) \<or> c_name (dat (dch ! j)) = n)"
  by (auto simp: definition_for_def dest: find_index_Some)

lemma instance_of_Some:
  "instance_of n dch = Some k \<Longrightarrow> 0 < k \<and> k < length dch \<and> c_name (dat (dch ! k)) = n"
  by (auto simp: instance_of_def dest!: find_index_Some)

lemma nth_tail_template: "wf_items dch \<Longrightarrow> 0 < k \<Longrightarrow> k < length dch \<Longrightarrow> \<not> c_template (dat (dch ! k))"
  by (cases dch; cases k) (auto simp: wf_items_def no_template_def list_all_length)

lemma store_value_frame [simp]:
  "c_template (store_value sns v d) = c_template d" "c_name (store_value sns v d) = c_name d"
  "c_new_value (store_value sns v d) = v"
  "sns \<Longrightarrow> c_node_state (store_value sns v d) = CONFIG_NS_MODIFIED"
  "\<not> sns \<Longrightarrow> c_value (store_value sns v d) = v"
  by (simp_all add: store_value_def Let_def)

lemma from_template_frame [simp]:
  "c_template (dat (from_template sns n t)) = False" "c_name (dat (from_template sns n t)) = n"
  "children (from_template sns n t) = map (copy_tree CONFIG_NS_UNKNOWN) (children t)"
  by (simp_all add: from_template_def Let_def copy_nodes_def new_data_def)

lemma code_bind:
  fixes M :: "(nat \<times> 'a \<times> 'b) option"
  assumes "Option.bind M (\<lambda>s. if fst s \<noteq> 0 then Some (fst s, E s) else R s) = Some (0, z)"
  shows "\<exists>x y. M = Some (0, x, y) \<and> R (0, x, y) = Some (0, z)"
proof -
  obtain n x y where m: "M = Some (n, x, y)" using assms by (cases M) auto
  have "n = 0" by (rule ccontr) (use assms m in simp)
  with assms m show ?thesis by simp
qed

lemma checked_bind:
  fixes M :: "bool \<times> 'v \<Rightarrow> (nat \<times> 'a \<times> 'b) option"
  assumes "Option.bind chk (\<lambda>r. if \<not> fst r then Some (1 :: nat, D r)
      else Option.bind (M r) (\<lambda>s. if fst s \<noteq> 0 then Some (fst s, E r s) else R r s)) = Some (0, z)"
  shows "\<exists>v x y. chk = Some (True, v) \<and> M (True, v) = Some (0, x, y) \<and> R (True, v) (0, x, y) = Some (0, z)"
proof -
  obtain b v where chk: "chk = Some (b, v)" using assms by (cases chk) auto
  have b: "b" by (rule ccontr) (use assms chk in simp)
  obtain n x y where m: "M (True, v) = Some (n, x, y)"
    using assms chk b by (cases "M (True, v)") auto
  have "n = 0" by (rule ccontr) (use assms chk b m in simp)
  with assms chk b m show ?thesis by simp
qed

text \<open>
  One step of a successful merge: the first contents node is stored in a node \<^term>\<open>n\<close> of the
  definition, the other definition nodes stay, and the rest is merged into the result.
\<close>

lemma merge_step:
  assumes run: "merge_loop e sns droot dch croot cpos pre (Item d ch # cs) = Some (0, dch', cs')"
    and wf: "wf_items dch" and e: "sort_ok e"
  obtains d2 ch2 n dch1 base droot' croot' where
    "merge_loop e sns droot dch1 croot cpos (pre @ [Item d2 ch2]) cs = Some (0, dch', cs')"
    and "merge_loop e sns droot' base croot' (cpos @ [length pre]) [] ch = Some (0, children n, ch2)"
    and "wf_items base" and "n \<in> set dch1" and "stored sns d2 (dat n)"
    and "wf_items (children n) \<Longrightarrow> wf_items dch1"
    and "\<forall>m \<in> set dch. c_name (dat m) \<noteq> c_name d2 \<longrightarrow> m \<in> set dch1"
proof -
  from run obtain j where j: "definition_for (c_name d) dch = Some j" by (auto split: option.splits)
  have jl: "j < length dch" and jn: "c_template (dat (dch ! j)) \<or> c_name (dat (dch ! j)) = c_name d"
    using definition_for_Some [OF j] by auto
  have keep: "\<forall>m \<in> set dch. c_name (dat m) \<noteq> c_name (dat (dch ! i)) \<longrightarrow> m \<in> set (dch[i := x])"
    if "i < length dch" for i x
    using that by (auto simp: in_set_conv_nth) (metis length_list_update nth_list_update_neq)
  show thesis
  proof (cases "c_template (dat (dch ! j))")
    case False
    let ?ty = "c_type (dat (dch ! j))"
    define d1 where "d1 = (if c_node_type d = CONFIG_NT_ITEM \<and> get_pattern e ?ty \<noteq> None then d\<lparr>c_type := ?ty\<rparr> else d)"
    define chk where "chk = (if c_node_type d = CONFIG_NT_ITEM
        then check_value e (droot dch) (croot (pre @ Item d1 ch # cs)) cpos ?ty (c_value d)
        else Some (True, c_value d))"
    have "Option.bind chk (\<lambda>r. if \<not> fst r then Some (1, dch, pre @ Item (d1\<lparr>c_value := snd r\<rparr>) ch # cs)
        else Option.bind (merge_loop e sns (\<lambda>x. droot (dch[j := Item (if c_node_type d = CONFIG_NT_ITEM
              then store_value sns (snd r) (dat (dch ! j)) else dat (dch ! j)) x])) (children (dch ! j))
              (\<lambda>x. croot (pre @ Item (d1\<lparr>c_value := snd r\<rparr>) x # cs)) (cpos @ [length pre]) [] ch)
          (\<lambda>s. if fst s \<noteq> 0 then Some (fst s, dch[j := Item (if c_node_type d = CONFIG_NT_ITEM
              then store_value sns (snd r) (dat (dch ! j)) else dat (dch ! j)) (fst (snd s))],
                 pre @ Item (d1\<lparr>c_value := snd r\<rparr>) (snd (snd s)) # cs)
               else merge_loop e sns droot (dch[j := Item (if c_node_type d = CONFIG_NT_ITEM
              then store_value sns (snd r) (dat (dch ! j)) else dat (dch ! j)) (fst (snd s))]) croot cpos
                 (pre @ [Item (d1\<lparr>c_value := snd r\<rparr>) (snd (snd s))]) cs)) = Some (0, dch', cs')"
      using run False by (simp only: merge_loop.simps j option.case Let_def d1_def chk_def if_True simp_thms)
    from checked_bind [OF this] obtain v x ch2 where v: "chk = Some (True, v)"
      and x': "merge_loop e sns (\<lambda>x. droot (dch[j := Item (if c_node_type d = CONFIG_NT_ITEM
              then store_value sns v (dat (dch ! j)) else dat (dch ! j)) x])) (children (dch ! j))
              (\<lambda>x. croot (pre @ Item (d1\<lparr>c_value := v\<rparr>) x # cs)) (cpos @ [length pre]) [] ch = Some (0, x, ch2)"
      and rest': "merge_loop e sns droot (dch[j := Item (if c_node_type d = CONFIG_NT_ITEM
              then store_value sns v (dat (dch ! j)) else dat (dch ! j)) x]) croot cpos
                 (pre @ [Item (d1\<lparr>c_value := v\<rparr>) ch2]) cs = Some (0, dch', cs')"
      unfolding fst_conv snd_conv by blast
    define nd where "nd = (if c_node_type d = CONFIG_NT_ITEM then store_value sns v (dat (dch ! j)) else dat (dch ! j))"
    define d2 where "d2 = d1\<lparr>c_value := v\<rparr>"
    note x = x' [folded nd_def d2_def] and rest = rest' [folded nd_def d2_def]
    have "stored sns d2 nd"
      using False jn by (auto simp: stored_def nd_def d2_def d1_def)
    moreover have "c_name nd = c_name d2" using False jn by (auto simp: nd_def d2_def d1_def)
    ultimately show thesis
      using that [OF rest, of "\<lambda>x. droot (dch[j := Item nd x])" "children (dch ! j)" "\<lambda>x. croot (pre @ Item d2 x # cs)" "Item nd x"] x
        wf_items_nth [OF wf jl] set_update_memI [OF jl] keep [OF jl] False jn
        wf_items_update [OF wf jl, of "Item nd x"]
      by (auto simp: nd_def d2_def d1_def split: if_splits)
  next
    case True
    then have ty: "c_node_type d = CONFIG_NT_BLOCK"
      using run by (rule_tac ccontr) (simp add: j)
    obtain b name where chk: "check_value e (droot dch) (croot (pre @ Item d ch # cs)) cpos
        (c_type (dat (dch ! j))) (c_name d) = Some (b, name)"
      using run True ty by (auto simp: j bind_eq_Some_conv)
    have b: "b" by (rule ccontr) (use run True ty chk in \<open>simp add: j Let_def\<close>)
    define d2 where "d2 = d\<lparr>c_name := name\<rparr>"
    have run2: "(case (if sns then instance_of name dch else None) of
                Some k \<Rightarrow> Option.bind (merge_loop e sns (\<lambda>x. droot (dch[k := Item (not_new (set_state CONFIG_NS_MODIFIED (dat (dch ! k)))) x])) (children (dch ! k))
                          (\<lambda>x. croot (pre @ Item d2 x # cs)) (cpos @ [length pre]) [] ch)
                     (\<lambda>s. if fst s \<noteq> 0 then Some (fst s, dch[k := Item (not_new (set_state CONFIG_NS_MODIFIED (dat (dch ! k)))) (fst (snd s))], pre @ Item d2 (snd (snd s)) # cs)
                             else merge_loop e sns droot (dch[k := Item (not_new (set_state CONFIG_NS_MODIFIED (dat (dch ! k)))) (fst (snd s))]) croot cpos (pre @ [Item d2 (snd (snd s))]) cs)
              | None \<Rightarrow> Option.bind (merge_loop e sns (\<lambda>x. droot dch) (children (from_template sns name (dch ! j)))
                          (\<lambda>x. croot (pre @ Item d2 x # cs)) (cpos @ [length pre]) [] ch)
                     (\<lambda>s. if fst s \<noteq> 0 then Some (fst s, dch, pre @ Item d2 (snd (snd s)) # cs)
                          else merge_loop e sns droot
                            (if c_empty (dat (from_template sns name (dch ! j)))
                             then dch @ [Item (dat (from_template sns name (dch ! j))) (fst (snd s))]
                             else sort_tail e (dch @ [Item (dat (from_template sns name (dch ! j))) (fst (snd s))]))
                            croot cpos (pre @ [Item d2 (snd (snd s))]) cs)) = Some (0, dch', cs')"
      using run True ty chk b
      by (simp only: merge_loop.simps j option.case Let_def d2_def if_True if_False simp_thms bind.simps
          fst_conv snd_conv)
    have st: "stored sns d2 n" if "c_name n = name" "\<not> c_template n" for n
      using that ty by (simp add: stored_def d2_def)
    show thesis
    proof (cases "if sns then instance_of name dch else None")
      case (Some k)
      then have k: "0 < k" "k < length dch" "c_name (dat (dch ! k)) = name"
        by (auto dest: instance_of_Some split: if_splits)
      define nd where "nd = not_new (set_state CONFIG_NS_MODIFIED (dat (dch ! k)))"
      from code_bind [OF run2 [unfolded Some option.case]] obtain x ch2
        where x: "merge_loop e sns (\<lambda>x. droot (dch[k := Item nd x])) (children (dch ! k))
            (\<lambda>x. croot (pre @ Item d2 x # cs)) (cpos @ [length pre]) [] ch = Some (0, x, ch2)"
        and rest: "merge_loop e sns droot (dch[k := Item nd x]) croot cpos (pre @ [Item d2 ch2]) cs = Some (0, dch', cs')"
        unfolding fst_conv snd_conv nd_def by blast
      show thesis
        using that [OF rest, of "\<lambda>x. droot (dch[k := Item nd x])" "children (dch ! k)" "\<lambda>x. croot (pre @ Item d2 x # cs)" "Item nd x"] x
          wf_items_nth [OF wf k(2)] set_update_memI [OF k(2)] keep [OF k(2)] k nth_tail_template [OF wf k(1,2)]
          wf_items_update [OF wf k(2), of "Item nd x"] st [of nd]
        by (auto simp: nd_def d2_def)
    next
      case None
      define new where "new = from_template sns name (dch ! j)"
      from code_bind [OF run2 [unfolded None option.case]] obtain x ch2
        where x: "merge_loop e sns (\<lambda>x. droot dch) (children new)
            (\<lambda>x. croot (pre @ Item d2 x # cs)) (cpos @ [length pre]) [] ch = Some (0, x, ch2)"
        and rest: "merge_loop e sns droot (if c_empty (dat new) then dch @ [Item (dat new) x]
            else sort_tail e (dch @ [Item (dat new) x])) croot cpos (pre @ [Item d2 ch2]) cs = Some (0, dch', cs')"
        unfolding fst_conv snd_conv new_def by blast
      have "dch \<noteq> []" using jl by auto
      then show thesis
        using that [OF rest, of "\<lambda>x. droot dch" "children new" "\<lambda>x. croot (pre @ Item d2 x # cs)" "Item (dat new) x"] x
          wf_items_copy [OF wf_items_nth [OF wf jl]] st [of "dat new"] sort_tail_set [OF e] sort_tail_wf [OF e]
          wf_items_snoc [OF wf, of "Item (dat new) x"]
        by (auto simp: new_def)
    qed
  qed
qed

lemma merge_stores:
  assumes "merge_loop e sns droot dch croot cpos pre cs = Some (0, dch', cs')"
    and "wf_items dch" and "sort_ok e"
  shows "\<exists>cs1. cs' = pre @ cs1 \<and> length cs1 = length cs \<and> wf_items dch' \<and>
    (\<forall>n \<in> set dch. c_name (dat n) \<notin> set (names cs1) \<longrightarrow> n \<in> set dch') \<and>
    (distinct_items cs1 \<longrightarrow> applied sns dch' cs1)"
  using assms
proof (induction cs arbitrary: droot dch croot cpos pre dch' cs' rule: items_induct)
  case Nil
  then show ?case by simp
next
  case (Item d ch cs)
  from Item.prems obtain d2 ch2 n dch1 base droot' croot' where
    rest: "merge_loop e sns droot dch1 croot cpos (pre @ [Item d2 ch2]) cs = Some (0, dch', cs')"
    and sub: "merge_loop e sns droot' base croot' (cpos @ [length pre]) [] ch = Some (0, children n, ch2)"
    and wfb: "wf_items base" and n: "n \<in> set dch1" "stored sns d2 (dat n)"
    and wf1: "wf_items (children n) \<Longrightarrow> wf_items dch1"
    and keep: "\<forall>m \<in> set dch. c_name (dat m) \<noteq> c_name d2 \<longrightarrow> m \<in> set dch1"
    by (rule merge_step) blast
  from Item.IH(1) [OF sub wfb Item.prems(3)] have
    "wf_items (children n)" and app: "distinct_items ch2 \<longrightarrow> applied sns (children n) ch2" by auto
  from Item.IH(2) [OF rest wf1 [OF this(1)] Item.prems(3)] obtain cs1 where
    cs1: "cs' = pre @ Item d2 ch2 # cs1" "length cs1 = length cs" "wf_items dch'"
      "\<forall>m \<in> set dch1. c_name (dat m) \<notin> set (names cs1) \<longrightarrow> m \<in> set dch'"
      "distinct_items cs1 \<longrightarrow> applied sns dch' cs1" by auto
  have "distinct_items (Item d2 ch2 # cs1) \<longrightarrow> applied sns dch' (Item d2 ch2 # cs1)"
    using n app cs1(4,5) by (auto simp: stored_def)
  moreover have "\<forall>m \<in> set dch. c_name (dat m) \<notin> set (names (Item d2 ch2 # cs1)) \<longrightarrow> m \<in> set dch'"
    using keep cs1(4) by simp
  ultimately show ?case
    using cs1 by (intro exI [of _ "Item d2 ch2 # cs1"] conjI) simp_all
qed

section \<open>Properties\<close>

text \<open>
  C18. A successful merge stores the contents: for contents without duplicate names (after the quotes
  were stripped), every contents node has a definition node of its name below the node of its
  parent, and every value node's value is the definition's new value there, marked modified
  (when node states are set), or already its committed value (when not). Templates stay first, and
  the direct children of the merged definition node whose names the contents do not have are the
  very same nodes as before.
\<close>

theorem merge_stores_contents:
  assumes "merge e root defn contents sns = Some (0, defn', contents')"
    and "wf_node defn" and "sort_ok e" and "distinct_items (children contents')"
  shows "applied sns (children defn') (children contents') \<and> wf_node defn' \<and> dat defn' = dat defn \<and>
    (\<forall>n \<in> set (children defn). n \<in> set (children defn') \<or> c_name (dat n) \<in> set (names (children contents')))"
proof -
  from assms(1) obtain ds cs where "merge_loop e sns (\<lambda>x. root (Item (dat defn) x)) (children defn)
      (Item (dat contents)) [] [] (children contents) = Some (0, ds, cs)"
    and "defn' = Item (dat defn) ds" "contents' = Item (dat contents) cs"
    by (auto simp: merge_def)
  with merge_stores [OF this(1)] assms(2-4) show ?thesis by (auto simp: wf_node_items)
qed

text \<open>A definition with a port and a list of hosts from a template, and contents for it.\<close>

definition demo_env :: cfg_env where
  "demo_env = \<lparr>e_patterns = [\<lparr>p_name = ''int'', p_pattern = ''[0-9]+'', p_desc = []\<rparr>],
     e_regex = (\<lambda>_ v. Some (list_all (\<lambda>c. c \<in> set ''0123456789'') v)), e_split = (\<lambda>s. Some [s]),
     e_atoi = (\<lambda>_. 0), e_sort = (\<lambda>_ cs. cs)\<rparr>"

definition demo_defn :: config_item where
  "demo_defn = block ''ROOT'' [Item ((dat (leaf ''port'' [] [] CONFIG_NS_READY))\<lparr>c_type := ''int''\<rparr>) [],
     block ''hosts'' [Item ((dat (block ''host'' []))\<lparr>c_template := True\<rparr>) [leaf ''ip'' [] [] CONFIG_NS_READY]]]"

definition demo_contents :: config_item where
  "demo_contents = block ''ROOT'' [leaf ''port'' [CHR 0x22, CHR ''7'', CHR 0x22] [] CONFIG_NS_READY,
     block ''hosts'' [block ''a'' [leaf ''ip'' ''9'' [] CONFIG_NS_READY]]]"

theorem merge_stores_contents_witness:
  "\<exists>d c. merge demo_env id demo_defn demo_contents True = Some (0, d, c) \<and>
     applied True (children d) (children c) \<and>
     map (c_new_value \<circ> dat) (children d) = [''7'', []]"
proof -
  define r where "r = the (merge demo_env id demo_defn demo_contents True)"
  have run: "merge demo_env id demo_defn demo_contents True = Some (0, fst (snd r), snd (snd r))"
    "distinct_items (children (snd (snd r)))" "map (c_new_value \<circ> dat) (children (fst (snd r))) = [''7'', []]"
    unfolding r_def by code_simp+
  moreover have "wf_node demo_defn" by code_simp
  moreover have "sort_ok demo_env" by (simp add: sort_ok_def demo_env_def)
  ultimately have "applied True (children (fst (snd r))) (children (snd (snd r)))"
    using merge_stores_contents [OF run(1)] by simp
  with run show ?thesis by (intro exI conjI)
qed

end
