(* ===== verification/ConfigState.thy ===== *)
theory ConfigState
  imports ConfigMerge
begin

text \<open>
  The state of \<^verbatim>\<open>Config\<close> around the tree (\<^verbatim>\<open>src/src/cfg/mink_config.cpp\<close>): the users with their
  working nodes, the transaction and its owner, and the registered notifications. Time is passed
  in; a notification is its address and its path; the mutex of \<^verbatim>\<open>lock\<close> is not modelled.
\<close>

section \<open>Users\<close>

record user_id =
  user_type :: octets
  user_id :: octets

definition new_user_id :: user_id where
  "new_user_id = \<lparr>user_type = replicate 16 0, user_id = replicate 46 0\<rparr>"

text \<open>The sign of \<^verbatim>\<open>memcmp\<close> on arrays of the same size.\<close>

fun memcmp_less :: "octets \<Rightarrow> octets \<Rightarrow> bool" where
  "memcmp_less [] _ = False"
| "memcmp_less _ [] = False"
| "memcmp_less (a # x) (b # y) = (if a = b then memcmp_less x y else a < b)"

definition user_id_neq :: "user_id \<Rightarrow> user_id \<Rightarrow> bool" where
  "user_id_neq x y \<longleftrightarrow> user_id x \<noteq> user_id y \<or> user_type x \<noteq> user_type y"

definition user_id_eq :: "user_id \<Rightarrow> user_id \<Rightarrow> bool" where
  "user_id_eq x y \<longleftrightarrow> user_id x = user_id y \<and> user_type x = user_type y"

definition user_id_compare :: "user_id \<Rightarrow> user_id \<Rightarrow> bool" where
  "user_id_compare x y \<longleftrightarrow> memcmp_less (user_id x) (user_id y)"

record user_info =
  ui_timestamp :: int
  ui_wnode :: pos

section \<open>State\<close>

record config =
  cf_definition :: "config_item option"
  cf_current :: "pos option"
  cf_transaction :: bool
  cf_owner :: user_id
  usr_path_map :: "(user_id \<times> user_info) list"
  notifications :: "(nat \<times> string) list"

definition new_config :: config where
  "new_config = \<lparr>cf_definition = None, cf_current = None, cf_transaction = False, cf_owner = new_user_id,
     usr_path_map = [], notifications = []\<rparr>"

definition load_definition :: "config_item \<Rightarrow> config \<Rightarrow> config" where
  "load_definition d c = c\<lparr>cf_definition := Some d, cf_current := Some []\<rparr>"

definition new_definition :: "config \<Rightarrow> config" where
  "new_definition c = load_definition
     (Item (new_data\<lparr>c_name := ''ROOT'', c_node_type := CONFIG_NT_BLOCK\<rparr>) []) c"

text \<open>Working nodes, by user; the definition root is the empty position.\<close>

definition get_definition_wn :: "user_id \<Rightarrow> config \<Rightarrow> user_info option" where
  "get_definition_wn u c = om_find user_id_compare u (usr_path_map c)"

definition reset_all_wns :: "config \<Rightarrow> config" where
  "reset_all_wns c = c\<lparr>usr_path_map := map (\<lambda>(u, i). (u, i\<lparr>ui_wnode := []\<rparr>)) (usr_path_map c)\<rparr>"

definition update_definition_wn :: "int \<Rightarrow> user_id \<Rightarrow> config \<Rightarrow> config" where
  "update_definition_wn now u c = (case get_definition_wn u c of
       Some i \<Rightarrow> c\<lparr>usr_path_map := om_insert user_id_compare u (i\<lparr>ui_timestamp := now\<rparr>) (usr_path_map c)\<rparr>
     | None \<Rightarrow> c\<lparr>usr_path_map := om_insert user_id_compare u
         \<lparr>ui_timestamp = now, ui_wnode = []\<rparr> (usr_path_map c)\<rparr>)"

definition set_definition_wn :: "user_id \<Rightarrow> user_info \<Rightarrow> config \<Rightarrow> config" where
  "set_definition_wn u i c = c\<lparr>usr_path_map := om_insert user_id_compare u i (usr_path_map c)\<rparr>"

definition remove_wn_user :: "user_id \<Rightarrow> config \<Rightarrow> config" where
  "remove_wn_user u c = c\<lparr>usr_path_map := om_erase user_id_compare u (usr_path_map c)\<rparr>"

text \<open>Notifications.\<close>

definition add_notification :: "nat \<times> string \<Rightarrow> config \<Rightarrow> config" where
  "add_notification n c = c\<lparr>notifications := notifications c @ [n]\<rparr>"

definition remove_notification :: "nat \<Rightarrow> config \<Rightarrow> nat option \<times> config" where
  "remove_notification a c = (case find_index (\<lambda>n. fst n = a) (notifications c) of
       Some i \<Rightarrow> (Some a, c\<lparr>notifications := erase_at i (notifications c)\<rparr>)
     | None \<Rightarrow> (None, c))"

definition get_notification :: "string \<Rightarrow> config \<Rightarrow> nat option" where
  "get_notification path c =
     map_option (\<lambda>i. fst (notifications c ! i)) (find_index (\<lambda>n. snd n = path) (notifications c))"

text \<open>Transactions.\<close>

definition set_transaction_owner :: "user_id \<Rightarrow> config \<Rightarrow> config" where
  "set_transaction_owner u c = c\<lparr>cf_owner := u\<rparr>"

definition get_transaction_owner :: "config \<Rightarrow> user_id" where
  "get_transaction_owner c = cf_owner c"

definition start_transaction :: "user_id \<Rightarrow> config \<Rightarrow> config" where
  "start_transaction u c = c\<lparr>cf_owner := u, cf_transaction := True\<rparr>"

definition end_transaction :: "config \<Rightarrow> config" where
  "end_transaction c = c\<lparr>cf_transaction := False\<rparr>"

definition transaction_started :: "config \<Rightarrow> bool" where
  "transaction_started c = cf_transaction c"

section \<open>The user map\<close>

text \<open>
  The comparison looks at the 46 octets of the id only, so the map behaves as one keyed by them.
\<close>

lemma memcmp_irrefl: "\<not> memcmp_less x x"
  by (induction x) auto

lemma memcmp_trans: "memcmp_less x y \<Longrightarrow> memcmp_less y z \<Longrightarrow> memcmp_less x z"
proof (induction x y arbitrary: z rule: memcmp_less.induct)
  case (3 a x b y)
  then show ?case by (cases z) (auto split: if_splits dest: order.strict_trans)
qed simp_all

lemma memcmp_total: "length x = length y \<Longrightarrow> memcmp_less x y \<or> x = y \<or> memcmp_less y x"
  by (induction x y rule: memcmp_less.induct) auto

text \<open>Ids of the fixed size, as a type's worth of keys, are totally ordered.\<close>

fun id_less :: "octets \<Rightarrow> octets \<Rightarrow> bool" where
  "id_less x y = (if length x = length y then memcmp_less x y else length x < length y)"

interpretation id_order: key_order id_less
proof
  fix a b c :: octets
  show "\<not> id_less a a" by (simp add: memcmp_irrefl)
  show "id_less a b \<Longrightarrow> id_less b c \<Longrightarrow> id_less a c"
    by (auto split: if_splits intro: memcmp_trans)
  show "id_less a b \<or> a = b \<or> id_less b a" using memcmp_total [of a b] by auto
qed

definition well_sized :: "config \<Rightarrow> bool" where
  "well_sized c \<longleftrightarrow> list_all (\<lambda>e. length (user_id (fst e)) = 46) (usr_path_map c)"

definition by_id :: "(user_id \<times> user_info) list \<Rightarrow> (octets \<times> user_info) list" where
  "by_id = map (\<lambda>(u, i). (user_id u, i))"

lemma by_id_ops:
  assumes "list_all (\<lambda>e. length (user_id (fst e)) = 46) m" and "length (user_id u) = 46"
  shows "om_find user_id_compare u m = om_find id_less (user_id u) (by_id m)"
    and "by_id (om_insert user_id_compare u i m) = om_insert id_less (user_id u) i (by_id m)"
    and "by_id (om_erase user_id_compare u m) = om_erase id_less (user_id u) (by_id m)"
  using assms by (induction m) (auto simp: by_id_def user_id_compare_def)

lemma insert_sized:
  "list_all (\<lambda>e. length (user_id (fst e)) = 46) m \<Longrightarrow> length (user_id u) = 46 \<Longrightarrow>
   list_all (\<lambda>e. length (user_id (fst e)) = 46) (om_insert user_id_compare u i m)"
  by (induction m) auto

section \<open>Properties\<close>

text \<open>
  The user map is keyed by the id alone: after a working node is set for a user, every user with
  the same id reads it, whatever the user type, although such users are not equal by
  \<^verbatim>\<open>operator==\<close>; users with another id read what they read before. A daemon that reuses the id of
  another daemon type therefore shares its working node.
\<close>

theorem working_node_by_id:
  assumes "well_sized c" and "length (user_id u) = 46" and "length (user_id w) = 46"
  shows "get_definition_wn w (set_definition_wn u i c)
       = (if user_id w = user_id u then Some i else get_definition_wn w c)"
  using assms
  by (simp add: get_definition_wn_def set_definition_wn_def well_sized_def by_id_ops insert_sized
      id_order.find_map_of id_order.map_of_insert)

theorem working_node_by_id_witness:
  "\<exists>u w. user_id_neq w u \<and> get_definition_wn w
     (set_definition_wn u \<lparr>ui_timestamp = 1, ui_wnode = [2]\<rparr> new_config) = Some \<lparr>ui_timestamp = 1, ui_wnode = [2]\<rparr>"
proof (intro exI conjI)
  let ?w = "new_user_id\<lparr>user_type := 1 # replicate 15 0\<rparr>"
  show "user_id_neq ?w new_user_id" by (simp add: user_id_neq_def new_user_id_def numeral_eq_Suc)
  show "get_definition_wn ?w (set_definition_wn new_user_id \<lparr>ui_timestamp = 1, ui_wnode = [2]\<rparr> new_config)
      = Some \<lparr>ui_timestamp = 1, ui_wnode = [2]\<rparr>"
    by (subst working_node_by_id) (simp_all add: well_sized_def new_config_def new_user_id_def)
qed

end
