(* ===== verification/AutoComplete.thy ===== *)
theory AutoComplete
  imports ConfigState
begin

text \<open>
  The command line of the configuration (\<^verbatim>\<open>Config::auto_complete\<close> of
  \<^verbatim>\<open>src/src/cfg/mink_config.cpp\<close>): the tokens of a line are matched against the tree of commands and
  then, after \<^verbatim>\<open>set\<close>, \<^verbatim>\<open>show\<close>, \<^verbatim>\<open>delete\<close> or \<^verbatim>\<open>edit\<close>, against the definition from the user's working node
  on. Unique prefixes are completed; in the mode of the enter key values are stored and nodes are
  made from templates on the way.

  A node is referred to by the tree it is in and its position there. The nodes that are made for the
  answer only (\<^verbatim>\<open>tmp_node_lst\<close>) have trees of their own: a node made from a template is the new child
  in a copy of the tree it would be put into, so that its ancestors are the same; an entry of a list
  of values is a tree by itself. The file system and the saved revisions are arguments.
\<close>

section \<open>State\<close>

datatype ConfigModeType = CONFIG_MT_UNKNOWN | CONFIG_MT_SHOW | CONFIG_MT_SET | CONFIG_MT_CMD | CONFIG_MT_DEL | CONFIG_MT_EDIT

datatype ConfigACMode = CONFIG_ACM_TAB | CONFIG_ACM_ENTER

datatype node_ref = Cmd_node pos | Def_node pos | Tmp_node nat pos

record ac_env =
  a_cfg :: cfg_env
  a_fsys :: "string \<Rightarrow> string \<times> config_item list"
  a_rbr :: "node_ref \<Rightarrow> bool"
  a_revisions :: "config_item list"

record ac_state =
  ac_cmd :: config_item
  ac_defn :: config_item
  ac_tmp :: "config_item list"
  ac_mode :: ConfigModeType
  ac_def :: node_ref
  ac_line :: "string list"
  ac_result :: "node_ref list"
  ac_size :: int
  ac_last :: "node_ref option"
  ac_errors :: "string list"
  ac_param :: bool
  ac_special :: bool

fun tree_of :: "node_ref \<Rightarrow> ac_state \<Rightarrow> config_item" where
  "tree_of (Cmd_node p) ac = ac_cmd ac"
| "tree_of (Def_node p) ac = ac_defn ac"
| "tree_of (Tmp_node k p) ac = ac_tmp ac ! k"

fun pos_of :: "node_ref \<Rightarrow> pos" where
  "pos_of (Cmd_node p) = p" | "pos_of (Def_node p) = p" | "pos_of (Tmp_node k p) = p"

fun child_ref :: "node_ref \<Rightarrow> nat \<Rightarrow> node_ref" where
  "child_ref (Cmd_node p) j = Cmd_node (p @ [j])"
| "child_ref (Def_node p) j = Def_node (p @ [j])"
| "child_ref (Tmp_node k p) j = Tmp_node k (p @ [j])"

definition node_at :: "node_ref \<Rightarrow> ac_state \<Rightarrow> config_item option" where
  "node_at r ac = get_at (tree_of r ac) (pos_of r)"

fun set_node :: "(config_item \<Rightarrow> config_item) \<Rightarrow> node_ref \<Rightarrow> ac_state \<Rightarrow> ac_state" where
  "set_node f (Cmd_node p) ac = ac\<lparr>ac_cmd := map_at f p (ac_cmd ac)\<rparr>"
| "set_node f (Def_node p) ac = ac\<lparr>ac_defn := map_at f p (ac_defn ac)\<rparr>"
| "set_node f (Tmp_node k p) ac = ac\<lparr>ac_tmp := (ac_tmp ac)[k := map_at f p (ac_tmp ac ! k)]\<rparr>"

abbreviation set_data_at :: "(cfg_data \<Rightarrow> cfg_data) \<Rightarrow> node_ref \<Rightarrow> ac_state \<Rightarrow> ac_state" where
  "set_data_at f \<equiv> set_node (\<lambda>n. Item (f (dat n)) (children n))"

text \<open>The character a string index reads: the terminator at the end.\<close>

definition first :: "string \<Rightarrow> char" where "first s = (case s of [] \<Rightarrow> CHR 0x00 | c # _ \<Rightarrow> c)"

definition in_quotes :: "string \<Rightarrow> string" where "in_quotes s = CHR 0x22 # s @ [CHR 0x22]"

definition add_error :: "string \<Rightarrow> ac_state \<Rightarrow> ac_state" where "add_error s ac = ac\<lparr>ac_errors := ac_errors ac @ [s]\<rparr>"

definition set_token :: "nat \<Rightarrow> string \<Rightarrow> ac_state \<Rightarrow> ac_state" where "set_token i s ac = ac\<lparr>ac_line := (ac_line ac)[i := s]\<rparr>"

section \<open>Searching\<close>

text \<open>The children that \<open>search_definition\<close> finds on the level of the node, by position.\<close>

definition matches :: "string \<Rightarrow> config_item \<Rightarrow> nat list" where
  "matches target it = filter (\<lambda>j. \<not> c_template (dat (children it ! j)) \<and>
     (let other = (if target \<noteq> [] \<and> hd target = CHR ''!'' then tl target else target)
      in take (length other) (c_name (dat (children it ! j))) = other)) [0..<length (children it)]"

definition search_refs :: "node_ref \<Rightarrow> string \<Rightarrow> config_item \<Rightarrow> node_ref list" where
  "search_refs r target it = map (child_ref r) (matches target it)"

definition search_all :: "node_ref \<Rightarrow> ac_state \<Rightarrow> ac_state option" where
  "search_all r ac = map_option (\<lambda>n. ac\<lparr>ac_result := search_refs r [] n\<rparr>) (node_at r ac)"

text \<open>Entries that are shown only.\<close>

definition add_entries :: "config_item list \<Rightarrow> ac_state \<Rightarrow> ac_state" where
  "add_entries its ac = ac\<lparr>ac_tmp := ac_tmp ac @ its,
     ac_result := ac_result ac @ map (\<lambda>k. Tmp_node k []) [length (ac_tmp ac)..<length (ac_tmp ac) + length its]\<rparr>"

definition shown :: "string \<Rightarrow> config_item" where
  "shown n = Item (new_data\<lparr>c_node_type := CONFIG_NT_PARAM, c_node_state := CONFIG_NS_READY, c_name := n\<rparr>) []"

text \<open>The commands themselves have no parent pointer.\<close>

definition has_parent :: "node_ref \<Rightarrow> bool" where
  "has_parent r \<longleftrightarrow> (case r of Cmd_node p \<Rightarrow> 1 < length p | _ \<Rightarrow> pos_of r \<noteq> [])"

text \<open>
  \<^verbatim>\<open>special_ac\<close>: the values a node can take, from the children of the node its pattern names, else
  a description of the type. A revision lists the saved configurations.
\<close>

definition pattern_path :: "cfg_pattern option \<Rightarrow> string option" where
  "pattern_path p = (case p of None \<Rightarrow> None
     | Some q \<Rightarrow> (let s = p_pattern q in
         if take 7 s = '':pmcfg:'' \<and> 9 < length s \<and> s ! 7 = CHR ''['' \<and> last s = CHR '']''
         then Some (take (length s - 9) (drop 8 s)) else None))"

definition value_prompt :: "string \<Rightarrow> cfg_pattern option \<Rightarrow> string" where
  "value_prompt ty p = ''<Please enter '' @ in_quotes ty @ '' value'' @
     (case p of Some q \<Rightarrow> if p_desc q \<noteq> [] then '' identified by '' @ in_quotes (p_desc q) else [] | None \<Rightarrow> []) @ ''>''"

definition special_ac :: "ac_env \<Rightarrow> node_ref \<Rightarrow> string \<Rightarrow> ac_state \<Rightarrow> ac_state option" where
  "special_ac E r ty ac =
     (if a_rbr E r then Some (add_entries (a_revisions E) ac)
      else (let p = get_pattern (a_cfg E) ty
        in Option.bind (case pattern_path p of None \<Rightarrow> Some None
             | Some path \<Rightarrow> (if path \<noteq> [] \<and> hd path = CHR ''/'' then look_up (a_cfg E) (ac_defn ac) [] (tl path)
                            else if \<not> has_parent r then Some None
                            else look_up (a_cfg E) (tree_of r ac) (pos_of r) path))
           (\<lambda>found. Some (add_entries (case found of
                Some it \<Rightarrow> map (\<lambda>c. shown (''<'' @ c_name (dat c) @ ''>'')) (filter (\<lambda>c. \<not> c_template (dat c)) (children it))
              | None \<Rightarrow> [shown (value_prompt ty p)]) ac))))"

section \<open>A value\<close>

definition valid_value :: "ac_env \<Rightarrow> node_ref \<Rightarrow> string \<Rightarrow> string \<Rightarrow> ac_state \<Rightarrow> (bool \<times> string) option" where
  "valid_value E r ty t ac = pattern_valid (a_cfg E) (ac_defn ac) (tree_of r ac)
     (if has_parent r then Some (butlast (pos_of r)) else None) ty t"

definition put_value :: "string \<Rightarrow> node_ref \<Rightarrow> ac_state \<Rightarrow> ac_state" where
  "put_value v r ac = set_data_at (\<lambda>d. let d = d\<lparr>c_new_value := v\<rparr>
     in if ac_mode ac \<noteq> CONFIG_MT_CMD then set_state CONFIG_NS_MODIFIED d else d) r ac"

definition unquote :: "string \<Rightarrow> string option" where
  "unquote t = (if quoted t then (if length t = 1 then None else Some (butlast (tl t))) else Some t)"

text \<open>A path is completed from the file system, a question mark lists the values.\<close>

definition value_help :: "ac_env \<Rightarrow> ConfigACMode \<Rightarrow> nat \<Rightarrow> node_ref \<Rightarrow> string \<Rightarrow> string \<Rightarrow> ac_state \<Rightarrow> (string \<times> ac_state) option" where
  "value_help E m i r ty t ac =
     (if first t = CHR ''/'' \<and> m = CONFIG_ACM_TAB then
        (let (path, its) = a_fsys E t;
             ac = set_token i path (add_entries its (ac\<lparr>ac_special := True, ac_size := ac_size ac - 1\<rparr>))
         in Some (path, if length its = 1 then ac\<lparr>ac_special := False, ac_size := ac_size ac + 1\<rparr> else ac))
      else if first t = CHR ''?'' \<and> m = CONFIG_ACM_TAB then
        map_option (Pair t) (special_ac E r ty (set_token i [] (ac\<lparr>ac_special := True, ac_size := ac_size ac - 1\<rparr>)))
      else Some (t, ac))"

definition ac_value :: "ac_env \<Rightarrow> ConfigACMode \<Rightarrow> bool \<Rightarrow> nat \<Rightarrow> string \<Rightarrow> node_ref \<Rightarrow> cfg_data \<Rightarrow> ac_state \<Rightarrow> ac_state option" where
  "ac_value E m pretend i t r d ac =
     Option.bind (value_help E m i r (c_type d) t (ac\<lparr>ac_special := False, ac_result := []\<rparr>)) (\<lambda>(t, ac).
       let ac = ac\<lparr>ac_size := ac_size ac + 1, ac_param := True\<rparr>;
           store = (\<lambda>v. if m = CONFIG_ACM_ENTER \<and> \<not> pretend then put_value v r ac else ac)
       in if get_pattern (a_cfg E) (c_type d) \<noteq> None
          then map_option (\<lambda>(ok, v). if ok then store v
                 else add_error (''Item '' @ in_quotes (c_name d) @ '' contains invalid '' @ in_quotes (c_type d) @ '' value ''
                        @ in_quotes v @ ''!'' @ [CHR 0x0A]) ac)
               (valid_value E r (c_type d) t ac)
          else if m = CONFIG_ACM_ENTER then map_option store (unquote t)
          else Some ac)"

section \<open>A name\<close>

text \<open>
  A node made from the template. It goes into the tree with the enter key, also when only pretending;
  otherwise it is a node for the answer. A name that still starts with an exclamation mark loses
  it, with all results so far.
\<close>

definition instance_item :: "config_item \<Rightarrow> string \<Rightarrow> config_item" where
  "instance_item tmpl n = copy_nodes tmpl (Item (new_data\<lparr>c_node_type := CONFIG_NT_BLOCK, c_node_state := CONFIG_NS_MODIFIED,
     c_sort_node := c_sort_node (dat tmpl), c_name := (if first n = CHR ''!'' then tl n else n), c_new := True,
     c_empty := c_empty (dat tmpl)\<rparr>) []) CONFIG_NS_MODIFIED"

definition add_instance :: "ConfigACMode \<Rightarrow> config_item \<Rightarrow> config_item \<Rightarrow> string \<Rightarrow> ac_state \<Rightarrow> ac_state" where
  "add_instance m def tmpl n ac =
     (let new = instance_item tmpl n; r = ac_def ac; j = length (children def);
          ac = (if first n = CHR ''!'' then ac\<lparr>ac_result := []\<rparr> else ac)
      in if m = CONFIG_ACM_ENTER
         then (set_node (add_child new) r ac)\<lparr>ac_result := ac_result ac @ [child_ref r j]\<rparr>
         else ac\<lparr>ac_tmp := ac_tmp ac @ [map_at (add_child new) (pos_of r) (tree_of r ac)],
                 ac_result := ac_result ac @ [Tmp_node (length (ac_tmp ac)) (pos_of r @ [j])]\<rparr>)"

text \<open>The result says whether the loop goes on.\<close>

definition taken_name :: "string \<Rightarrow> ac_state \<Rightarrow> bool option" where
  "taken_name n ac = (if list_ex (\<lambda>r. node_at r ac = None) (ac_result ac) then None
     else Some (list_ex (\<lambda>r. length (c_name (dat (the (node_at r ac)))) = length n) (ac_result ac)))"

definition from_template_name :: "ac_env \<Rightarrow> ConfigACMode \<Rightarrow> nat \<Rightarrow> string \<Rightarrow> config_item \<Rightarrow> config_item \<Rightarrow> ac_state \<Rightarrow>
    (bool \<times> ac_state) option" where
  "from_template_name E m i t def tmpl ac =
     Option.bind (if first t = CHR ''!'' then taken_name (tl t) ac else Some False) (\<lambda>taken.
     if taken then Some (False, add_error (''Item '' @ in_quotes (tl t) @ '' already exists!'' @ [CHR 0x0A]) (ac\<lparr>ac_result := []\<rparr>))
     else if first t = CHR ''?'' \<and> m = CONFIG_ACM_TAB then
       (let ac = set_token i [] (ac\<lparr>ac_size := ac_size ac - 1\<rparr>)
        in map_option (\<lambda>ac. (False, ac\<lparr>ac_size := ac_size ac + 1\<rparr>))
             (case ac_last ac of None \<Rightarrow> Some ac | Some r \<Rightarrow> special_ac E r (c_type (dat tmpl)) ac))
     else (let n = (if first t = CHR ''!'' then tl t else t); ty = c_type (dat tmpl)
       in Option.bind (valid_value E (child_ref (ac_def ac) 0) ty n ac) (\<lambda>(ok, n).
          if ok \<or> get_pattern (a_cfg E) ty = None then Some (True, add_instance m def tmpl n ac)
          else Some (False, add_error (''Template '' @ in_quotes (c_name (dat tmpl)) @ '' contains invalid '' @ in_quotes ty
                 @ '' name '' @ in_quotes n @ ''!'' @ [CHR 0x0A]) ac))))"

definition ac_search :: "ac_env \<Rightarrow> ConfigACMode \<Rightarrow> nat \<Rightarrow> string \<Rightarrow> ac_state \<Rightarrow> (bool \<times> ac_state) option" where
  "ac_search E m i t ac = Option.bind (node_at (ac_def ac) ac) (\<lambda>def.
     let ac = ac\<lparr>ac_result := []\<rparr>
     in case children def of [] \<Rightarrow> Some (True, ac)
        | tmpl # _ \<Rightarrow>
           (let ac = ac\<lparr>ac_result := search_refs (ac_def ac) t def\<rparr>
            in if c_template (dat tmpl) \<and> (first t = CHR ''!'' \<or> ac_result ac = []) \<and> ac_mode ac = CONFIG_MT_SET
               then from_template_name E m i t def tmpl ac else Some (True, ac)))"

section \<open>One match\<close>

definition mode_of :: "cfg_data \<Rightarrow> ConfigModeType option" where
  "mode_of d = (if c_name d = ''set'' then Some CONFIG_MT_SET else if c_name d = ''show'' then Some CONFIG_MT_SHOW
     else if c_name d = ''delete'' then Some CONFIG_MT_DEL else if c_name d = ''edit'' then Some CONFIG_MT_EDIT else None)"

text \<open>The first match decides the mode; the four modes go over from the commands to the definition.\<close>

definition detect_mode :: "node_ref \<Rightarrow> cfg_data \<Rightarrow> ac_state \<Rightarrow> ac_state" where
  "detect_mode wnode d ac = (if ac_mode ac = CONFIG_MT_UNKNOWN \<and> (c_node_type d = CONFIG_NT_CMD \<or> c_node_type d = CONFIG_NT_BLOCK)
     then (case mode_of d of
         Some md \<Rightarrow> ac\<lparr>ac_mode := md, ac_def := wnode, ac_result := [wnode]\<rparr>
       | None \<Rightarrow> if c_node_type d = CONFIG_NT_CMD then ac\<lparr>ac_mode := CONFIG_MT_CMD\<rparr> else ac)
     else ac)"

definition revived :: "ConfigACMode \<Rightarrow> bool \<Rightarrow> bool \<Rightarrow> node_ref \<Rightarrow> cfg_data \<Rightarrow> ac_state \<Rightarrow> ac_state" where
  "revived m pretend final r d ac =
     (if m = CONFIG_ACM_ENTER \<and> ac_mode ac = CONFIG_MT_SET \<and> final \<and> c_node_state d = CONFIG_NS_DELETED \<and> \<not> pretend
      then set_data_at (set_state CONFIG_NS_MODIFIED) r ac else ac)"

definition clear_values :: "config_item \<Rightarrow> config_item" where
  "clear_values n = Item (dat n) (map (\<lambda>c. if c_node_type (dat c) = CONFIG_NT_PARAM
     then Item ((dat c)\<lparr>c_new_value := []\<rparr>) (children c) else c) (children n))"

definition go_deeper :: "ConfigACMode \<Rightarrow> bool \<Rightarrow> bool \<Rightarrow> node_ref \<Rightarrow> ac_state \<Rightarrow> ac_state option" where
  "go_deeper m pretend final r ac = Option.bind (node_at r ac) (\<lambda>n.
     if c_node_type (dat n) = CONFIG_NT_BLOCK \<or> c_node_type (dat n) = CONFIG_NT_CMD then
       map_option (\<lambda>ac. if c_node_type (dat n) = CONFIG_NT_CMD \<and> \<not> pretend then set_node clear_values r ac else ac)
         (search_all r (revived m pretend final r (dat n) (ac\<lparr>ac_def := r, ac_last := Some r, ac_result := []\<rparr>)))
     else Some ac)"

definition single_match :: "ConfigACMode \<Rightarrow> bool \<Rightarrow> node_ref \<Rightarrow> nat \<Rightarrow> bool \<Rightarrow> node_ref \<Rightarrow> ac_state \<Rightarrow> (bool \<times> ac_state) option" where
  "single_match m pretend wnode i final r ac = Option.bind (node_at r ac) (\<lambda>n.
     let ac = set_token i (c_name (dat n)) (ac\<lparr>ac_size := ac_size ac + 1, ac_last := Some r\<rparr>); was = ac_mode ac;
         ac = detect_mode wnode (dat n) ac
     in if was = CONFIG_MT_UNKNOWN \<and> ac_mode ac = CONFIG_MT_CMD \<and> children n = [] then Some (False, ac)
        else map_option (Pair True) (go_deeper m pretend final (hd (ac_result ac)) ac))"

section \<open>Several matches or none\<close>

fun common :: "nat \<Rightarrow> string \<Rightarrow> string \<Rightarrow> nat" where
  "common (Suc k) (a # x) (b # y) = (if a = b then Suc (common k x y) else 0)"
| "common _ _ _ = 0"

text \<open>
  The length of the common start: at most that of the shortest name, and at most 100; the first name
  of just this length is a match of its own.
\<close>

definition min_size :: "string list \<Rightarrow> nat" where "min_size ns = foldl (\<lambda>k n. if length n < k then length n else k) 100 ns"

definition max_match :: "string list \<Rightarrow> nat" where
  "max_match ns = (let k = min_size ns in foldl (\<lambda>x n. if common k (hd ns) n < x then common k (hd ns) n else x) k (tl ns))"

definition several :: "ConfigACMode \<Rightarrow> bool \<Rightarrow> nat \<Rightarrow> bool \<Rightarrow> string \<Rightarrow> ac_state \<Rightarrow> ac_state option" where
  "several m pretend i final t ac =
     (if list_ex (\<lambda>r. node_at r ac = None) (ac_result ac) then None
      else (let rs = ac_result ac; ns = map (\<lambda>r. c_name (dat (the (node_at r ac)))) rs; k = max_match ns;
                ac = ac\<lparr>ac_last := map_option ((!) rs) (find_index (\<lambda>n. length n = k) ns)\<rparr>
            in case ac_last ac of
                 Some r \<Rightarrow>
                   if length t = k then
                     (let n = the (node_at r ac); ac = ac\<lparr>ac_size := ac_size ac + 1, ac_result := []\<rparr>
                      in map_option (set_token i (c_name (dat n)))
                           (if c_node_type (dat n) = CONFIG_NT_ITEM then Some (ac\<lparr>ac_result := [r]\<rparr>)
                            else if c_node_type (dat n) = CONFIG_NT_BLOCK
                            then search_all r ((revived m pretend final r (dat n) ac)\<lparr>ac_def := r\<rparr>)
                            else Some ac))
                   else Some (set_token i (take k (hd ns)) ac)
               | None \<Rightarrow> Some (set_token i (take k (hd ns)) ac)))"

definition no_single :: "ConfigACMode \<Rightarrow> bool \<Rightarrow> nat \<Rightarrow> bool \<Rightarrow> string \<Rightarrow> ac_state \<Rightarrow> (bool \<times> ac_state) option" where
  "no_single m pretend i final t ac =
     (let ac = ac\<lparr>ac_last := None\<rparr>
      in if ac_param ac
         then (let ac = ac\<lparr>ac_param := False\<rparr>
               in map_option (Pair True) (if \<not> ac_special ac then search_all (ac_def ac) ac else Some ac))
         else map_option (\<lambda>ac. (final \<or> ac_last ac \<noteq> None, ac))
           (if ac_result ac \<noteq> [] then several m pretend i final t ac
            else Some (add_error (''Unknown item or command '' @ in_quotes t @ ''!'' @ [CHR 0x0A]) ac)))"

section \<open>The loop over the tokens\<close>

definition ac_token :: "ac_env \<Rightarrow> ConfigACMode \<Rightarrow> bool \<Rightarrow> node_ref \<Rightarrow> nat \<Rightarrow> bool \<Rightarrow> string \<Rightarrow> ac_state \<Rightarrow> (bool \<times> ac_state) option" where
  "ac_token E m pretend wnode i final t ac =
     Option.bind (case ac_last ac of None \<Rightarrow> Some (True, ac)
        | Some r \<Rightarrow> Option.bind (node_at r ac) (\<lambda>n.
            let ty = c_node_type (dat n) in
            if ac_mode ac = CONFIG_MT_SET \<or> ac_mode ac = CONFIG_MT_CMD
            then (if ty = CONFIG_NT_ITEM \<or> ty = CONFIG_NT_PARAM
                  then map_option (Pair True) (ac_value E m pretend i t r (dat n) ac) else Some (True, ac))
            else if ty = CONFIG_NT_ITEM
            then Some (False, add_error (''Cannot SET value in SHOW mode!'' @ [CHR 0x0A]) (ac\<lparr>ac_result := []\<rparr>))
            else Some (True, ac))) (\<lambda>(go, ac).
     if \<not> go then Some (False, ac)
     else Option.bind (if \<not> ac_param ac then ac_search E m i t ac else Some (True, ac)) (\<lambda>(go, ac).
     if \<not> go then Some (False, ac)
     else case ac_result ac of
         [r] \<Rightarrow> if \<not> ac_param ac then single_match m pretend wnode i final r ac else no_single m pretend i final t ac
       | _ \<Rightarrow> no_single m pretend i final t ac))"

fun ac_loop :: "ac_env \<Rightarrow> ConfigACMode \<Rightarrow> bool \<Rightarrow> node_ref \<Rightarrow> nat \<Rightarrow> string list \<Rightarrow> ac_state \<Rightarrow> ac_state option" where
  "ac_loop E m pretend wnode i [] ac = Some ac"
| "ac_loop E m pretend wnode i (t # ts) ac = Option.bind (ac_token E m pretend wnode i (ts = []) t ac) (\<lambda>(go, ac).
     if go then ac_loop E m pretend wnode (Suc i) ts ac else Some ac)"

definition auto_complete :: "ac_env \<Rightarrow> ConfigACMode \<Rightarrow> bool \<Rightarrow> node_ref \<Rightarrow> string list \<Rightarrow> ac_state \<Rightarrow> ac_state option" where
  "auto_complete E m pretend wnode line ac =
     (let ac = ac\<lparr>ac_errors := [], ac_size := 0, ac_line := line, ac_param := False, ac_special := False\<rparr>
      in if line \<noteq> [] then ac_loop E m pretend wnode 0 line ac
        else map_option (\<lambda>found. found\<lparr>ac_result := ac_result ac @ ac_result found\<rparr>) (search_all (ac_def ac) ac))"

text \<open>The call at the start of a request: the commands are searched, nothing has been found.\<close>

definition ac_start :: "config_item \<Rightarrow> config_item \<Rightarrow> ac_state" where
  "ac_start cmd defn = \<lparr>ac_cmd = cmd, ac_defn = defn, ac_tmp = [], ac_mode = CONFIG_MT_UNKNOWN, ac_def = Cmd_node [], ac_line = [],
     ac_result = [], ac_size = 0, ac_last = None, ac_errors = [], ac_param = False, ac_special = False\<rparr>"

section \<open>The commands\<close>

definition command :: "string \<Rightarrow> string \<Rightarrow> config_item list \<Rightarrow> config_item" where
  "command n d cs = Item (new_data\<lparr>c_node_type := CONFIG_NT_CMD, c_name := n, c_desc := d\<rparr>) cs"

definition parameter :: "string \<Rightarrow> string \<Rightarrow> config_item" where
  "parameter n d = Item (new_data\<lparr>c_node_type := CONFIG_NT_PARAM, c_name := n, c_desc := d\<rparr>) []"

definition revision_parameter :: config_item where
  "revision_parameter = parameter ''revision'' ''Revision number for rollback operation''"

definition cmd_tree :: config_item where
  "cmd_tree = Item (new_data\<lparr>c_name := ''ROOT_CMD'', c_node_type := CONFIG_NT_BLOCK\<rparr>) [
     command ''set'' ''Creates a new node or modifies a value in an existing node'' [],
     command ''show'' ''Displays configuration node'' [],
     command ''edit'' ''Navigates to a subnode in the configuration tree for editing'' [],
     command ''delete'' ''Deletes a configuration node'' [],
     command ''top'' ''Exits to the top level of configuration mode'' [],
     command ''up'' ''Navigates up one level in the configuration tree'' [],
     command ''configuration'' ''Displays configuration file contents'' [],
     command ''commands'' ''Displays configuration file commands'' [],
     command ''commit'' ''Applies any uncommitted configuration changes''
       [parameter ''description'' ''Meaningful comment describing current commit''],
     command ''discard'' ''Discard all configuration changes'' [],
     command ''rollback'' ''Load previous configuration revision'' [revision_parameter],
     command ''load'' ''Loads a saved configuration'' [parameter ''file-name'' ''The name of the configuration file''],
     command ''save'' ''Saves the running configuration to a file''
       [parameter ''file-name'' ''The name of the file where the information is to be saved'']]"

text \<open>The parameter of \<^verbatim>\<open>rollback\<close> is the one that lists revisions.\<close>

definition is_rbr :: "node_ref \<Rightarrow> bool" where
  "is_rbr r \<longleftrightarrow> r = Cmd_node [10, 0]"

lemma rbr_is_the_revision: "get_at cmd_tree [10, 0] = Some revision_parameter"
  by (simp add: cmd_tree_def command_def)

section \<open>What a line leaves alone\<close>

fun cmd_free :: "config_item \<Rightarrow> bool" where
  "cmd_free (Item d cs) \<longleftrightarrow> c_node_type d \<noteq> CONFIG_NT_CMD \<and> list_all cmd_free cs"

lemma cmd_free_at: "cmd_free t \<Longrightarrow> get_at t p = Some n \<Longrightarrow> cmd_free n"
  by (induction t p rule: get_at.induct) (auto simp: list_all_length split: if_splits)

lemma cmd_free_type: "cmd_free n \<Longrightarrow> c_node_type (dat n) \<noteq> CONFIG_NT_CMD"
  by (cases n) simp

lemma cmd_free_copy: "cmd_free t \<Longrightarrow> cmd_free (copy_tree ns t)"
  by (induction t) (auto simp: copy_data_def list_all_iff)

lemma cmd_free_instance: "cmd_free t \<Longrightarrow> cmd_free (instance_item t n)"
  by (cases t) (auto simp: instance_item_def copy_nodes_def list_all_iff cmd_free_copy)

lemma cmd_free_add: "cmd_free t \<Longrightarrow> cmd_free c \<Longrightarrow> cmd_free (map_at (add_child c) p t)"
proof (induction "add_child c" p t rule: map_at.induct)
  case (1 it)
  then show ?case by (cases it) (simp add: add_child_def)
next
  case (2 i p d cs)
  then show ?case by (auto simp: list_all_length nth_list_update)
qed

text \<open>The definition with at most one more node, made from a template.\<close>

definition grown :: "config_item \<Rightarrow> config_item \<Rightarrow> bool" where
  "grown a b \<longleftrightarrow> b = a \<or> (\<exists>p n def t. get_at a p = Some def \<and> t \<in> set (children def) \<and> c_template (dat t) \<and>
     b = map_at (add_child (instance_item t n)) p a)"

lemma grown_refl [simp]: "grown a a" by (simp add: grown_def)

lemma grown_extends: "grown a b \<Longrightarrow> extends b a"
  by (auto simp: grown_def extends_add)

lemma grown_cmd_free: "grown a b \<Longrightarrow> cmd_free a \<Longrightarrow> cmd_free b"
proof -
  assume g: "grown a b" and f: "cmd_free a"
  have "cmd_free t" if "get_at a p = Some def" "t \<in> set (children def)" for p def t
    using cmd_free_at [OF f that(1)] that(2) by (cases def) (auto simp: list_all_iff)
  then show "cmd_free b" using g f by (auto simp: grown_def intro!: cmd_free_add cmd_free_instance)
qed

lemma frame_defn [simp]:
  "ac_defn (add_entries its ac) = ac_defn ac" "ac_defn (add_error s ac) = ac_defn ac" "ac_defn (set_token i s ac) = ac_defn ac"
  "ac_defn (set_node f (Cmd_node p) ac) = ac_defn ac" "ac_defn (set_node f (Tmp_node k p) ac) = ac_defn ac"
  by (simp_all add: add_entries_def add_error_def set_token_def)

lemma search_all_defn: "search_all r ac = Some ac' \<Longrightarrow> ac_defn ac' = ac_defn ac"
  by (auto simp: search_all_def)

lemma special_ac_defn: "special_ac E r ty ac = Some ac' \<Longrightarrow> ac_defn ac' = ac_defn ac"
  by (auto simp: special_ac_def Let_def bind_eq_Some_conv split: if_splits)

lemma value_help_defn: "value_help E m i r ty t ac = Some (t', ac') \<Longrightarrow> ac_defn ac' = ac_defn ac"
  by (auto simp: value_help_def Let_def case_prod_beta split: if_splits dest!: special_ac_defn)

lemma ac_value_defn:
  assumes "ac_value E m pretend i t r d ac = Some ac'" and "m = CONFIG_ACM_TAB \<or> pretend"
  shows "ac_defn ac' = ac_defn ac"
  using assms by (auto simp: ac_value_def Let_def bind_eq_Some_conv dest!: value_help_defn split: if_splits)

lemma go_deeper_defn:
  assumes "go_deeper m pretend final r ac = Some ac'" and "m = CONFIG_ACM_TAB \<or> pretend" and "cmd_free (ac_defn ac)"
  shows "ac_defn ac' = ac_defn ac"
proof -
  have c: "ac_defn (set_node clear_values r x) = ac_defn x" if "node_at r ac = Some n" "c_node_type (dat n) = CONFIG_NT_CMD" for n x
    using that cmd_free_type cmd_free_at [OF assms(3)] by (cases r) (auto simp: node_at_def)
  have v: "ac_defn (revived m pretend final r d x) = ac_defn x" for d x using assms(2) by (auto simp: revived_def)
  from assms(1) obtain n where n: "node_at r ac = Some n" by (auto simp: go_deeper_def bind_eq_Some_conv)
  then show ?thesis using assms(1) c [OF n] v
    by (auto simp: go_deeper_def dest!: search_all_defn split: if_splits)
qed

lemma detect_mode_defn [simp]: "ac_defn (detect_mode wnode d ac) = ac_defn ac"
  by (auto simp: detect_mode_def split: option.split)

lemma single_match_defn:
  assumes "single_match m pretend wnode i final r ac = Some (go, ac')" and "m = CONFIG_ACM_TAB \<or> pretend" and "cmd_free (ac_defn ac)"
  shows "ac_defn ac' = ac_defn ac"
  using assms by (auto simp: single_match_def Let_def bind_eq_Some_conv split: if_splits dest!: go_deeper_defn)

lemma several_defn:
  assumes "several m pretend i final t ac = Some ac'" and "m = CONFIG_ACM_TAB \<or> pretend"
  shows "ac_defn ac' = ac_defn ac"
proof -
  have "ac_defn (revived m pretend final r d x) = ac_defn x" for d x r using assms(2) by (auto simp: revived_def)
  then show ?thesis using assms(1)
    by (auto simp: several_def Let_def split: if_splits option.splits dest!: search_all_defn)
qed

lemma no_single_defn:
  assumes "no_single m pretend i final t ac = Some (go, ac')" and "m = CONFIG_ACM_TAB \<or> pretend"
  shows "ac_defn ac' = ac_defn ac"
  using assms by (auto simp: no_single_def Let_def split: if_splits dest!: search_all_defn several_defn)

text \<open>What a search for a name adds: at most one child of the node the line has come to.\<close>

lemma add_instance_defn:
  assumes "node_at (ac_def ac) ac = Some def" and "tmpl \<in> set (children def)" and "c_template (dat tmpl)"
  shows "grown (ac_defn ac) (ac_defn (add_instance m def tmpl n ac)) \<and>
    (m = CONFIG_ACM_TAB \<longrightarrow> ac_defn (add_instance m def tmpl n ac) = ac_defn ac)"
proof (cases "ac_def ac")
  case (Def_node p)
  then have "get_at (ac_defn ac) p = Some def" using assms(1) by (simp add: node_at_def)
  then have "grown (ac_defn ac) (map_at (add_child (instance_item tmpl n)) p (ac_defn ac))"
    using assms(2,3) unfolding grown_def by blast
  then show ?thesis using Def_node by (auto simp: add_instance_def Let_def)
qed (auto simp: add_instance_def Let_def)

lemma from_template_name_defn:
  assumes "from_template_name E m i t def tmpl ac = Some (go, ac')"
    and "node_at (ac_def ac) ac = Some def" and "tmpl \<in> set (children def)" and "c_template (dat tmpl)"
  shows "grown (ac_defn ac) (ac_defn ac') \<and> (m = CONFIG_ACM_TAB \<longrightarrow> ac_defn ac' = ac_defn ac)"
  using assms(1) add_instance_defn [OF assms(2-4), of m]
  by (auto simp: from_template_name_def Let_def bind_eq_Some_conv case_prod_beta split: if_splits option.splits
      dest!: special_ac_defn)

lemma ac_search_defn:
  assumes "ac_search E m i t ac = Some (go, ac')"
  shows "grown (ac_defn ac) (ac_defn ac') \<and> (m = CONFIG_ACM_TAB \<longrightarrow> ac_defn ac' = ac_defn ac)"
proof -
  from assms obtain def where d: "node_at (ac_def ac) ac = Some def" by (auto simp: ac_search_def bind_eq_Some_conv)
  show ?thesis
  proof (cases "children def")
    case Nil
    then show ?thesis using assms d by (auto simp: ac_search_def Let_def)
  next
    case (Cons tmpl cs)
    define x where "x = ac\<lparr>ac_result := search_refs (ac_def ac) t def\<rparr>"
    have "from_template_name E m i t def tmpl x = Some (go, ac') \<and> c_template (dat tmpl) \<or> (go, ac') = (True, x)"
      using assms d Cons by (auto simp: ac_search_def Let_def x_def split: if_splits)
    moreover have x: "ac_defn x = ac_defn ac" "node_at (ac_def x) x = Some def"
      using d by (cases "ac_def ac"; simp add: x_def node_at_def)+
    ultimately show ?thesis using from_template_name_defn [OF _ x(2), of E m i t tmpl go ac'] Cons by auto
  qed
qed

text \<open>One token, then the line.\<close>

lemma ac_token_defn:
  assumes t: "ac_token E m pretend wnode i final t ac = Some (go, ac')" and s: "m = CONFIG_ACM_TAB \<or> pretend"
    and f: "cmd_free (ac_defn ac)"
  shows "grown (ac_defn ac) (ac_defn ac') \<and> (m = CONFIG_ACM_TAB \<longrightarrow> ac_defn ac' = ac_defn ac)"
proof -
  define first_step where "first_step = (case ac_last ac of None \<Rightarrow> Some (True, ac)
        | Some r \<Rightarrow> Option.bind (node_at r ac) (\<lambda>n.
            let ty = c_node_type (dat n) in
            if ac_mode ac = CONFIG_MT_SET \<or> ac_mode ac = CONFIG_MT_CMD
            then (if ty = CONFIG_NT_ITEM \<or> ty = CONFIG_NT_PARAM
                  then map_option (Pair True) (ac_value E m pretend i t r (dat n) ac) else Some (True, ac))
            else if ty = CONFIG_NT_ITEM
            then Some (False, add_error (''Cannot SET value in SHOW mode!'' @ [CHR 0x0A]) (ac\<lparr>ac_result := []\<rparr>))
            else Some (True, ac)))"
  from t obtain go1 a1 where a1: "first_step = Some (go1, a1)"
    and rest: "(if \<not> go1 then Some (False, a1)
     else Option.bind (if \<not> ac_param a1 then ac_search E m i t a1 else Some (True, a1)) (\<lambda>(go, ac).
     if \<not> go then Some (False, ac)
     else case ac_result ac of
         [r] \<Rightarrow> if \<not> ac_param ac then single_match m pretend wnode i final r ac else no_single m pretend i final t ac
       | _ \<Rightarrow> no_single m pretend i final t ac)) = Some (go, ac')"
    unfolding ac_token_def first_step_def [symmetric] by (auto simp only: bind_eq_Some_conv prod.case)
  have d1: "ac_defn a1 = ac_defn ac"
    using a1 s unfolding first_step_def
    by (auto simp: bind_eq_Some_conv Let_def split: option.splits if_splits dest!: ac_value_defn)
  show ?thesis
  proof (cases go1)
    case False
    then show ?thesis using rest d1 by auto
  next
    case True
    with rest obtain go2 a2 where a2: "(if \<not> ac_param a1 then ac_search E m i t a1 else Some (True, a1)) = Some (go2, a2)"
      and r2: "(if \<not> go2 then Some (False, a2) else case ac_result a2 of
         [r] \<Rightarrow> if \<not> ac_param a2 then single_match m pretend wnode i final r a2 else no_single m pretend i final t a2
       | _ \<Rightarrow> no_single m pretend i final t a2) = Some (go, ac')"
      by (auto simp only: bind_eq_Some_conv prod.case if_True if_False simp_thms)
    have g2: "grown (ac_defn ac) (ac_defn a2) \<and> (m = CONFIG_ACM_TAB \<longrightarrow> ac_defn a2 = ac_defn ac)"
      using a2 d1 ac_search_defn [of E m i t a1 go2 a2] by (auto split: if_splits)
    then have "cmd_free (ac_defn a2)" using f grown_cmd_free by blast
    then have "ac_defn ac' = ac_defn a2"
      using r2 s by (auto split: if_splits list.splits dest!: single_match_defn no_single_defn)
    with g2 show ?thesis by simp
  qed
qed

lemma ac_loop_defn:
  assumes "ac_loop E m pretend wnode i ts ac = Some ac'" and "m = CONFIG_ACM_TAB \<or> pretend" and "cmd_free (ac_defn ac)"
  shows "grown\<^sup>*\<^sup>* (ac_defn ac) (ac_defn ac') \<and> (m = CONFIG_ACM_TAB \<longrightarrow> ac_defn ac' = ac_defn ac)"
  using assms
proof (induction ts arbitrary: i ac)
  case (Cons t ts)
  from Cons.prems(1) obtain go a1 where t: "ac_token E m pretend wnode i (ts = []) t ac = Some (go, a1)"
    and r: "(if go then ac_loop E m pretend wnode (Suc i) ts a1 else Some a1) = Some ac'"
    by (auto simp: bind_eq_Some_conv)
  note g = ac_token_defn [OF t Cons.prems(2,3)]
  have "cmd_free (ac_defn a1)" using g grown_cmd_free Cons.prems(3) by blast
  then show ?case using Cons.IH [of "Suc i" a1] g r Cons.prems(2)
    by (auto split: if_splits intro: converse_rtranclp_into_rtranclp)
qed simp

lemma grown_star_extends: "grown\<^sup>*\<^sup>* a b \<Longrightarrow> extends b a"
  by (induction rule: rtranclp_induct) (auto intro: extends_trans grown_extends)

lemma grown_star_cmd_free: "grown\<^sup>*\<^sup>* a b \<Longrightarrow> cmd_free a \<Longrightarrow> cmd_free b"
  by (induction rule: rtranclp_induct) (auto intro: grown_cmd_free)

lemma line_grows:
  assumes "auto_complete E m pretend wnode line ac = Some ac'" and "m = CONFIG_ACM_TAB \<or> pretend" and "cmd_free (ac_defn ac)"
  shows "grown\<^sup>*\<^sup>* (ac_defn ac) (ac_defn ac')" and "m = CONFIG_ACM_TAB \<Longrightarrow> ac_defn ac' = ac_defn ac"
proof -
  define a0 where "a0 = ac\<lparr>ac_errors := [], ac_size := 0, ac_line := line, ac_param := False, ac_special := False\<rparr>"
  have d: "ac_defn a0 = ac_defn ac" by (simp add: a0_def)
  have run: "(if line \<noteq> [] then ac_loop E m pretend wnode 0 line a0
      else map_option (\<lambda>found. found\<lparr>ac_result := ac_result a0 @ ac_result found\<rparr>) (search_all (ac_def a0) a0)) = Some ac'"
    using assms(1) unfolding auto_complete_def Let_def a0_def .
  have "grown\<^sup>*\<^sup>* (ac_defn a0) (ac_defn ac') \<and> (m = CONFIG_ACM_TAB \<longrightarrow> ac_defn ac' = ac_defn a0)"
  proof (cases "line = []")
    case True
    then show ?thesis using search_all_defn run by fastforce
  next
    case False
    then have "ac_loop E m pretend wnode 0 line a0 = Some ac'" using run by simp
    from ac_loop_defn [OF this assms(2)] show ?thesis using assms(3) d by simp
  qed
  then show "grown\<^sup>*\<^sup>* (ac_defn ac) (ac_defn ac')" "m = CONFIG_ACM_TAB \<Longrightarrow> ac_defn ac' = ac_defn ac" unfolding d by auto
qed

text \<open>
  C20. Completing a line never changes the definition: with the tab key it is the same tree as before. A
  line that only pretends to be entered leaves every node with its data and its place, but it may
  add nodes made from templates.
\<close>

lemma pretended_line_only_adds:
  assumes "auto_complete E m pretend wnode line ac = Some ac'" and "m = CONFIG_ACM_TAB \<or> pretend" and "cmd_free (ac_defn ac)"
  shows "(m = CONFIG_ACM_TAB \<longrightarrow> ac_defn ac' = ac_defn ac) \<and> extends (ac_defn ac') (ac_defn ac) \<and> grown\<^sup>*\<^sup>* (ac_defn ac) (ac_defn ac')"
  using line_grows [OF assms] grown_star_extends by blast

section \<open>Setting a value\<close>

text \<open>Names that lead from a node to an item, each the start of the name of one child only.\<close>

fun names_path :: "config_item \<Rightarrow> string list \<Rightarrow> pos \<Rightarrow> bool" where
  "names_path it [] [] \<longleftrightarrow> True"
| "names_path it (t # ts) (j # p) \<longleftrightarrow> first t \<noteq> CHR ''!'' \<and> matches t it = [j] \<and>
     c_node_type (dat (children it ! j)) = (if ts = [] then CONFIG_NT_ITEM else CONFIG_NT_BLOCK) \<and>
     names_path (children it ! j) ts p"
| "names_path it _ _ \<longleftrightarrow> False"

lemma matches_in: "j \<in> set (matches t it) \<Longrightarrow> j < length (children it)"
  by (simp add: matches_def)

lemma matches_single: "matches t it = [j] \<Longrightarrow> j < length (children it) \<and> children it \<noteq> []"
  using matches_in [of j t it] by auto

definition at_block :: "config_item \<Rightarrow> pos \<Rightarrow> ac_state \<Rightarrow> bool" where
  "at_block D q ac \<longleftrightarrow> ac_defn ac = D \<and> ac_mode ac = CONFIG_MT_SET \<and> ac_def ac = Def_node q \<and> \<not> ac_param ac \<and>
     ac_errors ac = [] \<and> (\<exists>it. get_at D q = Some it \<and> ac_last ac = Some (Def_node q) \<and> c_node_type (dat it) = CONFIG_NT_BLOCK)"

lemma get_at_snoc: "get_at D q = Some it \<Longrightarrow> j < length (children it) \<Longrightarrow> get_at D (q @ [j]) = Some (children it ! j)"
  by (induction D q rule: get_at.induct) (auto split: if_splits, case_tac it, auto)

text \<open>A name leads one level down: to a block, or to an item that waits for its value.\<close>

definition at_item :: "config_item \<Rightarrow> pos \<Rightarrow> nat \<Rightarrow> ac_state \<Rightarrow> bool" where
  "at_item D q j ac \<longleftrightarrow> ac_defn ac = D \<and> ac_mode ac = CONFIG_MT_SET \<and> ac_def ac = Def_node q \<and> \<not> ac_param ac \<and>
     ac_errors ac = [] \<and> ac_last ac = Some (Def_node (q @ [j]))"

text \<open>The names on the way, in full.\<close>

fun full_names :: "config_item \<Rightarrow> pos \<Rightarrow> string list" where
  "full_names it [] = []"
| "full_names it (j # p) = c_name (dat (children it ! j)) # full_names (children it ! j) p"

definition counted :: "nat \<Rightarrow> string \<Rightarrow> ac_state \<Rightarrow> ac_state \<Rightarrow> bool" where
  "counted i n ac ac' \<longleftrightarrow> ac_line ac' = (ac_line ac)[i := n] \<and> ac_size ac' = ac_size ac + 1"

lemma ac_token_name:
  assumes a: "at_block D q ac" and it: "get_at D q = Some it" and t: "first t \<noteq> CHR ''!''" "matches t it = [j]"
    and ty: "c_node_type (dat (children it ! j)) = (if b then CONFIG_NT_BLOCK else CONFIG_NT_ITEM)" and f: "\<not> final"
  shows "\<exists>ac'. ac_token E m pretend wnode i final t ac = Some (True, ac') \<and>
    (if b then at_block D (q @ [j]) ac' else at_item D q j ac') \<and> counted i (c_name (dat (children it ! j))) ac ac'"
proof -
  have j: "j < length (children it)" "children it \<noteq> []" using matches_single [OF t(2)] by auto
  have g: "get_at D (q @ [j]) = Some (children it ! j)" by (rule get_at_snoc [OF it j(1)])
  from j(2) obtain x xs where x: "children it = x # xs" by (cases "children it") auto
  have s: "ac_search E m i t ac = Some (True, ac\<lparr>ac_result := [Def_node (q @ [j])]\<rparr>)"
    using a it t x by (simp add: ac_search_def at_block_def node_at_def search_refs_def)
  show ?thesis using a it g ty s f
    by (auto simp: ac_token_def at_block_def at_item_def node_at_def single_match_def Let_def set_token_def detect_mode_def
      go_deeper_def search_all_def revived_def counted_def)
qed

text \<open>The value.\<close>

definition stored_value :: "ac_env \<Rightarrow> config_item \<Rightarrow> pos \<Rightarrow> string \<Rightarrow> string \<Rightarrow> string option" where
  "stored_value E D p ty t = (if get_pattern (a_cfg E) ty = None then unquote t
     else case pattern_valid (a_cfg E) D D (Some (butlast p)) ty t of Some (True, v) \<Rightarrow> Some v | _ \<Rightarrow> None)"

definition with_value :: "string \<Rightarrow> config_item \<Rightarrow> config_item" where
  "with_value v n = Item ((dat n)\<lparr>c_new_value := v, c_node_state := CONFIG_NS_MODIFIED\<rparr>) (children n)"

lemma ac_token_value:
  assumes a: "at_item D q j ac" and it: "get_at D (q @ [j]) = Some it" and ty: "c_node_type (dat it) = CONFIG_NT_ITEM"
    and v: "stored_value E D (q @ [j]) (c_type (dat it)) t = Some v"
    and par: "get_at D q \<noteq> None" and tm: "\<not> c_template (dat it)"
  shows "\<exists>go ac'. ac_token E CONFIG_ACM_ENTER False wnode i final t ac = Some (go, ac') \<and> ac_errors ac' = [] \<and>
    ac_defn ac' = map_at (with_value v) (q @ [j]) D \<and> ac_mode ac' = CONFIG_MT_SET \<and> ac_result ac' \<noteq> [] \<and>
    ac_line ac' = ac_line ac \<and> ac_size ac' = ac_size ac + 1"
proof -
  have h: "value_help E CONFIG_ACM_ENTER i r ty t x = Some (t, x)" for r ty x by (simp add: value_help_def)
  define a1 where "a1 = put_value v (Def_node (q @ [j])) (ac\<lparr>ac_special := False, ac_result := [], ac_size := ac_size ac + 1, ac_param := True\<rparr>)"
  have val: "ac_value E CONFIG_ACM_ENTER False i t (Def_node (q @ [j])) (dat it) ac = Some a1"
    using v a unfolding ac_value_def h stored_value_def a1_def
    by (auto simp: Let_def valid_value_def has_parent_def at_item_def split: if_splits option.splits prod.splits bool.splits)
  have d: "ac_defn a1 = map_at (with_value v) (q @ [j]) D"
    using a by (simp add: a1_def put_value_def at_item_def Let_def with_value_def [abs_def])
  obtain m where n: "get_at (map_at (with_value v) (q @ [j]) D) q = Some m" "get_at m [j] = Some (with_value v it)"
    using get_at_map_at [OF it, of "with_value v"] by (auto simp: get_at_append bind_eq_Some_conv)
  have "j \<in> set (matches [] m)" using n(2) tm by (cases m) (auto simp: matches_def with_value_def split: if_splits)
  then have r: "search_refs (Def_node q) [] m \<noteq> []" by (auto simp: search_refs_def)
  have e: "ac_errors a1 = []" "ac_param a1" "\<not> ac_special a1" "ac_result a1 = []" "ac_def a1 = Def_node q" "ac_mode a1 = CONFIG_MT_SET"
    "ac_line a1 = ac_line ac" "ac_size a1 = ac_size ac + 1"
    using a by (simp_all add: a1_def put_value_def at_item_def)
  show ?thesis using a it ty val d n(1) e r
    by (auto simp: ac_token_def at_item_def node_at_def no_single_def Let_def search_all_def)
qed

lemma ac_loop_names:
  assumes "at_block D q ac" and "get_at D q = Some it" and "names_path it ts p" and "ts \<noteq> []"
    and "get_at D (q @ p) = Some itm" and "stored_value E D (q @ p) (c_type (dat itm)) v = Some w"
    and "ac_line ac = pre @ ts @ [v]" and "length pre = i"
  shows "\<exists>ac'. ac_loop E CONFIG_ACM_ENTER False wnode i (ts @ [v]) ac = Some ac' \<and> ac_errors ac' = [] \<and>
    ac_defn ac' = map_at (with_value w) (q @ p) D \<and> ac_mode ac' = CONFIG_MT_SET \<and> ac_result ac' \<noteq> [] \<and>
    ac_line ac' = pre @ full_names it p @ [v] \<and> ac_size ac' = ac_size ac + int (length (ts @ [v]))"
  using assms
proof (induction ts arbitrary: i q it p ac pre)
  case (Cons t ts)
  from Cons.prems(3) obtain j p' where p: "p = j # p'" by (cases p) auto
  with Cons.prems(3) have n: "first t \<noteq> CHR ''!''" "matches t it = [j]" "names_path (children it ! j) ts p'"
    "c_node_type (dat (children it ! j)) = (if ts \<noteq> [] then CONFIG_NT_BLOCK else CONFIG_NT_ITEM)" by (auto split: if_splits)
  have g: "get_at D (q @ [j]) = Some (children it ! j)" using get_at_snoc [OF Cons.prems(2)] matches_single [OF n(2)] by simp
  from ac_token_name [OF Cons.prems(1,2) n(1,2,4), of False E CONFIG_ACM_ENTER False wnode i] obtain a1
    where a1: "ac_token E CONFIG_ACM_ENTER False wnode i False t ac = Some (True, a1)"
      "if ts \<noteq> [] then at_block D (q @ [j]) a1 else at_item D q j a1" "counted i (c_name (dat (children it ! j))) ac a1" by auto
  have l1: "ac_line a1 = (pre @ [c_name (dat (children it ! j))]) @ ts @ [v]" "ac_size a1 = ac_size ac + 1"
    using a1(3) Cons.prems(7,8) by (simp_all add: counted_def list_update_append)
  show ?case
  proof (cases "ts = []")
    case True
    then have "p' = []" using n(3) by (cases p') auto
    then have l: "itm = children it ! j" "q @ p = q @ [j]" using Cons.prems(5) g p by simp_all
    have i: "at_item D q j a1" "c_node_type (dat (children it ! j)) = CONFIG_NT_ITEM" using a1(2) n(4) True by simp_all
    have "j \<in> set (matches t it)" using n(2) by simp
    then have "\<not> c_template (dat (children it ! j))" by (simp add: matches_def)
    from ac_token_value [OF i(1) g i(2) Cons.prems(6) [unfolded l] _ this, of wnode "Suc i" True] Cons.prems(2)
    obtain go ac' where "ac_token E CONFIG_ACM_ENTER False wnode (Suc i) True v a1 = Some (go, ac')" "ac_errors ac' = []"
      "ac_defn ac' = map_at (with_value w) (q @ [j]) D" "ac_mode ac' = CONFIG_MT_SET" "ac_result ac' \<noteq> []"
      "ac_line ac' = ac_line a1" "ac_size ac' = ac_size a1 + 1" by auto
    then show ?thesis using True a1(1) l(2) l1 p \<open>p' = []\<close> by (cases go) auto
  next
    case False
    then have "at_block D (q @ [j]) a1" using a1(2) by simp
    from Cons.IH [OF this g n(3) False _ _ l1(1), of "Suc i"] Cons.prems(5,6,8) p show ?thesis using a1(1) l1(2) by auto
  qed
qed simp

text \<open>The word before the path: it changes over to the definition.\<close>

lemma ac_token_set:
  assumes "first c \<noteq> CHR ''!''" and "matches c cmd = [k]" and "c_name (dat (children cmd ! k)) = ''set''"
    and "c_node_type (dat (children cmd ! k)) \<in> {CONFIG_NT_CMD, CONFIG_NT_BLOCK}"
    and "get_at D w = Some it" and "c_node_type (dat it) = CONFIG_NT_BLOCK"
    and a: "ac_cmd ac = cmd" "ac_defn ac = D" "ac_mode ac = CONFIG_MT_UNKNOWN" "ac_def ac = Cmd_node []" "ac_last ac = None"
      "ac_errors ac = []" "\<not> ac_param ac"
  shows "\<exists>ac'. ac_token E m pretend (Def_node w) i False c ac = Some (True, ac') \<and> at_block D w ac' \<and> counted i ''set'' ac ac'"
proof -
  have j: "k < length (children cmd)" "children cmd \<noteq> []" using matches_single [OF assms(2)] by auto
  from j(2) obtain x xs where x: "children cmd = x # xs" by (cases "children cmd") auto
  have r: "get_at cmd [k] = Some (children cmd ! k)" using get_at_snoc [of cmd "[]" cmd k] j(1) by simp
  have s: "ac_search E m i c ac = Some (True, ac\<lparr>ac_result := [Cmd_node [k]]\<rparr>)"
    using a assms(1,2) x by (simp add: ac_search_def node_at_def search_refs_def)
  show ?thesis using a assms(3-6) r s
    by (auto simp: ac_token_def at_block_def node_at_def single_match_def Let_def set_token_def detect_mode_def
      go_deeper_def search_all_def revived_def mode_of_def counted_def)
qed

text \<open>The whole line, with all that it leaves.\<close>

lemma set_line_result:
  assumes "matches c cmd = [k]" and "first c \<noteq> CHR ''!''" and "c_name (dat (children cmd ! k)) = ''set''"
    and "c_node_type (dat (children cmd ! k)) \<in> {CONFIG_NT_CMD, CONFIG_NT_BLOCK}"
    and "get_at D w = Some it" and "c_node_type (dat it) = CONFIG_NT_BLOCK"
    and "names_path it ts p" and "ts \<noteq> []" and "get_at D (w @ p) = Some itm"
    and "stored_value E D (w @ p) (c_type (dat itm)) v = Some x"
  shows "\<exists>ac'. auto_complete E CONFIG_ACM_ENTER False (Def_node w) (c # ts @ [v]) (ac_start cmd D) = Some ac' \<and>
    ac_errors ac' = [] \<and> ac_defn ac' = map_at (with_value x) (w @ p) D \<and> ac_mode ac' = CONFIG_MT_SET \<and> ac_result ac' \<noteq> [] \<and>
    ac_line ac' = ''set'' # full_names it p @ [v] \<and> ac_size ac' = int (length (c # ts @ [v]))"
proof -
  define a0 where "a0 = (ac_start cmd D)\<lparr>ac_errors := [], ac_size := 0, ac_line := c # ts @ [v], ac_param := False, ac_special := False\<rparr>"
  have a: "ac_cmd a0 = cmd" "ac_defn a0 = D" "ac_mode a0 = CONFIG_MT_UNKNOWN" "ac_def a0 = Cmd_node []" "ac_last a0 = None"
    "ac_errors a0 = []" "\<not> ac_param a0" by (simp_all add: a0_def ac_start_def)
  from ac_token_set [OF assms(2,1,3-6) a, of E CONFIG_ACM_ENTER False 0] obtain a1 where
    a1: "ac_token E CONFIG_ACM_ENTER False (Def_node w) 0 False c a0 = Some (True, a1)" "at_block D w a1" "counted 0 ''set'' a0 a1" by blast
  have l: "ac_line a1 = [''set''] @ ts @ [v]" "ac_size a1 = 1" using a1(3) by (simp_all add: counted_def a0_def)
  have "auto_complete E CONFIG_ACM_ENTER False (Def_node w) (c # ts @ [v]) (ac_start cmd D)
    = ac_loop E CONFIG_ACM_ENTER False (Def_node w) 1 (ts @ [v]) a1"
    using a1(1) unfolding auto_complete_def Let_def a0_def [symmetric] by simp
  then show ?thesis using ac_loop_names [OF a1(2) assms(5,7-10) l(1), of 1 "Def_node w"] l(2) by auto
qed


text \<open>A definition of a block with an item and a template for blocks like it; there are no patterns.\<close>

definition demo_ac :: ac_env where
  "demo_ac = \<lparr>a_cfg = \<lparr>e_patterns = [], e_regex = (\<lambda>_ _. None), e_split = (\<lambda>_. None), e_atoi = (\<lambda>_. 0), e_sort = (\<lambda>_ cs. cs)\<rparr>,
     a_fsys = (\<lambda>t. (t, [])), a_rbr = is_rbr, a_revisions = []\<rparr>"

definition demo_block :: "string \<Rightarrow> bool \<Rightarrow> config_item" where
  "demo_block n tm = Item (new_data\<lparr>c_name := n, c_node_type := CONFIG_NT_BLOCK, c_template := tm\<rparr>)
     [Item (new_data\<lparr>c_name := ''port'', c_node_type := CONFIG_NT_ITEM\<rparr>) []]"

definition demo_root :: config_item where
  "demo_root = Item (new_data\<lparr>c_name := ''ROOT'', c_node_type := CONFIG_NT_BLOCK\<rparr>)
     [demo_block ''NODE'' True, demo_block ''first'' False]"


theorem pretended_line_only_adds_witness:
  "\<exists>ac'. auto_complete demo_ac CONFIG_ACM_ENTER True (Def_node []) [''set'', ''second''] (ac_start cmd_tree demo_root) = Some ac' \<and>
     length (children (ac_defn ac')) = 3 \<and> extends (ac_defn ac') demo_root"
proof -
  define r where "r = the (auto_complete demo_ac CONFIG_ACM_ENTER True (Def_node []) [''set'', ''second''] (ac_start cmd_tree demo_root))"
  have run: "auto_complete demo_ac CONFIG_ACM_ENTER True (Def_node []) [''set'', ''second''] (ac_start cmd_tree demo_root) = Some r"
    and n: "length (children (ac_defn r)) = 3"
    unfolding r_def by code_simp+
  have "cmd_free (ac_defn (ac_start cmd_tree demo_root))" by code_simp
  from pretended_line_only_adds [OF run _ this] have "extends (ac_defn r) demo_root" by (simp add: ac_start_def)
  then show ?thesis using run n by blast
qed

end
