(* ===== verification/ConfigText.thy ===== *)
theory ConfigText
  imports ConfigState
begin

text \<open>
  The texts the configuration is written as and the order of its nodes
  (\<^verbatim>\<open>src/src/cfg/mink_config.cpp\<close>): \<^verbatim>\<open>show_config\<close> for the command line, which marks changes that are
  not committed, and for files, which leaves them in or out, \<^verbatim>\<open>get_config_lc\<close>, \<^verbatim>\<open>generate_path\<close> and
  \<^verbatim>\<open>sort\<close>. A stream is the text written to it.
\<close>

section \<open>The listing for the command line\<close>

text \<open>
  The call without output: the size decides whether a block is shown at all.
\<close>

definition shown_item :: "cfg_data \<Rightarrow> bool" where
  "shown_item d \<longleftrightarrow> c_node_type d = CONFIG_NT_ITEM \<and> (c_new_value d \<noteq> [] \<or> c_node_state d = CONFIG_NS_DELETED)"

fun group_size :: "config_item \<Rightarrow> nat" and group_sizes :: "config_item list \<Rightarrow> nat" where
  "group_size (Item d cs) = (if c_empty d then 1 else 0) + group_sizes cs"
| "group_sizes [] = 0"
| "group_sizes (c # cs) =
     (if c_template (dat c) then 0
      else if c_node_type (dat c) = CONFIG_NT_BLOCK then group_size c
      else if shown_item (dat c) then length (c_new_value (dat c)) else 0) + group_sizes cs"

definition tabs :: "nat \<Rightarrow> string" where "tabs depth = replicate depth (CHR 0x09)"

definition newline :: string where "newline = [CHR 0x0A]"

definition marked :: "cfg_data \<Rightarrow> string" where
  "marked d = (case c_node_state d of CONFIG_NS_DELETED \<Rightarrow> ''-'' | CONFIG_NS_MODIFIED \<Rightarrow> ''+'' | _ \<Rightarrow> []) @ c_name d"

text \<open>The width the names of the items of a node are padded to.\<close>

definition max_length :: "config_item list \<Rightarrow> nat" where
  "max_length cs = foldl (\<lambda>m c. if \<not> c_template (dat c) \<and> c_node_type (dat c) = CONFIG_NT_ITEM
     then (let n = length (c_name (dat c)) + (if c_node_state (dat c) \<noteq> CONFIG_NS_READY then 1 else 0) in if m < n then n else m)
     else m) 0 cs"

definition item_line :: "nat \<Rightarrow> nat \<Rightarrow> string \<Rightarrow> string \<Rightarrow> string" where
  "item_line depth w n v = tabs depth @ n @ '' '' @ replicate (w - length n) (CHR '' '') @ [CHR 0x22] @ v @ [CHR 0x22] @ newline"

fun show_node :: "nat \<Rightarrow> nat \<Rightarrow> config_item \<Rightarrow> string" and show_nodes :: "nat \<Rightarrow> nat \<Rightarrow> config_item list \<Rightarrow> string" where
  "show_node depth w (Item d cs) =
     (if c_template d then []
      else if c_node_type d = CONFIG_NT_BLOCK then
        (if group_size (Item d cs) = 0 then []
         else tabs depth @ marked d @ (if c_empty d then [] else '' {'' @ newline) @
              show_nodes (Suc depth) (max_length cs) cs @
              tabs depth @ (if c_empty d then newline else ''}'' @ newline))
      else if shown_item d then item_line depth w (marked d) (c_new_value d)
      else [])"
| "show_nodes depth w [] = []"
| "show_nodes depth w (c # cs) = show_node depth w c @ show_nodes depth w cs"

definition show_config :: "nat \<Rightarrow> config_item \<Rightarrow> string" where
  "show_config depth it = show_nodes depth (max_length (children it)) (children it)"

text \<open>The number of lines it announces.\<close>

fun config_lc :: "config_item list \<Rightarrow> nat" where
  "config_lc [] = 0"
| "config_lc (Item d ch # cs) =
     (if c_template d then 0
      else if c_node_type d = CONFIG_NT_BLOCK then
        (if c_empty d then 1 else if 0 < config_lc ch then config_lc ch + 2 else 0)
      else if shown_item d then 1 else 0) + config_lc cs"

definition get_config_lc :: "config_item \<Rightarrow> nat" where
  "get_config_lc it = config_lc (children it)"

section \<open>The listings for the screen and for a buffer\<close>

text \<open>
  The window, the terminal and the standard output get the same text. A buffer gets the values without marks; a
  block whose text is empty is written and taken back.
\<close>

fun screen_sizes :: "config_item list \<Rightarrow> nat" where
  "screen_sizes [] = 0"
| "screen_sizes (Item d ch # cs) =
     (if c_template d then 0
      else if c_node_type d = CONFIG_NT_BLOCK then screen_sizes ch
      else if shown_item d then length (c_new_value d) else 0) + screen_sizes cs"

definition block_text :: "nat \<Rightarrow> string \<Rightarrow> string \<Rightarrow> string" where
  "block_text depth n t = tabs depth @ n @ '' {'' @ newline @ t @ tabs depth @ ''}'' @ newline"

definition value_text :: "nat \<Rightarrow> string \<Rightarrow> string \<Rightarrow> string" where
  "value_text depth n v = tabs depth @ n @ [CHR 0x09, CHR 0x22] @ v @ [CHR 0x22] @ newline"

fun screen_text :: "nat \<Rightarrow> config_item list \<Rightarrow> string" where
  "screen_text depth [] = []"
| "screen_text depth (Item d ch # cs) =
     (if c_template d then []
      else if c_node_type d = CONFIG_NT_BLOCK then (if screen_sizes ch = 0 then [] else block_text depth (marked d) (screen_text (Suc depth) ch))
      else if shown_item d then value_text depth (marked d) (c_new_value d) else []) @ screen_text depth cs"

fun buffer_text :: "nat \<Rightarrow> config_item list \<Rightarrow> string" where
  "buffer_text depth [] = []"
| "buffer_text depth (Item d ch # cs) =
     (if c_template d then []
      else if c_node_type d = CONFIG_NT_BLOCK then
        (let t = buffer_text (Suc depth) ch in if t = [] then [] else block_text depth (c_name d) t)
      else if c_node_type d = CONFIG_NT_ITEM \<and> c_new_value d \<noteq> [] then value_text depth (c_name d) (c_new_value d) else [])
     @ buffer_text depth cs"

section \<open>The listing for files\<close>

text \<open>
  With \<^verbatim>\<open>no_uncm\<close> the committed values are written and new blocks left out, without it the new values
  are written and what is deleted is left out.
\<close>

definition file_value :: "bool \<Rightarrow> cfg_data \<Rightarrow> string option" where
  "file_value no_uncm d =
     (if \<not> shown_item d \<or> (\<not> no_uncm \<and> c_node_state d = CONFIG_NS_DELETED) then None
      else let v = (if no_uncm then c_value d else c_new_value d) in if v = [] then None else Some v)"

definition file_skips :: "bool \<Rightarrow> cfg_data \<Rightarrow> bool" where
  "file_skips no_uncm d \<longleftrightarrow> (if no_uncm then c_new d else c_node_state d = CONFIG_NS_DELETED)"

fun file_size :: "bool \<Rightarrow> config_item \<Rightarrow> nat" and file_sizes :: "bool \<Rightarrow> config_item list \<Rightarrow> nat" where
  "file_size no_uncm (Item d cs) = (if c_empty d then 1 else 0) + file_sizes no_uncm cs"
| "file_sizes no_uncm [] = 0"
| "file_sizes no_uncm (c # cs) =
     (if c_template (dat c) then 0
      else if c_node_type (dat c) = CONFIG_NT_BLOCK then (if file_skips no_uncm (dat c) then 0 else file_size no_uncm c)
      else case file_value no_uncm (dat c) of None \<Rightarrow> 0 | Some v \<Rightarrow> length v) + file_sizes no_uncm cs"

fun file_node :: "bool \<Rightarrow> nat \<Rightarrow> nat \<Rightarrow> config_item \<Rightarrow> string" and file_nodes :: "bool \<Rightarrow> nat \<Rightarrow> nat \<Rightarrow> config_item list \<Rightarrow> string" where
  "file_node no_uncm depth w (Item d cs) =
     (if c_template d then []
      else if c_node_type d = CONFIG_NT_BLOCK then
        (if file_skips no_uncm d \<or> file_size no_uncm (Item d cs) = 0 then []
         else tabs depth @ c_name d @ (if c_empty d then [] else '' {'' @ newline) @
              file_nodes no_uncm (Suc depth) (max_length cs) cs @
              (if c_empty d then ''{}'' @ newline else tabs depth @ ''}'' @ newline))
      else case file_value no_uncm d of None \<Rightarrow> [] | Some v \<Rightarrow> item_line depth w (c_name d) v)"
| "file_nodes no_uncm depth w [] = []"
| "file_nodes no_uncm depth w (c # cs) = file_node no_uncm depth w c @ file_nodes no_uncm depth w cs"

definition file_config :: "bool \<Rightarrow> string option \<Rightarrow> config_item \<Rightarrow> string" where
  "file_config no_uncm desc it =
     (case desc of Some s \<Rightarrow> if s \<noteq> [] then ''// @desc '' @ [CHR 0x22] @ s @ [CHR 0x22] @ newline else [] | None \<Rightarrow> []) @
     file_nodes no_uncm 0 (max_length (children it)) (children it)"

section \<open>Paths and order\<close>

text \<open>The nodes are the node itself and its ancestors; the root has no parent.\<close>

fun generate_path :: "cfg_data list \<Rightarrow> string \<Rightarrow> string" where
  "generate_path (d # par # ds) result =
     (if c_node_type d = CONFIG_NT_BLOCK then generate_path (par # ds) (''/'' @ c_name d @ result) else result)"
| "generate_path _ result = result"

text \<open>The data of the nodes on the way to a position, that of the node itself first.\<close>

definition path_data :: "config_item \<Rightarrow> pos \<Rightarrow> cfg_data list" where
  "path_data root p = rev (map (\<lambda>k. dat (the (get_at root (take k p)))) [0..<Suc (length p)])"

text \<open>
  \<^verbatim>\<open>sort\<close>: a sortable child has all children but the first sorted, and then its own. The loop goes
  on at the next index of the sorted list. Of siblings that are equal the first stands for all.
\<close>

partial_function (option) sort_loop :: "cfg_env \<Rightarrow> config_item list \<Rightarrow> nat \<Rightarrow> config_item list option" where
  "sort_loop e cs i =
     (if i < length cs then
        (if c_node_type (dat (cs ! i)) \<noteq> CONFIG_NT_BLOCK \<or> c_template (dat (cs ! i)) then sort_loop e cs (Suc i)
         else if c_sort_node (dat (cs ! i)) = None then
           Option.bind (sort_loop e (children (cs ! i)) 0)
             (\<lambda>ch. sort_loop e (cs[i := Item (dat (cs ! i)) ch]) (Suc i))
         else Option.bind (sort_loop e (children (cs ! i)) 0)
             (\<lambda>ch. sort_loop e ((sort_tail e cs)[the (find_index ((=) (cs ! i)) (sort_tail e cs)) := Item (dat (cs ! i)) ch]) (Suc i)))
      else Some cs)"

definition sort_nodes :: "cfg_env \<Rightarrow> config_item \<Rightarrow> config_item option" where
  "sort_nodes e it = map_option (Item (dat it)) (sort_loop e (children it) 0)"

section \<open>The lines of a listing\<close>

definition line_count :: "string \<Rightarrow> nat" where
  "line_count s = length (filter ((=) (CHR 0x0A)) s)"

lemma line_count_simps [simp]:
  "line_count [] = 0" "line_count (c # s) = (if c = CHR 0x0A then 1 else 0) + line_count s"
  "line_count (s @ t) = line_count s + line_count t" "line_count (tabs n) = 0" "line_count newline = 1"
  "line_count (replicate n (CHR '' '')) = 0"
  by (auto simp: line_count_def tabs_def newline_def)

text \<open>
  Names and values on one line; nothing below a block that is declared empty; a deleted item has a value.
\<close>

fun one_line :: "config_item \<Rightarrow> bool" where
  "one_line (Item d cs) \<longleftrightarrow> CHR 0x0A \<notin> set (c_name d) \<and> CHR 0x0A \<notin> set (c_new_value d) \<and>
     (c_empty d \<longrightarrow> cs = []) \<and>
     (c_node_type d = CONFIG_NT_ITEM \<and> c_node_state d = CONFIG_NS_DELETED \<longrightarrow> c_new_value d \<noteq> []) \<and> list_all one_line cs"

lemma line_count_in: "CHR 0x0A \<notin> set s \<Longrightarrow> line_count s = 0"
  by (auto simp: line_count_def filter_empty_conv)

lemma group_shown:
  "list_all one_line cs \<Longrightarrow> (group_sizes cs = 0 \<longleftrightarrow> config_lc cs = 0)"
  by (induction cs rule: items_induct) (auto simp: shown_item_def)

lemma show_nodes_lines:
  "list_all one_line cs \<Longrightarrow> line_count (show_nodes depth w cs) = config_lc cs"
proof (induction cs arbitrary: depth w rule: items_induct)
  case (Item d ch cs)
  have m: "line_count (marked d) = 0"
    using Item.prems by (auto simp: marked_def line_count_in split: ConfigNodeState.splits)
  have v: "line_count (c_new_value d) = 0" using Item.prems by (simp add: line_count_in)
  show ?case using Item group_shown [of ch] m v by (auto simp: item_line_def)
qed simp

text \<open>The last condition is needed: a block of one deleted item without a value is counted, but not shown.\<close>

lemma deleted_item_miscounted:
  "\<exists>it. get_config_lc it = 3 \<and> show_config 0 it = []"
proof -
  let ?it = "Item (new_data\<lparr>c_node_type := CONFIG_NT_BLOCK\<rparr>) [Item (new_data\<lparr>c_node_type := CONFIG_NT_BLOCK\<rparr>)
    [Item (new_data\<lparr>c_node_type := CONFIG_NT_ITEM, c_node_state := CONFIG_NS_DELETED\<rparr>) []]]"
  have "get_config_lc ?it = 3 \<and> show_config 0 ?it = []"
    by (simp add: get_config_lc_def show_config_def new_data_def shown_item_def)
  then show ?thesis by (rule exI)
qed

section \<open>What sorting keeps\<close>

fun all_data :: "config_item list \<Rightarrow> cfg_data multiset" where
  "all_data [] = {#}"
| "all_data (Item d ch # cs) = add_mset d (all_data ch + all_data cs)"

lemma all_data_append: "all_data (xs @ ys) = all_data xs + all_data ys"
  by (induction xs rule: all_data.induct) auto

lemma all_data_mset: "mset xs = mset ys \<Longrightarrow> all_data xs = all_data ys"
proof -
  have "all_data xs = (\<Sum>c\<in>#mset xs. all_data [c])" for xs
  proof (induction xs)
    case (Cons c xs)
    then show ?case using all_data_append [of "[c]" xs] by simp
  qed simp
  then show "mset xs = mset ys \<Longrightarrow> all_data xs = all_data ys" by metis
qed

lemma all_data_update:
  assumes "j < length cs" and "cs ! j = Item d ch" and "all_data ch' = all_data ch"
  shows "all_data (cs[j := Item d ch']) = all_data cs"
proof -
  have "cs = take j cs @ Item d ch # drop (Suc j) cs" using assms(1,2) by (metis id_take_nth_drop)
  moreover have "cs[j := Item d ch'] = take j cs @ Item d ch' # drop (Suc j) cs" using assms(1) by (rule upd_conv_take_nth_drop)
  ultimately show ?thesis using assms(3) all_data_append
    by (metis all_data.simps(2))
qed

lemma all_data_child: "j < length cs \<Longrightarrow> cs ! j = Item d ch \<Longrightarrow> size (all_data ch) < size (all_data cs)"
proof -
  assume "j < length cs" "cs ! j = Item d ch"
  then have "cs = take j cs @ Item d ch # drop (Suc j) cs" by (metis id_take_nth_drop)
  then have "all_data cs = all_data (take j cs) + (add_mset d (all_data ch + all_data (drop (Suc j) cs)))"
    by (metis all_data.simps(2) all_data_append)
  then show ?thesis by simp
qed

text \<open>\<^verbatim>\<open>sort\<close> always ends, and moves nodes only among their siblings: it keeps the nodes and their data.\<close>

lemma sort_loop_keeps:
  assumes "sort_ok e"
  shows "\<exists>cs'. sort_loop e cs i = Some cs' \<and> all_data cs' = all_data cs \<and> length cs' = length cs"
proof (induction "(cs, i)" arbitrary: cs i
    rule: wf_induct_rule [OF wf_measures [of "[\<lambda>(cs, i). size (all_data cs), \<lambda>(cs, i). length cs - i]"]])
  case (1 cs i)
  have on: "\<exists>cs'. sort_loop e cs2 (Suc i) = Some cs' \<and> all_data cs' = all_data cs2 \<and> length cs' = length cs2"
    if "i < length cs" "all_data cs2 = all_data cs" "length cs2 = length cs" for cs2
    using that by (intro 1) auto
  show ?case
  proof (cases "i < length cs")
    case False
    then show ?thesis by (subst sort_loop.simps) simp
  next
    case i: True
    obtain d ch where c: "cs ! i = Item d ch" by (cases "cs ! i")
    obtain ch' where ch: "sort_loop e ch 0 = Some ch'" "all_data ch' = all_data ch"
      using 1 [of ch 0] all_data_child [OF i c] by auto
    let ?s = "sort_tail e cs" and ?j = "the (find_index ((=) (cs ! i)) (sort_tail e cs))"
    have ms: "mset ?s = mset cs"
      using assms unfolding sort_ok_def sort_tail_def by (metis append_take_drop_id mset_append)
    then have "cs ! i \<in> set ?s" using i by (metis nth_mem set_mset_mset)
    then have j: "?j < length ?s \<and> ?s ! ?j = Item d ch"
      unfolding c
      by (cases "find_index ((=) (Item d ch)) ?s") (auto simp: find_index_None dest!: find_index_Some)
    have "all_data (?s[?j := Item d ch']) = all_data cs"
      using all_data_update [of ?j ?s d ch ch'] j ch(2) all_data_mset [OF ms] by simp
    moreover have "length ?s = length cs" using ms by (metis size_mset)
    ultimately obtain x where x: "sort_loop e (?s[?j := Item d ch']) (Suc i) = Some x" "all_data x = all_data cs" "length x = length cs"
      using on [OF i, of "?s[?j := Item d ch']"] by auto
    obtain y where y: "sort_loop e (cs[i := Item d ch']) (Suc i) = Some y" "all_data y = all_data cs" "length y = length cs"
      using on [OF i, of "cs[i := Item d ch']"] all_data_update [OF i c ch(2)] by auto
    obtain z where z: "sort_loop e cs (Suc i) = Some z" "all_data z = all_data cs" "length z = length cs"
      using on [OF i, of cs] by auto
    show ?thesis using i c ch x y z by (subst sort_loop.simps) auto
  qed
qed

lemma sort_nodes_keeps:
  "sort_ok e \<Longrightarrow> \<exists>it'. sort_nodes e it = Some it' \<and> dat it' = dat it \<and> all_data (children it') = all_data (children it)"
  using sort_loop_keeps [of e "children it" 0] by (auto simp: sort_nodes_def)

text \<open>
  The command line is told the right number of lines: \<^verbatim>\<open>get_config_lc\<close> is the number of lines that
  \<^verbatim>\<open>show_config\<close> writes, when names and values have no line ends, blocks declared empty are empty and
  no item without a value is deleted.
\<close>

theorem config_lines_counted:
  assumes "list_all one_line (children it)"
  shows "line_count (show_config depth it) = get_config_lc it"
  using assms by (simp add: show_config_def get_config_lc_def show_nodes_lines)

section \<open>The listings agree\<close>

lemma text_not_empty [simp]: "block_text depth n t \<noteq> []" "value_text depth n v \<noteq> []"
  by (simp_all add: block_text_def value_text_def)

fun all_ready :: "config_item list \<Rightarrow> bool" where
  "all_ready [] = True"
| "all_ready (Item d ch # cs) \<longleftrightarrow> c_node_state d = CONFIG_NS_READY \<and> all_ready ch \<and> all_ready cs"

lemma buffer_empty: "all_ready cs \<Longrightarrow> (buffer_text depth cs = [] \<longleftrightarrow> screen_sizes cs = 0)"
  by (induction cs arbitrary: depth rule: items_induct) (auto simp: shown_item_def Let_def)

text \<open>
  The listings agree: when nothing waits for a commit, the text written into a buffer is the one
  shown on the screen, the blocks that are left out included.
\<close>

theorem listings_agree:
  assumes "all_ready cs"
  shows "buffer_text depth cs = screen_text depth cs"
  using assms
proof (induction cs arbitrary: depth rule: items_induct)
  case (Item d ch cs)
  then show ?case using buffer_empty [of ch "Suc depth"] by (auto simp: shown_item_def marked_def Let_def)
qed simp

theorem listings_agree_witness:
  "buffer_text 0 [Item (new_data\<lparr>c_name := ''a'', c_node_type := CONFIG_NT_BLOCK\<rparr>)
     [Item (new_data\<lparr>c_name := ''b'', c_new_value := ''1'', c_node_type := CONFIG_NT_ITEM\<rparr>) []],
     Item (new_data\<lparr>c_name := ''c'', c_node_type := CONFIG_NT_BLOCK\<rparr>) []] =
   screen_text 0 [Item (new_data\<lparr>c_name := ''a'', c_node_type := CONFIG_NT_BLOCK\<rparr>)
     [Item (new_data\<lparr>c_name := ''b'', c_new_value := ''1'', c_node_type := CONFIG_NT_ITEM\<rparr>) []],
     Item (new_data\<lparr>c_name := ''c'', c_node_type := CONFIG_NT_BLOCK\<rparr>) []]"
  by (rule listings_agree) (simp add: new_data_def)

theorem config_lines_counted_witness:
  "line_count (show_config 0 (Item new_data [Item (new_data\<lparr>c_name := ''a'', c_node_type := CONFIG_NT_BLOCK\<rparr>)
     [Item (new_data\<lparr>c_name := ''b'', c_new_value := ''1'', c_node_type := CONFIG_NT_ITEM\<rparr>) []]])) = 3"
  by (subst config_lines_counted) (simp_all add: get_config_lc_def new_data_def shown_item_def)

end
