(* ===== verification/Ber.thy ===== *)
theory Ber
  imports Prelude
begin

text \<open>
  The tag and length octets of BER, of \<^verbatim>\<open>src/src/asn1/asn1.cpp\<close>: their preparation, encoding and
  decoding. A buffer is the memory it lies in with a position, since the decoders follow
  continuation bits and length octets without regard to the length they are given; reading past
  the memory has no result (\<^term>\<open>None\<close>). C \<^verbatim>\<open>int\<close> fields are 32-bit words, read signed where the
  code compares them.
\<close>

section \<open>TLV nodes\<close>

datatype LengthType = DEFINITE_SHORT | DEFINITE_LONG | INDEFINITE | LENGTH_TYPE_UNKNOWN

text \<open>
  Tag class and complexity are the masked bits of the first octet; -1 is the unknown one. The
  value is the position of its first octet.
\<close>

record tlv_node =
  is_explicit :: bool
  tag_class :: u32
  complexity :: u32
  override_auto_complexity :: bool
  unlimited_size :: bool
  length_type :: LengthType
  uni_tag_class :: u32
  tag_value :: u32
  tag_value_size :: nat
  value_at :: nat
  full_tlv :: nat
  full_tlv_length :: u32
  value_length :: u32
  value_length_size :: nat
  old_value_length :: u32

definition new_tlv :: tlv_node where
  "new_tlv = \<lparr>is_explicit = False, tag_class = - 1, complexity = - 1, override_auto_complexity = False,
     unlimited_size = False, length_type = LENGTH_TYPE_UNKNOWN, uni_tag_class = - 1, tag_value = - 1,
     tag_value_size = 0, value_at = 0, full_tlv = 0, full_tlv_length = 0, value_length = 0,
     value_length_size = 0, old_value_length = 0\<rparr>"

abbreviation PRIMITIVE :: u32 where "PRIMITIVE \<equiv> 0"
abbreviation CONSTRUCTED :: u32 where "CONSTRUCTED \<equiv> 0x20"
abbreviation CHOICE :: u32 where "CHOICE \<equiv> 0xff"
abbreviation UNKNOWN_UNIVERSAL_TAG :: u32 where "UNKNOWN_UNIVERSAL_TAG \<equiv> - 1"
abbreviation ANY :: u32 where "ANY \<equiv> - 2"

section \<open>Preparing\<close>

text \<open>
  The number of bits of a value, \<^verbatim>\<open>ceil(log2(v + 1))\<close>, is the length of its binary representation.
  The sum is an \<^verbatim>\<open>int\<close>, which overflows at the largest one: C++ leaves the result open there, and so
  does \<^term>\<open>overflow_bits\<close>, a number of which nothing is known. Of tags the largest is not used by any
  definition, and the claims on tag octets end at 16383; there the bits are those of the value.
\<close>

definition overflow_bits :: nat where
  "overflow_bits = undefined"

definition code_bits :: "u32 \<Rightarrow> nat" where
  "code_bits v = (if v = 0x7fffffff then overflow_bits else bit_len (unat v))"

lemma code_bits_small: "unat v < 2 ^ 31 - 1 \<Longrightarrow> code_bits v = bit_len (unat v)"
  by (auto simp: code_bits_def)

text \<open>\<^verbatim>\<open>ceil(bits / k)\<close>.\<close>

definition units :: "nat \<Rightarrow> nat \<Rightarrow> nat" where
  "units k bits = (bits + k - 1) div k"

definition prepare_tag :: "tlv_node \<Rightarrow> tlv_node" where
  "prepare_tag t = (if sint (tag_value t) > 30
     then t\<lparr>tag_value_size := units 7 (bit_len (unat (tag_value t))) + 1\<rparr>
     else t\<lparr>tag_value_size := 1\<rparr>)"

definition prepare_length :: "tlv_node \<Rightarrow> tlv_node" where
  "prepare_length t = (if sint (value_length t) > 127
     then t\<lparr>value_length_size := units 8 (code_bits (value_length t)) + 1, length_type := DEFINITE_LONG\<rparr>
     else t\<lparr>value_length_size := 1, length_type := DEFINITE_SHORT\<rparr>)"

section \<open>Encoding\<close>

text \<open>
  The octets after the first one of a long tag: \<^term>\<open>n\<close> of them, all but the last with the
  continuation bit, each with the tag shifted by whole octets.
\<close>

fun tag_octets :: "nat \<Rightarrow> u32 \<Rightarrow> octets" where
  "tag_octets 0 v = []"
| "tag_octets (Suc n) v = (let b = 0x80 OR ucast (signed_drop_bit (8 * n) v)
     in (if n = 0 then b AND 0x7f else b) # tag_octets n v)"

definition tag_head :: "tlv_node \<Rightarrow> u8" where
  "tag_head t = ucast (0x1f OR tag_class t OR complexity t)"

definition tag_short :: "tlv_node \<Rightarrow> u8" where
  "tag_short t = ucast (tag_value t OR tag_class t OR complexity t)"

text \<open>The octets written, and the node after it; a buffer of length 0 is left alone.\<close>

definition encode_tag :: "nat \<Rightarrow> tlv_node \<Rightarrow> octets \<times> tlv_node" where
  "encode_tag len t = (if 0 < len then
     (if sint (tag_value t) > 30 then
        (let n = units 7 (bit_len (unat (tag_value t)))
         in (tag_head t # tag_octets n (tag_value t), t\<lparr>tag_value_size := n + 1\<rparr>))
      else ([tag_short t], t\<lparr>tag_value_size := 1\<rparr>))
   else ([], t))"

definition encode_prepared_tag :: "nat \<Rightarrow> tlv_node \<Rightarrow> octets" where
  "encode_prepared_tag len t = (if 0 < len then
     (if 1 < tag_value_size t then tag_head t # tag_octets (tag_value_size t - 1) (tag_value t)
      else [tag_short t])
   else [])"

text \<open>The \<^term>\<open>n\<close> low octets of a length, most significant first.\<close>

fun be_octets :: "nat \<Rightarrow> u32 \<Rightarrow> octets" where
  "be_octets 0 v = []"
| "be_octets (Suc n) v = ucast (drop_bit (8 * n) v) # be_octets n v"

definition encode_length :: "nat \<Rightarrow> tlv_node \<Rightarrow> octets \<times> tlv_node" where
  "encode_length len t = (if 0 < len then
     (if sint (value_length t) > 127 then
        (let n = units 8 (code_bits (value_length t))
         in ((0x80 OR of_nat n) # be_octets n (value_length t), t\<lparr>value_length_size := n + 1\<rparr>))
      else ([ucast (value_length t)], t\<lparr>value_length_size := 1\<rparr>))
   else ([], t))"

text \<open>
  The prepared variant trusts \<^verbatim>\<open>value_length_size\<close>: 0 for a long length makes it write through
  four gigabytes, and more than four octets shift by the width of the type.
\<close>

definition encode_prepared_length :: "nat \<Rightarrow> tlv_node \<Rightarrow> octets option" where
  "encode_prepared_length len t = (if 0 < len then
     (if sint (value_length t) > 127 then
        (if value_length_size t = 0 \<or> 4 < value_length_size t - 1 then None
         else Some ((0x80 OR of_nat (value_length_size t - 1))
                # be_octets (value_length_size t - 1) (value_length t)))
      else Some [ucast (value_length t)])
   else Some [])"

section \<open>Decoding\<close>

definition byte_at :: "octets \<Rightarrow> nat \<Rightarrow> u8 option" where
  "byte_at mem p = (if p < length mem then Some (mem ! p) else None)"

text \<open>
  The octets of a long tag: those up to the first without continuation bit. More than five of
  them shift by more than the width of the type.
\<close>

definition long_tag :: "octets \<Rightarrow> nat \<Rightarrow> octets option" where
  "long_tag mem p = (let more = takeWhile (\<lambda>b. b AND 0x80 = 0x80) (drop p mem)
     in if p + length more < length mem \<and> length more < 5
        then Some (more @ [mem ! (p + length more)]) else None)"

fun tag_bits :: "octets \<Rightarrow> u32" where
  "tag_bits [] = 0"
| "tag_bits (b # bs) = push_bit (7 * length bs) (ucast (b AND 0x7f)) OR tag_bits bs"

definition decode_tag :: "octets \<Rightarrow> nat \<Rightarrow> u32 \<Rightarrow> tlv_node \<Rightarrow> tlv_node option" where
  "decode_tag mem p len t = (if 0 < len then
     Option.bind (byte_at mem p) (\<lambda>b.
       let t = t\<lparr>tag_class := ucast (b AND 0xc0), complexity := ucast (b AND 0x20)\<rparr>
       in if b AND 0x1f = 0x1f then
            Option.bind (long_tag mem (Suc p)) (\<lambda>bs.
              Some (t\<lparr>tag_value := tag_bits bs, tag_value_size := length bs + 1\<rparr>))
          else Some (t\<lparr>tag_value := ucast (b AND 0x1f), tag_value_size := 1\<rparr>))
   else Some t)"

fun sum_octets :: "octets \<Rightarrow> u32" where
  "sum_octets [] = 0"
| "sum_octets (b # bs) = push_bit (8 * length bs) (ucast b) + sum_octets bs"

text \<open>
  \<^verbatim>\<open>decode_length\<close> but for the search of the end of an indefinite form: the return code, the node,
  and whether the search is to follow.
\<close>

definition length_head :: "octets \<Rightarrow> nat \<Rightarrow> u32 \<Rightarrow> tlv_node \<Rightarrow> (nat \<times> tlv_node \<times> bool) option" where
  "length_head mem p len t = (if 0 < len then
     Option.bind (byte_at mem p) (\<lambda>b.
       if b > 0x80 then
         (let t = t\<lparr>length_type := DEFINITE_LONG\<rparr>; l = b AND 0x7f
          in if l = 0x7f then Some (2, t, False)
             else if len \<le> ucast l then Some (2, t, False)
             else if 4 < unat l \<or> length mem < Suc p + unat l then None
             else Some (0, t\<lparr>value_length_size := unat l + 1,
                    value_length := sum_octets (take (unat l) (drop (Suc p) mem))\<rparr>, False))
       else if b = 0x80 then
         Some (0, t\<lparr>length_type := INDEFINITE, value_length_size := 1\<rparr>, True)
       else Some (0, t\<lparr>length_type := DEFINITE_SHORT, value_length_size := 1, value_length := ucast b\<rparr>, False))
   else Some (1, t, False))"

text \<open>
  \<^verbatim>\<open>find_eoc\<close>, at offset \<^term>\<open>pos\<close> of the \<^term>\<open>len\<close> octets at \<^term>\<open>base\<close>. The offset is
  unsigned and wraps with a length that is negative as an \<^verbatim>\<open>int\<close>, so the loop may not end. The
  nested decoder of an indefinite length is given the whole length again, as in the code.
\<close>

partial_function (option) find_loop :: "octets \<Rightarrow> nat \<Rightarrow> u32 \<Rightarrow> u32 \<Rightarrow> tlv_node \<Rightarrow> u32 option" where
  "find_loop mem base len pos t =
     (if pos < len then
        Option.bind (decode_tag mem (base + unat pos) len t) (\<lambda>t1.
        Option.bind (length_head mem (base + unat (pos + of_nat (tag_value_size t1))) len t1) (\<lambda>h.
        Option.bind (if snd (snd h)
            then find_loop mem (base + unat (pos + of_nat (tag_value_size t1)) + 1) (len - 1) 0 new_tlv
            else Some (value_length (fst (snd h)))) (\<lambda>vl.
        Option.bind (if complexity (fst (snd h)) = PRIMITIVE
            then Some (pos + of_nat (tag_value_size t1) + of_nat (value_length_size (fst (snd h))) + vl)
            else if complexity (fst (snd h)) = CONSTRUCTED then
              (if length_type (fst (snd h)) = INDEFINITE
               then Option.bind (find_loop mem
                   (base + unat (pos + of_nat (tag_value_size t1) + of_nat (value_length_size (fst (snd h)))))
                   (len - (pos + of_nat (tag_value_size t1) + of_nat (value_length_size (fst (snd h))))) 0 new_tlv)
                 (\<lambda>n. Some (pos + of_nat (tag_value_size t1) + of_nat (value_length_size (fst (snd h))) + (n + 2)))
               else Some (pos + of_nat (tag_value_size t1) + of_nat (value_length_size (fst (snd h))) + vl))
            else Some (pos + of_nat (tag_value_size t1) + of_nat (value_length_size (fst (snd h))))) (\<lambda>pos'.
        if pos' < len - 1 then
          Option.bind (byte_at mem (base + unat pos')) (\<lambda>b0.
          if b0 = 0 then
            Option.bind (byte_at mem (base + unat (pos' + 1))) (\<lambda>b1.
            if b1 = 0 then Some pos'
            else find_loop mem base len pos' ((fst (snd h))\<lparr>value_length := vl\<rparr>))
          else find_loop mem base len pos' ((fst (snd h))\<lparr>value_length := vl\<rparr>))
        else find_loop mem base len pos' ((fst (snd h))\<lparr>value_length := vl\<rparr>)))))
      else Some 0)"

definition find_eoc :: "octets \<Rightarrow> nat \<Rightarrow> u32 \<Rightarrow> u32 option" where
  "find_eoc mem base len = (if 0 < len then find_loop mem base len 0 new_tlv else Some 0)"

definition decode_length :: "octets \<Rightarrow> nat \<Rightarrow> u32 \<Rightarrow> tlv_node \<Rightarrow> (nat \<times> tlv_node) option" where
  "decode_length mem p len t = Option.bind (length_head mem p len t) (\<lambda>(r, t, ind).
     if ind then Option.bind (find_eoc mem (p + 1) (len - 1)) (\<lambda>n. Some (r, t\<lparr>value_length := n\<rparr>))
     else Some (r, t))"

section \<open>Integers\<close>

text \<open>
  \<^verbatim>\<open>prepare_int\<close>: the octets of the big-endian result, and the number of them that count;
  \<^term>\<open>sz\<close> is \<^verbatim>\<open>size_bytes\<close>, computed with floating point, or the override. Size 0, which
  \<^verbatim>\<open>size_bytes\<close> gives for 0, shifts by the width of the type before it is corrected to 1. Both
  functions read the integer of a little-endian machine through its bytes.
\<close>

definition prepare_int :: "u32 \<Rightarrow> nat \<Rightarrow> (octets \<times> nat) option" where
  "prepare_int v sz = (if sz = 0 \<or> 4 < sz then None
     else Some (be_octets 4 (push_bit ((4 - sz) * 8) v), sz))"

definition decode_int :: "octets \<Rightarrow> nat \<Rightarrow> u64 option" where
  "decode_int data len = (if 8 < len then Some 0
     else if len = 0 \<or> length data < len then None
     else Some (foldl (\<lambda>acc b. push_bit 8 acc OR ucast b) 0 (take len data)))"

lemma bit_len_units: "0 < k \<Longrightarrow> n < 2 ^ (k * units k (bit_len n))"
proof -
  assume k: "0 < k"
  have "b \<le> k * ((b + k - 1) div k)" for b :: nat
  proof -
    have "(b + k - 1) div k * k + (b + k - 1) mod k = b + k - 1" by (rule div_mult_mod_eq)
    moreover have "(b + k - 1) mod k < k" using k by simp
    ultimately have "b + k - 1 < k * ((b + k - 1) div k) + k" by (simp only: mult.commute [of k])
    then show ?thesis using k by linarith
  qed
  then show ?thesis by (simp add: units_def flip: bit_len_le)
qed

lemma units_le: "0 < k \<Longrightarrow> n < 2 ^ (k * m) \<Longrightarrow> units k (bit_len n) \<le> m"
proof -
  assume k: "0 < k" and "n < 2 ^ (k * m)"
  then have "bit_len n \<le> k * m" by (simp add: bit_len_le)
  then have "bit_len n + k - 1 < Suc m * k" using k by (simp add: mult.commute)
  then show ?thesis using k by (simp add: units_def div_less_iff_less_mult less_Suc_eq_le [symmetric] del: mult_Suc)
qed

lemma units_pos: "0 < k \<Longrightarrow> 0 < n \<Longrightarrow> 0 < units k (bit_len n)"
  by (simp add: units_def bit_len.simps [of n] div_greater_zero_iff)

text \<open>Length octets.\<close>

lemma length_be [simp]: "length (be_octets n v) = n"
  by (induction n) auto

lemma unat_sum_be:
  "n \<le> 4 \<Longrightarrow> unat (sum_octets (be_octets n v)) = unat v mod 2 ^ (8 * n)"
proof (induction n)
  case 0
  then show ?case by simp
next
  case (Suc n)
  let ?x = "unat v" and ?b = "(2 :: nat) ^ (8 * n)"
  have oct: "unat (ucast (drop_bit (8 * n) v) :: u8) = ?x div ?b mod 256"
    by (simp only: unsigned_ucast_eq [where ?'a = nat] unat_drop_bit_eq drop_bit_eq_div [where ?'a = nat] take_bit_eq_mod) simp
  have lt: "?x div ?b mod 256 * ?b < 2 ^ 32"
  proof -
    have "?x div ?b mod 256 * ?b < 256 * ?b" by (intro mult_strict_right_mono) auto
    also have "\<dots> = 2 ^ (8 * Suc n)" by (simp add: power_add)
    also have "\<dots> \<le> 2 ^ 32" using Suc.prems by (intro power_increasing) auto
    finally show ?thesis .
  qed
  have sh: "unat (push_bit (8 * n) (ucast (ucast (drop_bit (8 * n) v) :: u8) :: u32)) = ?x div ?b mod 256 * ?b"
  proof -
    have "unat (ucast (ucast (drop_bit (8 * n) v) :: u8) :: u32) = ?x div ?b mod 256"
      by (simp only: unsigned_ucast_eq [where ?'a = nat] unat_drop_bit_eq drop_bit_eq_div [where ?'a = nat] take_bit_eq_mod) simp
    then show ?thesis
      using lt by (simp only: unsigned_push_bit_eq) (simp add: push_bit_eq_mult take_bit_eq_mod)
  qed
  have whole: "?x mod 2 ^ (8 * Suc n) = ?b * (?x div ?b mod 256) + ?x mod ?b"
    using mod_mult2_eq [of ?x ?b 256] by (simp add: power_add mult.commute)
  have "?x mod 2 ^ (8 * Suc n) < 2 ^ 32"
  proof -
    have "?x mod 2 ^ (8 * Suc n) < 2 ^ (8 * Suc n)" by simp
    also have "\<dots> \<le> 2 ^ 32" using Suc.prems by (intro power_increasing) auto
    finally show ?thesis .
  qed
  with whole sh Suc show ?case
    by (simp add: unat_word_ariths mult.commute)
qed

lemma sum_be: "n \<le> 4 \<Longrightarrow> unat v < 2 ^ (8 * n) \<Longrightarrow> sum_octets (be_octets n v) = v"
  using unat_sum_be [of n v] by (simp add: word_unat_eq_iff)

text \<open>Tag octets. The bit fields of one octet are decided by evaluation.\<close>

definition tag_classes :: "u32 list" where
  "tag_classes = [0, 0x40, 0x80, 0xc0]"

definition complexities :: "u32 list" where
  "complexities = [PRIMITIVE, CONSTRUCTED]"

lemma word_below: "unat (v :: u32) < n \<Longrightarrow> v \<in> set (map of_nat [0..<n])"
  by (auto intro!: image_eqI [of _ _ "unat v"])

lemma short_table:
  "list_all (\<lambda>v. list_all (\<lambda>c. list_all (\<lambda>x. let b = ucast (v OR c OR x) :: u8 in
      ucast (b AND 0x1f) = v \<and> ucast (b AND 0xc0) = c \<and> ucast (b AND 0x20) = x) complexities) tag_classes)
    (map of_nat [0..<32] :: u32 list)"
  by code_simp

lemma short_parts:
  fixes v c x :: u32
  assumes "unat v < 32" and "c \<in> set tag_classes" and "x \<in> set complexities"
  shows "ucast ((ucast (v OR c OR x) :: u8) AND 0x1f) = v"
    and "ucast ((ucast (v OR c OR x) :: u8) AND 0xc0) = c"
    and "ucast ((ucast (v OR c OR x) :: u8) AND 0x20) = x"
  using short_table word_below [OF assms(1)] assms(2,3) unfolding list_all_iff Let_def by blast+

lemma septet_table:
  "list_all (\<lambda>v. let b = (0x80 OR ucast v) AND (0x7f :: u8) in
      b AND 0x80 \<noteq> 0x80 \<and> ucast (b AND 0x7f) = v) (map of_nat [0..<128] :: u32 list)"
  by code_simp

lemma septet_parts:
  fixes v :: u32
  assumes "unat v < 128"
  shows "((0x80 OR ucast v) AND (0x7f :: u8)) AND 0x80 \<noteq> 0x80"
    and "ucast (((0x80 OR ucast v) AND (0x7f :: u8)) AND 0x7f) = v"
  using septet_table word_below [OF assms] unfolding list_all_iff Let_def by blast+

lemma count_table:
  "list_all (\<lambda>n. let b = 0x80 OR of_nat n :: u8 in b > 0x80 \<and> b AND 0x7f \<noteq> 0x7f \<and> unat (b AND 0x7f) = n)
    [1, 2, 3, 4]"
  by code_simp

lemma count_octet:
  assumes "0 < n" and "n \<le> 4"
  shows "0x80 < (0x80 OR of_nat n :: u8)" and "(0x80 OR of_nat n :: u8) AND 0x7f \<noteq> 0x7f"
    and "unat ((0x80 OR of_nat n :: u8) AND 0x7f) = n"
proof -
  have "n = 1 \<or> n = 2 \<or> n = 3 \<or> n = 4" using assms by linarith
  then have "n \<in> set [1, 2, 3, 4]" by auto
  with count_table show "0x80 < (0x80 OR of_nat n :: u8)" "(0x80 OR of_nat n :: u8) AND 0x7f \<noteq> 0x7f"
    "unat ((0x80 OR of_nat n :: u8) AND 0x7f) = n"
    unfolding list_all_iff Let_def by blast+
qed

lemma unat_octet [simp]: "unat (ucast (b :: u8) :: u32) = unat b"
proof -
  have "unat b < 2 ^ 8" using unsigned_less [of b, where 'a = nat] by simp
  then have "unat b < 2 ^ 32" by (rule order.strict_trans) simp
  then show ?thesis by (simp add: unsigned_ucast_eq [where 'a = nat] take_bit_nat_eq_self)
qed

section \<open>Round trips\<close>

definition length_form :: "u32 \<Rightarrow> LengthType" where
  "length_form v = (if unat v \<le> 127 then DEFINITE_SHORT else DEFINITE_LONG)"

text \<open>The octets of a node's prepared length.\<close>

definition length_octets :: "u32 \<Rightarrow> octets" where
  "length_octets v = (if unat v \<le> 127 then [ucast v]
     else (0x80 OR of_nat (units 8 (bit_len (unat v)))) # be_octets (units 8 (bit_len (unat v))) v)"

lemma sint_small: "unat (v :: u32) < 2 ^ 31 \<Longrightarrow> (sint v > int k) = (unat v > k)"
  using sint_pos_unat [of v] by linarith

lemma encode_length_octets:
  assumes "unat (value_length t) < 2 ^ 31 - 1" and "0 < len"
  shows "encode_length len t
       = (length_octets (value_length t), t\<lparr>value_length_size := length (length_octets (value_length t))\<rparr>)"
  using assms(2) sint_small [of "value_length t" 127] code_bits_small [OF assms(1)] order_less_trans [OF assms(1)]
  by (simp add: encode_length_def length_octets_def Let_def not_less)

lemma length_units:
  assumes "unat v < 2 ^ 31" and "127 < unat v"
  shows "0 < units 8 (bit_len (unat v))" "units 8 (bit_len (unat v)) \<le> 4"
    "unat v < 2 ^ (8 * units 8 (bit_len (unat v)))"
proof -
  have "unat v < 2 ^ (8 * 4)" using assms by simp
  then show "units 8 (bit_len (unat v)) \<le> 4" by (intro units_le) auto
  show "0 < units 8 (bit_len (unat v))" using assms by (intro units_pos) auto
  show "unat v < 2 ^ (8 * units 8 (bit_len (unat v)))" by (rule bit_len_units) simp
qed

lemma encode_prepared_length_octets:
  assumes "unat (value_length t) < 2 ^ 31 - 1" and "0 < len"
  shows "encode_prepared_length len (prepare_length t) = Some (length_octets (value_length t))"
    and "value_length_size (prepare_length t) = length (length_octets (value_length t))"
  using assms sint_small [of "value_length t" 127] length_units [of "value_length t"] code_bits_small [OF assms(1)]
  by (auto simp: encode_prepared_length_def prepare_length_def length_octets_def not_less)

lemma decode_length_octets:
  assumes v: "unat v < 2 ^ 31" and mem: "mem = pre @ length_octets v @ post"
    and len: "length (length_octets v) \<le> unat len"
  shows "decode_length mem (length pre) len t = Some (0, t\<lparr>length_type := length_form v,
     value_length_size := length (length_octets v), value_length := v\<rparr>)"
proof (cases "unat v \<le> 127")
  case True
  then have "unat (ucast v :: u8) = unat v" by (simp add: unsigned_ucast_eq [where 'a = nat] take_bit_eq_mod)
  then have "\<not> (0x80 :: u8) < ucast v" "ucast v \<noteq> (0x80 :: u8)"
    using True by (auto simp: word_less_nat_alt word_unat_eq_iff)
  moreover have "(ucast (ucast v :: u8) :: u32) = v"
    using \<open>unat (ucast v :: u8) = unat v\<close> by (simp only: word_unat_eq_iff unat_octet)
  moreover have "0 < len" using len True by (simp add: length_octets_def word_less_nat_alt)
  ultimately show ?thesis
    using True by (simp add: decode_length_def length_head_def mem length_octets_def length_form_def byte_at_def nth_append)
next
  case False
  define n where "n = units 8 (bit_len (unat v))"
  have n: "0 < n" "n \<le> 4" "unat v < 2 ^ (8 * n)"
    using length_units [OF v] False by (auto simp: n_def)
  have lo: "length_octets v = (0x80 OR of_nat n) # be_octets n v"
    using False by (simp add: length_octets_def n_def)
  have "n + 1 \<le> unat len" using len by (simp add: lo)
  moreover have "unat (ucast ((0x80 OR of_nat n :: u8) AND 0x7f) :: u32) = n"
    using count_octet(3) [OF n(1,2)] by (simp only: unat_octet)
  ultimately have cnt: "\<not> len \<le> ucast ((0x80 OR of_nat n :: u8) AND 0x7f)" "0 < len"
    by (auto simp: word_le_nat_alt word_less_nat_alt)
  have "take n (drop (Suc (length pre)) mem) = be_octets n v"
    by (simp add: mem lo)
  then show ?thesis
    using False n cnt count_octet [OF n(1,2)] sum_be [OF n(2,3)]
    by (simp add: decode_length_def length_head_def length_form_def Let_def byte_at_def nth_append mem lo)
qed
text \<open>Tags: one octet up to 30, two up to 127.\<close>

definition tag_ok :: "tlv_node \<Rightarrow> bool" where
  "tag_ok t \<longleftrightarrow> unat (tag_value t) \<le> 127 \<and> tag_class t \<in> set tag_classes \<and> complexity t \<in> set complexities"

definition tag_octets_of :: "tlv_node \<Rightarrow> octets" where
  "tag_octets_of t = (if unat (tag_value t) \<le> 30 then [tag_short t]
     else [tag_head t, (0x80 OR ucast (tag_value t)) AND 0x7f])"

lemma encode_tag_octets:
  assumes "tag_ok t" and "0 < len"
  shows "encode_tag len t = (tag_octets_of t, t\<lparr>tag_value_size := length (tag_octets_of t)\<rparr>)"
    and "encode_prepared_tag len (prepare_tag t) = tag_octets_of t"
    and "tag_value_size (prepare_tag t) = length (tag_octets_of t)"
proof -
  have v: "unat (tag_value t) < 2 ^ 31" using assms(1) by (simp add: tag_ok_def)
  have "units 7 (bit_len (unat (tag_value t))) = 1" if "30 < unat (tag_value t)"
  proof -
    have "units 7 (bit_len (unat (tag_value t))) \<le> 1"
      using assms(1) by (intro units_le) (auto simp: tag_ok_def)
    moreover have "0 < units 7 (bit_len (unat (tag_value t)))" using that by (intro units_pos) auto
    ultimately show ?thesis by linarith
  qed
  then show "encode_tag len t = (tag_octets_of t, t\<lparr>tag_value_size := length (tag_octets_of t)\<rparr>)"
    "encode_prepared_tag len (prepare_tag t) = tag_octets_of t"
    "tag_value_size (prepare_tag t) = length (tag_octets_of t)"
    using assms(2) sint_small [OF v, of 30]
    by (auto simp: encode_tag_def encode_prepared_tag_def prepare_tag_def tag_octets_of_def tag_head_def
        tag_short_def Let_def not_less)
qed

lemma head_parts:
  fixes c x :: u32
  assumes "c \<in> set tag_classes" and "x \<in> set complexities"
  shows "(ucast (0x1f OR c OR x) :: u8) AND 0x1f = 0x1f"
    and "ucast ((ucast (0x1f OR c OR x) :: u8) AND 0xc0) = c"
    and "ucast ((ucast (0x1f OR c OR x) :: u8) AND 0x20) = x"
proof -
  have "unat (0x1f :: u32) < 32" by simp
  note p = short_parts [OF this assms]
  show "ucast ((ucast (0x1f OR c OR x) :: u8) AND 0xc0) = c"
    "ucast ((ucast (0x1f OR c OR x) :: u8) AND 0x20) = x" by (rule p)+
  have "unat ((ucast (0x1f OR c OR x) :: u8) AND 0x1f) = 0x1f"
    using arg_cong [OF p(1), of unat] by (simp only: unat_octet) simp
  then show "(ucast (0x1f OR c OR x) :: u8) AND 0x1f = 0x1f" by (simp add: word_unat_eq_iff)
qed

lemma decode_tag_octets:
  assumes "tag_ok t" and mem: "mem = pre @ tag_octets_of t @ post" and "0 < len"
  shows "decode_tag mem (length pre) len t0 = Some (t0\<lparr>tag_class := tag_class t, complexity := complexity t,
     tag_value := tag_value t, tag_value_size := length (tag_octets_of t)\<rparr>)"
proof (cases "unat (tag_value t) \<le> 30")
  case True
  have c: "tag_class t \<in> set tag_classes" "complexity t \<in> set complexities"
    using assms(1) by (simp_all add: tag_ok_def)
  have "unat (tag_value t) < 32" using True by simp
  note p = short_parts [OF this c]
  have "tag_short t AND 0x1f \<noteq> 0x1f"
  proof
    assume "tag_short t AND 0x1f = 0x1f"
    then have "unat (tag_value t) = 31" using p(1) by (simp add: tag_short_def flip: unat_octet)
    with True show False by simp
  qed
  then show ?thesis
    using True assms(3) p
    by (simp add: decode_tag_def byte_at_def nth_append mem tag_octets_of_def Let_def) (simp add: tag_short_def)
next
  case False
  have c: "tag_class t \<in> set tag_classes" "complexity t \<in> set complexities" "unat (tag_value t) < 128"
    using assms(1) by (simp_all add: tag_ok_def)
  let ?b = "(0x80 OR ucast (tag_value t)) AND (0x7f :: u8)"
  have "drop (Suc (length pre)) mem = ?b # post"
    using False by (simp add: mem tag_octets_of_def)
  then have "long_tag mem (Suc (length pre)) = Some [?b]"
    using septet_parts(1) [OF c(3)] False
    by (simp add: long_tag_def mem tag_octets_of_def nth_append)
  then show ?thesis
    using False assms(3) head_parts [OF c(1,2)] septet_parts(2) [OF c(3)]
    by (simp add: decode_tag_def byte_at_def nth_append mem tag_octets_of_def tag_head_def Let_def)
qed

text \<open>
  From 128 on the octets hold the tag shifted by eight bits and lose the highest of them.
\<close>

lemma low7: "(b :: u8) AND 0x7f = take_bit 7 b"
  by (simp add: take_bit_eq_mask mask_eq_exp_minus_1)

lemma high8: "(0x80 :: u8) = 2 ^ 7"
  by simp

lemma bit_two_septets:
  fixes v :: u32
  defines "b0 \<equiv> 0x80 OR ucast (drop_bit 8 v) :: u8" and "b1 \<equiv> (0x80 OR ucast v) AND 0x7f :: u8"
  assumes "7 \<le> n" and "n < 14"
  shows "bit (tag_bits [b0, b1]) n = bit v (Suc n)"
proof -
  have "bit (tag_bits [b0, b1]) n = bit (b0 AND 0x7f) (n - 7)"
    using assms(3,4) by (simp add: bit_simps low7) (auto simp: bit_simps)
  also have "\<dots> = bit v (Suc n)"
    using assms(3,4) unfolding low7 b0_def high8 by (auto simp: bit_simps)
  finally show ?thesis .
qed

lemma two_septets_differ:
  fixes v :: u32
  assumes "128 \<le> unat v" and "unat v < 2 ^ 14"
  shows "tag_bits [0x80 OR ucast (drop_bit 8 v), (0x80 OR ucast v) AND 0x7f] \<noteq> v"
proof
  assume eq: "tag_bits [0x80 OR ucast (drop_bit 8 v), (0x80 OR ucast v) AND 0x7f] = v"
  have top: "\<not> bit v n" if "14 \<le> n" for n
  proof -
    have "unat v = take_bit 14 (unat v)" using assms(2) by (simp add: take_bit_nat_eq_self)
    then have "\<not> bit (unat v) n" using that by (metis bit_take_bit_iff not_le)
    then show ?thesis by (simp add: bit_unsigned_iff)
  qed
  have up: "bit v n = bit v (Suc n)" if "7 \<le> n" "n < 14" for n
    using bit_two_septets [OF that, of v] by (simp only: eq)
  have none: "\<not> bit v n" if "7 \<le> n" for n
  proof (cases "n < 14")
    case True
    then have "\<not> bit v (14 - k)" if "k \<le> 7" for k
      using that
    proof (induction k)
      case 0
      then show ?case using top by simp
    next
      case (Suc k)
      then have "bit v (14 - Suc k) = bit v (Suc (14 - Suc k))" by (intro up) auto
      moreover have "Suc (14 - Suc k) = 14 - k" using Suc.prems by simp
      ultimately show ?case using Suc by simp
    qed
    from this [of "14 - n"] that True show ?thesis by simp
  next
    case False
    then show ?thesis using top by simp
  qed
  have "take_bit 7 v = v"
  proof (rule bit_eqI)
    fix n
    show "bit (take_bit 7 v) n = bit v n" using none [of n] by (cases "n < 7") (auto simp: bit_simps)
  qed
  then have "take_bit 7 (unat v) = unat v"
    by (metis unsigned_take_bit_eq)
  then have "unat v < 2 ^ 7" by (simp add: take_bit_nat_eq_self_iff)
  with assms(1) show False by simp
qed

lemma or_then_and: "(0x80 OR b) AND 0x80 = (0x80 :: u8)"
  by (rule bit_eqI) (auto simp: bit_simps)

lemma and_then_and: "((0x80 OR b) AND 0x7f) AND 0x80 \<noteq> (0x80 :: u8)"
proof
  assume "((0x80 OR b) AND 0x7f) AND 0x80 = (0x80 :: u8)"
  then have "bit (((0x80 OR b) AND 0x7f) AND 0x80 :: u8) 7 = bit (0x80 :: u8) 7" by (rule arg_cong)
  then show False by (simp add: bit_and_iff)
qed

lemma signed_drop_bit_eq_drop_bit_small:
  fixes v :: u32
  assumes "unat v < 2 ^ 31"
  shows "signed_drop_bit k v = drop_bit k v"
proof -
  have "sint v = uint v" using sint_pos_unat [OF assms] by simp
  then have "\<not> bit v 31"
  proof -
    have "unat v = take_bit 31 (unat v)" using assms by (simp add: take_bit_nat_eq_self)
    then have "\<not> bit (unat v) 31" by (metis bit_take_bit_iff less_irrefl)
    then show ?thesis by (simp add: bit_unsigned_iff)
  qed
  then show ?thesis
    by (intro bit_eqI) (auto simp: bit_simps min_def not_le dest: bit_imp_le_length)
qed

text \<open>Big-endian octets, read from the left.\<close>

lemma fold_be:
  "foldl (\<lambda>acc b. push_bit 8 acc OR ucast b) acc (be_octets n v)
     = push_bit (8 * n) acc OR take_bit (8 * n) (ucast v :: u64)"
proof (induction n arbitrary: acc)
  case 0
  then show ?case by simp
next
  case (Suc n)
  let ?o = "ucast (ucast (drop_bit (8 * n) v) :: u8) :: u64"
  have "bit (push_bit (8 * n) (push_bit 8 acc OR ?o) OR take_bit (8 * n) (ucast v :: u64)) i
      = bit (push_bit (8 * Suc n) acc OR take_bit (8 * Suc n) (ucast v :: u64)) i" if "i < 64" for i
    using that by (auto simp: bit_simps add.commute [of 8])
  then show ?case by (simp only: be_octets.simps foldl.simps Suc) (rule bit_eqI, simp)
qed

lemma prepare_decode_int:
  assumes "0 < sz" and "sz \<le> 4" and "unat v < 2 ^ (8 * sz)"
  shows "foldl (\<lambda>acc b. push_bit 8 acc OR ucast b) (0 :: u64)
    (take sz (be_octets 4 (push_bit ((4 - sz) * 8) v))) = ucast v"
proof -
  have be: "be_octets n (push_bit k v) = be_octets n (push_bit k v)" for n k ..
  have cut: "take sz (be_octets (sz + k) (push_bit (8 * k) v)) = be_octets sz v" if "sz + k \<le> 4" for sz k
    using that
  proof (induction sz)
    case 0
    then show ?case by simp
  next
    case (Suc sz)
    have "ucast (drop_bit (8 * (sz + k)) (push_bit (8 * k) v)) = (ucast (drop_bit (8 * sz) v) :: u8)"
      using Suc.prems by (intro bit_eqI) (auto simp: bit_simps)
    with Suc show ?case by simp
  qed
  have e: "sz + (4 - sz) = 4" using assms(2) by simp
  have "take sz (be_octets 4 (push_bit ((4 - sz) * 8) v)) = be_octets sz v"
    using cut [of sz "4 - sz"] by (simp only: e mult.commute [of "4 - sz"])
  moreover have "take_bit (8 * sz) (ucast v :: u64) = ucast v"
  proof (rule bit_eqI)
    fix i
    have "unat v = take_bit (8 * sz) (unat v)" using assms(3) by (simp add: take_bit_nat_eq_self)
    then have "bit (unat v) i \<Longrightarrow> i < 8 * sz" by (metis bit_take_bit_iff)
    then have "bit v i \<Longrightarrow> i < 8 * sz" by (simp add: bit_unsigned_iff)
    then show "bit (take_bit (8 * sz) (ucast v :: u64)) i = bit (ucast v :: u64) i"
      by (auto simp: bit_simps)
  qed
  ultimately show ?thesis by (simp add: fold_be)
qed

section \<open>Properties\<close>

text \<open>
  Length octets round trip: for every length from 0 to \<open>2 ^ 31 - 2\<close>, what \<^verbatim>\<open>encode_length\<close> writes, or
  \<^verbatim>\<open>encode_prepared_length\<close> after \<^verbatim>\<open>prepare_length\<close>, is read back by \<^verbatim>\<open>decode_length\<close> as that length, of
  that many octets, whatever surrounds it in the buffer. At the largest \<^verbatim>\<open>int\<close> the encoders add one
  to it, which overflows.
\<close>

theorem length_roundtrip:
  assumes "unat (value_length t) < 2 ^ 31 - 1" and "0 < len"
    and "length (fst (encode_length len t)) \<le> unat dlen"
  shows "encode_prepared_length len (prepare_length t) = Some (fst (encode_length len t)) \<and>
    decode_length (pre @ fst (encode_length len t) @ post) (length pre) dlen t0
      = Some (0, t0\<lparr>length_type := length_type (prepare_length t),
          value_length_size := length (fst (encode_length len t)), value_length := value_length t\<rparr>)"
proof -
  have le: "unat (value_length t) < 2 ^ 31" using assms(1) by simp
  have "length_type (prepare_length t) = length_form (value_length t)"
    using sint_small [OF le, of 127] by (simp add: prepare_length_def length_form_def)
  then show ?thesis
    using assms encode_length_octets [OF assms(1,2)] encode_prepared_length_octets [OF assms(1,2)]
      decode_length_octets [OF le refl, of dlen pre post t0]
    by simp
qed

theorem length_roundtrip_witness:
  "fst (encode_length 8 (new_tlv\<lparr>value_length := 300\<rparr>)) = [0x82, 1, 44] \<and>
   decode_length [0x82, 1, 44, 7] 0 8 new_tlv
     = Some (0, new_tlv\<lparr>length_type := DEFINITE_LONG, value_length_size := 3, value_length := 300\<rparr>)"
proof -
  have enc: "fst (encode_length 8 (new_tlv\<lparr>value_length := 300\<rparr>)) = [0x82, 1, 44]" by code_simp
  have ty: "length_type (prepare_length (new_tlv\<lparr>value_length := 300\<rparr>)) = DEFINITE_LONG" by code_simp
  show ?thesis
    using length_roundtrip [of "new_tlv\<lparr>value_length := 300\<rparr>" 8 8 "[]" "[7]" new_tlv] enc ty by simp
qed

text \<open>
  C30. Tag octets round trip up to tag 127: what \<^verbatim>\<open>encode_tag\<close> writes, or \<^verbatim>\<open>encode_prepared_tag\<close> after
  \<^verbatim>\<open>prepare_tag\<close>, is read back by \<^verbatim>\<open>decode_tag\<close> as the same class, complexity, tag and size. From 128
  to 16383 the octets are always read back as another tag: the encoder shifts by eight bits where
  the decoder, and the standard, take seven.
\<close>

theorem tag_roundtrip:
  assumes "tag_class t \<in> set tag_classes" and "complexity t \<in> set complexities" and "0 < len" and "0 < dlen"
    and "unat (tag_value t) < 16384"
  shows "\<exists>t1. decode_tag (pre @ fst (encode_tag len t) @ post) (length pre) dlen t0 = Some t1 \<and>
    tag_class t1 = tag_class t \<and> complexity t1 = complexity t \<and>
    tag_value_size t1 = length (fst (encode_tag len t)) \<and>
    encode_prepared_tag len (prepare_tag t) = fst (encode_tag len t) \<and>
    (tag_value t1 = tag_value t \<longleftrightarrow> unat (tag_value t) \<le> 127)"
proof (cases "unat (tag_value t) \<le> 127")
  case True
  then have "tag_ok t" using assms(1,2) by (simp add: tag_ok_def)
  with True assms(3,4) show ?thesis
    using decode_tag_octets [of t "pre @ tag_octets_of t @ post" pre post dlen t0]
      encode_tag_octets [of t len] by simp
next
  case False
  let ?v = "tag_value t"
  have "units 7 (bit_len (unat ?v)) \<le> 2" using assms(5) by (intro units_le) auto
  moreover have "\<not> units 7 (bit_len (unat ?v)) \<le> 1"
  proof
    assume "units 7 (bit_len (unat ?v)) \<le> 1"
    then have "7 * units 7 (bit_len (unat ?v)) \<le> 7" by simp
    then have "(2 :: nat) ^ (7 * units 7 (bit_len (unat ?v))) \<le> 2 ^ 7" by (rule power_increasing) simp
    with bit_len_units [of 7 "unat ?v"] False show False by simp
  qed
  ultimately have u: "units 7 (bit_len (unat ?v)) = 2" by linarith
  have v: "unat ?v < 2 ^ 31" using assms(5) by simp
  let ?b0 = "0x80 OR ucast (drop_bit 8 ?v) :: u8" and ?b1 = "(0x80 OR ucast ?v) AND 0x7f :: u8"
  have sd: "signed_drop_bit 8 ?v = drop_bit 8 ?v" "signed_drop_bit 0 ?v = ?v"
    using v by (simp_all add: signed_drop_bit_eq_drop_bit_small)
  have octs: "fst (encode_tag len t) = [tag_head t, ?b0, ?b1]"
    "encode_prepared_tag len (prepare_tag t) = [tag_head t, ?b0, ?b1]"
    using False assms(3) sint_small [OF v, of 30] u sd
    by (simp_all add: encode_tag_def encode_prepared_tag_def prepare_tag_def tag_head_def Let_def numeral_2_eq_2)
  have "?b0 AND 0x80 = 0x80" by (rule or_then_and)
  moreover have "?b1 AND 0x80 \<noteq> 0x80" by (rule and_then_and)
  ultimately have "long_tag (pre @ [tag_head t, ?b0, ?b1] @ post) (Suc (length pre)) = Some [?b0, ?b1]"
    by (simp add: long_tag_def nth_append)
  then have "decode_tag (pre @ [tag_head t, ?b0, ?b1] @ post) (length pre) dlen t0
      = Some (t0\<lparr>tag_class := tag_class t, complexity := complexity t, tag_value := tag_bits [?b0, ?b1],
          tag_value_size := 3\<rparr>)"
    using assms(4) head_parts [OF assms(1,2)]
    by (simp add: decode_tag_def byte_at_def nth_append tag_head_def Let_def)
  with octs two_septets_differ [of ?v] False assms(5) show ?thesis by simp
qed

theorem tag_roundtrip_witness:
  "\<exists>t1. decode_tag (fst (encode_tag 4 (new_tlv\<lparr>tag_class := 0x80, complexity := CONSTRUCTED, tag_value := 300\<rparr>)))
      0 4 new_tlv = Some t1 \<and> tag_value t1 \<noteq> 300"
proof -
  let ?t = "new_tlv\<lparr>tag_class := 0x80, complexity := CONSTRUCTED, tag_value := 300\<rparr>"
  have "tag_class ?t \<in> set tag_classes" "complexity ?t \<in> set complexities"
    by (simp_all add: tag_classes_def complexities_def)
  then show ?thesis
    using tag_roundtrip [of ?t 4 4 "[]" "[]" new_tlv] by auto
qed

text \<open>
  Integers: the octets \<^verbatim>\<open>prepare_int\<close> gives for a value that fits them are read back by
  \<^verbatim>\<open>decode_int\<close> as that value.
\<close>

theorem int_roundtrip:
  assumes "0 < sz" and "sz \<le> 4" and "unat v < 2 ^ (8 * sz)"
  shows "\<exists>os. prepare_int v sz = Some (os, sz) \<and> decode_int os sz = Some (ucast v)"
  using assms prepare_decode_int by (simp add: prepare_int_def decode_int_def)

theorem int_roundtrip_witness:
  "\<exists>os. prepare_int 300 2 = Some (os, 2) \<and> decode_int os 2 = Some 300"
  using int_roundtrip [of 2 300] by simp

end
