(* ===== verification/ConfigNotify.thy ===== *)
theory ConfigNotify
  imports ConfigState Ber
begin

text \<open>
  Notifications about a changed configuration: the users registered for a node, the list a commit
  prepares (\<^verbatim>\<open>prepare_notifications\<close> and \<^verbatim>\<open>StreamDone\<close> of \<^verbatim>\<open>src/src/services/config/events.cpp\<close>), the
  stream that carries it and the other side, which brings its own copy of the configuration up to date
  and runs the handlers of the changed nodes (\<^verbatim>\<open>src/src/cfg/config_gdt.cpp\<close>).
\<close>

section \<open>Messages\<close>

text \<open>
  A configuration message as the session that decoded it sees it: the action, and the parameters with
  their values. A value is missing (a null pointer), there but not linked, or linked octets.
\<close>

record cfg_param =
  cp_id :: octets
  cp_value :: "octets option option"

record cfg_body =
  cb_action :: octets
  cb_params :: "cfg_param list option"

datatype cfg_msg = No_body | Other_body | Config_body cfg_body

abbreviation (input) ca_cfg_get :: u8 where "ca_cfg_get \<equiv> 0"
abbreviation (input) ca_cfg_set :: u8 where "ca_cfg_set \<equiv> 1"
abbreviation (input) ca_cfg_replicate :: u8 where "ca_cfg_replicate \<equiv> 2"
abbreviation (input) ca_cfg_ac :: u8 where "ca_cfg_ac \<equiv> 3"
abbreviation (input) ca_cfg_result :: u8 where "ca_cfg_result \<equiv> 4"
abbreviation (input) ca_cfg_user_login :: u8 where "ca_cfg_user_login \<equiv> 5"
abbreviation (input) ca_cfg_user_logout :: u8 where "ca_cfg_user_logout \<equiv> 6"
abbreviation (input) pt_mink_auth_id :: u32 where "pt_mink_auth_id \<equiv> 6002"
abbreviation (input) pt_cfg_item_ns :: u32 where "pt_cfg_item_ns \<equiv> 7405"
abbreviation (input) pt_cfg_item_value :: u32 where "pt_cfg_item_value \<equiv> 7406"
abbreviation (input) pt_cfg_item_nt :: u32 where "pt_cfg_item_nt \<equiv> 7408"
abbreviation (input) pt_cfg_item_path :: u32 where "pt_cfg_item_path \<equiv> 7415"
abbreviation (input) pt_cfg_item_count :: u32 where "pt_cfg_item_count \<equiv> 7417"

definition octs :: "string \<Rightarrow> octets" where "octs = map of_char"
definition str_of :: "octets \<Rightarrow> string" where "str_of = map (\<lambda>b. char_of (unat b))"

definition cfg_par :: "u32 \<Rightarrow> octets \<Rightarrow> cfg_param" where
  "cfg_par i v = \<lparr>cp_id = be_octets 4 i, cp_value = Some (Some v)\<rparr>"

text \<open>The parameters a handler looks at, with their ids; a shorter id is read past its end.\<close>

definition cfg_value :: "cfg_param \<Rightarrow> (u32 \<times> octets) option option" where
  "cfg_value p = (case cp_value p of Some (Some v) \<Rightarrow>
       if length (cp_id p) < 4 then None else Some (Some (sum_octets (take 4 (cp_id p)), v))
     | _ \<Rightarrow> Some None)"

fun cfg_values :: "cfg_param list \<Rightarrow> (u32 \<times> octets) list option" where
  "cfg_values [] = Some []"
| "cfg_values (p # ps) = Option.bind (cfg_value p) (\<lambda>v. map_option (\<lambda>vs. case v of None \<Rightarrow> vs | Some x \<Rightarrow> x # vs) (cfg_values ps))"

text \<open>Enumerations travel as one octet.\<close>

definition nt_octet :: "ConfigNodeType \<Rightarrow> u8" where
  "nt_octet t = (case t of CONFIG_NT_UNKNOWN \<Rightarrow> - 1 | CONFIG_NT_BLOCK \<Rightarrow> 0 | CONFIG_NT_ITEM \<Rightarrow> 1 | CONFIG_NT_CMD \<Rightarrow> 2 | CONFIG_NT_PARAM \<Rightarrow> 4)"

definition ns_octet :: "ConfigNodeState \<Rightarrow> u8" where
  "ns_octet s = (case s of CONFIG_NS_UNKNOWN \<Rightarrow> - 1 | CONFIG_NS_READY \<Rightarrow> 0 | CONFIG_NS_MODIFIED \<Rightarrow> 1 | CONFIG_NS_DELETED \<Rightarrow> 2)"

text \<open>An octet that is no value of the enumeration is different from all of them but the unknown one.\<close>

definition octet_nt :: "u8 \<Rightarrow> ConfigNodeType" where
  "octet_nt b = (if b = 0 then CONFIG_NT_BLOCK else if b = 1 then CONFIG_NT_ITEM else if b = 2 then CONFIG_NT_CMD
     else if b = 4 then CONFIG_NT_PARAM else CONFIG_NT_UNKNOWN)"

definition octet_ns :: "u8 \<Rightarrow> ConfigNodeState" where
  "octet_ns b = (if b = 0 then CONFIG_NS_READY else if b = 1 then CONFIG_NS_MODIFIED else if b = 2 then CONFIG_NS_DELETED
     else CONFIG_NS_UNKNOWN)"

section \<open>Registered users\<close>

record ntf_user =
  nu_id :: user_id
  nu_client :: nat

record cfg_notification =
  cn_users :: "ntf_user list"
  cn_items :: "cfg_data list"
  cn_ready :: bool

type_synonym ntf_heap = "nat \<Rightarrow> cfg_notification"

definition new_notification :: cfg_notification where
  "new_notification = \<lparr>cn_users = [], cn_items = [], cn_ready = False\<rparr>"

definition user_exists :: "ntf_user \<Rightarrow> cfg_notification \<Rightarrow> bool" where
  "user_exists u n \<longleftrightarrow> list_ex (\<lambda>v. user_id_eq (nu_id v) (nu_id u)) (cn_users n)"

definition reg_user :: "ntf_user \<Rightarrow> cfg_notification \<Rightarrow> cfg_notification" where
  "reg_user u n = (if user_exists u n then n else n\<lparr>cn_users := cn_users n @ [u]\<rparr>)"

definition unreg_user :: "user_id \<Rightarrow> cfg_notification \<Rightarrow> int \<times> cfg_notification" where
  "unreg_user u n = (case find_index (\<lambda>v. user_id_eq (nu_id v) u) (cn_users n) of
       Some i \<Rightarrow> (0, n\<lparr>cn_users := erase_at i (cn_users n)\<rparr>) | None \<Rightarrow> (1, n))"

definition get_user :: "nat \<Rightarrow> cfg_notification \<Rightarrow> ntf_user option" where
  "get_user i n = (if i < length (cn_users n) then Some (cn_users n ! i) else None)"

section \<open>Preparing the lists\<close>

text \<open>The nodes of \<^verbatim>\<open>flatten\<close> by their positions.\<close>

fun flatten_at :: "pos \<Rightarrow> config_item \<Rightarrow> pos list" and flatten_from :: "pos \<Rightarrow> nat \<Rightarrow> config_item list \<Rightarrow> pos list" where
  "flatten_at p (Item d cs) = (if c_template d then [] else p # flatten_from p 0 cs)"
| "flatten_from p i [] = []"
| "flatten_from p i (c # cs) = flatten_at (p @ [i]) c @ flatten_from p (Suc i) cs"

text \<open>The data along the way to a node, that of the node itself first.\<close>

fun lineage :: "cfg_data list \<Rightarrow> config_item \<Rightarrow> pos \<Rightarrow> cfg_data list" where
  "lineage up (Item d cs) [] = d # up"
| "lineage up (Item d cs) (i # p) = (if i < length cs then lineage (d # up) (cs ! i) p else d # up)"

definition node_line :: "cfg_data list \<Rightarrow> string option" where
  "node_line ds = map_option (\<lambda>s. s @ c_name (hd ds)) (get_parent_line (map c_name (tl ds)))"

text \<open>The entry for a node goes to the notification of every node from it up to the root that has one.\<close>

definition note_entry :: "cfg_data \<Rightarrow> nat \<Rightarrow> ntf_heap \<times> nat list \<Rightarrow> ntf_heap \<times> nat list" where
  "note_entry x a = (\<lambda>(h, l). (h(a := (h a)\<lparr>cn_items := cn_items (h a) @ [x], cn_ready := True\<rparr>), if a \<in> set l then l else l @ [a]))"

fun note_up :: "config \<Rightarrow> cfg_data \<Rightarrow> cfg_data list \<Rightarrow> ntf_heap \<times> nat list \<Rightarrow> (ntf_heap \<times> nat list) option" where
  "note_up cf x [] S = Some S"
| "note_up cf x (d # ds) S = Option.bind (node_line (d # ds)) (\<lambda>s.
     note_up cf x ds (case get_notification s cf of None \<Rightarrow> S | Some a \<Rightarrow> note_entry x a S))"

definition entry :: "string \<Rightarrow> cfg_data \<Rightarrow> cfg_data" where
  "entry path d = new_data\<lparr>c_name := path, c_value := c_new_value d, c_node_state := c_node_state d, c_node_type := c_node_type d\<rparr>"

fun note_all :: "config \<Rightarrow> config_item \<Rightarrow> pos list \<Rightarrow> ntf_heap \<times> nat list \<Rightarrow> (ntf_heap \<times> nat list) option" where
  "note_all cf root [] S = Some S"
| "note_all cf root (p # ps) S = (let ds = lineage [] root p in
     if c_node_state (hd ds) = CONFIG_NS_READY then note_all cf root ps S
     else Option.bind (node_line ds) (\<lambda>s. Option.bind (note_up cf (entry s (hd ds)) ds S) (note_all cf root ps)))"

definition prepare_notifications :: "config \<Rightarrow> config_item \<Rightarrow> ntf_heap \<times> nat list \<Rightarrow> (ntf_heap \<times> nat list) option" where
  "prepare_notifications cf root = note_all cf root (flatten_at [] root)"

section \<open>Sending them\<close>

text \<open>
  At the end of the stream each listed notification goes to those of its users whose client is still
  there; the others are removed. A user is sent to by its place in the list.
\<close>

function (sequential) notify_users :: "(nat \<Rightarrow> bool) \<Rightarrow> nat \<Rightarrow> cfg_notification \<Rightarrow> (nat \<times> ntf_user) list \<times> cfg_notification" where
  "notify_users active j n =
     (if j < length (cn_users n) then
        (if active (nu_client (cn_users n ! j)) then
           (let (out, n') = notify_users active (Suc j) n in (if cn_ready n then (j, cn_users n ! j) # out else out, n'))
         else (case unreg_user (nu_id (cn_users n ! j)) n of
             (r, n') \<Rightarrow> if length (cn_users n') < length (cn_users n) then notify_users active j n' else ([], n')))
      else ([], n))"
  by pat_completeness auto
termination
  by (relation "measure (\<lambda>(active, j, n). length (cn_users n) - j)") auto

definition notify_one :: "(nat \<Rightarrow> bool) \<Rightarrow> nat \<Rightarrow> ntf_heap \<Rightarrow> (ntf_user \<times> cfg_data list) list \<times> ntf_heap" where
  "notify_one active a h = (case notify_users active 0 (h a) of
     (out, n) \<Rightarrow> (map (\<lambda>(j, u). (u, cn_items (h a))) out, h(a := n\<lparr>cn_items := [], cn_ready := False\<rparr>)))"

fun notify_all :: "(nat \<Rightarrow> bool) \<Rightarrow> nat list \<Rightarrow> ntf_heap \<Rightarrow> (ntf_user \<times> cfg_data list) list \<times> ntf_heap" where
  "notify_all active [] h = ([], h)"
| "notify_all active (a # as) h = (let (o1, h1) = notify_one active a h; (o2, h2) = notify_all active as h1 in (o1 @ o2, h2))"

text \<open>The stream to a user: the number of entries, then a packet for each.\<close>

record ntfy_stream =
  ns_index :: nat
  ns_items :: "cfg_data list"

definition notify_user :: "cfg_data list \<Rightarrow> cfg_body \<times> ntfy_stream" where
  "notify_user xs = (\<lparr>cb_action = [ca_cfg_set], cb_params = Some [cfg_par pt_cfg_item_count (be_octets 4 (of_nat (length xs)))]\<rparr>,
     \<lparr>ns_index = 0, ns_items = map (copy_data CONFIG_NS_UNKNOWN) xs\<rparr>)"

definition item_body :: "cfg_data \<Rightarrow> cfg_body" where
  "item_body d = \<lparr>cb_action = [ca_cfg_set], cb_params = Some [cfg_par pt_cfg_item_path (octs (c_name d)),
     cfg_par pt_cfg_item_value (octs (c_value d)), cfg_par pt_cfg_item_nt [nt_octet (c_node_type d)],
     cfg_par pt_cfg_item_ns [ns_octet (c_node_state d)]]\<rparr>"

definition ntfy_next :: "ntfy_stream \<Rightarrow> cfg_body option \<times> ntfy_stream" where
  "ntfy_next s = (if ns_index s < length (ns_items s)
     then (Some (item_body (ns_items s ! ns_index s)), s\<lparr>ns_index := ns_index s + 1\<rparr>) else (None, s))"

text \<open>
  A user that answers with an error is removed. The stream has kept a pointer into the list of users:
  the entry now at this place is the one removed, and a place that is gone is read after its end.
\<close>

definition ntfy_done :: "bool \<Rightarrow> nat \<Rightarrow> cfg_notification \<Rightarrow> cfg_notification option" where
  "ntfy_done failed j n = (if \<not> failed then Some n
     else map_option (\<lambda>u. snd (unreg_user (nu_id u) n)) (get_user j n))"

section \<open>The receiving side\<close>

record cfg_update =
  cu_count :: u32
  cu_res :: "cfg_data list"

text \<open>
  \<^verbatim>\<open>CfgUpdateStreamNew\<close>: the result says how it goes on, \<open>Pass_on\<close> for a message that is none of the
  configuration.
\<close>

datatype next_step = Wait | Pass_on | End_sequence | Continue

definition update_new :: "cfg_msg \<Rightarrow> (next_step \<times> cfg_update) option" where
  "update_new msg = (let u = \<lparr>cu_count = 0, cu_res = []\<rparr> in case msg of
       No_body \<Rightarrow> Some (Wait, u)
     | Other_body \<Rightarrow> Some (Pass_on, u)
     | Config_body b \<Rightarrow> (case cb_action b of [] \<Rightarrow> None
         | a # _ \<Rightarrow> if a \<noteq> ca_cfg_set then Some (End_sequence, u)
             else (case cb_params b of None \<Rightarrow> Some (Wait, u)
               | Some ps \<Rightarrow> Option.bind (cfg_values ps) (\<lambda>vs.
                   if list_ex (\<lambda>(i, v). i = pt_cfg_item_count \<and> length v < 4) vs then None
                   else Some (Continue, foldl (\<lambda>u (i, v). if i = pt_cfg_item_count
                     then u\<lparr>cu_count := sum_octets (take 4 v)\<rparr> else u) u vs)))))"

text \<open>A path starts a new entry, which the other parameters fill; without one they are dropped.\<close>

definition on_last :: "(cfg_data \<Rightarrow> cfg_data) \<Rightarrow> bool \<Rightarrow> cfg_data list \<Rightarrow> cfg_data list" where
  "on_last f open xs = (if open then butlast xs @ [f (last xs)] else xs)"

definition take_item :: "u32 \<times> octets \<Rightarrow> bool \<times> cfg_data list \<Rightarrow> (bool \<times> cfg_data list) option" where
  "take_item = (\<lambda>(i, v) (open, xs).
     if i = pt_cfg_item_path then Some (True, xs @ [new_data\<lparr>c_name := str_of v\<rparr>])
     else if i = pt_cfg_item_value then Some (open, on_last (\<lambda>d. d\<lparr>c_value := c_value d @ str_of v\<rparr>) open xs)
     else if i = pt_cfg_item_nt then (if \<not> open then Some (open, xs) else case v of [] \<Rightarrow> None
       | b # _ \<Rightarrow> Some (open, on_last (\<lambda>d. d\<lparr>c_node_type := octet_nt b\<rparr>) open xs))
     else if i = pt_cfg_item_ns then (if \<not> open then Some (open, xs) else case v of [] \<Rightarrow> None
       | b # _ \<Rightarrow> Some (open, on_last (\<lambda>d. d\<lparr>c_node_state := octet_ns b\<rparr>) open xs))
     else Some (open, xs))"

fun take_items :: "(u32 \<times> octets) list \<Rightarrow> bool \<times> cfg_data list \<Rightarrow> (bool \<times> cfg_data list) option" where
  "take_items [] S = Some S"
| "take_items (v # vs) S = Option.bind (take_item v S) (take_items vs)"

definition update_next :: "cfg_msg \<Rightarrow> cfg_update \<Rightarrow> (next_step \<times> cfg_update) option" where
  "update_next msg u = (case msg of
       Config_body b \<Rightarrow> (case cb_action b of [] \<Rightarrow> None
         | a # _ \<Rightarrow> if a \<noteq> ca_cfg_set then Some (Wait, u)
             else (case cb_params b of None \<Rightarrow> Some (Continue, u)
               | Some ps \<Rightarrow> Option.bind (cfg_values ps) (\<lambda>vs. Option.bind (take_items vs (False, cu_res u)) (\<lambda>(o1, xs).
                   Some (Continue, u\<lparr>cu_res := xs\<rparr>)))))
     | _ \<Rightarrow> Some (Wait, u))"

section \<open>Bringing the copy up to date\<close>

text \<open>The calls of handlers with the data of their nodes; \<^term>\<open>None\<close> is the user's own handler at the end.\<close>

type_synonym handler_calls = "(nat option \<times> cfg_data list) list"

definition update_at :: "(cfg_data \<Rightarrow> cfg_data) \<Rightarrow> pos \<Rightarrow> config_item \<Rightarrow> config_item" where
  "update_at f = map_at (\<lambda>n. Item (f (dat n)) (children n))"

definition find_pos :: "(string \<Rightarrow> string list option) \<Rightarrow> config_item \<Rightarrow> string \<Rightarrow> pos option option" where
  "find_pos split root path = map_option snd (cfg_call split root [] path False CONFIG_NT_UNKNOWN False)"

definition event_data :: "cfg_data \<Rightarrow> cfg_data \<Rightarrow> cfg_data" where
  "event_data x d = (let d = d\<lparr>c_value := c_value x, c_node_state := c_node_state x\<rparr>
     in if c_node_state x = CONFIG_NS_DELETED \<and> c_node_type d = CONFIG_NT_ITEM then d\<lparr>c_value := []\<rparr> else d)"

type_synonym event_groups = "(nat \<times> pos list) list"

definition add_event :: "nat \<Rightarrow> pos option \<Rightarrow> event_groups \<Rightarrow> event_groups" where
  "add_event a p g = (let new = (case p of None \<Rightarrow> [] | Some q \<Rightarrow> [q])
     in om_insert (<) a ((case om_find (<) a g of None \<Rightarrow> [] | Some ps \<Rightarrow> ps) @ new) g)"

fun group_events :: "(string \<Rightarrow> string list option) \<Rightarrow> cfg_data list \<Rightarrow> config_item \<times> event_groups \<Rightarrow>
    (config_item \<times> event_groups) option" where
  "group_events split [] S = Some S"
| "group_events split (x # xs) (root, g) = (case find_pos split root (c_name x) of
       None \<Rightarrow> None
     | Some None \<Rightarrow> group_events split xs (root, g)
     | Some (Some p) \<Rightarrow> Option.bind (get_at root p) (\<lambda>n. case c_on_change (dat n) of
           None \<Rightarrow> group_events split xs (root, g)
         | Some a \<Rightarrow> group_events split xs (update_at (event_data x) p root,
             add_event a (if c_onc_exec (dat n) then None else Some p) g)))"

text \<open>The handlers in the order of their addresses; the flag of a node flips for each time it is listed.\<close>

fun run_events :: "event_groups \<Rightarrow> config_item \<times> handler_calls \<Rightarrow> config_item \<times> handler_calls" where
  "run_events [] S = S"
| "run_events ((a, ps) # g) (root, out) = run_events g (if ps = [] then (root, out)
     else (fold (update_at (\<lambda>d. d\<lparr>c_onc_exec := \<not> c_onc_exec d\<rparr>)) ps root,
           out @ [(Some a, map (\<lambda>p. dat (the (get_at root p))) ps)]))"

definition process_cfg_events :: "(string \<Rightarrow> string list option) \<Rightarrow> cfg_data list \<Rightarrow> config_item \<times> handler_calls \<Rightarrow>
    (config_item \<times> handler_calls) option" where
  "process_cfg_events split xs = (\<lambda>(root, out). map_option (\<lambda>(root, g). run_events g (root, out)) (group_events split xs (root, [])))"

text \<open>One entry: a block is removed with all below it, an item gets its value; what is not there is made.\<close>

definition remove_at :: "pos \<Rightarrow> config_item \<Rightarrow> config_item" where
  "remove_at p root = (if p = [] then root
     else map_at (\<lambda>n. Item (dat n) (erase_at (last p) (children n))) (butlast p) root)"

definition apply_entry :: "(string \<Rightarrow> string list option) \<Rightarrow> cfg_data \<Rightarrow> config_item \<Rightarrow> (cfg_data \<times> config_item) option" where
  "apply_entry split x root = Option.bind (cfg_call split root [] (c_name x) True (c_node_type x) True) (\<lambda>(root, q). case q of
       None \<Rightarrow> Some (x, root)
     | Some p \<Rightarrow> Option.bind (get_at root p) (\<lambda>n.
         if c_node_type (dat n) = CONFIG_NT_BLOCK
         then Some (x, if c_node_state x = CONFIG_NS_DELETED \<and> p \<noteq> [] then remove_at p root else root)
         else if c_node_type (dat n) = CONFIG_NT_ITEM
         then (if c_node_state x = CONFIG_NS_DELETED then Some (x\<lparr>c_value := []\<rparr>, update_at (\<lambda>d. d\<lparr>c_value := []\<rparr>) p root)
               else Some (x, update_at (\<lambda>d. d\<lparr>c_value := c_value x\<rparr>) p root))
         else Some (x, root)))"

fun apply_entries :: "(string \<Rightarrow> string list option) \<Rightarrow> cfg_data list \<Rightarrow> config_item \<Rightarrow> (cfg_data list \<times> config_item) option" where
  "apply_entries split [] root = Some ([], root)"
| "apply_entries split (x # xs) root = Option.bind (apply_entry split x root) (\<lambda>(x, root).
     map_option (\<lambda>(xs, root). (x # xs, root)) (apply_entries split xs root))"

fun settle_entries :: "(string \<Rightarrow> string list option) \<Rightarrow> cfg_data list \<Rightarrow> config_item \<Rightarrow> config_item option" where
  "settle_entries split [] root = Some root"
| "settle_entries split (x # xs) root = (case find_pos split root (c_name x) of
       None \<Rightarrow> None
     | Some None \<Rightarrow> settle_entries split xs root
     | Some (Some p) \<Rightarrow> settle_entries split xs
         (update_at (\<lambda>d. d\<lparr>c_onc_exec := False, c_new := False, c_node_state := CONFIG_NS_READY\<rparr>) p root))"

definition update_done :: "(string \<Rightarrow> string list option) \<Rightarrow> bool \<Rightarrow> cfg_data list \<Rightarrow> config_item \<Rightarrow>
    (config_item \<times> handler_calls) option" where
  "update_done split own xs root = Option.bind (process_cfg_events split xs (root, [])) (\<lambda>(root, out).
     Option.bind (apply_entries split xs root) (\<lambda>(xs, root).
     Option.bind (process_cfg_events split xs (root, out)) (\<lambda>(root, out).
     map_option (\<lambda>root. (root, if own then out @ [(None, xs)] else out)) (settle_entries split xs root))))"

section \<open>The stream arrives\<close>

lemma str_of_octs [simp]: "str_of (octs s) = s"
proof -
  have "char_of (unat (of_char c :: u8)) = c" for c :: char
  proof -
    have "unat (of_nat (of_char c) :: u8) = of_char c"
      by (simp add: unsigned_of_nat take_bit_nat_eq_self)
    then have "unat (of_char c :: u8) = of_char c" by (simp add: of_nat_of_char)
    then show ?thesis by simp
  qed
  then show ?thesis by (induction s) (auto simp: str_of_def octs_def)
qed

lemma octet_roundtrips [simp]: "octet_nt (nt_octet t) = t" "octet_ns (ns_octet s) = s"
  by (cases t; simp add: octet_nt_def nt_octet_def) (cases s; simp add: octet_ns_def ns_octet_def)

lemma id_roundtrip [simp]: "sum_octets (be_octets 4 i) = i"
  by (rule sum_be) (use unsigned_less [of i] in auto)

lemma cfg_value_par [simp]: "cfg_value (cfg_par i v) = Some (Some (i, v))"
  by (simp add: cfg_value_def cfg_par_def)

text \<open>What of an entry is sent.\<close>

definition sent_entry :: "cfg_data \<Rightarrow> cfg_data" where
  "sent_entry d = new_data\<lparr>c_name := c_name d, c_value := c_value d, c_node_state := c_node_state d, c_node_type := c_node_type d\<rparr>"

lemma update_next_item:
  "update_next (Config_body (item_body d)) u = Some (Continue, u\<lparr>cu_res := cu_res u @ [sent_entry d]\<rparr>)"
  by (simp add: update_next_def item_body_def take_item_def on_last_def sent_entry_def new_data_def)

text \<open>The packets of a stream, taken one by one: \<open>fuel\<close> is the number of calls, one more than there are packets.\<close>

fun deliver :: "nat \<Rightarrow> ntfy_stream \<Rightarrow> cfg_update \<Rightarrow> cfg_update option" where
  "deliver 0 s u = None"
| "deliver (Suc fuel) s u = (case ntfy_next s of
       (None, s') \<Rightarrow> Some u
     | (Some b, s') \<Rightarrow> (case update_next (Config_body b) u of Some (Continue, u') \<Rightarrow> deliver fuel s' u' | _ \<Rightarrow> None))"

lemma deliver_items:
  "length (drop i xs) < fuel \<Longrightarrow> i \<le> length xs \<Longrightarrow>
   deliver fuel \<lparr>ns_index = i, ns_items = xs\<rparr> u = Some (u\<lparr>cu_res := cu_res u @ map sent_entry (drop i xs)\<rparr>)"
proof (induction fuel arbitrary: i u)
  case (Suc fuel)
  show ?case
  proof (cases "i < length xs")
    case True
    then have "drop i xs = xs ! i # drop (Suc i) xs" by (simp add: Cons_nth_drop_Suc)
    then show ?thesis using Suc.IH [of "Suc i"] Suc.prems True by (simp add: ntfy_next_def update_next_item)
  next
    case False
    then show ?thesis using Suc.prems by (simp add: ntfy_next_def)
  qed
qed simp

lemma sent_copy [simp]: "sent_entry (copy_data CONFIG_NS_UNKNOWN d) = sent_entry d"
  by (simp add: sent_entry_def copy_data_def)

lemma sent_entry_entry [simp]: "sent_entry (entry s d) = entry s d"
  by (simp add: sent_entry_def entry_def new_data_def)

theorem notification_arrives:
  "(case notify_user xs of (b, s) \<Rightarrow> \<exists>u. update_new (Config_body b) = Some (Continue, u) \<and> cu_count u = of_nat (length xs) \<and>
     map_option cu_res (deliver (Suc (length xs)) s u) = Some (map sent_entry xs))"
  by (simp add: notify_user_def update_new_def deliver_items comp_def del: deliver.simps)

section \<open>What is prepared\<close>

text \<open>The entries of the changed nodes.\<close>

fun changed_from :: "cfg_data list \<Rightarrow> config_item \<Rightarrow> cfg_data list list" where
  "changed_from up (Item d cs) = (if c_template d then []
     else (if c_node_state d = CONFIG_NS_READY then [] else [d # up]) @ concat (map (changed_from (d # up)) cs))"

fun note_list :: "config \<Rightarrow> cfg_data list list \<Rightarrow> ntf_heap \<times> nat list \<Rightarrow> (ntf_heap \<times> nat list) option" where
  "note_list cf [] S = Some S"
| "note_list cf (ds # dss) S = Option.bind (node_line ds) (\<lambda>s. Option.bind (note_up cf (entry s (hd ds)) ds S) (note_list cf dss))"

lemma note_all_append: "note_all cf root (ps @ qs) S = Option.bind (note_all cf root ps S) (note_all cf root qs)"
  by (induction cf root ps S rule: note_all.induct) (auto simp: Let_def split: bind_splits)

lemma note_list_append: "note_list cf (ps @ qs) S = Option.bind (note_list cf ps S) (note_list cf qs)"
  by (induction cf ps S rule: note_list.induct) (auto split: bind_splits)

lemma lineage_nonempty: "lineage up it p \<noteq> []"
  by (induction up it p rule: lineage.induct) auto

lemma flatten_changed:
  "(\<And>q. lineage [] root (p @ q) = lineage up it q) \<Longrightarrow>
     note_all cf root (flatten_at p it) S = note_list cf (changed_from up it) S"
  "(\<And>j q. j < length cs \<Longrightarrow> lineage [] root (p @ (i + j) # q) = lineage up (cs ! j) q) \<Longrightarrow>
     note_all cf root (flatten_from p i cs) S = note_list cf (concat (map (changed_from up) cs)) S"
proof (induction p it and p i cs arbitrary: up S and up S rule: flatten_at_flatten_from.induct)
  case (1 p d cs)
  have hd: "lineage [] root p = d # up" using 1(2) [of "[]"] by simp
  have "note_all cf root (flatten_from p 0 cs) = note_list cf (concat (map (changed_from (d # up)) cs))"
    if "\<not> c_template d"
    using that 1(2) by (intro ext 1(1)) (auto split: if_splits)
  then show ?case by (auto simp: hd Let_def)
next
  case (3 p i c cs)
  have "note_all cf root (flatten_at (p @ [i]) c) S = note_list cf (changed_from up c) S" for S
    using 3(3) [of 0] by (intro 3(1)) auto
  moreover have "note_all cf root (flatten_from p (Suc i) cs) = note_list cf (concat (map (changed_from up) cs))"
    using 3(3) [of "Suc _"] by (intro ext 3(2)) auto
  ultimately show ?case by (simp add: note_all_append note_list_append)
qed simp

text \<open>How often the notification at an address is found on the way up from a node.\<close>

fun hits :: "config \<Rightarrow> nat \<Rightarrow> cfg_data list \<Rightarrow> nat" where
  "hits cf a [] = 0"
| "hits cf a (d # ds) = (if get_notification (the (node_line (d # ds))) cf = Some a then 1 else 0) + hits cf a ds"

definition prepared_for :: "config \<Rightarrow> nat \<Rightarrow> cfg_data list list \<Rightarrow> cfg_data list" where
  "prepared_for cf a dss = concat (map (\<lambda>ds. replicate (hits cf a ds) (entry (the (node_line ds)) (hd ds))) dss)"

text \<open>Ways that end in the node named \<^verbatim>\<open>ROOT\<close>.\<close>

definition rooted :: "cfg_data list \<Rightarrow> bool" where
  "rooted ds \<longleftrightarrow> ds \<noteq> [] \<and> c_name (last ds) = ''ROOT''"

lemma rooted_line: "rooted ds \<Longrightarrow> node_line ds \<noteq> None"
proof (cases ds)
  case (Cons d up)
  assume r: "rooted ds"
  have "parent_names ns \<noteq> None" if "''ROOT'' \<in> set ns" for ns using that by (induction ns) auto
  moreover have "up \<noteq> [] \<Longrightarrow> ''ROOT'' \<in> set (map c_name up)"
    using r Cons by (auto simp: rooted_def intro!: image_eqI [of _ _ "last up"])
  ultimately show ?thesis using Cons by (auto simp: node_line_def get_parent_line_def)
qed (simp add: rooted_def)

definition noted :: "ntf_heap \<times> nat list \<Rightarrow> (nat \<Rightarrow> cfg_data list) \<Rightarrow> ntf_heap \<times> nat list \<Rightarrow> bool" where
  "noted S xs S' \<longleftrightarrow> (\<forall>a. cn_items (fst S' a) = cn_items (fst S a) @ xs a \<and> cn_users (fst S' a) = cn_users (fst S a) \<and>
     cn_ready (fst S' a) = (cn_ready (fst S a) \<or> xs a \<noteq> [])) \<and>
     set (snd S') = set (snd S) \<union> {a. xs a \<noteq> []} \<and> (distinct (snd S) \<longrightarrow> distinct (snd S'))"

lemma noted_refl: "noted S (\<lambda>_. []) S"
  by (simp add: noted_def)

lemma noted_trans: "noted S xs S1 \<Longrightarrow> noted S1 ys S2 \<Longrightarrow> noted S (\<lambda>a. xs a @ ys a) S2"
  by (auto simp: noted_def)

lemma noted_entry: "noted S (\<lambda>b. if b = a then [x] else []) (note_entry x a S)"
  by (cases S) (auto simp: noted_def note_entry_def)

lemma note_up_noted:
  "ds = [] \<or> rooted ds \<Longrightarrow> \<exists>S'. note_up cf x ds S = Some S' \<and> noted S (\<lambda>a. replicate (hits cf a ds) x) S'"
proof (induction ds arbitrary: S)
  case Nil
  then show ?case using noted_refl by simp
next
  case (Cons d ds)
  then obtain s where s: "node_line (d # ds) = Some s" using rooted_line [of "d # ds"] by auto
  have r: "ds = [] \<or> rooted ds" using Cons.prems by (auto simp: rooted_def split: if_splits)
  define S1 where "S1 = (case get_notification s cf of None \<Rightarrow> S | Some a \<Rightarrow> note_entry x a S)"
  obtain S' where S': "note_up cf x ds S1 = Some S'" "noted S1 (\<lambda>a. replicate (hits cf a ds) x) S'" using Cons.IH [OF r] by blast
  have "noted S (\<lambda>a. replicate (if get_notification s cf = Some a then 1 else 0) x) S1"
  proof (cases "get_notification s cf")
    case None
    then show ?thesis using noted_refl by (simp add: S1_def)
  next
    case (Some b)
    have "(\<lambda>a. replicate (if get_notification s cf = Some a then 1 else 0) x) = (\<lambda>c. if c = b then [x] else [])" using Some by auto
    then show ?thesis using Some noted_entry by (simp add: S1_def)
  qed
  from noted_trans [OF this S'(2)] show ?case using S'(1) s by (auto simp: S1_def replicate_add)
qed

lemma note_list_noted:
  "list_all rooted dss \<Longrightarrow> \<exists>S'. note_list cf dss S = Some S' \<and> noted S (\<lambda>a. prepared_for cf a dss) S'"
proof (induction dss arbitrary: S)
  case Nil
  then show ?case using noted_refl by (simp add: prepared_for_def)
next
  case (Cons ds dss)
  then obtain s where s: "node_line ds = Some s" using rooted_line [of ds] by auto
  from Cons.prems have "ds = [] \<or> rooted ds" by simp
  from note_up_noted [OF this, of cf "entry s (hd ds)" S] obtain S1
    where S1: "note_up cf (entry s (hd ds)) ds S = Some S1" "noted S (\<lambda>a. replicate (hits cf a ds) (entry s (hd ds))) S1" by blast
  obtain S' where S': "note_list cf dss S1 = Some S'" "noted S1 (\<lambda>a. prepared_for cf a dss) S'"
    using Cons.IH [of S1] Cons.prems by (metis list.pred_inject(2))
  from noted_trans [OF S1(2) S'(2)] show ?case using s S1(1) S'(1) by (simp add: prepared_for_def)
qed

lemma changed_rooted:
  "up = [] \<and> c_name (dat it) = ''ROOT'' \<or> rooted up \<Longrightarrow> list_all rooted (changed_from up it)"
proof (induction up it rule: changed_from.induct)
  case (1 up d cs)
  have "rooted (d # up)" using 1(2) by (auto simp: rooted_def)
  then have "list_all rooted (changed_from (d # up) c)" if "c \<in> set cs" "\<not> c_template d" for c
    using that by (intro 1(1)) auto
  then show ?case using \<open>rooted (d # up)\<close> by (auto simp: list_all_iff)
qed

text \<open>
  A commit prepares, for every notification, the list of the changed nodes on whose way to the root
  it is found, in the order of the tree, each with its path, its new value, state and type.
\<close>

theorem notifications_prepared:
  assumes "c_name (dat root) = ''ROOT''"
  shows "\<exists>S'. prepare_notifications cf root S = Some S' \<and> noted S (\<lambda>a. prepared_for cf a (changed_from [] root)) S'"
proof -
  have "prepare_notifications cf root S = note_list cf (changed_from [] root) S"
    unfolding prepare_notifications_def by (rule flatten_changed(1)) simp
  then show ?thesis using note_list_noted changed_rooted assms by simp
qed

end
