(* ===== verification/ConfigDaemon.thy ===== *)
theory ConfigDaemon
  imports AutoComplete ConfigText ConfigNotify
begin

text \<open>
  The configuration daemon (\<^verbatim>\<open>src/src/services/config/events.cpp\<close>, and the user timeout of
  \<^verbatim>\<open>configd.cpp\<close>): the requests of command lines, of other daemons and of clients, and the packets of
  the answers. A request holds the lock of the configuration from its first packet to the end of its
  stream, so it carries the daemon's state with it; the trees it works on are those of its
  completion state.

  The files are the names with their contents, the last written first; the saved revisions are read in
  this order, as if no two were written in the same second. The parser, and which files can be opened
  for writing, are arguments. Sending a line to another daemon is an output.
\<close>

section \<open>State\<close>

type_synonym files = "(string \<times> string) list"

record cfg_daemon =
  cd_config :: config
  cd_cmd :: config_item
  cd_ntfs :: ntf_heap
  cd_next :: nat
  cd_files :: files

record daemon_env =
  de_cfg :: cfg_env
  de_fsys :: "string \<Rightarrow> string \<times> config_item list"
  de_listed :: "files \<Rightarrow> config_item list"
  de_parse :: "string \<Rightarrow> config_item option"
  de_opens :: "string \<Rightarrow> bool"
  de_file :: string
  de_others :: "string list"
  de_router :: bool

abbreviation (input) pt_mink_config_ac_line :: u32 where "pt_mink_config_ac_line \<equiv> 7402"
abbreviation (input) pt_cfg_item_name :: u32 where "pt_cfg_item_name \<equiv> 7403"
abbreviation (input) pt_cfg_item_desc :: u32 where "pt_cfg_item_desc \<equiv> 7404"
abbreviation (input) pt_cfg_item_nvalue :: u32 where "pt_cfg_item_nvalue \<equiv> 7407"
abbreviation (input) pt_cfg_item_cm_mode :: u32 where "pt_cfg_item_cm_mode \<equiv> 7409"
abbreviation (input) pt_cfg_cfg_error :: u32 where "pt_cfg_cfg_error \<equiv> 7410"
abbreviation (input) pt_mink_config_cli_path :: u32 where "pt_mink_config_cli_path \<equiv> 7411"
abbreviation (input) pt_cfg_cfg_line :: u32 where "pt_cfg_cfg_line \<equiv> 7412"
abbreviation (input) pt_mink_config_ac_err_count :: u32 where "pt_mink_config_ac_err_count \<equiv> 7413"
abbreviation (input) pt_mink_config_cfg_line_count :: u32 where "pt_mink_config_cfg_line_count \<equiv> 7414"
abbreviation (input) pt_cfg_item_notify :: u32 where "pt_cfg_item_notify \<equiv> 7416"
abbreviation (input) pt_mink_config_replication_line :: u32 where "pt_mink_config_replication_line \<equiv> 7418"

datatype replication = Replicate string string user_id

record request =
  rq_daemon :: cfg_daemon
  rq_user :: user_id
  rq_action :: "u8 option"
  rq_acmode :: ConfigACMode
  rq_ac :: ac_state
  rq_line :: string
  rq_path :: string
  rq_text :: string
  rq_lc :: nat
  rq_index :: nat
  rq_err :: int
  rq_ntfs :: "nat list"
  rq_out :: "replication list"

definition open_request :: "user_id \<Rightarrow> cfg_daemon \<Rightarrow> request option" where
  "open_request u cd = map_option (\<lambda>t. \<lparr>rq_daemon = cd, rq_user = u, rq_action = None, rq_acmode = CONFIG_ACM_TAB,
     rq_ac = ac_start (cd_cmd cd) t, rq_line = [], rq_path = [], rq_text = [], rq_lc = 0, rq_index = 0, rq_err = 0,
     rq_ntfs = [], rq_out = []\<rparr>) (cf_definition (cd_config cd))"

text \<open>The daemon after the request: its trees are those of the request.\<close>

definition daemon_of :: "request \<Rightarrow> cfg_daemon" where
  "daemon_of r = (let cd = rq_daemon r in
     cd\<lparr>cd_config := (cd_config cd)\<lparr>cf_definition := Some (ac_defn (rq_ac r))\<rparr>, cd_cmd := ac_cmd (rq_ac r)\<rparr>)"

abbreviation cfg_of :: "request \<Rightarrow> config" where "cfg_of r \<equiv> cd_config (rq_daemon r)"
abbreviation defn_of :: "request \<Rightarrow> config_item" where "defn_of r \<equiv> ac_defn (rq_ac r)"

definition on_config :: "(config \<Rightarrow> config) \<Rightarrow> request \<Rightarrow> request" where
  "on_config f r = r\<lparr>rq_daemon := (rq_daemon r)\<lparr>cd_config := f (cfg_of r)\<rparr>\<rparr>"

definition on_defn :: "(config_item \<Rightarrow> config_item option) \<Rightarrow> request \<Rightarrow> request option" where
  "on_defn f r = map_option (\<lambda>t. r\<lparr>rq_ac := (rq_ac r)\<lparr>ac_defn := t\<rparr>\<rparr>) (f (defn_of r))"

definition error :: "string \<Rightarrow> request \<Rightarrow> request" where "error s r = r\<lparr>rq_ac := add_error s (rq_ac r)\<rparr>"

definition say :: "string \<Rightarrow> request \<Rightarrow> request" where
  "say s r = r\<lparr>rq_text := rq_text r @ s @ newline, rq_lc := rq_lc r + 1\<rparr>"

text \<open>The transaction of another user keeps a request from changing anything.\<close>

definition pretends :: "user_id \<Rightarrow> config \<Rightarrow> bool" where
  "pretends u c \<longleftrightarrow> user_id_neq (get_transaction_owner c) u \<and> transaction_started c"

definition denied :: "request \<Rightarrow> request" where
  "denied = error ''Transaction started by other user, cannot execute intrusive operation!''"

definition get_wnode :: "user_id \<Rightarrow> config \<Rightarrow> pos option" where
  "get_wnode u c = map_option ui_wnode (get_definition_wn u c)"

definition set_wnode :: "user_id \<Rightarrow> pos \<Rightarrow> config \<Rightarrow> config" where
  "set_wnode u p c = (case get_definition_wn u c of None \<Rightarrow> c | Some i \<Rightarrow> set_definition_wn u (i\<lparr>ui_wnode := p\<rparr>) c)"

definition path_to :: "config_item \<Rightarrow> pos \<Rightarrow> string" where
  "path_to root p = generate_path (path_data root p) []"

definition all_to_root :: "request \<Rightarrow> request" where
  "all_to_root r = (on_config reset_all_wns r)\<lparr>rq_path := []\<rparr>"

text \<open>A line goes to each of the other daemons, by way of a routing daemon.\<close>

definition replicate_all :: "daemon_env \<Rightarrow> request \<Rightarrow> request" where
  "replicate_all E r = (if de_router E
     then r\<lparr>rq_out := rq_out r @ map (\<lambda>d. Replicate (rq_line r) d (rq_user r)) (de_others E)\<rparr> else r)"

section \<open>Files\<close>

fun dec_digits :: "nat \<Rightarrow> string" where
  "dec_digits n = (if n < 10 then [] else dec_digits (n div 10)) @ [char_of (48 + n mod 10)]"

declare dec_digits.simps [simp del]

definition rollback_prefix :: string where "rollback_prefix = ''./commit-log/.rollback''"

definition revisions :: "files \<Rightarrow> files" where
  "revisions fs = filter (\<lambda>f. take (length rollback_prefix) (fst f) = rollback_prefix) fs"

definition rollback_name :: "nat \<Rightarrow> string" where
  "rollback_name n = rollback_prefix @ ''.'' @ dec_digits n @ ''.pmcfg''"

text \<open>What a stream of characters gives for an integer: the old value when there is nothing to read.\<close>

definition is_space :: "char \<Rightarrow> bool" where
  "is_space c \<longleftrightarrow> c \<in> set [CHR '' '', CHR 0x09, CHR 0x0A, CHR 0x0B, CHR 0x0C, CHR 0x0D]"

definition is_digit :: "char \<Rightarrow> bool" where "is_digit c \<longleftrightarrow> 48 \<le> (of_char c :: nat) \<and> (of_char c :: nat) \<le> 57"

definition dec_value :: "string \<Rightarrow> int" where
  "dec_value s = foldl (\<lambda>n c. 10 * n + (int (of_char c) - 48)) 0 s"

definition stream_int :: "int \<Rightarrow> string \<Rightarrow> int" where
  "stream_int old s = (case dropWhile is_space s of [] \<Rightarrow> old
     | c # t \<Rightarrow> (let neg = (c = CHR ''-''); ds = takeWhile is_digit (if c = CHR ''-'' \<or> c = CHR ''+'' then t else c # t);
                    v = (if neg then - dec_value ds else dec_value ds)
                in if ds = [] then 0 else max (- (2 ^ 31)) (min (2 ^ 31 - 1) v)))"

definition file_text :: "files \<Rightarrow> string \<Rightarrow> string" where
  "file_text fs n = (case map_of fs n of None \<Rightarrow> [] | Some t \<Rightarrow> t)"

definition write_file :: "string \<Rightarrow> string \<Rightarrow> request \<Rightarrow> request" where
  "write_file n t r = r\<lparr>rq_daemon := (rq_daemon r)\<lparr>cd_files :=
     (n, t) # filter (\<lambda>f. fst f \<noteq> n) (cd_files (rq_daemon r))\<rparr>\<rparr>"

definition write_current :: "daemon_env \<Rightarrow> request \<Rightarrow> request" where
  "write_current E r = (if de_opens E (de_file E) then write_file (de_file E) (file_config False None (defn_of r)) r else r)"

section \<open>Committing\<close>

definition prepare :: "request \<Rightarrow> request option" where
  "prepare r = map_option (\<lambda>(h, l). r\<lparr>rq_daemon := (rq_daemon r)\<lparr>cd_ntfs := h\<rparr>, rq_ntfs := l\<rparr>)
     (prepare_notifications (cfg_of r) (defn_of r) (cd_ntfs (rq_daemon r), rq_ntfs r))"

definition commit_tree :: "request \<Rightarrow> request option" where
  "commit_tree = on_defn (\<lambda>t. map_option snd (commit False t))"

definition sort_tree :: "daemon_env \<Rightarrow> request \<Rightarrow> request option" where
  "sort_tree E = on_defn (sort_nodes (de_cfg E))"

definition clear_value :: "node_ref \<Rightarrow> request \<Rightarrow> request" where
  "clear_value a r = r\<lparr>rq_ac := set_data_at (\<lambda>d. d\<lparr>c_new_value := []\<rparr>) a (rq_ac r)\<rparr>"

text \<open>
  The revision that is saved is the configuration without the changes. \<open>finish\<close> is what the two callers
  do at the end, \<open>failed\<close> what they do when the file cannot be made.
\<close>

definition commit_changes :: "daemon_env \<Rightarrow> string \<Rightarrow> (request \<Rightarrow> request) \<Rightarrow> (request \<Rightarrow> request) \<Rightarrow> request \<Rightarrow> request option" where
  "commit_changes E desc finish failed r = Option.bind (commit True (defn_of r)) (\<lambda>(n, t).
     let r = r\<lparr>rq_ac := (rq_ac r)\<lparr>ac_defn := t\<rparr>\<rparr>
     in if n = 0 then Some r
        else (let r = all_to_root r; name = rollback_name (length (revisions (cd_files (rq_daemon r))))
          in if de_opens E name
             then (let r = write_file name (file_config True (Some desc) (defn_of r)) r
               in map_option finish (Option.bind (prepare r) (\<lambda>r. Option.bind (commit_tree r) (sort_tree E))))
             else Some (failed r)))"

definition commit_command :: "daemon_env \<Rightarrow> node_ref \<Rightarrow> config_item \<Rightarrow> request \<Rightarrow> request option" where
  "commit_command E a n r = (if pretends (rq_user r) (cfg_of r) then Some (denied r)
     else map_option (clear_value a) (commit_changes E (c_new_value (dat n))
       (\<lambda>r. replicate_all E (on_config end_transaction (write_current E r)))
       (error ''Cannot create rollback configuration!'') r))"

section \<open>Loading another configuration\<close>

text \<open>
  A pointer to a node stays with its node when siblings are sorted; the node is followed by the names on
  its way, which are different among siblings that are no templates.
\<close>

fun follow :: "config_item \<Rightarrow> config_item \<Rightarrow> pos \<Rightarrow> pos option" where
  "follow old new [] = Some []"
| "follow (Item d cs) (Item d' cs') (i # p) = (if i < length cs then
     (case find_index (named (c_name (dat (cs ! i)))) cs' of None \<Rightarrow> None
      | Some j \<Rightarrow> map_option ((#) j) (follow (cs ! i) (cs' ! j) p)) else None)"

definition follow_all :: "config_item \<Rightarrow> config_item \<Rightarrow> config \<Rightarrow> config" where
  "follow_all old new c = c\<lparr>usr_path_map := map (\<lambda>(u, i). (u, i\<lparr>ui_wnode :=
     (case follow old new (ui_wnode i) of Some q \<Rightarrow> q | None \<Rightarrow> ui_wnode i)\<rparr>)) (usr_path_map c)\<rparr>"

datatype load_result = Invalid_contents | Merge_failed | Merged

text \<open>Validation, and the merge into a definition whose nodes all wait for deletion.\<close>

definition replace_with :: "daemon_env \<Rightarrow> config_item \<Rightarrow> request \<Rightarrow> (load_result \<times> request) option" where
  "replace_with E contents r = Option.bind (validate (de_cfg E) (defn_of r) (defn_of r) contents) (\<lambda>(ok, contents).
     if \<not> ok then Some (Invalid_contents, r)
     else map_option (\<lambda>(res, t, cs). (if res = 0 then Merged else Merge_failed,
         on_config (follow_all (defn_of r) t) (r\<lparr>rq_ac := (rq_ac r)\<lparr>ac_defn := t\<rparr>\<rparr>)))
       (merge (de_cfg E) (\<lambda>t. t) (replace_prepare (defn_of r)) contents True))"

definition revision_named :: "string \<Rightarrow> files \<Rightarrow> (string \<times> string) option" where
  "revision_named v fs = (let n = stream_int (- 1) v in
     if 0 \<le> n \<and> n < int (length (revisions fs)) then Some (revisions fs ! nat n) else None)"

definition rollback_to :: "daemon_env \<Rightarrow> string \<Rightarrow> request \<Rightarrow> request option" where
  "rollback_to E text r = (case de_parse E text of
       None \<Rightarrow> Some (error ''Invalid rollback configuration file syntax!'' r)
     | Some contents \<Rightarrow> Option.bind (replace_with E contents (all_to_root (say ''Done'' r))) (\<lambda>(res, r). case res of
           Invalid_contents \<Rightarrow> Some (error ''Invalid/undefined rollback configuration file contents!'' r)
         | Merge_failed \<Rightarrow> Some (error ''Cannot merge configuration file contents!'' (say ''Merging rollback configuration file...'' r))
         | Merged \<Rightarrow>
             (let r = say ''Committing rollback configuration...'' (say ''Done'' (say ''Merging rollback configuration file...'' r))
              in map_option (\<lambda>r. say ''Done'' (replicate_all E (on_config end_transaction r)))
                   (Option.bind (prepare r) (\<lambda>r. Option.bind (commit_tree r) (\<lambda>r. sort_tree E (write_current E r)))))))"

definition rollback_command :: "daemon_env \<Rightarrow> node_ref \<Rightarrow> config_item \<Rightarrow> request \<Rightarrow> request option" where
  "rollback_command E a n r = (let v = c_new_value (dat n); fs = cd_files (rq_daemon r) in
     if pretends (rq_user r) (cfg_of r) then Some (denied r)
     else map_option (clear_value a)
       (if v = [] then Some (error ''Rollback revision not defined!'' r)
        else if revisions fs = [] then Some (error ''Cannot find rollback information!'' r)
        else case revision_named v fs of
            None \<Rightarrow> Some (error (''Cannot find rollback revision '' @ [CHR 0x27] @ v @ [CHR 0x27] @ ''!'') r)
          | Some (name, text) \<Rightarrow>
              if text = [] then Some (error (''Cannot find rollback revision '' @ [CHR 0x27] @ name @ [CHR 0x27] @ ''!'') r)
              else rollback_to E text (say ''Loading rollback configuration...'' r)))"

definition save_command :: "daemon_env \<Rightarrow> node_ref \<Rightarrow> config_item \<Rightarrow> request \<Rightarrow> request option" where
  "save_command E a n r = (let v = c_new_value (dat n) in
     if v = [] then Some (error ''Filename not defined!'' r)
     else map_option (clear_value a)
       (if de_opens E v then
          Option.bind (get_wnode (rq_user r) (cfg_of r)) (\<lambda>p. map_option (\<lambda>it.
            say ''Done'' (write_file v (file_config False None it) (say (''Saving configuration to '' @ in_quotes v @ ''...'') r)))
            (get_at (defn_of r) p))
        else Some (error (''Cannot create file '' @ in_quotes v) r)))"

definition load_command :: "daemon_env \<Rightarrow> node_ref \<Rightarrow> config_item \<Rightarrow> request \<Rightarrow> request option" where
  "load_command E a n r = (let v = c_new_value (dat n); text = file_text (cd_files (rq_daemon r)) v in
     if pretends (rq_user r) (cfg_of r) then Some (denied r)
     else if v = [] then Some (error ''Filename not defined!'' r)
     else map_option (clear_value a)
       (if text = [] then Some (error (''Cannot find file '' @ in_quotes v) r)
        else (let r = say (''Loading new configuration file '' @ in_quotes v @ ''...'') r in case de_parse E text of
            None \<Rightarrow> Some (error ''Invalid configuration file syntax!'' r)
          | Some contents \<Rightarrow> Option.bind (replace_with E contents (say ''Done'' r)) (\<lambda>(res, r). Some (case res of
                Invalid_contents \<Rightarrow> error ''Invalid/undefined configuration file contents!'' r
              | Merge_failed \<Rightarrow> error ''Cannot merge configuration file contents!'' (say ''Merging new configuration file...'' r)
              | Merged \<Rightarrow> on_config (start_transaction (rq_user r)) (say ''Done'' (say ''Merging new configuration file...'' r)))))))"

section \<open>Deleting\<close>

fun parent_ref :: "node_ref \<Rightarrow> node_ref option" where
  "parent_ref (Cmd_node p) = (if 1 < length p then Some (Cmd_node (butlast p)) else None)"
| "parent_ref (Def_node p) = (if p = [] then None else Some (Def_node (butlast p)))"
| "parent_ref (Tmp_node k p) = (if p = [] then None else Some (Tmp_node k (butlast p)))"

definition node_of :: "node_ref \<Rightarrow> request \<Rightarrow> config_item option" where "node_of a r = node_at a (rq_ac r)"

definition mark_deleted_at :: "node_ref \<Rightarrow> request \<Rightarrow> request" where
  "mark_deleted_at a r = (on_config (start_transaction (rq_user r)) r)\<lparr>rq_ac :=
     set_data_at (set_state CONFIG_NS_DELETED) a (rq_ac r)\<rparr>"

definition no_template_block :: "config_item \<Rightarrow> request \<Rightarrow> request" where
  "no_template_block n = error (''Cannot delete non template block node '' @ in_quotes (c_name (dat n)) @ ''!'')"

text \<open>A child found by its place: the loop starts after the template.\<close>

definition in_loop :: "node_ref \<Rightarrow> config_item \<Rightarrow> bool" where
  "in_loop b n \<longleftrightarrow> 0 < last (pos_of b) \<and> \<not> c_template (dat n)"

definition delete_parent :: "daemon_env \<Rightarrow> node_ref \<Rightarrow> request \<Rightarrow> request option" where
  "delete_parent E a r = Option.bind (parent_ref a) (\<lambda>b. Option.bind (node_of b r) (\<lambda>n.
     if c_node_type (dat n) \<noteq> CONFIG_NT_BLOCK then Some r
     else case parent_ref b of None \<Rightarrow> Some r
       | Some g \<Rightarrow> map_option (\<lambda>up.
           if length (children up) \<le> 1 \<or> \<not> c_template (dat (hd (children up))) then no_template_block n r
           else if in_loop b n \<and> \<not> pretends (rq_user r) (cfg_of r) then replicate_all E (mark_deleted_at b r)
           else r) (node_of g r)))"

text \<open>Several results: the check of the number of siblings never lets one through.\<close>

definition delete_several :: "node_ref \<Rightarrow> request \<Rightarrow> request option" where
  "delete_several a r = Option.bind (parent_ref a) (\<lambda>b. Option.bind (node_of b r) (\<lambda>n.
     if c_node_type (dat n) \<noteq> CONFIG_NT_BLOCK then Some r
     else case parent_ref b of None \<Rightarrow> Some r
       | Some g \<Rightarrow> Option.bind (node_of g r) (\<lambda>up.
           if 1 \<le> length (children up) then Some (no_template_block n r) else None)))"

definition delete_command :: "daemon_env \<Rightarrow> node_ref list \<Rightarrow> request \<Rightarrow> request option" where
  "delete_command E as r = (case as of [] \<Rightarrow> Some r
     | [a] \<Rightarrow> Option.bind (node_of a r) (\<lambda>n.
         if ac_line (rq_ac r) = [] then None
         else if last (ac_line (rq_ac r)) = c_name (dat n) then
           (if c_node_type (dat n) = CONFIG_NT_ITEM
            then Some (if pretends (rq_user r) (cfg_of r) then r else replicate_all E (mark_deleted_at a r))
            else if c_node_type (dat n) = CONFIG_NT_BLOCK
            then Option.bind (parent_ref a) (\<lambda>b. map_option (\<lambda>p. no_template_block p r) (node_of b r))
            else Some r)
         else delete_parent E a r)
     | a # _ \<Rightarrow> delete_several a r)"

section \<open>The other commands\<close>

definition at_wnode :: "(pos \<Rightarrow> config_item \<Rightarrow> request option) \<Rightarrow> request \<Rightarrow> request option" where
  "at_wnode f r = Option.bind (get_wnode (rq_user r) (cfg_of r)) (\<lambda>p. Option.bind (get_at (defn_of r) p) (f p))"

definition move_to :: "pos \<Rightarrow> request \<Rightarrow> request" where
  "move_to p r = (on_config (set_wnode (rq_user r) p) r)\<lparr>rq_path := path_to (defn_of r) p\<rparr>"

definition plain_command :: "daemon_env \<Rightarrow> string \<Rightarrow> request \<Rightarrow> request option" where
  "plain_command E c r =
     (if c = ''configuration'' then at_wnode (\<lambda>p n. Some (r\<lparr>rq_lc := get_config_lc n, rq_text := rq_text r @ show_config 0 n\<rparr>)) r
      else if c = ''commands'' then at_wnode (\<lambda>p n. map_option
        (\<lambda>ls. r\<lparr>rq_lc := get_commands_lc (children n), rq_text := rq_text r @ concat (map (\<lambda>l. l @ newline) ls)\<rparr>)
        (show_commands (map c_name (path_data (defn_of r) p)) (children n))) r
      else if c = ''top'' then Some (if pretends (rq_user r) (cfg_of r) then denied r
        else (on_config (set_wnode (rq_user r) []) r)\<lparr>rq_path := []\<rparr>)
      else if c = ''up'' then (if pretends (rq_user r) (cfg_of r) then Some (denied r)
        else at_wnode (\<lambda>p n. Some (if p = [] then r else move_to (butlast p) r)) r)
      else if c = ''discard'' then (if pretends (rq_user r) (cfg_of r) then Some (denied r)
        else map_option (\<lambda>r. replicate_all E (on_config end_transaction r)) (on_defn discard (all_to_root r)))
      else Some r)"

definition run_command :: "daemon_env \<Rightarrow> node_ref \<Rightarrow> request \<Rightarrow> request option" where
  "run_command E a r = Option.bind (node_of a r) (\<lambda>n.
     if c_node_type (dat n) = CONFIG_NT_CMD then plain_command E (c_name (dat n)) r
     else if c_node_type (dat n) = CONFIG_NT_PARAM then
       (case parent_ref a of None \<Rightarrow> Some r
        | Some b \<Rightarrow> Option.bind (node_of b r) (\<lambda>par.
            if c_node_type (dat par) \<noteq> CONFIG_NT_CMD then Some r
            else if c_name (dat par) = ''commit'' then commit_command E a n r
            else if c_name (dat par) = ''rollback'' then rollback_command E a n r
            else if c_name (dat par) = ''save'' then save_command E a n r
            else if c_name (dat par) = ''load'' then load_command E a n r
            else Some r))
     else Some r)"

text \<open>A working node is a node of the definition.\<close>

definition edit_command :: "request \<Rightarrow> request option" where
  "edit_command r = (case ac_last (rq_ac r) of None \<Rightarrow> Some r
     | Some a \<Rightarrow> Option.bind (node_of a r) (\<lambda>n.
         if c_node_type (dat n) \<noteq> CONFIG_NT_BLOCK
         then Some (error (''Cannot navigate to non block mode '' @ in_quotes (c_name (dat n)) @ ''!'') r)
         else if pretends (rq_user r) (cfg_of r) then Some r
         else case a of Def_node p \<Rightarrow> Some (move_to p r) | _ \<Rightarrow> None))"

definition run_mode :: "daemon_env \<Rightarrow> request \<Rightarrow> request option" where
  "run_mode E r = (case ac_result (rq_ac r) of [] \<Rightarrow> Some r
     | a # as \<Rightarrow> (case ac_mode (rq_ac r) of
         CONFIG_MT_DEL \<Rightarrow> delete_command E (a # as) r
       | CONFIG_MT_CMD \<Rightarrow> run_command E a r
       | CONFIG_MT_EDIT \<Rightarrow> edit_command r
       | CONFIG_MT_SHOW \<Rightarrow> Some (r\<lparr>rq_acmode := CONFIG_ACM_TAB\<rparr>)
       | CONFIG_MT_SET \<Rightarrow> Some (if pretends (rq_user r) (cfg_of r) then r
           else replicate_all E (on_config (start_transaction (rq_user r)) r))
       | CONFIG_MT_UNKNOWN \<Rightarrow> Some r))"

section \<open>A line\<close>

text \<open>
  The parameters are those of the stream's own message that hold data of the session of the message received;
  none when it is not linked in that session.
\<close>

definition command_line :: "cfg_msg \<Rightarrow> cfg_param list option \<Rightarrow> string option" where
  "command_line msg own = (case (msg, own) of
       (No_body, _) \<Rightarrow> Some [] | (_, None) \<Rightarrow> Some []
     | (_, Some ps) \<Rightarrow> map_option (foldl (\<lambda>l (i, v). if i = pt_mink_config_ac_line then str_of v else l) []) (cfg_values ps))"

text \<open>The line after completion: the tokens that were completed and the next one.\<close>

fun joined :: "int \<Rightarrow> int \<Rightarrow> string list \<Rightarrow> string" where
  "joined n i [] = []"
| "joined n i (t # ts) = t @ (if i < n then '' '' @ joined n (i + 1) ts else [])"

definition complete :: "daemon_env \<Rightarrow> ConfigACMode \<Rightarrow> bool \<Rightarrow> request \<Rightarrow> request option" where
  "complete E m pretend r = Option.bind (get_wnode (rq_user r) (cfg_of r)) (\<lambda>w. map_option (\<lambda>ac. r\<lparr>rq_ac := ac\<rparr>)
     (auto_complete \<lparr>a_cfg = de_cfg E, a_fsys = de_fsys E, a_rbr = is_rbr, a_revisions = de_listed E (revisions (cd_files (rq_daemon r)))\<rparr>
        m pretend (Def_node w) (tokenize (e_split (de_cfg E)) (rq_line r) 50 True) (rq_ac r)))"

definition cm_octet :: "ConfigModeType \<Rightarrow> u8" where
  "cm_octet m = (case m of CONFIG_MT_UNKNOWN \<Rightarrow> - 1 | CONFIG_MT_SHOW \<Rightarrow> 0 | CONFIG_MT_SET \<Rightarrow> 1 | CONFIG_MT_CMD \<Rightarrow> 2
     | CONFIG_MT_DEL \<Rightarrow> 3 | CONFIG_MT_EDIT \<Rightarrow> 4)"

definition result_body :: "(u32 \<times> octets) list \<Rightarrow> cfg_body" where
  "result_body ps = \<lparr>cb_action = [ca_cfg_result], cb_params = Some (map (\<lambda>(i, v). cfg_par i v) ps)\<rparr>"

definition count_octets :: "nat \<Rightarrow> octets" where "count_octets n = be_octets 4 (of_nat n)"

type_synonym answer = "next_step \<times> cfg_body option \<times> request"

text \<open>The first packet of the answer to a line; the errors are then sent from the last one down.\<close>

definition enter_answer :: "request \<Rightarrow> answer" where
  "enter_answer r = (Continue, Some (result_body [(pt_mink_config_ac_line, octs (rq_line r)), (pt_mink_config_cli_path, octs (rq_path r)),
       (pt_mink_config_ac_err_count, count_octets (length (ac_errors (rq_ac r)))),
       (pt_mink_config_cfg_line_count, count_octets (rq_lc r)), (pt_cfg_item_cm_mode, [cm_octet (ac_mode (rq_ac r))])]),
     r\<lparr>rq_err := int (length (ac_errors (rq_ac r))) - 1\<rparr>)"

definition intrusive :: "request \<Rightarrow> request" where
  "intrusive r = (if ac_mode (rq_ac r) \<in> {CONFIG_MT_SET, CONFIG_MT_EDIT, CONFIG_MT_DEL} then denied r else r)"

definition take_line :: "request \<Rightarrow> request" where
  "take_line r = r\<lparr>rq_line := joined (ac_size (rq_ac r)) 0 (ac_line (rq_ac r))\<rparr>"

definition enter_line :: "daemon_env \<Rightarrow> request \<Rightarrow> request option" where
  "enter_line E r = (let p = pretends (rq_user r) (cfg_of r) in
     Option.bind (complete E CONFIG_ACM_ENTER p r) (\<lambda>r. run_mode E (take_line (if p then intrusive r else r))))"

definition process_enter :: "daemon_env \<Rightarrow> cfg_msg \<Rightarrow> cfg_param list option \<Rightarrow> request \<Rightarrow> answer option" where
  "process_enter E msg own r = Option.bind (get_wnode (rq_user r) (cfg_of r)) (\<lambda>w. Option.bind (command_line msg own) (\<lambda>l.
     map_option enter_answer (enter_line E (r\<lparr>rq_path := path_to (defn_of r) w, rq_line := l\<rparr>))))"

definition process_tab :: "daemon_env \<Rightarrow> cfg_msg \<Rightarrow> cfg_param list option \<Rightarrow> request \<Rightarrow> answer option" where
  "process_tab E msg own r = Option.bind (command_line msg own) (\<lambda>l.
     map_option (\<lambda>r. let r = take_line r in (Continue, Some (result_body [(pt_mink_config_ac_line, octs (rq_line r)),
         (pt_cfg_item_cm_mode, [cm_octet (ac_mode (rq_ac r))])]), r\<lparr>rq_err := - 1\<rparr>))
       (complete E CONFIG_ACM_TAB False (r\<lparr>rq_line := l\<rparr>)))"

section \<open>A line of another daemon\<close>

definition joined_values :: "u32 \<Rightarrow> (u32 \<times> octets) list \<Rightarrow> string" where
  "joined_values i vs = concat (map (str_of \<circ> snd) (filter (\<lambda>v. fst v = i) vs))"

definition request_values :: "u8 \<Rightarrow> cfg_msg \<Rightarrow> (u32 \<times> octets) list option" where
  "request_values action msg = (case msg of Config_body b \<Rightarrow> (case cb_action b of [] \<Rightarrow> None
       | a # _ \<Rightarrow> if a \<noteq> action then Some [] else case cb_params b of None \<Rightarrow> Some [] | Some ps \<Rightarrow> cfg_values ps)
     | _ \<Rightarrow> Some [])"

definition delete_replicated :: "node_ref list \<Rightarrow> request \<Rightarrow> request option" where
  "delete_replicated as r = (case as of [] \<Rightarrow> Some r
     | [a] \<Rightarrow> map_option (\<lambda>n. if c_node_type (dat n) \<noteq> CONFIG_NT_ITEM \<or> pretends (rq_user r) (cfg_of r) then r
         else mark_deleted_at a r) (node_of a r)
     | a # _ \<Rightarrow> Option.bind (parent_ref a) (\<lambda>b. Option.bind (node_of b r) (\<lambda>n.
         if c_node_type (dat n) \<noteq> CONFIG_NT_BLOCK then Some r
         else Option.bind (parent_ref b) (\<lambda>g. map_option (\<lambda>up.
           if length (children up) \<le> 1 \<or> \<not> c_template (dat (hd (children up))) then r
           else if in_loop b n \<and> \<not> pretends (rq_user r) (cfg_of r) then mark_deleted_at b r
           else r) (node_of g r)))))"

definition rollback_replicated :: "daemon_env \<Rightarrow> string \<Rightarrow> request \<Rightarrow> request option" where
  "rollback_replicated E v r = (let fs = cd_files (rq_daemon r) in
     if v = [] then Some r
     else case revision_named v fs of None \<Rightarrow> Some r
       | Some (name, text) \<Rightarrow> (if text = [] then Some r
           else case de_parse E text of None \<Rightarrow> Some r
             | Some contents \<Rightarrow> Option.bind (replace_with E contents (all_to_root r)) (\<lambda>(res, r). case res of
                   Merged \<Rightarrow> map_option (on_config end_transaction)
                     (Option.bind (prepare r) (\<lambda>r. Option.bind (commit_tree r) (\<lambda>r. sort_tree E (write_current E r))))
                 | _ \<Rightarrow> Some r)))"

definition run_replicated :: "daemon_env \<Rightarrow> node_ref \<Rightarrow> request \<Rightarrow> request option" where
  "run_replicated E a r = Option.bind (node_of a r) (\<lambda>n.
     if c_node_type (dat n) = CONFIG_NT_CMD then
       (if c_name (dat n) \<noteq> ''discard'' \<or> pretends (rq_user r) (cfg_of r) then Some r
        else map_option (on_config end_transaction) (on_defn discard (all_to_root r)))
     else if c_node_type (dat n) = CONFIG_NT_PARAM then
       (case parent_ref a of None \<Rightarrow> Some r
        | Some b \<Rightarrow> Option.bind (node_of b r) (\<lambda>par.
            if c_node_type (dat par) \<noteq> CONFIG_NT_CMD then Some r
            else if c_name (dat par) = ''commit'' then
              (if pretends (rq_user r) (cfg_of r) then Some r
               else map_option (clear_value a) (commit_changes E (c_new_value (dat n))
                 (\<lambda>r. write_current E (on_config end_transaction r)) (\<lambda>r. r) r))
            else if c_name (dat par) = ''rollback'' then
              (if pretends (rq_user r) (cfg_of r) then Some r
               else map_option (clear_value a) (rollback_replicated E (c_new_value (dat n)) r))
            else Some r))
     else Some r)"

definition run_replicated_mode :: "daemon_env \<Rightarrow> request \<Rightarrow> request option" where
  "run_replicated_mode E r = (case ac_result (rq_ac r) of [] \<Rightarrow> Some r
     | a # as \<Rightarrow> (case ac_mode (rq_ac r) of
         CONFIG_MT_DEL \<Rightarrow> delete_replicated (a # as) r
       | CONFIG_MT_CMD \<Rightarrow> run_replicated E a r
       | CONFIG_MT_SET \<Rightarrow> Some (if pretends (rq_user r) (cfg_of r) then r else on_config (start_transaction (rq_user r)) r)
       | _ \<Rightarrow> Some r))"

text \<open>No answer is sent; the stream waits for its end.\<close>

definition drop_results :: "request \<Rightarrow> request" where
  "drop_results r = r\<lparr>rq_ac := (rq_ac r)\<lparr>ac_result := []\<rparr>\<rparr>"

definition replicated_line :: "daemon_env \<Rightarrow> request \<Rightarrow> request option" where
  "replicated_line E r = Option.bind (complete E CONFIG_ACM_ENTER (pretends (rq_user r) (cfg_of r)) r) (run_replicated_mode E)"

definition process_replicate :: "daemon_env \<Rightarrow> cfg_msg \<Rightarrow> request \<Rightarrow> answer option" where
  "process_replicate E msg r = Option.bind (request_values ca_cfg_replicate msg) (\<lambda>vs.
     let l = joined_values pt_mink_config_replication_line vs; r = r\<lparr>rq_err := - 1, rq_line := l\<rparr>
     in if l = [] then Some (Wait, None, r)
        else map_option (\<lambda>r. (Wait, None, drop_results r)) (replicated_line E r))"

section \<open>A part of the configuration\<close>

text \<open>A notification is made when there is none for the path; a user that is known is put at the end.\<close>

definition ntf_address :: "string \<Rightarrow> request \<Rightarrow> nat \<times> request" where
  "ntf_address path r = (case get_notification path (cfg_of r) of
       Some a \<Rightarrow> (a, r)
     | None \<Rightarrow> (let cd = rq_daemon r; a = cd_next cd in (a, r\<lparr>rq_daemon := cd\<lparr>cd_config := add_notification (a, path) (cd_config cd),
         cd_ntfs := (cd_ntfs cd)(a := new_notification), cd_next := a + 1\<rparr>\<rparr>)))"

definition padded :: "nat \<Rightarrow> octets \<Rightarrow> octets" where
  "padded n v = (if length v \<le> n then v @ replicate (n - length v) 0 else replicate n 0)"

definition sender_user :: "octets option \<Rightarrow> octets \<Rightarrow> nat \<Rightarrow> ntf_user" where
  "sender_user i ty client = \<lparr>nu_id = \<lparr>user_type = padded 16 ty, user_id = (case i of None \<Rightarrow> replicate 46 0 | Some v \<Rightarrow> padded 46 v)\<rparr>,
     nu_client = client\<rparr>"

definition subscribe :: "string \<Rightarrow> ntf_user \<Rightarrow> request \<Rightarrow> request" where
  "subscribe path u r = (case ntf_address path r of (a, r) \<Rightarrow> r\<lparr>rq_daemon := (rq_daemon r)\<lparr>cd_ntfs :=
     (cd_ntfs (rq_daemon r))(a := reg_user u (snd (unreg_user (nu_id u) (cd_ntfs (rq_daemon r) a))))\<rparr>\<rparr>)"

definition wants_notify :: "(u32 \<times> octets) list \<Rightarrow> bool" where
  "wants_notify vs = foldl (\<lambda>b (i, v). if i = pt_cfg_item_notify then hd v = 1 else b) False vs"

definition process_get :: "daemon_env \<Rightarrow> cfg_msg \<Rightarrow> ntf_user \<Rightarrow> request \<Rightarrow> answer option" where
  "process_get E msg u r = Option.bind (request_values ca_cfg_get msg) (\<lambda>vs.
     if list_ex (\<lambda>(i, v). i = pt_cfg_item_notify \<and> v = []) vs then None
     else (let path = joined_values pt_cfg_item_path vs; r = r\<lparr>rq_line := path, rq_err := - 1\<rparr>
       in if path = [] then Some (End_sequence, None, r)
          else case find_pos (e_split (de_cfg E)) (defn_of r) path of
              None \<Rightarrow> None
            | Some None \<Rightarrow> Some (End_sequence, None, r)
            | Some (Some p) \<Rightarrow> map_option (\<lambda>it.
                let r = (if wants_notify vs then subscribe path u r else r);
                    r = r\<lparr>rq_ac := (rq_ac r)\<lparr>ac_result := map Def_node (flatten_at p it)\<rparr>\<rparr>
                in (if ac_result (rq_ac r) = [] then End_sequence else Continue,
                    Some (result_body [(pt_cfg_item_count, count_octets (length (ac_result (rq_ac r))))]), r))
                (get_at (defn_of r) p)))"

section \<open>The packets that follow\<close>

definition free_results :: "request \<Rightarrow> request" where
  "free_results r = r\<lparr>rq_ac := (rq_ac r)\<lparr>ac_result := [], ac_tmp := []\<rparr>\<rparr>"

definition next_tab :: "request \<Rightarrow> answer option" where
  "next_tab r = (if rq_index r < length (ac_result (rq_ac r)) then
       map_option (\<lambda>n. (Continue, Some (result_body [(pt_cfg_item_name, octs (c_name (dat n))), (pt_cfg_item_desc, octs (c_desc (dat n))),
           (pt_cfg_item_ns, [ns_octet (c_node_state (dat n))]), (pt_cfg_item_value, octs (c_value (dat n))),
           (pt_cfg_item_nvalue, octs (c_new_value (dat n))), (pt_cfg_item_nt, [nt_octet (c_node_type (dat n))])]),
         r\<lparr>rq_index := rq_index r + 1\<rparr>))
         (node_of (ac_result (rq_ac r) ! rq_index r) r)
     else Some (End_sequence, None, free_results r))"

definition next_get :: "request \<Rightarrow> answer option" where
  "next_get r = (if rq_index r < length (ac_result (rq_ac r)) then
       (let a = ac_result (rq_ac r) ! rq_index r in Option.bind (node_of a r) (\<lambda>n.
         map_option (\<lambda>path. (Continue, Some (result_body [(pt_cfg_item_path, octs path), (pt_cfg_item_value, octs (c_value (dat n))),
             (pt_cfg_item_nt, [nt_octet (c_node_type (dat n))])]), r\<lparr>rq_index := rq_index r + 1\<rparr>))
           (node_line (lineage [] (defn_of r) (pos_of a)))))
     else Some (End_sequence, None, drop_results r))"

text \<open>A line of the text: up to the next line end, or what is left; then the errors.\<close>

definition get_line :: "string \<Rightarrow> (string \<times> string) option" where
  "get_line s = (if s = [] then None
     else Some (takeWhile (\<lambda>c. c \<noteq> CHR 0x0A) s, drop 1 (dropWhile (\<lambda>c. c \<noteq> CHR 0x0A) s)))"

definition next_enter :: "request \<Rightarrow> answer" where
  "next_enter r = (case get_line (rq_text r) of
       Some (l, rest) \<Rightarrow> (Continue, Some (result_body [(pt_cfg_cfg_line, octs l)]), r\<lparr>rq_text := rest\<rparr>)
     | None \<Rightarrow> if 0 \<le> rq_err r
         then (Continue, Some (result_body [(pt_cfg_cfg_error, octs (ac_errors (rq_ac r) ! nat (rq_err r)))]), r\<lparr>rq_err := rq_err r - 1\<rparr>)
         else (End_sequence, None, free_results r))"

definition stream_next :: "request \<Rightarrow> answer option" where
  "stream_next r = (if rq_action r = Some ca_cfg_get then next_get r
     else case rq_acmode r of CONFIG_ACM_TAB \<Rightarrow> next_tab r | CONFIG_ACM_ENTER \<Rightarrow> Some (next_enter r))"

section \<open>A new stream and its end\<close>

text \<open>The id is copied into a user without a type; a parameter without a value is read all the same.\<close>

fun auth_id :: "cfg_param list \<Rightarrow> octets option option" where
  "auth_id [] = Some None"
| "auth_id (p # ps) = (case cp_value p of None \<Rightarrow> None | Some None \<Rightarrow> auth_id ps
     | Some (Some v) \<Rightarrow> if length (cp_id p) < 4 then None
         else if sum_octets (take 4 (cp_id p)) = pt_mink_auth_id then Some (Some v) else auth_id ps)"

definition get_cfg_uid :: "cfg_msg \<Rightarrow> user_id option option" where
  "get_cfg_uid msg = (case msg of
       Config_body b \<Rightarrow> (case cb_params b of None \<Rightarrow> Some None
         | Some ps \<Rightarrow> map_option (map_option (\<lambda>v. new_user_id\<lparr>user_id := padded 46 v\<rparr>)) (auth_id ps))
     | _ \<Rightarrow> Some None)"

definition process_user_logout :: "request \<Rightarrow> answer option" where
  "process_user_logout r = map_option (\<lambda>r. (End_sequence, None, on_config (remove_wn_user (rq_user r)) r))
     (if pretends (rq_user r) (cfg_of r) then Some r else map_option (on_config end_transaction) (on_defn discard r))"

definition with_action :: "u8 \<Rightarrow> request \<Rightarrow> request" where "with_action a r = r\<lparr>rq_action := Some a\<rparr>"

definition stream_new :: "daemon_env \<Rightarrow> int \<Rightarrow> cfg_msg \<Rightarrow> cfg_param list option \<Rightarrow> ntf_user \<Rightarrow> cfg_daemon \<Rightarrow> answer option" where
  "stream_new E now msg own sender cd = Option.bind (get_cfg_uid msg) (\<lambda>found. case found of
       None \<Rightarrow> map_option (\<lambda>r. (End_sequence, None, r)) (open_request new_user_id cd)
     | Some u \<Rightarrow> Option.bind (open_request u cd) (\<lambda>r.
         (case msg of Config_body b \<Rightarrow> (case cb_action b of [] \<Rightarrow> None
            | a # _ \<Rightarrow>
              (let known = on_config (update_definition_wn now u) (with_action a r) in
               if a = ca_cfg_user_login then Some (End_sequence, None,
                 on_config (set_definition_wn u \<lparr>ui_timestamp = now, ui_wnode = []\<rparr>) (with_action a r))
               else if a = ca_cfg_user_logout then process_user_logout (with_action a r)
               else if a = ca_cfg_ac then process_tab E msg own (known\<lparr>rq_acmode := CONFIG_ACM_TAB\<rparr>)
               else if a = ca_cfg_set then process_enter E msg own (known\<lparr>rq_acmode := CONFIG_ACM_ENTER\<rparr>)
               else if a = ca_cfg_get then process_get E msg sender known
               else if a = ca_cfg_replicate then process_replicate E msg known
               else Some (End_sequence, None, r)))
          | _ \<Rightarrow> Some (End_sequence, None, r))))"

text \<open>The notifications that were prepared go out at the end.\<close>

definition stream_done :: "(nat \<Rightarrow> bool) \<Rightarrow> request \<Rightarrow> (ntf_user \<times> cfg_data list) list \<times> cfg_daemon" where
  "stream_done active r = (case notify_all active (rq_ntfs r) (cd_ntfs (rq_daemon r)) of
     (sent, h) \<Rightarrow> (sent, (daemon_of r)\<lparr>cd_ntfs := h\<rparr>))"

section \<open>The daemon around it\<close>

text \<open>Users that have been idle for too long; the transaction of another user is not theirs to end.\<close>

fun idle_users :: "int \<Rightarrow> int \<Rightarrow> (user_id \<times> user_info) list \<Rightarrow> config \<Rightarrow> config option" where
  "idle_users now limit [] c = Some c"
| "idle_users now limit ((u, i) # us) c =
     (if now - ui_timestamp i \<ge> limit \<and> \<not> pretends u c
      then Option.bind (Option.bind (cf_definition c) discard) (\<lambda>t.
        idle_users now limit us (end_transaction (c\<lparr>cf_definition := Some t\<rparr>)))
      else idle_users now limit us c)"

definition user_timeouts :: "int \<Rightarrow> int \<Rightarrow> cfg_daemon \<Rightarrow> cfg_daemon option" where
  "user_timeouts now limit cd = (let us = usr_path_map (cd_config cd) in map_option (\<lambda>c.
     cd\<lparr>cd_config := fold remove_wn_user (map fst (filter (\<lambda>(u, i). now - ui_timestamp i \<ge> limit) us)) c\<rparr>)
     (idle_users now limit us (cd_config cd)))"

text \<open>
  The start: the definition has to be sound; contents that do not fit it are reported only, and the
  daemon goes on with what has been merged.
\<close>

definition init_config :: "cfg_env \<Rightarrow> config_item \<Rightarrow> config_item option \<Rightarrow> (bool \<times> config) option option" where
  "init_config e defn contents = (if \<not> validate_definition defn then Some None
     else case contents of None \<Rightarrow> Some (Some (True, load_definition defn new_config))
       | Some c \<Rightarrow> map_option (\<lambda>(res, t, cs). Some (res = 0, load_definition t new_config)) (merge e (\<lambda>t. t) defn c False))"

end
