(* ===== verification/ConfigIsolation.thy ===== *)
theory ConfigIsolation
  imports ConfigDaemon
begin

text \<open>
  The transaction of a user is closed to the others: whatever another user asks of the daemon meanwhile,
  the definition keeps every node with its data, the transaction goes on, nothing is sent to other
  daemons or subscribers, and at most a file that \<^verbatim>\<open>save\<close> names is written.
\<close>

section \<open>What a request leaves alone\<close>

text \<open>Two states of a request that differ in what is answered only, and in the file a save has written.\<close>

definition unchanged :: "request \<Rightarrow> request \<Rightarrow> bool" where
  "unchanged r r' \<longleftrightarrow> cfg_of r' = cfg_of r \<and> cd_ntfs (rq_daemon r') = cd_ntfs (rq_daemon r) \<and> defn_of r' = defn_of r \<and>
     rq_user r' = rq_user r \<and> rq_out r' = rq_out r \<and> rq_ntfs r' = rq_ntfs r \<and>
     (\<exists>v. \<forall>n. n \<noteq> v \<longrightarrow> map_of (cd_files (rq_daemon r')) n = map_of (cd_files (rq_daemon r)) n)"

lemma unchanged_refl [simp]: "unchanged r r" by (simp add: unchanged_def)

lemma unchanged_answer [simp]:
  "unchanged r (error s r') \<longleftrightarrow> unchanged r r'" "unchanged r (say s r') \<longleftrightarrow> unchanged r r'"
  "unchanged r (denied r') \<longleftrightarrow> unchanged r r'" "unchanged r (no_template_block n r') \<longleftrightarrow> unchanged r r'"
  "unchanged r (r'\<lparr>rq_lc := k, rq_text := t\<rparr>) \<longleftrightarrow> unchanged r r'" "unchanged r (r'\<lparr>rq_acmode := m\<rparr>) \<longleftrightarrow> unchanged r r'"
  by (simp_all add: unchanged_def error_def say_def denied_def no_template_block_def)

lemma map_of_others: "n \<noteq> v \<Longrightarrow> map_of (filter (\<lambda>f. fst f \<noteq> v) fs) n = map_of fs n"
  by (induction fs) auto

lemma write_file_unchanged: "unchanged r (write_file v t r)"
  by (auto simp: unchanged_def write_file_def map_of_others intro!: exI [of _ v])

lemma clear_value_unchanged:
  assumes "parent_ref a = Some b" and "node_of b r' = Some par" and "c_node_type (dat par) = CONFIG_NT_CMD" and "cmd_free (defn_of r')"
  shows "unchanged r (clear_value a r'') \<longleftrightarrow> unchanged r r''"
proof -
  have "b \<noteq> Def_node p" for p
  proof
    assume "b = Def_node p"
    then have "get_at (defn_of r') p = Some par" using assms(2) by (simp add: node_of_def node_at_def)
    then show False using cmd_free_at [OF assms(4)] cmd_free_type assms(3) by blast
  qed
  then have "(\<exists>p. a = Cmd_node p) \<or> (\<exists>k p. a = Tmp_node k p)" using assms(1) by (cases a) (auto split: if_splits)
  then show ?thesis by (auto simp: clear_value_def unchanged_def)
qed

lemma delete_unchanged:
  assumes "pretends (rq_user r) (cfg_of r)" and "delete_command E as r = Some r'"
  shows "unchanged r r'"
  using assms by (auto simp: delete_command_def delete_parent_def delete_several_def bind_eq_Some_conv
      split: list.splits if_splits option.splits)

lemma save_unchanged:
  assumes "save_command E a n r = Some r'" and "parent_ref a = Some b" and "node_of b r = Some par"
    and "c_node_type (dat par) = CONFIG_NT_CMD" and "cmd_free (defn_of r)"
  shows "unchanged r r'"
proof -
  have "unchanged r (write_file v t (say s r))" for v t s
    using write_file_unchanged [of "say s r" v t] by (simp add: unchanged_def say_def)
  then show ?thesis using assms(1)
    by (auto simp: save_command_def Let_def bind_eq_Some_conv clear_value_unchanged [OF assms(2-5)] split: if_splits)
qed

lemma plain_unchanged:
  assumes "pretends (rq_user r) (cfg_of r)" and "plain_command E c r = Some r'"
  shows "unchanged r r'"
  using assms by (auto simp: plain_command_def at_wnode_def bind_eq_Some_conv split: if_splits)

lemma run_mode_unchanged:
  assumes p: "pretends (rq_user r) (cfg_of r)" and f: "cmd_free (defn_of r)" and run: "run_mode E r = Some r'"
  shows "unchanged r r'"
proof -
  have c: "unchanged r r'" if "run_command E a r = Some r'" for a
    using that p f
    by (auto simp: run_command_def bind_eq_Some_conv commit_command_def rollback_command_def load_command_def Let_def
        split: if_splits option.splits intro: plain_unchanged save_unchanged)
  show ?thesis
    using run p by (auto simp: run_mode_def edit_command_def bind_eq_Some_conv
        split: list.splits ConfigModeType.splits option.splits if_splits node_ref.splits intro: delete_unchanged c)
qed

lemma replicated_unchanged:
  assumes p: "pretends (rq_user r) (cfg_of r)" and run: "run_replicated_mode E r = Some r'"
  shows "unchanged r r'"
  using run p by (auto simp: run_replicated_mode_def run_replicated_def delete_replicated_def bind_eq_Some_conv
      split: list.splits ConfigModeType.splits option.splits if_splits)

text \<open>A line: completing it adds nodes from templates at most.\<close>

definition only_added :: "request \<Rightarrow> request \<Rightarrow> bool" where
  "only_added r r' \<longleftrightarrow> cfg_of r' = cfg_of r \<and> cd_ntfs (rq_daemon r') = cd_ntfs (rq_daemon r) \<and> extends (defn_of r') (defn_of r) \<and>
     rq_user r' = rq_user r \<and> rq_out r' = rq_out r \<and> rq_ntfs r' = rq_ntfs r \<and>
     (\<exists>v. \<forall>n. n \<noteq> v \<longrightarrow> map_of (cd_files (rq_daemon r')) n = map_of (cd_files (rq_daemon r)) n)"

lemma complete_adds:
  assumes "complete E m pretend r = Some r'" and "m = CONFIG_ACM_TAB \<or> pretend" and "cmd_free (defn_of r)"
  shows "only_added r r' \<and> cmd_free (defn_of r') \<and> rq_daemon r' = rq_daemon r"
proof -
  obtain A w ac where "auto_complete A m pretend w (tokenize (e_split (de_cfg E)) (rq_line r) 50 True) (rq_ac r) = Some ac"
    "r' = r\<lparr>rq_ac := ac\<rparr>" using assms(1) by (auto simp: complete_def bind_eq_Some_conv)
  then show ?thesis using line_grows [OF _ assms(2,3)] grown_star_extends grown_star_cmd_free [OF _ assms(3)]
    by (fastforce simp: only_added_def)
qed

lemma only_added_trans: "only_added r r' \<Longrightarrow> unchanged r' r'' \<Longrightarrow> rq_daemon r' = rq_daemon r \<Longrightarrow> only_added r r''"
  by (auto simp: only_added_def unchanged_def)

lemma enter_line_adds:
  assumes "enter_line E r = Some r'" and p: "pretends (rq_user r) (cfg_of r)" and "cmd_free (defn_of r)"
  shows "only_added r r'"
proof -
  obtain r1 where c: "complete E CONFIG_ACM_ENTER True r = Some r1" and r: "run_mode E (take_line (intrusive r1)) = Some r'"
    using assms by (auto simp: enter_line_def Let_def bind_eq_Some_conv)
  note a = complete_adds [OF c _ assms(3)]
  let ?r2 = "take_line (intrusive r1)"
  have e: "rq_daemon ?r2 = rq_daemon r1" "defn_of ?r2 = defn_of r1" "rq_user ?r2 = rq_user r1" "rq_out ?r2 = rq_out r1"
    "rq_ntfs ?r2 = rq_ntfs r1" by (auto simp: take_line_def intrusive_def denied_def error_def)
  have "pretends (rq_user ?r2) (cfg_of ?r2)" "cmd_free (defn_of ?r2)" using e p a by (simp_all add: only_added_def)
  from run_mode_unchanged [OF this r] have "unchanged r1 r'" unfolding unchanged_def e .
  then show ?thesis using only_added_trans a by blast
qed

lemma replicated_line_adds:
  assumes "replicated_line E r = Some r'" and p: "pretends (rq_user r) (cfg_of r)" and "cmd_free (defn_of r)"
  shows "only_added r r'"
proof -
  obtain r1 where c: "complete E CONFIG_ACM_ENTER True r = Some r1" and r: "run_replicated_mode E r1 = Some r'"
    using assms by (auto simp: replicated_line_def bind_eq_Some_conv)
  note a = complete_adds [OF c _ assms(3)]
  then have "pretends (rq_user r1) (cfg_of r1)" using p by (simp add: only_added_def)
  from replicated_unchanged [OF this r] show ?thesis using only_added_trans a by blast
qed

section \<open>The whole exchange\<close>

text \<open>The packets after the first, until the stream ends; \<open>fuel\<close> bounds their number.\<close>

fun rest_of_stream :: "nat \<Rightarrow> request \<Rightarrow> (cfg_body list \<times> request) option" where
  "rest_of_stream 0 r = None"
| "rest_of_stream (Suc k) r = Option.bind (stream_next r) (\<lambda>(s, b, r).
     if s = Continue then map_option (\<lambda>(bs, r). (the b # bs, r)) (rest_of_stream k r) else Some ([], r))"

lemma next_keeps:
  "stream_next r = Some (s, b, r') \<Longrightarrow> daemon_of r' = daemon_of r \<and> rq_ntfs r' = rq_ntfs r \<and> rq_out r' = rq_out r \<and> rq_daemon r' = rq_daemon r"
  by (auto simp: stream_next_def next_get_def next_tab_def next_enter_def Let_def bind_eq_Some_conv daemon_of_def
      free_results_def drop_results_def split: if_splits ConfigACMode.splits option.splits)

lemma rest_keeps:
  "rest_of_stream k r = Some (bs, r') \<Longrightarrow> daemon_of r' = daemon_of r \<and> rq_ntfs r' = rq_ntfs r \<and> rq_out r' = rq_out r \<and> rq_daemon r' = rq_daemon r"
proof (induction k arbitrary: r bs)
  case (Suc k)
  then show ?case by (fastforce simp: bind_eq_Some_conv split: if_splits dest!: next_keeps)
qed simp

text \<open>Other users are those with another id.\<close>

lemma erase_sized:
  "list_all (\<lambda>e. length (user_id (fst e)) = 46) m \<Longrightarrow> list_all (\<lambda>e. length (user_id (fst e)) = 46) (om_erase user_id_compare u m)"
  by (induction m) auto

lemma erase_other: "k \<noteq> w \<Longrightarrow> map_of (om_erase id_less k m) w = map_of m w"
  by (induction m) (auto dest: id_order.neither simp del: id_less.simps)

lemma other_user_kept:
  assumes "well_sized c" and "length (user_id u) = 46" and "length (user_id w) = 46" and "user_id w \<noteq> user_id u"
  shows "get_definition_wn w (set_definition_wn u i c) = get_definition_wn w c"
    and "get_definition_wn w (update_definition_wn now u c) = get_definition_wn w c"
    and "get_definition_wn w (remove_wn_user u c) = get_definition_wn w c"
proof -
  show "get_definition_wn w (set_definition_wn u i c) = get_definition_wn w c" for i
    using assms by (simp add: get_definition_wn_def set_definition_wn_def well_sized_def by_id_ops insert_sized
      id_order.find_map_of id_order.map_of_insert)
  then show "get_definition_wn w (update_definition_wn now u c) = get_definition_wn w c"
    by (auto simp: update_definition_wn_def set_definition_wn_def [symmetric] split: option.split)
  show "get_definition_wn w (remove_wn_user u c) = get_definition_wn w c"
    using assms by (simp add: get_definition_wn_def remove_wn_user_def well_sized_def by_id_ops erase_sized
      id_order.find_map_of erase_other)
qed

text \<open>What holds of the daemon while the owner of the transaction keeps it open.\<close>

definition guarded :: "user_id \<Rightarrow> cfg_daemon \<Rightarrow> cfg_daemon \<Rightarrow> bool" where
  "guarded u cd cd' \<longleftrightarrow>
     (\<exists>D D'. cf_definition (cd_config cd) = Some D \<and> cf_definition (cd_config cd') = Some D' \<and> extends D' D) \<and>
     cf_transaction (cd_config cd') \<and> cf_owner (cd_config cd') = cf_owner (cd_config cd) \<and>
     (\<forall>w. length (user_id w) = 46 \<and> user_id w \<noteq> user_id u \<longrightarrow>
        get_definition_wn w (cd_config cd') = get_definition_wn w (cd_config cd)) \<and>
     (\<exists>v. \<forall>n. n \<noteq> v \<longrightarrow> map_of (cd_files cd') n = map_of (cd_files cd) n)"

lemma guarded_ntfs [simp]: "guarded u cd (cd'\<lparr>cd_ntfs := h\<rparr>) = guarded u cd cd'"
  by (simp add: guarded_def)

lemma guardedI:
  assumes "cf_definition (cd_config cd) = Some D" and "extends (defn_of r) D"
    and "cf_transaction (cfg_of r)" and "cf_owner (cfg_of r) = cf_owner (cd_config cd)"
    and "\<And>w. length (user_id w) = 46 \<Longrightarrow> user_id w \<noteq> user_id u \<Longrightarrow> get_definition_wn w (cfg_of r) = get_definition_wn w (cd_config cd)"
    and "\<exists>v. \<forall>n. n \<noteq> v \<longrightarrow> map_of (cd_files (rq_daemon r)) n = map_of (cd_files cd) n"
  shows "guarded u cd (daemon_of r)"
  using assms by (simp add: guarded_def daemon_of_def get_definition_wn_def Let_def)

lemma open_request_Some:
  "open_request u cd = Some r \<Longrightarrow> \<exists>D. cf_definition (cd_config cd) = Some D \<and> rq_daemon r = cd \<and> rq_user r = u \<and> defn_of r = D \<and>
     rq_out r = [] \<and> rq_ntfs r = []"
  by (auto simp: open_request_def ac_start_def)

lemma padded_length [simp]: "length (padded n v) = n"
  by (simp add: padded_def)

lemma uid_sized: "get_cfg_uid msg = Some (Some u) \<Longrightarrow> length (user_id u) = 46"
  by (auto simp: get_cfg_uid_def split: cfg_msg.splits option.splits)

text \<open>A request as it starts: the user is known, the rest is the daemon's.\<close>

definition fresh_for :: "user_id \<Rightarrow> cfg_daemon \<Rightarrow> request \<Rightarrow> bool" where
  "fresh_for u cd r \<longleftrightarrow> rq_user r = u \<and> rq_out r = [] \<and> rq_ntfs r = [] \<and> cf_definition (cd_config cd) = Some (defn_of r) \<and>
     cf_transaction (cfg_of r) = cf_transaction (cd_config cd) \<and> cf_owner (cfg_of r) = cf_owner (cd_config cd) \<and>
     cd_files (rq_daemon r) = cd_files cd \<and>
     (\<forall>w. length (user_id w) = 46 \<and> user_id w \<noteq> user_id u \<longrightarrow>
        get_definition_wn w (cfg_of r) = get_definition_wn w (cd_config cd))"

lemma fresh_pretends: "fresh_for u cd r \<Longrightarrow> pretends (rq_user r) (cfg_of r) \<longleftrightarrow> pretends u (cd_config cd)"
  by (simp add: fresh_for_def pretends_def transaction_started_def get_transaction_owner_def)

definition harmless :: "user_id \<Rightarrow> cfg_daemon \<Rightarrow> request \<Rightarrow> bool" where
  "harmless u cd r \<longleftrightarrow> guarded u cd (daemon_of r) \<and> rq_user r = u \<and> rq_out r = [] \<and> rq_ntfs r = []"

lemma fresh_guarded: "fresh_for u cd r \<Longrightarrow> only_added r r' \<Longrightarrow> pretends u (cd_config cd) \<Longrightarrow>
    harmless u cd r'"
  by (auto simp: harmless_def fresh_for_def only_added_def pretends_def transaction_started_def intro!: guardedI [of cd "defn_of r"])

lemma fresh_updates [simp]:
  "fresh_for u cd (r\<lparr>rq_line := l\<rparr>) = fresh_for u cd r" "fresh_for u cd (r\<lparr>rq_path := l\<rparr>) = fresh_for u cd r"
  "fresh_for u cd (r\<lparr>rq_ac := (rq_ac r)\<lparr>ac_result := as\<rparr>\<rparr>) = fresh_for u cd r"
  "fresh_for u cd (r\<lparr>rq_err := i\<rparr>) = fresh_for u cd r" "fresh_for u cd (r\<lparr>rq_acmode := m\<rparr>) = fresh_for u cd r"
  by (simp_all add: fresh_for_def)

lemma fresh_opened:
  assumes "open_request u cd = Some r" and "well_sized (cd_config cd)" and "length (user_id u) = 46"
  shows "fresh_for u cd r" "fresh_for u cd (with_action a r)" "fresh_for u cd (on_config (update_definition_wn now u) (with_action a r))"
    "fresh_for u cd (on_config (set_definition_wn u i) (with_action a r))"
proof -
  have "cf_transaction (update_definition_wn now u c) = cf_transaction c" "cf_owner (update_definition_wn now u c) = cf_owner c" for c
    by (auto simp: update_definition_wn_def split: option.split)
  then show "fresh_for u cd r" "fresh_for u cd (with_action a r)" "fresh_for u cd (on_config (update_definition_wn now u) (with_action a r))"
    "fresh_for u cd (on_config (set_definition_wn u i) (with_action a r))"
    using open_request_Some [OF assms(1)] other_user_kept [OF assms(2,3)]
    by (auto simp: fresh_for_def with_action_def on_config_def) (simp add: set_definition_wn_def)+
qed

section \<open>The exchange is guarded\<close>

lemma enter_guarded:
  assumes "process_enter E msg own r = Some (s, b, r')" and "fresh_for u cd r" and "pretends u (cd_config cd)" and "cmd_free (defn_of r)"
  shows "harmless u cd r'"
proof -
  from assms(1) obtain p l r1 where e: "enter_line E (r\<lparr>rq_path := p, rq_line := l\<rparr>) = Some r1" and r': "r' = snd (snd (enter_answer r1))"
    by (auto simp: process_enter_def bind_eq_Some_conv)
  have f: "fresh_for u cd (r\<lparr>rq_path := p, rq_line := l\<rparr>)" using assms(2) by (simp add: fresh_for_def)
  from enter_line_adds [OF e] fresh_pretends [OF f] assms(3,4) have "only_added (r\<lparr>rq_path := p, rq_line := l\<rparr>) r1" by simp
  from fresh_guarded [OF f this assms(3)] show ?thesis by (simp add: harmless_def r' enter_answer_def daemon_of_def)
qed

lemma tab_guarded:
  assumes "process_tab E msg own r = Some (s, b, r')" and "fresh_for u cd r" and "pretends u (cd_config cd)" and "cmd_free (defn_of r)"
  shows "harmless u cd r'"
proof -
  from assms(1) obtain l r1 where e: "complete E CONFIG_ACM_TAB False (r\<lparr>rq_line := l\<rparr>) = Some r1" and r': "r' = (take_line r1)\<lparr>rq_err := - 1\<rparr>"
    by (auto simp: process_tab_def bind_eq_Some_conv Let_def)
  have f: "fresh_for u cd (r\<lparr>rq_line := l\<rparr>)" using assms(2) by simp
  from complete_adds [OF e] assms(4) have "only_added (r\<lparr>rq_line := l\<rparr>) r1" by simp
  from fresh_guarded [OF f this assms(3)] show ?thesis by (simp add: harmless_def r' take_line_def daemon_of_def)
qed

lemma replicate_guarded:
  assumes "process_replicate E msg r = Some (s, b, r')" and "fresh_for u cd r" and "pretends u (cd_config cd)" and "cmd_free (defn_of r)"
  shows "harmless u cd r'"
proof -
  from assms(1) obtain l r1 where l: "r1 = r\<lparr>rq_err := - 1, rq_line := l\<rparr>"
    and c: "r' = r1 \<or> (\<exists>r2. replicated_line E r1 = Some r2 \<and> r' = drop_results r2)"
    by (auto simp: process_replicate_def bind_eq_Some_conv Let_def split: if_splits)
  have f: "fresh_for u cd r1" using assms(2) by (simp add: l)
  have "cmd_free (defn_of r1)" using assms(4) by (simp add: l)
  with c obtain r2 where "only_added r1 r2" "r' = r2 \<or> r' = drop_results r2"
    using replicated_line_adds fresh_pretends [OF f] assms(3) by (metis extends_refl only_added_def)
  from this(2) fresh_guarded [OF f this(1) assms(3)] show ?thesis by (auto simp: harmless_def drop_results_def daemon_of_def)
qed

lemma subscribe_fresh: "fresh_for u cd (subscribe path v r) = fresh_for u cd r" "defn_of (subscribe path v r) = defn_of r"
  by (auto simp: subscribe_def ntf_address_def fresh_for_def Let_def add_notification_def get_definition_wn_def split: option.split)

lemma process_get_cases:
  assumes "process_get E msg v r = Some (s, b, r')"
  obtains l where "r' = r\<lparr>rq_line := l, rq_err := - 1\<rparr>"
  | l as where "r' = r\<lparr>rq_line := l, rq_err := - 1, rq_ac := (rq_ac r)\<lparr>ac_result := as\<rparr>\<rparr>"
  | l as r1 where "r1 = subscribe l v (r\<lparr>rq_line := l, rq_err := - 1\<rparr>)" "r' = r1\<lparr>rq_ac := (rq_ac r1)\<lparr>ac_result := as\<rparr>\<rparr>"
proof -
  from assms obtain vs where vs: "request_values ca_cfg_get msg = Some vs" by (auto simp: process_get_def bind_eq_Some_conv)
  let ?l = "joined_values pt_cfg_item_path vs"
  let ?r = "r\<lparr>rq_line := ?l, rq_err := - 1\<rparr>"
  from assms vs consider "r' = ?r" | as where "r' = ?r\<lparr>rq_ac := (rq_ac ?r)\<lparr>ac_result := as\<rparr>\<rparr>"
    | as where "r' = (subscribe ?l v ?r)\<lparr>rq_ac := (rq_ac (subscribe ?l v ?r))\<lparr>ac_result := as\<rparr>\<rparr>"
    by (auto simp: process_get_def Let_def split: if_splits option.splits)
  then show ?thesis by cases (use that in auto)
qed

lemma get_guarded:
  assumes "process_get E msg v r = Some (s, b, r')" and "fresh_for u cd r" and "pretends u (cd_config cd)"
  shows "harmless u cd r'"
proof -
  from assms(1) have "fresh_for u cd r'"
    proof (cases rule: process_get_cases)
    case (2 l as)
    have "fresh_for u cd (r\<lparr>rq_line := l, rq_err := - 1\<rparr>)" using assms(2) by simp
    then show ?thesis unfolding 2 by (simp add: fresh_for_def)
  qed (use assms(2) in \<open>simp_all add: subscribe_fresh\<close>)
  moreover have "only_added r' r'" by (simp add: only_added_def)
  ultimately show ?thesis using fresh_guarded [OF _ _ assms(3)] by blast
qed

lemma logout_guarded:
  assumes "process_user_logout r = Some (s, b, r')" and f: "fresh_for u cd r" and p: "pretends u (cd_config cd)"
    and "well_sized (cfg_of r)" and "length (user_id u) = 46"
  shows "harmless u cd r'"
proof -
  have r': "r' = on_config (remove_wn_user u) r" using assms(1) fresh_pretends [OF f] p f
    by (auto simp: process_user_logout_def fresh_for_def)
  have "fresh_for u cd r'" "defn_of r' = defn_of r"
    using f other_user_kept(3) [OF assms(4,5)] by (auto simp: r' fresh_for_def on_config_def) (simp_all add: remove_wn_user_def)
  moreover have "only_added r' r'" by (simp add: only_added_def)
  ultimately show ?thesis using fresh_guarded [OF _ _ p] by blast
qed

text \<open>
  C9. Nobody gets into the transaction of another user: whatever a user asks for while another one has a
  transaction open, after the exchange the definition still has every node with its data and its place,
  the transaction and its owner and all other users' working nodes are as before, no line goes to another
  daemon and no notification to a subscriber, and at most one file has been written.
\<close>

theorem other_users_kept_out:
  assumes "stream_new E now msg own sender cd = Some (s, b, r)" and "get_cfg_uid msg = Some (Some u)"
    and "transaction_started (cd_config cd)" and "user_id_neq (get_transaction_owner (cd_config cd)) u"
    and "cf_definition (cd_config cd) = Some D" and "cmd_free D" and "well_sized (cd_config cd)"
    and "rest_of_stream k r = Some (bs, r')" and "stream_done active r' = (sent, cd')"
  shows "rq_out r' = [] \<and> sent = [] \<and> guarded u cd cd'"
proof -
  have p: "pretends u (cd_config cd)" using assms(3,4) by (simp add: pretends_def)
  have l: "length (user_id u) = 46" using uid_sized [OF assms(2)] .
  have "harmless u cd r"
  proof -
    from assms(1,2) obtain r0 where o: "open_request u cd = Some r0" by (auto simp: stream_new_def bind_eq_Some_conv)
    note f = fresh_opened [OF o assms(7) l]
    have d: "cmd_free (defn_of r0)" using open_request_Some [OF o] assms(5,6) by auto
    have i: "only_added x x" for x by (simp add: only_added_def)
    let ?k = "\<lambda>a. on_config (update_definition_wn now u) (with_action a r0)"
    have dk: "cmd_free (defn_of (?k a))" "cmd_free (defn_of (?k a\<lparr>rq_acmode := m\<rparr>))" for a m using d by (simp_all add: on_config_def with_action_def)
    have fm: "fresh_for u cd (?k a\<lparr>rq_acmode := m\<rparr>)" for a m using f(3) by simp
    have w: "well_sized (cfg_of (with_action a r0))" for a using open_request_Some [OF o] assms(7) by (auto simp: with_action_def)
    from assms(1,2) o fresh_guarded [OF f(1) i p] show ?thesis
      unfolding stream_new_def Let_def
      by (auto split: cfg_msg.splits list.splits if_splits
        intro: logout_guarded [OF _ f(2) p w l] tab_guarded [OF _ fm p dk(2)] enter_guarded [OF _ fm p dk(2)]
          get_guarded [OF _ f(3) p] replicate_guarded [OF _ f(3) p dk(1)]
          fresh_guarded [OF f(4) i p])
  qed
  then show ?thesis using rest_keeps [OF assms(8)] assms(9) by (auto simp: harmless_def stream_done_def)
qed

text \<open>Two users of a small configuration: the first has a transaction open, the second enters a line.\<close>

definition user_no :: "u8 \<Rightarrow> user_id" where "user_no b = new_user_id\<lparr>user_id := padded 46 [b]\<rparr>"

fun blank_split :: "string \<Rightarrow> string \<Rightarrow> string list" where
  "blank_split w [] = [w]"
| "blank_split w (c # s) = (if c = CHR '' '' then w # blank_split [] s else blank_split (w @ [c]) s)"

definition demo_cfg :: cfg_env where
  "demo_cfg = \<lparr>e_patterns = [], e_regex = (\<lambda>_ _. None), e_split = (\<lambda>s. Some (blank_split [] s)),
     e_atoi = (\<lambda>_. 0), e_sort = (\<lambda>_ cs. cs)\<rparr>"

definition demo_de :: daemon_env where
  "demo_de = \<lparr>de_cfg = demo_cfg, de_fsys = (\<lambda>t. (t, [])), de_listed = (\<lambda>_. []), de_parse = (\<lambda>_. None), de_opens = (\<lambda>_. True),
     de_file = ''contents'', de_others = [''other''], de_router = True\<rparr>"

definition demo_daemon :: cfg_daemon where
  "demo_daemon = \<lparr>cd_config = start_transaction (user_no 1) (load_definition demo_root new_config), cd_cmd = cmd_tree,
     cd_ntfs = (\<lambda>_. new_notification), cd_next = 0, cd_files = []\<rparr>"

text \<open>A request of the first user, who has changed the value of the item.\<close>

definition demo_request :: request where
  "demo_request = \<lparr>rq_daemon = demo_daemon, rq_user = user_no 1, rq_action = None, rq_acmode = CONFIG_ACM_ENTER,
     rq_ac = ac_start cmd_tree (map_at (with_value ''5'') [1, 0] demo_root), rq_line = ''commit'', rq_path = [], rq_text = [], rq_lc = 0,
     rq_index = 0, rq_err = 0, rq_ntfs = [], rq_out = []\<rparr>"

definition demo_own :: "string \<Rightarrow> cfg_param list option" where
  "demo_own l = Some [cfg_par pt_mink_config_ac_line (octs l)]"

definition demo_msg :: "u8 \<Rightarrow> u8 \<Rightarrow> cfg_msg" where
  "demo_msg a b = Config_body \<lparr>cb_action = [a], cb_params = Some [cfg_par pt_mink_auth_id [b]]\<rparr>"

definition demo_sender :: ntf_user where "demo_sender = \<lparr>nu_id = new_user_id, nu_client = 0\<rparr>"

theorem other_users_kept_out_witness:
  "\<exists>s b r r'. stream_new demo_de 7 (demo_msg ca_cfg_set 2) (demo_own ''set first port 5'') demo_sender demo_daemon = Some (s, b, r) \<and>
     rest_of_stream 5 r = Some ([result_body [(pt_cfg_cfg_error,
       octs ''Transaction started by other user, cannot execute intrusive operation!'')]], r') \<and>
     guarded (user_no 2) demo_daemon (snd (stream_done (\<lambda>_. True) r'))"
proof -
  let ?x = "stream_new demo_de 7 (demo_msg ca_cfg_set 2) (demo_own ''set first port 5'') demo_sender demo_daemon"
  have "Option.bind ?x (\<lambda>(s, b, r). map_option fst (rest_of_stream 5 r)) = Some [result_body [(pt_cfg_cfg_error,
       octs ''Transaction started by other user, cannot execute intrusive operation!'')]]" by code_simp
  then obtain s b r r' where x: "?x = Some (s, b, r)" and r: "rest_of_stream 5 r = Some ([result_body [(pt_cfg_cfg_error,
       octs ''Transaction started by other user, cannot execute intrusive operation!'')]], r')"
    by (auto simp only: bind_eq_Some_conv map_option_eq_Some prod.case split_paired_Ex fst_conv)
  have u: "get_cfg_uid (demo_msg ca_cfg_set 2) = Some (Some (user_no 2))" by code_simp
  have "transaction_started (cd_config demo_daemon)" "user_id_neq (get_transaction_owner (cd_config demo_daemon)) (user_no 2)"
    "cmd_free demo_root" "well_sized (cd_config demo_daemon)" by code_simp+
  moreover have "cf_definition (cd_config demo_daemon) = Some demo_root"
    by (simp add: demo_daemon_def start_transaction_def load_definition_def)
  ultimately show ?thesis
    using other_users_kept_out [OF x u _ _ _ _ _ r, of demo_root "\<lambda>_. True" "fst (stream_done (\<lambda>_. True) r')" "snd (stream_done (\<lambda>_. True) r')"] x r
    by auto
qed

end
