(* ===== verification/ConfigAnswer.thy ===== *)
theory ConfigAnswer
  imports ConfigIsolation
begin

text \<open>
  The answers of the daemon, packet by packet: a line is answered with the text and the errors, a
  completion with its results, and a part of the configuration with all its nodes.
\<close>

section \<open>The text of an answer\<close>

function (sequential) text_lines :: "string \<Rightarrow> string list" where
  "text_lines s = (case get_line s of None \<Rightarrow> [] | Some (l, rest) \<Rightarrow> l # text_lines rest)"
  by pat_completeness auto
termination
proof (relation "measure length")
  fix s x l rest :: string and x2 :: "string \<times> string"
  assume "get_line s = Some x2" "(l, rest) = x2"
  then have "s \<noteq> []" "rest = drop 1 (dropWhile (\<lambda>c. c \<noteq> CHR 0x0A) s)" by (auto simp: get_line_def split: if_splits)
  then show "(rest, s) \<in> measure length" using length_dropWhile_le [of "\<lambda>c. c \<noteq> CHR 0x0A" s] by (cases s) auto
qed simp

declare text_lines.simps [simp del]

definition line_packet :: "string \<Rightarrow> cfg_body" where "line_packet l = result_body [(pt_cfg_cfg_line, octs l)]"

definition error_packet :: "string \<Rightarrow> cfg_body" where "error_packet e = result_body [(pt_cfg_cfg_error, octs e)]"

text \<open>The errors go out from the last one down.\<close>

lemma errors_sent:
  assumes "rq_action r \<noteq> Some ca_cfg_get" and "rq_acmode r = CONFIG_ACM_ENTER" and "rq_text r = []" and "rq_err r = int k - 1"
    and "k \<le> length (ac_errors (rq_ac r))"
  shows "\<exists>r'. rest_of_stream (Suc k) r = Some (map error_packet (rev (take k (ac_errors (rq_ac r)))), r')"
  using assms
proof (induction k arbitrary: r)
  case 0
  then show ?case by (simp add: stream_next_def next_enter_def get_line_def)
next
  case (Suc k)
  let ?r = "r\<lparr>rq_err := rq_err r - 1\<rparr>"
  have "stream_next r = Some (Continue, Some (error_packet (ac_errors (rq_ac r) ! k)), ?r)"
    using Suc.prems by (simp add: stream_next_def next_enter_def get_line_def error_packet_def)
  moreover from Suc.IH [of ?r] Suc.prems obtain r' where "rest_of_stream (Suc k) ?r = Some (map error_packet (rev (take k (ac_errors (rq_ac r)))), r')"
    by auto
  ultimately show ?case using Suc.prems by (simp add: take_Suc_conv_app_nth del: rest_of_stream.simps(2) add: rest_of_stream.simps(2) [of "Suc k"])
qed

lemma lines_sent:
  assumes "rq_action r \<noteq> Some ca_cfg_get" and "rq_acmode r = CONFIG_ACM_ENTER" and "rq_err r = int (length (ac_errors (rq_ac r))) - 1"
  shows "\<exists>r'. rest_of_stream (Suc (length (text_lines (rq_text r)) + length (ac_errors (rq_ac r)))) r
    = Some (map line_packet (text_lines (rq_text r)) @ map error_packet (rev (ac_errors (rq_ac r))), r')"
  using assms
proof (induction "rq_text r" arbitrary: r rule: text_lines.induct)
  case 1
  show ?case
  proof (cases "get_line (rq_text r)")
    case None
    then have "rq_text r = []" by (simp add: get_line_def split: if_splits)
    with errors_sent [of r "length (ac_errors (rq_ac r))"] 1(2-4) show ?thesis by (simp add: text_lines.simps [of "[]"] get_line_def)
  next
    case (Some x)
    obtain l rest where x: "x = (l, rest)" by (cases x)
    let ?r = "r\<lparr>rq_text := rest\<rparr>"
    have n: "stream_next r = Some (Continue, Some (line_packet l), ?r)"
      using 1(2,3) Some by (simp add: stream_next_def next_enter_def x line_packet_def)
    have t: "text_lines (rq_text r) = l # text_lines rest" using Some by (subst text_lines.simps) (simp add: x)
    from 1(1) [OF Some, of l ?r] x 1(2-4) obtain r' where
      "rest_of_stream (Suc (length (text_lines rest) + length (ac_errors (rq_ac r)))) ?r
        = Some (map line_packet (text_lines rest) @ map error_packet (rev (ac_errors (rq_ac r))), r')" by auto
    then show ?thesis using n by (simp add: t rest_of_stream.simps(2) [of "Suc _"] del: rest_of_stream.simps(2))
  qed
qed

text \<open>Nothing changes the action of a stream.\<close>

lemma action_kept [simp]:
  "rq_action (error t r) = rq_action r" "rq_action (say t r) = rq_action r" "rq_action (denied r) = rq_action r"
  "rq_action (no_template_block n r) = rq_action r" "rq_action (on_config f r) = rq_action r" "rq_action (all_to_root r) = rq_action r"
  "rq_action (replicate_all E r) = rq_action r" "rq_action (write_file t t' r) = rq_action r" "rq_action (write_current E r) = rq_action r"
  "rq_action (clear_value a r) = rq_action r" "rq_action (mark_deleted_at a r) = rq_action r" "rq_action (move_to p r) = rq_action r"
  by (simp_all add: error_def say_def denied_def no_template_block_def on_config_def all_to_root_def replicate_all_def write_file_def
      write_current_def clear_value_def mark_deleted_at_def move_to_def)

lemma action_after:
  "on_defn f r = Some r' \<Longrightarrow> rq_action r' = rq_action r" "prepare r = Some r' \<Longrightarrow> rq_action r' = rq_action r"
  "commit_tree r = Some r' \<Longrightarrow> rq_action r' = rq_action r" "sort_tree E r = Some r' \<Longrightarrow> rq_action r' = rq_action r"
  "replace_with E c r = Some (res, r') \<Longrightarrow> rq_action r' = rq_action r" "complete E m p r = Some r' \<Longrightarrow> rq_action r' = rq_action r"
  by (auto simp: on_defn_def prepare_def commit_tree_def sort_tree_def replace_with_def complete_def bind_eq_Some_conv split: if_splits)

lemma delete_action: "delete_command E as r = Some r' \<Longrightarrow> rq_action r' = rq_action r"
  by (auto simp: delete_command_def delete_parent_def delete_several_def bind_eq_Some_conv split: list.splits if_splits option.splits)

lemma plain_action: "plain_command E c r = Some r' \<Longrightarrow> rq_action r' = rq_action r"
  by (auto simp: plain_command_def at_wnode_def bind_eq_Some_conv dest!: action_after split: if_splits)

lemma commit_action: "commit_command E a n r = Some r' \<Longrightarrow> rq_action r' = rq_action r"
  by (auto simp: commit_command_def commit_changes_def Let_def bind_eq_Some_conv dest!: action_after split: if_splits)

lemma third_result: "x \<noteq> Invalid_contents \<Longrightarrow> x \<noteq> Merge_failed \<Longrightarrow> x = Merged"
  by (cases x) auto

lemma rollback_action: "rollback_command E a n r = Some r' \<Longrightarrow> rq_action r' = rq_action r"
  by (auto simp: rollback_command_def rollback_to_def Let_def bind_eq_Some_conv dest!: action_after
      split: if_splits option.splits load_result.splits dest: third_result)

lemma file_action:
  "save_command E a n r = Some r' \<Longrightarrow> rq_action r' = rq_action r" "load_command E a n r = Some r' \<Longrightarrow> rq_action r' = rq_action r"
  by (auto simp: save_command_def load_command_def Let_def bind_eq_Some_conv dest!: action_after
      split: if_splits option.splits load_result.splits dest: third_result)

lemma mode_action: "run_mode E r = Some r' \<Longrightarrow> rq_action r' = rq_action r"
  by (auto simp: run_mode_def run_command_def edit_command_def bind_eq_Some_conv split: list.splits ConfigModeType.splits option.splits if_splits node_ref.splits
      dest!: delete_action plain_action commit_action rollback_action file_action)

lemma enter_action: "enter_line E r = Some r' \<Longrightarrow> rq_action r' = rq_action r"
  by (auto simp: enter_line_def Let_def bind_eq_Some_conv take_line_def intrusive_def dest!: mode_action action_after(6))

text \<open>
  C23. A line is answered in full: the first packet says how many errors there are, then come all lines of the text and all
  errors, the last one first, and then the stream ends.
\<close>

theorem line_answered:
  assumes "process_enter E msg own r = Some (s, b, r')" and "rq_action r \<noteq> Some ca_cfg_get" and "rq_acmode r' = CONFIG_ACM_ENTER"
  shows "s = Continue \<and> (\<exists>l path cm lc r''. b = Some (result_body [(pt_mink_config_ac_line, l), (pt_mink_config_cli_path, path),
      (pt_mink_config_ac_err_count, count_octets (length (ac_errors (rq_ac r')))), (pt_mink_config_cfg_line_count, lc), (pt_cfg_item_cm_mode, cm)]) \<and>
    rest_of_stream (Suc (length (text_lines (rq_text r')) + length (ac_errors (rq_ac r')))) r'
      = Some (map line_packet (text_lines (rq_text r')) @ map error_packet (rev (ac_errors (rq_ac r'))), r''))"
proof -
  from assms(1) obtain p l r1 where e: "enter_line E (r\<lparr>rq_path := p, rq_line := l\<rparr>) = Some r1" and a: "(s, b, r') = enter_answer r1"
    by (auto simp: process_enter_def bind_eq_Some_conv)
  have "rq_action r' \<noteq> Some ca_cfg_get" "rq_err r' = int (length (ac_errors (rq_ac r'))) - 1"
    using enter_action [OF e] a assms(2) by (auto simp: enter_answer_def)
  then show ?thesis using lines_sent [of r'] assms(3) a by (auto simp: enter_answer_def simp del: rest_of_stream.simps)
qed

section \<open>A part of the configuration\<close>

lemma flatten_at_in:
  "q \<in> set (flatten_at p it) \<Longrightarrow> \<exists>k. q = p @ k \<and> get_at it k \<noteq> None"
  "q \<in> set (flatten_from p i cs) \<Longrightarrow> \<exists>j k. j < length cs \<and> q = p @ (i + j) # k \<and> get_at (cs ! j) k \<noteq> None"
proof (induction p it and p i cs rule: flatten_at_flatten_from.induct)
  case (1 p d cs)
  then show ?case by (fastforce split: if_splits intro: exI [of _ "[]"])
next
  case (3 p i c cs)
  then consider "q \<in> set (flatten_at (p @ [i]) c)" | "q \<in> set (flatten_from p (Suc i) cs)" by auto
  then show ?case
  proof cases
    case 1
    with 3(1) show ?thesis by (intro exI [of _ 0]) auto
  next
    case 2
    with 3(2) obtain j k where "j < length cs" "q = p @ (Suc i + j) # k" "get_at (cs ! j) k \<noteq> None" by blast
    then show ?thesis by (intro exI [of _ "Suc j"] exI [of _ k]) auto
  qed
qed simp

lemma rooted_lineage:
  "up = [] \<and> c_name (dat it) = ''ROOT'' \<or> rooted up \<Longrightarrow> rooted (lineage up it p)"
proof (induction up it p rule: lineage.induct)
  case (2 up d cs i p)
  have "rooted (d # up)" using 2(2) by (auto simp: rooted_def)
  then show ?case using 2(1) by simp
qed (auto simp: rooted_def)

definition part_packet :: "config_item \<Rightarrow> pos \<Rightarrow> cfg_body" where
  "part_packet root p = (let d = dat (the (get_at root p)) in result_body [(pt_cfg_item_path, octs (the (node_line (lineage [] root p)))),
     (pt_cfg_item_value, octs (c_value d)), (pt_cfg_item_nt, [nt_octet (c_node_type d)])])"

lemma parts_sent:
  assumes "rq_action r = Some ca_cfg_get" and "ac_result (rq_ac r) = map Def_node ps" and "\<forall>p \<in> set ps. get_at (defn_of r) p \<noteq> None"
    and "c_name (dat (defn_of r)) = ''ROOT''" and "rq_index r \<le> length ps"
  shows "\<exists>r'. rest_of_stream (Suc (length ps - rq_index r)) r = Some (map (part_packet (defn_of r)) (drop (rq_index r) ps), r')"
  using assms
proof (induction "length ps - rq_index r" arbitrary: r)
  case 0
  then show ?case by (simp add: stream_next_def next_get_def)
next
  case (Suc k)
  let ?i = "rq_index r" let ?p = "ps ! ?i" let ?r = "r\<lparr>rq_index := ?i + 1\<rparr>"
  have i: "?i < length ps" using Suc.hyps(2) by simp
  then obtain it where it: "get_at (defn_of r) ?p = Some it" using Suc.prems(3) by (meson nth_mem not_None_eq)
  obtain s where s: "node_line (lineage [] (defn_of r) ?p) = Some s"
    using rooted_line rooted_lineage [of "[]" "defn_of r" ?p] Suc.prems(4) by auto
  have n: "stream_next r = Some (Continue, Some (part_packet (defn_of r) ?p), ?r)"
    using Suc.prems(1,2) i it s by (simp add: stream_next_def next_get_def node_of_def node_at_def part_packet_def Let_def)
  have k: "k = length ps - rq_index ?r" using Suc.hyps(2) by simp
  obtain r' where "rest_of_stream (Suc k) ?r = Some (map (part_packet (defn_of r)) (drop (Suc ?i) ps), r')"
    using Suc.hyps(1) [OF k] Suc.prems i k by auto
  moreover have "Suc (length ps - ?i) = Suc (Suc k)" using Suc.hyps(2) by simp
  ultimately show ?case using n i by (simp add: Cons_nth_drop_Suc [symmetric] rest_of_stream.simps(2) [of "Suc _"] del: rest_of_stream.simps(2))
qed

text \<open>
  C24. A part of the configuration is sent whole: when the path of the request is found, the first packet says how many nodes
  the part has, then comes each of them, in the order of the tree, with its full path, its value and its type, and then the
  stream ends.
\<close>

theorem part_answered:
  assumes "process_get E msg v r = Some (Continue, b, r')" and "rq_action r = Some ca_cfg_get" and "rq_index r = 0"
    and "c_name (dat (defn_of r)) = ''ROOT''"
  shows "\<exists>p it r''. find_pos (e_split (de_cfg E)) (defn_of r) (rq_line r') = Some (Some p) \<and> get_at (defn_of r) p = Some it \<and>
    b = Some (result_body [(pt_cfg_item_count, count_octets (length (flatten_at p it)))]) \<and>
    rest_of_stream (Suc (length (flatten_at p it))) r' = Some (map (part_packet (defn_of r)) (flatten_at p it), r'')"
proof -
  from assms(1) obtain vs where vs: "request_values ca_cfg_get msg = Some vs" by (auto simp: process_get_def bind_eq_Some_conv)
  let ?l = "joined_values pt_cfg_item_path vs"
  define r1 where "r1 = (if wants_notify vs
    then subscribe ?l v (r\<lparr>rq_line := ?l, rq_err := - 1\<rparr>) else r\<lparr>rq_line := ?l, rq_err := - 1\<rparr>)"
  have "\<exists>p it. find_pos (e_split (de_cfg E)) (defn_of r) ?l = Some (Some p) \<and> get_at (defn_of r) p = Some it \<and>
      r' = r1\<lparr>rq_ac := (rq_ac r1)\<lparr>ac_result := map Def_node (flatten_at p it)\<rparr>\<rparr> \<and>
      b = Some (result_body [(pt_cfg_item_count, count_octets (length (flatten_at p it)))])"
    using assms(1) vs unfolding r1_def by (auto simp: process_get_def Let_def split: if_splits option.splits)
  then obtain p it where f: "find_pos (e_split (de_cfg E)) (defn_of r) ?l = Some (Some p)" and it: "get_at (defn_of r) p = Some it"
    and r': "r' = r1\<lparr>rq_ac := (rq_ac r1)\<lparr>ac_result := map Def_node (flatten_at p it)\<rparr>\<rparr>"
    and b: "b = Some (result_body [(pt_cfg_item_count, count_octets (length (flatten_at p it)))])" by blast
  have k: "rq_action (subscribe l v x) = rq_action x" "rq_index (subscribe l v x) = rq_index x" "rq_line (subscribe l v x) = rq_line x" for l x
    by (auto simp: subscribe_def ntf_address_def Let_def split: option.split)
  have r1': "rq_action r' = Some ca_cfg_get" "rq_index r' = 0" "defn_of r' = defn_of r" "rq_line r' = ?l"
    "ac_result (rq_ac r') = map Def_node (flatten_at p it)"
    using assms(2,3) by (auto simp: r' r1_def k subscribe_fresh)
  have "\<forall>q \<in> set (flatten_at p it). get_at (defn_of r') q \<noteq> None"
    using flatten_at_in(1) [of _ p it] it by (fastforce simp: r1' get_at_append)
  from parts_sent [OF r1'(1,5) this] r1' assms(4) obtain r'' where
    "rest_of_stream (Suc (length (flatten_at p it))) r' = Some (map (part_packet (defn_of r)) (flatten_at p it), r'')" by auto
  then show ?thesis using f it b r1'(4)
    by (intro exI [of _ p] exI [of _ it] exI [of _ r'']) (simp del: rest_of_stream.simps)
qed

section \<open>At work\<close>

definition demo_known :: request where
  "demo_known = on_config (update_definition_wn 7 (user_no 1)) demo_request"

text \<open>The listing of the changed configuration has three lines.\<close>

theorem line_answered_witness:
  "\<exists>s b r' r''. process_enter demo_de (demo_msg ca_cfg_set 1) (demo_own ''configuration'') demo_known = Some (s, b, r') \<and>
     rest_of_stream 4 r' = Some ([line_packet ''first {'', line_packet (CHR 0x09 # ''+port '' @ [CHR 0x22, CHR ''5'', CHR 0x22]), line_packet ''}''], r'')"
proof -
  let ?x = "process_enter demo_de (demo_msg ca_cfg_set 1) (demo_own ''configuration'') demo_known"
  let ?ls = "[''first {'', CHR 0x09 # ''+port '' @ [CHR 0x22, CHR ''5'', CHR 0x22], ''}'']"
  have "map_option (\<lambda>(s, b, r). (text_lines (rq_text r), ac_errors (rq_ac r), rq_acmode r)) ?x = Some (?ls, [], CONFIG_ACM_ENTER)" by code_simp
  then obtain s b r' where x: "?x = Some (s, b, r')" and r: "text_lines (rq_text r') = ?ls" "ac_errors (rq_ac r') = []" "rq_acmode r' = CONFIG_ACM_ENTER"
    by auto
  have "rq_action demo_known \<noteq> Some ca_cfg_get" by code_simp
  have four: "Suc (Suc (Suc (Suc 0))) = 4" by simp
  from line_answered [OF x \<open>rq_action demo_known \<noteq> Some ca_cfg_get\<close> r(3)] r obtain r'' where "rest_of_stream 4 r' = Some (map line_packet ?ls, r'')"
    using four by (auto simp del: rest_of_stream.simps)
  with x show ?thesis by (simp del: rest_of_stream.simps)
qed

theorem part_answered_witness:
  "\<exists>b r' r''. process_get demo_de (Config_body \<lparr>cb_action = [ca_cfg_get], cb_params = Some [cfg_par pt_cfg_item_path (octs ''first'')]\<rparr>) demo_sender
      (with_action ca_cfg_get demo_known) = Some (Continue, b, r') \<and>
     rest_of_stream 3 r' = Some (map (part_packet (defn_of demo_known)) [[1], [1, 0]], r'')"
proof -
  let ?m = "Config_body \<lparr>cb_action = [ca_cfg_get], cb_params = Some [cfg_par pt_cfg_item_path (octs ''first'')]\<rparr>"
  let ?r = "with_action ca_cfg_get demo_known"
  have "map_option fst (process_get demo_de ?m demo_sender ?r) = Some Continue" by code_simp
  then obtain b r' where g: "process_get demo_de ?m demo_sender ?r = Some (Continue, b, r')" by auto
  have c: "rq_action ?r = Some ca_cfg_get" "rq_index ?r = 0" "c_name (dat (defn_of ?r)) = ''ROOT''" "defn_of ?r = defn_of demo_known" by code_simp+
  have "map_option (\<lambda>x. rq_line (snd (snd x))) (process_get demo_de ?m demo_sender ?r) = Some ''first''" by code_simp
  then have l: "rq_line r' = ''first''" using g by simp
  have "find_pos (e_split (de_cfg demo_de)) (defn_of ?r) ''first'' = Some (Some [1])"
    "map_option (flatten_at [1]) (get_at (defn_of ?r) [1]) = Some [[1], [1, 0]]" by code_simp+
  then show ?thesis using part_answered [OF g c(1-3)] g by (auto simp: l c(4) eval_nat_numeral simp del: rest_of_stream.simps)
qed

end
