(* ===== verification/ConfigCommit.thy ===== *)
theory ConfigCommit
  imports ConfigIsolation
begin

text \<open>
  What a commit does to the daemon: the tree it leaves, the files it writes, the end of the transaction
  and the lines for the other daemons.
\<close>

section \<open>Conditions on all nodes\<close>

text \<open>A condition on the data of each node and on whether it holds below it; sorting does not touch it.\<close>

fun each :: "(cfg_data \<Rightarrow> bool \<Rightarrow> bool) \<Rightarrow> config_item list \<Rightarrow> bool" where
  "each R [] \<longleftrightarrow> True"
| "each R (Item d ch # cs) \<longleftrightarrow> R d (each R ch) \<and> each R cs"

lemma each_Cons [simp]: "each R (c # cs) \<longleftrightarrow> R (dat c) (each R (children c)) \<and> each R cs"
  by (cases c) simp

declare each.simps(2) [simp del]

lemma each_append [simp]: "each R (xs @ ys) \<longleftrightarrow> each R xs \<and> each R ys"
  by (induction xs) auto

lemma each_all: "each R cs \<longleftrightarrow> list_all (\<lambda>c. each R [c]) cs"
  by (induction cs) auto

lemma each_mset: "mset xs = mset ys \<Longrightarrow> each R xs = each R ys"
  using each_all [of R xs] each_all [of R ys] mset_eq_setD [of xs ys] by (simp only: list_all_iff)

lemma each_update:
  assumes "i < length cs" and "dat c = dat (cs ! i)" and "each R (children c) = each R (children (cs ! i))"
  shows "each R (cs[i := c]) = each R cs"
proof -
  have s: "cs = take i cs @ cs ! i # drop (Suc i) cs" using assms(1) by (simp add: id_take_nth_drop)
  have u: "cs[i := c] = take i cs @ c # drop (Suc i) cs" using assms(1) by (simp add: upd_conv_take_nth_drop)
  have "each R (cs[i := c]) = each R (take i cs @ cs ! i # drop (Suc i) cs)"
    unfolding u using assms(2,3) by (simp only: each_append each_Cons)
  then show ?thesis using s by simp
qed

lemma sort_loop_each:
  assumes ok: "sort_ok e" and run: "sort_loop e cs i = Some cs'"
  shows "each R cs' = each R cs"
proof -
  have "e = e \<longrightarrow> each R cs' = each R cs"
  proof (rule sort_loop.raw_induct [where P = "\<lambda>e' cs i cs'. e' = e \<longrightarrow> each R cs' = each R cs", OF _ run])
  fix f e' cs i y
  assume IH: "\<And>e' cs i y. f e' cs i = Some y \<Longrightarrow> e' = e \<longrightarrow> each R y = each R cs"
    and run: "(if i < length cs then
        (if c_node_type (dat (cs ! i)) \<noteq> CONFIG_NT_BLOCK \<or> c_template (dat (cs ! i)) then f e' cs (Suc i)
         else if c_sort_node (dat (cs ! i)) = None then
           Option.bind (f e' (children (cs ! i)) 0)
             (\<lambda>ch. f e' (cs[i := Item (dat (cs ! i)) ch]) (Suc i))
         else Option.bind (f e' (children (cs ! i)) 0)
             (\<lambda>ch. f e' ((sort_tail e' cs)[the (find_index ((=) (cs ! i)) (sort_tail e' cs)) := Item (dat (cs ! i)) ch]) (Suc i)))
      else Some cs) = Some y"
  show "e' = e \<longrightarrow> each R y = each R cs"
  proof (intro impI, cases "i < length cs")
    assume e: "e' = e"
    assume i: "i < length cs"
    let ?s = "sort_tail e cs" and ?j = "the (find_index ((=) (cs ! i)) (sort_tail e cs))"
    have ms: "mset ?s = mset cs"
      using ok unfolding sort_ok_def sort_tail_def by (metis append_take_drop_id mset_append)
    then have "cs ! i \<in> set ?s" using i by (metis nth_mem set_mset_mset)
    then have j: "?j < length ?s \<and> ?s ! ?j = cs ! i"
      by (cases "find_index ((=) (cs ! i)) ?s") (auto simp: find_index_None dest!: find_index_Some)
    have a: "each R (cs[i := Item (dat (cs ! i)) ch]) = each R cs" "each R (?s[?j := Item (dat (cs ! i)) ch]) = each R cs"
      if "f e (children (cs ! i)) 0 = Some ch" for ch
      using IH [OF that] i j each_mset [OF ms, of R] by (simp_all add: each_update)
    show "each R y = each R cs" using run i a IH unfolding e by (auto simp: bind_eq_Some_conv split: if_splits)
  qed (use run in simp)
  qed
  then show ?thesis by simp
qed

lemma sort_nodes_each: "sort_ok e \<Longrightarrow> sort_nodes e t = Some t' \<Longrightarrow> each R (children t') = each R (children t) \<and> dat t' = dat t"
  by (auto simp: sort_nodes_def sort_loop_each)

text \<open>Nothing is left to commit.\<close>

lemma nothing_modified:
  "commit_count cs = 0 \<longleftrightarrow> each (\<lambda>d below. c_template d \<or> c_node_state d = CONFIG_NS_READY \<and> below \<or> c_node_state d = CONFIG_NS_UNKNOWN) cs"
proof (induction cs rule: items_induct)
  case (Item d ch cs)
  then show ?case using other_state [of "c_node_state d"] by (cases "c_node_state d") auto
qed simp

text \<open>The count, which runs first, only takes the marks of new nodes away.\<close>

lemma count_empty [simp]: "commit_items True cs = [] \<longleftrightarrow> cs = []"
  by (induction cs rule: items_induct) auto

lemma commit_after_count:
  "commit_items False (commit_items True cs) = commit_items False cs" "commit_ends False (commit_items True cs) = commit_ends False cs"
  "leaf_items (commit_items True cs) = leaf_items cs"
  by (induction cs rule: items_induct) (simp_all add: committed_def)

section \<open>A commit\<close>

text \<open>The pieces of a commit change different parts of the request.\<close>

lemma request_parts [simp]:
  "cfg_of (on_config f r) = f (cfg_of r)" "rq_ac (on_config f r) = rq_ac r" "rq_user (on_config f r) = rq_user r"
  "rq_out (on_config f r) = rq_out r" "cd_files (rq_daemon (on_config f r)) = cd_files (rq_daemon r)"
  "rq_ntfs (on_config f r) = rq_ntfs r" "cd_ntfs (rq_daemon (on_config f r)) = cd_ntfs (rq_daemon r)" "rq_line (on_config f r) = rq_line r"
  "rq_daemon (replicate_all E r) = rq_daemon r" "rq_ac (replicate_all E r) = rq_ac r" "rq_ntfs (replicate_all E r) = rq_ntfs r"
  "cfg_of (write_file n t r) = cfg_of r" "rq_ac (write_file n t r) = rq_ac r" "rq_out (write_file n t r) = rq_out r"
  "rq_user (write_file n t r) = rq_user r" "cd_ntfs (rq_daemon (write_file n t r)) = cd_ntfs (rq_daemon r)" "rq_line (write_file n t r) = rq_line r"
  "rq_ntfs (write_file n t r) = rq_ntfs r"
  "cd_files (rq_daemon (write_file n t r)) = (n, t) # filter (\<lambda>f. fst f \<noteq> n) (cd_files (rq_daemon r))"
  by (simp_all add: on_config_def replicate_all_def write_file_def)

lemma cleared_parts [simp]:
  "rq_daemon (clear_value a r) = rq_daemon r" "rq_out (clear_value a r) = rq_out r" "rq_ntfs (clear_value a r) = rq_ntfs r"
  by (simp_all add: clear_value_def)

lemma cleared_defn: "\<forall>p. a \<noteq> Def_node p \<Longrightarrow> defn_of (clear_value a r) = defn_of r"
  by (cases a) (simp_all add: clear_value_def)

text \<open>The lines that are sent.\<close>

definition sent_to_all :: "daemon_env \<Rightarrow> request \<Rightarrow> replication list" where
  "sent_to_all E r = (if de_router E then map (\<lambda>d. Replicate (rq_line r) d (rq_user r)) (de_others E) else [])"

lemma replicated_out: "rq_out (replicate_all E r) = rq_out r @ sent_to_all E r"
  by (simp add: replicate_all_def sent_to_all_def)

lemma sorted_commit:
  assumes "sort_ok (de_cfg E)" and "commit_ends False (children (defn_of r))" and "leaf_items (children (defn_of r))"
  shows "\<exists>t. Option.bind (commit_tree r) (sort_tree E) = Some (r\<lparr>rq_ac := (rq_ac r)\<lparr>ac_defn := t\<rparr>\<rparr>) \<and> dat t = dat (defn_of r) \<and>
    all_data (children t) = all_data (commit_items False (children (defn_of r))) \<and> commit_count (children t) = 0"
proof -
  let ?cs = "commit_items False (children (defn_of r))"
  let ?t = "Item (dat (defn_of r)) ?cs"
  have c: "commit False (defn_of r) = Some (commit_count (children (defn_of r)), ?t)"
    using assms(2) by (simp add: commit_def commit_loop_result)
  obtain t where t: "sort_nodes (de_cfg E) ?t = Some t" "dat t = dat ?t" "all_data (children t) = all_data (children ?t)"
    using sort_nodes_keeps [OF assms(1), of ?t] by auto
  have "commit_count ?cs = 0" using commit_items_clean [OF assms(2,3)] by simp
  then have "commit_count (children t) = 0" unfolding nothing_modified using sort_nodes_each [OF assms(1) t(1)] by simp
  then show ?thesis using c t by (intro exI [of _ t]) (simp add: commit_tree_def sort_tree_def on_defn_def)
qed

lemma prepare_noted:
  assumes "c_name (dat (defn_of r)) = ''ROOT''"
  shows "\<exists>h l. prepare r = Some (r\<lparr>rq_daemon := (rq_daemon r)\<lparr>cd_ntfs := h\<rparr>, rq_ntfs := l\<rparr>) \<and>
    noted (cd_ntfs (rq_daemon r), rq_ntfs r) (\<lambda>a. prepared_for (cfg_of r) a (changed_from [] (defn_of r))) (h, l)"
  using notifications_prepared [OF assms, of "cfg_of r" "(cd_ntfs (rq_daemon r), rq_ntfs r)"] by (auto simp: prepare_def)

lemma hits_reset [simp]: "hits (reset_all_wns c) a ds = hits c a ds"
  by (induction ds) (auto simp: reset_all_wns_def get_notification_def)

lemma prepared_for_reset [simp]: "prepared_for (reset_all_wns c) a dss = prepared_for c a dss"
  by (simp add: prepared_for_def)

text \<open>All users are back at the top.\<close>

definition all_at_root :: "config \<Rightarrow> bool" where
  "all_at_root c \<longleftrightarrow> list_all (\<lambda>e. ui_wnode (snd e) = []) (usr_path_map c)"

lemma reset_at_root: "all_at_root (reset_all_wns c)"
  by (simp add: all_at_root_def reset_all_wns_def list_all_iff split: prod.splits)

lemma revisions_write:
  "revisions ((n, t) # filter (\<lambda>f. fst f \<noteq> n) fs) =
     (if take (length rollback_prefix) n = rollback_prefix then (n, t) # filter (\<lambda>f. fst f \<noteq> n) (revisions fs)
      else filter (\<lambda>f. fst f \<noteq> n) (revisions fs))"
  by (simp add: revisions_def conj_commute)

lemma revisions_other:
  "take (length rollback_prefix) n \<noteq> rollback_prefix \<Longrightarrow> revisions ((n, t) # filter (\<lambda>f. fst f \<noteq> n) fs) = revisions fs"
  by (auto simp: revisions_def intro!: filter_cong)

lemma rollback_name_prefix [simp]: "take (length rollback_prefix) (rollback_name n) = rollback_prefix"
  by (simp add: rollback_name_def)

text \<open>
  C10. A commit of the user of the transaction, or of anyone when none is open, does all it promises: the tree
  holds the committed data and nothing is left to commit, the state before is the newest revision, the
  file of the configuration has the new state, the transaction is over, all users are back at the top, every other
  daemon is sent the line, and each notification holds an entry for every change below its node.
\<close>

theorem commit_takes_effect:
  assumes "\<not> pretends (rq_user r) (cfg_of r)" and "0 < commit_count (children (defn_of r))"
    and "commit_ends False (children (defn_of r))" and "leaf_items (children (defn_of r))" and "c_name (dat (defn_of r)) = ''ROOT''"
    and "sort_ok (de_cfg E)" and "\<forall>n. de_opens E n" and "take (length rollback_prefix) (de_file E) \<noteq> rollback_prefix"
    and "\<forall>p. a \<noteq> Def_node p"
  shows "\<exists>r'. commit_command E a n r = Some r' \<and>
    all_data (children (defn_of r')) = all_data (commit_items False (children (defn_of r))) \<and> commit_count (children (defn_of r')) = 0 \<and>
    (let name = rollback_name (length (revisions (cd_files (rq_daemon r)))) in
       revisions (cd_files (rq_daemon r')) = (name, file_config True (Some (c_new_value (dat n))) (Item (dat (defn_of r)) (commit_items True (children (defn_of r)))))
         # filter (\<lambda>f. fst f \<noteq> name) (revisions (cd_files (rq_daemon r)))) \<and>
    map_of (cd_files (rq_daemon r')) (de_file E) = Some (file_config False None (defn_of r')) \<and>
    \<not> transaction_started (cfg_of r') \<and> all_at_root (cfg_of r') \<and> rq_out r' = rq_out r @ sent_to_all E r \<and>
    noted (cd_ntfs (rq_daemon r), rq_ntfs r)
      (\<lambda>b. prepared_for (cfg_of r) b (changed_from [] (Item (dat (defn_of r)) (commit_items True (children (defn_of r))))))
      (cd_ntfs (rq_daemon r'), rq_ntfs r')"
proof -
  let ?t1 = "Item (dat (defn_of r)) (commit_items True (children (defn_of r)))"
  let ?name = "rollback_name (length (revisions (cd_files (rq_daemon r))))"
  define r1 where "r1 = write_file ?name (file_config True (Some (c_new_value (dat n))) ?t1) (all_to_root (r\<lparr>rq_ac := (rq_ac r)\<lparr>ac_defn := ?t1\<rparr>\<rparr>))"
  have d1: "defn_of r1 = ?t1" "rq_out r1 = rq_out r" "rq_user r1 = rq_user r" "rq_line r1 = rq_line r" "rq_ntfs r1 = rq_ntfs r"
    "cd_ntfs (rq_daemon r1) = cd_ntfs (rq_daemon r)" "cfg_of r1 = reset_all_wns (cfg_of r)"
    by (simp_all add: r1_def all_to_root_def)
  have f1: "revisions (cd_files (rq_daemon r1)) = (?name, file_config True (Some (c_new_value (dat n))) ?t1)
      # filter (\<lambda>f. fst f \<noteq> ?name) (revisions (cd_files (rq_daemon r)))"
    by (simp add: r1_def all_to_root_def revisions_write)
  obtain h l where p: "prepare r1 = Some (r1\<lparr>rq_daemon := (rq_daemon r1)\<lparr>cd_ntfs := h\<rparr>, rq_ntfs := l\<rparr>)"
    and nt: "noted (cd_ntfs (rq_daemon r1), rq_ntfs r1) (\<lambda>b. prepared_for (cfg_of r1) b (changed_from [] (defn_of r1))) (h, l)"
    using prepare_noted [of r1] assms(5) d1(1) by auto
  define r2 where "r2 = r1\<lparr>rq_daemon := (rq_daemon r1)\<lparr>cd_ntfs := h\<rparr>, rq_ntfs := l\<rparr>"
  have d2: "defn_of r2 = ?t1" by (simp add: r2_def d1)
  obtain t where t: "Option.bind (commit_tree r2) (sort_tree E) = Some (r2\<lparr>rq_ac := (rq_ac r2)\<lparr>ac_defn := t\<rparr>\<rparr>)"
    "all_data (children t) = all_data (commit_items False (children (defn_of r)))" "commit_count (children t) = 0"
    using sorted_commit [OF assms(6), of r2] assms(3,4) by (auto simp: d2 commit_after_count)
  define r3 where "r3 = r2\<lparr>rq_ac := (rq_ac r2)\<lparr>ac_defn := t\<rparr>\<rparr>"
  have "commit True (defn_of r) = Some (commit_count (children (defn_of r)), ?t1)" by (simp add: commit_def commit_loop_result)
  then have run: "commit_command E a n r = Some (clear_value a (replicate_all E (on_config end_transaction (write_current E r3))))"
    using assms(1,2,7) p t(1) by (simp add: commit_command_def commit_changes_def Let_def all_to_root_def r1_def r2_def r3_def)
  show ?thesis
    unfolding run
    using t(2,3) assms(8) nt f1 revisions_other [OF assms(8)] reset_at_root [of "cfg_of r"] cleared_defn [OF assms(9)] assms(7)
    by (auto simp: d1 write_current_def replicated_out r3_def r2_def Let_def sent_to_all_def
        transaction_started_def end_transaction_def all_at_root_def)
qed

theorem commit_takes_effect_witness:
  "\<exists>r'. commit_command demo_de (Cmd_node [8, 0]) (parameter ''description'' []) demo_request = Some r' \<and>
     commit_count (children (defn_of r')) = 0 \<and> \<not> transaction_started (cfg_of r') \<and>
     rq_out r' = [Replicate ''commit'' ''other'' (user_no 1)]"
proof -
  have "\<not> pretends (rq_user demo_request) (cfg_of demo_request)" "0 < commit_count (children (defn_of demo_request))"
    "commit_ends False (children (defn_of demo_request))" "leaf_items (children (defn_of demo_request))"
    "c_name (dat (defn_of demo_request)) = ''ROOT''" "take (length rollback_prefix) (de_file demo_de) \<noteq> rollback_prefix" by code_simp+
  moreover have "sort_ok (de_cfg demo_de)" "\<forall>n. de_opens demo_de n" by (simp_all add: demo_de_def demo_cfg_def sort_ok_def)
  moreover have "rq_out demo_request = []" "sent_to_all demo_de demo_request = [Replicate ''commit'' ''other'' (user_no 1)]"
    by (simp_all add: demo_request_def sent_to_all_def demo_de_def)
  ultimately show ?thesis
    using commit_takes_effect [of demo_request demo_de "Cmd_node [8, 0]" "parameter ''description'' []"] by auto
qed

section \<open>What a commit does not do\<close>

text \<open>
  A line that sets nothing still opens a transaction, as its command and its block were found; a commit finds nothing to do and
  leaves it open.
\<close>

lemma commit_of_nothing:
  assumes "\<not> pretends (rq_user r) (cfg_of r)" and "commit_count (children (defn_of r)) = 0" and "commit_command E a n r = Some r'"
  shows "cfg_of r' = cfg_of r \<and> rq_out r' = rq_out r"
proof -
  have "commit True (defn_of r) = Some (0, Item (dat (defn_of r)) (commit_items True (children (defn_of r))))"
    using assms(2) by (simp add: commit_def commit_loop_result)
  then show ?thesis using assms(1,3) by (auto simp: commit_command_def commit_changes_def Let_def)
qed

end
