(* ===== verification/ConfigReplica.thy ===== *)
theory ConfigReplica
  imports ConfigCommit
begin

text \<open>
  The other configuration daemons: a line that changes the configuration of one daemon is sent on as it was completed
  and repeated by the others. From the top of the same configuration they come to the same one;
  what depends on the working node, or on how many results a line has, does not.
\<close>

section \<open>Full names\<close>

lemma matches_full_name:
  assumes "matches t it = [j]" and "first t \<noteq> CHR ''!''" and "first (c_name (dat (children it ! j))) \<noteq> CHR ''!''"
  shows "matches (c_name (dat (children it ! j))) it = [j]"
proof -
  let ?n = "c_name (dat (children it ! j))"
  let ?P = "\<lambda>t i. \<not> c_template (dat (children it ! i)) \<and> take (length t) (c_name (dat (children it ! i))) = t"
  have p: "matches s it = filter (?P s) [0..<length (children it)]" if "first s \<noteq> CHR ''!''" for s
    using that by (auto simp: matches_def first_def hd_conv_nth Let_def split: list.splits intro!: filter_cong)
  have j: "j \<in> set (matches t it)" using assms(1) by simp
  then have t: "take (length t) ?n = t" "\<not> c_template (dat (children it ! j))" by (simp_all add: p [OF assms(2)])
  have le: "?P ?n i \<Longrightarrow> ?P t i" for i
    using t(1) by (metis take_take min.absorb1 length_take min.cobounded1 take_all_iff nat_le_linear)
  have "matches ?n it = filter (?P ?n) (filter (?P t) [0..<length (children it)])"
    unfolding p [OF assms(3)] filter_filter using le by (intro filter_cong) auto
  also have "\<dots> = filter (?P ?n) [j]" using assms(1) by (simp only: p [OF assms(2)])
  finally show ?thesis using t(2) by simp
qed

lemma full_names_path:
  "names_path it ts p \<Longrightarrow> \<forall>n \<in> set (full_names it p). first n \<noteq> CHR ''!'' \<Longrightarrow> names_path it (full_names it p) p"
proof (induction it ts p rule: names_path.induct)
  case (2 it t ts j p)
  then have "full_names (children it ! j) p = [] \<longleftrightarrow> ts = []" by (cases ts; cases p) auto
  with 2 show ?case using matches_full_name [of t it j] by auto
qed simp_all

lemma full_names_empty: "names_path it ts p \<Longrightarrow> full_names it p = [] \<longleftrightarrow> ts = []"
  by (cases ts; cases p) auto

section \<open>A line that sets a value\<close>

text \<open>The state of a request that has just been opened by a user at the top who may change something.\<close>

definition at_top :: "config_item \<Rightarrow> config_item \<Rightarrow> request \<Rightarrow> bool" where
  "at_top cmd D r \<longleftrightarrow> rq_ac r = ac_start cmd D \<and> get_wnode (rq_user r) (cfg_of r) = Some [] \<and> \<not> pretends (rq_user r) (cfg_of r)"

definition daemon_ac :: "daemon_env \<Rightarrow> request \<Rightarrow> ac_env" where
  "daemon_ac E r = \<lparr>a_cfg = de_cfg E, a_fsys = de_fsys E, a_rbr = is_rbr, a_revisions = de_listed E (revisions (cd_files (rq_daemon r)))\<rparr>"

lemma completed_set:
  assumes "at_top cmd D r" and "tokenize (e_split (de_cfg E)) (rq_line r) 50 True = c # ts @ [v]"
    and "matches c cmd = [k]" and "first c \<noteq> CHR ''!''" and "c_name (dat (children cmd ! k)) = ''set''"
    and "c_node_type (dat (children cmd ! k)) \<in> {CONFIG_NT_CMD, CONFIG_NT_BLOCK}" and "c_node_type (dat D) = CONFIG_NT_BLOCK"
    and "names_path D ts p" and "ts \<noteq> []" and "get_at D p = Some itm" and "stored_value (daemon_ac E r) D p (c_type (dat itm)) v = Some x"
  shows "\<exists>ac. complete E CONFIG_ACM_ENTER False r = Some (r\<lparr>rq_ac := ac\<rparr>) \<and> ac_defn ac = map_at (with_value x) p D \<and>
    ac_mode ac = CONFIG_MT_SET \<and> ac_result ac \<noteq> [] \<and> ac_errors ac = [] \<and> ac_line ac = ''set'' # full_names D p @ [v] \<and>
    ac_size ac = int (length (c # ts @ [v]))"
  using set_line_result [OF assms(3-6), of D "[]" D ts p itm "daemon_ac E r" v x] assms(1,2,7-11)
  by (auto simp: complete_def at_top_def daemon_ac_def)

lemma stored_value_env: "a_cfg E = a_cfg E' \<Longrightarrow> stored_value E D p ty v = stored_value E' D p ty v"
  by (simp add: stored_value_def)

text \<open>
  C11. Replicas stay the same for lines that are read back as they were meant: when a user at the top enters a line that
  sets the value of an item below existing nodes (no template makes a node on the way), the line is sent to every other daemon
  with its names completed; if the completed line is split again into these very words, a daemon with the same configuration
  comes to the same configuration, with a transaction of the same user. A value with a backslash or a
  quote is not read back so: it is sent without escapes, and the receiver splits the line differently or not at all.
\<close>

theorem replicas_agree:
  assumes r: "at_top cmd D r" and b: "at_top cmd' D b" and u: "rq_user b = rq_user r"
    and line: "tokenize (e_split (de_cfg E)) (rq_line r) 50 True = c # ts @ [v]"
    and c: "matches c cmd = [k]" "first c \<noteq> CHR ''!''" "c_name (dat (children cmd ! k)) = ''set''"
      "c_node_type (dat (children cmd ! k)) \<in> {CONFIG_NT_CMD, CONFIG_NT_BLOCK}"
    and c': "matches ''set'' cmd' = [k']" "c_name (dat (children cmd' ! k')) = ''set''"
      "c_node_type (dat (children cmd' ! k')) \<in> {CONFIG_NT_CMD, CONFIG_NT_BLOCK}"
    and D: "c_node_type (dat D) = CONFIG_NT_BLOCK" and p: "names_path D ts p" "ts \<noteq> []" "get_at D p = Some itm"
    and v: "stored_value (daemon_ac E r) D p (c_type (dat itm)) v = Some x"
    and bang: "\<forall>n \<in> set (full_names D p). first n \<noteq> CHR ''!''"
    and again: "tokenize (e_split (de_cfg E)) (joined (int (length ts) + 2) 0 (''set'' # full_names D p @ [v])) 50 True = ''set'' # full_names D p @ [v]"
  shows "\<exists>r' b'. enter_line E r = Some r' \<and> defn_of r' = map_at (with_value x) p D \<and> rq_out r' = rq_out r @ sent_to_all E r' \<and>
    replicated_line E (b\<lparr>rq_line := rq_line r'\<rparr>) = Some b' \<and> defn_of b' = defn_of r' \<and>
    transaction_started (cfg_of r') \<and> transaction_started (cfg_of b') \<and>
    get_transaction_owner (cfg_of r') = rq_user r \<and> get_transaction_owner (cfg_of b') = rq_user r"
proof -
  let ?L = "joined (int (length ts) + 2) 0 (''set'' # full_names D p @ [v])"
  obtain ac where ac: "complete E CONFIG_ACM_ENTER False r = Some (r\<lparr>rq_ac := ac\<rparr>)" "ac_defn ac = map_at (with_value x) p D"
    "ac_mode ac = CONFIG_MT_SET" "ac_result ac \<noteq> []" "ac_line ac = ''set'' # full_names D p @ [v]" "ac_size ac = int (length ts) + 2"
    using completed_set [OF r line c D p v] by auto
  define r' where "r' = replicate_all E (on_config (start_transaction (rq_user r)) (r\<lparr>rq_ac := ac, rq_line := ?L\<rparr>))"
  have np: "\<not> pretends (rq_user r) (cfg_of r)" "\<not> pretends (rq_user b) (cfg_of b)" using r b by (simp_all add: at_top_def)
  have e: "enter_line E r = Some r'"
    using ac np(1) by (auto simp: enter_line_def Let_def run_mode_def take_line_def r'_def split: list.split)
  have l: "rq_line r' = ?L" by (simp add: r'_def on_config_def replicate_all_def)
  define b0 where "b0 = b\<lparr>rq_line := ?L\<rparr>"
  have b0: "at_top cmd' D b0" "tokenize (e_split (de_cfg E)) (rq_line b0) 50 True = ''set'' # full_names D p @ [v]"
    using b again by (simp_all add: b0_def at_top_def)
  have set: "first ''set'' \<noteq> CHR ''!''" by (simp add: first_def)
  have v': "stored_value (daemon_ac E b0) D p (c_type (dat itm)) v = Some x"
    using v stored_value_env [of "daemon_ac E b0" "daemon_ac E r"] by (simp add: daemon_ac_def)
  obtain bc where bc: "complete E CONFIG_ACM_ENTER False b0 = Some (b0\<lparr>rq_ac := bc\<rparr>)" "ac_defn bc = map_at (with_value x) p D"
    "ac_mode bc = CONFIG_MT_SET" "ac_result bc \<noteq> []"
    using completed_set [OF b0 c'(1) set c'(2,3) D full_names_path [OF p(1) bang] _ p(3) v'] full_names_empty [OF p(1)] p(2) by auto
  have "replicated_line E b0 = Some (on_config (start_transaction (rq_user r)) (b0\<lparr>rq_ac := bc\<rparr>))"
    using bc np(2) u by (auto simp: replicated_line_def run_replicated_mode_def b0_def split: list.split)
  then show ?thesis using e ac(2) bc(2) l
    by (intro exI [of _ r'] exI [of _ "on_config (start_transaction (rq_user r)) (b0\<lparr>rq_ac := bc\<rparr>)"])
      (auto simp: b0_def r'_def replicated_out sent_to_all_def start_transaction_def transaction_started_def get_transaction_owner_def
        on_config_def replicate_all_def)
qed

definition demo_top :: "pos \<Rightarrow> string \<Rightarrow> request" where
  "demo_top w l = on_config (set_definition_wn (user_no 1) \<lparr>ui_timestamp = 7, ui_wnode = w\<rparr>)
     (demo_request\<lparr>rq_ac := ac_start cmd_tree demo_root, rq_line := l\<rparr>)"

theorem replicas_agree_witness:
  "\<exists>r' b'. enter_line demo_de (demo_top [] ''se fi po 5'') = Some r' \<and> rq_out r' = [Replicate ''set first port 5 '' ''other'' (user_no 1)] \<and>
     replicated_line demo_de (demo_top [] ''set first port 5 '') = Some b' \<and>
     defn_of r' = map_at (with_value ''5'') [1, 0] demo_root \<and> defn_of b' = defn_of r'"
proof -
  let ?r = "demo_top [] ''se fi po 5''"
  let ?i = "Item (new_data\<lparr>c_name := ''port'', c_node_type := CONFIG_NT_ITEM\<rparr>) []"
  have d: "at_top cmd_tree demo_root ?r" "rq_user ?r = rq_user ?r"
    unfolding at_top_def by (intro conjI; (simp add: demo_top_def on_config_def demo_request_def; fail) | code_simp)+
  have line: "tokenize (e_split (de_cfg demo_de)) (rq_line ?r) 50 True = ''se'' # [''fi'', ''po''] @ [''5'']" by code_simp
  have c: "matches ''se'' cmd_tree = [0]" "first ''se'' \<noteq> CHR ''!''" "c_name (dat (children cmd_tree ! 0)) = ''set''"
    "c_node_type (dat (children cmd_tree ! 0)) \<in> {CONFIG_NT_CMD, CONFIG_NT_BLOCK}" "matches ''set'' cmd_tree = [0]" by code_simp+
  have p: "names_path demo_root [''fi'', ''po''] [1, 0]" "c_node_type (dat demo_root) = CONFIG_NT_BLOCK" by code_simp+
  have i: "get_at demo_root [1, 0] = Some ?i" by (simp add: demo_root_def demo_block_def)
  have v: "stored_value (daemon_ac demo_de ?r) demo_root [1, 0] (c_type (dat ?i)) ''5'' = Some ''5''" by code_simp
  have n: "\<forall>n \<in> set (full_names demo_root [1, 0]). first n \<noteq> CHR ''!''" by code_simp
  have g: "tokenize (e_split (de_cfg demo_de)) (joined (int (length [''fi'', ''po'']) + 2) 0 (''set'' # full_names demo_root [1, 0] @ [''5''])) 50 True
      = ''set'' # full_names demo_root [1, 0] @ [''5'']" by code_simp
  obtain r' b' where e: "enter_line demo_de ?r = Some r'" "replicated_line demo_de (?r\<lparr>rq_line := rq_line r'\<rparr>) = Some b'"
    and s: "defn_of r' = map_at (with_value ''5'') [1, 0] demo_root" "defn_of b' = defn_of r'"
    using replicas_agree [OF d(1) d(1) d(2) line c(1-4) c(5,3,4) p(2,1) _ i v n g] by auto
  have "map_option (\<lambda>r. (rq_line r, rq_out r)) (enter_line demo_de ?r)
      = Some (''set first port 5 '', [Replicate ''set first port 5 '' ''other'' (user_no 1)])" by code_simp
  then have "rq_line r' = ''set first port 5 ''" "rq_out r' = [Replicate ''set first port 5 '' ''other'' (user_no 1)]" using e(1) by simp_all
  moreover have "?r\<lparr>rq_line := ''set first port 5 ''\<rparr> = demo_top [] ''set first port 5 ''" by (simp add: demo_top_def on_config_def)
  ultimately show ?thesis using e s by auto
qed

section \<open>Where replicas part\<close>

text \<open>
  The working node is not replicated: a line entered below the top is looked for from the top on the other daemon, which here
  makes a new block by the name of the item and leaves the item alone.
\<close>

lemma edited_line_parts:
  "map_option (\<lambda>r. (defn_of r, rq_out r)) (enter_line demo_de (demo_top [1] ''set port 5''))
     = Some (map_at (with_value ''5'') [1, 0] demo_root, [Replicate ''set port 5 '' ''other'' (user_no 1)])"
  "map_option (\<lambda>r. (map (\<lambda>c. c_name (dat c)) (children (defn_of r)), get_at (defn_of r) [1, 0]))
     (replicated_line demo_de (demo_top [] ''set port 5 '')) = Some ([''NODE'', ''first'', ''port''], get_at demo_root [1, 0])"
  by code_simp+

text \<open>
  A block with a single item is deleted whole by the daemon that takes the line; the others, where a single result is
  always the item itself, delete the item only.
\<close>

lemma deleted_block_parts:
  "map_option (\<lambda>r. (defn_of r, rq_out r)) (enter_line demo_de (demo_top [] ''delete first''))
     = Some (map_at (\<lambda>n. Item (set_state CONFIG_NS_DELETED (dat n)) (children n)) [1] demo_root,
        [Replicate ''delete first '' ''other'' (user_no 1)])"
  "map_option defn_of (replicated_line demo_de (demo_top [] ''delete first ''))
     = Some (map_at (\<lambda>n. Item (set_state CONFIG_NS_DELETED (dat n)) (children n)) [1, 0] demo_root)"
  by code_simp+

text \<open>
  A node made on the way of a line that then fails stays without a transaction; the next user who logs out removes it, also
  below the working node of another user.
\<close>

lemma failed_line_keeps_node:
  "map_option (\<lambda>r. (length (children (defn_of r)), cf_transaction (cfg_of r), length (ac_errors (rq_ac r))))
     (enter_line demo_de (on_config end_transaction (demo_top [] ''set second nothing''))) = Some (3, False, 1)"
  by code_simp

lemma logout_removes_node:
  assumes "\<not> pretends (rq_user r) (cfg_of r)" and "discard_ends (children (defn_of r))"
  shows "\<exists>r'. process_user_logout r = Some (End_sequence, None, r') \<and> children (defn_of r') = discard_items (children (defn_of r)) \<and>
    usr_path_map (cfg_of r') = om_erase user_id_compare (rq_user r) (usr_path_map (cfg_of r))"
  using assms by (auto simp: process_user_logout_def on_defn_def discard_def discard_loop_result remove_wn_user_def
      end_transaction_def on_config_def)

end
