(* ===== verification/ConfigUpdate.thy ===== *)
theory ConfigUpdate
  imports ConfigNotify
begin

text \<open>
  What an update does to the receiver's copy of the configuration (\<^verbatim>\<open>CfgUpdateStreamDone\<close> of
  \<^verbatim>\<open>src/src/cfg/config_gdt.cpp\<close>): the values arrive, each handler is called once with its changed
  nodes, and where the copy goes wrong.
\<close>

section \<open>Lookups see names only\<close>

datatype skeleton = Skeleton string bool "skeleton list"

fun skel :: "config_item \<Rightarrow> skeleton" where
  "skel (Item d cs) = Skeleton (c_name d) (c_template d) (map skel cs)"

lemma skel_get_at:
  "skel a = skel b \<Longrightarrow> rel_option (\<lambda>m n. skel m = skel n) (get_at a p) (get_at b p)"
proof (induction p arbitrary: a b)
  case (Cons i p)
  obtain d cs d' cs' where ab: "a = Item d cs" "b = Item d' cs'" by (cases a, cases b)
  then have m: "map skel cs = map skel cs'" using Cons.prems by simp
  then have l: "length cs = length cs'" by (metis length_map)
  have "i < length cs \<Longrightarrow> skel (cs ! i) = skel (cs' ! i)" using m l by (metis nth_map)
  then show ?case using Cons.IH [of "cs ! i" "cs' ! i"] ab l by auto
qed simp

lemma skel_child: "skel a = skel b \<Longrightarrow> child_named n a = child_named n b"
proof -
  assume "skel a = skel b"
  then have m: "map skel (children a) = map skel (children b)" by (cases a; cases b) simp
  have "find_index (named n) xs = find_index (named n) ys" if "map skel xs = map skel ys" for xs ys
    using that
  proof (induction xs arbitrary: ys)
    case (Cons x xs)
    then obtain y ys' where y: "ys = y # ys'" "skel x = skel y" "map skel xs = map skel ys'"
      by (metis list.simps(9) map_eq_Cons_conv)
    from y(2) have "named n x = named n y" by (cases x; cases y) (simp add: named_def)
    then show ?case by (simp add: y(1) Cons.IH [OF y(3)])
  qed simp
  from this [OF m] show ?thesis by (simp add: child_named_def)
qed

lemma skel_walk:
  "skel a = skel b \<Longrightarrow> map_option snd (walk False nt fl ts a cur res) = map_option snd (walk False nt fl ts b cur res)"
proof (induction ts arbitrary: cur res)
  case (Cons t ts)
  show ?case
  proof (cases cur)
    case (Some p)
    show ?thesis
    proof (cases "get_at a p")
      case None
      then have "get_at b p = None" using skel_get_at [OF Cons.prems, of p] by simp
      then show ?thesis using None Some Cons.IH [OF Cons.prems] by (simp add: Let_def)
    next
      case (Some x)
      then have "\<exists>y. get_at b p = Some y \<and> skel x = skel y"
        using skel_get_at [OF Cons.prems, of p] by (cases "get_at b p") simp_all
      then obtain y where y: "get_at b p = Some y" "skel x = skel y" by blast
      note [simp] = \<open>cur = Some p\<close> \<open>get_at a p = Some x\<close> y(1) skel_child [OF y(2), of t]
      show ?thesis
      proof (cases "child_named t y")
        case None
        then show ?thesis using Cons.IH [OF Cons.prems] by (simp add: Let_def)
      next
        case (Some j)
        then show ?thesis using Cons.IH [OF Cons.prems] by (simp add: Let_def)
      qed
    qed
  qed simp
qed simp

lemma skel_find_pos: "skel a = skel b \<Longrightarrow> find_pos split a path = find_pos split b path"
  unfolding find_pos_def cfg_call_def by (rule skel_walk)

text \<open>A node that is found is found with leave to create too.\<close>

lemma walk_tree: "walk False nt fl ts t cur res = Some (t', q) \<Longrightarrow> t' = t"
  by (induction False nt fl ts t cur res rule: walk.induct) (auto simp: Let_def split: if_splits option.splits)

lemma walk_found:
  "walk False nt fl ts t cur res = Some (t, Some p) \<Longrightarrow> walk True nt' fl' ts t cur res = Some (t, Some p)"
proof (induction ts arbitrary: cur res)
  case (Cons x ts)
  then show ?case by (cases cur) (auto simp: Let_def split: if_splits option.splits)
qed simp

lemma find_pos_call:
  "find_pos split root path = Some (Some p) \<Longrightarrow> cfg_call split root [] path True nt fl = Some (root, Some p)"
  unfolding find_pos_def cfg_call_def using walk_tree walk_found by (fastforce simp: map_option_case split: option.splits)

section \<open>Updates in place\<close>

lemma update_skel:
  assumes "\<And>d. c_name (f d) = c_name d \<and> c_template (f d) = c_template d"
  shows "skel (update_at f p root) = skel root"
proof -
  have "skel (map_at (\<lambda>n. Item (f (dat n)) (children n)) p root) = skel root"
  proof (induction p arbitrary: root)
    case Nil
    then show ?case using assms by (cases root) simp
  next
    case (Cons i p)
    obtain d cs where "root = Item d cs" by (cases root)
    then show ?case using Cons.IH [of "cs ! i"] by (auto simp: map_update list_update_same_conv)
  qed
  then show ?thesis by (simp add: update_at_def)
qed

lemma update_same: "update_at f p (update_at g p root) = update_at (f \<circ> g) p root"
proof -
  have "map_at (\<lambda>n. Item (f (dat n)) (children n)) p (map_at (\<lambda>n. Item (g (dat n)) (children n)) p root)
      = map_at (\<lambda>n. Item ((f \<circ> g) (dat n)) (children n)) p root"
  proof (induction p arbitrary: root)
    case (Cons i p)
    obtain d cs where "root = Item d cs" by (cases root)
    then show ?case using Cons.IH [of "cs ! i"] by simp
  qed simp
  then show ?thesis by (simp add: update_at_def)
qed

lemma update_other:
  assumes "p \<noteq> q"
  shows "update_at f p (update_at g q root) = update_at g q (update_at f p root)"
proof -
  let ?F = "\<lambda>n. Item (f (dat n)) (children n)" and ?G = "\<lambda>n. Item (g (dat n)) (children n)"
  have "map_at ?F p (map_at ?G q root) = map_at ?G q (map_at ?F p root)" using assms
  proof (induction p arbitrary: q root)
    case Nil
    then obtain i q' where "q = i # q'" by (cases q) auto
    then show ?case by (cases root) simp
  next
    case (Cons i p)
    obtain d cs where r: "root = Item d cs" by (cases root)
    show ?case
    proof (cases q)
      case Nil
      then show ?thesis by (simp add: r)
    next
      case (Cons j q')
      show ?thesis
      proof (cases "i = j")
        case True
        then show ?thesis using Cons.IH [of q' "cs ! j"] Cons.prems Cons r by simp
      next
        case False
        then show ?thesis using Cons r by (auto simp: list_update_swap)
      qed
    qed
  qed
  then show ?thesis by (simp add: update_at_def)
qed

lemma update_at_id: "update_at (\<lambda>d. d) p root = root"
proof -
  have "map_at (\<lambda>n. Item (dat n) (children n)) p root = root"
  proof (induction p arbitrary: root)
    case (Cons i p)
    obtain d cs where "root = Item d cs" by (cases root)
    then show ?case using Cons.IH [of "cs ! i"] by simp
  qed simp
  then show ?thesis by (simp add: update_at_def)
qed

lemma get_update_same: "get_at root p = Some n \<Longrightarrow> get_at (update_at f p root) p = Some (Item (f (dat n)) (children n))"
  unfolding update_at_def by (rule get_at_map_at)

lemma get_update_dat:
  "map_option dat (get_at (update_at f q root) p) = map_option (\<lambda>n. if p = q then f (dat n) else dat n) (get_at root p)"
proof -
  have "map_option dat (get_at (map_at (\<lambda>n. Item (f (dat n)) (children n)) q root) p)
      = map_option (\<lambda>n. if p = q then f (dat n) else dat n) (get_at root p)"
  proof (induction q arbitrary: p root)
    case Nil
    then show ?case by (cases p; cases root) auto
  next
    case (Cons j q)
    obtain d cs where "root = Item d cs" by (cases root)
    then show ?case using Cons.IH by (cases p) (auto simp: nth_list_update)
  qed
  then show ?thesis by (simp add: update_at_def)
qed

section \<open>What is seen at a position\<close>

definition data_at :: "config_item \<Rightarrow> pos \<Rightarrow> cfg_data option" where
  "data_at root p = map_option dat (get_at root p)"

text \<open>A tree changed in place: the data of each node by a function of its own that keeps names and handlers.\<close>

definition keeps :: "(cfg_data \<Rightarrow> cfg_data) \<Rightarrow> bool" where
  "keeps f \<longleftrightarrow> (\<forall>d. c_name (f d) = c_name d \<and> c_template (f d) = c_template d \<and> c_on_change (f d) = c_on_change d \<and>
     c_node_type (f d) = c_node_type d)"

definition changed :: "config_item \<Rightarrow> config_item \<Rightarrow> (pos \<Rightarrow> cfg_data \<Rightarrow> cfg_data) \<Rightarrow> bool" where
  "changed a b F \<longleftrightarrow> skel b = skel a \<and> (\<forall>p. keeps (F p)) \<and> (\<forall>p. data_at b p = map_option (F p) (data_at a p))"

lemma changed_refl: "changed a a (\<lambda>p d. d)"
  by (simp add: changed_def keeps_def option.map_ident)

lemma changed_trans: "changed a b F \<Longrightarrow> changed b c G \<Longrightarrow> changed a c (\<lambda>p d. G p (F p d))"
  by (simp add: changed_def keeps_def option.map_comp comp_def)

lemma changed_update: "keeps f \<Longrightarrow> changed a (update_at f p a) (\<lambda>q. if q = p then f else (\<lambda>d. d))"
  using update_skel [of f p a] by (auto simp: changed_def keeps_def data_at_def get_update_dat option.map_comp comp_def)

text \<open>The entry for a position.\<close>

definition per_entry :: "(cfg_data \<Rightarrow> cfg_data \<Rightarrow> cfg_data) \<Rightarrow> cfg_data list \<Rightarrow> pos list \<Rightarrow> pos \<Rightarrow> cfg_data \<Rightarrow> cfg_data" where
  "per_entry F xs ps p = (case map_of (zip ps xs) p of None \<Rightarrow> (\<lambda>d. d) | Some x \<Rightarrow> F x)"

lemma per_entry_Nil: "per_entry F [] [] = (\<lambda>p d. d)"
  by (simp add: per_entry_def fun_eq_iff)

lemma per_entry_Cons:
  assumes "p \<notin> set ps" and "length xs = length ps"
  shows "per_entry F (x # xs) (p # ps) = (\<lambda>q d. per_entry F xs ps q ((if q = p then F x else (\<lambda>d. d)) d))"
proof -
  have "map_of (zip ps xs) p = None" using assms by (simp add: map_of_zip_is_None)
  then show ?thesis by (auto simp: per_entry_def fun_eq_iff split: option.split)
qed

text \<open>The entries name items of the copy, each another one; none of them is marked as handled.\<close>

definition listed :: "(string \<Rightarrow> string list option) \<Rightarrow> config_item \<Rightarrow> cfg_data \<Rightarrow> pos \<Rightarrow> bool" where
  "listed split root x p \<longleftrightarrow> find_pos split root (c_name x) = Some (Some p) \<and>
     (\<exists>d. data_at root p = Some d \<and> c_node_type d = CONFIG_NT_ITEM)"

lemma listedE:
  assumes "listed split root x p"
  obtains n where "get_at root p = Some n" and "c_node_type (dat n) = CONFIG_NT_ITEM" and "find_pos split root (c_name x) = Some (Some p)"
  using assms unfolding listed_def data_at_def by (metis (no_types, lifting) map_option_eq_Some)

lemma changed_find: "changed a b F \<Longrightarrow> find_pos split b path = find_pos split a path"
  unfolding changed_def using skel_find_pos by metis

lemma changed_listed: "changed a b F \<Longrightarrow> listed split b x p = listed split a x p"
  using changed_find [of a b F] by (auto simp: listed_def changed_def keeps_def)

lemma changed_handler: "changed a b F \<Longrightarrow> map_option c_on_change (data_at b p) = map_option c_on_change (data_at a p)"
  by (simp add: changed_def keeps_def option.map_comp comp_def)

section \<open>The passes\<close>

definition event_at :: "cfg_data \<Rightarrow> cfg_data \<Rightarrow> cfg_data" where
  "event_at x d = (if c_on_change d = None then d else event_data x d)"

definition value_at :: "cfg_data \<Rightarrow> cfg_data \<Rightarrow> cfg_data" where
  "value_at x d = d\<lparr>c_value := (if c_node_state x = CONFIG_NS_DELETED then [] else c_value x)\<rparr>"

definition settled_data :: "cfg_data \<Rightarrow> cfg_data" where
  "settled_data d = d\<lparr>c_onc_exec := False, c_new := False, c_node_state := CONFIG_NS_READY\<rparr>"

definition cleared :: "cfg_data \<Rightarrow> cfg_data" where
  "cleared x = (if c_node_state x = CONFIG_NS_DELETED then x\<lparr>c_value := []\<rparr> else x)"

lemma keeps_event: "keeps (event_at x)" "keeps (event_data x)" "keeps (value_at x)" "keeps settled_data"
  by (auto simp: keeps_def event_at_def event_data_def value_at_def settled_data_def Let_def)

lemma apply_entries_listed:
  assumes "list_all2 (listed split root) xs ps" and "distinct ps"
  shows "\<exists>root'. apply_entries split xs root = Some (map cleared xs, root') \<and> changed root root' (per_entry value_at xs ps)"
  using assms
proof (induction xs arbitrary: ps root)
  case Nil
  then show ?case using changed_refl by (simp add: per_entry_Nil)
next
  case (Cons x xs qs)
  then obtain p ps where qs: "qs = p # ps" and xp: "listed split root x p" and rest: "list_all2 (listed split root) xs ps"
    by (auto simp: list_all2_Cons1)
  from Cons.prems(2) have d: "distinct ps" "p \<notin> set ps" by (auto simp: qs)
  from xp obtain n where n: "get_at root p = Some n" "c_node_type (dat n) = CONFIG_NT_ITEM"
    and f: "find_pos split root (c_name x) = Some (Some p)" by (rule listedE)
  have step: "apply_entry split x root = Some (cleared x, update_at (value_at x) p root)"
    using n find_pos_call [OF f] by (auto simp: apply_entry_def cleared_def value_at_def [abs_def])
  have c: "changed root (update_at (value_at x) p root) (\<lambda>q. if q = p then value_at x else (\<lambda>d. d))"
    by (rule changed_update [OF keeps_event(3)])
  have l: "list_all2 (listed split (update_at (value_at x) p root)) xs ps"
    using rest changed_listed [OF c] by (simp add: list_all2_mono)
  from Cons.IH [OF l d(1)] obtain root' where r: "apply_entries split xs (update_at (value_at x) p root) = Some (map cleared xs, root')"
    "changed (update_at (value_at x) p root) root' (per_entry value_at xs ps)" by blast
  have "length xs = length ps" using rest by (rule list_all2_lengthD)
  from changed_trans [OF c r(2)] per_entry_Cons [OF d(2) this, of value_at x]
  have "changed root root' (per_entry value_at (x # xs) (p # ps))" by simp
  then show ?case using step r(1) by (simp add: qs)
qed

lemma settle_entries_listed:
  assumes "list_all2 (listed split root) xs ps" and "distinct ps"
  shows "\<exists>root'. settle_entries split xs root = Some root' \<and> changed root root' (per_entry (\<lambda>x. settled_data) xs ps)"
  using assms
proof (induction xs arbitrary: ps root)
  case Nil
  then show ?case using changed_refl by (simp add: per_entry_Nil)
next
  case (Cons x xs qs)
  then obtain p ps where qs: "qs = p # ps" and xp: "listed split root x p" and rest: "list_all2 (listed split root) xs ps"
    by (auto simp: list_all2_Cons1)
  from Cons.prems(2) have d: "distinct ps" "p \<notin> set ps" by (auto simp: qs)
  from xp have f: "find_pos split root (c_name x) = Some (Some p)" by (simp add: listed_def)
  have c: "changed root (update_at settled_data p root) (\<lambda>q. if q = p then settled_data else (\<lambda>d. d))"
    by (rule changed_update [OF keeps_event(4)])
  have l: "list_all2 (listed split (update_at settled_data p root)) xs ps"
    using rest changed_listed [OF c] by (simp add: list_all2_mono)
  from Cons.IH [OF l d(1)] obtain root' where r: "settle_entries split xs (update_at settled_data p root) = Some root'"
    "changed (update_at settled_data p root) root' (per_entry (\<lambda>x. settled_data) xs ps)" by blast
  have "length xs = length ps" using rest by (rule list_all2_lengthD)
  from changed_trans [OF c r(2)] per_entry_Cons [OF d(2) this, of "\<lambda>x. settled_data" x]
  have "changed root root' (per_entry (\<lambda>x. settled_data) (x # xs) (p # ps))" by simp
  then show ?case using f r(1) by (simp add: qs settled_data_def [abs_def])
qed

text \<open>The groups: by handler, the listed positions whose nodes have it and have not been handled.\<close>

definition group_of :: "nat \<Rightarrow> event_groups \<Rightarrow> pos list" where
  "group_of a g = (case om_find (<) a g of None \<Rightarrow> [] | Some ps \<Rightarrow> ps)"

definition waiting :: "config_item \<Rightarrow> nat \<Rightarrow> pos \<Rightarrow> bool" where
  "waiting root a p \<longleftrightarrow> (\<exists>d. data_at root p = Some d \<and> c_on_change d = Some a \<and> \<not> c_onc_exec d)"

lemma group_of_add: "group_of b (add_event a p g) = group_of b g @ (if a = b then (case p of None \<Rightarrow> [] | Some q \<Rightarrow> [q]) else [])"
  by (auto simp: group_of_def add_event_def Let_def nat_order.find_map_of nat_order.map_of_insert split: option.split)

lemma sorted_add: "om_sorted (<) g \<Longrightarrow> om_sorted (<) (add_event a p g)"
  by (simp add: add_event_def Let_def nat_order.sorted_insert)

lemma group_events_listed:
  assumes "list_all2 (listed split root) xs ps" and "distinct ps" and "om_sorted (<) g"
  shows "\<exists>root' g'. group_events split xs (root, g) = Some (root', g') \<and> changed root root' (per_entry event_at xs ps) \<and>
    om_sorted (<) g' \<and> (\<forall>a. group_of a g' = group_of a g @ filter (waiting root a) ps)"
  using assms
proof (induction xs arbitrary: ps root g)
  case Nil
  then show ?case using changed_refl by (simp add: per_entry_Nil)
next
  case (Cons x xs qs)
  then obtain p ps where qs: "qs = p # ps" and xp: "listed split root x p" and rest: "list_all2 (listed split root) xs ps"
    by (auto simp: list_all2_Cons1)
  from Cons.prems(2) have d: "distinct ps" "p \<notin> set ps" by (auto simp: qs)
  from xp obtain n where n: "get_at root p = Some n" "find_pos split root (c_name x) = Some (Some p)" by (rule listedE)
  define root1 where "root1 = update_at (event_at x) p root"
  define g1 where "g1 = (case c_on_change (dat n) of None \<Rightarrow> g | Some a \<Rightarrow> add_event a (if c_onc_exec (dat n) then None else Some p) g)"
  have c: "changed root root1 (\<lambda>q. if q = p then event_at x else (\<lambda>d. d))"
    unfolding root1_def by (rule changed_update [OF keeps_event(1)])
  have at: "data_at root p = Some (dat n)" using n(1) by (simp add: data_at_def)
  have step: "group_events split (x # xs) (root, g) = group_events split xs (root1, g1)"
  proof (cases "c_on_change (dat n)")
    case None
    have "update_at (event_at x) p root = update_at (\<lambda>d. d) p root"
    proof -
      have "map_at (\<lambda>m. Item (event_at x (dat m)) (children m)) p root = map_at (\<lambda>m. Item (dat m) (children m)) p root"
        using n(1) None by (induction root p rule: get_at.induct) (auto simp: event_at_def split: if_splits)
      then show ?thesis by (simp add: update_at_def)
    qed
    then show ?thesis using n None by (simp add: root1_def g1_def update_at_id)
  next
    case (Some a)
    have "update_at (event_at x) p root = update_at (event_data x) p root"
    proof -
      have "map_at (\<lambda>m. Item (event_at x (dat m)) (children m)) p root = map_at (\<lambda>m. Item (event_data x (dat m)) (children m)) p root"
        using n(1) Some by (induction root p rule: get_at.induct) (auto simp: event_at_def split: if_splits)
      then show ?thesis by (simp add: update_at_def)
    qed
    then show ?thesis using n Some by (simp add: root1_def g1_def)
  qed
  have l: "list_all2 (listed split root1) xs ps"
    using rest changed_listed [OF c] by (simp add: list_all2_mono)
  have so: "om_sorted (<) g1" using Cons.prems(3) sorted_add by (auto simp: g1_def split: option.split)
  from Cons.IH [OF l d(1) so] obtain root' g' where r: "group_events split xs (root1, g1) = Some (root', g')"
    "changed root1 root' (per_entry event_at xs ps)" "om_sorted (<) g'" "\<forall>a. group_of a g' = group_of a g1 @ filter (waiting root1 a) ps" by blast
  have "length xs = length ps" using rest by (rule list_all2_lengthD)
  from changed_trans [OF c r(2)] per_entry_Cons [OF d(2) this, of event_at x]
  have ch: "changed root root' (per_entry event_at (x # xs) (p # ps))" by simp
  have same: "waiting root1 a q = waiting root a q" if "q \<in> set ps" for a q
    using c that d(2) by (auto simp: waiting_def changed_def option.map_ident)
  have "filter (waiting root1 a) ps = filter (waiting root a) ps" for a by (rule filter_cong [OF refl same])
  moreover have "group_of a g1 = group_of a g @ (if waiting root a p then [p] else [])" for a
    using at by (cases "c_on_change (dat n)") (auto simp: g1_def waiting_def group_of_add)
  ultimately have "\<forall>a. group_of a g' = group_of a g @ filter (waiting root a) (p # ps)" using r(4) by simp
  then show ?case unfolding qs step using r(1,3) ch by blast
qed

text \<open>The handlers.\<close>

definition flipped :: "cfg_data \<Rightarrow> cfg_data" where
  "flipped d = d\<lparr>c_onc_exec := \<not> c_onc_exec d\<rparr>"

lemma keeps_flipped: "keeps flipped"
  by (simp add: keeps_def flipped_def)

lemma flip_all:
  "distinct ps \<Longrightarrow> changed root (fold (update_at flipped) ps root) (\<lambda>p. if p \<in> set ps then flipped else (\<lambda>d. d))"
proof (induction ps arbitrary: root)
  case Nil
  then show ?case using changed_refl by simp
next
  case (Cons p ps)
  note c = changed_update [OF keeps_flipped, of root p]
  have "changed (update_at flipped p root) (fold (update_at flipped) ps (update_at flipped p root))
      (\<lambda>p. if p \<in> set ps then flipped else (\<lambda>d. d))" using Cons by simp
  from changed_trans [OF c this]
  have "changed root (fold (update_at flipped) (p # ps) root)
      (\<lambda>q d. (if q \<in> set ps then flipped else (\<lambda>d. d)) ((if q = p then flipped else (\<lambda>d. d)) d))" by simp
  moreover have "(\<lambda>q d. (if q \<in> set ps then flipped else (\<lambda>d. d)) ((if q = p then flipped else (\<lambda>d. d)) d))
      = (\<lambda>q. if q \<in> set (p # ps) then flipped else (\<lambda>d. d))"
    using Cons.prems by (auto simp: fun_eq_iff)
  ultimately show ?case by simp
qed

definition calls_of :: "config_item \<Rightarrow> event_groups \<Rightarrow> handler_calls" where
  "calls_of root g = map (\<lambda>(a, ps). (Some a, map (\<lambda>p. the (data_at root p)) ps)) (filter (\<lambda>(a, ps). ps \<noteq> []) g)"

lemma run_events_calls:
  assumes "distinct (concat (map snd g))" and "\<forall>p \<in> set (concat (map snd g)). data_at root p \<noteq> None"
  shows "\<exists>root'. run_events g (root, out) = (root', out @ calls_of root g) \<and>
    changed root root' (\<lambda>p. if p \<in> set (concat (map snd g)) then flipped else (\<lambda>d. d))"
  using assms
proof (induction g arbitrary: root out)
  case Nil
  then show ?case using changed_refl by (simp add: calls_of_def)
next
  case (Cons x g)
  obtain a ps where x: "x = (a, ps)" by (cases x)
  define root1 where "root1 = (if ps = [] then root else fold (update_at flipped) ps root)"
  define out1 where "out1 = (if ps = [] then out else out @ [(Some a, map (\<lambda>p. the (data_at root p)) ps)])"
  have "dat (the (get_at root p)) = the (data_at root p)" if "p \<in> set ps" for p
  proof -
    have "data_at root p \<noteq> None" using that Cons.prems(2) by (simp add: x)
    then show ?thesis by (cases "get_at root p") (simp_all add: data_at_def)
  qed
  then have "map (\<lambda>p. dat (the (get_at root p))) ps = map (\<lambda>p. the (data_at root p)) ps" by simp
  then have run: "run_events (x # g) (root, out) = run_events g (root1, out1)"
    unfolding x root1_def out1_def run_events.simps flipped_def [abs_def] by (simp only: if_distrib if_cancel split: if_split) simp
  have c: "changed root root1 (\<lambda>p. if p \<in> set ps then flipped else (\<lambda>d. d))"
    using Cons.prems(1) flip_all [of ps root] changed_refl [of root] by (auto simp: x root1_def)
  have d: "distinct (concat (map snd g))" "set ps \<inter> set (concat (map snd g)) = {}" using Cons.prems(1) by (auto simp: x)
  have "\<forall>p \<in> set (concat (map snd g)). data_at root1 p \<noteq> None" using c Cons.prems(2) by (auto simp: changed_def x)
  from Cons.IH [OF d(1) this] obtain root' where r: "run_events g (root1, out1) = (root', out1 @ calls_of root1 g)"
    "changed root1 root' (\<lambda>p. if p \<in> set (concat (map snd g)) then flipped else (\<lambda>d. d))" by blast
  have "data_at root1 p = data_at root p" if "p \<in> set (concat (map snd g))" for p
    using c d(2) that by (auto simp: changed_def option.map_ident)
  then have "calls_of root1 g = calls_of root g" unfolding calls_of_def by (intro map_cong refl) force
  then have "out1 @ calls_of root1 g = out @ calls_of root (x # g)"
    by (simp add: x out1_def calls_of_def)
  moreover have "changed root root' (\<lambda>p. if p \<in> set (concat (map snd (x # g))) then flipped else (\<lambda>d. d))"
  proof -
    have "(\<lambda>p d. (if p \<in> set (concat (map snd g)) then flipped else (\<lambda>d. d)) ((if p \<in> set ps then flipped else (\<lambda>d. d)) d))
        = (\<lambda>p. if p \<in> set (concat (map snd (x # g))) then flipped else (\<lambda>d. d))"
      using d(2) by (auto simp: fun_eq_iff x)
    with changed_trans [OF c r(2)] show ?thesis by simp
  qed
  ultimately show ?case using r(1) run by (auto simp del: run_events.simps)
qed

definition calls_to :: "nat option \<Rightarrow> handler_calls \<Rightarrow> cfg_data list" where
  "calls_to h out = concat (map snd (filter (\<lambda>c. fst c = h) out))"

lemma calls_to_append [simp]: "calls_to h (xs @ ys) = calls_to h xs @ calls_to h ys"
  by (simp add: calls_to_def)

lemma calls_to_groups:
  "distinct (map fst g) \<Longrightarrow> calls_to (Some a) (calls_of root g) = map (\<lambda>p. the (data_at root p)) (group_of a g)"
proof (induction g)
  case Nil
  then show ?case by (simp add: calls_to_def calls_of_def group_of_def)
next
  case (Cons x g)
  obtain b ps where x: "x = (b, ps)" by (cases x)
  have "b \<notin> fst ` set g" using Cons.prems x by simp
  then have "group_of b g = []" unfolding group_of_def nat_order.find_map_of
    by (metis map_of_eq_None_iff option.simps(4))
  moreover have "calls_to (Some a) (calls_of root g) = map (\<lambda>p. the (data_at root p)) (group_of a g)" using Cons by simp
  ultimately show ?case
    by (auto simp: x calls_to_def calls_of_def group_of_def nat_order.find_map_of)
qed

lemma calls_to_own [simp]: "calls_to None (calls_of root g) = []"
  by (induction g) (auto simp: calls_to_def calls_of_def)

lemma groups_partition:
  assumes "om_sorted (<) g" and "\<And>a. group_of a g = filter (W a) ps" and "distinct ps"
    and W: "\<And>a b p. W a p \<Longrightarrow> W b p \<Longrightarrow> a = b"
  shows "distinct (concat (map snd g))" and "set (concat (map snd g)) = {p \<in> set ps. \<exists>a. W a p}"
proof -
  have k: "distinct (map fst g)" using assms(1) by (rule nat_order.sorted_distinct)
  have e: "qs = filter (W a) ps" if "(a, qs) \<in> set g" for a qs
    using assms(2) [of a] map_of_is_SomeI [OF k that] by (simp add: group_of_def nat_order.find_map_of)
  have "distinct (concat (map snd h))" if "distinct (map fst h)" "set h \<subseteq> set g" for h
    using that
  proof (induction h)
    case (Cons x h)
    obtain a qs where x: "x = (a, qs)" by (cases x)
    have "qs = filter (W a) ps" using e Cons.prems(2) x by auto
    moreover have "set qs \<inter> set (concat (map snd h)) = {}"
    proof -
      have "False" if "p \<in> set qs" "(b, rs) \<in> set h" "p \<in> set rs" for p b rs
      proof -
        have "rs = filter (W b) ps" using e that(2) Cons.prems(2) by auto
        then have "a = b" using W that \<open>qs = filter (W a) ps\<close> by auto
        then show False using Cons.prems(1) that(2) x by force
      qed
      then show ?thesis by auto
    qed
    ultimately show ?case using Cons assms(3) x by auto
  qed simp
  then show "distinct (concat (map snd g))" using k by blast
  show "set (concat (map snd g)) = {p \<in> set ps. \<exists>a. W a p}"
  proof (intro equalityI subsetI)
    fix p assume "p \<in> set (concat (map snd g))"
    then obtain a qs where "(a, qs) \<in> set g" "p \<in> set qs" by auto
    with e [of a qs] show "p \<in> {p \<in> set ps. \<exists>a. W a p}" by auto
  next
    fix p assume "p \<in> {p \<in> set ps. \<exists>a. W a p}"
    then obtain a where "p \<in> set (group_of a g)" using assms(2) by auto
    then obtain qs where "map_of g a = Some qs" "p \<in> set qs"
      unfolding group_of_def nat_order.find_map_of by (cases "map_of g a") auto
    then show "p \<in> set (concat (map snd g))" by (force dest: map_of_SomeD)
  qed
qed

text \<open>One pass over the entries: the nodes that wait for their handler have been given to it.\<close>

definition handled :: "config_item \<Rightarrow> pos list \<Rightarrow> pos \<Rightarrow> cfg_data \<Rightarrow> cfg_data" where
  "handled root ps p = (if p \<in> set ps \<and> (\<exists>a. waiting root a p) then flipped else (\<lambda>d. d))"

lemma process_cfg_events_listed:
  assumes "list_all2 (listed split root) xs ps" and "distinct ps"
  shows "\<exists>root' calls. process_cfg_events split xs (root, out) = Some (root', out @ calls) \<and> calls_to None calls = [] \<and>
    changed root root' (\<lambda>p d. handled root ps p (per_entry event_at xs ps p d)) \<and>
    (\<forall>a. calls_to (Some a) calls = map (\<lambda>p. per_entry event_at xs ps p (the (data_at root p))) (filter (waiting root a) ps))"
proof -
  have "om_sorted (<) ([] :: event_groups)" by (simp add: om_sorted_def)
  from group_events_listed [OF assms this] obtain root1 g where g: "group_events split xs (root, []) = Some (root1, g)"
    "changed root root1 (per_entry event_at xs ps)" "om_sorted (<) g" "\<And>a. group_of a g = filter (waiting root a) ps"
    by (auto simp: group_of_def)
  have W: "waiting root a p \<Longrightarrow> waiting root b p \<Longrightarrow> a = b" for a b p by (auto simp: waiting_def)
  have parts: "distinct (concat (map snd g))" "set (concat (map snd g)) = {p \<in> set ps. \<exists>a. waiting root a p}"
    by (rule groups_partition [where W = "waiting root" and ps = ps]; use g(3,4) assms(2) W in blast)+
  have "data_at root1 p \<noteq> None" if "p \<in> set (concat (map snd g))" for p
  proof -
    from that have "p \<in> {p \<in> set ps. \<exists>a. waiting root a p}" by (simp only: parts(2))
    then obtain a where "waiting root a p" by blast
    then show ?thesis using g(2) by (auto simp: changed_def waiting_def)
  qed
  then have "\<forall>p \<in> set (concat (map snd g)). data_at root1 p \<noteq> None" by blast
  from run_events_calls [OF parts(1) this, where out = out] obtain root' where r: "run_events g (root1, out) = (root', out @ calls_of root1 g)"
    "changed root1 root' (\<lambda>p. if p \<in> set (concat (map snd g)) then flipped else (\<lambda>d. d))" by blast
  have "(\<lambda>p d. (if p \<in> set (concat (map snd g)) then flipped else (\<lambda>d. d)) (per_entry event_at xs ps p d))
      = (\<lambda>p d. handled root ps p (per_entry event_at xs ps p d))"
    unfolding parts(2) by (auto simp: handled_def fun_eq_iff)
  with changed_trans [OF g(2) r(2)] have c: "changed root root' (\<lambda>p d. handled root ps p (per_entry event_at xs ps p d))" by simp
  have "calls_to (Some a) (calls_of root1 g) = map (\<lambda>p. the (data_at root1 p)) (filter (waiting root a) ps)" for a
    using calls_to_groups [OF nat_order.sorted_distinct [OF g(3)]] g(4) by simp
  moreover have "the (data_at root1 p) = per_entry event_at xs ps p (the (data_at root p))" if "waiting root a p" for a p
    using g(2) that by (auto simp: changed_def waiting_def)
  ultimately have "\<forall>a. calls_to (Some a) (calls_of root1 g) = map (\<lambda>p. per_entry event_at xs ps p (the (data_at root p))) (filter (waiting root a) ps)"
    by auto
  moreover have "process_cfg_events split xs (root, out) = Some (root', out @ calls_of root1 g)"
    using g(1) r(1) by (simp add: process_cfg_events_def)
  ultimately show ?thesis using c calls_to_own by blast
qed

section \<open>The update\<close>

definition updated :: "cfg_data list \<Rightarrow> pos list \<Rightarrow> pos \<Rightarrow> cfg_data \<Rightarrow> cfg_data" where
  "updated = per_entry (\<lambda>x d. settled_data (value_at x d))"

text \<open>
  The update arrives: the copy gets the value of every entry, its nodes are ready and nothing else changes;
  each handler is called for exactly those of its nodes that are listed, with the new value and
  state, each once; the user's own handler gets the entries at the end.
\<close>

lemma update_done_listed:
  assumes l: "list_all2 (listed split root) xs ps" and d: "distinct ps"
    and fresh: "\<forall>p \<in> set ps. \<forall>d. data_at root p = Some d \<longrightarrow> \<not> c_onc_exec d"
  shows "\<exists>root' out. update_done split own xs root = Some (root', out) \<and>
    skel root' = skel root \<and> (\<forall>p. data_at root' p = map_option (updated xs ps p) (data_at root p)) \<and>
    (\<forall>a. calls_to (Some a) out = map (\<lambda>p. per_entry event_data xs ps p (the (data_at root p)))
       (filter (\<lambda>p. \<exists>d. data_at root p = Some d \<and> c_on_change d = Some a) ps)) \<and>
    calls_to None out = (if own then map cleared xs else [])"
proof -
  from process_cfg_events_listed [OF l d, of "[]"] obtain r1 c1 where
    p1: "process_cfg_events split xs (root, []) = Some (r1, c1)" "calls_to None c1 = []"
    "changed root r1 (\<lambda>p d. handled root ps p (per_entry event_at xs ps p d))"
    "\<forall>a. calls_to (Some a) c1 = map (\<lambda>p. per_entry event_at xs ps p (the (data_at root p))) (filter (waiting root a) ps)" by auto
  have l1: "list_all2 (listed split r1) xs ps" using l changed_listed [OF p1(3)] by (simp add: list_all2_mono)
  from apply_entries_listed [OF l1 d] obtain r2 where
    p2: "apply_entries split xs r1 = Some (map cleared xs, r2)" "changed r1 r2 (per_entry value_at xs ps)" by blast
  have ps: "length xs = length ps" using l by (rule list_all2_lengthD)
  have nm: "c_name (cleared x) = c_name x" for x by (simp add: cleared_def)
  have l2: "list_all2 (listed split r2) (map cleared xs) ps"
  proof -
    have "listed split r2 (cleared x) p = listed split r1 x p" for x p
      using changed_listed [OF p2(2), of split "cleared x" p] by (simp add: listed_def nm)
    then show ?thesis using l1 by (simp add: list_all2_map1 list_all2_mono)
  qed
  from process_cfg_events_listed [OF l2 d, of c1] obtain r3 c3 where
    p3: "process_cfg_events split (map cleared xs) (r2, c1) = Some (r3, c1 @ c3)" "calls_to None c3 = []"
    "changed r2 r3 (\<lambda>p d. handled r2 ps p (per_entry event_at (map cleared xs) ps p d))"
    "\<forall>a. calls_to (Some a) c3 = map (\<lambda>p. per_entry event_at (map cleared xs) ps p (the (data_at r2 p))) (filter (waiting r2 a) ps)" by blast
  have l3: "list_all2 (listed split r3) (map cleared xs) ps" using l2 changed_listed [OF p3(3)] by (simp add: list_all2_mono)
  from settle_entries_listed [OF l3 d] obtain r4 where
    p4: "settle_entries split (map cleared xs) r3 = Some r4" "changed r3 r4 (per_entry (\<lambda>x. settled_data) (map cleared xs) ps)" by blast
  have run: "update_done split own xs root = Some (r4, if own then (c1 @ c3) @ [(None, map cleared xs)] else c1 @ c3)"
    using p1(1) p2(1) p3(1) p4(1) by (simp add: update_done_def)
  have entry: "\<exists>x. map_of (zip ps xs) p = Some x \<and> map_of (zip ps (map cleared xs)) p = Some (cleared x)" if "p \<in> set ps" for p
  proof -
    have "\<exists>x. map_of (zip ps xs) p = Some x" using that ps map_of_zip_is_Some [of ps xs p] by simp
    then show ?thesis by (auto simp: zip_map2 map_of_map)
  qed
  have other: "map_of (zip ps xs) p = None" "map_of (zip ps (map cleared xs)) p = None" if "p \<notin> set ps" for p
    using that ps by (auto simp: map_of_zip_is_None)
  have data: "settled_data (f (event_at (cleared x) (value_at x (g (event_at x d))))) = settled_data (value_at x d)"
    if "f \<in> {\<lambda>d. d, flipped}" "g \<in> {\<lambda>d. d, flipped}" for f g x d
    using that by (auto simp: settled_data_def event_at_def event_data_def value_at_def cleared_def flipped_def Let_def)
  have h: "handled r ps p \<in> {\<lambda>d. d, flipped}" for r p by (simp add: handled_def)
  note c = changed_trans [OF changed_trans [OF changed_trans [OF p1(3) p2(2)] p3(3)] p4(2)]
  have final: "data_at r4 p = map_option (updated xs ps p) (data_at root p)" for p
  proof (cases "p \<in> set ps")
    case True
    from entry [OF True] obtain x where x: "map_of (zip ps xs) p = Some x" "map_of (zip ps (map cleared xs)) p = Some (cleared x)" by blast
    show ?thesis using c data [OF h h] by (simp add: changed_def updated_def per_entry_def x)
  next
    case False
    then show ?thesis using c by (simp add: changed_def updated_def per_entry_def other handled_def)
  qed
  have first: "filter (waiting root a) ps = filter (\<lambda>p. \<exists>d. data_at root p = Some d \<and> c_on_change d = Some a) ps" for a
    using fresh by (intro filter_cong) (auto simp: waiting_def)
  have onc: "c_onc_exec (per_entry value_at xs ps p (flipped (per_entry event_at xs ps p d)))" if "\<not> c_onc_exec d" for p d
    using that by (auto simp: per_entry_def value_at_def flipped_def event_at_def event_data_def Let_def split: option.split)
  have second: "filter (waiting r2 a) ps = []" for a
  proof -
    have "\<not> waiting r2 a p" if "p \<in> set ps" for p
    proof
      assume w: "waiting r2 a p"
      have e: "data_at r2 p = map_option (\<lambda>d. per_entry value_at xs ps p (handled root ps p (per_entry event_at xs ps p d))) (data_at root p)"
        using p1(3) p2(2) by (simp add: changed_def option.map_comp comp_def)
      with w obtain d where dd: "data_at root p = Some d" by (auto simp: waiting_def)
      have "c_on_change d = Some a" using w p1(3) p2(2) dd by (auto simp: waiting_def changed_def keeps_def)
      then have "waiting root a p" using dd fresh that by (auto simp: waiting_def)
      then have "handled root ps p = flipped" using that by (auto simp: handled_def)
      then show False using w e dd onc fresh that by (auto simp: waiting_def)
    qed
    then show ?thesis by (simp add: filter_empty_conv)
  qed
  have "calls_to (Some a) (c1 @ c3) = map (\<lambda>p. per_entry event_data xs ps p (the (data_at root p)))
       (filter (\<lambda>p. \<exists>d. data_at root p = Some d \<and> c_on_change d = Some a) ps)" for a
  proof -
    have "per_entry event_at xs ps p (the (data_at root p)) = per_entry event_data xs ps p (the (data_at root p))"
      if "\<exists>d. data_at root p = Some d \<and> c_on_change d = Some a" for p
      using that by (auto simp: per_entry_def event_at_def split: option.split)
    then show ?thesis using p1(4) p3(4) first second by simp
  qed
  moreover have "calls_to None [(None, ys)] = ys" "calls_to (Some a) [(None, ys)] = []" for ys a by (simp_all add: calls_to_def)
  moreover have "skel r4 = skel root" using c by (simp add: changed_def)
  ultimately show ?thesis using run final p1(2) p3(2)
    by (intro exI [of _ r4] exI [of _ "if own then (c1 @ c3) @ [(None, map cleared xs)] else c1 @ c3"] conjI allI) auto
qed

text \<open>
  C22. Handlers run exactly once: for an update of items, each handler is called with those of its nodes that
  have an entry, each of them once, with the value and the state the entry brings, and the copy
  then holds these values with all listed nodes ready.
\<close>

theorem handlers_run_once:
  assumes "list_all2 (listed split root) xs ps" and "distinct ps"
    and "\<forall>p \<in> set ps. \<forall>d. data_at root p = Some d \<longrightarrow> \<not> c_onc_exec d"
  shows "\<exists>root' out. update_done split own xs root = Some (root', out) \<and>
    (\<forall>a. calls_to (Some a) out = map (\<lambda>p. per_entry event_data xs ps p (the (data_at root p)))
       (filter (\<lambda>p. \<exists>d. data_at root p = Some d \<and> c_on_change d = Some a) ps)) \<and>
    (\<forall>p. data_at root' p = map_option (updated xs ps p) (data_at root p))"
  using update_done_listed [OF assms] by blast

text \<open>
  C21. A commit of changed items reaches the copies: if every entry that is prepared for a notification names an
  item the copy of the subscriber has, each its own, without a handler that was already run, the entries are sent, arrive and are
  applied, so that the copy holds the new value of every one of these items
  (nothing for a deleted one) and is otherwise as before. Entries of blocks are not covered: a deleted block
  comes back in the copy, as shown below.
\<close>

theorem commit_reaches_copy:
  assumes "c_name (dat root) = ''ROOT''" and "cn_items (h a) = []"
    and "list_all2 (listed split copy) (prepared_for cf a (changed_from [] root)) ps" and "distinct ps"
    and "\<forall>p \<in> set ps. \<forall>d. data_at copy p = Some d \<longrightarrow> \<not> c_onc_exec d"
  shows "\<exists>h' l' b s u0 u copy' out. prepare_notifications cf root (h, l) = Some (h', l') \<and>
    notify_user (cn_items (h' a)) = (b, s) \<and> update_new (Config_body b) = Some (Continue, u0) \<and>
    deliver (Suc (length (cn_items (h' a)))) s u0 = Some u \<and> update_done split own (cu_res u) copy = Some (copy', out) \<and>
    (\<forall>p. data_at copy' p = map_option (updated (prepared_for cf a (changed_from [] root)) ps p) (data_at copy p))"
proof -
  let ?xs = "prepared_for cf a (changed_from [] root)"
  obtain h' l' where p: "prepare_notifications cf root (h, l) = Some (h', l')" "cn_items (h' a) = ?xs"
    using notifications_prepared [OF assms(1), of cf "(h, l)"] assms(2) by (auto simp: noted_def)
  have e: "sent_entry x = x" if "x \<in> set ?xs" for x using that by (auto simp: prepared_for_def)
  obtain b s where n: "notify_user ?xs = (b, s)" by (cases "notify_user ?xs")
  from notification_arrives [of ?xs] n obtain u0 u where u: "update_new (Config_body b) = Some (Continue, u0)"
    "deliver (Suc (length ?xs)) s u0 = Some u" "cu_res u = map sent_entry ?xs" by (auto simp del: deliver.simps)
  have "cu_res u = ?xs" using u(3) e by (simp add: map_idI)
  then show ?thesis using p n u(1,2) update_done_listed [OF assms(3-5), of own] by (simp del: deliver.simps) blast
qed

section \<open>Where the copy goes wrong\<close>

text \<open>
  A block deleted together with changes below it comes back: its entry removes it, and the entries for
  the changed nodes below make it again, as the look-up may create what it does not find.
\<close>

definition demo_split :: "string \<Rightarrow> string list option" where
  "demo_split s = Some (if s = ''a b'' then [''a'', ''b''] else [s])"

definition demo_copy :: config_item where
  "demo_copy = Item (new_data\<lparr>c_name := ''ROOT'', c_node_type := CONFIG_NT_BLOCK\<rparr>)
     [Item (new_data\<lparr>c_name := ''a'', c_node_type := CONFIG_NT_BLOCK\<rparr>)
       [Item (new_data\<lparr>c_name := ''b'', c_value := ''1'', c_node_type := CONFIG_NT_ITEM\<rparr>) []]]"

definition demo_entries :: "cfg_data list" where
  "demo_entries = [new_data\<lparr>c_name := ''a'', c_node_state := CONFIG_NS_DELETED, c_node_type := CONFIG_NT_BLOCK\<rparr>,
     new_data\<lparr>c_name := ''a b'', c_value := ''2'', c_node_state := CONFIG_NS_MODIFIED, c_node_type := CONFIG_NT_ITEM\<rparr>]"

lemma deleted_block_returns:
  "\<exists>root out. update_done demo_split False demo_entries demo_copy = Some (root, out) \<and>
     map_option c_value (data_at root [0, 0]) = Some ''2''"
proof -
  define r where "r = the (update_done demo_split False demo_entries demo_copy)"
  have "update_done demo_split False demo_entries demo_copy = Some r" "map_option c_value (data_at (fst r) [0, 0]) = Some ''2''"
    unfolding r_def by code_simp+
  then show ?thesis by (cases r) auto
qed

section \<open>Witnesses\<close>

definition demo_flat :: "ConfigNodeState \<Rightarrow> string \<Rightarrow> config_item" where
  "demo_flat s v = Item (new_data\<lparr>c_name := ''ROOT'', c_node_type := CONFIG_NT_BLOCK\<rparr>)
     [Item (new_data\<lparr>c_name := ''port'', c_node_type := CONFIG_NT_ITEM, c_node_state := s, c_new_value := v, c_on_change := Some 5\<rparr>) []]"

theorem handlers_run_once_witness:
  "\<exists>root' out. update_done demo_split True [entry ''port'' (new_data\<lparr>c_new_value := ''80'', c_node_state := CONFIG_NS_MODIFIED\<rparr>)]
      (demo_flat CONFIG_NS_READY []) = Some (root', out) \<and> map c_value (calls_to (Some 5) out) = [''80''] \<and>
    map_option c_value (data_at root' [0]) = Some ''80''"
proof -
  let ?x = "entry ''port'' (new_data\<lparr>c_new_value := ''80'', c_node_state := CONFIG_NS_MODIFIED\<rparr>)"
  let ?c = "demo_flat CONFIG_NS_READY []"
  have l: "list_all2 (listed demo_split ?c) [?x] [[0]]"
  proof -
    have "find_pos demo_split ?c (c_name ?x) = Some (Some [0])" by code_simp
    moreover have "data_at ?c [0] = Some (dat (hd (children ?c)))" "c_node_type (dat (hd (children ?c))) = CONFIG_NT_ITEM"
      by (simp_all add: data_at_def demo_flat_def)
    ultimately show ?thesis by (simp add: listed_def)
  qed
  have d: "data_at ?c [0] = Some (dat (hd (children ?c)))" "c_on_change (dat (hd (children ?c))) = Some 5" "\<not> c_onc_exec (dat (hd (children ?c)))"
    by (simp_all add: data_at_def demo_flat_def new_data_def)
  from handlers_run_once [OF l, of True] d obtain root' out where
    "update_done demo_split True [?x] ?c = Some (root', out)"
    "calls_to (Some 5) out = map (\<lambda>p. per_entry event_data [?x] [[0]] p (the (data_at ?c p)))
       (filter (\<lambda>p. \<exists>d. data_at ?c p = Some d \<and> c_on_change d = Some 5) [[0]])"
    "data_at root' [0] = map_option (updated [?x] [[0]] [0]) (data_at ?c [0])" by auto
  then show ?thesis using d
    by (auto simp: per_entry_def updated_def settled_data_def value_at_def entry_def event_data_def Let_def)
qed

theorem commit_reaches_copy_witness:
  "\<exists>h' l' (u :: cfg_update) copy' out. prepare_notifications (new_config\<lparr>notifications := [(7, ''ROOT'')]\<rparr>) (demo_flat CONFIG_NS_MODIFIED ''80'')
      (\<lambda>_. new_notification, []) = Some (h', l') \<and> update_done demo_split False (cu_res u) (demo_flat CONFIG_NS_READY []) = Some (copy', out) \<and>
    map_option c_value (data_at copy' [0]) = Some ''80''"
proof -
  let ?root = "demo_flat CONFIG_NS_MODIFIED ''80''" and ?c = "demo_flat CONFIG_NS_READY []"
  let ?cf = "new_config\<lparr>notifications := [(7, ''ROOT'')]\<rparr>"
  let ?x = "entry ''port'' (dat (hd (children ?root)))"
  have x: "prepared_for ?cf 7 (changed_from [] ?root) = [?x]"
    by (simp add: prepared_for_def demo_flat_def new_data_def node_line_def get_parent_line_def get_notification_def new_config_def)
  have n: "c_name (dat ?root) = ''ROOT''" by (simp add: demo_flat_def)
  have d: "data_at ?c [0] = Some (dat (hd (children ?c)))" "\<not> c_onc_exec (dat (hd (children ?c)))"
    "c_node_type (dat (hd (children ?c))) = CONFIG_NT_ITEM"
    by (simp_all add: data_at_def demo_flat_def new_data_def)
  have l: "list_all2 (listed demo_split ?c) (prepared_for ?cf 7 (changed_from [] ?root)) [[0]]"
  proof -
    have "find_pos demo_split ?c (c_name ?x) = Some (Some [0])" by code_simp
    then show ?thesis unfolding x using d by (simp add: listed_def)
  qed
  have dd: "distinct [[0 :: nat]]" by simp
  have i: "cn_items (new_notification) = []" by (simp add: new_notification_def)
  have f: "\<forall>p \<in> set [[0]]. \<forall>d. data_at ?c p = Some d \<longrightarrow> \<not> c_onc_exec d" using d by simp
  note run = commit_reaches_copy [OF n, of "\<lambda>_. new_notification" 7, OF i l dd f, of "[]" False, unfolded x]
  have v: "map_option c_value (map_option (updated [?x] [[0]] [0]) (data_at ?c [0])) = Some ''80''"
    using d by (simp add: per_entry_def updated_def settled_data_def value_at_def entry_def demo_flat_def)
  from run show ?thesis
    by (elim exE conjE) (intro exI conjI, assumption, assumption, simp only: v)
qed

end
