(* ===== verification/BerTree.thy ===== *)
theory BerTree
  imports Ber
begin

text \<open>
  Whole BER messages, of \<^verbatim>\<open>src/src/asn1/asn1.cpp\<close>: the node pool (\<^verbatim>\<open>ASN1Pool\<close>), a reference decoder
  for the decoder without a definition, and the encoder (\<^verbatim>\<open>encode\<close>) of a prepared definition tree. The
  pool hands out its nodes round and round. The decoder of the code, on the objects of the pool, is in
  \<^verbatim>\<open>BerPool\<close>. A node of a definition tree is linked to itself, as \<^verbatim>\<open>prepare\<close> leaves it, or to nothing.
\<close>

section \<open>The pool\<close>

record asn1_pool =
  tlv_count :: nat
  free_tlv_count :: nat
  next_free_tlv :: nat
  asn1_node_count :: nat
  free_asn1_node_count :: nat
  next_free_asn1_node :: nat

definition set_pool_size :: "nat \<Rightarrow> nat \<Rightarrow> asn1_pool \<Rightarrow> asn1_pool" where
  "set_pool_size t n p = p\<lparr>tlv_count := t, free_tlv_count := t, asn1_node_count := n, free_asn1_node_count := n\<rparr>"

definition init_pool :: "asn1_pool \<Rightarrow> asn1_pool" where
  "init_pool p = p\<lparr>next_free_tlv := free_tlv_count p - 1, next_free_asn1_node := free_asn1_node_count p - 1\<rparr>"

definition request_tlv :: "asn1_pool \<Rightarrow> nat \<times> asn1_pool" where
  "request_tlv p = (let f = free_tlv_count p - 1; f' = (if f = 0 then tlv_count p else f)
     in (next_free_tlv p, p\<lparr>free_tlv_count := f', next_free_tlv := f' - 1\<rparr>))"

definition request_asn1_node :: "asn1_pool \<Rightarrow> nat \<times> asn1_pool" where
  "request_asn1_node p = (let f = free_asn1_node_count p - 1; f' = (if f = 0 then asn1_node_count p else f)
     in (next_free_asn1_node p, p\<lparr>free_asn1_node_count := f', next_free_asn1_node := f' - 1\<rparr>))"

section \<open>A reference decoder\<close>

text \<open>
  A specification, not the code: the loop of \<^verbatim>\<open>_decode\<close> with nodes that are values of their own, which
  nothing overwrites. A node carries the slots of the two pool objects the code would use for it.
  The loop is at offset \<^term>\<open>pos\<close> of the \<^term>\<open>len\<close> octets at \<^term>\<open>base\<close>; \<^term>\<open>used\<close> is
  the node counter, which the recursive call through the public \<^verbatim>\<open>decode\<close> starts anew. The result
  is the return code, the pool and the children of the root.
\<close>

datatype ber_node = BerNode (n_tlv: tlv_node) (n_slot: nat) (n_node: nat) (n_kids: "ber_node list")

definition ber_full_length :: "tlv_node \<Rightarrow> u32" where
  "ber_full_length t = of_nat (value_length_size t) + value_length t + of_nat (tag_value_size t)
     + (if length_type t = INDEFINITE then 2 else 0)"

partial_function (option) decode_loop :: "octets \<Rightarrow> nat \<Rightarrow> u32 \<Rightarrow> u32 \<Rightarrow> nat \<Rightarrow> asn1_pool \<Rightarrow> ber_node list
    \<Rightarrow> (nat \<times> asn1_pool \<times> ber_node list) option" where
  "decode_loop mem base len pos used p acc =
     (if pos < len then
        (if tlv_count p < Suc used then Some (400, snd (request_tlv p), acc)
         else Option.bind (decode_tag mem (base + unat pos) len (new_tlv\<lparr>full_tlv := base + unat pos\<rparr>)) (\<lambda>t1.
           Option.bind (decode_length mem (base + unat (pos + of_nat (tag_value_size t1)))
               (len - (pos + of_nat (tag_value_size t1))) t1) (\<lambda>r.
             if fst r \<noteq> 0 then Some (300, snd (request_tlv p), acc)
             else if value_length (snd r)
                 > len - (pos + of_nat (tag_value_size t1) + of_nat (value_length_size (snd r)))
               then Some (200, snd (request_tlv p), acc)
             else Option.bind
               (if complexity (snd r) = CONSTRUCTED
                then decode_loop mem
                  (base + unat (pos + of_nat (tag_value_size t1) + of_nat (value_length_size (snd r))))
                  (value_length (snd r)) 0 0 (snd (request_asn1_node (snd (request_tlv p)))) []
                else Some (0, snd (request_asn1_node (snd (request_tlv p))), [])) (\<lambda>s.
               if fst s \<noteq> 0 then Some (fst s, fst (snd s), acc @ [BerNode ((snd r)
                   \<lparr>full_tlv_length := ber_full_length (snd r),
                    value_at := base + unat (pos + of_nat (tag_value_size t1) + of_nat (value_length_size (snd r)))\<rparr>)
                   (fst (request_tlv p)) (fst (request_asn1_node (snd (request_tlv p)))) (snd (snd s))])
               else decode_loop mem base len
                 (pos + of_nat (tag_value_size t1) + of_nat (value_length_size (snd r)) + (value_length (snd r)
                    + (if length_type (snd r) = INDEFINITE then 2 else 0)))
                 (Suc used) (fst (snd s)) (acc @ [BerNode ((snd r)
                   \<lparr>full_tlv_length := ber_full_length (snd r),
                    value_at := base + unat (pos + of_nat (tag_value_size t1) + of_nat (value_length_size (snd r)))\<rparr>)
                   (fst (request_tlv p)) (fst (request_asn1_node (snd (request_tlv p)))) (snd (snd s))])))))
      else Some (0, p, acc))"

section \<open>Definition trees\<close>

datatype asn1_node = ASN1Node (a_tlv: "tlv_node option") (a_value: octets) (a_session: u64) (a_linked: bool)
  (a_choice: "nat option") (a_kids: "asn1_node list")

fun asn1_prepare :: "asn1_node \<Rightarrow> asn1_node" where
  "asn1_prepare (ASN1Node t v s l c ks) = ASN1Node t v s True c (map asn1_prepare ks)"

fun set_session_id :: "u64 \<Rightarrow> asn1_node \<Rightarrow> asn1_node" where
  "set_session_id i (ASN1Node t v s l c ks) = ASN1Node t v i l c (map (set_session_id i) ks)"

fun asn1_reset :: "asn1_node \<Rightarrow> asn1_node" where
  "asn1_reset (ASN1Node t v s l c ks) = (case t of
       Some tlv \<Rightarrow> if l then ASN1Node (Some (tlv\<lparr>tag_value_size := 0, value_length := 0, value_length_size := 0,
           old_value_length := 0\<rparr>)) [] s l c (map asn1_reset ks) else ASN1Node t v s l c ks
     | None \<Rightarrow> ASN1Node t v s l c ks)"

definition has_linked_data :: "u64 \<Rightarrow> asn1_node \<Rightarrow> bool" where
  "has_linked_data s n \<longleftrightarrow> a_linked n \<and> a_session n = s"

definition node_exists :: "asn1_node option \<Rightarrow> u64 \<Rightarrow> bool" where
  "node_exists n s \<longleftrightarrow> (case n of None \<Rightarrow> False | Some x \<Rightarrow> has_linked_data s x)"

text \<open>
  The identifiers of sessions: when the counter wraps, the sessions of all nodes are cleared and
  0 is skipped.
\<close>

definition get_next_id :: "u64 \<Rightarrow> asn1_node \<Rightarrow> u64 \<times> asn1_node" where
  "get_next_id sid n = (if sid + 1 = 0 then (1, set_session_id 0 n) else (sid + 1, n))"

text \<open>
  \<^verbatim>\<open>update_parents\<close>. Its first part prepares the node's length and tag and computes the change of
  the node's full size; \<^term>\<open>bump\<close> adds it to the parent, when that is linked and has a TLV, and
  tells whether the update goes on; \<^term>\<open>update_parents\<close> goes from the node at a path of child
  indices up to the root. A missing TLV is a null pointer: no result.
\<close>

definition put_tlv :: "tlv_node \<Rightarrow> asn1_node \<Rightarrow> asn1_node" where
  "put_tlv t n = ASN1Node (Some t) (a_value n) (a_session n) (a_linked n) (a_choice n) (a_kids n)"

definition put_kid :: "nat \<Rightarrow> asn1_node \<Rightarrow> asn1_node \<Rightarrow> asn1_node" where
  "put_kid i k n = ASN1Node (a_tlv n) (a_value n) (a_session n) (a_linked n) (a_choice n) ((a_kids n)[i := k])"

definition tlv_update :: "tlv_node \<Rightarrow> tlv_node \<times> u32" where
  "tlv_update t = (let t1 = prepare_length t;
       d = value_length t1 + of_nat (value_length_size t1) - old_value_length t1
     in if tag_value_size t1 < 1 then (prepare_tag t1, d + of_nat (tag_value_size (prepare_tag t1))) else (t1, d))"

definition bump :: "u64 \<Rightarrow> nat \<Rightarrow> asn1_node \<Rightarrow> (asn1_node \<times> bool) option" where
  "bump s i n = (case a_tlv (a_kids n ! i) of None \<Rightarrow> None
     | Some c \<Rightarrow> (let c1 = fst (tlv_update c); d = snd (tlv_update c)
         in case (a_linked n, a_tlv n) of
              (True, Some p) \<Rightarrow>
                Some (ASN1Node (Some (if uni_tag_class p \<noteq> CHOICE then p\<lparr>value_length := value_length p + d\<rparr>
                     else p\<lparr>value_length := value_length c1, value_length_size := value_length_size c1\<rparr>))
                  (a_value n) s True (if uni_tag_class p \<noteq> CHOICE then a_choice n else Some i)
                  ((a_kids n)[i := put_tlv (c1\<lparr>old_value_length := value_length c1 + of_nat (value_length_size c1)\<rparr>)
                     (a_kids n ! i)]), True)
            | _ \<Rightarrow> Some (ASN1Node (a_tlv n) (a_value n) s (a_linked n) (a_choice n)
                  ((a_kids n)[i := put_tlv c1 (a_kids n ! i)]), False)))"

fun climb :: "u64 \<Rightarrow> nat list \<Rightarrow> asn1_node \<Rightarrow> (asn1_node \<times> bool) option" where
  "climb s [] n = Some (n, True)"
| "climb s (i # is) n = (if i < length (a_kids n) then
     Option.bind (climb s is (a_kids n ! i)) (\<lambda>(k, up).
       if up then bump s i (put_kid i k n) else Some (put_kid i k n, False))
   else None)"

definition update_parents :: "u64 \<Rightarrow> nat list \<Rightarrow> asn1_node \<Rightarrow> asn1_node option" where
  "update_parents s path n = Option.bind (climb s path n) (\<lambda>(n', up).
     if up then map_option (\<lambda>t. put_tlv (fst (tlv_update t)) n') (a_tlv n') else Some n')"

text \<open>The node at a path, and a change of it.\<close>

fun node_at :: "nat list \<Rightarrow> asn1_node \<Rightarrow> asn1_node option" where
  "node_at [] n = Some n"
| "node_at (i # is) n = (if i < length (a_kids n) then node_at is (a_kids n ! i) else None)"

fun change_at :: "nat list \<Rightarrow> (asn1_node \<Rightarrow> asn1_node) \<Rightarrow> asn1_node \<Rightarrow> asn1_node" where
  "change_at [] f n = f n"
| "change_at (i # is) f n = (if i < length (a_kids n) then put_kid i (change_at is f (a_kids n ! i)) n else n)"

text \<open>\<^verbatim>\<open>set_linked_data\<close>, of a session alone and of a session with the octets of the value.\<close>

definition set_linked_data :: "u64 \<Rightarrow> nat list \<Rightarrow> asn1_node \<Rightarrow> asn1_node option" where
  "set_linked_data s path n = update_parents s path
     (change_at path (\<lambda>m. ASN1Node (a_tlv m) (a_value m) s True (a_choice m) (a_kids m)) n)"

definition set_linked_value :: "u64 \<Rightarrow> nat list \<Rightarrow> octets \<Rightarrow> asn1_node \<Rightarrow> asn1_node option" where
  "set_linked_value s path data n = (case node_at path n of
       None \<Rightarrow> None
     | Some m \<Rightarrow> (case a_tlv m of
           None \<Rightarrow> Some (change_at path (\<lambda>m. ASN1Node None (a_value m) (a_session m) True (a_choice m) (a_kids m)) n)
         | Some t \<Rightarrow> update_parents s path (change_at path (\<lambda>m.
             ASN1Node (Some (t\<lparr>value_length := of_nat (length data)\<rparr>)) data s True (a_choice m) (a_kids m)) n)))"

text \<open>
  \<^verbatim>\<open>unlink\<close>: the value length is set so that the update takes the node's full size off the
  parents, and afterwards set back, with session 0.
\<close>

definition unlink_kid :: "asn1_node \<Rightarrow> asn1_node" where
  "unlink_kid k = ASN1Node (map_option (\<lambda>t. t\<lparr>old_value_length := 0\<rparr>) (a_tlv k)) (a_value k) 0 (a_linked k)
     (a_choice k) (a_kids k)"

definition unlink :: "u64 \<Rightarrow> nat list \<Rightarrow> asn1_node \<Rightarrow> asn1_node option" where
  "unlink s path n = (case node_at path n of
       None \<Rightarrow> None
     | Some m \<Rightarrow> (case a_tlv m of
           None \<Rightarrow> Some n
         | Some t \<Rightarrow> if a_linked m \<and> 0 < tag_value_size t then
             if uni_tag_class t = CHOICE \<and> list_ex (\<lambda>k. a_tlv k = None) (a_kids m) then None
             else map_option (change_at path (\<lambda>m. ASN1Node
                 (map_option (\<lambda>u. u\<lparr>value_length := value_length t\<rparr>) (a_tlv m)) (a_value m) 0 (a_linked m) (a_choice m)
                 (if uni_tag_class t = CHOICE then map unlink_kid (a_kids m) else a_kids m)))
               (update_parents s path (change_at path (\<lambda>m.
                 ASN1Node (Some (t\<lparr>value_length := 0 - of_nat (tag_value_size t) - 1\<rparr>)) (a_value m) s (a_linked m)
                   (a_choice m) (a_kids m)) n))
           else Some n))"

section \<open>Encoding\<close>

text \<open>
  The octets of one field that advances the buffer by \<^term>\<open>n\<close>: more octets are overwritten by the
  next field, fewer leave a gap of unknown contents.
\<close>

definition field_of :: "nat \<Rightarrow> octets \<Rightarrow> octets option" where
  "field_of n os = (if n \<le> length os then Some (take n os) else None)"

text \<open>The tag and complexity an unset node gets before it is written.\<close>

definition completed :: "bool \<Rightarrow> tlv_node \<Rightarrow> tlv_node" where
  "completed leaf t = (let t1 = (if tag_value t = UNKNOWN_UNIVERSAL_TAG
       then t\<lparr>tag_value := uni_tag_class t, tag_class := 0\<rparr> else t)
     in if complexity t1 = - 1 then t1\<lparr>complexity := (if leaf then PRIMITIVE else CONSTRUCTED)\<rparr> else t1)"

text \<open>
  \<^verbatim>\<open>encode\<close> of a node into a buffer of \<^term>\<open>bl\<close> octets: the octets written and the node after it.
  The remaining length is only compared with 0.
\<close>

function encode_node :: "u64 \<Rightarrow> int \<Rightarrow> asn1_node \<Rightarrow> (octets \<times> asn1_node) option"
  and encode_kids :: "u64 \<Rightarrow> int \<Rightarrow> asn1_node list \<Rightarrow> (octets \<times> asn1_node list) option" where
  "encode_node s bl (ASN1Node t0 v sid lk ch ks) =
     (if bl > 0 \<and> lk \<and> sid = s then
        (case t0 of
           None \<Rightarrow> Some ([], ASN1Node t0 v sid lk ch ks)
         | Some t \<Rightarrow>
             if uni_tag_class t \<noteq> CHOICE then
               (let t1 = completed (ks = []) t in
                Option.bind (field_of (tag_value_size t1) (encode_prepared_tag (nat bl) t1)) (\<lambda>tagb.
                Option.bind (encode_prepared_length (unat (word_of_int bl - of_nat (tag_value_size t1) :: u32)) t1) (\<lambda>lo.
                Option.bind (field_of (value_length_size t1) lo) (\<lambda>lenb.
                  if complexity t1 = PRIMITIVE \<or> override_auto_complexity t1 then
                    (if unat (value_length t1) \<le> length v
                     then Some (tagb @ lenb @ take (unat (value_length t1)) v, ASN1Node (Some t1) v sid lk ch ks)
                     else None)
                  else if complexity t1 = CONSTRUCTED then
                    map_option (\<lambda>(os, ks'). (tagb @ lenb @ os, ASN1Node (Some t1) v sid lk ch ks'))
                      (encode_kids s (bl - int (tag_value_size t1) - int (value_length_size t1)) ks)
                  else Some (tagb @ lenb, ASN1Node (Some t1) v sid lk ch ks)))))
             else (case ch of
                 None \<Rightarrow> Some ([], ASN1Node t0 v sid lk ch ks)
               | Some i \<Rightarrow> if i < length ks then
                   map_option (\<lambda>(os, n). (os, ASN1Node t0 v sid lk ch (ks[i := n]))) (encode_node s bl (ks ! i))
                   else None))
      else Some ([], ASN1Node t0 v sid lk ch ks))"
| "encode_kids s bl [] = Some ([], [])"
| "encode_kids s bl (k # ks) = Option.bind (encode_node s bl k) (\<lambda>(os, k').
     map_option (\<lambda>(os', ks'). (os @ os', k' # ks')) (encode_kids s (bl - int (length os)) ks))"
  by pat_completeness auto
termination
proof (relation "measure (\<lambda>x. case x of Inl (_, _, n) \<Rightarrow> size n | Inr (_, _, ks) \<Rightarrow> size_list size ks)", goal_cases)
  case 3
  then show ?case by (auto simp: less_Suc_eq_le intro!: size_list_estimation' [of "_ ! _"] nth_mem)
qed auto

text \<open>Writing past the end of the buffer has no result.\<close>

definition asn1_encode :: "u64 \<Rightarrow> int \<Rightarrow> asn1_node \<Rightarrow> (octets \<times> asn1_node) option" where
  "asn1_encode s bl n = (case encode_node s bl n of
       Some (os, n') \<Rightarrow> if int (length os) \<le> max 0 bl then Some (os, n') else None
     | None \<Rightarrow> None)"

section \<open>Messages\<close>

text \<open>What a message is: primitive and constructed elements of a class and a tag.\<close>

datatype ber = BPrim u32 u32 octets | BCons u32 u32 "ber list"

definition ber_head :: "u32 \<Rightarrow> u32 \<Rightarrow> u32 \<Rightarrow> tlv_node" where
  "ber_head c x v = new_tlv\<lparr>tag_class := c, complexity := x, tag_value := v\<rparr>"

fun ber_bytes :: "ber \<Rightarrow> octets" where
  "ber_bytes (BPrim c v os) = tag_octets_of (ber_head c PRIMITIVE v) @ length_octets (of_nat (length os)) @ os"
| "ber_bytes (BCons c v ks) = tag_octets_of (ber_head c CONSTRUCTED v)
     @ length_octets (of_nat (length (concat (map ber_bytes ks)))) @ concat (map ber_bytes ks)"

fun ber_ok :: "nat \<Rightarrow> ber \<Rightarrow> bool" where
  "ber_ok m (BPrim c v os) \<longleftrightarrow> c \<in> set tag_classes \<and> unat v \<le> 127 \<and> length os < 2 ^ 31"
| "ber_ok m (BCons c v ks) \<longleftrightarrow> c \<in> set tag_classes \<and> unat v \<le> 127 \<and> length ks \<le> m \<and> list_all (ber_ok m) ks
     \<and> length (concat (map ber_bytes ks)) < 2 ^ 31"

fun ber_size :: "ber \<Rightarrow> nat" where
  "ber_size (BPrim c v os) = 1"
| "ber_size (BCons c v ks) = Suc (sum_list (map ber_size ks))"

text \<open>A decoded node stands for an element: same class, tag and complexity, its value in the buffer.\<close>

fun matches :: "octets \<Rightarrow> ber \<Rightarrow> ber_node \<Rightarrow> bool" where
  "matches mem (BPrim c v os) (BerNode t s n ks) \<longleftrightarrow> tag_class t = c \<and> tag_value t = v \<and> complexity t = PRIMITIVE \<and>
     unat (value_length t) = length os \<and> take (length os) (drop (value_at t) mem) = os \<and> ks = []"
| "matches mem (BCons c v bs) (BerNode t s n ks) \<longleftrightarrow> tag_class t = c \<and> tag_value t = v \<and> complexity t = CONSTRUCTED \<and>
     unat (value_length t) = length (concat (map ber_bytes bs)) \<and>
     take (length (concat (map ber_bytes bs))) (drop (value_at t) mem) = concat (map ber_bytes bs) \<and>
     list_all2 (matches mem) bs ks"

lemma bers_induct [case_names Nil Prim Cons]:
  assumes "P []" and "\<And>c v os bs. P bs \<Longrightarrow> P (BPrim c v os # bs)"
    and "\<And>c v ks bs. P ks \<Longrightarrow> P bs \<Longrightarrow> P (BCons c v ks # bs)"
  shows "P bs"
proof (induction "size_list size bs" arbitrary: bs rule: less_induct)
  case less
  show ?case
  proof (cases bs)
    case Nil
    then show ?thesis using assms(1) by simp
  next
    case (Cons b bs')
    then have "P bs'" by (intro less) simp
    moreover have "P ks" if "b = BCons c v ks" for c v ks
      using that Cons by (intro less) simp
    ultimately show ?thesis using assms(2,3) Cons by (cases b) auto
  qed
qed

section \<open>Requests\<close>

definition request :: "asn1_pool \<Rightarrow> asn1_pool" where
  "request p = snd (request_asn1_node (snd (request_tlv p)))"

fun requests :: "nat \<Rightarrow> asn1_pool \<Rightarrow> asn1_pool" where
  "requests 0 p = p"
| "requests (Suc n) p = requests n (request p)"

fun slots :: "nat \<Rightarrow> asn1_pool \<Rightarrow> nat list" where
  "slots 0 p = []"
| "slots (Suc n) p = fst (request_tlv p) # slots n (request p)"

lemma requests_add: "requests (m + n) p = requests n (requests m p)"
  by (induction m arbitrary: p) auto

lemma slots_add: "slots (m + n) p = slots m p @ slots n (requests m p)"
  by (induction m arbitrary: p) auto

lemma request_count [simp]: "tlv_count (request p) = tlv_count p" "tlv_count (snd (request_tlv p)) = tlv_count p"
  by (simp_all add: request_def request_tlv_def request_asn1_node_def Let_def)

lemma requests_count [simp]: "tlv_count (requests n p) = tlv_count p"
  by (induction n arbitrary: p) auto

fun node_slots :: "ber_node \<Rightarrow> nat list" where
  "node_slots (BerNode t s n ks) = s # concat (map node_slots ks)"

section \<open>The reference decoder reads every message\<close>

lemma unat_small: "n < 2 ^ 32 \<Longrightarrow> unat (of_nat n :: u32) = n"
  by (simp add: unsigned_of_nat take_bit_nat_eq_self)

lemma complexities_set: "PRIMITIVE \<in> set complexities" "CONSTRUCTED \<in> set complexities"
  by (simp_all add: complexities_def)

text \<open>
  One element in front: its tag and length are read, and the loop goes on with the value or past
  it.
\<close>

lemma decode_front:
  fixes x :: u32
  assumes mem: "mem = pre @ dn @ tag_octets_of (ber_head c x v) @ length_octets (of_nat (length body)) @ body @ rest @ post"
    and c: "c \<in> set tag_classes" and x: "x \<in> set complexities" and v: "unat v \<le> 127"
    and small: "length dn + length (tag_octets_of (ber_head c x v)) + length (length_octets (of_nat (length body)))
        + length body + length rest < 2 ^ 31"
    and len: "len = of_nat (length dn + length (tag_octets_of (ber_head c x v))
        + length (length_octets (of_nat (length body))) + length body + length rest)"
    and used: "used < tlv_count p"
  shows "\<exists>t. tag_class t = c \<and> complexity t = x \<and> tag_value t = v \<and> value_length t = of_nat (length body) \<and>
     value_at t = length pre + length dn + length (tag_octets_of (ber_head c x v))
        + length (length_octets (of_nat (length body))) \<and>
     decode_loop mem (length pre) len (of_nat (length dn)) used p acc =
       Option.bind (if x = CONSTRUCTED then decode_loop mem (value_at t) (of_nat (length body)) 0 0 (request p) []
                    else Some (0, request p, []))
         (\<lambda>s. if fst s \<noteq> 0 then Some (fst s, fst (snd s), acc @ [BerNode t (fst (request_tlv p))
                (fst (request_asn1_node (snd (request_tlv p)))) (snd (snd s))])
              else decode_loop mem (length pre) len (of_nat (length dn + length (tag_octets_of (ber_head c x v))
                  + length (length_octets (of_nat (length body))) + length body)) (Suc used) (fst (snd s))
                (acc @ [BerNode t (fst (request_tlv p)) (fst (request_asn1_node (snd (request_tlv p)))) (snd (snd s))]))"
proof -
  let ?h = "ber_head c x v" and ?lo = "length_octets (of_nat (length body))"
  let ?a = "length (tag_octets_of ?h)" and ?b = "length ?lo"
  have ok: "tag_ok ?h" using c x v by (simp add: tag_ok_def ber_head_def)
  have a: "0 < ?a" by (simp add: tag_octets_of_def)
  have b: "0 < ?b" by (simp add: length_octets_def)
  have u: "unat (of_nat (length dn) :: u32) = length dn" "unat len = length dn + ?a + ?b + length body + length rest"
    "unat (of_nat (length dn + ?a) :: u32) = length dn + ?a"
    "unat (of_nat (length dn + ?a + ?b) :: u32) = length dn + ?a + ?b"
    "unat (of_nat (length body) :: u32) = length body"
    unfolding len by (rule unat_small, use small in simp)+
  have pos: "of_nat (length dn) < len" "0 < len"
    using a u by (simp_all add: word_less_nat_alt)
  have sub: "len - (of_nat (length dn) + of_nat ?a) = of_nat (?b + length body + length rest)"
    "len - (of_nat (length dn) + of_nat ?a + of_nat ?b) = of_nat (length body + length rest)"
    unfolding len by simp_all
  define t0 where "t0 = new_tlv\<lparr>full_tlv := length pre + length dn\<rparr>"
  define t1 where "t1 = t0\<lparr>tag_class := c, complexity := x, tag_value := v, tag_value_size := ?a\<rparr>"
  define t2 where "t2 = t1\<lparr>length_type := length_form (of_nat (length body)), value_length_size := ?b,
      value_length := of_nat (length body)\<rparr>"
  have tag: "decode_tag mem (length pre + length dn) len t0 = Some t1"
    using decode_tag_octets [OF ok, of mem "pre @ dn" "?lo @ body @ rest @ post" len t0] mem pos
    by (simp add: t1_def ber_head_def)
  have "unat (of_nat (?b + length body + length rest) :: u32) = ?b + length body + length rest"
    using small by (intro unat_small) auto
  then have lens: "decode_length mem (length pre + (length dn + ?a)) (len - (of_nat (length dn) + of_nat ?a)) t1 = Some (0, t2)"
    using decode_length_octets [of "of_nat (length body)" mem "pre @ dn @ tag_octets_of ?h" "body @ rest @ post"
        "len - (of_nat (length dn) + of_nat ?a)" t1] mem u small
    by (simp add: sub(1) t2_def)
  have fit: "\<not> of_nat (length body) > len - (of_nat (length dn) + of_nat ?a + of_nat ?b)"
  proof -
    have "unat (of_nat (length body + length rest) :: u32) = length body + length rest"
      using small by (intro unat_small) auto
    then show ?thesis unfolding sub(2) using u(5) by (simp add: word_less_nat_alt)
  qed
  have nd: "length_type t2 \<noteq> INDEFINITE" by (simp add: t2_def length_form_def)
  define t where "t = t2\<lparr>full_tlv_length := ber_full_length t2, value_at := length pre + (length dn + ?a + ?b)\<rparr>"
  have sizes: "tag_value_size t1 = ?a" "value_length_size t2 = ?b" "value_length t2 = of_nat (length body)"
    by (simp_all add: t1_def t2_def)
  have cnt: "(tlv_count p < Suc used) = False" using used by simp
  have pos3: "of_nat (length dn) + of_nat ?a + of_nat ?b + (of_nat (length body) + 0) = (of_nat (length dn + ?a + ?b + length body) :: u32)"
    "length pre + unat (of_nat (length dn) + of_nat ?a + of_nat ?b :: u32) = length pre + (length dn + ?a + ?b)"
    using u(4) by (simp_all add: add.assoc)
  have tag': "decode_tag mem (length pre + unat (of_nat (length dn) :: u32)) len
      (new_tlv\<lparr>full_tlv := length pre + unat (of_nat (length dn) :: u32)\<rparr>) = Some t1"
    using tag u(1) by (simp add: t0_def)
  have lens': "decode_length mem (length pre + unat (of_nat (length dn) + of_nat ?a :: u32))
      (len - (of_nat (length dn) + of_nat ?a)) t1 = Some (0, t2)"
    using lens u(3) by simp
  have "decode_loop mem (length pre) len (of_nat (length dn)) used p acc =
       Option.bind (if complexity t2 = CONSTRUCTED then decode_loop mem (length pre + (length dn + ?a + ?b)) (of_nat (length body)) 0 0 (request p) []
                    else Some (0, request p, []))
         (\<lambda>s. if fst s \<noteq> 0 then Some (fst s, fst (snd s), acc @ [BerNode t (fst (request_tlv p))
                (fst (request_asn1_node (snd (request_tlv p)))) (snd (snd s))])
              else decode_loop mem (length pre) len (of_nat (length dn + ?a + ?b + length body)) (Suc used) (fst (snd s))
                (acc @ [BerNode t (fst (request_tlv p)) (fst (request_asn1_node (snd (request_tlv p)))) (snd (snd s))]))"
    by (subst decode_loop.simps)
      (simp only: cnt pos tag' lens' fit nd sizes request_def t_def pos3 if_True if_False bind.simps fst_conv snd_conv
        simp_thms)
  then show ?thesis
    by (intro exI [of _ t]) (simp add: t_def t2_def t1_def add.assoc)
qed

abbreviation bytes_of_all :: "ber list \<Rightarrow> octets" where
  "bytes_of_all bs \<equiv> concat (map ber_bytes bs)"

lemma decode_items:
  assumes "mem = pre @ dn @ bytes_of_all bs @ post"
    and "list_all (ber_ok (tlv_count p)) bs" and "used + length bs \<le> tlv_count p"
    and "length dn + length (bytes_of_all bs) < 2 ^ 31"
    and "len = of_nat (length dn + length (bytes_of_all bs))"
  shows "\<exists>nodes. decode_loop mem (length pre) len (of_nat (length dn)) used p acc
       = Some (0, requests (sum_list (map ber_size bs)) p, acc @ nodes) \<and>
     list_all2 (matches mem) bs nodes \<and> concat (map node_slots nodes) = slots (sum_list (map ber_size bs)) p"
  using assms
proof (induction bs arbitrary: pre dn post len used p acc rule: bers_induct)
  case Nil
  then show ?case by (subst decode_loop.simps) simp
next
  case (Prim c v os bs)
  let ?a = "tag_octets_of (ber_head c PRIMITIVE v)" and ?b = "length_octets (of_nat (length os))"
  have mem: "mem = pre @ dn @ ?a @ ?b @ os @ bytes_of_all bs @ post" using Prim.prems(1) by simp
  have c: "c \<in> set tag_classes" "unat v \<le> 127" using Prim.prems(2) by auto
  have small: "length dn + length ?a + length ?b + length os + length (bytes_of_all bs) < 2 ^ 31"
    using Prim.prems(4) by simp
  have len: "len = of_nat (length dn + length ?a + length ?b + length os + length (bytes_of_all bs))"
    using Prim.prems(5) by (simp add: add.assoc)
  have used: "used < tlv_count p" using Prim.prems(3) by simp
  obtain t where t: "tag_class t = c" "complexity t = PRIMITIVE" "tag_value t = v"
      "value_length t = of_nat (length os)" "value_at t = length pre + length dn + length ?a + length ?b"
    and run: "decode_loop mem (length pre) len (of_nat (length dn)) used p acc =
      decode_loop mem (length pre) len (of_nat (length dn + length ?a + length ?b + length os)) (Suc used) (request p)
        (acc @ [BerNode t (fst (request_tlv p)) (fst (request_asn1_node (snd (request_tlv p)))) []])"
    using decode_front [OF mem c(1) complexities_set(1) c(2) small len used, of acc] by auto
  let ?n = "BerNode t (fst (request_tlv p)) (fst (request_asn1_node (snd (request_tlv p)))) []"
  have "list_all (ber_ok (tlv_count (request p))) bs" using Prim.prems(2) by simp
  moreover have "Suc used + length bs \<le> tlv_count (request p)" using Prim.prems(3) by simp
  moreover have "mem = pre @ (dn @ ?a @ ?b @ os) @ bytes_of_all bs @ post" unfolding mem by simp
  moreover have "length (dn @ ?a @ ?b @ os) + length (bytes_of_all bs) < 2 ^ 31" using small by simp
  moreover have "len = of_nat (length (dn @ ?a @ ?b @ os) + length (bytes_of_all bs))"
    unfolding len by (rule arg_cong [of _ _ of_nat]) simp
  ultimately have "\<exists>nodes. decode_loop mem (length pre) len (of_nat (length (dn @ ?a @ ?b @ os))) (Suc used) (request p) (acc @ [?n])
      = Some (0, requests (sum_list (map ber_size bs)) (request p), (acc @ [?n]) @ nodes) \<and>
    list_all2 (matches mem) bs nodes \<and>
    concat (map node_slots nodes) = slots (sum_list (map ber_size bs)) (request p)"
    by (intro Prim.IH)
  then obtain nodes where nodes:
    "decode_loop mem (length pre) len (of_nat (length (dn @ ?a @ ?b @ os))) (Suc used) (request p) (acc @ [?n])
      = Some (0, requests (sum_list (map ber_size bs)) (request p), (acc @ [?n]) @ nodes)"
    "list_all2 (matches mem) bs nodes"
    "concat (map node_slots nodes) = slots (sum_list (map ber_size bs)) (request p)"
    by (elim exE conjE)
  have at: "length (dn @ ?a @ ?b @ os) = length dn + length ?a + length ?b + length os" by simp
  have "unat (of_nat (length os) :: u32) = length os" by (rule unat_small) (use small in simp)
  moreover have "take (length os) (drop (value_at t) mem) = os" unfolding t(5) mem by simp
  ultimately have m: "matches mem (BPrim c v os) ?n" by (simp add: t)
  have r: "decode_loop mem (length pre) len (of_nat (length dn)) used p acc
      = Some (0, requests (sum_list (map ber_size (BPrim c v os # bs))) p, acc @ ?n # nodes)"
    unfolding run at [symmetric] nodes(1) by simp
  show ?case
    by (intro exI [of _ "?n # nodes"] conjI r) (simp_all add: m nodes(2,3) del: matches.simps)
next
  case (Cons c v ks bs)
  let ?a = "tag_octets_of (ber_head c CONSTRUCTED v)" and ?body = "bytes_of_all ks"
  let ?b = "length_octets (of_nat (length ?body))"
  have mem: "mem = pre @ dn @ ?a @ ?b @ ?body @ bytes_of_all bs @ post" using Cons.prems(1) by simp
  have c: "c \<in> set tag_classes" "unat v \<le> 127" using Cons.prems(2) by auto
  have small: "length dn + length ?a + length ?b + length ?body + length (bytes_of_all bs) < 2 ^ 31"
    using Cons.prems(4) by simp
  have len: "len = of_nat (length dn + length ?a + length ?b + length ?body + length (bytes_of_all bs))"
    using Cons.prems(5) by (simp add: add.assoc)
  have used: "used < tlv_count p" using Cons.prems(3) by simp
  obtain t where t: "tag_class t = c" "complexity t = CONSTRUCTED" "tag_value t = v"
      "value_length t = of_nat (length ?body)" "value_at t = length pre + length dn + length ?a + length ?b"
    and run: "decode_loop mem (length pre) len (of_nat (length dn)) used p acc =
      Option.bind (decode_loop mem (value_at t) (of_nat (length ?body)) 0 0 (request p) [])
         (\<lambda>s. if fst s \<noteq> 0 then Some (fst s, fst (snd s), acc @ [BerNode t (fst (request_tlv p))
                (fst (request_asn1_node (snd (request_tlv p)))) (snd (snd s))])
              else decode_loop mem (length pre) len (of_nat (length dn + length ?a + length ?b + length ?body))
                (Suc used) (fst (snd s)) (acc @ [BerNode t (fst (request_tlv p))
                  (fst (request_asn1_node (snd (request_tlv p)))) (snd (snd s))]))"
    using decode_front [OF mem c(1) complexities_set(2) c(2) small len used, of acc] by auto
  let ?q = "requests (sum_list (map ber_size ks)) (request p)"
  have "\<exists>kids. decode_loop mem (length (pre @ dn @ ?a @ ?b)) (of_nat (length ?body)) (of_nat (length ([] :: octets))) 0 (request p) []
      = Some (0, ?q, [] @ kids) \<and> list_all2 (matches mem) ks kids \<and>
      concat (map node_slots kids) = slots (sum_list (map ber_size ks)) (request p)"
  proof (rule Cons.IH(1))
    show "mem = (pre @ dn @ ?a @ ?b) @ [] @ bytes_of_all ks @ bytes_of_all bs @ post" unfolding mem by simp
  qed (use small Cons.prems(2) in simp_all)
  then obtain kids where kids: "decode_loop mem (length (pre @ dn @ ?a @ ?b)) (of_nat (length ?body)) 0 0 (request p) []
      = Some (0, ?q, kids)" "list_all2 (matches mem) ks kids"
      "concat (map node_slots kids) = slots (sum_list (map ber_size ks)) (request p)"
    by auto
  have vat: "length (pre @ dn @ ?a @ ?b) = value_at t" using t(5) by simp
  let ?n = "BerNode t (fst (request_tlv p)) (fst (request_asn1_node (snd (request_tlv p)))) kids"
  have "list_all (ber_ok (tlv_count ?q)) bs" using Cons.prems(2) by simp
  moreover have "Suc used + length bs \<le> tlv_count ?q" using Cons.prems(3) by simp
  moreover have "mem = pre @ (dn @ ?a @ ?b @ ?body) @ bytes_of_all bs @ post" unfolding mem by simp
  moreover have "length (dn @ ?a @ ?b @ ?body) + length (bytes_of_all bs) < 2 ^ 31" using small by simp
  moreover have "len = of_nat (length (dn @ ?a @ ?b @ ?body) + length (bytes_of_all bs))"
    unfolding len by (rule arg_cong [of _ _ of_nat]) simp
  ultimately have "\<exists>nodes. decode_loop mem (length pre) len (of_nat (length (dn @ ?a @ ?b @ ?body))) (Suc used) ?q (acc @ [?n])
      = Some (0, requests (sum_list (map ber_size bs)) ?q, (acc @ [?n]) @ nodes) \<and>
    list_all2 (matches mem) bs nodes \<and>
    concat (map node_slots nodes) = slots (sum_list (map ber_size bs)) ?q"
    by (intro Cons.IH(2))
  then obtain nodes where nodes:
    "decode_loop mem (length pre) len (of_nat (length (dn @ ?a @ ?b @ ?body))) (Suc used) ?q (acc @ [?n])
      = Some (0, requests (sum_list (map ber_size bs)) ?q, (acc @ [?n]) @ nodes)"
    "list_all2 (matches mem) bs nodes"
    "concat (map node_slots nodes) = slots (sum_list (map ber_size bs)) ?q"
    by (elim exE conjE)
  have at: "length (dn @ ?a @ ?b @ ?body) = length dn + length ?a + length ?b + length ?body" by simp
  have "unat (of_nat (length ?body) :: u32) = length ?body" by (rule unat_small) (use small in simp)
  moreover have "take (length ?body) (drop (value_at t) mem) = ?body" unfolding t(5) mem by simp
  ultimately have m: "matches mem (BCons c v ks) ?n" using kids(2) by (simp add: t)
  have r: "decode_loop mem (length pre) len (of_nat (length dn)) used p acc
      = Some (0, requests (sum_list (map ber_size bs)) ?q, acc @ ?n # nodes)"
    unfolding run kids(1) [unfolded vat] at [symmetric] by (simp add: nodes(1) del: length_append)
  show ?case
    by (intro exI [of _ "?n # nodes"] conjI) (simp_all add: r m nodes(2,3) kids(3) requests_add slots_add del: matches.simps)
qed

section \<open>What a prepared tree encodes\<close>

text \<open>
  The elements a definition tree stands for in session \<^term>\<open>s\<close>: nodes that are not linked in the
  session are left out, a CHOICE stands for its selection.
\<close>

lemma size_nth: "i < length ks \<Longrightarrow> size (ks ! i) \<le> size_list size (ks :: asn1_node list)"
  by (intro size_list_estimation' [of "ks ! i"]) auto

function elements :: "u64 \<Rightarrow> asn1_node \<Rightarrow> ber list" where
  "elements s (ASN1Node t0 v sid lk ch ks) =
     (if lk \<and> sid = s then
        (case t0 of
           None \<Rightarrow> []
         | Some t \<Rightarrow>
             if uni_tag_class t \<noteq> CHOICE then
               (let t1 = completed (ks = []) t
                in if complexity t1 = PRIMITIVE
                   then [BPrim (tag_class t1) (tag_value t1) (take (unat (value_length t1)) v)]
                   else [BCons (tag_class t1) (tag_value t1) (concat (map (elements s) ks))])
             else (case ch of None \<Rightarrow> [] | Some i \<Rightarrow> if i < length ks then elements s (ks ! i) else []))
      else [])"
  by pat_completeness auto
termination by (relation "measure (size \<circ> snd)") (auto simp: less_Suc_eq_le intro: size_list_estimation' size_nth)

text \<open>The sizes of a node are those of the octets to be written.\<close>

definition sized :: "tlv_node \<Rightarrow> bool" where
  "sized t \<longleftrightarrow> tag_ok t \<and> tag_value_size t = length (tag_octets_of t) \<and> unat (value_length t) < 2 ^ 31 - 1 \<and>
     value_length_size t = length (length_octets (value_length t))"

function prepared :: "u64 \<Rightarrow> asn1_node \<Rightarrow> bool" where
  "prepared s (ASN1Node t0 v sid lk ch ks) \<longleftrightarrow> (lk \<and> sid = s \<longrightarrow>
     (case t0 of
        None \<Rightarrow> True
      | Some t \<Rightarrow>
          if uni_tag_class t \<noteq> CHOICE then
            (let t1 = completed (ks = []) t
             in sized t1 \<and>
                (if complexity t1 = PRIMITIVE then length v = unat (value_length t1)
                 else \<not> override_auto_complexity t1 \<and> list_all (prepared s) ks \<and>
                   length (bytes_of_all (concat (map (elements s) ks))) = unat (value_length t1)))
          else (case ch of None \<Rightarrow> True | Some i \<Rightarrow> (if i < length ks then prepared s (ks ! i) else False))))"
  by pat_completeness auto
termination by (relation "measure (size \<circ> snd)") (auto simp: less_Suc_eq_le intro: size_list_estimation' size_nth)

lemma prepared_tag:
  assumes "sized t" and "0 < len"
  shows "encode_prepared_tag len t = tag_octets_of t"
proof -
  have "prepare_tag t = t\<lparr>tag_value_size := tag_value_size (prepare_tag t)\<rparr>"
    by (simp add: prepare_tag_def Let_def)
  then have "prepare_tag t = t"
    using encode_tag_octets(3) [of t len] assms by (simp add: sized_def)
  then show ?thesis
    using encode_tag_octets(2) [of t len] assms by (simp add: sized_def)
qed

lemma prepared_length:
  assumes "sized t" and "0 < len"
  shows "encode_prepared_length len t = Some (length_octets (value_length t))"
proof -
  have "encode_prepared_length len t = encode_prepared_length len (prepare_length t)"
    using assms encode_prepared_length_octets(2) [of t len]
    by (simp add: encode_prepared_length_def sized_def) (simp add: prepare_length_def Let_def)
  then show ?thesis using encode_prepared_length_octets(1) [of t len] assms by (simp add: sized_def)
qed

lemma remaining_pos:
  assumes "int n < bl" and "bl < 2 ^ 31"
  shows "0 < unat (word_of_int bl - of_nat n :: u32)"
proof -
  have "word_of_int bl - of_nat n = (of_nat (nat (bl - int n)) :: u32)"
    using assms by (simp add: of_nat_nat)
  also have "unat \<dots> = nat (bl - int n)" using assms by (intro unat_small) simp
  finally show ?thesis using assms by simp
qed

lemma length_tag_octets: "0 < length (tag_octets_of t)" "0 < length (length_octets v)"
  by (simp_all add: tag_octets_of_def length_octets_def)

lemma completed_complexity: "tag_ok (completed l t) \<Longrightarrow>
    complexity (completed l t) = PRIMITIVE \<or> complexity (completed l t) = CONSTRUCTED"
  by (simp add: tag_ok_def complexities_def)

text \<open>What a node's elements look like, for the encoder.\<close>

lemma node_bytes:
  assumes "sized t" and "tag_class t = c" and "tag_value t = g" and "complexity t = x"
  shows "tag_octets_of (ber_head c x g) = tag_octets_of t"
  using assms by (simp add: tag_octets_of_def tag_head_def tag_short_def ber_head_def)

lemma encode_prim:
  assumes t: "uni_tag_class t \<noteq> CHOICE" "sized (completed (ks = []) t)"
      "complexity (completed (ks = []) t) = PRIMITIVE" "length v = unat (value_length (completed (ks = []) t))"
    and bl: "int (length (bytes_of_all (elements s (ASN1Node (Some t) v s True ch ks)))) \<le> bl" "bl < 2 ^ 31"
  shows "encode_node s bl (ASN1Node (Some t) v s True ch ks) = Some
    (bytes_of_all (elements s (ASN1Node (Some t) v s True ch ks)), ASN1Node (Some (completed (ks = []) t)) v s True ch ks)"
proof -
  let ?t = "completed (ks = []) t"
  have u: "of_nat (length v) = value_length ?t" by (simp add: t(4) del: One_nat_def)
  have bytes: "bytes_of_all (elements s (ASN1Node (Some t) v s True ch ks))
      = tag_octets_of ?t @ length_octets (value_length ?t) @ v"
    using t node_bytes [OF t(2) refl refl refl] u by (simp add: Let_def)
  have big: "int (length (tag_octets_of ?t)) < bl" "0 < nat bl"
    using bl(1) length_tag_octets(2) [of "value_length ?t"] unfolding bytes length_append by linarith+
  have "tag_value_size ?t = length (tag_octets_of ?t)" "value_length_size ?t = length (length_octets (value_length ?t))"
    using t(2) by (simp_all add: sized_def)
  then show ?thesis
    unfolding bytes
    using t big prepared_tag [OF t(2) big(2)] prepared_length [OF t(2) remaining_pos [OF big(1) bl(2)]]
    by (simp add: Let_def field_of_def)
qed


lemma encode_kids_elements:
  assumes "\<And>k bl. k \<in> set ks \<Longrightarrow> prepared s k \<Longrightarrow> int (length (bytes_of_all (elements s k))) \<le> bl \<Longrightarrow> bl < 2 ^ 31 \<Longrightarrow>
      \<exists>k'. encode_node s bl k = Some (bytes_of_all (elements s k), k')"
    and "list_all (prepared s) ks"
    and "int (length (bytes_of_all (concat (map (elements s) ks)))) \<le> bl" and "bl < 2 ^ 31"
  shows "\<exists>ks'. encode_kids s bl ks = Some (bytes_of_all (concat (map (elements s) ks)), ks')"
  using assms
proof (induction ks arbitrary: bl)
  case Nil
  then show ?case by simp
next
  case (Cons k ks)
  have "prepared s k" "int (length (bytes_of_all (elements s k))) \<le> bl" using Cons.prems(2,3) by simp_all
  then obtain k' where k: "encode_node s bl k = Some (bytes_of_all (elements s k), k')"
    using Cons.prems(1) [of k bl] Cons.prems(4) by auto
  have "\<exists>ks'. encode_kids s (bl - int (length (bytes_of_all (elements s k)))) ks
      = Some (bytes_of_all (concat (map (elements s) ks)), ks')"
  proof (rule Cons.IH)
    fix n b assume "n \<in> set ks" "prepared s n" "int (length (bytes_of_all (elements s n))) \<le> b" "b < 2 ^ 31"
    then show "\<exists>k'. encode_node s b n = Some (bytes_of_all (elements s n), k')"
      by (intro Cons.prems(1)) simp_all
  qed (use Cons.prems(2-4) in simp_all)
  then show ?case using k by auto
qed

lemma encode_cons:
  assumes t: "uni_tag_class t \<noteq> CHOICE" "sized (completed (ks = []) t)"
      "complexity (completed (ks = []) t) \<noteq> PRIMITIVE" "\<not> override_auto_complexity (completed (ks = []) t)"
      "length (bytes_of_all (concat (map (elements s) ks))) = unat (value_length (completed (ks = []) t))"
    and kids: "\<And>bl. int (length (bytes_of_all (concat (map (elements s) ks)))) \<le> bl \<Longrightarrow> bl < 2 ^ 31 \<Longrightarrow>
      \<exists>ks'. encode_kids s bl ks = Some (bytes_of_all (concat (map (elements s) ks)), ks')"
    and bl: "int (length (bytes_of_all (elements s (ASN1Node (Some t) v s True ch ks)))) \<le> bl" "bl < 2 ^ 31"
  shows "\<exists>n. encode_node s bl (ASN1Node (Some t) v s True ch ks)
    = Some (bytes_of_all (elements s (ASN1Node (Some t) v s True ch ks)), n)"
proof -
  let ?t = "completed (ks = []) t" and ?body = "bytes_of_all (concat (map (elements s) ks))"
  have x: "complexity ?t = CONSTRUCTED" using completed_complexity t(2,3) by (auto simp: sized_def)
  have u: "of_nat (length ?body) = value_length ?t" unfolding t(5) by simp
  have bytes: "bytes_of_all (elements s (ASN1Node (Some t) v s True ch ks))
      = tag_octets_of ?t @ length_octets (value_length ?t) @ ?body"
    using t(1,3) node_bytes [OF t(2) refl refl x] u by (simp add: Let_def)
  have big: "int (length (tag_octets_of ?t)) < bl" "0 < nat bl"
    using bl(1) length_tag_octets(2) [of "value_length ?t"] unfolding bytes length_append by linarith+
  have sz: "tag_value_size ?t = length (tag_octets_of ?t)" "value_length_size ?t = length (length_octets (value_length ?t))"
    using t(2) by (simp_all add: sized_def)
  obtain ks' where "encode_kids s (bl - int (tag_value_size ?t) - int (value_length_size ?t)) ks = Some (?body, ks')"
    using kids [of "bl - int (tag_value_size ?t) - int (value_length_size ?t)"] bl unfolding bytes sz by auto
  then show ?thesis
    unfolding bytes
    using t(1,3,4) x sz big prepared_tag [OF t(2) big(2)] prepared_length [OF t(2) remaining_pos [OF big(1) bl(2)]]
    by (simp add: Let_def field_of_def)
qed

lemma encode_elements:
  "prepared s n \<Longrightarrow> int (length (bytes_of_all (elements s n))) \<le> bl \<Longrightarrow> bl < 2 ^ 31 \<Longrightarrow>
   \<exists>n'. encode_node s bl n = Some (bytes_of_all (elements s n), n')"
proof (induction n arbitrary: bl)
  case (ASN1Node t0 v sid lk ch ks)
  show ?case
  proof (cases "0 < bl \<and> lk \<and> sid = s")
    case False
    have none: "encode_node s bl (ASN1Node t0 v sid lk ch ks) = Some ([], ASN1Node t0 v sid lk ch ks)"
      using False by (subst encode_node.simps) (simp only: if_False HOL.simp_thms split: if_split)
    have "bytes_of_all (elements s (ASN1Node t0 v sid lk ch ks)) = []"
    proof (cases "lk \<and> sid = s")
      case True
      then have "bl \<le> 0" using False by simp
      then show ?thesis using ASN1Node.prems(2) by (metis length_0_conv of_nat_le_0_iff order_trans)
    next
      case False
      then show ?thesis by (simp only: elements.simps if_False list.map concat.simps)
    qed
    then show ?thesis by (intro exI [of _ "ASN1Node t0 v sid lk ch ks"]) (simp only: none)
  next
    case True
    show ?thesis
    proof (cases t0)
      case None
      then show ?thesis using True by simp
    next
      case (Some t)
      let ?n = "ASN1Node (Some t) v s True ch ks"
      have n: "ASN1Node t0 v sid lk ch ks = ?n" using True Some by simp
      note prems = ASN1Node.prems [unfolded n]
      consider (prim) "uni_tag_class t \<noteq> CHOICE" "complexity (completed (ks = []) t) = PRIMITIVE"
        | (cons) "uni_tag_class t \<noteq> CHOICE" "complexity (completed (ks = []) t) \<noteq> PRIMITIVE"
        | (choice) "uni_tag_class t = CHOICE" by blast
      then show ?thesis
      proof cases
        case prim
        then show ?thesis unfolding n using encode_prim [of t ks v s ch bl] prems by (auto simp: Let_def)
      next
        case cons
        with prems(1) have p: "sized (completed (ks = []) t)" "list_all (prepared s) ks"
            "\<not> override_auto_complexity (completed (ks = []) t)"
            "length (bytes_of_all (concat (map (elements s) ks))) = unat (value_length (completed (ks = []) t))"
          by (auto simp: Let_def)
        show ?thesis unfolding n
        proof (rule encode_cons [OF cons(1) p(1) cons(2) p(3,4)])
          fix b assume b: "int (length (bytes_of_all (concat (map (elements s) ks)))) \<le> b" "b < 2 ^ 31"
          show "\<exists>ks'. encode_kids s b ks = Some (bytes_of_all (concat (map (elements s) ks)), ks')"
            by (rule encode_kids_elements [OF ASN1Node.IH p(2) b])
        qed (use prems in simp_all)
      next
        case choice
        show ?thesis
        proof (cases ch)
          case None
          then show ?thesis unfolding n using choice True by simp
        next
          case (Some i)
          then have i: "i < length ks" "prepared s (ks ! i)" using prems(1) choice by (auto split: if_splits)
          then have e: "elements s ?n = elements s (ks ! i)" using choice Some by simp
          then obtain m where "encode_node s bl (ks ! i) = Some (bytes_of_all (elements s (ks ! i)), m)"
            using ASN1Node.IH [OF nth_mem [OF i(1)] i(2)] prems by auto
          then show ?thesis unfolding n e using choice Some i True by simp
        qed
      qed
    qed
  qed
qed

end
