(* ===== verification/BerLink.thy ===== *)
theory BerLink
  imports BerTree
begin

text \<open>
  The incremental length accounting of \<^verbatim>\<open>src/src/asn1/asn1.cpp\<close>: every \<^verbatim>\<open>set_linked_data\<close> and
  \<^verbatim>\<open>unlink\<close> adds the change of one node's size to its parents. The invariant \<^term>\<open>counted\<close> says
  that each parent's length is the sum of what its children have contributed, and it makes the tree
  ready for the encoder of \<^verbatim>\<open>BerTree\<close>.
\<close>

section \<open>The invariant\<close>

text \<open>What a node has added to its parent's length so far.\<close>

definition contribution :: "asn1_node \<Rightarrow> u32" where
  "contribution n = (case a_tlv n of None \<Rightarrow> 0 | Some t \<Rightarrow> old_value_length t + of_nat (tag_value_size t))"

definition full_size :: "tlv_node \<Rightarrow> u32" where
  "full_size t = value_length t + of_nat (value_length_size t) + of_nat (tag_value_size t)"

definition settled :: "tlv_node \<Rightarrow> bool" where
  "settled t \<longleftrightarrow> 0 < tag_value_size t \<and> value_length_size t = value_length_size (prepare_length t)"

text \<open>A child of a node that is not a CHOICE has added its full size, or nothing.\<close>

definition entered :: "u64 \<Rightarrow> asn1_node \<Rightarrow> bool" where
  "entered s k \<longleftrightarrow> (if a_session k = s
     then (case a_tlv k of None \<Rightarrow> False | Some t \<Rightarrow> settled t \<and> contribution k = full_size t)
     else contribution k = 0)"

text \<open>The selection of a CHOICE in the session has the length of the CHOICE.\<close>

definition chosen :: "u64 \<Rightarrow> tlv_node \<Rightarrow> asn1_node \<Rightarrow> bool" where
  "chosen s t k \<longleftrightarrow> a_session k = s \<and> (case a_tlv k of None \<Rightarrow> False
     | Some u \<Rightarrow> settled u \<and> value_length u = value_length t)"

fun counted :: "u64 \<Rightarrow> asn1_node \<Rightarrow> bool" where
  "counted s (ASN1Node t0 v sid lk ch ks) \<longleftrightarrow> (case t0 of
       None \<Rightarrow> False
     | Some t \<Rightarrow> lk \<and> list_all (counted s) ks \<and>
        (tag_value_size t = 0 \<or> tag_value_size t = tag_value_size (prepare_tag t)) \<and>
        (if uni_tag_class t = CHOICE
         then sid = s \<longrightarrow> (case ch of None \<Rightarrow> False | Some i \<Rightarrow> i < length ks \<and> chosen s t (ks ! i))
         else if ks = [] then length v = unat (value_length t)
         else value_length t = sum_list (map contribution ks) \<and> list_all (entered s) ks))"

section \<open>One step up\<close>

lemma prepared_fields [simp]:
  "value_length (prepare_length t) = value_length t" "uni_tag_class (prepare_length t) = uni_tag_class t"
  "tag_value_size (prepare_length t) = tag_value_size t" "old_value_length (prepare_length t) = old_value_length t"
  "value_length (prepare_tag t) = value_length t" "uni_tag_class (prepare_tag t) = uni_tag_class t"
  "old_value_length (prepare_tag t) = old_value_length t" "value_length_size (prepare_tag t) = value_length_size t"
  "value_length_size (prepare_length (prepare_length t)) = value_length_size (prepare_length t)"
  "tag_value_size (prepare_tag (prepare_length t)) = tag_value_size (prepare_tag t)"
  "value_length_size (prepare_length (prepare_tag t)) = value_length_size (prepare_length t)"
  "tag_value_size (prepare_tag (prepare_tag t)) = tag_value_size (prepare_tag t)"
  "tag_value_size (prepare_tag (t\<lparr>old_value_length := x\<rparr>)) = tag_value_size (prepare_tag t)"
  "tag_value_size (prepare_tag (t\<lparr>value_length := x\<rparr>)) = tag_value_size (prepare_tag t)"
  "tag_value_size (prepare_tag (t\<lparr>value_length_size := n\<rparr>)) = tag_value_size (prepare_tag t)"
  by (simp_all add: prepare_length_def prepare_tag_def Let_def)

lemma prepared_tag_pos: "0 < tag_value_size (prepare_tag t)"
  by (simp add: prepare_tag_def Let_def)

lemma update_fields [simp]:
  "value_length (fst (tlv_update t)) = value_length t" "uni_tag_class (fst (tlv_update t)) = uni_tag_class t"
  "old_value_length (fst (tlv_update t)) = old_value_length t"
  "value_length_size (fst (tlv_update t)) = value_length_size (prepare_length t)"
  "value_length_size (prepare_length (fst (tlv_update t))) = value_length_size (prepare_length t)"
  "tag_value_size (prepare_tag (fst (tlv_update t))) = tag_value_size (prepare_tag t)"
  "tag_value_size (fst (tlv_update t)) = (if tag_value_size t = 0 then tag_value_size (prepare_tag t) else tag_value_size t)"
  by (auto simp: tlv_update_def Let_def)

lemma update_delta: "snd (tlv_update t) = full_size (fst (tlv_update t)) - (old_value_length t + of_nat (tag_value_size t))"
  by (auto simp: tlv_update_def full_size_def Let_def)

lemma settled_fields:
  "settled (fst (tlv_update t))" "settled (t\<lparr>old_value_length := x\<rparr>) = settled t"
  using prepared_tag_pos [of t] by (simp_all add: settled_def) (simp_all add: prepare_length_def Let_def)

lemma sum_list_update_word:
  fixes f :: "'a \<Rightarrow> u32"
  assumes "i < length xs"
  shows "sum_list (map f (xs[i := y])) = sum_list (map f xs) - f (xs ! i) + f y"
  using assms
proof (induction xs arbitrary: i)
  case (Cons x xs)
  then show ?case by (cases i) auto
qed simp

lemma list_all_replace: "list_all P (xs[i := a]) \<Longrightarrow> P b \<Longrightarrow> list_all P (xs[i := b])"
proof (induction xs arbitrary: i)
  case (Cons x xs)
  then show ?case by (cases i) auto
qed simp

lemma counted_put_tlv:
  assumes "counted s k" and "a_tlv k = Some c" and "value_length c' = value_length c" and "uni_tag_class c' = uni_tag_class c"
    and "tag_value_size c' = 0 \<or> tag_value_size c' = tag_value_size (prepare_tag c')"
  shows "counted s (put_tlv c' k)"
proof -
  have "chosen s c' = chosen s c" by (intro ext) (simp only: chosen_def assms(3))
  then show ?thesis using assms by (cases k) (auto simp: put_tlv_def split: option.splits)
qed

text \<open>A child in flight is counted and active, but its own changes have not been added yet.\<close>

lemma bump_counted:
  assumes n: "counted s (put_kid i k0 n)" and i: "i < length (a_kids n)"
    and k: "counted s k" "a_session k = s" "contribution k = contribution k0"
  shows "\<exists>m. bump s i (put_kid i k n) = Some (m, True) \<and> counted s m \<and> a_session m = s \<and>
     contribution m = contribution n"
proof -
  obtain t0 v sid lk ch ks where ndef: "n = ASN1Node t0 v sid lk ch ks" by (cases n) auto
  obtain t where t: "t0 = Some t" "lk" using n by (auto simp: ndef put_kid_def split: option.splits)
  obtain c where c: "a_tlv k = Some c" using k(1) by (cases k) (auto split: option.splits)
  have i: "i < length ks" "ks \<noteq> []" using i by (auto simp: ndef)
  let ?c1 = "fst (tlv_update c)"
  let ?c2 = "?c1\<lparr>old_value_length := value_length ?c1 + of_nat (value_length_size ?c1)\<rparr>"
  let ?k = "put_tlv ?c2 k"
  have all: "list_all (counted s) (ks[i := k0])" using n by (simp add: ndef t put_kid_def)
  have tag: "tag_value_size c = 0 \<or> tag_value_size c = tag_value_size (prepare_tag c)"
    using k(1) c by (cases k) auto
  have kc: "counted s ?k"
  proof (rule counted_put_tlv [OF k(1) c])
    show "tag_value_size ?c2 = 0 \<or> tag_value_size ?c2 = tag_value_size (prepare_tag ?c2)"
      using tag by auto
  qed simp_all
  have st: "settled ?c2" by (simp add: settled_fields)
  have ck: "contribution ?k = full_size ?c1"
    by (simp add: contribution_def put_tlv_def full_size_def)
  have sk: "a_session ?k = s" "a_tlv ?k = Some ?c2" using k(2) by (simp_all add: put_tlv_def)
  have all': "list_all (counted s) (ks[i := ?k])"
    by (rule list_all_replace [OF all kc])
  have d: "snd (tlv_update c) = full_size ?c1 - contribution k0"
    using k(3) c by (simp add: update_delta contribution_def)
  show ?thesis
  proof (cases "uni_tag_class t = CHOICE")
    case True
    have "chosen s (t\<lparr>value_length := value_length ?c1, value_length_size := value_length_size ?c1\<rparr>) ?k"
      using st sk by (simp add: chosen_def)
    then show ?thesis
      using True n all' i c t
      by (simp add: bump_def put_kid_def ndef Let_def contribution_def)
  next
    case False
    have e: "list_all (entered s) (ks[i := k0])" "value_length t = sum_list (map contribution (ks[i := k0]))"
      using n False i by (simp_all add: ndef t put_kid_def)
    have ent: "entered s ?k" using sk st ck by (simp add: entered_def full_size_def)
    have e': "list_all (entered s) (ks[i := ?k])" by (rule list_all_replace [OF e(1) ent])
    have "value_length t + snd (tlv_update c) = sum_list (map contribution (ks[i := ?k]))"
      unfolding e(2) d sum_list_update_word [OF i(1)] ck by simp
    then show ?thesis
      using False n all' i c t e'
      by (simp add: bump_def put_kid_def ndef Let_def contribution_def)
  qed
qed

section \<open>The whole way up\<close>

lemma put_kid_same [simp]: "i < length (a_kids n) \<Longrightarrow> put_kid i (a_kids n ! i) n = n"
  by (cases n) (simp add: put_kid_def)

lemma put_kid_twice [simp]: "put_kid i k (put_kid i k' n) = put_kid i k n"
  by (simp add: put_kid_def)

lemma put_kid_sel [simp]: "a_tlv (put_kid i k n) = a_tlv n" "a_session (put_kid i k n) = a_session n"
  "a_kids (put_kid i k n) = (a_kids n)[i := k]" "a_linked (put_kid i k n) = a_linked n"
  by (simp_all add: put_kid_def)

lemma put_tlv_sel [simp]: "a_tlv (put_tlv t n) = Some t" "a_session (put_tlv t n) = a_session n"
  "a_kids (put_tlv t n) = a_kids n" "a_linked (put_tlv t n) = a_linked n"
  by (simp_all add: put_tlv_def)

lemma counted_kid: "counted s n \<Longrightarrow> i < length (a_kids n) \<Longrightarrow> counted s (a_kids n ! i)"
  by (cases n) (auto simp: list_all_length split: option.splits)

lemma climb_counted:
  assumes "counted s n" and "node_at path n = Some m" and "counted s (f m)" and "a_session (f m) = s"
    and "contribution (f m) = contribution m"
  shows "\<exists>n'. climb s path (change_at path f n) = Some (n', True) \<and> counted s n' \<and> a_session n' = s \<and>
     contribution n' = contribution n"
  using assms
proof (induction path arbitrary: n)
  case Nil
  then show ?case by simp
next
  case (Cons i path)
  then have i: "i < length (a_kids n)" "node_at path (a_kids n ! i) = Some m" by (auto split: if_splits)
  obtain k where k: "climb s path (change_at path f (a_kids n ! i)) = Some (k, True)" "counted s k" "a_session k = s"
      "contribution k = contribution (a_kids n ! i)"
    using Cons.IH [OF counted_kid [OF Cons.prems(1) i(1)] i(2) Cons.prems(3-5)] by blast
  have "counted s (put_kid i (a_kids n ! i) n)" using Cons.prems(1) i(1) by simp
  from bump_counted [OF this i(1) k(2-4)] show ?case using k(1) i(1) by simp
qed

lemma update_counted:
  assumes "counted s n" and "node_at path n = Some m" and "counted s (f m)" and "a_session (f m) = s"
    and "contribution (f m) = contribution m"
  shows "\<exists>n'. update_parents s path (change_at path f n) = Some n' \<and> counted s n' \<and> a_session n' = s \<and>
     (\<exists>t. a_tlv n' = Some t \<and> settled t)"
proof -
  obtain n' where n': "climb s path (change_at path f n) = Some (n', True)" "counted s n'" "a_session n' = s"
    using climb_counted [of s n path m f] assms by blast
  obtain t where t: "a_tlv n' = Some t" using n'(2) by (cases n') (auto split: option.splits)
  have "tag_value_size t = 0 \<or> tag_value_size t = tag_value_size (prepare_tag t)"
    using n'(2) t by (cases n') auto
  then have "counted s (put_tlv (fst (tlv_update t)) n')"
    by (intro counted_put_tlv [OF n'(2) t]) auto
  then show ?thesis using n' t by (simp add: update_parents_def settled_fields)
qed

text \<open>An update of a child can be done at its parent.\<close>

lemma climb_split:
  assumes "node_at path n = Some p" and "climb s [j] (change_at [j] f p) = Some (q, True)"
  shows "climb s (path @ [j]) (change_at (path @ [j]) f n) = climb s path (change_at path (\<lambda>_. q) n)"
  using assms
proof (induction path arbitrary: n)
  case (Cons i path)
  then have i: "i < length (a_kids n)" "node_at path (a_kids n ! i) = Some p" by (auto split: if_splits)
  have "climb s (path @ [j]) (change_at (path @ [j]) f (a_kids n ! i)) = climb s path (change_at path (\<lambda>_. q) (a_kids n ! i))"
    by (rule Cons.IH [OF i(2) Cons.prems(2)])
  then show ?case
    using i(1) by (cases "climb s path (change_at path (\<lambda>_. q) (a_kids n ! i))") auto
qed simp

lemma change_tlv: "path \<noteq> [] \<Longrightarrow> a_tlv (change_at path h n) = a_tlv n"
  by (cases path) auto

lemma change_put_tlv: "path \<noteq> [] \<Longrightarrow> change_at path h (put_tlv t n) = put_tlv t (change_at path h n)"
  by (cases path) (auto simp: put_tlv_def put_kid_def)

text \<open>A later change below the place of the update can be made before it.\<close>

lemma bump_change:
  assumes "i < length (a_kids n)" and "path \<noteq> []"
  shows "bump s i (put_kid i (change_at path h k) n)
       = map_option (\<lambda>(m, up). (change_at (i # path) h m, up)) (bump s i (put_kid i k n))"
  using assms change_tlv [OF assms(2), of h k]
  by (auto simp: bump_def Let_def change_put_tlv put_kid_def split: option.splits bool.splits)

lemma climb_change:
  assumes "node_at path n = Some p"
  shows "climb s path (change_at path (\<lambda>_. change_at [j] h q) n)
       = map_option (\<lambda>(m, up). (change_at (path @ [j]) h m, up)) (climb s path (change_at path (\<lambda>_. q) n))"
  using assms
proof (induction path arbitrary: n)
  case (Cons i path)
  then have i: "i < length (a_kids n)" "node_at path (a_kids n ! i) = Some p" by (auto split: if_splits)
  let ?r = "climb s path (change_at path (\<lambda>_. q) (a_kids n ! i))"
  have ih: "climb s path (change_at path (\<lambda>_. change_at [j] h q) (a_kids n ! i))
      = map_option (\<lambda>(m, up). (change_at (path @ [j]) h m, up)) ?r"
    by (rule Cons.IH [OF i(2)])
  show ?case
  proof (cases ?r)
    case None
    with ih i(1) show ?thesis by simp
  next
    case (Some r)
    have "bump s i (put_kid i (change_at (path @ [j]) h (fst r)) n)
        = map_option (\<lambda>(m, up). (change_at (i # path @ [j]) h m, up)) (bump s i (put_kid i (fst r) n))"
      by (rule bump_change [OF i(1)]) simp
    with Some ih i(1) show ?thesis by (cases r; cases "snd r") simp_all
  qed
qed simp

section \<open>Unlinking\<close>

lemma tag_size_small: "tag_value_size (prepare_tag t) \<le> 6"
proof -
  have "units 7 (bit_len (unat (tag_value t))) \<le> 5"
    using unsigned_less [of "tag_value t", where ?'a = nat] by (intro units_le) auto
  then show ?thesis by (simp add: prepare_tag_def Let_def)
qed

lemma negative_length:
  assumes "0 < k" and "k \<le> 6"
  shows "value_length_size (prepare_length (t\<lparr>value_length := 0 - of_nat k - 1\<rparr>)) = 1"
proof -
  have "list_all (\<lambda>k. sint (0 - of_nat k - 1 :: u32) < 0) [1..<7]" by code_simp
  then have "sint (0 - of_nat k - 1 :: u32) < 0" using assms by (auto simp: list_all_iff)
  then show ?thesis by (simp add: prepare_length_def Let_def)
qed

lemma counted_unlinked: "counted s k \<Longrightarrow> s \<noteq> 0 \<Longrightarrow> counted s (unlink_kid k)"
  by (cases k) (auto simp: unlink_kid_def split: option.splits)

text \<open>The parent of an unlinked node, the node's length already set back.\<close>

lemma unlink_step:
  assumes p: "counted s p" "j < length (a_kids p)" "s \<noteq> 0"
    and pt: "a_tlv p = Some pt" "uni_tag_class pt \<noteq> CHOICE"
    and m: "a_kids p ! j = m" "a_tlv m = Some t" "0 < tag_value_size t"
    and k: "k = ASN1Node (Some (t\<lparr>value_length := 0 - of_nat (tag_value_size t) - 1\<rparr>)) (a_value m) s (a_linked m) (a_choice m) (a_kids m)"
    and h: "h = (\<lambda>m. ASN1Node (map_option (\<lambda>u. u\<lparr>value_length := value_length t\<rparr>) (a_tlv m)) (a_value m) 0 (a_linked m)
        (a_choice m) (if uni_tag_class t = CHOICE then map unlink_kid (a_kids m) else a_kids m))"
  shows "\<exists>q. bump s j (put_kid j k p) = Some (q, True) \<and> counted s (change_at [j] h q) \<and> a_session q = s \<and>
     contribution (change_at [j] h q) = contribution p \<and> j < length (a_kids q)"
proof -
  obtain v sid lk ch ks where pdef: "p = ASN1Node (Some pt) v sid lk ch ks" using pt(1) by (cases p) auto
  let ?c = "t\<lparr>value_length := 0 - of_nat (tag_value_size t) - 1\<rparr>"
  let ?c1 = "fst (tlv_update ?c)"
  let ?c2 = "?c1\<lparr>old_value_length := value_length ?c1 + of_nat (value_length_size ?c1)\<rparr>"
  have j: "j < length ks" "ks \<noteq> []" using p(2) by (auto simp: pdef)
  have all: "list_all (counted s) ks" "list_all (entered s) ks" "lk" "value_length pt = sum_list (map contribution ks)"
    using p(1) pt(2) j(2) by (simp_all add: pdef)
  have cm: "counted s m" using counted_kid [OF p(1,2)] m(1) by simp
  have tag: "tag_value_size t = tag_value_size (prepare_tag t)" using cm m(2,3) by (cases m) auto
  have vls: "value_length_size ?c1 = 1"
    using negative_length [of "tag_value_size t" t] m(3) tag tag_size_small [of t] by simp
  have cont: "contribution m = old_value_length t + of_nat (tag_value_size t)" by (simp add: contribution_def m(2))
  have delta: "snd (tlv_update ?c) = - contribution m"
    using vls m(3) by (simp add: update_delta full_size_def cont)
  let ?q = "ASN1Node (Some (pt\<lparr>value_length := value_length pt + snd (tlv_update ?c)\<rparr>)) v s True ch (ks[j := put_tlv ?c2 k])"
  have b: "bump s j (put_kid j k p) = Some (?q, True)"
    using pt j all(3) by (simp add: bump_def put_kid_def pdef k Let_def)
  let ?k = "h (put_tlv ?c2 k)"
  have ks: "a_session ?k = 0" "a_tlv ?k = Some (?c2\<lparr>value_length := value_length t\<rparr>)" by (simp_all add: h)
  have ck: "contribution ?k = 0" unfolding contribution_def ks(2) option.case using vls m(3) by simp
  have kk: "counted s ?k"
  proof -
    obtain mv ms ml mc mk where mdef: "m = ASN1Node (Some t) mv ms ml mc mk" using m(2) by (cases m) auto
    have "list_all (counted s) mk" using cm by (simp add: mdef)
    then have "list_all (counted s) (map unlink_kid mk)" using p(3) counted_unlinked by (auto simp: list_all_iff)
    then show ?thesis using cm p(3) tag m(3) by (auto simp: h mdef k put_tlv_def list.pred_map)
  qed
  have ent: "entered s ?k" using ks(1) ck p(3) by (simp add: entered_def)
  have ch: "change_at [j] h ?q = ASN1Node (Some (pt\<lparr>value_length := value_length pt + snd (tlv_update ?c)\<rparr>)) v s True ch (ks[j := ?k])"
    using j by (simp add: put_kid_def)
  have sum: "value_length pt + snd (tlv_update ?c) = sum_list (map contribution (ks[j := ?k]))"
    unfolding sum_list_update_word [OF j(1)] ck delta all(4) using m(1) by (simp add: pdef)
  have "list_all (counted s) (ks[j := ?k])" "list_all (entered s) (ks[j := ?k])"
    using all(1,2) kk ent by (auto intro: list_all_replace [where a = "ks ! j"])
  then have "counted s (change_at [j] h ?q)"
    unfolding ch using pt(2) j p(1) sum by (simp add: pdef)
  moreover have "contribution (change_at [j] h ?q) = contribution p" unfolding ch by (simp add: contribution_def pdef)
  ultimately show ?thesis using b j by (intro exI [of _ ?q]) simp
qed

lemma node_at_snoc: "node_at (path @ [j]) n = Option.bind (node_at path n) (\<lambda>p. node_at [j] p)"
  by (induction path arbitrary: n) auto

lemma counted_at: "counted s n \<Longrightarrow> node_at path n = Some m \<Longrightarrow> counted s m"
proof (induction path arbitrary: n)
  case (Cons i path)
  then show ?case using counted_kid [of s n i] by (auto split: if_splits)
qed simp

lemma change_at_snoc: "change_at (path @ [j]) h n = change_at path (change_at [j] h) n"
  by (induction path arbitrary: n) auto

lemma unlink_counted:
  assumes "counted s n" and "s \<noteq> 0" and "node_at path n = Some p" and "a_tlv p = Some pt" and "uni_tag_class pt \<noteq> CHOICE"
    and "j < length (a_kids p)"
  shows "\<exists>n'. unlink s (path @ [j]) n = Some n' \<and> counted s n' \<and>
     (n' = n \<or> (a_session n' = s \<and> (\<exists>t. a_tlv n' = Some t \<and> settled t)))"
proof -
  define m where "m = a_kids p ! j"
  have at: "node_at (path @ [j]) n = Some m" using assms(3,6) by (simp add: node_at_snoc m_def)
  have cp: "counted s p" by (rule counted_at [OF assms(1,3)])
  have cm: "counted s m" by (rule counted_at [OF assms(1) at])
  obtain t where t: "a_tlv m = Some t" using cm by (cases m) (auto split: option.splits)
  have lk: "a_linked m" using cm t by (cases m) auto
  have nonull: "\<not> list_ex (\<lambda>k. a_tlv k = None) (a_kids m)"
  proof
    assume "list_ex (\<lambda>k. a_tlv k = None) (a_kids m)"
    then obtain i where i: "i < length (a_kids m)" "a_tlv (a_kids m ! i) = None" by (auto simp: list_ex_length)
    with counted_kid [OF cm i(1)] show False by (cases "a_kids m ! i") auto
  qed
  show ?thesis
  proof (cases "0 < tag_value_size t")
    case False
    then show ?thesis using at t assms(1) by (simp add: unlink_def)
  next
    case True
    define f where "f = (\<lambda>m. ASN1Node (Some (t\<lparr>value_length := 0 - of_nat (tag_value_size t) - 1\<rparr>)) (a_value m) s
        (a_linked m) (a_choice m) (a_kids m))"
    define h where "h = (\<lambda>m. ASN1Node (map_option (\<lambda>u. u\<lparr>value_length := value_length t\<rparr>) (a_tlv m)) (a_value m) 0
        (a_linked m) (a_choice m) (if uni_tag_class t = CHOICE then map unlink_kid (a_kids m) else a_kids m))"
    have u: "unlink s (path @ [j]) n = map_option (change_at (path @ [j]) h)
        (update_parents s (path @ [j]) (change_at (path @ [j]) f n))"
      using at t lk nonull True by (simp add: unlink_def f_def h_def)
    obtain q where q: "bump s j (put_kid j (f m) p) = Some (q, True)" "counted s (change_at [j] h q)" "a_session q = s"
        "contribution (change_at [j] h q) = contribution p" "j < length (a_kids q)"
      using unlink_step [OF cp assms(6,2,4,5) m_def [symmetric] t True fun_cong [OF f_def, of m] h_def] by blast
    have step: "climb s [j] (change_at [j] f p) = Some (q, True)"
      using q(1) assms(6) by (simp add: m_def)
    have sess: "a_session (change_at [j] h q) = s" using q(3,5) by simp
    obtain r where r: "climb s path (change_at path (\<lambda>_. change_at [j] h q) n) = Some (r, True)" "counted s r" "a_session r = s"
      using climb_counted [of s n path p "\<lambda>_. change_at [j] h q"] assms(1,3) q(2,4) sess by blast
    from r(1) have "map_option (\<lambda>(m, up). (change_at (path @ [j]) h m, up)) (climb s path (change_at path (\<lambda>_. q) n)) = Some (r, True)"
      by (simp only: climb_change [OF assms(3)])
    then obtain r0 where r0: "climb s path (change_at path (\<lambda>_. q) n) = Some (r0, True)" "r = change_at (path @ [j]) h r0"
      by auto
    obtain rt where rt: "a_tlv r = Some rt" using r(2) by (cases r) (auto split: option.splits)
    then have rt0: "a_tlv r0 = Some rt" using r0(2) by (simp add: change_tlv)
    have "update_parents s (path @ [j]) (change_at (path @ [j]) f n) = Some (put_tlv (fst (tlv_update rt)) r0)"
      using r0(1) rt0 by (simp add: update_parents_def climb_split [OF assms(3) step])
    then have res: "unlink s (path @ [j]) n = Some (put_tlv (fst (tlv_update rt)) r)"
      unfolding u by (simp add: r0(2) change_put_tlv)
    have "tag_value_size rt = 0 \<or> tag_value_size rt = tag_value_size (prepare_tag rt)" using r(2) rt by (cases r) auto
    then have "counted s (put_tlv (fst (tlv_update rt)) r)"
      by (intro counted_put_tlv [OF r(2) rt]) auto
    then show ?thesis using res r(3) by (simp add: settled_fields)
  qed
qed

section \<open>Resetting\<close>

text \<open>A prepared tree no node of which is in session \<^term>\<open>s\<close>.\<close>

fun unused :: "u64 \<Rightarrow> asn1_node \<Rightarrow> bool" where
  "unused s (ASN1Node t v sid lk ch ks) \<longleftrightarrow> t \<noteq> None \<and> lk \<and> sid \<noteq> s \<and> list_all (unused s) ks"

lemma reset_contribution: "unused s n \<Longrightarrow> contribution (asn1_reset n) = 0"
  by (cases n) (auto simp: contribution_def)

lemma reset_session: "a_session (asn1_reset n) = a_session n"
  by (cases n) (auto split: option.splits)

lemma reset_counted: "unused s n \<Longrightarrow> counted s (asn1_reset n)"
proof (induction n)
  case (ASN1Node t v sid lk ch ks)
  then obtain u where t: "t = Some u" "lk" "sid \<noteq> s" "list_all (unused s) ks" by auto
  have c: "list_all (counted s) (map asn1_reset ks)" using ASN1Node.IH t(4) by (auto simp: list_all_iff)
  have z: "contribution (asn1_reset k) = 0 \<and> a_session (asn1_reset k) \<noteq> s" if "k \<in> set ks" for k
  proof -
    have "unused s k" using t(4) that by (auto simp: list_all_iff)
    then show ?thesis using reset_contribution [of s k] by (cases k) (auto split: option.splits)
  qed
  then have e: "list_all (entered s) (map asn1_reset ks)" by (auto simp: list_all_iff entered_def)
  have "map contribution (map asn1_reset ks) = map (\<lambda>_. 0) ks" using z by simp
  then have "sum_list (map contribution (map asn1_reset ks)) = 0" by (simp only: sum_list_0)
  then show ?case using t c e by auto
qed

section \<open>What does not change\<close>

text \<open>A tree without what the operations write.\<close>

definition static :: "tlv_node \<Rightarrow> tlv_node" where
  "static t = t\<lparr>length_type := LENGTH_TYPE_UNKNOWN, tag_value_size := 0, value_length := 0, value_length_size := 0,
     old_value_length := 0\<rparr>"

fun skeleton :: "asn1_node \<Rightarrow> asn1_node" where
  "skeleton (ASN1Node t v sid lk ch ks) = ASN1Node (map_option static t) [] 0 True None (map skeleton ks)"

lemma static_simps [simp]:
  "static (prepare_length t) = static t" "static (prepare_tag t) = static t" "static (t\<lparr>value_length := v\<rparr>) = static t"
  "static (t\<lparr>old_value_length := v\<rparr>) = static t" "static (t\<lparr>value_length_size := k\<rparr>) = static t"
  "static (t\<lparr>tag_value_size := k\<rparr>) = static t" "static (fst (tlv_update t)) = static t"
  by (simp_all add: static_def prepare_length_def prepare_tag_def tlv_update_def Let_def)

lemma skeleton_alt: "skeleton n = ASN1Node (map_option static (a_tlv n)) [] 0 True None (map skeleton (a_kids n))"
  by (cases n) simp

lemma skeleton_put_tlv: "a_tlv n = Some t \<Longrightarrow> static t' = static t \<Longrightarrow> skeleton (put_tlv t' n) = skeleton n"
  by (simp add: skeleton_alt [of n] put_tlv_def)

lemma skeleton_put_kid: "skeleton k = skeleton (a_kids n ! i) \<Longrightarrow> i < length (a_kids n) \<Longrightarrow> skeleton (put_kid i k n) = skeleton n"
  by (simp add: skeleton_alt [of n] put_kid_def map_update) (metis list_update_id map_update nth_map length_map)

lemma skeleton_bump: "bump s i n = Some (m, up) \<Longrightarrow> i < length (a_kids n) \<Longrightarrow> skeleton m = skeleton n"
proof -
  assume b: "bump s i n = Some (m, up)" and i: "i < length (a_kids n)"
  have k: "map skeleton ((a_kids n)[i := k]) = map skeleton (a_kids n)" if "skeleton k = skeleton (a_kids n ! i)" for k
    using that i by (metis list_update_id map_update)
  show ?thesis
    using b k i by (auto simp: bump_def Let_def skeleton_alt [of n] skeleton_put_tlv split: option.splits bool.splits)
qed

lemma skeleton_climb: "climb s path n = Some (m, up) \<Longrightarrow> skeleton m = skeleton n"
proof (induction path arbitrary: n m up)
  case (Cons i path)
  then obtain k w where k: "i < length (a_kids n)" "climb s path (a_kids n ! i) = Some (k, w)"
      "(if w then bump s i (put_kid i k n) else Some (put_kid i k n, False)) = Some (m, up)"
    by (auto split: if_splits bind_splits)
  then have "skeleton (put_kid i k n) = skeleton n" using Cons.IH [OF k(2)] by (intro skeleton_put_kid) auto
  then show ?case using k(1,3) skeleton_bump [of s i "put_kid i k n" m up] by (auto split: if_splits)
qed simp

lemma skeleton_update:
  assumes "update_parents s path n = Some m"
  shows "skeleton m = skeleton n"
proof -
  obtain a up where c: "climb s path n = Some (a, up)"
    using assms by (cases "climb s path n") (auto simp: update_parents_def)
  have "skeleton a = skeleton n" by (rule skeleton_climb [OF c])
  then show ?thesis using assms c by (auto simp: update_parents_def skeleton_put_tlv split: if_splits)
qed

lemma skeleton_change:
  "node_at path n = Some k \<Longrightarrow> skeleton (f k) = skeleton k \<Longrightarrow> skeleton (change_at path f n) = skeleton n"
proof (induction path arbitrary: n)
  case (Cons i path)
  then show ?case by (auto intro!: skeleton_put_kid split: if_splits)
qed simp

lemma node_at_skeleton: "map_option skeleton (node_at path n) = node_at path (skeleton n)"
  by (induction path arbitrary: n) (auto simp: skeleton_alt)

section \<open>Encodable definitions\<close>

text \<open>
  What the generated classes set up: a tag up to 127, or a universal one up to 30, a form that fits
  the children, no override of the form. The choices of a CHOICE have tags of one octet, since the
  CHOICE counts one octet for them.
\<close>

definition tlv_ok :: "bool \<Rightarrow> tlv_node \<Rightarrow> bool" where
  "tlv_ok leaf t \<longleftrightarrow> \<not> override_auto_complexity t \<and> tag_ok (completed leaf t) \<and>
     complexity (completed leaf t) = (if leaf then PRIMITIVE else CONSTRUCTED) \<and>
     (tag_value t = UNKNOWN_UNIVERSAL_TAG \<longrightarrow> unat (uni_tag_class t) \<le> 30)"

definition short_tag :: "tlv_node \<Rightarrow> bool" where
  "short_tag t \<longleftrightarrow> tag_value_size (prepare_tag t) = 1"

fun defn_ok :: "asn1_node \<Rightarrow> bool" where
  "defn_ok (ASN1Node t0 v sid lk ch ks) \<longleftrightarrow> (case t0 of
       None \<Rightarrow> False
     | Some t \<Rightarrow> list_all defn_ok ks \<and>
        (if uni_tag_class t = CHOICE
         then short_tag t \<and> list_all (\<lambda>k. case a_tlv k of None \<Rightarrow> False | Some u \<Rightarrow> short_tag u) ks
         else tlv_ok (ks = []) t))"

lemma static_fields:
  "uni_tag_class (static t) = uni_tag_class t" "prepare_tag (static t) = (static t)\<lparr>tag_value_size := tag_value_size (prepare_tag t)\<rparr>"
  by (simp_all add: static_def prepare_tag_def Let_def)

lemma tlv_ok_static: "tlv_ok leaf (static t) = tlv_ok leaf t"
  by (simp add: tlv_ok_def completed_def static_def tag_ok_def Let_def)

lemma short_tag_static: "short_tag (static t) = short_tag t"
  by (simp add: short_tag_def static_fields)

lemma defn_ok_skeleton: "defn_ok (skeleton n) = defn_ok n"
proof (induction n)
  case (ASN1Node t v sid lk ch ks)
  have kids: "list_all defn_ok (map skeleton ks) = list_all defn_ok ks"
    using ASN1Node.IH by (auto simp: list_all_iff)
  have "(case a_tlv (skeleton k) of None \<Rightarrow> False | Some u \<Rightarrow> short_tag u) =
      (case a_tlv k of None \<Rightarrow> False | Some u \<Rightarrow> short_tag u)" for k
    by (cases k) (auto simp: short_tag_static split: option.splits)
  then have "list_all (\<lambda>k. case a_tlv k of None \<Rightarrow> False | Some u \<Rightarrow> short_tag u) (map skeleton ks)
      = list_all (\<lambda>k. case a_tlv k of None \<Rightarrow> False | Some u \<Rightarrow> short_tag u) ks"
    by (simp add: list_all_iff)
  with kids show ?case by (auto simp: tlv_ok_static short_tag_static static_fields split: option.splits)
qed

lemma sized_completed:
  assumes "tlv_ok leaf t" and "settled t" and "tag_value_size t = tag_value_size (prepare_tag t)"
    and "unat (value_length t) < 2 ^ 31 - 1"
  shows "sized (completed leaf t)"
proof -
  let ?c = "completed leaf t"
  have ok: "tag_ok ?c" using assms(1) by (simp add: tlv_ok_def)
  have same: "value_length ?c = value_length t" "value_length_size ?c = value_length_size t" "tag_value_size ?c = tag_value_size t"
    by (simp_all add: completed_def Let_def)
  have "tag_value_size t = length (tag_octets_of ?c)"
  proof (cases "tag_value t = UNKNOWN_UNIVERSAL_TAG")
    case True
    then have "tag_value_size (prepare_tag t) = 1" by (simp add: prepare_tag_def Let_def)
    moreover have "tag_value ?c = uni_tag_class t" using True by (simp add: completed_def Let_def)
    ultimately show ?thesis using assms(1,3) True by (simp add: tlv_ok_def tag_octets_of_def)
  next
    case False
    then have "tag_value_size (prepare_tag ?c) = tag_value_size (prepare_tag t)"
      by (simp add: completed_def prepare_tag_def Let_def)
    then show ?thesis using encode_tag_octets(3) [OF ok, of 1] assms(3) by simp
  qed
  moreover have "value_length_size t = length (length_octets (value_length t))"
    using assms(2) encode_prepared_length_octets(2) [OF assms(4), of 1] by (simp add: settled_def)
  ultimately show ?thesis using ok same assms(4) by (simp add: sized_def)
qed

section \<open>A counted tree is prepared\<close>

lemma elements_inactive: "a_session k \<noteq> s \<Longrightarrow> elements s k = []"
  by (cases k) simp

lemma prepared_inactive: "a_session k \<noteq> s \<Longrightarrow> prepared s k"
  by (cases k) simp

lemma kid_bytes:
  "k \<in> set ks \<Longrightarrow> length (bytes_of_all (elements s k)) \<le> length (bytes_of_all (concat (map (elements s) ks)))"
  by (induction ks) auto

lemma kids_bytes:
  assumes "\<And>k. k \<in> set ks \<Longrightarrow> of_nat (length (bytes_of_all (elements s k))) = contribution k"
  shows "of_nat (length (bytes_of_all (concat (map (elements s) ks)))) = sum_list (map contribution ks)"
  using assms by (induction ks) auto

definition ready :: "u64 \<Rightarrow> asn1_node \<Rightarrow> bool" where
  "ready s n \<longleftrightarrow> (\<forall>t. counted s n \<longrightarrow> defn_ok n \<longrightarrow> a_session n = s \<longrightarrow> a_tlv n = Some t \<longrightarrow> settled t \<longrightarrow>
     length (bytes_of_all (elements s n)) < 2 ^ 31 \<longrightarrow>
     prepared s n \<and> of_nat (length (bytes_of_all (elements s n))) = full_size t)"

lemma head_octets:
  "length os + 2 \<le> length (ber_bytes (BPrim c v os))" "length (bytes_of_all bs) + 2 \<le> length (ber_bytes (BCons c v bs))"
  using length_tag_octets(1) [of "ber_head c PRIMITIVE v"] length_tag_octets(2) [of "of_nat (length os)"]
    length_tag_octets(1) [of "ber_head c CONSTRUCTED v"] length_tag_octets(2) [of "of_nat (length (bytes_of_all bs))"]
  by (simp_all only: ber_bytes.simps length_append)

lemma leaf_ready:
  assumes "uni_tag_class t \<noteq> CHOICE"
  shows "ready s (ASN1Node (Some t) v sid lk ch [])"
  unfolding ready_def
proof (intro allI impI)
  let ?n = "ASN1Node (Some t) v sid lk ch []" and ?c = "completed True t"
  fix t' assume a: "counted s ?n" "defn_ok ?n" "a_session ?n = s" "a_tlv ?n = Some t'" "settled t'"
    "length (bytes_of_all (elements s ?n)) < 2 ^ 31"
  have t: "tag_value_size t = tag_value_size (prepare_tag t)" "lk" "sid = s" "length v = unat (value_length t)" "tlv_ok True t"
      "t' = t" "settled t"
    using a(1-5) assms by (auto simp: settled_def)
  have same: "value_length ?c = value_length t" "complexity ?c = PRIMITIVE" "value_length_size ?c = value_length_size t"
      "tag_value_size ?c = tag_value_size t" "override_auto_complexity ?c = override_auto_complexity t"
    using t(5) by (auto simp: tlv_ok_def completed_def Let_def)
  have el: "elements s ?n = [BPrim (tag_class ?c) (tag_value ?c) v]"
    using assms t(2-4) same by (simp add: Let_def)
  have u: "of_nat (length v) = value_length t" by (simp add: t(4))
  have "length v < 2 ^ 31 - 1" using a(6) head_octets(1) [of v "tag_class ?c" "tag_value ?c"] unfolding el by simp
  then have sz: "sized ?c" using sized_completed [OF t(5,7,1)] t(4) by simp
  have "bytes_of_all (elements s ?n) = tag_octets_of ?c @ length_octets (value_length t) @ v"
    unfolding el using node_bytes [OF sz refl refl same(2)] u by simp
  then have len: "of_nat (length (bytes_of_all (elements s ?n))) = full_size t"
    using sz same u by (simp add: sized_def full_size_def)
  have "prepared s ?n" using assms t(2-4) same sz by (simp add: Let_def)
  then show "prepared s ?n \<and> of_nat (length (bytes_of_all (elements s ?n))) = full_size t'"
    using len t(6) by simp
qed

lemma group_ready:
  assumes "uni_tag_class t \<noteq> CHOICE" and "ks \<noteq> []" and ih: "\<And>k. k \<in> set ks \<Longrightarrow> ready s k"
  shows "ready s (ASN1Node (Some t) v sid lk ch ks)"
  unfolding ready_def
proof (intro allI impI)
  let ?n = "ASN1Node (Some t) v sid lk ch ks" and ?c = "completed False t" and ?body = "bytes_of_all (concat (map (elements s) ks))"
  fix t' assume a: "counted s ?n" "defn_ok ?n" "a_session ?n = s" "a_tlv ?n = Some t'" "settled t'"
    "length (bytes_of_all (elements s ?n)) < 2 ^ 31"
  have t: "tag_value_size t = tag_value_size (prepare_tag t)" "lk" "sid = s" "tlv_ok False t" "t' = t" "settled t"
    using a(1-5) assms(1,2) by (auto simp: settled_def)
  have kids: "list_all (counted s) ks" "list_all (entered s) ks" "list_all defn_ok ks"
      "value_length t = sum_list (map contribution ks)"
    using a(1,2) assms(1,2) by simp_all
  have same: "value_length ?c = value_length t" "complexity ?c = CONSTRUCTED" "value_length_size ?c = value_length_size t"
      "tag_value_size ?c = tag_value_size t" "\<not> override_auto_complexity ?c"
    using t(4) by (auto simp: tlv_ok_def completed_def Let_def)
  have el: "elements s ?n = [BCons (tag_class ?c) (tag_value ?c) (concat (map (elements s) ks))]"
    using assms(1,2) t(2,3) same by (simp add: Let_def)
  have small: "length ?body < 2 ^ 31 - 1"
    using a(6) head_octets(2) [of "concat (map (elements s) ks)" "tag_class ?c" "tag_value ?c"] unfolding el by simp
  have k: "of_nat (length (bytes_of_all (elements s k))) = contribution k \<and> prepared s k" if "k \<in> set ks" for k
  proof (cases "a_session k = s")
    case False
    then have "contribution k = 0" using kids(2) that by (auto simp: list_all_iff entered_def)
    then show ?thesis using elements_inactive [OF False] prepared_inactive [OF False] by simp
  next
    case True
    have "entered s k" using kids(2) that by (simp add: list_all_iff)
    then obtain u where u: "a_tlv k = Some u" "settled u" "contribution k = full_size u"
      using True by (auto simp: entered_def split: option.splits)
    have "length (bytes_of_all (elements s k)) < 2 ^ 31" using kid_bytes [OF that, of s] small by linarith
    then show ?thesis
      using ih [OF that] True u kids(1,3) that by (auto simp: ready_def list_all_iff)
  qed
  have u: "of_nat (length ?body) = value_length t" unfolding kids(4) by (rule kids_bytes) (use k in blast)
  have l: "length ?body = unat (value_length t)"
    unfolding u [symmetric] by (rule unat_small [symmetric]) (use small in simp)
  then have sz: "sized ?c" using sized_completed [OF t(4,6,1)] small by simp
  have "bytes_of_all (elements s ?n) = tag_octets_of ?c @ length_octets (value_length t) @ ?body"
    unfolding el using node_bytes [OF sz refl refl same(2)] u by simp
  then have len: "of_nat (length (bytes_of_all (elements s ?n))) = full_size t"
    using sz same u by (simp add: sized_def full_size_def)
  have "list_all (prepared s) ks" using k by (auto simp: list_all_iff)
  then have "prepared s ?n" using assms(1,2) t(2,3) same sz l by (simp add: Let_def)
  then show "prepared s ?n \<and> of_nat (length (bytes_of_all (elements s ?n))) = full_size t'"
    using len t(5) by simp
qed

lemma choice_ready:
  assumes "uni_tag_class t = CHOICE" and ih: "\<And>k. k \<in> set ks \<Longrightarrow> ready s k"
  shows "ready s (ASN1Node (Some t) v sid lk ch ks)"
  unfolding ready_def
proof (intro allI impI)
  let ?n = "ASN1Node (Some t) v sid lk ch ks"
  fix t' assume a: "counted s ?n" "defn_ok ?n" "a_session ?n = s" "a_tlv ?n = Some t'" "settled t'"
    "length (bytes_of_all (elements s ?n)) < 2 ^ 31"
  have t: "tag_value_size t = tag_value_size (prepare_tag t)" "lk" "sid = s" "short_tag t" "t' = t" "settled t"
    using a(1-5) assms(1) by (auto simp: settled_def)
  obtain i where i: "ch = Some i" "i < length ks" "chosen s t (ks ! i)"
    using a(1,3) assms(1) by (auto split: option.splits)
  obtain u where u: "a_tlv (ks ! i) = Some u" "settled u" "value_length u = value_length t" "a_session (ks ! i) = s"
    using i(3) by (auto simp: chosen_def split: option.splits)
  have k: "ks ! i \<in> set ks" using i(2) by simp
  have c: "counted s (ks ! i)" "defn_ok (ks ! i)" "short_tag u"
    using a(1,2) assms(1) k u(1) by (auto simp: list_all_iff)
  have el: "elements s ?n = elements s (ks ! i)" using assms(1) t(2,3) i(1,2) by simp
  have r: "prepared s (ks ! i)" "of_nat (length (bytes_of_all (elements s (ks ! i)))) = full_size u"
    using ih [OF k] c u a(6) unfolding el by (auto simp: ready_def)
  have "tag_value_size u = tag_value_size (prepare_tag u)"
    using c(1) u(1,2) by (cases "ks ! i") (auto simp: settled_def)
  moreover have "value_length_size u = value_length_size t"
    using u(2,3) t(6) by (simp add: settled_def prepare_length_def Let_def)
  ultimately have "full_size u = full_size t"
    using u(3) c(3) t(1,4) by (simp add: full_size_def short_tag_def)
  moreover have "prepared s ?n" using assms(1) i r(1) by simp
  ultimately show "prepared s ?n \<and> of_nat (length (bytes_of_all (elements s ?n))) = full_size t'"
    using r(2) t(5) unfolding el by simp
qed

lemma node_ready: "ready s n"
proof (induction n)
  case (ASN1Node t0 v sid lk ch ks)
  show ?case
  proof (cases t0)
    case None
    then show ?thesis by (simp add: ready_def)
  next
    case (Some t)
    then show ?thesis
      using leaf_ready [of t s v sid lk ch] group_ready [of t ks s v sid lk ch] choice_ready [of t ks s v sid lk ch]
        ASN1Node.IH by (cases "uni_tag_class t = CHOICE"; cases "ks = []") auto
  qed
qed

lemma counted_encodes:
  assumes "counted s n" and "defn_ok n" and "a_session n = s" and "a_tlv n = Some t" and "settled t"
    and "int (length (bytes_of_all (elements s n))) \<le> bl" and "bl < 2 ^ 31"
  shows "\<exists>n'. asn1_encode s bl n = Some (bytes_of_all (elements s n), n')"
proof -
  have "prepared s n" using assms node_ready [of s n] by (simp add: ready_def)
  from encode_elements [OF this assms(6,7)] assms(6) show ?thesis by (auto simp: asn1_encode_def)
qed

section \<open>Sessions\<close>

text \<open>
  A session of an application: the tree is reset, then values are linked to leaves, nodes that are
  not a CHOICE are linked, and children of such nodes are unlinked, in any order.
\<close>

inductive link_session :: "u64 \<Rightarrow> asn1_node \<Rightarrow> asn1_node \<Rightarrow> bool" for s n where
  start: "link_session s n (asn1_reset n)"
| link_value: "link_session s n m \<Longrightarrow> node_at path m = Some k \<Longrightarrow> a_tlv k = Some t \<Longrightarrow> uni_tag_class t \<noteq> CHOICE \<Longrightarrow>
    a_kids k = [] \<Longrightarrow> length data < 2 ^ 32 \<Longrightarrow> set_linked_value s path data m = Some m' \<Longrightarrow> link_session s n m'"
| link_node: "link_session s n m \<Longrightarrow> node_at path m = Some k \<Longrightarrow> a_tlv k = Some t \<Longrightarrow> uni_tag_class t \<noteq> CHOICE \<Longrightarrow>
    set_linked_data s path m = Some m' \<Longrightarrow> link_session s n m'"
| drop_node: "link_session s n m \<Longrightarrow> node_at path m = Some k \<Longrightarrow> a_tlv k = Some t \<Longrightarrow> uni_tag_class t \<noteq> CHOICE \<Longrightarrow>
    j < length (a_kids k) \<Longrightarrow> unlink s (path @ [j]) m = Some m' \<Longrightarrow> link_session s n m'"

definition session_ok :: "u64 \<Rightarrow> asn1_node \<Rightarrow> bool" where
  "session_ok s m \<longleftrightarrow> counted s m \<and> (a_session m = s \<longrightarrow> (\<exists>t. a_tlv m = Some t \<and> settled t))"

lemma link_value_ok:
  assumes "counted s m" and "node_at path m = Some k" and "a_tlv k = Some t" and "uni_tag_class t \<noteq> CHOICE"
    and "a_kids k = []" and "length data < 2 ^ 32"
  shows "\<exists>m'. set_linked_value s path data m = Some m' \<and> session_ok s m'"
proof -
  let ?f = "\<lambda>m. ASN1Node (Some (t\<lparr>value_length := of_nat (length data)\<rparr>)) data s True (a_choice m) (a_kids m)"
  obtain v sid lk ch where k: "k = ASN1Node (Some t) v sid lk ch []" using assms(3,5) by (cases k) auto
  have "counted s k" by (rule counted_at [OF assms(1,2)])
  then have "counted s (?f k)" using unat_small [OF assms(6)] assms(4) by (auto simp: k)
  moreover have "contribution (?f k) = contribution k" by (simp add: k contribution_def)
  ultimately show ?thesis
    using update_counted [of s m path k ?f] assms(1-3) by (auto simp: set_linked_value_def session_ok_def)
qed

lemma link_node_ok:
  assumes "counted s m" and "node_at path m = Some k" and "a_tlv k = Some t" and "uni_tag_class t \<noteq> CHOICE"
  shows "\<exists>m'. set_linked_data s path m = Some m' \<and> session_ok s m'"
proof -
  let ?f = "\<lambda>m. ASN1Node (a_tlv m) (a_value m) s True (a_choice m) (a_kids m)"
  obtain v sid lk ch ks where k: "k = ASN1Node (Some t) v sid lk ch ks" using assms(3) by (cases k) auto
  have "counted s k" by (rule counted_at [OF assms(1,2)])
  then have "counted s (?f k)" using assms(4) by (auto simp: k)
  moreover have "contribution (?f k) = contribution k" by (simp add: k contribution_def)
  ultimately show ?thesis
    using update_counted [of s m path k ?f] assms(1-3) by (auto simp: set_linked_data_def session_ok_def)
qed

lemma drop_ok:
  assumes "session_ok s m" and "s \<noteq> 0" and "node_at path m = Some k" and "a_tlv k = Some t" and "uni_tag_class t \<noteq> CHOICE"
    and "j < length (a_kids k)"
  shows "\<exists>m'. unlink s (path @ [j]) m = Some m' \<and> session_ok s m'"
proof -
  have "counted s m" using assms(1) by (simp add: session_ok_def)
  from unlink_counted [OF this assms(2-6)] show ?thesis using assms(1) by (auto simp: session_ok_def)
qed

lemma link_session_ok:
  assumes "link_session s n m" and "unused s n" and "s \<noteq> 0"
  shows "session_ok s m"
  using assms(1)
proof induction
  case start
  then show ?case
    using reset_counted [OF assms(2)] assms(2) by (cases n) (auto simp: session_ok_def reset_session)
next
  case (link_value m path k t data m')
  then show ?case using link_value_ok [of s m path k t data] by (auto simp: session_ok_def)
next
  case (link_node m path k t m')
  then show ?case using link_node_ok [of s m path k t] by (auto simp: session_ok_def)
next
  case (drop_node m path k t j m')
  then show ?case using drop_ok [of s m path k t j] assms(3) by auto
qed

lemma skeleton_reset: "unused s n \<Longrightarrow> skeleton (asn1_reset n) = skeleton n"
proof (induction n)
  case (ASN1Node t v sid lk ch ks)
  then have "map skeleton (map asn1_reset ks) = map skeleton ks" by (auto simp: list_all_iff)
  with ASN1Node.prems show ?case by (auto simp: static_def)
qed

lemma skeleton_change_all:
  "(\<And>k. skeleton (f k) = skeleton k) \<Longrightarrow> skeleton (change_at path f n) = skeleton n"
proof (induction path arbitrary: n)
  case (Cons i path)
  then show ?case by (auto intro!: skeleton_put_kid)
qed simp

lemma skeleton_unlink_kid: "skeleton (unlink_kid k) = skeleton k"
  by (cases k) (auto simp: unlink_kid_def option.map_comp comp_def)

lemma skeleton_unlink:
  assumes "unlink s path n = Some m"
  shows "skeleton m = skeleton n"
proof -
  obtain k where k: "node_at path n = Some k" using assms by (auto simp: unlink_def split: option.splits)
  show ?thesis
  proof (cases "a_tlv k")
    case None
    then show ?thesis using assms k by (simp add: unlink_def)
  next
    case (Some t)
    let ?f = "\<lambda>m. ASN1Node (Some (t\<lparr>value_length := 0 - of_nat (tag_value_size t) - 1\<rparr>)) (a_value m) s (a_linked m)
        (a_choice m) (a_kids m)"
    let ?h = "\<lambda>m. ASN1Node (map_option (\<lambda>u. u\<lparr>value_length := value_length t\<rparr>) (a_tlv m)) (a_value m) 0 (a_linked m)
        (a_choice m) (if uni_tag_class t = CHOICE then map unlink_kid (a_kids m) else a_kids m)"
    have h: "skeleton (?h x) = skeleton x" for x
      by (simp add: skeleton_alt [of x] option.map_comp comp_def skeleton_unlink_kid)
    have f: "skeleton (change_at path ?f n) = skeleton n"
      by (rule skeleton_change [OF k]) (simp add: skeleton_alt [of k] Some)
    have "m = n \<or> (\<exists>x. update_parents s path (change_at path ?f n) = Some x \<and> m = change_at path ?h x)"
      using assms k Some by (auto simp: unlink_def split: if_splits)
    then show ?thesis
    proof
      assume "\<exists>x. update_parents s path (change_at path ?f n) = Some x \<and> m = change_at path ?h x"
      then obtain x where x: "update_parents s path (change_at path ?f n) = Some x" "m = change_at path ?h x" by blast
      show ?thesis unfolding x(2) skeleton_change_all [of ?h, OF h] skeleton_update [OF x(1)] f ..
    qed simp
  qed
qed

lemma link_session_skeleton:
  assumes "link_session s n m" and "unused s n"
  shows "skeleton m = skeleton n"
  using assms(1)
proof induction
  case start
  then show ?case by (rule skeleton_reset [OF assms(2)])
next
  case (link_value m path k t data m')
  have "skeleton (change_at path (\<lambda>m. ASN1Node (Some (t\<lparr>value_length := of_nat (length data)\<rparr>)) data s True (a_choice m)
      (a_kids m)) m) = skeleton m"
    by (rule skeleton_change [OF link_value.hyps(2)]) (simp add: skeleton_alt [of k] link_value.hyps(3))
  then show ?case
    using link_value.hyps(2,3,7) link_value.IH skeleton_update by (fastforce simp: set_linked_value_def)
next
  case (link_node m path k t m')
  have "skeleton (change_at path (\<lambda>m. ASN1Node (a_tlv m) (a_value m) s True (a_choice m) (a_kids m)) m) = skeleton m"
    by (rule skeleton_change_all) (simp add: skeleton_alt)
  then show ?case using link_node.hyps(5) link_node.IH skeleton_update by (fastforce simp: set_linked_data_def)
next
  case (drop_node m path k t j m')
  then show ?case using skeleton_unlink by simp
qed

section \<open>Properties\<close>

text \<open>
  C26. Through every session of linking and unlinking, from a reset tree, the lengths stay exact:
  each parent's value length is the sum of the full sizes of its children in the session, each
  CHOICE has the length of its selection, every node in the session has its tag and length
  prepared. Linking a leaf again, unlinking twice and linking what was unlinked included.
\<close>

theorem link_session_counted:
  assumes "unused s n" and "s \<noteq> 0" and "link_session s n m"
  shows "counted s m"
  using link_session_ok [OF assms(3,1,2)] by (simp add: session_ok_def)

definition sample_defn :: asn1_node where
  "sample_defn = asn1_prepare (ASN1Node (Some (new_tlv\<lparr>uni_tag_class := 16\<rparr>)) [] 0 False None
     [ASN1Node (Some (new_tlv\<lparr>uni_tag_class := 2\<rparr>)) [] 0 False None [],
      ASN1Node (Some (new_tlv\<lparr>uni_tag_class := 4, tag_class := 0x80, tag_value := 40\<rparr>)) [] 0 False None []])"

definition sample_one :: asn1_node where "sample_one = the (set_linked_value 1 [0] [5] (asn1_reset sample_defn))"

definition sample_both :: asn1_node where "sample_both = the (set_linked_value 1 [1] [104, 105] sample_one)"

definition sample_linked :: asn1_node where "sample_linked = the (unlink 1 ([] @ [1]) sample_both)"

lemma sample_unused: "unused 1 sample_defn"
  by code_simp

lemma sample_defn_ok: "defn_ok sample_defn"
  by code_simp

lemma sample_nodes:
  "map_option (\<lambda>k. (map_option uni_tag_class (a_tlv k), a_kids k = [])) (node_at [0] (asn1_reset sample_defn)) = Some (Some 2, True)"
  "map_option (\<lambda>k. (map_option uni_tag_class (a_tlv k), a_kids k = [])) (node_at [1] sample_one) = Some (Some 4, True)"
  "map_option (\<lambda>k. (map_option uni_tag_class (a_tlv k), 1 < length (a_kids k))) (node_at [] sample_both) = Some (Some 16, True)"
  by code_simp+

lemma sample_steps:
  "set_linked_value 1 [0] [5] (asn1_reset sample_defn) = Some sample_one"
  "set_linked_value 1 [1] [104, 105] sample_one = Some sample_both"
  "unlink 1 ([] @ [1]) sample_both = Some sample_linked"
  by code_simp+

lemma sample_session: "link_session 1 sample_defn sample_linked"
proof -
  have one: "link_session 1 sample_defn sample_one"
    using sample_nodes(1) by (auto intro: link_session.link_value [OF link_session.start _ _ _ _ _ sample_steps(1)])
  have both: "link_session 1 sample_defn sample_both"
    using sample_nodes(2) by (auto intro: link_session.link_value [OF one _ _ _ _ _ sample_steps(2)])
  show ?thesis
    using sample_nodes(3) by (auto intro: link_session.drop_node [OF both _ _ _ _ sample_steps(3)])
qed

theorem link_session_counted_witness: "counted 1 sample_linked"
  by (rule link_session_counted [OF sample_unused _ sample_session]) simp

text \<open>
  C27. Whatever an application links and unlinks in a session, the encoder writes the elements of the
  nodes that are in the session at the end, if the root is one of them and they fit the buffer.
\<close>

theorem link_session_encodes:
  assumes "unused s n" and "s \<noteq> 0" and "defn_ok n" and "link_session s n m" and "a_session m = s"
    and "int (length (bytes_of_all (elements s m))) \<le> bl" and "bl < 2 ^ 31"
  shows "\<exists>m'. asn1_encode s bl m = Some (bytes_of_all (elements s m), m')"
proof -
  have "session_ok s m" by (rule link_session_ok [OF assms(4,1,2)])
  then obtain t where t: "counted s m" "a_tlv m = Some t" "settled t" using assms(5) by (auto simp: session_ok_def)
  have "defn_ok m"
    using link_session_skeleton [OF assms(4,1)] assms(3) defn_ok_skeleton [of m] defn_ok_skeleton [of n] by simp
  from counted_encodes [OF t(1) this assms(5) t(2,3) assms(6,7)] show ?thesis .
qed

lemma sample_linked_bytes: "bytes_of_all (elements 1 sample_linked) = [0x30, 3, 2, 1, 5]"
proof -
  have "elements 1 sample_linked = [BCons 0 16 [BPrim 0 2 [5]]]" by code_simp
  then show ?thesis by (simp only:) code_simp
qed

theorem link_session_encodes_witness: "\<exists>m'. asn1_encode 1 100 sample_linked = Some ([0x30, 3, 2, 1, 5], m')"
proof -
  have "a_session sample_linked = 1" by code_simp
  then show ?thesis
    using link_session_encodes [OF sample_unused _ sample_defn_ok sample_session, of 100]
    unfolding sample_linked_bytes by simp
qed

end
