(* ===== verification/BerPool.thy ===== *)
theory BerPool
  imports BerTree
begin

text \<open>
  The decoder without a definition as it runs (\<^verbatim>\<open>decode\<close> and \<^verbatim>\<open>_decode\<close> of \<^verbatim>\<open>src/src/asn1/asn1.cpp\<close>), on the
  objects of the pool: a TLV or a node that is handed out keeps what it held until the code writes
  over it, and the value length of an element is read from its TLV again after the elements inside
  were decoded. The reference decoder of \<^verbatim>\<open>BerTree\<close>, whose nodes are values of their own, is refined by
  it for every message of no more elements than the pool has objects.
\<close>

section \<open>The objects of the pool\<close>

text \<open>
  TLVs and nodes by their slots; \<^term>\<open>None\<close> is the caller's root node. The name of a node, which is
  cleared, is left out.
\<close>

record ber_heap =
  pool :: asn1_pool
  tlvs :: "nat \<Rightarrow> tlv_node"
  node_tlv :: "nat \<Rightarrow> nat option"
  node_kids :: "nat option \<Rightarrow> nat list"

definition take_tlv :: "ber_heap \<Rightarrow> nat \<times> ber_heap" where
  "take_tlv h = (let (s, p) = request_tlv (pool h)
     in (s, h\<lparr>pool := p, tlvs := (tlvs h)(s := (tlvs h s)\<lparr>value_length := 0\<rparr>)\<rparr>))"

definition take_node :: "nat \<Rightarrow> nat option \<Rightarrow> ber_heap \<Rightarrow> nat \<times> ber_heap" where
  "take_node s r h = (let (n, p) = request_asn1_node (pool h); ks = (node_kids h)(Some n := [])
     in (n, h\<lparr>pool := p, node_tlv := (node_tlv h)(n := Some s), node_kids := ks(r := ks r @ [n])\<rparr>))"

definition write_tlv :: "nat \<Rightarrow> tlv_node \<Rightarrow> ber_heap \<Rightarrow> ber_heap" where
  "write_tlv s t h = h\<lparr>tlvs := (tlvs h)(s := t)\<rparr>"

section \<open>Decoding\<close>

text \<open>The head of an element, read into a TLV: the return code and the TLV after it.\<close>

definition read_tlv :: "octets \<Rightarrow> nat \<Rightarrow> u32 \<Rightarrow> u32 \<Rightarrow> tlv_node \<Rightarrow> (nat \<times> tlv_node) option" where
  "read_tlv mem base len pos t =
     Option.bind (decode_tag mem (base + unat pos) len (t\<lparr>full_tlv := base + unat pos\<rparr>)) (\<lambda>t.
     Option.bind (decode_length mem (base + unat (pos + of_nat (tag_value_size t))) (len - (pos + of_nat (tag_value_size t))) t)
       (\<lambda>(c, t). if c \<noteq> 0 then Some (300, t)
         else let at = pos + of_nat (tag_value_size t) + of_nat (value_length_size t);
                  t = t\<lparr>full_tlv_length := ber_full_length t\<rparr>
           in if value_length t > len - at then Some (200, t) else Some (0, t\<lparr>value_at := base + unat at\<rparr>)))"

text \<open>The offset of the element after one at \<^term>\<open>pos\<close>, of the TLV as it is when the element is done.\<close>

definition next_pos :: "u32 \<Rightarrow> tlv_node \<Rightarrow> tlv_node \<Rightarrow> u32" where
  "next_pos pos t u = pos + of_nat (tag_value_size t) + of_nat (value_length_size t)
     + (value_length u + (if length_type u = INDEFINITE then 2 else 0))"

partial_function (option) pooled_loop :: "octets \<Rightarrow> nat \<Rightarrow> u32 \<Rightarrow> u32 \<Rightarrow> nat \<Rightarrow> nat option \<Rightarrow> ber_heap
    \<Rightarrow> (nat \<times> ber_heap) option" where
  "pooled_loop mem base len pos used r h =
     (if pos < len then
        (let (s, h) = take_tlv h
         in if tlv_count (pool h) < Suc used then Some (400, h)
            else Option.bind (read_tlv mem base len pos (tlvs h s)) (\<lambda>(c, t).
              if c \<noteq> 0 then Some (c, write_tlv s t h)
              else let (n, h) = take_node s r (write_tlv s t h)
                in Option.bind (if complexity t = CONSTRUCTED
                    then pooled_loop mem (value_at t) (value_length t) 0 0 (Some n) h else Some (0, h)) (\<lambda>x.
                  if fst x \<noteq> 0 then Some x
                  else pooled_loop mem base len (next_pos pos t (tlvs (snd x) s)) (Suc used) r (snd x))))
      else Some (0, h))"

definition pool_decode :: "octets \<Rightarrow> nat \<Rightarrow> u32 \<Rightarrow> ber_heap \<Rightarrow> (nat \<times> ber_heap) option" where
  "pool_decode mem base len h = pooled_loop mem base len 0 0 None h"

section \<open>What is read does not depend on what a TLV held\<close>

definition reread :: "tlv_node \<Rightarrow> tlv_node \<Rightarrow> tlv_node" where
  "reread u t = u\<lparr>tag_class := tag_class t, complexity := complexity t, length_type := length_type t, tag_value := tag_value t,
     tag_value_size := tag_value_size t, value_at := value_at t, full_tlv := full_tlv t, full_tlv_length := full_tlv_length t,
     value_length := value_length t, value_length_size := value_length_size t\<rparr>"

lemma reread_fields [simp]:
  "tag_class (reread u t) = tag_class t" "complexity (reread u t) = complexity t" "length_type (reread u t) = length_type t"
  "tag_value (reread u t) = tag_value t" "tag_value_size (reread u t) = tag_value_size t" "value_at (reread u t) = value_at t"
  "value_length (reread u t) = value_length t" "value_length_size (reread u t) = value_length_size t"
  by (simp_all add: reread_def)

lemma decode_tag_any:
  "decode_tag mem p len t = Some t1 \<Longrightarrow> 0 < len \<Longrightarrow> decode_tag mem p len u = Some (u\<lparr>tag_class := tag_class t1,
     complexity := complexity t1, tag_value := tag_value t1, tag_value_size := tag_value_size t1\<rparr>)"
  by (cases "byte_at mem p"; cases "long_tag mem (Suc p)") (auto simp: decode_tag_def Let_def split: if_splits)

lemma length_head_any:
  assumes h: "length_head mem p len t = Some (0, t1, i)"
  shows "length_head mem p len u = Some (0, u\<lparr>length_type := length_type t1, value_length_size := value_length_size t1,
     value_length := (if i then value_length u else value_length t1)\<rparr>, i)"
proof -
  obtain b where b: "0 < len" "byte_at mem p = Some b"
    using h by (cases "byte_at mem p") (simp_all add: length_head_def split: if_split_asm)
  consider "b > 0x80" | "b = 0x80" | "\<not> b > 0x80" "b \<noteq> 0x80" by blast
  then show ?thesis
  proof cases
    case 1
    let ?l = "b AND 0x7f"
    have c: "?l \<noteq> 0x7f" "\<not> len \<le> ucast ?l" "\<not> (4 < unat ?l \<or> length mem < Suc p + unat ?l)"
      using h b 1 by (simp_all add: length_head_def Let_def split: if_split_asm)
    have "t1 = t\<lparr>length_type := DEFINITE_LONG, value_length_size := unat ?l + 1,
        value_length := sum_octets (take (unat ?l) (drop (Suc p) mem))\<rparr>" "\<not> i"
      using h b 1 c by (simp_all add: length_head_def Let_def)
    then show ?thesis using b 1 c by (simp add: length_head_def Let_def)
  qed (use h b in \<open>auto simp: length_head_def Let_def\<close>)
qed

lemma length_parts:
  assumes "decode_length mem p len t = Some (c, t1)"
  obtains t0 i where "length_head mem p len t = Some (c, t0, i)" "t1 = t0\<lparr>value_length := value_length t1\<rparr>"
    "if i then find_eoc mem (p + 1) (len - 1) = Some (value_length t1) else t1 = t0"
  using assms by (cases "length_head mem p len t") (auto simp: decode_length_def bind_eq_Some_conv split: if_splits)

lemma decode_length_any:
  assumes "decode_length mem p len t = Some (0, t1)"
  shows "decode_length mem p len u = Some (0, u\<lparr>length_type := length_type t1, value_length_size := value_length_size t1,
     value_length := value_length t1\<rparr>)"
proof -
  obtain t0 i where h: "length_head mem p len t = Some (0, t0, i)" "t1 = t0\<lparr>value_length := value_length t1\<rparr>"
      "if i then find_eoc mem (p + 1) (len - 1) = Some (value_length t1) else t1 = t0"
    by (rule length_parts [OF assms])
  have f: "length_type t1 = length_type t0" "value_length_size t1 = value_length_size t0" by (subst h(2), simp)+
  show ?thesis using h(3) length_head_any [OF h(1), of u] by (cases i) (simp_all add: decode_length_def f)
qed

lemma tag_keeps_full: "decode_tag mem p len t = Some t1 \<Longrightarrow> full_tlv t1 = full_tlv t"
  by (cases "byte_at mem p"; cases "long_tag mem (Suc p)") (auto simp: decode_tag_def Let_def split: if_splits)

lemma head_keeps_tag: "length_head mem p len t = Some (c, t1, i) \<Longrightarrow> tag_class t1 = tag_class t \<and> complexity t1 = complexity t \<and>
    tag_value t1 = tag_value t \<and> tag_value_size t1 = tag_value_size t \<and> full_tlv t1 = full_tlv t"
  by (cases "byte_at mem p") (auto simp: length_head_def Let_def split: if_splits)

lemma length_keeps_tag:
  assumes "decode_length mem p len t = Some (c, t1)"
  shows "tag_class t1 = tag_class t \<and> complexity t1 = complexity t \<and> tag_value t1 = tag_value t \<and>
    tag_value_size t1 = tag_value_size t \<and> full_tlv t1 = full_tlv t"
proof -
  obtain t0 i where h: "length_head mem p len t = Some (c, t0, i)" "t1 = t0\<lparr>value_length := value_length t1\<rparr>"
    by (rule length_parts [OF assms])
  have "tag_class t1 = tag_class t0" "complexity t1 = complexity t0" "tag_value t1 = tag_value t0"
    "tag_value_size t1 = tag_value_size t0" "full_tlv t1 = full_tlv t0" by (subst h(2), simp)+
  then show ?thesis using head_keeps_tag [OF h(1)] by simp
qed

lemma read_any:
  assumes "read_tlv mem base len pos t = Some (0, t')" and "pos < len"
  shows "read_tlv mem base len pos u = Some (0, reread u t')"
proof -
  let ?b = "base + unat pos"
  obtain t1 t2 where t1: "decode_tag mem ?b len (t\<lparr>full_tlv := ?b\<rparr>) = Some t1"
    and t2: "decode_length mem (base + unat (pos + of_nat (tag_value_size t1))) (len - (pos + of_nat (tag_value_size t1))) t1 = Some (0, t2)"
    and fit: "\<not> value_length t2 > len - (pos + of_nat (tag_value_size t2) + of_nat (value_length_size t2))"
    and t': "t' = t2\<lparr>full_tlv_length := ber_full_length t2,
      value_at := base + unat (pos + of_nat (tag_value_size t2) + of_nat (value_length_size t2))\<rparr>"
    using assms(1) by (auto simp: read_tlv_def Let_def bind_eq_Some_conv ber_full_length_def split: if_splits)
  let ?u1 = "u\<lparr>full_tlv := ?b, tag_class := tag_class t1, complexity := complexity t1, tag_value := tag_value t1,
    tag_value_size := tag_value_size t1\<rparr>"
  let ?u2 = "?u1\<lparr>length_type := length_type t2, value_length_size := value_length_size t2, value_length := value_length t2\<rparr>"
  have "0 < len" using assms(2) by (simp add: word_less_nat_alt)
  then have u1: "decode_tag mem ?b len (u\<lparr>full_tlv := ?b\<rparr>) = Some ?u1"
    using decode_tag_any [OF t1, of "u\<lparr>full_tlv := ?b\<rparr>"] by simp
  have u2: "decode_length mem (base + unat (pos + of_nat (tag_value_size ?u1))) (len - (pos + of_nat (tag_value_size ?u1))) ?u1 = Some (0, ?u2)"
    using decode_length_any [OF t2, of ?u1] by simp
  have k: "tag_class t2 = tag_class t1" "complexity t2 = complexity t1" "tag_value t2 = tag_value t1"
    "tag_value_size t2 = tag_value_size t1" "full_tlv t2 = full_tlv t1" "full_tlv t1 = ?b"
    using length_keeps_tag [OF t2] tag_keeps_full [OF t1] by simp_all
  have f: "ber_full_length ?u2 = ber_full_length t2" by (simp add: ber_full_length_def k)
  show ?thesis
    unfolding read_tlv_def u1 bind.simps u2 split
    using fit by (simp add: Let_def f k t' reread_def)
qed

section \<open>The pool goes round\<close>

text \<open>A pool of as many nodes as TLVs, anywhere in its round.\<close>

definition ring :: "asn1_pool \<Rightarrow> bool" where
  "ring p \<longleftrightarrow> asn1_node_count p = tlv_count p \<and> 0 < free_tlv_count p \<and> free_tlv_count p \<le> tlv_count p \<and>
     next_free_tlv p = free_tlv_count p - 1 \<and> 0 < free_asn1_node_count p \<and> free_asn1_node_count p \<le> asn1_node_count p \<and>
     next_free_asn1_node p = free_asn1_node_count p - 1"

lemma ring_init: "0 < t \<Longrightarrow> ring (init_pool (set_pool_size t t p))"
  by (simp add: ring_def init_pool_def set_pool_size_def)

lemma ring_request: "ring p \<Longrightarrow> ring (snd (request_tlv p))" "ring p \<Longrightarrow> ring (request p)"
  by (auto simp: ring_def request_def request_tlv_def request_asn1_node_def Let_def)

lemma ring_requests: "ring p \<Longrightarrow> ring (requests n p)"
  by (induction n arbitrary: p) (auto intro: ring_request)

text \<open>The slots of the next nodes, down and round again; those of a whole turn are distinct.\<close>

definition next_node :: "asn1_pool \<Rightarrow> nat" where "next_node p = fst (request_asn1_node (snd (request_tlv p)))"

fun node_turn :: "nat \<Rightarrow> asn1_pool \<Rightarrow> nat list" where
  "node_turn 0 p = []"
| "node_turn (Suc n) p = next_node p # node_turn n (request p)"

definition turn :: "nat \<Rightarrow> nat \<Rightarrow> nat \<Rightarrow> nat list" where
  "turn t f n = (if n \<le> f then rev [f - n..<f] else rev [0..<f] @ rev [t - (n - f)..<t])"

lemma turn_distinct: "f \<le> t \<Longrightarrow> n \<le> t \<Longrightarrow> distinct (turn t f n)"
  by (auto simp: turn_def)

lemma turn_step: "0 < f \<Longrightarrow> f \<le> t \<Longrightarrow> n < t \<Longrightarrow> turn t f (Suc n) = (f - 1) # turn t (if f - 1 = 0 then t else f - 1) n"
proof (cases "Suc n \<le> f")
  case True
  assume f: "0 < f" "f \<le> t" "n < t"
  obtain g where g: "f = Suc g" using f by (cases f) auto
  then show ?thesis using True f by (auto simp: turn_def)
next
  case False
  assume f: "0 < f" "f \<le> t" "n < t"
  then obtain g where g: "f = Suc g" by (cases f) auto
  show ?thesis
  proof (cases g)
    case 0
    then show ?thesis using False f g by (simp add: turn_def)
  next
    case (Suc h)
    then have "Suc n - f = n - g" "\<not> n \<le> g" using False g by auto
    then show ?thesis using False f g Suc by (simp add: turn_def)
  qed
qed

lemma node_turn_eq: "ring p \<Longrightarrow> n \<le> tlv_count p \<Longrightarrow> node_turn n p = turn (tlv_count p) (free_asn1_node_count p) n"
proof (induction n arbitrary: p)
  case 0
  then show ?case by (simp add: turn_def)
next
  case (Suc n)
  have f: "free_asn1_node_count (request p) = (if free_asn1_node_count p - 1 = 0 then tlv_count p else free_asn1_node_count p - 1)"
    "next_node p = free_asn1_node_count p - 1"
    using Suc.prems(1) by (auto simp: ring_def request_def next_node_def request_tlv_def request_asn1_node_def Let_def)
  have "node_turn n (request p) = turn (tlv_count p) (free_asn1_node_count (request p)) n"
    using Suc.IH [OF ring_request(2) [OF Suc.prems(1)]] Suc.prems(2) by simp
  then show ?case using turn_step [of "free_asn1_node_count p" "tlv_count p" n] Suc.prems by (simp add: f ring_def)
qed

lemma slots_turn: "ring p \<Longrightarrow> n \<le> tlv_count p \<Longrightarrow> slots n p = turn (tlv_count p) (free_tlv_count p) n"
proof (induction n arbitrary: p)
  case 0
  then show ?case by (simp add: turn_def)
next
  case (Suc n)
  have f: "free_tlv_count (request p) = (if free_tlv_count p - 1 = 0 then tlv_count p else free_tlv_count p - 1)"
    "fst (request_tlv p) = free_tlv_count p - 1"
    using Suc.prems(1) by (auto simp: ring_def request_def request_tlv_def request_asn1_node_def Let_def)
  have "slots n (request p) = turn (tlv_count p) (free_tlv_count (request p)) n"
    using Suc.IH [OF ring_request(2) [OF Suc.prems(1)]] Suc.prems(2) by simp
  then show ?case using turn_step [of "free_tlv_count p" "tlv_count p" n] Suc.prems by (simp add: f ring_def)
qed

lemma turns_distinct:
  assumes "ring p" and "n \<le> tlv_count p"
  shows "distinct (node_turn n p)" "distinct (slots n p)"
  using assms turn_distinct node_turn_eq [OF assms] slots_turn [OF assms] by (simp_all add: ring_def)

lemma node_turn_add: "node_turn (m + n) p = node_turn m p @ node_turn n (requests m p)"
  by (induction m arbitrary: p) auto


section \<open>The decoder keeps to the reference one\<close>

fun forest_size :: "ber_node list \<Rightarrow> nat" where
  "forest_size [] = 0"
| "forest_size (BerNode t a n ks # bs) = Suc (forest_size ks + forest_size bs)"

fun node_ids :: "ber_node \<Rightarrow> nat list" where
  "node_ids (BerNode t a n ks) = n # concat (map node_ids ks)"

text \<open>A node of the reference decoder, as the objects of the pool hold it.\<close>

fun stands :: "ber_heap \<Rightarrow> ber_node \<Rightarrow> bool" where
  "stands h (BerNode t s n ks) \<longleftrightarrow> (\<exists>u. tlvs h s = reread u t) \<and> node_tlv h n = Some s \<and>
     node_kids h (Some n) = map n_node ks \<and> list_all (stands h) ks"

lemma stands_kept:
  assumes "stands h b" and "\<And>x. x \<in> set (node_slots b) \<Longrightarrow> tlvs h' x = tlvs h x"
    and "\<And>x. x \<in> set (node_ids b) \<Longrightarrow> node_tlv h' x = node_tlv h x \<and> node_kids h' (Some x) = node_kids h (Some x)"
  shows "stands h' b"
  using assms
proof (induction b)
  case (BerNode t s n ks)
  have "list_all (stands h') ks"
    unfolding list_all_iff
  proof
    fix k assume k: "k \<in> set ks"
    show "stands h' k" by (rule BerNode.IH [OF k]) (use BerNode.prems k in \<open>auto simp: list_all_iff\<close>)
  qed
  then show ?case using BerNode.prems by simp
qed

lemma all_stand_kept:
  assumes "list_all (stands h) bs" and "\<And>x. x \<in> set (concat (map node_slots bs)) \<Longrightarrow> tlvs h' x = tlvs h x"
    and "\<And>x. x \<in> set (concat (map node_ids bs)) \<Longrightarrow> node_tlv h' x = node_tlv h x \<and> node_kids h' (Some x) = node_kids h (Some x)"
  shows "list_all (stands h') bs"
  unfolding list_all_iff
proof
  fix b assume b: "b \<in> set bs"
  show "stands h' b"
  proof (rule stands_kept)
    show "stands h b" using assms(1) b by (simp add: list_all_iff)
    fix x
    show "x \<in> set (node_slots b) \<Longrightarrow> tlvs h' x = tlvs h x" using b by (intro assms(2)) auto
    show "x \<in> set (node_ids b) \<Longrightarrow> node_tlv h' x = node_tlv h x \<and> node_kids h' (Some x) = node_kids h (Some x)"
      using b by (intro assms(3)) auto
  qed
qed

text \<open>What a run of the decoder leaves: the elements below the root, and every other object as it was.\<close>

definition decoded_into :: "ber_heap \<Rightarrow> nat option \<Rightarrow> ber_node list \<Rightarrow> ber_heap \<Rightarrow> bool" where
  "decoded_into h r nodes h' \<longleftrightarrow> pool h' = requests (forest_size nodes) (pool h) \<and>
     node_kids h' r = node_kids h r @ map n_node nodes \<and> list_all (stands h') nodes \<and>
     (\<forall>x. x \<notin> set (slots (forest_size nodes) (pool h)) \<longrightarrow> tlvs h' x = tlvs h x) \<and>
     (\<forall>x. x \<notin> set (node_turn (forest_size nodes) (pool h)) \<longrightarrow> node_tlv h' x = node_tlv h x \<and>
        (r \<noteq> Some x \<longrightarrow> node_kids h' (Some x) = node_kids h (Some x))) \<and>
     (r \<noteq> None \<longrightarrow> node_kids h' None = node_kids h None)"

abbreviation outside :: "nat option \<Rightarrow> nat \<Rightarrow> asn1_pool \<Rightarrow> bool" where
  "outside r n p \<equiv> \<forall>x. r = Some x \<longrightarrow> x \<notin> set (node_turn n p)"

text \<open>The body of the reference decoder, over the head of an element.\<close>

lemma plain_body:
  "(if pos < len then
        (if tlv_count p < Suc used then Some (400, snd (request_tlv p), acc)
         else Option.bind (decode_tag mem (base + unat pos) len (new_tlv\<lparr>full_tlv := base + unat pos\<rparr>)) (\<lambda>t1.
           Option.bind (decode_length mem (base + unat (pos + of_nat (tag_value_size t1)))
               (len - (pos + of_nat (tag_value_size t1))) t1) (\<lambda>r.
             if fst r \<noteq> 0 then Some (300, snd (request_tlv p), acc)
             else if value_length (snd r)
                 > len - (pos + of_nat (tag_value_size t1) + of_nat (value_length_size (snd r)))
               then Some (200, snd (request_tlv p), acc)
             else Option.bind
               (if complexity (snd r) = CONSTRUCTED
                then f mem
                  (base + unat (pos + of_nat (tag_value_size t1) + of_nat (value_length_size (snd r))))
                  (value_length (snd r)) 0 0 (snd (request_asn1_node (snd (request_tlv p)))) []
                else Some (0, snd (request_asn1_node (snd (request_tlv p))), [])) (\<lambda>s.
               if fst s \<noteq> 0 then Some (fst s, fst (snd s), acc @ [BerNode ((snd r)
                   \<lparr>full_tlv_length := ber_full_length (snd r),
                    value_at := base + unat (pos + of_nat (tag_value_size t1) + of_nat (value_length_size (snd r)))\<rparr>)
                   (fst (request_tlv p)) (fst (request_asn1_node (snd (request_tlv p)))) (snd (snd s))])
               else f mem base len
                 (pos + of_nat (tag_value_size t1) + of_nat (value_length_size (snd r)) + (value_length (snd r)
                    + (if length_type (snd r) = INDEFINITE then 2 else 0)))
                 (Suc used) (fst (snd s)) (acc @ [BerNode ((snd r)
                   \<lparr>full_tlv_length := ber_full_length (snd r),
                    value_at := base + unat (pos + of_nat (tag_value_size t1) + of_nat (value_length_size (snd r)))\<rparr>)
                   (fst (request_tlv p)) (fst (request_asn1_node (snd (request_tlv p)))) (snd (snd s))])))))
      else Some (0, p, acc))
   = (if pos < len then
        (if tlv_count p < Suc used then Some (400, snd (request_tlv p), acc)
         else Option.bind (read_tlv mem base len pos new_tlv) (\<lambda>(c, t).
           if c \<noteq> 0 then Some (c, snd (request_tlv p), acc)
           else Option.bind (if complexity t = CONSTRUCTED
               then f mem (value_at t) (value_length t) 0 0 (request p) []
               else Some (0, request p, [])) (\<lambda>s.
             if fst s \<noteq> 0 then Some (fst s, fst (snd s), acc @ [BerNode t (fst (request_tlv p)) (next_node p) (snd (snd s))])
             else f mem base len (next_pos pos t t) (Suc used) (fst (snd s))
               (acc @ [BerNode t (fst (request_tlv p)) (next_node p) (snd (snd s))]))))
      else Some (0, p, acc :: ber_node list))"
proof (cases "decode_tag mem (base + unat pos) len (new_tlv\<lparr>full_tlv := base + unat pos\<rparr>)")
  case None
  then show ?thesis by (simp add: read_tlv_def)
next
  case (Some t1)
  let ?l = "decode_length mem (base + unat (pos + of_nat (tag_value_size t1))) (len - (pos + of_nat (tag_value_size t1))) t1"
  show ?thesis
  proof (cases ?l)
    case None
    then show ?thesis by (simp add: read_tlv_def Some)
  next
    case l: (Some r)
    obtain c t where r: "r = (c, t)" by (cases r)
    have sz: "tag_value_size t = tag_value_size t1" using length_keeps_tag l [unfolded r] by blast
    let ?at = "pos + of_nat (tag_value_size t1) + of_nat (value_length_size t) :: u32"
    consider "c \<noteq> 0" | "c = 0" "value_length t > len - ?at" | "c = 0" "\<not> value_length t > len - ?at" by blast
    then show ?thesis
    proof cases
      case 3
      let ?t = "t\<lparr>full_tlv_length := ber_full_length t, value_at := base + unat ?at\<rparr>"
      have h: "read_tlv mem base len pos new_tlv = Some (0, ?t)" using 3 by (simp add: read_tlv_def Some l r Let_def sz)
      have p: "next_pos pos ?t ?t = ?at + (value_length t + (if length_type t = INDEFINITE then 2 else 0))"
        by (simp add: next_pos_def sz)
      have f: "complexity ?t = complexity t" "value_length ?t = value_length t" "value_at ?t = base + unat ?at" by simp_all
      show ?thesis
        by (simp only: h Some l r bind.simps fst_conv snd_conv p f 3 request_def next_node_def HOL.simp_thms if_False
            not_False_eq_True split)
    qed (simp_all add: read_tlv_def Some l r Let_def sz)
  qed
qed


definition placed :: "ber_heap \<Rightarrow> nat option \<Rightarrow> tlv_node \<Rightarrow> ber_heap" where
  "placed h r t = snd (take_node (fst (take_tlv h)) r (write_tlv (fst (take_tlv h)) t (snd (take_tlv h))))"

lemma placed_fields:
  "pool (placed h r t) = request (pool h)" "tlvs (placed h r t) = (tlvs h)(fst (request_tlv (pool h)) := t)"
  "node_tlv (placed h r t) = (node_tlv h)(next_node (pool h) := Some (fst (request_tlv (pool h))))"
  "r \<noteq> Some (next_node (pool h)) \<Longrightarrow>
    node_kids (placed h r t) = (node_kids h)(Some (next_node (pool h)) := [], r := node_kids h r @ [next_node (pool h)])"
  by (simp_all add: placed_def take_tlv_def take_node_def write_tlv_def request_def next_node_def Let_def split_beta)

lemma pooled_step:
  assumes "pos < len" and "\<not> tlv_count (pool h) < Suc used"
    and read: "read_tlv mem base len pos new_tlv = Some (0, t)"
  shows "\<exists>u. pooled_loop mem base len pos used r h = Option.bind (if complexity t = CONSTRUCTED
      then pooled_loop mem (value_at t) (value_length t) 0 0 (Some (next_node (pool h))) (placed h r (reread u t))
      else Some (0, placed h r (reread u t))) (\<lambda>x. if fst x \<noteq> 0 then Some x
        else pooled_loop mem base len (next_pos pos t (tlvs (snd x) (fst (request_tlv (pool h))))) (Suc used) r (snd x))"
proof -
  let ?s = "fst (take_tlv h)" and ?h = "snd (take_tlv h)"
  let ?t = "reread (tlvs ?h ?s) t"
  have s: "?s = fst (request_tlv (pool h))" by (simp add: take_tlv_def Let_def split_beta)
  have c: "tlv_count (pool ?h) = tlv_count (pool h)" by (simp add: take_tlv_def Let_def split_beta)
  have n: "fst (take_node ?s r (write_tlv ?s ?t ?h)) = next_node (pool h)"
    by (simp add: take_tlv_def take_node_def write_tlv_def next_node_def Let_def split_beta)
  have rd: "read_tlv mem base len pos (tlvs ?h ?s) = Some (0, ?t)" by (rule read_any [OF read assms(1)])
  have np: "next_pos pos ?t = next_pos pos t" by (simp add: next_pos_def fun_eq_iff)
  show ?thesis
    by (rule exI [of _ "tlvs ?h ?s"], subst pooled_loop.simps)
      (simp add: assms c rd split_beta n np placed_def [symmetric] s [symmetric] cong: if_cong)
qed

lemma decoded_into_nil [simp]: "decoded_into h r [] h"
  by (simp add: decoded_into_def)

text \<open>One element in front of a run.\<close>

lemma decoded_into_cons:
  assumes ring: "ring (pool h)" and fits: "forest_size (BerNode t (fst (request_tlv (pool h))) (next_node (pool h)) ks # bs) \<le> tlv_count (pool h)"
    and out: "outside r (forest_size (BerNode t (fst (request_tlv (pool h))) (next_node (pool h)) ks # bs)) (pool h)"
    and ids: "concat (map node_ids ks) = node_turn (forest_size ks) (request (pool h))"
      "concat (map node_slots ks) = slots (forest_size ks) (request (pool h))"
    and one: "decoded_into (placed h r (reread u t)) (Some (next_node (pool h))) ks h1" and more: "decoded_into h1 r bs h2"
  shows "decoded_into h r (BerNode t (fst (request_tlv (pool h))) (next_node (pool h)) ks # bs) h2"
proof -
  let ?s = "fst (request_tlv (pool h))" and ?n = "next_node (pool h)" and ?p = "request (pool h)"
  let ?q = "requests (forest_size ks) ?p"
  have sl: "slots (forest_size (BerNode t ?s ?n ks # bs)) (pool h) = ?s # slots (forest_size ks) ?p @ slots (forest_size bs) ?q"
    and tn: "node_turn (forest_size (BerNode t ?s ?n ks # bs)) (pool h) = ?n # node_turn (forest_size ks) ?p @ node_turn (forest_size bs) ?q"
    by (simp_all add: slots_add node_turn_add)
  have d: "distinct (?s # slots (forest_size ks) ?p @ slots (forest_size bs) ?q)"
    "distinct (?n # node_turn (forest_size ks) ?p @ node_turn (forest_size bs) ?q)"
    using turns_distinct [OF ring fits] unfolding sl tn by blast+
  have r: "r \<noteq> Some ?n" "\<And>x. r = Some x \<Longrightarrow> x \<notin> set (node_turn (forest_size ks) ?p) \<and> x \<notin> set (node_turn (forest_size bs) ?q)"
    using out unfolding tn by auto
  note P = placed_fields(1-3) [of h r "reread u t"] placed_fields(4) [OF r(1), of "reread u t"]
  note A = one [unfolded decoded_into_def P]
  have q: "pool h1 = ?q" using A by blast
  note B = more [unfolded decoded_into_def q]
  have kid: "node_kids h1 (Some ?n) = map n_node ks" using A r(1) by auto
  have root: "node_kids h1 r = node_kids h r @ [?n]"
    using A r by (cases r) auto
  have s1: "tlvs h1 ?s = reread u t" "node_tlv h1 ?n = Some ?s" using A d by auto
  have keep: "tlvs h2 x = tlvs h1 x" if "x = ?s \<or> x \<in> set (slots (forest_size ks) ?p)" for x
    using B d(1) that by auto
  have keep_n: "node_tlv h2 x = node_tlv h1 x \<and> node_kids h2 (Some x) = node_kids h1 (Some x)"
    if "x = ?n \<or> x \<in> set (node_turn (forest_size ks) ?p)" for x
    using B d(2) that r by auto
  have "list_all (stands h2) ks"
    by (rule all_stand_kept [of h1]) (use A keep keep_n ids in auto)
  moreover have "list_all (stands h2) bs" using B by blast
  moreover have "tlvs h2 ?s = reread u t" "node_tlv h2 ?n = Some ?s" "node_kids h2 (Some ?n) = map n_node ks"
    using keep [of ?s] keep_n [of ?n] s1 kid by auto
  ultimately have st: "list_all (stands h2) (BerNode t ?s ?n ks # bs)" by auto
  show ?thesis
    unfolding decoded_into_def sl tn
  proof (intro conjI allI impI)
    show "pool h2 = requests (forest_size (BerNode t ?s ?n ks # bs)) (pool h)" using B by (simp add: requests_add)
    show "node_kids h2 r = node_kids h r @ map n_node (BerNode t ?s ?n ks # bs)" using B root by simp
    show "list_all (stands h2) (BerNode t ?s ?n ks # bs)" by (rule st)
    fix x
    show "x \<notin> set (?s # slots (forest_size ks) ?p @ slots (forest_size bs) ?q) \<Longrightarrow> tlvs h2 x = tlvs h x"
      using A B by auto
    assume x: "x \<notin> set (?n # node_turn (forest_size ks) ?p @ node_turn (forest_size bs) ?q)"
    show "node_tlv h2 x = node_tlv h x" using A B x by auto
    assume "r \<noteq> Some x"
    then show "node_kids h2 (Some x) = node_kids h (Some x)" using A B x by auto
  next
    assume "r \<noteq> None"
    then show "node_kids h2 None = node_kids h None" using A B by auto
  qed
qed


abbreviation run_agrees :: "octets \<Rightarrow> nat \<Rightarrow> u32 \<Rightarrow> u32 \<Rightarrow> nat \<Rightarrow> asn1_pool \<Rightarrow> ber_node list \<Rightarrow> bool" where
  "run_agrees mem base len pos used p nodes \<equiv> concat (map node_ids nodes) = node_turn (forest_size nodes) p \<and>
     concat (map node_slots nodes) = slots (forest_size nodes) p \<and>
     (\<forall>h r. pool h = p \<and> ring p \<and> forest_size nodes \<le> tlv_count p \<and> outside r (forest_size nodes) p \<longrightarrow>
        (\<exists>h'. pooled_loop mem base len pos used r h = Some (0, h') \<and> decoded_into h r nodes h'))"

lemma pooled_runs:
  assumes run: "decode_loop mem base len pos used p acc = Some res" and ok: "fst res = 0"
  shows "\<exists>nodes. snd (snd res) = acc @ nodes \<and> fst (snd res) = requests (forest_size nodes) p \<and> run_agrees mem base len pos used p nodes"
proof -
  have "fst res = 0 \<longrightarrow> (\<exists>nodes. snd (snd res) = acc @ nodes \<and> fst (snd res) = requests (forest_size nodes) p \<and>
      run_agrees mem base len pos used p nodes)"
  proof (rule decode_loop.raw_induct [where P = "\<lambda>mem base len pos used p acc res. fst res = 0 \<longrightarrow> (\<exists>nodes. snd (snd res) = acc @ nodes \<and>
      fst (snd res) = requests (forest_size nodes) p \<and> run_agrees mem base len pos used p nodes)", OF _ run], goal_cases)
    case (1 f mem base len pos used p acc res)
    note ih = 1(1) and step = 1(2) [unfolded plain_body]
    show ?case
    proof
      assume ok: "fst res = 0"
      show "\<exists>nodes. snd (snd res) = acc @ nodes \<and> fst (snd res) = requests (forest_size nodes) p \<and> run_agrees mem base len pos used p nodes"
      proof (cases "pos < len")
        case False
        then show ?thesis using step by (auto simp: pooled_loop.simps [of mem base len pos])
      next
        case True
        then obtain t where h: "read_tlv mem base len pos new_tlv = Some (0, t)" and used: "\<not> tlv_count p < Suc used"
          using step ok by (auto simp: bind_eq_Some_conv split: if_splits)
        let ?s = "fst (request_tlv p)" and ?n = "next_node p"
        obtain kr where kr: "(if complexity t = CONSTRUCTED then f mem (value_at t) (value_length t) 0 0 (request p) []
            else Some (0, request p, [])) = Some kr" "fst kr = 0"
          and rest: "f mem base len (next_pos pos t t) (Suc used) (fst (snd kr)) (acc @ [BerNode t ?s ?n (snd (snd kr))]) = Some res"
          using step True h used ok by (auto simp: bind_eq_Some_conv split: if_splits)
        define ks where "ks = snd (snd kr)"
        have kids: "fst (snd kr) = requests (forest_size ks) (request p)" "concat (map node_ids ks) = node_turn (forest_size ks) (request p)"
            "concat (map node_slots ks) = slots (forest_size ks) (request p)"
          and sub: "\<And>g. pool g = request p \<Longrightarrow> ring (request p) \<Longrightarrow> forest_size ks \<le> tlv_count p \<Longrightarrow>
            ?n \<notin> set (node_turn (forest_size ks) (request p)) \<Longrightarrow>
            \<exists>h'. (if complexity t = CONSTRUCTED then pooled_loop mem (value_at t) (value_length t) 0 0 (Some ?n) g else Some (0, g)) = Some (0, h') \<and>
              decoded_into g (Some ?n) ks h'"
          using kr ih [of mem "value_at t" "value_length t" 0 0 "request p" "[]" kr]
          by (cases "complexity t = CONSTRUCTED"; auto simp: ks_def)+
        obtain bs where bs: "snd (snd res) = (acc @ [BerNode t ?s ?n ks]) @ bs"
            "fst (snd res) = requests (forest_size bs) (fst (snd kr))"
            and more: "run_agrees mem base len (next_pos pos t t) (Suc used) (fst (snd kr)) bs"
          using ih [OF rest] ok by (auto simp: ks_def)
        let ?all = "BerNode t ?s ?n ks # bs"
        have agree: "\<exists>h'. pooled_loop mem base len pos used r g = Some (0, h') \<and> decoded_into g r ?all h'"
          if g: "pool g = p" "ring p" "forest_size ?all \<le> tlv_count p" "outside r (forest_size ?all) p" for g r
        proof -
          have tn: "node_turn (forest_size ?all) p = ?n # node_turn (forest_size ks) (request p)
              @ node_turn (forest_size bs) (requests (forest_size ks) (request p))"
            and sl: "slots (forest_size ?all) p = ?s # slots (forest_size ks) (request p)
              @ slots (forest_size bs) (requests (forest_size ks) (request p))"
            by (simp_all add: node_turn_add slots_add)
          have d: "?n \<notin> set (node_turn (forest_size ks) (request p))" "?s \<notin> set (slots (forest_size ks) (request p))"
            using turns_distinct [OF g(2,3)] unfolding tn sl by auto
          have rn: "r \<noteq> Some ?n" using g(4) unfolding tn by auto
          obtain u where u: "pooled_loop mem base len pos used r g = Option.bind (if complexity t = CONSTRUCTED
              then pooled_loop mem (value_at t) (value_length t) 0 0 (Some ?n) (placed g r (reread u t))
              else Some (0, placed g r (reread u t))) (\<lambda>x. if fst x \<noteq> 0 then Some x
                else pooled_loop mem base len (next_pos pos t (tlvs (snd x) ?s)) (Suc used) r (snd x))"
            using pooled_step [OF True, of g used mem base t r] used h g(1) by auto
          have pl: "pool (placed g r (reread u t)) = request p" "tlvs (placed g r (reread u t)) ?s = reread u t"
            by (simp_all add: placed_fields g(1))
          obtain h1 where h1: "(if complexity t = CONSTRUCTED then pooled_loop mem (value_at t) (value_length t) 0 0 (Some ?n) (placed g r (reread u t))
              else Some (0, placed g r (reread u t))) = Some (0, h1)" "decoded_into (placed g r (reread u t)) (Some ?n) ks h1"
            using sub [OF pl(1) ring_request(2) [OF g(2)] _ d(1)] g(3) by auto
          have p1: "pool h1 = fst (snd kr)" and t1: "tlvs h1 ?s = reread u t"
            using h1(2) d(2) pl kids(1) unfolding decoded_into_def by simp_all
          have np: "next_pos pos t (tlvs h1 ?s) = next_pos pos t t" by (simp add: next_pos_def t1)
          have "ring (fst (snd kr))" using g(2) by (simp add: kids(1) ring_requests ring_request)
          moreover have "forest_size bs \<le> tlv_count (fst (snd kr))" using g(3) by (simp add: kids(1))
          moreover have "outside r (forest_size bs) (fst (snd kr))" using g(4) unfolding tn kids(1) by auto
          ultimately obtain h2 where h2: "pooled_loop mem base len (next_pos pos t t) (Suc used) r h1 = Some (0, h2)"
              "decoded_into h1 r bs h2"
            using more p1 by blast
          have "decoded_into g r ?all h2"
            using decoded_into_cons [of g t ks bs r u h1 h2] g h1(2) h2(2) kids(2,3) by simp
          then show ?thesis using u h1(1) h2(1) by (simp add: np)
        qed
        show ?thesis
          by (intro exI [of _ ?all] conjI allI impI; (elim conjE)?)
            (use bs more kids agree in \<open>simp_all add: requests_add node_turn_add slots_add next_node_def\<close>)
      qed
    qed
  qed
  then show ?thesis using ok by blast
qed


section \<open>Messages\<close>

text \<open>
  The objects of the pool hold an element at a node: its class, tag and form, the octets of its
  value in the buffer, and its elements below the node, in order.
\<close>

definition holds_tlv :: "ber_heap \<Rightarrow> octets \<Rightarrow> nat \<Rightarrow> u32 \<Rightarrow> u32 \<Rightarrow> u32 \<Rightarrow> octets \<Rightarrow> bool" where
  "holds_tlv h mem n c x v os \<longleftrightarrow> (case node_tlv h n of None \<Rightarrow> False | Some s \<Rightarrow>
     tag_class (tlvs h s) = c \<and> complexity (tlvs h s) = x \<and> tag_value (tlvs h s) = v \<and>
     unat (value_length (tlvs h s)) = length os \<and> take (length os) (drop (value_at (tlvs h s)) mem) = os)"

fun in_heap :: "ber_heap \<Rightarrow> octets \<Rightarrow> ber \<Rightarrow> nat \<Rightarrow> bool" where
  "in_heap h mem (BPrim c v os) n \<longleftrightarrow> holds_tlv h mem n c PRIMITIVE v os \<and> node_kids h (Some n) = []"
| "in_heap h mem (BCons c v bs) n \<longleftrightarrow> holds_tlv h mem n c CONSTRUCTED v (bytes_of_all bs) \<and>
     list_all2 (in_heap h mem) bs (node_kids h (Some n))"

lemma stands_in_heap: "stands h b \<Longrightarrow> matches mem e b \<Longrightarrow> in_heap h mem e (n_node b)"
proof (induction mem e b rule: matches.induct)
  case (1 mem c v os t s n ks)
  then show ?case by (auto simp: holds_tlv_def)
next
  case (2 mem c v bs t s n ks)
  have "list_all2 (in_heap h mem) bs (map n_node ks)"
    unfolding list_all2_map2
  proof (rule list.rel_mono_strong)
    show "list_all2 (matches mem) bs ks" using "2.prems"(2) by simp
    fix e b assume "e \<in> set bs" "b \<in> set ks" "matches mem e b"
    then show "in_heap h mem e (n_node b)" using "2.IH" [of e b] "2.prems"(1) by (auto simp: list_all_iff)
  qed
  then show ?case using 2 by (auto simp: holds_tlv_def)
qed

lemma all_stand_in_heap: "list_all (stands h) nodes \<Longrightarrow> list_all2 (matches mem) bs nodes \<Longrightarrow> list_all2 (in_heap h mem) bs (map n_node nodes)"
  unfolding list_all2_map2 by (erule list.rel_mono_strong) (auto simp: list_all_iff intro: stands_in_heap)

lemma size_matches: "list_all2 (matches mem) bs nodes \<Longrightarrow> forest_size nodes = sum_list (map ber_size bs)"
proof (induction bs arbitrary: nodes rule: bers_induct)
  case (Prim c v os bs)
  then obtain t s n ks ns where "nodes = BerNode t s n ks # ns" "list_all2 (matches mem) bs ns" "ks = []"
    by (auto simp: list_all2_Cons1 elim: matches.elims)
  then show ?case using Prim.IH by simp
next
  case (Cons c v es bs)
  then obtain t s n ks ns where "nodes = BerNode t s n ks # ns" "list_all2 (matches mem) bs ns" "list_all2 (matches mem) es ks"
    by (auto simp: list_all2_Cons1 elim: matches.elims)
  then show ?case using Cons.IH by simp
qed simp

text \<open>A message whose elements fit the pool.\<close>

definition message_fits :: "asn1_pool \<Rightarrow> ber list \<Rightarrow> bool" where
  "message_fits p bs \<longleftrightarrow> ring p \<and> list_all (ber_ok (tlv_count p)) bs \<and> sum_list (map ber_size bs) \<le> tlv_count p \<and>
     length (bytes_of_all bs) < 2 ^ 31"

lemma ber_size_pos: "length bs \<le> sum_list (map ber_size bs)"
proof (induction bs)
  case (Cons b bs)
  then show ?case by (cases b) auto
qed simp

lemma pool_reads:
  assumes "message_fits (pool h) bs" and "node_kids h None = []"
  shows "\<exists>h' nodes. pool_decode (pre @ bytes_of_all bs @ post) (length pre) (of_nat (length (bytes_of_all bs))) h = Some (0, h') \<and>
     decoded_into h None nodes h' \<and> list_all2 (matches (pre @ bytes_of_all bs @ post)) bs nodes \<and>
     concat (map node_ids nodes) = node_turn (forest_size nodes) (pool h) \<and>
     concat (map node_slots nodes) = slots (forest_size nodes) (pool h)"
proof -
  let ?mem = "pre @ bytes_of_all bs @ post"
  have fit: "ring (pool h)" "sum_list (map ber_size bs) \<le> tlv_count (pool h)" using assms(1) by (simp_all add: message_fits_def)
  obtain nodes where n: "decode_loop ?mem (length pre) (of_nat (length (bytes_of_all bs))) 0 0 (pool h) []
      = Some (0, requests (sum_list (map ber_size bs)) (pool h), nodes)" "list_all2 (matches ?mem) bs nodes"
    using decode_items [of ?mem pre "[]" bs post "pool h" 0 "of_nat (length (bytes_of_all bs))" "[]"] assms(1)
      order_trans [OF ber_size_pos fit(2)] by (auto simp: message_fits_def)
  have sz: "forest_size nodes \<le> tlv_count (pool h)" using size_matches [OF n(2)] fit(2) by simp
  obtain h' where "pooled_loop ?mem (length pre) (of_nat (length (bytes_of_all bs))) 0 0 None h = Some (0, h')"
      "decoded_into h None nodes h'" "concat (map node_ids nodes) = node_turn (forest_size nodes) (pool h)"
      "concat (map node_slots nodes) = slots (forest_size nodes) (pool h)"
    using pooled_runs [OF n(1)] fit(1) sz by auto
  then show ?thesis using n(2) by (intro exI [of _ h'] exI [of _ nodes]) (simp add: pool_decode_def)
qed


lemma top_ids: "set (map n_node nodes) \<subseteq> set (concat (map node_ids nodes))"
proof (induction nodes)
  case (Cons b bs)
  then show ?case by (cases b) auto
qed simp

lemma top_distinct: "distinct (concat (map node_ids nodes)) \<Longrightarrow> distinct (map n_node nodes)"
proof (induction nodes)
  case (Cons b bs)
  obtain t s n ks where b: "b = BerNode t s n ks" by (cases b)
  show ?case using Cons top_ids [of bs] by (auto simp: b)
qed simp

lemma fits_append: "message_fits p (as @ bs) \<Longrightarrow> message_fits p as \<and> message_fits (requests (sum_list (map ber_size as)) p) bs"
  by (auto simp: message_fits_def ring_requests)

section \<open>Samples\<close>

definition fresh_heap :: "nat \<Rightarrow> ber_heap" where
  "fresh_heap t = \<lparr>pool = init_pool (set_pool_size t t \<lparr>tlv_count = 0, free_tlv_count = 0, next_free_tlv = 0, asn1_node_count = 0,
     free_asn1_node_count = 0, next_free_asn1_node = 0\<rparr>), tlvs = (\<lambda>_. new_tlv), node_tlv = (\<lambda>_. None), node_kids = (\<lambda>_. [])\<rparr>"

lemma fresh_pool: "0 < t \<Longrightarrow> ring (pool (fresh_heap t))" "tlv_count (pool (fresh_heap t)) = t" "node_kids (fresh_heap t) None = []"
  by (simp_all add: fresh_heap_def ring_init) (simp add: init_pool_def set_pool_size_def)

abbreviation sample_message :: "ber list" where
  "sample_message \<equiv> [BCons 0 16 [BPrim 0 2 [5], BPrim 0x80 40 [104, 105]]]"

lemma sample_bytes: "bytes_of_all sample_message = [0x30, 8, 2, 1, 5, 0x9f, 40, 2, 104, 105]"
  by code_simp

lemma sample_kids: "length (ber_bytes (BPrim 0 2 [b])) = 3" "length (ber_bytes (BPrim 0x80 40 [104, 105])) = 5"
proof -
  have "length (ber_bytes (BPrim 0 2 [0])) = 3" by code_simp
  then show "length (ber_bytes (BPrim 0 2 [b])) = 3" by simp
  show "length (ber_bytes (BPrim 0x80 40 [104, 105])) = 5" by code_simp
qed

lemma ber_sample_ok: "list_all (ber_ok 8) sample_message" "list_all (ber_ok 4) sample_message"
  by (simp_all add: tag_classes_def sample_kids del: ber_bytes.simps)

definition sample_tree :: asn1_node where
  "sample_tree = ASN1Node (Some (new_tlv\<lparr>uni_tag_class := 16, tag_value_size := 1, value_length := 8, value_length_size := 1\<rparr>)) [] 1 True None
     [ASN1Node (Some (new_tlv\<lparr>uni_tag_class := 2, tag_value_size := 1, value_length := 1, value_length_size := 1\<rparr>)) [5] 1 True None [],
      ASN1Node (Some (new_tlv\<lparr>uni_tag_class := 4\<rparr>)) [] 0 True None [],
      ASN1Node (Some (new_tlv\<lparr>uni_tag_class := 4, tag_class := 0x80, tag_value := 40, tag_value_size := 2, value_length := 2,
        value_length_size := 1\<rparr>)) [104, 105] 1 True None []]"

lemma sample_elements: "elements 1 sample_tree = sample_message"
  by (simp add: sample_tree_def new_tlv_def completed_def Let_def)

lemma sample_prepared: "prepared 1 sample_tree"
proof -
  have o: "length (tag_octets_of (new_tlv\<lparr>uni_tag_class := 16, tag_value_size := 1, value_length := 8, value_length_size := 1,
        tag_value := 16, tag_class := 0, complexity := CONSTRUCTED\<rparr>)) = 1"
    "length (tag_octets_of (new_tlv\<lparr>uni_tag_class := 2, tag_value_size := 1, value_length := 1, value_length_size := 1,
        tag_value := 2, tag_class := 0, complexity := 0\<rparr>)) = 1"
    "length (tag_octets_of (new_tlv\<lparr>uni_tag_class := 4, tag_class := 0x80, tag_value := 40, tag_value_size := 2, value_length := 2,
        value_length_size := 1, complexity := 0\<rparr>)) = 2"
    "length (length_octets 8) = 1" "length (length_octets 1) = 1" "length (length_octets 2) = 1"
    by (simp_all add: tag_octets_of_def new_tlv_def length_octets_def)
  show ?thesis
    using o sample_kids [unfolded ber_bytes.simps]
    by (simp add: sample_tree_def completed_def Let_def sized_def tag_ok_def tag_classes_def complexities_def new_tlv_def)
qed


declare find_loop.simps [code] pooled_loop.simps [code]

text \<open>
  Beyond the pool the promise fails: a message of three elements, decoded with a pool of two, is
  refused with 200, since the TLV of the outer element was handed out again for the last one and
  its length is read from there. With three objects it is accepted.
\<close>

lemma overrun_refused:
  "map_option fst (pool_decode [0x30, 6, 2, 1, 5, 2, 1, 6] 0 8 (fresh_heap 2)) = Some 200"
  by code_simp

lemma exact_accepted:
  "map_option fst (pool_decode [0x30, 6, 2, 1, 5, 2, 1, 6] 0 8 (fresh_heap 3)) = Some 0"
  by code_simp

section \<open>Properties\<close>

text \<open>
  C29. What was decoded stays while later messages are decoded, as long as all their elements together
  are no more than the objects of the pool: both messages are accepted, anywhere in the round of the
  pool and whatever its objects held before, every element of both is found below the root it was decoded to, with its class,
  tag, form, contents and inner elements, and no node is handed out twice.
\<close>

theorem decoded_messages_kept:
  assumes "message_fits (pool h) (as @ bs)" and "node_kids h None = []"
  shows "\<exists>h1 h2. pool_decode (pre @ bytes_of_all as @ post) (length pre) (of_nat (length (bytes_of_all as))) h = Some (0, h1) \<and>
     pool_decode (pre' @ bytes_of_all bs @ post') (length pre') (of_nat (length (bytes_of_all bs)))
       (h1\<lparr>node_kids := (node_kids h1)(None := [])\<rparr>) = Some (0, h2) \<and>
     list_all2 (in_heap h2 (pre @ bytes_of_all as @ post)) as (node_kids h1 None) \<and>
     list_all2 (in_heap h2 (pre' @ bytes_of_all bs @ post')) bs (node_kids h2 None) \<and>
     distinct (node_kids h1 None @ node_kids h2 None)"
proof -
  let ?A = "pre @ bytes_of_all as @ post" and ?B = "pre' @ bytes_of_all bs @ post'"
  obtain h1 ns where d1: "pool_decode ?A (length pre) (of_nat (length (bytes_of_all as))) h = Some (0, h1)"
      "decoded_into h None ns h1" "list_all2 (matches ?A) as ns"
      "concat (map node_ids ns) = node_turn (forest_size ns) (pool h)" "concat (map node_slots ns) = slots (forest_size ns) (pool h)"
    using pool_reads [of h as pre post] fits_append [OF assms(1)] assms(2) by auto
  let ?g = "h1\<lparr>node_kids := (node_kids h1)(None := [])\<rparr>"
  let ?q = "requests (forest_size ns) (pool h)"
  have q: "pool ?g = ?q" using d1(2) by (simp add: decoded_into_def)
  have fs: "forest_size ns = sum_list (map ber_size as)" by (rule size_matches [OF d1(3)])
  have fb: "message_fits (pool ?g) bs" using fits_append [OF assms(1)] unfolding q fs by blast
  obtain h2 ms where d2: "pool_decode ?B (length pre') (of_nat (length (bytes_of_all bs))) ?g = Some (0, h2)"
      "decoded_into ?g None ms h2" "list_all2 (matches ?B) bs ms"
      "concat (map node_ids ms) = node_turn (forest_size ms) ?q" "concat (map node_slots ms) = slots (forest_size ms) ?q"
    using pool_reads [OF fb, of pre' post'] unfolding q by auto
  have tot: "ring (pool h)" "forest_size ns + forest_size ms \<le> tlv_count (pool h)"
    using assms(1) size_matches [OF d2(3)] fs by (simp_all add: message_fits_def)
  have dis: "distinct (slots (forest_size ns) (pool h) @ slots (forest_size ms) ?q)"
    "distinct (node_turn (forest_size ns) (pool h) @ node_turn (forest_size ms) ?q)"
    using turns_distinct [OF tot] by (simp_all only: slots_add node_turn_add)
  note D = d2(2) [unfolded decoded_into_def q]
  have "list_all (stands h2) ns"
  proof (rule all_stand_kept)
    show "list_all (stands h1) ns" using d1(2) by (simp add: decoded_into_def)
    fix x
    show "x \<in> set (concat (map node_slots ns)) \<Longrightarrow> tlvs h2 x = tlvs h1 x" using D dis(1) unfolding d1(5) by auto
    show "x \<in> set (concat (map node_ids ns)) \<Longrightarrow> node_tlv h2 x = node_tlv h1 x \<and> node_kids h2 (Some x) = node_kids h1 (Some x)"
      using D dis(2) unfolding d1(4) by auto
  qed
  then have a: "list_all2 (in_heap h2 ?A) as (map n_node ns)" by (rule all_stand_in_heap [OF _ d1(3)])
  have b: "list_all2 (in_heap h2 ?B) bs (map n_node ms)" by (rule all_stand_in_heap [OF _ d2(3)]) (use D in blast)
  have k: "node_kids h1 None = map n_node ns" "node_kids h2 None = map n_node ms"
    using d1(2) assms(2) D by (simp_all add: decoded_into_def)
  have "distinct (concat (map node_ids (ns @ ms)))" using dis(2) d1(4) d2(4) by simp
  then have "distinct (map n_node (ns @ ms))" by (rule top_distinct)
  then show ?thesis using d1(1) d2(1) a b k by auto
qed

theorem decoded_messages_kept_witness:
  "\<exists>h1 h2. pool_decode ([0] @ [0x30, 8, 2, 1, 5, 0x9f, 40, 2, 104, 105] @ []) 1 10 (fresh_heap 4) = Some (0, h1) \<and>
     pool_decode ([] @ [2, 1, 7] @ [0]) 0 3 (h1\<lparr>node_kids := (node_kids h1)(None := [])\<rparr>) = Some (0, h2) \<and>
     list_all2 (in_heap h2 ([0] @ [0x30, 8, 2, 1, 5, 0x9f, 40, 2, 104, 105] @ [])) sample_message (node_kids h1 None) \<and>
     distinct (node_kids h1 None @ node_kids h2 None)"
proof -
  have b: "bytes_of_all [BPrim 0 2 [7]] = [2, 1, 7]" by code_simp
  have "message_fits (pool (fresh_heap 4)) (sample_message @ [BPrim 0 2 [7]])"
    unfolding message_fits_def fresh_pool(2) map_append concat_append sample_bytes b
    using fresh_pool(1) [of 4] ber_sample_ok(2) by (simp add: tag_classes_def)
  from decoded_messages_kept [OF this fresh_pool(3), of "[0]" "[]" "[]" "[0]", unfolded sample_bytes b]
  show ?thesis by auto
qed

text \<open>
  C28. Encoding a prepared definition tree and decoding the octets, into a pool with an object for
  every element, gives the tree's elements: the nodes not linked in the session left out, a CHOICE
  replaced by its selection, the contents those that were linked.
\<close>

theorem encode_then_decode:
  assumes "prepared s n" and "int (length (bytes_of_all (elements s n))) \<le> bl" and "bl < 2 ^ 31"
    and "message_fits (pool h) (elements s n)" and "node_kids h None = []"
  shows "\<exists>os n' h'. asn1_encode s bl n = Some (os, n') \<and>
     pool_decode (os @ post) 0 (of_nat (length os)) h = Some (0, h') \<and>
     list_all2 (in_heap h' (os @ post)) (elements s n) (node_kids h' None)"
proof -
  let ?os = "bytes_of_all (elements s n)"
  obtain n' where n': "encode_node s bl n = Some (?os, n')" using encode_elements [OF assms(1-3)] by blast
  obtain h' nodes where "pool_decode ([] @ ?os @ post) (length ([] :: octets)) (of_nat (length ?os)) h = Some (0, h')"
      "decoded_into h None nodes h'" "list_all2 (matches ([] @ ?os @ post)) (elements s n) nodes"
    using pool_reads [OF assms(4,5), of "[]" post] by blast
  then have "pool_decode (?os @ post) 0 (of_nat (length ?os)) h = Some (0, h')"
      "list_all2 (in_heap h' (?os @ post)) (elements s n) (node_kids h' None)"
    using all_stand_in_heap [of h' nodes "?os @ post" "elements s n"] assms(5) by (simp_all add: decoded_into_def)
  moreover have "asn1_encode s bl n = Some (?os, n')" using n' assms(2) by (simp add: asn1_encode_def)
  ultimately show ?thesis by blast
qed

theorem encode_then_decode_witness:
  "\<exists>os n' h'. asn1_encode 1 100 sample_tree = Some (os, n') \<and>
     pool_decode (os @ [0]) 0 (of_nat (length os)) (fresh_heap 8) = Some (0, h') \<and>
     list_all2 (in_heap h' (os @ [0])) sample_message (node_kids h' None)"
proof -
  have "message_fits (pool (fresh_heap 8)) (elements 1 sample_tree)"
    unfolding message_fits_def fresh_pool(2) sample_elements sample_bytes using fresh_pool(1) [of 8] ber_sample_ok(1) by simp
  moreover have "int (length (bytes_of_all (elements 1 sample_tree))) \<le> 100" unfolding sample_elements sample_bytes by simp
  ultimately show ?thesis
    using encode_then_decode [OF sample_prepared, of 100 "fresh_heap 8" "[0]"] by (simp add: sample_elements fresh_pool(3))
qed

end
