(* ===== verification/BerDefn.thy ===== *)
theory BerDefn
  imports BerPool
begin

text \<open>
  The decoder with a definition of \<^verbatim>\<open>src/src/asn1/asn1.cpp\<close>, with which a daemon reads every packet: the
  loop of \<^verbatim>\<open>_decode\<close> matches each element it reads with the nodes of the definition, creates the
  optional nodes and the nodes of a SEQUENCE OF on the way, and links what matched. The virtual
  functions of the definition's classes are arguments.
\<close>

section \<open>Definitions\<close>

text \<open>
  A definition node is linked to a decoded node, by its slot of the pool, or to itself; a child is a null
  pointer until it is created. The selection of a CHOICE is a path of child indices below it. A node
  of the plain class \<^verbatim>\<open>ASN1Node\<close> has no class of its own.
\<close>

datatype def_link = To_ber nat | To_self

datatype 'c def_node = DefNode (d_class: "'c option") (d_tlv: tlv_node) (d_session: u64) (d_link: "def_link option")
  (d_choice: "nat list option") (d_kids: "'c def_node option list")

definition put_def :: "nat \<Rightarrow> 'c def_node \<Rightarrow> 'c def_node \<Rightarrow> 'c def_node" where
  "put_def i k d = DefNode (d_class d) (d_tlv d) (d_session d) (d_link d) (d_choice d) ((d_kids d)[i := Some k])"

fun def_at :: "nat list \<Rightarrow> 'c def_node \<Rightarrow> 'c def_node option" where
  "def_at [] d = Some d"
| "def_at (i # q) d = (if i < length (d_kids d) then Option.bind (d_kids d ! i) (def_at q) else None)"

fun change_def :: "nat list \<Rightarrow> ('c def_node \<Rightarrow> 'c def_node) \<Rightarrow> 'c def_node \<Rightarrow> 'c def_node" where
  "change_def [] f d = f d"
| "change_def (i # q) f d = (if i < length (d_kids d) then (case d_kids d ! i of
       None \<Rightarrow> d | Some k \<Rightarrow> put_def i (change_def q f k) d) else d)"

text \<open>\<^verbatim>\<open>create_node\<close> of the class at an index, and \<^verbatim>\<open>get_next_node\<close>, which adds at most one node.\<close>

definition create_node :: "('c \<Rightarrow> nat \<Rightarrow> 'c def_node option) \<Rightarrow> nat \<Rightarrow> 'c def_node \<Rightarrow> 'c def_node" where
  "create_node mk j d = (case Option.bind (d_class d) (\<lambda>c. mk c j) of None \<Rightarrow> d | Some k \<Rightarrow> put_def j k d)"

definition get_next_node :: "('c \<Rightarrow> 'c def_node option) \<Rightarrow> nat \<Rightarrow> 'c def_node \<Rightarrow> 'c def_node" where
  "get_next_node grow i d = (if i < length (d_kids d) then d else (case Option.bind (d_class d) grow of
       None \<Rightarrow> d
     | Some k \<Rightarrow> DefNode (d_class d) (d_tlv d) (d_session d) (d_link d) (d_choice d) (d_kids d @ [Some k])))"

section \<open>Matching\<close>

text \<open>The tag and class a definition asks of an element.\<close>

definition expected_tag :: "tlv_node \<Rightarrow> tlv_node \<Rightarrow> u32 \<times> u32" where
  "expected_tag t c = (if tag_value c = UNKNOWN_UNIVERSAL_TAG then (uni_tag_class c, 0)
     else if tag_value c = ANY then (tag_value t, tag_class t) else (tag_value c, tag_class c))"

text \<open>
  \<^verbatim>\<open>resolve_CHOICE\<close>: the path of the first alternative with the element's tag; the outer option is a null
  child. A selection in a nested CHOICE is compared again, by its own tag.
\<close>

function (sequential) resolve_choice :: "tlv_node \<Rightarrow> 'c def_node \<Rightarrow> nat list option option"
  and resolve_kids :: "tlv_node \<Rightarrow> nat \<Rightarrow> 'c def_node option list \<Rightarrow> nat list option option" where
  "resolve_choice t (DefNode c tlv s l ch ks) = resolve_kids t 0 ks"
| "resolve_kids t i [] = Some None"
| "resolve_kids t i (None # ks) = None"
| "resolve_kids t i (Some k # ks) = (if fst (expected_tag t (d_tlv k)) = CHOICE
     then Option.bind (resolve_choice t k) (\<lambda>r. case r of None \<Rightarrow> resolve_kids t (Suc i) ks
       | Some q \<Rightarrow> (case def_at q k of None \<Rightarrow> None
           | Some n \<Rightarrow> if (tag_value (d_tlv n), tag_class (d_tlv n)) = (tag_value t, tag_class t) then Some (Some (i # q))
               else resolve_kids t (Suc i) ks))
     else if expected_tag t (d_tlv k) = (tag_value t, tag_class t) then Some (Some [i]) else resolve_kids t (Suc i) ks)"
  by pat_completeness auto
termination
  by (relation "measure (\<lambda>x. case x of Inl (t, d) \<Rightarrow> size d | Inr (t, i, ks) \<Rightarrow> size_list (size_option size) ks)") auto

text \<open>The values a CHOICE takes over from the element, and the link of a matched node.\<close>

definition set_choice :: "u64 \<Rightarrow> tlv_node \<Rightarrow> nat list \<Rightarrow> 'c def_node \<Rightarrow> 'c def_node" where
  "set_choice s t q d = DefNode (d_class d) ((d_tlv d)\<lparr>tag_value_size := tag_value_size t, length_type := length_type t,
     old_value_length := old_value_length t, value_length := value_length t, value_length_size := value_length_size t\<rparr>)
     s (Some To_self) (Some q) (d_kids d)"

definition link_to :: "u64 \<Rightarrow> nat \<Rightarrow> 'c def_node \<Rightarrow> 'c def_node" where
  "link_to s slot d = DefNode (d_class d) (d_tlv d) s (Some (To_ber slot)) (d_choice d) (d_kids d)"

definition found :: "u64 \<Rightarrow> tlv_node \<Rightarrow> nat \<Rightarrow> nat list \<Rightarrow> 'c def_node \<Rightarrow> 'c def_node" where
  "found s t slot q d = change_def q (link_to s slot) (if uni_tag_class (d_tlv d) = CHOICE then set_choice s t q d else d)"

text \<open>
  The decoded node is linked to itself, or to the CHOICE: a child of the definition or the definition.
  \<^verbatim>\<open>tmp_node_matched\<close> keeps its value when the loop is over at once or meets only null pointers.
\<close>

datatype ber_link = Itself | Choice_child | Choice_above

fun try_kids :: "('c \<Rightarrow> nat \<Rightarrow> 'c def_node option) \<Rightarrow> u64 \<Rightarrow> tlv_node \<Rightarrow> nat \<Rightarrow> nat list \<Rightarrow> 'c def_node \<Rightarrow> nat list option
    \<Rightarrow> ('c def_node \<times> nat list option \<times> (nat \<times> ber_link) option) option" where
  "try_kids mk s t slot [] d m = Some (d, m, None)"
| "try_kids mk s t slot (j # js) d m = (let d1 = (if d_kids d ! j = None then create_node mk j d else d) in
     case d_kids d1 ! j of
       None \<Rightarrow> try_kids mk s t slot js d1 m
     | Some c \<Rightarrow> if fst (expected_tag t (d_tlv c)) = CHOICE
         then Option.bind (resolve_choice t c) (\<lambda>r. case r of
             None \<Rightarrow> try_kids mk s t slot js d1 None
           | Some q \<Rightarrow> Some (found s t slot (j # q) (put_def j (set_choice s t q c) d1), Some (j # q), Some (j, Choice_child)))
         else if expected_tag t (d_tlv c) = (tag_value t, tag_class t)
           then Some (found s t slot [j] d1, Some [j], Some (j, Itself))
           else try_kids mk s t slot js d1 None)"

record 'c matching =
  mt_def :: "'c def_node option"
  mt_at :: "nat list option"
  mt_next :: nat
  mt_name :: "'c option"
  mt_link :: ber_link

abbreviation SET_TAG :: u32 where "SET_TAG \<equiv> 0x11"

definition match_defn :: "('c \<Rightarrow> nat \<Rightarrow> 'c def_node option) \<Rightarrow> ('c \<Rightarrow> 'c def_node option) \<Rightarrow> u64 \<Rightarrow> tlv_node \<Rightarrow> nat
    \<Rightarrow> 'c def_node option \<Rightarrow> nat list option \<Rightarrow> nat \<Rightarrow> 'c matching option" where
  "match_defn mk grow s t slot d m next = (case d of
       None \<Rightarrow> Some \<lparr>mt_def = None, mt_at = m, mt_next = next, mt_name = None, mt_link = Itself\<rparr>
     | Some d \<Rightarrow> (let d1 = (if unlimited_size (d_tlv d) then get_next_node grow next d else d) in
         map_option (\<lambda>(d2, m, f). case f of
             None \<Rightarrow> \<lparr>mt_def = Some d2, mt_at = m, mt_next = next, mt_name = None, mt_link = Itself\<rparr>
           | Some (j, how) \<Rightarrow> \<lparr>mt_def = Some d2, mt_at = m,
               mt_next = (if uni_tag_class (d_tlv d) = SET_TAG \<and> \<not> unlimited_size (d_tlv d) then 0 else Suc j),
               mt_name = Option.bind (Option.bind m (\<lambda>q. def_at q d2)) d_class,
               mt_link = (if uni_tag_class (d_tlv d) = CHOICE then Choice_above else how)\<rparr>)
           (try_kids mk s t slot [next..<length (d_kids d1)] d1 m)))"

text \<open>The matched node, which the recursive call works on, and its place in the definition.\<close>

definition matched :: "'c matching \<Rightarrow> 'c def_node option" where
  "matched r = Option.bind (mt_at r) (\<lambda>q. Option.bind (mt_def r) (def_at q))"

definition put_back :: "'c matching \<Rightarrow> 'c def_node option \<Rightarrow> 'c def_node option" where
  "put_back r sub = (case (mt_at r, sub) of (Some q, Some x) \<Rightarrow> map_option (change_def q (\<lambda>_. x)) (mt_def r) | _ \<Rightarrow> mt_def r)"

section \<open>Decoding\<close>

datatype 'c dec_node = DecNode (e_tlv: tlv_node) (e_slot: nat) (e_node: nat) (e_name: "'c option") (e_link: ber_link)
  (e_kids: "'c dec_node list")

text \<open>The head of an element, with the length that is needed when the message is encoded again.\<close>

definition with_old :: "tlv_node \<Rightarrow> tlv_node" where
  "with_old t = t\<lparr>old_value_length := of_nat (value_length_size t) + value_length t\<rparr>"

definition read_head :: "octets \<Rightarrow> nat \<Rightarrow> u32 \<Rightarrow> u32 \<Rightarrow> (nat \<times> tlv_node) option" where
  "read_head mem base len pos = map_option (\<lambda>(c, t). (c, if c = 300 then t else with_old t)) (read_tlv mem base len pos new_tlv)"

text \<open>
  The counter of nodes runs through the whole message. The result is the return code, the counter, the pool,
  the definition and the children of the root.
\<close>

partial_function (option) decode_defn :: "('c \<Rightarrow> nat \<Rightarrow> 'c def_node option) \<Rightarrow> ('c \<Rightarrow> 'c def_node option) \<Rightarrow> u64 \<Rightarrow> octets
    \<Rightarrow> nat \<Rightarrow> u32 \<Rightarrow> u32 \<Rightarrow> nat \<Rightarrow> asn1_pool \<Rightarrow> 'c def_node option \<Rightarrow> nat list option \<Rightarrow> nat \<Rightarrow> 'c dec_node list
    \<Rightarrow> (nat \<times> nat \<times> asn1_pool \<times> 'c def_node option \<times> 'c dec_node list) option" where
  "decode_defn mk grow s mem base len pos used p d m next acc =
     (if pos < len then
        (if tlv_count p < Suc used then Some (400, Suc used, snd (request_tlv p), d, acc)
         else Option.bind (read_head mem base len pos) (\<lambda>h.
           if fst h \<noteq> 0 then Some (fst h, Suc used, snd (request_tlv p), d, acc)
           else Option.bind (match_defn mk grow s (snd h) (fst (request_asn1_node (snd (request_tlv p)))) d m next) (\<lambda>r.
             Option.bind (if complexity (snd h) = CONSTRUCTED
               then decode_defn mk grow s mem (value_at (snd h)) (value_length (snd h)) 0 (Suc used)
                 (snd (request_asn1_node (snd (request_tlv p)))) (matched r) None 0 []
               else Some (0, Suc used, snd (request_asn1_node (snd (request_tlv p))), matched r, [])) (\<lambda>x.
               if fst x \<noteq> 0 then Some (fst x, fst (snd x), fst (snd (snd x)), put_back r (fst (snd (snd (snd x)))),
                   acc @ [DecNode (snd h) (fst (request_tlv p)) (fst (request_asn1_node (snd (request_tlv p)))) (mt_name r) (mt_link r)
                     (snd (snd (snd (snd x))))])
               else decode_defn mk grow s mem base len (next_pos pos (snd h) (snd h)) (fst (snd x)) (fst (snd (snd x)))
                 (put_back r (fst (snd (snd (snd x))))) (mt_at r) (mt_next r)
                 (acc @ [DecNode (snd h) (fst (request_tlv p)) (fst (request_asn1_node (snd (request_tlv p)))) (mt_name r) (mt_link r)
                   (snd (snd (snd (snd x))))])))))
      else Some (0, used, p, d, acc))"

declare decode_defn.simps [code]

text \<open>
  A definition that is not a CHOICE becomes the only child of a node of the plain class. The objects of the pool are
  values here, so a pool of fewer nodes than TLVs, which would hand out a node a second time before the counter stops the
  decoding, is outside of the model; the program has a thousand of both. The request that makes the
  counter stop clears the length of the first element, whose TLV is the next in the round again.
\<close>

definition overrun :: "nat \<Rightarrow> 'c dec_node list \<Rightarrow> 'c dec_node list" where
  "overrun code nodes = (case nodes of
       DecNode t a n nm l ks # ns \<Rightarrow> (if code = 400 then DecNode (t\<lparr>value_length := 0\<rparr>) a n nm l ks # ns else nodes)
     | [] \<Rightarrow> [])"

definition decode_with :: "('c \<Rightarrow> nat \<Rightarrow> 'c def_node option) \<Rightarrow> ('c \<Rightarrow> 'c def_node option) \<Rightarrow> u64 \<Rightarrow> octets \<Rightarrow> nat \<Rightarrow> u32
    \<Rightarrow> asn1_pool \<Rightarrow> 'c def_node \<Rightarrow> (nat \<times> asn1_pool \<times> 'c def_node \<times> 'c dec_node list) option" where
  "decode_with mk grow s mem base len p d = (if asn1_node_count p < tlv_count p then None
     else if uni_tag_class (d_tlv d) \<noteq> CHOICE
     then map_option (\<lambda>(code, used, p, d', nodes). (code, p, the (Option.bind d' (def_at [0])), overrun code nodes))
       (decode_defn mk grow s mem base len 0 0 p (Some (DefNode None new_tlv 0 None None [Some d])) None 0 [])
     else map_option (\<lambda>(code, used, p, d', nodes). (code, p, the d', overrun code nodes))
       (decode_defn mk grow s mem base len 0 0 p (Some d) None 0 []))"

end
