(* ===== verification/BerMatch.thy ===== *)
theory BerMatch
  imports BerDefn
begin

text \<open>
  The decoder with a definition reads the same elements as the one without: it is that decoder followed by
  a walk over the decoded nodes that links them, as long as the whole message fits the pool.
\<close>

section \<open>Two passes\<close>

fun link_nodes :: "('c \<Rightarrow> nat \<Rightarrow> 'c def_node option) \<Rightarrow> ('c \<Rightarrow> 'c def_node option) \<Rightarrow> u64 \<Rightarrow> ber_node list
    \<Rightarrow> 'c def_node option \<Rightarrow> nat list option \<Rightarrow> nat \<Rightarrow> ('c def_node option \<times> 'c dec_node list) option" where
  "link_nodes mk grow s [] d m next = Some (d, [])"
| "link_nodes mk grow s (BerNode t a n ks # bs) d m next =
     Option.bind (match_defn mk grow s (with_old t) n d m next) (\<lambda>r.
     Option.bind (link_nodes mk grow s ks (matched r) None 0) (\<lambda>(sub, kids).
     Option.bind (link_nodes mk grow s bs (put_back r sub) (mt_at r) (mt_next r)) (\<lambda>(d, nodes).
       Some (d, DecNode (with_old t) a n (mt_name r) (mt_link r) kids # nodes))))"

lemma with_old_fields [simp]:
  "value_at (with_old t) = value_at t" "value_length (with_old t) = value_length t" "complexity (with_old t) = complexity t"
  "next_pos pos (with_old t) (with_old t) = next_pos pos t t"
  by (simp_all add: with_old_def next_pos_def)

lemma read_head_ok: "read_tlv mem base len pos new_tlv = Some (0, t) \<Longrightarrow> read_head mem base len pos = Some (0, with_old t)"
  by (simp add: read_head_def)

lemma forest_append [simp]: "forest_size (as @ bs) = forest_size as + forest_size bs"
  by (induction as rule: forest_size.induct) simp_all

abbreviation passes_agree :: "('c \<Rightarrow> nat \<Rightarrow> 'c def_node option) \<Rightarrow> ('c \<Rightarrow> 'c def_node option) \<Rightarrow> u64 \<Rightarrow> octets \<Rightarrow> nat \<Rightarrow> u32 \<Rightarrow> u32
    \<Rightarrow> asn1_pool \<Rightarrow> asn1_pool \<Rightarrow> ber_node list \<Rightarrow> bool" where
  "passes_agree mk grow s mem base len pos p q nodes \<equiv> tlv_count q = tlv_count p \<and>
     (\<forall>u d m next acc. u + forest_size nodes \<le> tlv_count p \<longrightarrow> decode_defn mk grow s mem base len pos u p d m next acc
        = map_option (\<lambda>(d, ns). (0, u + forest_size nodes, q, d, acc @ ns)) (link_nodes mk grow s nodes d m next))"

lemma two_passes:
  assumes run: "decode_loop mem base len pos used p acc = Some res" and ok: "fst res = 0"
  shows "\<exists>nodes. snd (snd res) = acc @ nodes \<and> passes_agree mk grow s mem base len pos p (fst (snd res)) nodes"
proof -
  have "fst res = 0 \<longrightarrow> (\<exists>nodes. snd (snd res) = acc @ nodes \<and> passes_agree mk grow s mem base len pos p (fst (snd res)) nodes)"
  proof (rule decode_loop.raw_induct [where P = "\<lambda>mem base len pos used p acc res. fst res = 0 \<longrightarrow> (\<exists>nodes. snd (snd res) = acc @ nodes \<and>
        passes_agree mk grow s mem base len pos p (fst (snd res)) nodes)", OF _ run], goal_cases)
    case (1 f mem base len pos used p acc res)
    note ih = 1(1) and step = 1(2) [unfolded plain_body]
    show ?case
    proof
      assume ok: "fst res = 0"
      show "\<exists>nodes. snd (snd res) = acc @ nodes \<and> passes_agree mk grow s mem base len pos p (fst (snd res)) nodes"
      proof (cases "pos < len")
        case False
        then show ?thesis using step by (auto simp: decode_defn.simps [of mk grow s mem base len pos])
      next
        case True
        then obtain t where rd: "read_tlv mem base len pos new_tlv = Some (0, t)" and used: "\<not> tlv_count p < Suc used"
          using step ok by (auto simp: bind_eq_Some_conv split: if_splits)
        note h = read_head_ok [OF rd]
        let ?n = "next_node p"
        obtain kr where kr: "(if complexity t = CONSTRUCTED then f mem (value_at t) (value_length t) 0 0 (request p) []
            else Some (0, request p, [])) = Some kr" "fst kr = 0"
          and rest: "f mem base len (next_pos pos t t) (Suc used) (fst (snd kr))
            (acc @ [BerNode t (fst (request_tlv p)) ?n (snd (snd kr))]) = Some res"
          using step True rd used ok by (auto simp: bind_eq_Some_conv split: if_splits)
        let ?p1 = "fst (snd kr)" and ?kids = "snd (snd kr)"
        have kids: "complexity t = CONSTRUCTED \<Longrightarrow> passes_agree mk grow s mem (value_at t) (value_length t) 0 (request p) ?p1 ?kids"
          "complexity t \<noteq> CONSTRUCTED \<Longrightarrow> kr = (0, request p, [])"
          using kr ih [of mem "value_at t" "value_length t" 0 0 "request p" "[]" kr] by auto
        obtain nodes where nodes: "snd (snd res) = (acc @ [BerNode t (fst (request_tlv p)) ?n ?kids]) @ nodes"
            "passes_agree mk grow s mem base len (next_pos pos t t) ?p1 (fst (snd res)) nodes"
          using ih [OF rest] ok by auto
        have p1: "tlv_count ?p1 = tlv_count p" using kids by (cases "complexity t = CONSTRUCTED") auto
        show ?thesis
        proof (intro exI conjI allI impI)
          show "snd (snd res) = acc @ BerNode t (fst (request_tlv p)) ?n ?kids # nodes" using nodes(1) by simp
          show "tlv_count (fst (snd res)) = tlv_count p" using nodes(2) p1 by simp
          fix u d m nx and ac :: "'a dec_node list"
          assume u: "u + forest_size (BerNode t (fst (request_tlv p)) ?n ?kids # nodes) \<le> tlv_count p"
          show "decode_defn mk grow s mem base len pos u p d m nx ac = map_option (\<lambda>(d, ns). (0,
              u + forest_size (BerNode t (fst (request_tlv p)) ?n ?kids # nodes), fst (snd res), d, ac @ ns))
              (link_nodes mk grow s (BerNode t (fst (request_tlv p)) ?n ?kids # nodes) d m nx)"
          proof (cases "match_defn mk grow s (with_old t) ?n d m nx")
            case None
            then show ?thesis
              using True u h by (subst decode_defn.simps) (simp add: next_node_def [symmetric])
          next
            case (Some r)
            have one: "decode_defn mk grow s mem base len pos u p d m nx ac = Option.bind (if complexity t = CONSTRUCTED
                then decode_defn mk grow s mem (value_at t) (value_length t) 0 (Suc u) (request p) (matched r) None 0 []
                else Some (0, Suc u, request p, matched r, [])) (\<lambda>x. if fst x \<noteq> 0 then Some (fst x, fst (snd x), fst (snd (snd x)),
                    put_back r (fst (snd (snd (snd x)))), ac @ [DecNode (with_old t) (fst (request_tlv p)) ?n (mt_name r) (mt_link r) (snd (snd (snd (snd x))))])
                  else decode_defn mk grow s mem base len (next_pos pos t t) (fst (snd x)) (fst (snd (snd x))) (put_back r (fst (snd (snd (snd x)))))
                    (mt_at r) (mt_next r) (ac @ [DecNode (with_old t) (fst (request_tlv p)) ?n (mt_name r) (mt_link r) (snd (snd (snd (snd x))))]))"
              using True u by (subst decode_defn.simps) (simp add: h Some [unfolded next_node_def] request_def next_node_def cong: if_cong)
            have two: "(if complexity t = CONSTRUCTED
                then decode_defn mk grow s mem (value_at t) (value_length t) 0 (Suc u) (request p) (matched r) None 0 []
                else Some (0, Suc u, request p, matched r, []))
              = map_option (\<lambda>(d, ns). (0, Suc u + forest_size ?kids, ?p1, d, ns)) (link_nodes mk grow s ?kids (matched r) None 0)"
              using kids u by (cases "complexity t = CONSTRUCTED") auto
            have three: "decode_defn mk grow s mem base len (next_pos pos t t) (Suc u + forest_size ?kids) ?p1 d m nx ac
              = map_option (\<lambda>(d, ns). (0, Suc u + forest_size ?kids + forest_size nodes, fst (snd res), d, ac @ ns))
                (link_nodes mk grow s nodes d m nx)" for d m nx ac
              using nodes(2) u p1 by simp
            show ?thesis
            proof (cases "link_nodes mk grow s ?kids (matched r) None 0")
              case None
              then show ?thesis by (simp add: one two Some)
            next
              case kid: (Some x)
              show ?thesis
                by (cases x; cases "link_nodes mk grow s nodes (put_back r (fst x)) (mt_at r) (mt_next r)")
                  (auto simp: one two three [simplified] kid Some)
            qed
          qed
        qed
      qed
    qed
  qed
  then show ?thesis using ok by blast
qed

end
