(* ===== verification/BerValue.thy ===== *)
theory BerValue
  imports BerMatch
begin

text \<open>
  What an application reads from a decoded message: the values of a definition, their elements, and what is seen
  of them in a definition that was linked to the decoded nodes.
\<close>

section \<open>Values of a definition\<close>

datatype asn1_val = VPrim octets | VSeq "asn1_val option list" | VOf "asn1_val list" | VChoice nat asn1_val

definition kid_of :: "('c \<Rightarrow> nat \<Rightarrow> 'c def_node option) \<Rightarrow> 'c def_node \<Rightarrow> nat \<Rightarrow> 'c def_node option" where
  "kid_of mk d j = (case d_kids d ! j of Some k \<Rightarrow> Some k | None \<Rightarrow> Option.bind (d_class d) (\<lambda>c. mk c j))"

definition elem_of :: "('c \<Rightarrow> nat \<Rightarrow> 'c def_node option) \<Rightarrow> ('c \<Rightarrow> 'c def_node option) \<Rightarrow> 'c def_node \<Rightarrow> nat \<Rightarrow> 'c def_node option" where
  "elem_of mk grow d i = (if i < length (d_kids d) then kid_of mk d i else Option.bind (d_class d) grow)"

definition tags :: "tlv_node \<Rightarrow> u32 \<times> u32" where "tags t = (tag_value t, tag_class t)"

fun ber_tlv :: "ber \<Rightarrow> tlv_node" where
  "ber_tlv (BPrim c v os) = new_tlv\<lparr>tag_class := c, tag_value := v\<rparr>"
| "ber_tlv (BCons c v bs) = new_tlv\<lparr>tag_class := c, tag_value := v\<rparr>"

text \<open>A node of the definition takes an element with the tag; a null alternative counts as taken.\<close>

definition takes :: "tlv_node \<Rightarrow> 'c def_node \<Rightarrow> bool" where
  "takes t k \<longleftrightarrow> (if fst (expected_tag t (d_tlv k)) = CHOICE then resolve_choice t k \<noteq> Some None
     else expected_tag t (d_tlv k) = tags t)"

definition plain_head :: "'c def_node \<Rightarrow> bool" where
  "plain_head d \<longleftrightarrow> tag_value (d_tlv d) \<noteq> ANY \<and> fst (expected_tag new_tlv (d_tlv d)) \<noteq> CHOICE \<and> uni_tag_class (d_tlv d) \<noteq> CHOICE"

text \<open>
  The elements of a value: those of the members that are there, in the order of the definition, as long as no
  member in between that is left out takes the next element.
\<close>

function (sequential) ber_of :: "('c \<Rightarrow> nat \<Rightarrow> 'c def_node option) \<Rightarrow> ('c \<Rightarrow> 'c def_node option) \<Rightarrow> asn1_val \<Rightarrow> 'c def_node \<Rightarrow> ber option"
  and ber_seq :: "('c \<Rightarrow> nat \<Rightarrow> 'c def_node option) \<Rightarrow> ('c \<Rightarrow> 'c def_node option) \<Rightarrow> asn1_val option list \<Rightarrow> nat \<Rightarrow> 'c def_node \<Rightarrow> ber list option"
  and ber_list :: "('c \<Rightarrow> nat \<Rightarrow> 'c def_node option) \<Rightarrow> ('c \<Rightarrow> 'c def_node option) \<Rightarrow> asn1_val list \<Rightarrow> nat \<Rightarrow> 'c def_node \<Rightarrow> ber list option" where
  "ber_of mk grow (VPrim os) d = (if plain_head d then Some (BPrim (snd (expected_tag new_tlv (d_tlv d))) (fst (expected_tag new_tlv (d_tlv d))) os)
     else None)"
| "ber_of mk grow (VSeq vs) d = (if plain_head d \<and> \<not> unlimited_size (d_tlv d) \<and> uni_tag_class (d_tlv d) \<noteq> SET_TAG \<and> length vs = length (d_kids d)
     then map_option (BCons (snd (expected_tag new_tlv (d_tlv d))) (fst (expected_tag new_tlv (d_tlv d)))) (ber_seq mk grow vs 0 d) else None)"
| "ber_of mk grow (VOf vs) d = (if plain_head d \<and> unlimited_size (d_tlv d)
     then map_option (BCons (snd (expected_tag new_tlv (d_tlv d))) (fst (expected_tag new_tlv (d_tlv d)))) (ber_list mk grow vs 0 d) else None)"
| "ber_of mk grow (VChoice i v) d = (if tag_value (d_tlv d) = UNKNOWN_UNIVERSAL_TAG \<and> uni_tag_class (d_tlv d) = CHOICE \<and> i < length (d_kids d) then
     Option.bind (d_kids d ! i) (\<lambda>k. Option.bind (ber_of mk grow v k) (\<lambda>b.
       if plain_head k \<and> resolve_choice (ber_tlv b) d = Some (Some [i]) then Some b else None)) else None)"
| "ber_seq mk grow [] i d = Some []"
| "ber_seq mk grow (None # vs) i d = Option.bind (ber_seq mk grow vs (Suc i) d) (\<lambda>bs. if bs = [] then Some bs
     else case kid_of mk d i of None \<Rightarrow> Some bs | Some k \<Rightarrow> if takes (ber_tlv (hd bs)) k then None else Some bs)"
| "ber_seq mk grow (Some v # vs) i d = Option.bind (kid_of mk d i) (\<lambda>k. Option.bind (ber_of mk grow v k) (\<lambda>b.
     map_option ((#) b) (ber_seq mk grow vs (Suc i) d)))"
| "ber_list mk grow [] i d = Some []"
| "ber_list mk grow (v # vs) i d = Option.bind (elem_of mk grow d i) (\<lambda>k. Option.bind (ber_of mk grow v k) (\<lambda>b.
     map_option ((#) b) (ber_list mk grow vs (Suc i) d)))"
  by pat_completeness auto
termination
  by (relation "measure (\<lambda>x. case x of Inl (mk, grow, v, d) \<Rightarrow> size v | Inr (Inl (mk, grow, vs, i, d)) \<Rightarrow> size_list (size_option size) vs
    | Inr (Inr (mk, grow, vs, i, d)) \<Rightarrow> size_list size vs)") auto

section \<open>What is seen of a value\<close>

function (sequential) quiet :: "u64 \<Rightarrow> 'c def_node \<Rightarrow> bool" and quiet_kids :: "u64 \<Rightarrow> 'c def_node option list \<Rightarrow> bool" where
  "quiet s (DefNode c t i l ch ks) \<longleftrightarrow> i \<noteq> s \<and> quiet_kids s ks"
| "quiet_kids s [] \<longleftrightarrow> True"
| "quiet_kids s (None # ks) \<longleftrightarrow> quiet_kids s ks"
| "quiet_kids s (Some k # ks) \<longleftrightarrow> quiet s k \<and> quiet_kids s ks"
  by pat_completeness auto
termination by (relation "measure (\<lambda>x. case x of Inl (s, d) \<Rightarrow> size d | Inr (s, ks) \<Rightarrow> size_list (size_option size) ks)") auto

definition linked :: "u64 \<Rightarrow> 'c def_node \<Rightarrow> bool" where
  "linked s d \<longleftrightarrow> d_session d = s \<and> (case d_link d of Some (To_ber n) \<Rightarrow> True | _ \<Rightarrow> False)"

text \<open>
  The nodes of the session are those of the value, and no others; the octets of a primitive value are those that
  its link leads to.
\<close>

function (sequential) seen :: "u64 \<Rightarrow> (nat \<Rightarrow> octets option) \<Rightarrow> asn1_val \<Rightarrow> 'c def_node \<Rightarrow> bool"
  and seen_seq :: "u64 \<Rightarrow> (nat \<Rightarrow> octets option) \<Rightarrow> asn1_val option list \<Rightarrow> 'c def_node option list \<Rightarrow> bool"
  and seen_of :: "u64 \<Rightarrow> (nat \<Rightarrow> octets option) \<Rightarrow> asn1_val list \<Rightarrow> 'c def_node option list \<Rightarrow> bool" where
  "seen s look (VPrim os) d \<longleftrightarrow> d_session d = s \<and> (case d_link d of Some (To_ber n) \<Rightarrow> look n = Some os | _ \<Rightarrow> False)"
| "seen s look (VSeq vs) d \<longleftrightarrow> linked s d \<and> seen_seq s look vs (d_kids d)"
| "seen s look (VOf vs) d \<longleftrightarrow> linked s d \<and> seen_of s look vs (d_kids d)"
| "seen s look (VChoice i v) d \<longleftrightarrow> d_session d = s \<and> d_link d = Some To_self \<and> d_choice d = Some [i] \<and> i < length (d_kids d) \<and>
     (case d_kids d ! i of None \<Rightarrow> False | Some k \<Rightarrow> seen s look v k) \<and> quiet_kids s ((d_kids d)[i := None])"
| "seen_seq s look [] ks \<longleftrightarrow> ks = []"
| "seen_seq s look (None # vs) (k # ks) \<longleftrightarrow> quiet_kids s [k] \<and> seen_seq s look vs ks"
| "seen_seq s look (Some v # vs) (Some k # ks) \<longleftrightarrow> seen s look v k \<and> seen_seq s look vs ks"
| "seen_seq s look _ _ \<longleftrightarrow> False"
| "seen_of s look [] ks \<longleftrightarrow> quiet_kids s ks"
| "seen_of s look (v # vs) (Some k # ks) \<longleftrightarrow> seen s look v k \<and> seen_of s look vs ks"
| "seen_of s look _ _ \<longleftrightarrow> False"
  by pat_completeness auto
termination
  by (relation "measure (\<lambda>x. case x of Inl (s, look, v, d) \<Rightarrow> size v | Inr (Inl (s, look, vs, ks)) \<Rightarrow> size_list (size_option size) vs
    | Inr (Inr (s, look, vs, ks)) \<Rightarrow> size_list size vs)") auto

section \<open>Matching in the order of the definition\<close>

lemma expected_tags: "tags t = tags t' \<Longrightarrow> expected_tag t c = expected_tag t' c"
  by (simp add: expected_tag_def tags_def)

lemma resolve_tags:
  "tags t = tags t' \<Longrightarrow> resolve_choice t (d :: 'c def_node) = resolve_choice t' d"
  "tags t = tags t' \<Longrightarrow> resolve_kids t i (ks :: 'c def_node option list) = resolve_kids t' i ks"
proof (induction t d and t i ks rule: resolve_choice_resolve_kids.induct)
  case (4 t i k ks)
  have e: "expected_tag t (d_tlv k) = expected_tag t' (d_tlv k)" "tag_value t = tag_value t'" "tag_class t = tag_class t'"
    by (rule expected_tags [OF 4(5)]) (use 4(5) in \<open>simp_all add: tags_def\<close>)
  show ?case
  proof (cases "fst (expected_tag t' (d_tlv k)) = CHOICE")
    case True
    then have r: "resolve_choice t k = resolve_choice t' k" using 4(1,5) e by simp
    show ?thesis
    proof (cases "resolve_choice t' k")
      case None
      then show ?thesis using True r e by simp
    next
      case (Some a)
      then have a: "resolve_choice t k = Some a" and T: "fst (expected_tag t (d_tlv k)) = CHOICE" using True r e by simp_all
      show ?thesis
      proof (cases a)
        case None
        then show ?thesis using 4(2) [OF T a None 4(5)] Some r T e by simp
      next
        case q: (Some q)
        show ?thesis
        proof (cases "\<exists>m. def_at q k = Some m \<and> tags (d_tlv m) \<noteq> tags t")
          case True
          then obtain m where m: "def_at q k = Some m" "(tag_value (d_tlv m), tag_class (d_tlv m)) \<noteq> (tag_value t, tag_class t)"
            by (auto simp: tags_def)
          show ?thesis using 4(3) [OF T a q m 4(5)] m Some q r T e by auto
        next
          case False
          then show ?thesis using Some q r T e by (cases "def_at q k") (simp_all add: tags_def)
        qed
      qed
    qed
  next
    case False
    then show ?thesis using e 4(4,5) by simp
  qed
qed simp_all

lemma takes_tags: "tags t = tags t' \<Longrightarrow> takes t k = takes t' k"
  using expected_tags [of t t' "d_tlv k"] resolve_tags(1) [of t t' k] by (simp add: takes_def)

definition put_opt :: "nat \<Rightarrow> 'c def_node option \<Rightarrow> 'c def_node \<Rightarrow> 'c def_node" where
  "put_opt i k d = DefNode (d_class d) (d_tlv d) (d_session d) (d_link d) (d_choice d) ((d_kids d)[i := k])"

lemma put_sel [simp]:
  "d_class (put_def i k d) = d_class d" "d_tlv (put_def i k d) = d_tlv d" "d_session (put_def i k d) = d_session d"
  "d_link (put_def i k d) = d_link d" "d_choice (put_def i k d) = d_choice d" "d_kids (put_def i k d) = (d_kids d)[i := Some k]"
  "d_class (put_opt i x d) = d_class d" "d_tlv (put_opt i x d) = d_tlv d" "d_session (put_opt i x d) = d_session d"
  "d_link (put_opt i x d) = d_link d" "d_choice (put_opt i x d) = d_choice d" "d_kids (put_opt i x d) = (d_kids d)[i := x]"
  by (simp_all add: put_def_def put_opt_def)

lemma link_sel [simp]:
  "d_class (link_to s n d) = d_class d" "d_tlv (link_to s n d) = d_tlv d" "d_session (link_to s n d) = s"
  "d_link (link_to s n d) = Some (To_ber n)" "d_kids (link_to s n d) = d_kids d"
  by (simp_all add: link_to_def)

lemma choice_sel [simp]:
  "d_class (set_choice s t q d) = d_class d" "d_session (set_choice s t q d) = s" "d_link (set_choice s t q d) = Some To_self"
  "d_choice (set_choice s t q d) = Some q" "d_kids (set_choice s t q d) = d_kids d"
  by (simp_all add: set_choice_def)

lemma create_put: "(if d_kids d ! i = None then create_node mk i d else d) = put_opt i (kid_of mk d i) d"
proof (cases "d_kids d ! i")
  case None
  then have "(d_kids d)[i := None] = d_kids d" by (metis list_update_id)
  then show ?thesis using None by (cases d) (auto simp: create_node_def put_opt_def put_def_def kid_of_def split: option.split)
next
  case (Some k)
  then have "(d_kids d)[i := Some k] = d_kids d" by (metis list_update_id)
  then show ?thesis using Some by (cases d) (simp add: put_opt_def kid_of_def)
qed

text \<open>The definition after the members from \<^term>\<open>next\<close> up to \<^term>\<open>j\<close> have been created.\<close>

definition filled :: "('c \<Rightarrow> nat \<Rightarrow> 'c def_node option) \<Rightarrow> nat \<Rightarrow> nat \<Rightarrow> 'c def_node \<Rightarrow> 'c def_node" where
  "filled mk next j d = DefNode (d_class d) (d_tlv d) (d_session d) (d_link d) (d_choice d)
     (map (\<lambda>i. if next \<le> i \<and> i < j then kid_of mk d i else d_kids d ! i) [0..<length (d_kids d)])"

lemma filled_sel [simp]:
  "d_class (filled mk n j d) = d_class d" "d_tlv (filled mk n j d) = d_tlv d" "d_session (filled mk n j d) = d_session d"
  "d_link (filled mk n j d) = d_link d" "d_choice (filled mk n j d) = d_choice d" "length (d_kids (filled mk n j d)) = length (d_kids d)"
  "i < length (d_kids d) \<Longrightarrow> d_kids (filled mk n j d) ! i = (if n \<le> i \<and> i < j then kid_of mk d i else d_kids d ! i)"
  by (simp_all add: filled_def)

lemma filled_none [simp]: "filled mk j j d = d"
  by (cases d) (simp add: filled_def, rule nth_equalityI, auto)

lemma kid_of_put [simp]: "i \<noteq> j \<Longrightarrow> kid_of mk (put_opt j x d) i = kid_of mk d i"
  by (simp add: kid_of_def split: option.split)

lemma filled_step: "n < j \<Longrightarrow> filled mk (Suc n) j (put_opt n (kid_of mk d n) d) = filled mk n j d"
  by (auto simp: filled_def nth_list_update not_less_eq_eq dest: le_antisym)

lemma try_skip:
  "n \<le> j \<Longrightarrow> j < length (d_kids d) \<Longrightarrow> (\<And>i k. n \<le> i \<Longrightarrow> i < j \<Longrightarrow> kid_of mk d i = Some k \<Longrightarrow> \<not> takes t k) \<Longrightarrow>
   \<exists>m'. try_kids mk s t slot [n..<length (d_kids d)] d m = try_kids mk s t slot [j..<length (d_kids d)] (filled mk n j d) m'"
proof (induction "j - n" arbitrary: n d m)
  case 0
  then show ?case by auto
next
  case (Suc x)
  then have n: "n < j" "x = j - Suc n" by simp_all
  let ?d = "put_opt n (kid_of mk d n) d"
  have u: "[n..<length (d_kids d)] = n # [Suc n..<length (d_kids d)]" using n Suc.prems(2) by (simp add: upt_conv_Cons)
  have at: "d_kids ?d ! n = kid_of mk d n" using n Suc.prems(2) by simp
  have "\<exists>m'. try_kids mk s t slot [n..<length (d_kids d)] d m = try_kids mk s t slot [Suc n..<length (d_kids d)] ?d m'"
  proof (cases "kid_of mk d n")
    case None
    with at show ?thesis unfolding u try_kids.simps create_put Let_def by auto
  next
    case (Some k)
    then have "\<not> takes t k" using Suc.prems(3) n by auto
    then show ?thesis using at Some unfolding u try_kids.simps create_put Let_def by (auto simp: takes_def tags_def split: if_splits)
  qed
  then obtain m' where m': "try_kids mk s t slot [n..<length (d_kids d)] d m = try_kids mk s t slot [Suc n..<length (d_kids ?d)] ?d m'"
    by auto
  have "\<exists>m''. try_kids mk s t slot [Suc n..<length (d_kids ?d)] ?d m'
      = try_kids mk s t slot [j..<length (d_kids ?d)] (filled mk (Suc n) j ?d) m''"
  proof (rule Suc.hyps(1) [OF n(2)])
    fix i k assume "Suc n \<le> i" "i < j" "kid_of mk ?d i = Some k"
    then show "\<not> takes t k" using Suc.prems(3) [of i k] by simp
  qed (use n Suc.prems in simp_all)
  then show ?case using m' by (simp add: filled_step [OF n(1)])
qed

lemma try_here:
  assumes "j < length (d_kids d)" and "kid_of mk d j = Some k" and "uni_tag_class (d_tlv d) \<noteq> CHOICE"
    and "fst (expected_tag t (d_tlv k)) \<noteq> CHOICE" and "expected_tag t (d_tlv k) = tags t"
  shows "try_kids mk s t slot [j..<length (d_kids d)] d m = Some (put_def j (link_to s slot k) d, Some [j], Some (j, Itself))"
proof -
  have u: "[j..<length (d_kids d)] = j # [Suc j..<length (d_kids d)]" using assms(1) by (simp add: upt_conv_Cons)
  have "found s t slot [j] (put_opt j (Some k) d) = put_def j (link_to s slot k) d"
    using assms(1,3) by (simp add: found_def put_def_def put_opt_def)
  then show ?thesis
    unfolding u try_kids.simps create_put Let_def using assms by (simp add: tags_def)
qed

lemma try_choice:
  assumes "j < length (d_kids d)" and "kid_of mk d j = Some k" and "uni_tag_class (d_tlv d) \<noteq> CHOICE"
    and "fst (expected_tag t (d_tlv k)) = CHOICE" and "resolve_choice t k = Some (Some [i])"
    and "i < length (d_kids k)" and "d_kids k ! i = Some a"
  shows "try_kids mk s t slot [j..<length (d_kids d)] d m
    = Some (put_def j (put_def i (link_to s slot a) (set_choice s t [i] k)) d, Some [j, i], Some (j, Choice_child))"
proof -
  have u: "[j..<length (d_kids d)] = j # [Suc j..<length (d_kids d)]" using assms(1) by (simp add: upt_conv_Cons)
  have "found s t slot [j, i] (put_def j (set_choice s t [i] k) (put_opt j (Some k) d))
      = put_def j (put_def i (link_to s slot a) (set_choice s t [i] k)) d"
    using assms(1,3,6,7) by (simp add: found_def put_def_def put_opt_def)
  then show ?thesis
    unfolding u try_kids.simps create_put Let_def using assms by simp
qed

end
