(* ===== verification/BerSeen.thy ===== *)
theory BerSeen
  imports BerValue
begin

text \<open>
  Linking the elements of a value makes the definition show that value. The interface is what the decoder needs
  of the classes of a definition: the nodes they make are in no session.
\<close>

section \<open>Nodes without a session\<close>

lemma quiet_kids_iff: "quiet_kids s ks \<longleftrightarrow> (\<forall>k. Some k \<in> set ks \<longrightarrow> quiet s k)"
proof (induction ks)
  case (Cons k ks)
  then show ?case by (cases k) auto
qed simp

lemma quiet_iff: "quiet s d \<longleftrightarrow> d_session d \<noteq> s \<and> quiet_kids s (d_kids d)"
  by (cases d) simp

lemma quiet_append [simp]: "quiet_kids s (as @ bs) \<longleftrightarrow> quiet_kids s as \<and> quiet_kids s bs"
  by (auto simp: quiet_kids_iff)

lemma quiet_nth: "quiet_kids s ks \<Longrightarrow> j < length ks \<Longrightarrow> ks ! j = Some k \<Longrightarrow> quiet s k"
  by (metis nth_mem quiet_kids_iff)

lemma quiet_drop: "quiet_kids s ks \<Longrightarrow> quiet_kids s (drop n ks)"
  by (auto simp: quiet_kids_iff dest: in_set_dropD)

locale asn1_schema =
  fixes mk :: "'c \<Rightarrow> nat \<Rightarrow> 'c def_node option" and grow :: "'c \<Rightarrow> 'c def_node option"
  assumes made_quiet: "s \<noteq> 0 \<Longrightarrow> mk c j = Some k \<Longrightarrow> quiet s k"
    and grown_quiet: "s \<noteq> 0 \<Longrightarrow> grow c = Some k \<Longrightarrow> quiet s k"

section \<open>One element\<close>

fun looks :: "octets \<Rightarrow> (nat \<Rightarrow> octets option) \<Rightarrow> ber_node \<Rightarrow> bool" where
  "looks mem look (BerNode t a n ks) \<longleftrightarrow> look n = Some (take (unat (value_length t)) (drop (value_at t) mem)) \<and>
     list_all (looks mem look) ks"

text \<open>The rest of a message is linked below a node, and the node then has a property.\<close>

definition inner :: "('c \<Rightarrow> nat \<Rightarrow> 'c def_node option) \<Rightarrow> ('c \<Rightarrow> 'c def_node option) \<Rightarrow> u64 \<Rightarrow> ber_node \<Rightarrow> 'c def_node
    \<Rightarrow> ('c def_node \<Rightarrow> bool) \<Rightarrow> bool" where
  "inner mk grow s e k P \<longleftrightarrow> (\<exists>x ns. link_nodes mk grow s (n_kids e) (Some (link_to s (n_node e) k)) None 0 = Some (Some x, ns) \<and> P x)"

text \<open>An element enters a definition at a child, and the child then has a property.\<close>

definition enters :: "('c \<Rightarrow> nat \<Rightarrow> 'c def_node option) \<Rightarrow> ('c \<Rightarrow> 'c def_node option) \<Rightarrow> u64 \<Rightarrow> ber_node \<Rightarrow> 'c def_node
    \<Rightarrow> ('c def_node \<Rightarrow> bool) \<Rightarrow> bool" where
  "enters mk grow s e k P \<longleftrightarrow> (\<exists>k' q how x0 x ns. (\<forall>d j m. j < length (d_kids d) \<longrightarrow> kid_of mk d j = Some k \<longrightarrow>
       uni_tag_class (d_tlv d) \<noteq> CHOICE \<longrightarrow> try_kids mk s (with_old (n_tlv e)) (n_node e) [j..<length (d_kids d)] d m
         = Some (put_def j k' d, Some (j # q), Some (j, how))) \<and>
     def_at q k' = Some x0 \<and> link_nodes mk grow s (n_kids e) (Some x0) None 0 = Some (Some x, ns) \<and>
     P (change_def q (\<lambda>_. x) k'))"

lemma enters_mono: "enters mk grow s e k P \<Longrightarrow> (\<And>y. P y \<Longrightarrow> Q y) \<Longrightarrow> enters mk grow s e k Q"
  unfolding enters_def by blast

lemma matches_tags: "matches mem b e \<Longrightarrow> tags (with_old (n_tlv e)) = tags (ber_tlv b)"
  by (cases "(mem, b, e)" rule: matches.cases) (auto simp: tags_def with_old_def)

lemma inner_enters:
  assumes "inner mk grow s e k P" and "plain_head k"
    and "tags (with_old (n_tlv e)) = expected_tag new_tlv (d_tlv k)"
  shows "enters mk grow s e k P"
proof -
  obtain x ns where x: "link_nodes mk grow s (n_kids e) (Some (link_to s (n_node e) k)) None 0 = Some (Some x, ns)" "P x"
    using assms(1) by (auto simp: inner_def)
  have e: "expected_tag (with_old (n_tlv e)) (d_tlv k) = expected_tag new_tlv (d_tlv k)"
    using assms(2) by (simp add: expected_tag_def plain_head_def)
  have "fst (expected_tag (with_old (n_tlv e)) (d_tlv k)) \<noteq> CHOICE" "expected_tag (with_old (n_tlv e)) (d_tlv k) = tags (with_old (n_tlv e))"
    using assms(2,3) by (simp_all add: e plain_head_def)
  note h = this
  let ?k = "link_to s (n_node e) k"
  show ?thesis
    unfolding enters_def
  proof (rule exI [of _ ?k], rule exI [of _ "[]"], rule exI [of _ Itself], rule exI [of _ ?k], rule exI [of _ x], rule exI [of _ ns], intro conjI allI impI)
    fix d j m
    assume "j < length (d_kids d)" "kid_of mk d j = Some k" "uni_tag_class (d_tlv d) \<noteq> CHOICE"
    then show "try_kids mk s (with_old (n_tlv e)) (n_node e) [j..<length (d_kids d)] d m = Some (put_def j ?k d, Some [j], Some (j, Itself))"
      by (rule try_here) (rule h)+
  qed (use x in simp_all)
qed

lemma choice_enters:
  assumes "inner mk grow s e a P" and "tag_value (d_tlv k) = UNKNOWN_UNIVERSAL_TAG" and "uni_tag_class (d_tlv k) = CHOICE"
    and "i < length (d_kids k)" and "d_kids k ! i = Some a" and "resolve_choice (with_old (n_tlv e)) k = Some (Some [i])"
  shows "enters mk grow s e k (\<lambda>y. \<exists>x. P x \<and> y = put_def i x (set_choice s (with_old (n_tlv e)) [i] k))"
proof -
  obtain x ns where x: "link_nodes mk grow s (n_kids e) (Some (link_to s (n_node e) a)) None 0 = Some (Some x, ns)" "P x"
    using assms(1) by (auto simp: inner_def)
  let ?k = "put_def i (link_to s (n_node e) a) (set_choice s (with_old (n_tlv e)) [i] k)"
  have c: "fst (expected_tag (with_old (n_tlv e)) (d_tlv k)) = CHOICE" using assms(2,3) by (simp add: expected_tag_def)
  show ?thesis
    unfolding enters_def
  proof (rule exI [of _ ?k], rule exI [of _ "[i]"], rule exI [of _ Choice_child], rule exI [of _ "link_to s (n_node e) a"], rule exI [of _ x], rule exI [of _ ns], intro conjI allI impI)
    fix d j m
    assume "j < length (d_kids d)" "kid_of mk d j = Some k" "uni_tag_class (d_tlv d) \<noteq> CHOICE"
    then show "try_kids mk s (with_old (n_tlv e)) (n_node e) [j..<length (d_kids d)] d m = Some (put_def j ?k d, Some [j, i], Some (j, Choice_child))"
      by (rule try_choice) (use c assms in simp_all)
  next
    show "def_at [i] ?k = Some (link_to s (n_node e) a)" using assms(4) by simp
    have "change_def [i] (\<lambda>_. x) ?k = put_def i x (set_choice s (with_old (n_tlv e)) [i] k)"
      using assms(4) by (simp add: put_def_def)
    then show "\<exists>y. P y \<and> change_def [i] (\<lambda>_. x) ?k = put_def i y (set_choice s (with_old (n_tlv e)) [i] k)"
      using x(2) by blast
  qed (rule x(1))
qed

text \<open>The walk over one element and on with the next ones.\<close>

lemma walk_one:
  assumes e: "enters mk grow s e k P"
    and c1: "c1 = (if unlimited_size (d_tlv c) then get_next_node grow n c else c)"
    and j: "n \<le> j" "j < length (d_kids c1)" "kid_of mk c1 j = Some k"
    and skip: "\<And>i x. n \<le> i \<Longrightarrow> i < j \<Longrightarrow> kid_of mk c1 i = Some x \<Longrightarrow> \<not> takes (with_old (n_tlv e)) x"
    and u: "uni_tag_class (d_tlv c) \<noteq> CHOICE" "uni_tag_class (d_tlv c) = SET_TAG \<longrightarrow> unlimited_size (d_tlv c)"
  shows "\<exists>y q nm. P y \<and> (\<forall>es. link_nodes mk grow s (e # es) (Some c) m n
     = map_option (\<lambda>(d, ns). (d, nm # ns)) (link_nodes mk grow s es (Some (put_def j y (filled mk n j c1))) (Some q) (Suc j)))"
proof -
  obtain k' q how x0 x ns where
    try_it: "\<And>d j m. j < length (d_kids d) \<Longrightarrow> kid_of mk d j = Some k \<Longrightarrow> uni_tag_class (d_tlv d) \<noteq> CHOICE \<Longrightarrow>
       try_kids mk s (with_old (n_tlv e)) (n_node e) [j..<length (d_kids d)] d m = Some (put_def j k' d, Some (j # q), Some (j, how))"
    and sub: "def_at q k' = Some x0" "link_nodes mk grow s (n_kids e) (Some x0) None 0 = Some (Some x, ns)"
    and p: "P (change_def q (\<lambda>_. x) k')"
    using e unfolding enters_def by blast
  let ?F = "filled mk n j c1" and ?t = "with_old (n_tlv e)"
  have tl: "d_tlv c1 = d_tlv c" by (auto simp: c1 get_next_node_def split: option.split)
  obtain m' where m': "try_kids mk s ?t (n_node e) [n..<length (d_kids c1)] c1 m = try_kids mk s ?t (n_node e) [j..<length (d_kids c1)] ?F m'"
    using try_skip [of n j c1 mk ?t s "n_node e" m] j skip by blast
  have kf: "kid_of mk ?F j = Some k" using j(2,3) by (simp add: kid_of_def split: option.splits)
  have t: "try_kids mk s ?t (n_node e) [n..<length (d_kids c1)] c1 m = Some (put_def j k' ?F, Some (j # q), Some (j, how))"
    using try_it [of j ?F m'] j(2) kf u(1) tl m' by simp
  obtain nm lk where r: "match_defn mk grow s ?t (n_node e) (Some c) m n = Some \<lparr>mt_def = Some (put_def j k' ?F), mt_at = Some (j # q),
      mt_next = Suc j, mt_name = nm, mt_link = lk\<rparr>"
    using t u(2) by (auto simp: match_defn_def Let_def c1 [symmetric])
  have mt: "matched \<lparr>mt_def = Some (put_def j k' ?F), mt_at = Some (j # q), mt_next = Suc j, mt_name = nm, mt_link = lk\<rparr> = Some x0"
    using j(2) sub(1) by (simp add: matched_def)
  have pb: "put_back \<lparr>mt_def = Some (put_def j k' ?F), mt_at = Some (j # q), mt_next = Suc j, mt_name = nm, mt_link = lk\<rparr> (Some x)
      = Some (put_def j (change_def q (\<lambda>_. x) k') ?F)"
    using j(2) by (simp add: put_back_def put_def_def)
  obtain t0 a n0 ks where en: "e = BerNode t0 a n0 ks" by (cases e)
  have "link_nodes mk grow s (e # es) (Some c) m n = map_option (\<lambda>(d, nodes). (d, DecNode ?t a n0 nm lk ns # nodes))
      (link_nodes mk grow s es (Some (put_def j (change_def q (\<lambda>_. x) k') ?F)) (Some (j # q)) (Suc j))" for es
    using r mt pb sub(2)
    by (cases "link_nodes mk grow s es (Some (put_def j (change_def q (\<lambda>_. x) k') ?F)) (Some (j # q)) (Suc j)") (auto simp: en)
  then show ?thesis using p by blast
qed

end
