(* ===== verification/BerRead.thy ===== *)
theory BerRead
  imports BerSeen
begin

text \<open>
  Every value that a definition can hold is seen in it after its elements have been linked, whatever the definition
  held before.
\<close>

section \<open>All elements of a node\<close>

definition same_frame :: "'c def_node \<Rightarrow> 'c def_node \<Rightarrow> bool" where
  "same_frame d d' \<longleftrightarrow> d_class d' = d_class d \<and> d_tlv d' = d_tlv d \<and> d_session d' = d_session d \<and> d_link d' = d_link d"

lemma frame_refl [simp]: "same_frame d d"
  by (simp add: same_frame_def)

lemma frame_trans: "same_frame d d' \<Longrightarrow> same_frame d' d'' \<Longrightarrow> same_frame d d''"
  by (simp add: same_frame_def)

lemma frame_put [simp]: "same_frame d (put_def j x (filled mk n i d))"
  by (simp add: same_frame_def)

lemma frame_grown [simp]: "same_frame d (get_next_node grow i d)"
  by (auto simp: same_frame_def get_next_node_def split: option.split)

lemma linked_frame: "same_frame (link_to s n k) d \<Longrightarrow> linked s d"
  by (simp add: same_frame_def linked_def)

lemma drop_same:
  assumes "drop i xs = drop i ys" and "i \<le> j"
  shows "drop j xs = drop j ys"
  by (metis assms drop_drop le_add_diff_inverse2)

lemma drop_nth_same:
  assumes "drop i xs = drop i ys" and "i \<le> j"
  shows "(j < length xs) = (j < length ys)" "j < length xs \<Longrightarrow> xs ! j = ys ! j"
proof -
  have d: "drop j xs = drop j ys" by (rule drop_same [OF assms])
  then have "length xs - j = length ys - j" by (metis length_drop)
  then show "(j < length xs) = (j < length ys)" by linarith
  show "xs ! j = ys ! j" if "j < length xs"
    using d that by (metis hd_drop_conv_nth drop_eq_Nil2 not_less)
qed

lemma take_nth_same: "take n xs = take n ys \<Longrightarrow> i < n \<Longrightarrow> i < length xs \<Longrightarrow> i < length ys \<Longrightarrow> xs ! i = ys ! i"
  by (metis nth_take)

context asn1_schema
begin

lemma kid_quiet: "s \<noteq> 0 \<Longrightarrow> quiet_kids s (drop n (d_kids d)) \<Longrightarrow> n \<le> j \<Longrightarrow> j < length (d_kids d) \<Longrightarrow> kid_of mk d j = Some k \<Longrightarrow> quiet s k"
  using quiet_nth [of s "drop n (d_kids d)" "j - n" k] made_quiet
  by (auto simp: kid_of_def bind_eq_Some_conv split: option.splits)

lemma filled_quiet:
  assumes "s \<noteq> 0" and "quiet_kids s (drop n (d_kids d))" and "n \<le> j" and "j \<le> length (d_kids d)"
  shows "quiet_kids s (take (j - n) (drop n (d_kids (filled mk n j d))))" "quiet_kids s (drop j (d_kids (filled mk n j d)))"
    "take n (d_kids (filled mk n j d)) = take n (d_kids d)" "drop j (d_kids (filled mk n j d)) = drop j (d_kids d)"
proof -
  show t: "take n (d_kids (filled mk n j d)) = take n (d_kids d)"
    using assms(3,4) by (intro nth_equalityI) simp_all
  show d: "drop j (d_kids (filled mk n j d)) = drop j (d_kids d)"
    using assms(3,4) by (intro nth_equalityI) simp_all
  show "quiet_kids s (drop j (d_kids (filled mk n j d)))"
    unfolding d using quiet_drop [OF assms(2), of "j - n"] assms(3) by simp
  show "quiet_kids s (take (j - n) (drop n (d_kids (filled mk n j d))))"
    unfolding quiet_kids_iff
  proof (intro allI impI)
    fix k assume "Some k \<in> set (take (j - n) (drop n (d_kids (filled mk n j d))))"
    then obtain i where i: "i < j - n" "n + i < length (d_kids d)" "d_kids (filled mk n j d) ! (n + i) = Some k"
      using assms(4) by (auto simp: in_set_conv_nth)
    then have "kid_of mk d (n + i) = Some k" by (simp split: if_splits)
    then show "quiet s k" using kid_quiet [of s n d "n + i" k] assms i by simp
  qed
qed

definition value_enters :: "octets \<Rightarrow> (nat \<Rightarrow> octets option) \<Rightarrow> u64 \<Rightarrow> asn1_val \<Rightarrow> 'c def_node \<Rightarrow> bool" where
  "value_enters mem look s v k \<longleftrightarrow> (\<forall>b e. ber_of mk grow v k = Some b \<longrightarrow> quiet s k \<longrightarrow> matches mem b e \<longrightarrow> looks mem look e \<longrightarrow>
     (plain_head k \<longrightarrow> inner mk grow s e k (seen s look v)) \<and> enters mk grow s e k (seen s look v))"

definition seq_enters :: "octets \<Rightarrow> (nat \<Rightarrow> octets option) \<Rightarrow> u64 \<Rightarrow> asn1_val option list \<Rightarrow> nat \<Rightarrow> 'c def_node \<Rightarrow> bool" where
  "seq_enters mem look s vs i d \<longleftrightarrow> (\<forall>bs es c m n. ber_seq mk grow vs i d = Some bs \<longrightarrow> list_all2 (matches mem) bs es \<longrightarrow>
     list_all (looks mem look) es \<longrightarrow> d_class c = d_class d \<longrightarrow> drop i (d_kids c) = drop i (d_kids d) \<longrightarrow>
     length (d_kids c) = i + length vs \<longrightarrow> n \<le> i \<longrightarrow> quiet_kids s (drop n (d_kids c)) \<longrightarrow> \<not> unlimited_size (d_tlv c) \<longrightarrow>
     uni_tag_class (d_tlv c) \<noteq> CHOICE \<longrightarrow> uni_tag_class (d_tlv c) \<noteq> SET_TAG \<longrightarrow>
     (bs \<noteq> [] \<longrightarrow> (\<forall>j k. n \<le> j \<longrightarrow> j < i \<longrightarrow> kid_of mk c j = Some k \<longrightarrow> \<not> takes (ber_tlv (hd bs)) k)) \<longrightarrow>
     (\<exists>d' ns. link_nodes mk grow s es (Some c) m n = Some (Some d', ns) \<and> same_frame c d' \<and> length (d_kids d') = length (d_kids c) \<and>
        take n (d_kids d') = take n (d_kids c) \<and> quiet_kids s (take (i - n) (drop n (d_kids d'))) \<and>
        seen_seq s look vs (drop i (d_kids d'))))"

definition list_enters :: "octets \<Rightarrow> (nat \<Rightarrow> octets option) \<Rightarrow> u64 \<Rightarrow> asn1_val list \<Rightarrow> nat \<Rightarrow> 'c def_node \<Rightarrow> bool" where
  "list_enters mem look s vs i d \<longleftrightarrow> (\<forall>bs es c m. ber_list mk grow vs i d = Some bs \<longrightarrow> list_all2 (matches mem) bs es \<longrightarrow>
     list_all (looks mem look) es \<longrightarrow> d_class c = d_class d \<longrightarrow> drop i (d_kids c) = drop i (d_kids d) \<longrightarrow>
     i \<le> length (d_kids c) \<longrightarrow> quiet_kids s (drop i (d_kids c)) \<longrightarrow> unlimited_size (d_tlv c) \<longrightarrow> uni_tag_class (d_tlv c) \<noteq> CHOICE \<longrightarrow>
     (\<exists>d' ns. link_nodes mk grow s es (Some c) m i = Some (Some d', ns) \<and> same_frame c d' \<and>
        take i (d_kids d') = take i (d_kids c) \<and> i \<le> length (d_kids d') \<and> seen_of s look vs (drop i (d_kids d'))))"

lemma prim_enters: "value_enters mem look s (VPrim os) k"
  unfolding value_enters_def
proof (intro allI impI)
  fix b e
  assume b: "ber_of mk grow (VPrim os) k = Some b" and m: "matches mem b e" and l: "looks mem look e"
  obtain t a n ks where e: "e = BerNode t a n ks" by (cases e)
  have h: "plain_head k" "b = BPrim (snd (expected_tag new_tlv (d_tlv k))) (fst (expected_tag new_tlv (d_tlv k))) os"
    using b by (auto split: if_splits)
  have i: "inner mk grow s e k (seen s look (VPrim os))"
    using m l unfolding inner_def by (intro exI [of _ "link_to s n k"] exI [of _ "[]"]) (auto simp: e h(2))
  have "tags (with_old (n_tlv e)) = expected_tag new_tlv (d_tlv k)" using matches_tags [OF m] by (simp add: h(2) tags_def)
  then show "(plain_head k \<longrightarrow> inner mk grow s e k (seen s look (VPrim os))) \<and> enters mk grow s e k (seen s look (VPrim os))"
    using i inner_enters [OF i h(1)] by blast
qed

lemma seq_value_enters:
  assumes "seq_enters mem look s vs 0 k"
  shows "value_enters mem look s (VSeq vs) k"
  unfolding value_enters_def
proof (intro allI impI)
  fix b e
  assume b: "ber_of mk grow (VSeq vs) k = Some b" and q: "quiet s k" and m: "matches mem b e" and l: "looks mem look e"
  obtain t a n ks where e: "e = BerNode t a n ks" by (cases e)
  obtain bs where h: "plain_head k" "\<not> unlimited_size (d_tlv k)" "uni_tag_class (d_tlv k) \<noteq> SET_TAG" "length vs = length (d_kids k)"
      "ber_seq mk grow vs 0 k = Some bs" "b = BCons (snd (expected_tag new_tlv (d_tlv k))) (fst (expected_tag new_tlv (d_tlv k))) bs"
    using b by (auto split: if_splits)
  have u: "uni_tag_class (d_tlv k) \<noteq> CHOICE" using h(1) by (simp add: plain_head_def)
  have ks: "list_all2 (matches mem) bs ks" "list_all (looks mem look) ks" using m l by (simp_all add: e h(6))
  obtain d' ns where d': "link_nodes mk grow s ks (Some (link_to s n k)) None 0 = Some (Some d', ns)" "same_frame (link_to s n k) d'"
      "seen_seq s look vs (drop 0 (d_kids d'))"
    using assms [unfolded seq_enters_def, rule_format, of bs ks "link_to s n k" 0 None] h(2-5) u ks q by (auto simp: quiet_iff)
  have "seen s look (VSeq vs) d'" using d'(3) linked_frame [OF d'(2)] by simp
  then have i: "inner mk grow s e k (seen s look (VSeq vs))" using d'(1) by (auto simp: inner_def e)
  have "tags (with_old (n_tlv e)) = expected_tag new_tlv (d_tlv k)" using matches_tags [OF m] by (simp add: h(6) tags_def)
  then show "(plain_head k \<longrightarrow> inner mk grow s e k (seen s look (VSeq vs))) \<and> enters mk grow s e k (seen s look (VSeq vs))"
    using i inner_enters [OF i h(1)] by blast
qed

lemma list_value_enters:
  assumes "list_enters mem look s vs 0 k"
  shows "value_enters mem look s (VOf vs) k"
  unfolding value_enters_def
proof (intro allI impI)
  fix b e
  assume b: "ber_of mk grow (VOf vs) k = Some b" and q: "quiet s k" and m: "matches mem b e" and l: "looks mem look e"
  obtain t a n ks where e: "e = BerNode t a n ks" by (cases e)
  obtain bs where h: "plain_head k" "unlimited_size (d_tlv k)" "ber_list mk grow vs 0 k = Some bs"
      "b = BCons (snd (expected_tag new_tlv (d_tlv k))) (fst (expected_tag new_tlv (d_tlv k))) bs"
    using b by (auto split: if_splits)
  have u: "uni_tag_class (d_tlv k) \<noteq> CHOICE" using h(1) by (simp add: plain_head_def)
  have ks: "list_all2 (matches mem) bs ks" "list_all (looks mem look) ks" using m l by (simp_all add: e h(4))
  obtain d' ns where d': "link_nodes mk grow s ks (Some (link_to s n k)) None 0 = Some (Some d', ns)" "same_frame (link_to s n k) d'"
      "seen_of s look vs (drop 0 (d_kids d'))"
    using assms [unfolded list_enters_def, rule_format, of bs ks "link_to s n k" None] h(2,3) u ks q by (auto simp: quiet_iff)
  have "seen s look (VOf vs) d'" using d'(3) linked_frame [OF d'(2)] by simp
  then have i: "inner mk grow s e k (seen s look (VOf vs))" using d'(1) by (auto simp: inner_def e)
  have "tags (with_old (n_tlv e)) = expected_tag new_tlv (d_tlv k)" using matches_tags [OF m] by (simp add: h(4) tags_def)
  then show "(plain_head k \<longrightarrow> inner mk grow s e k (seen s look (VOf vs))) \<and> enters mk grow s e k (seen s look (VOf vs))"
    using i inner_enters [OF i h(1)] by blast
qed

lemma choice_value_enters:
  assumes "\<And>a. i < length (d_kids k) \<Longrightarrow> d_kids k ! i = Some a \<Longrightarrow> value_enters mem look s v a"
  shows "value_enters mem look s (VChoice i v) k"
  unfolding value_enters_def
proof (intro allI impI)
  fix b e
  assume b: "ber_of mk grow (VChoice i v) k = Some b" and q: "quiet s k" and m: "matches mem b e" and l: "looks mem look e"
  obtain a where h: "tag_value (d_tlv k) = UNKNOWN_UNIVERSAL_TAG" "uni_tag_class (d_tlv k) = CHOICE" "i < length (d_kids k)"
      "d_kids k ! i = Some a" "ber_of mk grow v a = Some b" "plain_head a" "resolve_choice (ber_tlv b) k = Some (Some [i])"
    using b by (auto simp: bind_eq_Some_conv split: if_splits)
  have "quiet s a" using q quiet_nth [of s "d_kids k" i a] h(3,4) by (simp add: quiet_iff)
  then have a: "inner mk grow s e a (seen s look v)"
    using assms [OF h(3,4)] h(5,6) m l unfolding value_enters_def by blast
  have r: "resolve_choice (with_old (n_tlv e)) k = Some (Some [i])"
    using resolve_tags(1) [OF matches_tags [OF m], of k] h(7) by simp
  have "Some x \<in> set (d_kids k)" if "Some x \<in> set ((d_kids k)[i := None])" for x
    using subsetD [OF set_update_subset_insert that] by simp
  moreover have "quiet_kids s (d_kids k)" using q quiet_iff by blast
  ultimately have "quiet_kids s ((d_kids k)[i := None])" unfolding quiet_kids_iff by blast
  then have "seen s look (VChoice i v) y" if "\<exists>x. seen s look v x \<and> y = put_def i x (set_choice s (with_old (n_tlv e)) [i] k)" for y
    using that h(3) by auto
  then have "enters mk grow s e k (seen s look (VChoice i v))"
    by (rule enters_mono [OF choice_enters [OF a h(1-4) r]])
  moreover have "\<not> plain_head k" using h(1,2) by (simp add: plain_head_def)
  ultimately show "(plain_head k \<longrightarrow> inner mk grow s e k (seen s look (VChoice i v))) \<and> enters mk grow s e k (seen s look (VChoice i v))"
    by blast
qed

lemma seq_none:
  assumes ih: "seq_enters mem look s vs (Suc i) d" and s: "s \<noteq> 0"
  shows "seq_enters mem look s (None # vs) i d"
  unfolding seq_enters_def
proof (intro allI impI)
  fix bs es c m n
  assume b: "ber_seq mk grow (None # vs) i d = Some bs" and ms: "list_all2 (matches mem) bs es" and ls: "list_all (looks mem look) es"
    and c: "d_class c = d_class d" "drop i (d_kids c) = drop i (d_kids d)" "length (d_kids c) = i + length (None # vs)"
    and n: "n \<le> i" "quiet_kids s (drop n (d_kids c))"
    and u: "\<not> unlimited_size (d_tlv c)" "uni_tag_class (d_tlv c) \<noteq> CHOICE" "uni_tag_class (d_tlv c) \<noteq> SET_TAG"
    and sk: "bs \<noteq> [] \<longrightarrow> (\<forall>j k. n \<le> j \<longrightarrow> j < i \<longrightarrow> kid_of mk c j = Some k \<longrightarrow> \<not> takes (ber_tlv (hd bs)) k)"
  have i: "i < length (d_kids c)" using c(3) by simp
  have k: "kid_of mk c i = kid_of mk d i" using drop_nth_same(2) [OF c(2), of i] i c(1) by (simp add: kid_of_def split: option.split)
  have b': "ber_seq mk grow vs (Suc i) d = Some bs" "bs \<noteq> [] \<Longrightarrow> kid_of mk d i = Some x \<Longrightarrow> \<not> takes (ber_tlv (hd bs)) x" for x
    using b by (auto simp: bind_eq_Some_conv split: if_splits option.splits)
  have sk': "bs \<noteq> [] \<longrightarrow> (\<forall>j k. n \<le> j \<longrightarrow> j < Suc i \<longrightarrow> kid_of mk c j = Some k \<longrightarrow> \<not> takes (ber_tlv (hd bs)) k)"
    using sk b'(2) k by (auto simp: less_Suc_eq)
  obtain d' ns where d': "link_nodes mk grow s es (Some c) m n = Some (Some d', ns)" "same_frame c d'" "length (d_kids d') = length (d_kids c)"
      "take n (d_kids d') = take n (d_kids c)" "quiet_kids s (take (Suc i - n) (drop n (d_kids d')))" "seen_seq s look vs (drop (Suc i) (d_kids d'))"
    using ih [unfolded seq_enters_def, rule_format, OF b'(1) ms ls c(1) drop_same [OF c(2)], of n m] c(3) n u sk' by auto
  have t: "take (Suc i - n) (drop n (d_kids d')) = take (i - n) (drop n (d_kids d')) @ [d_kids d' ! i]"
    using n(1) i d'(3) by (simp add: Suc_diff_le take_Suc_conv_app_nth)
  have "drop i (d_kids d') = d_kids d' ! i # drop (Suc i) (d_kids d')" using i d'(3) by (simp add: Cons_nth_drop_Suc)
  then have "seen_seq s look (None # vs) (drop i (d_kids d'))" using d'(5,6) by (simp add: t)
  then show "\<exists>d' ns. link_nodes mk grow s es (Some c) m n = Some (Some d', ns) \<and> same_frame c d' \<and> length (d_kids d') = length (d_kids c) \<and>
        take n (d_kids d') = take n (d_kids c) \<and> quiet_kids s (take (i - n) (drop n (d_kids d'))) \<and> seen_seq s look (None # vs) (drop i (d_kids d'))"
    using d' by (intro exI [of _ d'] exI [of _ ns]) (simp add: t)
qed

lemma seq_some:
  assumes v: "\<And>k. kid_of mk d i = Some k \<Longrightarrow> value_enters mem look s v k" and ih: "seq_enters mem look s vs (Suc i) d" and s: "s \<noteq> 0"
  shows "seq_enters mem look s (Some v # vs) i d"
  unfolding seq_enters_def
proof (intro allI impI)
  fix bs es c m n
  assume b: "ber_seq mk grow (Some v # vs) i d = Some bs" and ms: "list_all2 (matches mem) bs es" and ls: "list_all (looks mem look) es"
    and c: "d_class c = d_class d" "drop i (d_kids c) = drop i (d_kids d)" "length (d_kids c) = i + length (Some v # vs)"
    and n: "n \<le> i" "quiet_kids s (drop n (d_kids c))"
    and u: "\<not> unlimited_size (d_tlv c)" "uni_tag_class (d_tlv c) \<noteq> CHOICE" "uni_tag_class (d_tlv c) \<noteq> SET_TAG"
    and sk: "bs \<noteq> [] \<longrightarrow> (\<forall>j k. n \<le> j \<longrightarrow> j < i \<longrightarrow> kid_of mk c j = Some k \<longrightarrow> \<not> takes (ber_tlv (hd bs)) k)"
  have i: "i < length (d_kids c)" using c(3) by simp
  obtain k b0 bs' where b': "kid_of mk d i = Some k" "ber_of mk grow v k = Some b0" "ber_seq mk grow vs (Suc i) d = Some bs'" "bs = b0 # bs'"
    using b by (auto simp: bind_eq_Some_conv)
  obtain e es' where e: "es = e # es'" "matches mem b0 e" "list_all2 (matches mem) bs' es'" "looks mem look e" "list_all (looks mem look) es'"
    using ms ls by (auto simp: b'(4) list_all2_Cons1)
  have k: "kid_of mk c i = Some k" using drop_nth_same(2) [OF c(2), of i] i c(1) b'(1) by (simp add: kid_of_def split: option.splits)
  have q: "quiet s k" by (rule kid_quiet [OF s n(2,1) i k])
  have en: "enters mk grow s e k (seen s look v)" using v [OF b'(1)] b'(2) q e(2,4) unfolding value_enters_def by blast
  have tk: "\<not> takes (with_old (n_tlv e)) x" if "n \<le> j" "j < i" "kid_of mk c j = Some x" for j x
    using sk that takes_tags [OF matches_tags [OF e(2)], of x] by (simp add: b'(4))
  obtain y q nm where y: "seen s look v y" and w: "\<And>es. link_nodes mk grow s (e # es) (Some c) m n
      = map_option (\<lambda>(d, ns). (d, nm # ns)) (link_nodes mk grow s es (Some (put_def i y (filled mk n i c))) (Some q) (Suc i))"
    using walk_one [OF en, of c c n i m] n(1) i k tk u by auto
  let ?c = "put_def i y (filled mk n i c)"
  note f = filled_quiet [OF s n(2,1) less_imp_le [OF i]]
  have dr: "drop (Suc i) (d_kids ?c) = drop (Suc i) (d_kids c)"
    using drop_same [OF f(4), of "Suc i"] by simp
  have qd: "quiet_kids s (drop (Suc i) (d_kids ?c))"
    unfolding dr using quiet_drop [OF n(2), of "Suc i - n"] n(1) by (simp add: Suc_diff_le)
  obtain d' ns where d': "link_nodes mk grow s es' (Some ?c) (Some q) (Suc i) = Some (Some d', ns)" "same_frame ?c d'"
      "length (d_kids d') = length (d_kids ?c)" "take (Suc i) (d_kids d') = take (Suc i) (d_kids ?c)" "seen_seq s look vs (drop (Suc i) (d_kids d'))"
    using ih [unfolded seq_enters_def, rule_format, OF b'(3) e(3,5), of ?c "Suc i" "Some q"] drop_same [OF c(2), of "Suc i"] c(1,3) qd u dr
    by auto
  have at: "d_kids d' ! i = Some y" using take_nth_same [OF d'(4), of i] i d'(3) by simp
  have "drop i (d_kids d') = d_kids d' ! i # drop (Suc i) (d_kids d')" using i d'(3) by (simp add: Cons_nth_drop_Suc)
  then have sn: "seen_seq s look (Some v # vs) (drop i (d_kids d'))" using y d'(5) at by simp
  have ti: "take i (d_kids d') = take i (d_kids (filled mk n i c))"
    using arg_cong [OF d'(4), of "take i"] by (simp add: min_def)
  have "take n (d_kids d') = take n (d_kids c)" using arg_cong [OF ti, of "take n"] f(3) n(1) by (simp add: min_def)
  moreover have "take (i - n) (drop n (d_kids d')) = take (i - n) (drop n (d_kids (filled mk n i c)))"
    using arg_cong [OF ti, of "drop n"] by (simp add: drop_take)
  moreover have "same_frame c d'" by (rule frame_trans [OF frame_put d'(2)])
  ultimately show "\<exists>d' ns. link_nodes mk grow s es (Some c) m n = Some (Some d', ns) \<and> same_frame c d' \<and> length (d_kids d') = length (d_kids c) \<and>
        take n (d_kids d') = take n (d_kids c) \<and> quiet_kids s (take (i - n) (drop n (d_kids d'))) \<and> seen_seq s look (Some v # vs) (drop i (d_kids d'))"
    using d'(1,3) f(1) sn by (intro exI [of _ d'] exI [of _ "nm # ns"]) (simp add: e(1) w)
qed

lemma list_nil: "list_enters mem look s [] i d"
  by (auto simp: list_enters_def)

lemma list_cons:
  assumes v: "\<And>k. elem_of mk grow d i = Some k \<Longrightarrow> value_enters mem look s v k" and ih: "list_enters mem look s vs (Suc i) d" and s: "s \<noteq> 0"
  shows "list_enters mem look s (v # vs) i d"
  unfolding list_enters_def
proof (intro allI impI)
  fix bs es c m
  assume b: "ber_list mk grow (v # vs) i d = Some bs" and ms: "list_all2 (matches mem) bs es" and ls: "list_all (looks mem look) es"
    and c: "d_class c = d_class d" "drop i (d_kids c) = drop i (d_kids d)" "i \<le> length (d_kids c)" "quiet_kids s (drop i (d_kids c))"
    and u: "unlimited_size (d_tlv c)" "uni_tag_class (d_tlv c) \<noteq> CHOICE"
  obtain k b0 bs' where b': "elem_of mk grow d i = Some k" "ber_of mk grow v k = Some b0" "ber_list mk grow vs (Suc i) d = Some bs'" "bs = b0 # bs'"
    using b by (auto simp: bind_eq_Some_conv)
  obtain e es' where e: "es = e # es'" "matches mem b0 e" "list_all2 (matches mem) bs' es'" "looks mem look e" "list_all (looks mem look) es'"
    using ms ls by (auto simp: b'(4) list_all2_Cons1)
  let ?c = "get_next_node grow i c"
  have ec: "elem_of mk grow c i = Some k"
    using drop_nth_same [OF c(2), of i] c(1) b'(1) by (auto simp: elem_of_def kid_of_def split: option.splits if_splits)
  have g: "i < length (d_kids ?c)" "kid_of mk ?c i = Some k" "take i (d_kids ?c) = take i (d_kids c)"
      "drop (Suc i) (d_kids ?c) = drop (Suc i) (d_kids c)"
    using ec c(3) by (auto simp: get_next_node_def elem_of_def kid_of_def split: option.splits if_splits)
  have q: "quiet s k"
  proof (cases "i < length (d_kids c)")
    case True
    then show ?thesis using kid_quiet [OF s c(4) order_refl True] ec by (simp add: elem_of_def)
  next
    case False
    then show ?thesis using grown_quiet [OF s] ec by (auto simp: elem_of_def bind_eq_Some_conv)
  qed
  have en: "enters mk grow s e k (seen s look v)" using v [OF b'(1)] b'(2) q e(2,4) unfolding value_enters_def by blast
  obtain y q nm where y: "seen s look v y" and w: "\<And>es. link_nodes mk grow s (e # es) (Some c) m i
      = map_option (\<lambda>(d, ns). (d, nm # ns)) (link_nodes mk grow s es (Some (put_def i y (filled mk i i ?c))) (Some q) (Suc i))"
    using walk_one [OF en, of ?c c i i m] g u by auto
  let ?d = "put_def i y ?c"
  have dr: "drop (Suc i) (d_kids ?d) = drop (Suc i) (d_kids c)" using g(4) by simp
  have qd: "quiet_kids s (drop (Suc i) (d_kids ?d))" unfolding dr using quiet_drop [OF c(4), of 1] by simp
  have cl: "d_class ?d = d_class d" "d_tlv ?d = d_tlv c"
    using c(1) frame_grown [of c grow i] by (simp_all add: same_frame_def)
  obtain d' ns where d': "link_nodes mk grow s es' (Some ?d) (Some q) (Suc i) = Some (Some d', ns)" "same_frame ?d d'"
      "take (Suc i) (d_kids d') = take (Suc i) (d_kids ?d)" "Suc i \<le> length (d_kids d')" "seen_of s look vs (drop (Suc i) (d_kids d'))"
    using ih [unfolded list_enters_def, rule_format, OF b'(3) e(3,5), of ?d "Some q"] drop_same [OF c(2), of "Suc i"] cl qd u dr g(1)
    by auto
  have at: "d_kids d' ! i = Some y" using take_nth_same [OF d'(3), of i] g(1) d'(4) by simp
  have "drop i (d_kids d') = d_kids d' ! i # drop (Suc i) (d_kids d')" using d'(4) by (simp add: Cons_nth_drop_Suc)
  then have sn: "seen_of s look (v # vs) (drop i (d_kids d'))" using y d'(5) at by simp
  have ti: "take i (d_kids d') = take i (d_kids c)"
    using arg_cong [OF d'(3), of "take i"] g(3) by (simp add: min_def)
  have "same_frame c ?d" using frame_grown [of c grow i] by (simp add: same_frame_def)
  then have "same_frame c d'" using d'(2) by (rule frame_trans)
  then show "\<exists>d' ns. link_nodes mk grow s es (Some c) m i = Some (Some d', ns) \<and> same_frame c d' \<and>
        take i (d_kids d') = take i (d_kids c) \<and> i \<le> length (d_kids d') \<and> seen_of s look (v # vs) (drop i (d_kids d'))"
    using d'(1,4) ti sn by (intro exI [of _ d'] exI [of _ "nm # ns"]) (simp add: e(1) w)
qed

lemma seq_all:
  assumes "\<And>v k. Some v \<in> set vs \<Longrightarrow> value_enters mem look s v k" and "s \<noteq> 0"
  shows "seq_enters mem look s vs i d"
  using assms(1)
proof (induction vs arbitrary: i)
  case Nil
  then show ?case by (auto simp: seq_enters_def)
next
  case (Cons v vs)
  then have ih: "seq_enters mem look s vs (Suc i) d" by simp
  show ?case
  proof (cases v)
    case None
    then show ?thesis using seq_none [OF ih assms(2)] by simp
  next
    case (Some w)
    then have "value_enters mem look s w k" for k by (intro Cons.prems) simp
    then show ?thesis using seq_some [OF _ ih assms(2)] Some by blast
  qed
qed

lemma list_all_enter:
  assumes "\<And>v k. v \<in> set vs \<Longrightarrow> value_enters mem look s v k" and "s \<noteq> 0"
  shows "list_enters mem look s vs i d"
  using assms(1)
proof (induction vs arbitrary: i)
  case (Cons v vs)
  have "value_enters mem look s v k" for k by (rule Cons.prems) simp
  moreover have "list_enters mem look s vs (Suc i) d" by (rule Cons.IH) (rule Cons.prems, simp)
  ultimately show ?case using list_cons [OF _ _ assms(2)] by blast
qed (rule list_nil)

lemma every_value: "s \<noteq> 0 \<Longrightarrow> value_enters mem look s v k"
proof (induction v arbitrary: k)
  case (VPrim os)
  show ?case by (rule prim_enters)
next
  case (VSeq vs)
  show ?case by (rule seq_value_enters [OF seq_all]) (use VSeq in auto)
next
  case (VOf vs)
  show ?case by (rule list_value_enters [OF list_all_enter]) (use VOf in auto)
next
  case (VChoice i v)
  then show ?case by (intro choice_value_enters)
qed

end

end
