(* ===== verification/BerReader.thy ===== *)
theory BerReader
  imports BerRead
begin

text \<open>
  A reader that decodes packet after packet into one definition: the pool goes round, every packet has a session of
  its own, and whatever came before, a well-formed packet is seen as it was sent.
\<close>

section \<open>The octets of a slot\<close>

fun value_ber :: "octets \<Rightarrow> ber_node list \<Rightarrow> nat \<Rightarrow> octets option" where
  "value_ber mem [] x = None"
| "value_ber mem (BerNode t a n ks # bs) x = (if n = x then Some (take (unat (value_length t)) (drop (value_at t) mem))
     else case value_ber mem ks x of Some v \<Rightarrow> Some v | None \<Rightarrow> value_ber mem bs x)"

fun value_in :: "octets \<Rightarrow> 'c dec_node list \<Rightarrow> nat \<Rightarrow> octets option" where
  "value_in mem [] x = None"
| "value_in mem (DecNode t a n nm l ks # bs) x = (if n = x then Some (take (unat (value_length t)) (drop (value_at t) mem))
     else case value_in mem ks x of Some v \<Rightarrow> Some v | None \<Rightarrow> value_in mem bs x)"

lemma link_values: "link_nodes mk grow s nodes d m n = Some (d', ns) \<Longrightarrow> value_in mem ns = value_ber mem nodes"
proof (induction nodes arbitrary: d m n d' ns rule: forest_size.induct)
  case 1
  then show ?case by (auto simp: fun_eq_iff)
next
  case (2 t a i ks bs)
  obtain r sub kids d1 ns1 where r: "link_nodes mk grow s ks (matched r) None 0 = Some (sub, kids)"
      "link_nodes mk grow s bs (put_back r sub) (mt_at r) (mt_next r) = Some (d1, ns1)"
      "ns = DecNode (with_old t) a i (mt_name r) (mt_link r) kids # ns1"
    using 2(3) by (auto simp: bind_eq_Some_conv)
  show ?case using 2(1) [OF r(1)] 2(2) [OF r(2)] by (simp add: r(3) fun_eq_iff with_old_def split: option.split)
qed

lemma value_ber_none: "x \<notin> set (concat (map node_ids nodes)) \<Longrightarrow> value_ber mem nodes x = None"
  by (induction mem nodes x rule: value_ber.induct) auto

lemma value_ber_ids: "x \<in> set (concat (map node_ids nodes)) \<Longrightarrow> value_ber mem nodes x \<noteq> None"
proof (induction mem nodes x rule: value_ber.induct)
  case (2 mem t a n ks bs x)
  then show ?case by (cases "value_ber mem ks x") auto
qed simp

lemma looks_agree:
  "distinct (concat (map node_ids nodes)) \<Longrightarrow> (\<And>x. x \<in> set (concat (map node_ids nodes)) \<Longrightarrow> look x = value_ber mem nodes x) \<Longrightarrow>
   list_all (looks mem look) nodes"
proof (induction nodes rule: forest_size.induct)
  case (2 t a n ks bs)
  have k: "look x = value_ber mem ks x" if "x \<in> set (concat (map node_ids ks))" for x
    using 2(4) [of x] 2(3) that value_ber_ids [OF that, of mem] by auto
  have b: "look x = value_ber mem bs x" if "x \<in> set (concat (map node_ids bs))" for x
  proof -
    have "x \<notin> set (concat (map node_ids ks))" using 2(3) that by auto
    then have "value_ber mem ks x = None" by (rule value_ber_none)
    moreover have "n \<noteq> x" using 2(3) that by auto
    ultimately show ?thesis using 2(4) [of x] that by auto
  qed
  have "look n = Some (take (unat (value_length t)) (drop (value_at t) mem))" using 2(4) [of n] by simp
  moreover have "list_all (looks mem look) ks" by (rule 2(1)) (use 2(3) k in auto)
  moreover have "list_all (looks mem look) bs" by (rule 2(2)) (use 2(3) b in auto)
  ultimately show ?case by simp
qed simp

lemma overrun_ok [simp]: "overrun 0 ns = ns"
  by (cases ns) (auto simp: overrun_def split: dec_node.split)

fun dec_ids :: "'c dec_node \<Rightarrow> nat list" where
  "dec_ids (DecNode t a n nm l ks) = n # concat (map dec_ids ks)"

lemma link_ids: "link_nodes mk grow s nodes d m n = Some (d', ns) \<Longrightarrow> concat (map dec_ids ns) = concat (map node_ids nodes)"
proof (induction nodes arbitrary: d m n d' ns rule: forest_size.induct)
  case 1
  then show ?case by simp
next
  case (2 t a i ks bs)
  obtain r sub kids d1 ns1 where r: "link_nodes mk grow s ks (matched r) None 0 = Some (sub, kids)"
      "link_nodes mk grow s bs (put_back r sub) (mt_at r) (mt_next r) = Some (d1, ns1)"
      "ns = DecNode (with_old t) a i (mt_name r) (mt_link r) kids # ns1"
    using 2(3) by (auto simp: bind_eq_Some_conv)
  show ?case using 2(1) [OF r(1)] 2(2) [OF r(2)] by (simp add: r(3))
qed

text \<open>
  A value, sent as a message that fits the pool, is seen in the definition after the decoder, whatever else the buffer
  holds and whatever the definition was linked to in other sessions.
\<close>

context asn1_schema
begin

lemma value_read:
  assumes "ber_of mk grow v d = Some b" and "plain_head d" and "quiet s d" and "s \<noteq> 0" and "message_fits p [b]"
  shows "\<exists>q d' ns. decode_with mk grow s (pre @ ber_bytes b @ post) (length pre) (of_nat (length (ber_bytes b))) p d = Some (0, q, d', ns) \<and>
     seen s (value_in (pre @ ber_bytes b @ post) ns) v d' \<and> ring q \<and> tlv_count q = tlv_count p \<and> distinct (concat (map dec_ids ns))"
proof -
  let ?mem = "pre @ ber_bytes b @ post" and ?len = "of_nat (length (ber_bytes b)) :: u32"
  have fit: "ring p" "list_all (ber_ok (tlv_count p)) [b]" "ber_size b \<le> tlv_count p" "length (ber_bytes b) < 2 ^ 31"
    using assms(5) by (simp_all add: message_fits_def)
  have "0 < ber_size b" by (cases b) auto
  then obtain nodes where nodes: "decode_loop ?mem (length pre) ?len 0 0 p [] = Some (0, requests (ber_size b) p, nodes)"
      "list_all2 (matches ?mem) [b] nodes"
    using decode_items [of ?mem pre "[]" "[b]" post p 0 ?len "[]"] fit by auto
  then obtain e where e: "nodes = [e]" "matches ?mem b e" by (auto simp: list_all2_Cons1)
  have sz: "forest_size nodes = ber_size b" using size_matches [OF nodes(2)] by simp
  have ids: "distinct (concat (map node_ids nodes))"
    using pooled_runs [OF nodes(1)] turns_distinct(1) [OF fit(1,3)] by (auto simp: sz)
  obtain xs where "nodes = xs" and agree: "passes_agree mk grow s ?mem (length pre) ?len 0 p (requests (ber_size b) p) xs"
    using two_passes [OF nodes(1), of mk grow s] by auto
  then have run: "decode_defn mk grow s ?mem (length pre) ?len 0 0 p c m n []
      = map_option (\<lambda>(d, ns). (0, forest_size nodes, requests (ber_size b) p, d, ns)) (link_nodes mk grow s nodes c m n)" for c m n
    using fit(3) sz by (auto simp: case_prod_unfold)
  let ?look = "value_ber ?mem nodes"
  have "looks ?mem ?look e" using looks_agree [OF ids, of ?look ?mem] by (simp add: e(1))
  then have en: "enters mk grow s e d (seen s ?look v)"
    using every_value [OF assms(4), of ?mem ?look v d] assms(1,3) e(2) assms(2) by (auto simp: value_enters_def)
  let ?c = "DefNode None new_tlv 0 None None [Some d]"
  obtain y q nm where y: "seen s ?look v y" "link_nodes mk grow s [e] (Some ?c) None 0 = Some (Some (put_def 0 y ?c), [nm])"
    using walk_one [OF en, of ?c ?c 0 0 None] by (auto simp: new_tlv_def kid_of_def)
  have li: "value_in ?mem [nm] = ?look" "concat (map dec_ids [nm]) = concat (map node_ids nodes)"
    using link_values [OF y(2)] link_ids [OF y(2)] by (simp_all add: e(1))
  have u: "uni_tag_class (d_tlv d) \<noteq> CHOICE" "\<not> asn1_node_count p < tlv_count p"
    using assms(2) fit(1) by (simp_all add: plain_head_def ring_def)
  have "decode_with mk grow s ?mem (length pre) ?len p d = Some (0, requests (ber_size b) p, y, [nm])"
    using u y(2) by (simp add: decode_with_def run e(1) put_def_def)
  then show ?thesis
    using y(1) li ids ring_requests [OF fit(1)] by (intro exI [of _ "requests (ber_size b) p"] exI [of _ y] exI [of _ "[nm]"]) (simp only: requests_count simp_thms)
qed

end

end
