(* ===== verification/GdtDefs.thy ===== *)
theory GdtDefs
  imports BerReader
begin

text \<open>
  The definition of the messages between daemons: the classes of \<^verbatim>\<open>src/src/gdt/gdt_def.cpp\<close> with their
  constructors, \<^verbatim>\<open>create_node\<close> and \<^verbatim>\<open>get_next_node\<close>, over the standard classes of
  \<^verbatim>\<open>src/src/asn1/asn1.cpp\<close>. A pointer of a class to one of its children is the child itself.
\<close>

section \<open>Classes\<close>

text \<open>A standard class goes by its name in the code.\<close>

datatype (plugins only: code) asn1_class = Standard string
  | C_Header | C_SequenceFlag | C_EndPointDescriptor | C_Body | C_StateMessage | C_StateAction |
    C_ServiceMessage | C_ServiceId | C_ServiceAction | C_RoutingMessage | C_RoutingAction |
    C_RegistrationMessage | C_RegistrationAction | C_StatsMessage | C_StatsAction | C_AuthMessage |
    C_AuthAction | C_DataRetentionMessage | C_DataRetentionAction | C_FilterMessage | C_FilterAction |
    C_PacketFwdMessage | C_NotifyMessage | C_NotifyMessageType | C_DataMessage | C_PayloadType |
    C_ConfigMessage | C_ConfigAction | C_Parameter | C_Parameter_value | C_Parameters | C_PdCommandId |
    C_FilterResultType | C_ParameterType | C_GeneralMessage | C_HopInfo | C_ErrorCode | C_GDTMessage |
    C_EncryptionInfo

type_synonym gdt_node = "asn1_class def_node"

text \<open>\<^verbatim>\<open>node_type_name\<close>, which each constructor assigns.\<close>

definition standard_names :: "(string \<times> string) list" where
  "standard_names =
     [(''Any'', ''ANY''), (''Choice'', ''CHOICE''), (''Boolean'', ''BOOLEAN''), (''Integer'', ''INTEGER''),
       (''Bit_string'', ''BIT STRING''), (''Octet_string'', ''OCTET STRING''),
       (''PrintableString'', ''PRINTABLE STRING''), (''Null'', ''NULL''),
       (''Object_identifier'', ''OBJECT IDENTIFIER''), (''Object_descriptor'', ''OBJECT DESCRIPTOR''),
       (''Real'', ''REAL''), (''Enumerated'', ''ENUMERATED''), (''Embedded_pdv'', ''EMBEDDED PDV''),
       (''Utf8_string'', ''UTF8String''), (''Relative_oid'', ''RELATIVE-OID''), (''Sequence'', ''SEQUENCE''),
       (''Sequence_of'', ''SEQUENCE OF''), (''Set'', ''SET''), (''Set_of'', ''SET OF''),
       (''Numeric_string'', ''NumericString''), (''Printable_string'', ''PrintableString''),
       (''T61_string'', ''T61String''), (''Videotex_string'', ''VideotexString''),
       (''IA5String'', ''IA5String''), (''Utc_time'', ''UTCTime''),
       (''Generalized_time'', ''GeneralizedTime''), (''Graphic_string'', ''GraphicString''),
       (''Visible_string'', ''VisibleString''), (''General_string'', ''GeneralString''),
       (''Universal_string'', ''UniversalString''), (''Character_string'', ''CHARACTER STRING''),
       (''Bmp_string'', ''BMPString''), (''GeneralizedTime'', ''GeneralizedTime''),
       (''UTCTime'', ''UTCTime''), (''EXTERNAL_encoding'', ''EXTERNAL_encoding''),
       (''External'', ''EXTERNAL'')]"

fun node_type_name :: "asn1_class \<Rightarrow> string" where
  "node_type_name (Standard c) = the (map_of standard_names c)"
| "node_type_name C_Header = ''Header''"
| "node_type_name C_SequenceFlag = ''SequenceFlag''"
| "node_type_name C_EndPointDescriptor = ''EndPointDescriptor''"
| "node_type_name C_Body = ''Body''"
| "node_type_name C_StateMessage = ''StateMessage''"
| "node_type_name C_StateAction = ''StateAction''"
| "node_type_name C_ServiceMessage = ''ServiceMessage''"
| "node_type_name C_ServiceId = ''ServiceId''"
| "node_type_name C_ServiceAction = ''ServiceAction''"
| "node_type_name C_RoutingMessage = ''RoutingMessage''"
| "node_type_name C_RoutingAction = ''RoutingAction''"
| "node_type_name C_RegistrationMessage = ''RegistrationMessage''"
| "node_type_name C_RegistrationAction = ''RegistrationAction''"
| "node_type_name C_StatsMessage = ''StatsMessage''"
| "node_type_name C_StatsAction = ''StatsAction''"
| "node_type_name C_AuthMessage = ''AuthMessage''"
| "node_type_name C_AuthAction = ''AuthAction''"
| "node_type_name C_DataRetentionMessage = ''DataRetentionMessage''"
| "node_type_name C_DataRetentionAction = ''DataRetentionAction''"
| "node_type_name C_FilterMessage = ''FilterMessage''"
| "node_type_name C_FilterAction = ''FilterAction''"
| "node_type_name C_PacketFwdMessage = ''PacketFwdMessage''"
| "node_type_name C_NotifyMessage = ''NotifyMessage''"
| "node_type_name C_NotifyMessageType = ''NotifyMessageType''"
| "node_type_name C_DataMessage = ''DataMessage''"
| "node_type_name C_PayloadType = ''PayloadType''"
| "node_type_name C_ConfigMessage = ''ConfigMessage''"
| "node_type_name C_ConfigAction = ''ConfigAction''"
| "node_type_name C_Parameter = ''Parameter''"
| "node_type_name C_Parameter_value = ''Parameter_value''"
| "node_type_name C_Parameters = ''Parameters''"
| "node_type_name C_PdCommandId = ''PdCommandId''"
| "node_type_name C_FilterResultType = ''FilterResultType''"
| "node_type_name C_ParameterType = ''ParameterType''"
| "node_type_name C_GeneralMessage = ''GeneralMessage''"
| "node_type_name C_HopInfo = ''HopInfo''"
| "node_type_name C_ErrorCode = ''ErrorCode''"
| "node_type_name C_GDTMessage = ''GDTMessage''"
| "node_type_name C_EncryptionInfo = ''EncryptionInfo''"

section \<open>The standard classes\<close>

definition asn1_object :: "asn1_class \<Rightarrow> tlv_node \<Rightarrow> gdt_node option list \<Rightarrow> gdt_node" where
  "asn1_object c t ks = DefNode (Some c) t 0 None None ks"

definition uni :: "u32 \<Rightarrow> tlv_node" where "uni u = new_tlv\<lparr>uni_tag_class := u\<rparr>"

text \<open>A member with an implicit tag.\<close>

definition tagged :: "u32 \<Rightarrow> gdt_node \<Rightarrow> gdt_node" where
  "tagged i d = DefNode (d_class d) ((d_tlv d)\<lparr>tag_class := 0x80, tag_value := i\<rparr>) (d_session d) (d_link d) (d_choice d) (d_kids d)"

definition new_Any :: gdt_node where "new_Any = asn1_object (Standard ''Any'') ((uni (- 2))\<lparr>tag_value := ANY\<rparr>) []"

definition new_Choice :: gdt_node where "new_Choice = asn1_object (Standard ''Choice'') (uni 0xff) []"

definition new_Boolean :: gdt_node where "new_Boolean = asn1_object (Standard ''Boolean'') (uni 1) []"

definition new_Integer :: gdt_node where "new_Integer = asn1_object (Standard ''Integer'') (uni 2) []"

definition new_Bit_string :: gdt_node where "new_Bit_string = asn1_object (Standard ''Bit_string'') (uni 3) []"

definition new_Octet_string :: gdt_node where "new_Octet_string = asn1_object (Standard ''Octet_string'') (uni 4) []"

definition new_PrintableString :: gdt_node where "new_PrintableString = asn1_object (Standard ''PrintableString'') (uni 0x13) []"

definition new_Null :: gdt_node where "new_Null = asn1_object (Standard ''Null'') (uni 5) []"

definition new_Object_identifier :: gdt_node where "new_Object_identifier = asn1_object (Standard ''Object_identifier'') (uni 6) []"

definition new_Object_descriptor :: gdt_node where "new_Object_descriptor = asn1_object (Standard ''Object_descriptor'') (uni 7) []"

definition new_Real :: gdt_node where "new_Real = asn1_object (Standard ''Real'') (uni 9) []"

definition new_Enumerated :: gdt_node where "new_Enumerated = asn1_object (Standard ''Enumerated'') (uni 0xa) []"

definition new_Embedded_pdv :: gdt_node where "new_Embedded_pdv = asn1_object (Standard ''Embedded_pdv'') (uni 0xb) []"

definition new_Utf8_string :: gdt_node where "new_Utf8_string = asn1_object (Standard ''Utf8_string'') (uni 0xc) []"

definition new_Relative_oid :: gdt_node where "new_Relative_oid = asn1_object (Standard ''Relative_oid'') (uni 0xd) []"

definition new_Sequence :: gdt_node where "new_Sequence = asn1_object (Standard ''Sequence'') ((uni 0x10)\<lparr>complexity := CONSTRUCTED\<rparr>) []"

definition new_Sequence_of :: gdt_node where "new_Sequence_of = asn1_object (Standard ''Sequence_of'') ((uni 0x10)\<lparr>complexity := CONSTRUCTED, unlimited_size := True\<rparr>) []"

definition new_Set :: gdt_node where "new_Set = asn1_object (Standard ''Set'') (uni 0x11) []"

definition new_Set_of :: gdt_node where "new_Set_of = asn1_object (Standard ''Set_of'') ((uni 0x11)\<lparr>complexity := CONSTRUCTED, unlimited_size := True\<rparr>) []"

definition new_Numeric_string :: gdt_node where "new_Numeric_string = asn1_object (Standard ''Numeric_string'') (uni 0x12) []"

definition new_Printable_string :: gdt_node where "new_Printable_string = asn1_object (Standard ''Printable_string'') (uni 0x13) []"

definition new_T61_string :: gdt_node where "new_T61_string = asn1_object (Standard ''T61_string'') (uni 0x14) []"

definition new_Videotex_string :: gdt_node where "new_Videotex_string = asn1_object (Standard ''Videotex_string'') (uni 0x15) []"

definition new_IA5String :: gdt_node where "new_IA5String = asn1_object (Standard ''IA5String'') (uni 0x16) []"

definition new_Utc_time :: gdt_node where "new_Utc_time = asn1_object (Standard ''Utc_time'') (uni 0x17) []"

definition new_Generalized_time :: gdt_node where "new_Generalized_time = asn1_object (Standard ''Generalized_time'') (uni 0x18) []"

definition new_Graphic_string :: gdt_node where "new_Graphic_string = asn1_object (Standard ''Graphic_string'') (uni 0x19) []"

definition new_Visible_string :: gdt_node where "new_Visible_string = asn1_object (Standard ''Visible_string'') (uni 0x1a) []"

definition new_General_string :: gdt_node where "new_General_string = asn1_object (Standard ''General_string'') (uni 0x1b) []"

definition new_Universal_string :: gdt_node where "new_Universal_string = asn1_object (Standard ''Universal_string'') (uni 0x1c) []"

definition new_Character_string :: gdt_node where "new_Character_string = asn1_object (Standard ''Character_string'') (uni 0x1d) []"

definition new_Bmp_string :: gdt_node where "new_Bmp_string = asn1_object (Standard ''Bmp_string'') (uni 0x1e) []"

definition new_GeneralizedTime :: gdt_node where "new_GeneralizedTime = asn1_object (Standard ''GeneralizedTime'') ((uni 0x18)\<lparr>tag_value := 24\<rparr>) []"

definition new_UTCTime :: gdt_node where "new_UTCTime = asn1_object (Standard ''UTCTime'') ((uni 0x17)\<lparr>tag_value := 23\<rparr>) []"

text \<open>\<^verbatim>\<open>EXTERNAL\<close>, whose first alternative is wrapped in a node of the plain class.\<close>

definition new_EXTERNAL_encoding :: gdt_node where
  "new_EXTERNAL_encoding = asn1_object (Standard ''EXTERNAL_encoding'') (d_tlv new_Choice)
     [Some (DefNode None (new_tlv\<lparr>is_explicit := True, tag_class := 0x80, tag_value := 0\<rparr>) 0 None None [Some new_Any]),
      Some (tagged 1 new_Octet_string), Some (tagged 2 new_Bit_string)]"

definition new_External :: gdt_node where
  "new_External = asn1_object (Standard ''External'') ((d_tlv new_Sequence)\<lparr>tag_class := 0, tag_value := 8\<rparr>)
     [Some new_Object_identifier, Some new_Integer, Some new_Object_descriptor, Some new_EXTERNAL_encoding]"

section \<open>The classes of a message\<close>

definition new_EndPointDescriptor :: gdt_node where
  "new_EndPointDescriptor = asn1_object C_EndPointDescriptor (d_tlv new_Sequence) [Some (tagged 1 new_IA5String), None]"

definition new_SequenceFlag :: gdt_node where
  "new_SequenceFlag = asn1_object C_SequenceFlag (d_tlv new_Integer) []"

definition new_Header :: gdt_node where
  "new_Header = asn1_object C_Header (d_tlv new_Sequence)
     [Some (tagged 0 new_Integer), Some (tagged 1 new_EndPointDescriptor),
       Some (tagged 2 new_EndPointDescriptor), Some (tagged 3 new_Octet_string), Some (tagged 4 new_Integer),
       Some (tagged 5 new_SequenceFlag), None, None, None]"

definition new_PayloadType :: gdt_node where
  "new_PayloadType = asn1_object C_PayloadType (d_tlv new_Integer) []"

definition new_PacketFwdMessage :: gdt_node where
  "new_PacketFwdMessage = asn1_object C_PacketFwdMessage (d_tlv new_Sequence) [Some new_PayloadType, None, None]"

definition new_FilterAction :: gdt_node where
  "new_FilterAction = asn1_object C_FilterAction (d_tlv new_Integer) []"

definition new_FilterMessage :: gdt_node where
  "new_FilterMessage = asn1_object C_FilterMessage (d_tlv new_Sequence) [Some new_FilterAction, None]"

definition new_DataRetentionAction :: gdt_node where
  "new_DataRetentionAction = asn1_object C_DataRetentionAction (d_tlv new_Integer) []"

definition new_DataRetentionMessage :: gdt_node where
  "new_DataRetentionMessage = asn1_object C_DataRetentionMessage (d_tlv new_Sequence) [None, None, Some new_DataRetentionAction, None]"

definition new_ConfigAction :: gdt_node where
  "new_ConfigAction = asn1_object C_ConfigAction (d_tlv new_Integer) []"

definition new_ConfigMessage :: gdt_node where
  "new_ConfigMessage = asn1_object C_ConfigMessage (d_tlv new_Sequence) [Some new_ConfigAction, None, None]"

definition new_StatsAction :: gdt_node where
  "new_StatsAction = asn1_object C_StatsAction (d_tlv new_Integer) []"

definition new_StatsMessage :: gdt_node where
  "new_StatsMessage = asn1_object C_StatsMessage (d_tlv new_Sequence) [Some new_StatsAction, None]"

definition new_AuthAction :: gdt_node where
  "new_AuthAction = asn1_object C_AuthAction (d_tlv new_Integer) []"

definition new_AuthMessage :: gdt_node where
  "new_AuthMessage = asn1_object C_AuthMessage (d_tlv new_Sequence) [Some new_AuthAction, None]"

definition new_RegistrationAction :: gdt_node where
  "new_RegistrationAction = asn1_object C_RegistrationAction (d_tlv new_Integer) []"

definition new_RegistrationMessage :: gdt_node where
  "new_RegistrationMessage = asn1_object C_RegistrationMessage (d_tlv new_Sequence) [Some new_RegistrationAction, None]"

definition new_NotifyMessageType :: gdt_node where
  "new_NotifyMessageType = asn1_object C_NotifyMessageType (d_tlv new_Integer) []"

definition new_NotifyMessage :: gdt_node where
  "new_NotifyMessage = asn1_object C_NotifyMessage (d_tlv new_Sequence) [Some new_NotifyMessageType, None, None]"

definition new_DataMessage :: gdt_node where
  "new_DataMessage = asn1_object C_DataMessage (d_tlv new_Sequence) [Some new_PayloadType, None, None]"

definition new_RoutingAction :: gdt_node where
  "new_RoutingAction = asn1_object C_RoutingAction (d_tlv new_Integer) []"

definition new_RoutingMessage :: gdt_node where
  "new_RoutingMessage = asn1_object C_RoutingMessage (d_tlv new_Sequence) [Some new_RoutingAction, None]"

definition new_ServiceId :: gdt_node where
  "new_ServiceId = asn1_object C_ServiceId (d_tlv new_Integer) []"

definition new_ServiceAction :: gdt_node where
  "new_ServiceAction = asn1_object C_ServiceAction (d_tlv new_Integer) []"

definition new_ServiceMessage :: gdt_node where
  "new_ServiceMessage = asn1_object C_ServiceMessage (d_tlv new_Sequence) [Some new_ServiceId, Some new_ServiceAction, None]"

definition new_StateAction :: gdt_node where
  "new_StateAction = asn1_object C_StateAction (d_tlv new_Integer) []"

definition new_StateMessage :: gdt_node where
  "new_StateMessage = asn1_object C_StateMessage (d_tlv new_Sequence) [Some new_Octet_string, Some new_StateAction, None]"

definition new_Body :: gdt_node where
  "new_Body = asn1_object C_Body (d_tlv new_Choice)
     [Some (tagged 1 new_Octet_string), Some (tagged 2 new_PacketFwdMessage),
       Some (tagged 3 new_FilterMessage), Some (tagged 4 new_DataRetentionMessage),
       Some (tagged 6 new_ConfigMessage), Some (tagged 7 new_StatsMessage), Some (tagged 8 new_AuthMessage),
       Some (tagged 9 new_RegistrationMessage), Some (tagged 10 new_NotifyMessage),
       Some (tagged 11 new_DataMessage), Some (tagged 12 new_RoutingMessage),
       Some (tagged 13 new_ServiceMessage), Some (tagged 14 new_StateMessage)]"

definition new_ParameterType :: gdt_node where
  "new_ParameterType = asn1_object C_ParameterType (d_tlv new_Integer) []"

definition new_Parameter :: gdt_node where
  "new_Parameter = asn1_object C_Parameter (d_tlv new_Sequence) [Some new_ParameterType, None]"

definition new_Parameter_value :: gdt_node where
  "new_Parameter_value = asn1_object C_Parameter_value (d_tlv new_Sequence_of) []"

definition new_Parameters :: gdt_node where
  "new_Parameters = asn1_object C_Parameters (d_tlv new_Sequence_of) []"

definition new_PdCommandId :: gdt_node where
  "new_PdCommandId = asn1_object C_PdCommandId (d_tlv new_Integer) []"

definition new_FilterResultType :: gdt_node where
  "new_FilterResultType = asn1_object C_FilterResultType (d_tlv new_Integer) []"

definition new_GeneralMessage :: gdt_node where
  "new_GeneralMessage = asn1_object C_GeneralMessage (d_tlv new_Any) []"

definition new_HopInfo :: gdt_node where
  "new_HopInfo = asn1_object C_HopInfo (d_tlv new_Sequence) [Some (tagged 1 new_Integer), Some (tagged 2 new_Integer)]"

definition new_ErrorCode :: gdt_node where
  "new_ErrorCode = asn1_object C_ErrorCode (d_tlv new_Integer) []"

definition new_GDTMessage :: gdt_node where
  "new_GDTMessage = asn1_object C_GDTMessage (d_tlv new_Sequence) [Some new_Header, None]"

definition new_EncryptionInfo :: gdt_node where
  "new_EncryptionInfo = asn1_object C_EncryptionInfo (d_tlv new_Sequence) [Some new_Octet_string, None]"

section \<open>Optional members\<close>

definition create_Header :: "nat \<Rightarrow> gdt_node option" where
  "create_Header j = (if j = 6 then Some (tagged 6 new_EncryptionInfo) else if j = 7 then Some (tagged 7 new_HopInfo) else if j = 8 then Some (tagged 8 new_ErrorCode) else None)"

definition create_EndPointDescriptor :: "nat \<Rightarrow> gdt_node option" where
  "create_EndPointDescriptor j = (if j = 1 then Some (tagged 2 new_IA5String) else None)"

definition create_StateMessage :: "nat \<Rightarrow> gdt_node option" where
  "create_StateMessage j = (if j = 2 then Some new_Parameters else None)"

definition create_ServiceMessage :: "nat \<Rightarrow> gdt_node option" where
  "create_ServiceMessage j = (if j = 2 then Some new_Parameters else None)"

definition create_RoutingMessage :: "nat \<Rightarrow> gdt_node option" where
  "create_RoutingMessage j = (if j = 1 then Some new_Parameters else None)"

definition create_RegistrationMessage :: "nat \<Rightarrow> gdt_node option" where
  "create_RegistrationMessage j = (if j = 1 then Some new_Parameters else None)"

definition create_StatsMessage :: "nat \<Rightarrow> gdt_node option" where
  "create_StatsMessage j = (if j = 1 then Some new_Parameters else None)"

definition create_AuthMessage :: "nat \<Rightarrow> gdt_node option" where
  "create_AuthMessage j = (if j = 1 then Some new_Parameters else None)"

definition create_DataRetentionMessage :: "nat \<Rightarrow> gdt_node option" where
  "create_DataRetentionMessage j = (if j = 0 then Some new_PayloadType else if j = 1 then Some new_Octet_string else if j = 3 then Some new_Parameters else None)"

definition create_FilterMessage :: "nat \<Rightarrow> gdt_node option" where
  "create_FilterMessage j = (if j = 1 then Some new_Parameters else None)"

definition create_PacketFwdMessage :: "nat \<Rightarrow> gdt_node option" where
  "create_PacketFwdMessage j = (if j = 1 then Some new_Octet_string else if j = 2 then Some new_Parameters else None)"

definition create_NotifyMessage :: "nat \<Rightarrow> gdt_node option" where
  "create_NotifyMessage j = (if j = 1 then Some new_Octet_string else if j = 2 then Some new_Parameters else None)"

definition create_DataMessage :: "nat \<Rightarrow> gdt_node option" where
  "create_DataMessage j = (if j = 1 then Some new_Octet_string else if j = 2 then Some new_Parameters else None)"

definition create_ConfigMessage :: "nat \<Rightarrow> gdt_node option" where
  "create_ConfigMessage j = (if j = 1 then Some new_Octet_string else if j = 2 then Some new_Parameters else None)"

definition create_Parameter :: "nat \<Rightarrow> gdt_node option" where
  "create_Parameter j = (if j = 1 then Some new_Parameter_value else None)"

definition create_GDTMessage :: "nat \<Rightarrow> gdt_node option" where
  "create_GDTMessage j = (if j = 1 then Some new_Body else None)"

definition create_EncryptionInfo :: "nat \<Rightarrow> gdt_node option" where
  "create_EncryptionInfo j = (if j = 1 then Some new_Parameters else None)"

definition create_Parameter_value :: "nat \<Rightarrow> gdt_node option" where "create_Parameter_value j = Some new_Octet_string"

definition create_Parameters :: "nat \<Rightarrow> gdt_node option" where "create_Parameters j = Some new_Parameter"

text \<open>The virtual functions; a class without its own inherits those of \<^verbatim>\<open>ASN1Node\<close>, which return null.\<close>

fun gdt_create :: "asn1_class \<Rightarrow> nat \<Rightarrow> gdt_node option" where
  "gdt_create C_Header = create_Header"
| "gdt_create C_EndPointDescriptor = create_EndPointDescriptor"
| "gdt_create C_StateMessage = create_StateMessage"
| "gdt_create C_ServiceMessage = create_ServiceMessage"
| "gdt_create C_RoutingMessage = create_RoutingMessage"
| "gdt_create C_RegistrationMessage = create_RegistrationMessage"
| "gdt_create C_StatsMessage = create_StatsMessage"
| "gdt_create C_AuthMessage = create_AuthMessage"
| "gdt_create C_DataRetentionMessage = create_DataRetentionMessage"
| "gdt_create C_FilterMessage = create_FilterMessage"
| "gdt_create C_PacketFwdMessage = create_PacketFwdMessage"
| "gdt_create C_NotifyMessage = create_NotifyMessage"
| "gdt_create C_DataMessage = create_DataMessage"
| "gdt_create C_ConfigMessage = create_ConfigMessage"
| "gdt_create C_Parameter = create_Parameter"
| "gdt_create C_GDTMessage = create_GDTMessage"
| "gdt_create C_EncryptionInfo = create_EncryptionInfo"
| "gdt_create C_Parameter_value = create_Parameter_value"
| "gdt_create C_Parameters = create_Parameters"
| "gdt_create _ = (\<lambda>_. None)"

definition next_Parameter_value :: "gdt_node option" where "next_Parameter_value = Some new_Octet_string"

definition next_Parameters :: "gdt_node option" where "next_Parameters = Some new_Parameter"

fun gdt_grow :: "asn1_class \<Rightarrow> gdt_node option" where
  "gdt_grow C_Parameter_value = next_Parameter_value"
| "gdt_grow C_Parameters = next_Parameters"
| "gdt_grow _ = None"

text \<open>
  The setters of optional members create them once; \<^verbatim>\<open>set_child\<close> of the two SEQUENCE OF classes makes the child
  at an index, or one more.
\<close>

definition set_member :: "nat \<Rightarrow> gdt_node \<Rightarrow> gdt_node" where
  "set_member j d = (if d_kids d ! j = None then create_node gdt_create j d else d)"

definition set_child :: "nat \<Rightarrow> gdt_node \<Rightarrow> gdt_node" where
  "set_child j d = (if j < length (d_kids d) then set_member j d else get_next_node gdt_grow j d)"

definition get_child :: "nat \<Rightarrow> gdt_node \<Rightarrow> gdt_node option" where
  "get_child j d = (if j < length (d_kids d) then d_kids d ! j else None)"

end
