(* ===== verification/GdtPacket.thy ===== *)
theory GdtPacket
  imports GdtDefs
begin

text \<open>
  The packets between daemons, read with the definition of \<^verbatim>\<open>GdtDefs\<close> by the decoder of \<^verbatim>\<open>BerDefn\<close>: the contract
  \<open>asn1_schema\<close> holds for the classes of the program, so what was sent is what the daemon sees.
\<close>

section \<open>The classes keep the contract\<close>

lemma quiet_object: "s \<noteq> 0 \<Longrightarrow> quiet s (asn1_object c t ks) = quiet_kids s ks"
  by (auto simp: asn1_object_def)

lemma quiet_tagged [simp]: "quiet s (tagged i d) = quiet s d"
  by (cases d) (simp add: tagged_def)

lemma standard_quiet:
  "s \<noteq> 0 \<Longrightarrow> quiet s new_Integer" "s \<noteq> 0 \<Longrightarrow> quiet s new_Octet_string" "s \<noteq> 0 \<Longrightarrow> quiet s new_IA5String"
  by (simp_all add: quiet_object new_Integer_def new_Octet_string_def new_IA5String_def)

lemma leaf_quiet:
  assumes "s \<noteq> 0"
  shows "quiet s new_PayloadType" "quiet s new_ErrorCode" "quiet s new_ParameterType" "quiet s new_ServiceId" "quiet s new_ServiceAction"
    "quiet s new_StateAction" "quiet s new_RoutingAction" "quiet s new_NotifyMessageType" "quiet s new_RegistrationAction"
    "quiet s new_AuthAction" "quiet s new_StatsAction" "quiet s new_ConfigAction" "quiet s new_DataRetentionAction" "quiet s new_FilterAction"
    "quiet s new_Parameters" "quiet s new_Parameter_value" "quiet s new_SequenceFlag"
  using assms
  by (simp_all add: quiet_object new_PayloadType_def new_ErrorCode_def new_ParameterType_def new_ServiceId_def new_ServiceAction_def
      new_StateAction_def new_RoutingAction_def new_NotifyMessageType_def new_RegistrationAction_def new_AuthAction_def new_StatsAction_def
      new_ConfigAction_def new_DataRetentionAction_def new_FilterAction_def new_Parameters_def new_Parameter_value_def new_SequenceFlag_def)

lemma message_quiet:
  assumes "s \<noteq> 0"
  shows "quiet s new_HopInfo" "quiet s new_EncryptionInfo" "quiet s new_Parameter" "quiet s new_Body"
  using assms leaf_quiet [OF assms] standard_quiet [OF assms]
  by (simp_all add: quiet_object new_HopInfo_def new_EncryptionInfo_def new_Parameter_def new_Body_def new_PacketFwdMessage_def
      new_FilterMessage_def new_DataRetentionMessage_def new_ConfigMessage_def new_StatsMessage_def new_AuthMessage_def
      new_RegistrationMessage_def new_NotifyMessage_def new_DataMessage_def new_RoutingMessage_def new_ServiceMessage_def new_StateMessage_def)

lemma packet_quiet: "s \<noteq> 0 \<Longrightarrow> quiet s new_GDTMessage"
  using leaf_quiet [of s] standard_quiet [of s]
  by (simp add: quiet_object new_GDTMessage_def new_Header_def new_EndPointDescriptor_def)

lemmas create_defs = create_Header_def create_EndPointDescriptor_def create_StateMessage_def create_ServiceMessage_def
  create_RoutingMessage_def create_RegistrationMessage_def create_StatsMessage_def create_AuthMessage_def create_DataRetentionMessage_def
  create_FilterMessage_def create_PacketFwdMessage_def create_NotifyMessage_def create_DataMessage_def create_ConfigMessage_def
  create_Parameter_def create_GDTMessage_def create_EncryptionInfo_def create_Parameter_value_def create_Parameters_def

interpretation gdt: asn1_schema gdt_create gdt_grow
proof
  fix s :: u64 and c j k
  assume s: "s \<noteq> 0"
  note q = leaf_quiet [OF s] message_quiet [OF s] standard_quiet [OF s]
  show "gdt_create c j = Some k \<Longrightarrow> quiet s k"
    using q by (cases c rule: gdt_create.cases) (auto simp: create_defs split: if_splits)
  show "gdt_grow c = Some k \<Longrightarrow> quiet s k"
    using q by (cases c rule: gdt_grow.cases) (auto simp: next_Parameter_value_def next_Parameters_def)
qed

section \<open>An element the definition does not know\<close>

text \<open>
  The node matched last is kept when the loop over the definition has nothing left to try, and a constructed element is then decoded
  below it: an unknown element after the body, with an integer in it, replaces the action of the body.
\<close>

definition value_at_path :: "octets \<Rightarrow> nat list \<Rightarrow> gdt_node \<Rightarrow> asn1_class dec_node list \<Rightarrow> octets option" where
  "value_at_path mem q d ns = Option.bind (def_at q d) (\<lambda>k. case d_link k of Some (To_ber n) \<Rightarrow> value_in mem ns n | _ \<Rightarrow> None)"

definition header_octets :: octets where
  "header_octets = [0x30, 28, 0x80, 1, 1, 0xa1, 6, 0x81, 1, 97, 0x82, 1, 98, 0xa2, 3, 0x81, 1, 99, 0x83, 4, 1, 2, 3, 4, 0x84, 1, 0, 0x85, 1, 0]"

definition action_of :: "octets \<Rightarrow> (nat \<times> octets option) option" where
  "action_of os = map_option (\<lambda>(code, q, d, ns). (code, value_at_path os [1, 4, 0] d ns))
     (decode_with gdt_create gdt_grow 5 os 0 (of_nat (length os)) (pool (fresh_heap 40)) new_GDTMessage)"

lemma stranger_overwrites:
  "action_of ([0x30, 35] @ header_octets @ [0xa6, 3, 2, 1, 1]) = Some (0, Some [1])"
  "action_of ([0x30, 41] @ header_octets @ [0xa6, 3, 2, 1, 1, 0xbf, 99, 3, 2, 1, 7]) = Some (0, Some [7])"
  by code_simp+

section \<open>Properties\<close>

text \<open>
  C8. A packet is read as it was sent: a value of the definition \<^verbatim>\<open>GDTMessage\<close>, encoded as its elements and placed
  anywhere in a buffer, is decoded with return code 0 by a pool that has an object for every element, and then the
  daemon sees this value in the definition: every member that was sent is linked in the session of the
  packet, with its octets, every other one is not, the chosen message is the selection of the body, and each node of the pool was
  used once. It does not matter what the definition was linked to in other sessions and which members it has created before. A value
  has elements (\<open>ber_of\<close> is not \<open>None\<close>) if its members follow the definition and no optional member that is left out would take the element of a later one.
\<close>

theorem packet_read:
  assumes "ber_of gdt_create gdt_grow v d = Some b" and "d_tlv d = d_tlv new_GDTMessage" and "quiet s d" and "s \<noteq> 0"
    and "message_fits p [b]"
  shows "\<exists>q d' ns. decode_with gdt_create gdt_grow s (pre @ ber_bytes b @ post) (length pre) (of_nat (length (ber_bytes b))) p d
       = Some (0, q, d', ns) \<and>
     seen s (value_in (pre @ ber_bytes b @ post) ns) v d' \<and> ring q \<and> tlv_count q = tlv_count p \<and> distinct (concat (map dec_ids ns))"
proof -
  have "plain_head d" unfolding plain_head_def assms(2) by code_simp
  then show ?thesis by (rule gdt.value_read [OF assms(1) _ assms(3-5)])
qed

definition sample_packet :: asn1_val where
  "sample_packet = VSeq [Some (VSeq [Some (VPrim [1]), Some (VSeq [Some (VPrim [97]), Some (VPrim [98])]), Some (VSeq [Some (VPrim [99]), None]),
     Some (VPrim [1, 2, 3, 4]), Some (VPrim [0, 0, 0, 1]), Some (VPrim [0]), None, None, None]),
     Some (VChoice 7 (VSeq [Some (VPrim [2]), Some (VOf [VSeq [Some (VPrim [5]), Some (VOf [VPrim [7]])]])]))]"

definition sample_ber :: ber where
  "sample_ber = the (ber_of gdt_create gdt_grow sample_packet new_GDTMessage)"

lemma sample_packet_ber: "ber_of gdt_create gdt_grow sample_packet new_GDTMessage = Some sample_ber"
  by code_simp

text \<open>An element whose octets are few enough in all is short enough at every level.\<close>

fun ber_shape :: "nat \<Rightarrow> ber \<Rightarrow> bool" where
  "ber_shape m (BPrim c v os) \<longleftrightarrow> c \<in> set tag_classes \<and> unat v \<le> 127"
| "ber_shape m (BCons c v ks) \<longleftrightarrow> c \<in> set tag_classes \<and> unat v \<le> 127 \<and> length ks \<le> m \<and> list_all (ber_shape m) ks"

lemma shape_ok: "list_all (ber_shape m) bs \<Longrightarrow> length (bytes_of_all bs) < 2 ^ 31 \<Longrightarrow> list_all (ber_ok m) bs"
  by (induction bs rule: bers_induct) auto

lemma sample_packet_fits: "message_fits (pool (fresh_heap 40)) [sample_ber]"
proof -
  have "length (bytes_of_all [sample_ber]) \<le> 100" "list_all (ber_shape 40) [sample_ber]" "sum_list (map ber_size [sample_ber]) \<le> 40"
    by code_simp+
  then show ?thesis
    using shape_ok [of 40 "[sample_ber]"] fresh_pool(1) [of 40] by (simp add: message_fits_def fresh_pool(2))
qed

theorem packet_read_witness:
  "\<exists>q d' ns. decode_with gdt_create gdt_grow 5 (ber_bytes sample_ber) 0 (of_nat (length (ber_bytes sample_ber))) (pool (fresh_heap 40)) new_GDTMessage
       = Some (0, q, d', ns) \<and> seen 5 (value_in (ber_bytes sample_ber) ns) sample_packet d'"
  using packet_read [OF sample_packet_ber refl packet_quiet _ sample_packet_fits, of 5 "[]" "[]"] by auto

end
