(* ===== verification/SpscQueue.thy ===== *)
theory SpscQueue
  imports Prelude
begin

text \<open>
  The single-producer single-consumer queue of \<^verbatim>\<open>src/src/include/spscq.h\<close> (\<^verbatim>\<open>lockfree::SpscQ\<close>): its
  operations as functions of the state, as one thread at a time sees them, and the same operations
  cut into their accesses of the shared state, for all interleavings of a producer and a consumer
  (the memory barriers make the accesses of one thread appear in program order). The masks belong
  to powers of two, so that the indices never pass the width of their types.
\<close>

section \<open>State\<close>

record 'a spsc =
  shadow_head :: nat
  head_ix :: nat
  tail_ix :: nat
  shadow_tail :: nat
  slots_of :: "'a option list"
  QSIZE :: nat

abbreviation QUEUE_WATERMARK :: nat where "QUEUE_WATERMARK \<equiv> 256"

definition QUEUE_ITEMS_MASK :: "'a spsc \<Rightarrow> nat" where
  "QUEUE_ITEMS_MASK q = QSIZE q - 1"

definition QUEUE_WATERMARK_MASK :: nat where
  "QUEUE_WATERMARK_MASK = QUEUE_WATERMARK - 1"

definition queue_size :: "int \<Rightarrow> nat" where
  "queue_size n = 2 ^ bit_len (nat (if n < 256 then 256 else n))"

definition new_spsc :: "nat \<Rightarrow> 'a spsc" where
  "new_spsc qs = \<lparr>shadow_head = 0, head_ix = 0, tail_ix = qs - 1, shadow_tail = qs - 1,
     slots_of = replicate qs None, QSIZE = qs\<rparr>"

definition spsc_init :: "int \<Rightarrow> 'a spsc" where
  "spsc_init n = new_spsc (queue_size n)"

section \<open>Operations\<close>

definition spsc_size :: "'a spsc \<Rightarrow> nat" where
  "spsc_size q = (if head_ix q \<ge> tail_ix q then head_ix q - tail_ix q else QSIZE q - (tail_ix q - head_ix q))"

definition next_tail :: "'a spsc \<Rightarrow> nat" where
  "next_tail q = (shadow_tail q + 1) AND QUEUE_ITEMS_MASK q"

definition next_head :: "'a spsc \<Rightarrow> nat" where
  "next_head q = (shadow_head q + 1) AND QUEUE_ITEMS_MASK q"

text \<open>The return code, the popped item and the queue.\<close>

definition spsc_pop :: "'a spsc \<Rightarrow> nat \<times> 'a option \<times> 'a spsc" where
  "spsc_pop q = (if next_tail q \<noteq> head_ix q
     then (0, slots_of q ! next_tail q, q\<lparr>shadow_tail := next_tail q,
        tail_ix := (if next_tail q AND QUEUE_WATERMARK_MASK = 0 then next_tail q else tail_ix q)\<rparr>)
     else (1, None, q))"

definition spsc_push :: "bool \<Rightarrow> 'a \<Rightarrow> 'a spsc \<Rightarrow> nat \<times> 'a spsc" where
  "spsc_push flush_item item q = (if tail_ix q \<noteq> next_head q
     then (0, q\<lparr>slots_of := (slots_of q)[shadow_head q := Some item], shadow_head := next_head q,
        head_ix := (if flush_item \<or> next_head q AND QUEUE_WATERMARK_MASK = 0 then next_head q else head_ix q)\<rparr>)
     else (1, q))"

section \<open>Interleavings\<close>

text \<open>
  Where the threads are inside an operation: after the test, after the access of the slot, after
  the move of the own index. The history of the items sent and received and the numbers of those
  published and released are not part of the program.
\<close>

datatype 'a producer = P_idle | P_checked bool 'a nat | P_stored bool 'a nat | P_moved bool
datatype 'a consumer = C_idle | C_checked nat | C_loaded nat "'a option" | C_moved

record 'a spsc_run =
  queue :: "'a spsc"
  producer :: "'a producer"
  consumer :: "'a consumer"
  sent :: "'a list"
  received :: "'a option list"
  published :: nat
  released :: nat

inductive spsc_step :: "'a spsc_run \<Rightarrow> 'a spsc_run \<Rightarrow> bool" where
  push_full: "producer r = P_idle \<Longrightarrow> tail_ix (queue r) = next_head (queue r) \<Longrightarrow> spsc_step r r"
| push_check: "producer r = P_idle \<Longrightarrow> tail_ix (queue r) \<noteq> next_head (queue r) \<Longrightarrow>
    spsc_step r (r\<lparr>producer := P_checked f x (next_head (queue r))\<rparr>)"
| push_store: "producer r = P_checked f x n \<Longrightarrow>
    spsc_step r (r\<lparr>queue := (queue r)\<lparr>slots_of := (slots_of (queue r))[shadow_head (queue r) := Some x]\<rparr>,
      producer := P_stored f x n\<rparr>)"
| push_move: "producer r = P_stored f x n \<Longrightarrow>
    spsc_step r (r\<lparr>queue := (queue r)\<lparr>shadow_head := n\<rparr>, producer := P_moved f, sent := sent r @ [x]\<rparr>)"
| push_publish: "producer r = P_moved f \<Longrightarrow> f \<or> shadow_head (queue r) AND QUEUE_WATERMARK_MASK = 0 \<Longrightarrow>
    spsc_step r (r\<lparr>queue := (queue r)\<lparr>head_ix := shadow_head (queue r)\<rparr>, producer := P_idle,
      published := length (sent r)\<rparr>)"
| push_defer: "producer r = P_moved f \<Longrightarrow> \<not> (f \<or> shadow_head (queue r) AND QUEUE_WATERMARK_MASK = 0) \<Longrightarrow>
    spsc_step r (r\<lparr>producer := P_idle\<rparr>)"
| pop_empty: "consumer r = C_idle \<Longrightarrow> next_tail (queue r) = head_ix (queue r) \<Longrightarrow> spsc_step r r"
| pop_check: "consumer r = C_idle \<Longrightarrow> next_tail (queue r) \<noteq> head_ix (queue r) \<Longrightarrow>
    spsc_step r (r\<lparr>consumer := C_checked (next_tail (queue r))\<rparr>)"
| pop_load: "consumer r = C_checked n \<Longrightarrow>
    spsc_step r (r\<lparr>consumer := C_loaded n (slots_of (queue r) ! n)\<rparr>)"
| pop_move: "consumer r = C_loaded n x \<Longrightarrow>
    spsc_step r (r\<lparr>queue := (queue r)\<lparr>shadow_tail := n\<rparr>, consumer := C_moved, received := received r @ [x]\<rparr>)"
| pop_release: "consumer r = C_moved \<Longrightarrow> shadow_tail (queue r) AND QUEUE_WATERMARK_MASK = 0 \<Longrightarrow>
    spsc_step r (r\<lparr>queue := (queue r)\<lparr>tail_ix := shadow_tail (queue r)\<rparr>, consumer := C_idle,
      released := length (received r)\<rparr>)"
| pop_defer: "consumer r = C_moved \<Longrightarrow> shadow_tail (queue r) AND QUEUE_WATERMARK_MASK \<noteq> 0 \<Longrightarrow>
    spsc_step r (r\<lparr>consumer := C_idle\<rparr>)"

definition spsc_start :: "'a spsc \<Rightarrow> 'a spsc_run" where
  "spsc_start q = \<lparr>queue = q, producer = P_idle, consumer = C_idle, sent = [], received = [], published = 0, released = 0\<rparr>"

inductive spsc_reach :: "int \<Rightarrow> 'a spsc_run \<Rightarrow> bool" for n where
  reach_start: "spsc_reach n (spsc_start (spsc_init n))"
| reach_step: "spsc_reach n r \<Longrightarrow> spsc_step r r' \<Longrightarrow> spsc_reach n r'"

section \<open>Indices\<close>

lemma mask_mod: "x AND (2 ^ k - 1) = (x :: nat) mod 2 ^ k"
  by (simp only: mask_eq_exp_minus_1 [symmetric] take_bit_eq_mask [symmetric] take_bit_eq_mod)

lemma queue_size_power: "\<exists>k \<ge> 9. queue_size n = 2 ^ k"
proof -
  have "bit_len 256 \<le> bit_len (nat (if n < 256 then 256 else n))"
  proof -
    have "256 \<le> nat (if n < 256 then 256 else n)" by (auto simp: le_nat_iff)
    moreover have "nat (if n < 256 then 256 else n) < 2 ^ bit_len (nat (if n < 256 then 256 else n))"
      using bit_len_le by blast
    ultimately show ?thesis by (simp only: bit_len_le)
  qed
  moreover have "\<not> bit_len 256 \<le> 8" by (simp add: bit_len_le)
  ultimately show ?thesis by (auto simp: queue_size_def intro!: exI)
qed

text \<open>Indices less than the size apart are equal only if they are the same.\<close>

lemma mod_eq_close:
  fixes i j :: nat
  assumes "i mod m = j mod m" and "i \<le> j" and "j - i < m"
  shows "i = j"
proof -
  have "m dvd j - i" using assms(1) [symmetric] assms(2) by (simp add: mod_eq_dvd_iff_nat)
  with assms(2,3) show ?thesis by (auto dest: dvd_imp_le)
qed

lemma mod_pred:
  fixes m :: nat
  assumes "0 < m"
  shows "((c + m - 1) mod m + 1) mod m = c mod m"
proof -
  have "((c + m - 1) mod m + 1) mod m = (c + m - 1 + 1) mod m" by (simp only: mod_add_left_eq)
  also have "c + m - 1 + 1 = c + m" using assms by simp
  finally show ?thesis by simp
qed

section \<open>The invariant\<close>

text \<open>
  The indices are the history's lengths on the ring: \<^term>\<open>released r\<close> pops are known to the
  producer, \<^term>\<open>published r\<close> pushes to the consumer.
\<close>

fun producer_ok :: "'a spsc_run \<Rightarrow> 'a producer \<Rightarrow> bool" where
  "producer_ok r P_idle = True"
| "producer_ok r (P_checked f x n) = (n = next_head (queue r) \<and> length (sent r) < released r + QSIZE (queue r) - 2)"
| "producer_ok r (P_stored f x n) = (n = next_head (queue r) \<and> length (sent r) < released r + QSIZE (queue r) - 2 \<and>
     slots_of (queue r) ! shadow_head (queue r) = Some x)"
| "producer_ok r (P_moved f) = True"

fun consumer_ok :: "'a spsc_run \<Rightarrow> 'a consumer \<Rightarrow> bool" where
  "consumer_ok r C_idle = True"
| "consumer_ok r (C_checked n) = (n = next_tail (queue r) \<and> length (received r) < published r)"
| "consumer_ok r (C_loaded n x) = (n = next_tail (queue r) \<and> length (received r) < published r \<and>
     x = Some (sent r ! length (received r)))"
| "consumer_ok r C_moved = True"

definition spsc_inv :: "'a spsc_run \<Rightarrow> bool" where
  "spsc_inv r \<longleftrightarrow> (\<exists>k \<ge> 9. QSIZE (queue r) = 2 ^ k) \<and> length (slots_of (queue r)) = QSIZE (queue r) \<and>
     released r \<le> length (received r) \<and> length (received r) \<le> published r \<and> published r \<le> length (sent r) \<and>
     length (sent r) \<le> released r + QSIZE (queue r) - 2 \<and>
     shadow_head (queue r) = length (sent r) mod QSIZE (queue r) \<and>
     head_ix (queue r) = published r mod QSIZE (queue r) \<and>
     shadow_tail (queue r) = (length (received r) + QSIZE (queue r) - 1) mod QSIZE (queue r) \<and>
     tail_ix (queue r) = (released r + QSIZE (queue r) - 1) mod QSIZE (queue r) \<and>
     (\<forall>i. length (received r) \<le> i \<longrightarrow> i < length (sent r) \<longrightarrow> slots_of (queue r) ! (i mod QSIZE (queue r)) = Some (sent r ! i)) \<and>
     received r = map Some (take (length (received r)) (sent r)) \<and>
     producer_ok r (producer r) \<and> consumer_ok r (consumer r)"

lemma spsc_invD:
  assumes "spsc_inv r"
  shows "512 \<le> QSIZE (queue r)" "next_head (queue r) = Suc (length (sent r)) mod QSIZE (queue r)"
    "next_tail (queue r) = length (received r) mod QSIZE (queue r)"
    "released r \<le> length (received r)" "length (received r) \<le> published r" "published r \<le> length (sent r)"
    "length (sent r) \<le> released r + QSIZE (queue r) - 2"
proof -
  obtain k where k: "9 \<le> k" "QSIZE (queue r) = 2 ^ k" using assms by (auto simp: spsc_inv_def)
  have "(2 :: nat) ^ 9 \<le> 2 ^ k" by (rule power_increasing) (use k in simp_all)
  then show "512 \<le> QSIZE (queue r)" using k by simp
  have "next_head (queue r) = (length (sent r) mod QSIZE (queue r) + 1) mod QSIZE (queue r)"
    using assms k(2) by (simp add: next_head_def QUEUE_ITEMS_MASK_def mask_mod spsc_inv_def del: One_nat_def)
  then show "next_head (queue r) = Suc (length (sent r)) mod QSIZE (queue r)" by (simp add: mod_Suc_eq)
  have "next_tail (queue r) = ((length (received r) + QSIZE (queue r) - 1) mod QSIZE (queue r) + 1) mod QSIZE (queue r)"
    using assms k(2) by (simp add: next_tail_def QUEUE_ITEMS_MASK_def mask_mod spsc_inv_def del: One_nat_def)
  then show "next_tail (queue r) = length (received r) mod QSIZE (queue r)"
    using mod_pred [of "QSIZE (queue r)" "length (received r)"] k by simp
qed (use assms in \<open>simp_all add: spsc_inv_def\<close>)

lemma spsc_inv_fields:
  assumes "spsc_inv r"
  shows "shadow_head (queue r) = length (sent r) mod QSIZE (queue r)" "length (slots_of (queue r)) = QSIZE (queue r)"
    "length (received r) \<le> i \<Longrightarrow> i < length (sent r) \<Longrightarrow> slots_of (queue r) ! (i mod QSIZE (queue r)) = Some (sent r ! i)"
    "producer_ok r (producer r)" "consumer_ok r (consumer r)"
  using assms by (simp_all add: spsc_inv_def)

lemma not_empty_iff:
  assumes "spsc_inv r"
  shows "next_tail (queue r) = head_ix (queue r) \<longleftrightarrow> length (received r) = published r"
proof
  note d = spsc_invD [OF assms]
  assume "next_tail (queue r) = head_ix (queue r)"
  then have "length (received r) mod QSIZE (queue r) = published r mod QSIZE (queue r)"
    using d(3) assms by (simp add: spsc_inv_def)
  then show "length (received r) = published r"
    by (rule mod_eq_close) (use d in linarith)+
next
  assume "length (received r) = published r"
  then show "next_tail (queue r) = head_ix (queue r)"
    using spsc_invD(3) [OF assms] assms by (simp add: spsc_inv_def)
qed

lemma not_full_iff:
  assumes "spsc_inv r"
  shows "tail_ix (queue r) = next_head (queue r) \<longleftrightarrow> length (sent r) = released r + QSIZE (queue r) - 2"
proof
  note d = spsc_invD [OF assms]
  have t: "tail_ix (queue r) = (released r + QSIZE (queue r) - 1) mod QSIZE (queue r)" using assms by (simp add: spsc_inv_def)
  show "length (sent r) = released r + QSIZE (queue r) - 2" if "tail_ix (queue r) = next_head (queue r)"
  proof -
    have e: "Suc (length (sent r)) mod QSIZE (queue r) = (released r + QSIZE (queue r) - 1) mod QSIZE (queue r)"
      using that t d(2) by simp
    have "Suc (length (sent r)) = released r + QSIZE (queue r) - 1"
      by (rule mod_eq_close [OF e]) (use d in linarith)+
    then show ?thesis using d(1) by linarith
  qed
  show "tail_ix (queue r) = next_head (queue r)" if "length (sent r) = released r + QSIZE (queue r) - 2"
  proof -
    have "Suc (length (sent r)) = released r + QSIZE (queue r) - 1" using that d(1) by linarith
    then show ?thesis using t d(2) by simp
  qed
qed

lemma next_head_queue [simp]:
  "next_head (q\<lparr>slots_of := xs\<rparr>) = next_head q" "next_head (q\<lparr>head_ix := h\<rparr>) = next_head q"
  "next_head (q\<lparr>shadow_tail := h\<rparr>) = next_head q" "next_head (q\<lparr>tail_ix := h\<rparr>) = next_head q"
  "next_tail (q\<lparr>slots_of := xs\<rparr>) = next_tail q" "next_tail (q\<lparr>head_ix := h\<rparr>) = next_tail q"
  "next_tail (q\<lparr>shadow_head := h\<rparr>) = next_tail q" "next_tail (q\<lparr>tail_ix := h\<rparr>) = next_tail q"
  by (simp_all add: next_head_def next_tail_def QUEUE_ITEMS_MASK_def)

lemma push_store_inv:
  assumes r: "spsc_inv r" and p: "producer r = P_checked f x n"
  shows "spsc_inv (r\<lparr>queue := (queue r)\<lparr>slots_of := (slots_of (queue r))[shadow_head (queue r) := Some x]\<rparr>,
      producer := P_stored f x n\<rparr>)"
proof -
  note d = spsc_invD [OF r]
  let ?Q = "QSIZE (queue r)" and ?s = "sent r"
  have sh: "shadow_head (queue r) = length ?s mod ?Q" "length (slots_of (queue r)) = ?Q" using r by (simp_all add: spsc_inv_def)
  have lt: "length ?s mod ?Q < length (slots_of (queue r))" using d(1) sh by simp
  have "length ?s mod ?Q \<noteq> i mod ?Q" if "length (received r) \<le> i" "i < length ?s" for i
  proof
    assume e: "length ?s mod ?Q = i mod ?Q"
    have "i = length ?s" by (rule mod_eq_close [OF e [symmetric]]) (use that d in linarith)+
    with that show False by simp
  qed
  then have slots: "\<forall>i. length (received r) \<le> i \<longrightarrow> i < length ?s \<longrightarrow>
      (slots_of (queue r))[length ?s mod ?Q := Some x] ! (i mod ?Q) = Some (?s ! i)"
    using spsc_inv_fields(3) [OF r] by simp
  have "consumer_ok (r\<lparr>queue := (queue r)\<lparr>slots_of := (slots_of (queue r))[shadow_head (queue r) := Some x]\<rparr>,
      producer := P_stored f x n\<rparr>) (consumer r)"
    using spsc_inv_fields(5) [OF r] by (cases "consumer r") simp_all
  then show ?thesis
    using r p sh slots lt by (simp add: spsc_inv_def)
qed

lemma push_move_inv:
  assumes r: "spsc_inv r" and p: "producer r = P_stored f x n"
  shows "spsc_inv (r\<lparr>queue := (queue r)\<lparr>shadow_head := n\<rparr>, producer := P_moved f, sent := sent r @ [x]\<rparr>)"
proof -
  note d = spsc_invD [OF r]
  have n: "n = Suc (length (sent r)) mod QSIZE (queue r)" "length (sent r) < released r + QSIZE (queue r) - 2"
    "slots_of (queue r) ! (length (sent r) mod QSIZE (queue r)) = Some x"
    using spsc_inv_fields(4) [OF r] p d(2) by (simp_all flip: spsc_inv_fields(1) [OF r])
  have "slots_of (queue r) ! (i mod QSIZE (queue r)) = Some ((sent r @ [x]) ! i)"
    if "length (received r) \<le> i" "i < Suc (length (sent r))" for i
    using spsc_inv_fields(3) [OF r, of i] that n(3) by (cases "i = length (sent r)") (auto simp: nth_append)
  moreover have "consumer_ok (r\<lparr>queue := (queue r)\<lparr>shadow_head := n\<rparr>, producer := P_moved f, sent := sent r @ [x]\<rparr>) (consumer r)"
    using spsc_inv_fields(5) [OF r] d by (cases "consumer r") (simp_all add: nth_append)
  ultimately show ?thesis using r n(1,2) d by (simp add: spsc_inv_def)
qed

lemma pop_move_inv:
  assumes r: "spsc_inv r" and c: "consumer r = C_loaded n x"
  shows "spsc_inv (r\<lparr>queue := (queue r)\<lparr>shadow_tail := n\<rparr>, consumer := C_moved, received := received r @ [x]\<rparr>)"
proof -
  note d = spsc_invD [OF r]
  let ?c = "length (received r)"
  have n: "n = ?c mod QSIZE (queue r)" "x = Some (sent r ! ?c)" "?c < published r"
    using r c d(3) by (simp_all add: spsc_inv_def)
  have "take (Suc ?c) (sent r) = take ?c (sent r) @ [sent r ! ?c]"
    by (rule take_Suc_conv_app_nth) (use n(3) d in linarith)
  moreover have "received r = map Some (take ?c (sent r))" using r by (simp add: spsc_inv_def)
  ultimately have "received r @ [x] = map Some (take (Suc ?c) (sent r))" using n(2) by simp
  moreover have "(Suc ?c + QSIZE (queue r) - 1) mod QSIZE (queue r) = n" using n(1) d(1) by simp
  moreover have "producer_ok (r\<lparr>queue := (queue r)\<lparr>shadow_tail := n\<rparr>, consumer := C_moved, received := received r @ [x]\<rparr>) (producer r)"
    using spsc_inv_fields(4) [OF r] by (cases "producer r") simp_all
  ultimately show ?thesis using r n(3) d by (simp add: spsc_inv_def)
qed

lemma spsc_step_inv:
  assumes "spsc_step r r'" and "spsc_inv r"
  shows "spsc_inv r'"
  using assms
proof cases
  case (push_check f x)
  then have "producer_ok r (P_checked f x (next_head (queue r)))"
    using not_full_iff [OF assms(2)] spsc_invD(7) [OF assms(2)] by simp
  with push_check assms(2) spsc_inv_fields(5) [OF assms(2)] show ?thesis
    by (cases "consumer r") (simp_all add: spsc_inv_def)
next
  case (push_store f x n)
  then show ?thesis using push_store_inv [OF assms(2)] by simp
next
  case (push_move f x n)
  then show ?thesis using push_move_inv [OF assms(2)] by simp
next
  case (push_publish f)
  then show ?thesis
    using assms(2) spsc_invD [OF assms(2)] spsc_inv_fields(5) [OF assms(2)]
    by (cases "consumer r") (auto simp: spsc_inv_def)
next
  case (push_defer f)
  then show ?thesis
    using assms(2) spsc_inv_fields(5) [OF assms(2)] by (cases "consumer r") (simp_all add: spsc_inv_def)
next
  case pop_check
  then have "consumer_ok r (C_checked (next_tail (queue r)))"
    using not_empty_iff [OF assms(2)] spsc_invD(5) [OF assms(2)] by simp
  with pop_check assms(2) spsc_inv_fields(4) [OF assms(2)] show ?thesis
    by (cases "producer r") (simp_all add: spsc_inv_def)
next
  case (pop_load n)
  note d = spsc_invD [OF assms(2)]
  have n: "n = length (received r) mod QSIZE (queue r)" "length (received r) < published r"
    using spsc_inv_fields(5) [OF assms(2)] pop_load d(3) by simp_all
  then have "slots_of (queue r) ! n = Some (sent r ! length (received r))"
    using spsc_inv_fields(3) [OF assms(2), of "length (received r)"] d by simp
  then have "consumer_ok r (C_loaded n (slots_of (queue r) ! n))" using n d(3) by simp
  with pop_load assms(2) spsc_inv_fields(4) [OF assms(2)] show ?thesis
    by (cases "producer r") (simp_all add: spsc_inv_def)
next
  case (pop_move n x)
  then show ?thesis using pop_move_inv [OF assms(2)] by simp
next
  case pop_release
  then show ?thesis
    using assms(2) spsc_invD [OF assms(2)] spsc_inv_fields(4) [OF assms(2)]
    by (cases "producer r") (auto simp: spsc_inv_def)
next
  case pop_defer
  then show ?thesis
    using assms(2) spsc_inv_fields(4) [OF assms(2)] by (cases "producer r") (simp_all add: spsc_inv_def)
qed simp_all

lemma spsc_start_inv: "spsc_inv (spsc_start (spsc_init n))"
proof -
  obtain k where k: "9 \<le> k" "queue_size n = 2 ^ k" using queue_size_power by blast
  have "(2 :: nat) ^ 9 \<le> 2 ^ k" by (rule power_increasing) (use k in simp_all)
  with k show ?thesis by (auto simp: spsc_inv_def spsc_start_def spsc_init_def new_spsc_def)
qed

lemma spsc_reach_inv: "spsc_reach n r \<Longrightarrow> spsc_inv r"
  by (induction rule: spsc_reach.induct) (auto intro: spsc_start_inv spsc_step_inv)

section \<open>Operations as runs of steps\<close>

lemma four_steps: "R a b \<Longrightarrow> R b c \<Longrightarrow> R c d \<Longrightarrow> R d e \<Longrightarrow> R\<^sup>*\<^sup>* a e"
  by (meson rtranclp.rtrancl_into_rtrancl rtranclp.rtrancl_refl)

lemma push_run:
  assumes "producer r = P_idle" and "fst (spsc_push f x (queue r)) = 0"
  shows "\<exists>r'. spsc_step\<^sup>*\<^sup>* r r' \<and> queue r' = snd (spsc_push f x (queue r)) \<and> producer r' = P_idle \<and>
     consumer r' = consumer r \<and> sent r' = sent r @ [x] \<and> received r' = received r \<and> released r' = released r \<and>
     (f \<longrightarrow> published r' = length (sent r'))"
proof -
  let ?q = "queue r"
  have free: "tail_ix ?q \<noteq> next_head ?q" using assms(2) by (auto simp: spsc_push_def split: if_splits)
  define r1 where "r1 = r\<lparr>producer := P_checked f x (next_head ?q)\<rparr>"
  define r2 where "r2 = r1\<lparr>queue := ?q\<lparr>slots_of := (slots_of ?q)[shadow_head ?q := Some x]\<rparr>, producer := P_stored f x (next_head ?q)\<rparr>"
  define r3 where "r3 = r2\<lparr>queue := (queue r2)\<lparr>shadow_head := next_head ?q\<rparr>, producer := P_moved f, sent := sent r @ [x]\<rparr>"
  have s1: "spsc_step r r1" unfolding r1_def by (rule spsc_step.push_check [OF assms(1) free])
  have s2: "spsc_step r1 r2" using spsc_step.push_store [of r1 f x "next_head ?q"] by (simp add: r2_def r1_def)
  have s3: "spsc_step r2 r3" using spsc_step.push_move [of r2 f x "next_head ?q"] by (simp add: r3_def r2_def r1_def)
  have sh: "shadow_head (queue r3) = next_head ?q" "producer r3 = P_moved f" by (simp_all add: r3_def)
  show ?thesis
  proof (cases "f \<or> next_head ?q AND QUEUE_WATERMARK_MASK = 0")
    case True
    define r4 where "r4 = r3\<lparr>queue := (queue r3)\<lparr>head_ix := next_head ?q\<rparr>, producer := P_idle, published := length (sent r3)\<rparr>"
    have s4: "spsc_step r3 r4" using spsc_step.push_publish [of r3 f] sh True by (simp add: r4_def)
    have "spsc_step\<^sup>*\<^sup>* r r4" using s1 s2 s3 s4 by (rule four_steps)
    moreover have "queue r4 = snd (spsc_push f x ?q)"
      using free True by (simp add: r4_def r3_def r2_def r1_def spsc_push_def)
    ultimately show ?thesis by (intro exI [of _ r4]) (simp add: r4_def r3_def r2_def r1_def)
  next
    case False
    define r4 where "r4 = r3\<lparr>producer := P_idle\<rparr>"
    have s4: "spsc_step r3 r4" using spsc_step.push_defer [of r3 f] sh False by (simp add: r4_def)
    have "spsc_step\<^sup>*\<^sup>* r r4" using s1 s2 s3 s4 by (rule four_steps)
    moreover have "queue r4 = snd (spsc_push f x ?q)"
      using free False by (simp add: r4_def r3_def r2_def r1_def spsc_push_def)
    ultimately show ?thesis using False by (intro exI [of _ r4]) (simp add: r4_def r3_def r2_def r1_def)
  qed
qed

lemma pop_run:
  assumes "consumer r = C_idle" and "fst (spsc_pop (queue r)) = 0"
  shows "\<exists>r'. spsc_step\<^sup>*\<^sup>* r r' \<and> queue r' = snd (snd (spsc_pop (queue r))) \<and> consumer r' = C_idle \<and>
     producer r' = producer r \<and> sent r' = sent r \<and> received r' = received r @ [fst (snd (spsc_pop (queue r)))] \<and>
     published r' = published r"
proof -
  let ?q = "queue r"
  have some: "next_tail ?q \<noteq> head_ix ?q" using assms(2) by (auto simp: spsc_pop_def split: if_splits)
  define r1 where "r1 = r\<lparr>consumer := C_checked (next_tail ?q)\<rparr>"
  define r2 where "r2 = r1\<lparr>consumer := C_loaded (next_tail ?q) (slots_of ?q ! next_tail ?q)\<rparr>"
  define r3 where "r3 = r2\<lparr>queue := ?q\<lparr>shadow_tail := next_tail ?q\<rparr>, consumer := C_moved,
      received := received r @ [slots_of ?q ! next_tail ?q]\<rparr>"
  have s1: "spsc_step r r1" unfolding r1_def by (rule spsc_step.pop_check [OF assms(1) some])
  have s2: "spsc_step r1 r2" using spsc_step.pop_load [of r1 "next_tail ?q"] by (simp add: r2_def r1_def)
  have s3: "spsc_step r2 r3"
    using spsc_step.pop_move [of r2 "next_tail ?q" "slots_of ?q ! next_tail ?q"] by (simp add: r3_def r2_def r1_def)
  have st: "shadow_tail (queue r3) = next_tail ?q" "consumer r3 = C_moved" by (simp_all add: r3_def)
  show ?thesis
  proof (cases "next_tail ?q AND QUEUE_WATERMARK_MASK = 0")
    case True
    define r4 where "r4 = r3\<lparr>queue := (queue r3)\<lparr>tail_ix := next_tail ?q\<rparr>, consumer := C_idle, released := length (received r3)\<rparr>"
    have s4: "spsc_step r3 r4" using spsc_step.pop_release [of r3] st True by (simp add: r4_def)
    have "spsc_step\<^sup>*\<^sup>* r r4" using s1 s2 s3 s4 by (rule four_steps)
    then show ?thesis
      using some True by (intro exI [of _ r4]) (simp add: r4_def r3_def r2_def r1_def spsc_pop_def)
  next
    case False
    define r4 where "r4 = r3\<lparr>consumer := C_idle\<rparr>"
    have s4: "spsc_step r3 r4" using spsc_step.pop_defer [of r3] st False by (simp add: r4_def)
    have "spsc_step\<^sup>*\<^sup>* r r4" using s1 s2 s3 s4 by (rule four_steps)
    then show ?thesis
      using some False by (intro exI [of _ r4]) (simp add: r4_def r3_def r2_def r1_def spsc_pop_def)
  qed
qed

lemma spsc_steps_inv: "spsc_step\<^sup>*\<^sup>* r r' \<Longrightarrow> spsc_inv r \<Longrightarrow> spsc_inv r'"
  by (induction rule: rtranclp_induct) (auto intro: spsc_step_inv)

section \<open>How far the consumer is behind\<close>

text \<open>The consumer releases at every multiple of the watermark, so less than 256 pops are unknown.\<close>

definition lag_ok :: "'a spsc_run \<Rightarrow> bool" where
  "lag_ok r \<longleftrightarrow> (\<forall>j. released r < j \<longrightarrow> j \<le> length (received r) \<longrightarrow> consumer r = C_moved \<and> j = length (received r) \<or>
     (j - 1) mod QUEUE_WATERMARK \<noteq> 0)"

lemma watermark_dvd: "spsc_inv r \<Longrightarrow> QUEUE_WATERMARK dvd QSIZE (queue r)"
proof -
  assume "spsc_inv r"
  then obtain k where k: "9 \<le> k" "QSIZE (queue r) = 2 ^ k" by (auto simp: spsc_inv_def)
  have "(2 :: nat) ^ 8 dvd 2 ^ k" using k(1) by (intro le_imp_power_dvd) simp
  then show ?thesis using k(2) by simp
qed

lemma release_point:
  assumes "spsc_inv r" and "0 < length (received r)"
  shows "shadow_tail (queue r) AND QUEUE_WATERMARK_MASK = 0 \<longleftrightarrow> (length (received r) - 1) mod QUEUE_WATERMARK = 0"
proof -
  have "shadow_tail (queue r) AND QUEUE_WATERMARK_MASK = shadow_tail (queue r) mod 2 ^ 8"
    using mask_mod [of "shadow_tail (queue r)" 8] by (simp add: QUEUE_WATERMARK_MASK_def)
  also have "\<dots> = (length (received r) + QSIZE (queue r) - 1) mod QSIZE (queue r) mod QUEUE_WATERMARK"
    using assms(1) by (simp add: spsc_inv_def)
  also have "\<dots> = (length (received r) + QSIZE (queue r) - 1) mod QUEUE_WATERMARK"
    using watermark_dvd [OF assms(1)] by (rule mod_mod_cancel)
  also have "length (received r) + QSIZE (queue r) - 1 = length (received r) - 1 + QSIZE (queue r)"
    using assms(2) by linarith
  also have "(length (received r) - 1 + QSIZE (queue r)) mod QUEUE_WATERMARK = (length (received r) - 1) mod QUEUE_WATERMARK"
    using watermark_dvd [OF assms(1)] by (metis add_0_right dvd_imp_mod_0 mod_add_right_eq)
  finally show ?thesis by simp
qed

lemma lag_step:
  assumes "spsc_step r r'" and "spsc_inv r" and "lag_ok r" and "consumer r = C_moved \<longrightarrow> 0 < length (received r)"
  shows "lag_ok r' \<and> (consumer r' = C_moved \<longrightarrow> 0 < length (received r'))"
  using assms(1)
proof cases
  case (pop_move n x)
  then show ?thesis using assms(3) by (auto simp: lag_ok_def le_Suc_eq)
next
  case pop_defer
  then show ?thesis using assms release_point [OF assms(2)] by (auto simp: lag_ok_def)
qed (use assms in \<open>auto simp: lag_ok_def\<close>)

lemma spsc_reach_lag: "spsc_reach n r \<Longrightarrow> lag_ok r \<and> (consumer r = C_moved \<longrightarrow> 0 < length (received r))"
proof (induction rule: spsc_reach.induct)
  case reach_start
  then show ?case by (simp add: lag_ok_def spsc_start_def)
next
  case (reach_step r r')
  then show ?case using lag_step spsc_reach_inv by blast
qed

lemma lag_small:
  assumes "lag_ok r"
  shows "length (received r) < released r + QUEUE_WATERMARK + (if consumer r = C_moved then 1 else 0)"
proof (rule ccontr)
  let ?w = "QUEUE_WATERMARK"
  assume a: "\<not> length (received r) < released r + ?w + (if consumer r = C_moved then 1 else 0)"
  define j where "j = ((released r + ?w - 1) div ?w) * ?w + 1"
  have "released r + ?w - 1 < ((released r + ?w - 1) div ?w) * ?w + ?w"
    using div_mult_mod_eq [of "released r + ?w - 1" ?w] mod_less_divisor [of ?w "released r + ?w - 1"] by linarith
  then have "released r < j" by (simp add: j_def)
  moreover have "j \<le> released r + ?w" using div_times_less_eq_dividend [of "released r + ?w - 1" ?w] by (simp add: j_def)
  moreover have "(j - 1) mod ?w = 0" by (simp add: j_def)
  ultimately show False using assms a by (cases "consumer r = C_moved") (auto simp: lag_ok_def)
qed

section \<open>The contract of a bounded queue\<close>

locale fifo =
  fixes push :: "'a \<Rightarrow> 'q \<Rightarrow> nat \<times> 'q"
    and pop :: "'q \<Rightarrow> nat \<times> 'a option \<times> 'q"
    and content :: "'q \<Rightarrow> 'a list"
    and invar :: "'q \<Rightarrow> bool"
  assumes push_takes: "invar q \<Longrightarrow> fst (push x q) = 0 \<Longrightarrow>
      invar (snd (push x q)) \<and> content (snd (push x q)) = content q @ [x]"
    and push_refuses: "invar q \<Longrightarrow> fst (push x q) \<noteq> 0 \<Longrightarrow> snd (push x q) = q"
    and pop_gives: "invar q \<Longrightarrow> content q = x # xs \<Longrightarrow> \<exists>q'. pop q = (0, Some x, q') \<and> invar q' \<and> content q' = xs"
    and pop_refuses: "invar q \<Longrightarrow> content q = [] \<Longrightarrow> pop q = (1, None, q)"

text \<open>Pushing a list, and popping until the queue is empty (with fuel).\<close>

fun push_list :: "('a \<Rightarrow> 'q \<Rightarrow> nat \<times> 'q) \<Rightarrow> 'a list \<Rightarrow> 'q \<Rightarrow> 'q" where
  "push_list push [] q = q"
| "push_list push (x # xs) q = push_list push xs (snd (push x q))"

fun pop_list :: "('q \<Rightarrow> nat \<times> 'a option \<times> 'q) \<Rightarrow> nat \<Rightarrow> 'q \<Rightarrow> ('a option list \<times> 'q) option" where
  "pop_list pop 0 q = None"
| "pop_list pop (Suc n) q = (case pop q of (c, x, q') \<Rightarrow>
     if c = 0 then map_option (\<lambda>(xs, q2). (x # xs, q2)) (pop_list pop n q') else Some ([], q'))"

context fifo begin

lemma push_invar: "invar q \<Longrightarrow> invar (snd (push x q))"
  using push_takes push_refuses by (cases "fst (push x q) = 0") auto

text \<open>Popping until empty gives the content in order; one call more than its length is enough.\<close>

lemma pop_list_content:
  "invar q \<Longrightarrow> length (content q) < n \<Longrightarrow>
   \<exists>q'. pop_list pop n q = Some (map Some (content q), q') \<and> invar q' \<and> content q' = []"
proof (induction n arbitrary: q)
  case 0
  then show ?case by simp
next
  case (Suc n)
  show ?case
  proof (cases "content q")
    case Nil
    then show ?thesis using pop_refuses [OF Suc.prems(1)] Suc.prems(1) by simp
  next
    case (Cons x xs)
    then obtain q1 where q1: "pop q = (0, Some x, q1)" "invar q1" "content q1 = xs"
      using pop_gives [OF Suc.prems(1)] by blast
    with Suc.IH [of q1] Suc.prems(2) Cons show ?thesis by auto
  qed
qed

end

locale bounded_fifo = fifo +
  fixes room :: "'b \<Rightarrow> nat"
  assumes push_room: "invar q \<Longrightarrow> (fst (push x q) = 0) = (0 < room q)"
    and room_push: "invar q \<Longrightarrow> 0 < room q \<Longrightarrow> Suc (room (snd (push x q))) = room q"
begin

lemma push_list_content:
  "invar q \<Longrightarrow> invar (push_list push xs q) \<and> content (push_list push xs q) = content q @ take (room q) xs"
proof (induction xs arbitrary: q)
  case Nil
  then show ?case by simp
next
  case (Cons x xs)
  show ?case
  proof (cases "0 < room q")
    case True
    then have "content (snd (push x q)) = content q @ [x]" "invar (snd (push x q))"
      using push_takes [OF Cons.prems] push_room [OF Cons.prems] by auto
    moreover have "Suc (room (snd (push x q))) = room q" by (rule room_push [OF Cons.prems True])
    ultimately show ?thesis using Cons.IH [of "snd (push x q)"] by (simp flip: \<open>Suc (room (snd (push x q))) = room q\<close>)
  next
    case False
    then have "snd (push x q) = q" using push_refuses [OF Cons.prems] push_room [OF Cons.prems] by auto
    with False Cons.IH [OF Cons.prems] show ?thesis by simp
  qed
qed

end

section \<open>The queue between operations\<close>

text \<open>Nobody inside an operation, everything pushed published.\<close>

definition quiet :: "'a spsc_run \<Rightarrow> bool" where
  "quiet r \<longleftrightarrow> spsc_inv r \<and> producer r = P_idle \<and> consumer r = C_idle \<and> published r = length (sent r)"

definition spsc_invar :: "'a spsc \<Rightarrow> bool" where
  "spsc_invar q \<longleftrightarrow> (\<exists>r. quiet r \<and> queue r = q)"

definition spsc_content :: "'a spsc \<Rightarrow> 'a list" where
  "spsc_content q = map (\<lambda>i. the (slots_of q ! ((next_tail q + i) mod QSIZE q)))
     [0..<(head_ix q + QSIZE q - next_tail q) mod QSIZE q]"

definition spsc_room :: "'a spsc \<Rightarrow> nat" where
  "spsc_room q = (tail_ix q + QSIZE q - next_head q) mod QSIZE q"

lemma mod_diff:
  fixes a b m :: nat
  assumes "a \<le> b" and "b - a < m"
  shows "(b mod m + m - a mod m) mod m = b - a"
proof -
  have m: "a mod m < m" using assms by simp
  have "(b mod m + m - a mod m) mod m = (b mod m + (m - a mod m)) mod m" using m by simp
  also have "\<dots> = (b + (m - a mod m)) mod m" by (simp add: mod_add_left_eq)
  also have "b + (m - a mod m) = (b - a) + (a div m * m + m)"
    using assms(1) m div_mult_mod_eq [of a m] by linarith
  also have "\<dots> = (b - a) + Suc (a div m) * m" by simp
  also have "\<dots> mod m = (b - a) mod m" by (rule mod_mult_self1)
  finally show ?thesis using assms(2) by simp
qed

lemma waiting_eq:
  assumes "spsc_inv r"
  shows "(head_ix (queue r) + QSIZE (queue r) - next_tail (queue r)) mod QSIZE (queue r) = published r - length (received r)"
proof -
  note d = spsc_invD [OF assms]
  have h: "head_ix (queue r) = published r mod QSIZE (queue r)" using assms by (simp add: spsc_inv_def)
  show ?thesis unfolding h d(3) by (rule mod_diff) (use d in linarith)+
qed

lemma spsc_content_eq:
  assumes "spsc_inv r" and "published r = length (sent r)"
  shows "spsc_content (queue r) = drop (length (received r)) (sent r)"
proof (rule nth_equalityI)
  note d = spsc_invD [OF assms(1)]
  show len: "length (spsc_content (queue r)) = length (drop (length (received r)) (sent r))"
    unfolding spsc_content_def using waiting_eq [OF assms(1)] assms(2) by simp
  fix i assume "i < length (spsc_content (queue r))"
  then have i: "i < length (sent r) - length (received r)" using len by simp
  have "(next_tail (queue r) + i) mod QSIZE (queue r) = (length (received r) + i) mod QSIZE (queue r)"
    unfolding d(3) by (simp add: mod_add_left_eq)
  then have "slots_of (queue r) ! ((next_tail (queue r) + i) mod QSIZE (queue r)) = Some (sent r ! (length (received r) + i))"
    using spsc_inv_fields(3) [OF assms(1), of "length (received r) + i"] i by simp
  then show "spsc_content (queue r) ! i = drop (length (received r)) (sent r) ! i"
    unfolding spsc_content_def waiting_eq [OF assms(1)] using i assms(2) by simp
qed

lemma spsc_room_eq:
  assumes "spsc_inv r"
  shows "spsc_room (queue r) = released r + QSIZE (queue r) - 2 - length (sent r)"
proof -
  note d = spsc_invD [OF assms]
  have t: "tail_ix (queue r) = (released r + QSIZE (queue r) - 1) mod QSIZE (queue r)" using assms by (simp add: spsc_inv_def)
  have "spsc_room (queue r) = released r + QSIZE (queue r) - 1 - Suc (length (sent r))"
    unfolding spsc_room_def t d(2) by (rule mod_diff) (use d in linarith)+
  then show ?thesis by simp
qed

lemma quiet_push:
  assumes "quiet r" and "fst (spsc_push True x (queue r)) = 0"
  shows "\<exists>r'. quiet r' \<and> queue r' = snd (spsc_push True x (queue r)) \<and> sent r' = sent r @ [x] \<and>
    received r' = received r \<and> released r' = released r"
  using push_run [of r True x] assms spsc_steps_inv by (fastforce simp: quiet_def)

lemma quiet_pop:
  assumes "quiet r" and "fst (spsc_pop (queue r)) = 0"
  shows "\<exists>r'. quiet r' \<and> queue r' = snd (snd (spsc_pop (queue r))) \<and> sent r' = sent r \<and>
    received r' = received r @ [fst (snd (spsc_pop (queue r)))]"
  using pop_run [of r] assms spsc_steps_inv by (fastforce simp: quiet_def)

lemma spsc_invarE:
  assumes "spsc_invar q"
  obtains r where "quiet r" "queue r = q" "spsc_inv r" "published r = length (sent r)"
    "spsc_content q = drop (length (received r)) (sent r)" "spsc_room q = released r + QSIZE q - 2 - length (sent r)"
proof -
  obtain r where r: "quiet r" "queue r = q" using assms by (auto simp: spsc_invar_def)
  then have i: "spsc_inv r" "published r = length (sent r)" by (simp_all add: quiet_def)
  show thesis
    by (rule that [OF r i]) (use spsc_content_eq [OF i] spsc_room_eq [OF i(1)] r(2) in simp_all)
qed

lemma spsc_full_iff: "spsc_invar q \<Longrightarrow> (fst (spsc_push True x q) = 0) = (0 < spsc_room q)"
proof (elim spsc_invarE)
  fix r assume r: "queue r = q" "spsc_inv r" "spsc_room q = released r + QSIZE q - 2 - length (sent r)"
  have "(fst (spsc_push True x q) = 0) = (tail_ix q \<noteq> next_head q)" by (simp add: spsc_push_def)
  then show ?thesis using not_full_iff [OF r(2)] r(1,3) spsc_invD(7) [OF r(2)] by auto
qed

lemma spsc_push_takes:
  assumes "spsc_invar q" and "fst (spsc_push True x q) = 0"
  shows "spsc_invar (snd (spsc_push True x q)) \<and> spsc_content (snd (spsc_push True x q)) = spsc_content q @ [x] \<and>
     Suc (spsc_room (snd (spsc_push True x q))) = spsc_room q"
proof -
  obtain r where r: "quiet r" "queue r = q" "spsc_inv r" "spsc_content q = drop (length (received r)) (sent r)"
      "spsc_room q = released r + QSIZE q - 2 - length (sent r)"
    using assms(1) by (elim spsc_invarE)
  obtain r' where r': "quiet r'" "queue r' = snd (spsc_push True x q)" "sent r' = sent r @ [x]" "received r' = received r"
      "released r' = released r"
    using quiet_push [OF r(1)] assms(2) r(2) by metis
  have i': "spsc_inv r'" "published r' = length (sent r')" using r'(1) by (simp_all add: quiet_def)
  have le: "length (received r) \<le> length (sent r)" using spsc_invD(5,6) [OF r(3)] by linarith
  have "QSIZE (queue r') = QSIZE q" unfolding r'(2) by (simp add: spsc_push_def)
  moreover have "0 < spsc_room q" using spsc_full_iff [OF assms(1)] assms(2) by blast
  ultimately have "Suc (spsc_room (queue r')) = spsc_room q"
    using spsc_room_eq [OF i'(1)] r' r(5) by simp
  moreover have "spsc_content (queue r') = spsc_content q @ [x]"
    using spsc_content_eq [OF i'] r' r(4) le by simp
  ultimately show ?thesis using r'(1,2) by (auto simp: spsc_invar_def)
qed

lemma spsc_pop_refuses: "spsc_invar q \<Longrightarrow> spsc_content q = [] \<Longrightarrow> spsc_pop q = (1, None, q)"
proof (elim spsc_invarE)
  fix r assume r: "spsc_content q = []" "queue r = q" "spsc_inv r" "published r = length (sent r)"
    "spsc_content q = drop (length (received r)) (sent r)"
  have "length (received r) = published r" using r(1,4,5) spsc_invD(5,6) [OF r(3)] by simp
  then show "spsc_pop q = (1, None, q)" using not_empty_iff [OF r(3)] r(2) by (simp add: spsc_pop_def)
qed

lemma spsc_pop_gives:
  assumes "spsc_invar q" and "spsc_content q = x # xs"
  shows "\<exists>q'. spsc_pop q = (0, Some x, q') \<and> spsc_invar q' \<and> spsc_content q' = xs"
proof -
  obtain r where r: "quiet r" "queue r = q" "spsc_inv r" "published r = length (sent r)"
      "spsc_content q = drop (length (received r)) (sent r)"
    using assms(1) by (elim spsc_invarE)
  have lt: "length (received r) < length (sent r)"
    using assms(2) r(5) by (cases "length (received r) < length (sent r)") auto
  then have ne: "next_tail q \<noteq> head_ix q" using not_empty_iff [OF r(3)] r(2,4) by auto
  then have ok: "fst (spsc_pop q) = 0" by (simp add: spsc_pop_def)
  obtain r' where r': "quiet r'" "queue r' = snd (snd (spsc_pop q))" "sent r' = sent r"
      "received r' = received r @ [fst (snd (spsc_pop q))]"
    using quiet_pop [OF r(1)] ok r(2) by metis
  have split: "drop (length (received r)) (sent r) = sent r ! length (received r) # drop (Suc (length (received r))) (sent r)"
    using lt by (simp add: Cons_nth_drop_Suc)
  have "fst (snd (spsc_pop q)) = slots_of q ! next_tail q" using ne by (simp add: spsc_pop_def)
  also have "\<dots> = Some (sent r ! length (received r))"
    using spsc_inv_fields(3) [OF r(3), of "length (received r)"] lt spsc_invD(3) [OF r(3)] r(2) by simp
  also have "sent r ! length (received r) = x" using assms(2) r(5) split by simp
  finally have val: "fst (snd (spsc_pop q)) = Some x" .
  have "spsc_content (queue r') = drop (length (received r')) (sent r')"
    using r'(1) by (intro spsc_content_eq) (auto simp: quiet_def)
  also have "\<dots> = xs" using r'(3,4) assms(2) r(5) split by simp
  finally have "spsc_content (snd (snd (spsc_pop q))) = xs" using r'(2) by simp
  moreover have "spsc_invar (snd (snd (spsc_pop q)))" using r'(1,2) by (auto simp: spsc_invar_def)
  moreover have "spsc_pop q = (0, Some x, snd (snd (spsc_pop q)))" using ok val by (metis prod.collapse)
  ultimately show ?thesis by blast
qed

interpretation spsc_fifo: bounded_fifo "spsc_push True" spsc_pop spsc_content spsc_invar spsc_room
proof
  fix q :: "'a spsc" and x
  assume q: "spsc_invar q"
  show "snd (spsc_push True x q) = q" if "fst (spsc_push True x q) \<noteq> 0"
    using that by (auto simp: spsc_push_def split: if_splits)
  show "(fst (spsc_push True x q) = 0) = (0 < spsc_room q)" by (rule spsc_full_iff [OF q])
  show "Suc (spsc_room (snd (spsc_push True x q))) = spsc_room q" if "0 < spsc_room q"
    using spsc_push_takes [OF q] spsc_full_iff [OF q] that by blast
qed (simp_all add: spsc_push_takes spsc_pop_gives spsc_pop_refuses)

lemma spsc_init_fifo:
  fixes q :: "'a spsc"
  assumes "q = spsc_init n"
  shows "spsc_invar q" "spsc_content q = []" "spsc_room q = queue_size n - 2"
proof -
  define r where "r = spsc_start q"
  have i: "spsc_inv r" unfolding r_def assms by (rule spsc_start_inv)
  have f: "queue r = q" "sent r = []" "received r = []" "published r = 0" "released r = 0" "QSIZE q = queue_size n"
    by (simp_all add: r_def assms spsc_start_def spsc_init_def new_spsc_def)
  have "producer r = P_idle" "consumer r = C_idle" by (simp_all add: r_def spsc_start_def)
  then have "quiet r" using i f by (simp add: quiet_def)
  then show "spsc_invar q" using f(1) by (auto simp: spsc_invar_def)
  show "spsc_content q = []" using spsc_content_eq [OF i] f by simp
  show "spsc_room q = queue_size n - 2" using spsc_room_eq [OF i] f by simp
qed

section \<open>Properties\<close>

lemma sample_ops: "spsc_reach 0 (spsc_start (spsc_init 0) :: nat spsc_run)"
  by (rule spsc_reach.reach_start)

text \<open>
  C31. Under every interleaving of a producer's and a consumer's accesses the queue is a bounded
  FIFO: the consumer has received exactly the first of the items sent, in order, and at most
  \<^term>\<open>queue_size n - 2\<close> items are under way.
\<close>

theorem spsc_interleaved_fifo:
  assumes "spsc_reach n r"
  shows "received r = map Some (take (length (received r)) (sent r)) \<and>
    length (received r) \<le> length (sent r) \<and> length (sent r) - length (received r) \<le> queue_size n - 2"
proof -
  have i: "spsc_inv r" by (rule spsc_reach_inv [OF assms])
  have "QSIZE (queue r) = queue_size n" using assms
  proof (induction rule: spsc_reach.induct)
    case reach_start
    then show ?case by (simp add: spsc_start_def spsc_init_def new_spsc_def)
  next
    case (reach_step r r')
    from reach_step.hyps(2) have "QSIZE (queue r') = QSIZE (queue r)" by cases simp_all
    with reach_step.IH show ?case by simp
  qed
  with i spsc_invD [OF i] show ?thesis by (auto simp: spsc_inv_def)
qed

definition sample_run :: "nat spsc_run" where
  "sample_run = (spsc_start (spsc_init 0))\<lparr>producer := P_checked True 7 (next_head (spsc_init 0 :: nat spsc))\<rparr>"

lemma smallest_queue: "queue_size 0 = 512" "Suc (Suc 0) AND 511 = 2"
  by code_simp (simp flip: numeral_2_eq_2)

lemma sample_run_reach: "spsc_reach 0 sample_run"
proof -
  have "tail_ix (spsc_init 0 :: nat spsc) \<noteq> next_head (spsc_init 0 :: nat spsc)"
    by (simp add: spsc_init_def new_spsc_def next_head_def QUEUE_ITEMS_MASK_def smallest_queue)
  then have "spsc_step (spsc_start (spsc_init 0)) sample_run"
    using spsc_step.push_check [of "spsc_start (spsc_init 0)" True 7] by (simp add: sample_run_def spsc_start_def)
  then show ?thesis by (rule spsc_reach.reach_step [OF spsc_reach.reach_start])
qed

theorem spsc_interleaved_fifo_witness:
  "received sample_run = map Some (take (length (received sample_run)) (sent sample_run))"
  using spsc_interleaved_fifo [OF sample_run_reach] by blast

text \<open>
  The slots are free of races: the slot a producer is about to write is never the one a
  consumer is about to read.
\<close>

theorem spsc_no_race:
  assumes "spsc_reach n r" and "producer r = P_checked f x m" and "consumer r = C_checked k"
  shows "shadow_head (queue r) \<noteq> k"
proof
  assume e: "shadow_head (queue r) = k"
  have i: "spsc_inv r" by (rule spsc_reach_inv [OF assms(1)])
  note d = spsc_invD [OF i]
  have c: "k = length (received r) mod QSIZE (queue r)" "length (received r) < published r"
    using spsc_inv_fields(5) [OF i] assms(3) d(3) by simp_all
  have eq: "length (received r) mod QSIZE (queue r) = length (sent r) mod QSIZE (queue r)"
    using e c(1) spsc_inv_fields(1) [OF i] by simp
  have "length (received r) = length (sent r)" by (rule mod_eq_close [OF eq]) (use d in linarith)+
  with c(2) d(6) show False by linarith
qed

lemma sample_race: "\<exists>r :: nat spsc_run. spsc_reach 0 r \<and> producer r = P_checked True 8 2 \<and> consumer r = C_checked 0"
proof -
  let ?s = "spsc_start (spsc_init 0 :: nat spsc)"
  have ok: "fst (spsc_push True 7 (queue ?s)) = 0"
    by (simp add: spsc_push_def spsc_start_def spsc_init_def new_spsc_def next_head_def QUEUE_ITEMS_MASK_def smallest_queue)
  then obtain r where r: "spsc_step\<^sup>*\<^sup>* ?s r" "queue r = snd (spsc_push True 7 (queue ?s))" "producer r = P_idle" "consumer r = C_idle"
    using push_run [of ?s True 7] by (auto simp: spsc_start_def)
  have q: "queue ?s = spsc_init 0" by (simp add: spsc_start_def)
  have nx: "next_head (queue r) = 2" "tail_ix (queue r) \<noteq> 2" "next_tail (queue r) = 0" "head_ix (queue r) \<noteq> 0"
    unfolding r(2) q
    by (simp_all add: spsc_push_def spsc_init_def new_spsc_def next_head_def next_tail_def QUEUE_ITEMS_MASK_def smallest_queue)
  have reach: "spsc_reach 0 r"
    using r(1) by (induction rule: rtranclp_induct) (auto intro: spsc_reach.intros)
  have s1: "spsc_step r (r\<lparr>producer := P_checked True 8 2\<rparr>)"
    using spsc_step.push_check [OF r(3), of True 8] nx by simp
  have s2: "spsc_step (r\<lparr>producer := P_checked True 8 2\<rparr>) (r\<lparr>producer := P_checked True 8 2, consumer := C_checked 0\<rparr>)"
    using spsc_step.pop_check [of "r\<lparr>producer := P_checked True 8 2\<rparr>"] r(4) nx by simp
  show ?thesis
    by (intro exI [of _ "r\<lparr>producer := P_checked True 8 2, consumer := C_checked 0\<rparr>"] conjI
        spsc_reach.reach_step [OF spsc_reach.reach_step [OF reach s1] s2]) simp_all
qed

theorem spsc_no_race_witness:
  "\<exists>r :: nat spsc_run. spsc_reach 0 r \<and> producer r = P_checked True 8 2 \<and> consumer r = C_checked 0 \<and> shadow_head (queue r) \<noteq> 0"
proof -
  obtain r :: "nat spsc_run" where r: "spsc_reach 0 r" "producer r = P_checked True 8 2" "consumer r = C_checked 0"
    using sample_race by (elim exE conjE)
  show ?thesis by (intro exI [of _ r] conjI r spsc_no_race [OF r])
qed

text \<open>
  C32. A push is accepted whenever fewer than the queue size less 257 items are under way, however
  long ago the consumer published what it has taken; while a pop is between the move of its own index and
  the publication, whenever fewer than the queue size less 258 are.
\<close>

theorem spsc_push_accepted:
  assumes "spsc_reach n r"
    and "length (sent r) - length (received r) < QSIZE (queue r) - (if consumer r = C_moved then 258 else 257)"
  shows "fst (spsc_push f x (queue r)) = 0"
proof -
  have i: "spsc_inv r" by (rule spsc_reach_inv [OF assms(1)])
  note d = spsc_invD [OF i]
  have "lag_ok r" using spsc_reach_lag [OF assms(1)] by simp
  then have "length (received r) < released r + QUEUE_WATERMARK + (if consumer r = C_moved then 1 else 0)" by (rule lag_small)
  then have "length (sent r) \<noteq> released r + QSIZE (queue r) - 2"
    using assms(2) d by (simp split: if_splits; linarith)
  then show ?thesis using not_full_iff [OF i] by (simp add: spsc_push_def)
qed

theorem spsc_push_accepted_witness: "fst (spsc_push True 5 (queue sample_run)) = 0"
proof -
  have s: "consumer sample_run = C_idle" "sent sample_run = []" "QSIZE (queue sample_run) = 512"
    by (simp_all add: sample_run_def spsc_start_def spsc_init_def new_spsc_def smallest_queue)
  show ?thesis by (rule spsc_push_accepted [OF sample_run_reach]) (simp add: s)
qed

text \<open>
  \<^verbatim>\<open>size()\<close> is one more than the number of items published and not yet released: it is 1 for an
  empty queue, and counts items already taken until the consumer publishes its position.
\<close>

theorem spsc_size_reports:
  assumes "spsc_reach n r"
  shows "spsc_size (queue r) = published r - released r + 1"
proof -
  have i: "spsc_inv r" by (rule spsc_reach_inv [OF assms])
  note d = spsc_invD [OF i]
  let ?Q = "QSIZE (queue r)" and ?h = "head_ix (queue r)" and ?t = "tail_ix (queue r)"
  have h: "?h = (published r + ?Q) mod ?Q" "?t = (released r + ?Q - 1) mod ?Q" using i by (simp_all add: spsc_inv_def)
  have "(?h + ?Q - ?t) mod ?Q = published r + ?Q - (released r + ?Q - 1)"
    unfolding h by (rule mod_diff) (use d in linarith)+
  then have e: "(?h + ?Q - ?t) mod ?Q = published r - released r + 1" using d by linarith
  have lt: "?h < ?Q" "?t < ?Q" using h d(1) by simp_all
  show ?thesis
  proof (cases "?h \<ge> ?t")
    case True
    then have "?h + ?Q - ?t = ?h - ?t + ?Q" "?h - ?t < ?Q" using lt by linarith+
    then have "(?h + ?Q - ?t) mod ?Q = ?h - ?t" by (simp only: mod_add_self2 mod_less)
    with True e show ?thesis by (simp add: spsc_size_def)
  next
    case False
    then have "?h + ?Q - ?t = ?Q - (?t - ?h)" "?Q - (?t - ?h) < ?Q" using lt by linarith+
    then have "(?h + ?Q - ?t) mod ?Q = ?Q - (?t - ?h)" by (simp only: mod_less)
    with False e show ?thesis by (simp add: spsc_size_def)
  qed
qed

theorem spsc_size_reports_witness: "spsc_size (queue sample_run) = 1"
  using spsc_size_reports [OF sample_run_reach] by (simp add: sample_run_def spsc_start_def)

end
