(* ===== verification/Pools.thy ===== *)
theory Pools
  imports SpscQueue
begin

text \<open>
  The memory pools of \<^verbatim>\<open>src/src/include/pool.h\<close>: \<^verbatim>\<open>MemChunk\<close>, \<^verbatim>\<open>HeapChunkBuffer\<close>, \<^verbatim>\<open>Pool\<close> in its
  raw and its constructed mode, and \<^verbatim>\<open>SpscQPool\<close>, a pool handed out through the queue of
  \<^verbatim>\<open>SpscQueue\<close>. An object is named by its index in the pool's buffer, a null pointer is
  \<^term>\<open>None\<close>; the spin lock makes each operation one step.
\<close>

section \<open>MemChunk\<close>

text \<open>The \<^verbatim>\<open>COUNT\<close> octets of the buffer and the length in use.\<close>

record mem_chunk =
  mc_buffer :: octets
  buffer_length :: u32

definition new_mem_chunk :: "nat \<Rightarrow> mem_chunk" where
  "new_mem_chunk cnt = \<lparr>mc_buffer = replicate cnt 0, buffer_length = 0\<rparr>"

definition mem_chunk_eq :: "mem_chunk \<Rightarrow> mem_chunk \<Rightarrow> bool" where
  "mem_chunk_eq a b = (if buffer_length a \<noteq> buffer_length b then False
     else take (unat (buffer_length a)) (mc_buffer a) = take (unat (buffer_length a)) (mc_buffer b))"

text \<open>The data has at least the length given: what is behind it is not read.\<close>

definition set_data :: "octets \<Rightarrow> u32 \<Rightarrow> mem_chunk \<Rightarrow> nat \<times> mem_chunk" where
  "set_data d len c = (if length (mc_buffer c) < unat len then (1, c)
     else (0, c\<lparr>buffer_length := len, mc_buffer := take (unat len) d @ drop (unat len) (mc_buffer c)\<rparr>))"

definition get_max_size :: "mem_chunk \<Rightarrow> nat" where
  "get_max_size c = length (mc_buffer c)"

section \<open>HeapChunkBuffer\<close>

record heap_chunks =
  hc_chunk_size :: u32
  hc_chunk_count :: u32
  hc_buff :: nat

text \<open>The buffer is named by its length, a chunk by its offset; the offset is an \<^verbatim>\<open>unsigned int\<close>.\<close>

definition heap_init :: "u32 \<Rightarrow> u32 \<Rightarrow> heap_chunks \<Rightarrow> heap_chunks" where
  "heap_init sz cnt h = h\<lparr>hc_chunk_size := sz, hc_chunk_count := cnt, hc_buff := unat sz * unat cnt\<rparr>"

definition get_chunk :: "u32 \<Rightarrow> heap_chunks \<Rightarrow> nat option" where
  "get_chunk ix h = (if ix \<ge> hc_chunk_count h then None else Some (unat (ix * hc_chunk_size h)))"

section \<open>Pool\<close>

record pool =
  chunk_count :: nat
  chunk_size :: nat
  mem_size :: nat
  next_free_mem :: nat
  raw_free_list :: "nat list"
  constructed_free_list :: "nat option list"
  raw_free_size :: nat
  constructed_free_size :: nat
  construted_mode :: bool

definition new_pool :: pool where
  "new_pool = \<lparr>chunk_count = 0, chunk_size = 0, mem_size = 0, next_free_mem = 0, raw_free_list = [],
     constructed_free_list = [], raw_free_size = 0, constructed_free_size = 0, construted_mode = False\<rparr>"

definition get_free_count :: "pool \<Rightarrow> nat" where
  "get_free_count p = (if construted_mode p then constructed_free_size p else raw_free_size p)"

definition calc_req_mem :: "nat \<Rightarrow> nat \<Rightarrow> u32" where
  "calc_req_mem tsize cnt = of_nat cnt * of_nat tsize"

text \<open>\<^verbatim>\<open>init\<close>, for a type of \<^term>\<open>tsize\<close> octets; the entries of the other list are not set.\<close>

definition pool_init :: "nat \<Rightarrow> nat \<Rightarrow> pool \<Rightarrow> pool" where
  "pool_init tsize cnt p = p\<lparr>construted_mode := False, chunk_count := cnt, chunk_size := tsize, mem_size := cnt * tsize,
     next_free_mem := 0, raw_free_list := [0..<cnt], constructed_free_list := replicate cnt None,
     raw_free_size := cnt, constructed_free_size := 0\<rparr>"

definition construct_objects :: "pool \<Rightarrow> pool" where
  "construct_objects p = (if chunk_count p \<le> 0 then p
     else p\<lparr>constructed_free_list := map Some [0..<chunk_count p], construted_mode := True,
       constructed_free_size := chunk_count p, raw_free_size := 0\<rparr>)"

definition allocate_raw :: "pool \<Rightarrow> nat option \<times> pool" where
  "allocate_raw p = (if raw_free_size p > 0
     then (Some (raw_free_list p ! (raw_free_size p - 1)), p\<lparr>raw_free_size := raw_free_size p - 1\<rparr>)
     else (None, p))"

definition get_constructed :: "nat \<Rightarrow> pool \<Rightarrow> nat option" where
  "get_constructed ix p = (if ix \<ge> chunk_count p then None else constructed_free_list p ! ix)"

definition allocate_constructed :: "pool \<Rightarrow> nat option \<times> pool" where
  "allocate_constructed p = (if constructed_free_size p > 0
     then (constructed_free_list p ! (constructed_free_size p - 1), p\<lparr>constructed_free_size := constructed_free_size p - 1\<rparr>)
     else (None, p))"

definition deallocate_constructed :: "nat option \<Rightarrow> pool \<Rightarrow> nat \<times> pool" where
  "deallocate_constructed obj p = (if chunk_count p \<le> 0 then (4, p)
     else if obj \<noteq> None \<and> constructed_free_size p < chunk_count p
     then (0, p\<lparr>constructed_free_list := (constructed_free_list p)[constructed_free_size p := obj],
        constructed_free_size := constructed_free_size p + 1\<rparr>)
     else (1, p))"

definition deallocate_raw :: "nat option \<Rightarrow> pool \<Rightarrow> nat \<times> pool" where
  "deallocate_raw obj p = (if chunk_count p \<le> 0 then (4, p)
     else case obj of
       Some i \<Rightarrow> if raw_free_size p < chunk_count p
         then (0, p\<lparr>raw_free_list := (raw_free_list p)[raw_free_size p := i], raw_free_size := raw_free_size p + 1\<rparr>)
         else (1, p)
     | None \<Rightarrow> (1, p))"

section \<open>SpscQPool\<close>

record spscq_pool =
  free_q :: "nat option spsc"
  objects :: pool
  ready :: bool

text \<open>The loop of \<^verbatim>\<open>init\<close>: what a push returns is not looked at.\<close>

fun transfer :: "nat \<Rightarrow> nat option spsc \<times> pool \<Rightarrow> nat option spsc \<times> pool" where
  "transfer 0 s = s"
| "transfer (Suc n) s = (let (obj, p) = allocate_constructed (snd s) in transfer n (snd (spsc_push True obj (fst s)), p))"

definition spscq_pool_init :: "nat \<Rightarrow> nat \<Rightarrow> spscq_pool \<Rightarrow> spscq_pool" where
  "spscq_pool_init tsize n s = (let (q, p) = transfer n (spsc_init (int n), construct_objects (pool_init tsize n (objects s)))
     in s\<lparr>free_q := q, objects := p, ready := True\<rparr>)"

section \<open>The contract of a pool\<close>

text \<open>
  What is free is a stack; objects come from its top and go back there. The client gives back
  what it was given, once.
\<close>

locale object_pool =
  fixes alloc :: "'p \<Rightarrow> nat option \<times> 'p"
    and dealloc :: "nat option \<Rightarrow> 'p \<Rightarrow> nat \<times> 'p"
    and free :: "'p \<Rightarrow> nat list"
    and capacity :: "'p \<Rightarrow> nat"
    and invar :: "'p \<Rightarrow> bool"
  assumes alloc_takes: "invar p \<Longrightarrow> free p = xs @ [i] \<Longrightarrow>
      \<exists>p'. alloc p = (Some i, p') \<and> invar p' \<and> free p' = xs \<and> capacity p' = capacity p"
    and alloc_none: "invar p \<Longrightarrow> free p = [] \<Longrightarrow> alloc p = (None, p)"
    and dealloc_adds: "invar p \<Longrightarrow> length (free p) < capacity p \<Longrightarrow>
      \<exists>p'. dealloc (Some i) p = (0, p') \<and> invar p' \<and> free p' = free p @ [i] \<and> capacity p' = capacity p"
    and dealloc_full: "invar p \<Longrightarrow> capacity p \<le> length (free p) \<Longrightarrow> fst (dealloc (Some i) p) \<noteq> 0 \<and> snd (dealloc (Some i) p) = p"

text \<open>A client: the objects it holds.\<close>

inductive pool_client :: "('p \<Rightarrow> nat option \<times> 'p) \<Rightarrow> (nat option \<Rightarrow> 'p \<Rightarrow> nat \<times> 'p) \<Rightarrow> 'p \<Rightarrow> 'p \<Rightarrow> nat list \<Rightarrow> bool"
  for alloc dealloc p0 where
  client_start: "pool_client alloc dealloc p0 p0 []"
| client_take: "pool_client alloc dealloc p0 p held \<Longrightarrow> alloc p = (Some i, p') \<Longrightarrow> pool_client alloc dealloc p0 p' (i # held)"
| client_none: "pool_client alloc dealloc p0 p held \<Longrightarrow> alloc p = (None, p') \<Longrightarrow> pool_client alloc dealloc p0 p' held"
| client_give: "pool_client alloc dealloc p0 p held \<Longrightarrow> i \<in> set held \<Longrightarrow> dealloc (Some i) p = (c, p') \<Longrightarrow>
    pool_client alloc dealloc p0 p' (if c = 0 then remove1 i held else held)"

context object_pool begin

lemma alloc_some: "invar p \<Longrightarrow> alloc p = (Some i, p') \<Longrightarrow>
    invar p' \<and> capacity p' = capacity p \<and> free p = free p' @ [i]"
  by (cases "free p" rule: rev_cases) (use alloc_none alloc_takes in force)+

lemma alloc_fails: "invar p \<Longrightarrow> alloc p = (None, p') \<Longrightarrow> p' = p \<and> free p = []"
  by (cases "free p" rule: rev_cases) (use alloc_none alloc_takes in force)+

lemma held_room:
  assumes "mset (free p) + mset held = mset (free p0)" and "length (free p0) \<le> n" and "i \<in> set held"
  shows "length (free p) < n"
proof -
  have "length (free p) + length held = length (free p0)"
    using arg_cong [OF assms(1), of size] by simp
  then show ?thesis using assms(2,3) by (cases held) auto
qed

lemma client_keeps:
  assumes "pool_client alloc dealloc p0 p held" and "invar p0" and "length (free p0) \<le> capacity p0"
  shows "invar p \<and> capacity p = capacity p0 \<and> mset (free p) + mset held = mset (free p0)"
  using assms(1)
proof induction
  case client_start
  then show ?case using assms(2) by simp
next
  case (client_take p held i p')
  then show ?case using alloc_some [of p i p'] by auto
next
  case (client_none p held p')
  then show ?case using alloc_fails [of p p'] by auto
next
  case (client_give p held i c p')
  then have k: "invar p" "capacity p = capacity p0" "mset (free p) + mset held = mset (free p0)" by simp_all
  have "length (free p) < capacity p" unfolding k(2) by (rule held_room [OF k(3) assms(3) client_give.hyps(2)])
  from dealloc_adds [OF k(1) this, of i] client_give.hyps(3)
  have p': "c = 0" "invar p'" "free p' = free p @ [i]" "capacity p' = capacity p" by auto
  have "mset (free p') + mset (remove1 i held) = mset (free p) + mset held"
    using client_give.hyps(2) by (simp add: p'(3))
  then show ?case using p' k by simp
qed

text \<open>Giving back never fails, and taking fails only when the client holds everything.\<close>

lemma give_succeeds:
  assumes "pool_client alloc dealloc p0 p held" and "invar p0" and "length (free p0) \<le> capacity p0" and "i \<in> set held"
  shows "fst (dealloc (Some i) p) = 0"
proof -
  from client_keeps [OF assms(1-3)] have k: "invar p" "capacity p = capacity p0" "mset (free p) + mset held = mset (free p0)"
    by simp_all
  have "length (free p) < capacity p" unfolding k(2) by (rule held_room [OF k(3) assms(3,4)])
  from dealloc_adds [OF k(1) this, of i] show ?thesis by auto
qed

end

section \<open>The two modes of a pool\<close>

definition constructed_invar :: "pool \<Rightarrow> bool" where
  "constructed_invar p \<longleftrightarrow> 0 < chunk_count p \<and> length (constructed_free_list p) = chunk_count p \<and>
     constructed_free_size p \<le> chunk_count p \<and> None \<notin> set (take (constructed_free_size p) (constructed_free_list p))"

definition constructed_free :: "pool \<Rightarrow> nat list" where
  "constructed_free p = map the (take (constructed_free_size p) (constructed_free_list p))"

definition raw_invar :: "pool \<Rightarrow> bool" where
  "raw_invar p \<longleftrightarrow> 0 < chunk_count p \<and> length (raw_free_list p) = chunk_count p \<and> raw_free_size p \<le> chunk_count p"

definition raw_free :: "pool \<Rightarrow> nat list" where
  "raw_free p = take (raw_free_size p) (raw_free_list p)"

lemma take_snoc: "take n xs = ys @ [y] \<Longrightarrow> n \<le> length xs \<Longrightarrow> 0 < n \<and> xs ! (n - 1) = y \<and> take (n - 1) xs = ys"
  by (cases n) (auto simp: take_Suc_conv_app_nth)

lemma take_update: "n < length xs \<Longrightarrow> take (Suc n) (xs[n := x]) = take n xs @ [x]"
  by (simp add: take_Suc_conv_app_nth)

interpretation constructed_pool: object_pool allocate_constructed deallocate_constructed constructed_free chunk_count constructed_invar
proof
  fix p xs i assume p: "constructed_invar p" and f: "constructed_free p = xs @ [i]"
  obtain ys y where ys: "take (constructed_free_size p) (constructed_free_list p) = ys @ [y]" "map the ys = xs" "the y = i"
    using f by (auto simp: constructed_free_def map_eq_append_conv)
  have t: "0 < constructed_free_size p" "constructed_free_list p ! (constructed_free_size p - 1) = y"
    "take (constructed_free_size p - 1) (constructed_free_list p) = ys"
    using take_snoc [OF ys(1)] p by (auto simp: constructed_invar_def)
  have "y \<noteq> None" using p ys(1) by (cases y) (auto simp: constructed_invar_def)
  then show "\<exists>p'. allocate_constructed p = (Some i, p') \<and> constructed_invar p' \<and> constructed_free p' = xs \<and> chunk_count p' = chunk_count p"
    using p t ys by (auto simp: allocate_constructed_def constructed_invar_def constructed_free_def)
next
  fix p i assume "constructed_invar p" "length (constructed_free p) < chunk_count p"
  then show "\<exists>p'. deallocate_constructed (Some i) p = (0, p') \<and> constructed_invar p' \<and>
      constructed_free p' = constructed_free p @ [i] \<and> chunk_count p' = chunk_count p"
    by (auto simp: deallocate_constructed_def constructed_invar_def constructed_free_def take_update)
qed (auto simp: constructed_invar_def constructed_free_def allocate_constructed_def deallocate_constructed_def)

interpretation raw_pool: object_pool allocate_raw deallocate_raw raw_free chunk_count raw_invar
proof
  fix p xs i assume p: "raw_invar p" and f: "raw_free p = xs @ [i]"
  have t: "0 < raw_free_size p" "raw_free_list p ! (raw_free_size p - 1) = i" "take (raw_free_size p - 1) (raw_free_list p) = xs"
    using take_snoc [of "raw_free_size p" "raw_free_list p" xs i] p f by (auto simp: raw_invar_def raw_free_def)
  then show "\<exists>p'. allocate_raw p = (Some i, p') \<and> raw_invar p' \<and> raw_free p' = xs \<and> chunk_count p' = chunk_count p"
    using p by (auto simp: allocate_raw_def raw_invar_def raw_free_def)
next
  fix p i assume "raw_invar p" "length (raw_free p) < chunk_count p"
  then show "\<exists>p'. deallocate_raw (Some i) p = (0, p') \<and> raw_invar p' \<and> raw_free p' = raw_free p @ [i] \<and> chunk_count p' = chunk_count p"
    by (auto simp: deallocate_raw_def raw_invar_def raw_free_def take_update)
qed (auto simp: raw_invar_def raw_free_def allocate_raw_def deallocate_raw_def)

lemma raw_start: "0 < n \<Longrightarrow> raw_invar (pool_init k n p) \<and> raw_free (pool_init k n p) = [0..<n] \<and> chunk_count (pool_init k n p) = n"
  by (simp add: raw_invar_def raw_free_def pool_init_def)

lemma constructed_start:
  "0 < n \<Longrightarrow> constructed_invar (construct_objects (pool_init k n p)) \<and>
     constructed_free (construct_objects (pool_init k n p)) = [0..<n] \<and> chunk_count (construct_objects (pool_init k n p)) = n"
  by (auto simp: constructed_invar_def constructed_free_def construct_objects_def pool_init_def comp_def)

section \<open>Filling the queue of a pool\<close>

lemma transfer_push:
  assumes "constructed_invar p" and "n \<le> length (constructed_free p)"
  shows "fst (transfer n (q, p)) = push_list (spsc_push True) (map Some (take n (rev (constructed_free p)))) q \<and>
     constructed_free (snd (transfer n (q, p))) = take (length (constructed_free p) - n) (constructed_free p)"
  using assms
proof (induction n arbitrary: q p)
  case 0
  then show ?case by simp
next
  case (Suc n)
  obtain xs i where f: "constructed_free p = xs @ [i]" using Suc.prems(2) by (cases "constructed_free p" rule: rev_cases) auto
  obtain p' where p': "allocate_constructed p = (Some i, p')" "constructed_invar p'" "constructed_free p' = xs"
    using constructed_pool.alloc_takes [OF Suc.prems(1) f] by blast
  with Suc.IH [OF p'(2), of "snd (spsc_push True (Some i) q)"] Suc.prems(2) f show ?case by auto
qed

section \<open>Properties\<close>

text \<open>
  C33. A pool in constructed mode is safe for every client that gives back only what it holds: an
  object is never handed out twice, free and held objects together are always exactly the chunks
  of the pool, and giving back never fails.
\<close>

theorem constructed_pool_safe:
  assumes "0 < n" and "pool_client allocate_constructed deallocate_constructed (construct_objects (pool_init k n p0)) p held"
  shows "distinct (constructed_free p @ held) \<and> set (constructed_free p @ held) = {..<n} \<and>
    (\<forall>i \<in> set held. fst (deallocate_constructed (Some i) p) = 0)"
proof -
  note st = constructed_start [OF assms(1), of k p0]
  have k: "mset (constructed_free p @ held) = mset [0..<n]"
    using constructed_pool.client_keeps [OF assms(2)] st by simp
  then have "distinct (constructed_free p @ held)" by (metis distinct_upt mset_eq_imp_distinct_iff)
  moreover have "set (constructed_free p @ held) = {..<n}" using mset_eq_setD [OF k] by auto
  moreover have "\<forall>i \<in> set held. fst (deallocate_constructed (Some i) p) = 0"
    using constructed_pool.give_succeeds [OF assms(2)] st by auto
  ultimately show ?thesis by blast
qed

lemma sample_client:
  "\<exists>p. pool_client allocate_constructed deallocate_constructed (construct_objects (pool_init 8 3 new_pool)) p [1]"
proof -
  let ?p0 = "construct_objects (pool_init 8 3 new_pool)"
  let ?p1 = "snd (allocate_constructed ?p0)" and ?p2 = "snd (allocate_constructed (snd (allocate_constructed ?p0)))"
  have s: "allocate_constructed ?p0 = (Some 2, ?p1)" "allocate_constructed ?p1 = (Some 1, ?p2)"
    "deallocate_constructed (Some 2) ?p2 = (0, snd (deallocate_constructed (Some 2) ?p2))"
    by code_simp+
  let ?client = "pool_client allocate_constructed deallocate_constructed ?p0"
  have "?client ?p0 []" by (rule client_start)
  then have "?client ?p1 [2]" by (rule client_take) (rule s)
  then have "?client ?p2 [1, 2]" by (rule client_take) (rule s)
  then have "?client (snd (deallocate_constructed (Some 2) ?p2)) (if (0 :: nat) = 0 then remove1 2 [1, 2] else [1, 2])"
    by (rule client_give) (use s(3) in simp_all)
  then show ?thesis by auto
qed

theorem constructed_pool_safe_witness:
  "\<exists>p. distinct (constructed_free p @ [1]) \<and> set (constructed_free p @ [1]) = {..<3} \<and>
     fst (deallocate_constructed (Some 1) p) = 0"
proof -
  obtain p where p: "pool_client allocate_constructed deallocate_constructed (construct_objects (pool_init 8 3 new_pool)) p [1]"
    using sample_client by blast
  have "(0 :: nat) < 3" by simp
  from constructed_pool_safe [OF this p] show ?thesis by (intro exI [of _ p]) simp
qed


definition no_spscq_pool :: spscq_pool where
  "no_spscq_pool = \<lparr>free_q = spsc_init 0, objects = new_pool, ready = False\<rparr>"


text \<open>
  The chunks of a heap buffer are apart, and inside the buffer, as long as its size fits 32
  bits. The offset of a chunk is computed in 32 bits, the size of the buffer in 64: past 4 GiB a
  chunk is handed out at the place of another.
\<close>

theorem heap_chunk_apart:
  assumes "hc_chunk_count h = cnt" and "hc_chunk_size h = sz" and "unat sz * unat cnt \<le> 2 ^ 32"
    and "get_chunk i h = Some a" and "get_chunk j h = Some b" and "i < j"
  shows "a + unat sz \<le> b \<and> b + unat sz \<le> unat sz * unat cnt"
proof -
  have ij: "i < cnt" "j < cnt" "a = unat (i * sz)" "b = unat (j * sz)"
    using assms by (auto simp: get_chunk_def not_le split: if_splits)
  have le: "unat i + 1 \<le> unat j" "unat j + 1 \<le> unat cnt" using ij(2) assms(6) by (auto simp: word_less_nat_alt)
  have off: "unat (x * sz) = unat x * unat sz" if "unat x + 1 \<le> unat cnt" and "0 < unat sz" for x
  proof -
    have "(unat x + 1) * unat sz \<le> unat cnt * unat sz" using that(1) by (rule mult_le_mono1)
    then have "unat x * unat sz < 2 ^ 32" using assms(3) that(2) by (simp add: mult.commute)
    then show ?thesis by (simp add: unat_word_ariths(2))
  qed
  show ?thesis
  proof (cases "unat sz = 0")
    case True
    then have "sz = 0" by (simp add: word_unat_eq_iff)
    then show ?thesis using ij by simp
  next
    case False
    have e: "a = unat i * unat sz" "b = unat j * unat sz" using off [of i] off [of j] le False ij by auto
    have "(unat i + 1) * unat sz \<le> unat j * unat sz" by (rule mult_le_mono1 [OF le(1)])
    moreover have "(unat j + 1) * unat sz \<le> unat cnt * unat sz" by (rule mult_le_mono1 [OF le(2)])
    ultimately show ?thesis unfolding e by (simp add: mult.commute)
  qed
qed

theorem heap_chunk_apart_witness:
  "get_chunk 1 (heap_init 1024 4 \<lparr>hc_chunk_size = 0, hc_chunk_count = 0, hc_buff = 0\<rparr>) = Some 1024 \<and>
   (1024 :: nat) + 1024 \<le> 2048 \<and>
   get_chunk 0x10000 (heap_init 0x10000 0x10001 \<lparr>hc_chunk_size = 0, hc_chunk_count = 0, hc_buff = 0\<rparr>) = Some 0"
proof -
  let ?h = "heap_init 1024 4 \<lparr>hc_chunk_size = 0, hc_chunk_count = 0, hc_buff = 0\<rparr>"
  have "get_chunk 1 ?h = Some 1024" "get_chunk 2 ?h = Some 2048" by code_simp+
  moreover have "hc_chunk_count ?h = 4" "hc_chunk_size ?h = 1024" by (simp_all add: heap_init_def)
  ultimately show ?thesis
    using heap_chunk_apart [of ?h 4 1024 1 1024 2 2048] by (simp add: get_chunk_def heap_init_def)
qed

end
