(* ===== verification/Hashing.thy ===== *)
theory Hashing
  imports Prelude
begin

text \<open>
  The FNV hash functions of \<^verbatim>\<open>src/src/utils/mink_utils.cpp\<close>. They key the routing tables
  (daemon types), the correlation map (GUIDs) and the configuration caches. A key pointer is an
  optional octet array; a length that runs past the array is undefined behaviour in C++ and
  \<^term>\<open>None\<close> here.
\<close>

section \<open>The hash loops\<close>

definition fnv_step :: "u32 \<Rightarrow> u8 \<Rightarrow> u32" where
  "fnv_step h b = (h * 16777619) XOR ucast b"

definition fnv1a_step :: "u32 \<Rightarrow> u8 \<Rightarrow> u32" where
  "fnv1a_step h b = (h XOR ucast b) * 16777619"

definition fnv1a_step_64bit :: "u64 \<Rightarrow> u8 \<Rightarrow> u64" where
  "fnv1a_step_64bit h b = (h XOR ucast b) * 1099511628211"

definition hash_fnv :: "octets option \<Rightarrow> int \<Rightarrow> u32 option" where
  "hash_fnv key len = (case key of None \<Rightarrow> Some 0
     | Some p \<Rightarrow> if nat len \<le> length p then Some (foldl fnv_step 2166136261 (take (nat len) p))
                 else None)"

definition hash_fnv1a :: "octets option \<Rightarrow> int \<Rightarrow> u32 option" where
  "hash_fnv1a key len = (case key of None \<Rightarrow> Some 0
     | Some p \<Rightarrow> if nat len \<le> length p then Some (foldl fnv1a_step 2166136261 (take (nat len) p))
                 else None)"

definition hash_fnv1a_64bit :: "octets option \<Rightarrow> int \<Rightarrow> u64 option" where
  "hash_fnv1a_64bit key len = (case key of None \<Rightarrow> Some 0
     | Some p \<Rightarrow> if nat len \<le> length p
                 then Some (foldl fnv1a_step_64bit 14695981039346656037 (take (nat len) p))
                 else None)"

text \<open>\<^verbatim>\<open>strnlen\<close> stops at the first NUL, or at the cap the code passes.\<close>

definition strnlen :: "char list \<Rightarrow> nat \<Rightarrow> nat" where
  "strnlen s n = min n (length (cstr s))"

definition bytes_of :: "char list \<Rightarrow> octets" where
  "bytes_of s = map of_char s"

definition hash_fnv1a_str :: "char list option \<Rightarrow> u32" where
  "hash_fnv1a_str key = (case key of None \<Rightarrow> 0
     | Some s \<Rightarrow> foldl fnv1a_step 2166136261 (take (strnlen s 4294965097) (bytes_of s)))"

definition hash_fnv1a_str_64bit :: "char list option \<Rightarrow> u64" where
  "hash_fnv1a_str_64bit key = (case key of None \<Rightarrow> 0
     | Some s \<Rightarrow> foldl fnv1a_step_64bit 14695981039346656037
                   (take (strnlen s 4294965097) (bytes_of s)))"

section \<open>Every step is a bijection of the state\<close>

text \<open>The FNV primes are odd, so multiplication by them has an inverse modulo the word size.\<close>

lemma fnv_prime_inverse: "(16777619 :: u32) * 899433627 = 1"
  by simp

lemma fnv_prime_64_inverse: "(1099511628211 :: u64) * 14886173955864302971 = 1"
  by simp

lemma mult_prime_cancel:
  fixes x y :: u32
  shows "x * 16777619 = y * 16777619 \<longleftrightarrow> x = y"
proof
  assume "x * 16777619 = y * 16777619"
  then have "x * (16777619 * 899433627) = y * (16777619 * 899433627)"
    by (simp only: mult.assoc [symmetric])
  then show "x = y" by (simp only: fnv_prime_inverse mult_1_right)
qed simp

lemma mult_prime_64_cancel:
  fixes x y :: u64
  shows "x * 1099511628211 = y * 1099511628211 \<longleftrightarrow> x = y"
proof
  assume "x * 1099511628211 = y * 1099511628211"
  then have "x * (1099511628211 * 14886173955864302971) = y * (1099511628211 * 14886173955864302971)"
    by (simp only: mult.assoc [symmetric])
  then show "x = y" by (simp only: fnv_prime_64_inverse mult_1_right)
qed simp

lemma xor_cancel: "(x :: 'a::len word) XOR b = y XOR b \<longleftrightarrow> x = y"
  by (auto simp: bit_eq_iff bit_xor_iff)

lemma xor_cancel_left: "(b :: 'a::len word) XOR x = b XOR y \<longleftrightarrow> x = y"
  by (auto simp: bit_eq_iff bit_xor_iff)

lemma ucast_octet_inj: "(ucast (a :: u8) :: u32) = ucast b \<longleftrightarrow> a = b"
proof
  assume "(ucast a :: u32) = ucast b"
  then have "uint (ucast a :: u32) = uint (ucast b :: u32)" by simp
  then have "uint a = uint b" by (simp add: uint_up_ucast is_up)
  then show "a = b" by (simp add: word_uint_eq_iff)
qed simp

lemma ucast_octet_inj_64: "(ucast (a :: u8) :: u64) = ucast b \<longleftrightarrow> a = b"
proof
  assume "(ucast a :: u64) = ucast b"
  then have "uint (ucast a :: u64) = uint (ucast b :: u64)" by simp
  then have "uint a = uint b" by (simp add: uint_up_ucast is_up)
  then show "a = b" by (simp add: word_uint_eq_iff)
qed simp

lemma fnv1a_step_state: "fnv1a_step h b = fnv1a_step h' b \<longleftrightarrow> h = h'"
  by (simp add: fnv1a_step_def mult_prime_cancel xor_cancel)

lemma fnv1a_step_byte: "fnv1a_step h a = fnv1a_step h b \<longleftrightarrow> a = b"
  by (simp add: fnv1a_step_def mult_prime_cancel xor_cancel_left ucast_octet_inj)

lemma foldl_fnv1a_state: "foldl fnv1a_step h p = foldl fnv1a_step h' p \<longleftrightarrow> h = h'"
  by (induction p arbitrary: h h') (auto simp: fnv1a_step_state)

lemma fnv1a_step_64_state: "fnv1a_step_64bit h b = fnv1a_step_64bit h' b \<longleftrightarrow> h = h'"
  by (simp add: fnv1a_step_64bit_def mult_prime_64_cancel xor_cancel)

lemma fnv1a_step_64_byte: "fnv1a_step_64bit h a = fnv1a_step_64bit h b \<longleftrightarrow> a = b"
  by (simp add: fnv1a_step_64bit_def mult_prime_64_cancel xor_cancel_left ucast_octet_inj_64)

lemma foldl_fnv1a_64_state:
  "foldl fnv1a_step_64bit h p = foldl fnv1a_step_64bit h' p \<longleftrightarrow> h = h'"
  by (induction p arbitrary: h h') (auto simp: fnv1a_step_64_state)

lemma length_bytes_of [simp]: "length (bytes_of s) = length s"
  by (simp add: bytes_of_def)

lemma hash_fnv1a_whole:
  "hash_fnv1a (Some p) (int (length p)) = Some (foldl fnv1a_step 2166136261 p)"
  by (simp add: hash_fnv1a_def)

text \<open>
  The string variant agrees with the binary one on the bytes before the terminator; the cap
  only matters for strings of four gigabytes.
\<close>

lemma hash_fnv1a_str_eq:
  "length (cstr s) \<le> 4294965097 \<Longrightarrow>
   Some (hash_fnv1a_str (Some s)) = hash_fnv1a (Some (bytes_of s)) (int (length (cstr s)))"
  by (simp add: hash_fnv1a_str_def hash_fnv1a_def strnlen_def cstr_def length_takeWhile_le)

section \<open>Properties\<close>

text \<open>
  C13. Two keys of the correlation map (16-octet GUIDs) or two daemon types of the same length
  that differ in exactly one octet never collide: the 64-bit and the 32-bit FNV-1a hashes of
  \<open>u @ a # v\<close> and \<open>u @ b # v\<close> are equal only if \<open>a = b\<close>.
\<close>

theorem fnv1a_one_octet_apart:
  "(hash_fnv1a (Some (u @ a # v)) (int (length (u @ a # v)))
     = hash_fnv1a (Some (u @ b # v)) (int (length (u @ b # v))) \<longleftrightarrow> a = b) \<and>
   (hash_fnv1a_64bit (Some (u @ a # v)) (int (length (u @ a # v)))
     = hash_fnv1a_64bit (Some (u @ b # v)) (int (length (u @ b # v))) \<longleftrightarrow> a = b)"
  by (simp add: hash_fnv1a_def hash_fnv1a_64bit_def foldl_fnv1a_state foldl_fnv1a_64_state
      fnv1a_step_byte fnv1a_step_64_byte nat_add_distrib)

end
