(* ===== verification/Tables.thy ===== *)
theory Tables
  imports Hashing
begin

text \<open>
  The small tables of \<^verbatim>\<open>src/src/include/mink_utils.h\<close> and the atomic cell of
  \<^verbatim>\<open>src/src/include/atomic.h\<close>: \<^verbatim>\<open>Atomic\<close>, \<^verbatim>\<open>StatsManager\<close>, \<^verbatim>\<open>ParameterMap\<close>, \<^verbatim>\<open>Guid\<close> and
  \<^verbatim>\<open>CorrelationMap\<close>. Every operation is one atomic step (an atomic instruction, or a lock held
  throughout); the time of day is an argument.
\<close>

section \<open>Atomic\<close>

text \<open>Each operation gives its return value and the new value of the cell.\<close>

definition atomic_new :: u64 where "atomic_new = 0"

definition atomic_get :: "u64 \<Rightarrow> u64 \<times> u64" where "atomic_get v = (v, v + 0)"

definition add_fetch :: "u64 \<Rightarrow> u64 \<Rightarrow> u64 \<times> u64" where "add_fetch i v = (v + i, v + i)"

definition fetch_add :: "u64 \<Rightarrow> u64 \<Rightarrow> u64 \<times> u64" where "fetch_add i v = (v, v + i)"

definition fetch_and :: "u64 \<Rightarrow> u64 \<Rightarrow> u64 \<times> u64" where "fetch_and x v = (v, v AND x)"

definition and_fetch :: "u64 \<Rightarrow> u64 \<Rightarrow> u64 \<times> u64" where "and_fetch x v = (v AND x, v AND x)"

definition fetch_sub :: "u64 \<Rightarrow> u64 \<Rightarrow> u64 \<times> u64" where "fetch_sub d v = (v, v - d)"

definition sub_fetch :: "u64 \<Rightarrow> u64 \<Rightarrow> u64 \<times> u64" where "sub_fetch d v = (v - d, v - d)"

definition comp_swap :: "u64 \<Rightarrow> u64 \<Rightarrow> u64 \<Rightarrow> u64 \<times> u64" where
  "comp_swap old_val new_val v = (v, if v = old_val then new_val else v)"

definition atomic_set :: "u64 \<Rightarrow> u64 \<Rightarrow> u64 \<times> u64" where "atomic_set new_val v = (v, new_val)"

section \<open>StatsManager\<close>

type_synonym stats = "u32 \<Rightarrow> u64 option"

definition register_item :: "u32 \<Rightarrow> stats \<Rightarrow> stats" where
  "register_item k s = s(k \<mapsto> atomic_new)"

definition stat_inc :: "u32 \<Rightarrow> u64 \<Rightarrow> stats \<Rightarrow> stats" where
  "stat_inc k v s = (case s k of Some c \<Rightarrow> s(k \<mapsto> snd (fetch_add v c)) | None \<Rightarrow> s)"

definition stat_dec :: "u32 \<Rightarrow> u64 \<Rightarrow> stats \<Rightarrow> stats" where
  "stat_dec k v s = (case s k of Some c \<Rightarrow> s(k \<mapsto> snd (fetch_sub v c)) | None \<Rightarrow> s)"

definition stat_get :: "u32 \<Rightarrow> stats \<Rightarrow> u64 \<times> stats" where
  "stat_get k s = (case s k of Some c \<Rightarrow> (fst (fetch_add 0 c), s(k \<mapsto> snd (fetch_add 0 c))) | None \<Rightarrow> (0, s))"

definition stat_set :: "u32 \<Rightarrow> u64 \<Rightarrow> stats \<Rightarrow> u64 \<times> stats" where
  "stat_set k v s = (case s k of Some c \<Rightarrow> (fst (atomic_set v c), s(k \<mapsto> snd (atomic_set v c))) | None \<Rightarrow> (0, s))"

datatype stat_op = Inc u32 u64 | Dec u32 u64

fun stat_step :: "stats \<Rightarrow> stat_op \<Rightarrow> stats" where
  "stat_step s (Inc k v) = stat_inc k v s"
| "stat_step s (Dec k v) = stat_dec k v s"

section \<open>ParameterMap\<close>

text \<open>The values are pointers, the order of the keys is the parameter \<^term>\<open>lt\<close>.\<close>

definition pm_get_param :: "('k \<Rightarrow> 'k \<Rightarrow> bool) \<Rightarrow> 'k \<Rightarrow> ('k \<times> 'v option) list \<Rightarrow> 'v option" where
  "pm_get_param lt k m = (case om_find lt k m of Some v \<Rightarrow> v | None \<Rightarrow> None)"

definition pm_exists :: "('k \<Rightarrow> 'k \<Rightarrow> bool) \<Rightarrow> 'k \<Rightarrow> ('k \<times> 'v option) list \<Rightarrow> bool" where
  "pm_exists lt k m \<longleftrightarrow> om_find lt k m \<noteq> None"

definition pm_set_param :: "('k \<Rightarrow> 'k \<Rightarrow> bool) \<Rightarrow> 'k \<Rightarrow> 'v option \<Rightarrow> ('k \<times> 'v option) list \<Rightarrow> ('k \<times> 'v option) list" where
  "pm_set_param lt k v m = om_insert lt k v m"

definition pm_remove_param :: "('k \<Rightarrow> 'k \<Rightarrow> bool) \<Rightarrow> 'k \<Rightarrow> ('k \<times> 'v option) list \<Rightarrow> nat \<times> ('k \<times> 'v option) list" where
  "pm_remove_param lt k m = (length m - length (om_erase lt k m), om_erase lt k m)"

definition pm_clear_params :: "('k \<times> 'v option) list \<Rightarrow> ('k \<times> 'v option) list" where
  "pm_clear_params m = []"

section \<open>Guid\<close>

type_synonym guid = octets

definition guid_data :: "guid \<Rightarrow> octets" where "guid_data g = g"

text \<open>Sixteen octets are read.\<close>

definition guid_set :: "octets \<Rightarrow> guid \<Rightarrow> guid" where "guid_set d g = take 16 d @ drop 16 g"

definition guid_eq :: "guid \<Rightarrow> guid \<Rightarrow> bool" where "guid_eq a b \<longleftrightarrow> a = b"

definition guid_hash :: "guid \<Rightarrow> u64 option" where "guid_hash g = hash_fnv1a_64bit (Some (guid_data g)) 16"

section \<open>CorrelationMap\<close>

record 'd data_wrapper =
  ts :: int
  entry_timeout :: u32
  dw_data :: 'd

text \<open>
  The entries in some iteration order of the hash table, with one entry per key; an iterator is
  the key of the entry it stands at, or \<^term>\<open>None\<close> at the end.
\<close>

record 'd correlation_map =
  data_timeout :: u32
  data_map :: "(guid \<times> 'd data_wrapper) list"
  max_size :: u32

definition new_correlation_map :: "'d correlation_map" where
  "new_correlation_map = \<lparr>data_timeout = 10, data_map = [], max_size = - 1\<rparr>"

definition new_correlation_map_of :: "u32 \<Rightarrow> u32 \<Rightarrow> 'd correlation_map" where
  "new_correlation_map_of mx t = \<lparr>data_timeout = t, data_map = [], max_size = mx\<rparr>"

definition set_max_size :: "u32 \<Rightarrow> 'd correlation_map \<Rightarrow> 'd correlation_map" where
  "set_max_size mx m = m\<lparr>max_size := mx\<rparr>"

definition cm_get :: "guid \<Rightarrow> 'd correlation_map \<Rightarrow> 'd option" where
  "cm_get g m = map_option dw_data (map_of (data_map m) g)"

definition cm_get_it :: "guid \<Rightarrow> 'd correlation_map \<Rightarrow> guid option" where
  "cm_get_it g m = (if map_of (data_map m) g = None then None else Some g)"

text \<open>\<^verbatim>\<open>insert\<close> leaves an entry that is there; the place of a new entry is not specified.\<close>

definition cm_set :: "int \<Rightarrow> guid \<Rightarrow> 'd \<Rightarrow> u32 \<Rightarrow> 'd correlation_map \<Rightarrow> guid option \<times> 'd correlation_map" where
  "cm_set now g d timeout m = (if length (data_map m) \<ge> unat (max_size m) then (None, m)
     else (Some g, case map_of (data_map m) g of
         Some w \<Rightarrow> m
       | None \<Rightarrow> m\<lparr>data_map := (g, \<lparr>ts = now, entry_timeout = (if timeout = 0 then data_timeout m else timeout), dw_data = d\<rparr>)
           # data_map m\<rparr>))"

definition cm_set_timeout :: "u32 \<Rightarrow> 'd correlation_map \<Rightarrow> 'd correlation_map" where
  "cm_set_timeout t m = m\<lparr>data_timeout := t\<rparr>"

definition cm_get_timeout :: "'d correlation_map \<Rightarrow> u32" where
  "cm_get_timeout m = data_timeout m"

definition cm_remove :: "guid \<Rightarrow> 'd correlation_map \<Rightarrow> bool \<times> 'd correlation_map" where
  "cm_remove g m = (map_of (data_map m) g \<noteq> None, m\<lparr>data_map := filter (\<lambda>e. fst e \<noteq> g) (data_map m)\<rparr>)"

text \<open>Through an iterator; at the end there is no result.\<close>

definition cm_remove_it :: "guid option \<Rightarrow> 'd correlation_map \<Rightarrow> 'd correlation_map option" where
  "cm_remove_it it m = Option.bind it (\<lambda>g. Some (snd (cm_remove g m)))"

definition change_entry :: "guid \<Rightarrow> ('d data_wrapper \<Rightarrow> 'd data_wrapper) \<Rightarrow> 'd correlation_map \<Rightarrow> 'd correlation_map" where
  "change_entry g f m = m\<lparr>data_map := map (\<lambda>(k, w). (k, if k = g then f w else w)) (data_map m)\<rparr>"

definition cm_update_ts_it :: "int \<Rightarrow> guid option \<Rightarrow> 'd correlation_map \<Rightarrow> (bool \<times> 'd correlation_map) option" where
  "cm_update_ts_it now it m = Option.bind it (\<lambda>g. Some (True, change_entry g (\<lambda>w. w\<lparr>ts := now\<rparr>) m))"

definition cm_get_ts :: "guid \<Rightarrow> 'd correlation_map \<Rightarrow> int" where
  "cm_get_ts g m = (case map_of (data_map m) g of None \<Rightarrow> 0 | Some w \<Rightarrow> ts w)"

definition cm_update_timeout_it :: "guid option \<Rightarrow> u32 \<Rightarrow> 'd correlation_map \<Rightarrow> (bool \<times> 'd correlation_map) option" where
  "cm_update_timeout_it it t m = Option.bind it (\<lambda>g. Some (True, change_entry g (\<lambda>w. w\<lparr>entry_timeout := t\<rparr>) m))"

definition cm_update_ts :: "int \<Rightarrow> guid \<Rightarrow> 'd correlation_map \<Rightarrow> bool \<times> 'd correlation_map" where
  "cm_update_ts now g m = (if map_of (data_map m) g = None then (False, m)
     else (True, change_entry g (\<lambda>w. w\<lparr>ts := now\<rparr>) m))"

definition cm_update_timeout :: "guid \<Rightarrow> u32 \<Rightarrow> 'd correlation_map \<Rightarrow> bool \<times> 'd correlation_map" where
  "cm_update_timeout g t m = (if map_of (data_map m) g = None then (False, m)
     else (True, change_entry g (\<lambda>w. w\<lparr>entry_timeout := t\<rparr>) m))"

text \<open>The two loops: what they put out, and the entries left.\<close>

fun expire_loop :: "int \<Rightarrow> (guid \<times> 'd data_wrapper) list \<Rightarrow> 'd list \<Rightarrow> 'd list \<times> (guid \<times> 'd data_wrapper) list" where
  "expire_loop now [] out = (out, [])"
| "expire_loop now ((g, w) # es) out = (if now - ts w > uint (entry_timeout w)
     then expire_loop now es (out @ [dw_data w])
     else (let (out', es') = expire_loop now es out in (out', (g, w) # es')))"

definition cm_expire_out :: "int \<Rightarrow> 'd correlation_map \<Rightarrow> 'd list \<times> 'd correlation_map" where
  "cm_expire_out now m = (let (out, es) = expire_loop now (data_map m) [] in (out, m\<lparr>data_map := es\<rparr>))"

fun expire_silent :: "int \<Rightarrow> (guid \<times> 'd data_wrapper) list \<Rightarrow> (guid \<times> 'd data_wrapper) list" where
  "expire_silent now [] = []"
| "expire_silent now ((g, w) # es) = (if now - ts w > uint (entry_timeout w)
     then expire_silent now es else (g, w) # expire_silent now es)"

definition cm_expire :: "int \<Rightarrow> 'd correlation_map \<Rightarrow> 'd correlation_map" where
  "cm_expire now m = m\<lparr>data_map := expire_silent now (data_map m)\<rparr>"

definition cm_size :: "'d correlation_map \<Rightarrow> nat" where
  "cm_size m = length (data_map m)"

section \<open>Lifecycle of correlation entries\<close>

text \<open>
  The maps a program can build, with the largest maximum it has set; the maximum may be set at any time,
  also below the size.
\<close>

inductive cm_reach :: "nat \<Rightarrow> 'd correlation_map \<Rightarrow> bool" where
  "cm_reach (unat (max_size (new_correlation_map :: 'd correlation_map))) (new_correlation_map :: 'd correlation_map)"
| "cm_reach (unat mx) (new_correlation_map_of mx t)"
| "cm_reach hi m \<Longrightarrow> cm_reach (max hi (unat mx)) (set_max_size mx m)"
| "cm_reach hi m \<Longrightarrow> cm_reach hi (snd (cm_set now g d t m))"
| "cm_reach hi m \<Longrightarrow> cm_reach hi (cm_set_timeout t m)"
| "cm_reach hi m \<Longrightarrow> cm_reach hi (snd (cm_remove g m))"
| "cm_reach hi m \<Longrightarrow> cm_remove_it it m = Some m' \<Longrightarrow> cm_reach hi m'"
| "cm_reach hi m \<Longrightarrow> cm_update_ts_it now it m = Some (b, m') \<Longrightarrow> cm_reach hi m'"
| "cm_reach hi m \<Longrightarrow> cm_update_timeout_it it t m = Some (b, m') \<Longrightarrow> cm_reach hi m'"
| "cm_reach hi m \<Longrightarrow> cm_reach hi (snd (cm_update_ts now g m))"
| "cm_reach hi m \<Longrightarrow> cm_reach hi (snd (cm_update_timeout g t m))"
| "cm_reach hi m \<Longrightarrow> cm_reach hi (snd (cm_expire_out now m))"
| "cm_reach hi m \<Longrightarrow> cm_reach hi (cm_expire now m)"

definition cm_ok :: "nat \<Rightarrow> 'd correlation_map \<Rightarrow> bool" where
  "cm_ok hi m \<longleftrightarrow> distinct (map fst (data_map m)) \<and> length (data_map m) \<le> hi \<and> unat (max_size m) \<le> hi"

definition expired :: "int \<Rightarrow> 'd data_wrapper \<Rightarrow> bool" where
  "expired now w \<longleftrightarrow> now - ts w > uint (entry_timeout w)"

lemma expire_loop_filter:
  "expire_loop now es out = (out @ map (dw_data \<circ> snd) (filter (\<lambda>e. expired now (snd e)) es),
     filter (\<lambda>e. \<not> expired now (snd e)) es)"
  by (induction es arbitrary: out) (auto simp: expired_def)

lemma expire_silent_filter: "expire_silent now es = filter (\<lambda>e. \<not> expired now (snd e)) es"
  by (induction es) (auto simp: expired_def)

lemma filter_ok: "cm_ok hi m \<Longrightarrow> cm_ok hi (m\<lparr>data_map := filter P (data_map m)\<rparr>)"
  by (auto simp: cm_ok_def distinct_map_filter intro: order_trans [OF length_filter_le])

lemma change_entry_ok: "cm_ok hi (change_entry g f m) = cm_ok hi m"
  by (simp add: cm_ok_def change_entry_def comp_def case_prod_unfold)

lemma remove_entry_ok: "cm_ok hi m \<Longrightarrow> cm_ok hi (snd (cm_remove g m))"
  by (simp add: cm_remove_def filter_ok)

lemma cm_set_ok: "cm_ok hi m \<Longrightarrow> cm_ok hi (snd (cm_set now g d t m))"
  by (auto simp: cm_ok_def cm_set_def map_of_eq_None_iff split: option.splits)

lemma cm_set_within: "cm_size (snd (cm_set now g d t m)) \<le> max (cm_size m) (unat (max_size m))"
  by (auto simp: cm_set_def cm_size_def split: option.split)

lemma cm_reach_ok: "cm_reach hi m \<Longrightarrow> cm_ok hi m"
proof (induction rule: cm_reach.induct)
  case (7 hi m it m')
  then show ?case by (auto simp: cm_remove_it_def remove_entry_ok split: bind_splits)
next
  case (8 hi m now it b m')
  then show ?case by (auto simp: cm_update_ts_it_def change_entry_ok split: bind_splits)
next
  case (9 hi m it t b m')
  then show ?case by (auto simp: cm_update_timeout_it_def change_entry_ok split: bind_splits)
qed (auto simp: new_correlation_map_def new_correlation_map_of_def cm_set_ok remove_entry_ok change_entry_ok
    cm_update_ts_def cm_update_timeout_def cm_expire_out_def cm_expire_def expire_loop_filter expire_silent_filter
    filter_ok, auto simp: cm_ok_def set_max_size_def cm_set_timeout_def)

lemma map_of_filter_snd:
  "distinct (map fst es) \<Longrightarrow> map_of (filter (\<lambda>e. P (snd e)) es) k
     = (case map_of es k of None \<Rightarrow> None | Some w \<Rightarrow> if P w then Some w else None)"
proof (induction es)
  case (Cons e es)
  obtain g w where e: "e = (g, w)" by (cases e)
  have "map_of (filter (\<lambda>e. P (snd e)) es) g = None" if "\<not> P w"
    using Cons.prems by (auto simp: e map_of_eq_None_iff)
  with Cons show ?case by (auto simp: e)
qed simp

section \<open>Properties\<close>

text \<open>
  C35. In a correlation map built by any sequence of operations, \<^verbatim>\<open>expire\<close> removes exactly the entries
  older than their timeout and leaves every other entry as it was; the variant with a result
  returns the data of those removed. Keys stay unique. The size never exceeds the largest maximum that was
  set, and an insertion never takes it beyond the maximum in force; lowering the maximum below the size
  removes nothing.
\<close>

theorem cm_expire_exact:
  assumes "cm_reach hi m"
  shows "map_of (data_map (cm_expire now m)) g
       = (case map_of (data_map m) g of None \<Rightarrow> None | Some w \<Rightarrow> if expired now w then None else Some w) \<and>
     cm_expire_out now m = (map (dw_data \<circ> snd) (filter (\<lambda>e. expired now (snd e)) (data_map m)), cm_expire now m) \<and>
     distinct (map fst (data_map m)) \<and> cm_size m \<le> hi \<and>
     cm_size (snd (cm_set now k d t m)) \<le> max (cm_size m) (unat (max_size m))"
proof -
  have ok: "cm_ok hi m" by (rule cm_reach_ok [OF assms])
  then have "distinct (map fst (data_map m))" by (simp add: cm_ok_def)
  from map_of_filter_snd [OF this, of "\<lambda>w. \<not> expired now w" g] ok cm_set_within [of now k d t m] show ?thesis
    by (auto simp: cm_expire_def cm_expire_out_def expire_loop_filter expire_silent_filter cm_ok_def cm_size_def
        split: option.splits)
qed

definition sample_guid :: guid where "sample_guid = replicate 16 7"

definition sample_map :: "nat correlation_map" where
  "sample_map = snd (cm_set 100 sample_guid 42 0 (new_correlation_map_of 5 10))"

theorem cm_expire_exact_witness:
  "map_of (data_map (cm_expire 110 sample_map)) sample_guid \<noteq> None \<and>
   map_of (data_map (cm_expire 111 sample_map)) sample_guid = None \<and> cm_size (set_max_size 0 sample_map) \<le> 5"
proof -
  have r: "cm_reach 5 sample_map" using cm_reach.intros(4) [OF cm_reach.intros(2), of 5 100 sample_guid 42 0 10]
    by (simp add: sample_map_def)
  have "cm_reach 5 (set_max_size 0 sample_map)" using cm_reach.intros(3) [OF r, of 0] by simp
  from cm_expire_exact [OF this] have "cm_size (set_max_size 0 sample_map) \<le> 5" by simp
  moreover have "map_of (data_map sample_map) sample_guid = Some \<lparr>ts = 100, entry_timeout = 10, dw_data = 42\<rparr>"
    by (simp add: sample_map_def cm_set_def new_correlation_map_of_def)
  ultimately show ?thesis
    using cm_expire_exact [OF r, of _ sample_guid] by (simp add: expired_def)
qed

text \<open>The effect of a sequence of counter updates on one counter.\<close>

fun stat_delta :: "u32 \<Rightarrow> stat_op \<Rightarrow> u64" where
  "stat_delta k (Inc i v) = (if i = k then v else 0)"
| "stat_delta k (Dec i v) = (if i = k then - v else 0)"

lemma stat_step_get: "stat_step s op k = map_option (\<lambda>c. c + stat_delta k op) (s k)"
  by (cases op) (auto simp: stat_inc_def stat_dec_def fetch_add_def fetch_sub_def split: option.splits)

lemma stat_run_get: "foldl stat_step s ops k = map_option (\<lambda>c. c + sum_list (map (stat_delta k) ops)) (s k)"
  by (induction ops arbitrary: s) (auto simp: stat_step_get option.map_comp comp_def add.assoc option.map_ident)

text \<open>
  Counters do not lose updates: whatever the order in which the increments and decrements of
  several threads reach the registered counters, each ends at its start value plus all increments
  less all decrements, modulo \<^verbatim>\<open>2^64\<close>; updates of unregistered counters are ignored.
\<close>

theorem stats_any_order:
  assumes "mset ops = mset ops'"
  shows "foldl stat_step s ops = foldl stat_step s ops' \<and>
    (\<forall>k c. s k = Some c \<longrightarrow> fst (stat_get k (foldl stat_step s ops)) = c + sum_list (map (stat_delta k) ops)) \<and>
    (\<forall>k. s k = None \<longrightarrow> foldl stat_step s ops k = None)"
proof -
  have sums: "sum_list (map (stat_delta k) ops) = sum_list (map (stat_delta k) ops')" for k
    using assms by (simp flip: sum_mset_sum_list)
  then have "foldl stat_step s ops = foldl stat_step s ops'" by (intro ext) (simp add: stat_run_get)
  with sums show ?thesis by (auto simp: stat_get_def stat_run_get fetch_add_def)
qed

theorem stats_any_order_witness:
  "fst (stat_get 1 (foldl stat_step (register_item 1 (\<lambda>_. None)) [Inc 1 5, Dec 1 7, Inc 2 9])) = - 2"
proof -
  let ?s = "register_item 1 (\<lambda>_. None)" and ?ops = "[Inc 1 5, Dec 1 7, Inc 2 9]"
  have "mset ?ops = mset [Inc 2 9, Dec 1 7, Inc 1 5]" by simp
  moreover have "?s 1 = Some 0" by (simp add: register_item_def atomic_new_def)
  ultimately have "fst (stat_get 1 (foldl stat_step ?s ?ops)) = 0 + sum_list (map (stat_delta 1) ?ops)"
    using stats_any_order by blast
  then show ?thesis by simp
qed

end
