(* ===== verification/Wrr.thy ===== *)
theory Wrr
  imports Prelude
begin

text \<open>
  The weighted round robin scheduler of \<^verbatim>\<open>src/src/include/mink_utils.h\<close>
  (\<^verbatim>\<open>WRRItem\<close>, \<^verbatim>\<open>WRR\<close>), which the routing daemon uses to spread streams over the nodes of a
  type. Weights are \<^verbatim>\<open>uint32_t\<close>; the current weight \<^verbatim>\<open>cw\<close> is an \<^verbatim>\<open>int\<close> that is compared
  both as a signed value (\<^verbatim>\<open>cw <= 0\<close>) and, against a weight, as an unsigned one, so it is kept
  as a 32-bit word and read accordingly. Pointers to items are indices into the vector.
\<close>

section \<open>State\<close>

record 'd wrr_item =
  wi_id :: "char list"
  wi_item :: 'd
  weight :: u32
  old_weight :: u32

text \<open>The constructor copies at most 64 characters of the id.\<close>

definition new_wrr_item :: "'d \<Rightarrow> char list \<Rightarrow> u32 \<Rightarrow> 'd wrr_item" where
  "new_wrr_item d i w =
     \<lparr>wi_id = take 64 (cstr i), wi_item = d, weight = w, old_weight = w\<rparr>"

record 'd wrr =
  items :: "'d wrr_item list"
  w_gcd :: u32
  w_max :: u32
  index :: int
  cw :: u32

definition new_wrr :: "'d wrr" where
  "new_wrr = \<lparr>items = [], w_gcd = 0, w_max = 0, index = -1, cw = 0\<rparr>"

section \<open>Operations\<close>

function wrr_gcd :: "u32 \<Rightarrow> u32 \<Rightarrow> u32" where
  "wrr_gcd m n = (if n = 0 then m else wrr_gcd n (m mod n))"
  by pat_completeness auto
termination
  by (relation "measure (\<lambda>(m, n). unat n)") (auto simp: unat_mod unat_gt_0)

declare wrr_gcd.simps [simp del]

definition gcd_of :: "'d wrr_item list \<Rightarrow> u32" where
  "gcd_of its = foldl (\<lambda>g it. wrr_gcd g (weight it)) (weight (hd its)) (tl its)"

definition max_of :: "'d wrr_item list \<Rightarrow> u32" where
  "max_of its = foldl (\<lambda>m it. if weight it > m then weight it else m) 0 its"

definition recalc :: "'d wrr \<Rightarrow> 'd wrr" where
  "recalc w = (if items w = [] then w\<lparr>w_gcd := 0, w_max := 0\<rparr>
               else w\<lparr>w_gcd := gcd_of (items w), w_max := max_of (items w)\<rparr>)"

definition add_item :: "'d \<Rightarrow> char list \<Rightarrow> u32 \<Rightarrow> 'd wrr \<Rightarrow> nat \<times> 'd wrr" where
  "add_item d i wt w =
     (length (items w), recalc (w\<lparr>items := items w @ [new_wrr_item d i wt]\<rparr>))"

text \<open>
  One iteration of the loop in \<^verbatim>\<open>run\<close>: \<open>wrr_next\<close> moves to the next item and, on the wrap to
  item zero, lowers the current weight; \<open>wrr_hit\<close> is the test that returns the item.
\<close>

definition wrr_next :: "'d wrr \<Rightarrow> 'd wrr" where
  "wrr_next w = (let i = (index w + 1) mod int (length (items w)) in
     if i = 0
     then (let c = cw w - w_gcd w in w\<lparr>index := 0, cw := (if sint c \<le> 0 then w_max w else c)\<rparr>)
     else w\<lparr>index := i\<rparr>)"

definition wrr_err :: "'d wrr \<Rightarrow> bool" where
  "wrr_err w \<longleftrightarrow> index w = 0 \<and> cw w = 0"

definition wrr_hit :: "'d wrr \<Rightarrow> bool" where
  "wrr_hit w \<longleftrightarrow> (let it = items w ! nat (index w) in weight it > 0 \<and> weight it \<ge> cw w)"

text \<open>The loop gives up after as many iterations as there are items.\<close>

fun wrr_loop :: "nat \<Rightarrow> 'd wrr \<Rightarrow> nat option \<times> 'd wrr" where
  "wrr_loop 0 w = (None, w)"
| "wrr_loop (Suc c) w =
     (let w' = wrr_next w in
      if wrr_err w' then (None, w')
      else if wrr_hit w' then (Some (nat (index w')), w')
      else wrr_loop c w')"

definition wrr_run :: "'d wrr \<Rightarrow> nat option \<times> 'd wrr" where
  "wrr_run w = (if items w = [] then (None, w) else wrr_loop (length (items w)) w)"

definition enable_item :: "nat option \<Rightarrow> 'd wrr \<Rightarrow> int \<times> 'd wrr" where
  "enable_item p w = (case p of None \<Rightarrow> (1, w)
     | Some i \<Rightarrow> (let it = items w ! i in
         if weight it > 0 then (2, w)
         else (0, recalc (w\<lparr>items := (items w)[i := it\<lparr>weight := old_weight it\<rparr>]\<rparr>))))"

definition id_matches :: "char list \<Rightarrow> 'd wrr_item \<Rightarrow> bool" where
  "id_matches i it \<longleftrightarrow> wi_id it = cstr i"

definition enable :: "char list option \<Rightarrow> 'd wrr \<Rightarrow> int \<times> 'd wrr" where
  "enable p w = (case p of None \<Rightarrow> (1, w)
     | Some i \<Rightarrow>
         (let its = map (\<lambda>it. if id_matches i it \<and> weight it = 0
                              then it\<lparr>weight := old_weight it\<rparr> else it) (items w) in
          (if list_ex (id_matches i) (items w) then 0 else 2, recalc (w\<lparr>items := its\<rparr>))))"

definition disable_item :: "nat option \<Rightarrow> 'd wrr \<Rightarrow> int \<times> 'd wrr" where
  "disable_item p w = (case p of None \<Rightarrow> (1, w)
     | Some i \<Rightarrow> (let it = items w ! i in
         if weight it = 0 then (2, w)
         else (0, recalc (w\<lparr>items := (items w)[i := it\<lparr>old_weight := weight it, weight := 0\<rparr>]\<rparr>))))"

definition disable :: "char list option \<Rightarrow> 'd wrr \<Rightarrow> int \<times> 'd wrr" where
  "disable p w = (case p of None \<Rightarrow> (1, w)
     | Some i \<Rightarrow>
         (let its = map (\<lambda>it. if id_matches i it \<and> weight it > 0
                              then it\<lparr>old_weight := weight it, weight := 0\<rparr> else it) (items w) in
          (if list_ex (id_matches i) (items w) then 0 else 2, recalc (w\<lparr>items := its\<rparr>))))"

definition wrr_clear :: "'d wrr \<Rightarrow> 'd wrr" where
  "wrr_clear w = w\<lparr>items := []\<rparr>"

definition wrr_remove_at :: "nat \<Rightarrow> 'd wrr \<Rightarrow> int \<times> 'd wrr" where
  "wrr_remove_at i w = (if i \<ge> length (items w) then (1, w)
     else (0, recalc (w\<lparr>items := erase_at i (items w)\<rparr>)))"

definition wrr_remove :: "char list option \<Rightarrow> 'd wrr \<Rightarrow> int \<times> 'd wrr" where
  "wrr_remove p w = (case p of None \<Rightarrow> (1, w)
     | Some i \<Rightarrow>
         (if list_ex (id_matches i) (items w) then 0 else 2,
          recalc (w\<lparr>items := filter (\<lambda>it. \<not> id_matches i it) (items w)\<rparr>)))"

definition wrr_get :: "char list option \<Rightarrow> 'd wrr \<Rightarrow> nat option" where
  "wrr_get p w = (case p of None \<Rightarrow> None | Some i \<Rightarrow> find_index (id_matches i) (items w))"


section \<open>The cached gcd and maximum\<close>

definition weights :: "'d wrr \<Rightarrow> nat list" where
  "weights w = map (\<lambda>it. unat (weight it)) (items w)"

definition wrr_wf :: "'d wrr \<Rightarrow> bool" where
  "wrr_wf w \<longleftrightarrow> unat (w_gcd w) = Gcd (set (weights w)) \<and>
                unat (w_max w) = Max (insert 0 (set (weights w)))"

lemma unat_wrr_gcd: "unat (wrr_gcd m n) = gcd (unat m) (unat n)"
proof (induction m n rule: wrr_gcd.induct)
  case (1 m n)
  show ?case
  proof (cases "n = 0")
    case True
    then show ?thesis by (simp add: wrr_gcd.simps)
  next
    case False
    with "1.IH" have "unat (wrr_gcd n (m mod n)) = gcd (unat n) (unat m mod unat n)"
      by (simp add: unat_mod)
    also have "\<dots> = gcd (unat m) (unat n)"
      by (metis gcd.commute gcd_red_nat)
    finally show ?thesis using False by (simp add: wrr_gcd.simps [of m n])
  qed
qed

lemma unat_foldl_gcd:
  "unat (foldl (\<lambda>g it. wrr_gcd g (weight it)) g its)
     = gcd (unat g) (Gcd (set (map (\<lambda>it. unat (weight it)) its)))"
  by (induction its arbitrary: g) (simp_all add: unat_wrr_gcd gcd.assoc)

lemma unat_foldl_max:
  "unat (foldl (\<lambda>m it. if weight it > m then weight it else m) m its)
     = Max (insert (unat m) (set (map (\<lambda>it. unat (weight it)) its)))"
proof (induction its arbitrary: m)
  case Nil
  then show ?case by simp
next
  case (Cons it its)
  let ?S = "set (map (\<lambda>it. unat (weight it)) its)"
  have "unat (if weight it > m then weight it else m) = max (unat m) (unat (weight it))"
    by (simp add: word_less_nat_alt)
  moreover have "Max (insert (max a b) S) = Max (insert a (insert b S))" if "finite S" for a b :: nat and S
    using that by (cases "S = {}") (simp_all add: max.assoc)
  ultimately show ?case using Cons.IH by (simp add: insert_commute)
qed

lemma recalc_wf [simp, inv_intros]: "wrr_wf (recalc w)"
proof (cases "items w")
  case Nil
  then show ?thesis by (simp add: recalc_def wrr_wf_def weights_def)
next
  case (Cons it its)
  have "unat (gcd_of (items w)) = Gcd (set (weights w))"
    by (simp add: gcd_of_def weights_def Cons unat_foldl_gcd)
  moreover have "unat (max_of (items w)) = Max (insert 0 (set (weights w)))"
    unfolding max_of_def weights_def unat_foldl_max by simp
  ultimately show ?thesis
    by (simp add: recalc_def wrr_wf_def weights_def Cons)
qed

lemma recalc_items [simp]: "items (recalc w) = items w"
  "index (recalc w) = index w" "cw (recalc w) = cw w"
  by (simp_all add: recalc_def)

lemma wf_cursor [simp]: "wrr_wf (w\<lparr>index := a, cw := b\<rparr>) = wrr_wf w"
  "wrr_wf (w\<lparr>index := a\<rparr>) = wrr_wf w"
  by (simp_all add: wrr_wf_def weights_def)

lemma new_wrr_wf [simp]: "wrr_wf new_wrr"
  by (simp add: wrr_wf_def new_wrr_def weights_def)

lemma wrr_next_frame [simp]:
  "items (wrr_next w) = items w" "w_gcd (wrr_next w) = w_gcd w" "w_max (wrr_next w) = w_max w"
  "weights (wrr_next w) = weights w"
  by (simp_all add: wrr_next_def Let_def weights_def)

lemma wrr_loop_frame [simp]:
  "items (snd (wrr_loop c w)) = items w" "w_gcd (snd (wrr_loop c w)) = w_gcd w"
  "w_max (snd (wrr_loop c w)) = w_max w"
  by (induction c arbitrary: w) (simp_all add: Let_def)

lemma wrr_run_frame [simp]:
  "items (snd (wrr_run w)) = items w" "w_gcd (snd (wrr_run w)) = w_gcd w"
  "w_max (snd (wrr_run w)) = w_max w"
  by (simp_all add: wrr_run_def)

lemma wrr_run_wf [inv_intros]: "wrr_wf w \<Longrightarrow> wrr_wf (snd (wrr_run w))"
  by (simp add: wrr_wf_def weights_def)

section \<open>The run loop always finds an enabled item\<close>

text \<open>
  The state between two calls: the index of the last item (or -1) and a current weight that
  has not outgrown the maximum. Weights below \<open>2 ^ 31\<close> keep the signed comparison of \<^verbatim>\<open>cw\<close>
  meaningful.
\<close>

definition wrr_inv :: "'d wrr \<Rightarrow> bool" where
  "wrr_inv w \<longleftrightarrow> wrr_wf w \<and> items w \<noteq> [] \<and> unat (w_max w) < 2 ^ 31 \<and>
     - 1 \<le> index w \<and> index w < int (length (items w)) \<and> unat (cw w) \<le> unat (w_max w)"

lemma length_weights [simp]: "length (weights w) = length (items w)"
  by (simp add: weights_def)

lemma weight_le_max: "wrr_wf w \<Longrightarrow> i < length (items w) \<Longrightarrow> unat (weight (items w ! i)) \<le> unat (w_max w)"
  by (simp add: wrr_wf_def weights_def)

lemma gcd_le_max: "wrr_wf w \<Longrightarrow> unat (w_gcd w) \<le> unat (w_max w)"
proof -
  assume wf: "wrr_wf w"
  show ?thesis
  proof (cases "unat (w_max w) = 0")
    case True
    with wf have "set (weights w) \<subseteq> {0}"
      by (auto simp: wrr_wf_def) (metis List.finite_set Max_ge finite_insert insertCI le_zero_eq)
    with wf show ?thesis by (auto simp: wrr_wf_def subset_singleton_iff)
  next
    case False
    let ?M = "Max (insert 0 (set (weights w)))"
    have "?M \<in> insert 0 (set (weights w))" by (rule Max_in) auto
    with False wf have "?M \<in> set (weights w)" "?M \<noteq> 0" by (auto simp: wrr_wf_def)
    then have "Gcd (set (weights w)) dvd ?M" by (intro Gcd_dvd)
    with \<open>?M \<noteq> 0\<close> wf show ?thesis by (simp add: wrr_wf_def dvd_imp_le)
  qed
qed

lemma sint_sub_small:
  fixes a b :: u32
  assumes "unat a < 2 ^ 31" and "unat b < 2 ^ 31"
  shows "sint (a - b) = int (unat a) - int (unat b)"
proof -
  have "sint (a - b) = signed_take_bit 31 (sint a - sint b)"
    by (simp add: sint_word_ariths)
  also have "\<dots> = signed_take_bit 31 (int (unat a) - int (unat b))"
    using assms by (simp only: sint_pos_unat)
  also have "\<dots> = int (unat a) - int (unat b)"
  proof (rule signed_take_bit_int_eq_self)
    have "int (unat a) < 2 ^ 31" "int (unat b) < 2 ^ 31"
      using assms by (metis of_nat_less_iff of_nat_numeral of_nat_power)+
    moreover have "0 \<le> int (unat a)" "0 \<le> int (unat b)" by (simp_all only: of_nat_0_le_iff)
    ultimately show "- (2 ^ 31) \<le> int (unat a) - int (unat b)"
      and "int (unat a) - int (unat b) < 2 ^ 31"
      by linarith+
  qed
  finally show ?thesis .
qed

text \<open>What the wrap to item zero does with the current weight, over the naturals.\<close>

definition lower :: "'d wrr \<Rightarrow> nat" where
  "lower w = (if unat (cw w) \<le> unat (w_gcd w) then unat (w_max w) else unat (cw w) - unat (w_gcd w))"

lemma wrr_next_index: "index (wrr_next w) = (index w + 1) mod int (length (items w))"
  by (simp add: wrr_next_def Let_def)

lemma wrr_next_cw:
  assumes "wrr_inv w"
  shows "unat (cw (wrr_next w)) = (if index (wrr_next w) = 0 then lower w else unat (cw w))"
proof -
  have c: "unat (cw w) < 2 ^ 31" and g: "unat (w_gcd w) < 2 ^ 31"
    using assms gcd_le_max [of w] by (auto simp: wrr_inv_def)
  have s: "sint (cw w - w_gcd w) \<le> 0 \<longleftrightarrow> unat (cw w) \<le> unat (w_gcd w)"
    by (simp only: sint_sub_small [OF c g]) linarith
  have "unat (cw w - w_gcd w) = unat (cw w) - unat (w_gcd w)" if "\<not> unat (cw w) \<le> unat (w_gcd w)"
    using that by (simp add: unat_sub word_le_nat_alt)
  with s show ?thesis by (simp add: wrr_next_def Let_def lower_def)
qed

lemma wrr_next_inv: "wrr_inv w \<Longrightarrow> wrr_inv (wrr_next w)"
proof -
  assume inv: "wrr_inv w"
  then have n: "0 < int (length (items w))" by (simp add: wrr_inv_def)
  have "unat (cw (wrr_next w)) \<le> unat (w_max w)"
    using inv by (auto simp: wrr_next_cw lower_def wrr_inv_def)
  moreover have "0 \<le> index (wrr_next w)" "index (wrr_next w) < int (length (items w))"
    using n by (simp_all add: wrr_next_index)
  ultimately show ?thesis
    using inv by (auto simp: wrr_inv_def wrr_wf_def)
qed


text \<open>The states one call passes through: \<open>j\<close> moves from \<open>w\<close>.\<close>

abbreviation nexts :: "nat \<Rightarrow> 'd wrr \<Rightarrow> 'd wrr" where
  "nexts j w \<equiv> (wrr_next ^^ j) w"

lemma nexts_frame [simp]:
  "items (nexts j w) = items w" "w_gcd (nexts j w) = w_gcd w" "w_max (nexts j w) = w_max w"
  "weights (nexts j w) = weights w"
  by (induction j) simp_all

lemma nexts_inv: "wrr_inv w \<Longrightarrow> wrr_inv (nexts j w)"
  by (induction j) (auto intro: wrr_next_inv)

lemma nexts_shift: "nexts j (wrr_next w) = nexts (Suc j) w"
  by (simp add: funpow_swap1)

lemma nexts_index:
  "wrr_inv w \<Longrightarrow> 0 < j \<Longrightarrow> index (nexts j w) = (index w + int j) mod int (length (items w))"
proof (induction j)
  case 0
  then show ?case by simp
next
  case (Suc j)
  then show ?case
    by (cases "j = 0") (simp_all add: wrr_next_index mod_simps add.commute add.left_commute)
qed

lemma no_err: "wrr_inv w \<Longrightarrow> w_max w \<noteq> 0 \<Longrightarrow> \<not> wrr_err (wrr_next w)"
proof
  assume inv: "wrr_inv w" and m: "w_max w \<noteq> 0" and e: "wrr_err (wrr_next w)"
  then have "lower w = 0" using wrr_next_cw [OF inv] by (simp add: wrr_err_def)
  moreover have "0 < lower w" using m by (auto simp: lower_def unat_gt_0)
  ultimately show False by simp
qed

text \<open>The loop stops at the first state that passes the test.\<close>

lemma wrr_loop_first_hit:
  assumes "wrr_inv w" and "w_max w \<noteq> 0" and "0 < j" and "j \<le> c"
    and "wrr_hit (nexts j w)" and "\<And>i. 0 < i \<Longrightarrow> i < j \<Longrightarrow> \<not> wrr_hit (nexts i w)"
  shows "wrr_loop c w = (Some (nat (index (nexts j w))), nexts j w)"
  using assms
proof (induction c arbitrary: w j)
  case 0
  then show ?case by simp
next
  case (Suc c)
  have ne: "\<not> wrr_err (wrr_next w)" using Suc.prems by (intro no_err)
  show ?case
  proof (cases "j = 1")
    case True
    then show ?thesis using Suc.prems ne by (simp add: Let_def)
  next
    case False
    then obtain k where j: "j = Suc k" and k: "0 < k" using Suc.prems(3) by (cases j) auto
    have "\<not> wrr_hit (nexts 1 w)" using False Suc.prems(3) by (intro Suc.prems(6)) auto
    then have nh: "\<not> wrr_hit (wrr_next w)" by simp
    have "wrr_loop c (wrr_next w)
        = (Some (nat (index (nexts k (wrr_next w)))), nexts k (wrr_next w))"
    proof (rule Suc.IH)
      show "\<not> wrr_hit (nexts i (wrr_next w))" if "0 < i" "i < k" for i
        using that j Suc.prems(6) [of "Suc i"] by (simp only: nexts_shift) simp
    qed (use Suc.prems k j wrr_next_inv in \<open>simp_all add: nexts_shift del: funpow.simps\<close>)
    then show ?thesis using ne nh by (simp add: Let_def j nexts_shift del: funpow.simps)
  qed
qed

text \<open>Some state among the next \<open>n\<close> passes it: the one at an item of maximal weight.\<close>

lemma hit_within_round:
  assumes inv: "wrr_inv w" and m: "w_max w \<noteq> 0"
  shows "\<exists>j. 0 < j \<and> j \<le> length (items w) \<and> wrr_hit (nexts j w)"
proof -
  let ?n = "int (length (items w))"
  have wf: "wrr_wf w" and n: "0 < ?n" using inv by (simp_all add: wrr_inv_def)
  have "Max (insert 0 (set (weights w))) \<in> insert 0 (set (weights w))" by (rule Max_in) auto
  with m wf have "unat (w_max w) \<in> set (weights w)"
    by (auto simp: wrr_wf_def unat_eq_0 [symmetric])
  then obtain k where k: "k < length (items w)" "unat (weight (items w ! k)) = unat (w_max w)"
    by (auto simp: weights_def in_set_conv_nth)
  define j where "j = (let d = (int k - index w) mod ?n in if d = 0 then length (items w) else nat d)"
  have d: "0 \<le> (int k - index w) mod ?n" "(int k - index w) mod ?n < ?n" using n by simp_all
  then have "nat ((int k - index w) mod ?n) < length (items w)" by linarith
  moreover have "0 < nat ((int k - index w) mod ?n)" if "(int k - index w) mod ?n \<noteq> 0"
    using that d(1) by linarith
  ultimately have j: "0 < j" "j \<le> length (items w)" using n by (auto simp: j_def Let_def)
  have "int j mod ?n = (int k - index w) mod ?n"
    using d by (auto simp: j_def Let_def)
  then have "(index w + int j) mod ?n = int k"
    using k(1) by (metis add_diff_cancel_left' diff_add_cancel mod_add_right_eq mod_pos_pos_trivial
        add.commute of_nat_0_le_iff of_nat_less_iff)
  then have ix: "index (nexts j w) = int k" using inv j by (simp add: nexts_index)
  have "unat (cw (nexts j w)) \<le> unat (w_max w)"
    using nexts_inv [OF inv, of j] by (simp add: wrr_inv_def)
  moreover have "weight (items w ! k) = w_max w" using k(2) by (simp add: word_unat_eq_iff)
  ultimately have "wrr_hit (nexts j w)"
    using ix m by (simp add: wrr_hit_def Let_def word_le_nat_alt word_less_nat_alt unat_gt_0)
  with j show ?thesis by blast
qed

lemma wrr_run_first_hit:
  assumes inv: "wrr_inv w" and m: "w_max w \<noteq> 0"
  obtains j where "0 < j" "wrr_hit (nexts j w)" "\<And>i. 0 < i \<Longrightarrow> i < j \<Longrightarrow> \<not> wrr_hit (nexts i w)"
    "wrr_run w = (Some (nat (index (nexts j w))), nexts j w)"
proof -
  let ?P = "\<lambda>j. 0 < j \<and> wrr_hit (nexts j w)"
  obtain j0 where j0: "0 < j0" "j0 \<le> length (items w)" "wrr_hit (nexts j0 w)"
    using hit_within_round [OF assms] by blast
  define j where "j = (LEAST j. ?P j)"
  have j: "?P j" unfolding j_def by (rule LeastI [of ?P j0]) (use j0 in simp)
  have "j \<le> j0" unfolding j_def by (rule Least_le) (use j0 in simp)
  have least: "\<not> wrr_hit (nexts i w)" if "0 < i" "i < j" for i
    using that not_less_Least [of i ?P] by (auto simp: j_def)
  have "wrr_loop (length (items w)) w = (Some (nat (index (nexts j w))), nexts j w)"
    using wrr_loop_first_hit [OF inv m _ _ _ least, of j "length (items w)"] j \<open>j \<le> j0\<close> j0(2) by auto
  moreover have "items w \<noteq> []" using inv by (simp add: wrr_inv_def)
  ultimately have "wrr_run w = (Some (nat (index (nexts j w))), nexts j w)"
    by (simp add: wrr_run_def)
  with j least show thesis by (intro that [of j]) auto
qed

lemma wrr_run_inv [inv_intros]: "wrr_inv w \<Longrightarrow> w_max w \<noteq> 0 \<Longrightarrow> wrr_inv (snd (wrr_run w))"
  by (metis nexts_inv snd_conv wrr_run_first_hit)


section \<open>Fairness\<close>

text \<open>The results of a sequence of calls.\<close>

fun wrr_runs :: "nat \<Rightarrow> 'd wrr \<Rightarrow> nat option list" where
  "wrr_runs 0 w = []"
| "wrr_runs (Suc k) w = fst (wrr_run w) # wrr_runs k (snd (wrr_run w))"

abbreviation orbit :: "nat \<Rightarrow> 'd wrr \<Rightarrow> 'd wrr list" where
  "orbit m w \<equiv> map (\<lambda>j. nexts (Suc j) w) [0..<m]"

lemma orbit_split:
  assumes "j < m"
  shows "orbit m w = orbit j w @ nexts (Suc j) w # orbit (m - Suc j) (nexts (Suc j) w)"
proof -
  have m: "m = Suc j + (m - Suc j)" using assms by simp
  have "orbit m w = orbit (Suc j) w @ map (\<lambda>i. nexts (Suc (Suc j + i)) w) [0..<m - Suc j]"
    by (subst m, subst upt_block) (simp add: comp_def)
  moreover have "nexts (Suc (Suc j + i)) w = nexts (Suc i) (nexts (Suc j) w)" for i
    by (metis add.commute add_Suc_right comp_apply funpow_add)
  ultimately show ?thesis by (simp del: funpow.simps)
qed

text \<open>A sequence of calls returns the hits along the moves, in order.\<close>

lemma wrr_runs_orbit:
  assumes "wrr_inv w" and "w_max w \<noteq> 0"
  shows "wrr_runs (length (filter wrr_hit (orbit m w))) w
       = map (\<lambda>s. Some (nat (index s))) (filter wrr_hit (orbit m w))"
  using assms
proof (induction m arbitrary: w rule: less_induct)
  case (less m)
  show ?case
  proof (cases "filter wrr_hit (orbit m w) = []")
    case True
    then show ?thesis by (simp only: True list.size wrr_runs.simps list.map)
  next
    case False
    obtain j where j: "0 < j" "wrr_hit (nexts j w)" "\<And>i. 0 < i \<Longrightarrow> i < j \<Longrightarrow> \<not> wrr_hit (nexts i w)"
      and run: "wrr_run w = (Some (nat (index (nexts j w))), nexts j w)"
      using wrr_run_first_hit [OF less.prems] by blast
    obtain k where k: "j = Suc k" using j(1) by (cases j) auto
    obtain i where i: "i < m" "wrr_hit (nexts (Suc i) w)"
      using False by (auto simp: filter_empty_conv simp del: funpow.simps)
    with j(3) [of "Suc i"] k have km: "k < m" by (cases "Suc i < j") auto
    have "filter wrr_hit (orbit k w) = []"
      using j(3) k by (auto simp: filter_empty_conv simp del: funpow.simps)
    then have F: "filter wrr_hit (orbit m w)
        = nexts j w # filter wrr_hit (orbit (m - j) (nexts j w))"
      using j(2) k orbit_split [OF km, of w] by (simp del: funpow.simps)
    have "wrr_runs (length (filter wrr_hit (orbit (m - j) (nexts j w)))) (nexts j w)
        = map (\<lambda>s. Some (nat (index s))) (filter wrr_hit (orbit (m - j) (nexts j w)))"
      using km k less.prems by (intro less.IH nexts_inv) (simp_all del: funpow.simps)
    then show ?thesis unfolding F by (simp only: run list.size wrr_runs.simps list.map fst_conv snd_conv add_Suc_right add_0_right)
  qed
qed

text \<open>
  The moves in closed form, from a scheduler that has not run yet: position \<open>p\<close> is item
  \<open>p mod n\<close> in the round with weight level \<open>L - (p div n) mod L\<close>.
\<close>

definition wrr_fresh :: "'d wrr \<Rightarrow> bool" where
  "wrr_fresh w \<longleftrightarrow> wrr_wf w \<and> items w \<noteq> [] \<and> 0 < w_max w \<and> unat (w_max w) < 2 ^ 31 \<and>
     index w = - 1 \<and> cw w = 0"

definition levels :: "'d wrr \<Rightarrow> nat" where
  "levels w = unat (w_max w) div unat (w_gcd w)"

lemma fresh_inv: "wrr_fresh w \<Longrightarrow> wrr_inv w"
  by (simp add: wrr_fresh_def wrr_inv_def)

lemma fresh_levels:
  assumes "wrr_fresh w"
  shows "0 < unat (w_gcd w)" "unat (w_max w) = levels w * unat (w_gcd w)" "0 < levels w"
    "x \<in> set (weights w) \<Longrightarrow> unat (w_gcd w) dvd x"
proof -
  have wf: "wrr_wf w" and m: "0 < unat (w_max w)"
    using assms by (simp_all add: wrr_fresh_def word_less_nat_alt)
  let ?M = "Max (insert 0 (set (weights w)))"
  have "?M \<in> insert 0 (set (weights w))" by (rule Max_in) auto
  with wf m have M: "unat (w_max w) \<in> set (weights w)" by (auto simp: wrr_wf_def)
  have "Gcd (set (weights w)) dvd unat (w_max w)" using M by (rule Gcd_dvd)
  then have d: "unat (w_gcd w) dvd unat (w_max w)" using wf by (simp add: wrr_wf_def)
  with m show "0 < unat (w_gcd w)" by (cases "unat (w_gcd w) = 0") auto
  show "unat (w_max w) = levels w * unat (w_gcd w)" using d by (simp add: levels_def)
  with m show "0 < levels w" by (cases "levels w = 0") auto
  show "x \<in> set (weights w) \<Longrightarrow> unat (w_gcd w) dvd x"
    using wf by (simp add: wrr_wf_def Gcd_dvd)
qed

lemma fresh_index:
  assumes "wrr_fresh w"
  shows "index (nexts (Suc p) w) = int (p mod length (items w))"
  using nexts_index [OF fresh_inv [OF assms], of "Suc p"] assms
  by (simp add: wrr_fresh_def zmod_int del: funpow.simps)

lemma fresh_cw:
  assumes fr: "wrr_fresh w"
  shows "unat (cw (nexts (Suc p) w))
       = (levels w - (p div length (items w)) mod levels w) * unat (w_gcd w)"
proof (induction p)
  case 0
  have "index (wrr_next w) = 0" using fresh_index [OF fr, of 0] by simp
  then show ?case
    using wrr_next_cw [OF fresh_inv [OF fr]] fresh_levels [OF fr] fr
    by (simp add: lower_def wrr_fresh_def)
next
  case (Suc p)
  let ?n = "length (items w)" and ?L = "levels w" and ?g = "unat (w_gcd w)"
  let ?s = "nexts (Suc p) w"
  have n: "0 < ?n" using fr by (simp add: wrr_fresh_def)
  have st: "nexts (Suc (Suc p)) w = wrr_next ?s" by simp
  have c: "unat (cw (wrr_next ?s))
      = (if Suc p mod ?n = 0 then lower ?s else unat (cw ?s))"
    using wrr_next_cw [OF nexts_inv [OF fresh_inv [OF fr]], of "Suc p"] fresh_index [OF fr, of "Suc p"]
    by (simp only: st of_nat_eq_0_iff)
  show ?case
  proof (cases "Suc p mod ?n = 0")
    case False
    then have "Suc p div ?n = p div ?n" by (simp add: div_Suc)
    with False c Suc.IH show ?thesis by (simp only: st if_False)
  next
    case True
    let ?q = "p div ?n"
    have q: "Suc p div ?n = Suc ?q" using True by (simp add: div_Suc)
    have low: "lower ?s = (if (?L - ?q mod ?L) * ?g \<le> ?g then ?L * ?g else (?L - ?q mod ?L) * ?g - ?g)"
      using Suc.IH fresh_levels(2) [OF fr] by (simp only: lower_def nexts_frame)
    have L: "0 < ?L" and g: "0 < ?g" using fresh_levels [OF fr] by simp_all
    have lt: "?q mod ?L < ?L" using L by simp
    have "lower ?s = (?L - Suc ?q mod ?L) * ?g"
    proof (cases "Suc (?q mod ?L) = ?L")
      case True
      then have "?L - ?q mod ?L = 1" "Suc ?q mod ?L = 0" using lt by (simp_all add: mod_Suc)
      then show ?thesis using low by simp
    next
      case False
      then have "Suc ?q mod ?L = Suc (?q mod ?L)" "1 < ?L - ?q mod ?L" using lt by (simp_all add: mod_Suc)
      moreover have "\<not> (?L - ?q mod ?L) * ?g \<le> ?g" using \<open>1 < ?L - ?q mod ?L\<close> g by simp
      moreover have "(?L - ?q mod ?L) * ?g - ?g = (?L - ?q mod ?L - 1) * ?g"
        by (simp add: diff_mult_distrib)
      ultimately show ?thesis using low by simp
    qed
    with True c q show ?thesis by (simp only: st if_True simp_thms)
  qed
qed


text \<open>How often an item occurs among \<open>k\<close> full cycles of moves that hit.\<close>

lemma fresh_hit:
  assumes fr: "wrr_fresh w"
  shows "wrr_hit (nexts (Suc p) w) \<longleftrightarrow>
    levels w - (p div length (items w)) mod levels w
      \<le> weights w ! (p mod length (items w)) div unat (w_gcd w)"
proof -
  let ?n = "length (items w)" and ?g = "unat (w_gcd w)"
  let ?l = "levels w - (p div ?n) mod levels w" and ?i = "p mod ?n"
  have i: "?i < ?n" using fr by (simp add: wrr_fresh_def)
  have g: "0 < ?g" and L: "0 < levels w" using fresh_levels [OF fr] by simp_all
  have x: "weights w ! ?i = unat (weight (items w ! ?i))" using i by (simp add: weights_def)
  have "wrr_hit (nexts (Suc p) w) \<longleftrightarrow> 0 < weights w ! ?i \<and> ?l * ?g \<le> weights w ! ?i"
    using fresh_cw [OF fr, of p] fresh_index [OF fr, of p]
    by (simp add: wrr_hit_def Let_def x word_le_nat_alt word_less_nat_alt del: funpow.simps)
  moreover have "?l * ?g \<le> weights w ! ?i \<longleftrightarrow> ?l \<le> weights w ! ?i div ?g"
    using g by (simp add: less_eq_div_iff_mult_less_eq)
  moreover have "0 < ?l" using L by simp
  ultimately show ?thesis using g by (auto intro: gr0I)
qed

abbreviation cycle_hits :: "nat \<Rightarrow> 'd wrr \<Rightarrow> 'd wrr list" where
  "cycle_hits k w \<equiv> filter wrr_hit (orbit (k * (levels w * length (items w))) w)"

lemma count_cycle_hits:
  assumes fr: "wrr_fresh w" and i: "i < length (items w)"
  shows "count_list (map (\<lambda>s. nat (index s)) (cycle_hits k w)) i
       = k * (weights w ! i div unat (w_gcd w))"
proof -
  let ?n = "length (items w)" and ?L = "levels w" and ?d = "weights w ! i div unat (w_gcd w)"
  let ?Q = "\<lambda>q. ?L - q mod ?L \<le> ?d"
  let ?P = "\<lambda>p. p mod ?n = i \<and> ?Q (p div ?n)"
  have n: "0 < ?n" and L: "0 < ?L" using i fresh_levels [OF fr] by linarith+
  have "count_list (map (\<lambda>s. nat (index s)) (cycle_hits k w)) i
      = length (filter ?P [0..<k * (?L * ?n)])"
    using fresh_hit [OF fr] fresh_index [OF fr]
    by (simp add: count_list_eq_length_filter filter_map comp_def del: funpow.simps)
       (rule arg_cong [where f = length], rule filter_cong, auto)
  also have "\<dots> = k * length (filter ?P [0..<?L * ?n])"
    using n by (intro length_filter_periodic) (simp add: div_add_self1 mult.commute)
  also have "length (filter ?P [0..<?L * ?n]) = length (filter ?Q [0..<?L])"
    by (rule length_filter_div_mod [OF i])
  also have "filter ?Q [0..<?L] = filter (\<lambda>q. ?L - q \<le> ?d) [0..<?L]"
    by (rule filter_cong) auto
  also have "length \<dots> = ?d"
  proof (rule length_filter_upto_ge)
    have "wrr_wf w" using fr by (simp add: wrr_fresh_def)
    then have "weights w ! i \<le> unat (w_max w)"
      using weight_le_max [of w i] i by (simp add: weights_def)
    then show "?d \<le> ?L" unfolding levels_def by (rule div_le_mono)
  qed
  finally show ?thesis .
qed

lemma length_cycle_hits:
  assumes fr: "wrr_fresh w"
  shows "length (cycle_hits k w) = k * sum_list (map (\<lambda>x. x div unat (w_gcd w)) (weights w))"
proof -
  let ?n = "length (items w)" and ?xs = "map (\<lambda>s. nat (index s)) (cycle_hits k w)"
  have n: "0 < ?n" using fr by (simp add: wrr_fresh_def)
  then have "set ?xs \<subseteq> {0..<?n}"
    using fresh_index [OF fr] by (auto simp del: funpow.simps)
  then have "length ?xs = (\<Sum>i = 0..<?n. count_list ?xs i)"
    by (simp only: sum_count_set finite_atLeastLessThan)
  also have "\<dots> = (\<Sum>i = 0..<?n. k * (weights w ! i div unat (w_gcd w)))"
    by (rule sum.cong) (simp_all only: count_cycle_hits [OF fr] atLeastLessThan_iff)
  also have "\<dots> = k * sum_list (map (\<lambda>x. x div unat (w_gcd w)) (weights w))"
    by (simp add: sum_list_sum_nth sum_distrib_left)
  finally show ?thesis by (simp only: length_map)
qed

lemma count_list_map_Some: "count_list (map (\<lambda>x. Some (f x)) xs) (Some i) = count_list (map f xs) i"
  by (induction xs) simp_all

section \<open>Properties\<close>

text \<open>
  Weighted fairness of the scheduler: over \<open>k\<close> full cycles (the sum of the weights divided by
  their gcd, \<open>k\<close> times) from the start, every node is returned exactly \<open>k\<close> times its weight
  divided by the gcd, so in proportion to its configured weight; nodes of weight zero never are.
\<close>

theorem wrr_fair:
  assumes "wrr_fresh w" and "i < length (items w)"
  shows "count_list (wrr_runs (k * sum_list (map (\<lambda>x. x div unat (w_gcd w)) (weights w))) w) (Some i)
       = k * (weights w ! i div unat (w_gcd w))"
proof -
  have "wrr_inv w" "w_max w \<noteq> 0" using assms(1) fresh_inv by (auto simp: wrr_fresh_def)
  then have "wrr_runs (length (cycle_hits k w)) w = map (\<lambda>s. Some (nat (index s))) (cycle_hits k w)"
    by (rule wrr_runs_orbit)
  then show ?thesis
    using count_cycle_hits [OF assms, of k] by (simp only: length_cycle_hits [OF assms(1)] count_list_map_Some)
qed

definition two_nodes :: "nat wrr" where
  "two_nodes = snd (add_item 20 ''b'' 4 (snd (add_item 10 ''a'' 6 new_wrr)))"

lemma two_nodes_state:
  "two_nodes = \<lparr>items = [new_wrr_item 10 ''a'' 6, new_wrr_item 20 ''b'' 4],
                w_gcd = 2, w_max = 6, index = -1, cw = 0\<rparr>"
  by (simp add: two_nodes_def add_item_def recalc_def new_wrr_def gcd_of_def max_of_def
      new_wrr_item_def wrr_gcd.simps)

lemma two_nodes_fresh: "wrr_fresh two_nodes"
proof -
  have "wrr_wf two_nodes" by (simp add: two_nodes_def add_item_def)
  then show ?thesis by (simp add: wrr_fresh_def two_nodes_state)
qed

theorem wrr_fair_witness:
  "count_list (wrr_runs 10 two_nodes) (Some 0) = 6"
  using wrr_fair [OF two_nodes_fresh, of 0 2]
  by (simp add: two_nodes_state weights_def new_wrr_item_def del: wrr_runs.simps)

lemma wrr_loop_enabled:
  assumes "fst (wrr_loop c w) = Some i"
  shows "0 < weight (items w ! i)"
  using assms
proof (induction c arbitrary: w)
  case 0
  then show ?case by simp
next
  case (Suc c)
  show ?case
  proof (cases "wrr_hit (wrr_next w)")
    case True
    with Suc.prems show ?thesis by (auto simp: Let_def wrr_hit_def split: if_splits)
  next
    case False
    with Suc.prems have "fst (wrr_loop c (wrr_next w)) = Some i"
      by (simp add: Let_def split: if_splits)
    from Suc.IH [OF this] show ?thesis by simp
  qed
qed

text \<open>
  C12. A call on a scheduler whose cached gcd and maximum are current and whose current weight has
  not outgrown the maximum returns an enabled node (of weight at least the current weight), and
  leaves the scheduler in such a state, with the nodes untouched.
\<close>

theorem wrr_run_total:
  assumes "wrr_inv w" and "w_max w \<noteq> 0"
  shows "\<exists>i w'. wrr_run w = (Some i, w') \<and> i < length (items w) \<and> 0 < weight (items w ! i) \<and>
    cw w' \<le> weight (items w ! i) \<and> wrr_inv w' \<and> items w' = items w"
proof -
  obtain j where j: "0 < j" "wrr_hit (nexts j w)"
    and run: "wrr_run w = (Some (nat (index (nexts j w))), nexts j w)"
    using wrr_run_first_hit [OF assms] by blast
  have n: "0 < int (length (items w))" using assms(1) by (simp add: wrr_inv_def)
  then have "nat (index (nexts j w)) < length (items w)"
    using nexts_index [OF assms(1) j(1)] by (simp add: nat_less_iff)
  then show ?thesis
    using run j(2) nexts_inv [OF assms(1), of j] by (auto simp: wrr_hit_def Let_def)
qed

theorem wrr_run_total_witness:
  "\<exists>i w'. wrr_run two_nodes = (Some i, w') \<and> i < length (items two_nodes) \<and>
    0 < weight (items two_nodes ! i) \<and> cw w' \<le> weight (items two_nodes ! i) \<and> wrr_inv w' \<and>
    items w' = items two_nodes"
  by (rule wrr_run_total [OF fresh_inv [OF two_nodes_fresh]]) (simp add: two_nodes_state)

lemma wrr_loop_stall:
  assumes "items w \<noteq> []" and "unat (cw w) < 2 ^ 31" and "wrr_wf w"
    and "unat (w_max w) < unat (cw w)" and "int c \<le> int (length (items w)) - 1 - index w"
    and "0 \<le> index w"
  shows "fst (wrr_loop c w) = None"
  using assms
proof (induction c arbitrary: w)
  case 0
  then show ?case by simp
next
  case (Suc c)
  have ix: "(index w + 1) mod int (length (items w)) = index w + 1"
    using Suc.prems by (intro mod_pos_pos_trivial) auto
  then have nx: "wrr_next w = w\<lparr>index := index w + 1\<rparr>"
    using Suc.prems(6) by (simp add: wrr_next_def Let_def)
  have "unat (weight (items w ! nat (index w + 1))) \<le> unat (w_max w)"
    using Suc.prems by (intro weight_le_max) (auto simp: nat_less_iff)
  then have "\<not> wrr_hit (wrr_next w)" "\<not> wrr_err (wrr_next w)"
    using Suc.prems by (auto simp: wrr_hit_def wrr_err_def Let_def nx word_le_nat_alt)
  moreover have "fst (wrr_loop c (wrr_next w)) = None"
    using Suc.prems by (intro Suc.IH) (auto simp: nx)
  ultimately show ?case by (simp add: Let_def)
qed

lemma wrr_loop_stall_wrap:
  assumes "items w \<noteq> []" and "unat (cw w) < 2 ^ 31" and "wrr_wf w"
    and "unat (w_max w) + unat (w_gcd w) < unat (cw w)" and "c \<le> length (items w)"
    and "- 1 \<le> index w" and "index w < int (length (items w))"
  shows "fst (wrr_loop c w) = None"
  using assms
proof (induction c arbitrary: w)
  case 0
  then show ?case by simp
next
  case (Suc c)
  let ?n = "int (length (items w))"
  have n: "0 < ?n" using Suc.prems(1) by simp
  have small: "unat (w_gcd w) < 2 ^ 31" using Suc.prems by linarith
  have sub: "unat (cw w - w_gcd w) = unat (cw w) - unat (w_gcd w)"
    using Suc.prems(4) by (intro unat_sub) (simp add: word_le_nat_alt)
  have heavier: "unat (weight (items w ! i)) \<le> unat (w_max w)" if "i < length (items w)" for i
    using that Suc.prems(3) by (intro weight_le_max)
  show ?case
  proof (cases "(index w + 1) mod ?n = 0")
    case True
    have "\<not> sint (cw w - w_gcd w) \<le> 0"
      using Suc.prems(4) by (simp only: sint_sub_small [OF Suc.prems(2) small])
    with True have nx: "wrr_next w = w\<lparr>index := 0, cw := cw w - w_gcd w\<rparr>"
      by (simp add: wrr_next_def Let_def)
    have "fst (wrr_loop c (wrr_next w)) = None"
      using Suc.prems n sub by (intro wrr_loop_stall) (auto simp: nx)
    moreover have "cw w - w_gcd w \<noteq> 0" using sub Suc.prems(4) by (auto simp: unat_eq_0 [symmetric])
    moreover have "\<not> cw w - w_gcd w \<le> weight (items w ! 0)"
      using heavier [of 0] n sub Suc.prems(4) by (simp add: word_le_nat_alt)
    ultimately show ?thesis by (simp add: Let_def nx wrr_hit_def wrr_err_def)
  next
    case False
    then have nx: "wrr_next w = w\<lparr>index := (index w + 1) mod ?n\<rparr>"
      by (simp add: wrr_next_def Let_def)
    have r: "0 \<le> (index w + 1) mod ?n" "(index w + 1) mod ?n < ?n" using n by simp_all
    then have r': "- 1 \<le> (index w + 1) mod ?n" by linarith
    have "fst (wrr_loop c (wrr_next w)) = None"
      using Suc.prems r' by (intro Suc.IH) (simp_all add: nx r')
    moreover have "\<not> cw w \<le> weight (items w ! nat ((index w + 1) mod ?n))"
      using heavier [of "nat ((index w + 1) mod ?n)"] r Suc.prems(4)
      by (simp add: word_le_nat_alt nat_less_iff)
    ultimately show ?thesis using False by (simp add: Let_def nx wrr_hit_def wrr_err_def)
  qed
qed

text \<open>
  The scheduler stalls after the heaviest node goes away: \<^verbatim>\<open>recalc\<close> does not touch the
  current weight, so while it exceeds the new maximum by more than the gcd a call returns no node
  at all, although every call also lowers the weight by one gcd only. The routing daemon then
  finds no route to a type that has live nodes.
\<close>

theorem wrr_stall:
  assumes "wrr_wf w" and "- 1 \<le> index w" and "index w < int (length (items w))"
    and "unat (w_max w) + unat (w_gcd w) < unat (cw w)" and "unat (cw w) < 2 ^ 31"
  shows "fst (wrr_run w) = None"
  using assms wrr_loop_stall_wrap [of w "length (items w)"] by (simp add: wrr_run_def)

text \<open>Two nodes of weight 1 and 10; the second is served, then disabled.\<close>

definition after_disable :: "nat wrr" where
  "after_disable = snd (disable (Some ''b'') (snd (wrr_run
     (snd (add_item 20 ''b'' 10 (snd (add_item 10 ''a'' 1 new_wrr)))))))"

lemma after_disable_state:
  "after_disable = \<lparr>items = [\<lparr>wi_id = ''a'', wi_item = 10, weight = 1, old_weight = 1\<rparr>,
       \<lparr>wi_id = ''b'', wi_item = 20, weight = 0, old_weight = 10\<rparr>],
     w_gcd = 1, w_max = 1, index = 1, cw = 10\<rparr>"
  by (simp add: after_disable_def disable_def id_matches_def add_item_def recalc_def new_wrr_def gcd_of_def
      max_of_def new_wrr_item_def wrr_gcd.simps wrr_run_def wrr_next_def wrr_hit_def wrr_err_def Let_def cstr_def word_le_nat_alt)

theorem wrr_stall_witness:
  "weight (items after_disable ! 0) = 1 \<and> fst (wrr_run after_disable) = None"
proof -
  have "wrr_wf after_disable" by (simp add: after_disable_def disable_def Let_def)
  then have "fst (wrr_run after_disable) = None"
    by (rule wrr_stall) (simp_all add: after_disable_state)
  then show ?thesis by (simp add: after_disable_state)
qed

text \<open>
  Disabling a node by id and enabling it again restores every weight of the scheduler, hence
  its gcd and maximum, whatever the node's weight was, provided it was enabled.
\<close>

theorem wrr_disable_enable:
  assumes "\<forall>it \<in> set (items w). id_matches i it \<longrightarrow> 0 < weight it"
  shows "weights (snd (enable (Some i) (snd (disable (Some i) w)))) = weights w"
  using assms by (auto simp: enable_def disable_def weights_def Let_def id_matches_def)

theorem wrr_disable_enable_witness:
  "weights (snd (enable (Some ''b'') (snd (disable (Some ''b'') two_nodes)))) = [6, 4]"
proof -
  have "\<forall>it \<in> set (items two_nodes). id_matches ''b'' it \<longrightarrow> 0 < weight it"
    by (simp add: two_nodes_state new_wrr_item_def)
  from wrr_disable_enable [OF this] show ?thesis
    by (simp add: two_nodes_state weights_def new_wrr_item_def)
qed

end
