(* ===== verification/Variant.thy ===== *)
theory Variant
  imports Prelude
begin

text \<open>
  \<^verbatim>\<open>VariantParam\<close> of \<^verbatim>\<open>src/src/include/mink_utils.h\<close>: a tagged value whose tag is fixed by
  the constructor (or \<^verbatim>\<open>set_type\<close>) and whose payload is a C union. The union remembers which
  member was written last; reading another member, or any member before the first write, is
  indeterminate in C++ and \<^term>\<open>None\<close> here. Strings and octets live in a buffer the object
  owns, so a value carries its own octets. A double is its 64-bit pattern, compared by the IEEE
  rule; a pointer is an address, 0 the null pointer.
\<close>

section \<open>State\<close>

datatype VariantParamType =
  DPT_INT | DPT_STRING | DPT_DOUBLE | DPT_CHAR | DPT_BOOL | DPT_OCTETS | DPT_POINTER

datatype UVariantParam =
  U_indet | U_i64 u64 | U_d u64 | U_c u8 | U_b bool | U_p nat | U_str octets

record variant_param =
  max_size :: nat
  data :: UVariantParam
  type :: VariantParamType
  data_size :: nat

definition new_variant :: "VariantParamType \<Rightarrow> nat \<Rightarrow> variant_param" where
  "new_variant t m = \<lparr>max_size = m, data = U_indet, type = t, data_size = 0\<rparr>"

text \<open>The octets a \<^verbatim>\<open>char*\<close> reader sees.\<close>

definition ocstr :: "octets \<Rightarrow> octets" where
  "ocstr s = takeWhile (\<lambda>c. c \<noteq> 0) s"

definition is_nan :: "u64 \<Rightarrow> bool" where
  "is_nan d \<longleftrightarrow> d AND 0x7FF0000000000000 = 0x7FF0000000000000 \<and> d AND 0x000FFFFFFFFFFFFF \<noteq> 0"

definition double_eq :: "u64 \<Rightarrow> u64 \<Rightarrow> bool" where
  "double_eq a b \<longleftrightarrow> \<not> is_nan a \<and> \<not> is_nan b \<and>
     (a = b \<or> (a AND 0x7FFFFFFFFFFFFFFF = 0 \<and> b AND 0x7FFFFFFFFFFFFFFF = 0))"

section \<open>Comparison and casts\<close>

definition variant_eq :: "variant_param \<Rightarrow> variant_param \<Rightarrow> bool option" where
  "variant_eq v w =
     (if type v \<noteq> type w then Some False
      else if data_size v \<noteq> data_size w then Some False
      else case type v of
        DPT_INT \<Rightarrow> (case (data v, data w) of (U_i64 a, U_i64 b) \<Rightarrow> Some (a = b) | _ \<Rightarrow> None)
      | DPT_STRING \<Rightarrow> (case (data v, data w) of (U_str a, U_str b) \<Rightarrow> Some (ocstr a = ocstr b) | _ \<Rightarrow> None)
      | DPT_DOUBLE \<Rightarrow> (case (data v, data w) of (U_d a, U_d b) \<Rightarrow> Some (double_eq a b) | _ \<Rightarrow> None)
      | DPT_CHAR \<Rightarrow> (case (data v, data w) of (U_c a, U_c b) \<Rightarrow> Some (a = b) | _ \<Rightarrow> None)
      | DPT_BOOL \<Rightarrow> (case (data v, data w) of (U_b a, U_b b) \<Rightarrow> Some (a = b) | _ \<Rightarrow> None)
      | DPT_OCTETS \<Rightarrow> (case (data v, data w) of
            (U_str a, U_str b) \<Rightarrow> Some (take (data_size v) a = take (data_size v) b) | _ \<Rightarrow> None)
      | DPT_POINTER \<Rightarrow> (case (data v, data w) of (U_p a, U_p b) \<Rightarrow> Some (a = b) | _ \<Rightarrow> None))"

definition to_int :: "variant_param \<Rightarrow> u32 option" where
  "to_int v = (if type v = DPT_INT then (case data v of U_i64 x \<Rightarrow> Some (ucast x) | _ \<Rightarrow> None) else Some 0)"

definition to_uint64 :: "variant_param \<Rightarrow> u64 option" where
  "to_uint64 v = (if type v = DPT_INT then (case data v of U_i64 x \<Rightarrow> Some x | _ \<Rightarrow> None) else Some 0)"

definition to_uint32 :: "variant_param \<Rightarrow> u32 option" where
  "to_uint32 v = (if type v = DPT_INT then (case data v of U_i64 x \<Rightarrow> Some (ucast x) | _ \<Rightarrow> None) else Some 0)"

definition to_bool :: "variant_param \<Rightarrow> bool option" where
  "to_bool v = (if type v = DPT_BOOL then (case data v of U_b x \<Rightarrow> Some x | _ \<Rightarrow> None) else Some False)"

text \<open>The pointer casts give the buffer, or the null pointer (inner \<^term>\<open>None\<close>).\<close>

definition to_cstr :: "variant_param \<Rightarrow> octets option option" where
  "to_cstr v = (if type v = DPT_STRING then (case data v of U_str x \<Rightarrow> Some (Some x) | _ \<Rightarrow> None) else Some None)"

definition to_octets :: "variant_param \<Rightarrow> octets option option" where
  "to_octets v = (if type v = DPT_OCTETS then (case data v of U_str x \<Rightarrow> Some (Some x) | _ \<Rightarrow> None) else Some None)"

definition to_double :: "variant_param \<Rightarrow> u64 option" where
  "to_double v = (if type v = DPT_DOUBLE then (case data v of U_d x \<Rightarrow> Some x | _ \<Rightarrow> None) else Some 0)"

definition to_char :: "variant_param \<Rightarrow> u8 option" where
  "to_char v = (if type v = DPT_CHAR then (case data v of U_c x \<Rightarrow> Some x | _ \<Rightarrow> None) else Some 0)"

definition to_pointer :: "variant_param \<Rightarrow> nat option" where
  "to_pointer v = (if type v = DPT_POINTER then (case data v of U_p x \<Rightarrow> Some x | _ \<Rightarrow> None) else Some 0)"

section \<open>Setters\<close>

text \<open>Each setter does nothing when the tag is another one.\<close>

definition v_set_int :: "u64 \<Rightarrow> variant_param \<Rightarrow> variant_param" where
  "v_set_int x v = (if type v = DPT_INT then v\<lparr>data := U_i64 x, data_size := 8\<rparr> else v)"

definition v_set_bool :: "bool \<Rightarrow> variant_param \<Rightarrow> variant_param" where
  "v_set_bool x v = (if type v = DPT_BOOL then v\<lparr>data := U_b x, data_size := 1\<rparr> else v)"

definition v_set_str :: "octets \<Rightarrow> variant_param \<Rightarrow> variant_param" where
  "v_set_str s v = (if type v = DPT_STRING then
     (let slen = min (max_size v) (length (ocstr s));
          csize = (if slen \<ge> max_size v then max_size v - 1 else slen)
      in v\<lparr>data := U_str (take csize s @ [0]), data_size := csize + 1\<rparr>) else v)"

definition v_set_char :: "u8 \<Rightarrow> variant_param \<Rightarrow> variant_param" where
  "v_set_char x v = (if type v = DPT_CHAR then v\<lparr>data := U_c x, data_size := 1\<rparr> else v)"

definition v_set_double :: "u64 \<Rightarrow> variant_param \<Rightarrow> variant_param" where
  "v_set_double x v = (if type v = DPT_DOUBLE then v\<lparr>data := U_d x, data_size := 8\<rparr> else v)"

definition v_set_octets :: "octets \<Rightarrow> nat \<Rightarrow> variant_param \<Rightarrow> variant_param" where
  "v_set_octets s n v = (if type v = DPT_OCTETS then
     (let csize = (if n > max_size v then max_size v else n)
      in v\<lparr>data := U_str (take csize s), data_size := csize\<rparr>) else v)"

definition v_set_pointer :: "nat \<Rightarrow> variant_param \<Rightarrow> variant_param" where
  "v_set_pointer x v = (if type v = DPT_POINTER then v\<lparr>data := U_p x, data_size := 8\<rparr> else v)"

definition v_set_type :: "VariantParamType \<Rightarrow> variant_param \<Rightarrow> variant_param" where
  "v_set_type t v = v\<lparr>type := t\<rparr>"

section \<open>Well-formed values\<close>

text \<open>
  The payload is the member of the tag, of the size the setters give it; strings are terminated
  and, with their terminator, fit \<^verbatim>\<open>max\<close>. Only an integer can be without a value, with size 0: the
  entry that \<^verbatim>\<open>inc_int\<close> of a parameter map makes where there was none.
\<close>

definition variant_ok :: "variant_param \<Rightarrow> bool" where
  "variant_ok v \<longleftrightarrow> (case data v of
       U_indet \<Rightarrow> type v = DPT_INT \<and> data_size v = 0
     | U_i64 _ \<Rightarrow> type v = DPT_INT \<and> data_size v = 8
     | U_d _ \<Rightarrow> type v = DPT_DOUBLE \<and> data_size v = 8
     | U_c _ \<Rightarrow> type v = DPT_CHAR \<and> data_size v = 1
     | U_b _ \<Rightarrow> type v = DPT_BOOL \<and> data_size v = 1
     | U_p _ \<Rightarrow> type v = DPT_POINTER \<and> data_size v = 8
     | U_str s \<Rightarrow> data_size v = length s \<and> length s \<le> max_size v \<and>
         (type v = DPT_OCTETS \<or>
          type v = DPT_STRING \<and> s \<noteq> [] \<and> ocstr s = butlast s \<and> last s = 0))"

definition defined :: "variant_param \<Rightarrow> bool" where
  "defined v \<longleftrightarrow> data v \<noteq> U_indet"

lemmas setter_defs = v_set_int_def v_set_bool_def v_set_str_def v_set_char_def v_set_double_def
  v_set_octets_def v_set_pointer_def

lemma setter_frame [simp]:
  "type (v_set_int x v) = type v" "type (v_set_bool b v) = type v" "type (v_set_str s v) = type v"
  "type (v_set_char c v) = type v" "type (v_set_double x v) = type v"
  "type (v_set_octets s n v) = type v" "type (v_set_pointer p v) = type v"
  "max_size (v_set_int x v) = max_size v" "max_size (v_set_bool b v) = max_size v"
  "max_size (v_set_str s v) = max_size v" "max_size (v_set_char c v) = max_size v"
  "max_size (v_set_double x v) = max_size v" "max_size (v_set_octets s n v) = max_size v"
  "max_size (v_set_pointer p v) = max_size v"
  by (simp_all add: setter_defs Let_def)

lemma new_variant_fields [simp]:
  "type (new_variant t m) = t" "max_size (new_variant t m) = m" "data (new_variant t m) = U_indet"
  "data_size (new_variant t m) = 0"
  by (simp_all add: new_variant_def)

lemma new_variant_ok [simp, intro]: "variant_ok (new_variant DPT_INT m)"
  by (simp add: variant_ok_def)

lemma ocstr_prefix: "take (length (ocstr s)) s = ocstr s"
  unfolding ocstr_def by (rule takeWhile_eq_take [symmetric])

lemma ocstr_no_zero: "0 \<notin> set (ocstr s)"
  by (auto simp: ocstr_def dest: set_takeWhileD)

lemma ocstr_take: "n \<le> length (ocstr s) \<Longrightarrow> 0 \<notin> set (take n s)"
  by (metis in_set_takeD min.absorb1 ocstr_no_zero ocstr_prefix take_take)

lemma ocstr_terminated: "0 \<notin> set s \<Longrightarrow> ocstr (s @ [0]) = s"
  unfolding ocstr_def by (induction s) auto

text \<open>A setter makes a value of its own tag well formed and leaves every other one as it was.\<close>

lemma v_set_str_ok:
  assumes "variant_ok v \<or> type v = DPT_STRING" and "0 < max_size v"
  shows "variant_ok (v_set_str s v)"
proof (cases "type v = DPT_STRING")
  case False
  then show ?thesis using assms by (simp add: v_set_str_def)
next
  case True
  define c where "c = (if min (max_size v) (length (ocstr s)) \<ge> max_size v then max_size v - 1
                       else min (max_size v) (length (ocstr s)))"
  have le: "c \<le> length (ocstr s)" "c < max_size v" using assms(2) by (auto simp: c_def)
  moreover have "length (ocstr s) \<le> length s" by (simp add: ocstr_def length_takeWhile_le)
  ultimately have "length (take c s) = c" by simp
  moreover have "ocstr (take c s @ [0]) = take c s" using le(1) by (intro ocstr_terminated ocstr_take)
  moreover have "v_set_str s v = v\<lparr>data := U_str (take c s @ [0]), data_size := c + 1\<rparr>"
    using True by (simp only: v_set_str_def Let_def c_def if_True simp_thms)
  ultimately show ?thesis
    using True le(2) by (simp add: variant_ok_def)
qed

lemma setters_ok [inv_intros]:
  "variant_ok v \<or> type v = DPT_INT \<Longrightarrow> variant_ok (v_set_int x v)" "variant_ok v \<or> type v = DPT_BOOL \<Longrightarrow> variant_ok (v_set_bool b v)"
  "variant_ok v \<or> type v = DPT_CHAR \<Longrightarrow> variant_ok (v_set_char c v)"
  "variant_ok v \<or> type v = DPT_DOUBLE \<Longrightarrow> variant_ok (v_set_double x v)"
  "variant_ok v \<or> type v = DPT_POINTER \<Longrightarrow> variant_ok (v_set_pointer p v)"
  "variant_ok v \<or> type v = DPT_OCTETS \<Longrightarrow> n \<le> length s \<Longrightarrow> variant_ok (v_set_octets s n v)"
  by (auto simp: variant_ok_def setter_defs Let_def split: UVariantParam.splits)

text \<open>A value is equal to itself, except for an unset one and for a NaN.\<close>

lemma variant_eq_refl:
  assumes "variant_ok v" and "defined v" and "\<forall>x. data v = U_d x \<longrightarrow> \<not> is_nan x"
  shows "variant_eq v v = Some True"
  using assms
  by (cases "data v") (auto simp: variant_eq_def variant_ok_def defined_def double_eq_def)

section \<open>Storing one value in another\<close>

text \<open>
  What \<^verbatim>\<open>set(VariantParam*, ...)\<close> does to the stored entry: the setter of the source's tag,
  which does nothing on an entry of another tag.
\<close>

definition put :: "variant_param \<Rightarrow> variant_param \<Rightarrow> variant_param" where
  "put v w = (case data v of
       U_i64 x \<Rightarrow> v_set_int x w
     | U_d x \<Rightarrow> v_set_double x w
     | U_c x \<Rightarrow> v_set_char x w
     | U_b x \<Rightarrow> v_set_bool x w
     | U_p x \<Rightarrow> v_set_pointer x w
     | U_str s \<Rightarrow> (if type v = DPT_STRING then v_set_str s w else v_set_octets s (data_size v) w)
     | U_indet \<Rightarrow> w)"

lemma put_frame [simp]: "type (put v w) = type w" "max_size (put v w) = max_size w"
  by (simp_all add: put_def split: UVariantParam.split)

lemma put_other_tag: "variant_ok v \<Longrightarrow> type w \<noteq> type v \<Longrightarrow> put v w = w"
  by (auto simp: put_def variant_ok_def setter_defs split: UVariantParam.splits)

lemma v_set_str_exact:
  assumes "s \<noteq> []" and "ocstr s = butlast s" and "last s = 0" and "length s \<le> max_size w"
    and "type w = DPT_STRING"
  shows "v_set_str s w = w\<lparr>data := U_str s, data_size := length s\<rparr>"
proof -
  have "length (ocstr s) = length s - 1" "0 < length s" using assms by simp_all
  moreover have "take (length s - 1) s @ [0] = s"
    using assms(1,3) by (metis append_butlast_last_id butlast_conv_take)
  moreover have "\<not> max_size w \<le> length s - 1"
    using assms(4) \<open>0 < length s\<close> by linarith
  ultimately show ?thesis
    using assms(4,5) by (simp add: v_set_str_def Let_def min_def)
qed

lemma put_same_tag:
  assumes "variant_ok v" and "defined v" and "type w = type v" and "max_size v \<le> max_size w"
  shows "put v w = w\<lparr>data := data v, data_size := data_size v\<rparr>"
  using assms
  by (cases "data v")
    (auto simp: put_def variant_ok_def defined_def v_set_str_exact v_set_int_def v_set_bool_def
      v_set_char_def v_set_double_def v_set_octets_def v_set_pointer_def Let_def)

lemma put_ok [inv_intros]:
  assumes "variant_ok v" and "defined v" and "variant_ok w \<or> type w = type v" and "0 < max_size w"
  shows "variant_ok (put v w)"
  using assms(1,2,3) v_set_str_ok [OF _ assms(4)]
  by (cases "data v") (auto simp: put_def variant_ok_def [of v] defined_def intro!: setters_ok)

end
