(* ===== verification/ParamMap.thy ===== *)
theory ParamMap
  imports Variant
begin

text \<open>
  \<^verbatim>\<open>ParamTuple\<close>, \<^verbatim>\<open>ParamTupleCompare\<close> and \<^verbatim>\<open>VariantParamMap\<close> of
  \<^verbatim>\<open>src/src/include/mink_utils.h\<close>: the parameters of a service message, keyed by id, index,
  fragment and context. The \<^verbatim>\<open>std::map\<close> is the list of its entries in the order of the
  comparison object. A returned pointer to a parameter is the key it is stored under. Where the
  code would read an unset or differently typed union member, or write past a stack buffer, the
  operation has no result (\<^term>\<open>None\<close>).
\<close>

section \<open>Keys\<close>

record 'k param_tuple =
  pt_key :: 'k
  pt_index :: u32
  pt_fragment :: u32
  pt_context :: u32

abbreviation PT :: "'k \<Rightarrow> u32 \<Rightarrow> u32 \<Rightarrow> u32 \<Rightarrow> 'k param_tuple" where
  "PT k i f c \<equiv> \<lparr>pt_key = k, pt_index = i, pt_fragment = f, pt_context = c\<rparr>"

definition pt_eq :: "'k param_tuple \<Rightarrow> 'k param_tuple \<Rightarrow> bool" where
  "pt_eq x y = (if pt_key x \<noteq> pt_key y then False
     else if pt_index x \<noteq> pt_index y then False
     else if pt_fragment x \<noteq> pt_fragment y then False
     else if pt_context x \<noteq> pt_context y then False
     else True)"

definition pt_neq :: "'k param_tuple \<Rightarrow> 'k param_tuple \<Rightarrow> bool" where
  "pt_neq x y = (if pt_key x = pt_key y then False
     else if pt_index x = pt_index y then False
     else if pt_fragment x = pt_fragment y then False
     else if pt_context x = pt_context y then False
     else True)"

definition pt_less :: "('k::linorder) param_tuple \<Rightarrow> 'k param_tuple \<Rightarrow> bool" where
  "pt_less x y =
     (if pt_key x < pt_key y then True
      else if pt_key x = pt_key y then
        (if pt_index x < pt_index y then True
         else if pt_index x = pt_index y then
           (if pt_fragment x < pt_fragment y then True
            else if pt_fragment x = pt_fragment y then pt_context x < pt_context y
            else False)
         else False)
      else False)"

lemma pt_eq_iff: "pt_eq x y \<longleftrightarrow> x = (y :: 'k param_tuple)"
  by (cases x; cases y) (simp add: pt_eq_def)

interpretation pt_order: key_order "pt_less :: ('k::linorder) param_tuple \<Rightarrow> 'k param_tuple \<Rightarrow> bool"
proof
  fix a b c :: "'k param_tuple"
  show "\<not> pt_less a a" by (simp add: pt_less_def)
  show "pt_less a b \<Longrightarrow> pt_less b c \<Longrightarrow> pt_less a c"
    by (auto simp: pt_less_def split: if_splits)
  show "pt_less a b \<or> a = b \<or> pt_less b a"
    by (cases a; cases b) (auto simp: pt_less_def)
qed

section \<open>The map\<close>

type_synonym 'k entries = "('k param_tuple \<times> variant_param) list"

record 'k vpmap =
  vp_max :: nat
  labels :: "('k \<times> char list) list"
  params :: "'k entries"

definition new_vpmap :: "nat \<Rightarrow> 'k vpmap" where
  "new_vpmap m = \<lparr>vp_max = m, labels = [], params = []\<rparr>"

abbreviation pt_find :: "('k::linorder) param_tuple \<Rightarrow> 'k vpmap \<Rightarrow> variant_param option" where
  "pt_find k m \<equiv> om_find pt_less k (params m)"

text \<open>\<^verbatim>\<open>params.insert\<close> keeps an existing entry; the setter then works on the stored one.\<close>

definition vp_insert :: "('k::linorder) param_tuple \<Rightarrow> VariantParamType \<Rightarrow>
    (variant_param \<Rightarrow> variant_param) \<Rightarrow> 'k vpmap \<Rightarrow> 'k vpmap" where
  "vp_insert k t f m =
     (let v = (case pt_find k m of Some v \<Rightarrow> v | None \<Rightarrow> new_variant t (vp_max m))
      in m\<lparr>params := om_insert pt_less k (f v) (params m)\<rparr>)"

definition set_int :: "('k::linorder) param_tuple \<Rightarrow> u64 \<Rightarrow> 'k vpmap \<Rightarrow> 'k vpmap" where
  "set_int k x m = vp_insert k DPT_INT (v_set_int x) m"

definition set_bool :: "('k::linorder) param_tuple \<Rightarrow> bool \<Rightarrow> 'k vpmap \<Rightarrow> 'k vpmap" where
  "set_bool k x m = vp_insert k DPT_BOOL (v_set_bool x) m"

definition set_cstr :: "('k::linorder) param_tuple \<Rightarrow> octets \<Rightarrow> 'k vpmap \<Rightarrow> 'k vpmap" where
  "set_cstr k s m = vp_insert k DPT_STRING (v_set_str s) m"

definition set_char :: "('k::linorder) param_tuple \<Rightarrow> u8 \<Rightarrow> 'k vpmap \<Rightarrow> 'k vpmap" where
  "set_char k x m = vp_insert k DPT_CHAR (v_set_char x) m"

definition set_double :: "('k::linorder) param_tuple \<Rightarrow> u64 \<Rightarrow> 'k vpmap \<Rightarrow> 'k vpmap" where
  "set_double k x m = vp_insert k DPT_DOUBLE (v_set_double x) m"

definition set_octets :: "('k::linorder) param_tuple \<Rightarrow> octets \<Rightarrow> nat \<Rightarrow> 'k vpmap \<Rightarrow> 'k vpmap" where
  "set_octets k s n m = vp_insert k DPT_OCTETS (v_set_octets s n) m"

definition set_pointer :: "('k::linorder) param_tuple \<Rightarrow> nat \<Rightarrow> 'k vpmap \<Rightarrow> 'k vpmap" where
  "set_pointer k x m = vp_insert k DPT_POINTER (v_set_pointer x) m"

text \<open>
  \<^verbatim>\<open>inc_int\<close> adds to the integer member of an entry that exists, whatever its tag; a new entry
  is left unset.
\<close>

definition inc_int :: "('k::linorder) param_tuple \<Rightarrow> u64 \<Rightarrow> 'k vpmap \<Rightarrow> 'k vpmap" where
  "inc_int k x m = (case pt_find k m of
       None \<Rightarrow> m\<lparr>params := om_insert pt_less k (new_variant DPT_INT (vp_max m)) (params m)\<rparr>
     | Some v \<Rightarrow> m\<lparr>params := om_insert pt_less k
         (v\<lparr>data := (case data v of U_i64 y \<Rightarrow> U_i64 (y + x) | _ \<Rightarrow> U_indet)\<rparr>) (params m)\<rparr>)"

text \<open>The switch on the tag of \<^verbatim>\<open>set(VariantParam*, ...)\<close>, of the copy operations and of \<^verbatim>\<open>swap\<close>.\<close>

definition set_from :: "variant_param \<Rightarrow> ('k::linorder) param_tuple \<Rightarrow> 'k vpmap \<Rightarrow> 'k vpmap option" where
  "set_from v k m = (case (type v, data v) of
       (DPT_INT, U_i64 x) \<Rightarrow> Some (set_int k x m)
     | (DPT_STRING, U_str s) \<Rightarrow> Some (set_cstr k s m)
     | (DPT_DOUBLE, U_d x) \<Rightarrow> Some (set_double k x m)
     | (DPT_CHAR, U_c x) \<Rightarrow> Some (set_char k x m)
     | (DPT_BOOL, U_b x) \<Rightarrow> Some (set_bool k x m)
     | (DPT_OCTETS, U_str s) \<Rightarrow> Some (set_octets k s (data_size v) m)
     | (DPT_POINTER, U_p x) \<Rightarrow> Some (set_pointer k x m)
     | _ \<Rightarrow> None)"

fun copy_params :: "('k::linorder) entries \<Rightarrow> 'k vpmap \<Rightarrow> 'k vpmap option" where
  "copy_params [] m = Some m"
| "copy_params ((k, v) # es) m = Option.bind (set_from v k m) (copy_params es)"

definition copy_vpmap :: "('k::linorder) vpmap \<Rightarrow> 'k vpmap option" where
  "copy_vpmap other = copy_params (params other)
     (new_vpmap (vp_max other) \<lparr>labels := labels other\<rparr>)"

definition assign_vpmap :: "('k::linorder) vpmap \<Rightarrow> 'k vpmap \<Rightarrow> 'k vpmap option" where
  "assign_vpmap this other = copy_params (params other)
     (this\<lparr>params := [], labels := labels other\<rparr>)"

text \<open>\<^verbatim>\<open>std::map\<close> equality: same size and pairwise equal entries, stopping at the first that differ.\<close>

fun params_eq :: "'k entries \<Rightarrow> 'k entries \<Rightarrow> bool option" where
  "params_eq [] [] = Some True"
| "params_eq ((k, v) # a) ((l, w) # b) =
     (if pt_eq k l then
        (case variant_eq v w of None \<Rightarrow> None | Some False \<Rightarrow> Some False | Some True \<Rightarrow> params_eq a b)
      else Some False)"
| "params_eq _ _ = Some False"

definition vpmap_eq :: "'k vpmap \<Rightarrow> 'k vpmap \<Rightarrow> bool option" where
  "vpmap_eq a b = (if length (params a) = length (params b) then params_eq (params a) (params b)
                   else Some False)"

definition set_other :: "('k::linorder) vpmap \<Rightarrow> 'k param_tuple \<Rightarrow> 'k param_tuple \<Rightarrow> 'k vpmap \<Rightarrow>
    (bool \<times> 'k vpmap) option" where
  "set_other other oid k m = (case pt_find oid other of
       None \<Rightarrow> Some (False, m)
     | Some v \<Rightarrow> map_option (Pair True) (set_from v k m))"

definition get_param :: "('k::linorder) param_tuple \<Rightarrow> 'k vpmap \<Rightarrow> variant_param option" where
  "get_param k m = pt_find k m"

datatype param_error = ParamNotFound

definition get_pval :: "(variant_param \<Rightarrow> 'a option) \<Rightarrow> ('k::linorder) param_tuple \<Rightarrow> 'k vpmap \<Rightarrow>
    param_error + 'a option" where
  "get_pval cast k m = (case pt_find k m of Some v \<Rightarrow> Inr (cast v) | None \<Rightarrow> Inl ParamNotFound)"

definition context_exists :: "u32 \<Rightarrow> 'k vpmap \<Rightarrow> bool" where
  "context_exists c m \<longleftrightarrow> list_ex (\<lambda>e. pt_context (fst e) = c) (params m)"

text \<open>
  \<^verbatim>\<open>swap\<close> saves the first value through the typed cast (an \<^verbatim>\<open>int\<close> for an integer parameter),
  overwrites it with the second and stores the saved value under the second key.
\<close>

definition swap_saved :: "variant_param \<Rightarrow> UVariantParam" where
  "swap_saved v = (case data v of U_i64 x \<Rightarrow> U_i64 (scast (ucast x :: u32)) | d \<Rightarrow> d)"

definition swap :: "('k::linorder) param_tuple \<Rightarrow> 'k param_tuple \<Rightarrow> 'k vpmap \<Rightarrow> (bool \<times> 'k vpmap) option" where
  "swap k1 k2 m = (case (pt_find k1 m, pt_find k2 m) of
       (Some v1, Some v2) \<Rightarrow>
         (if k1 = k2 then Some (False, m)
          else if type v1 \<noteq> type v2 then Some (False, m)
          else map_option (Pair True)
            (Option.bind (set_from v2 k1 m) (set_from (v1\<lparr>data := swap_saved v1\<rparr>) k2)))
     | _ \<Rightarrow> Some (False, m))"

definition erase_param :: "('k::linorder) \<Rightarrow> int \<Rightarrow> u32 \<Rightarrow> u32 \<Rightarrow> 'k vpmap \<Rightarrow> nat \<times> 'k vpmap" where
  "erase_param k i f c m =
     (if i = -1 then
        (let hit = (\<lambda>e. pt_key (fst e) = k \<and> pt_context (fst e) = c)
         in (length (filter hit (params m)), m\<lparr>params := filter (\<lambda>e. \<not> hit e) (params m)\<rparr>))
      else (case pt_find (PT k (word_of_int i) f c) m of
          None \<Rightarrow> (0, m)
        | Some _ \<Rightarrow> (1, m\<lparr>params := om_erase pt_less (PT k (word_of_int i) f c) (params m)\<rparr>)))"

definition clear_params :: "'k vpmap \<Rightarrow> 'k vpmap" where
  "clear_params m = m\<lparr>params := []\<rparr>"

text \<open>
  \<^verbatim>\<open>defragment\<close> walks from the first fragment while key, index and context stay the same,
  appending to a stack buffer of \<^verbatim>\<open>max\<close> octets. The buffer check comes after the copy, so a
  fragment that runs past the buffer has no defined result; a fragment that fills it exactly
  ends the walk without being erased. The result is the octets and the number of erased entries.
\<close>

fun defrag_loop :: "nat \<Rightarrow> 'k param_tuple \<Rightarrow> 'k entries \<Rightarrow> octets \<Rightarrow> (octets \<times> nat) option" where
  "defrag_loop mx k [] buf = Some (buf, 0)"
| "defrag_loop mx k ((l, v) # es) buf =
     (if pt_key l = pt_key k \<and> pt_index l = pt_index k \<and> pt_context l = pt_context k then
        (case data v of
           U_str s \<Rightarrow>
             (let buf' = buf @ take (data_size v) s in
              if length buf + data_size v > mx then None
              else if length buf + data_size v = mx then Some (buf', 0)
              else map_option (\<lambda>(b, n). (b, Suc n)) (defrag_loop mx k es buf'))
         | _ \<Rightarrow> None)
      else Some (buf, 0))"

definition defragment :: "('k::linorder) \<Rightarrow> u32 \<Rightarrow> u32 \<Rightarrow> 'k vpmap \<Rightarrow>
    ('k param_tuple option \<times> 'k vpmap) option" where
  "defragment k i c m = (let key = PT k i 0 c in
     case find_index (\<lambda>e. fst e = key) (params m) of
       None \<Rightarrow> Some (None, m)
     | Some p \<Rightarrow> (case defrag_loop (vp_max m) key (drop p (params m)) [] of
           None \<Rightarrow> None
         | Some (b, n) \<Rightarrow> Some (Some key, set_octets key b (length b)
              (m\<lparr>params := take p (params m) @ drop (p + n) (params m)\<rparr>))))"

definition set_label :: "('k::linorder) \<Rightarrow> char list \<Rightarrow> 'k vpmap \<Rightarrow> 'k vpmap" where
  "set_label k l m = m\<lparr>labels := om_insert (<) k (cstr l) (labels m)\<rparr>"

definition vpmap_size :: "'k vpmap \<Rightarrow> nat" where
  "vpmap_size m = length (params m)"

section \<open>Invariant\<close>

text \<open>
  The entries are in key order and every value is well formed, in a buffer of the map's size.
\<close>

definition entry_ok :: "nat \<Rightarrow> variant_param \<Rightarrow> bool" where
  "entry_ok mx v \<longleftrightarrow> variant_ok v \<and> max_size v = mx"

definition vpmap_ok :: "('k::linorder) vpmap \<Rightarrow> bool" where
  "vpmap_ok m \<longleftrightarrow> 0 < vp_max m \<and> om_sorted pt_less (params m) \<and>
     list_all (\<lambda>e. entry_ok (vp_max m) (snd e)) (params m)"

lemma vpmap_okD:
  assumes "vpmap_ok m"
  shows "0 < vp_max m" "om_sorted pt_less (params m)"
    and "(k, v) \<in> set (params m) \<Longrightarrow> variant_ok v \<and> max_size v = vp_max m"
  using assms by (auto simp: vpmap_ok_def entry_ok_def list_all_iff)

lemma pt_find_in: "pt_find k m = Some v \<Longrightarrow> (k, v) \<in> set (params m)"
  by (simp add: pt_order.find_map_of map_of_SomeD)

lemma pt_find_iff:
  "vpmap_ok m \<Longrightarrow> pt_find k m = Some v \<longleftrightarrow> (k, v) \<in> set (params m)"
  by (simp add: pt_order.find_map_of pt_order.sorted_distinct vpmap_ok_def)

lemma new_vpmap_ok [inv_intros]: "0 < n \<Longrightarrow> vpmap_ok (new_vpmap n)"
  by (simp add: vpmap_ok_def new_vpmap_def om_sorted_def)

lemma om_insert_entries:
  "list_all (\<lambda>e. P (snd e)) m \<Longrightarrow> P v \<Longrightarrow> list_all (\<lambda>e. P (snd e)) (om_insert lt k v m)"
  by (induction lt k v m rule: om_insert.induct) auto

lemma insert_ok [inv_intros]:
  "vpmap_ok m \<Longrightarrow> variant_ok v \<Longrightarrow> max_size v = vp_max m \<Longrightarrow>
   vpmap_ok (m\<lparr>params := om_insert pt_less k v (params m)\<rparr>)"
  using om_insert_entries [where P = "entry_ok (vp_max m)" and m = "params m"]
  by (simp add: vpmap_ok_def pt_order.sorted_insert entry_ok_def)

lemma om_erase_entries: "list_all P m \<Longrightarrow> list_all P (om_erase lt k m)"
  by (induction lt k m rule: om_erase.induct) auto

lemma om_filter_sorted: "om_sorted lt m \<Longrightarrow> om_sorted lt (filter P m)"
  unfolding om_sorted_def by (induction m) auto

section \<open>One entry at a time\<close>

text \<open>The entry an insertion works on: the one already there or a new one of the given tag.\<close>

definition slot :: "('k::linorder) param_tuple \<Rightarrow> VariantParamType \<Rightarrow> 'k vpmap \<Rightarrow> variant_param" where
  "slot k t m = (case pt_find k m of Some v \<Rightarrow> v | None \<Rightarrow> new_variant t (vp_max m))"

lemma vp_insert_slot:
  "vp_insert k t f m = m\<lparr>params := om_insert pt_less k (f (slot k t m)) (params m)\<rparr>"
  by (simp add: vp_insert_def slot_def)

lemma slot_ok:
  assumes "vpmap_ok m"
  shows "variant_ok (slot k t m) \<or> type (slot k t m) = t" "max_size (slot k t m) = vp_max m"
  using vpmap_okD(3) [OF assms] by (auto simp: slot_def dest!: pt_find_in split: option.splits)

lemma vp_insert_ok [inv_intros]:
  assumes "vpmap_ok m" and "variant_ok (f (slot k t m))" and "max_size (f (slot k t m)) = vp_max m"
  shows "vpmap_ok (vp_insert k t f m)"
  using assms by (simp add: vp_insert_slot insert_ok)

lemma vp_insert_frame [simp]:
  "vp_max (vp_insert k t f m) = vp_max m" "labels (vp_insert k t f m) = labels m"
  by (simp_all add: vp_insert_slot)

lemma find_vp_insert:
  "pt_find l (vp_insert k t f m) = (if l = k then Some (f (slot k t m)) else pt_find l m)"
  by (simp add: vp_insert_slot pt_order.find_map_of pt_order.map_of_insert)

lemmas set_defs = set_int_def set_bool_def set_cstr_def set_char_def set_double_def set_octets_def
  set_pointer_def

lemma set_from_put:
  assumes "variant_ok v" and "defined v"
  shows "set_from v k m = Some (vp_insert k (type v) (put v) m)"
proof (cases "data v")
  case (U_str s)
  then show ?thesis
    using assms by (cases "type v") (auto simp: set_from_def set_defs put_def variant_ok_def vp_insert_slot)
qed (use assms in \<open>auto simp: set_from_def set_defs put_def variant_ok_def defined_def vp_insert_slot\<close>)

lemma set_from_defined: "set_from v k m = Some m' \<Longrightarrow> defined v"
  by (auto simp: set_from_def defined_def split: VariantParamType.splits)

lemma set_from_ok [inv_intros]:
  assumes "vpmap_ok m" and "variant_ok v" and "set_from v k m = Some m'"
  shows "vpmap_ok m' \<and> vp_max m' = vp_max m \<and> labels m' = labels m"
proof -
  have m': "m' = vp_insert k (type v) (put v) m"
    using assms(3) by (simp add: set_from_put [OF assms(2) set_from_defined [OF assms(3)]])
  then show ?thesis
    using slot_ok [OF assms(1)] assms(1,2) vpmap_okD(1) [OF assms(1)] set_from_defined [OF assms(3)]
    by (simp add: vp_insert_ok put_ok)
qed

lemma update_id: "om_find pt_less k (m :: 'k::linorder entries) = Some v \<Longrightarrow> om_sorted pt_less m \<Longrightarrow> om_insert pt_less k v m = m"
proof (induction m)
  case Nil
  then show ?case by simp
next
  case (Cons p m)
  obtain a b where p: "p = (a, b)" by (cases p)
  have s: "om_sorted pt_less m" using Cons.prems by (simp add: om_sorted_def)
  show ?case
  proof (cases "pt_less k a")
    case True
    then have "om_find pt_less k m = Some v" using Cons.prems by (simp add: p)
    then have "k \<in> fst ` set m" by (force simp: pt_order.find_map_of dest: map_of_SomeD)
    then have "pt_less a k" using Cons.prems(2) by (auto simp: om_sorted_def p)
    with True show ?thesis using pt_order.asym by blast
  next
    case False
    with Cons s show ?thesis by (auto simp: p split: if_splits)
  qed
qed

lemma set_from_other_tag:
  assumes "vpmap_ok m" and "variant_ok v" and "defined v" and "pt_find k m = Some w" and "type w \<noteq> type v"
  shows "set_from v k m = Some m"
proof -
  have "put v w = w" using assms by (simp add: put_other_tag)
  moreover have "om_insert pt_less k w (params m) = params m"
    using assms by (intro update_id) (auto simp: vpmap_ok_def)
  ultimately show ?thesis
    using assms by (simp add: set_from_put vp_insert_slot slot_def)
qed

lemma om_insert_between:
  "\<forall>x \<in> set pre. pt_less (fst x) k \<Longrightarrow> \<forall>x \<in> set post. pt_less k (fst x) \<Longrightarrow>
   om_insert pt_less k v (pre @ post) = pre @ (k, v) # post"
proof (induction pre)
  case Nil
  then show ?case by (cases post) auto
next
  case (Cons p pre)
  obtain a b where p: "p = (a, b)" by (cases p)
  show ?case using Cons pt_order.asym by (auto simp: p)
qed

lemma find_absent:
  "\<forall>x \<in> set es. fst x \<noteq> k \<Longrightarrow> om_find pt_less k (es :: ('k::linorder) entries) = None"
  by (auto simp: pt_order.find_map_of map_of_eq_None_iff)

lemma om_sorted_append:
  "om_sorted lt (a @ b) \<longleftrightarrow> om_sorted lt a \<and> om_sorted lt b \<and>
     (\<forall>x \<in> set a. \<forall>y \<in> set b. lt (fst x) (fst y))"
  unfolding om_sorted_def by (induction a) auto

text \<open>Where no entry has the key, an insertion adds the value, in the map's buffer size.\<close>

lemma set_from_fresh:
  assumes "params m = pre @ post" and "\<forall>x \<in> set pre. pt_less (fst x) k"
    and "\<forall>x \<in> set post. pt_less k (fst x)"
    and "variant_ok v" and "defined v" and "max_size v \<le> vp_max m"
  shows "set_from v k m = Some (m\<lparr>params := pre @ (k, v\<lparr>max_size := vp_max m\<rparr>) # post\<rparr>)"
proof -
  have "pt_find k m = None"
    using assms(1-3) pt_order.irrefl by (intro find_absent) fastforce
  then have "slot k (type v) m = new_variant (type v) (vp_max m)" by (simp add: slot_def)
  moreover have "put v (new_variant (type v) (vp_max m)) = v\<lparr>max_size := vp_max m\<rparr>"
    using assms(4-6) by (simp add: put_same_tag new_variant_def)
  ultimately show ?thesis
    using assms by (simp add: set_from_put vp_insert_slot om_insert_between)
qed

lemma copy_params_append:
  assumes "om_sorted pt_less (params m @ es)"
    and "list_all (\<lambda>e. variant_ok (snd e) \<and> defined (snd e) \<and> max_size (snd e) \<le> vp_max m) es"
  shows "copy_params es m
       = Some (m\<lparr>params := params m @ map (\<lambda>e. (fst e, snd e\<lparr>max_size := vp_max m\<rparr>)) es\<rparr>)"
  using assms
proof (induction es arbitrary: m)
  case Nil
  then show ?case by simp
next
  case (Cons p es)
  obtain k v where p: "p = (k, v)" by (cases p)
  let ?m = "m\<lparr>params := params m @ [(k, v\<lparr>max_size := vp_max m\<rparr>)]\<rparr>"
  have "set_from v k m = Some ?m"
    using Cons.prems by (intro set_from_fresh [where post = "[]", simplified])
      (auto simp: p om_sorted_append)
  moreover have "copy_params es ?m
      = Some (?m\<lparr>params := params ?m @ map (\<lambda>e. (fst e, snd e\<lparr>max_size := vp_max ?m\<rparr>)) es\<rparr>)"
    using Cons.prems by (intro Cons.IH) (auto simp: p om_sorted_append om_sorted_def)
  ultimately show ?case by (simp add: p)
qed

definition all_defined :: "'k vpmap \<Rightarrow> bool" where
  "all_defined m \<longleftrightarrow> list_all (\<lambda>e. defined (snd e)) (params m)"

lemma copy_ok:
  assumes "vpmap_ok m" and "all_defined m" and "vp_max m \<le> vp_max t" and "params t = []"
  shows "copy_params (params m) t
       = Some (t\<lparr>params := map (\<lambda>e. (fst e, snd e\<lparr>max_size := vp_max t\<rparr>)) (params m)\<rparr>)"
  using assms copy_params_append [of t "params m"]
  by (auto simp: vpmap_ok_def entry_ok_def all_defined_def list_all_iff)

lemma copy_params_ok [inv_intros]:
  "vpmap_ok m \<Longrightarrow> list_all (\<lambda>e. variant_ok (snd e)) es \<Longrightarrow> copy_params es m = Some m' \<Longrightarrow>
   vpmap_ok m' \<and> vp_max m' = vp_max m \<and> labels m' = labels m"
proof (induction es arbitrary: m)
  case Nil
  then show ?case by simp
next
  case (Cons p es)
  obtain k v where p: "p = (k, v)" by (cases p)
  obtain m1 where m1: "set_from v k m = Some m1" "copy_params es m1 = Some m'"
    using Cons.prems(3) by (auto simp: p bind_eq_Some_conv)
  have ok: "vpmap_ok m1 \<and> vp_max m1 = vp_max m \<and> labels m1 = labels m"
    using Cons.prems m1(1) by (intro set_from_ok) (auto simp: p)
  from Cons.IH [of m1] ok Cons.prems(2) m1(2) show ?case by (simp add: p)
qed

section \<open>Defragmentation\<close>

lemma find_index_split:
  "\<forall>x \<in> set pre. \<not> P x \<Longrightarrow> P y \<Longrightarrow> find_index P (pre @ y # post) = Some (length pre)"
  by (induction pre) auto

definition same_param :: "'k param_tuple \<Rightarrow> 'k param_tuple \<Rightarrow> bool" where
  "same_param l k \<longleftrightarrow> pt_key l = pt_key k \<and> pt_index l = pt_index k \<and> pt_context l = pt_context k"

definition fragments :: "'k param_tuple \<Rightarrow> 'k entries \<Rightarrow> bool" where
  "fragments k es \<longleftrightarrow> list_all (\<lambda>e. same_param (fst e) k \<and>
     (\<exists>s. data (snd e) = U_str s \<and> data_size (snd e) = length s)) es"

definition payload :: "variant_param \<Rightarrow> octets" where
  "payload v = (case data v of U_str s \<Rightarrow> s | _ \<Rightarrow> [])"

lemma defrag_loop_fragments:
  assumes "fragments k frs" and "post = [] \<or> \<not> same_param (fst (hd post)) k"
    and "length buf + length (concat (map (\<lambda>e. payload (snd e)) frs)) < mx"
  shows "defrag_loop mx k (frs @ post) buf = Some (buf @ concat (map (\<lambda>e. payload (snd e)) frs), length frs)"
  using assms
proof (induction frs arbitrary: buf)
  case Nil
  then show ?case by (cases post) (auto simp: same_param_def)
next
  case (Cons p frs)
  obtain l v where p: "p = (l, v)" by (cases p)
  obtain s where s: "data v = U_str s" "data_size v = length s" "same_param l k"
    using Cons.prems(1) by (auto simp: fragments_def p)
  have fr: "fragments k frs" using Cons.prems(1) by (simp add: fragments_def)
  have pay: "payload v = s" by (simp add: payload_def s)
  have "length buf + length s + length (concat (map (\<lambda>e. payload (snd e)) frs)) < mx"
    using Cons.prems(3) by (simp add: p pay)
  then have le: "length buf + length s < mx"
    and IH: "defrag_loop mx k (frs @ post) (buf @ s)
        = Some ((buf @ s) @ concat (map (\<lambda>e. payload (snd e)) frs), length frs)"
    using Cons.IH [OF fr Cons.prems(2), of "buf @ s"] by auto
  then show ?case using s by (simp add: p pay same_param_def Let_def)
qed

section \<open>Every sequence of operations\<close>

text \<open>
  The maps a program can build: constructed with a positive buffer size, changed by the setters,
  copied and assigned from other such maps, swapped, erased and defragmented. An integer is
  incremented where there is one or no entry; the code does not check the tag (\<open>inc_int_breaks\<close>).
\<close>

inductive vp_reach :: "nat \<Rightarrow> ('k::linorder) vpmap \<Rightarrow> bool" where
  r_new: "0 < n \<Longrightarrow> vp_reach n (new_vpmap n)"
| r_int: "vp_reach n m \<Longrightarrow> vp_reach n (set_int k x m)"
| r_bool: "vp_reach n m \<Longrightarrow> vp_reach n (set_bool k b m)"
| r_cstr: "vp_reach n m \<Longrightarrow> vp_reach n (set_cstr k s m)"
| r_char: "vp_reach n m \<Longrightarrow> vp_reach n (set_char k ch m)"
| r_double: "vp_reach n m \<Longrightarrow> vp_reach n (set_double k d m)"
| r_octets: "vp_reach n m \<Longrightarrow> len \<le> length s \<Longrightarrow> vp_reach n (set_octets k s len m)"
| r_pointer: "vp_reach n m \<Longrightarrow> vp_reach n (set_pointer k ptr m)"
| r_inc: "vp_reach n m \<Longrightarrow> pred_option (\<lambda>v. type v = DPT_INT) (pt_find k m) \<Longrightarrow> vp_reach n (inc_int k x m)"
| r_set: "vp_reach n m \<Longrightarrow> variant_ok v \<Longrightarrow> set_from v k m = Some m' \<Longrightarrow> vp_reach n m'"
| r_other: "vp_reach n m \<Longrightarrow> vp_reach n2 other \<Longrightarrow> set_other other ok k m = Some (r, m') \<Longrightarrow> vp_reach n m'"
| r_copy: "vp_reach n m \<Longrightarrow> copy_vpmap m = Some m' \<Longrightarrow> vp_reach n m'"
| r_assign: "vp_reach n m \<Longrightarrow> vp_reach n2 other \<Longrightarrow> assign_vpmap m other = Some m' \<Longrightarrow> vp_reach n m'"
| r_swap: "vp_reach n m \<Longrightarrow> swap k1 k2 m = Some (r, m') \<Longrightarrow> vp_reach n m'"
| r_erase: "vp_reach n m \<Longrightarrow> erase_param pk ix fr cx m = (cnt, m') \<Longrightarrow> vp_reach n m'"
| r_defrag: "vp_reach n m \<Longrightarrow> defragment pk ix2 cx m = Some (res, m') \<Longrightarrow> vp_reach n m'"
| r_clear: "vp_reach n m \<Longrightarrow> vp_reach n (clear_params m)"
| r_label: "vp_reach n m \<Longrightarrow> vp_reach n (set_label pk lb m)"

lemma setters_map_ok [inv_intros]:
  assumes "vpmap_ok m"
  shows "vpmap_ok (set_int k x m)" "vpmap_ok (set_bool k b m)" "vpmap_ok (set_cstr k s m)"
    "vpmap_ok (set_char k ch m)" "vpmap_ok (set_double k d m)"
    "len \<le> length o8 \<Longrightarrow> vpmap_ok (set_octets k o8 len m)" "vpmap_ok (set_pointer k ptr m)"
  unfolding set_defs
  using slot_ok [OF assms] assms vpmap_okD(1) [OF assms]
  by (auto intro!: vp_insert_ok setters_ok v_set_str_ok)

lemma setters_map_frame [simp]:
  "vp_max (set_int k x m) = vp_max m" "vp_max (set_bool k b m) = vp_max m"
  "vp_max (set_cstr k s m) = vp_max m" "vp_max (set_char k ch m) = vp_max m"
  "vp_max (set_double k d m) = vp_max m" "vp_max (set_octets k o8 len m) = vp_max m"
  "vp_max (set_pointer k ptr m) = vp_max m"
  by (simp_all add: set_defs)

lemma inc_int_ok [inv_intros]:
  assumes "vpmap_ok m" and "pred_option (\<lambda>v. type v = DPT_INT) (pt_find k m)"
  shows "vpmap_ok (inc_int k x m)"
proof (cases "pt_find k m")
  case None
  with assms show ?thesis by (simp add: inc_int_def insert_ok)
next
  case (Some v)
  then have "variant_ok v" "max_size v = vp_max m" "type v = DPT_INT"
    using vpmap_okD(3) [OF assms(1) pt_find_in [OF Some]] assms(2) by simp_all
  then have "variant_ok (v\<lparr>data := (case data v of U_i64 y \<Rightarrow> U_i64 (y + x) | _ \<Rightarrow> U_indet)\<rparr>)"
    by (auto simp: variant_ok_def split: UVariantParam.splits)
  with Some assms \<open>max_size v = vp_max m\<close> show ?thesis by (simp add: inc_int_def insert_ok)
qed

text \<open>
  \<^verbatim>\<open>inc_int\<close> of an entry of another tag adds to whatever member the union holds, a pointer for a
  string: the entry is not well formed any more.
\<close>

lemma inc_int_breaks:
  assumes "vpmap_ok m" and "pt_find k m = Some v" and "type v \<noteq> DPT_INT"
  shows "\<not> vpmap_ok (inc_int k x m)"
proof
  assume ok: "vpmap_ok (inc_int k x m)"
  let ?w = "v\<lparr>data := (case data v of U_i64 y \<Rightarrow> U_i64 (y + x) | _ \<Rightarrow> U_indet)\<rparr>"
  have "pt_find k (inc_int k x m) = Some ?w"
    using assms(2) by (simp add: inc_int_def pt_order.find_map_of pt_order.map_of_insert)
  then have "variant_ok ?w" using vpmap_okD(3) [OF ok] pt_find_in by blast
  moreover have "variant_ok v" using vpmap_okD(3) [OF assms(1)] pt_find_in [OF assms(2)] by blast
  ultimately show False using assms(3) by (cases "data v") (auto simp: variant_ok_def)
qed

lemma swap_ok [inv_intros]:
  assumes "vpmap_ok m" and "swap k1 k2 m = Some (r, m')"
  shows "vpmap_ok m' \<and> vp_max m' = vp_max m"
proof (cases "pt_find k1 m = None \<or> pt_find k2 m = None")
  case True
  with assms show ?thesis by (auto simp: swap_def split: option.splits)
next
  case False
  then obtain v1 v2 where v: "pt_find k1 m = Some v1" "pt_find k2 m = Some v2" by auto
  then have ok: "variant_ok v1" "variant_ok v2" using vpmap_okD(3) [OF assms(1)] pt_find_in by blast+
  then have ok1: "variant_ok (v1\<lparr>data := swap_saved v1\<rparr>)"
    by (auto simp: variant_ok_def swap_saved_def split: UVariantParam.splits)
  show ?thesis
  proof (cases "k1 = k2 \<or> type v1 \<noteq> type v2")
    case True
    with assms v show ?thesis by (auto simp: swap_def split: if_splits)
  next
    case False
    then obtain m1 where "set_from v2 k1 m = Some m1"
      "set_from (v1\<lparr>data := swap_saved v1\<rparr>) k2 m1 = Some m'"
      using assms(2) v by (auto simp: swap_def bind_eq_Some_conv)
    with set_from_ok [OF assms(1) ok(2)] set_from_ok [OF _ ok1] show ?thesis by fastforce
  qed
qed

lemma remove_ok:
  "vpmap_ok m \<Longrightarrow> vpmap_ok (m\<lparr>params := filter P (params m)\<rparr>)"
  "vpmap_ok m \<Longrightarrow> vpmap_ok (m\<lparr>params := om_erase pt_less k (params m)\<rparr>)"
  "vpmap_ok m \<Longrightarrow> vpmap_ok (m\<lparr>params := take p (params m) @ drop (p + q) (params m)\<rparr>)"
proof -
  assume m: "vpmap_ok m"
  then show "vpmap_ok (m\<lparr>params := filter P (params m)\<rparr>)"
    by (auto simp: vpmap_ok_def om_filter_sorted list_all_iff)
  show "vpmap_ok (m\<lparr>params := om_erase pt_less k (params m)\<rparr>)"
    using m by (auto simp: vpmap_ok_def pt_order.sorted_erase om_erase_entries)
  have split: "params m = take p (params m) @ take q (drop p (params m)) @ drop (p + q) (params m)"
    by (metis append_take_drop_id drop_drop add.commute)
  have "om_sorted pt_less (take p (params m) @ take q (drop p (params m)) @ drop (p + q) (params m))"
    using m split by (simp add: vpmap_ok_def)
  then have "om_sorted pt_less (take p (params m) @ drop (p + q) (params m))"
    by (simp add: om_sorted_append)
  with m show "vpmap_ok (m\<lparr>params := take p (params m) @ drop (p + q) (params m)\<rparr>)"
    by (auto simp: vpmap_ok_def list_all_iff dest: in_set_takeD in_set_dropD)
qed

lemma erase_param_ok [inv_intros]:
  assumes "vpmap_ok m" and "erase_param k i f c m = (n, m')"
  shows "vpmap_ok m' \<and> vp_max m' = vp_max m"
  using assms remove_ok [OF assms(1)]
  by (auto simp: erase_param_def Let_def split: if_splits option.splits)

lemma defragment_ok [inv_intros]:
  assumes "vpmap_ok m" and "defragment k i c m = Some (r, m')"
  shows "vpmap_ok m' \<and> vp_max m' = vp_max m"
  using assms remove_ok(3) [OF assms(1)]
  by (auto simp: defragment_def Let_def setters_map_ok split: option.splits prod.splits)

lemma entries_ok: "vpmap_ok m \<Longrightarrow> list_all (\<lambda>e. variant_ok (snd e)) (params m)"
  by (auto simp: vpmap_ok_def entry_ok_def list_all_iff)

lemma empty_params_ok: "0 < vp_max m \<Longrightarrow> vpmap_ok (m\<lparr>params := []\<rparr>)"
  by (simp add: vpmap_ok_def om_sorted_def)

lemma vpmap_ok_labels [simp]: "vpmap_ok (m\<lparr>labels := ls\<rparr>) = vpmap_ok m"
  by (simp add: vpmap_ok_def)

lemma set_other_ok [inv_intros]:
  assumes "vpmap_ok m" and "vpmap_ok other" and "set_other other ok k m = Some (r, m')"
  shows "vpmap_ok m' \<and> vp_max m' = vp_max m"
proof (cases "pt_find ok other")
  case None
  with assms show ?thesis by (simp add: set_other_def)
next
  case (Some v)
  then have "variant_ok v" using vpmap_okD(3) [OF assms(2)] pt_find_in by blast
  with Some assms set_from_ok [of m v k] show ?thesis by (auto simp: set_other_def)
qed

lemma copy_vpmap_ok [inv_intros]:
  assumes "vpmap_ok m" and "copy_vpmap m = Some m'"
  shows "vpmap_ok m' \<and> vp_max m' = vp_max m"
proof -
  have "vpmap_ok (new_vpmap (vp_max m))"
    using vpmap_okD(1) [OF assms(1)] by (rule new_vpmap_ok)
  then have ok: "vpmap_ok (new_vpmap (vp_max m)\<lparr>labels := labels m\<rparr>)"
    by (simp only: vpmap_ok_labels)
  have "copy_params (params m) (new_vpmap (vp_max m)\<lparr>labels := labels m\<rparr>) = Some m'"
    using assms(2) by (simp only: copy_vpmap_def)
  from copy_params_ok [OF ok entries_ok [OF assms(1)] this] show ?thesis
    by (simp add: new_vpmap_def)
qed

lemma assign_vpmap_ok [inv_intros]:
  assumes "vpmap_ok m" and "vpmap_ok other" and "assign_vpmap m other = Some m'"
  shows "vpmap_ok m' \<and> vp_max m' = vp_max m"
proof -
  have "vpmap_ok (m\<lparr>params := [], labels := labels other\<rparr>)"
    using vpmap_okD(1) [OF assms(1)] by (simp add: empty_params_ok)
  from copy_params_ok [OF this entries_ok [OF assms(2)]] assms(3) show ?thesis
    by (auto simp: assign_vpmap_def)
qed

lemma inc_int_max [simp]: "vp_max (inc_int k x m) = vp_max m"
  by (simp add: inc_int_def split: option.split)

lemma clear_label_ok [inv_intros]:
  "vpmap_ok m \<Longrightarrow> vpmap_ok (clear_params m)" "vp_max (clear_params m) = vp_max m"
  "vpmap_ok m \<Longrightarrow> vpmap_ok (set_label k l m)" "vp_max (set_label k l m) = vp_max m"
  by (simp_all add: clear_params_def set_label_def empty_params_ok vpmap_okD)

section \<open>Properties\<close>

text \<open>
  C14. Invariant of the parameter map: whatever sequence of operations built it, copies from and
  assignments of other maps included, its entries are sorted by key, index, fragment and context
  without duplicates, every stored value has the payload and size of its tag in a buffer of the
  map's own size (an integer made by \<^verbatim>\<open>inc_int\<close> and not set yet has none), and the buffer size never
  changes. \<^verbatim>\<open>inc_int\<close> is used on integers and on absent entries, and lengths given with octets are
  those of the octets or less.
\<close>

theorem vp_reach_ok:
  "vp_reach n m \<Longrightarrow> vpmap_ok m \<and> vp_max m = n \<and> distinct (map fst (params m))"
proof -
  assume "vp_reach n m"
  then have "vpmap_ok m \<and> vp_max m = n"
  proof induction
    case (r_set n m v k m')
    with set_from_ok [of m v k m'] show ?case by simp
  next
    case (r_other n m n2 other ok k r m')
    with set_other_ok [of m other ok k r m'] show ?case by simp
  next
    case (r_copy n m m')
    with copy_vpmap_ok [of m m'] show ?case by simp
  next
    case (r_assign n m n2 other m')
    with assign_vpmap_ok [of m other m'] show ?case by simp
  next
    case (r_swap n m k1 k2 r m')
    with swap_ok [of m k1 k2 r m'] show ?case by simp
  next
    case (r_erase n m pk ix fr cx cnt m')
    with erase_param_ok [of m pk ix fr cx cnt m'] show ?case by simp
  next
    case (r_defrag n m pk ix2 cx res m')
    with defragment_ok [of m pk ix2 cx res m'] show ?case by simp
  next
    case (r_new n)
    then show ?case by (simp add: new_vpmap_ok) (simp add: new_vpmap_def)
  qed (simp_all add: setters_map_ok inc_int_ok clear_label_ok)
  then show ?thesis by (auto simp: vpmap_ok_def pt_order.sorted_distinct)
qed

text \<open>A small map: an integer, two fragments of an octet string, a boolean.\<close>

definition sample :: "nat vpmap" where
  "sample = set_bool (PT 3 0 0 0) True
     (set_octets (PT 2 0 1 0) [3] 1 (set_octets (PT 2 0 0 0) [1, 2] 2
       (set_int (PT 1 0 0 0) 7 (new_vpmap 16))))"

lemma sample_reach: "vp_reach 16 sample"
  unfolding sample_def by (intro r_new r_int r_bool r_octets) simp_all

lemma sample_params: "params sample =
   [(PT 1 0 0 0, \<lparr>max_size = 16, data = U_i64 7, type = DPT_INT, data_size = 8\<rparr>),
    (PT 2 0 0 0, \<lparr>max_size = 16, data = U_str [1, 2], type = DPT_OCTETS, data_size = 2\<rparr>),
    (PT 2 0 1 0, \<lparr>max_size = 16, data = U_str [3], type = DPT_OCTETS, data_size = 1\<rparr>),
    (PT 3 0 0 0, \<lparr>max_size = 16, data = U_b True, type = DPT_BOOL, data_size = 1\<rparr>)]"
  by (simp add: sample_def set_defs vp_insert_def new_vpmap_def new_variant_def setter_defs
      pt_less_def)

theorem vp_reach_ok_witness: "vpmap_ok sample \<and> vp_max sample = 16 \<and> distinct (map fst (params sample))"
  by (rule vp_reach_ok [OF sample_reach])

lemma sample_max: "vp_max sample = 16"
  by (simp add: sample_def) (simp add: new_vpmap_def)

lemma sample_ok: "vpmap_ok sample" "vp_max sample = 16"
  by (simp_all add: vpmap_ok_def entry_ok_def sample_params om_sorted_def pt_less_def variant_ok_def
      sample_max)

text \<open>
  Setting a parameter from another value: after it a lookup of that key gives the value
  (payload, tag and size; strings and octets unshortened, since they fit the buffer), and every
  other key what it gave before. A key already in use by another tag keeps its value: the map
  does not change at all.
\<close>

theorem set_from_get:
  assumes "vpmap_ok m" and "variant_ok v" and "defined v" and "max_size v \<le> vp_max m"
  shows "\<exists>m'. set_from v k m = Some m' \<and>
    (case get_param k m of
       Some w \<Rightarrow> if type w = type v
         then (\<forall>l. get_param l m' = (if l = k then Some (v\<lparr>max_size := vp_max m\<rparr>) else get_param l m))
         else m' = m
     | None \<Rightarrow> (\<forall>l. get_param l m' = (if l = k then Some (v\<lparr>max_size := vp_max m\<rparr>) else get_param l m)))"
proof (cases "\<exists>w. pt_find k m = Some w \<and> type w \<noteq> type v")
  case True
  with assms show ?thesis by (auto simp: set_from_other_tag get_param_def)
next
  case False
  let ?w = "slot k (type v) m"
  have ty: "type ?w = type v" using False by (auto simp: slot_def split: option.split)
  have mx: "max_size ?w = vp_max m" by (rule slot_ok [OF assms(1)])
  then have "put v ?w = ?w\<lparr>data := data v, data_size := data_size v\<rparr>"
    using assms ty by (intro put_same_tag) auto
  then have "put v ?w = v\<lparr>max_size := vp_max m\<rparr>"
    using ty mx by (cases v; cases ?w) simp
  with assms False show ?thesis
    by (auto simp: set_from_put get_param_def find_vp_insert split: option.split)
qed

theorem set_from_get_witness:
  "\<exists>m'. set_from \<lparr>max_size = 8, data = U_i64 9, type = DPT_INT, data_size = 8\<rparr> (PT 1 0 0 0) sample
      = Some m' \<and>
    get_param (PT 1 0 0 0) m' = Some \<lparr>max_size = 16, data = U_i64 9, type = DPT_INT, data_size = 8\<rparr>"
  using set_from_get [OF sample_ok(1), of "\<lparr>max_size = 8, data = U_i64 9, type = DPT_INT, data_size = 8\<rparr>"
      "PT 1 0 0 0"]
  by (auto simp: variant_ok_def defined_def sample_ok sample_params get_param_def pt_less_def)

text \<open>
  Copies are faithful: the copy of a map whose values are all set is the map itself, and the
  assignment to another map with at least the same buffer size stores the same keys with the same
  values; \<^verbatim>\<open>operator==\<close> then holds unless a value is a NaN.
\<close>

theorem copy_assign_faithful:
  assumes "vpmap_ok m" and "all_defined m" and "vp_max m \<le> vp_max this"
  shows "copy_vpmap m = Some m \<and>
    assign_vpmap this m = Some (this\<lparr>labels := labels m,
      params := map (\<lambda>e. (fst e, snd e\<lparr>max_size := vp_max this\<rparr>)) (params m)\<rparr>)"
proof
  have "map (\<lambda>e. (fst e, snd e\<lparr>max_size := vp_max m\<rparr>)) (params m) = params m"
    using vpmap_okD(3) [OF assms(1)] by (intro map_idI) force
  then show "copy_vpmap m = Some m"
    using copy_ok [OF assms(1,2), of "new_vpmap (vp_max m)\<lparr>labels := labels m\<rparr>"]
    by (simp add: copy_vpmap_def new_vpmap_def)
  show "assign_vpmap this m = Some (this\<lparr>labels := labels m,
      params := map (\<lambda>e. (fst e, snd e\<lparr>max_size := vp_max this\<rparr>)) (params m)\<rparr>)"
    using copy_ok [OF assms(1,2), of "this\<lparr>params := [], labels := labels m\<rparr>"] assms(3)
    by (simp add: assign_vpmap_def)
qed

theorem copy_assign_faithful_witness:
  "copy_vpmap sample = Some sample \<and> assign_vpmap sample sample = Some sample"
proof -
  have "map (\<lambda>e. (fst e, snd e\<lparr>max_size := 16\<rparr>)) (params sample) = params sample"
    by (simp add: sample_params)
  moreover have "all_defined sample" by (simp add: all_defined_def sample_params defined_def)
  ultimately show ?thesis
    using copy_assign_faithful [OF sample_ok(1) _ order_refl] by (simp add: sample_ok)
qed

text \<open>
  Defragmentation: a parameter stored as consecutive fragments that together stay below the
  buffer size becomes one octet parameter at fragment 0 holding their concatenation in order;
  the fragments are gone and every other entry is untouched. (A fragment of another context
  between them ends the run: the fragments are consecutive only if no other context
  interleaves.)
\<close>

theorem defragment_concat:
  assumes "vpmap_ok m" and "params m = pre @ frs @ post"
    and "frs \<noteq> []" and "fst (hd frs) = PT k i 0 c" and "fragments (PT k i 0 c) frs"
    and "post = [] \<or> \<not> same_param (fst (hd post)) (PT k i 0 c)"
    and "length (concat (map (\<lambda>e. payload (snd e)) frs)) < vp_max m"
  shows "defragment k i c m = Some (Some (PT k i 0 c), m\<lparr>params := pre @
    (PT k i 0 c, \<lparr>max_size = vp_max m, data = U_str (concat (map (\<lambda>e. payload (snd e)) frs)),
       type = DPT_OCTETS, data_size = length (concat (map (\<lambda>e. payload (snd e)) frs))\<rparr>) # post\<rparr>)"
proof -
  let ?key = "PT k i 0 c" and ?b = "concat (map (\<lambda>e. payload (snd e)) frs)"
  obtain v frs' where f: "frs = (?key, v) # frs'"
    using assms(3,4) by (cases frs) auto
  have sorted: "om_sorted pt_less (pre @ (?key, v) # frs' @ post)"
    using assms(1,2) by (simp add: vpmap_ok_def f)
  then have before: "\<forall>x \<in> set pre. pt_less (fst x) ?key" and after: "\<forall>x \<in> set post. pt_less ?key (fst x)"
    by (auto simp: om_sorted_def sorted_wrt_append)
  have "\<forall>x \<in> set pre. fst x \<noteq> ?key" using before pt_order.irrefl [of ?key] by auto
  then have "find_index (\<lambda>e. fst e = ?key) (params m) = Some (length pre)"
    by (simp add: assms(2) f find_index_split)
  moreover have "defrag_loop (vp_max m) ?key (frs @ post) [] = Some (?b, length frs)"
    using defrag_loop_fragments [of ?key frs post "[]"] assms by simp
  moreover have "om_find pt_less ?key (pre @ post) = None"
    using before after pt_order.irrefl by (intro find_absent) fastforce
  ultimately show ?thesis
    using assms(7) before after
    by (simp add: defragment_def Let_def assms(2) set_octets_def vp_insert_def om_insert_between
        v_set_octets_def new_variant_def)
qed

theorem defragment_concat_witness:
  "defragment 2 0 0 sample = Some (Some (PT 2 0 0 0), sample\<lparr>params :=
     [(PT 1 0 0 0, \<lparr>max_size = 16, data = U_i64 7, type = DPT_INT, data_size = 8\<rparr>),
      (PT 2 0 0 0, \<lparr>max_size = 16, data = U_str [1, 2, 3], type = DPT_OCTETS, data_size = 3\<rparr>),
      (PT 3 0 0 0, \<lparr>max_size = 16, data = U_b True, type = DPT_BOOL, data_size = 1\<rparr>)]\<rparr>)"
  using defragment_concat [OF sample_ok(1), of "take 1 (params sample)" "take 2 (drop 1 (params sample))"
      "drop 3 (params sample)" 2 0 0]
  by (simp add: sample_params sample_ok fragments_def same_param_def payload_def)

end
