(* ===== verification/GdtMessage.thy ===== *)
theory GdtMessage
  imports Ber Tables
begin

text \<open>
  What the GDT layer (\<^verbatim>\<open>src/src/gdt/gdt.cpp\<close>) shares: the events and their callbacks
  (\<^verbatim>\<open>GDTCallbackArgs\<close>, \<^verbatim>\<open>GDTCallbackHandler\<close>), the counters (\<^verbatim>\<open>GDTStats\<close>), the message with its
  header, and the functions that fill an outgoing message from an incoming one.

  A message is the classes of \<^verbatim>\<open>src/src/include/gdt_def.h\<close> seen through one session: a
  mandatory field is the octets its node links, an optional one is \<^term>\<open>None\<close> when the node does
  not exist or links nothing. Every outgoing message uses session 1. The octets put on the wire
  are those the encoder makes of the message (theories \<open>BerTree\<close> and \<open>BerLink\<close>); a payload
  keeps the message they were made of. Names of daemons are C strings.
\<close>

section \<open>Enumerations\<close>

datatype GDTStreamType = GDT_ST_UNKNOWN | GDT_ST_STATEFUL | GDT_ST_STATELESS | GDT_ST_STATELESS_NO_REPLY

datatype GDTStreamInitiatorType = GDT_SIT_LOCAL | GDT_SIT_REMOTE

datatype GDTEventType = GDT_ET_CLIENT_NEW | GDT_ET_CLIENT_TERMINATED | GDT_ET_STREAM_NEW | GDT_ET_STREAM_NEXT
  | GDT_ET_STREAM_END | GDT_ET_STREAM_TIMEOUT | GDT_ET_DATAGRAM | GDT_ET_PAYLOAD_SENT | GDT_ET_CLIENT_IDLE
  | GDT_ET_CLIENT_TERMINATING | GDT_ET_CLIENT_RECONNECTING | GDT_ET_CLIENT_RECONNECTED | GDT_ET_HEARTBEAT_MISSED
  | GDT_ET_HEARTBEAT_RECEIVED | GDT_ET_CLIENT_CREATED | GDT_ET_CLIENT_DESTROYED | GDT_ET_SRVC_MSG_NEW
  | GDT_ET_SRVC_SHORT_PARAM_NEW | GDT_ET_SRVC_PARAM_STREAM_NEW | GDT_ET_SRVC_PARAM_STREAM_NEXT
  | GDT_ET_SRVC_PARAM_STREAM_END | GDT_ET_SRVC_MSG_COMPLETE | GDT_ET_SRVC_MSG_ERROR

datatype GDTSequenceFlag = GDT_SF_UNKNOWN | GDT_SF_START | GDT_SF_CONTINUE | GDT_SF_END | GDT_SF_STATELESS
  | GDT_SF_CONTINUE_WAIT | GDT_SF_HEARTBEAT

datatype GDTCBArgsType = GDT_CB_INPUT_ARGS | GDT_CB_OUTPUT_ARGS

datatype GDTCBArgType = GDT_CB_ARG_IN_MSG | GDT_CB_ARG_IN_MSG_ID | GDT_CB_ARG_CLIENT | GDT_CB_ARG_STREAM
  | GDT_CB_ARG_OUT_MSG | GDT_CB_ARG_PAYLOAD | GDT_CB_ARG_BODY | GDT_CB_ARG_IN_RAW | GDT_CB_ARG_IN_RAW_LEN
  | GDT_CB_ARG_MEM_SWITCH | GDT_CB_ARG_HBEAT_INFO | GDT_CB_ARGS_SRVC_PARAM | GDT_CB_ARGS_SRVC_MSG

datatype GDTConnectionDirection = GDT_CD_UNKNOWN | GDT_CD_INBOUND | GDT_CD_OUTBOUND

text \<open>The flag values of the wire (\<^verbatim>\<open>asn1::SequenceFlag\<close>) and the error codes (\<^verbatim>\<open>asn1::ErrorCode\<close>).\<close>

abbreviation (input) sf_start :: u8 where "sf_start \<equiv> 0"
abbreviation (input) sf_continue :: u8 where "sf_continue \<equiv> 1"
abbreviation (input) sf_end :: u8 where "sf_end \<equiv> 2"
abbreviation (input) sf_stateless_no_reply :: u8 where "sf_stateless_no_reply \<equiv> 3"
abbreviation (input) sf_stateless :: u8 where "sf_stateless \<equiv> 4"
abbreviation (input) sf_stream_complete :: u8 where "sf_stream_complete \<equiv> 5"
abbreviation (input) sf_continue_wait :: u8 where "sf_continue_wait \<equiv> 6"
abbreviation (input) sf_heartbeat :: u8 where "sf_heartbeat \<equiv> 7"

abbreviation (input) err_ok :: u8 where "err_ok \<equiv> 0"
abbreviation (input) err_out_of_sequence :: u8 where "err_out_of_sequence \<equiv> 1"
abbreviation (input) err_unknown_sequence :: u8 where "err_unknown_sequence \<equiv> 2"
abbreviation (input) err_unsupported_version :: u8 where "err_unsupported_version \<equiv> 3"
abbreviation (input) err_unknown_route :: u8 where "err_unknown_route \<equiv> 5"
abbreviation (input) err_max_hops_exceeded :: u8 where "err_max_hops_exceeded \<equiv> 7"

abbreviation (input) GDT_VERSION :: u8 where "GDT_VERSION \<equiv> 1"

section \<open>Messages\<close>

record gdt_message =
  h_version :: octets
  h_src_type :: octets
  h_src_id :: "octets option"
  h_dst_type :: octets
  h_dst_id :: "octets option"
  h_uuid :: octets
  h_seq_num :: octets
  h_seq_flag :: octets
  h_hop :: "(octets \<times> octets) option"
  h_status :: "octets option"
  m_body :: "(nat \<times> octets) option"

text \<open>The body is the index of the chosen alternative and the octets it links.\<close>

definition new_message :: gdt_message where
  "new_message = \<lparr>h_version = [], h_src_type = [], h_src_id = None, h_dst_type = [], h_dst_id = None, h_uuid = [],
     h_seq_num = [], h_seq_flag = [], h_hop = None, h_status = None, m_body = None\<rparr>"

text \<open>The sequence number on the wire is four octets, most significant first.\<close>

definition validate_seq_num :: "octets \<Rightarrow> u32 \<Rightarrow> bool" where
  "validate_seq_num d expected = (if length d = 4 then sum_octets d = expected else False)"

definition setup_dest_and_uuid :: "bool \<Rightarrow> gdt_message \<Rightarrow> gdt_message \<Rightarrow> gdt_message" where
  "setup_dest_and_uuid set_dest_id oh hdr = hdr\<lparr>h_dst_type := h_src_type oh,
     h_dst_id := (if set_dest_id then h_src_id oh else None), h_uuid := h_uuid oh\<rparr>"

text \<open>
  \<^verbatim>\<open>generate_stream_complete\<close>: the answer that ends a stream, with the sequence number of the
  stream; the source is the destination of the incoming message.
\<close>

definition generate_stream_complete :: "gdt_message \<Rightarrow> u32 \<Rightarrow> gdt_message \<Rightarrow> gdt_message" where
  "generate_stream_complete oh seqn out =
     (let hdr = out\<lparr>m_body := None, h_version := [GDT_VERSION], h_src_type := h_dst_type oh,
                    h_src_id := h_dst_id oh\<rparr>
      in (setup_dest_and_uuid (h_src_id oh \<noteq> None) oh hdr)\<lparr>h_seq_num := be_octets 4 seqn,
           h_seq_flag := [sf_stream_complete], h_status := Some [err_ok]\<rparr>)"

text \<open>
  \<^verbatim>\<open>generate_err\<close>: the error answer. The sequence number is the one received; the source is
  the custom type and id when both are given, else the destination type of the incoming message
  with the id of this daemon.
\<close>

definition generate_err :: "octets \<Rightarrow> gdt_message \<Rightarrow> u8 option \<Rightarrow> (octets \<times> octets) option \<Rightarrow> u8 \<Rightarrow> gdt_message \<Rightarrow> gdt_message" where
  "generate_err self_id oh custom_flag custom_src code out =
     (let hdr = out\<lparr>m_body := None, h_version := [GDT_VERSION], h_hop := None\<rparr>;
          hdr = (case custom_src of
              Some (ty, i) \<Rightarrow> hdr\<lparr>h_src_type := ty, h_src_id := Some i\<rparr>
            | None \<Rightarrow> hdr\<lparr>h_src_type := h_dst_type oh, h_src_id := Some self_id\<rparr>)
      in (setup_dest_and_uuid (h_src_id oh \<noteq> None) oh hdr)\<lparr>h_seq_num := h_seq_num oh,
           h_seq_flag := [case custom_flag of None \<Rightarrow> sf_stream_complete | Some f \<Rightarrow> f], h_status := Some [code]\<rparr>)"

text \<open>The wire flag of an acknowledgement, by the flag of the stream.\<close>

fun ack_flag :: "GDTSequenceFlag \<Rightarrow> u8" where
  "ack_flag GDT_SF_START = sf_continue"
| "ack_flag GDT_SF_CONTINUE = sf_continue"
| "ack_flag GDT_SF_CONTINUE_WAIT = sf_continue_wait"
| "ack_flag GDT_SF_STATELESS = sf_end"
| "ack_flag GDT_SF_HEARTBEAT = sf_heartbeat"
| "ack_flag _ = sf_end"

text \<open>
  The message part of \<^verbatim>\<open>generate_ack\<close>; the increment of the sequence number that ends the
  function is with the stream, in \<open>GdtStream\<close>. The octet 46 is the dot that names this daemon.
\<close>

definition ack_message :: "octets \<Rightarrow> octets \<Rightarrow> gdt_message \<Rightarrow> u32 \<Rightarrow> GDTSequenceFlag \<Rightarrow> bool \<Rightarrow> bool \<Rightarrow> gdt_message \<Rightarrow> gdt_message" where
  "ack_message self_type self_id oh seqn flag reply_received include_body out =
     (let hdr = (if \<not> include_body then out\<lparr>m_body := None\<rparr> else out);
          hdr = hdr\<lparr>h_version := [GDT_VERSION],
                    h_src_type := (if h_dst_type oh = [46] then self_type else h_dst_type oh),
                    h_src_id := Some self_id\<rparr>
      in (setup_dest_and_uuid (h_src_id oh \<noteq> None) oh hdr)\<lparr>h_seq_num := be_octets 4 seqn,
           h_seq_flag := [ack_flag flag], h_status := (if \<not> reply_received then Some [err_ok] else None)\<rparr>)"

text \<open>\<^verbatim>\<open>GDTStream\<close> flags as the octet \<^verbatim>\<open>generate_stream_header\<close> writes (its low octet).\<close>

fun flag_octet :: "GDTSequenceFlag \<Rightarrow> u8" where
  "flag_octet GDT_SF_UNKNOWN = 255"
| "flag_octet GDT_SF_START = 0"
| "flag_octet GDT_SF_CONTINUE = 1"
| "flag_octet GDT_SF_END = 2"
| "flag_octet GDT_SF_STATELESS = 4"
| "flag_octet GDT_SF_CONTINUE_WAIT = 6"
| "flag_octet GDT_SF_HEARTBEAT = 7"

definition generate_stream_header ::
    "octets \<Rightarrow> octets \<Rightarrow> octets \<Rightarrow> u32 \<Rightarrow> GDTSequenceFlag \<Rightarrow> bool \<Rightarrow> octets \<Rightarrow> octets option \<Rightarrow> gdt_message \<Rightarrow> gdt_message" where
  "generate_stream_header self_type self_id uuid seqn flag include_body dest_type dest_id out =
     (let hdr = (if \<not> include_body then out\<lparr>m_body := None\<rparr> else out)
      in hdr\<lparr>h_status := None, h_version := [GDT_VERSION], h_src_id := Some self_id, h_src_type := self_type,
             h_dst_id := dest_id, h_dst_type := dest_type, h_uuid := uuid, h_seq_num := be_octets 4 seqn,
             h_seq_flag := [flag_octet flag]\<rparr>)"

section \<open>Forwarding\<close>

text \<open>What both forwarding functions copy from the incoming message.\<close>

definition copy_header :: "gdt_message \<Rightarrow> gdt_message \<Rightarrow> gdt_message" where
  "copy_header oh out = out\<lparr>h_version := [GDT_VERSION], h_src_type := h_src_type oh, h_src_id := h_src_id oh,
     h_dst_type := h_dst_type oh, h_uuid := h_uuid oh, h_seq_num := h_seq_num oh, h_seq_flag := h_seq_flag oh,
     h_status := h_status oh, m_body := m_body oh\<rparr>"

definition set_destination_id :: "gdt_message \<Rightarrow> octets \<Rightarrow> gdt_message \<Rightarrow> gdt_message" where
  "set_destination_id oh dest out = (copy_header oh out)\<lparr>h_hop := None, h_dst_id := Some dest\<rparr>"

text \<open>
  The hop count is copied into a four octet integer that starts as zero and is then read as
  big-endian; a count of more than four octets is written past it.
\<close>

definition hop_count :: "octets \<Rightarrow> u32 option" where
  "hop_count d = (if length d \<le> 4 then Some (sum_octets (d @ replicate (4 - length d) 0)) else None)"

abbreviation (input) max_hops :: u32 where "max_hops \<equiv> 10"

text \<open>
  \<^verbatim>\<open>update_hop_info\<close>: 1 when the incoming message has made too many hops; the optional fields
  that are missing in the incoming message have then been unlinked in the outgoing one.
\<close>

definition update_hop_info :: "gdt_message \<Rightarrow> gdt_message \<Rightarrow> (nat \<times> gdt_message) option" where
  "update_hop_info oh out =
     (let out0 = out\<lparr>m_body := (if m_body oh = None then None else m_body out),
                     h_status := (if h_status oh = None then None else h_status out),
                     h_src_id := (if h_src_id oh = None then None else h_src_id out),
                     h_dst_id := (if h_dst_id oh = None then None else h_dst_id out)\<rparr>
      in case (case h_hop oh of None \<Rightarrow> Some 0 | Some (cur, _) \<Rightarrow> hop_count cur) of
           None \<Rightarrow> None
         | Some cur \<Rightarrow>
             if h_hop oh \<noteq> None \<and> sint cur > sint max_hops then Some (1, out0)
             else Some (0, (copy_header oh out0)\<lparr>h_dst_id := h_dst_id oh,
                            h_hop := Some (be_octets 4 (cur + 1), be_octets 4 max_hops)\<rparr>))"

section \<open>Callbacks\<close>

text \<open>What a callback argument points to: clients, streams, payloads and service messages by their
  numbers, a service parameter by its type and number.\<close>

datatype cb_arg = Arg_client nat | Arg_stream nat | Arg_payload nat | Arg_message gdt_message | Arg_session u64
  | Arg_include_body | Arg_mem_switch | Arg_hbeat nat | Arg_service_message nat | Arg_service_param nat nat | Arg_other nat

fun arg_code :: "GDTCBArgType \<Rightarrow> nat" where
  "arg_code GDT_CB_ARG_IN_MSG = 0" | "arg_code GDT_CB_ARG_IN_MSG_ID = 1" | "arg_code GDT_CB_ARG_CLIENT = 2"
| "arg_code GDT_CB_ARG_STREAM = 3" | "arg_code GDT_CB_ARG_OUT_MSG = 4" | "arg_code GDT_CB_ARG_PAYLOAD = 5"
| "arg_code GDT_CB_ARG_BODY = 6" | "arg_code GDT_CB_ARG_IN_RAW = 7" | "arg_code GDT_CB_ARG_IN_RAW_LEN = 8"
| "arg_code GDT_CB_ARG_MEM_SWITCH = 9" | "arg_code GDT_CB_ARG_HBEAT_INFO = 10" | "arg_code GDT_CB_ARGS_SRVC_PARAM = 11"
| "arg_code GDT_CB_ARGS_SRVC_MSG = 12"

definition arg_less :: "GDTCBArgType \<Rightarrow> GDTCBArgType \<Rightarrow> bool" where
  "arg_less a b \<longleftrightarrow> arg_code a < arg_code b"

text \<open>\<^verbatim>\<open>GDTCallbackArgs\<close>: two ordered maps; a null pointer is \<^term>\<open>None\<close>.\<close>

record cb_args =
  in_args :: "(GDTCBArgType \<times> cb_arg option) list"
  out_args :: "(GDTCBArgType \<times> cb_arg option) list"

definition new_args :: cb_args where "new_args = \<lparr>in_args = [], out_args = []\<rparr>"

definition clear_all_args :: "cb_args \<Rightarrow> cb_args" where
  "clear_all_args a = a\<lparr>in_args := [], out_args := []\<rparr>"

fun clear_args :: "GDTCBArgsType \<Rightarrow> cb_args \<Rightarrow> cb_args" where
  "clear_args GDT_CB_INPUT_ARGS a = a\<lparr>in_args := []\<rparr>"
| "clear_args GDT_CB_OUTPUT_ARGS a = a\<lparr>out_args := []\<rparr>"

fun args_of :: "GDTCBArgsType \<Rightarrow> cb_args \<Rightarrow> (GDTCBArgType \<times> cb_arg option) list" where
  "args_of GDT_CB_INPUT_ARGS a = in_args a"
| "args_of GDT_CB_OUTPUT_ARGS a = out_args a"

definition get_arg_count :: "GDTCBArgsType \<Rightarrow> cb_args \<Rightarrow> nat" where
  "get_arg_count ty a = length (args_of ty a)"

fun add_arg :: "GDTCBArgsType \<Rightarrow> GDTCBArgType \<Rightarrow> cb_arg option \<Rightarrow> cb_args \<Rightarrow> cb_args" where
  "add_arg GDT_CB_INPUT_ARGS k v a = a\<lparr>in_args := om_insert arg_less k v (in_args a)\<rparr>"
| "add_arg GDT_CB_OUTPUT_ARGS k v a = a\<lparr>out_args := om_insert arg_less k v (out_args a)\<rparr>"

definition get_arg :: "GDTCBArgsType \<Rightarrow> GDTCBArgType \<Rightarrow> cb_args \<Rightarrow> cb_arg option" where
  "get_arg ty k a = (case om_find arg_less k (args_of ty a) of Some v \<Rightarrow> v | None \<Rightarrow> None)"

text \<open>
  \<^verbatim>\<open>GDTCallbackHandler\<close>: the method of each event, by its number. What a method does is the
  user's code: the parameter \<open>run\<close> of the operations, over the state of the client.
\<close>

type_synonym callbacks = "GDTEventType \<Rightarrow> nat option"

definition no_callbacks :: callbacks where "no_callbacks = (\<lambda>_. None)"

definition set_callback :: "GDTEventType \<Rightarrow> nat option \<Rightarrow> callbacks \<Rightarrow> callbacks" where
  "set_callback ty m h = (if m \<noteq> None then h(ty := m) else h)"

definition remove_callback :: "GDTEventType \<Rightarrow> callbacks \<Rightarrow> callbacks" where
  "remove_callback ty h = h(ty := None)"

definition clear_callbacks :: "callbacks \<Rightarrow> callbacks" where "clear_callbacks h = no_callbacks"

definition get_callback :: "GDTEventType \<Rightarrow> callbacks \<Rightarrow> nat option" where "get_callback ty h = h ty"

definition process_callback :: "(nat \<Rightarrow> cb_args \<Rightarrow> 's \<Rightarrow> 's) \<Rightarrow> GDTEventType \<Rightarrow> cb_args \<Rightarrow> callbacks \<Rightarrow> 's \<Rightarrow> bool \<times> 's" where
  "process_callback run ty a h s = (case h ty of Some m \<Rightarrow> (True, run m a s) | None \<Rightarrow> (False, s))"

text \<open>A method's continuation (\<^verbatim>\<open>GDTCallbackMethod\<close>): the method it hands over to, if any.\<close>

definition run_continue :: "(nat \<Rightarrow> cb_args \<Rightarrow> 's \<Rightarrow> 's) \<Rightarrow> nat option \<Rightarrow> cb_args \<Rightarrow> 's \<Rightarrow> 's" where
  "run_continue run cont a s = (case cont of Some m \<Rightarrow> run m a s | None \<Rightarrow> s)"

section \<open>Statistics\<close>

record gdt_stats =
  packets :: u64
  bytes :: u64
  datagrams :: u64
  datagram_bytes :: u64
  datagram_errors :: u64
  strms :: u64
  stream_bytes :: u64
  stream_errors :: u64
  discarded :: u64
  malformed :: u64
  socket_errors :: u64
  strm_alloc_errors :: u64
  strm_timeout :: u64
  strm_loopback :: u64

definition new_stats :: gdt_stats where
  "new_stats = \<lparr>packets = 0, bytes = 0, datagrams = 0, datagram_bytes = 0, datagram_errors = 0, strms = 0, stream_bytes = 0,
     stream_errors = 0, discarded = 0, malformed = 0, socket_errors = 0, strm_alloc_errors = 0, strm_timeout = 0, strm_loopback = 0\<rparr>"

abbreviation add :: "u64 \<Rightarrow> u64 \<Rightarrow> u64" where "add i v \<equiv> snd (add_fetch i v)"

text \<open>\<^verbatim>\<open>operator=\<close>: each counter is read and stored, one after the other.\<close>

definition assign_stats :: "gdt_stats \<Rightarrow> gdt_stats \<Rightarrow> gdt_stats" where
  "assign_stats rhs s =
     (let g = (\<lambda>f. fst (atomic_get (f rhs)))
      in s\<lparr>bytes := g bytes, datagram_bytes := g datagram_bytes, datagram_errors := g datagram_errors, datagrams := g datagrams,
           discarded := g discarded, malformed := g malformed, packets := g packets, stream_bytes := g stream_bytes,
           stream_errors := g stream_errors, strms := g strms, socket_errors := g socket_errors,
           strm_alloc_errors := g strm_alloc_errors, strm_timeout := g strm_timeout, strm_loopback := g strm_loopback\<rparr>)"

section \<open>Lemmas\<close>

lemma validate_be [simp]: "validate_seq_num (be_octets 4 n) m \<longleftrightarrow> n = m"
proof -
  have "unat n < 2 ^ LENGTH(32)" by (rule unsigned_less)
  then show ?thesis using sum_be [of 4 n] by (simp add: validate_seq_num_def)
qed

lemma answer_fields [simp]:
  "h_uuid (generate_err i oh f s e out) = h_uuid oh"
  "h_seq_num (generate_err i oh f s e out) = h_seq_num oh"
  "h_status (generate_err i oh f s e out) = Some [e]"
  "h_dst_type (generate_err i oh f s e out) = h_src_type oh"
  "h_dst_id (generate_err i oh f s e out) = h_src_id oh"
  "m_body (generate_err i oh f s e out) = None"
  "h_hop (generate_err i oh f s e out) = None"
  "h_version (generate_err i oh f s e out) = [GDT_VERSION]"
  by (simp_all add: generate_err_def setup_dest_and_uuid_def Let_def split: option.split)

lemma ack_fields [simp]:
  "h_uuid (ack_message t i oh n f r b out) = h_uuid oh"
  "h_seq_num (ack_message t i oh n f r b out) = be_octets 4 n"
  "h_seq_flag (ack_message t i oh n f r b out) = [ack_flag f]"
  "h_status (ack_message t i oh n f r b out) = (if r then None else Some [err_ok])"
  "h_version (ack_message t i oh n f r b out) = [GDT_VERSION]"
  by (simp_all add: ack_message_def setup_dest_and_uuid_def Let_def)

interpretation cb_order: key_order arg_less
proof
  fix a b show "arg_less a b \<or> a = b \<or> arg_less b a"
    by (cases a; cases b) (simp_all add: arg_less_def)
qed (auto simp: arg_less_def)

text \<open>Callback arguments behave as two maps: what is added is found, and nothing else changes.\<close>

lemma get_added:
  "get_arg ty k (add_arg ty' k' v a) = (if ty = ty' \<and> k = k' then v else get_arg ty k a)"
  by (cases ty; cases ty') (auto simp: get_arg_def cb_order.find_map_of cb_order.map_of_insert)

end
