(* ===== verification/GdtStream.thy ===== *)
theory GdtStream
  imports GdtMessage Pools
begin

text \<open>
  Streams, payloads and the state of a client connection (\<^verbatim>\<open>GDTStream\<close>, \<^verbatim>\<open>GDTPayload\<close>,
  \<^verbatim>\<open>GDTClient\<close> of \<^verbatim>\<open>src/src/gdt/gdt.cpp\<close>): the pool of streams, the list of active streams,
  the output queues, timeouts and the output thread.

  A stream is its index in the pool of its client; its payload is the one \<^verbatim>\<open>GDTClient::init\<close>
  pairs it with for good, so a queue of payloads is a queue of stream indices: the internal one
  is the \<^verbatim>\<open>lockfree::SpscQ\<close> of \<open>SpscQueue\<close>, the other a \<^verbatim>\<open>RingBuffer\<close>. An operation that holds a lock is one step. The clock and the random
  generator are arguments; \<open>run\<close> is what the callback methods do.
\<close>

section \<open>Ring buffer\<close>

text \<open>\<^verbatim>\<open>RingBuffer\<close> of \<^verbatim>\<open>src/src/include/ring.h\<close>: a bounded queue that refuses when it is full.\<close>

definition ring_push :: "nat \<Rightarrow> 'a \<Rightarrow> 'a list \<Rightarrow> bool \<times> 'a list" where
  "ring_push cap x q = (if length q < cap then (True, q @ [x]) else (False, q))"

definition ring_pop :: "'a list \<Rightarrow> (bool \<times> 'a option) \<times> 'a list" where
  "ring_pop q = (case q of x # xs \<Rightarrow> ((True, Some x), xs) | [] \<Rightarrow> ((False, None), []))"

section \<open>State\<close>

record gdt_payload =
  free_on_send :: bool
  sctp_sid :: u32
  gdt_stream_type :: GDTStreamType
  raw_data :: gdt_message
  payload_client :: "nat option"
  p_out :: bool
  payload_callbacks :: callbacks

definition new_payload :: gdt_payload where
  "new_payload = \<lparr>free_on_send = True, sctp_sid = 0, gdt_stream_type = GDT_ST_UNKNOWN, raw_data = new_message,
     payload_client = None, p_out = False, payload_callbacks = no_callbacks\<rparr>"

record gdt_stream =
  uuid :: octets
  sequence_num :: u32
  sequence_reply_received :: bool
  sequence_flag :: GDTSequenceFlag
  stream_client :: "nat option"
  stream_callbacks :: callbacks
  destination_type :: octets
  destination_id :: octets
  out_message :: gdt_message
  payload :: gdt_payload
  timestamp :: int
  params :: "u32 \<Rightarrow> nat option"
  timed_out :: bool
  linked_stream :: "nat option"
  last_linked_side :: "nat option"
  initiator :: GDTStreamInitiatorType

definition new_gdt_stream :: gdt_stream where
  "new_gdt_stream = \<lparr>uuid = replicate 16 0, sequence_num = 0, sequence_reply_received = False, sequence_flag = GDT_SF_UNKNOWN,
     stream_client = None, stream_callbacks = no_callbacks, destination_type = [], destination_id = [], out_message = new_message,
     payload = new_payload, timestamp = 0, params = (\<lambda>_. None), timed_out = False, linked_stream = None,
     last_linked_side = None, initiator = GDT_SIT_LOCAL\<rparr>"

text \<open>
  The client. The name of the session's daemon and the variables of the state machine that
  outlive a message (\<^verbatim>\<open>GDTStateMachine\<close>) are kept with it.
\<close>

record gdt_client =
  self :: nat
  daemon_type :: octets
  daemon_id :: octets
  stream_pool :: pool
  store :: "nat \<Rightarrow> gdt_stream"
  streams :: "nat list"
  streams_active :: bool
  out_queue :: "nat list"
  out_capacity :: nat
  internal_out_queue :: "nat spsc"
  in_stats :: gdt_stats
  out_stats :: gdt_stats
  client_timestamp :: int
  stream_timeout :: int
  stream_timeout_check :: bool
  reconnect_queued :: bool
  client_callbacks :: callbacks
  direction :: GDTConnectionDirection
  active :: bool
  registered :: bool
  router_flag :: bool
  end_point_type :: octets
  end_point_id :: octets
  ref_counter :: u32
  in_session_id :: u64
  include_body :: bool
  mem_switch :: bool
  gdt_out_message :: gdt_message

abbreviation upd :: "nat \<Rightarrow> (gdt_stream \<Rightarrow> gdt_stream) \<Rightarrow> gdt_client \<Rightarrow> gdt_client" where
  "upd i f c \<equiv> c\<lparr>store := (store c)(i := f (store c i))\<rparr>"

abbreviation upd_payload :: "nat \<Rightarrow> (gdt_payload \<Rightarrow> gdt_payload) \<Rightarrow> gdt_client \<Rightarrow> gdt_client" where
  "upd_payload i f \<equiv> upd i (payload_update f)"

abbreviation payload_of :: "nat \<Rightarrow> gdt_client \<Rightarrow> gdt_payload" where "payload_of i c \<equiv> payload (store c i)"

abbreviation in_stat :: "(gdt_stats \<Rightarrow> gdt_stats) \<Rightarrow> gdt_client \<Rightarrow> gdt_client" where "in_stat \<equiv> in_stats_update"
abbreviation out_stat :: "(gdt_stats \<Rightarrow> gdt_stats) \<Rightarrow> gdt_client \<Rightarrow> gdt_client" where "out_stat \<equiv> out_stats_update"

text \<open>What the methods of the callbacks do.\<close>

type_synonym methods = "nat \<Rightarrow> cb_args \<Rightarrow> gdt_client \<Rightarrow> gdt_client"

section \<open>Pool and flags\<close>

definition inc_refc :: "gdt_client \<Rightarrow> u32 \<times> gdt_client" where
  "inc_refc c = (ref_counter c + 1, c\<lparr>ref_counter := ref_counter c + 1\<rparr>)"

definition dec_refc :: "gdt_client \<Rightarrow> u32 \<times> gdt_client" where
  "dec_refc c = (ref_counter c - 1, c\<lparr>ref_counter := ref_counter c - 1\<rparr>)"

definition allocate_stream_pool :: "gdt_client \<Rightarrow> nat option \<times> gdt_client" where
  "allocate_stream_pool c = (let (o', p) = allocate_constructed (stream_pool c) in (o', c\<lparr>stream_pool := p\<rparr>))"

definition deallocate_stream_pool :: "nat option \<Rightarrow> gdt_client \<Rightarrow> int \<times> gdt_client" where
  "deallocate_stream_pool s c = (if s \<noteq> None
     then (let (r, p) = deallocate_constructed s (stream_pool c) in (int r, c\<lparr>stream_pool := p\<rparr>))
     else (-1, c))"

abbreviation release :: "nat option \<Rightarrow> gdt_client \<Rightarrow> gdt_client" where
  "release s c \<equiv> snd (deallocate_stream_pool s c)"

definition set_activity :: "bool \<Rightarrow> gdt_client \<Rightarrow> gdt_client" where
  "set_activity b c = c\<lparr>active := (if active c = (\<not> b) then b else active c)\<rparr>"

definition set_reg_flag :: "bool \<Rightarrow> gdt_client \<Rightarrow> gdt_client" where
  "set_reg_flag b c = c\<lparr>registered := (if registered c = (\<not> b) then b else registered c)\<rparr>"

section \<open>Queues\<close>

definition push_out_queue :: "nat option \<Rightarrow> gdt_client \<Rightarrow> int \<times> gdt_client" where
  "push_out_queue p c = (case p of None \<Rightarrow> (-1, c)
     | Some i \<Rightarrow> (let (res, q) = ring_push (out_capacity c) i (out_queue c) in (if res then 0 else 1, c\<lparr>out_queue := q\<rparr>)))"

definition pop_out_queue :: "gdt_client \<Rightarrow> nat option \<times> gdt_client" where
  "pop_out_queue c = (let ((_, tmp), q) = ring_pop (out_queue c) in (tmp, c\<lparr>out_queue := q\<rparr>))"

definition push_internal :: "nat \<Rightarrow> gdt_client \<Rightarrow> gdt_client" where
  "push_internal i c = c\<lparr>internal_out_queue := snd (spsc_push True i (internal_out_queue c))\<rparr>"

definition pop_internal :: "gdt_client \<Rightarrow> nat option \<times> gdt_client" where
  "pop_internal c = (let (r, x, q) = spsc_pop (internal_out_queue c) in (if r = 0 then x else None, c\<lparr>internal_out_queue := q\<rparr>))"

section \<open>The stream\<close>

definition inc_sequence_num :: "gdt_stream \<Rightarrow> gdt_stream" where
  "inc_sequence_num s = s\<lparr>sequence_num := sequence_num s + 1\<rparr>"

definition wait_sequence :: "gdt_stream \<Rightarrow> gdt_stream" where "wait_sequence s = s\<lparr>sequence_flag := GDT_SF_CONTINUE_WAIT\<rparr>"
definition end_sequence :: "gdt_stream \<Rightarrow> gdt_stream" where "end_sequence s = s\<lparr>sequence_flag := GDT_SF_END\<rparr>"
definition continue_sequence :: "gdt_stream \<Rightarrow> gdt_stream" where "continue_sequence s = s\<lparr>sequence_flag := GDT_SF_CONTINUE\<rparr>"

definition set_continue_flag :: "gdt_stream \<Rightarrow> gdt_stream" where
  "set_continue_flag s = s\<lparr>out_message := (out_message s)\<lparr>h_seq_flag := (h_seq_flag (out_message s))[0 := sf_continue]\<rparr>\<rparr>"

definition toggle_seq_reply_received :: "gdt_stream \<Rightarrow> gdt_stream" where
  "toggle_seq_reply_received s = s\<lparr>sequence_reply_received := \<not> sequence_reply_received s\<rparr>"

definition set_destination :: "octets option \<Rightarrow> octets option \<Rightarrow> gdt_stream \<Rightarrow> gdt_stream" where
  "set_destination ty i s = (case ty of None \<Rightarrow> s
     | Some t \<Rightarrow> (let s = s\<lparr>destination_type := t\<rparr> in case i of Some d \<Rightarrow> s\<lparr>destination_id := d\<rparr> | None \<Rightarrow> s))"

definition set_uuid :: "octets \<Rightarrow> gdt_stream \<Rightarrow> gdt_stream" where "set_uuid u s = s\<lparr>uuid := take 16 u\<rparr>"

text \<open>\<^verbatim>\<open>reset\<close>: a fresh id (argument \<open>fresh\<close>, from the client's generator) when it is asked for.\<close>

definition reset_stream :: "int \<Rightarrow> octets \<Rightarrow> bool \<Rightarrow> gdt_stream \<Rightarrow> gdt_stream" where
  "reset_stream now fresh reset_uuid s =
     (let s = (if reset_uuid \<and> stream_client s \<noteq> None then s\<lparr>uuid := fresh\<rparr> else s)
      in s\<lparr>sequence_num := 1, sequence_flag := GDT_SF_START, sequence_reply_received := False, destination_id := [],
           destination_type := [], timestamp := now, timed_out := False, linked_stream := None, last_linked_side := None,
           initiator := (if reset_uuid then GDT_SIT_LOCAL else GDT_SIT_REMOTE)\<rparr>)"

definition set_param :: "u32 \<Rightarrow> nat option \<Rightarrow> gdt_stream \<Rightarrow> gdt_stream" where "set_param k v s = s\<lparr>params := (params s)(k := v)\<rparr>"
definition get_param :: "u32 \<Rightarrow> gdt_stream \<Rightarrow> nat option" where "get_param k s = params s k"
definition clear_params :: "gdt_stream \<Rightarrow> gdt_stream" where "clear_params s = s\<lparr>params := (\<lambda>_. None)\<rparr>"

section \<open>The list of active streams\<close>

definition add_stream :: "nat \<Rightarrow> gdt_client \<Rightarrow> gdt_client" where
  "add_stream i c = c\<lparr>streams := streams c @ [i], streams_active := True\<rparr>"

definition stream_exists :: "nat \<Rightarrow> gdt_client \<Rightarrow> bool" where "stream_exists i c \<longleftrightarrow> i \<in> set (streams c)"

text \<open>Only the first occurrence is erased.\<close>

definition remove_stream :: "nat \<Rightarrow> gdt_client \<Rightarrow> gdt_client" where
  "remove_stream i c = (if i \<in> set (streams c)
     then c\<lparr>streams := remove1 i (streams c),
            streams_active := (if remove1 i (streams c) = [] then False else streams_active c)\<rparr>
     else c)"

definition get_stream_count :: "gdt_client \<Rightarrow> nat" where "get_stream_count c = length (streams c)"

definition get_stream_at :: "nat \<Rightarrow> gdt_client \<Rightarrow> nat option" where
  "get_stream_at k c = (if k < length (streams c) then Some (streams c ! k) else None)"

definition get_stream :: "octets option \<Rightarrow> gdt_client \<Rightarrow> nat option" where
  "get_stream u c = (case u of None \<Rightarrow> None | Some d \<Rightarrow> find (\<lambda>i. take 16 (uuid (store c i)) = take 16 d) (streams c))"

section \<open>Starting a stream\<close>

definition create_stream :: "gdt_client \<Rightarrow> nat option \<times> gdt_client" where
  "create_stream c = (case allocate_stream_pool c of (None, c) \<Rightarrow> (None, c)
     | (Some i, c) \<Rightarrow> (Some i, upd i (stream_client_update (\<lambda>_. Some (self c))) c))"

definition opened_stream :: "int \<Rightarrow> octets \<Rightarrow> nat \<Rightarrow> octets option \<Rightarrow> octets option \<Rightarrow> nat option \<Rightarrow> nat option \<Rightarrow> gdt_stream \<Rightarrow> gdt_stream" where
  "opened_stream now fresh me dest_type dest_id on_sent on_reply s =
     (let s = s\<lparr>stream_client := Some me\<rparr>;
          s = reset_stream now fresh True s;
          s = s\<lparr>stream_callbacks := clear_callbacks (stream_callbacks s)\<rparr>;
          s = set_destination dest_type dest_id s;
          s = s\<lparr>stream_callbacks := set_callback GDT_ET_PAYLOAD_SENT on_sent (stream_callbacks s)\<rparr>
      in s\<lparr>stream_callbacks := set_callback GDT_ET_STREAM_NEXT on_reply (stream_callbacks s)\<rparr>)"

definition new_stream :: "int \<Rightarrow> octets \<Rightarrow> octets option \<Rightarrow> octets option \<Rightarrow> nat option \<Rightarrow> nat option \<Rightarrow> gdt_client \<Rightarrow> nat option \<times> gdt_client" where
  "new_stream now fresh dest_type dest_id on_sent on_reply c =
     (if dest_type = None then (None, c)
      else case allocate_stream_pool c of (None, c) \<Rightarrow> (None, c)
       | (Some i, c) \<Rightarrow> (Some i, add_stream i (upd i (opened_stream now fresh (self c) dest_type dest_id on_sent on_reply) c)))"

lemma opened_fields [simp]:
  "uuid (opened_stream now fresh me ty did on_sent on_reply s) = fresh"
  "sequence_num (opened_stream now fresh me ty did on_sent on_reply s) = 1"
  "\<not> sequence_reply_received (opened_stream now fresh me ty did on_sent on_reply s)"
  "linked_stream (opened_stream now fresh me ty did on_sent on_reply s) = None"
  "sequence_flag (opened_stream now fresh me ty did on_sent on_reply s) = GDT_SF_START"
  "stream_callbacks (opened_stream now fresh me ty did on_sent (Some m) s) GDT_ET_STREAM_NEXT = Some m"
  "payload (opened_stream now fresh me ty did on_sent on_reply s) = payload s"
  by (simp_all add: opened_stream_def Let_def reset_stream_def set_destination_def set_callback_def split: option.split)

text \<open>\<^verbatim>\<open>GDTStream::send\<close>: the result of the push is not looked at.\<close>

definition send_stream :: "bool \<Rightarrow> nat \<Rightarrow> gdt_client \<Rightarrow> gdt_client" where
  "send_stream with_body i c =
     (let s = store c i;
          m = generate_stream_header (daemon_type c) (daemon_id c) (uuid s) (sequence_num s) (sequence_flag s) with_body
                (destination_type s) (if destination_id s = [] then None else Some (destination_id s)) (out_message s);
          p = (payload s)\<lparr>free_on_send := False, p_out := True, gdt_stream_type := GDT_ST_STATEFUL,
                payload_client := stream_client s, sctp_sid := 0,
                payload_callbacks := set_callback GDT_ET_PAYLOAD_SENT
                  (get_callback GDT_ET_PAYLOAD_SENT (stream_callbacks s)) (clear_callbacks (payload_callbacks (payload s))),
                raw_data := m\<rparr>
      in snd (push_out_queue (Some i) (upd i (\<lambda>s. s\<lparr>out_message := m, payload := p\<rparr>) c)))"

text \<open>
  \<^verbatim>\<open>send_datagram\<close>, for a body that is already chosen: with a callback for the reply the stream
  waits among the active ones, without it the stream is given back once it is sent.
\<close>

definition send_datagram :: "int \<Rightarrow> octets \<Rightarrow> (nat \<times> octets) \<Rightarrow> nat option \<Rightarrow> nat option \<Rightarrow> octets \<Rightarrow> octets \<Rightarrow> gdt_client \<Rightarrow> nat \<times> gdt_client" where
  "send_datagram now fresh body on_sent on_reply dest_type dest_id c =
     (case allocate_stream_pool c of (None, c) \<Rightarrow> (1, c)
      | (Some i, c) \<Rightarrow>
         (let s = (store c i)\<lparr>stream_callbacks := clear_callbacks (stream_callbacks (store c i))\<rparr>;
              s = reset_stream now fresh True s;
              m = (out_message s)\<lparr>m_body := Some body, h_status := None, h_version := [GDT_VERSION], h_src_id := Some (daemon_id c),
                    h_src_type := daemon_type c, h_dst_id := Some dest_id, h_dst_type := dest_type, h_uuid := uuid s,
                    h_seq_num := be_octets 4 1\<rparr>;
              (m, p, s, c) = (case on_reply of
                  None \<Rightarrow> (m\<lparr>h_seq_flag := [sf_stateless_no_reply]\<rparr>,
                           (payload s)\<lparr>free_on_send := True, gdt_stream_type := GDT_ST_STATELESS_NO_REPLY\<rparr>, s, c)
                | Some cb \<Rightarrow> (m\<lparr>h_seq_flag := [sf_stateless]\<rparr>,
                           (payload s)\<lparr>free_on_send := False, sctp_sid := 0, gdt_stream_type := GDT_ST_STATELESS\<rparr>,
                           s\<lparr>stream_callbacks := set_callback GDT_ET_STREAM_END (Some cb) (stream_callbacks s),
                             sequence_flag := GDT_SF_STATELESS\<rparr>, add_stream i c));
              p = p\<lparr>raw_data := m, payload_client := Some (self c), payload_callbacks := clear_callbacks (payload_callbacks p)\<rparr>;
              s = s\<lparr>out_message := m, payload := p,
                    stream_callbacks := set_callback GDT_ET_PAYLOAD_SENT on_sent (stream_callbacks s)\<rparr>
          in (0, snd (push_out_queue (Some i) (upd i (\<lambda>_. s) c)))))"

end
