(* ===== verification/GdtOutput.thy ===== *)
theory GdtOutput
  imports GdtStream
begin

text \<open>
  What the output thread of a GDT client does (\<^verbatim>\<open>GDTOutLoop\<close> and \<^verbatim>\<open>GDTTimeoutThread\<close> in
  gdt.cpp): the callbacks and their arguments, the two passes of \<^verbatim>\<open>process_timeout\<close>, one round of the
  output loop, the draining of the queues and the start of a reconnection.
\<close>

section \<open>Callbacks of a stream and of the client\<close>

definition client_args :: "gdt_client \<Rightarrow> cb_args" where
  "client_args c = add_arg GDT_CB_INPUT_ARGS GDT_CB_ARG_CLIENT (Some (Arg_client (self c))) (clear_all_args new_args)"

definition stream_args :: "nat \<Rightarrow> gdt_client \<Rightarrow> cb_args" where
  "stream_args i c = add_arg GDT_CB_INPUT_ARGS GDT_CB_ARG_STREAM (Some (Arg_stream i)) (client_args c)"

definition stream_callback :: "methods \<Rightarrow> GDTEventType \<Rightarrow> cb_args \<Rightarrow> nat \<Rightarrow> gdt_client \<Rightarrow> gdt_client" where
  "stream_callback run ty a i c = snd (process_callback run ty a (stream_callbacks (store c i)) c)"

definition client_callback :: "methods \<Rightarrow> GDTEventType \<Rightarrow> cb_args \<Rightarrow> gdt_client \<Rightarrow> gdt_client" where
  "client_callback run ty a c = snd (process_callback run ty a (client_callbacks c) c)"

section \<open>Timeouts\<close>

text \<open>The timeout thread: once a second, \<open>secs\<close> counts the seconds since the last check.\<close>

definition timeout_tick :: "int \<Rightarrow> gdt_client \<Rightarrow> int \<times> gdt_client" where
  "timeout_tick secs c = (if secs + 1 < stream_timeout c then (secs + 1, c)
     else (0, c\<lparr>stream_timeout_check := (if \<not> stream_timeout_check c then True else stream_timeout_check c)\<rparr>))"

text \<open>
  The first pass of \<^verbatim>\<open>process_timeout\<close>, over a copy of the list: a stream whose payload waits in
  the output queue is skipped; an overdue one is marked, with the stream linked to it, and the
  callbacks of both run.
\<close>

definition timeout_mark :: "methods \<Rightarrow> int \<Rightarrow> nat \<Rightarrow> gdt_client \<Rightarrow> gdt_client" where
  "timeout_mark run now i c =
     (if p_out (payload_of i c) then c
      else if now - timestamp (store c i) \<ge> stream_timeout c then
        (let c = upd i (timed_out_update (\<lambda>_. True)) c;
             c = (case linked_stream (store c i) of Some j \<Rightarrow> upd j (timed_out_update (\<lambda>_. True)) c | None \<Rightarrow> c);
             c = stream_callback run GDT_ET_STREAM_TIMEOUT (stream_args i c) i c;
             c = (case linked_stream (store c i) of
                    Some j \<Rightarrow> stream_callback run GDT_ET_STREAM_TIMEOUT (stream_args j c) j c | None \<Rightarrow> c)
         in if initiator (store c i) = GDT_SIT_LOCAL then out_stat (strm_timeout_update (add 1)) c
            else in_stat (strm_timeout_update (add 1)) c)
      else c)"

text \<open>The second pass: the streams that stay, and the client with the others back in its pool.\<close>

fun timeout_sweep :: "nat list \<Rightarrow> gdt_client \<Rightarrow> nat list \<times> gdt_client" where
  "timeout_sweep [] c = ([], c)"
| "timeout_sweep (i # is) c =
     (if timed_out (store c i)
      then timeout_sweep is (release (Some i)
             (if linked_stream (store c i) \<noteq> None then release (linked_stream (store c i)) c else c))
      else (let (ks, c) = timeout_sweep is c in (i # ks, c)))"

abbreviation (input) time_max :: int where "time_max \<equiv> 2 ^ 63 - 1"

definition process_timeout :: "methods \<Rightarrow> bool \<Rightarrow> int \<Rightarrow> gdt_client \<Rightarrow> gdt_client" where
  "process_timeout run override now c =
     (let due = stream_timeout_check c;
          c = c\<lparr>stream_timeout_check := False\<rparr>
      in if due \<or> override
         then (let c = fold (timeout_mark run (if override then time_max else now)) (streams c) c;
                   (ks, c) = timeout_sweep (streams c) c
               in c\<lparr>streams := ks, streams_active := (if ks = [] then False else streams_active c)\<rparr>)
         else c)"

section \<open>The output thread\<close>

text \<open>
  \<^verbatim>\<open>out_process\<close>: what the socket returned and the length of the encoded payload are arguments.
\<close>

definition out_process :: "methods \<Rightarrow> int \<Rightarrow> u64 \<Rightarrow> nat \<Rightarrow> gdt_client \<Rightarrow> gdt_client" where
  "out_process run res len i c =
     (let c = (if res = 0
        then stream_callback run GDT_ET_PAYLOAD_SENT
               (add_arg GDT_CB_INPUT_ARGS GDT_CB_ARG_PAYLOAD (Some (Arg_payload i)) (clear_all_args new_args)) i
               (out_stat (\<lambda>s. bytes_update (add len) (packets_update (add 1) s)) c)
        else (out_stat (socket_errors_update (add 1)) c)
               \<lparr>reconnect_queued := (if \<not> reconnect_queued c then True else reconnect_queued c)\<rparr>)
      in if free_on_send (payload_of i c) then release (Some i) c
         else upd_payload i (p_out_update (\<lambda>_. False)) c)"

text \<open>One round of \<^verbatim>\<open>out_loop\<close>: the internal queue, then the other one.\<close>

definition out_round :: "methods \<Rightarrow> int \<times> u64 \<Rightarrow> int \<times> u64 \<Rightarrow> gdt_client \<Rightarrow> gdt_client" where
  "out_round run r1 r2 c =
     (let c = (case pop_internal c of (Some i, c) \<Rightarrow> out_process run (fst r1) (snd r1) i c | (None, c) \<Rightarrow> c)
      in case pop_out_queue c of (Some i, c) \<Rightarrow> out_process run (fst r2) (snd r2) i c | (None, c) \<Rightarrow> c)"

text \<open>What \<^verbatim>\<open>remove_client\<close> does with the queues of a client that goes: they are emptied.\<close>

definition drain_payload :: "nat \<Rightarrow> gdt_client \<Rightarrow> gdt_client" where
  "drain_payload i c = (if free_on_send (payload_of i c)
     then release (Some i) (if linked_stream (store c i) \<noteq> None then release (linked_stream (store c i)) c else c)
     else c)"

text \<open>The loop ends when the queue is empty: one round more than the queue has slots is enough.\<close>

fun drain_internal :: "nat \<Rightarrow> gdt_client \<Rightarrow> gdt_client" where
  "drain_internal 0 c = c"
| "drain_internal (Suc k) c = (case pop_internal c of (Some i, c) \<Rightarrow> drain_internal k (drain_payload i c) | (None, c) \<Rightarrow> c)"

fun drain_external :: "nat \<Rightarrow> gdt_client \<Rightarrow> gdt_client" where
  "drain_external 0 c = c"
| "drain_external (Suc k) c = (case pop_out_queue c of (Some i, c) \<Rightarrow> drain_external k (drain_payload i c) | (None, c) \<Rightarrow> c)"

definition drain_queues :: "gdt_client \<Rightarrow> gdt_client" where
  "drain_queues c = (let c = drain_internal (Suc (QSIZE (internal_out_queue c))) c in drain_external (Suc (length (out_queue c))) c)"

text \<open>
  \<^verbatim>\<open>init_reconnect\<close>: an outbound client connects again (argument \<open>reconnect\<close>, the socket layer
  and the registration thread), any other is made inactive.
\<close>

definition init_reconnect :: "methods \<Rightarrow> (gdt_client \<Rightarrow> gdt_client) \<Rightarrow> gdt_client \<Rightarrow> gdt_client" where
  "init_reconnect run reconnect c =
     (let c = set_reg_flag False c
      in if direction c = GDT_CD_OUTBOUND then reconnect (client_callback run GDT_ET_CLIENT_RECONNECTING (client_args c) c)
         else set_activity False c)"

end
