(* ===== verification/GdtMachine.thy ===== *)
theory GdtMachine
  imports GdtOutput
begin

text \<open>
  The state machine of a connection (\<^verbatim>\<open>GDTStateMachine\<close> of \<^verbatim>\<open>src/src/gdt/gdt.cpp\<close>): what a
  client does with a decoded message that is for this daemon. Every operation takes \<open>run\<close> (what
  the callbacks do), the time, the length of the packet, the SCTP stream it came on and the
  message. Arguments that a method adds to its \<^verbatim>\<open>GDTCallbackArgs\<close> are not seen by later methods.
\<close>

section \<open>Arguments of the callbacks\<close>

definition message_args :: "gdt_message \<Rightarrow> gdt_client \<Rightarrow> cb_args \<Rightarrow> cb_args" where
  "message_args oh c a = add_arg GDT_CB_INPUT_ARGS GDT_CB_ARG_IN_MSG_ID (Some (Arg_session (in_session_id c)))
     (add_arg GDT_CB_INPUT_ARGS GDT_CB_ARG_IN_MSG (Some (Arg_message oh)) a)"

definition reply_args :: "cb_args \<Rightarrow> cb_args" where
  "reply_args a = add_arg GDT_CB_INPUT_ARGS GDT_CB_ARG_MEM_SWITCH (Some Arg_mem_switch)
     (add_arg GDT_CB_INPUT_ARGS GDT_CB_ARG_BODY (Some Arg_include_body) a)"

section \<open>Answers\<close>

text \<open>
  An error answer on a stream taken from the pool for it; the code that allocates it sets the time
  and the type of the stream in some places only.
\<close>

definition reply_err :: "int option \<Rightarrow> GDTStreamType option \<Rightarrow> u32 \<Rightarrow> gdt_message \<Rightarrow> u8 option \<Rightarrow> (octets \<times> octets) option \<Rightarrow>
    u8 \<Rightarrow> nat \<Rightarrow> gdt_client \<Rightarrow> gdt_client" where
  "reply_err stamp ty sid oh flag src code i c =
     (let s = store c i;
          s = s\<lparr>timestamp := (case stamp of Some t \<Rightarrow> t | None \<Rightarrow> timestamp s),
                stream_callbacks := clear_callbacks (stream_callbacks s), linked_stream := None\<rparr>;
          m = generate_err (daemon_id c) oh flag src code (gdt_out_message c);
          p = payload s;
          p = p\<lparr>free_on_send := True, gdt_stream_type := (case ty of Some t \<Rightarrow> t | None \<Rightarrow> gdt_stream_type p),
                payload_client := Some (self c), sctp_sid := sid, payload_callbacks := clear_callbacks (payload_callbacks p),
                raw_data := m\<rparr>
      in upd i (\<lambda>_. s\<lparr>payload := p\<rparr>) (c\<lparr>gdt_out_message := m\<rparr>))"

text \<open>The stream is allocated, answered on and queued; without one only the failure is counted.\<close>

definition answer :: "int option \<Rightarrow> GDTStreamType option \<Rightarrow> u32 \<Rightarrow> gdt_message \<Rightarrow> u8 option \<Rightarrow> (octets \<times> octets) option \<Rightarrow>
    u8 \<Rightarrow> gdt_client \<Rightarrow> gdt_client" where
  "answer stamp ty sid oh flag src code c =
     (case allocate_stream_pool c of
        (None, c) \<Rightarrow> in_stat (strm_alloc_errors_update (add 1)) c
      | (Some i, c) \<Rightarrow> push_internal i (reply_err stamp ty sid oh flag src code i c))"

text \<open>\<^verbatim>\<open>generate_err_unkn_strm\<close> and the push of its payload.\<close>

definition unknown_stream :: "u32 \<Rightarrow> gdt_message \<Rightarrow> gdt_client \<Rightarrow> gdt_client" where
  "unknown_stream sid oh c =
     answer None (Some GDT_ST_UNKNOWN) sid oh None None err_unknown_sequence (in_stat (stream_errors_update (add 1)) c)"

text \<open>\<^verbatim>\<open>generate_err_uos\<close>: the answer to a message out of sequence, on the stream itself.\<close>

definition generate_err_uos :: "methods \<Rightarrow> u32 \<Rightarrow> gdt_message \<Rightarrow> nat \<Rightarrow> gdt_client \<Rightarrow> gdt_client" where
  "generate_err_uos run sid oh i c =
     (let m = generate_err (daemon_id c) oh None None err_out_of_sequence (out_message (store c i));
          c = upd i (\<lambda>s. s\<lparr>out_message := m, payload := (payload s)\<lparr>sctp_sid := sid, raw_data := m\<rparr>\<rparr>) c
      in stream_callback run GDT_ET_STREAM_END (message_args oh c (stream_args i c)) i c)"

definition generate_ack :: "gdt_message \<Rightarrow> nat \<Rightarrow> gdt_client \<Rightarrow> gdt_client" where
  "generate_ack oh i c =
     (let s = store c i;
          m = ack_message (daemon_type c) (daemon_id c) oh (sequence_num s) (sequence_flag s) (sequence_reply_received s)
                (include_body c) (out_message s);
          s = s\<lparr>out_message := m, payload := (payload s)\<lparr>raw_data := m\<rparr>\<rparr>
      in upd i (\<lambda>_. if sequence_flag s = GDT_SF_CONTINUE_WAIT then inc_sequence_num s else s) c)"

text \<open>The payload of a stream that is dropped, or kept, after an error.\<close>

definition err_payload :: "bool \<Rightarrow> gdt_payload \<Rightarrow> gdt_payload" where
  "err_payload remove p = p\<lparr>free_on_send := remove, p_out := (if \<not> remove then True else p_out p)\<rparr>"

section \<open>Packets of a stream\<close>

text \<open>The branch for a message out of sequence, with the stream dropped or kept.\<close>

definition out_of_sequence :: "methods \<Rightarrow> u32 \<Rightarrow> gdt_message \<Rightarrow> bool \<Rightarrow> nat \<Rightarrow> gdt_client \<Rightarrow> gdt_client" where
  "out_of_sequence run sid oh remove i c =
     (let c = in_stat (stream_errors_update (add 1)) c;
          c = generate_err_uos run sid oh i (upd_payload i (err_payload remove) c);
          c = (if remove then remove_stream i c else c)
      in push_internal i c)"

definition expected :: "gdt_message \<Rightarrow> nat \<Rightarrow> gdt_client \<Rightarrow> bool" where
  "expected oh i c \<longleftrightarrow> validate_seq_num (h_seq_num oh) (sequence_num (store c i))"

definition step_number :: "gdt_stream \<Rightarrow> gdt_stream" where
  "step_number s = (if sequence_reply_received s then inc_sequence_num s else s)"

definition process_sf_stream_complete :: "methods \<Rightarrow> int \<Rightarrow> u64 \<Rightarrow> gdt_message \<Rightarrow> nat \<Rightarrow> gdt_client \<Rightarrow> gdt_client" where
  "process_sf_stream_complete run now len oh i c =
     (let c = upd i (timestamp_update (\<lambda>_. now)) c;
          c = (if expected oh i c then in_stat (stream_bytes_update (add len)) c else in_stat (stream_errors_update (add 1)) c)
      in stream_callback run GDT_ET_STREAM_END (message_args oh c (stream_args i c)) i c)"

definition process_sf_end :: "methods \<Rightarrow> int \<Rightarrow> u64 \<Rightarrow> u32 \<Rightarrow> gdt_message \<Rightarrow> bool \<Rightarrow> nat \<Rightarrow> gdt_client \<Rightarrow> gdt_client" where
  "process_sf_end run now len sid oh remove i c =
     (if expected oh i c then
        (let c = in_stat (stream_bytes_update (add len)) c;
             c = upd i (\<lambda>s. toggle_seq_reply_received (s\<lparr>timestamp := now, sequence_flag := GDT_SF_END\<rparr>)) c;
             c = stream_callback run GDT_ET_STREAM_END (message_args oh c (stream_args i c)) i c;
             c = upd i step_number c;
             c = upd_payload i (\<lambda>p. (err_payload remove p)\<lparr>sctp_sid := sid\<rparr>) c;
             m = generate_stream_complete oh (sequence_num (store c i)) (out_message (store c i));
             c = upd i (\<lambda>s. s\<lparr>out_message := m, payload := (payload s)\<lparr>raw_data := m\<rparr>, sequence_flag := GDT_SF_END\<rparr>) c;
             c = (if remove then remove_stream i c else c)
         in push_internal i c)
      else out_of_sequence run sid oh remove i c)"

definition process_sf_continue :: "methods \<Rightarrow> int \<Rightarrow> u64 \<Rightarrow> u32 \<Rightarrow> gdt_message \<Rightarrow> bool \<Rightarrow> nat \<Rightarrow> gdt_client \<Rightarrow> gdt_client" where
  "process_sf_continue run now len sid oh remove i c =
     (if expected oh i c then
        (let c = in_stat (stream_bytes_update (add len)) c;
             c = upd i (\<lambda>s. (toggle_seq_reply_received (s\<lparr>timestamp := now\<rparr>))\<lparr>sequence_flag := GDT_SF_UNKNOWN\<rparr>) c;
             c = stream_callback run GDT_ET_STREAM_NEXT (reply_args (message_args oh c (stream_args i c))) i c;
             c = upd i step_number c;
             c = upd_payload i (sctp_sid_update (\<lambda>_. sid)) c;
             c = generate_ack oh i c;
             c = upd_payload i (\<lambda>p. p\<lparr>free_on_send := False, p_out := True\<rparr>) c;
             c = upd i toggle_seq_reply_received c;
             c = upd i step_number c
         in push_internal i c)
      else out_of_sequence run sid oh remove i c)"

section \<open>The handlers\<close>

text \<open>
  A stream with a linked one (a stream of this daemon to itself) has two sides that share the id;
  they take the packets in turn. \<open>sides\<close> runs \<open>f\<close> on the side whose turn it is.
\<close>

definition sides :: "(bool \<Rightarrow> nat \<Rightarrow> gdt_client \<Rightarrow> gdt_client) \<Rightarrow> nat \<Rightarrow> gdt_client \<Rightarrow> gdt_client" where
  "sides f i c = (case linked_stream (store c i) of
     None \<Rightarrow> f True i c
   | Some j \<Rightarrow>
       if last_linked_side (store c i) = Some i
       then (let c = f False j c in upd i (last_linked_side_update (\<lambda>_. linked_stream (store c i))) c)
       else (let c = f False i c in upd i (last_linked_side_update (\<lambda>_. Some i)) c))"

definition handle_heartbeat :: "methods \<Rightarrow> int \<Rightarrow> u64 \<Rightarrow> u32 \<Rightarrow> gdt_message \<Rightarrow> gdt_client \<Rightarrow> gdt_client" where
  "handle_heartbeat run now len sid oh c =
     (case get_stream (Some (h_uuid oh)) c of
        Some i \<Rightarrow>
          (let event = (\<lambda>ty c. stream_callback run ty (client_args c) i (client_callback run ty (client_args c) c));
               c = (if expected oh i c
                    then (let c = in_stat (\<lambda>s. stream_bytes_update (add len) (strms_update (add 1) s)) c
                          in case h_status oh of
                               Some st \<Rightarrow> event (if hd st \<noteq> 0 then GDT_ET_HEARTBEAT_MISSED else GDT_ET_HEARTBEAT_RECEIVED) c
                             | None \<Rightarrow> c)
                    else event GDT_ET_HEARTBEAT_MISSED (in_stat (stream_errors_update (add 1)) c))
           in release (Some i) (remove_stream i c))
      | None \<Rightarrow>
          if h_status oh \<noteq> None then c
          else case allocate_stream_pool c of
            (None, c) \<Rightarrow> in_stat (strm_alloc_errors_update (add 1)) c
          | (Some i, c) \<Rightarrow>
             (let c = upd i (\<lambda>s. let s = s\<lparr>timestamp := now, stream_callbacks := clear_callbacks (stream_callbacks s)\<rparr>;
                                     s = (reset_stream now [] False s)\<lparr>stream_client := Some (self c)\<rparr>;
                                     p = payload s
                                 in s\<lparr>payload := p\<lparr>free_on_send := True, gdt_stream_type := GDT_ST_STATEFUL, payload_client := Some (self c),
                                        sctp_sid := sid, payload_callbacks := clear_callbacks (payload_callbacks p)\<rparr>,
                                      sequence_flag := GDT_SF_HEARTBEAT\<rparr>) c
              in push_internal i (generate_ack oh i c)))"

definition handle_stateless :: "methods \<Rightarrow> int \<Rightarrow> u64 \<Rightarrow> u32 \<Rightarrow> gdt_message \<Rightarrow> gdt_client \<Rightarrow> gdt_client" where
  "handle_stateless run now len sid oh c =
     (let c = in_stat (\<lambda>s. datagram_bytes_update (add len) (datagrams_update (add 1) s)) c;
          ok = validate_seq_num (h_seq_num oh) 1;
          c = (if ok then c else in_stat (datagram_errors_update (add 1)) c)
      in case allocate_stream_pool c of
           (None, c) \<Rightarrow> in_stat (strm_alloc_errors_update (add 1)) c
         | (Some i, c) \<Rightarrow>
            (let c = reply_err (Some now) (Some GDT_ST_STATELESS) sid oh None None (if ok then err_ok else err_out_of_sequence) i c;
                 c = client_callback run GDT_ET_DATAGRAM (message_args oh c (client_args c)) c
             in push_internal i c))"

text \<open>
  The start of a stream. When the id is that of a stream started here and not linked yet, the
  message has come back to its sender and the new stream is linked to the old one.
\<close>

definition accepted_stream :: "int \<Rightarrow> gdt_message \<Rightarrow> nat \<Rightarrow> gdt_stream \<Rightarrow> gdt_stream" where
  "accepted_stream now oh me s =
     (let s = set_uuid (h_uuid oh) (s\<lparr>timestamp := now\<rparr>);
          s = s\<lparr>stream_callbacks := clear_callbacks (stream_callbacks s)\<rparr>
      in (reset_stream now [] False s)\<lparr>stream_client := Some me\<rparr>)"

definition start_stream :: "methods \<Rightarrow> int \<Rightarrow> u32 \<Rightarrow> gdt_message \<Rightarrow> bool \<Rightarrow> nat \<Rightarrow> gdt_client \<Rightarrow> gdt_client" where
  "start_stream run now sid oh loopback i c =
     (let c = upd i (accepted_stream now oh (self c)) c;
          c = (if \<not> loopback then add_stream i c else c);
          c = upd i (\<lambda>s. let p = payload s
                         in s\<lparr>payload := p\<lparr>free_on_send := False, p_out := True, gdt_stream_type := GDT_ST_STATEFUL,
                                payload_client := Some (self c), sctp_sid := sid, payload_callbacks := clear_callbacks (payload_callbacks p)\<rparr>,
                              sequence_flag := GDT_SF_UNKNOWN\<rparr>) c;
          c = client_callback run GDT_ET_STREAM_NEW (add_arg GDT_CB_INPUT_ARGS GDT_CB_ARG_STREAM (Some (Arg_stream i))
                (reply_args (message_args oh c (client_args c)))) c;
          c = generate_ack oh i c;
          c = upd i (\<lambda>s. inc_sequence_num (toggle_seq_reply_received s)) c
      in push_internal i c)"

definition handle_start :: "methods \<Rightarrow> int \<Rightarrow> u64 \<Rightarrow> u32 \<Rightarrow> gdt_message \<Rightarrow> gdt_client \<Rightarrow> gdt_client" where
  "handle_start run now len sid oh c =
     (if validate_seq_num (h_seq_num oh) 1 then
        (let c = in_stat (\<lambda>s. stream_bytes_update (add len) (strms_update (add 1) s)) c
         in case get_stream (Some (h_uuid oh)) c of
              Some i \<Rightarrow>
                if linked_stream (store c i) = None \<and> initiator (store c i) = GDT_SIT_LOCAL
                then (case allocate_stream_pool c of
                        (None, c) \<Rightarrow> in_stat (strm_alloc_errors_update (add 1)) c
                      | (Some j, c) \<Rightarrow>
                         (let c = upd i (\<lambda>s. s\<lparr>linked_stream := Some j, last_linked_side := Some j\<rparr>) c
                          in start_stream run now sid oh True j (in_stat (strm_loopback_update (add 1)) c)))
                else c
            | None \<Rightarrow>
                (case allocate_stream_pool c of
                   (None, c) \<Rightarrow> in_stat (strm_alloc_errors_update (add 1)) c
                 | (Some j, c) \<Rightarrow> start_stream run now sid oh False j c))
      else answer None None sid oh None None err_out_of_sequence (in_stat (stream_errors_update (add 1)) c))"

definition handle_continue :: "methods \<Rightarrow> int \<Rightarrow> u64 \<Rightarrow> u32 \<Rightarrow> gdt_message \<Rightarrow> gdt_client \<Rightarrow> gdt_client" where
  "handle_continue run now len sid oh c = (case get_stream (Some (h_uuid oh)) c of
     Some i \<Rightarrow> sides (process_sf_continue run now len sid oh) i c | None \<Rightarrow> unknown_stream sid oh c)"

definition handle_continue_wait :: "methods \<Rightarrow> int \<Rightarrow> u64 \<Rightarrow> u32 \<Rightarrow> gdt_message \<Rightarrow> gdt_client \<Rightarrow> gdt_client" where
  "handle_continue_wait run now len sid oh c = (case get_stream (Some (h_uuid oh)) c of
     Some i \<Rightarrow>
       if expected oh i c
       then upd i (\<lambda>s. s\<lparr>timestamp := now, sequence_flag := GDT_SF_CONTINUE_WAIT\<rparr>) (in_stat (stream_bytes_update (add len)) c)
       else (let c = in_stat (stream_errors_update (add 1)) c;
                 c = upd i (\<lambda>s. s\<lparr>linked_stream := None, payload := (payload s)\<lparr>free_on_send := True\<rparr>\<rparr>) c
             in push_internal i (remove_stream i (generate_err_uos run sid oh i c)))
   | None \<Rightarrow> unknown_stream sid oh c)"

definition handle_end :: "methods \<Rightarrow> int \<Rightarrow> u64 \<Rightarrow> u32 \<Rightarrow> gdt_message \<Rightarrow> gdt_client \<Rightarrow> gdt_client" where
  "handle_end run now len sid oh c = (case get_stream (Some (h_uuid oh)) c of
     Some i \<Rightarrow> sides (process_sf_end run now len sid oh) i c | None \<Rightarrow> unknown_stream sid oh c)"

definition handle_stream_complete :: "methods \<Rightarrow> int \<Rightarrow> u64 \<Rightarrow> gdt_message \<Rightarrow> gdt_client \<Rightarrow> gdt_client" where
  "handle_stream_complete run now len oh c = (case get_stream (Some (h_uuid oh)) c of
     Some i \<Rightarrow>
       (let c = sides (\<lambda>_. process_sf_stream_complete run now len oh) i c;
            c = remove_stream i c;
            c = (case linked_stream (store c i) of Some j \<Rightarrow> release (Some j) (remove_stream j c) | None \<Rightarrow> c)
        in release (Some i) c)
   | None \<Rightarrow> c)"

definition handle_no_reply :: "methods \<Rightarrow> u64 \<Rightarrow> gdt_message \<Rightarrow> gdt_client \<Rightarrow> gdt_client" where
  "handle_no_reply run len oh c =
     (let c = in_stat (\<lambda>s. datagrams_update (add 1) (datagram_bytes_update (add len) s)) c
      in client_callback run GDT_ET_DATAGRAM (message_args oh c (client_args c)) c)"

text \<open>The part of \<^verbatim>\<open>run\<close> that follows routing, for a message that is for this client.\<close>

definition handle_message :: "methods \<Rightarrow> int \<Rightarrow> u64 \<Rightarrow> u32 \<Rightarrow> gdt_message \<Rightarrow> gdt_client \<Rightarrow> gdt_client" where
  "handle_message run now len sid oh c =
     (let c = c\<lparr>include_body := False, mem_switch := False, client_timestamp := now\<rparr>;
          flag = hd (h_seq_flag oh)
      in if flag = sf_heartbeat then handle_heartbeat run now len sid oh c
         else if flag = sf_stateless then handle_stateless run now len sid oh c
         else if flag = sf_start then handle_start run now len sid oh c
         else if flag = sf_continue then handle_continue run now len sid oh c
         else if flag = sf_continue_wait then handle_continue_wait run now len sid oh c
         else if flag = sf_end then handle_end run now len sid oh c
         else if flag = sf_stream_complete then handle_stream_complete run now len oh c
         else if flag = sf_stateless_no_reply then handle_no_reply run len oh c
         else c)"

end
