(* ===== verification/GdtOwner.thy ===== *)
theory GdtOwner
  imports GdtMachine
begin

text \<open>
  Who owns a stream. A stream of the pool of a client is free, active, linked to an active one, or
  waiting in an output queue to be given back once it is sent; a handler that runs holds the
  streams it has taken. \<open>holds n hs c\<close> says that these are disjoint while a handler holds \<open>hs\<close>; the
  rules for the operations follow the way the handlers use them.
\<close>

definition linked_streams :: "gdt_client \<Rightarrow> nat list" where
  "linked_streams c = List.map_filter (\<lambda>i. linked_stream (store c i)) (streams c)"

definition queued :: "gdt_client \<Rightarrow> nat list" where
  "queued c = spsc_content (internal_out_queue c) @ out_queue c"

definition leaving :: "gdt_client \<Rightarrow> nat list" where
  "leaving c = filter (\<lambda>i. free_on_send (payload_of i c)) (queued c)"

definition owned :: "gdt_client \<Rightarrow> nat list" where
  "owned c = constructed_free (stream_pool c) @ streams c @ linked_streams c @ leaving c"

definition all_once :: "nat \<Rightarrow> nat list \<Rightarrow> bool" where
  "all_once n xs \<longleftrightarrow> distinct xs \<and> set xs \<subseteq> {..<n}"

definition queue_ok :: "gdt_client \<Rightarrow> bool" where
  "queue_ok c \<longleftrightarrow> distinct (queued c) \<and> (\<forall>i \<in> set (queued c). free_on_send (payload_of i c) \<or>
     p_out (payload_of i c) \<and> (i \<in> set (streams c) \<or> i \<in> set (linked_streams c)))"

definition holds :: "nat \<Rightarrow> nat list \<Rightarrow> gdt_client \<Rightarrow> bool" where
  "holds n hs c \<longleftrightarrow> constructed_invar (stream_pool c) \<and> spsc_invar (internal_out_queue c) \<and> chunk_count (stream_pool c) = n \<and>
     all_once n (hs @ owned c) \<and> set hs \<inter> set (queued c) = {} \<and> queue_ok c"

text \<open>What ownership depends on: callbacks that leave it alone.\<close>

definition same_view :: "gdt_client \<Rightarrow> gdt_client \<Rightarrow> bool" where
  "same_view c c' \<longleftrightarrow> stream_pool c' = stream_pool c \<and> streams c' = streams c \<and> out_queue c' = out_queue c \<and>
     internal_out_queue c' = internal_out_queue c \<and>
     (\<forall>i. linked_stream (store c' i) = linked_stream (store c i) \<and> free_on_send (payload_of i c') = free_on_send (payload_of i c) \<and>
          p_out (payload_of i c') = p_out (payload_of i c))"

definition tame :: "methods \<Rightarrow> bool" where
  "tame run \<longleftrightarrow> (\<forall>m a c. same_view c (run m a c))"

section \<open>Rules\<close>

lemma map_filter_cong: "(\<And>i. i \<in> set xs \<Longrightarrow> f i = g i) \<Longrightarrow> List.map_filter f xs = List.map_filter g xs"
proof (induction xs)
  case (Cons a xs)
  then have "f a = g a" "List.map_filter f xs = List.map_filter g xs" by simp_all
  then show ?case by (cases "g a") (simp_all add: List.map_filter_simps)
qed (simp add: List.map_filter_simps)

lemma all_once_mset: "mset xs = mset ys \<Longrightarrow> all_once n xs = all_once n ys"
  unfolding all_once_def by (metis mset_eq_imp_distinct_iff mset_eq_setD)

lemma view_refl [simp]: "same_view c c" by (simp add: same_view_def)

lemma view_trans: "same_view a b \<Longrightarrow> same_view b c \<Longrightarrow> same_view a c" by (auto simp: same_view_def)

lemmas owner_defs = owned_def leaving_def queued_def linked_streams_def

lemma view_holds: "same_view c c' \<Longrightarrow> holds n hs c \<Longrightarrow> holds n hs c'"
  by (simp add: same_view_def holds_def queue_ok_def owner_defs)

lemma stream_callback_view: "tame run \<Longrightarrow> same_view c (stream_callback run ty a i c)"
  by (simp add: tame_def stream_callback_def process_callback_def split: option.split)

lemma client_callback_view: "tame run \<Longrightarrow> same_view c (client_callback run ty a c)"
  by (simp add: tame_def client_callback_def process_callback_def split: option.split)

text \<open>What the pool and the queues have to do with the rest.\<close>

lemma queued_upd [simp]: "queued (upd i f c) = queued c" by (simp add: queued_def)

lemma pool_frame [simp]:
  "linked_streams (c\<lparr>stream_pool := p\<rparr>) = linked_streams c" "queued (c\<lparr>stream_pool := p\<rparr>) = queued c"
  "leaving (c\<lparr>stream_pool := p\<rparr>) = leaving c" "queue_ok (c\<lparr>stream_pool := p\<rparr>) = queue_ok c"
  by (simp_all add: owner_defs queue_ok_def)

lemma leaving_queued: "set (leaving c) \<subseteq> set (queued c)" by (auto simp: leaving_def)

lemma queued_cases: "queue_ok c \<Longrightarrow> i \<in> set (queued c) \<Longrightarrow>
    i \<in> set (leaving c) \<or> i \<in> set (streams c) \<or> i \<in> set (linked_streams c)"
  by (auto simp: queue_ok_def leaving_def)

text \<open>A change to a stream that the handler holds, or that leaves ownership alone.\<close>

lemma held_apart:
  assumes "holds n hs c" and "i \<in> set hs"
  shows "i \<notin> set (streams c)" "i \<notin> set (linked_streams c)" "i \<notin> set (queued c)" "i \<notin> set (constructed_free (stream_pool c))"
  using assms by (auto simp: holds_def owned_def all_once_def)

lemma upd_view:
  assumes "i \<notin> set (queued c)" and "linked_streams (upd i f c) = linked_streams c"
  shows "holds n hs (upd i f c) = holds n hs c"
proof -
  have "leaving (upd i f c) = leaving c"
    unfolding leaving_def queued_upd using assms(1) by (intro filter_cong) auto
  then have o: "owned (upd i f c) = owned c" by (simp add: owned_def assms(2))
  have k: "store (upd i f c) k = store c k" if "k \<in> set (queued c)" for k using that assms(1) by auto
  have "queue_ok (upd i f c) = queue_ok c"
    unfolding queue_ok_def queued_upd assms(2) using k by (intro conj_cong ball_cong refl) simp
  then show ?thesis by (simp add: holds_def o)
qed

lemma upd_held: "holds n hs c \<Longrightarrow> i \<in> set hs \<Longrightarrow> holds n hs (upd i f c)"
proof -
  assume h: "holds n hs c" "i \<in> set hs"
  have "linked_streams (upd i f c) = linked_streams c"
    unfolding linked_streams_def using held_apart(1) [OF h] by (auto intro!: map_filter_cong)
  with upd_view held_apart(3) [OF h] h(1) show ?thesis by blast
qed

lemma upd_flags:
  assumes "holds n hs c" and "i \<notin> set (queued c)" and "linked_stream (f (store c i)) = linked_stream (store c i)"
  shows "holds n hs (upd i f c)"
proof -
  have "linked_streams (upd i f c) = linked_streams c"
    unfolding linked_streams_def using assms(3) by (auto intro!: map_filter_cong)
  with upd_view assms show ?thesis by blast
qed

text \<open>Taking a stream from the pool and giving one back.\<close>

lemma alloc_holds:
  assumes "holds n hs c" and "allocate_stream_pool c = (Some i, c')"
  shows "holds n (i # hs) c'"
proof -
  obtain p where p: "allocate_constructed (stream_pool c) = (Some i, p)" "c' = c\<lparr>stream_pool := p\<rparr>"
    using assms(2) by (auto simp: allocate_stream_pool_def split: prod.splits)
  have inv: "constructed_invar (stream_pool c)" using assms(1) by (simp add: holds_def)
  from constructed_pool.alloc_some [OF inv p(1)] have q: "constructed_invar p" "chunk_count p = chunk_count (stream_pool c)"
    "constructed_free (stream_pool c) = constructed_free p @ [i]" by auto
  have "i \<in> set (constructed_free (stream_pool c))" by (simp add: q(3))
  then have "i \<notin> set (streams c)" "i \<notin> set (linked_streams c)" "i \<notin> set (leaving c)"
    using assms(1) by (auto simp: holds_def owned_def all_once_def)
  then have iq: "i \<notin> set (queued c)" using assms(1) queued_cases by (auto simp: holds_def)
  have "mset ((i # hs) @ owned c') = mset (hs @ owned c)" by (simp add: p(2) owned_def q(3))
  with all_once_mset have "all_once n ((i # hs) @ owned c') = all_once n (hs @ owned c)" by blast
  then show ?thesis using assms(1) q iq by (simp add: holds_def p(2))
qed

lemma alloc_none: "holds n hs c \<Longrightarrow> allocate_stream_pool c = (None, c') \<Longrightarrow> c' = c"
  using constructed_pool.alloc_fails [of "stream_pool c"]
  by (auto simp: allocate_stream_pool_def holds_def split: prod.splits)

lemma release_pool:
  assumes "holds n (i # hs) c"
  obtains p where "release (Some i) c = c\<lparr>stream_pool := p\<rparr>" "constructed_invar p"
    "constructed_free p = constructed_free (stream_pool c) @ [i]" "chunk_count p = n"
proof -
  have inv: "constructed_invar (stream_pool c)" "chunk_count (stream_pool c) = n" using assms by (simp_all add: holds_def)
  have "distinct (i # constructed_free (stream_pool c))" "set (i # constructed_free (stream_pool c)) \<subseteq> {..<n}"
    using assms by (auto simp: holds_def owned_def all_once_def)
  then have "length (i # constructed_free (stream_pool c)) \<le> n"
    by (metis card_lessThan card_mono distinct_card finite_lessThan)
  then have "length (constructed_free (stream_pool c)) < chunk_count (stream_pool c)" using inv by simp
  from constructed_pool.dealloc_adds [OF inv(1) this] obtain p where p: "deallocate_constructed (Some i) (stream_pool c) = (0, p)"
    "constructed_invar p" "constructed_free p = constructed_free (stream_pool c) @ [i]" "chunk_count p = n"
    using inv(2) by blast
  show ?thesis by (rule that [OF _ p(2-4)]) (simp add: deallocate_stream_pool_def p(1))
qed

lemma release_holds:
  assumes "holds n (i # hs) c"
  shows "holds n hs (release (Some i) c)"
    "constructed_free (stream_pool (release (Some i) c)) = constructed_free (stream_pool c) @ [i]"
proof -
  obtain p where p: "release (Some i) c = c\<lparr>stream_pool := p\<rparr>" "constructed_invar p"
    "constructed_free p = constructed_free (stream_pool c) @ [i]" "chunk_count p = n" by (rule release_pool [OF assms])
  have "mset (hs @ owned (release (Some i) c)) = mset ((i # hs) @ owned c)" by (simp add: p owned_def)
  with all_once_mset have "all_once n (hs @ owned (release (Some i) c)) = all_once n ((i # hs) @ owned c)" by blast
  then show "holds n hs (release (Some i) c)" using assms p unfolding p(1) by (simp add: holds_def)
qed (use release_pool [OF assms] in force)

text \<open>Queues.\<close>

lemma queue_frame:
  assumes "stream_pool c' = stream_pool c" and "streams c' = streams c" and "store c' = store c"
    and "mset (queued c') = add_mset i (mset (queued c))"
  shows "linked_streams c' = linked_streams c"
    "mset (leaving c') = (if free_on_send (payload_of i c) then add_mset i (mset (leaving c)) else mset (leaving c))"
    "set (queued c') = insert i (set (queued c))" "distinct (queued c') \<longleftrightarrow> i \<notin> set (queued c) \<and> distinct (queued c)"
proof -
  have m: "mset (queued c') = mset (i # queued c)" using assms(4) by simp
  show "set (queued c') = insert i (set (queued c))" using mset_eq_setD [OF m] by simp
  show "distinct (queued c') \<longleftrightarrow> i \<notin> set (queued c) \<and> distinct (queued c)" using mset_eq_imp_distinct_iff [OF m] by simp
qed (simp_all add: linked_streams_def leaving_def assms mset_filter)

lemma pushed_leaving:
  assumes "holds n (i # hs) c" and "free_on_send (payload_of i c)"
    and "stream_pool c' = stream_pool c" "streams c' = streams c" "store c' = store c" "mset (queued c') = add_mset i (mset (queued c))"
    and "spsc_invar (internal_out_queue c')"
  shows "holds n hs c'"
proof -
  note f = queue_frame [OF assms(3-6)]
  have "mset (hs @ owned c') = mset ((i # hs) @ owned c)" using f assms(2) by (simp add: owned_def assms(3,4))
  with all_once_mset have "all_once n (hs @ owned c') = all_once n ((i # hs) @ owned c)" by blast
  moreover have "i \<notin> set hs" using assms(1) by (simp add: holds_def all_once_def)
  ultimately show ?thesis using assms(1,2) by (auto simp: holds_def assms(3-5,7) queue_ok_def f)
qed

lemma pushed_active:
  assumes "holds n hs c" and "i \<in> set (streams c) \<or> i \<in> set (linked_streams c)" and "i \<notin> set (queued c)"
    and "\<not> free_on_send (payload_of i c)" and "p_out (payload_of i c)"
    and "stream_pool c' = stream_pool c" "streams c' = streams c" "store c' = store c" "mset (queued c') = add_mset i (mset (queued c))"
    and "spsc_invar (internal_out_queue c')"
  shows "holds n hs c'"
proof -
  note f = queue_frame [OF assms(6-9)]
  have "mset (hs @ owned c') = mset (hs @ owned c)" using f assms(4) by (simp add: owned_def assms(6,7))
  with all_once_mset have "all_once n (hs @ owned c') = all_once n (hs @ owned c)" by blast
  moreover have "i \<notin> set hs" using assms(1,2) held_apart by blast
  ultimately show ?thesis using assms(1-5) by (auto simp: holds_def assms(6-8,10) queue_ok_def f)
qed

lemma queue_same: "c\<lparr>internal_out_queue := internal_out_queue c\<rparr> = c" by (cases c) simp

lemma push_internal_cases:
  assumes "holds n hs c"
  shows "push_internal i c = c \<or> mset (queued (push_internal i c)) = add_mset i (mset (queued c)) \<and>
    spsc_invar (internal_out_queue (push_internal i c))"
proof (cases "fst (spsc_push True i (internal_out_queue c)) = 0")
  case True
  with spsc_fifo.push_takes assms show ?thesis by (fastforce simp: holds_def push_internal_def queued_def)
next
  case False
  with spsc_fifo.push_refuses [of "internal_out_queue c" i] assms show ?thesis by (simp add: holds_def push_internal_def queue_same)
qed

lemma push_out_cases:
  "snd (push_out_queue (Some i) c) = c \<or> mset (queued (snd (push_out_queue (Some i) c))) = add_mset i (mset (queued c))"
  "internal_out_queue (snd (push_out_queue s c)) = internal_out_queue c"
  by (simp_all add: push_out_queue_def ring_push_def queued_def split: option.split)

lemma push_frame [simp]:
  "stream_pool (push_internal i c) = stream_pool c" "streams (push_internal i c) = streams c" "store (push_internal i c) = store c"
  "stream_pool (snd (push_out_queue s c)) = stream_pool c" "streams (snd (push_out_queue s c)) = streams c"
  "store (snd (push_out_queue s c)) = store c"
  by (simp_all add: push_internal_def push_out_queue_def ring_push_def split: option.split)

lemma holds_queue: "holds n hs c \<Longrightarrow> spsc_invar (internal_out_queue c)" by (simp add: holds_def)

lemma forget: "holds n (i # hs) c \<Longrightarrow> holds n hs c"
  by (simp add: holds_def all_once_def)

lemma push_leaving:
  assumes "holds n (i # hs) c" and "free_on_send (payload_of i c)"
  shows "holds n hs (push_internal i c)" "holds n hs (snd (push_out_queue (Some i) c))"
  using push_internal_cases [OF assms(1), of i] push_out_cases(1) [of i c] push_out_cases(2) [of "Some i" c] holds_queue [OF assms(1)]
    forget [OF assms(1)] pushed_leaving [OF assms, of "push_internal i c"] pushed_leaving [OF assms, of "snd (push_out_queue (Some i) c)"]
  by auto

lemma push_active:
  assumes "holds n hs c" and "i \<in> set (streams c) \<or> i \<in> set (linked_streams c)" and "i \<notin> set (queued c)"
    and "\<not> free_on_send (payload_of i c)" and "p_out (payload_of i c)"
  shows "holds n hs (push_internal i c)" "holds n hs (snd (push_out_queue (Some i) c))"
  using push_internal_cases [OF assms(1), of i] push_out_cases(1) [of i c] push_out_cases(2) [of "Some i" c] holds_queue [OF assms(1)]
    assms(1) pushed_active [OF assms, of "push_internal i c"] pushed_active [OF assms, of "snd (push_out_queue (Some i) c)"]
  by auto

text \<open>The list of active streams, and links.\<close>

lemma add_holds:
  assumes "holds n (i # hs) c" and "linked_stream (store c i) = None"
  shows "holds n hs (add_stream i c)"
proof -
  have l: "linked_streams (add_stream i c) = linked_streams c"
    using assms(2) by (simp add: linked_streams_def add_stream_def List.map_filter_def)
  have q: "queued (add_stream i c) = queued c" "leaving (add_stream i c) = leaving c"
    by (simp_all add: leaving_def queued_def add_stream_def)
  have s: "streams (add_stream i c) = streams c @ [i]" "store (add_stream i c) = store c" "stream_pool (add_stream i c) = stream_pool c"
    "internal_out_queue (add_stream i c) = internal_out_queue c"
    by (simp_all add: add_stream_def)
  have "mset (hs @ owned (add_stream i c)) = mset ((i # hs) @ owned c)" by (simp add: owned_def l q s)
  with all_once_mset have "all_once n (hs @ owned (add_stream i c)) = all_once n ((i # hs) @ owned c)" by blast
  then show ?thesis using assms(1) by (auto simp: holds_def queue_ok_def q s l)
qed

lemma remove_frame [simp]:
  "stream_pool (remove_stream i c) = stream_pool c" "store (remove_stream i c) = store c" "queued (remove_stream i c) = queued c"
  "internal_out_queue (remove_stream i c) = internal_out_queue c" "leaving (remove_stream i c) = leaving c"
  by (simp_all add: remove_stream_def queued_def leaving_def)

abbreviation link_of :: "nat \<Rightarrow> gdt_client \<Rightarrow> nat list" where
  "link_of i c \<equiv> (case linked_stream (store c i) of Some j \<Rightarrow> [j] | None \<Rightarrow> [])"

lemma linked_removed:
  assumes "i \<in> set (streams c)"
  shows "mset (linked_streams c) = mset (link_of i c) + mset (linked_streams (remove_stream i c))"
proof -
  obtain xs ys where s: "streams c = xs @ i # ys" "i \<notin> set xs" using assms by (metis split_list_first)
  then have "linked_streams (remove_stream i c) = List.map_filter (\<lambda>i. linked_stream (store c i)) (xs @ ys)"
    by (simp add: linked_streams_def remove_stream_def remove1_append)
  then show ?thesis using s(1) by (cases "linked_stream (store c i)") (simp_all add: linked_streams_def List.map_filter_def)
qed

lemma remove_holds:
  assumes "holds n hs c" and "i \<in> set (streams c)" and "i \<notin> set (queued c)" and "set (link_of i c) \<inter> set (queued c) = {}"
  shows "holds n (i # link_of i c @ hs) (remove_stream i c)"
proof -
  have s: "streams (remove_stream i c) = remove1 i (streams c)" using assms(2) by (simp add: remove_stream_def)
  have "mset ((i # link_of i c @ hs) @ owned (remove_stream i c)) = mset (hs @ owned c)"
    using linked_removed [OF assms(2)] assms(2) by (simp add: owned_def s)
  with all_once_mset have o: "all_once n ((i # link_of i c @ hs) @ owned (remove_stream i c)) = all_once n (hs @ owned c)" by blast
  have m: "set (linked_streams c) = set (link_of i c) \<union> set (linked_streams (remove_stream i c))"
    using linked_removed [OF assms(2)] by (metis set_mset_mset set_mset_union)
  have "distinct (streams c)" using assms(1) by (simp add: holds_def owned_def all_once_def)
  then have "set (remove1 i (streams c)) = set (streams c) - {i}" by simp
  then have "queue_ok (remove_stream i c)" using assms m unfolding queue_ok_def holds_def by (auto simp: s)
  then show ?thesis using assms o by (auto simp: holds_def)
qed

lemma remove_absent [simp]: "i \<notin> set (streams c) \<Longrightarrow> remove_stream i c = c" by (simp add: remove_stream_def)

lemma link_holds:
  assumes "holds n (j # hs) c" and "i \<in> set (streams c)" and "linked_stream (store c i) = None"
    and "\<And>s. linked_stream (f s) = Some j" and "\<And>s. payload (f s) = payload s"
  shows "holds n hs (upd i f c)" "j \<in> set (linked_streams (upd i f c))"
proof -
  have d: "distinct (streams c)" using assms(1) by (simp add: holds_def owned_def all_once_def)
  obtain xs ys where s: "streams c = xs @ i # ys" "i \<notin> set xs" "i \<notin> set ys" using assms(2) d by (metis split_list distinct_append distinct.simps(2) disjoint_iff list.set_intros(1))
  have k: "List.map_filter (\<lambda>k. linked_stream (store (upd i f c) k)) zs = List.map_filter (\<lambda>k. linked_stream (store c k)) zs" if "i \<notin> set zs" for zs
    using that by (intro map_filter_cong) auto
  have l: "linked_streams (upd i f c) = List.map_filter (\<lambda>k. linked_stream (store c k)) xs @ j # List.map_filter (\<lambda>k. linked_stream (store c k)) ys"
    "linked_streams c = List.map_filter (\<lambda>k. linked_stream (store c k)) xs @ List.map_filter (\<lambda>k. linked_stream (store c k)) ys"
    using k [OF s(2)] k [OF s(3)] assms(3,4) by (simp_all add: linked_streams_def s(1) List.map_filter_def)
  then show "j \<in> set (linked_streams (upd i f c))" by simp
  have p: "payload_of m (upd i f c) = payload_of m c" for m using assms(5) by simp
  have v: "leaving (upd i f c) = leaving c" unfolding leaving_def queued_upd p ..
  have "mset (hs @ owned (upd i f c)) = mset ((j # hs) @ owned c)" by (simp add: owned_def l v)
  with all_once_mset have "all_once n (hs @ owned (upd i f c)) = all_once n ((j # hs) @ owned c)" by blast
  moreover have "queue_ok (upd i f c)" using assms(1) unfolding holds_def queue_ok_def queued_upd p by (auto simp: l)
  ultimately show "holds n hs (upd i f c)" using assms(1) by (simp add: holds_def)
qed

end
