(* ===== verification/GdtSafety.thy ===== *)
theory GdtSafety
  imports GdtOwner
begin

text \<open>
  Every step of a client keeps the ownership of its streams, as long as no message and no timeout
  reaches a stream whose payload still waits in an output queue.
\<close>

section \<open>States that differ in one stream\<close>

definition same_but :: "nat \<Rightarrow> gdt_client \<Rightarrow> gdt_client \<Rightarrow> bool" where
  "same_but i c c' \<longleftrightarrow> stream_pool c' = stream_pool c \<and> streams c' = streams c \<and> out_queue c' = out_queue c \<and>
     internal_out_queue c' = internal_out_queue c \<and>
     (\<forall>k. linked_stream (store c' k) = linked_stream (store c k) \<and> (k \<noteq> i \<longrightarrow>
        free_on_send (payload_of k c') = free_on_send (payload_of k c) \<and> p_out (payload_of k c') = p_out (payload_of k c)))"

lemma but_refl [simp, intro]: "same_but i c c" by (simp add: same_but_def)

lemma but_view: "same_but i c c' \<Longrightarrow> same_view c' c'' \<Longrightarrow> same_but i c c''"
  by (simp add: same_but_def same_view_def)

lemma but_upd: "same_but i c c' \<Longrightarrow> linked_stream (f (store c' i)) = linked_stream (store c' i) \<Longrightarrow> same_but i c (upd i f c')"
  by (simp add: same_but_def)

lemma but_frame [simp]:
  "same_but i c (in_stats_update g c') = same_but i c c'" "same_but i c (out_stats_update h c') = same_but i c c'"
  by (simp_all add: same_but_def)

lemma but_stream: "tame run \<Longrightarrow> same_but i c c' \<Longrightarrow> same_but i c (stream_callback run ty a k c')"
  using but_view stream_callback_view by blast

lemma but_client: "tame run \<Longrightarrow> same_but i c c' \<Longrightarrow> same_but i c (client_callback run ty a c')"
  using but_view client_callback_view by blast

lemma but_ack: "same_but i c c' \<Longrightarrow> same_but i c (generate_ack oh i c')"
  unfolding generate_ack_def Let_def by (rule but_upd) (simp_all add: inc_sequence_num_def)

lemma but_uos: "tame run \<Longrightarrow> same_but i c c' \<Longrightarrow> same_but i c (generate_err_uos run sid oh i c')"
  unfolding generate_err_uos_def Let_def by (intro but_stream but_upd) simp_all

lemma but_queued: "same_but i c c' \<Longrightarrow> queued c' = queued c" by (simp add: same_but_def queued_def)

lemma but_linked: "same_but i c c' \<Longrightarrow> linked_streams c' = linked_streams c" by (simp add: same_but_def linked_streams_def)

lemma but_link: "same_but i c c' \<Longrightarrow> linked_stream (store c' k) = linked_stream (store c k)" by (simp add: same_but_def)

lemma but_streams: "same_but i c c' \<Longrightarrow> streams c' = streams c" by (simp add: same_but_def)

lemma but_holds:
  assumes "same_but i c c'" and "i \<notin> set (queued c)" and "holds n hs c"
  shows "holds n hs c'"
proof -
  have "same_view (upd i (\<lambda>_. store c' i) c) c'" using assms(1) by (auto simp: same_view_def same_but_def)
  moreover have "holds n hs (upd i (\<lambda>_. store c' i) c)"
    using assms(1) by (intro upd_flags [OF assms(3,2)]) (simp add: same_but_def)
  ultimately show ?thesis by (rule view_holds)
qed

text \<open>How a handler ends: the stream stays and its payload is queued, or it leaves with it.\<close>

lemma keep_holds:
  assumes "same_but i c c'" and "i \<notin> set (queued c)" and "holds n hs c" and "i \<in> set (streams c) \<or> i \<in> set (linked_streams c)"
    and "\<not> free_on_send (payload_of i c')" and "p_out (payload_of i c')"
  shows "holds n hs (push_internal i c')"
  using push_active(1) [OF but_holds [OF assms(1-3)]] assms but_queued but_linked but_streams by metis

lemma drop_holds:
  assumes "same_but i c c'" and "i \<notin> set (queued c)" and "holds n hs c" and "i \<in> set (streams c)" and "linked_stream (store c i) = None"
    and "free_on_send (payload_of i c')"
  shows "holds n hs (push_internal i (remove_stream i c'))"
proof -
  have "link_of i c' = []" using but_link [OF assms(1), of i] assms(5) by simp
  moreover have "i \<in> set (streams c')" "i \<notin> set (queued c')"
    using assms but_queued [OF assms(1)] but_streams [OF assms(1)] by simp_all
  ultimately have "holds n (i # hs) (remove_stream i c')"
    using remove_holds [OF but_holds [OF assms(1-3)], of i] by simp
  then show ?thesis by (rule push_leaving(1)) (use assms(6) in simp)
qed

section \<open>Packets of a stream\<close>

lemma tame_payload: "tame run \<Longrightarrow> free_on_send (payload_of k (stream_callback run ty a i c)) = free_on_send (payload_of k c)"
  "tame run \<Longrightarrow> p_out (payload_of k (stream_callback run ty a i c)) = p_out (payload_of k c)"
  "tame run \<Longrightarrow> free_on_send (payload_of k (client_callback run ty a c)) = free_on_send (payload_of k c)"
  "tame run \<Longrightarrow> p_out (payload_of k (client_callback run ty a c)) = p_out (payload_of k c)"
  using stream_callback_view client_callback_view by (auto simp: same_view_def)

lemma uos_payload: "tame run \<Longrightarrow> free_on_send (payload_of i (generate_err_uos run sid oh i c)) = free_on_send (payload_of i c)"
  "tame run \<Longrightarrow> p_out (payload_of i (generate_err_uos run sid oh i c)) = p_out (payload_of i c)"
  by (simp_all add: generate_err_uos_def Let_def tame_payload)

text \<open>A stream whose turn it is: nothing of it waits, and it is active or linked.\<close>

definition turn :: "nat \<Rightarrow> bool \<Rightarrow> nat \<Rightarrow> gdt_client \<Rightarrow> bool" where
  "turn n remove i c \<longleftrightarrow> holds n [] c \<and> i \<notin> set (queued c) \<and>
     (if remove then i \<in> set (streams c) \<and> linked_stream (store c i) = None
      else i \<in> set (streams c) \<or> i \<in> set (linked_streams c))"

lemma turn_ends:
  assumes "turn n remove i c" and "same_but i c c'" and "free_on_send (payload_of i c') = remove"
    and "\<not> remove \<Longrightarrow> p_out (payload_of i c')"
  shows "holds n [] (push_internal i (if remove then remove_stream i c' else c'))"
  using assms keep_holds [OF assms(2)] drop_holds [OF assms(2)] by (cases remove) (auto simp: turn_def)

lemma out_of_sequence_holds:
  assumes "tame run" and "turn n remove i c"
  shows "holds n [] (out_of_sequence run sid oh remove i c)"
proof -
  let ?c = "upd_payload i (err_payload remove) (in_stats_update (stream_errors_update (add 1)) c)"
  have "same_but i c ?c" by (rule but_upd) simp_all
  then have "same_but i c (generate_err_uos run sid oh i ?c)" by (rule but_uos [OF assms(1)])
  then show ?thesis
    unfolding out_of_sequence_def Let_def
    by (rule turn_ends [OF assms(2)]) (simp_all add: uos_payload [OF assms(1)] err_payload_def)
qed

lemmas but_steps = but_ack but_upd but_stream but_client

lemma continue_holds:
  assumes "tame run" and "turn n remove i c"
  shows "holds n [] (process_sf_continue run now len sid oh remove i c)"
proof (cases "expected oh i c")
  case True
  have t: "turn n False i c" using assms(2) by (auto simp: turn_def split: if_splits)
  have "\<exists>c'. process_sf_continue run now len sid oh remove i c = push_internal i c' \<and> same_but i c c' \<and>
      \<not> free_on_send (payload_of i c') \<and> p_out (payload_of i c')"
    unfolding process_sf_continue_def Let_def if_P [OF True]
    by (intro exI conjI, rule refl, intro but_steps assms(1))
      (simp_all add: toggle_seq_reply_received_def inc_sequence_num_def step_number_def)
  then show ?thesis using turn_ends [OF t] by fastforce
next
  case False
  then show ?thesis using out_of_sequence_holds [OF assms] by (simp add: process_sf_continue_def)
qed

lemma end_holds:
  assumes "tame run" and "turn n remove i c"
  shows "holds n [] (process_sf_end run now len sid oh remove i c)"
proof (cases "expected oh i c")
  case True
  have "\<exists>c'. process_sf_end run now len sid oh remove i c = push_internal i (if remove then remove_stream i c' else c') \<and>
      same_but i c c' \<and> free_on_send (payload_of i c') = remove \<and> (\<not> remove \<longrightarrow> p_out (payload_of i c'))"
    unfolding process_sf_end_def Let_def if_P [OF True]
    by (intro exI conjI, rule refl, intro but_steps assms(1))
      (simp_all add: toggle_seq_reply_received_def inc_sequence_num_def step_number_def err_payload_def)
  then show ?thesis using turn_ends [OF assms(2)] by fastforce
next
  case False
  then show ?thesis using out_of_sequence_holds [OF assms] by (simp add: process_sf_end_def)
qed

lemma linked_mem: "i \<in> set (streams c) \<Longrightarrow> linked_stream (store c i) = Some j \<Longrightarrow> j \<in> set (linked_streams c)"
  by (force simp: linked_streams_def List.map_filter_def)

lemma upd_same: "(\<And>s. linked_stream (f s) = linked_stream s) \<Longrightarrow> (\<And>s. payload (f s) = payload s) \<Longrightarrow> same_view c (upd i f c)"
  by (simp add: same_view_def)

text \<open>A message is quiet when nothing of the stream it is for, or of its linked one, is queued.\<close>

definition quiet_stream :: "nat \<Rightarrow> gdt_client \<Rightarrow> bool" where
  "quiet_stream i c \<longleftrightarrow> i \<in> set (streams c) \<and> i \<notin> set (queued c) \<and> set (link_of i c) \<inter> set (queued c) = {}"

lemma sides_holds:
  assumes "\<And>r k c. turn n r k c \<Longrightarrow> holds n [] (f r k c)" and "holds n [] c" and "quiet_stream i c"
  shows "holds n [] (sides f i c)"
proof (cases "linked_stream (store c i)")
  case None
  then have "turn n True i c" using assms(2,3) by (simp add: turn_def quiet_stream_def)
  with assms(1) show ?thesis by (simp add: sides_def None)
next
  case (Some j)
  have "turn n False i c" "turn n False j c"
    using assms(2,3) linked_mem [of i c j] Some by (auto simp: turn_def quiet_stream_def)
  then have "holds n [] (f False i c)" "holds n [] (f False j c)" using assms(1) by blast+
  moreover have "holds n [] (upd i (last_linked_side_update g) c')" if "holds n [] c'" for g c'
    by (rule view_holds [OF upd_same that]) simp_all
  ultimately show ?thesis by (simp add: sides_def Some Let_def)
qed

section \<open>Answers\<close>

lemma holds_frame [simp]:
  "holds n hs (in_stats_update g c) = holds n hs c" "holds n hs (out_stats_update g c) = holds n hs c"
  "holds n hs (c\<lparr>gdt_out_message := m\<rparr>) = holds n hs c" "holds n hs (streams_active_update b c) = holds n hs c"
  "holds n hs (c\<lparr>reconnect_queued := b'\<rparr>) = holds n hs c" "holds n hs (c\<lparr>stream_timeout_check := b'\<rparr>) = holds n hs c"
  "holds n hs (c\<lparr>include_body := b1, mem_switch := b2, client_timestamp := t\<rparr>) = holds n hs c"
  by (simp_all add: holds_def queue_ok_def owner_defs)

lemma reply_err_holds:
  assumes "holds n (i # hs) c"
  shows "holds n (i # hs) (reply_err stamp ty sid oh flag src code i c)"
    "free_on_send (payload_of i (reply_err stamp ty sid oh flag src code i c))"
  unfolding reply_err_def Let_def by (rule upd_held) (simp_all add: assms)

lemma alloc_split:
  assumes "holds n [] c" and "holds n [] (f c)" and "\<And>i c'. holds n [i] c' \<Longrightarrow> allocate_stream_pool c = (Some i, c') \<Longrightarrow> holds n [] (g i c')"
  shows "holds n [] (case allocate_stream_pool c of (None, c') \<Rightarrow> f c' | (Some i, c') \<Rightarrow> g i c')"
  using assms alloc_none [OF assms(1)] alloc_holds [OF assms(1)] by (auto split: prod.split option.split)

lemma answer_holds: "holds n [] c \<Longrightarrow> holds n [] (answer stamp ty sid oh flag src code c)"
  unfolding answer_def by (rule alloc_split) (auto intro!: push_leaving reply_err_holds)

lemma unknown_holds: "holds n [] c \<Longrightarrow> holds n [] (unknown_stream sid oh c)"
  unfolding unknown_stream_def by (rule answer_holds) simp

lemma stateless_holds:
  assumes "tame run" and "holds n [] c"
  shows "holds n [] (handle_stateless run now len sid oh c)"
  unfolding handle_stateless_def Let_def
proof (rule alloc_split)
  fix i c' assume a: "holds n [i] c'"
  show "holds n [] (push_internal i (client_callback run ty b (reply_err x1 x2 sid oh None None x3 i c')))" for ty b x1 x2 x3
    by (rule push_leaving(1), rule view_holds [OF client_callback_view [OF assms(1)] reply_err_holds(1) [OF a]])
      (simp add: tame_payload assms(1) reply_err_holds(2) [OF a])
qed (use assms(2) in simp_all)

lemma give_back: "holds n (i # js @ hs) c \<Longrightarrow> holds n hs (release (Some i) c)"
proof (induction js)
  case (Cons j js)
  then have "holds n (i # js @ hs) c" by (auto simp: holds_def all_once_def)
  then show ?case by (rule Cons.IH)
qed (auto dest: release_holds(1))

lemma heartbeat_holds:
  assumes "tame run" and "holds n [] c" and "\<And>i. get_stream (Some (h_uuid oh)) c = Some i \<Longrightarrow> quiet_stream i c"
  shows "holds n [] (handle_heartbeat run now len sid oh c)"
proof (cases "get_stream (Some (h_uuid oh)) c")
  case (Some i)
  then have q: "quiet_stream i c" by (rule assms(3))
  have *: "holds n [] (release (Some i) (remove_stream i c'))" if "same_but i c c'" for c'
  proof -
    have "quiet_stream i c'" using q that but_link [OF that, of i] by (simp add: quiet_stream_def but_queued but_streams)
    moreover have "holds n [] c'" using but_holds [OF that _ assms(2)] q by (simp add: quiet_stream_def)
    ultimately have "holds n (i # link_of i c' @ []) (remove_stream i c')"
      unfolding quiet_stream_def by (intro remove_holds) simp_all
    then show ?thesis by (rule give_back)
  qed
  show ?thesis unfolding handle_heartbeat_def Some option.case Let_def
    by (rule *) (auto intro!: but_stream but_client assms(1) split: option.split)
next
  case None
  have *: "holds n [] (push_internal i (generate_ack oh i (upd i f c')))"
    if "holds n [i] c'" "\<And>s. free_on_send (payload (f s))" for i c' f
  proof (rule push_leaving(1))
    show "holds n [i] (generate_ack oh i (upd i f c'))"
      unfolding generate_ack_def Let_def by (intro upd_held that) simp_all
    show "free_on_send (payload_of i (generate_ack oh i (upd i f c')))"
      using that(2) by (simp add: generate_ack_def Let_def inc_sequence_num_def)
  qed
  show ?thesis unfolding handle_heartbeat_def None option.case Let_def
    by (cases "h_status oh") (auto intro!: alloc_split * assms(2) simp del: fun_upd_apply simp: assms(2) reset_stream_def Let_def)
qed

lemma upd_not_active:
  assumes "holds n hs c" and "i \<notin> set (queued c)" and "i \<notin> set (streams c)"
  shows "holds n hs (upd i f c)" "linked_streams (upd i f c) = linked_streams c"
proof -
  show l: "linked_streams (upd i f c) = linked_streams c"
    unfolding linked_streams_def using assms(3) by (auto intro!: map_filter_cong)
  show "holds n hs (upd i f c)" using upd_view assms(1,2) l by blast
qed

text \<open>The end of \<^verbatim>\<open>start_stream\<close>, once the stream is active or linked.\<close>

lemma started_holds:
  assumes "tame run" and "holds n [] c" and "i \<notin> set (queued c)" and "i \<in> set (streams c) \<or> i \<in> set (linked_streams c)"
    and "\<And>s. linked_stream (f s) = linked_stream s" "\<And>s. \<not> free_on_send (payload (f s))" "\<And>s. p_out (payload (f s))"
  shows "holds n [] (push_internal i (upd i (\<lambda>s. inc_sequence_num (toggle_seq_reply_received s))
     (generate_ack oh i (client_callback run ty a (upd i f c)))))"
proof (rule keep_holds [OF _ assms(3,2,4)])
  show "same_but i c (upd i (\<lambda>s. inc_sequence_num (toggle_seq_reply_received s)) (generate_ack oh i (client_callback run ty a (upd i f c))))"
    by (intro but_steps assms(1)) (simp_all add: inc_sequence_num_def toggle_seq_reply_received_def assms(5))
qed (simp_all add: inc_sequence_num_def toggle_seq_reply_received_def generate_ack_def Let_def tame_payload [OF assms(1)] assms(6,7))

definition begin_stream :: "int \<Rightarrow> gdt_message \<Rightarrow> bool \<Rightarrow> nat \<Rightarrow> gdt_client \<Rightarrow> gdt_client" where
  "begin_stream now oh loopback i c =
     (let c = upd i (accepted_stream now oh (self c)) c in if \<not> loopback then add_stream i c else c)"

lemma start_begin: "\<exists>f a. start_stream run now sid oh loopback i c =
    push_internal i (upd i (\<lambda>s. inc_sequence_num (toggle_seq_reply_received s))
      (generate_ack oh i (client_callback run GDT_ET_STREAM_NEW a (upd i f (begin_stream now oh loopback i c))))) \<and>
    (\<forall>s. linked_stream (f s) = linked_stream s \<and> \<not> free_on_send (payload (f s)) \<and> p_out (payload (f s)) \<and>
      uuid (f s) = uuid s \<and> sequence_num (f s) = sequence_num s \<and> sequence_reply_received (f s) = sequence_reply_received s)"
  unfolding start_stream_def begin_stream_def Let_def by (intro exI conjI, rule refl) simp

lemma start_holds:
  assumes "tame run" and "holds n [] (begin_stream now oh loopback i c)" and "i \<notin> set (queued (begin_stream now oh loopback i c))"
    and "i \<in> set (streams (begin_stream now oh loopback i c)) \<or> i \<in> set (linked_streams (begin_stream now oh loopback i c))"
  shows "holds n [] (start_stream run now sid oh loopback i c)"
  using start_begin [of run now sid oh loopback i c] started_holds [OF assms] by fastforce

lemma queued_add [simp]: "queued (add_stream i c) = queued c" by (simp add: queued_def add_stream_def)

lemma begin_new:
  assumes "holds n [i] c"
  shows "holds n [] (begin_stream now oh False i c)" "i \<notin> set (queued (begin_stream now oh False i c))"
    "i \<in> set (streams (begin_stream now oh False i c))"
proof -
  show "holds n [] (begin_stream now oh False i c)"
    unfolding begin_stream_def Let_def simp_thms if_True
    by (intro add_holds upd_held assms) (simp_all add: accepted_stream_def reset_stream_def Let_def)
qed (use held_apart(3) [OF assms, of i] in \<open>simp_all add: begin_stream_def Let_def add_stream_def queued_def\<close>)

lemma begin_linked:
  assumes "holds n [] c" and "j \<notin> set (queued c)" and "j \<notin> set (streams c)" and "j \<in> set (linked_streams c)"
  shows "holds n [] (begin_stream now oh True j c)" "j \<notin> set (queued (begin_stream now oh True j c))"
    "j \<in> set (linked_streams (begin_stream now oh True j c))"
  using upd_not_active [OF assms(1-3), of "accepted_stream now oh (self c)"] assms(2,4)
  unfolding begin_stream_def Let_def queued_def by simp_all

lemma start_handled:
  assumes "tame run" and "holds n [] c"
  shows "holds n [] (handle_start run now len sid oh c)"
proof -
  let ?c = "in_stats_update (\<lambda>s. stream_bytes_update (add len) (strms_update (add 1) s)) c"
  have h: "holds n [] ?c" using assms(2) by simp
  have new: "holds n [] (start_stream run now sid oh False j c')" if "holds n [j] c'" for j c'
    using begin_new [OF that] by (intro start_holds assms(1)) auto
  have looped: "holds n [] (start_stream run now sid oh True j (in_stats_update g (upd i f c')))"
    if "holds n [j] c'" "i \<in> set (streams c')" "linked_stream (store c' i) = None" "\<And>s. linked_stream (f s) = Some j" "\<And>s. payload (f s) = payload s"
    for i j c' f g
  proof -
    note l = link_holds [OF that]
    have n: "j \<notin> set (queued c')" "j \<notin> set (streams c')" using held_apart [OF that(1), of j] by simp_all
    have "holds n [] (in_stats_update g (upd i f c'))" using l(1) by simp
    moreover have "j \<in> set (linked_streams (in_stats_update g (upd i f c')))" using l(2) by (simp add: linked_streams_def)
    moreover have "j \<notin> set (queued (in_stats_update g (upd i f c')))" "j \<notin> set (streams (in_stats_update g (upd i f c')))"
      using n by (simp_all add: queued_def)
    ultimately show ?thesis using begin_linked by (intro start_holds assms(1)) blast+
  qed
  have mem: "i \<in> set (streams ?c)" if "get_stream (Some (h_uuid oh)) ?c = Some i" for i
    using that by (auto simp: get_stream_def find_Some_iff)
  have pool: "store c' = store c0" "streams c' = streams c0" if "allocate_stream_pool c0 = (r, c')" for c0 r c'
    using that by (auto simp: allocate_stream_pool_def split: prod.splits)
  show ?thesis
  proof (cases "get_stream (Some (h_uuid oh)) ?c")
    case None
    show ?thesis unfolding handle_start_def Let_def None option.case
      by (auto intro!: alloc_split new answer_holds simp: assms(2))
  next
    case (Some i)
    show ?thesis unfolding handle_start_def Let_def Some option.case
      using mem [OF Some] pool [of ?c]
      by (auto intro!: alloc_split looped answer_holds simp: assms(2) simp del: fun_upd_apply)
  qed
qed

section \<open>The other handlers\<close>

definition quiet_for :: "gdt_message \<Rightarrow> gdt_client \<Rightarrow> bool" where
  "quiet_for oh c \<longleftrightarrow> (case get_stream (Some (h_uuid oh)) c of Some i \<Rightarrow> quiet_stream i c | None \<Rightarrow> True)"

lemma continue_handled:
  assumes "tame run" and "holds n [] c" and "quiet_for oh c"
  shows "holds n [] (handle_continue run now len sid oh c)"
  using assms(3) sides_holds [OF continue_holds [OF assms(1)] assms(2)] unknown_holds [OF assms(2)]
  by (auto simp: handle_continue_def quiet_for_def split: option.split)

lemma end_handled:
  assumes "tame run" and "holds n [] c" and "quiet_for oh c"
  shows "holds n [] (handle_end run now len sid oh c)"
  using assms(3) sides_holds [OF end_holds [OF assms(1)] assms(2)] unknown_holds [OF assms(2)]
  by (auto simp: handle_end_def quiet_for_def split: option.split)

lemma unlink_holds:
  assumes "holds n [] c" and "quiet_stream i c" and "\<And>s. linked_stream (f s) = None"
  shows "holds n [] (upd i f c)"
proof -
  let ?d = "upd i f c" and ?q = "set (queued c)"
  have q: "i \<in> set (streams c)" "i \<notin> ?q" "set (link_of i c) \<inter> ?q = {}" using assms(2) by (simp_all add: quiet_stream_def)
  have d: "distinct (streams c)" using assms(1) by (simp add: holds_def owned_def all_once_def)
  obtain xs ys where s: "streams c = xs @ i # ys" "i \<notin> set xs" "i \<notin> set ys"
    using q(1) d by (metis split_list distinct_append distinct.simps(2) disjoint_iff list.set_intros(1))
  have k: "List.map_filter (\<lambda>k. linked_stream (store ?d k)) zs = List.map_filter (\<lambda>k. linked_stream (store c k)) zs" if "i \<notin> set zs" for zs
    using that by (intro map_filter_cong) auto
  have l: "mset (linked_streams c) = mset (link_of i c) + mset (linked_streams ?d)"
    using k [OF s(2)] k [OF s(3)] assms(3)
    by (cases "linked_stream (store c i)") (simp_all add: linked_streams_def s(1) List.map_filter_def)
  have v: "leaving ?d = leaving c" unfolding leaving_def queued_upd using q(2) by (intro filter_cong) auto
  have "mset (link_of i c @ owned ?d) = mset (owned c)" using l by (simp add: owned_def v)
  with all_once_mset have "all_once n (link_of i c @ owned ?d) = all_once n (owned c)" by blast
  then have o: "all_once n (owned ?d)" using assms(1) by (simp add: holds_def all_once_def)
  have m: "set (linked_streams c) = set (link_of i c) \<union> set (linked_streams ?d)"
    using l by (metis set_mset_mset set_mset_union)
  have p: "payload_of k ?d = payload_of k c" if "k \<in> ?q" for k using that q(2) by auto
  have "queue_ok ?d" using assms(1) q m unfolding queue_ok_def holds_def queued_upd by (auto simp: p)
  with o assms(1) show ?thesis by (simp add: holds_def)
qed

lemma continue_wait_handled:
  assumes "tame run" and "holds n [] c" and "quiet_for oh c"
  shows "holds n [] (handle_continue_wait run now len sid oh c)"
proof (cases "get_stream (Some (h_uuid oh)) c")
  case None
  then show ?thesis using unknown_holds [OF assms(2)] by (simp add: handle_continue_wait_def)
next
  case (Some i)
  then have q: "quiet_stream i c" using assms(3) by (simp add: quiet_for_def)
  show ?thesis
  proof (cases "expected oh i c")
    case True
    have "holds n [] (upd i (\<lambda>s. s\<lparr>timestamp := now, sequence_flag := GDT_SF_CONTINUE_WAIT\<rparr>) (in_stats_update (stream_bytes_update (add len)) c))"
      by (rule view_holds [OF upd_same]) (use assms(2) in simp_all)
    then show ?thesis by (simp add: handle_continue_wait_def Some True)
  next
    case False
    define d where "d = upd i (\<lambda>s. s\<lparr>linked_stream := None, payload := (payload s)\<lparr>free_on_send := True\<rparr>\<rparr>)
      (in_stats_update (stream_errors_update (add 1)) c)"
    have "quiet_stream i (in_stats_update (stream_errors_update (add 1)) c)" using q by (simp add: quiet_stream_def queued_def)
    then have h: "holds n [] d" unfolding d_def using assms(2) by (intro unlink_holds) simp_all
    have d: "i \<notin> set (queued d)" "i \<in> set (streams d)" "linked_stream (store d i) = None"
      using q by (simp_all add: d_def quiet_stream_def queued_def)
    have f: "same_but i d (generate_err_uos run sid oh i d)" by (rule but_uos [OF assms(1) but_refl])
    have "holds n [] (push_internal i (remove_stream i (generate_err_uos run sid oh i d)))"
      by (rule drop_holds [OF f d(1) h d(2,3)]) (simp add: uos_payload [OF assms(1)] d_def)
    then show ?thesis by (simp add: handle_continue_wait_def Some False Let_def d_def)
  qed
qed

lemma complete_view: "tame run \<Longrightarrow> same_view c (process_sf_stream_complete run now len oh i c)"
  unfolding process_sf_stream_complete_def Let_def
  by (rule view_trans [OF _ stream_callback_view]) (simp_all add: same_view_def)

lemma sides_view:
  assumes "\<And>r k c. same_view c (f r k c)"
  shows "same_view c (sides f i c)"
proof -
  have *: "same_view c (upd i (last_linked_side_update g) (f r k c))" for g r k
    by (rule view_trans [OF assms upd_same]) simp_all
  show ?thesis using assms * by (simp add: sides_def Let_def split: option.split)
qed

lemma view_quiet: "same_view c c' \<Longrightarrow> quiet_stream i c \<Longrightarrow> quiet_stream i c'"
  by (simp add: same_view_def quiet_stream_def queued_def)

lemma removed_both:
  assumes "holds n [] c" and "quiet_stream i c"
  defines "c' \<equiv> release (Some i) (case linked_stream (store c i) of Some j \<Rightarrow> release (Some j) (remove_stream j (remove_stream i c))
    | None \<Rightarrow> remove_stream i c)"
  shows "holds n [] c'" "constructed_free (stream_pool c') = constructed_free (stream_pool c) @ link_of i c @ [i]"
proof -
  have r: "holds n (i # link_of i c @ []) (remove_stream i c)"
    using assms by (intro remove_holds) (simp_all add: quiet_stream_def)
  have "holds n [] c' \<and> constructed_free (stream_pool c') = constructed_free (stream_pool c) @ link_of i c @ [i]"
  proof (cases "linked_stream (store c i)")
    case None
    then show ?thesis using r release_holds [of n i "[]"] by (simp add: c'_def)
  next
    case (Some j)
    have "holds n [j, i] (remove_stream i c)" using r Some by (auto simp: holds_def all_once_def)
    moreover from held_apart(1) [OF this, of j] have "remove_stream j (remove_stream i c) = remove_stream i c" by simp
    ultimately show ?thesis using Some release_holds [of n j "[i]"] release_holds [of n i "[]"] by (simp add: c'_def)
  qed
  then show "holds n [] c'" "constructed_free (stream_pool c') = constructed_free (stream_pool c) @ link_of i c @ [i]" by simp_all
qed

lemma complete_handled:
  assumes "tame run" and "holds n [] c" and "quiet_for oh c"
  shows "holds n [] (handle_stream_complete run now len oh c)"
proof (cases "get_stream (Some (h_uuid oh)) c")
  case (Some i)
  let ?d = "sides (\<lambda>_. process_sf_stream_complete run now len oh) i c"
  have v: "same_view c ?d" by (rule sides_view [OF complete_view [OF assms(1)]])
  have "quiet_stream i ?d" using view_quiet [OF v] assms(3) Some by (simp add: quiet_for_def)
  from removed_both(1) [OF view_holds [OF v assms(2)] this] show ?thesis
    by (simp add: handle_stream_complete_def Some Let_def)
qed (simp add: handle_stream_complete_def assms(2))

lemma message_holds:
  assumes "tame run" and "holds n [] c" and "quiet_for oh c"
  shows "holds n [] (handle_message run now len sid oh c)"
proof -
  let ?c = "c\<lparr>include_body := False, mem_switch := False, client_timestamp := now\<rparr>"
  have h: "holds n [] ?c" using assms(2) by simp
  have g: "get_stream (Some (h_uuid oh)) ?c = get_stream (Some (h_uuid oh)) c" by (simp add: get_stream_def)
  have q: "quiet_for oh ?c" using assms(3) unfolding quiet_for_def g by (simp add: quiet_stream_def queued_def split: option.splits)
  have "holds n [] (handle_no_reply run len oh ?c)"
    unfolding handle_no_reply_def Let_def by (rule view_holds [OF client_callback_view [OF assms(1)]]) (use assms(2) in simp)
  moreover have "holds n [] (handle_heartbeat run now len sid oh ?c)"
    using q by (intro heartbeat_holds assms(1) h) (simp add: quiet_for_def)
  ultimately show ?thesis
    unfolding handle_message_def Let_def
    using h stateless_holds [OF assms(1) h] start_handled [OF assms(1) h] continue_handled [OF assms(1) h q]
      continue_wait_handled [OF assms(1) h q] end_handled [OF assms(1) h q] complete_handled [OF assms(1) h q]
    by (simp split: if_split)
qed

end
