(* ===== verification/GdtRun.thy ===== *)
theory GdtRun
  imports GdtSafety
begin

section \<open>Timeouts\<close>

text \<open>
  A timeout finds the client settled when no active stream is marked yet, and the payload of a
  stream linked to one that may be overdue is not queued: the code asks for the flag of the active
  stream only.
\<close>

definition settled :: "gdt_client \<Rightarrow> bool" where
  "settled c \<longleftrightarrow> (\<forall>i \<in> set (streams c). \<not> timed_out (store c i) \<and>
     (p_out (payload_of i c) \<or> set (link_of i c) \<inter> set (queued c) = {}))"

text \<open>Callbacks that do not mark a stream as timed out either.\<close>

definition unmarking :: "methods \<Rightarrow> bool" where
  "unmarking run \<longleftrightarrow> (\<forall>m a c i. timed_out (store (run m a c) i) = timed_out (store c i))"

lemma mark_view: "tame run \<Longrightarrow> same_view c (timeout_mark run now i c)"
  unfolding timeout_mark_def Let_def
  by (auto simp: same_view_def tame_def stream_callback_def process_callback_def split: option.split)

lemma marks_view: "tame run \<Longrightarrow> same_view c (fold (timeout_mark run now) is c)"
  by (induction "is" arbitrary: c) (auto intro: view_trans mark_view)

lemma callback_unmarking: "unmarking run \<Longrightarrow> timed_out (store (stream_callback run ty a k c) i) = timed_out (store c i)"
  by (simp add: unmarking_def stream_callback_def process_callback_def split: option.split)

lemma mark_marks:
  assumes "tame run" and "unmarking run" and "timed_out (store (timeout_mark run now k c) i)"
  shows "timed_out (store c i) \<or> (i = k \<or> linked_stream (store c k) = Some i) \<and> \<not> p_out (payload_of k c)"
  using assms(3) unfolding timeout_mark_def Let_def
  by (auto simp: callback_unmarking [OF assms(2)] split: if_splits option.splits)

lemma marks_marks:
  assumes "tame run" and "unmarking run" and "timed_out (store (fold (timeout_mark run now) is c) i)"
  shows "timed_out (store c i) \<or> (\<exists>k \<in> set is. (i = k \<or> linked_stream (store c k) = Some i) \<and> \<not> p_out (payload_of k c))"
  using assms(3)
proof (induction "is" arbitrary: c)
  case (Cons k "is")
  have v: "same_view c (timeout_mark run now k c)" by (rule mark_view [OF assms(1)])
  from Cons.IH [of "timeout_mark run now k c"] Cons.prems v mark_marks [OF assms(1,2), of now k c i]
  show ?case by (auto simp: same_view_def)
qed simp

lemma release_frame [simp]:
  "streams (release s c) = streams c" "store (release s c) = store c" "queued (release s c) = queued c"
  "release s (streams_update g c) = streams_update g (release s c)"
  "release s (streams_active_update b c) = streams_active_update b (release s c)"
  by (simp_all add: deallocate_stream_pool_def queued_def split: prod.split)

lemma sweep_frame:
  "store (snd (timeout_sweep xs c)) = store c" "queued (snd (timeout_sweep xs c)) = queued c"
  "fst (timeout_sweep xs c) = filter (\<lambda>i. \<not> timed_out (store c i)) xs"
  by (induction xs arbitrary: c) (simp_all add: case_prod_beta Let_def)

lemma holds_distinct: "holds n hs c \<Longrightarrow> distinct (streams c)"
  by (simp add: holds_def owned_def all_once_def)

lemma active_apart: "holds n hs c \<Longrightarrow> i \<in> set (streams c) \<Longrightarrow> i \<notin> set (linked_streams c) \<and> i \<notin> set (leaving c)"
  by (auto simp: holds_def owned_def all_once_def)

text \<open>What the sweep gives back, in its order.\<close>

abbreviation swept :: "nat list \<Rightarrow> gdt_client \<Rightarrow> nat list" where
  "swept xs c \<equiv> concat (map (\<lambda>i. link_of i c @ [i]) xs)"

lemma sweep_holds:
  assumes "holds n [] (streams_update (\<lambda>_. kept @ xs) c)"
    and "\<And>i. i \<in> set xs \<Longrightarrow> timed_out (store c i) \<Longrightarrow> i \<notin> set (queued c) \<and> set (link_of i c) \<inter> set (queued c) = {}"
  shows "holds n [] (streams_update (\<lambda>_. kept @ fst (timeout_sweep xs c)) (snd (timeout_sweep xs c))) \<and>
    constructed_free (stream_pool (snd (timeout_sweep xs c))) =
      constructed_free (stream_pool c) @ swept (filter (\<lambda>i. timed_out (store c i)) xs) c"
  using assms
proof (induction xs arbitrary: c kept)
  case (Cons i xs)
  show ?case
  proof (cases "timed_out (store c i)")
    case True
    let ?c = "streams_update (\<lambda>_. kept @ i # xs) c"
    let ?d = "release (Some i) (if linked_stream (store c i) \<noteq> None then release (linked_stream (store c i)) c else c)"
    have q: "quiet_stream i ?c" using Cons.prems(2) [of i] True by (simp add: quiet_stream_def queued_def)
    have "distinct (kept @ i # xs)" using holds_distinct [OF Cons.prems(1)] by simp
    then have r: "remove1 i (kept @ i # xs) = kept @ xs" by (simp add: remove1_append)
    note both = removed_both [OF Cons.prems(1) q]
    have *: "holds n [] (streams_update (\<lambda>_. kept @ xs) ?d) \<and>
      constructed_free (stream_pool ?d) = constructed_free (stream_pool c) @ link_of i c @ [i]"
    proof (cases "linked_stream (store c i)")
      case None
      then show ?thesis using both by (simp add: remove_stream_def r)
    next
      case (Some j)
      have "j \<notin> set (kept @ xs)"
        using linked_mem [of i ?c j] Some active_apart [OF Cons.prems(1), of j] by auto
      then show ?thesis using both Some by (simp add: remove_stream_def r)
    qed
    have e: "timeout_sweep (i # xs) c = timeout_sweep xs ?d" by (simp only: timeout_sweep.simps True if_True)
    have f: "store ?d = store c" "queued ?d = queued c" by simp_all
    have "?thesis = (holds n [] (streams_update (\<lambda>_. kept @ fst (timeout_sweep xs ?d)) (snd (timeout_sweep xs ?d))) \<and>
       constructed_free (stream_pool (snd (timeout_sweep xs ?d))) =
         constructed_free (stream_pool ?d) @ swept (filter (\<lambda>i. timed_out (store ?d i)) xs) ?d)"
      unfolding e f using * True by simp
    also have "\<dots>" by (rule Cons.IH [OF conjunct1 [OF *]]) (unfold f, use Cons.prems(2) in simp)
    finally show ?thesis by simp
  next
    case False
    have "holds n [] (streams_update (\<lambda>_. (kept @ [i]) @ xs) c)" using Cons.prems(1) by simp
    from Cons.IH [OF this] Cons.prems(2) False show ?thesis by (simp add: case_prod_beta)
  qed
qed simp

text \<open>At the sweep, everything overdue is quiet.\<close>

abbreviation due_time :: "bool \<Rightarrow> int \<Rightarrow> int" where "due_time override now \<equiv> (if override then time_max else now)"

abbreviation marked :: "methods \<Rightarrow> bool \<Rightarrow> int \<Rightarrow> gdt_client \<Rightarrow> gdt_client" where
  "marked run override now c \<equiv> fold (timeout_mark run (due_time override now)) (streams c) (c\<lparr>stream_timeout_check := False\<rparr>)"

lemma marked_swept:
  fixes override now
  assumes "tame run" and "unmarking run" and "holds n [] c" and "settled c"
  defines "m \<equiv> marked run override now c"
  shows "streams m = streams c" "linked_stream (store m i) = linked_stream (store c i)"
    "stream_pool m = stream_pool c"
    "holds n [] (streams_update (\<lambda>_. fst (timeout_sweep (streams m) m)) (snd (timeout_sweep (streams m) m))) \<and>
      constructed_free (stream_pool (snd (timeout_sweep (streams m) m))) =
      constructed_free (stream_pool m) @ swept (filter (\<lambda>i. timed_out (store m i)) (streams m)) m"
proof -
  let ?c = "c\<lparr>stream_timeout_check := False\<rparr>"
  have h: "holds n [] ?c" using assms(3) by simp
  have v: "same_view ?c m" unfolding m_def by (rule marks_view [OF assms(1)])
  then show f: "streams m = streams c" "linked_stream (store m i) = linked_stream (store c i)"
    "stream_pool m = stream_pool c" by (simp_all add: same_view_def)
  have m: "holds n [] m" by (rule view_holds [OF v h])
  have "i \<notin> set (queued m) \<and> set (link_of i m) \<inter> set (queued m) = {}" if i: "i \<in> set (streams m)" "timed_out (store m i)" for i
  proof -
    have s: "i \<in> set (streams c)" using i(1) f(1) by simp
    have "\<not> (\<exists>k \<in> set (streams c). linked_stream (store c k) = Some i)"
      using linked_mem active_apart [OF assms(3) s] by blast
    moreover have "\<not> timed_out (store c i)" using assms(4) s by (simp add: settled_def)
    ultimately have p: "\<not> p_out (payload_of i c)"
      using marks_marks [OF assms(1,2) i(2) [unfolded m_def]] by auto
    have "i \<notin> set (leaving c)" using active_apart [OF assms(3) s] by simp
    then have "i \<notin> set (queued c)" using p assms(3) unfolding holds_def queue_ok_def leaving_def by auto
    moreover have "set (link_of i c) \<inter> set (queued c) = {}" using assms(4) s p by (auto simp: settled_def)
    ultimately show ?thesis using v by (simp add: same_view_def queued_def)
  qed
  with sweep_holds [of n "[]" "streams m" m] m
  show "holds n [] (streams_update (\<lambda>_. fst (timeout_sweep (streams m) m)) (snd (timeout_sweep (streams m) m))) \<and>
      constructed_free (stream_pool (snd (timeout_sweep (streams m) m))) =
      constructed_free (stream_pool m) @ swept (filter (\<lambda>i. timed_out (store m i)) (streams m)) m" by simp
qed

lemma process_timeout_sweep:
  "stream_timeout_check c \<or> override \<Longrightarrow> \<exists>b. process_timeout run override now c =
     streams_active_update b (streams_update (\<lambda>_. fst (timeout_sweep (streams (marked run override now c)) (marked run override now c)))
       (snd (timeout_sweep (streams (marked run override now c)) (marked run override now c))))"
proof -
  have s: "streams (c\<lparr>stream_timeout_check := False\<rparr>) = streams c" by simp
  assume "stream_timeout_check c \<or> override"
  then show ?thesis by (simp only: process_timeout_def Let_def case_prod_beta if_True s) (rule exI, rule refl)
qed

text \<open>Callbacks that let time alone, too.\<close>

definition punctual :: "methods \<Rightarrow> bool" where
  "punctual run \<longleftrightarrow> unmarking run \<and> (\<forall>m a c. stream_timeout (run m a c) = stream_timeout c \<and>
     (\<forall>i. timestamp (store (run m a c) i) = timestamp (store c i)))"

definition overdue :: "int \<Rightarrow> gdt_client \<Rightarrow> nat \<Rightarrow> bool" where
  "overdue t c i \<longleftrightarrow> \<not> p_out (payload_of i c) \<and> t - timestamp (store c i) \<ge> stream_timeout c"

lemma callback_punctual: "punctual run \<Longrightarrow> stream_timeout (stream_callback run ty a k c) = stream_timeout c \<and>
    timestamp (store (stream_callback run ty a k c) i) = timestamp (store c i) \<and>
    timed_out (store (stream_callback run ty a k c) i) = timed_out (store c i)"
  by (simp add: punctual_def unmarking_def stream_callback_def process_callback_def split: option.split)

lemma mark_exact:
  assumes "tame run" and "punctual run"
  shows "timed_out (store (timeout_mark run t k c) i) \<longleftrightarrow>
      timed_out (store c i) \<or> (i = k \<or> linked_stream (store c k) = Some i) \<and> overdue t c k"
    "overdue t (timeout_mark run t k c) i = overdue t c i"
proof -
  show "overdue t (timeout_mark run t k c) i = overdue t c i"
    unfolding timeout_mark_def Let_def overdue_def
    by (simp add: callback_punctual [OF assms(2)] tame_payload(2) [OF assms(1)] split: option.split)
  have l: "linked_stream (store (stream_callback run ty a m c) k) = linked_stream (store c k)" for ty a m c
    using stream_callback_view [OF assms(1)] by (simp add: same_view_def)
  show "timed_out (store (timeout_mark run t k c) i) \<longleftrightarrow>
      timed_out (store c i) \<or> (i = k \<or> linked_stream (store c k) = Some i) \<and> overdue t c k"
    unfolding timeout_mark_def Let_def overdue_def
    by (auto simp: callback_punctual [OF assms(2)] l split: option.split)
qed

lemma marks_exact:
  assumes "tame run" and "punctual run"
  shows "timed_out (store (fold (timeout_mark run t) is c) i) \<longleftrightarrow>
    timed_out (store c i) \<or> (\<exists>k \<in> set is. (i = k \<or> linked_stream (store c k) = Some i) \<and> overdue t c k)"
proof (induction "is" arbitrary: c)
  case (Cons k "is")
  have "linked_stream (store (timeout_mark run t k c) m) = linked_stream (store c m)" for m
    using mark_view [OF assms(1)] by (simp add: same_view_def)
  with Cons.IH [of "timeout_mark run t k c"] mark_exact [OF assms] show ?case by auto
qed simp

lemma timeout_holds:
  assumes "tame run" and "unmarking run" and "holds n [] c" and "settled c"
  shows "holds n [] (process_timeout run override now c)"
proof (cases "stream_timeout_check c \<or> override")
  case True
  from process_timeout_sweep [OF this, of run now] marked_swept(4) [OF assms, where override = override and now = now] show ?thesis by auto
next
  case False
  then show ?thesis using assms(3) by (simp add: process_timeout_def Let_def)
qed

section \<open>The output thread\<close>

lemma popped_holds:
  assumes "holds n [] c" and "stream_pool c' = stream_pool c" "streams c' = streams c" "store c' = store c"
    and "mset (queued c) = add_mset i (mset (queued c'))" and "spsc_invar (internal_out_queue c')"
  shows "i \<notin> set (queued c')" "free_on_send (payload_of i c) \<Longrightarrow> holds n [i] c'" "\<not> free_on_send (payload_of i c) \<Longrightarrow> holds n [] c'"
proof -
  note f = queue_frame [of c c' i, OF assms(2) [symmetric] assms(3) [symmetric] assms(4) [symmetric] assms(5)]
  have d: "i \<notin> set (queued c') \<and> distinct (queued c')" using f(4) assms(1) by (simp add: holds_def queue_ok_def)
  then show "i \<notin> set (queued c')" by simp
  have q: "queue_ok c'" using assms(1) d unfolding holds_def queue_ok_def f(3) f(1) [symmetric] by (simp add: assms(3,4))
  {
    assume a: "free_on_send (payload_of i c)"
    have "mset (i # owned c') = mset (owned c)" using f(1,2) a by (simp add: owned_def assms(2-4))
    with all_once_mset have "all_once n (i # owned c') = all_once n (owned c)" by blast
    then show "holds n [i] c'" using assms(1) d q by (simp add: holds_def assms(2,6))
  next
    assume a: "\<not> free_on_send (payload_of i c)"
    have "mset (owned c') = mset (owned c)" using f(1,2) a by (simp add: owned_def assms(2-4))
    with all_once_mset have "all_once n (owned c') = all_once n (owned c)" by blast
    then show "holds n [] c'" using assms(1) d q by (simp add: holds_def assms(2,6))
  }
qed

lemma out_process_view:
  assumes "tame run"
  obtains c' where "same_view c c'" "out_process run res len i c =
      (if free_on_send (payload_of i c') then release (Some i) c' else upd_payload i (p_out_update (\<lambda>_. False)) c')"
proof (cases "res = 0")
  case True
  show ?thesis
    by (rule that [of "stream_callback run GDT_ET_PAYLOAD_SENT
         (add_arg GDT_CB_INPUT_ARGS GDT_CB_ARG_PAYLOAD (Some (Arg_payload i)) (clear_all_args new_args)) i
         (out_stats_update (\<lambda>s. bytes_update (add len) (packets_update (add 1) s)) c)"])
      (rule view_trans [OF _ stream_callback_view [OF assms(1)]], simp_all add: same_view_def out_process_def True Let_def)
next
  case False
  show ?thesis
    by (rule that [of "(out_stats_update (socket_errors_update (add 1)) c)\<lparr>reconnect_queued := (if \<not> reconnect_queued c then True else reconnect_queued c)\<rparr>"])
      (simp_all add: same_view_def out_process_def False Let_def)
qed

lemma sent_holds:
  assumes "tame run" and "i \<notin> set (queued c)" and "free_on_send (payload_of i c) \<Longrightarrow> holds n [i] c"
    and "\<not> free_on_send (payload_of i c) \<Longrightarrow> holds n [] c"
  shows "holds n [] (out_process run res len i c)"
proof -
  obtain c' where c': "same_view c c'" "out_process run res len i c =
      (if free_on_send (payload_of i c') then release (Some i) c' else upd_payload i (p_out_update (\<lambda>_. False)) c')"
    by (rule out_process_view [OF assms(1)])
  show ?thesis
  proof (cases "free_on_send (payload_of i c)")
    case True
    then have "holds n [i] c'" by (intro view_holds [OF c'(1)] assms(3))
    then show ?thesis using c' True release_holds by (simp add: same_view_def)
  next
    case False
    then have "holds n [] c'" by (intro view_holds [OF c'(1)] assms(4))
    moreover have "i \<notin> set (queued c')" using c'(1) assms(2) by (simp add: same_view_def queued_def)
    ultimately have "holds n [] (upd_payload i (p_out_update (\<lambda>_. False)) c')" by (rule upd_flags) simp
    then show ?thesis using c' False by (simp add: same_view_def)
  qed
qed

lemma pop_internal_some:
  assumes "holds n hs c" and "pop_internal c = (Some i, c')"
  obtains q xs where "c' = c\<lparr>internal_out_queue := q\<rparr>" "spsc_invar q" "spsc_content (internal_out_queue c) = i # xs" "spsc_content q = xs"
proof (cases "spsc_content (internal_out_queue c)")
  case Nil
  with spsc_fifo.pop_refuses [OF holds_queue [OF assms(1)]] have "spsc_pop (internal_out_queue c) = (1, None, internal_out_queue c)" .
  then show ?thesis using assms(2) by (simp add: pop_internal_def)
next
  case (Cons x xs)
  from spsc_fifo.pop_gives [OF holds_queue [OF assms(1)] Cons] obtain q where
    "spsc_pop (internal_out_queue c) = (0, Some x, q)" "spsc_invar q" "spsc_content q = xs" by (elim exE conjE)
  then show ?thesis using that [of q xs] Cons assms(2) by (simp add: pop_internal_def)
qed

lemma pop_internal_none:
  assumes "holds n hs c" and "pop_internal c = (None, c')"
  shows "c' = c"
proof (cases "spsc_content (internal_out_queue c)")
  case Nil
  with spsc_fifo.pop_refuses [OF holds_queue [OF assms(1)]] have "spsc_pop (internal_out_queue c) = (1, None, internal_out_queue c)" .
  then show ?thesis using assms(2) by (simp add: pop_internal_def queue_same)
next
  case (Cons x xs)
  from spsc_fifo.pop_gives [OF holds_queue [OF assms(1)] Cons] obtain q where
    "spsc_pop (internal_out_queue c) = (0, Some x, q)" by (elim exE conjE)
  then show ?thesis using assms(2) by (simp add: pop_internal_def)
qed

lemma internal_sent_holds:
  assumes "tame run" and "holds n [] c" and "pop_internal c = (Some i, c')"
  shows "holds n [] (out_process run res len i c')"
proof -
  obtain q xs where q: "c' = c\<lparr>internal_out_queue := q\<rparr>" "spsc_invar q" "spsc_content (internal_out_queue c) = i # xs"
    "spsc_content q = xs" by (rule pop_internal_some [OF assms(2,3)])
  then have f: "stream_pool c' = stream_pool c" "streams c' = streams c" "store c' = store c"
    "mset (queued c) = add_mset i (mset (queued c'))" "spsc_invar (internal_out_queue c')"
    by (simp_all add: queued_def)
  show ?thesis by (rule sent_holds [OF assms(1)]) (use popped_holds [OF assms(2) f] f(3) in simp_all)
qed

lemma external_sent_holds:
  assumes "tame run" and "holds n [] c" and "pop_out_queue c = (Some i, c')"
  shows "holds n [] (out_process run res len i c')"
proof -
  have f: "stream_pool c' = stream_pool c" "streams c' = streams c" "store c' = store c" "mset (queued c) = add_mset i (mset (queued c'))"
    "spsc_invar (internal_out_queue c')"
    using assms(3) holds_queue [OF assms(2)] by (auto simp: pop_out_queue_def ring_pop_def queued_def split: list.splits)
  show ?thesis by (rule sent_holds [OF assms(1)]) (use popped_holds [OF assms(2) f] f(3) in simp_all)
qed

lemma round_holds:
  assumes "tame run" and "holds n [] c"
  shows "holds n [] (out_round run r1 r2 c)"
proof -
  have none: "pop_out_queue c0 = (None, c1) \<Longrightarrow> c1 = c0" for c0 c1
    by (auto simp: pop_out_queue_def ring_pop_def split: list.splits)
  let ?d = "case pop_internal c of (Some i, c) \<Rightarrow> out_process run (fst r1) (snd r1) i c | (None, c) \<Rightarrow> c"
  have d: "holds n [] ?d"
    using internal_sent_holds [OF assms] assms(2) by (auto dest: pop_internal_none [OF assms(2)] split: prod.split option.split)
  have "holds n [] (case pop_out_queue ?d of (Some i, c) \<Rightarrow> out_process run (fst r2) (snd r2) i c | (None, c) \<Rightarrow> c)"
    using external_sent_holds [OF assms(1) d] d by (auto dest: none split: prod.split option.split)
  then show ?thesis by (simp add: out_round_def Let_def)
qed

section \<open>What the user starts\<close>

lemma new_stream_holds:
  assumes "holds n [] c"
  shows "holds n [] (snd (new_stream now fresh ty i on_sent on_reply c))"
proof -
  have *: "holds n [] (add_stream k (upd k f c'))" if "holds n [k] c'" "\<And>s. linked_stream (f s) = None" for k c' f
    using that by (intro add_holds upd_held) simp_all
  show ?thesis
  proof (cases "allocate_stream_pool c")
    case (Pair r c')
    then show ?thesis using alloc_none [OF assms] alloc_holds [OF assms] assms
      unfolding new_stream_def Let_def
      by (cases r) (auto intro!: *)
  qed
qed

lemma send_holds:
  assumes "holds n [] c" and "i \<in> set (streams c)" and "i \<notin> set (queued c)"
  shows "holds n [] (send_stream with_body i c)"
proof -
  have "\<exists>c'. send_stream with_body i c = snd (push_out_queue (Some i) c') \<and> same_but i c c' \<and>
      \<not> free_on_send (payload_of i c') \<and> p_out (payload_of i c')"
    unfolding send_stream_def Let_def by (intro exI conjI, rule refl, intro but_upd) simp_all
  then obtain c' where c': "send_stream with_body i c = snd (push_out_queue (Some i) c')" "same_but i c c'"
    "\<not> free_on_send (payload_of i c')" "p_out (payload_of i c')" by blast
  show ?thesis unfolding c'(1)
    by (rule push_active(2)) (use c' assms but_holds [OF c'(2) assms(3,1)] but_queued [OF c'(2)] but_streams [OF c'(2)] in simp_all)
qed

lemma datagram_holds:
  assumes "holds n [] c"
  shows "holds n [] (snd (send_datagram now fresh body on_sent None ty i c))"
proof -
  have *: "holds n [] (snd (push_out_queue (Some k) (upd k f c')))" if "holds n [k] c'" "\<And>s. free_on_send (payload (f s))" for k c' f
    using that by (intro push_leaving upd_held) simp_all
  show ?thesis
  proof (cases "allocate_stream_pool c")
    case (Pair r c')
    then show ?thesis using alloc_none [OF assms] alloc_holds [OF assms] assms
      unfolding send_datagram_def Let_def option.case prod.case
      by (cases r) (auto intro!: * simp: reset_stream_def Let_def)
  qed
qed

section \<open>A client from its start on\<close>

definition new_gdt_client :: "nat \<Rightarrow> octets \<Rightarrow> octets \<Rightarrow> int \<Rightarrow> gdt_client" where
  "new_gdt_client me ty i secs = \<lparr>self = me, daemon_type = ty, daemon_id = i, stream_pool = new_pool, store = (\<lambda>_. new_gdt_stream),
     streams = [], streams_active = False, out_queue = [], out_capacity = 0, internal_out_queue = new_spsc 0,
     in_stats = new_stats, out_stats = new_stats, client_timestamp = 0, stream_timeout = secs, stream_timeout_check = False,
     reconnect_queued = False, client_callbacks = no_callbacks, direction = GDT_CD_UNKNOWN, active = True, registered = False,
     router_flag = False, end_point_type = [], end_point_id = [], ref_counter = 1, in_session_id = 0, include_body = False,
     mem_switch = False, gdt_out_message = new_message\<rparr>"

text \<open>
  \<^verbatim>\<open>GDTClient::init\<close>: the queues and the pool are sized, and each stream of the pool is taken
  once, told its client and given back.
\<close>

fun init_streams :: "nat \<Rightarrow> gdt_client \<Rightarrow> nat option list \<times> gdt_client" where
  "init_streams 0 c = ([], c)"
| "init_streams (Suc k) c =
     (let (s, c) = allocate_stream_pool c;
          c = (case s of Some i \<Rightarrow> upd i (stream_client_update (\<lambda>_. Some (self c))) c | None \<Rightarrow> c);
          (ss, c) = init_streams k c
      in (s # ss, c))"

definition client_init :: "nat \<Rightarrow> nat \<Rightarrow> gdt_client \<Rightarrow> gdt_client" where
  "client_init tsize n c =
     (let c = c\<lparr>streams := [], out_capacity := n, internal_out_queue := spsc_init (int n),
                stream_pool := construct_objects (pool_init tsize n (stream_pool c))\<rparr>;
          (ss, c) = init_streams n c
      in fold release ss c)"

lemma holds_perm: "mset hs = mset hs' \<Longrightarrow> holds n hs c = holds n hs' c"
  using all_once_mset [of "hs @ owned c" "hs' @ owned c" n] mset_eq_setD [of hs hs'] by (auto simp: holds_def)

lemma init_streams_holds:
  "holds n hs c \<Longrightarrow> holds n (List.map_filter (\<lambda>s. s) (fst (init_streams k c)) @ hs) (snd (init_streams k c))"
proof (induction k arbitrary: c hs)
  case (Suc k)
  obtain s c' where a: "allocate_stream_pool c = (s, c')" by fastforce
  show ?case
  proof (cases s)
    case None
    with Suc.IH [OF Suc.prems] alloc_none [OF Suc.prems, of c'] a show ?thesis
      by (simp add: case_prod_beta Let_def List.map_filter_simps)
  next
    case (Some i)
    let ?c = "upd i (stream_client_update (\<lambda>_. Some (self c'))) c'"
    have "holds n (i # hs) ?c" by (intro upd_held alloc_holds [OF Suc.prems]) (simp_all add: a Some)
    from Suc.IH [OF this] have "holds n (List.map_filter (\<lambda>s. s) (fst (init_streams k ?c)) @ i # hs) (snd (init_streams k ?c))" .
    moreover have "mset (List.map_filter (\<lambda>s. s) (fst (init_streams k ?c)) @ i # hs) = mset (i # List.map_filter (\<lambda>s. s) (fst (init_streams k ?c)) @ hs)" by simp
    ultimately have "holds n (i # List.map_filter (\<lambda>s. s) (fst (init_streams k ?c)) @ hs) (snd (init_streams k ?c))"
      using holds_perm by blast
    then show ?thesis by (simp add: a Some case_prod_beta Let_def List.map_filter_simps)
  qed
qed (simp add: List.map_filter_simps)

lemma release_none [simp]: "release None c = c" by (simp add: deallocate_stream_pool_def)

lemma release_all: "holds n (List.map_filter (\<lambda>s. s) ss @ hs) c \<Longrightarrow> holds n hs (fold release ss c)"
proof (induction ss arbitrary: c)
  case (Cons s ss)
  show ?case
  proof (cases s)
    case None
    then show ?thesis using Cons by (simp add: List.map_filter_simps)
  next
    case (Some i)
    then have "holds n (i # List.map_filter (\<lambda>s. s) ss @ hs) c" using Cons.prems by (simp add: List.map_filter_simps)
    from Cons.IH [OF release_holds(1) [OF this]] show ?thesis by (simp add: Some)
  qed
qed (simp add: List.map_filter_simps)

lemma init_holds:
  assumes "0 < n"
  shows "holds n [] (client_init tsize n (new_gdt_client me ty i secs))"
proof -
  let ?c = "(new_gdt_client me ty i secs)\<lparr>streams := [], out_capacity := n, internal_out_queue := spsc_init (int n),
                stream_pool := construct_objects (pool_init tsize n (stream_pool (new_gdt_client me ty i secs)))\<rparr>"
  have "holds n [] ?c"
    using constructed_start [OF assms, of tsize new_pool] spsc_init_fifo [OF refl, of "int n", where 'a = nat]
    by (auto simp: holds_def owner_defs queue_ok_def all_once_def new_gdt_client_def List.map_filter_simps)
  from release_all [of n _ "[]", OF init_streams_holds [OF this]] show ?thesis
    by (simp add: client_init_def Let_def case_prod_beta)
qed

text \<open>
  What can happen to a client that is used with care: messages, timeouts, rounds of the output thread, and the
  user who starts streams, sends and changes what has nothing to do with ownership. The code does not
  enforce the care: it also takes a message of a stream whose payload is still queued (\<open>quiet_for\<close> leaves these
  out), a timeout while the payload of a linked stream is queued or a stream is already marked
  (\<open>settled\<close>), a send of a queued stream, and a datagram that waits for its reply. The first
  of them breaks ownership, as the property on early packets below shows.
\<close>

inductive gdt_run :: "methods \<Rightarrow> nat \<Rightarrow> gdt_client \<Rightarrow> bool" for run n where
  run_init: "gdt_run run n (client_init tsize n (new_gdt_client me ty i secs))"
| run_message: "gdt_run run n c \<Longrightarrow> quiet_for oh c \<Longrightarrow> gdt_run run n (handle_message run now len sid oh c)"
| run_tick: "gdt_run run n c \<Longrightarrow> gdt_run run n (snd (timeout_tick secs c))"
| run_timeout: "gdt_run run n c \<Longrightarrow> settled c \<Longrightarrow> gdt_run run n (process_timeout run override now c)"
| run_output: "gdt_run run n c \<Longrightarrow> gdt_run run n (out_round run r1 r2 c)"
| run_new: "gdt_run run n c \<Longrightarrow> gdt_run run n (snd (new_stream now fresh dty did on_sent on_reply c))"
| run_send: "gdt_run run n c \<Longrightarrow> i \<in> set (streams c) \<Longrightarrow> i \<notin> set (queued c) \<Longrightarrow> gdt_run run n (send_stream with_body i c)"
| run_datagram: "gdt_run run n c \<Longrightarrow> gdt_run run n (snd (send_datagram now fresh body on_sent None dty did c))"
| run_user: "gdt_run run n c \<Longrightarrow> same_view c c' \<Longrightarrow> gdt_run run n c'"

lemma gdt_run_holds:
  assumes "gdt_run run n c" and "tame run" and "unmarking run" and "0 < n"
  shows "holds n [] c"
  using assms(1)
proof induction
  case run_init
  show ?case by (rule init_holds [OF assms(4)])
next
  case (run_tick c secs)
  then show ?case by (simp add: timeout_tick_def)
qed (intro message_holds timeout_holds round_holds new_stream_holds send_holds datagram_holds assms; assumption | erule (1) view_holds)+

section \<open>Properties\<close>

text \<open>
  C1. The streams of a client that is used with care are owned once: whatever messages, timeouts, transmissions and user
  calls follow each other, every stream of the pool is in at most one of the free list, the active
  list, the links of active streams and the payloads that are given back when sent, so the pool
  never hands out a stream in use. With care means that the messages of a stream find nothing of it
  queued, timeouts find no stream marked and no queued payload of a linked stream, no stream is
  sent while it is queued, datagrams do not wait for a reply, and the callbacks leave ownership and the timeout marks alone.
\<close>

theorem streams_owned_once:
  assumes "gdt_run run n c" and "tame run" and "unmarking run" and "0 < n"
  shows "distinct (constructed_free (stream_pool c) @ streams c @ linked_streams c @ leaving c) \<and>
    (\<forall>i. fst (allocate_stream_pool c) = Some i \<longrightarrow> i \<notin> set (streams c) \<union> set (linked_streams c) \<union> set (queued c))"
proof -
  have h: "holds n [] c" by (rule gdt_run_holds [OF assms])
  have "i \<notin> set (streams c) \<union> set (linked_streams c) \<union> set (queued c)" if "fst (allocate_stream_pool c) = Some i" for i
  proof -
    define c' where "c' = snd (allocate_stream_pool c)"
    then have a: "allocate_stream_pool c = (Some i, c')" using that by (metis prod.collapse)
    have "streams c' = streams c" "linked_streams c' = linked_streams c" "queued c' = queued c"
      using a by (auto simp: allocate_stream_pool_def split: prod.splits)
    then show ?thesis using held_apart [OF alloc_holds [OF h a], of i] by simp
  qed
  then show ?thesis using h by (simp add: holds_def owned_def all_once_def)
qed

text \<open>
  C5. A timeout takes exactly the overdue streams: those whose payload is not waiting to be sent
  and that were not touched for the timeout (all of them when it is forced). They leave the active
  list, the others stay in order, and each goes back to the pool after the stream linked to it.
\<close>

theorem timeout_exact:
  assumes "gdt_run run n c" and "tame run" and "punctual run" and "0 < n" and "settled c"
    and "stream_timeout_check c \<or> override"
    and "c' = process_timeout run override now c" and "late = overdue (due_time override now) c"
  shows "streams c' = filter (\<lambda>i. \<not> late i) (streams c) \<and>
    constructed_free (stream_pool c') = constructed_free (stream_pool c) @ concat (map (\<lambda>i. link_of i c @ [i]) (filter late (streams c)))"
proof -
  have u: "unmarking run" using assms(3) by (simp add: punctual_def)
  have h: "holds n [] c" by (rule gdt_run_holds [OF assms(1,2) u assms(4)])
  define m where "m = marked run override now c"
  note s = marked_swept [OF assms(2) u h assms(5), where override = override and now = now, folded m_def]
  have t: "timed_out (store m i) = late i" if "i \<in> set (streams c)" for i
  proof -
    have "\<not> (\<exists>k \<in> set (streams c). linked_stream (store c k) = Some i)"
      using linked_mem active_apart [OF h that] by blast
    then show ?thesis using assms(5) that marks_exact [OF assms(2,3), of "due_time override now" "streams c" "c\<lparr>stream_timeout_check := False\<rparr>" i]
      by (auto simp: m_def assms(8) settled_def overdue_def)
  qed
  obtain b where b: "c' = streams_active_update b (streams_update (\<lambda>_. fst (timeout_sweep (streams m) m)) (snd (timeout_sweep (streams m) m)))"
    unfolding assms(7) m_def using process_timeout_sweep [OF assms(6)] by blast
  have "streams c' = filter (\<lambda>i. \<not> late i) (streams c)"
    by (simp add: b sweep_frame s(1) t cong: filter_cong)
  moreover have "constructed_free (stream_pool c') = constructed_free (stream_pool c) @ swept (filter late (streams c)) c"
    using s(4) by (simp add: b s(1-3) t cong: filter_cong)
  ultimately show ?thesis by blast
qed

text \<open>No stream is lost on the way.\<close>

lemma init_streams_all:
  assumes "constructed_invar (stream_pool c)" and "constructed_free (stream_pool c) = xs @ ys"
  shows "fst (init_streams (length ys) c) = map Some (rev ys) \<and> constructed_free (stream_pool (snd (init_streams (length ys) c))) = xs \<and>
    constructed_invar (stream_pool (snd (init_streams (length ys) c))) \<and>
    chunk_count (stream_pool (snd (init_streams (length ys) c))) = chunk_count (stream_pool c) \<and>
    streams (snd (init_streams (length ys) c)) = streams c"
  using assms
proof (induction ys arbitrary: c rule: rev_induct)
  case (snoc y ys)
  from constructed_pool.alloc_takes [OF snoc.prems(1), of "xs @ ys" y] snoc.prems(2) obtain p where
    p: "allocate_constructed (stream_pool c) = (Some y, p)" "constructed_invar p" "constructed_free p = xs @ ys"
      "chunk_count p = chunk_count (stream_pool c)" by auto
  then show ?case using snoc.IH [of "upd y (stream_client_update (\<lambda>_. Some (self c))) (c\<lparr>stream_pool := p\<rparr>)"]
    by (simp add: allocate_stream_pool_def Let_def case_prod_beta)
qed simp

lemma release_list:
  assumes "constructed_invar (stream_pool c)" and "length (constructed_free (stream_pool c)) + length ys \<le> chunk_count (stream_pool c)"
  shows "constructed_free (stream_pool (fold release (map Some ys) c)) = constructed_free (stream_pool c) @ ys \<and>
    streams (fold release (map Some ys) c) = streams c"
  using assms
proof (induction ys arbitrary: c)
  case (Cons y ys)
  from constructed_pool.dealloc_adds [OF Cons.prems(1), of y] Cons.prems(2) obtain p where
    p: "deallocate_constructed (Some y) (stream_pool c) = (0, p)" "constructed_invar p"
      "constructed_free p = constructed_free (stream_pool c) @ [y]" "chunk_count p = chunk_count (stream_pool c)" by auto
  then show ?case using Cons.IH [of "c\<lparr>stream_pool := p\<rparr>"] Cons.prems(2) by (simp add: deallocate_stream_pool_def)
qed simp

lemma init_free:
  assumes "0 < n"
  shows "constructed_free (stream_pool (client_init tsize n c)) = rev [0..<n]" "streams (client_init tsize n c) = []"
proof -
  let ?c = "c\<lparr>streams := [], out_capacity := n, internal_out_queue := spsc_init (int n),
                stream_pool := construct_objects (pool_init tsize n (stream_pool c))\<rparr>"
  note s = constructed_start [OF assms, of tsize "stream_pool c"]
  have a: "fst (init_streams n ?c) = map Some (rev [0..<n])" "constructed_free (stream_pool (snd (init_streams n ?c))) = []"
    "constructed_invar (stream_pool (snd (init_streams n ?c)))" "chunk_count (stream_pool (snd (init_streams n ?c))) = n"
    "streams (snd (init_streams n ?c)) = []"
    using init_streams_all [of ?c "[]" "[0..<n]"] s by simp_all
  have "client_init tsize n c = fold release (map Some (rev [0..<n])) (snd (init_streams n ?c))"
    by (simp add: client_init_def Let_def case_prod_beta a(1))
  then show "constructed_free (stream_pool (client_init tsize n c)) = rev [0..<n]" "streams (client_init tsize n c) = []"
    using release_list [OF a(3), of "rev [0..<n]"] a by simp_all
qed

lemma init_streams_frame: "payload (store (snd (init_streams k c)) i) = payload (store c i) \<and>
    stream_timeout (snd (init_streams k c)) = stream_timeout c \<and> client_callbacks (snd (init_streams k c)) = client_callbacks c"
  by (induction k arbitrary: c) (auto simp: Let_def case_prod_beta allocate_stream_pool_def split: option.split)

lemma release_more [simp]: "stream_timeout (release s c) = stream_timeout c" "client_callbacks (release s c) = client_callbacks c"
  by (simp_all add: deallocate_stream_pool_def split: prod.split)

lemma release_list_frame: "store (fold release ss c) = store c \<and> stream_timeout (fold release ss c) = stream_timeout c \<and>
    client_callbacks (fold release ss c) = client_callbacks c"
  by (induction ss arbitrary: c) simp_all

lemma init_frame [simp]: "payload (store (client_init tsize n c) i) = payload (store c i)"
  "stream_timeout (client_init tsize n c) = stream_timeout c" "client_callbacks (client_init tsize n c) = client_callbacks c"
  using init_streams_frame [of n "c\<lparr>streams := [], out_capacity := n, internal_out_queue := spsc_init (int n),
                stream_pool := construct_objects (pool_init tsize n (stream_pool c))\<rparr>"]
  by (simp_all add: client_init_def Let_def case_prod_beta release_list_frame)

definition silent :: methods where "silent m a c = c"

lemma silent_users [simp]: "tame silent" "unmarking silent" "punctual silent"
  by (simp_all add: tame_def unmarking_def punctual_def silent_def)

lemma new_client_fields [simp]: "payload (store (new_gdt_client me ty i secs) k) = new_payload"
  "stream_timeout (new_gdt_client me ty i secs) = secs" "client_callbacks (new_gdt_client me ty i secs) = no_callbacks"
  "\<not> p_out new_payload"
  by (simp_all add: new_gdt_client_def new_gdt_stream_def new_payload_def)

definition sample_client :: gdt_client where
  "sample_client = snd (new_stream 5 (replicate 16 7) (Some [99]) None None None (client_init 8 3 (new_gdt_client 0 [97] [98] 10)))"

lemma sample_client_run: "gdt_run silent 3 sample_client"
  unfolding sample_client_def by (intro run_new run_init)

lemma sample_client_fields:
  "streams sample_client = [0]" "constructed_free (stream_pool sample_client) = [2, 1]" "linked_stream (store sample_client 0) = None"
  "timestamp (store sample_client 0) = 5" "\<not> timed_out (store sample_client 0)" "linked_streams sample_client = []"
  "\<not> p_out (payload_of 0 sample_client)" "stream_timeout sample_client = 10"
proof -
  let ?c = "client_init 8 3 (new_gdt_client 0 [97] [98] 10)"
  have h: "holds 3 [] ?c" by (rule init_holds) simp
  have f: "constructed_free (stream_pool ?c) = [2, 1] @ [0]" "streams ?c = []" using init_free [of 3 8] by (simp_all add: upt_rec)
  have "constructed_invar (stream_pool ?c)" using h by (simp add: holds_def)
  from constructed_pool.alloc_takes [OF this f(1)] obtain p where
    p: "allocate_constructed (stream_pool ?c) = (Some 0, p)" "constructed_free p = [2, 1]" by blast
  show "streams sample_client = [0]" "constructed_free (stream_pool sample_client) = [2, 1]" "linked_stream (store sample_client 0) = None"
    "timestamp (store sample_client 0) = 5" "\<not> timed_out (store sample_client 0)" "linked_streams sample_client = []"
    "\<not> p_out (payload_of 0 sample_client)" "stream_timeout sample_client = 10"
    by (simp_all add: sample_client_def new_stream_def allocate_stream_pool_def p add_stream_def f(2) linked_streams_def List.map_filter_simps
        opened_stream_def reset_stream_def set_destination_def Let_def)
qed

lemma sample_settled: "settled sample_client"
  by (simp add: settled_def sample_client_fields)

lemma streams_owned_once_witness:
  "distinct (constructed_free (stream_pool sample_client) @ streams sample_client @ linked_streams sample_client @ leaving sample_client) \<and>
    length (constructed_free (stream_pool sample_client)) = 2 \<and> streams sample_client = [0]"
  using streams_owned_once [OF sample_client_run] by (simp add: sample_client_fields)

lemma timeout_exact_witness:
  "streams (process_timeout silent True 0 sample_client) = [] \<and>
    constructed_free (stream_pool (process_timeout silent True 0 sample_client)) = [2, 1, 0]"
  using timeout_exact [OF sample_client_run _ _ _ sample_settled _ refl refl, of True 0]
  by (simp add: sample_client_fields overdue_def)

lemma round_frees:
  assumes "tame run" and "constructed_invar (stream_pool c)" and "spsc_invar (internal_out_queue c)"
    and "spsc_content (internal_out_queue c) = i # xs" and "out_queue c = []" and "free_on_send (payload_of i c)"
    and "length (constructed_free (stream_pool c)) < chunk_count (stream_pool c)"
    and "c' = out_round run r1 r2 c"
  shows "constructed_free (stream_pool c') = constructed_free (stream_pool c) @ [i]" "constructed_invar (stream_pool c')"
    "chunk_count (stream_pool c') = chunk_count (stream_pool c)" "spsc_invar (internal_out_queue c')"
    "spsc_content (internal_out_queue c') = xs" "out_queue c' = []" "free_on_send (payload_of i c')"
proof -
  from spsc_fifo.pop_gives [OF assms(3,4)] obtain q where q: "spsc_pop (internal_out_queue c) = (0, Some i, q)" "spsc_invar q" "spsc_content q = xs"
    by (elim exE conjE)
  define c1 where "c1 = c\<lparr>internal_out_queue := q\<rparr>"
  have p: "pop_internal c = (Some i, c1)" by (simp add: pop_internal_def q(1) c1_def)
  obtain c2 where c2: "same_view c1 c2" "out_process run (fst r1) (snd r1) i c1 =
      (if free_on_send (payload_of i c2) then release (Some i) c2 else upd_payload i (p_out_update (\<lambda>_. False)) c2)"
    by (rule out_process_view [OF assms(1)])
  have v: "stream_pool c2 = stream_pool c" "internal_out_queue c2 = q" "out_queue c2 = []" "free_on_send (payload_of i c2)"
    using c2(1) assms(5,6) by (simp_all add: same_view_def c1_def)
  from constructed_pool.dealloc_adds [OF assms(2,7), of i] obtain pl where
    pl: "deallocate_constructed (Some i) (stream_pool c) = (0, pl)" "constructed_invar pl"
      "constructed_free pl = constructed_free (stream_pool c) @ [i]" "chunk_count pl = chunk_count (stream_pool c)" by blast
  have "c' = c2\<lparr>stream_pool := pl, out_queue := []\<rparr>"
    by (simp add: assms(8) out_round_def p c2(2) v deallocate_stream_pool_def pl(1) pop_out_queue_def ring_pop_def Let_def)
  then show "constructed_free (stream_pool c') = constructed_free (stream_pool c) @ [i]" "constructed_invar (stream_pool c')"
    "chunk_count (stream_pool c') = chunk_count (stream_pool c)" "spsc_invar (internal_out_queue c')"
    "spsc_content (internal_out_queue c') = xs" "out_queue c' = []" "free_on_send (payload_of i c')"
    using pl v q by simp_all
qed

text \<open>
  C6. Ownership needs the peer's patience: a packet out of sequence that arrives while the last
  answer of the stream still waits in the queue drops the stream and queues its payload a second
  time, and when both have been sent the pool holds the stream twice.
\<close>

theorem early_packet_frees_twice:
  assumes "tame run" and "holds n [] c" and "i \<in> set (streams c)" and "linked_stream (store c i) = None"
    and "spsc_content (internal_out_queue c) = [i]" and "out_queue c = []" and "0 < spsc_room (internal_out_queue c)"
    and "\<not> expected oh i c" and "length (constructed_free (stream_pool c)) + 2 \<le> n"
    and "c' = out_round run r3 r4 (out_round run r1 r2 (process_sf_continue run now len sid oh True i c))"
  shows "constructed_free (stream_pool c') = constructed_free (stream_pool c) @ [i, i]"
proof -
  have iq: "constructed_invar (stream_pool c)" "spsc_invar (internal_out_queue c)" "chunk_count (stream_pool c) = n"
    using assms(2) by (simp_all add: holds_def)
  define e where "e = generate_err_uos run sid oh i (upd_payload i (err_payload True) (in_stats_update (stream_errors_update (add 1)) c))"
  have b: "same_but i c e" unfolding e_def by (intro but_uos [OF assms(1)] but_upd) simp_all
  have f: "free_on_send (payload_of i e)" by (simp add: e_def uos_payload [OF assms(1)] err_payload_def)
  define d where "d = push_internal i (remove_stream i e)"
  have p: "process_sf_continue run now len sid oh True i c = d"
    using assms(8) by (simp add: process_sf_continue_def out_of_sequence_def Let_def d_def e_def)
  have q: "internal_out_queue e = internal_out_queue c" "stream_pool e = stream_pool c" "out_queue e = []"
    using b assms(6) by (simp_all add: same_but_def)
  have "fst (spsc_push True i (internal_out_queue c)) = 0" using spsc_fifo.push_room [OF iq(2)] assms(7) by simp
  from spsc_fifo.push_takes [OF iq(2) this] have d: "spsc_invar (internal_out_queue d)" "spsc_content (internal_out_queue d) = [i, i]"
    using assms(5) by (simp_all add: d_def push_internal_def q)
  have d': "stream_pool d = stream_pool c" "out_queue d = []" "free_on_send (payload_of i d)"
    using f by (simp_all add: d_def q push_internal_def remove_stream_def)
  define d1 where "d1 = out_round run r1 r2 d"
  have "length (constructed_free (stream_pool d)) < chunk_count (stream_pool d)" using assms(9) by (simp add: d' iq(3))
  note r = round_frees [OF assms(1) iq(1) [folded d'(1)] d d'(2,3) this d1_def]
  have "length (constructed_free (stream_pool d1)) < chunk_count (stream_pool d1)" using assms(9) by (simp add: r d'(1) iq(3))
  note r' = round_frees [OF assms(1) r(2,4,5,6,7) this, of c' r3 r4]
  show ?thesis using r'(1) r(1) d'(1) assms(10) by (simp add: p d1_def)
qed

text \<open>A client that has just accepted a stream.\<close>

definition busy_client :: gdt_client where
  "busy_client = (new_gdt_client 0 [97] [98] 10)\<lparr>stream_pool := snd (allocate_constructed (snd (allocate_constructed (construct_objects (pool_init 8 4 new_pool))))),
     streams := [2, 3], internal_out_queue := snd (spsc_push True 3 (spsc_init 4)),
     store := (\<lambda>_. new_gdt_stream\<lparr>sequence_num := 2, payload := new_payload\<lparr>free_on_send := False, p_out := True\<rparr>\<rparr>)\<rparr>"

lemma busy_pool: "constructed_invar (stream_pool busy_client)" "constructed_free (stream_pool busy_client) = [0, 1]"
    "chunk_count (stream_pool busy_client) = 4"
proof -
  have p: "snd (allocate_constructed (snd (allocate_constructed (construct_objects (pool_init 8 4 new_pool))))) =
    \<lparr>chunk_count = 4, chunk_size = 8, mem_size = 32, next_free_mem = 0, raw_free_list = [0, 1, 2, 3],
     constructed_free_list = [Some 0, Some 1, Some 2, Some 3], raw_free_size = 0, constructed_free_size = 2, construted_mode = True\<rparr>"
    by code_simp
  show "constructed_invar (stream_pool busy_client)" "constructed_free (stream_pool busy_client) = [0, 1]"
    "chunk_count (stream_pool busy_client) = 4"
    by (simp_all add: busy_client_def p constructed_invar_def constructed_free_def numeral_2_eq_2)
qed

lemma busy_queue: "spsc_invar (internal_out_queue busy_client)" "spsc_content (internal_out_queue busy_client) = [3]"
    "0 < spsc_room (internal_out_queue busy_client)"
proof -
  note i = spsc_init_fifo [OF refl, of 4, where 'a = nat]
  have r: "spsc_room (spsc_init 4 :: nat spsc) = 510" by (simp add: i(3) queue_size_def bit_len.simps)
  then have "fst (spsc_push True 3 (spsc_init 4 :: nat spsc)) = 0" using spsc_fifo.push_room [OF i(1)] by simp
  from spsc_fifo.push_takes [OF i(1) this] spsc_fifo.room_push [OF i(1), of 3] r
  show "spsc_invar (internal_out_queue busy_client)" "spsc_content (internal_out_queue busy_client) = [3]"
    "0 < spsc_room (internal_out_queue busy_client)"
    by (simp_all add: busy_client_def i(2))
qed

lemma busy_holds: "holds 4 [] busy_client"
proof -
  have s: "streams busy_client = [2, 3]" "out_queue busy_client = []" "linked_stream (store busy_client k) = None"
    "\<not> free_on_send (payload_of k busy_client)" "p_out (payload_of k busy_client)" for k
    by (simp_all add: busy_client_def new_gdt_client_def new_gdt_stream_def)
  show ?thesis
    by (simp add: holds_def busy_pool busy_queue(1) queue_ok_def owner_defs all_once_def s busy_queue(2) List.map_filter_simps)
qed

lemma early_packet_frees_twice_witness:
  "constructed_free (stream_pool (out_round silent (0, 9) (0, 9) (out_round silent (0, 9) (0, 9)
     (process_sf_continue silent 20 9 0 (new_message\<lparr>h_seq_num := [0, 0, 0, 7]\<rparr>) True 3 busy_client)))) = [0, 1, 3, 3]"
proof -
  have s: "streams busy_client = [2, 3]" "out_queue busy_client = []" "linked_stream (store busy_client 3) = None"
    "sequence_num (store busy_client 3) = 2"
    by (simp_all add: busy_client_def new_gdt_client_def new_gdt_stream_def)
  have "\<not> expected (new_message\<lparr>h_seq_num := [0, 0, 0, 7]\<rparr>) 3 busy_client"
    by (simp add: expected_def validate_seq_num_def s)
  from early_packet_frees_twice [OF silent_users(1) busy_holds _ s(3) busy_queue(2) s(2) busy_queue(3) this _ refl]
  show ?thesis by (simp add: s busy_pool)
qed

end
