(* ===== verification/GdtTalk.thy ===== *)
theory GdtTalk
  imports GdtRun
begin

text \<open>
  Two clients talking over one stream: the packets of the sequence protocol between the client
  that starts a stream and the one that answers, through the handlers of both ends.
\<close>

section \<open>The ends of a conversation\<close>

text \<open>A user whose methods leave the protocol's fields alone and ask for the stream to go on.\<close>

definition talker :: "methods \<Rightarrow> nat \<Rightarrow> bool" where
  "talker run i \<longleftrightarrow> (\<forall>m a c. streams (run m a c) = streams c \<and> in_stats (run m a c) = in_stats c \<and>
     (\<forall>k. uuid (store (run m a c) k) = uuid (store c k) \<and> sequence_num (store (run m a c) k) = sequence_num (store c k) \<and>
          sequence_reply_received (store (run m a c) k) = sequence_reply_received (store c k) \<and>
          linked_stream (store (run m a c) k) = linked_stream (store c k)) \<and>
     sequence_flag (store (run m a c) i) = GDT_SF_CONTINUE \<and> stream_callbacks (store (run m a c) i) GDT_ET_STREAM_NEXT \<noteq> None)"

text \<open>One end: the stream is the one of the id, not linked, and its user listens.\<close>

definition on_stream :: "octets \<Rightarrow> nat \<Rightarrow> u32 \<Rightarrow> bool \<Rightarrow> gdt_client \<Rightarrow> bool" where
  "on_stream u i k r c \<longleftrightarrow> get_stream (Some u) c = Some i \<and> linked_stream (store c i) = None \<and>
     sequence_num (store c i) = k \<and> sequence_reply_received (store c i) = r \<and> stream_callbacks (store c i) GDT_ET_STREAM_NEXT \<noteq> None"

text \<open>A packet of the stream that the other end has to accept.\<close>

definition packet :: "octets \<Rightarrow> u32 \<Rightarrow> gdt_message \<Rightarrow> bool" where
  "packet u k m \<longleftrightarrow> h_uuid m = u \<and> h_seq_num m = be_octets 4 k \<and> h_seq_flag m = [sf_continue]"

abbreviation sent_by :: "nat \<Rightarrow> gdt_client \<Rightarrow> gdt_message" where "sent_by i c \<equiv> raw_data (payload_of i c)"

lemma get_stream_frame:
  assumes "streams c' = streams c" and "\<And>k. uuid (store c' k) = uuid (store c k)"
  shows "get_stream u c' = get_stream u c"
  using assms(2) by (simp add: get_stream_def assms(1) split: option.split)

text \<open>The part of \<open>process_sf_continue\<close> before the callback of the stream and the part after it.\<close>

definition before_next :: "int \<Rightarrow> u64 \<Rightarrow> nat \<Rightarrow> gdt_client \<Rightarrow> gdt_client" where
  "before_next now len i c = upd i (\<lambda>s. (toggle_seq_reply_received (s\<lparr>timestamp := now\<rparr>))\<lparr>sequence_flag := GDT_SF_UNKNOWN\<rparr>)
     (in_stats_update (stream_bytes_update (add len)) c)"

definition after_next :: "u32 \<Rightarrow> gdt_message \<Rightarrow> nat \<Rightarrow> gdt_client \<Rightarrow> gdt_client" where
  "after_next sid oh i c = upd i step_number (upd i toggle_seq_reply_received (upd_payload i (\<lambda>p. p\<lparr>free_on_send := False, p_out := True\<rparr>)
     (generate_ack oh i (upd_payload i (sctp_sid_update (\<lambda>_. sid)) (upd i step_number c)))))"

lemma continue_shape:
  assumes "expected oh i c"
  shows "\<exists>a. process_sf_continue run now len sid oh remove i c =
    push_internal i (after_next sid oh i (stream_callback run GDT_ET_STREAM_NEXT a i (before_next now len i c)))"
  unfolding process_sf_continue_def Let_def if_P [OF assms] after_next_def before_next_def by (rule exI, rule refl)

lemma next_fields:
  assumes "sequence_flag (store d i) = GDT_SF_CONTINUE" and "sequence_reply_received (store d i) = r"
  shows "sequence_num (store (after_next sid oh i d) i) = sequence_num (store d i) + 1"
    "sequence_reply_received (store (after_next sid oh i d) i) = (\<not> r)"
    "linked_stream (store (after_next sid oh i d) k) = linked_stream (store d k)"
    "stream_callbacks (store (after_next sid oh i d) i) = stream_callbacks (store d i)"
    "uuid (store (after_next sid oh i d) k) = uuid (store d k)"
    "streams (after_next sid oh i d) = streams d" "in_stats (after_next sid oh i d) = in_stats d"
    "h_seq_num (sent_by i (after_next sid oh i d)) = be_octets 4 (sequence_num (store d i) + (if r then 1 else 0))"
    "h_uuid (sent_by i (after_next sid oh i d)) = h_uuid oh" "h_seq_flag (sent_by i (after_next sid oh i d)) = [sf_continue]"
  using assms by (simp_all add: after_next_def step_number_def generate_ack_def Let_def toggle_seq_reply_received_def inc_sequence_num_def)

lemma before_fields [simp]:
  "streams (before_next now len i c) = streams c" "stream_errors (in_stats (before_next now len i c)) = stream_errors (in_stats c)"
  "uuid (store (before_next now len i c) k) = uuid (store c k)" "linked_stream (store (before_next now len i c) k) = linked_stream (store c k)"
  "sequence_num (store (before_next now len i c) k) = sequence_num (store c k)"
  "sequence_reply_received (store (before_next now len i c) i) = (\<not> sequence_reply_received (store c i))"
  "stream_callbacks (store (before_next now len i c) k) = stream_callbacks (store c k)"
  by (simp_all add: before_next_def toggle_seq_reply_received_def)

text \<open>What a packet in sequence does to an end.\<close>

lemma packet_accepted:
  fixes now len sid
  assumes "talker run i" and "on_stream u i k r c" and "packet u k oh"
  defines "c' \<equiv> handle_message run now len sid oh c"
  shows "on_stream u i (k + 1) r c'" "packet u (if r then k else k + 1) (sent_by i c')"
    "stream_errors (in_stats c') = stream_errors (in_stats c)"
proof -
  let ?c = "c\<lparr>include_body := False, mem_switch := False, client_timestamp := now\<rparr>"
  have o: "get_stream (Some u) ?c = Some i" "linked_stream (store ?c i) = None" "sequence_num (store ?c i) = k"
    "sequence_reply_received (store ?c i) = r"
    using assms(2) by (simp_all add: on_stream_def get_stream_def)
  obtain m where m: "stream_callbacks (store c i) GDT_ET_STREAM_NEXT = Some m" using assms(2) by (auto simp: on_stream_def)
  have e: "expected oh i ?c" using assms(2,3) by (simp add: expected_def packet_def on_stream_def)
  have "c' = process_sf_continue run now len sid oh True i ?c"
    using assms(3) o(1,2) by (simp add: c'_def handle_message_def handle_continue_def sides_def packet_def Let_def)
  moreover from continue_shape [OF e] obtain a where "process_sf_continue run now len sid oh True i ?c =
      push_internal i (after_next sid oh i (stream_callback run GDT_ET_STREAM_NEXT a i (before_next now len i ?c)))" by blast
  ultimately obtain d where d: "c' = push_internal i (after_next sid oh i d)" "d = run m a (before_next now len i ?c)"
    using m by (simp add: stream_callback_def process_callback_def)
  note t = assms(1) [unfolded talker_def, rule_format, of m a "before_next now len i ?c", folded d(2)]
  have f: "sequence_flag (store d i) = GDT_SF_CONTINUE" "sequence_reply_received (store d i) = (\<not> r)" using t o by simp_all
  note n = next_fields [OF f, of sid oh]
  have g: "get_stream (Some u) c' = get_stream (Some u) ?c"
    by (rule get_stream_frame) (simp_all add: d(1) push_internal_def n t)
  have i: "store c' = store (after_next sid oh i d)" "in_stats c' = in_stats (after_next sid oh i d)"
    by (simp_all add: d(1) push_internal_def)
  show "on_stream u i (k + 1) r c'" unfolding on_stream_def g i n using o t by simp
  show "packet u (if r then k else k + 1) (sent_by i c')" unfolding packet_def i n using o t assms(3) by (simp add: packet_def)
  show "stream_errors (in_stats c') = stream_errors (in_stats c)" unfolding i n using t by simp
qed

section \<open>The start of a stream\<close>

text \<open>The client that starts a stream has sent its first packet.\<close>

lemma start_sent:
  assumes "new_stream now fresh (Some ty) did on_sent (Some m) c = (Some i, c1)" and "length fresh = 16"
    and "get_stream (Some fresh) c = None"
  shows "on_stream fresh i 1 False (send_stream b i c1)" "h_uuid (sent_by i (send_stream b i c1)) = fresh"
    "h_seq_num (sent_by i (send_stream b i c1)) = be_octets 4 1" "h_seq_flag (sent_by i (send_stream b i c1)) = [sf_start]"
    "in_stats (send_stream b i c1) = in_stats c"
proof -
  obtain c0 where a: "allocate_stream_pool c = (Some i, c0)"
    using assms(1) by (auto simp: new_stream_def split: prod.splits option.splits)
  have p: "store c0 = store c" "streams c0 = streams c" "in_stats c0 = in_stats c" "self c0 = self c"
    using a by (auto simp: allocate_stream_pool_def split: prod.splits)
  define s where "s = opened_stream now fresh (self c0) (Some ty) did on_sent (Some m) (store c0 i)"
  have c1: "c1 = add_stream i (upd i (\<lambda>_. s) c0)" using assms(1) by (simp add: new_stream_def a s_def)
  have s: "uuid s = fresh" "sequence_num s = 1" "\<not> sequence_reply_received s" "linked_stream s = None"
    "stream_callbacks s GDT_ET_STREAM_NEXT = Some m" "sequence_flag s = GDT_SF_START"
    by (simp_all add: s_def)
  define q where "q = send_stream b i c1"
  have q: "streams q = streams c @ [i]" "in_stats q = in_stats c" "\<And>k. k \<noteq> i \<Longrightarrow> store q k = store c k"
    "uuid (store q i) = fresh" "sequence_num (store q i) = 1" "\<not> sequence_reply_received (store q i)" "linked_stream (store q i) = None"
    "stream_callbacks (store q i) GDT_ET_STREAM_NEXT = Some m"
    by (simp_all add: q_def c1 send_stream_def Let_def add_stream_def push_out_queue_def ring_push_def p s)
  have find: "find P (xs @ [x]) = (case find P xs of Some y \<Rightarrow> Some y | None \<Rightarrow> if P x then Some x else None)" for P and xs :: "nat list" and x
    by (induction xs) simp_all
  have n: "find (\<lambda>k. take 16 (uuid (store c k)) = take 16 fresh) (streams c) = None" using assms(3) by (simp add: get_stream_def)
  have "get_stream (Some fresh) q = Some i"
  proof (cases "find (\<lambda>k. take 16 (uuid (store q k)) = take 16 fresh) (streams c)")
    case None
    then show ?thesis by (simp add: get_stream_def q(1) find q(4))
  next
    case (Some k)
    then have "k \<in> set (streams c)" "take 16 (uuid (store q k)) = take 16 fresh" by (auto simp: find_Some_iff)
    with n q(3) have "k = i" unfolding find_None_iff by metis
    with Some show ?thesis by (simp add: get_stream_def q(1) find)
  qed
  with q show "on_stream fresh i 1 False (send_stream b i c1)" by (simp add: on_stream_def q_def)
  show "h_uuid (sent_by i (send_stream b i c1)) = fresh" "h_seq_num (sent_by i (send_stream b i c1)) = be_octets 4 1"
    "h_seq_flag (sent_by i (send_stream b i c1)) = [sf_start]" "in_stats (send_stream b i c1) = in_stats c"
    using s q(2) by (simp_all add: q_def c1 send_stream_def Let_def add_stream_def push_out_queue_def ring_push_def
        generate_stream_header_def)
qed

text \<open>The client that answers has accepted it.\<close>

lemma find_snoc: "find P (xs @ [x]) = (case find P xs of Some y \<Rightarrow> Some y | None \<Rightarrow> if P x then Some x else None)"
  by (induction xs) simp_all

lemma start_accepted:
  fixes now len sid
  assumes "talker run j" and "fst (allocate_stream_pool c) = Some j" and "j \<notin> set (streams c)"
    and "get_stream (Some u) c = None" and "length u = 16"
    and "client_callbacks c GDT_ET_STREAM_NEW = Some m" and "h_uuid oh = u" "h_seq_num oh = be_octets 4 1" "h_seq_flag oh = [sf_start]"
  defines "c' \<equiv> handle_message run now len sid oh c"
  shows "on_stream u j 2 True c'" "packet u 1 (sent_by j c')" "stream_errors (in_stats c') = stream_errors (in_stats c)"
proof -
  let ?c = "in_stats_update (\<lambda>s. stream_bytes_update (add len) (strms_update (add 1) s)) (c\<lparr>include_body := False, mem_switch := False, client_timestamp := now\<rparr>)"
  define c0 where "c0 = snd (allocate_stream_pool ?c)"
  have a: "allocate_stream_pool ?c = (Some j, c0)" using assms(2)
    by (auto simp: c0_def allocate_stream_pool_def case_prod_beta)
  have p: "store c0 = store c" "streams c0 = streams c" "stream_errors (in_stats c0) = stream_errors (in_stats c)"
    "client_callbacks c0 = client_callbacks c"
    by (simp_all add: c0_def allocate_stream_pool_def case_prod_beta)
  have g: "get_stream (Some u) ?c = None" using assms(4) by (simp add: get_stream_def)
  have e: "c' = start_stream run now sid oh False j c0"
    using assms(7-9) a g by (simp add: c'_def handle_message_def handle_start_def Let_def)
  obtain f b where f: "start_stream run now sid oh False j c0 = push_internal j (upd j (\<lambda>s. inc_sequence_num (toggle_seq_reply_received s))
      (generate_ack oh j (client_callback run GDT_ET_STREAM_NEW b (upd j f (begin_stream now oh False j c0)))))"
    "\<And>s. linked_stream (f s) = linked_stream s" "\<And>s. uuid (f s) = uuid s" "\<And>s. sequence_num (f s) = sequence_num s"
    "\<And>s. sequence_reply_received (f s) = sequence_reply_received s"
    using start_begin [of run now sid oh False j c0] by auto
  define x where "x = upd j f (begin_stream now oh False j c0)"
  have x: "streams x = streams c @ [j]" "stream_errors (in_stats x) = stream_errors (in_stats c)" "client_callbacks x = client_callbacks c"
    "uuid (store x j) = u" "sequence_num (store x j) = 1" "\<not> sequence_reply_received (store x j)" "linked_stream (store x j) = None"
    "\<And>k. k \<noteq> j \<Longrightarrow> store x k = store c k"
    using assms(5,7) by (simp_all add: x_def begin_stream_def add_stream_def f p accepted_stream_def reset_stream_def set_uuid_def Let_def)
  define d where "d = run m b x"
  have cb: "client_callback run GDT_ET_STREAM_NEW b x = d" by (simp add: client_callback_def process_callback_def x(3) assms(6) d_def)
  note t = assms(1) [unfolded talker_def, rule_format, of m b x, folded d_def]
  have c': "c' = push_internal j (upd j (\<lambda>s. inc_sequence_num (toggle_seq_reply_received s)) (generate_ack oh j d))"
    unfolding e f(1) x_def [symmetric] cb ..
  have q: "streams c' = streams c @ [j]" "in_stats c' = in_stats x" "uuid (store c' j) = u" "sequence_num (store c' j) = 2"
    "sequence_reply_received (store c' j)" "linked_stream (store c' j) = None" "stream_callbacks (store c' j) GDT_ET_STREAM_NEXT \<noteq> None"
    "\<And>k. k \<noteq> j \<Longrightarrow> uuid (store c' k) = uuid (store c k)" "sent_by j c' = ack_message (daemon_type d) (daemon_id d) oh 1 GDT_SF_CONTINUE False (include_body d) (out_message (store d j))"
    using t x by (simp_all add: c' push_internal_def generate_ack_def Let_def inc_sequence_num_def toggle_seq_reply_received_def)
  have n: "find (\<lambda>k. take 16 (uuid (store c k)) = take 16 u) (streams c) = None" using assms(4) by (simp add: get_stream_def)
  have "find (\<lambda>k. take 16 (uuid (store c' k)) = take 16 u) (streams c) = None"
    using n assms(3) q(8) unfolding find_None_iff by metis
  then have "get_stream (Some u) c' = Some j" by (simp add: get_stream_def q find_snoc)
  then show "on_stream u j 2 True c'" using q by (simp add: on_stream_def)
  show "packet u 1 (sent_by j c')" by (simp add: packet_def q(9) assms(7))
  show "stream_errors (in_stats c') = stream_errors (in_stats c)" using q(2) x(2) by simp
qed

section \<open>The conversation\<close>

text \<open>Each round the client that started the stream gets the other's packet, and answers it.\<close>

fun talk_rounds :: "methods \<Rightarrow> methods \<Rightarrow> int \<Rightarrow> u64 \<Rightarrow> u32 \<Rightarrow> nat \<Rightarrow> nat \<Rightarrow> nat \<Rightarrow> gdt_client \<times> gdt_client \<Rightarrow> gdt_client \<times> gdt_client" where
  "talk_rounds runA runB now len sid i j 0 (a, b) = (a, b)"
| "talk_rounds runA runB now len sid i j (Suc r) (a, b) =
     (let a = handle_message runA now len sid (sent_by j b) a;
          b = handle_message runB now len sid (sent_by i a) b
      in talk_rounds runA runB now len sid i j r (a, b))"

lemma rounds_in_sequence:
  assumes "talker runA i" and "talker runB j"
    and "on_stream u i k False a" and "on_stream u j (k + 1) True b" and "packet u k (sent_by j b)"
    and "talk_rounds runA runB now len sid i j r (a, b) = (a', b')"
  shows "on_stream u i (k + of_nat r) False a' \<and> on_stream u j (k + of_nat r + 1) True b' \<and>
    stream_errors (in_stats a') = stream_errors (in_stats a) \<and> stream_errors (in_stats b') = stream_errors (in_stats b)"
  using assms(3-6)
proof (induction r arbitrary: a b k)
  case (Suc r)
  let ?a = "handle_message runA now len sid (sent_by j b) a"
  let ?b = "handle_message runB now len sid (sent_by i ?a) b"
  note pa = packet_accepted [OF assms(1) Suc.prems(1,3), of now len sid, simplified]
  note pb = packet_accepted [OF assms(2) Suc.prems(2) pa(2), of now len sid, simplified]
  from Suc.IH [OF pa(1), of ?b] pb Suc.prems(4) pa(3) show ?case by (simp add: algebra_simps Let_def)
qed simp

section \<open>Properties\<close>

text \<open>
  C2. The sequence protocol keeps in step: when a client starts a stream and the other end accepts
  it, and both users let it go on, then after any number of rounds no packet has been taken for
  out of sequence at either end, and the two ends are at the sequence numbers one apart that the
  number of rounds says (modulo two to the 32).
\<close>

theorem conversation_in_sequence:
  assumes "talker runA i" and "talker runB j" and "length u = 16"
    and "new_stream t u (Some ty) did on_sent (Some m) a = (Some i, a1)" and "get_stream (Some u) a = None"
    and "fst (allocate_stream_pool b) = Some j" and "j \<notin> set (streams b)" and "get_stream (Some u) b = None"
    and "client_callbacks b GDT_ET_STREAM_NEW = Some mb"
    and "a2 = send_stream body i a1" and "b2 = handle_message runB now len sid (sent_by i a2) b"
    and "talk_rounds runA runB now len sid i j r (a2, b2) = (a', b')"
  shows "stream_errors (in_stats a') = stream_errors (in_stats a) \<and> stream_errors (in_stats b') = stream_errors (in_stats b) \<and>
    sequence_num (store a' i) = 1 + of_nat r \<and> sequence_num (store b' j) = 2 + of_nat r"
proof -
  note sa = start_sent [OF assms(4,3,5), of body, folded assms(10)]
  note sb = start_accepted [OF assms(2,6,7,8,3,9) sa(2-4), of now len sid, folded assms(11)]
  have "on_stream u j (1 + 1) True b2" using sb(1) by simp
  from rounds_in_sequence [OF assms(1,2) sa(1) this sb(2) assms(12)] sa(5) sb(3)
  show ?thesis by (simp add: on_stream_def algebra_simps)
qed

text \<open>
  C7. A packet of a stream that is not known, to go on with it or to end it (flags continue, continue_wait, end), is
  answered when the pool has a stream left and the output queue has room:
  one payload is queued that goes back to the sender with the id and the number received and the
  error for an unknown sequence; no other stream changes. Without a stream left nothing is
  queued and no stream changes. A packet that completes an unknown stream is dropped without an answer.
\<close>

theorem unknown_stream_answered:
  assumes "holds n [] c" and "get_stream (Some (h_uuid oh)) c = None" and "c' = handle_message run now len sid oh c"
  shows "(h_seq_flag oh = [sf_continue] \<or> h_seq_flag oh = [sf_continue_wait] \<or> h_seq_flag oh = [sf_end] \<longrightarrow>
      (case fst (allocate_stream_pool c) of
         None \<Rightarrow> internal_out_queue c' = internal_out_queue c \<and> streams c' = streams c \<and> store c' = store c
       | Some i \<Rightarrow> streams c' = streams c \<and> (\<forall>k. k \<noteq> i \<longrightarrow> store c' k = store c k) \<and> free_on_send (payload_of i c') \<and>
           (0 < spsc_room (internal_out_queue c) \<longrightarrow>
              spsc_content (internal_out_queue c') = spsc_content (internal_out_queue c) @ [i]) \<and>
           (let m = raw_data (payload_of i c') in h_uuid m = h_uuid oh \<and> h_seq_num m = h_seq_num oh \<and>
              h_seq_flag m = [sf_stream_complete] \<and> h_status m = Some [err_unknown_sequence] \<and>
              h_dst_type m = h_src_type oh \<and> h_dst_id m = h_src_id oh))) \<and>
    (h_seq_flag oh = [sf_stream_complete] \<longrightarrow>
       internal_out_queue c' = internal_out_queue c \<and> streams c' = streams c \<and> store c' = store c)"
proof (intro conjI impI)
  let ?c = "c\<lparr>include_body := False, mem_switch := False, client_timestamp := now\<rparr>"
  let ?d = "in_stats_update (stream_errors_update (add 1)) ?c"
  have g: "get_stream (Some (h_uuid oh)) ?c = None" using assms(2) by (simp add: get_stream_def)
  assume f: "h_seq_flag oh = [sf_continue] \<or> h_seq_flag oh = [sf_continue_wait] \<or> h_seq_flag oh = [sf_end]"
  have u: "c' = unknown_stream sid oh ?c"
    using f g unfolding assms(3) handle_message_def Let_def
    by (auto simp: handle_continue_def handle_continue_wait_def handle_end_def)
  obtain x p where p: "allocate_constructed (stream_pool c) = (x, p)" by (cases "allocate_constructed (stream_pool c)")
  have x: "fst (allocate_stream_pool c) = x" by (simp add: allocate_stream_pool_def p)
  have a: "allocate_stream_pool ?d = (x, ?d\<lparr>stream_pool := p\<rparr>)" by (simp add: allocate_stream_pool_def p)
  have q: "spsc_invar (internal_out_queue c)" by (rule holds_queue [OF assms(1)])
  show "case fst (allocate_stream_pool c) of
         None \<Rightarrow> internal_out_queue c' = internal_out_queue c \<and> streams c' = streams c \<and> store c' = store c
       | Some i \<Rightarrow> streams c' = streams c \<and> (\<forall>k. k \<noteq> i \<longrightarrow> store c' k = store c k) \<and> free_on_send (payload_of i c') \<and>
           (0 < spsc_room (internal_out_queue c) \<longrightarrow>
              spsc_content (internal_out_queue c') = spsc_content (internal_out_queue c) @ [i]) \<and>
           (let m = raw_data (payload_of i c') in h_uuid m = h_uuid oh \<and> h_seq_num m = h_seq_num oh \<and>
              h_seq_flag m = [sf_stream_complete] \<and> h_status m = Some [err_unknown_sequence] \<and>
              h_dst_type m = h_src_type oh \<and> h_dst_id m = h_src_id oh)"
  proof (cases x)
    case None
    then show ?thesis by (simp add: x u unknown_stream_def answer_def a)
  next
    case (Some i)
    have c': "c' = push_internal i (reply_err None (Some GDT_ST_UNKNOWN) sid oh None None err_unknown_sequence i (?d\<lparr>stream_pool := p\<rparr>))"
      by (simp add: u unknown_stream_def answer_def a Some)
    have "spsc_content (internal_out_queue c') = spsc_content (internal_out_queue c) @ [i]"
      if "0 < spsc_room (internal_out_queue c)"
    proof -
      have "fst (spsc_push True i (internal_out_queue c)) = 0" using spsc_fifo.push_room [OF q] that by simp
      from spsc_fifo.push_takes [OF q this] show ?thesis by (simp add: c' push_internal_def reply_err_def Let_def)
    qed
    then show ?thesis
      by (simp add: x Some c' push_internal_def reply_err_def Let_def generate_err_def setup_dest_and_uuid_def)
  qed
next
  let ?c = "c\<lparr>include_body := False, mem_switch := False, client_timestamp := now\<rparr>"
  assume f: "h_seq_flag oh = [sf_stream_complete]"
  have "get_stream (Some (h_uuid oh)) ?c = None" using assms(2) by (simp add: get_stream_def)
  then have "c' = ?c" using f unfolding assms(3) handle_message_def Let_def by (simp add: handle_stream_complete_def)
  then show "internal_out_queue c' = internal_out_queue c" "streams c' = streams c" "store c' = store c" by simp_all
qed

lemma unknown_stream_answered_witness:
  "\<exists>i. spsc_content (internal_out_queue (handle_message silent 20 9 0 (new_message\<lparr>h_uuid := [1], h_seq_num := [0, 0, 0, 7],
      h_seq_flag := [sf_end]\<rparr>) busy_client)) = [3, i]"
proof -
  let ?m = "new_message\<lparr>h_uuid := [1], h_seq_num := [0, 0, 0, 7], h_seq_flag := [sf_end]\<rparr>"
  have g: "get_stream (Some (h_uuid ?m)) busy_client = None"
    by (simp add: get_stream_def busy_client_def new_gdt_client_def new_gdt_stream_def numeral_eq_Suc)
  have "constructed_free (stream_pool busy_client) = [0] @ [1]" by (simp add: busy_pool)
  from constructed_pool.alloc_takes [OF busy_pool(1) this] obtain p where "allocate_constructed (stream_pool busy_client) = (Some 1, p)" by blast
  then have a: "allocate_stream_pool busy_client = (Some 1, busy_client\<lparr>stream_pool := p\<rparr>)" by (simp add: allocate_stream_pool_def)
  from unknown_stream_answered [OF busy_holds g refl, of silent 20 9 0] busy_queue(3) show ?thesis by (auto simp: busy_queue(2) a)
qed

text \<open>Two clients whose users let every stream go on.\<close>

definition chatty :: methods where
  "chatty m a c = c\<lparr>store := (\<lambda>k. (store c k)\<lparr>sequence_flag := GDT_SF_CONTINUE,
     stream_callbacks := (stream_callbacks (store c k))(GDT_ET_STREAM_NEXT := Some 1)\<rparr>)\<rparr>"

lemma chatty_talker: "talker chatty i" by (simp add: talker_def chatty_def)

definition idle_client :: gdt_client where
  "idle_client = (new_gdt_client 0 [97] [98] 10)\<lparr>stream_pool := construct_objects (pool_init 8 2 new_pool),
     client_callbacks := no_callbacks(GDT_ET_STREAM_NEW := Some 2)\<rparr>"

lemma idle_fields: "streams idle_client = []" "client_callbacks idle_client GDT_ET_STREAM_NEW = Some 2"
    "allocate_stream_pool idle_client = (Some 1, snd (allocate_stream_pool idle_client))"
proof -
  have "fst (allocate_constructed (construct_objects (pool_init 8 2 new_pool))) = Some 1" by code_simp
  then show "streams idle_client = []" "client_callbacks idle_client GDT_ET_STREAM_NEW = Some 2"
    "allocate_stream_pool idle_client = (Some 1, snd (allocate_stream_pool idle_client))"
    by (simp_all add: idle_client_def new_gdt_client_def allocate_stream_pool_def case_prod_beta)
qed

lemma conversation_in_sequence_witness:
  "let a = send_stream False 1 (snd (new_stream 0 (replicate 16 7) (Some [99]) None None (Some 3) idle_client));
       b = handle_message chatty 0 10 0 (sent_by 1 a) idle_client;
       (a', b') = talk_rounds chatty chatty 0 10 0 1 1 5 (a, b)
   in stream_errors (in_stats a') = 0 \<and> stream_errors (in_stats b') = 0 \<and> sequence_num (store a' 1) = 6 \<and> sequence_num (store b' 1) = 7"
proof -
  define a where "a = send_stream False 1 (snd (new_stream 0 (replicate 16 7) (Some [99]) None None (Some 3) idle_client))"
  define b where "b = handle_message chatty 0 10 0 (sent_by 1 a) idle_client"
  obtain a' b' where t: "talk_rounds chatty chatty 0 10 0 1 1 5 (a, b) = (a', b')" by (metis surj_pair)
  have n: "new_stream 0 (replicate 16 7) (Some [99]) None None (Some 3) idle_client =
      (Some 1, snd (new_stream 0 (replicate 16 7) (Some [99]) None None (Some 3) idle_client))"
    by (simp add: new_stream_def) (subst (1 2) idle_fields(3), simp)
  have g: "get_stream (Some u) idle_client = None" for u by (simp add: get_stream_def idle_fields)
  have s: "stream_errors (in_stats idle_client) = 0" by (simp add: idle_client_def new_gdt_client_def new_stats_def)
  have f: "fst (allocate_stream_pool idle_client) = Some 1" using idle_fields(3) by (metis fst_conv)
  from conversation_in_sequence [OF chatty_talker chatty_talker _ n g f _ g idle_fields(2) a_def b_def t] s idle_fields(1)
  have "stream_errors (in_stats a') = 0 \<and> stream_errors (in_stats b') = 0 \<and> sequence_num (store a' 1) = 6 \<and> sequence_num (store b' 1) = 7"
    by simp
  then show ?thesis unfolding Let_def a_def [symmetric] b_def [symmetric] t prod.case .
qed

end
