(* ===== verification/GdtSession.thy ===== *)
theory GdtSession
  imports Wrr ParamMap Hashing GdtRun
begin

text \<open>
  The session of a daemon and its routing (\<^verbatim>\<open>GDTSession\<close>, \<^verbatim>\<open>RouteHandlerMethod\<close>,
  \<^verbatim>\<open>WRRRouteHandler\<close> of \<^verbatim>\<open>src/src/gdt/gdt.cpp\<close>): the list of clients, the routing handlers
  and the search for a route. A client is its number; \<^verbatim>\<open>GDTClient*\<close> that the handlers keep are
  such numbers, so that a pointer to a client that is gone stays visible. The locks make each
  operation one step.
\<close>

section \<open>State\<close>

text \<open>The tables of the weighted handler are keyed by the hash of the daemon type.\<close>

type_synonym wrr_map = "u32 \<Rightarrow> nat option wrr option"

datatype route_handler = Route_handler_method | Wrr_route_handler wrr_map

record gdt_session =
  session_type :: octets
  session_id :: octets
  session_router :: bool
  clients :: "nat list"
  peers :: "nat \<Rightarrow> gdt_client"
  rh_method :: "route_handler option"
  session_callbacks :: callbacks
  session_threads :: u32

datatype GDTRoutingAlgorithm = GDT_RA_AUTO | GDT_RA_WRR

abbreviation peer_upd :: "nat \<Rightarrow> (gdt_client \<Rightarrow> gdt_client) \<Rightarrow> gdt_session \<Rightarrow> gdt_session" where
  "peer_upd k f s \<equiv> s\<lparr>peers := (peers s)(k := f (peers s k))\<rparr>"

definition grab :: "nat \<Rightarrow> gdt_session \<Rightarrow> gdt_session" where "grab k s = peer_upd k (\<lambda>c. snd (inc_refc c)) s"
definition ungrab :: "nat \<Rightarrow> gdt_session \<Rightarrow> gdt_session" where "ungrab k s = peer_upd k (\<lambda>c. snd (dec_refc c)) s"

text \<open>A daemon name as the C string that the scheduler stores, and the hash of a name.\<close>

definition chars :: "octets \<Rightarrow> char list" where "chars d = map (\<lambda>b. char_of (unat b)) d"

definition name_hash :: "octets \<Rightarrow> u32" where
  "name_hash d = (case hash_fnv1a (Some d) (int (length d)) of Some h \<Rightarrow> h | None \<Rightarrow> 0)"

section \<open>The weighted handler\<close>

text \<open>
  \<^verbatim>\<open>run\<close> hashes the whole type name of the first client it is given; the operations that fill
  the tables hash its first 16 octets.
\<close>

definition wrr_key :: "octets \<Rightarrow> u32" where "wrr_key ty = name_hash (take 16 ty)"

definition wrr_add_node :: "nat option \<Rightarrow> octets option \<Rightarrow> octets \<Rightarrow> u32 vpmap option \<Rightarrow> wrr_map \<Rightarrow> (nat option \<times> wrr_map) option" where
  "wrr_add_node g ty i ps m = (case (ty, ps) of
     (Some ty, Some ps) \<Rightarrow>
       (let h = wrr_key ty;
            w = (case m h of Some w \<Rightarrow> w | None \<Rightarrow> new_wrr);
            m = m(h \<mapsto> w)
        in case ParamMap.get_param (PT 0 0 0 0) ps of
             None \<Rightarrow> Some (None, m)
           | Some vp \<Rightarrow> Option.bind (to_int vp) (\<lambda>wt.
               let w = snd (add_item g (chars i) wt w);
                   w = snd (if g = None then disable (Some (chars i)) w else enable (Some (chars i)) w)
               in Some (wrr_get (Some (chars i)) w, m(h \<mapsto> w))))
   | _ \<Rightarrow> Some (None, m))"

definition wrr_get_node :: "octets option \<Rightarrow> octets option \<Rightarrow> wrr_map \<Rightarrow> nat option" where
  "wrr_get_node ty i m = (case (ty, i) of
     (Some ty, Some i) \<Rightarrow> (case m (wrr_key ty) of None \<Rightarrow> None | Some w \<Rightarrow> wrr_get (Some (chars i)) w)
   | _ \<Rightarrow> None)"

definition wrr_remove_type :: "octets option \<Rightarrow> wrr_map \<Rightarrow> int \<times> wrr_map" where
  "wrr_remove_type ty m = (case ty of None \<Rightarrow> (1, m)
     | Some ty \<Rightarrow> if m (name_hash ty) = None then (1, m) else (0, m(name_hash ty := None)))"

definition wrr_remove_node :: "octets option \<Rightarrow> octets option \<Rightarrow> wrr_map \<Rightarrow> int \<times> wrr_map" where
  "wrr_remove_node ty i m = (case ty of None \<Rightarrow> (1, m)
     | Some ty \<Rightarrow> (case m (wrr_key ty) of None \<Rightarrow> (1, m)
        | Some w \<Rightarrow> (0, m(wrr_key ty \<mapsto> snd (wrr_remove (map_option chars i) w)))))"

definition set_item :: "nat \<Rightarrow> 'd \<Rightarrow> 'd wrr \<Rightarrow> 'd wrr" where
  "set_item j d w = w\<lparr>items := (items w)[j := (items w ! j)\<lparr>wi_item := d\<rparr>]\<rparr>"

definition wrr_update_client :: "nat option \<Rightarrow> octets option \<Rightarrow> octets option \<Rightarrow> wrr_map \<Rightarrow> nat option \<times> wrr_map" where
  "wrr_update_client g ty i m = (case (ty, i) of
     (Some ty, Some i) \<Rightarrow>
       (case m (wrr_key ty) of None \<Rightarrow> (None, m)
        | Some w \<Rightarrow> (case wrr_get (Some (chars i)) w of None \<Rightarrow> (None, m)
           | Some j \<Rightarrow>
              (let w = set_item j g w;
                   w = snd (if g = None then disable_item (Some j) w else enable_item (Some j) w)
               in (Some j, m(wrr_key ty \<mapsto> w)))))
   | _ \<Rightarrow> (None, m))"

definition wrr_clear_map :: "wrr_map \<Rightarrow> wrr_map" where "wrr_clear_map m = (\<lambda>_. None)"

section \<open>The handlers\<close>

definition add_node :: "nat option \<Rightarrow> octets option \<Rightarrow> octets \<Rightarrow> u32 vpmap option \<Rightarrow> route_handler \<Rightarrow> (nat option \<times> route_handler) option" where
  "add_node g ty i ps h = (case h of Route_handler_method \<Rightarrow> Some (None, h)
     | Wrr_route_handler m \<Rightarrow> map_option (\<lambda>(r, m). (r, Wrr_route_handler m)) (wrr_add_node g ty i ps m))"

definition get_node :: "octets option \<Rightarrow> octets option \<Rightarrow> route_handler \<Rightarrow> nat option" where
  "get_node ty i h = (case h of Route_handler_method \<Rightarrow> None | Wrr_route_handler m \<Rightarrow> wrr_get_node ty i m)"

definition remove_type :: "octets option \<Rightarrow> route_handler \<Rightarrow> int \<times> route_handler" where
  "remove_type ty h = (case h of Route_handler_method \<Rightarrow> (0, h)
     | Wrr_route_handler m \<Rightarrow> apsnd Wrr_route_handler (wrr_remove_type ty m))"

definition remove_node :: "octets option \<Rightarrow> octets option \<Rightarrow> route_handler \<Rightarrow> int \<times> route_handler" where
  "remove_node ty i h = (case h of Route_handler_method \<Rightarrow> (0, h)
     | Wrr_route_handler m \<Rightarrow> apsnd Wrr_route_handler (wrr_remove_node ty i m))"

definition update_client :: "nat option \<Rightarrow> octets option \<Rightarrow> octets option \<Rightarrow> route_handler \<Rightarrow> nat option \<times> route_handler" where
  "update_client g ty i h = (case h of Route_handler_method \<Rightarrow> (None, h)
     | Wrr_route_handler m \<Rightarrow> apsnd Wrr_route_handler (wrr_update_client g ty i m))"

definition clear_handler :: "route_handler \<Rightarrow> route_handler" where
  "clear_handler h = (case h of Route_handler_method \<Rightarrow> h | Wrr_route_handler m \<Rightarrow> Wrr_route_handler (wrr_clear_map m))"

text \<open>
  The choice among the clients that match: the first one when no handler is set, what the
  handler says otherwise. The base class hands the first one out without a reference.
\<close>

definition first_route :: "nat list \<Rightarrow> gdt_session \<Rightarrow> nat list \<times> gdt_session" where
  "first_route all s = (case all of [] \<Rightarrow> ([], s) | k # _ \<Rightarrow> ([k], grab k s))"

definition base_route :: "nat list \<Rightarrow> gdt_session \<Rightarrow> nat list \<times> gdt_session" where
  "base_route all s = (take 1 all, s)"

definition wrr_route :: "wrr_map \<Rightarrow> nat list \<Rightarrow> gdt_session \<Rightarrow> nat list \<times> gdt_session" where
  "wrr_route m all s = (case all of [] \<Rightarrow> ([], s)
     | k # _ \<Rightarrow>
        (let h = name_hash (end_point_type (peers s k))
         in case m h of None \<Rightarrow> ([k], grab k s)
            | Some w \<Rightarrow>
               (let (r, w) = wrr_run w; s = s\<lparr>rh_method := Some (Wrr_route_handler (m(h \<mapsto> w)))\<rparr>
                in case r of None \<Rightarrow> ([], s)
                   | Some j \<Rightarrow> (case wi_item (items w ! j) of None \<Rightarrow> ([], s) | Some d \<Rightarrow> ([d], grab d s)))))"

definition choose_route :: "nat list \<Rightarrow> gdt_session \<Rightarrow> nat list \<times> gdt_session" where
  "choose_route all s = (case rh_method s of None \<Rightarrow> first_route all s
     | Some Route_handler_method \<Rightarrow> base_route all s
     | Some (Wrr_route_handler m) \<Rightarrow> wrr_route m all s)"

section \<open>Clients of a session\<close>

definition new_session :: "octets \<Rightarrow> octets \<Rightarrow> bool \<Rightarrow> (nat \<Rightarrow> gdt_client) \<Rightarrow> gdt_session" where
  "new_session ty i rt ps = \<lparr>session_type = ty, session_id = i, session_router = rt, clients = [], peers = ps,
     rh_method = None, session_callbacks = no_callbacks, session_threads = 0\<rparr>"

definition set_routing_algo :: "GDTRoutingAlgorithm \<Rightarrow> gdt_session \<Rightarrow> gdt_session" where
  "set_routing_algo a s = (case a of GDT_RA_AUTO \<Rightarrow> s\<lparr>rh_method := None\<rparr>
     | GDT_RA_WRR \<Rightarrow> s\<lparr>rh_method := Some (Wrr_route_handler (\<lambda>_. None))\<rparr>)"

definition get_client :: "nat \<Rightarrow> gdt_session \<Rightarrow> nat option" where
  "get_client k s = (if k \<in> set (clients s) then Some k else None)"

definition get_client_at :: "nat \<Rightarrow> gdt_session \<Rightarrow> nat option" where
  "get_client_at j s = (if j < length (clients s) then Some (clients s ! j) else None)"

definition get_registered_client_at :: "nat \<Rightarrow> gdt_session \<Rightarrow> nat option" where
  "get_registered_client_at j s = (let ks = filter (\<lambda>k. registered (peers s k)) (clients s)
     in if j < length ks then Some (ks ! j) else None)"

definition get_registered_client_of :: "octets \<Rightarrow> gdt_session \<Rightarrow> nat option" where
  "get_registered_client_of ty s =
     (let ks = filter (\<lambda>k. registered (peers s k) \<and> ty = end_point_type (peers s k)) (clients s)
      in if ks \<noteq> [] then Some (hd ks) else None)"

definition get_registered_client :: "octets \<Rightarrow> octets \<Rightarrow> gdt_session \<Rightarrow> nat option" where
  "get_registered_client ty i s =
     find (\<lambda>k. registered (peers s k) \<and> ty = end_point_type (peers s k) \<and> i = end_point_id (peers s k)) (clients s)"

definition add_client :: "nat \<Rightarrow> gdt_session \<Rightarrow> gdt_session" where "add_client k s = s\<lparr>clients := clients s @ [k]\<rparr>"

definition get_client_count :: "gdt_session \<Rightarrow> nat" where "get_client_count s = length (clients s)"

definition remove_client_at :: "nat \<Rightarrow> gdt_session \<Rightarrow> int \<times> gdt_session" where
  "remove_client_at j s = (if j < length (clients s) then (0, s\<lparr>clients := erase_at j (clients s)\<rparr>) else (-1, s))"

text \<open>
  \<^verbatim>\<open>remove_client\<close>: the client leaves the list and the routing table, then the call waits until
  nobody else holds it. \<open>unlink_client\<close> is the part before the wait; \<^term>\<open>None\<close> is a call that
  waits.
\<close>

type_synonym session_methods = "nat \<Rightarrow> cb_args \<Rightarrow> gdt_session \<Rightarrow> gdt_session"

definition unlink_client :: "nat \<Rightarrow> gdt_session \<Rightarrow> gdt_session" where
  "unlink_client k s =
     (let s = s\<lparr>clients := remove1 k (clients s)\<rparr>;
          c = peers s k
      in ungrab k (s\<lparr>rh_method := map_option (\<lambda>h. snd (update_client None (Some (end_point_type c)) (Some (end_point_id c)) h)) (rh_method s)\<rparr>))"

definition remove_client :: "session_methods \<Rightarrow> nat option \<Rightarrow> gdt_session \<Rightarrow> (int \<times> gdt_session) option" where
  "remove_client run p s = (case p of None \<Rightarrow> Some (-1, s)
     | Some k \<Rightarrow>
        if k \<notin> set (clients s) then Some (-1, s)
        else (let s = unlink_client k s
              in if ref_counter (peers s k) \<noteq> 0 then None
                 else (let s = peer_upd k drain_queues s;
                           a = add_arg GDT_CB_INPUT_ARGS GDT_CB_ARG_CLIENT (Some (Arg_client k)) (clear_all_args new_args);
                           s = snd (process_callback run GDT_ET_CLIENT_DESTROYED a (session_callbacks s) s)
                       in Some (0, s\<lparr>session_threads := session_threads s - 1\<rparr>))))"

section \<open>The search for a route\<close>

definition usable :: "gdt_session \<Rightarrow> nat \<Rightarrow> bool" where
  "usable s k \<longleftrightarrow> registered (peers s k) \<and> active (peers s k)"

text \<open>The clients that match are held while the handler chooses.\<close>

definition choose_held :: "nat list \<Rightarrow> gdt_session \<Rightarrow> nat list \<times> gdt_session" where
  "choose_held all s = (let (rs, s) = choose_route all (fold grab all s) in (rs, fold ungrab all s))"

definition find_route :: "nat \<Rightarrow> octets option \<Rightarrow> octets option \<Rightarrow> nat list \<Rightarrow> gdt_session \<Rightarrow> int \<times> nat list \<times> gdt_session" where
  "find_route k dtype did rs s = (case dtype of None \<Rightarrow> (1, rs, s)
     | Some ty \<Rightarrow>
        (case did of
           None \<Rightarrow>
             if session_type s = ty then (0, rs @ [k], s)
             else (let (cs, s) = choose_held (filter (\<lambda>j. usable s j \<and> end_point_type (peers s j) = ty) (clients s)) s
                   in (0, rs @ cs, s))
         | Some i \<Rightarrow>
             if i = [42] then (0, rs @ filter (\<lambda>j. usable s j \<and> end_point_type (peers s j) = ty \<and> j \<noteq> k) (clients s), s)
             else if session_type s = ty \<and> session_id s = i then (0, rs @ [k], s)
             else (case find (\<lambda>j. usable s j \<and> end_point_type (peers s j) = ty \<and> end_point_id (peers s j) = i) (clients s) of
                     Some j \<Rightarrow> (0, rs @ [j], grab j s)
                   | None \<Rightarrow> (let (cs, s) = choose_held [] s in (0, rs @ cs, s)))))"

section \<open>References\<close>

text \<open>
  The contract of a choice among held clients: it changes nothing but the counters and the state
  of the handler, and every client it returns has one reference more for each time it is returned.
\<close>

definition sans_refs :: "gdt_session \<Rightarrow> gdt_session" where
  "sans_refs s = s\<lparr>rh_method := None, peers := (\<lambda>k. (peers s k)\<lparr>ref_counter := 0\<rparr>)\<rparr>"

abbreviation refs :: "gdt_session \<Rightarrow> nat \<Rightarrow> u32" where "refs s k \<equiv> ref_counter (peers s k)"

lemma sans_grab [simp]: "sans_refs (grab k s) = sans_refs s" "sans_refs (ungrab k s) = sans_refs s"
  by (auto simp: sans_refs_def grab_def ungrab_def inc_refc_def dec_refc_def fun_eq_iff)

lemma sans_handler [simp]: "sans_refs (s\<lparr>rh_method := h\<rparr>) = sans_refs s"
  by (simp add: sans_refs_def)

lemma sans_fold [simp]: "sans_refs (fold grab ks s) = sans_refs s" "sans_refs (fold ungrab ks s) = sans_refs s"
  by (induction ks arbitrary: s) simp_all

lemma handler_grab [simp]: "rh_method (grab k s) = rh_method s" "rh_method (ungrab k s) = rh_method s"
  by (simp_all add: grab_def ungrab_def)

lemma handler_fold [simp]: "rh_method (fold grab ks s) = rh_method s" "rh_method (fold ungrab ks s) = rh_method s"
  by (induction ks arbitrary: s) simp_all

lemma refs_grab: "refs (grab k s) j = refs s j + (if j = k then 1 else 0)" "refs (ungrab k s) j = refs s j - (if j = k then 1 else 0)"
  by (simp_all add: grab_def ungrab_def inc_refc_def dec_refc_def)

lemma refs_fold: "refs (fold grab ks s) j = refs s j + of_nat (count_list ks j)" "refs (fold ungrab ks s) j = refs s j - of_nat (count_list ks j)"
  by (induction ks arbitrary: s) (auto simp: refs_grab algebra_simps)

definition held :: "(nat list \<Rightarrow> gdt_session \<Rightarrow> nat list \<times> gdt_session) \<Rightarrow> nat list \<Rightarrow> gdt_session \<Rightarrow> nat list \<times> gdt_session" where
  "held pick all s = (let (rs, s) = pick all (fold grab all s) in (rs, fold ungrab all s))"

locale route_chooser =
  fixes pick :: "nat list \<Rightarrow> gdt_session \<Rightarrow> nat list \<times> gdt_session"
  assumes frame: "sans_refs (snd (pick all s)) = sans_refs s"
    and counted: "refs (snd (pick all s)) k = refs s k + of_nat (count_list (fst (pick all s)) k)"
begin

lemma held_frame: "sans_refs (snd (held pick all s)) = sans_refs s"
  by (simp add: held_def frame case_prod_beta)

lemma held_counted: "refs (snd (held pick all s)) k = refs s k + of_nat (count_list (fst (held pick all s)) k)"
  by (simp add: held_def counted refs_fold case_prod_beta)

end

interpretation first_choice: route_chooser first_route
  by unfold_locales (auto simp: first_route_def refs_grab split: list.split)

interpretation wrr_choice: route_chooser "wrr_route m"
  by unfold_locales (auto simp: wrr_route_def refs_grab Let_def case_prod_beta split: list.split option.split)

text \<open>The base class is no such choice: its client has no reference of its own.\<close>

lemma base_not_counted: "refs (snd (held base_route all s)) k = refs s k"
  by (simp add: held_def base_route_def refs_fold)

definition counting :: "gdt_session \<Rightarrow> bool" where "counting s \<longleftrightarrow> rh_method s \<noteq> Some Route_handler_method"

lemma choose_held_as: "rh_method s = None \<Longrightarrow> choose_held all s = held first_route all s"
  "rh_method s = Some (Wrr_route_handler m) \<Longrightarrow> choose_held all s = held (wrr_route m) all s"
  by (simp_all add: choose_held_def held_def choose_route_def)

lemma choose_held_counted:
  assumes "counting s"
  shows "sans_refs (snd (choose_held all s)) = sans_refs s"
    "refs (snd (choose_held all s)) k = refs s k + of_nat (count_list (fst (choose_held all s)) k)"
proof -
  consider "rh_method s = None" | m where "rh_method s = Some (Wrr_route_handler m)"
    using assms unfolding counting_def by (metis option.exhaust route_handler.exhaust)
  note cases = this
  show "sans_refs (snd (choose_held all s)) = sans_refs s"
    by (rule cases) (simp_all add: choose_held_as first_choice.held_frame wrr_choice.held_frame)
  show "refs (snd (choose_held all s)) k = refs s k + of_nat (count_list (fst (choose_held all s)) k)"
    by (rule cases) (simp_all add: choose_held_as first_choice.held_counted wrr_choice.held_counted)
qed

lemma wrr_stays: "rh_method s = Some (Wrr_route_handler m) \<Longrightarrow> \<exists>m. rh_method (snd (choose_held all s)) = Some (Wrr_route_handler m)"
  by (auto simp: choose_held_def choose_route_def wrr_route_def Let_def case_prod_beta split: list.split option.split)

lemma counting_stays: "counting s \<Longrightarrow> counting (snd (choose_held all s))"
  by (auto simp: counting_def choose_held_def choose_route_def wrr_route_def first_route_def Let_def case_prod_beta
      split: list.split option.split route_handler.split)

text \<open>Which routes come with a reference of their own.\<close>

definition own_name :: "octets option \<Rightarrow> gdt_session \<Rightarrow> octets \<Rightarrow> bool" where
  "own_name did s ty \<longleftrightarrow> session_type s = ty \<and> (case did of None \<Rightarrow> True | Some i \<Rightarrow> session_id s = i)"

lemma find_route_counted:
  assumes "counting s" and "did \<noteq> Some [42]" and "\<not> own_name did s ty" and "find_route k (Some ty) did [] s = (r, rs, s')"
  shows "sans_refs s' = sans_refs s \<and> counting s' \<and> (\<forall>j. refs s' j = refs s j + of_nat (count_list rs j))"
proof -
  have c: "sans_refs s' = sans_refs s \<and> counting s' \<and> (\<forall>j. refs s' j = refs s j + of_nat (count_list rs j))"
    if "choose_held all s = (rs, s')" for all
    using choose_held_counted [OF assms(1), of all] counting_stays [OF assms(1), of all] by (simp add: that)
  show ?thesis
    using assms(2-4) by (auto simp: find_route_def own_name_def case_prod_beta refs_grab counting_def split: option.splits if_splits
        dest!: c [unfolded counting_def] simp: assms(1) [unfolded counting_def])
qed

lemma find_route_own: "own_name did s ty \<Longrightarrow> did \<noteq> Some [42] \<Longrightarrow> find_route k (Some ty) did rs s = (0, rs @ [k], s)"
  by (auto simp: find_route_def own_name_def split: option.splits)

lemma find_route_all:
  "find_route k (Some ty) (Some [42]) rs s = (0, rs @ filter (\<lambda>j. usable s j \<and> end_point_type (peers s j) = ty \<and> j \<noteq> k) (clients s), s)"
  by (simp add: find_route_def)

end
