(* ===== verification/GdtRegister.thy ===== *)
theory GdtRegister
  imports GdtSession
begin

text \<open>
  Registration of a connection and the heartbeat of a client (\<^verbatim>\<open>register_client\<close>,
  \<^verbatim>\<open>GDTSession::connect\<close> and \<^verbatim>\<open>HeartbeatInfo\<close> of \<^verbatim>\<open>src/src/gdt/gdt.cpp\<close>,
  \<^verbatim>\<open>RegClientStreamNew\<close> and \<^verbatim>\<open>RegClientStreamDone\<close> of \<^verbatim>\<open>src/src/gdt/gdt_reg_events.cpp\<close>).

  The two sides of a new connection tell each other the type and the id of their daemon and whether
  it routes. What a method would read from a missing or short value has no result (\<^term>\<open>None\<close>).
\<close>

section \<open>Registration messages\<close>

text \<open>The parameters of the current session: an id and, when it is linked, a value.\<close>

record reg_param =
  rp_id :: octets
  rp_value :: "octets option"

record reg_body =
  reg_action :: octets
  reg_params :: "reg_param list option"

abbreviation (input) ra_reg_request :: u8 where "ra_reg_request \<equiv> 0"
abbreviation (input) ra_reg_result :: u8 where "ra_reg_result \<equiv> 1"
abbreviation (input) pt_mink_daemon_type :: u32 where "pt_mink_daemon_type \<equiv> 6000"
abbreviation (input) pt_mink_daemon_id :: u32 where "pt_mink_daemon_id \<equiv> 6001"
abbreviation (input) pt_mink_router_status :: u32 where "pt_mink_router_status \<equiv> 6105"

definition own_params :: "octets \<Rightarrow> octets \<Rightarrow> bool \<Rightarrow> reg_param list" where
  "own_params ty i rt = [\<lparr>rp_id = be_octets 4 pt_mink_daemon_type, rp_value = Some ty\<rparr>,
     \<lparr>rp_id = be_octets 4 pt_mink_daemon_id, rp_value = Some i\<rparr>,
     \<lparr>rp_id = be_octets 4 pt_mink_router_status, rp_value = Some [if rt then 1 else 0]\<rparr>]"

text \<open>One parameter of the peer, counted when it is one of the three; a second one of a kind counts too.\<close>

definition take_param :: "reg_param \<Rightarrow> gdt_client \<times> nat \<Rightarrow> (gdt_client \<times> nat) option" where
  "take_param p = (\<lambda>(c, n). case rp_value p of None \<Rightarrow> Some (c, n)
     | Some d \<Rightarrow>
        if length (rp_id p) < 4 then None
        else (let i = sum_octets (take 4 (rp_id p))
              in if i = pt_mink_daemon_type then Some (c\<lparr>end_point_type := ocstr d\<rparr>, n + 1)
                 else if i = pt_mink_daemon_id then Some (c\<lparr>end_point_id := ocstr d\<rparr>, n + 1)
                 else if i = pt_mink_router_status
                 then (case d of [] \<Rightarrow> None | b # _ \<Rightarrow> Some (c\<lparr>router_flag := (b \<noteq> 0)\<rparr>, n + 1))
                 else Some (c, n)))"

fun take_params :: "reg_param list \<Rightarrow> gdt_client \<times> nat \<Rightarrow> (gdt_client \<times> nat) option" where
  "take_params [] S = Some S"
| "take_params (p # ps) S = Option.bind (take_param p S) (take_params ps)"

text \<open>The parameters of a message with the expected action; the first octet of the action is read.\<close>

definition reg_values :: "u8 \<Rightarrow> reg_body option \<Rightarrow> reg_param list option" where
  "reg_values a b = (case b of None \<Rightarrow> Some []
     | Some r \<Rightarrow> (case reg_action r of [] \<Rightarrow> None
         | x # _ \<Rightarrow> Some (if x = a then (case reg_params r of None \<Rightarrow> [] | Some ps \<Rightarrow> ps) else [])))"

section \<open>The side that connects\<close>

text \<open>\<open>answered\<close> counts the parameters, \<open>signalled\<close> the posts of the semaphore the caller waits for.\<close>

record registering =
  answered :: nat
  signalled :: nat

definition stream_handlers :: "nat \<Rightarrow> gdt_stream \<Rightarrow> gdt_stream" where
  "stream_handlers h s = s\<lparr>stream_callbacks := set_callback GDT_ET_STREAM_TIMEOUT (Some h)
     (set_callback GDT_ET_STREAM_END (Some h) (stream_callbacks s))\<rparr>"

definition register_start :: "int \<Rightarrow> octets \<Rightarrow> octets \<Rightarrow> nat \<Rightarrow> nat \<Rightarrow> nat \<Rightarrow> gdt_session \<Rightarrow> (nat \<times> reg_body) option \<times> gdt_session" where
  "register_start now fresh dest snext sdone k s =
     (case new_stream now fresh (Some dest) None None (Some snext) (peers s k) of
        (None, c) \<Rightarrow> (None, peer_upd k (\<lambda>_. c) s)
      | (Some i, c) \<Rightarrow>
          (Some (i, \<lparr>reg_action = [ra_reg_request],
             reg_params = Some (own_params (ocstr (session_type s)) (ocstr (session_id s)) (session_router s))\<rparr>),
           peer_upd k (\<lambda>_. send_stream True i (upd i (stream_handlers sdone) c)) s))"

text \<open>
  \<^verbatim>\<open>_RegClientStreamDone\<close>: \<open>msg\<close> is \<^term>\<open>None\<close> for a timeout or a message without a body. The
  answer is taken over; the caller goes on when the last packet of the stream has been sent.
\<close>

definition register_reply :: "nat \<Rightarrow> nat \<Rightarrow> reg_body option option \<Rightarrow> gdt_client \<times> registering \<Rightarrow> (gdt_client \<times> registering) option" where
  "register_reply i adone msg = (\<lambda>(c, g). case msg of None \<Rightarrow> Some (c, g\<lparr>signalled := signalled g + 1\<rparr>)
     | Some b \<Rightarrow> Option.bind (reg_values ra_reg_result b) (\<lambda>ps.
         map_option (\<lambda>(c, n). (upd i (\<lambda>s. s\<lparr>stream_callbacks := set_callback GDT_ET_PAYLOAD_SENT (Some adone) (stream_callbacks s)\<rparr>) c,
             g\<lparr>answered := n\<rparr>)) (take_params ps (c, answered g))))"

text \<open>\<^verbatim>\<open>_RegClientStreamNext\<close>: nothing more is sent.\<close>

definition register_next :: "nat \<Rightarrow> gdt_client \<Rightarrow> gdt_client" where "register_next i c = upd i end_sequence c"

definition register_sent :: "gdt_client \<times> registering \<Rightarrow> gdt_client \<times> registering" where
  "register_sent = (\<lambda>(c, g). (if answered g \<ge> 3 then set_reg_flag True c else c, g\<lparr>signalled := signalled g + 1\<rparr>))"

text \<open>
  \<^verbatim>\<open>register_client\<close> with what comes back on its stream, \<open>msg\<close>: the wait ends with the timeout or
  when the end of the stream has been sent.
\<close>

definition register_client :: "int \<Rightarrow> octets \<Rightarrow> octets \<Rightarrow> nat \<Rightarrow> nat \<Rightarrow> nat \<Rightarrow> reg_body option option \<Rightarrow> nat option \<Rightarrow>
    gdt_session \<Rightarrow> (int \<times> gdt_session) option" where
  "register_client now fresh dest snext sdone adone msg gdtc s = (case gdtc of None \<Rightarrow> Some (1, s)
     | Some k \<Rightarrow> (case register_start now fresh dest snext sdone k s of
         (None, s) \<Rightarrow> Some (1, s)
       | (Some (i, b), s) \<Rightarrow>
           map_option (\<lambda>S. let (c, g) = (if msg = None then S else register_sent S)
                           in (if registered c then 0 else 1, peer_upd k (\<lambda>_. c) s))
             (register_reply i adone msg (peers s k, \<lparr>answered = 0, signalled = 0\<rparr>))))"

text \<open>
  \<^verbatim>\<open>GDTSession::connect\<close> for a socket that could be opened: \<open>k\<close> is the new client. Without
  registration it is added at once. \<open>None\<close> stands for an undefined read or an endless wait.
\<close>

definition session_event :: "session_methods \<Rightarrow> GDTEventType \<Rightarrow> nat \<Rightarrow> gdt_session \<Rightarrow> gdt_session" where
  "session_event run ty k s = snd (process_callback run ty
     (add_arg GDT_CB_INPUT_ARGS GDT_CB_ARG_CLIENT (Some (Arg_client k)) (clear_all_args new_args)) (session_callbacks s) s)"

definition connect :: "session_methods \<Rightarrow> int \<Rightarrow> octets \<Rightarrow> nat \<Rightarrow> nat \<Rightarrow> nat \<Rightarrow> reg_body option option \<Rightarrow> bool \<Rightarrow> nat \<Rightarrow>
    gdt_session \<Rightarrow> (nat option \<times> gdt_session) option" where
  "connect run now fresh snext sdone adone msg skip_reg k s =
     (let s = s\<lparr>session_threads := session_threads s + 1\<rparr>
      in if skip_reg then Some (Some k, add_client k s)
         else Option.bind (register_client now fresh [46] snext sdone adone msg (Some k) s) (\<lambda>(res, s).
           if res = 0 then Some (Some k, add_client k (session_event run GDT_ET_CLIENT_CREATED k s))
           else map_option (\<lambda>(_, s). (None, s)) (remove_client run (Some k) s)))"

section \<open>The side that accepts\<close>

text \<open>\<^verbatim>\<open>RegClientStreamNew\<close>: the status is 1 until all parameters have come, -1 after a timeout.\<close>

record registration =
  reg_status :: int
  reg_done :: bool

definition new_registration :: registration where "new_registration = \<lparr>reg_status = 1, reg_done = False\<rparr>"

text \<open>\<^verbatim>\<open>GDTClient::register_client\<close>: the number of the handler is \<open>snew\<close>.\<close>

definition accept_registration :: "nat \<Rightarrow> gdt_client \<Rightarrow> int \<times> registration option \<times> gdt_client" where
  "accept_registration snew c = (if registered c then (-2, None, c)
     else (0, Some new_registration, c\<lparr>client_callbacks := set_callback GDT_ET_STREAM_NEW (Some snew) (client_callbacks c)\<rparr>))"

definition request_new :: "nat \<Rightarrow> nat \<Rightarrow> nat \<Rightarrow> reg_body option \<Rightarrow> gdt_session \<times> registration \<Rightarrow>
    (reg_body \<times> gdt_session \<times> registration) option" where
  "request_new sdone i k body = (\<lambda>(s, r).
     let c = upd i (stream_handlers sdone) (peers s k);
         c = c\<lparr>client_callbacks := remove_callback GDT_ET_STREAM_NEW (client_callbacks c)\<rparr>
     in Option.bind (reg_values ra_reg_request body) (\<lambda>ps.
        map_option (\<lambda>(c, n).
            (\<lparr>reg_action = [ra_reg_result], reg_params = Some (own_params (take 49 (ocstr (session_type s)))
                (take 49 (ocstr (session_id s))) (session_router s))\<rparr>,
             peer_upd k (\<lambda>_. upd i end_sequence (c\<lparr>include_body := True\<rparr>)) s,
             if n \<ge> 3 then r\<lparr>reg_status := 0\<rparr> else r))
          (take_params ps (c, 0))))"

text \<open>\<^verbatim>\<open>disconnect\<close> makes the client inactive; what the socket answers does not matter here.\<close>

definition disconnect :: "gdt_client \<Rightarrow> gdt_client" where "disconnect c = set_activity False c"

definition request_done :: "session_methods \<Rightarrow> nat \<Rightarrow> bool \<Rightarrow> gdt_session \<times> registration \<Rightarrow> gdt_session \<times> registration" where
  "request_done run k timeout = (\<lambda>(s, r).
     let r = (if timeout then r\<lparr>reg_status := -1\<rparr> else r);
         s = peer_upd k (if reg_status r = 0 then set_reg_flag True else disconnect) s;
         s = (if registered (peers s k) then
                (let s = s\<lparr>rh_method := map_option (\<lambda>h. snd (update_client (Some k) (Some (end_point_type (peers s k)))
                             (Some (end_point_id (peers s k))) h)) (rh_method s)\<rparr>;
                     s = peer_upd k (\<lambda>c. c\<lparr>client_callbacks := remove_callback GDT_ET_STREAM_NEW (client_callbacks c)\<rparr>) s
                 in session_event run GDT_ET_CLIENT_NEW k (session_event run GDT_ET_CLIENT_CREATED k s))
              else s)
     in (s, r\<lparr>reg_done := True\<rparr>))"

text \<open>
  A connection that the server loop takes: the client is in the list before it is registered.
\<close>

definition accept_client :: "nat \<Rightarrow> nat \<Rightarrow> gdt_session \<Rightarrow> registration option \<times> gdt_session" where
  "accept_client snew k s = (let s = add_client k s; s = s\<lparr>session_threads := session_threads s + 1\<rparr>;
       (_, r, c) = accept_registration snew (peers s k)
     in (r, peer_upd k (\<lambda>_. c) s))"

section \<open>The handshake\<close>

lemma own_params_taken:
  "take_params (own_params ty i rt) (c, n) =
   Some (c\<lparr>end_point_type := ocstr ty, end_point_id := ocstr i, router_flag := rt\<rparr>, n + 3)"
proof -
  have s: "sum_octets (be_octets 4 v) = v" for v :: u32
    by (rule sum_be) (use unsigned_less [of v] in simp_all)
  show ?thesis by (simp add: own_params_def take_param_def s del: be_octets.simps)
qed

definition proper_name :: "octets \<Rightarrow> bool" where "proper_name d \<longleftrightarrow> 0 \<notin> set d \<and> length d \<le> 49"

lemma proper_cstr: "proper_name d \<Longrightarrow> ocstr d = d"
  by (auto simp: proper_name_def ocstr_def takeWhile_eq_all_conv)

lemma set_reg_flag_set [simp]: "registered (set_reg_flag True c)" "set_reg_flag True c = c\<lparr>registered := True\<rparr>"
  by (auto simp: set_reg_flag_def)

definition knows :: "gdt_client \<Rightarrow> gdt_session \<Rightarrow> bool" where
  "knows c s \<longleftrightarrow> registered c \<and> end_point_type c = session_type s \<and> end_point_id c = session_id s \<and> router_flag c = session_router s"

lemma register_start_body:
  "register_start now fresh dest snext sdone k C = (Some (i, b), C1) \<Longrightarrow>
   b = \<lparr>reg_action = [0], reg_params = Some (own_params (ocstr (session_type C)) (ocstr (session_id C)) (session_router C))\<rparr>"
  by (auto simp: register_start_def split: prod.splits option.splits)

lemma session_event_peers:
  "(\<And>m a s. peers (run m a s) = peers s) \<Longrightarrow> peers (session_event run ty k s) = peers s"
  by (auto simp: session_event_def process_callback_def split: option.split)

text \<open>
  C39. Registration makes the two sides know each other: when the answer that a server makes to the request
  of a client gets back, both connections are registered, each with the type, the id and the router
  flag of the other daemon, and the server may route to the client's daemon while its connection is active.
\<close>

theorem registered_both_ways:
  assumes "proper_name (session_type C)" "proper_name (session_id C)" "proper_name (session_type S)" "proper_name (session_id S)"
    and "register_start now fresh dest snext sdone k C = (Some (i, b), C1)" and "\<And>m a s. peers (run m a s) = peers s"
  shows "\<exists>a S1 r c g. request_new done2 i2 j (Some b) (S, new_registration) = Some (a, S1, r) \<and>
    register_reply i adone (Some (Some a)) (peers C1 k, \<lparr>answered = 0, signalled = 0\<rparr>) = Some (c, g) \<and>
    knows (fst (register_sent (c, g))) S \<and> knows (peers (fst (request_done run j False (S1, r))) j) C \<and>
    (active (peers S j) \<longrightarrow> usable (fst (request_done run j False (S1, r))) j)"
proof -
  note b = register_start_body [OF assms(5)]
  show ?thesis using assms(1-4) assms(6)
    by (simp add: b request_new_def reg_values_def own_params_taken register_reply_def register_sent_def proper_cstr Let_def
        proper_name_def [THEN iffD1, THEN conjunct2] new_registration_def knows_def request_done_def session_event_peers usable_def stream_handlers_def)
qed

definition fresh_client :: "nat \<Rightarrow> gdt_client" where
  "fresh_client k = (new_gdt_client k [97] [98] 10)\<lparr>stream_pool := construct_objects (pool_init 8 2 new_pool)\<rparr>"

definition named_session :: "octets \<Rightarrow> octets \<Rightarrow> bool \<Rightarrow> gdt_session" where
  "named_session ty i rt = new_session ty i rt fresh_client"

lemma fresh_allocates: "allocate_stream_pool (fresh_client k) = (Some 1, snd (allocate_stream_pool (fresh_client k)))"
  by (simp add: fresh_client_def allocate_stream_pool_def allocate_constructed_def construct_objects_def pool_init_def Let_def eval_nat_numeral)

lemma register_starts:
  "\<exists>b C1. register_start now fresh dest snext sdone k (named_session ty i rt) = (Some (1, b), C1)"
  using fresh_allocates [of k]
  by (auto simp: register_start_def named_session_def new_session_def new_stream_def split: prod.split option.split)

theorem registered_both_ways_witness:
  "\<exists>b C1 a S1 r c g. register_start 5 (replicate 16 7) [46] 1 2 0 (named_session [99] [49] False) = (Some (1, b), C1) \<and>
    request_new 4 0 3 (Some b) (named_session [114] [50] True, new_registration) = Some (a, S1, r) \<and>
    register_reply 1 3 (Some (Some a)) (peers C1 0, \<lparr>answered = 0, signalled = 0\<rparr>) = Some (c, g) \<and>
    end_point_type (fst (register_sent (c, g))) = [114] \<and> router_flag (fst (register_sent (c, g))) \<and>
    end_point_type (peers (fst (request_done (\<lambda>_ _ s. s) 3 False (S1, r))) 3) = [99]"
proof -
  let ?C = "named_session [99] [49] False" and ?S = "named_session [114] [50] True"
  obtain b C1 where b: "register_start 5 (replicate 16 7) [46] 1 2 0 ?C = (Some (1, b), C1)" using register_starts by blast
  have n: "session_type (named_session ty i rt) = ty" "session_id (named_session ty i rt) = i" "session_router (named_session ty i rt) = rt" for ty i rt
    by (simp_all add: named_session_def new_session_def)
  have p: "proper_name [x]" if "x \<noteq> 0" for x using that by (simp add: proper_name_def)
  have "\<exists>a S1 r c g. request_new 4 0 3 (Some b) (?S, new_registration) = Some (a, S1, r) \<and>
      register_reply 1 3 (Some (Some a)) (peers C1 0, \<lparr>answered = 0, signalled = 0\<rparr>) = Some (c, g) \<and>
      knows (fst (register_sent (c, g))) ?S \<and> knows (peers (fst (request_done (\<lambda>_ _ s. s) 3 False (S1, r))) 3) ?C \<and>
      (active (peers ?S 3) \<longrightarrow> usable (fst (request_done (\<lambda>_ _ s. s) 3 False (S1, r))) 3)"
    by (rule registered_both_ways [OF _ _ _ _ b]) (simp_all add: n p)
  then show ?thesis using b by (elim exE conjE) (intro exI conjI, assumption+, simp_all add: knows_def n)
qed

text \<open>A peer that sends its type three times is registered too, with the id it had before.\<close>

theorem repeated_type_registers:
  assumes "\<And>m a s. peers (run m a s) = peers s" and "p = \<lparr>rp_id = be_octets 4 6000, rp_value = Some ty\<rparr>"
  shows "\<exists>a S1 r. request_new d i k (Some \<lparr>reg_action = [0], reg_params = Some [p, p, p]\<rparr>)
      (S, new_registration) = Some (a, S1, r) \<and> registered (peers (fst (request_done run k False (S1, r))) k) \<and>
    end_point_id (peers (fst (request_done run k False (S1, r))) k) = end_point_id (peers S k)"
proof -
  have "sum_octets (be_octets 4 6000) = (6000 :: u32)" by (rule sum_be) simp_all
  then have "take_param p (c, n) = Some (c\<lparr>end_point_type := ocstr ty\<rparr>, n + 1)" for c n
    by (simp add: take_param_def assms(2) del: be_octets.simps)
  then show ?thesis using assms(1)
    by (simp add: request_new_def reg_values_def new_registration_def request_done_def session_event_peers Let_def)
qed

section \<open>A registration that fails\<close>

definition attached :: "gdt_client \<Rightarrow> bool \<times> u32" where "attached c = (active c, ref_counter c)"

lemma attached_frame [simp]:
  "attached (c\<lparr>store := st\<rparr>) = attached c" "attached (c\<lparr>stream_pool := p\<rparr>) = attached c" "attached (add_stream i c) = attached c" "attached (send_stream b i c) = attached c"
  "attached (c\<lparr>registered := x\<rparr>) = attached c"
  by (auto simp: attached_def add_stream_def send_stream_def push_out_queue_def Let_def split: prod.split)

lemma new_stream_held: "new_stream now fresh ty i a b c = (o', c') \<Longrightarrow> attached c' = attached c"
  by (auto simp: new_stream_def allocate_stream_pool_def split: if_splits prod.splits option.splits)

lemma take_params_held: "take_params ps (c, n) = Some (c', n') \<Longrightarrow> attached c' = attached c"
proof (induction ps arbitrary: c n)
  case (Cons p ps)
  from Cons.prems obtain c1 n1 where p: "take_param p (c, n) = Some (c1, n1)" "take_params ps (c1, n1) = Some (c', n')"
    by (auto simp: bind_eq_Some_conv)
  have "attached c1 = attached c"
    using p(1) by (auto simp: attached_def take_param_def Let_def split: option.splits if_splits list.splits)
  then show ?case using Cons.IH [OF p(2)] by simp
qed simp

lemma register_reply_held: "register_reply i adone msg (c, g) = Some (c', g') \<Longrightarrow> attached c' = attached c"
  by (auto simp: register_reply_def bind_eq_Some_conv split: option.splits dest!: take_params_held)

lemma register_client_held:
  assumes "register_client now fresh dest snext sdone adone msg (Some k) s = Some (res, s')"
  shows "attached (peers s' k) = attached (peers s k)" "clients s' = clients s" "session_threads s' = session_threads s"
proof -
  obtain o' c where n: "new_stream now fresh (Some dest) None None (Some snext) (peers s k) = (o', c)" by fastforce
  note h = new_stream_held [OF n]
  have "attached (peers s' k) = attached (peers s k) \<and> clients s' = clients s \<and> session_threads s' = session_threads s"
  proof (cases o')
    case None
    then show ?thesis using assms n h by (auto simp: register_client_def register_start_def)
  next
    case (Some i)
    let ?c = "send_stream True i (upd i (stream_handlers sdone) c)"
    obtain c1 g1 where r: "register_reply i adone msg (?c, \<lparr>answered = 0, signalled = 0\<rparr>) = Some (c1, g1)"
      "s' = peer_upd k (\<lambda>_. fst (if msg = None then (c1, g1) else register_sent (c1, g1))) (peer_upd k (\<lambda>_. ?c) s)"
      using assms n Some by (auto simp: register_client_def register_start_def case_prod_beta)
    have "attached c1 = attached c" using register_reply_held [OF r(1)] by simp
    then show ?thesis using h by (simp add: r(2) register_sent_def)
  qed
  then show "attached (peers s' k) = attached (peers s k)" "clients s' = clients s" "session_threads s' = session_threads s" by simp_all
qed

text \<open>
  A connection that fails to register is lost but not freed: \<open>connect\<close> returns no client, the one it
  made is neither in the list of the session nor disconnected, nobody gave up its reference, and the
  session goes on to count it.
\<close>

theorem failed_connect_leaks:
  assumes "k \<notin> set (clients s)" and "connect run now fresh snext sdone adone msg False k s = Some (None, s')"
  shows "clients s' = clients s \<and> session_threads s' = session_threads s + 1 \<and>
    active (peers s' k) = active (peers s k) \<and> ref_counter (peers s' k) = ref_counter (peers s k)"
proof -
  let ?s = "s\<lparr>session_threads := session_threads s + 1\<rparr>"
  obtain res s1 where r: "register_client now fresh [46] snext sdone adone msg (Some k) ?s = Some (res, s1)"
    "(if res = 0 then Some (Some k, add_client k (session_event run GDT_ET_CLIENT_CREATED k s1))
      else map_option (\<lambda>(_, s). (None, s)) (remove_client run (Some k) s1)) = Some (None, s')"
    using assms(2) by (auto simp: connect_def bind_eq_Some_conv)
  note h = register_client_held [OF r(1)]
  have "k \<notin> set (clients s1)" using assms(1) h(2) by simp
  then have "s' = s1" using r(2) by (auto simp: remove_client_def split: if_splits)
  then show ?thesis using h by (simp add: attached_def)
qed

lemma registered_frame:
  "registered (send_stream b i c) = registered c" "registered (add_stream i c) = registered c"
  "registered (snd (allocate_stream_pool c)) = registered c"
  by (auto simp: add_stream_def send_stream_def push_out_queue_def allocate_stream_pool_def Let_def split: prod.split)

theorem failed_connect_leaks_witness:
  "\<exists>s'. connect (\<lambda>_ _ s. s) 5 (replicate 16 7) 1 2 3 None False 0 (named_session [99] [49] False) = Some (None, s') \<and>
     clients s' = [] \<and> session_threads s' = 1"
proof -
  let ?s = "named_session [99] [49] False"
  have f: "\<not> registered (fresh_client 0)" by (simp add: fresh_client_def new_gdt_client_def)
  have s: "clients ?s = []" "session_threads ?s = 0" "peers ?s = fresh_client" by (simp_all add: named_session_def new_session_def)
  obtain c where a: "allocate_stream_pool (fresh_client 0) = (Some 1, c)" using fresh_allocates by metis
  then have "\<not> registered c" using registered_frame(3) [of "fresh_client 0"] f by simp
  then have n: "\<exists>c. new_stream 5 (replicate 16 7) (Some [46]) None None (Some 1) (fresh_client 0) = (Some 1, c) \<and> \<not> registered c"
    using a by (simp add: new_stream_def registered_frame)
  then obtain s' where c: "connect (\<lambda>_ _ s. s) 5 (replicate 16 7) 1 2 3 None False 0 ?s = Some (None, s')"
    by (auto simp: connect_def register_client_def register_start_def register_reply_def s registered_frame remove_client_def)
  have "clients s' = clients ?s \<and> session_threads s' = session_threads ?s + 1 \<and> active (peers s' 0) = active (peers ?s 0) \<and>
      ref_counter (peers s' 0) = ref_counter (peers ?s 0)"
    by (rule failed_connect_leaks [OF _ c]) (simp add: s)
  then show ?thesis using c s by auto
qed

section \<open>The heartbeat\<close>

record heartbeat =
  hb_active :: bool
  hb_next :: bool
  total_sent :: u64
  total_received :: u64
  missed :: u64
  received :: u64
  hb_interval :: u32
  total_sleep :: u32
  target_type :: octets
  target_id :: octets

text \<open>
  \<^verbatim>\<open>init_heartbeat\<close>. The names are copied into buffers of 17 octets; the check of their length
  bounds the length it looks at and so never fails, and a longer name is written beyond the buffer
  (\<^term>\<open>None\<close>).
\<close>

definition init_heartbeat :: "octets \<Rightarrow> octets \<Rightarrow> u32 \<Rightarrow> heartbeat option" where
  "init_heartbeat ty i n = (if length (ocstr ty) > 16 \<or> length (ocstr i) > 16 then None
     else Some \<lparr>hb_active = True, hb_next = True, total_sent = 0, total_received = 0, missed = 0, received = 0,
            hb_interval = (if n < 1 then 1 else n), total_sleep = 0, target_type = ocstr ty, target_id = ocstr i\<rparr>)"

definition stop_heartbeat :: "heartbeat \<Rightarrow> heartbeat" where
  "stop_heartbeat h = h\<lparr>hb_active := (if hb_active h = (\<not> False) then False else hb_active h)\<rparr>"

definition set_next :: "bool \<Rightarrow> heartbeat \<Rightarrow> heartbeat" where
  "set_next b h = h\<lparr>hb_next := (if hb_next h = (\<not> b) then b else hb_next h)\<rparr>"

text \<open>The three methods of a heartbeat's stream; \<open>usr\<close> is the user's method, if there is one.\<close>

definition hb_missed :: "(heartbeat \<Rightarrow> heartbeat) option \<Rightarrow> heartbeat \<Rightarrow> heartbeat" where
  "hb_missed usr h = (let h = h\<lparr>missed := missed h + 1\<rparr>; h = (case usr of Some f \<Rightarrow> f h | None \<Rightarrow> h)
     in set_next True (h\<lparr>total_received := total_received h + 1\<rparr>))"

definition hb_received :: "(heartbeat \<Rightarrow> heartbeat) option \<Rightarrow> heartbeat \<Rightarrow> heartbeat" where
  "hb_received usr h = (let h = h\<lparr>received := received h + 1, missed := 0\<rparr>; h = (case usr of Some f \<Rightarrow> f h | None \<Rightarrow> h)
     in set_next True (h\<lparr>total_received := total_received h + 1\<rparr>))"

definition hb_sent :: "heartbeat \<Rightarrow> heartbeat" where "hb_sent h = h\<lparr>total_sent := total_sent h + 1\<rparr>"

text \<open>
  One second of \<^verbatim>\<open>heartbeat_loop\<close> with the client: when the interval is over and the last heartbeat
  has been answered, a stream is started; its methods are numbered by the arguments.
\<close>

definition hb_stream :: "nat \<Rightarrow> nat \<Rightarrow> nat \<Rightarrow> gdt_stream \<Rightarrow> gdt_stream" where
  "hb_stream m_missed m_recv m_sent s = s\<lparr>stream_callbacks := set_callback GDT_ET_PAYLOAD_SENT (Some m_sent)
       (set_callback GDT_ET_STREAM_TIMEOUT (Some m_missed) (set_callback GDT_ET_HEARTBEAT_RECEIVED (Some m_recv)
         (set_callback GDT_ET_HEARTBEAT_MISSED (Some m_missed) (stream_callbacks s)))),
     sequence_flag := GDT_SF_HEARTBEAT\<rparr>"

definition hb_second :: "int \<Rightarrow> octets \<Rightarrow> nat \<Rightarrow> nat \<Rightarrow> nat \<Rightarrow> heartbeat \<times> gdt_client \<Rightarrow> nat option \<times> heartbeat \<times> gdt_client" where
  "hb_second now fresh m_missed m_recv m_sent = (\<lambda>(h, c).
     let h = h\<lparr>total_sleep := total_sleep h + 1\<rparr>
     in if total_sleep h < hb_interval h then (None, h, c)
        else (let h = h\<lparr>total_sleep := 0\<rparr>
              in if hb_next h \<and> hb_active h
                 then (case new_stream now fresh (Some (target_type h)) (Some (target_id h)) None None c of
                         (None, c) \<Rightarrow> (None, h, c)
                       | (Some i, c) \<Rightarrow> (Some i, set_next False h, send_stream False i (upd i (hb_stream m_missed m_recv m_sent) c)))
                 else (None, h, c)))"

text \<open>
  The loop among the events of its streams: a second passes, a heartbeat is sent, and the one that is
  out ends with an answer or as missed, which is also what its timeout does. The client stays at
  the disposal of others, \<open>out\<close> is the stream of the heartbeat under way.
\<close>

inductive hb_run :: "heartbeat \<Rightarrow> nat option \<Rightarrow> nat \<Rightarrow> heartbeat \<Rightarrow> bool" for h0 where
  hb_start: "hb_run h0 None 0 h0"
| hb_tick: "hb_run h0 out k h \<Longrightarrow> hb_second now fresh m1 m2 m3 (h, c) = (started, h', c') \<Longrightarrow>
     hb_run h0 (if started = None then out else started) (if started = None then k else Suc k) h'"
| hb_went: "hb_run h0 (Some i) k h \<Longrightarrow> hb_run h0 (Some i) k (hb_sent h)"
| hb_answer: "hb_run h0 (Some i) k h \<Longrightarrow> hb_run h0 None k (hb_received None h)"
| hb_miss: "hb_run h0 (Some i) k h \<Longrightarrow> hb_run h0 None k (hb_missed None h)"
| hb_stop: "hb_run h0 out k h \<Longrightarrow> hb_run h0 out k (stop_heartbeat h)"

text \<open>
  C40. One heartbeat at a time: a new one starts only when the last one has been answered or missed, so that of
  all that were started every one but the one under way is counted as received, whether it was
  answered or missed.
\<close>

theorem one_heartbeat:
  assumes "init_heartbeat ty i n = Some h0" and "hb_run h0 out k h"
  shows "hb_next h = (out = None) \<and> total_received h + (if out = None then 0 else 1) = of_nat k \<and> hb_interval h = max 1 n"
  using assms(2)
proof (induction rule: hb_run.induct)
  case hb_start
  then show ?case using assms(1) by (auto simp: init_heartbeat_def max_def word_less_nat_alt word_le_nat_alt split: if_splits)
next
  case (hb_tick out k h now fresh m1 m2 m3 c started h' c')
  show ?case
  proof (cases started)
    case None
    then have "hb_next h' = hb_next h" "total_received h' = total_received h" "hb_interval h' = hb_interval h"
      using hb_tick.hyps(2) by (auto simp: hb_second_def Let_def split: if_splits option.splits prod.splits)
    then show ?thesis using hb_tick.IH None by simp
  next
    case (Some j)
    then have "hb_next h" "\<not> hb_next h'" "total_received h' = total_received h" "hb_interval h' = hb_interval h"
      using hb_tick.hyps(2) by (auto simp: hb_second_def set_next_def Let_def split: if_splits option.splits prod.splits)
    then show ?thesis using hb_tick.IH Some by (simp split: if_splits)
  qed
qed (auto simp: hb_sent_def hb_received_def hb_missed_def stop_heartbeat_def set_next_def Let_def algebra_simps)

theorem one_heartbeat_witness:
  "\<exists>h0 c. init_heartbeat [99] [49] 0 = Some h0 \<and> hb_second 5 (replicate 16 7) 1 2 3 (h0, fresh_client 0) = (Some 1, c) \<and>
     \<not> hb_next (fst c) \<and> total_received (fst c) = 0 \<and> hb_interval (fst c) = 1"
proof -
  define h0 where "h0 = the (init_heartbeat [99] [49] 0)"
  have h: "init_heartbeat [99] [49] 0 = Some h0" "hb_interval h0 = 1" "total_sleep h0 = 0" "hb_next h0" "hb_active h0"
    by (simp_all add: h0_def init_heartbeat_def ocstr_def)
  obtain c where c: "allocate_stream_pool (fresh_client 0) = (Some 1, c)" using fresh_allocates by metis
  then obtain h' c' where s: "hb_second 5 (replicate 16 7) 1 2 3 (h0, fresh_client 0) = (Some 1, h', c')"
    using h by (auto simp: hb_second_def new_stream_def)
  have "hb_run h0 (Some 1) 1 h'" using hb_tick [OF hb_start s] by simp
  then have "hb_next h' = (Some (1 :: nat) = None) \<and> total_received h' + (if Some (1 :: nat) = None then 0 else 1) = of_nat 1 \<and>
      hb_interval h' = max 1 0" by (rule one_heartbeat [OF h(1)])
  then show ?thesis using h(1) s by (intro exI [of _ h0] exI [of _ "(h', c')"]) simp
qed

end
