(* ===== verification/GdtRoute.thy ===== *)
theory GdtRoute
  imports GdtSession
begin

text \<open>
  What a client does with a packet from its socket (\<^verbatim>\<open>GDTClient::route\<close> and the rest of
  \<^verbatim>\<open>GDTStateMachine::run\<close> in \<^verbatim>\<open>src/src/gdt/gdt.cpp\<close>): the route of a message, forwarding, the
  answers to messages that cannot be routed and the events of the socket; and what becomes of the
  references and the answers on the way.
\<close>

section \<open>What a client keeps of its peer\<close>

text \<open>The fields that routing reads; methods that leave them alone are discreet.\<close>

definition identity :: "gdt_client \<Rightarrow> octets \<times> octets \<times> bool \<times> bool \<times> u32" where
  "identity c = (end_point_type c, end_point_id c, router_flag c, registered c, ref_counter c)"

definition kept :: "octets \<times> octets \<times> bool \<times> bool \<times> u32 \<Rightarrow> gdt_client \<Rightarrow> bool" where
  "kept x c \<longleftrightarrow> identity c = x"

definition discreet :: "methods \<Rightarrow> bool" where
  "discreet run \<longleftrightarrow> (\<forall>m a c. identity (run m a c) = identity c)"

lemma kept_frame [simp]:
  "kept x (store_update f1 c) = kept x c" "kept x (stream_pool_update f2 c) = kept x c" "kept x (streams_update f3 c) = kept x c"
  "kept x (streams_active_update f4 c) = kept x c" "kept x (out_queue_update f5 c) = kept x c"
  "kept x (internal_out_queue_update f6 c) = kept x c" "kept x (in_stats_update f7 c) = kept x c"
  "kept x (out_stats_update f8 c) = kept x c" "kept x (gdt_out_message_update f9 c) = kept x c"
  "kept x (include_body_update f10 c) = kept x c" "kept x (mem_switch_update f11 c) = kept x c"
  "kept x (client_timestamp_update f12 c) = kept x c" "kept x (stream_timeout_check_update f13 c) = kept x c"
  "kept x (reconnect_queued_update f14 c) = kept x c"
  by (simp_all add: kept_def identity_def)

lemma kept_operations [simp]:
  "kept x (snd (allocate_stream_pool c)) = kept x c" "kept x (release s c) = kept x c" "kept x (push_internal i c) = kept x c"
  "kept x (remove_stream i c) = kept x c" "kept x (add_stream i c) = kept x c" "kept x (generate_ack oh i c) = kept x c"
  "kept x (reply_err stamp ty sid oh flag src code i c) = kept x c"
  by (simp_all add: allocate_stream_pool_def deallocate_stream_pool_def push_internal_def remove_stream_def add_stream_def
      generate_ack_def reply_err_def Let_def case_prod_beta)

lemma kept_if: "kept x a \<Longrightarrow> kept x b \<Longrightarrow> kept x (if p then a else b)" by simp

lemma kept_option: "kept x a \<Longrightarrow> (\<And>y. kept x (f y)) \<Longrightarrow> kept x (case z of None \<Rightarrow> a | Some y \<Rightarrow> f y)"
  by (cases z) simp_all

lemma kept_let: "kept x c \<Longrightarrow> (\<And>d. kept x d \<Longrightarrow> kept x (f d)) \<Longrightarrow> kept x (let d = c in f d)" for c :: gdt_client
  by simp

lemma kept_alloc: "kept x c \<Longrightarrow> (\<And>a d. kept x d \<Longrightarrow> kept x (f a d)) \<Longrightarrow> kept x (case allocate_stream_pool c of (a, d) \<Rightarrow> f a d)"
  by (cases "allocate_stream_pool c") (metis case_prod_conv kept_operations(1) snd_conv)

lemma kept_stream: "discreet run \<Longrightarrow> kept x c \<Longrightarrow> kept x (stream_callback run ty a i c)"
  by (simp add: kept_def discreet_def stream_callback_def process_callback_def split: option.split)

lemma kept_client: "discreet run \<Longrightarrow> kept x c \<Longrightarrow> kept x (client_callback run ty a c)"
  by (simp add: kept_def discreet_def client_callback_def process_callback_def split: option.split)

lemma kept_uos: "discreet run \<Longrightarrow> kept x c \<Longrightarrow> kept x (generate_err_uos run sid oh i c)"
  unfolding generate_err_uos_def Let_def by (rule kept_stream) simp_all

lemma kept_answer: "kept x c \<Longrightarrow> kept x (answer stamp ty sid oh flag src code c)"
  unfolding answer_def by (rule kept_alloc, assumption, rule kept_option) simp_all

lemma kept_out_of_sequence: "discreet run \<Longrightarrow> kept x c \<Longrightarrow> kept x (out_of_sequence run sid oh remove i c)"
  unfolding out_of_sequence_def by (simp add: Let_def kept_uos)

lemma kept_complete: "discreet run \<Longrightarrow> kept x c \<Longrightarrow> kept x (process_sf_stream_complete run now len oh i c)"
  unfolding process_sf_stream_complete_def by (intro kept_let kept_if kept_stream) simp_all

lemma kept_end: "discreet run \<Longrightarrow> kept x c \<Longrightarrow> kept x (process_sf_end run now len sid oh remove i c)"
  unfolding process_sf_end_def by (rule kept_if) (simp_all add: Let_def kept_stream kept_out_of_sequence)

lemma kept_continue: "discreet run \<Longrightarrow> kept x c \<Longrightarrow> kept x (process_sf_continue run now len sid oh remove i c)"
  unfolding process_sf_continue_def by (rule kept_if) (simp_all add: Let_def kept_stream kept_out_of_sequence)

lemma kept_sides: "(\<And>b j c. kept x c \<Longrightarrow> kept x (f b j c)) \<Longrightarrow> kept x c \<Longrightarrow> kept x (sides f i c)"
  unfolding sides_def Let_def by (intro kept_option kept_if) simp_all

lemma kept_start_stream: "discreet run \<Longrightarrow> kept x c \<Longrightarrow> kept x (start_stream run now sid oh loopback i c)"
  unfolding start_stream_def by (intro kept_let) (simp_all add: kept_client)

lemma kept_heartbeat: "discreet run \<Longrightarrow> kept x c \<Longrightarrow> kept x (handle_heartbeat run now len sid oh c)"
  unfolding handle_heartbeat_def
  by (rule kept_option, rule kept_if, assumption, rule kept_alloc, assumption, rule kept_option)
    (simp_all add: Let_def kept_stream kept_client split: option.split)

lemma kept_stateless: "discreet run \<Longrightarrow> kept x c \<Longrightarrow> kept x (handle_stateless run now len sid oh c)"
  unfolding handle_stateless_def Let_def by (rule kept_alloc, simp, rule kept_option) (simp_all add: kept_client)

lemma kept_start: "discreet run \<Longrightarrow> kept x c \<Longrightarrow> kept x (handle_start run now len sid oh c)"
  unfolding handle_start_def Let_def
  by (rule kept_if, rule kept_option, rule kept_alloc, simp, rule kept_option)
    (auto intro!: kept_if kept_alloc kept_option kept_start_stream kept_answer)

lemma kept_unknown: "kept x c \<Longrightarrow> kept x (unknown_stream sid oh c)" by (simp add: unknown_stream_def kept_answer)

lemma kept_continue_wait: "discreet run \<Longrightarrow> kept x c \<Longrightarrow> kept x (handle_continue_wait run now len sid oh c)"
  unfolding handle_continue_wait_def by (intro kept_option kept_if kept_unknown) (simp_all add: Let_def kept_uos)

lemma kept_stream_complete: "discreet run \<Longrightarrow> kept x c \<Longrightarrow> kept x (handle_stream_complete run now len oh c)"
  unfolding handle_stream_complete_def
  by (rule kept_option, assumption, rule kept_let, rule kept_sides) (auto simp: Let_def kept_complete split: option.split)

lemma kept_message:
  assumes "discreet run"
  shows "kept x c \<Longrightarrow> kept x (handle_message run now len sid oh c)"
  unfolding handle_message_def Let_def handle_continue_def handle_end_def handle_no_reply_def
  by (intro kept_if kept_option kept_heartbeat [OF assms] kept_stateless [OF assms] kept_start [OF assms] kept_continue_wait [OF assms]
      kept_stream_complete [OF assms] kept_unknown kept_sides kept_continue [OF assms] kept_end [OF assms] kept_client [OF assms]) simp_all

lemma message_identity: "discreet run \<Longrightarrow> identity (handle_message run now len sid oh c) = identity c"
  using kept_message [of run "identity c" c] by (simp add: kept_def)

section \<open>Routing a message\<close>

text \<open>
  \<^verbatim>\<open>route\<close> copies the destination's type and id into buffers of 17 characters without a look at
  their length: \<^term>\<open>None\<close> when one of them runs over. The result has the type that was copied.
\<close>

definition name_buffer :: "octets \<Rightarrow> octets option" where
  "name_buffer d = (if length d \<le> 16 then Some (takeWhile (\<lambda>b. b \<noteq> 0) d) else None)"

definition route :: "nat \<Rightarrow> gdt_message \<Rightarrow> gdt_session \<Rightarrow> (octets \<times> int \<times> nat list \<times> gdt_session) option" where
  "route k oh s = Option.bind (name_buffer (h_dst_type oh)) (\<lambda>ty.
     case h_dst_id oh of
       Some d \<Rightarrow> Option.bind (name_buffer d) (\<lambda>i.
         if i = session_id s \<and> ty = session_type s then Some (ty, 0, [k], s)
         else if session_router s then Some (ty, find_route k (Some ty) (Some i) [] s)
         else Some (ty, 1, [], s))
     | None \<Rightarrow>
         if ty = [46] then Some (ty, 0, [k], s)
         else if session_router s then Some (ty, find_route k (Some ty) None [] s)
         else Some (ty, 1, [], s))"

definition error_flag :: "gdt_message \<Rightarrow> u8 option" where
  "error_flag oh = (if hd (h_seq_flag oh) = sf_heartbeat then Some sf_heartbeat else None)"

definition own_source :: "gdt_session \<Rightarrow> (octets \<times> octets) option" where
  "own_source s = Some (session_type s, session_id s)"

text \<open>The stream that carries a forwarded message.\<close>

definition forwarded_stream :: "int \<Rightarrow> u32 \<Rightarrow> nat \<Rightarrow> gdt_message \<Rightarrow> gdt_stream \<Rightarrow> gdt_stream" where
  "forwarded_stream now sid me m s = s\<lparr>timestamp := now, stream_callbacks := clear_callbacks (stream_callbacks s), linked_stream := None,
     payload := (payload s)\<lparr>free_on_send := True, gdt_stream_type := GDT_ST_STATELESS, payload_client := Some me, sctp_sid := sid,
       payload_callbacks := clear_callbacks (payload_callbacks (payload s)), raw_data := m\<rparr>\<rparr>"

text \<open>
  What is forwarded to client \<open>r\<close>: the message for its daemon, or, when it is a router, the
  message with one hop more, or the error of a message that has made too many.
\<close>

definition forwarded_message :: "gdt_message \<Rightarrow> nat \<Rightarrow> nat \<Rightarrow> gdt_session \<Rightarrow> gdt_message option" where
  "forwarded_message oh k r s =
     (if \<not> router_flag (peers s r)
      then Some (set_destination_id oh (end_point_id (peers s r)) (gdt_out_message (peers s k)))
      else (case update_hop_info oh (gdt_out_message (peers s k)) of None \<Rightarrow> None
            | Some (e, m) \<Rightarrow> Some (if e = 1 then generate_err (session_id s) oh (error_flag oh) (own_source s) err_max_hops_exceeded m else m)))"

definition forward :: "int \<Rightarrow> u32 \<Rightarrow> gdt_message \<Rightarrow> nat \<Rightarrow> nat \<Rightarrow> gdt_session \<Rightarrow> gdt_session option" where
  "forward now sid oh k r s = (case allocate_stream_pool (peers s r) of
     (None, c) \<Rightarrow> Some (peer_upd r (\<lambda>_. out_stat (strm_alloc_errors_update (add 1)) c) s)
   | (Some i, c) \<Rightarrow> map_option (\<lambda>m.
        let s = peer_upd r (\<lambda>_. c) s;
            s = peer_upd k (gdt_out_message_update (\<lambda>_. m)) s
        in peer_upd r (\<lambda>c. snd (push_out_queue (Some i) (upd i (forwarded_stream now sid r m) c))) s)
      (forwarded_message oh k r s))"

text \<open>
  The loop over the routes: a route to another client, or to a client whose daemon has the type
  the message is for, is forwarded and its reference dropped; another one means this client.
\<close>

fun forward_all :: "int \<Rightarrow> u32 \<Rightarrow> gdt_message \<Rightarrow> nat \<Rightarrow> octets \<Rightarrow> nat list \<Rightarrow> bool \<times> gdt_session \<Rightarrow> (bool \<times> gdt_session) option" where
  "forward_all now sid oh k ty [] (this, s) = Some (this, s)"
| "forward_all now sid oh k ty (r # rs) (this, s) =
     (if r \<noteq> k \<or> end_point_type (peers s r) = ty
      then Option.bind (forward now sid oh k r s) (\<lambda>s. forward_all now sid oh k ty rs (this, ungrab r s))
      else forward_all now sid oh k ty rs (True, s))"

definition receive :: "methods \<Rightarrow> int \<Rightarrow> u64 \<Rightarrow> u32 \<Rightarrow> gdt_message \<Rightarrow> nat \<Rightarrow> gdt_session \<Rightarrow> gdt_session option" where
  "receive run now len sid oh k s =
     (if hd (h_version oh) \<noteq> GDT_VERSION
      then Some (peer_upd k (answer (Some now) (Some GDT_ST_STATELESS) sid oh None None err_unsupported_version) s)
      else Option.bind (route k oh s) (\<lambda>(ty, _, rs, s).
        if rs = []
        then Some (peer_upd k (answer (Some now) (Some GDT_ST_STATELESS) sid oh (error_flag oh) (own_source s) err_unknown_route) s)
        else map_option (\<lambda>(this, s). if this then peer_upd k (handle_message run now len sid oh) s else s)
               (forward_all now sid oh k ty rs (False, s))))"

section \<open>One run of the state machine\<close>

text \<open>What the socket gave: \<^verbatim>\<open>poll\<close>, then the receiving function.\<close>

datatype notification = Shutdown_event | Comm_lost | Other_notification

datatype socket_event = Poll_timeout | Poll_error | Poll_other bool | Receive_error | Notified notification
  | Gdt_packet u64 u32 "gdt_message option" | Other_packet

definition restart_link :: "methods \<Rightarrow> (gdt_client \<Rightarrow> gdt_client) \<Rightarrow> int \<Rightarrow> gdt_client \<Rightarrow> gdt_client" where
  "restart_link run reconnect now c = init_reconnect run reconnect (process_timeout run True now c)"

definition socket_error :: "gdt_client \<Rightarrow> gdt_client" where "socket_error = in_stat (socket_errors_update (add 1))"

definition queue_reconnect :: "gdt_client \<Rightarrow> gdt_client" where
  "queue_reconnect c = c\<lparr>reconnect_queued := (if \<not> reconnect_queued c then True else reconnect_queued c)\<rparr>"

definition before_poll :: "methods \<Rightarrow> (gdt_client \<Rightarrow> gdt_client) \<Rightarrow> int \<Rightarrow> gdt_client \<Rightarrow> gdt_client" where
  "before_poll run reconnect now c =
     (let c = process_timeout run False now c
      in if reconnect_queued c
         then (let c = restart_link run reconnect now c
               in c\<lparr>reconnect_queued := (if reconnect_queued c then False else reconnect_queued c)\<rparr>)
         else c)"

text \<open>A timeout and an error of \<^verbatim>\<open>poll\<close> are handled twice, before and after the test for a packet.\<close>

definition poll_idle :: "methods \<Rightarrow> gdt_client \<Rightarrow> gdt_client" where
  "poll_idle run c = client_callback run GDT_ET_CLIENT_IDLE (client_args c) c"

definition poll_failed :: "methods \<Rightarrow> (gdt_client \<Rightarrow> gdt_client) \<Rightarrow> int \<Rightarrow> gdt_client \<Rightarrow> gdt_client" where
  "poll_failed run reconnect now c = restart_link run reconnect now (socket_error c)"

definition machine_run :: "methods \<Rightarrow> (gdt_client \<Rightarrow> gdt_client) \<Rightarrow> int \<Rightarrow> nat \<Rightarrow> socket_event \<Rightarrow> gdt_session \<Rightarrow> gdt_session option" where
  "machine_run run reconnect now k ev s =
     (let s = peer_upd k (before_poll run reconnect now) s
      in case ev of
           Poll_timeout \<Rightarrow> Some (peer_upd k (\<lambda>c. poll_idle run (poll_idle run c)) s)
         | Poll_error \<Rightarrow> Some (peer_upd k (\<lambda>c. poll_failed run reconnect now (poll_failed run reconnect now c)) s)
         | Poll_other hangup \<Rightarrow> Some (if hangup then peer_upd k (restart_link run reconnect now) s else s)
         | Receive_error \<Rightarrow> Some (peer_upd k (poll_failed run reconnect now) s)
         | Notified n \<Rightarrow> Some (if n = Other_notification then s else peer_upd k queue_reconnect s)
         | Gdt_packet len sid decoded \<Rightarrow>
             (let s = peer_upd k (in_stat (\<lambda>st. packets_update (add 1) (bytes_update (add len) st))) s
              in case decoded of None \<Rightarrow> Some (peer_upd k (in_stat (malformed_update (add 1))) s)
                 | Some oh \<Rightarrow> receive run now len sid oh k s)
         | Other_packet \<Rightarrow> Some (peer_upd k (in_stat (discarded_update (add 1))) s))"

section \<open>References of a message\<close>

lemma identity_frame [simp]:
  "identity (c\<lparr>store := st\<rparr>) = identity c" "identity (gdt_out_message_update f c) = identity c" "identity (out_stats_update g c) = identity c"
  "identity (snd (push_out_queue p c)) = identity c"
  by (simp_all add: push_out_queue_def identity_def split: option.split prod.split)

lemma alloc_identity: "allocate_stream_pool c = (p, c') \<Longrightarrow> identity c' = identity c"
  by (auto simp: allocate_stream_pool_def identity_def split: prod.splits)

lemma forward_identity:
  assumes "forward now sid oh k r s = Some s'"
  shows "identity (peers s' j) = identity (peers s j)" "clients s' = clients s" "rh_method s' = rh_method s"
    "session_type s' = session_type s" "session_id s' = session_id s"
proof -
  obtain p c where a: "allocate_stream_pool (peers s r) = (p, c)" by (cases "allocate_stream_pool (peers s r)")
  note i = alloc_identity [OF a]
  show "identity (peers s' j) = identity (peers s j)" "clients s' = clients s" "rh_method s' = rh_method s"
    "session_type s' = session_type s" "session_id s' = session_id s"
    using assms a i by (auto simp: forward_def Let_def split: option.splits)
qed

lemma ungrab_identity [simp]: "end_point_type (peers (ungrab r s) j) = end_point_type (peers s j)"
  by (simp add: ungrab_def dec_refc_def)

lemma forward_refs: "forward now sid oh k r s = Some s' \<Longrightarrow> refs s' j = refs s j"
  "forward now sid oh k r s = Some s' \<Longrightarrow> end_point_type (peers s' j) = end_point_type (peers s j)"
  using forward_identity(1) [of now sid oh k r s s' j] by (auto simp: identity_def)

text \<open>Every route but those for this client takes one reference away.\<close>

lemma forward_all_refs:
  assumes "forward_all now sid oh k ty rs (this, s) = Some (this', s')"
  shows "refs s' j = refs s j - of_nat (count_list (filter (\<lambda>r. r \<noteq> k \<or> end_point_type (peers s r) = ty) rs) j) \<and>
    (this' \<longleftrightarrow> this \<or> (\<exists>r \<in> set rs. \<not> (r \<noteq> k \<or> end_point_type (peers s r) = ty)))"
  using assms
proof (induction rs arbitrary: this s)
  case (Cons r rs)
  show ?case
  proof (cases "r \<noteq> k \<or> end_point_type (peers s r) = ty")
    case True
    with Cons.prems obtain s1 where s1: "forward now sid oh k r s = Some s1"
        "forward_all now sid oh k ty rs (this, ungrab r s1) = Some (this', s')"
      by (auto split: if_splits bind_splits)
    note t = forward_refs [OF s1(1)]
    from Cons.IH [OF s1(2)] True show ?thesis
      by (cases "j = r") (auto simp: t refs_grab algebra_simps)
  next
    case False
    with Cons.prems have "forward_all now sid oh k ty rs (True, s) = Some (this', s')" by simp
    from Cons.IH [OF this] False show ?thesis by auto
  qed
qed simp

definition typed_tables :: "gdt_session \<Rightarrow> bool" where
  "typed_tables s \<longleftrightarrow> (\<forall>m w it d j. rh_method s = Some (Wrr_route_handler m) \<longrightarrow>
     m (name_hash (end_point_type (peers s j))) = Some w \<longrightarrow> it \<in> set (items w) \<longrightarrow> wi_item it = Some d \<longrightarrow>
     end_point_type (peers s d) = end_point_type (peers s j))"

lemma grab_type [simp]: "end_point_type (peers (grab r s) j) = end_point_type (peers s j)"
  by (simp add: grab_def inc_refc_def)

lemma fold_grab_type [simp]: "end_point_type (peers (fold grab ks s) j) = end_point_type (peers s j)"
  by (induction ks arbitrary: s) simp_all

lemma wrr_chosen: "fst (wrr_loop c w) = Some j \<Longrightarrow> items w \<noteq> [] \<Longrightarrow> j < length (items w)"
proof (induction c arbitrary: w)
  case (Suc c)
  have "nat (index (wrr_next w)) < length (items w)"
    using Suc.prems(2) wrr_next_index [of w] by (simp add: nat_less_iff)
  then show ?case using Suc.IH [of "wrr_next w"] Suc.prems by (auto simp: Let_def split: if_splits)
qed simp

lemma wrr_run_item: "wrr_run w = (Some j, w') \<Longrightarrow> items w' = items w \<and> j < length (items w)"
  using wrr_chosen [of "length (items w)" w j] wrr_run_frame [of w] by (auto simp: wrr_run_def split: if_splits)

lemma choose_held_typed:
  assumes "typed_tables s" and "rh_method s \<noteq> Some Route_handler_method" and "\<forall>k \<in> set all. end_point_type (peers s k) = ty"
    and "choose_held all s = (rs, s')" and "r \<in> set rs"
  shows "end_point_type (peers s r) = ty"
proof (cases all)
  case Nil
  with assms show ?thesis
    by (auto simp: choose_held_def choose_route_def first_route_def base_route_def wrr_route_def split: option.splits route_handler.splits)
next
  case (Cons k ks)
  then have k: "end_point_type (peers s k) = ty" using assms(3) by simp
  consider "rh_method s = None" | m where "rh_method s = Some (Wrr_route_handler m)"
    using assms(2) by (metis option.exhaust route_handler.exhaust)
  then show ?thesis
  proof cases
    case 1
    with assms(4,5) Cons k show ?thesis by (auto simp: choose_held_def choose_route_def first_route_def)
  next
    case (2 m)
    have *: "rs = [k] \<or> (\<exists>w j w' d. m (name_hash ty) = Some w \<and> wrr_run w = (Some j, w') \<and> wi_item (items w' ! j) = Some d \<and> rs = [d])"
      using assms(4,5) Cons 2 k
      by (auto simp: choose_held_def choose_route_def wrr_route_def Let_def split: option.splits prod.splits)
    then show ?thesis
    proof (elim disjE exE conjE)
      assume "rs = [k]" then show ?thesis using assms(5) k by simp
    next
      fix w j w' d
      assume a: "m (name_hash ty) = Some w" "wrr_run w = (Some j, w')" "wi_item (items w' ! j) = Some d" "rs = [d]"
      from wrr_run_item [OF a(2)] have "items w' ! j \<in> set (items w)" by simp
      then have "end_point_type (peers s d) = end_point_type (peers s k)"
        using assms(1) 2 a(1,3) unfolding typed_tables_def by (metis k)
      then show ?thesis using a(4) assms(5) k by simp
    qed
  qed
qed

lemma find_route_typed:
  assumes "typed_tables s" and "rh_method s \<noteq> Some Route_handler_method" and "did \<noteq> Some [42]" and "\<not> own_name did s ty"
    and "find_route k (Some ty) did [] s = (e, rs, s')" and "r \<in> set rs"
  shows "end_point_type (peers s r) = ty"
proof -
  have c: "end_point_type (peers s r) = ty" if "choose_held all s = (rs, s')" "\<forall>k \<in> set all. end_point_type (peers s k) = ty" for all
    using choose_held_typed [OF assms(1,2) that(2,1) assms(6)] .
  show ?thesis using assms(3-6)
    by (auto simp: find_route_def own_name_def case_prod_beta find_Some_iff split: option.splits if_splits dest!: c)
qed

text \<open>Is the message for this daemon?\<close>

definition addressed_here :: "octets \<Rightarrow> octets option \<Rightarrow> gdt_session \<Rightarrow> bool" where
  "addressed_here ty did s \<longleftrightarrow> own_name did s ty \<or> (did = None \<and> ty = [46])"

lemma route_counted:
  assumes "counting s" and "typed_tables s" and "name_buffer (h_dst_type oh) = Some ty"
    and "case h_dst_id oh of None \<Rightarrow> did = None | Some d \<Rightarrow> name_buffer d = did \<and> did \<noteq> None" and "did \<noteq> Some [42]"
    and "route k oh s = Some (ty', e, rs, s')"
  shows "ty' = ty \<and> ((s' = s \<and> rs = [k] \<and> addressed_here ty did s) \<or>
     (sans_refs s' = sans_refs s \<and> (\<forall>j. refs s' j = refs s j + of_nat (count_list rs j)) \<and> (\<forall>r \<in> set rs. end_point_type (peers s r) = ty)))"
proof -
  have f: "(s' = s \<and> rs = [k] \<and> addressed_here ty did s) \<or>
     (sans_refs s' = sans_refs s \<and> (\<forall>j. refs s' j = refs s j + of_nat (count_list rs j)) \<and> (\<forall>r \<in> set rs. end_point_type (peers s r) = ty))"
    if "find_route k (Some ty) did [] s = (e, rs, s')"
  proof (cases "own_name did s ty")
    case True
    with that find_route_own [OF True assms(5)] show ?thesis by (simp add: addressed_here_def)
  next
    case False
    from find_route_counted [OF assms(1,5) False that] find_route_typed [OF assms(2) _ assms(5) False that] assms(1)
    show ?thesis by (auto simp: counting_def)
  qed
  show ?thesis using assms(3-6) f
    by (auto simp: route_def addressed_here_def own_name_def bind_eq_Some_conv split: option.splits if_splits)
qed

lemma identity_upd: "identity (peers (peer_upd k f s) j) = (if j = k then identity (f (peers s k)) else identity (peers s j))"
  by simp

lemma sans_type: "sans_refs s' = sans_refs s \<Longrightarrow> end_point_type (peers s' j) = end_point_type (peers s j)"
  unfolding sans_refs_def by (drule arg_cong [where f = "\<lambda>s. end_point_type (peers s j)"]) simp

lemma identity_refs: "identity c = identity c' \<Longrightarrow> ref_counter c = ref_counter c'" by (simp add: identity_def)

lemma answer_identity [simp]: "identity (answer stamp ty sid oh flag src code c) = identity c"
  using kept_answer [of "identity c" c] by (simp add: kept_def)

lemma answer_refs [simp]: "ref_counter (answer stamp ty sid oh flag src code c) = ref_counter c"
  by (rule identity_refs) simp

text \<open>
  C37. Routing gives back every reference it takes: with the automatic or the weighted handler, a
  message that is not for all daemons of a type leaves the reference count of every client as it
  was, whether it is forwarded, handled here, answered or refused; unless it is for this daemon and
  comes from a daemon of the same type.
\<close>

theorem references_kept:
  assumes "counting s" and "typed_tables s" and "discreet run" and "name_buffer (h_dst_type oh) = Some ty"
    and "case h_dst_id oh of None \<Rightarrow> did = None | Some d \<Rightarrow> name_buffer d = did \<and> did \<noteq> None" and "did \<noteq> Some [42]"
    and "addressed_here ty did s \<Longrightarrow> end_point_type (peers s k) \<noteq> ty"
    and "receive run now len sid oh k s = Some s'"
  shows "ref_counter (peers s' j) = ref_counter (peers s j)"
proof (cases "hd (h_version oh) = GDT_VERSION")
  case False
  then show ?thesis using assms(8) by (auto simp: receive_def)
next
  case True
  then obtain ty' e rs s1 where r: "route k oh s = Some (ty', e, rs, s1)"
    and s': "(if rs = [] then Some (peer_upd k (answer (Some now) (Some GDT_ST_STATELESS) sid oh (error_flag oh) (own_source s1) err_unknown_route) s1)
        else map_option (\<lambda>(this, s). if this then peer_upd k (handle_message run now len sid oh) s else s)
               (forward_all now sid oh k ty' rs (False, s1))) = Some s'"
    using assms(8) by (auto simp: receive_def bind_eq_Some_conv)
  note c = route_counted [OF assms(1,2,4-6) r]
  show ?thesis
  proof (cases "rs = []")
    case True
    with s' c show ?thesis by auto
  next
    case False
    then obtain this s2 where f: "forward_all now sid oh k ty rs (False, s1) = Some (this, s2)"
      and s2: "s' = (if this then peer_upd k (handle_message run now len sid oh) s2 else s2)"
      using s' c by auto
    have "refs s' j = refs s2 j" using identity_refs [OF message_identity [OF assms(3)]] by (simp add: s2)
    moreover have "refs s2 j = refs s j"
      using c forward_all_refs [OF f, of j] assms(7) sans_type [of s1 s]
      by (auto simp: filter_id_conv [THEN iffD2])
    ultimately show ?thesis by simp
  qed
qed

text \<open>A router between two daemons.\<close>

definition peer :: "nat \<Rightarrow> octets \<Rightarrow> octets \<Rightarrow> bool \<Rightarrow> gdt_client" where
  "peer me ty i rt = (new_gdt_client me [114] [49] 10)\<lparr>stream_pool := construct_objects (pool_init 8 2 new_pool), out_capacity := 4,
     active := True, registered := True, end_point_type := ty, end_point_id := i, router_flag := rt, internal_out_queue := spsc_init 4\<rparr>"

lemma peer_fields [simp]: "end_point_type (peer me ty i rt) = ty" "end_point_id (peer me ty i rt) = i" "router_flag (peer me ty i rt) = rt"
  "active (peer me ty i rt)" "registered (peer me ty i rt)" "ref_counter (peer me ty i rt) = 1" "streams (peer me ty i rt) = []"
  "out_queue (peer me ty i rt) = []" "out_capacity (peer me ty i rt) = 4" "internal_out_queue (peer me ty i rt) = spsc_init 4"
  by (simp_all add: peer_def new_gdt_client_def)

lemma peer_alloc: "\<exists>c. allocate_stream_pool (peer me ty i rt) = (Some 1, c)"
proof -
  have "fst (allocate_constructed (construct_objects (pool_init 8 2 new_pool))) = Some 1" by code_simp
  then show ?thesis by (simp add: peer_def allocate_stream_pool_def case_prod_beta)
qed

definition small_net :: "bool \<Rightarrow> gdt_session" where
  "small_net rt = (new_session [114] [49] True (\<lambda>k. if k = 0 then peer 0 [97] [50] False else peer 2 [98] [51] rt))\<lparr>clients := [0, 2]\<rparr>"

lemma net_fields [simp]: "session_type (small_net rt) = [114]" "session_id (small_net rt) = [49]" "session_router (small_net rt)"
  "clients (small_net rt) = [0, 2]" "peers (small_net rt) 0 = peer 0 [97] [50] False" "peers (small_net rt) 2 = peer 2 [98] [51] rt"
  "rh_method (small_net rt) = None"
  by (simp_all add: small_net_def new_session_def)

lemma net_usable [simp]: "usable (small_net rt) 0" "usable (small_net rt) 2" by (simp_all add: usable_def)

lemma net_counting [simp]: "counting (small_net rt)" "typed_tables (small_net rt)" by (simp_all add: counting_def typed_tables_def)

lemma silent_discreet [simp]: "discreet silent" by (simp add: discreet_def silent_def)

definition from_to :: "octets \<Rightarrow> octets \<Rightarrow> octets option \<Rightarrow> (octets \<times> octets) option \<Rightarrow> gdt_message" where
  "from_to ty dty did hop = new_message\<lparr>h_version := [GDT_VERSION], h_src_type := ty, h_dst_type := dty, h_dst_id := did,
     h_seq_num := [0, 0, 0, 1], h_seq_flag := [sf_start], h_hop := hop\<rparr>"

lemma from_to_fields [simp]: "h_version (from_to ty dty did hop) = [GDT_VERSION]" "h_dst_type (from_to ty dty did hop) = dty"
  "h_dst_id (from_to ty dty did hop) = did" "h_seq_flag (from_to ty dty did hop) = [sf_start]" "h_hop (from_to ty dty did hop) = hop"
  by (simp_all add: from_to_def)

lemma forward_some: "forwarded_message oh k r s = Some m \<Longrightarrow> \<exists>s'. forward now sid oh k r s = Some s'"
  by (auto simp: forward_def split: prod.split option.split)

lemma forward_plain: "\<not> router_flag (peers s r) \<Longrightarrow> \<exists>s'. forward now sid oh k r s = Some s'"
  by (auto simp: forward_def forwarded_message_def split: prod.split option.split)

lemma references_kept_witness:
  "\<exists>s'. receive silent 5 9 0 (from_to [97] [98] None None) 0 (small_net False) = Some s' \<and>
     (\<forall>j. ref_counter (peers s' j) = ref_counter (peers (small_net False) j))"
proof -
  let ?s = "small_net False" and ?m = "from_to [97] [98] None None"
  have n: "name_buffer [98] = Some [98]" by (simp add: name_buffer_def)
  have c: "choose_held [2] ?s = ([2], ungrab 2 (grab 2 (grab 2 ?s)))"
    by (simp add: choose_held_def choose_route_def first_route_def)
  have r: "route 0 ?m ?s = Some ([98], 0, [2], ungrab 2 (grab 2 (grab 2 ?s)))"
    by (simp add: route_def n find_route_def c)
  have "\<not> router_flag (peers (ungrab 2 (grab 2 (grab 2 ?s))) 2)" by (simp add: grab_def ungrab_def inc_refc_def dec_refc_def)
  from forward_plain [OF this] obtain s' where "forward 5 0 ?m 0 2 (ungrab 2 (grab 2 (grab 2 ?s))) = Some s'" by blast
  then have "receive silent 5 9 0 ?m 0 ?s = Some (ungrab 2 s')" by (simp add: receive_def r)
  moreover from references_kept [OF _ _ _ _ _ _ _ this, of "[98]" None] n
  have "ref_counter (peers (ungrab 2 s') j) = ref_counter (peers ?s j)" for j by simp
  ultimately show ?thesis by blast
qed

section \<open>Where references and messages go astray\<close>

lemma forward_some_refs: "forward_all now sid oh k ty rs (this, s) = Some (this', s') \<Longrightarrow> clients s' = clients s"
proof (induction rs arbitrary: this s)
  case (Cons r rs)
  then show ?case using forward_identity(2) [of now sid oh k r s]
    by (auto simp: ungrab_def split: if_splits bind_splits)
qed simp

lemma count_list_distinct: "distinct xs \<Longrightarrow> x \<in> set xs \<Longrightarrow> count_list xs x = 1"
  by (induction xs) auto

text \<open>
  A message for all daemons of a type takes a reference from each of them that nobody added:
  a client that only its session holds is left with none, and a later call that removes it waits
  for ever.
\<close>

theorem broadcast_drops_reference:
  assumes "hd (h_version oh) = GDT_VERSION" and "name_buffer (h_dst_type oh) = Some ty" and "h_dst_id oh = Some [42]"
    and "session_router s" and "session_id s \<noteq> [42]" and "distinct (clients s)" and "r \<in> set (clients s)" and "usable s r"
    and "end_point_type (peers s r) = ty" and "r \<noteq> k" and "ref_counter (peers s r) = 1"
    and "receive run now len sid oh k s = Some s'"
  shows "ref_counter (peers s' r) = 0 \<and> remove_client srun (Some r) s' = None"
proof -
  define rs where "rs = filter (\<lambda>j. usable s j \<and> end_point_type (peers s j) = ty \<and> j \<noteq> k) (clients s)"
  have r: "r \<in> set rs" "distinct rs" "\<forall>j \<in> set rs. j \<noteq> k" using assms(6-10) by (simp_all add: rs_def)
  have "route k oh s = Some (ty, 0, rs, s)"
    using assms(2-5) by (auto simp: route_def name_buffer_def find_route_all rs_def)
  moreover have "rs \<noteq> []" using r(1) by auto
  ultimately obtain p where p: "forward_all now sid oh k ty rs (False, s) = Some p"
      "s' = (case p of (this, s) \<Rightarrow> if this then peer_upd k (handle_message run now len sid oh) s else s)"
    using assms(1,12) by (auto simp: receive_def)
  obtain this s2 where t: "p = (this, s2)" by (cases p)
  have f: "forward_all now sid oh k ty rs (False, s) = Some (this, s2)"
    and s2: "s' = (if this then peer_upd k (handle_message run now len sid oh) s2 else s2)"
    using p by (simp_all add: t)
  note a = forward_all_refs [OF f, of r]
  have nt: "\<not> this" using a r(3) by blast
  have "filter (\<lambda>r. r \<noteq> k \<or> end_point_type (peers s r) = ty) rs = rs" using r(3) by simp
  then have z: "refs s' r = 0" using a nt assms(11) count_list_distinct [OF r(2,1)] by (simp add: s2)
  have "clients s' = clients s" using forward_some_refs [OF f] nt by (simp add: s2)
  then have "remove_client srun (Some r) s' = None"
    using assms(7) z by (simp add: remove_client_def unlink_client_def refs_grab Let_def)
  with z show ?thesis by blast
qed

lemma net_forward: "\<exists>s'. forward now sid oh k 2 (small_net False) = Some s'"
  by (rule forward_plain) simp

lemma broadcast_drops_reference_witness:
  "\<exists>s'. receive silent 5 9 0 (from_to [97] [98] (Some [42]) None) 0 (small_net False) = Some s' \<and>
     ref_counter (peers s' 2) = 0 \<and> remove_client (\<lambda>_ _ s. s) (Some 2) s' = None"
proof -
  let ?s = "small_net False" and ?m = "from_to [97] [98] (Some [42]) None"
  have n: "name_buffer [98] = Some [98]" "name_buffer [42] = Some [42]" by (simp_all add: name_buffer_def)
  have r: "route 0 ?m ?s = Some ([98], 0, [2], ?s)" by (simp add: route_def n find_route_all)
  obtain s' where "forward 5 0 ?m 0 2 ?s = Some s'" using net_forward by blast
  then have *: "receive silent 5 9 0 ?m 0 ?s = Some (ungrab 2 s')" by (simp add: receive_def r)
  from broadcast_drops_reference [OF _ _ _ _ _ _ _ _ _ _ _ *, of "[98]" 2 "\<lambda>_ _ s. s"] n
  have "ref_counter (peers (ungrab 2 s') 2) = 0 \<and> remove_client (\<lambda>_ _ s. s) (Some 2) (ungrab 2 s') = None" by simp
  with * show ?thesis by blast
qed

text \<open>What a forwarded message does to the client it goes to.\<close>

lemma forward_effect:
  assumes "allocate_stream_pool (peers s r) = (Some i, c)" and "forwarded_message oh k r s = Some m"
    and "length (out_queue (peers s r)) < out_capacity (peers s r)" and "forward now sid oh k r s = Some s'"
  shows "out_queue (peers s' r) = out_queue (peers s r) @ [i]" "raw_data (payload_of i (peers s' r)) = m"
    "free_on_send (payload_of i (peers s' r))" "in_stats (peers s' r) = in_stats (peers s r)"
    "streams (peers s' r) = streams (peers s r)" "internal_out_queue (peers s' r) = internal_out_queue (peers s r)"
    "j \<noteq> r \<Longrightarrow> out_queue (peers s' j) = out_queue (peers s j) \<and> internal_out_queue (peers s' j) = internal_out_queue (peers s j) \<and>
       store (peers s' j) = store (peers s j)"
proof -
  obtain p where p: "c = (peers s r)\<lparr>stream_pool := p\<rparr>" using assms(1) by (auto simp: allocate_stream_pool_def split: prod.splits)
  let ?c = "(peers s r)\<lparr>stream_pool := p\<rparr>"
  have s': "s' = peer_upd r (\<lambda>c. snd (push_out_queue (Some i) (upd i (forwarded_stream now sid r m) c)))
      (peer_upd k (gdt_out_message_update (\<lambda>_. m)) (peer_upd r (\<lambda>_. ?c) s))"
    by (cases "k = r") (use assms(1,2,4) p in \<open>simp_all add: forward_def Let_def\<close>)
  show "out_queue (peers s' r) = out_queue (peers s r) @ [i]" "raw_data (payload_of i (peers s' r)) = m"
    "free_on_send (payload_of i (peers s' r))" "in_stats (peers s' r) = in_stats (peers s r)"
    "streams (peers s' r) = streams (peers s r)" "internal_out_queue (peers s' r) = internal_out_queue (peers s r)"
    "j \<noteq> r \<Longrightarrow> out_queue (peers s' j) = out_queue (peers s j) \<and> internal_out_queue (peers s' j) = internal_out_queue (peers s j) \<and>
       store (peers s' j) = store (peers s j)"
    using assms(3) by (auto simp: s' push_out_queue_def ring_push_def forwarded_stream_def)
qed

text \<open>
  A message for this daemon that comes from a daemon of the same type never reaches its
  handler: it is sent back to the peer it came from, and a reference of the peer is dropped.
\<close>

theorem same_type_bounced:
  assumes "hd (h_version oh) = GDT_VERSION" and "name_buffer (h_dst_type oh) = Some (session_type s)"
    and "h_dst_id oh = Some d" and "name_buffer d = Some (session_id s)" and "end_point_type (peers s k) = session_type s"
    and "allocate_stream_pool (peers s k) = (Some i, c)" and "forwarded_message oh k k s = Some m"
    and "length (out_queue (peers s k)) < out_capacity (peers s k)" and "receive run now len sid oh k s = Some s'"
  shows "out_queue (peers s' k) = out_queue (peers s k) @ [i] \<and> raw_data (payload_of i (peers s' k)) = m \<and>
    in_stats (peers s' k) = in_stats (peers s k) \<and> streams (peers s' k) = streams (peers s k) \<and>
    ref_counter (peers s' k) = ref_counter (peers s k) - 1"
proof -
  have "route k oh s = Some (session_type s, 0, [k], s)" using assms(2-4) by (simp add: route_def)
  then obtain s1 where f: "forward now sid oh k k s = Some s1" and s': "s' = ungrab k s1"
    using assms(1,5,9) by (auto simp: receive_def bind_eq_Some_conv)
  from forward_effect [OF assms(6-8) f] forward_refs(1) [OF f] show ?thesis
    by (simp add: s' ungrab_def dec_refc_def)
qed

lemma same_type_bounced_witness:
  "\<exists>s' c. let s = (small_net False)\<lparr>session_type := [97]\<rparr>; m = from_to [97] [97] (Some [49]) None in
     receive silent 5 9 0 m 0 s = Some s' \<and> out_queue (peers s' 0) = [Suc 0] \<and> ref_counter (peers s' 0) = 0"
proof -
  let ?s = "(small_net False)\<lparr>session_type := [97]\<rparr>" and ?m = "from_to [97] [97] (Some [49]) None"
  have n: "name_buffer [97] = Some [97]" "name_buffer [49] = Some [49]" by (simp_all add: name_buffer_def)
  obtain c where a: "allocate_stream_pool (peers ?s 0) = (Some 1, c)" using peer_alloc [of 0 "[97]" "[50]" False] by auto
  have "\<not> router_flag (peers ?s 0)" by simp
  then obtain m where m: "forwarded_message ?m 0 0 ?s = Some m" by (auto simp: forwarded_message_def)
  from forward_plain [of ?s 0 5 0 ?m 0] obtain s' where "forward 5 0 ?m 0 0 ?s = Some s'" by auto
  then have *: "receive silent 5 9 0 ?m 0 ?s = Some (ungrab 0 s')" by (simp add: receive_def route_def n)
  from same_type_bounced [OF _ _ _ _ _ a m _ *, of "[49]"] n show ?thesis
    by (intro exI [of _ "ungrab 0 s'"]) (simp add: * )
qed

text \<open>
  The answer to a message that has made too many hops goes the wrong way: it is queued on the
  connection of the next router, addressed to the daemon the message came from, and nothing is sent
  to the client that delivered the message.
\<close>

theorem hop_limit_answer_astray:
  assumes "hd (h_version oh) = GDT_VERSION" and "name_buffer (h_dst_type oh) = Some ty"
    and "h_dst_id oh = Some d" and "name_buffer d = Some i" and "i \<noteq> [42]" and "\<not> (session_type s = ty \<and> session_id s = i)"
    and "session_router s" and "find (\<lambda>j. usable s j \<and> end_point_type (peers s j) = ty \<and> end_point_id (peers s j) = i) (clients s) = Some r"
    and "r \<noteq> k" and "router_flag (peers s r)" and "h_hop oh = Some (cur, mx)" and "hop_count cur = Some hops" and "sint hops > sint (10 :: u32)"
    and "fst (allocate_stream_pool (peers s r)) = Some j" and "length (out_queue (peers s r)) < out_capacity (peers s r)"
    and "receive run now len sid oh k s = Some s'"
  shows "out_queue (peers s' r) = out_queue (peers s r) @ [j] \<and>
    (let m = raw_data (payload_of j (peers s' r)) in h_status m = Some [err_max_hops_exceeded] \<and> h_dst_type m = h_src_type oh \<and>
       h_dst_id m = h_src_id oh) \<and>
    out_queue (peers s' k) = out_queue (peers s k) \<and> internal_out_queue (peers s' k) = internal_out_queue (peers s k)"
proof -
  define g where "g = grab r s"
  have g: "peers g r = (peers s r)\<lparr>ref_counter := ref_counter (peers s r) + 1\<rparr>" "peers g k = peers s k"
    using assms(9) by (simp_all add: g_def grab_def inc_refc_def)
  have "route k oh s = Some (ty, 0, [r], g)"
    using assms(2-8) by (auto simp: route_def find_route_def g_def)
  then obtain s1 where f: "forward now sid oh k r g = Some s1" and s': "s' = ungrab r s1"
    using assms(1,9,16) by (auto simp: receive_def bind_eq_Some_conv)
  obtain p where p: "allocate_constructed (stream_pool (peers s r)) = (Some j, p)"
    using assms(14) by (auto simp: allocate_stream_pool_def split: prod.splits)
  then obtain c where a: "allocate_stream_pool (peers g r) = (Some j, c)" by (simp add: g allocate_stream_pool_def)
  obtain e m0 where u: "update_hop_info oh (gdt_out_message (peers g k)) = Some (1, m0)"
    using assms(11-13) by (auto simp: update_hop_info_def Let_def)
  define m where "m = generate_err (session_id g) oh (error_flag oh) (own_source g) err_max_hops_exceeded m0"
  have fm: "forwarded_message oh k r g = Some m" using assms(10) u by (simp add: forwarded_message_def m_def g(1))
  have l: "length (out_queue (peers g r)) < out_capacity (peers g r)" using assms(15) by (simp add: g(1))
  note e = forward_effect [OF a fm l f]
  have m: "h_status m = Some [err_max_hops_exceeded]" "h_dst_type m = h_src_type oh" "h_dst_id m = h_src_id oh"
    by (simp_all add: m_def generate_err_def setup_dest_and_uuid_def Let_def split: option.split)
  show ?thesis using e(1,2) e(7) [of k] assms(9) m by (simp add: s' ungrab_def dec_refc_def g Let_def)
qed

lemma hop_limit_answer_astray_witness:
  "\<exists>s'. receive silent 5 9 0 (from_to [97] [98] (Some [51]) (Some ([0, 0, 0, 11], [0, 0, 0, 10]))) 0 (small_net True) = Some s' \<and>
     out_queue (peers s' 2) = [Suc 0] \<and> out_queue (peers s' 0) = []"
proof -
  let ?s = "small_net True" and ?m = "from_to [97] [98] (Some [51]) (Some ([0, 0, 0, 11], [0, 0, 0, 10]))"
  have n: "name_buffer [98] = Some [98]" "name_buffer [51] = Some [51]" by (simp_all add: name_buffer_def)
  have r: "route 0 ?m ?s = Some ([98], 0, [2], grab 2 ?s)" by (simp add: route_def n find_route_def)
  have h: "hop_count [0, 0, 0, 11] = Some 11" by (simp add: hop_count_def sum_octets.simps)
  have "\<exists>e m. update_hop_info ?m (gdt_out_message (peers (grab 2 ?s) 0)) = Some (e, m)" by (simp add: update_hop_info_def Let_def h)
  then have "\<exists>m. forwarded_message ?m 0 2 (grab 2 ?s) = Some m" by (cases "router_flag (peers (grab 2 ?s) 2)") (auto simp: forwarded_message_def)
  then obtain m where "forwarded_message ?m 0 2 (grab 2 ?s) = Some m" by blast
  from forward_some [OF this] obtain s' where f: "forward 5 0 ?m 0 2 (grab 2 ?s) = Some s'" by blast
  then have *: "receive silent 5 9 0 ?m 0 ?s = Some (ungrab 2 s')" by (simp add: receive_def r)
  have a: "fst (allocate_stream_pool (peers ?s 2)) = Some 1" using peer_alloc [of 2 "[98]" "[51]" True] by auto
  from hop_limit_answer_astray [of ?m "[98]" "[51]" "[51]" ?s 2 0 "[0, 0, 0, 11]" "[0, 0, 0, 10]" 11 1 silent 5 9 0 "ungrab 2 s'"] n h a *
  show ?thesis by (intro exI [of _ "ungrab 2 s'"]) simp
qed

text \<open>
  A message that has no route is answered to the client that sent it, with the error for an
  unknown route and this daemon as its source; no other client is touched and no reference is taken.
\<close>

theorem unroutable_answered:
  assumes "hd (h_version oh) = GDT_VERSION" and "name_buffer (h_dst_type oh) = Some ty" and "h_dst_id oh = None"
    and "ty \<noteq> [46]" and "ty \<noteq> session_type s" and "\<forall>j \<in> set (clients s). usable s j \<longrightarrow> end_point_type (peers s j) \<noteq> ty"
    and "holds n [] (peers s k)" and "fst (allocate_stream_pool (peers s k)) = Some i" and "0 < spsc_room (internal_out_queue (peers s k))"
    and "receive run now len sid oh k s = Some s'"
  shows "spsc_content (internal_out_queue (peers s' k)) = spsc_content (internal_out_queue (peers s k)) @ [i] \<and>
    (let m = raw_data (payload_of i (peers s' k)) in h_status m = Some [err_unknown_route] \<and> h_src_type m = session_type s \<and>
       h_src_id m = Some (session_id s) \<and> h_dst_type m = h_src_type oh \<and> h_uuid m = h_uuid oh) \<and>
    (\<forall>j. j \<noteq> k \<longrightarrow> peers s' j = peers s j) \<and> ref_counter (peers s' k) = ref_counter (peers s k)"
proof -
  have e: "filter (\<lambda>j. usable s j \<and> end_point_type (peers s j) = ty) (clients s) = []"
    using assms(6) by (auto simp: filter_empty_conv)
  have "\<exists>s1 e. route k oh s = Some (ty, e, [], s1) \<and> peers s1 = peers s \<and> session_type s1 = session_type s \<and> session_id s1 = session_id s"
    using assms(2-5) e
    by (auto simp: route_def find_route_def choose_held_def choose_route_def first_route_def base_route_def wrr_route_def
        split: option.split route_handler.split)
  then obtain s1 e where r: "route k oh s = Some (ty, e, [], s1)" and s1: "peers s1 = peers s" "session_type s1 = session_type s"
      "session_id s1 = session_id s" by (elim exE conjE)
  define c where "c = peers s k"
  obtain p where p: "allocate_constructed (stream_pool c) = (Some i, p)"
    using assms(8) by (auto simp: c_def allocate_stream_pool_def split: prod.splits)
  have s': "s' = peer_upd k (answer (Some now) (Some GDT_ST_STATELESS) sid oh (error_flag oh) (own_source s1) err_unknown_route) s1"
    using assms(1,10) r by (simp add: receive_def)
  have k: "peers s' k = push_internal i (reply_err (Some now) (Some GDT_ST_STATELESS) sid oh (error_flag oh) (own_source s1) err_unknown_route i
      (c\<lparr>stream_pool := p\<rparr>))"
    using p by (simp add: s' s1 answer_def allocate_stream_pool_def c_def)
  have q: "spsc_invar (internal_out_queue c)" unfolding c_def by (rule holds_queue [OF assms(7)])
  have "fst (spsc_push True i (internal_out_queue c)) = 0" using spsc_fifo.push_room [OF q] assms(9) by (simp add: c_def)
  from spsc_fifo.push_takes [OF q this]
  have "spsc_content (internal_out_queue (peers s' k)) = spsc_content (internal_out_queue c) @ [i]"
    by (simp add: k push_internal_def reply_err_def Let_def)
  then show ?thesis
    by (simp add: c_def k push_internal_def reply_err_def Let_def generate_err_def setup_dest_and_uuid_def own_source_def s1)
      (simp add: s' s1)
qed

lemma unroutable_answered_witness:
  "\<exists>s'. receive silent 5 9 0 (from_to [97] [99] None None) 0 ((small_net False)\<lparr>peers := (\<lambda>_. busy_client\<lparr>end_point_type := [97]\<rparr>)\<rparr>) = Some s' \<and>
     (\<exists>i. spsc_content (internal_out_queue (peers s' 0)) = [3, i])"
proof -
  let ?c = "busy_client\<lparr>end_point_type := [97]\<rparr>"
  let ?s = "(small_net False)\<lparr>peers := (\<lambda>_. ?c)\<rparr>" and ?m = "from_to [97] [99] None None"
  have n: "name_buffer [99] = Some [99]" by (simp add: name_buffer_def)
  have "constructed_free (stream_pool busy_client) = [0] @ [1]" by (simp add: busy_pool)
  from constructed_pool.alloc_takes [OF busy_pool(1) this] obtain p where "allocate_constructed (stream_pool busy_client) = (Some 1, p)" by blast
  then have a: "fst (allocate_stream_pool (peers ?s 0)) = Some 1" by (simp add: allocate_stream_pool_def)
  have h: "holds 4 [] (peers ?s 0)" using busy_holds by (simp add: holds_def queue_ok_def owner_defs)
  have f: "filter (\<lambda>j. usable ?s j \<and> end_point_type (peers ?s j) = [99]) (clients ?s) = []" by simp
  obtain s' where *: "receive silent 5 9 0 ?m 0 ?s = Some s'"
    using n f by (simp add: receive_def route_def find_route_def choose_held_def choose_route_def first_route_def split: if_splits)
  from unroutable_answered [OF _ _ _ _ _ _ h a _ *, of "[99]"] n busy_queue
  have "\<exists>i. spsc_content (internal_out_queue (peers s' 0)) = [3, i]" by simp
  with * show ?thesis by blast
qed

end
