(* ===== verification/GdtTables.thy ===== *)
theory GdtTables
  imports GdtRoute
begin

text \<open>
  The tables of the weighted handler over the life of a session: they hold only clients of the
  session, and lookups follow the weights.
\<close>

section \<open>The clients in the routing tables\<close>

definition entries :: "'d wrr \<Rightarrow> (char list \<times> 'd) list" where
  "entries w = map (\<lambda>it. (wi_id it, wi_item it)) (items w)"

lemma length_entries [simp]: "length (entries w) = length (items w)" by (simp add: entries_def)

lemma map_update_same: "f y = f (xs ! j) \<Longrightarrow> map f (xs[j := y]) = map f xs"
  by (metis list_update_id map_update)

lemma entries_frame [simp]:
  "entries (recalc w) = entries w" "entries (snd (enable p w)) = entries w" "entries (snd (disable p w)) = entries w"
  "entries (snd (enable_item q w)) = entries w" "entries (snd (disable_item q w)) = entries w" "entries (snd (wrr_run w)) = entries w"
  by (auto simp: entries_def enable_def disable_def enable_item_def disable_item_def Let_def comp_def map_update_same split: option.split)

lemma entries_add: "entries (snd (add_item d i wt w)) = entries w @ [(take 64 (cstr i), d)]"
  by (simp add: add_item_def entries_def new_wrr_item_def)

lemma entries_set: "j < length (items w) \<Longrightarrow> entries (set_item j d w) = (entries w)[j := (fst (entries w ! j), d)]"
  by (simp add: set_item_def entries_def map_update)

lemma entries_new [simp]: "entries new_wrr = []" by (simp add: entries_def new_wrr_def)

lemma entries_remove: "set (entries (snd (wrr_remove p w))) \<subseteq> set (entries w)"
  "distinct (map fst (entries w)) \<Longrightarrow> distinct (map fst (entries (snd (wrr_remove p w))))"
  by (auto simp: entries_def wrr_remove_def comp_def distinct_map_filter split: option.split)

lemma get_entry: "wrr_get (Some i) w = Some j \<Longrightarrow> j < length (items w) \<and> fst (entries w ! j) = cstr i"
  using find_index_Some [of "id_matches i" "items w" j] by (auto simp: wrr_get_def entries_def id_matches_def)

lemma get_none: "wrr_get (Some i) w = None \<Longrightarrow> cstr i \<notin> fst ` set (entries w)"
  by (auto simp: wrr_get_def entries_def find_index_None id_matches_def)

text \<open>Names that the tables store as they are.\<close>

definition short_name :: "octets \<Rightarrow> bool" where "short_name d \<longleftrightarrow> length d \<le> 64 \<and> 0 \<notin> set d"

lemma char_of_u8: "(char_of (unat (b :: u8)) = CHR 0x00) = (b = 0)"
proof -
  have "unat b < 2 ^ LENGTH(8)" by (rule unsigned_less)
  then have "(of_char (char_of (unat b) :: char) :: nat) = unat b" by (simp add: of_char_of)
  moreover have "(of_char (CHR 0x00) :: nat) = 0" by simp
  ultimately show ?thesis by (metis of_char_eq_iff unat_eq_zero)
qed

lemma short_chars: "short_name d \<Longrightarrow> cstr (chars d) = chars d" "short_name d \<Longrightarrow> take 64 (chars d) = chars d"
  by (auto simp: short_name_def chars_def no_nul_def list_all_iff char_of_u8 intro!: cstr_no_nul)

definition filed :: "(u32 \<Rightarrow> char list \<Rightarrow> nat \<Rightarrow> bool) \<Rightarrow> wrr_map \<Rightarrow> bool" where
  "filed P m \<longleftrightarrow> (\<forall>h w. m h = Some w \<longrightarrow> distinct (map fst (entries w)) \<and> (\<forall>i k. (i, Some k) \<in> set (entries w) \<longrightarrow> P h i k))"

lemma filedD: "filed P m \<Longrightarrow> m h = Some w \<Longrightarrow> distinct (map fst (entries w))"
  "filed P m \<Longrightarrow> m h = Some w \<Longrightarrow> (i, Some k) \<in> set (entries w) \<Longrightarrow> P h i k"
  unfolding filed_def by blast+

lemma filed_upd: "filed P m \<Longrightarrow> distinct (map fst (entries w)) \<Longrightarrow> (\<And>i k. (i, Some k) \<in> set (entries w) \<Longrightarrow> P h i k) \<Longrightarrow> filed P (m(h \<mapsto> w))"
  by (auto simp: filed_def)

lemma filed_del: "filed P m \<Longrightarrow> filed P (m(h := None))" by (auto simp: filed_def)

lemma filed_empty [simp]: "filed P (\<lambda>_. None)" by (simp add: filed_def)

lemma filed_mono: "filed P m \<Longrightarrow> (\<And>h i k. P h i k \<Longrightarrow> Q h i k) \<Longrightarrow> filed Q m" by (auto simp: filed_def)

lemma filed_add:
  assumes "filed P m" and "short_name i" and "wrr_get_node (Some ty) (Some i) m = None"
    and "\<And>k. g = Some k \<Longrightarrow> P (wrr_key ty) (chars i) k" and "wrr_add_node g (Some ty) i ps m = Some (r, m')"
  shows "filed P m'"
proof -
  define w where "w = (case m (wrr_key ty) of Some w \<Rightarrow> w | None \<Rightarrow> new_wrr)"
  have w: "distinct (map fst (entries w))" "\<And>i k. (i, Some k) \<in> set (entries w) \<Longrightarrow> P (wrr_key ty) i k"
    using filedD [OF assms(1)] by (auto simp: w_def split: option.splits)
  have n: "chars i \<notin> fst ` set (entries w)"
    using assms(2,3) get_none [of "chars i" w] by (auto simp: w_def wrr_get_node_def short_chars split: option.splits)
  have base: "filed P (m(wrr_key ty \<mapsto> w))" by (rule filed_upd [OF assms(1) w])
  show ?thesis
  proof (cases "m' = m \<or> m' = m(wrr_key ty \<mapsto> w)")
    case True
    then show ?thesis using assms(1) base by blast
  next
    case False
    then obtain w' where w': "m' = m(wrr_key ty \<mapsto> w')" "entries w' = entries w @ [(take 64 (cstr (chars i)), g)]"
      using assms(5) by (auto simp: wrr_add_node_def Let_def w_def [symmetric] bind_eq_Some_conv entries_add split: option.splits if_splits)
    show ?thesis unfolding w'(1)
      by (rule filed_upd [OF assms(1)]) (use w n assms(2,4) in \<open>auto simp: w'(2) short_chars\<close>)
  qed
qed

lemma filed_remove_node: "filed P m \<Longrightarrow> filed P (snd (wrr_remove_node ty i m))"
  unfolding wrr_remove_node_def
  by (auto split: option.split intro!: filed_upd entries_remove(2) dest: filedD entries_remove(1) [THEN subsetD])

lemma filed_remove_type: "filed P m \<Longrightarrow> filed P (snd (wrr_remove_type ty m))"
  by (auto simp: wrr_remove_type_def filed_del split: option.split)

lemma map_fst_set: "j < length xs \<Longrightarrow> map fst (xs[j := (fst (xs ! j), d)]) = map fst xs"
  by (simp add: map_update_same)

lemma filed_update:
  assumes "filed P m" and "short_name i" and "\<And>k. g = Some k \<Longrightarrow> P (wrr_key ty) (chars i) k"
  shows "filed P (snd (wrr_update_client g (Some ty) (Some i) m))"
proof (cases "m (wrr_key ty)")
  case (Some w)
  show ?thesis
  proof (cases "wrr_get (Some (chars i)) w")
    case (Some j)
    note g = get_entry [OF Some]
    let ?w = "set_item j g w"
    have e: "entries ?w = (entries w)[j := (chars i, g)]" using g assms(2) by (simp add: entries_set short_chars)
    have "distinct (map fst (entries ?w))"
      using filedD(1) [OF assms(1) \<open>m (wrr_key ty) = Some w\<close>] g assms(2) by (simp add: e map_update_same short_chars)
    moreover have "P (wrr_key ty) i' k" if "(i', Some k) \<in> set (entries ?w)" for i' k
      using that set_update_subset_insert [of "entries w" j "(chars i, g)"] filedD(2) [OF assms(1) \<open>m (wrr_key ty) = Some w\<close>] assms(3)
      by (auto simp: e)
    ultimately show ?thesis using assms(1) Some \<open>m (wrr_key ty) = Some w\<close>
      by (auto simp: wrr_update_client_def Let_def intro!: filed_upd)
  qed (simp add: wrr_update_client_def assms(1) \<open>m (wrr_key ty) = Some w\<close>)
qed (simp add: wrr_update_client_def assms(1))

text \<open>
  When the client leaves, the entry of its name loses it; no other one had it.
\<close>

lemma filed_leave:
  assumes "filed P m" and "short_name i" and "\<And>h j. P h j k \<Longrightarrow> h = wrr_key ty \<and> j = chars i"
  shows "filed (\<lambda>h j k'. P h j k' \<and> k' \<noteq> k) (snd (wrr_update_client None (Some ty) (Some i) m))"
proof -
  define m' where "m' = snd (wrr_update_client None (Some ty) (Some i) m)"
  have f: "filed P m'" unfolding m'_def by (rule filed_update [OF assms(1,2)]) simp
  have "k' \<noteq> k" if t: "m' h = Some w'" "(j, Some k') \<in> set (entries w')" for h w' j k'
  proof
    assume "k' = k"
    then have hj: "h = wrr_key ty" "j = chars i" using assms(3) filedD(2) [OF f t] by blast+
    have "chars i \<in> fst ` set (entries w')" using t(2) hj by force
    show False
    proof (cases "m (wrr_key ty)")
      case None
      then show False using t hj by (simp add: m'_def wrr_update_client_def)
    next
      case (Some w)
      show False
      proof (cases "wrr_get (Some (chars i)) w")
        case None
        then have "w' = w" using t(1) Some hj by (simp add: m'_def wrr_update_client_def)
        then show False using get_none [OF None] \<open>chars i \<in> fst ` set (entries w')\<close> assms(2) by (simp add: short_chars)
      next
        case (Some l)
        note g = get_entry [OF Some]
        have e: "entries w' = (entries w)[l := (chars i, None)]"
          using t(1) \<open>m (wrr_key ty) = Some w\<close> Some g hj assms(2)
          by (auto simp: m'_def wrr_update_client_def Let_def entries_set short_chars)
        have l: "l < length (entries w')" "entries w' ! l = (chars i, None)" using g by (simp_all add: e)
        obtain n where n: "n < length (entries w')" "entries w' ! n = (chars i, Some k')" using t(2) hj by (auto simp: in_set_conv_nth)
        have "n = l" using nth_eq_iff_index_eq [OF filedD(1) [OF f t(1)], of n l] l n by simp
        then show False using l n by simp
      qed
    qed
  qed
  then show ?thesis using f unfolding m'_def [symmetric] by (auto simp: filed_def)
qed

definition tables :: "gdt_session \<Rightarrow> wrr_map" where
  "tables s = (case rh_method s of Some (Wrr_route_handler m) \<Rightarrow> m | _ \<Rightarrow> (\<lambda>_. None))"

lemma tables_simps [simp]: "tables (s\<lparr>rh_method := Some (Wrr_route_handler m)\<rparr>) = m" "tables (s\<lparr>rh_method := None\<rparr>) = (\<lambda>_. None)"
  "tables (s\<lparr>clients := cs\<rparr>) = tables s" "tables (s\<lparr>peers := ps\<rparr>) = tables s"
  by (simp_all add: tables_def)

text \<open>
  The life of a session as the daemons drive it: the routing algorithm is set, clients come and go,
  their state changes (the names only while no table has them), nodes are configured with the client
  that is registered under their name or none, registered clients are put in, routes are looked up.
\<close>

inductive routing_run :: "gdt_session \<Rightarrow> bool" where
  start: "routing_run (new_session ty i rt ps)"
| algorithm: "routing_run s \<Longrightarrow> routing_run (set_routing_algo a s)"
| arrive: "routing_run s \<Longrightarrow> k \<notin> set (clients s) \<Longrightarrow> routing_run (add_client k s)"
| change: "routing_run s \<Longrightarrow> end_point_type (f (peers s k)) = end_point_type (peers s k) \<Longrightarrow>
    end_point_id (f (peers s k)) = end_point_id (peers s k) \<Longrightarrow> routing_run (peer_upd k f s)"
| rename: "routing_run s \<Longrightarrow> \<forall>h w. tables s h = Some w \<longrightarrow> Some k \<notin> snd ` set (entries w) \<Longrightarrow> routing_run (peer_upd k f s)"
| configure: "routing_run s \<Longrightarrow> rh_method s = Some h \<Longrightarrow> g = None \<or> g = get_registered_client ty i s \<Longrightarrow> short_name i \<Longrightarrow>
    get_node (Some ty) (Some i) h = None \<Longrightarrow> add_node g (Some ty) i ps h = Some (r, h') \<Longrightarrow> routing_run (s\<lparr>rh_method := Some h'\<rparr>)"
| drop_node: "routing_run s \<Longrightarrow> rh_method s = Some h \<Longrightarrow> routing_run (s\<lparr>rh_method := Some (snd (remove_node ty i h))\<rparr>)"
| drop_type: "routing_run s \<Longrightarrow> rh_method s = Some h \<Longrightarrow> routing_run (s\<lparr>rh_method := Some (snd (remove_type ty h))\<rparr>)"
| enter: "routing_run s \<Longrightarrow> rh_method s = Some h \<Longrightarrow> k \<in> set (clients s) \<Longrightarrow> short_name (end_point_id (peers s k)) \<Longrightarrow>
    routing_run (s\<lparr>rh_method := Some (snd (update_client (Some k) (Some (end_point_type (peers s k))) (Some (end_point_id (peers s k))) h))\<rparr>)"
| look_up: "routing_run s \<Longrightarrow> find_route k ty did rs s = (e, rs', s') \<Longrightarrow> routing_run s'"
| leave: "routing_run s \<Longrightarrow> k \<in> set (clients s) \<Longrightarrow> short_name (end_point_id (peers s k)) \<Longrightarrow> routing_run (unlink_client k s)"

text \<open>An entry with a client has one of the session, under its own name.\<close>

definition belongs :: "gdt_session \<Rightarrow> u32 \<Rightarrow> char list \<Rightarrow> nat \<Rightarrow> bool" where
  "belongs s h i k \<longleftrightarrow> k \<in> set (clients s) \<and> h = wrr_key (end_point_type (peers s k)) \<and> i = chars (end_point_id (peers s k))"

definition in_order :: "gdt_session \<Rightarrow> bool" where
  "in_order s \<longleftrightarrow> distinct (clients s) \<and> filed (belongs s) (tables s)"

lemma belongs_cong: "clients s' = clients s \<Longrightarrow> (\<And>k. end_point_type (peers s' k) = end_point_type (peers s k)) \<Longrightarrow>
    (\<And>k. end_point_id (peers s' k) = end_point_id (peers s k)) \<Longrightarrow> belongs s' = belongs s"
  by (auto simp: belongs_def fun_eq_iff)

lemma registered_named: "get_registered_client ty i s = Some k \<Longrightarrow> belongs s (wrr_key ty) (chars i) k"
  by (auto simp: get_registered_client_def belongs_def find_Some_iff)

lemma handler_tables: "rh_method s = Some h \<Longrightarrow> tables s = (case h of Wrr_route_handler m \<Rightarrow> m | _ \<Rightarrow> (\<lambda>_. None))"
  by (simp add: tables_def split: route_handler.split)

lemma sans_names:
  assumes "sans_refs s' = sans_refs s"
  shows "clients s' = clients s" "end_point_type (peers s' k) = end_point_type (peers s k)" "end_point_id (peers s' k) = end_point_id (peers s k)"
  using assms unfolding sans_refs_def
  by (auto dest: arg_cong [where f = clients] arg_cong [where f = "\<lambda>s. end_point_type (peers s k)"] arg_cong [where f = "\<lambda>s. end_point_id (peers s k)"])

text \<open>A lookup moves the schedulers only.\<close>

lemma choose_held_sans: "sans_refs (snd (choose_held all s)) = sans_refs s"
proof (cases "counting s")
  case False
  then show ?thesis by (simp add: choose_held_def choose_route_def base_route_def counting_def)
qed (rule choose_held_counted(1))

lemma choose_held_tables: "filed P (tables s) \<Longrightarrow> filed P (tables (snd (choose_held all s)))"
  by (auto simp: choose_held_def choose_route_def first_route_def base_route_def wrr_route_def tables_def Let_def case_prod_beta
      split: option.splits route_handler.splits list.splits intro!: filed_upd dest: filedD)

lemma find_route_sans:
  assumes "find_route k ty did rs s = (e, rs', s')"
  shows "sans_refs s' = sans_refs s" "filed P (tables s) \<Longrightarrow> filed P (tables s')"
proof -
  have "s' = s \<or> (\<exists>j. s' = grab j s) \<or> (\<exists>all. s' = snd (choose_held all s))"
    using assms by (auto simp: find_route_def case_prod_beta split: option.splits if_splits)
  moreover have "tables (grab j s) = tables s" for j by (simp add: tables_def)
  ultimately show "sans_refs s' = sans_refs s" "filed P (tables s) \<Longrightarrow> filed P (tables s')"
    using choose_held_sans choose_held_tables by auto
qed

lemma in_order_peers: "in_order s \<Longrightarrow> belongs (s\<lparr>peers := ps\<rparr>) = belongs s \<Longrightarrow> in_order (s\<lparr>peers := ps\<rparr>)"
  by (simp add: in_order_def)

lemma routing_in_order: "routing_run s \<Longrightarrow> in_order s"
proof (induction rule: routing_run.induct)
  case (start ty i rt ps)
  show ?case by (simp add: in_order_def new_session_def tables_def)
next
  case (algorithm s a)
  then show ?case by (cases a) (simp_all add: set_routing_algo_def in_order_def)
next
  case (arrive s k)
  then show ?case by (auto simp: in_order_def add_client_def belongs_def elim!: filed_mono)
next
  case (change s f k)
  have "belongs (peer_upd k f s) = belongs s" using change.hyps by (intro belongs_cong) auto
  then show ?case using change.IH by (simp add: in_order_def)
next
  case (rename s k f)
  have "filed (\<lambda>h i j. belongs s h i j \<and> j \<noteq> k) (tables s)"
    using rename.IH rename.hyps(2) by (force simp: in_order_def filed_def)
  then have "filed (belongs (peer_upd k f s)) (tables s)" by (rule filed_mono) (auto simp: belongs_def)
  then show ?case using rename.IH by (simp add: in_order_def)
next
  case (configure s h g ty i ps r h')
  show ?case
  proof (cases h)
    case Route_handler_method
    then have "h' = h" using configure.hyps by (simp add: add_node_def)
    then show ?thesis using configure.IH configure.hyps(2) by (simp add: in_order_def tables_def belongs_def [abs_def])
  next
    case (Wrr_route_handler m)
    then obtain m' where m': "h' = Wrr_route_handler m'" "wrr_add_node g (Some ty) i ps m = Some (r, m')"
      using configure.hyps by (auto simp: add_node_def)
    have m: "filed (belongs s) m" using configure.IH configure.hyps(2) Wrr_route_handler by (simp add: in_order_def tables_def)
    have n: "wrr_get_node (Some ty) (Some i) m = None" using configure.hyps Wrr_route_handler by (simp add: get_node_def)
    have "belongs s (wrr_key ty) (chars i) k" if "g = Some k" for k using configure.hyps(3) that registered_named by auto
    from filed_add [OF m configure.hyps(4) n this m'(2)] show ?thesis
      using configure.IH by (simp add: in_order_def m'(1) belongs_def [abs_def])
  qed
next
  case (drop_node s h ty i)
  then show ?case
    using filed_remove_node [of "belongs s" "tables s"]
    by (cases h) (auto simp: in_order_def remove_node_def handler_tables belongs_def [abs_def])
next
  case (drop_type s h ty)
  then show ?case
    using filed_remove_type [of "belongs s" "tables s"]
    by (cases h) (auto simp: in_order_def remove_type_def handler_tables belongs_def [abs_def])
next
  case (enter s h k)
  have "belongs s (wrr_key (end_point_type (peers s k))) (chars (end_point_id (peers s k))) k" using enter.hyps by (simp add: belongs_def)
  then show ?case
    using enter.IH enter.hyps filed_update [of "belongs s" "tables s" "end_point_id (peers s k)" "Some k"]
    by (cases h) (auto simp: in_order_def update_client_def handler_tables belongs_def [abs_def])
next
  case (look_up s k ty did rs e rs' s')
  note f = find_route_sans [OF look_up.hyps(2)]
  have "belongs s' = belongs s" by (intro belongs_cong sans_names [OF f(1)])
  then show ?case using look_up.IH f(2) sans_names(1) [OF f(1)] by (simp add: in_order_def)
next
  case (leave s k)
  define s' where "s' = unlink_client k s"
  let ?ty = "end_point_type (peers s k)" and ?i = "end_point_id (peers s k)"
  have t: "tables s' = (case rh_method s of Some (Wrr_route_handler m) \<Rightarrow> snd (wrr_update_client None (Some ?ty) (Some ?i) m) | _ \<Rightarrow> (\<lambda>_. None))"
    by (auto simp: s'_def unlink_client_def Let_def tables_def update_client_def split: option.split route_handler.split)
  have l: "filed (\<lambda>h j k'. belongs s h j k' \<and> k' \<noteq> k) (snd (wrr_update_client None (Some ?ty) (Some ?i) m))"
    if "filed (belongs s) m" for m using that leave.hyps(3) by (rule filed_leave) (simp_all add: belongs_def)
  have "filed (\<lambda>h j k'. belongs s h j k' \<and> k' \<noteq> k) (tables s')"
    unfolding t using leave.IH l by (simp add: in_order_def tables_def split: option.splits route_handler.splits)
  moreover have "clients s' = remove1 k (clients s)" "end_point_type (peers s' j) = end_point_type (peers s j)"
      "end_point_id (peers s' j) = end_point_id (peers s j)" for j
    by (simp_all add: s'_def unlink_client_def Let_def ungrab_def dec_refc_def)
  ultimately show ?case using leave.IH unfolding s'_def [symmetric]
    by (auto simp: in_order_def belongs_def elim!: filed_mono)
qed

text \<open>
  C36. The routing tables never keep a client that is gone: whatever clients and nodes come and go,
  every client that an entry of a table holds is one of the session, and every route that is found
  leads to a client of the session (or is the one that asks).
\<close>

theorem routes_lead_to_clients:
  assumes "routing_run s"
  shows "(\<forall>h w it k. tables s h = Some w \<longrightarrow> it \<in> set (items w) \<longrightarrow> wi_item it = Some k \<longrightarrow> k \<in> set (clients s)) \<and>
    set (fst (snd (find_route j (Some ty) did [] s))) \<subseteq> insert j (set (clients s))"
proof -
  have f: "filed (belongs s) (tables s)" using routing_in_order [OF assms] by (simp add: in_order_def)
  have a: "k \<in> set (clients s)" if "tables s h = Some w" "it \<in> set (items w)" "wi_item it = Some k" for h w it k
    using filedD(2) [OF f that(1), of "wi_id it" k] that(2,3) by (force simp: entries_def belongs_def)
  have c: "set (fst (choose_held all s)) \<subseteq> set (clients s)" if all: "set all \<subseteq> set (clients s)" for all
  proof -
    have "k \<in> set (clients s)" if "rh_method s = Some (Wrr_route_handler m)" "m h = Some w" "fst (wrr_run w) = Some l"
        "wi_item (items w ! l) = Some k" for m h w l k
    proof -
      from that(3) obtain w' where "wrr_run w = (Some l, w')" by (metis prod.collapse)
      then show ?thesis using wrr_run_item a [of h w "items w ! l" k] that by (fastforce simp: tables_def)
    qed
    then show ?thesis using all
      by (auto simp: choose_held_def choose_route_def first_route_def base_route_def wrr_route_def Let_def case_prod_beta
          split: option.splits route_handler.splits list.splits dest: in_set_takeD prod_eqI)
  qed
  have "set (fst (snd (find_route j (Some ty) did [] s))) \<subseteq> insert j (set (clients s))"
    using c [of "filter (\<lambda>j. usable s j \<and> end_point_type (peers s j) = ty) (clients s)"] c [of "[]"]
    by (auto simp: find_route_def case_prod_beta find_Some_iff split: option.split)
  with a show ?thesis by blast
qed

lemma routes_lead_to_clients_witness:
  "\<exists>s. routing_run s \<and> tables s (wrr_key [98]) \<noteq> None \<and> set (fst (snd (find_route 0 (Some [98]) None [] s))) \<subseteq> {0, 2}"
proof -
  let ?s = "set_routing_algo GDT_RA_WRR (small_net False)" and ?ps = "set_int (PT (0 :: u32) 0 0 0) 3 (new_vpmap 16)"
  have "small_net False = add_client 2 (add_client 0 (new_session [114] [49] True (peers (small_net False))))"
    by (simp add: small_net_def add_client_def new_session_def)
  moreover have "routing_run (add_client 2 (add_client 0 (new_session [114] [49] True ps)))" for ps
    by (intro routing_run.intros) (simp_all add: new_session_def add_client_def)
  ultimately have r: "routing_run ?s" by (metis routing_run.algorithm)
  have h: "rh_method ?s = Some (Wrr_route_handler (\<lambda>_. None))" by (simp add: set_routing_algo_def)
  have "map_option to_int (ParamMap.get_param (PT 0 0 0 0) ?ps) = Some (Some 3)" by code_simp
  then obtain vp where vp: "ParamMap.get_param (PT 0 0 0 0) ?ps = Some vp" "to_int vp = Some 3" by (auto simp del: One_nat_def)
  have "\<exists>r m. add_node (get_registered_client [98] [51] ?s) (Some [98]) [51] (Some ?ps) (Wrr_route_handler (\<lambda>_. None)) =
      Some (r, Wrr_route_handler m) \<and> m (wrr_key [98]) \<noteq> None"
    by (simp add: add_node_def wrr_add_node_def vp Let_def)
  then obtain q m where m: "add_node (get_registered_client [98] [51] ?s) (Some [98]) [51] (Some ?ps) (Wrr_route_handler (\<lambda>_. None)) =
      Some (q, Wrr_route_handler m)" "m (wrr_key [98]) \<noteq> None" by blast
  have "short_name [51]" "get_node (Some [98]) (Some [51]) (Wrr_route_handler (\<lambda>_. None)) = None"
    by (simp_all add: short_name_def get_node_def wrr_get_node_def)
  from routing_run.configure [OF r h disjI2 [OF refl] this m(1)] have r': "routing_run (?s\<lparr>rh_method := Some (Wrr_route_handler m)\<rparr>)" .
  from routes_lead_to_clients [OF this, of 0 "[98]" None] r' m(2) show ?thesis
    by (intro exI [of _ "?s\<lparr>rh_method := Some (Wrr_route_handler m)\<rparr>"]) (simp add: set_routing_algo_def)
qed

section \<open>The share of each node\<close>

fun look_ups :: "nat \<Rightarrow> nat \<Rightarrow> octets \<Rightarrow> gdt_session \<Rightarrow> nat list" where
  "look_ups 0 k ty s = []"
| "look_ups (Suc n) k ty s = (case find_route k (Some ty) None [] s of (_, rs, s) \<Rightarrow> rs @ look_ups n k ty s)"

definition node_of :: "nat option wrr_item list \<Rightarrow> nat option \<Rightarrow> nat list" where
  "node_of its r = (case r of None \<Rightarrow> [] | Some j \<Rightarrow> (case wi_item (its ! j) of None \<Rightarrow> [] | Some d \<Rightarrow> [d]))"

lemma sans_usable: "sans_refs s' = sans_refs s \<Longrightarrow> usable s' k = usable s k"
  unfolding sans_refs_def usable_def
  by (drule arg_cong [where f = "\<lambda>s. registered (peers s k) \<and> active (peers s k)"]) simp

lemma look_ups_runs:
  assumes "rh_method s = Some (Wrr_route_handler m)" and "m (name_hash ty) = Some w" and "session_type s \<noteq> ty"
    and "\<exists>j \<in> set (clients s). usable s j \<and> end_point_type (peers s j) = ty"
  shows "look_ups n k ty s = concat (map (node_of (items w)) (wrr_runs n w))"
  using assms
proof (induction n arbitrary: s m w)
  case (Suc n)
  let ?all = "filter (\<lambda>j. usable s j \<and> end_point_type (peers s j) = ty) (clients s)"
  obtain r w' where r: "wrr_run w = (r, w')" by (cases "wrr_run w")
  have i: "items w' = items w" using wrr_run_frame [of w] r by simp
  obtain a as where a: "?all = a # as" using Suc.prems(4) by (cases ?all) (auto simp: filter_empty_conv)
  then have t: "end_point_type (peers s a) = ty" using filter_set by (metis (mono_tags, lifting) list.set_intros(1) mem_Collect_eq filter_is_subset set_filter)
  define s' where "s' = snd (choose_held ?all s)"
  have c: "fst (choose_held ?all s) = node_of (items w) r" "rh_method s' = Some (Wrr_route_handler (m(name_hash ty \<mapsto> w')))"
    using Suc.prems(1,2) t
    by (auto simp: s'_def a choose_held_def choose_route_def wrr_route_def Let_def r i node_of_def case_prod_beta split: option.split)
  have sans: "sans_refs s' = sans_refs s" by (simp add: s'_def choose_held_sans)
  have f: "find_route k (Some ty) None [] s = (0, node_of (items w) r, s')"
    using Suc.prems(3) by (simp add: find_route_def s'_def case_prod_beta flip: c(1))
  have "session_type s' = session_type s"
    using arg_cong [OF sans, of session_type] by (simp add: sans_refs_def)
  with Suc.prems sans_names [OF sans] sans_usable [OF sans] have
    "look_ups n k ty s' = concat (map (node_of (items w')) (wrr_runs n w'))" by (intro Suc.IH [OF c(2)]) simp_all
  then show ?case by (simp add: f r i)
qed simp

text \<open>
  C38. Routing by weight: over any number of full cycles of lookups from a fresh table, the client
  of every node is found exactly in proportion to the weight of the node.
\<close>

theorem routed_in_proportion:
  assumes "rh_method s = Some (Wrr_route_handler m)" and "m (name_hash ty) = Some w" and "session_type s \<noteq> ty"
    and "\<exists>j \<in> set (clients s). usable s j \<and> end_point_type (peers s j) = ty"
    and "wrr_fresh w" and "i < length (items w)" and "wi_item (items w ! i) = Some d"
    and "\<forall>j < length (items w). wi_item (items w ! j) = Some d \<longrightarrow> j = i"
  shows "count_list (look_ups (n * sum_list (map (\<lambda>x. x div unat (w_gcd w)) (weights w))) k ty s) d
       = n * (weights w ! i div unat (w_gcd w))"
proof -
  have "count_list (concat (map (node_of (items w)) rs)) d = count_list rs (Some i)"
    if "\<forall>j. Some j \<in> set rs \<longrightarrow> j < length (items w)" for rs
    using that
  proof (induction rs)
    case (Cons r rs)
    have "count_list (node_of (items w) r) d = (if r = Some i then 1 else 0)"
    proof (cases r)
      case (Some j)
      then have "wi_item (items w ! j) = Some d \<longleftrightarrow> j = i" using Cons.prems assms(7,8) by auto
      then show ?thesis by (cases "wi_item (items w ! j)") (simp_all add: node_of_def Some)
    qed (simp add: node_of_def)
    with Cons show ?case by auto
  qed simp
  moreover have "\<forall>j. Some j \<in> set (wrr_runs l w') \<longrightarrow> j < length (items w')" for l and w' :: "nat option wrr"
  proof (induction l arbitrary: w')
    case (Suc l)
    obtain r w'' where r: "wrr_run w' = (r, w'')" by (cases "wrr_run w'")
    then have "items w'' = items w'" using wrr_run_frame [of w'] by simp
    moreover have "j < length (items w')" if "r = Some j" for j using wrr_run_item [of w' j w''] r that by simp
    ultimately show ?case using Suc [of w''] by (auto simp: r)
  qed simp
  ultimately show ?thesis
    using wrr_fair [OF assms(5,6), of n] by (simp add: look_ups_runs [OF assms(1-4)])
qed

definition two_routes :: "nat option wrr" where
  "two_routes = snd (add_item None ''c'' 4 (snd (add_item (Some 2) ''3'' 6 new_wrr)))"

lemma two_routes_state:
  "two_routes = \<lparr>items = [new_wrr_item (Some 2) ''3'' 6, new_wrr_item None ''c'' 4], w_gcd = 2, w_max = 6, index = -1, cw = 0\<rparr>"
  by (simp add: two_routes_def add_item_def recalc_def new_wrr_def gcd_of_def max_of_def new_wrr_item_def wrr_gcd.simps)

lemma routed_in_proportion_witness:
  "count_list (look_ups 5 0 [98] ((small_net False)\<lparr>rh_method := Some (Wrr_route_handler ((\<lambda>_. None)(name_hash [98] \<mapsto> two_routes)))\<rparr>)) 2 = 3"
proof -
  let ?s = "(small_net False)\<lparr>rh_method := Some (Wrr_route_handler ((\<lambda>_. None)(name_hash [98] \<mapsto> two_routes)))\<rparr>"
  have "wrr_wf two_routes" by (simp add: two_routes_def add_item_def)
  then have f: "wrr_fresh two_routes" by (simp add: wrr_fresh_def two_routes_state)
  have u: "\<exists>j \<in> set (clients ?s). usable ?s j \<and> end_point_type (peers ?s j) = [98]" by (simp add: usable_def)
  have i: "\<forall>j < length (items two_routes). wi_item (items two_routes ! j) = Some 2 \<longrightarrow> j = 0"
    by (auto simp: two_routes_state new_wrr_item_def less_Suc_eq nth_Cons')
  from routed_in_proportion [OF _ _ _ u f _ _ i, of _ 1 0] show ?thesis
    by (simp add: two_routes_state weights_def new_wrr_item_def del: look_ups.simps)
qed

end
