(* ===== verification/RoutingConfig.thy ===== *)
theory RoutingConfig
  imports ConfigTree GdtTables
begin

text \<open>
  How the routing daemon fills its tables from the configuration: at the start
  (\<^verbatim>\<open>RoutingdDescriptor::process_config\<close> of \<^verbatim>\<open>src/src/services/routing/routing.cpp\<close>) and when
  the configuration changes (\<^verbatim>\<open>WRRConfigMod::run\<close> of \<^verbatim>\<open>src/src/services/routing/cfg_events.cpp\<close>).
  A node of the configuration is a position in its tree, as in \<open>ConfigTree\<close>, whose tokenizer
  and \<^verbatim>\<open>atoi\<close> are parameters here too. \<^term>\<open>None\<close> is a path that is dereferenced and not there.
\<close>

definition upd_handler :: "(route_handler \<Rightarrow> route_handler) \<Rightarrow> gdt_session \<Rightarrow> gdt_session" where
  "upd_handler f s = s\<lparr>rh_method := map_option f (rh_method s)\<rparr>"

text \<open>
  The weight is written into the item the handler gives, and the tables are told about the client
  of the item again.
\<close>

definition set_weight :: "octets \<Rightarrow> octets \<Rightarrow> u32 \<Rightarrow> gdt_session \<Rightarrow> gdt_session" where
  "set_weight ty i x s = (case rh_method s of
     Some (Wrr_route_handler m) \<Rightarrow>
       (case (wrr_get_node (Some ty) (Some i) m, m (wrr_key ty)) of
          (Some j, Some w) \<Rightarrow>
            (case wi_item (items w ! j) of None \<Rightarrow> s
             | Some g \<Rightarrow>
                 (let w = w\<lparr>items := (items w)[j := (items w ! j)\<lparr>weight := x\<rparr>]\<rparr>;
                      h = Wrr_route_handler (m(wrr_key ty \<mapsto> w))
                  in s\<lparr>rh_method := Some (snd (update_client (Some g) (Some (end_point_type (peers s g))) (Some (end_point_id (peers s g))) h))\<rparr>))
        | _ \<Rightarrow> s)
   | _ \<Rightarrow> s)"

definition weight_params :: "u32 \<Rightarrow> u32 vpmap \<Rightarrow> u32 vpmap" where
  "weight_params x ps = ParamMap.set_int (PT 0 0 0 0) (scast x) ps"

definition put_node :: "nat option \<Rightarrow> octets \<Rightarrow> octets \<Rightarrow> u32 vpmap \<Rightarrow> gdt_session \<Rightarrow> gdt_session option" where
  "put_node g ty i ps s = (case rh_method s of None \<Rightarrow> None
     | Some h \<Rightarrow> map_option (\<lambda>(_, h). s\<lparr>rh_method := Some h\<rparr>) (add_node g (Some ty) i (Some ps) h))"

text \<open>The nodes of one type, at the start and after a change.\<close>

definition first_node :: "(string \<Rightarrow> u32) \<Rightarrow> (string \<Rightarrow> string list option) \<Rightarrow> config_item \<Rightarrow> octets \<Rightarrow> pos \<Rightarrow>
    gdt_session \<times> u32 vpmap \<Rightarrow> (gdt_session \<times> u32 vpmap) option" where
  "first_node atoi split root ty q sp = (case sp of (s, ps) \<Rightarrow>
     Option.bind (get_at root q) (\<lambda>nd. Option.bind (ConfigTree.to_int atoi split root q (Some ''weight'') 1) (\<lambda>x.
       let ps = weight_params x ps
       in map_option (\<lambda>s. (s, ps)) (put_node None ty (bytes_of (c_name (dat nd))) ps s))))"

definition changed_node :: "(string \<Rightarrow> u32) \<Rightarrow> (string \<Rightarrow> string list option) \<Rightarrow> config_item \<Rightarrow> octets \<Rightarrow> pos \<Rightarrow>
    gdt_session \<times> u32 vpmap \<Rightarrow> (gdt_session \<times> u32 vpmap) option" where
  "changed_node atoi split root ty q sp = (case sp of (s, ps) \<Rightarrow>
     Option.bind (get_at root q) (\<lambda>nd.
       let i = bytes_of (c_name (dat nd)) in
       if c_node_state (dat nd) = CONFIG_NS_DELETED then Some (upd_handler (\<lambda>h. snd (remove_node (Some ty) (Some i) h)) s, ps)
       else if c_new (dat nd) then
         Option.bind (ConfigTree.to_int atoi split root q (Some ''weight'') 0) (\<lambda>x.
           let ps = weight_params x ps
           in map_option (\<lambda>s. (s, ps)) (put_node (get_registered_client ty i s) ty i ps s))
       else
         Option.bind (cfg_call split root q ''weight'' False CONFIG_NT_UNKNOWN False) (\<lambda>(_, r).
           case r of None \<Rightarrow> Some (s, ps)
           | Some r \<Rightarrow> Option.bind (get_at root r) (\<lambda>wn.
               if c_node_state (dat wn) = CONFIG_NS_MODIFIED
               then map_option (\<lambda>x. (set_weight ty i x s, ps)) (ConfigTree.to_int atoi split root r None 0)
               else if c_node_state (dat wn) = CONFIG_NS_DELETED then Some (set_weight ty i 0 s, ps)
               else Some (s, ps)))))"

text \<open>A loop over the children of a node.\<close>

fun each :: "('a \<Rightarrow> 's \<Rightarrow> 's option) \<Rightarrow> 'a list \<Rightarrow> 's \<Rightarrow> 's option" where
  "each f [] s = Some s"
| "each f (x # xs) s = Option.bind (f x s) (each f xs)"

definition children_of :: "config_item \<Rightarrow> pos \<Rightarrow> pos list" where
  "children_of root p = (case get_at root p of None \<Rightarrow> [] | Some it \<Rightarrow> map (\<lambda>j. p @ [j]) [0..<length (children it)])"

definition nodes_of :: "(octets \<Rightarrow> pos \<Rightarrow> 's \<Rightarrow> 's option) \<Rightarrow> (string \<Rightarrow> string list option) \<Rightarrow> config_item \<Rightarrow> pos \<Rightarrow> 's \<Rightarrow> 's option" where
  "nodes_of node split root p s = Option.bind (get_at root p) (\<lambda>ty.
     Option.bind (cfg_call split root p ''nodes'' False CONFIG_NT_UNKNOWN False) (\<lambda>(_, r).
       case r of None \<Rightarrow> Some s | Some r \<Rightarrow> each (node (bytes_of (c_name (dat ty)))) (children_of root r) s))"

definition process_config :: "(string \<Rightarrow> u32) \<Rightarrow> (string \<Rightarrow> string list option) \<Rightarrow> config_item \<Rightarrow> pos \<Rightarrow> u32 vpmap \<Rightarrow> gdt_session \<Rightarrow>
    gdt_session option" where
  "process_config atoi split root dests fresh s =
     each (\<lambda>p s. map_option fst (nodes_of (first_node atoi split root) split root p (s, fresh))) (children_of root dests) s"

definition changed_type :: "(string \<Rightarrow> u32) \<Rightarrow> (string \<Rightarrow> string list option) \<Rightarrow> config_item \<Rightarrow> pos \<Rightarrow>
    gdt_session \<times> u32 vpmap \<Rightarrow> (gdt_session \<times> u32 vpmap) option" where
  "changed_type atoi split root p sp = Option.bind (get_at root p) (\<lambda>ty.
     if c_node_state (dat ty) = CONFIG_NS_DELETED
     then Some (upd_handler (\<lambda>h. snd (remove_type (Some (bytes_of (c_name (dat ty)))) h)) (fst sp), snd sp)
     else nodes_of (changed_node atoi split root) split root p sp)"

definition wrr_config_mod :: "(string \<Rightarrow> u32) \<Rightarrow> (string \<Rightarrow> string list option) \<Rightarrow> config_item \<Rightarrow> pos \<Rightarrow> u32 vpmap \<Rightarrow> gdt_session \<Rightarrow>
    gdt_session option" where
  "wrr_config_mod atoi split root cfg fresh s =
     (if rh_method s = None then Some s
      else if children_of root cfg = [] then None
      else (case find_parent ''destinations'' root (cfg @ [0]) of None \<Rightarrow> Some s
            | Some d \<Rightarrow> map_option fst (each (changed_type atoi split root) (children_of root d) (s, fresh))))"

section \<open>Weights that change\<close>

lemma find_index_map: "find_index P xs = find_index (\<lambda>b. b) (map P xs)"
  by (induction xs) simp_all

text \<open>
  A weight that changes in the configuration is not taken up by the scheduler: a weight that is
  removed comes back as the old one, because the client of the node is enabled again at once, and
  with another weight the greatest common divisor and the maximum stay those of the old weights.
\<close>

theorem weight_change_lost:
  assumes "rh_method s = Some (Wrr_route_handler m)" and "m (wrr_key ty) = Some w" and "wrr_get (Some (chars i)) w = Some j"
    and "wi_item (items w ! j) = Some g" and "end_point_type (peers s g) = ty" and "end_point_id (peers s g) = i"
    and "set_weight ty i x s = s'"
  shows "\<exists>w'. tables s' (wrr_key ty) = Some w' \<and>
    weight (items w' ! j) = (if x = 0 then old_weight (items w ! j) else x) \<and>
    (x \<noteq> 0 \<longrightarrow> w_gcd w' = w_gcd w \<and> w_max w' = w_max w)"
proof -
  let ?w = "w\<lparr>items := (items w)[j := (items w ! j)\<lparr>weight := x\<rparr>]\<rparr>"
  note j = get_entry [OF assms(3)]
  have "map (\<lambda>it. id_matches (chars i) it) (items ?w) = map (\<lambda>it. id_matches (chars i) it) (items w)"
    by (simp add: map_update_same id_matches_def)
  then have "find_index (id_matches (chars i)) (items ?w) = find_index (id_matches (chars i)) (items w)"
    by (metis find_index_map [of "id_matches (chars i)"])
  then have g: "wrr_get (Some (chars i)) ?w = Some j" using assms(3) by (simp add: wrr_get_def)
  have n: "wrr_get_node (Some ty) (Some i) m = Some j" using assms(2,3) by (simp add: wrr_get_node_def)
  have s': "tables s' (wrr_key ty) = Some (snd (enable_item (Some j) (set_item j (Some g) ?w)))"
    using assms(1,2,4-7) n g
    by (auto simp: set_weight_def Let_def update_client_def wrr_update_client_def)
  show ?thesis using j
    by (intro exI [of _ "snd (enable_item (Some j) (set_item j (Some g) ?w))"] conjI s')
      (auto simp: enable_item_def set_item_def Let_def word_gt_0)
qed

lemma weight_change_lost_witness:
  "let s = (small_net False)\<lparr>rh_method := Some (Wrr_route_handler ((\<lambda>_. None)(wrr_key [98] \<mapsto> two_routes)))\<rparr> in
   (\<exists>w. tables (set_weight [98] [51] 9 s) (wrr_key [98]) = Some w \<and> weight (items w ! 0) = 9 \<and> w_max w = 6) \<and>
   (\<exists>w. tables (set_weight [98] [51] 0 s) (wrr_key [98]) = Some w \<and> weight (items w ! 0) = 6)"
proof -
  let ?s = "(small_net False)\<lparr>rh_method := Some (Wrr_route_handler ((\<lambda>_. None)(wrr_key [98] \<mapsto> two_routes)))\<rparr>"
  have c: "chars [51] = ''3''" by code_simp
  have g: "wrr_get (Some (chars [51])) two_routes = Some 0"
    by (simp add: c wrr_get_def two_routes_state id_matches_def new_wrr_item_def cstr_def)
  have i: "wi_item (items two_routes ! 0) = Some 2" by (simp add: two_routes_state new_wrr_item_def)
  let ?m = "(\<lambda>_. None)(wrr_key [98] \<mapsto> two_routes)"
  have h: "rh_method ?s = Some (Wrr_route_handler ?m)" "?m (wrr_key [98]) = Some two_routes" by simp_all
  have p: "end_point_type (peers ?s 2) = [98]" "end_point_id (peers ?s 2) = [51]" by simp_all
  have f: "old_weight (items two_routes ! 0) = 6" "w_max two_routes = 6" by (simp_all add: two_routes_state new_wrr_item_def)
  note * = weight_change_lost [OF h g i p refl, unfolded f]
  show ?thesis unfolding Let_def using * [of 9] * [of 0] by auto
qed

end
