(* ===== verification/ServiceParam.thy ===== *)
theory ServiceParam
  imports ParamMap GdtMessage Pools
begin

text \<open>
  The parameters of a service message (\<^verbatim>\<open>ServiceParam\<close> and its subclasses, \<^verbatim>\<open>ServiceParamFactory\<close>,
  \<^verbatim>\<open>ParamIdTypeMap\<close> of \<^verbatim>\<open>src/src/gdt/gdt_utils.cpp\<close>): a buffer of 256 octets, or a longer input that
  is handed out in fragments of 256.

  A parameter is reached through its place in the pools of the factory: the pool it belongs to and
  its number there. A pointer into a buffer is the buffer and an offset. The id is kept as the
  number, its four octets in network order are \<open>id_octets\<close>. The mutex of a parameter is left out:
  an operation that takes it is one step.
\<close>

section \<open>State\<close>

datatype ServiceParamType = SPT_UNKNOWN | SPT_OCTETS | SPT_UINT32 | SPT_UINT64 | SPT_FLOAT | SPT_DOUBLE | SPT_CSTRING
  | SPT_BOOL | SPT_VARIANT

fun sp_type_code :: "ServiceParamType \<Rightarrow> nat" where
  "sp_type_code SPT_UNKNOWN = 0" | "sp_type_code SPT_OCTETS = 1" | "sp_type_code SPT_UINT32 = 2"
| "sp_type_code SPT_UINT64 = 3" | "sp_type_code SPT_FLOAT = 4" | "sp_type_code SPT_DOUBLE = 5"
| "sp_type_code SPT_CSTRING = 6" | "sp_type_code SPT_BOOL = 7" | "sp_type_code SPT_VARIANT = 8"

type_synonym sp_ref = "ServiceParamType \<times> nat"

text \<open>The memory a data pointer is in: the own buffer, the input, the buffer of a linked parameter.\<close>

datatype sp_memory = Own_data | Input | Linked_data sp_ref

record service_param =
  sp_data :: octets
  data_p :: "sp_memory \<times> nat"
  in_data :: octets
  sp_size :: u32
  total_data_size :: u32
  sp_type :: ServiceParamType
  sp_id :: u32
  sp_index :: u32
  extra_type :: int
  fragmented :: bool
  sp_linked :: "sp_ref list"
  linked_index :: nat
  from_file :: bool
  sp_callbacks :: callbacks
  fragment_count :: int
  fragment_index :: int

definition DATA_SZ :: nat where "DATA_SZ = 256"

definition new_service_param :: "ServiceParamType \<Rightarrow> service_param" where
  "new_service_param t = \<lparr>sp_data = replicate 256 0, data_p = (Own_data, 0), in_data = [], sp_size = 0,
     total_data_size = 0, sp_type = t, sp_id = 0, sp_index = 0, extra_type = 0, fragmented = False, sp_linked = [],
     linked_index = 0, from_file = False, sp_callbacks = no_callbacks, fragment_count = 0, fragment_index = 0\<rparr>"

abbreviation id_octets :: "service_param \<Rightarrow> octets" where "id_octets p \<equiv> be_octets 4 (sp_id p)"

section \<open>Setting the data\<close>

text \<open>The length is an argument of its own; \<^term>\<open>d\<close> is the memory from the given address on.\<close>

definition fragment :: "octets \<Rightarrow> u32 \<Rightarrow> service_param \<Rightarrow> service_param" where
  "fragment d n p = p\<lparr>in_data := d, sp_size := 256, total_data_size := n, fragment_index := 0,
     fragment_count := int (unat n div 256) + (if unat n mod 256 > 0 then 1 else 0), fragmented := True\<rparr>"

definition put_data :: "octets \<Rightarrow> octets \<Rightarrow> octets" where
  "put_data d buf = d @ drop (length d) buf"

definition set_data :: "octets \<Rightarrow> u32 \<Rightarrow> service_param \<Rightarrow> service_param" where
  "set_data d n p = (if n > 256
     then (fragment d n (p\<lparr>from_file := False\<rparr>))\<lparr>data_p := (Input, 0)\<rparr>
     else p\<lparr>fragmented := False, sp_data := put_data (take (unat n) d) (sp_data p), sp_size := n, total_data_size := n,
            data_p := (Own_data, 0)\<rparr>)"

text \<open>From a file: \<^term>\<open>d\<close> is what the file holds from its position on; the first block is read at once.\<close>

definition set_file :: "octets \<Rightarrow> u32 \<Rightarrow> service_param \<Rightarrow> service_param" where
  "set_file d n p =
     (let blk = take 256 d; sz = word_of_nat (length blk)
      in if n > 256
         then (fragment (drop 256 d) n (p\<lparr>from_file := True\<rparr>))\<lparr>sp_size := sz, sp_data := put_data blk (sp_data p),
                data_p := (Own_data, 0)\<rparr>
         else p\<lparr>fragmented := False, sp_data := put_data blk (sp_data p), sp_size := sz, total_data_size := sz,
                data_p := (Own_data, 0)\<rparr>)"

text \<open>The eight octets of an integer, most significant first; a double lies the other way round.\<close>

definition be64 :: "u64 \<Rightarrow> octets" where "be64 x = map (\<lambda>i. ucast (drop_bit (8 * i) x)) [7, 6, 5, 4, 3, 2, 1, 0]"

definition double_octets :: "u64 \<Rightarrow> octets" where "double_octets d = rev (be64 d)"

text \<open>
  \<^verbatim>\<open>set(VariantParam*)\<close>: an integer in network order, a double as it lies in memory. A union
  member that was not written is indeterminate; a pointer is not taken over.
\<close>

fun variant_code :: "VariantParamType \<Rightarrow> int" where
  "variant_code DPT_INT = 1" | "variant_code DPT_STRING = 2" | "variant_code DPT_DOUBLE = 3" | "variant_code DPT_CHAR = 4"
| "variant_code DPT_BOOL = 5" | "variant_code DPT_OCTETS = 6" | "variant_code DPT_POINTER = 7"

definition variant_octets :: "variant_param \<Rightarrow> octets option" where
  "variant_octets v = (case (type v, data v) of
       (DPT_INT, U_i64 x) \<Rightarrow> Some (be64 x)
     | (DPT_STRING, U_str s) \<Rightarrow> Some (take (data_size v) s)
     | (DPT_OCTETS, U_str s) \<Rightarrow> Some (take (data_size v) s)
     | (DPT_DOUBLE, U_d x) \<Rightarrow> Some (double_octets x)
     | (DPT_CHAR, U_c c) \<Rightarrow> Some [c]
     | (DPT_BOOL, U_b b) \<Rightarrow> Some [if b then 1 else 0]
     | _ \<Rightarrow> None)"

definition set_variant :: "variant_param \<Rightarrow> service_param \<Rightarrow> service_param option" where
  "set_variant v p = (if type v = DPT_POINTER then Some p
     else map_option (\<lambda>d. (set_data d (word_of_nat (length d)) p)\<lparr>extra_type := variant_code (type v)\<rparr>)
       (variant_octets v))"

definition set_bool_param :: "bool \<Rightarrow> service_param \<Rightarrow> service_param" where
  "set_bool_param b p = set_data [if b then 1 else 0] 1 p"

definition set_uint32 :: "u32 \<Rightarrow> service_param \<Rightarrow> service_param" where
  "set_uint32 x p = set_data (be_octets 4 x) 4 p"

definition set_uint64 :: "u64 \<Rightarrow> service_param \<Rightarrow> service_param" where
  "set_uint64 x p = set_data (be64 x) 8 p"

text \<open>A string without its terminator, cut at the size of the buffer.\<close>

definition set_cstring :: "octets option \<Rightarrow> service_param \<Rightarrow> service_param" where
  "set_cstring s p = (case s of None \<Rightarrow> p\<lparr>sp_size := 0\<rparr>
     | Some s \<Rightarrow> set_data s (word_of_nat (min 256 (length (ocstr s)))) p)"

section \<open>Reading the data\<close>

text \<open>\<^verbatim>\<open>extract\<close> of each subclass: the octets it writes to the output.\<close>

definition extract_param :: "service_param \<Rightarrow> octets" where
  "extract_param p = (case sp_type p of
       SPT_VARIANT \<Rightarrow> if extra_type p = 1 then rev (take 8 (sp_data p)) else take (unat (sp_size p)) (sp_data p)
     | SPT_BOOL \<Rightarrow> take 1 (sp_data p)
     | SPT_UINT32 \<Rightarrow> rev (take 4 (sp_data p))
     | SPT_UINT64 \<Rightarrow> rev (take 8 (sp_data p))
     | SPT_CSTRING \<Rightarrow> ocstr (sp_data p) @ [0]
     | _ \<Rightarrow> take (unat (sp_size p)) (sp_data p))"

definition reset_data_p :: "service_param \<Rightarrow> service_param" where
  "reset_data_p p = p\<lparr>data_p := (Own_data, 0), in_data := sp_data p\<rparr>"

definition inc_total_data_size :: "u32 \<Rightarrow> service_param \<Rightarrow> service_param" where
  "inc_total_data_size n p = p\<lparr>total_data_size := total_data_size p + n, fragment_index := fragment_index p + 1\<rparr>"

definition reset_param :: "service_param \<Rightarrow> service_param" where
  "reset_param p = p\<lparr>sp_size := 0, sp_id := 0, fragmented := False, from_file := False\<rparr>"

section \<open>The map from ids to types\<close>

type_synonym idt_map = "u32 \<Rightarrow> ServiceParamType option"

definition idt_add :: "u32 \<Rightarrow> ServiceParamType \<Rightarrow> idt_map \<Rightarrow> idt_map" where "idt_add i t m = m(i \<mapsto> t)"
definition idt_remove :: "u32 \<Rightarrow> idt_map \<Rightarrow> idt_map" where "idt_remove i m = m(i := None)"
definition idt_get :: "u32 \<Rightarrow> idt_map \<Rightarrow> ServiceParamType" where
  "idt_get i m = (case m i of Some t \<Rightarrow> t | None \<Rightarrow> SPT_UNKNOWN)"
definition idt_clear :: "idt_map \<Rightarrow> idt_map" where "idt_clear m = (\<lambda>_. None)"

section \<open>The factory\<close>

text \<open>One pool per subclass; without pools the parameters are numbered as they are made.\<close>

record factory =
  pooled :: bool
  sp_pools :: "ServiceParamType \<Rightarrow> pool"
  sp_store :: "sp_ref \<Rightarrow> service_param"
  heap_next :: nat

fun pool_kind :: "ServiceParamType \<Rightarrow> ServiceParamType" where
  "pool_kind SPT_CSTRING = SPT_CSTRING"
| "pool_kind SPT_OCTETS = SPT_OCTETS"
| "pool_kind SPT_UINT32 = SPT_UINT32"
| "pool_kind SPT_UINT64 = SPT_UINT64"
| "pool_kind SPT_BOOL = SPT_BOOL"
| "pool_kind SPT_VARIANT = SPT_VARIANT"
| "pool_kind _ = SPT_UNKNOWN"

abbreviation upd_param :: "sp_ref \<Rightarrow> (service_param \<Rightarrow> service_param) \<Rightarrow> factory \<Rightarrow> factory" where
  "upd_param r f F \<equiv> F\<lparr>sp_store := (sp_store F)(r := f (sp_store F r))\<rparr>"

text \<open>The constructor takes every object out of its pool once, to set its flags, and puts it back.\<close>

fun take_objects :: "nat \<Rightarrow> pool \<Rightarrow> nat option list \<times> pool" where
  "take_objects 0 p = ([], p)"
| "take_objects (Suc n) p = (let (o', p) = allocate_constructed p; (os, p) = take_objects n p in (o' # os, p))"

fun give_objects :: "nat option list \<Rightarrow> pool \<Rightarrow> pool" where
  "give_objects [] p = p"
| "give_objects (o' # os) p = give_objects os (snd (deallocate_constructed o' p))"

definition new_kind_pool :: "nat \<Rightarrow> nat \<Rightarrow> pool" where
  "new_kind_pool tsize n = (let (os, p) = take_objects n (construct_objects (pool_init tsize n new_pool)) in give_objects os p)"

definition new_factory :: "(ServiceParamType \<Rightarrow> nat) \<Rightarrow> bool \<Rightarrow> nat \<Rightarrow> factory" where
  "new_factory tsize is_pooled n = \<lparr>pooled = is_pooled,
     sp_pools = (\<lambda>t. if is_pooled then new_kind_pool (tsize t) n else new_pool),
     sp_store = (\<lambda>r. new_service_param (fst r)), heap_next = 0\<rparr>"

definition new_param :: "ServiceParamType \<Rightarrow> factory \<Rightarrow> sp_ref option \<times> factory" where
  "new_param t F = (let k = pool_kind t
     in if pooled F
        then (let (o', p) = allocate_constructed (sp_pools F k)
              in (map_option (Pair k) o', F\<lparr>sp_pools := (sp_pools F)(k := p)\<rparr>))
        else (Some (k, heap_next F), F\<lparr>heap_next := heap_next F + 1,
               sp_store := (sp_store F)((k, heap_next F) := new_service_param k)\<rparr>))"

definition free_param :: "sp_ref option \<Rightarrow> factory \<Rightarrow> nat \<times> factory" where
  "free_param r F = (case r of None \<Rightarrow> (5, F)
     | Some (t, i) \<Rightarrow>
         if pooled F
         then (if pool_kind t = t
               then (let (res, p) = deallocate_constructed (Some i) (sp_pools F t) in (res, F\<lparr>sp_pools := (sp_pools F)(t := p)\<rparr>))
               else (7, F))
         else (0, F))"

section \<open>Fetching the next fragment\<close>

text \<open>
  The two data methods. The default one moves on in the input; the file method reads the next
  block into the buffer of a linked parameter, taken in turn: without one it has no defined result.
\<close>

definition remaining :: "service_param \<Rightarrow> u32" where
  "remaining p = (if total_data_size p > 256 then 256 else total_data_size p)"

definition param_data_default :: "service_param \<Rightarrow> service_param" where
  "param_data_default p = p\<lparr>data_p := (fst (data_p p), snd (data_p p) + unat (remaining p)),
     total_data_size := total_data_size p - remaining p\<rparr>"

definition param_data_file :: "sp_ref \<Rightarrow> factory \<Rightarrow> factory option" where
  "param_data_file r F =
     (let p = sp_store F r;
          k = (if linked_index p \<ge> length (sp_linked p) then 0 else linked_index p);
          blk = take 256 (in_data p)
      in if k < length (sp_linked p)
         then Some (upd_param r (\<lambda>p. p\<lparr>in_data := drop 256 (in_data p), linked_index := k + 1,
                      total_data_size := total_data_size p - sp_size p, data_p := (Linked_data (sp_linked p ! k), 0),
                      sp_size := word_of_nat (length blk)\<rparr>)
                (upd_param (sp_linked p ! k) (\<lambda>q. q\<lparr>sp_data := put_data blk (sp_data q)\<rparr>) F))
         else None)"

definition next_data :: "sp_ref \<Rightarrow> factory \<Rightarrow> factory option" where
  "next_data r F = (if from_file (sp_store F r) then param_data_file r F else Some (upd_param r param_data_default F))"

text \<open>The octets a data pointer leads to.\<close>

definition pointed :: "sp_ref \<Rightarrow> factory \<Rightarrow> octets" where
  "pointed r F = (let p = sp_store F r in drop (snd (data_p p))
     (case fst (data_p p) of Own_data \<Rightarrow> sp_data p | Input \<Rightarrow> in_data p | Linked_data q \<Rightarrow> sp_data (sp_store F q)))"

end
