(* ===== verification/ServiceMessage.thy ===== *)
theory ServiceMessage
  imports ServiceParam GdtStream
begin

text \<open>
  Service messages and their manager (\<^verbatim>\<open>ServiceMessage\<close>, \<^verbatim>\<open>ServiceMsgManager\<close> of
  \<^verbatim>\<open>src/src/gdt/gdt_utils.cpp\<close>): a message is a list of service parameters and the map of typed
  parameters they are made from or into; the manager has the pool of messages, the factory of
  parameters and the handlers it puts on a stream.

  A message is its number in the pool. The methods of callbacks are the user's code: the argument
  \<open>run\<close> of the operations, over the state of the manager.
\<close>

section \<open>State\<close>

record service_message =
  missing_params :: bool
  tlvs :: "sp_ref list"
  service_id :: u32
  service_action :: u32
  smsg_vpmap :: "u32 vpmap"
  usr_method :: "nat option"
  done_status :: int
  next_pc :: nat
  next_pos :: nat
  next_pindex :: nat
  smsg_sem :: nat
  frag_param :: "sp_ref option"
  complete :: bool
  smsg_callbacks :: callbacks
  auto_free :: bool

definition new_service_message :: service_message where
  "new_service_message = \<lparr>missing_params = False, tlvs = [], service_id = 0, service_action = 0,
     smsg_vpmap = new_vpmap 1024, usr_method = None, done_status = 0, next_pc = 0, next_pos = 0, next_pindex = 0,
     smsg_sem = 0, frag_param = None, complete = False, smsg_callbacks = no_callbacks, auto_free = True\<rparr>"

record manager =
  id_types :: idt_map
  msg_pool :: pool
  messages :: "nat \<Rightarrow> service_message"
  param_factory :: factory
  mgr_callbacks :: callbacks
  mgr_stats :: stats
  usr_stream_hndlr :: "nat option"
  usr_stream_nc_hndlr :: "nat option"
  nc_stream_hndlr :: "nat option"

type_synonym svc_methods = "nat \<Rightarrow> cb_args \<Rightarrow> manager \<Rightarrow> manager"

abbreviation upd_msg :: "nat \<Rightarrow> (service_message \<Rightarrow> service_message) \<Rightarrow> manager \<Rightarrow> manager" where
  "upd_msg m f M \<equiv> M\<lparr>messages := (messages M)(m := f (messages M m))\<rparr>"

abbreviation upd_factory :: "(factory \<Rightarrow> factory) \<Rightarrow> manager \<Rightarrow> manager" where
  "upd_factory \<equiv> param_factory_update"

abbreviation sparam :: "sp_ref \<Rightarrow> manager \<Rightarrow> service_param" where
  "sparam r M \<equiv> sp_store (param_factory M) r"

abbreviation upd_sparam :: "sp_ref \<Rightarrow> (service_param \<Rightarrow> service_param) \<Rightarrow> manager \<Rightarrow> manager" where
  "upd_sparam r f \<equiv> upd_factory (upd_param r f)"

abbreviation (input) SST_RX_SMSG_POOL_EMPTY :: u32 where "SST_RX_SMSG_POOL_EMPTY \<equiv> 1"
abbreviation (input) SST_RX_SPARAM_POOL_EMPTY :: u32 where "SST_RX_SPARAM_POOL_EMPTY \<equiv> 2"
abbreviation (input) SMSG_PT_SMSG :: u32 where "SMSG_PT_SMSG \<equiv> 0"
abbreviation (input) SMSG_PT_PASS :: u32 where "SMSG_PT_PASS \<equiv> 1"

definition new_manager :: "(ServiceParamType \<Rightarrow> nat) \<Rightarrow> nat \<Rightarrow> idt_map \<Rightarrow> nat option \<Rightarrow> nat option \<Rightarrow> nat \<Rightarrow> nat \<Rightarrow> manager" where
  "new_manager tsize msize idt new_msg nonsrvc pool_size param_pool_size =
     \<lparr>id_types = idt, msg_pool = new_kind_pool msize pool_size, messages = (\<lambda>_. new_service_message),
      param_factory = new_factory tsize True param_pool_size,
      mgr_callbacks = set_callback GDT_ET_SRVC_MSG_NEW new_msg no_callbacks,
      mgr_stats = register_item SST_RX_SPARAM_POOL_EMPTY (register_item SST_RX_SMSG_POOL_EMPTY (\<lambda>_. None)),
      usr_stream_hndlr = nonsrvc, usr_stream_nc_hndlr = None, nc_stream_hndlr = None\<rparr>"

section \<open>The message\<close>

definition add_param :: "nat \<Rightarrow> u32 \<Rightarrow> sp_ref \<Rightarrow> u32 \<Rightarrow> manager \<Rightarrow> manager" where
  "add_param m i r ix M = upd_sparam r (\<lambda>p. p\<lparr>sp_id := i, sp_index := ix\<rparr>) (upd_msg m (\<lambda>s. s\<lparr>tlvs := tlvs s @ [r]\<rparr>) M)"

text \<open>The scan goes on behind the one that moves up into the place of an erased parameter.\<close>

fun remove_ids :: "u32 \<Rightarrow> (sp_ref \<Rightarrow> u32) \<Rightarrow> sp_ref list \<Rightarrow> sp_ref list" where
  "remove_ids i ids [] = []"
| "remove_ids i ids [r] = (if ids r = i then [] else [r])"
| "remove_ids i ids (r # q # rs) = (if ids r = i then q # remove_ids i ids rs else r # remove_ids i ids (q # rs))"

definition remove_param :: "nat \<Rightarrow> u32 \<Rightarrow> manager \<Rightarrow> manager" where
  "remove_param m i M = upd_msg m (\<lambda>s. s\<lparr>tlvs := remove_ids i (\<lambda>r. sp_id (sparam r M)) (tlvs s)\<rparr>) M"

definition get_params :: "nat \<Rightarrow> u32 \<Rightarrow> manager \<Rightarrow> sp_ref list" where
  "get_params m i M = filter (\<lambda>r. sp_id (sparam r M) = i) (tlvs (messages M m))"

abbreviation release_param :: "sp_ref option \<Rightarrow> manager \<Rightarrow> manager" where
  "release_param r \<equiv> upd_factory (\<lambda>F. snd (free_param r F))"

definition reset_message :: "nat \<Rightarrow> manager \<Rightarrow> manager" where
  "reset_message m M = upd_msg m (\<lambda>s. s\<lparr>tlvs := []\<rparr>) (fold (\<lambda>r. release_param (Some r)) (tlvs (messages M m)) M)"

definition set_frag_param :: "nat \<Rightarrow> sp_ref option \<Rightarrow> manager \<Rightarrow> manager" where
  "set_frag_param m r M = (let M = upd_msg m (\<lambda>s. s\<lparr>frag_param := r\<rparr>) M
     in case r of Some q \<Rightarrow> upd_sparam q (\<lambda>p. p\<lparr>fragment_index := 0\<rparr>) M | None \<Rightarrow> M)"

definition set_complete :: "bool \<Rightarrow> service_message \<Rightarrow> service_message" where
  "set_complete b s = (if complete s = (\<not> b) then s\<lparr>complete := b\<rparr> else s)"

definition set_service_id :: "u32 \<Rightarrow> service_message \<Rightarrow> service_message" where "set_service_id i s = s\<lparr>service_id := i\<rparr>"
definition set_service_action :: "u32 \<Rightarrow> service_message \<Rightarrow> service_message" where
  "set_service_action a s = s\<lparr>service_action := a\<rparr>"

definition vpget :: "u32 \<Rightarrow> u32 \<Rightarrow> u32 \<Rightarrow> u32 \<Rightarrow> service_message \<Rightarrow> variant_param option" where
  "vpget i ix f c s = ParamMap.get_param (PT i ix f c) (smsg_vpmap s)"

definition vpset :: "u32 \<Rightarrow> octets \<Rightarrow> u32 \<Rightarrow> u32 \<Rightarrow> u32 \<Rightarrow> service_message \<Rightarrow> service_message" where
  "vpset i d ix f c s = s\<lparr>smsg_vpmap := set_cstr (PT i ix f c) (ocstr d) (smsg_vpmap s)\<rparr>"

definition signal_post :: "service_message \<Rightarrow> service_message" where "signal_post s = s\<lparr>smsg_sem := smsg_sem s + 1\<rparr>"

text \<open>\<^verbatim>\<open>sem_wait\<close> goes on only when the semaphore has been posted; \<^term>\<open>None\<close> while it waits.\<close>

definition signal_wait :: "service_message \<Rightarrow> (int \<times> service_message) option" where
  "signal_wait s = (if smsg_sem s > 0 then Some (0, s\<lparr>smsg_sem := smsg_sem s - 1\<rparr>) else None)"

section \<open>The manager\<close>

definition new_smsg :: "manager \<Rightarrow> nat option \<times> manager" where
  "new_smsg M = (let (o', p) = allocate_constructed (msg_pool M) in (o', M\<lparr>msg_pool := p\<rparr>))"

text \<open>A parameter goes back after the buffers linked to it.\<close>

definition free_with_linked :: "sp_ref \<Rightarrow> manager \<Rightarrow> manager" where
  "free_with_linked r M = release_param (Some r) (upd_sparam r (\<lambda>p. p\<lparr>sp_linked := []\<rparr>)
     (fold (\<lambda>q. release_param (Some q)) (sp_linked (sparam r M)) M))"

definition free_smsg :: "nat \<Rightarrow> bool \<Rightarrow> bool \<Rightarrow> manager \<Rightarrow> nat \<times> manager" where
  "free_smsg m params_only clear_vpmap M =
     (let M = fold free_with_linked (tlvs (messages M m)) M;
          M = (case frag_param (messages M m) of Some r \<Rightarrow> free_with_linked r M | None \<Rightarrow> M);
          M = upd_msg m (\<lambda>s. s\<lparr>tlvs := []\<rparr>) M;
          M = (if clear_vpmap then upd_msg m (\<lambda>s. s\<lparr>smsg_vpmap := ParamMap.clear_params (smsg_vpmap s)\<rparr>) M else M)
      in if \<not> params_only
         then (let (res, p) = deallocate_constructed (Some m) (msg_pool M) in (res, M\<lparr>msg_pool := p\<rparr>))
         else (0, M))"

text \<open>
  \<^verbatim>\<open>vpmap_sparam_sync\<close>: a service parameter for every typed parameter of the map, but for
  pointers and those of another context, in the order of the map; the fragment number of a
  parameter is not looked at. It stops, and says so, when the pool is empty.
\<close>

fun sync_loop :: "nat \<Rightarrow> u32 entries \<Rightarrow> manager \<Rightarrow> (bool \<times> manager) option" where
  "sync_loop m [] M = Some (False, M)"
| "sync_loop m ((k, v) # es) M =
     (if type v = DPT_POINTER then sync_loop m es M
      else if pt_context k \<noteq> 0 then sync_loop m es M
      else (case new_param SPT_VARIANT (param_factory M) of
          (None, F) \<Rightarrow> Some (True, M\<lparr>param_factory := F\<rparr>)
        | (Some r, F) \<Rightarrow> Option.bind (set_variant v (sp_store F r)) (\<lambda>p.
            sync_loop m es (add_param m (pt_key k) r (pt_index k) (M\<lparr>param_factory := upd_param r (\<lambda>_. p) F\<rparr>)))))"

definition vpmap_sparam_sync :: "nat \<Rightarrow> sp_ref list option \<Rightarrow> manager \<Rightarrow> (bool \<times> manager) option" where
  "vpmap_sparam_sync m pmap M =
     (let M = snd (free_smsg m True False M)
      in map_option (\<lambda>(err, M). (err, case pmap of None \<Rightarrow> M
             | Some rs \<Rightarrow> fold (\<lambda>r M. add_param m (sp_id (sparam r M)) r (sp_index (sparam r M)) M) rs M))
           (sync_loop m (ParamMap.params (smsg_vpmap (messages M m))) M))"

definition set_new_msg_handler :: "nat option \<Rightarrow> manager \<Rightarrow> manager" where
  "set_new_msg_handler h M = M\<lparr>mgr_callbacks := set_callback GDT_ET_SRVC_MSG_NEW h (mgr_callbacks M)\<rparr>"

definition set_msg_err_handler :: "nat option \<Rightarrow> manager \<Rightarrow> manager" where
  "set_msg_err_handler h M = M\<lparr>mgr_callbacks := set_callback GDT_ET_SRVC_MSG_ERROR h (mgr_callbacks M)\<rparr>"

text \<open>The methods the manager puts on a client, a stream or the session are named by these numbers.\<close>

abbreviation (input) srvcs_hndlr :: nat where "srvcs_hndlr \<equiv> 0"
abbreviation (input) ssh_next :: nat where "ssh_next \<equiv> 1"
abbreviation (input) ssh_done :: nat where "ssh_done \<equiv> 2"
abbreviation (input) srvcs_nc :: nat where "srvcs_nc \<equiv> 3"
abbreviation (input) msg_done :: "nat \<Rightarrow> nat" where "msg_done m \<equiv> 4 + 2 * m"
abbreviation (input) msg_next :: "nat \<Rightarrow> nat" where "msg_next m \<equiv> 5 + 2 * m"

definition setup_client :: "nat option \<Rightarrow> (nat \<Rightarrow> callbacks) \<Rightarrow> nat \<Rightarrow> callbacks" where
  "setup_client k cbs = (case k of None \<Rightarrow> cbs
     | Some k \<Rightarrow> cbs(k := set_callback GDT_ET_STREAM_NEW (Some srvcs_hndlr) (cbs k)))"

definition setup_server :: "nat option \<Rightarrow> nat option \<Rightarrow> callbacks \<times> manager \<Rightarrow> callbacks \<times> manager" where
  "setup_server nc strm = (\<lambda>(session_cbs, M). (set_callback GDT_ET_CLIENT_NEW (Some srvcs_nc) session_cbs,
     M\<lparr>usr_stream_nc_hndlr := nc, nc_stream_hndlr := strm\<rparr>))"

end
