(* ===== verification/ServiceSend.thy ===== *)
theory ServiceSend
  imports ServiceMessage
begin

text \<open>
  Sending a service message (\<^verbatim>\<open>ServiceMsgManager::send\<close> and \<^verbatim>\<open>ServiceMessageNext::run\<close> of
  \<^verbatim>\<open>src/src/gdt/gdt_utils.cpp\<close>): the parameters of the message, long ones cut into fragments, are put
  into the bodies of as many packets as they need, 768 octets at most in each.

  A body is the optional service id and action and the list of parameters, each with the octets
  of its id and of the four children of its value; a child that the session does not link is
  \<^term>\<open>None\<close>, and so is the whole list when nothing is linked below it. The data of a parameter is
  what its pointer leads to when it is put into the body: a packet has at most three fragments of a
  file, and each is read into another of the four linked buffers.
\<close>

section \<open>Bodies\<close>

record wire_param =
  w_id :: octets
  w_data :: "octets option"
  w_frag :: "octets option"
  w_index :: "octets option"
  w_type :: "octets option"

record service_body =
  b_id :: "octets option"
  b_action :: "octets option"
  b_params :: "wire_param list option"

abbreviation (input) MAX_PARAMS_SIZE :: u32 where "MAX_PARAMS_SIZE \<equiv> 768"

text \<open>The index and the type of a parameter are sent as their low octets.\<close>

definition wire_of :: "service_param \<Rightarrow> octets \<Rightarrow> bool \<Rightarrow> wire_param" where
  "wire_of p d onward = \<lparr>w_id = id_octets p, w_data = Some d, w_frag = Some [if onward then 1 else 0],
     w_index = Some [ucast (sp_index p)], w_type = Some [word_of_int (extra_type p)]\<rparr>"

text \<open>The action is one octet, the first of four in network order.\<close>

definition body_of :: "service_message \<Rightarrow> wire_param list \<Rightarrow> service_body" where
  "body_of s ws = \<lparr>b_id = Some (be_octets 4 (service_id s)), b_action = Some (take 1 (be_octets 4 (service_action s))),
     b_params = (if ws = [] then None else Some ws)\<rparr>"

definition read_at :: "octets \<Rightarrow> u32 \<Rightarrow> octets option" where
  "read_at d n = (if unat n \<le> length d then Some (take (unat n) d) else None)"

section \<open>Fragments\<close>

text \<open>\<^verbatim>\<open>process_fragments\<close> takes the remaining length as a signed number.\<close>

definition fragment_bytes :: "service_param \<Rightarrow> u32" where
  "fragment_bytes p = (if sint (total_data_size p) > 256 then 256 else total_data_size p)"

text \<open>
  The inner loop of both functions. Every round raises the fragment index, so it ends after the
  number of fragments that are left, the first argument.
\<close>

fun fragments_out :: "nat \<Rightarrow> sp_ref \<Rightarrow> u32 \<Rightarrow> factory \<Rightarrow> (wire_param list \<times> u32 \<times> factory) option" where
  "fragments_out 0 r tbc F = Some ([], tbc, F)"
| "fragments_out (Suc k) r tbc F =
     (let p = sp_store F r; bc = fragment_bytes p
      in if tbc < MAX_PARAMS_SIZE \<and> fragment_index p < fragment_count p
         then (if tbc + (bc + 25) > MAX_PARAMS_SIZE then Some ([], tbc + (bc + 25), F)
               else Option.bind (read_at (pointed r F) bc) (\<lambda>d.
                 Option.bind (next_data r (upd_param r (\<lambda>p. p\<lparr>fragment_index := fragment_index p + 1\<rparr>) F)) (\<lambda>F.
                 map_option (\<lambda>(ws, tbc, F). (wire_of p d (fragment_index p \<noteq> fragment_count p - 1) # ws, tbc, F))
                   (fragments_out k r (tbc + (bc + 25)) F))))
         else Some ([], tbc, F))"

definition fragments_left :: "service_param \<Rightarrow> nat" where
  "fragments_left p = nat (fragment_count p - fragment_index p)"

section \<open>The first packet\<close>

abbreviation move_pos :: "nat \<Rightarrow> nat \<Rightarrow> manager \<Rightarrow> manager" where
  "move_pos m k \<equiv> upd_msg m (\<lambda>s. s\<lparr>next_pos := next_pos s + 1, next_pindex := next_pindex s + k\<rparr>)"

abbreviation move_pindex :: "nat \<Rightarrow> nat \<Rightarrow> manager \<Rightarrow> manager" where
  "move_pindex m k \<equiv> upd_msg m (\<lambda>s. s\<lparr>next_pindex := next_pindex s + k\<rparr>)"

text \<open>
  The loop of \<^verbatim>\<open>send\<close> over the parameters from the position on. A parameter with fragments left
  ends the packet; the next one goes on with it.
\<close>

fun send_loop :: "nat \<Rightarrow> sp_ref list \<Rightarrow> u32 \<Rightarrow> manager \<Rightarrow> (wire_param list \<times> manager) option" where
  "send_loop m [] tbc M = Some ([], M)"
| "send_loop m (r # rs) tbc M =
     (let p = sparam r M; tbc' = tbc + (sp_size p + 25)
      in if \<not> tbc < MAX_PARAMS_SIZE then Some ([], M)
         else if tbc' > MAX_PARAMS_SIZE then Some ([], M)
         else Option.bind (read_at (pointed r (param_factory M)) (sp_size p)) (\<lambda>d.
           if fragmented p
           then Option.bind (next_data r (upd_param r (\<lambda>p. p\<lparr>fragment_index := fragment_index p + 1\<rparr>) (param_factory M))) (\<lambda>F.
                Option.bind (fragments_out (fragments_left (sp_store F r)) r tbc' F) (\<lambda>(ws, tbc, F).
                  let M = M\<lparr>param_factory := F\<rparr>
                  in if fragment_index (sparam r M) < fragment_count (sparam r M)
                     then Some (wire_of p d True # ws, move_pindex m (Suc (length ws)) M)
                     else map_option (\<lambda>(vs, M). (wire_of p d True # ws @ vs, M))
                            (send_loop m rs tbc (move_pos m (Suc (length ws)) M))))
           else map_option (\<lambda>(vs, M). (wire_of p d False # vs, M)) (send_loop m rs tbc' (move_pos m 1 M))))"

text \<open>The number of packet parameters, and four more buffers for every fragmented parameter.\<close>

definition param_count :: "nat \<Rightarrow> manager \<Rightarrow> nat" where
  "param_count m M = length (tlvs (messages M m)) +
     sum_list (map (\<lambda>r. nat (fragment_count (sparam r M) - 1)) (filter (\<lambda>r. fragmented (sparam r M)) (tlvs (messages M m))))"

fun add_buffers :: "nat \<Rightarrow> sp_ref \<Rightarrow> manager \<Rightarrow> manager" where
  "add_buffers 0 r M = M"
| "add_buffers (Suc k) r M = (case new_param (sp_type (sparam r M)) (param_factory M) of
       (None, F) \<Rightarrow> add_buffers k r (M\<lparr>param_factory := F\<rparr>)
     | (Some q, F) \<Rightarrow> add_buffers k r (M\<lparr>param_factory := upd_param r (\<lambda>p. p\<lparr>sp_linked := sp_linked p @ [q]\<rparr>) F\<rparr>))"

definition link_buffers :: "sp_ref \<Rightarrow> manager \<Rightarrow> manager" where
  "link_buffers r M = (if fragmented (sparam r M)
     then upd_sparam r (\<lambda>p. p\<lparr>linked_index := 0\<rparr>) (add_buffers 4 r M) else M)"

definition prepare_send :: "bool \<Rightarrow> nat option \<Rightarrow> nat \<Rightarrow> manager \<Rightarrow> manager" where
  "prepare_send async on_sent m M =
     (let pc = param_count m M; M = fold link_buffers (tlvs (messages M m)) M
      in upd_msg m (\<lambda>s. s\<lparr>usr_method := (if async then on_sent else None), done_status := 0, next_pos := 0,
           next_pindex := 0, next_pc := pc\<rparr>) M)"

definition first_body :: "bool \<Rightarrow> nat option \<Rightarrow> nat \<Rightarrow> manager \<Rightarrow> (service_body \<times> manager) option" where
  "first_body async on_sent m M =
     (let M = prepare_send async on_sent m M
      in map_option (\<lambda>(ws, M). (body_of (messages M m) ws, M)) (send_loop m (tlvs (messages M m)) 0 M))"

text \<open>
  \<^verbatim>\<open>send\<close>: the stream, its handlers and the first packet. The result is the code (10 without a
  stream, 1 without a message or client) or, for a message on its way, 0; a synchronous call then
  waits with \<open>signal_wait\<close> and gives the status that came back.
\<close>

definition opened_for :: "int \<Rightarrow> octets \<Rightarrow> octets option \<Rightarrow> octets option \<Rightarrow> nat \<Rightarrow> nat \<Rightarrow> gdt_stream \<Rightarrow> gdt_stream" where
  "opened_for now fresh dtype did k m s =
     (let s = reset_stream now fresh True (s\<lparr>stream_client := Some k\<rparr>);
          s = set_destination dtype did (GdtStream.clear_params (s\<lparr>stream_callbacks := no_callbacks\<rparr>))
      in s\<lparr>stream_callbacks := set_callback GDT_ET_STREAM_NEXT (Some (msg_next m))
             (set_callback GDT_ET_STREAM_TIMEOUT (Some (msg_done m))
               (set_callback GDT_ET_STREAM_END (Some (msg_done m)) (stream_callbacks s)))\<rparr>)"

definition svc_send :: "int \<Rightarrow> octets \<Rightarrow> nat option \<Rightarrow> octets option \<Rightarrow> octets option \<Rightarrow> bool \<Rightarrow> nat option \<Rightarrow>
    gdt_client option \<Rightarrow> manager \<Rightarrow> (int \<times> (nat \<times> service_body) option \<times> gdt_client option \<times> manager) option" where
  "svc_send now fresh msg dtype did async on_sent gdtc M = (case (msg, gdtc) of
     (Some m, Some c) \<Rightarrow>
       (case allocate_stream_pool c of
          (None, c) \<Rightarrow> Some (10, None, Some (out_stat (strm_alloc_errors_update (add 1)) c), M)
        | (Some i, c) \<Rightarrow>
            map_option (\<lambda>(b, M). (0, Some (i, b),
                Some (send_stream True i (add_stream i (upd i (opened_for now fresh dtype did (self c) m) c))), M))
              (first_body async on_sent m M))
   | _ \<Rightarrow> Some (1, None, gdtc, M))"

section \<open>The packets that follow\<close>

fun next_loop :: "nat \<Rightarrow> sp_ref list \<Rightarrow> u32 \<Rightarrow> manager \<Rightarrow> (wire_param list \<times> manager) option" where
  "next_loop m [] tbc M = Some ([], M)"
| "next_loop m (r # rs) tbc M =
     (let p = sparam r M
      in if \<not> tbc < MAX_PARAMS_SIZE then Some ([], M)
         else if fragmented p
         then Option.bind (fragments_out (fragments_left p) r tbc (param_factory M)) (\<lambda>(ws, tbc, F).
                let M = M\<lparr>param_factory := F\<rparr>
                in if fragment_index (sparam r M) < fragment_count (sparam r M)
                   then Some (ws, move_pindex m (length ws) M)
                   else map_option (\<lambda>(vs, M). (ws @ vs, M)) (next_loop m rs tbc (move_pos m (length ws) M)))
         else (let tbc = tbc + (sp_size p + 25)
               in if tbc > MAX_PARAMS_SIZE then Some ([], M)
                  else Option.bind (read_at (sp_data p) (sp_size p)) (\<lambda>d.
                    map_option (\<lambda>(vs, M). (wire_of p d False # vs, M)) (next_loop m rs tbc (move_pos m 1 M)))))"

text \<open>
  \<^verbatim>\<open>ServiceMessageNext::run\<close>: the body of the next packet, while parameters are left; the stream
  goes on if there are more after it.
\<close>

definition next_run :: "nat \<Rightarrow> gdt_stream \<times> manager \<Rightarrow> (service_body option \<times> gdt_stream \<times> manager) option" where
  "next_run m = (\<lambda>(s, M).
     if next_pindex (messages M m) < next_pc (messages M m)
     then map_option (\<lambda>(ws, M). (Some (body_of (messages M m) ws),
              if next_pindex (messages M m) < next_pc (messages M m) then continue_sequence s else s, M))
            (next_loop m (drop (next_pos (messages M m)) (tlvs (messages M m))) 0 M)
     else Some (None, s, M))"

text \<open>
  \<^verbatim>\<open>ServiceMessageDone::run\<close>: the status of the last message, 300 for a timeout, the user's method
  and the signal. The status is \<^term>\<open>None\<close> for a timeout or a message object without a status node,
  else the octets that are linked to the node, if any; an empty status is read past its end.
\<close>

definition done_run :: "(nat \<Rightarrow> gdt_stream \<times> manager \<Rightarrow> gdt_stream \<times> manager) \<Rightarrow> nat \<Rightarrow> octets option option \<Rightarrow>
    gdt_stream \<times> manager \<Rightarrow> (gdt_stream \<times> manager) option" where
  "done_run run m status = (\<lambda>(s, M).
     (case (case status of None \<Rightarrow> Some 300 | Some None \<Rightarrow> Some (done_status (messages M m))
              | Some (Some []) \<Rightarrow> None | Some (Some (b # _)) \<Rightarrow> Some (uint b)) of
        None \<Rightarrow> None
      | Some st \<Rightarrow>
          (let M = upd_msg m (\<lambda>x. x\<lparr>done_status := st\<rparr>) M;
               (s, M) = (case usr_method (messages M m) of Some f \<Rightarrow> run f (s, M) | None \<Rightarrow> (s, M))
           in Some (s, upd_msg m signal_post M))))"

text \<open>\<^verbatim>\<open>ServiceMessageAsyncDone::run\<close>, the default method of an asynchronous message.\<close>

definition async_done :: "nat \<Rightarrow> manager \<Rightarrow> manager" where
  "async_done m M = snd (free_smsg m False True M)"

end
