(* ===== verification/ServiceReceive.thy ===== *)
theory ServiceReceive
  imports ServiceSend
begin

text \<open>
  Receiving a service message (\<^verbatim>\<open>ServiceStreamHandlerNew\<close>, \<^verbatim>\<open>ServiceStreamHandlerNext\<close> and
  \<^verbatim>\<open>ServiceStreamHandlerDone\<close> of \<^verbatim>\<open>src/src/gdt/gdt_utils.cpp\<close>): the parameters of a packet are taken out
  of the pool, filled, put together when they are fragments, and stored in the message and in its
  map of typed parameters.

  The state is the stream and the manager; the methods of the user, \<open>run\<close>, may change both. What
  the code would read from a child that is missing, from beyond the end of a value or from a buffer
  it has not written has no result (\<^term>\<open>None\<close>).
\<close>

type_synonym svc_state = "gdt_stream \<times> manager"
type_synonym svc_run = "nat \<Rightarrow> cb_args \<Rightarrow> svc_state \<Rightarrow> svc_state"

section \<open>Callbacks\<close>

definition message_args :: "nat \<Rightarrow> cb_args" where
  "message_args m = add_arg GDT_CB_INPUT_ARGS GDT_CB_ARGS_SRVC_MSG (Some (Arg_service_message m)) (clear_all_args new_args)"

definition param_args :: "nat \<Rightarrow> sp_ref \<Rightarrow> cb_args" where
  "param_args m r = add_arg GDT_CB_INPUT_ARGS GDT_CB_ARGS_SRVC_PARAM (Some (Arg_service_param (sp_type_code (fst r)) (snd r)))
     (message_args m)"

definition message_event :: "svc_run \<Rightarrow> GDTEventType \<Rightarrow> nat \<Rightarrow> sp_ref \<Rightarrow> svc_state \<Rightarrow> svc_state" where
  "message_event run ty m r = (\<lambda>(s, M). snd (process_callback run ty (param_args m r) (smsg_callbacks (messages M m)) (s, M)))"

definition fragment_event :: "svc_run \<Rightarrow> GDTEventType \<Rightarrow> nat \<Rightarrow> sp_ref \<Rightarrow> sp_ref \<Rightarrow> svc_state \<Rightarrow> svc_state" where
  "fragment_event run ty m f r = (\<lambda>(s, M). snd (process_callback run ty (param_args m r) (sp_callbacks (sparam f M)) (s, M)))"

section \<open>Typed parameters\<close>

fun variant_type :: "int \<Rightarrow> VariantParamType option" where
  "variant_type i = (if i = 1 then Some DPT_INT else if i = 2 then Some DPT_STRING else if i = 3 then Some DPT_DOUBLE
     else if i = 4 then Some DPT_CHAR else if i = 5 then Some DPT_BOOL else if i = 6 then Some DPT_OCTETS
     else if i = 7 then Some DPT_POINTER else None)"

definition be64_value :: "octets \<Rightarrow> u64" where "be64_value d = foldl (\<lambda>v b. push_bit 8 v OR ucast b) 0 d"

text \<open>
  A parameter that came in one piece, by the type sent with it: a string must be terminated inside
  its data, a Boolean one octet that is 0 or 1. Doubles and characters are stored as octets.
\<close>

definition store_variant :: "service_param \<Rightarrow> u32 vpmap \<Rightarrow> u32 vpmap option" where
  "store_variant p m = (let k = PT (sp_id p) (sp_index p) 0 0; d = extract_param p
     in if extra_type p = 2 then (if 0 \<in> set d then Some (set_cstr k d m) else None)
        else if extra_type p = 1 then Some (set_int k (be64_value (rev d)) m)
        else if extra_type p = 5 then (case d of [] \<Rightarrow> Some (set_bool k False m)
              | [b] \<Rightarrow> if b = 0 then Some (set_bool k False m) else if b = 1 then Some (set_bool k True m) else None
              | _ \<Rightarrow> None)
        else Some (set_octets k d (unat (sp_size p)) m))"

text \<open>A fragment under its number; the last one puts all of them together and sets the type.\<close>

definition store_fragment :: "service_param \<Rightarrow> int \<Rightarrow> u32 vpmap \<Rightarrow> u32 vpmap" where
  "store_fragment p i m = set_octets (PT (sp_id p) (sp_index p) (word_of_int i) 0) (sp_data p) (unat (sp_size p)) m"

definition join_fragments :: "service_param \<Rightarrow> u32 vpmap \<Rightarrow> u32 vpmap option" where
  "join_fragments p m = Option.bind (defragment (sp_id p) (sp_index p) 0 m) (\<lambda>(k, m).
     case k of None \<Rightarrow> Some m
     | Some k \<Rightarrow> map_option (\<lambda>t. vp_insert k DPT_OCTETS (v_set_type t) m) (variant_type (extra_type p)))"

section \<open>One parameter of a packet\<close>

abbreviation upd_vpmap :: "nat \<Rightarrow> (u32 vpmap \<Rightarrow> u32 vpmap) \<Rightarrow> manager \<Rightarrow> manager" where
  "upd_vpmap m f \<equiv> upd_msg m (\<lambda>x. x\<lparr>smsg_vpmap := f (smsg_vpmap x)\<rparr>)"

definition variant_fragment :: "nat \<Rightarrow> sp_ref \<Rightarrow> sp_ref \<Rightarrow> manager \<Rightarrow> manager" where
  "variant_fragment m f r M = (if sp_type (sparam r M) = SPT_VARIANT
     then upd_vpmap m (store_fragment (sparam r M) (fragment_index (sparam f M))) M else M)"

text \<open>The first fragment stays with the message; its own callbacks see the others.\<close>

definition first_fragment :: "svc_run \<Rightarrow> nat \<Rightarrow> sp_ref \<Rightarrow> svc_state \<Rightarrow> svc_state" where
  "first_fragment run m r = (\<lambda>(s, M).
     let M = set_frag_param m (Some r) M;
         M = upd_sparam r (\<lambda>p. p\<lparr>sp_callbacks := no_callbacks\<rparr>) M
     in message_event run GDT_ET_SRVC_PARAM_STREAM_NEW m r (s, variant_fragment m r r M))"

definition more_fragment :: "svc_run \<Rightarrow> nat \<Rightarrow> sp_ref \<Rightarrow> sp_ref \<Rightarrow> svc_state \<Rightarrow> svc_state" where
  "more_fragment run m f r = (\<lambda>(s, M).
     let M = upd_sparam f (inc_total_data_size (sp_size (sparam r M))) M
     in apsnd (release_param (Some r)) (fragment_event run GDT_ET_SRVC_PARAM_STREAM_NEXT m f r (s, variant_fragment m f r M)))"

definition last_fragment :: "svc_run \<Rightarrow> nat \<Rightarrow> sp_ref \<Rightarrow> sp_ref \<Rightarrow> svc_state \<Rightarrow> svc_state option" where
  "last_fragment run m f r = (\<lambda>(s, M).
     let M = upd_sparam r (\<lambda>p. p\<lparr>fragmented := True\<rparr>) M;
         M = upd_sparam f (inc_total_data_size (sp_size (sparam r M))) M;
         M = variant_fragment m f r M
     in Option.bind (if sp_type (sparam r M) = SPT_VARIANT
                     then map_option (\<lambda>vm. upd_vpmap m (\<lambda>_. vm) M) (join_fragments (sparam r M) (smsg_vpmap (messages M m)))
                     else Some M) (\<lambda>M.
          let (s, M) = fragment_event run GDT_ET_SRVC_PARAM_STREAM_END m f r (s, M);
              M = release_param (Some r) M;
              M = release_param (frag_param (messages M m)) M
          in Some (s, set_frag_param m None M)))"

definition short_param :: "svc_run \<Rightarrow> nat \<Rightarrow> u32 \<Rightarrow> sp_ref \<Rightarrow> svc_state \<Rightarrow> svc_state option" where
  "short_param run m i r = (\<lambda>(s, M).
     let M = upd_sparam r (\<lambda>p. p\<lparr>fragmented := False\<rparr>) M;
         M = add_param m i r (sp_index (sparam r M)) M
     in Option.bind (if sp_type (sparam r M) = SPT_VARIANT
                     then map_option (\<lambda>vm. upd_vpmap m (\<lambda>_. vm) M) (store_variant (sparam r M) (smsg_vpmap (messages M m)))
                     else Some M) (\<lambda>M.
          Some (message_event run GDT_ET_SRVC_SHORT_PARAM_NEW m r (s, M))))"

text \<open>The parameter object as the octets of the packet fill it.\<close>

definition filled :: "u32 \<Rightarrow> octets \<Rightarrow> u8 \<Rightarrow> u8 \<Rightarrow> service_param \<Rightarrow> service_param" where
  "filled i d ix ty p = (set_data d (word_of_nat (length d)) ((reset_data_p (p\<lparr>sp_id := i\<rparr>))\<lparr>sp_index := 0, extra_type := 0\<rparr>))
     \<lparr>sp_index := ucast ix, extra_type := uint ty\<rparr>"

definition receive_param :: "svc_run \<Rightarrow> nat \<Rightarrow> wire_param \<Rightarrow> svc_state \<Rightarrow> svc_state option" where
  "receive_param run m w = (\<lambda>(s, M).
     case w_data w of None \<Rightarrow> Some (s, M)
     | Some d \<Rightarrow>
         (case (w_type w, w_index w) of
            (Some (ty # _), Some (ix # _)) \<Rightarrow>
              if length (w_id w) < 4 then None
              else (let i = sum_octets (take 4 (w_id w))
                in case new_param (if ty > 0 then SPT_VARIANT else idt_get i (id_types M)) (param_factory M) of
                  (None, F) \<Rightarrow> Some (s, upd_msg m (\<lambda>x. x\<lparr>missing_params := True\<rparr>)
                     (M\<lparr>param_factory := F, mgr_stats := stat_inc SST_RX_SPARAM_POOL_EMPTY 1 (mgr_stats M)\<rparr>))
                | (Some r, F) \<Rightarrow>
                    (let M = upd_sparam r (filled i d ix ty) (M\<lparr>param_factory := F\<rparr>)
                     in if w_frag w = Some [1]
                        then (let M = upd_sparam r (\<lambda>p. p\<lparr>fragmented := True\<rparr>) M
                              in Some (case frag_param (messages M m) of
                                   None \<Rightarrow> first_fragment run m r (s, M)
                                 | Some f \<Rightarrow> more_fragment run m f r (s, M)))
                        else (case frag_param (messages M m) of
                                Some f \<Rightarrow> last_fragment run m f r (s, M)
                              | None \<Rightarrow> short_param run m i r (s, M))))
          | _ \<Rightarrow> None))"

fun receive_params :: "svc_run \<Rightarrow> nat \<Rightarrow> wire_param list \<Rightarrow> svc_state \<Rightarrow> svc_state option" where
  "receive_params run m [] S = Some S"
| "receive_params run m (w # ws) S = Option.bind (receive_param run m w S) (receive_params run m ws)"

text \<open>The part the three handlers share: the service id and the parameters.\<close>

definition receive_body :: "svc_run \<Rightarrow> nat \<Rightarrow> octets option \<Rightarrow> wire_param list \<Rightarrow> svc_state \<Rightarrow> svc_state option" where
  "receive_body run m sid ws = (\<lambda>(s, M). case sid of
       None \<Rightarrow> receive_params run m ws (s, M)
     | Some d \<Rightarrow> if length d < 4 then None
         else receive_params run m ws (s, upd_msg m (set_service_id (sum_octets (take 4 d))) M))"

section \<open>The handlers of a stream\<close>

text \<open>
  A packet without parameters leaves the stream as it is, so the stream ends. \<^term>\<open>None\<close> for the
  body is a message whose body is not linked.
\<close>

definition next_handler :: "svc_run \<Rightarrow> service_body option \<Rightarrow> svc_state \<Rightarrow> svc_state option" where
  "next_handler run body = (\<lambda>(s, M). case Option.bind body b_params of
       None \<Rightarrow> Some (s, M)
     | Some ws \<Rightarrow> (case GdtStream.get_param SMSG_PT_SMSG s of
           None \<Rightarrow> Some (s, M)
         | Some m \<Rightarrow> map_option (apfst continue_sequence) (receive_body run m (Option.bind body b_id) ws (s, M))))"

definition done_args :: "nat \<Rightarrow> nat \<Rightarrow> nat option \<Rightarrow> cb_args" where
  "done_args i m k = add_arg GDT_CB_INPUT_ARGS GDT_CB_ARG_CLIENT (map_option Arg_client k)
     (add_arg GDT_CB_INPUT_ARGS GDT_CB_ARGS_SRVC_MSG (Some (Arg_service_message m))
       (add_arg GDT_CB_INPUT_ARGS GDT_CB_ARG_STREAM (Some (Arg_stream i)) (clear_all_args new_args)))"

text \<open>The message is complete unless the status that came says otherwise.\<close>

definition completes :: "octets option \<Rightarrow> bool option" where
  "completes status = (case status of None \<Rightarrow> Some True | Some [] \<Rightarrow> None | Some (b # _) \<Rightarrow> Some (b = 0))"

definition stream_complete :: "svc_run \<Rightarrow> nat \<Rightarrow> nat \<Rightarrow> svc_state \<Rightarrow> svc_state" where
  "stream_complete run i m = (\<lambda>(s, M).
     let (s, M) = snd (process_callback run GDT_ET_SRVC_MSG_COMPLETE (done_args i m (stream_client s))
           (smsg_callbacks (messages M m)) (s, M));
         M = (if GdtStream.get_param SMSG_PT_PASS s \<noteq> Some m \<and> auto_free (messages M m) then snd (free_smsg m False True M) else M)
     in (GdtStream.set_param SMSG_PT_PASS None (GdtStream.set_param SMSG_PT_SMSG None s), M))"

text \<open>
  \<^verbatim>\<open>ServiceStreamHandlerDone::run\<close>, for the end and for the timeout of stream \<open>i\<close>; the message is
  \<^term>\<open>None\<close> for a timeout, else its body and its status.
\<close>

definition done_handler :: "svc_run \<Rightarrow> nat \<Rightarrow> (service_body option \<times> octets option) option \<Rightarrow> svc_state \<Rightarrow> svc_state option" where
  "done_handler run i msg = (\<lambda>(s, M). case GdtStream.get_param SMSG_PT_SMSG s of
       None \<Rightarrow> Some (s, M)
     | Some m \<Rightarrow> (case msg of
           None \<Rightarrow> Some (stream_complete run i m (s, M))
         | Some (body, status) \<Rightarrow>
             Option.bind (case Option.bind body b_params of None \<Rightarrow> Some (s, M)
                          | Some ws \<Rightarrow> receive_body run m (Option.bind body b_id) ws (s, M)) (\<lambda>(s, M).
             map_option (\<lambda>ok. stream_complete run i m (s, if ok then upd_msg m (set_complete True) M else M)) (completes status))))"

definition new_stream_callbacks :: "callbacks \<Rightarrow> callbacks" where
  "new_stream_callbacks h = set_callback GDT_ET_STREAM_TIMEOUT (Some ssh_done)
     (set_callback GDT_ET_STREAM_END (Some ssh_done) (set_callback GDT_ET_STREAM_NEXT (Some ssh_next) h))"

definition error_args :: "nat \<Rightarrow> cb_args" where
  "error_args i = add_arg GDT_CB_INPUT_ARGS GDT_CB_ARG_STREAM (Some (Arg_stream i)) (clear_all_args new_args)"

definition opened_message :: "service_message \<Rightarrow> service_message" where
  "opened_message x = set_complete False (x\<lparr>frag_param := None, smsg_callbacks := no_callbacks,
     smsg_vpmap := ParamMap.clear_params (smsg_vpmap x)\<rparr>)\<lparr>auto_free := True, missing_params := False\<rparr>"

definition new_handler :: "svc_run \<Rightarrow> nat \<Rightarrow> cb_args \<Rightarrow> service_body option \<Rightarrow> svc_state \<Rightarrow> svc_state option" where
  "new_handler run i args body = (\<lambda>(s, M). case body of
       None \<Rightarrow> Some (case usr_stream_hndlr M of Some f \<Rightarrow> run f args (s, M) | None \<Rightarrow> (s, M))
     | Some b \<Rightarrow>
         (let s = s\<lparr>stream_callbacks := new_stream_callbacks (stream_callbacks s)\<rparr>
          in case new_smsg M of
               (None, M) \<Rightarrow>
                 (let M = M\<lparr>mgr_stats := stat_inc SST_RX_SMSG_POOL_EMPTY 1 (mgr_stats M)\<rparr>
                  in Some (snd (process_callback run GDT_ET_SRVC_MSG_ERROR (error_args i) (mgr_callbacks M) (s, M))))
             | (Some m, M) \<Rightarrow>
                 (let M = upd_msg m opened_message M;
                      s = GdtStream.set_param SMSG_PT_SMSG (Some m) (GdtStream.clear_params s);
                      (s, M) = snd (process_callback run GDT_ET_SRVC_MSG_NEW (message_args m) (mgr_callbacks M) (s, M))
                  in map_option (apfst continue_sequence)
                       (case b_params b of None \<Rightarrow> Some (s, M) | Some ws \<Rightarrow> receive_body run m (b_id b) ws (s, M)))))"

text \<open>\<^verbatim>\<open>ServiceStreamNewClient::run\<close>: every new client gets the handler of new streams.\<close>

definition new_client_handler :: "(nat \<Rightarrow> cb_args \<Rightarrow> (nat \<Rightarrow> callbacks) \<Rightarrow> nat \<Rightarrow> callbacks) \<Rightarrow> nat option \<Rightarrow> cb_args \<Rightarrow> manager \<Rightarrow>
    (nat \<Rightarrow> callbacks) \<Rightarrow> nat \<Rightarrow> callbacks" where
  "new_client_handler run k args M cbs = (let cbs = setup_client k cbs
     in case usr_stream_nc_hndlr M of Some f \<Rightarrow> run f args cbs | None \<Rightarrow> cbs)"

end
