(* ===== verification/ServiceCut.thy ===== *)
theory ServiceCut
  imports ServiceSend
begin

text \<open>
  What \<open>ServiceSend\<close> puts into the packets of a message: the pieces of the parameters in order, every
  piece in one packet, at most 768 octets in each packet and at least one piece while any are left.
\<close>

section \<open>Pieces\<close>

function cut :: "octets \<Rightarrow> octets list" where
  "cut d = (if d = [] then [] else take 256 d # cut (drop 256 d))"
  by pat_completeness auto
termination by (relation "measure length") auto

declare cut.simps [simp del]

lemma cut_Nil [simp]: "cut [] = []"
  by (simp add: cut.simps)

lemma cut_eq_Nil [simp]: "cut d = [] \<longleftrightarrow> d = []"
  by (simp add: cut.simps)

lemma cut_long: "256 < length d \<Longrightarrow> cut d = take 256 d # cut (drop 256 d)"
  by (subst cut.simps) auto

lemma cut_short: "d \<noteq> [] \<Longrightarrow> length d \<le> 256 \<Longrightarrow> cut d = [d]"
  by (subst cut.simps) simp

lemma concat_cut [simp]: "concat (cut d) = d"
proof (induction d rule: cut.induct)
  case (1 d)
  then show ?case
  proof (cases "d = []")
    case False
    have "concat (cut (drop 256 d)) = drop 256 d" by (rule 1 [OF False])
    moreover have "cut d = take 256 d # cut (drop 256 d)" by (subst cut.simps) (use False in simp)
    ultimately show ?thesis by simp
  qed simp
qed

lemma length_cut: "length (cut d) = (length d + 255) div 256"
proof (induction d rule: cut.induct)
  case (1 d)
  show ?case
  proof (cases "256 < length d")
    case True
    then obtain k where k: "length d = 256 + k" by (metis less_imp_add_positive)
    have "length (cut d) = Suc (length (cut (drop 256 d)))" by (simp only: cut_long [OF True] list.size(4))
    also have "length (cut (drop 256 d)) = (k + 255) div 256" using 1 True k by fastforce
    also have "Suc ((k + 255) div 256) = (256 + (k + 255)) div 256" by simp
    finally show ?thesis by (simp add: k add.commute)
  next
    case False
    then show ?thesis
    proof (cases "d = []")
      case f: False
      then have "1 \<le> length d" by (cases d) auto
      then have "(length d + 255) div 256 = 1" using False by (intro div_nat_eqI) auto
      then show ?thesis using f False by (simp add: cut_short)
    qed simp
  qed
qed

fun tag :: "service_param \<Rightarrow> octets list \<Rightarrow> wire_param list" where
  "tag p [] = []"
| "tag p (d # ds) = wire_of p d (ds \<noteq> []) # tag p ds"

text \<open>What the fields of a parameter say is still to be sent.\<close>

definition unsent :: "service_param \<Rightarrow> octets" where
  "unsent p = take (unat (total_data_size p)) (drop (snd (data_p p)) (in_data p))"

definition pieces :: "service_param \<Rightarrow> wire_param list" where
  "pieces p = (if fragmented p then tag p (cut (unsent p)) else [wire_of p (take (unat (sp_size p)) (sp_data p)) False])"

text \<open>
  A parameter whose data are in memory, part of them sent. Parameters read from a file
  (\<^verbatim>\<open>set_data(FILE*)\<close>, which nothing in the repository calls) are left out.
\<close>

definition in_memory :: "service_param \<Rightarrow> bool" where
  "in_memory p \<longleftrightarrow> (if fragmented p
     then \<not> from_file p \<and> fst (data_p p) = Input \<and> snd (data_p p) + unat (total_data_size p) \<le> length (in_data p) \<and>
       unat (total_data_size p) < 2 ^ 31 \<and>
       fragment_count p - fragment_index p = int ((unat (total_data_size p) + 255) div 256)
     else unat (sp_size p) \<le> length (sp_data p) \<and> sp_size p \<le> 256 \<and> data_p p = (Own_data, 0))"

definition unstarted :: "service_param \<Rightarrow> bool" where
  "unstarted p \<longleftrightarrow> in_memory p \<and> (fragmented p \<longrightarrow> 256 < total_data_size p \<and> sp_size p = 256 \<and> fragment_index p = 0)"

definition cost :: "wire_param list \<Rightarrow> nat" where
  "cost ws = sum_list (map (\<lambda>w. length (the (w_data w)) + 25) ws)"

lemma cost_simps [simp]:
  "cost [] = 0" "cost (w # ws) = length (the (w_data w)) + 25 + cost ws" "cost (ws @ vs) = cost ws + cost vs"
  by (simp_all add: cost_def)

lemma wire_data [simp]: "w_data (wire_of p d b) = Some d"
  by (simp add: wire_of_def)

text \<open>What does not change while a parameter is sent.\<close>

definition same_head :: "service_param \<Rightarrow> service_param \<Rightarrow> bool" where
  "same_head p q \<longleftrightarrow> sp_id q = sp_id p \<and> sp_index q = sp_index p \<and> extra_type q = extra_type p \<and> fragmented q = fragmented p \<and>
     sp_data q = sp_data p \<and> sp_size q = sp_size p \<and> sp_linked q = sp_linked p"

lemma same_head_refl [simp]: "same_head p p"
  by (simp add: same_head_def)

lemma same_head_trans: "same_head p q \<Longrightarrow> same_head q r \<Longrightarrow> same_head p r"
  by (simp add: same_head_def)

lemma wire_same: "same_head p q \<Longrightarrow> wire_of q = wire_of p"
  by (simp add: wire_of_def same_head_def fun_eq_iff)

lemma tag_same: "same_head p q \<Longrightarrow> tag q ds = tag p ds"
  by (induction ds) (simp_all add: wire_same)

lemma length_tag [simp]: "length (tag p ds) = length ds"
  by (induction ds) simp_all

lemma length_unsent: "fragmented p \<Longrightarrow> in_memory p \<Longrightarrow> length (unsent p) = unat (total_data_size p)"
  by (auto simp: unsent_def in_memory_def min_def)

lemma pieces_Nil: "fragmented p \<Longrightarrow> in_memory p \<Longrightarrow> pieces p = [] \<longleftrightarrow> total_data_size p = 0"
  using length_unsent [of p] by (auto simp: pieces_def unat_eq_zero dest: arg_cong [of _ _ length])

lemma index_count:
  "fragmented p \<Longrightarrow> in_memory p \<Longrightarrow> fragment_index p < fragment_count p \<longleftrightarrow> pieces p \<noteq> []"
  "fragmented p \<Longrightarrow> in_memory p \<Longrightarrow> fragments_left p = length (pieces p)"
proof -
  assume p: "fragmented p" "in_memory p"
  then have c: "fragment_count p - fragment_index p = int (length (cut (unsent p)))"
    by (simp add: length_cut length_unsent) (simp add: in_memory_def)
  then show "fragments_left p = length (pieces p)" using p by (simp add: fragments_left_def pieces_def)
  show "fragment_index p < fragment_count p \<longleftrightarrow> pieces p \<noteq> []"
  proof -
    have "length (pieces p) = length (cut (unsent p))" using p by (simp add: pieces_def)
    with c have "fragment_count p - fragment_index p = int (length (pieces p))" by simp
    moreover have "pieces p \<noteq> [] \<longleftrightarrow> 0 < length (pieces p)" by simp
    ultimately show ?thesis by linarith
  qed
qed

section \<open>One fragment\<close>

definition piece :: "service_param \<Rightarrow> octets" where "piece p = take 256 (unsent p)"

definition sent_one :: "service_param \<Rightarrow> service_param" where
  "sent_one p = param_data_default (p\<lparr>fragment_index := fragment_index p + 1\<rparr>)"

lemma remaining_unat: "unat (remaining p) = min 256 (unat (total_data_size p))"
  by (simp add: remaining_def word_less_nat_alt min_def)

lemma fragment_bytes_remaining: "fragmented p \<Longrightarrow> in_memory p \<Longrightarrow> fragment_bytes p = remaining p"
proof -
  assume "fragmented p" "in_memory p"
  then have "unat (total_data_size p) < 2 ^ 31" by (simp add: in_memory_def)
  then have "sint (total_data_size p) = int (unat (total_data_size p))" by (rule sint_pos_unat)
  then have "sint (total_data_size p) > 256 \<longleftrightarrow> unat (total_data_size p) > 256" by linarith
  then show ?thesis by (simp only: fragment_bytes_def remaining_def word_less_nat_alt) simp
qed

lemma fragment_read:
  assumes "fragmented p" "in_memory p" "sp_store F r = p"
  shows "read_at (pointed r F) (fragment_bytes p) = Some (piece p)"
  using assms remaining_unat [of p]
  by (simp add: fragment_bytes_remaining [OF assms(1,2)])
    (auto simp: read_at_def pointed_def in_memory_def piece_def unsent_def Let_def min_def)

lemma sent_one_step:
  assumes p: "fragmented p" "in_memory p" "pieces p \<noteq> []"
  shows "in_memory (sent_one p)" "same_head p (sent_one p)"
    "pieces p = wire_of p (piece p) (fragment_index p \<noteq> fragment_count p - 1) # pieces (sent_one p)"
    "length (piece p) = unat (remaining p)"
    "fragment_index p < fragment_count p"
proof -
  let ?q = "sent_one p" and ?t = "unat (total_data_size p)"
  have t: "0 < ?t" using pieces_Nil [OF p(1,2)] p(3) by (simp add: unat_gt_0)
  have u: "unat (total_data_size ?q) = ?t - min 256 ?t" "snd (data_p ?q) = snd (data_p p) + min 256 ?t"
    by (simp_all add: sent_one_def param_data_default_def remaining_def word_less_nat_alt unat_sub word_le_nat_alt min_def)
  have c: "fragment_count p - fragment_index p = int ((?t + 255) div 256)" using p by (simp add: in_memory_def)
  have d: "int ((?t + 255) div 256) - 1 = int ((?t - min 256 ?t + 255) div 256)"
  proof (cases "256 \<le> ?t")
    case True
    then obtain k where "?t = 256 + k" using le_Suc_ex by blast
    then show ?thesis by simp
  next
    case False
    then have "(?t + 255) div 256 = 1" using t by (intro div_nat_eqI) auto
    then show ?thesis using False by (simp add: min_def)
  qed
  show h: "same_head p ?q" by (simp add: same_head_def sent_one_def param_data_default_def)
  have *: "from_file ?q = from_file p" "fst (data_p ?q) = fst (data_p p)" "in_data ?q = in_data p"
    "fragment_count ?q = fragment_count p" "fragment_index ?q = fragment_index p + 1" "fragmented ?q = fragmented p"
    by (simp_all add: sent_one_def param_data_default_def)
  have "unat (total_data_size p) < 2 ^ 31" using p(1,2) by (simp add: in_memory_def)
  then have b: "?t - min 256 ?t < 2 ^ 31" by simp
  show m: "in_memory ?q" using p u d c b unfolding in_memory_def * by auto
  have n: "unsent ?q = drop 256 (unsent p)"
    using p u by (simp add: unsent_def * drop_take min_def add.commute)
  have l: "length (unsent p) = ?t" by (rule length_unsent [OF p(1,2)])
  have ne: "unsent p \<noteq> []" using l t by auto
  have "cut (unsent p) = piece p # cut (unsent ?q)" using ne by (subst cut.simps) (simp add: piece_def n)
  moreover have "cut (unsent ?q) \<noteq> [] \<longleftrightarrow> fragment_index p \<noteq> fragment_count p - 1"
  proof -
    have "cut (unsent ?q) \<noteq> [] \<longleftrightarrow> (?t - min 256 ?t + 255) div 256 \<noteq> 0"
      using l by (auto simp: n div_eq_0_iff)
    then show ?thesis using c d by linarith
  qed
  ultimately show "pieces p = wire_of p (piece p) (fragment_index p \<noteq> fragment_count p - 1) # pieces ?q"
    using p(1) * by (simp add: pieces_def tag_same [OF h])
  show "length (piece p) = unat (remaining p)" using l by (simp add: piece_def remaining_unat)
  show "fragment_index p < fragment_count p" using index_count(1) [OF p(1,2)] p(3) by simp
qed

lemma next_data_sent:
  "in_memory (sp_store F r) \<Longrightarrow> fragmented (sp_store F r) \<Longrightarrow>
   next_data r (upd_param r (\<lambda>p. p\<lparr>fragment_index := fragment_index p + 1\<rparr>) F) = Some (upd_param r sent_one F)"
  by (simp add: next_data_def in_memory_def sent_one_def)

section \<open>The fragments in one packet\<close>

lemma word_sum: "unat (x + (y + 25) :: u32) = unat x + (unat y + 25)" if "unat x \<le> 768" "unat y \<le> 256"
  using that by (simp add: unat_word_ariths)

lemma upd_param_same [simp]: "upd_param r (\<lambda>_. sp_store F r) F = F"
  by simp

lemma fragments_out_pieces:
  assumes "p = sp_store F r" and "fragmented p" and "in_memory p" and "unat tbc \<le> 768" and "k = fragments_left p"
  shows "\<exists>ws tbc' q. fragments_out k r tbc F = Some (ws, tbc', upd_param r (\<lambda>_. q) F) \<and> in_memory q \<and> same_head p q \<and>
    pieces p = ws @ pieces q \<and> unat tbc + cost ws \<le> 768 \<and> (pieces q = [] \<longrightarrow> unat tbc' = unat tbc + cost ws) \<and>
    (tbc = 0 \<and> pieces p \<noteq> [] \<longrightarrow> ws \<noteq> [])"
  using assms
proof (induction k arbitrary: F p tbc)
  case 0
  then have "pieces p = []" using index_count(2) [of p] by simp
  with 0 show ?case
    by (intro exI [of _ "[]"] exI [of _ tbc] exI [of _ p]) simp
next
  case (Suc k)
  have p: "fragmented p" "in_memory p" "pieces p \<noteq> []" using Suc.prems index_count(2) [of p] by auto
  note one = sent_one_step [OF p]
  note rd = fragment_read [OF p(1,2), of F r] fragment_bytes_remaining [OF p(1,2)]
  have b: "unat (remaining p) \<le> 256" by (simp add: remaining_unat)
  note sum = word_sum [OF Suc.prems(4) b]
  show ?case
  proof (cases "tbc < 768 \<and> \<not> tbc + (remaining p + 25) > 768")
    case False
    then have t: "tbc \<noteq> 0" using sum b by (auto simp: word_less_nat_alt)
    have "\<exists>tbc'. fragments_out (Suc k) r tbc F = Some ([], tbc', F)"
      using False one(5) Suc.prems(1) rd by (simp add: Let_def)
    then obtain t' where e: "fragments_out (Suc k) r tbc F = Some ([], t', F)" by (elim exE)
    have "upd_param r (\<lambda>_. p) F = F" by (simp add: Suc.prems(1))
    with e have "fragments_out (Suc k) r tbc F = Some ([], t', upd_param r (\<lambda>_. p) F)" by (simp only:)
    then show ?thesis using p t Suc.prems(4)
      by (intro exI [of _ "[]"] exI [of _ t'] exI [of _ p]) (simp del: fragments_out.simps add: fun_upd_def)
  next
    case True
    let ?t = "tbc + (remaining p + 25)" and ?F = "upd_param r sent_one F"
    have t: "unat ?t = unat tbc + (unat (remaining p) + 25)" "unat ?t \<le> 768"
      using True sum by (auto simp: word_less_nat_alt)
    have left: "k = fragments_left (sent_one p)"
      using index_count(2) [OF p(1,2)] index_count(2) [of "sent_one p"] one Suc.prems(5) p(1) by (simp add: same_head_def)
    have "\<exists>ws tbc' q. fragments_out k r ?t ?F = Some (ws, tbc', upd_param r (\<lambda>_. q) ?F) \<and> in_memory q \<and>
        same_head (sent_one p) q \<and> pieces (sent_one p) = ws @ pieces q \<and> unat ?t + cost ws \<le> 768 \<and>
        (pieces q = [] \<longrightarrow> unat tbc' = unat ?t + cost ws) \<and> (?t = 0 \<and> pieces (sent_one p) \<noteq> [] \<longrightarrow> ws \<noteq> [])"
      by (rule Suc.IH) (use Suc.prems(1) one(1,2) p(1) t left in \<open>auto simp: same_head_def\<close>)
    then obtain ws tbc' q where IH: "fragments_out k r ?t ?F = Some (ws, tbc', upd_param r (\<lambda>_. q) ?F)"
      "in_memory q" "same_head (sent_one p) q" "pieces (sent_one p) = ws @ pieces q" "unat ?t + cost ws \<le> 768"
      "pieces q = [] \<longrightarrow> unat tbc' = unat ?t + cost ws" by (elim exE conjE)
    let ?w = "wire_of p (piece p) (fragment_index p \<noteq> fragment_count p - 1)"
    have run: "fragments_out (Suc k) r tbc F = Some (?w # ws, tbc', upd_param r (\<lambda>_. q) F)"
      using True one(5) rd Suc.prems(1) next_data_sent [of F r] p(1,2) IH(1) by (simp add: Let_def)
    have "same_head p q" by (rule same_head_trans [OF one(2) IH(3)])
    moreover have "pieces p = (?w # ws) @ pieces q" using one(3) IH(4) by simp
    moreover have "unat tbc + cost (?w # ws) = unat ?t + cost ws" using t(1) one(4) by simp
    ultimately show ?thesis using run IH(2,5,6)
      by (intro exI [of _ "?w # ws"] exI [of _ tbc'] exI [of _ q]) (simp del: fragments_out.simps add: fun_upd_def)
  qed
qed

section \<open>The parameters in one packet\<close>

text \<open>What is left of a list of parameters, and how the sender's state moves.\<close>

definition queue :: "(sp_ref \<Rightarrow> service_param) \<Rightarrow> sp_ref list \<Rightarrow> wire_param list" where
  "queue st rs = concat (map (\<lambda>r. pieces (st r)) rs)"

lemma queue_simps [simp]: "queue st [] = []" "queue st (r # rs) = pieces (st r) @ queue st rs"
  by (simp_all add: queue_def)

lemma queue_cong: "(\<And>r. r \<in> set rs \<Longrightarrow> st' r = st r) \<Longrightarrow> queue st' rs = queue st rs"
  by (induction rs) auto

abbreviation store_of :: "manager \<Rightarrow> sp_ref \<Rightarrow> service_param" where "store_of M \<equiv> sp_store (param_factory M)"

definition moved :: "nat \<Rightarrow> manager \<Rightarrow> (sp_ref \<Rightarrow> service_param) \<Rightarrow> nat \<Rightarrow> nat \<Rightarrow> manager" where
  "moved m M st a b = M\<lparr>param_factory := (param_factory M)\<lparr>sp_store := st\<rparr>,
     messages := (messages M)(m := (messages M m)\<lparr>next_pos := next_pos (messages M m) + a,
       next_pindex := next_pindex (messages M m) + b\<rparr>)\<rparr>"

lemma moved_moved [simp]: "moved m (moved m M st a b) st' a' b' = moved m M st' (a + a') (b + b')"
  by (simp add: moved_def add.assoc)

lemma moved_fields [simp]:
  "store_of (moved m M st a b) = st" "next_pos (messages (moved m M st a b) m) = next_pos (messages M m) + a"
  "next_pindex (messages (moved m M st a b) m) = next_pindex (messages M m) + b"
  "tlvs (messages (moved m M st a b) m) = tlvs (messages M m)" "next_pc (messages (moved m M st a b) m) = next_pc (messages M m)"
  "service_id (messages (moved m M st a b) m) = service_id (messages M m)"
  "service_action (messages (moved m M st a b) m) = service_action (messages M m)"
  by (simp_all add: moved_def)

lemma moved_none [simp]: "moved m M (store_of M) 0 0 = M"
  by (simp add: moved_def)

definition ready :: "(sp_ref \<Rightarrow> service_param) \<Rightarrow> sp_ref list \<Rightarrow> bool" where
  "ready st rs \<longleftrightarrow> (\<forall>r \<in> set rs. in_memory (st r) \<and> pieces (st r) \<noteq> [])"

lemma ready_simps [simp]: "ready st []" "ready st (r # rs) \<longleftrightarrow> in_memory (st r) \<and> pieces (st r) \<noteq> [] \<and> ready st rs"
  by (auto simp: ready_def)

lemma ready_cong: "(\<And>r. r \<in> set rs \<Longrightarrow> st' r = st r) \<Longrightarrow> ready st' rs = ready st rs"
  by (simp add: ready_def)

text \<open>
  One packet, as far as it is filled: the pieces it takes are the first ones of what is left, they
  fit with what is in it, and the parameters from the new position on are again ones in memory.
\<close>

definition packed :: "nat \<Rightarrow> sp_ref list \<Rightarrow> u32 \<Rightarrow> manager \<Rightarrow> wire_param list \<times> manager \<Rightarrow> bool" where
  "packed m rs tbc M = (\<lambda>(ws, M'). \<exists>st a. M' = moved m M st a (length ws) \<and> a \<le> length rs \<and>
     queue (store_of M) rs = ws @ queue st (drop a rs) \<and> (ws = [] \<or> unat tbc + cost ws \<le> 768) \<and>
     (tbc = 0 \<and> queue (store_of M) rs \<noteq> [] \<longrightarrow> ws \<noteq> []) \<and>
     (\<forall>r. same_head (store_of M r) (st r) \<and> (in_memory (store_of M r) \<longrightarrow> in_memory (st r))) \<and>
     (\<forall>r. r \<notin> set rs \<longrightarrow> st r = store_of M r) \<and> ready st (drop a rs))"

lemma packed_none: "ready (store_of M) rs \<Longrightarrow> tbc \<noteq> 0 \<or> rs = [] \<Longrightarrow> packed m rs tbc M ([], M)"
  unfolding packed_def prod.case
  by (intro exI [of _ "store_of M"] exI [of _ 0]) auto

lemma packed_stop:
  assumes "r \<notin> set rs" "in_memory q" "same_head (store_of M r) q" "pieces (store_of M r) = ws @ pieces q"
    "pieces q \<noteq> []" "ready (store_of M) rs" "ws = [] \<or> unat tbc + cost ws \<le> 768" "tbc = 0 \<longrightarrow> ws \<noteq> []"
  shows "packed m (r # rs) tbc M (ws, moved m M ((store_of M)(r := q)) 0 (length ws))"
proof -
  have "queue ((store_of M)(r := q)) rs = queue (store_of M) rs" "ready ((store_of M)(r := q)) rs = ready (store_of M) rs"
    using assms(1) by (intro queue_cong ready_cong; auto)+
  then show ?thesis using assms unfolding packed_def prod.case
    by (intro exI [of _ "(store_of M)(r := q)"] exI [of _ 0]) auto
qed

lemma packed_go:
  assumes "r \<notin> set rs" "in_memory q" "same_head (store_of M r) q" "pieces (store_of M r) = ws" "ws \<noteq> []"
    "unat tbc + cost ws \<le> 768" "unat tbc' = unat tbc + cost ws"
    "packed m rs tbc' (moved m M ((store_of M)(r := q)) 1 (length ws)) (vs, M')"
  shows "packed m (r # rs) tbc M (ws @ vs, M')"
proof -
  let ?st = "(store_of M)(r := q)"
  from assms(8) obtain st a where p: "M' = moved m (moved m M ?st 1 (length ws)) st a (length vs)" "a \<le> length rs"
    "queue ?st rs = vs @ queue st (drop a rs)" "vs = [] \<or> unat tbc' + cost vs \<le> 768"
    "\<forall>r. same_head (?st r) (st r) \<and> (in_memory (?st r) \<longrightarrow> in_memory (st r))" "\<forall>r. r \<notin> set rs \<longrightarrow> st r = ?st r"
    "ready st (drop a rs)"
    unfolding packed_def prod.case moved_fields by (elim exE conjE)
  have q: "queue ?st rs = queue (store_of M) rs" using assms(1) by (intro queue_cong) auto
  have k: "\<forall>x. same_head (store_of M x) (st x) \<and> (in_memory (store_of M x) \<longrightarrow> in_memory (st x))"
  proof
    fix x show "same_head (store_of M x) (st x) \<and> (in_memory (store_of M x) \<longrightarrow> in_memory (st x))"
      using p(5) assms(2,3) same_head_trans [of "store_of M r" q "st r"] by (cases "x = r") (metis fun_upd_apply)+
  qed
  show ?thesis unfolding packed_def prod.case
    using p q k assms(4-7) by (intro exI [of _ st] exI [of _ "Suc a"]) auto
qed

lemma pieces_single: "\<not> fragmented p \<Longrightarrow> in_memory p \<Longrightarrow> cost (pieces p) = unat (sp_size p) + 25 \<and> length (pieces p) = 1"
  by (simp add: pieces_def in_memory_def min_def)

lemma single_read:
  assumes "\<not> fragmented p" "in_memory p"
  shows "read_at (sp_data p) (sp_size p) = Some (take (unat (sp_size p)) (sp_data p))"
    "sp_store F r = p \<Longrightarrow> pointed r F = sp_data p" "pieces p = [wire_of p (take (unat (sp_size p)) (sp_data p)) False]"
    "unat (sp_size p) \<le> 256"
  using assms by (simp_all add: read_at_def in_memory_def pieces_def pointed_def word_le_nat_alt Let_def)

lemma next_loop_packs:
  assumes "distinct rs" and "ready (store_of M) rs" and "unat tbc \<le> 768"
  shows "\<exists>x. next_loop m rs tbc M = Some x \<and> packed m rs tbc M x"
  using assms
proof (induction rs arbitrary: tbc M)
  case Nil
  then show ?case using packed_none [of M "[]" tbc m] by simp
next
  case (Cons r rs)
  let ?p = "store_of M r"
  have p: "in_memory ?p" "pieces ?p \<noteq> []" "r \<notin> set rs" using Cons.prems by auto
  have rest: "ready ((store_of M)(r := q)) rs" for q
    using Cons.prems p(3) by (subst ready_cong [of rs _ "store_of M"]) auto
  show ?case
  proof (cases "tbc < 768")
    case False
    then have "tbc \<noteq> 0" by auto
    then show ?thesis using packed_none [OF Cons.prems(2), of tbc m] False by (simp add: Let_def)
  next
    case lt: True
    show ?thesis
    proof (cases "fragmented ?p")
      case True
      from fragments_out_pieces [OF refl True p(1) Cons.prems(3) refl]
      obtain ws tbc' q where f: "fragments_out (fragments_left ?p) r tbc (param_factory M)
            = Some (ws, tbc', upd_param r (\<lambda>_. q) (param_factory M))"
        "in_memory q" "same_head ?p q" "pieces ?p = ws @ pieces q" "unat tbc + cost ws \<le> 768"
        "pieces q = [] \<longrightarrow> unat tbc' = unat tbc + cost ws" "tbc = 0 \<and> pieces ?p \<noteq> [] \<longrightarrow> ws \<noteq> []" by (elim exE conjE)
      have fq: "fragmented q" using f(3) True by (simp add: same_head_def)
      note ix = index_count(1) [OF fq f(2)]
      show ?thesis
      proof (cases "pieces q = []")
        case False
        have "next_loop m (r # rs) tbc M = Some (ws, moved m M ((store_of M)(r := q)) 0 (length ws))"
          using lt True f(1) ix False by (simp add: Let_def moved_def)
        moreover have "packed m (r # rs) tbc M (ws, moved m M ((store_of M)(r := q)) 0 (length ws))"
          by (rule packed_stop) (use f p False Cons.prems(2) in auto)
        ultimately show ?thesis by blast
      next
        case fin: True
        then have t: "unat tbc' = unat tbc + cost ws" "ws \<noteq> []" "pieces ?p = ws" using f p(2) by auto
        then have le: "unat tbc' \<le> 768" using f(5) by simp
        have "distinct rs" "ready (store_of (moved m M ((store_of M)(r := q)) 1 (length ws))) rs"
          using Cons.prems(1) rest by (simp_all only: moved_fields distinct.simps)
        from Cons.IH [OF this le]
        obtain vs M' where n: "next_loop m rs tbc' (moved m M ((store_of M)(r := q)) 1 (length ws)) = Some (vs, M')"
          "packed m rs tbc' (moved m M ((store_of M)(r := q)) 1 (length ws)) (vs, M')" by auto
        have "next_loop m (r # rs) tbc M = Some (ws @ vs, M')"
          using lt True f(1) ix fin n(1) by (simp add: Let_def moved_def)
        moreover have "packed m (r # rs) tbc M (ws @ vs, M')"
          by (rule packed_go [OF p(3) f(2,3) t(3,2) f(5) t(1) n(2)])
        ultimately show ?thesis by blast
      qed
    next
      case False
      note sg = single_read [OF False p(1)]
      let ?t = "tbc + (sp_size ?p + 25)"
      have t: "unat ?t = unat tbc + cost (pieces ?p)" using word_sum [OF Cons.prems(3) sg(4)] pieces_single [OF False p(1)] by simp
      show ?thesis
      proof (cases "?t > 768")
        case True
        then have "tbc \<noteq> 0" using t pieces_single [OF False p(1)] sg(4) by (auto simp: word_less_nat_alt)
        then show ?thesis using packed_none [OF Cons.prems(2), of tbc m] False True lt by (simp add: Let_def)
      next
        case le: False
        then have le': "unat ?t \<le> 768" by (simp add: word_less_nat_alt)
        from Cons.IH [of "moved m M (store_of M) 1 1" ?t] Cons.prems(1,2) le'
        obtain vs M' where n: "next_loop m rs ?t (moved m M (store_of M) 1 1) = Some (vs, M')"
          "packed m rs ?t (moved m M (store_of M) 1 1) (vs, M')" by auto
        have "next_loop m (r # rs) tbc M = Some (pieces ?p @ vs, M')"
          using lt le False n(1) sg(1,3) by (simp add: Let_def moved_def)
        moreover have "packed m (r # rs) tbc M (pieces ?p @ vs, M')"
          by (rule packed_go [where q = ?p and tbc' = ?t]) (use p t le' n(2) sg(3) in auto)
        ultimately show ?thesis by blast
      qed
    qed
  qed
qed

text \<open>The first packet: a fragmented parameter has all its data before it.\<close>

lemma unstarted_ready: "unstarted p \<Longrightarrow> in_memory p \<and> pieces p \<noteq> []"
  using pieces_Nil [of p] by (cases "fragmented p") (auto simp: unstarted_def pieces_def)

lemma first_piece:
  assumes "unstarted p" "fragmented p" "sp_store F r = p"
  shows "read_at (pointed r F) (sp_size p) = Some (piece p)" "unat (remaining p) = 256" "sp_size p = 256"
    "fragment_index p \<noteq> fragment_count p - 1"
proof -
  have p: "in_memory p" "sp_size p = 256" "256 < total_data_size p" "pieces p \<noteq> []"
    using assms unstarted_ready [of p] by (auto simp: unstarted_def)
  then show r: "unat (remaining p) = 256" "sp_size p = 256" by (simp_all add: remaining_unat word_less_nat_alt)
  then show "read_at (pointed r F) (sp_size p) = Some (piece p)"
    using fragment_read [OF assms(2) p(1) assms(3)] fragment_bytes_remaining [OF assms(2) p(1)] by (simp add: remaining_def p(3))
  have "fragment_count p - fragment_index p = int ((unat (total_data_size p) + 255) div 256)"
    using p(1) assms(2) by (simp add: in_memory_def)
  moreover have "2 \<le> (unat (total_data_size p) + 255) div 256"
    using p(3) by (simp add: word_less_nat_alt less_eq_div_iff_mult_less_eq)
  ultimately show "fragment_index p \<noteq> fragment_count p - 1" by linarith
qed

lemma send_loop_packs:
  assumes "distinct rs" and "\<forall>r \<in> set rs. unstarted (store_of M r)" and "unat tbc \<le> 768"
  shows "\<exists>x. send_loop m rs tbc M = Some x \<and> packed m rs tbc M x"
  using assms
proof (induction rs arbitrary: tbc M)
  case Nil
  then show ?case using packed_none [of M "[]" tbc m] by simp
next
  case (Cons r rs)
  let ?p = "store_of M r"
  have rdy: "ready (store_of M) (r # rs)" using Cons.prems(2) unstarted_ready by (auto simp: ready_def)
  then have p: "in_memory ?p" "pieces ?p \<noteq> []" "r \<notin> set rs" "unstarted ?p" using Cons.prems by auto
  have rest: "\<forall>x \<in> set rs. unstarted (((store_of M)(r := q)) x)" for q using Cons.prems p(3) by auto
  have size: "unat (sp_size ?p) \<le> 256"
  proof (cases "fragmented ?p")
    case False
    then show ?thesis using single_read(4) p(1) by blast
  next
    case True
    then show ?thesis by (simp add: first_piece(3) [OF p(4) True refl])
  qed
  let ?t = "tbc + (sp_size ?p + 25)"
  note t = word_sum [OF Cons.prems(3) size]
  show ?case
  proof (cases "tbc < 768 \<and> \<not> ?t > 768")
    case False
    then have "tbc \<noteq> 0" using t size by (auto simp: word_less_nat_alt)
    then show ?thesis using packed_none [OF rdy, of tbc m] False by (auto simp: Let_def)
  next
    case lt: True
    then have le: "unat ?t \<le> 768" by (simp add: word_less_nat_alt)
    show ?thesis
    proof (cases "fragmented ?p")
      case True
      note fp = first_piece [OF p(4) True refl]
      note one = sent_one_step [OF True p(1,2)]
      let ?F = "upd_param r sent_one (param_factory M)" and ?w = "wire_of ?p (piece ?p) True"
      have nd: "next_data r (upd_param r (\<lambda>p. p\<lparr>fragment_index := fragment_index p + 1\<rparr>) (param_factory M)) = Some ?F"
        by (rule next_data_sent [OF p(1) True])
      have s1: "sp_store ?F r = sent_one ?p" "fragmented (sent_one ?p)" using one(2) True by (auto simp: same_head_def)
      from fragments_out_pieces [OF s1(1) [symmetric] s1(2) one(1) le refl]
      obtain ws tbc' q where f: "fragments_out (fragments_left (sent_one ?p)) r ?t ?F = Some (ws, tbc', upd_param r (\<lambda>_. q) ?F)"
        "in_memory q" "same_head (sent_one ?p) q" "pieces (sent_one ?p) = ws @ pieces q" "unat ?t + cost ws \<le> 768"
        "pieces q = [] \<longrightarrow> unat tbc' = unat ?t + cost ws" by (elim exE conjE)
      have pq: "same_head ?p q" by (rule same_head_trans [OF one(2) f(3)])
      have fq: "fragmented q" using pq True by (simp add: same_head_def)
      note ix = index_count(1) [OF fq f(2)]
      have pw: "pieces ?p = (?w # ws) @ pieces q" using one(3) f(4) fp(4) by simp
      have c: "unat tbc + cost (?w # ws) = unat ?t + cost ws" using t one(4) fp(2,3) by simp
      have run: "fragments_out (fragments_left (sp_store ?F r)) r ?t ?F = Some (ws, tbc', upd_param r (\<lambda>_. q) ?F)"
        using f(1) s1(1) by simp
      show ?thesis
      proof (cases "pieces q = []")
        case False
        have "send_loop m (r # rs) tbc M = Some (?w # ws, moved m M ((store_of M)(r := q)) 0 (length (?w # ws)))"
          using lt True nd run fp(1) ix False by (simp add: Let_def moved_def)
        moreover have "packed m (r # rs) tbc M (?w # ws, moved m M ((store_of M)(r := q)) 0 (length (?w # ws)))"
          by (rule packed_stop) (use f(2) pq pw c f(5) p(3) False rdy in auto)
        ultimately show ?thesis by blast
      next
        case fin: True
        then have t': "unat tbc' = unat tbc + cost (?w # ws)" "pieces ?p = ?w # ws" using f(6) c pw by auto
        then have le': "unat tbc' \<le> 768" "unat tbc + cost (?w # ws) \<le> 768" using f(5) c by auto
        have "distinct rs" "\<forall>x \<in> set rs. unstarted (store_of (moved m M ((store_of M)(r := q)) 1 (length (?w # ws))) x)"
          using Cons.prems(1) rest by (simp_all only: moved_fields distinct.simps) auto
        from Cons.IH [OF this le'(1)]
        obtain vs M' where n: "send_loop m rs tbc' (moved m M ((store_of M)(r := q)) 1 (length (?w # ws))) = Some (vs, M')"
          "packed m rs tbc' (moved m M ((store_of M)(r := q)) 1 (length (?w # ws))) (vs, M')" by auto
        have "send_loop m (r # rs) tbc M = Some ((?w # ws) @ vs, M')"
          using lt True nd run fp(1) ix fin n(1) by (simp add: Let_def moved_def)
        moreover have "packed m (r # rs) tbc M ((?w # ws) @ vs, M')"
          by (rule packed_go [OF p(3) f(2) pq t'(2) _ le'(2) t'(1) n(2)]) simp
        ultimately show ?thesis by blast
      qed
    next
      case False
      note sg = single_read [OF False p(1)]
      have ct: "unat ?t = unat tbc + cost (pieces ?p)" using t pieces_single [OF False p(1)] by simp
      have "\<forall>x \<in> set rs. unstarted (store_of (moved m M (store_of M) 1 1) x)" using Cons.prems(2) by simp
      from Cons.IH [OF _ this le] Cons.prems(1)
      obtain vs M' where n: "send_loop m rs ?t (moved m M (store_of M) 1 1) = Some (vs, M')"
        "packed m rs ?t (moved m M (store_of M) 1 1) (vs, M')" by auto
      have "send_loop m (r # rs) tbc M = Some (pieces ?p @ vs, M')"
        using lt False n(1) sg(1,3) sg(2) [OF refl] by (simp add: Let_def moved_def)
      moreover have "packed m (r # rs) tbc M (pieces ?p @ vs, M')"
        by (rule packed_go [where q = ?p and tbc' = ?t]) (use p ct le n(2) sg(3) in auto)
      ultimately show ?thesis by blast
    qed
  qed
qed

section \<open>All packets of a message\<close>

text \<open>Preparing a message only links buffers to its parameters.\<close>

definition unlinked :: "service_param \<Rightarrow> service_param" where
  "unlinked p = p\<lparr>sp_linked := [], linked_index := 0\<rparr>"

definition relinked :: "manager \<Rightarrow> manager \<Rightarrow> bool" where
  "relinked M M' \<longleftrightarrow> pooled (param_factory M') = pooled (param_factory M) \<and> messages M' = messages M \<and>
     (\<forall>r. unlinked (store_of M' r) = unlinked (store_of M r))"

lemma relinked_refl: "relinked M M"
  by (simp add: relinked_def)

lemma relinked_trans: "relinked A B \<Longrightarrow> relinked B C \<Longrightarrow> relinked A C"
  by (simp add: relinked_def)

lemma new_param_pooled: "pooled F \<Longrightarrow> new_param t F = (o', F') \<Longrightarrow> sp_store F' = sp_store F \<and> pooled F'"
  by (auto simp: new_param_def Let_def split: prod.splits)

lemma relinked_one: "pooled (param_factory M) \<Longrightarrow> new_param t (param_factory M) = (o', F) \<Longrightarrow>
   relinked M (M\<lparr>param_factory := upd_param r (\<lambda>p. p\<lparr>sp_linked := f p\<rparr>) F\<rparr>) \<and> relinked M (M\<lparr>param_factory := F\<rparr>)"
  using new_param_pooled [of "param_factory M" t o' F] by (simp add: relinked_def unlinked_def)

lemma add_buffers_relinked: "pooled (param_factory M) \<Longrightarrow> relinked M (add_buffers k r M)"
proof (induction k arbitrary: M)
  case 0
  then show ?case by (simp add: relinked_refl)
next
  case (Suc k)
  obtain o' F where n: "new_param (sp_type (sparam r M)) (param_factory M) = (o', F)" by fastforce
  have p: "pooled F" using new_param_pooled [OF Suc.prems n] by simp
  show ?case
  proof (cases o')
    case None
    have "relinked (M\<lparr>param_factory := F\<rparr>) (add_buffers k r (M\<lparr>param_factory := F\<rparr>))" by (rule Suc.IH) (simp add: p)
    with conjunct2 [OF relinked_one [OF Suc.prems n]] have "relinked M (add_buffers k r (M\<lparr>param_factory := F\<rparr>))"
      by (rule relinked_trans)
    then show ?thesis by (simp add: n None)
  next
    case (Some q)
    let ?M = "M\<lparr>param_factory := upd_param r (\<lambda>p. p\<lparr>sp_linked := sp_linked p @ [q]\<rparr>) F\<rparr>"
    have "relinked ?M (add_buffers k r ?M)" by (rule Suc.IH) (simp add: p)
    with conjunct1 [OF relinked_one [OF Suc.prems n]] have "relinked M (add_buffers k r ?M)" by (rule relinked_trans)
    then show ?thesis by (simp add: n Some)
  qed
qed

lemma link_buffers_relinked: "pooled (param_factory M) \<Longrightarrow> relinked M (link_buffers r M)"
proof -
  assume p: "pooled (param_factory M)"
  let ?B = "add_buffers 4 r M"
  have "relinked ?B (upd_sparam r (\<lambda>p. p\<lparr>linked_index := 0\<rparr>) ?B)"
    by (simp add: relinked_def unlinked_def)
  from relinked_trans [OF add_buffers_relinked [OF p] this] show ?thesis
    by (simp add: link_buffers_def relinked_refl)
qed

lemma fold_relinked: "pooled (param_factory M) \<Longrightarrow> relinked M (fold link_buffers rs M)"
proof (induction rs arbitrary: M)
  case Nil
  then show ?case by (simp add: relinked_refl)
next
  case (Cons r rs)
  have l: "relinked M (link_buffers r M)" by (rule link_buffers_relinked [OF Cons.prems])
  then have "pooled (param_factory (link_buffers r M))" using Cons.prems by (simp add: relinked_def)
  from relinked_trans [OF l Cons.IH [OF this]] show ?case by simp
qed

lemma unlinked_same: "pieces (unlinked p) = pieces p" "unstarted (unlinked p) = unstarted p"
proof -
  let ?q = "unlinked p"
  have f: "fragmented ?q = fragmented p" "sp_size ?q = sp_size p" "sp_data ?q = sp_data p" "unsent ?q = unsent p"
    "data_p ?q = data_p p" "in_data ?q = in_data p" "total_data_size ?q = total_data_size p" "from_file ?q = from_file p"
    "fragment_count ?q = fragment_count p" "fragment_index ?q = fragment_index p"
    by (simp_all add: unlinked_def unsent_def)
  have w: "wire_of ?q = wire_of p" by (simp add: wire_of_def unlinked_def fun_eq_iff)
  have t: "tag ?q ds = tag p ds" for ds by (induction ds) (simp_all add: w)
  show "pieces ?q = pieces p" by (simp add: pieces_def t w f)
  show "unstarted ?q = unstarted p" unfolding unstarted_def in_memory_def f by (rule refl)
qed

lemma relinked_same: "relinked M M' \<Longrightarrow> pieces (store_of M' r) = pieces (store_of M r) \<and> unstarted (store_of M' r) = unstarted (store_of M r)"
  unfolding relinked_def by (metis unlinked_same)

text \<open>The stream as its user sees it: the packets asked for until there are none, \<open>n\<close> at most.\<close>

fun packets_after :: "nat \<Rightarrow> nat \<Rightarrow> gdt_stream \<times> manager \<Rightarrow> service_body list option" where
  "packets_after 0 m S = None"
| "packets_after (Suc n) m S = (case next_run m S of
       None \<Rightarrow> None
     | Some (None, _) \<Rightarrow> Some []
     | Some (Some b, S) \<Rightarrow> map_option (Cons b) (packets_after n m S))"

definition body_params :: "service_body \<Rightarrow> wire_param list" where
  "body_params b = (case b_params b of None \<Rightarrow> [] | Some ws \<Rightarrow> ws)"

lemma body_params_of [simp]: "body_params (body_of s ws) = ws"
  by (simp add: body_params_def body_of_def)

text \<open>The sender between two packets.\<close>

definition sending :: "nat \<Rightarrow> manager \<Rightarrow> bool" where
  "sending m M \<longleftrightarrow> (let s = messages M m; rs = drop (next_pos s) (tlvs s)
     in distinct (tlvs s) \<and> ready (store_of M) rs \<and> next_pc s = next_pindex s + length (queue (store_of M) rs))"

abbreviation left :: "nat \<Rightarrow> manager \<Rightarrow> wire_param list" where
  "left m M \<equiv> queue (store_of M) (drop (next_pos (messages M m)) (tlvs (messages M m)))"

lemma packed_sending:
  assumes "packed m (drop (next_pos (messages M m)) (tlvs (messages M m))) tbc M (ws, M')"
    and "distinct (tlvs (messages M m))" and "next_pc (messages M m) = next_pindex (messages M m) + length (left m M)"
  shows "sending m M' \<and> left m M = ws @ left m M' \<and> (ws = [] \<or> unat tbc + cost ws \<le> 768) \<and>
    (tbc = 0 \<and> left m M \<noteq> [] \<longrightarrow> ws \<noteq> []) \<and> service_id (messages M' m) = service_id (messages M m)"
proof -
  let ?rs = "drop (next_pos (messages M m)) (tlvs (messages M m))"
  from assms(1) obtain st a where p: "M' = moved m M st a (length ws)" "left m M = ws @ queue st (drop a ?rs)"
    "ws = [] \<or> unat tbc + cost ws \<le> 768" "tbc = 0 \<and> left m M \<noteq> [] \<longrightarrow> ws \<noteq> []" "ready st (drop a ?rs)"
    unfolding packed_def prod.case by (elim exE conjE)
  have d: "drop a ?rs = drop (next_pos (messages M' m)) (tlvs (messages M' m))"
    by (simp add: p(1) add.commute)
  have l: "left m M' = queue st (drop a ?rs)" unfolding d by (simp add: p(1))
  have st: "store_of M' = st" and t: "tlvs (messages M' m) = tlvs (messages M m)"
    and n: "next_pc (messages M' m) = next_pc (messages M m)" "next_pindex (messages M' m) = next_pindex (messages M m) + length ws"
    by (simp_all add: p(1))
  have lw: "left m M = ws @ left m M'" unfolding l by (rule p(2))
  have "ready (store_of M') (drop (next_pos (messages M' m)) (tlvs (messages M' m)))"
    unfolding st d [symmetric] by (rule p(5))
  moreover have "next_pc (messages M' m) = next_pindex (messages M' m) + length (left m M')"
    using assms(3) arg_cong [OF lw, of length] unfolding n length_append by linarith
  ultimately have "sending m M'" using assms(2) t unfolding sending_def Let_def by metis
  moreover have "service_id (messages M' m) = service_id (messages M m)" by (simp add: p(1))
  ultimately show ?thesis using p(3,4) lw by (intro conjI)
qed

lemma next_run_step:
  assumes "sending m M"
  shows "if left m M = [] then next_run m (s, M) = Some (None, s, M)
    else \<exists>ws M'. next_run m (s, M) = Some (Some (body_of (messages M' m) ws), if left m M' = [] then s else continue_sequence s, M') \<and>
           sending m M' \<and> left m M = ws @ left m M' \<and> ws \<noteq> [] \<and> cost ws \<le> 768 \<and>
           service_id (messages M' m) = service_id (messages M m)"
proof -
  let ?rs = "drop (next_pos (messages M m)) (tlvs (messages M m))"
  have a: "distinct (tlvs (messages M m))" "ready (store_of M) ?rs"
    "next_pc (messages M m) = next_pindex (messages M m) + length (left m M)"
    using assms by (simp_all add: sending_def Let_def)
  show ?thesis
  proof (cases "left m M = []")
    case True
    then show ?thesis using a(3) by (simp add: next_run_def)
  next
    case False
    have "unat (0 :: u32) \<le> 768" by simp
    from next_loop_packs [OF distinct_drop [OF a(1)] a(2) this] obtain ws M' where n: "next_loop m ?rs 0 M = Some (ws, M')"
      "packed m ?rs 0 M (ws, M')" by fast
    note p = packed_sending [OF n(2) a(1,3)]
    have pc: "next_pindex (messages M' m) < next_pc (messages M' m) \<longleftrightarrow> left m M' \<noteq> []" using conjunct1 [OF p] by (simp add: sending_def Let_def)
    have "next_pindex (messages M m) < next_pc (messages M m)" using a(3) False by simp
    with n(1) pc have "next_run m (s, M)
        = Some (Some (body_of (messages M' m) ws), if left m M' = [] then s else continue_sequence s, M')"
      by (simp add: next_run_def)
    moreover have "ws \<noteq> []" "cost ws \<le> 768" using p False by auto
    ultimately have "\<exists>ws M'. next_run m (s, M) = Some (Some (body_of (messages M' m) ws), if left m M' = [] then s else continue_sequence s, M') \<and>
           sending m M' \<and> left m M = ws @ left m M' \<and> ws \<noteq> [] \<and> cost ws \<le> 768 \<and>
           service_id (messages M' m) = service_id (messages M m)"
      using p by (intro exI [of _ ws] exI [of _ M'] conjI) blast+
    then show ?thesis using False by (simp only: if_False)
  qed
qed

lemma packets_after_sending:
  assumes "sending m M" and "length (left m M) < n"
  shows "\<exists>bs. packets_after n m (s, M) = Some bs \<and> concat (map body_params bs) = left m M \<and>
    (\<forall>b \<in> set bs. body_params b \<noteq> [] \<and> cost (body_params b) \<le> 768)"
  using assms
proof (induction n arbitrary: s M)
  case 0
  then show ?case by simp
next
  case (Suc n)
  note st = next_run_step [OF Suc.prems(1), of s]
  show ?case
  proof (cases "left m M = []")
    case True
    then show ?thesis using st by (intro exI [of _ "[]"]) (simp del: append_Nil)
  next
    case False
    then obtain ws M' where w: "next_run m (s, M)
        = Some (Some (body_of (messages M' m) ws), if left m M' = [] then s else continue_sequence s, M')"
      "sending m M'" "left m M = ws @ left m M'" "ws \<noteq> []" "cost ws \<le> 768" using st by (simp only: if_not_P if_False) blast
    then have "length (left m M') < n" using Suc.prems(2) by (cases ws) auto
    from Suc.IH [OF w(2) this, of "if left m M' = [] then s else continue_sequence s"]
    obtain bs where "packets_after n m (if left m M' = [] then s else continue_sequence s, M') = Some bs"
      "concat (map body_params bs) = left m M'" "\<forall>b \<in> set bs. body_params b \<noteq> [] \<and> cost (body_params b) \<le> 768" by blast
    then show ?thesis using w by (intro exI [of _ "body_of (messages M' m) ws # bs"]) simp
  qed
qed

section \<open>Properties\<close>

lemma count_pieces:
  assumes "unstarted p"
  shows "length (pieces p) = (if fragmented p then nat (fragment_count p - 1) + 1 else 1)"
proof (cases "fragmented p")
  case True
  have p: "in_memory p" "pieces p \<noteq> []" "fragment_index p = 0" using unstarted_ready [OF assms] assms True by (auto simp: unstarted_def)
  then have "0 < fragment_count p" "length (pieces p) = nat (fragment_count p)"
    using index_count [OF True p(1)] by (simp_all add: fragments_left_def)
  then show ?thesis using True by simp
next
  case False
  then show ?thesis by (simp add: pieces_def)
qed

lemma param_count_queue:
  assumes "\<forall>r \<in> set (tlvs (messages M m)). unstarted (sparam r M)"
  shows "param_count m M = length (queue (store_of M) (tlvs (messages M m)))"
proof -
  have "length rs + sum_list (map (\<lambda>r. nat (fragment_count (sparam r M) - 1)) (filter (\<lambda>r. fragmented (sparam r M)) rs))
      = length (queue (store_of M) rs)" if "\<forall>r \<in> set rs. unstarted (sparam r M)" for rs
    using that by (induction rs) (auto simp: count_pieces)
  then show ?thesis using assms by (simp add: param_count_def)
qed

lemma prepared:
  assumes "pooled (param_factory M)" and "distinct (tlvs (messages M m))"
    and "\<forall>r \<in> set (tlvs (messages M m)). unstarted (sparam r M)"
  obtains N where "prepare_send async f m M = N" "tlvs (messages N m) = tlvs (messages M m)" "next_pos (messages N m) = 0"
    "next_pindex (messages N m) = 0" "next_pc (messages N m) = param_count m M"
    "\<And>r. pieces (store_of N r) = pieces (store_of M r)" "\<And>r. unstarted (store_of N r) = unstarted (store_of M r)"
    "service_id (messages N m) = service_id (messages M m)" "usr_method (messages N m) = (if async then f else None)"
proof -
  let ?L = "fold link_buffers (tlvs (messages M m)) M"
  have r: "relinked M ?L" by (rule fold_relinked [OF assms(1)])
  then have m: "messages ?L = messages M" by (simp add: relinked_def)
  show thesis
    by (rule that [OF refl]) (use relinked_same [OF r] m in \<open>simp_all add: prepare_send_def\<close>)
qed

lemma first_body_sends:
  assumes "pooled (param_factory M)" and "distinct (tlvs (messages M m))"
    and "\<forall>r \<in> set (tlvs (messages M m)). unstarted (sparam r M)"
  obtains ws M' where "first_body async f m M = Some (body_of (messages M' m) ws, M')" "sending m M'"
    "queue (store_of M) (tlvs (messages M m)) = ws @ left m M'" "cost ws \<le> 768" "ws = [] \<longrightarrow> left m M' = []"
    "service_id (messages M' m) = service_id (messages M m)" "length (left m M') \<le> param_count m M"
proof -
  obtain N where n: "prepare_send async f m M = N" "tlvs (messages N m) = tlvs (messages M m)" "next_pos (messages N m) = 0"
    "next_pindex (messages N m) = 0" "next_pc (messages N m) = param_count m M"
    "\<And>r. pieces (store_of N r) = pieces (store_of M r)" "\<And>r. unstarted (store_of N r) = unstarted (store_of M r)"
    "service_id (messages N m) = service_id (messages M m)"
    using prepared [OF assms, of async f] by metis
  have q: "queue (store_of N) rs = queue (store_of M) rs" for rs by (simp add: queue_def n(6))
  have u: "\<forall>r \<in> set (tlvs (messages N m)). unstarted (store_of N r)" using assms(3) n(2,7) by simp
  have l: "left m N = queue (store_of M) (tlvs (messages M m))" by (simp add: n(2,3) q)
  have d: "distinct (tlvs (messages N m))" using assms(2) n(2) by simp
  have z: "unat (0 :: u32) \<le> 768" by simp
  from send_loop_packs [OF d u z] obtain ws M' where w: "send_loop m (tlvs (messages N m)) 0 N = Some (ws, M')"
    "packed m (tlvs (messages N m)) 0 N (ws, M')" by fast
  have pc: "next_pc (messages N m) = next_pindex (messages N m) + length (left m N)"
    by (simp only: n(4,5) l param_count_queue [OF assms(3)] add_0)
  have p: "packed m (drop (next_pos (messages N m)) (tlvs (messages N m))) 0 N (ws, M')" using w(2) n(3) by simp
  note k = packed_sending [OF p d pc]
  have lw: "queue (store_of M) (tlvs (messages M m)) = ws @ left m M'"
    using conjunct1 [OF conjunct2 [OF k]] unfolding l .
  have c: "cost ws \<le> 768" using conjunct1 [OF conjunct2 [OF conjunct2 [OF k]]] by auto
  have e: "ws = [] \<longrightarrow> left m M' = []"
    using conjunct1 [OF conjunct2 [OF conjunct2 [OF conjunct2 [OF k]]]] lw unfolding l by auto
  have n': "length (left m M') \<le> param_count m M" using arg_cong [OF lw, of length] param_count_queue [OF assms(3)] by simp
  have sid: "service_id (messages M' m) = service_id (messages N m)" using k by blast
  have "first_body async f m M = Some (body_of (messages M' m) ws, M')" by (simp add: first_body_def n(1) w(1))
  from that [OF this conjunct1 [OF k] lw c e _ n'] sid n(8) show thesis by simp
qed

text \<open>
  C4. A message whose parameters are held in memory, none of them sent yet, goes out whole: its packets hold all the pieces of its parameters, in order and each
  once; no packet takes more than 768 octets, every packet after the first has a piece, and asking
  for packets ends after at most as many as there are pieces.
\<close>

theorem message_packets:
  assumes "pooled (param_factory M)" and "distinct (tlvs (messages M m))"
    and "\<forall>r \<in> set (tlvs (messages M m)). unstarted (sparam r M)"
  shows "\<exists>b M' bs. first_body async f m M = Some (b, M') \<and> packets_after (param_count m M + 1) m (s, M') = Some bs \<and>
    concat (map body_params (b # bs)) = concat (map (\<lambda>r. pieces (sparam r M)) (tlvs (messages M m))) \<and>
    (\<forall>x \<in> set (b # bs). cost (body_params x) \<le> 768) \<and> (\<forall>x \<in> set bs. body_params x \<noteq> []) \<and> length bs \<le> param_count m M"
proof -
  obtain ws M' where k: "first_body async f m M = Some (body_of (messages M' m) ws, M')" "sending m M'"
    "queue (store_of M) (tlvs (messages M m)) = ws @ left m M'" "cost ws \<le> 768" "length (left m M') \<le> param_count m M"
    by (rule first_body_sends [OF assms])
  then have "length (left m M') < param_count m M + 1" by simp
  from packets_after_sending [OF k(2) this] obtain bs where b: "packets_after (param_count m M + 1) m (s, M') = Some bs"
    "concat (map body_params bs) = left m M'" "\<forall>b \<in> set bs. body_params b \<noteq> [] \<and> cost (body_params b) \<le> 768" by blast
  have "length bs \<le> length (concat (map body_params bs))"
    using b(3) by (induction bs) (auto simp: Suc_le_eq length_greater_0_conv [symmetric] simp del: length_greater_0_conv)
  then have "length bs \<le> param_count m M" using b(2) k(5) by simp
  moreover have "concat (map body_params (body_of (messages M' m) ws # bs)) = concat (map (\<lambda>r. pieces (sparam r M)) (tlvs (messages M m)))"
    using k(3) b(2) by (simp add: queue_def)
  ultimately show ?thesis using b(1,3) k(1,4) by (intro exI [of _ "body_of (messages M' m) ws"] exI [of _ M'] exI [of _ bs]) simp
qed

definition chunks :: "octets \<Rightarrow> octets list" where
  "chunks d = (if length d \<le> 256 then [d] else cut d)"

lemma set_data_unstarted:
  assumes "length (sp_data p) = 256" and "length d < 2 ^ 31"
  shows "unstarted (set_data d (word_of_nat (length d)) p)"
    "pieces (set_data d (word_of_nat (length d)) p) = tag (set_data d (word_of_nat (length d)) p) (chunks d)"
proof -
  let ?q = "set_data d (word_of_nat (length d)) p"
  have n: "unat (word_of_nat (length d) :: u32) = length d" using assms(2) by (simp add: unsigned_of_nat take_bit_nat_eq_self)
  then have l: "word_of_nat (length d) > (256 :: u32) \<longleftrightarrow> length d > 256" by (simp add: word_less_nat_alt)
  have c: "int (length d div 256) + (if length d mod 256 > 0 then 1 else 0) = int ((length d + 255) div 256)"
  proof -
    define a b where "a = length d div 256" and "b = length d mod 256"
    have "length d = a * 256 + b" "b < 256" by (simp_all add: a_def b_def)
    moreover have "(a * 256 + b + 255) div 256 = a + (b + 255) div 256" by (simp only: add.assoc div_mult_self3)
    moreover have "(b + 255) div 256 = (if 0 < b then 1 else 0)" using \<open>b < 256\<close> by auto
    ultimately show ?thesis by (simp add: a_def [symmetric] b_def [symmetric])
  qed
  show "unstarted ?q" using assms n c
    by (simp add: unstarted_def in_memory_def set_data_def l fragment_def put_data_def word_le_nat_alt word_less_nat_alt)
  show "pieces ?q = tag ?q (chunks d)"
    by (simp add: pieces_def chunks_def set_data_def l n fragment_def unsent_def put_data_def)
qed

text \<open>A message with a long and a short parameter.\<close>

definition long_data :: octets where "long_data = replicate 600 7"

definition sample_sender :: manager where
  "sample_sender = (let M = new_manager (\<lambda>_. 8) 8 (\<lambda>_. None) None None 2 4;
       M = upd_sparam (SPT_OCTETS, 0) (set_data long_data (word_of_nat (length long_data))) M;
       M = upd_sparam (SPT_UINT32, 0) (set_data [0, 0, 0, 5] (word_of_nat (length [0, 0, 0, 5 :: u8]))) M
     in upd_msg 0 (\<lambda>x. x\<lparr>tlvs := [(SPT_OCTETS, 0), (SPT_UINT32, 0)]\<rparr>) M)"

lemma sample_sender_ok:
  "pooled (param_factory sample_sender)" "tlvs (messages sample_sender 0) = [(SPT_OCTETS, 0), (SPT_UINT32, 0)]"
  "sparam (SPT_OCTETS, 0) sample_sender = set_data long_data (word_of_nat (length long_data)) (new_service_param SPT_OCTETS)"
  "sparam (SPT_UINT32, 0) sample_sender = set_data [0, 0, 0, 5] (word_of_nat (length [0, 0, 0, 5 :: u8])) (new_service_param SPT_UINT32)"
  by (simp_all add: sample_sender_def new_manager_def new_factory_def Let_def)

theorem message_packets_witness:
  "\<exists>b M' bs. first_body True None 0 sample_sender = Some (b, M') \<and> length bs \<le> 4 \<and>
    packets_after (param_count 0 sample_sender + 1) 0 (new_gdt_stream, M') = Some bs \<and>
    concat (map (the \<circ> w_data) (concat (map body_params (b # bs)))) = long_data @ [0, 0, 0, 5]"
proof -
  let ?L = "sparam (SPT_OCTETS, 0) sample_sender" and ?S = "sparam (SPT_UINT32, 0) sample_sender"
  have l: "length (sp_data (new_service_param t)) = 256" for t by (simp add: new_service_param_def)
  have L: "unstarted ?L" "pieces ?L = tag ?L (chunks long_data)" and S: "unstarted ?S" "pieces ?S = tag ?S (chunks [0, 0, 0, 5])"
    unfolding sample_sender_ok(3,4) by (rule set_data_unstarted, rule l, simp add: long_data_def)+
  have t: "map (the \<circ> w_data) (tag p ds) = ds" for p ds by (induction ds) auto
  have c: "length (chunks long_data) = 3" "concat (chunks long_data) = long_data"
    by (simp_all add: chunks_def length_cut long_data_def)
  have s: "chunks [0, 0, 0, 5] = [[0, 0, 0, 5]]" by (simp add: chunks_def)
  have u: "\<forall>r \<in> set (tlvs (messages sample_sender 0)). unstarted (sparam r sample_sender)"
    using L(1) S(1) by (simp add: sample_sender_ok(2))
  have n: "param_count 0 sample_sender = 4"
    unfolding param_count_queue [OF u] using L(2) S(2) c(1) by (simp add: sample_sender_ok(2) s)
  have "distinct (tlvs (messages sample_sender 0))" by (simp add: sample_sender_ok(2))
  from message_packets [OF sample_sender_ok(1) this u, of True None new_gdt_stream] obtain b M' bs
    where b: "first_body True None 0 sample_sender = Some (b, M')" "packets_after (param_count 0 sample_sender + 1) 0 (new_gdt_stream, M') = Some bs"
      "concat (map body_params (b # bs)) = concat (map (\<lambda>r. pieces (sparam r sample_sender)) (tlvs (messages sample_sender 0)))"
      "length bs \<le> 4" using n by auto
  have "concat (map (the \<circ> w_data) (concat (map body_params (b # bs)))) = long_data @ [0, 0, 0, 5]"
    unfolding b(3) using L(2) S(2) c(2) by (simp add: sample_sender_ok(2) t s)
  then show ?thesis using b(1,2,4) by blast
qed

end
