(* ===== verification/ParamFragments.thy ===== *)
theory ParamFragments
  imports ParamMap
begin

text \<open>
  A parameter that arrives in fragments: the entries of the fragments behind the rest of the map,
  and the one entry \<open>defragment\<close> makes of them.
\<close>

section \<open>Fragments in the map\<close>

text \<open>The entries under the fragments of one parameter.\<close>

definition octets_value :: "octets \<Rightarrow> variant_param" where
  "octets_value d = variant_param.make 1024 (U_str d) DPT_OCTETS (length d)"

lemma octets_value_fields [simp]:
  "max_size (octets_value d) = 1024" "data (octets_value d) = U_str d" "type (octets_value d) = DPT_OCTETS"
  "data_size (octets_value d) = length d"
  by (simp_all add: octets_value_def variant_param.make_def)

fun fragment_entries :: "u32 \<Rightarrow> u32 \<Rightarrow> nat \<Rightarrow> octets list \<Rightarrow> u32 entries" where
  "fragment_entries i ix j [] = []"
| "fragment_entries i ix j (d # ds) = (PT i ix (word_of_nat j) 0, octets_value d) # fragment_entries i ix (Suc j) ds"

lemma fragment_entries_snoc:
  "fragment_entries i ix j (ds @ [d]) = fragment_entries i ix j ds @ [(PT i ix (word_of_nat (j + length ds)) 0, octets_value d)]"
  by (induction ds arbitrary: j) simp_all

lemma fragment_entries_keys:
  "(k, v) \<in> set (fragment_entries i ix j ds) \<Longrightarrow> \<exists>l. j \<le> l \<and> l < j + length ds \<and> k = PT i ix (word_of_nat l) 0"
proof (induction ds arbitrary: j)
  case Nil
  then show ?case by simp
next
  case (Cons d ds)
  then consider "k = PT i ix (word_of_nat j) 0" | "(k, v) \<in> set (fragment_entries i ix (Suc j) ds)" by auto
  then show ?case
  proof cases
    case 1
    then show ?thesis by (intro exI [of _ j]) simp
  next
    case 2
    from Cons.IH [OF this] obtain l where "Suc j \<le> l" "l < Suc j + length ds" "k = PT i ix (word_of_nat l) 0" by blast
    then show ?thesis by (intro exI [of _ l]) simp
  qed
qed

lemma payload_octets [simp]: "payload (octets_value d) = d"
  by (simp add: payload_def)

lemma fragments_entries: "fragments (PT i ix 0 0) (fragment_entries i ix j ds)"
  by (induction ds arbitrary: j) (simp_all add: fragments_def same_param_def)

lemma payloads_entries: "concat (map (\<lambda>e. payload (snd e)) (fragment_entries i ix j ds)) = concat ds"
  by (induction ds arbitrary: j) simp_all

text \<open>A map in which everything comes before the parameter that is put together.\<close>

definition before :: "u32 vpmap \<Rightarrow> u32 param_tuple \<Rightarrow> bool" where
  "before vm k \<longleftrightarrow> vpmap_ok vm \<and> vp_max vm = 1024 \<and> (\<forall>e \<in> set (params vm). pt_less (fst e) k)"

definition adding :: "u32 vpmap \<Rightarrow> u32 entries \<Rightarrow> u32 vpmap" where
  "adding vm es = vm\<lparr>params := params vm @ es\<rparr>"

lemma adding_simps [simp]: "adding vm [] = vm" "adding (adding vm es) es' = adding vm (es @ es')" "vp_max (adding vm es) = vp_max vm"
  "params (adding vm es) = params vm @ es"
  by (simp_all add: adding_def)

lemma unat_word: "n < 2 ^ 31 \<Longrightarrow> unat (word_of_nat n :: u32) = n"
  by (simp add: unsigned_of_nat take_bit_nat_eq_self)

lemma word_of_nat_less: "a < b \<Longrightarrow> b < 2 ^ 31 \<Longrightarrow> word_of_nat a < (word_of_nat b :: u32)"
  using unat_word [of a] unat_word [of b] by (simp only: word_less_nat_alt)

lemma om_insert_end: "\<forall>x \<in> set pre. pt_less (fst x) k \<Longrightarrow> om_insert pt_less k v pre = pre @ [(k, v)]"
  using om_insert_between [of pre k "[]" v] by simp

lemma om_insert_last: "\<forall>x \<in> set pre. pt_less (fst x) k \<Longrightarrow> om_insert pt_less k v (pre @ [(k, w)]) = pre @ [(k, v)]"
proof (induction pre)
  case Nil
  then show ?case by (simp add: pt_order.irrefl)
next
  case (Cons p pre)
  then show ?case using pt_order.asym [of "fst p" k] by (cases p) auto
qed

lemma set_octets_end:
  assumes "\<forall>x \<in> set (params vm). pt_less (fst x) k" and "vp_max vm = 1024" and "length d \<le> 1024" and "take n s = d" and "n = length d"
  shows "set_octets k s n vm = adding vm [(k, octets_value d)]"
proof -
  have "pt_find k vm = None" using assms(1) pt_order.irrefl by (intro find_absent) fastforce
  then show ?thesis using assms
    by (simp add: set_octets_def vp_insert_def om_insert_end v_set_octets_def new_variant_def octets_value_def variant_param.make_def adding_def Let_def)
qed

lemma before_fragments:
  assumes "before vm (PT i ix 0 0)" and "length ds < 2 ^ 31"
  shows "\<forall>x \<in> set (params vm @ fragment_entries i ix 0 ds). pt_less (fst x) (PT i ix (word_of_nat (length ds)) 0)"
proof
  fix x assume x: "x \<in> set (params vm @ fragment_entries i ix 0 ds)"
  show "pt_less (fst x) (PT i ix (word_of_nat (length ds)) 0)"
  proof (cases "x \<in> set (params vm)")
    case True
    then have "pt_less (fst x) (PT i ix 0 0)" using assms(1) by (auto simp: before_def)
    then show ?thesis by (auto simp: pt_less_def split: if_splits)
  next
    case False
    then obtain l where "l < length ds" "fst x = PT i ix (word_of_nat l) 0"
      using x fragment_entries_keys [of "fst x" "snd x" i ix 0 ds] by auto
    moreover from this have "word_of_nat l < (word_of_nat (length ds) :: u32)" using assms(2) by (intro word_of_nat_less) auto
    ultimately show ?thesis by (simp add: pt_less_def)
  qed
qed

lemma adding_ok:
  assumes "vpmap_ok vm" and "\<forall>x \<in> set (params vm). pt_less (fst x) k" and "variant_ok v" and "max_size v = vp_max vm"
  shows "vpmap_ok (adding vm [(k, v)])"
  using assms insert_ok [of vm v k] by (simp add: om_insert_end adding_def)

lemma fragments_ok:
  assumes "before vm (PT i ix 0 0)" and "length ds < 2 ^ 31" and "\<forall>d \<in> set ds. length d \<le> 1024"
  shows "vpmap_ok (adding vm (fragment_entries i ix 0 ds))"
  using assms(2,3)
proof (induction ds rule: rev_induct)
  case Nil
  then show ?case using assms(1) by (simp add: before_def)
next
  case (snoc d ds)
  have "\<forall>x \<in> set (params (adding vm (fragment_entries i ix 0 ds))). pt_less (fst x) (PT i ix (word_of_nat (length ds)) 0)"
    using before_fragments [OF assms(1), of ds] snoc.prems(1) by simp
  moreover have "variant_ok (octets_value d)" "max_size (octets_value d) = 1024"
    using snoc.prems(2) by (simp_all add: variant_ok_def)
  moreover have "vpmap_ok (adding vm (fragment_entries i ix 0 ds))" using snoc by auto
  ultimately have "vpmap_ok (adding (adding vm (fragment_entries i ix 0 ds)) [(PT i ix (word_of_nat (length ds)) 0, octets_value d)])"
    using assms(1) by (intro adding_ok) (simp_all add: before_def)
  then show ?case by (simp add: fragment_entries_snoc)
qed

lemma join_entries:
  assumes "before vm (PT i ix 0 0)" and "ds \<noteq> []" and "length (concat ds) < 1024" and "length ds < 2 ^ 31"
  shows "defragment i ix 0 (adding vm (fragment_entries i ix 0 ds)) = Some (Some (PT i ix 0 0), adding vm [(PT i ix 0 0, octets_value (concat ds))])"
    "vp_insert (PT i ix 0 0) DPT_OCTETS (v_set_type t) (adding vm [(PT i ix 0 0, octets_value (concat ds))])
       = adding vm [(PT i ix 0 0, (octets_value (concat ds))\<lparr>type := t\<rparr>)]"
proof -
  let ?k = "PT i ix 0 0" and ?es = "fragment_entries i ix 0 ds"
  have len: "\<forall>d \<in> set ds. length d \<le> 1024"
  proof
    fix d assume "d \<in> set ds"
    then have "length d \<le> length (concat ds)" by (auto simp: in_set_conv_decomp)
    then show "length d \<le> 1024" using assms(3) by simp
  qed
  have ok: "vpmap_ok (adding vm ?es)" by (rule fragments_ok [OF assms(1,4) len])
  obtain d ds' where ds: "ds = d # ds'" using assms(2) by (cases ds) auto
  have mx: "vp_max vm = 1024" using assms(1) by (simp add: before_def)
  have "length (concat (map (\<lambda>e. payload (snd e)) ?es)) < vp_max (adding vm ?es)"
    using assms(3) mx by (simp add: payloads_entries)
  from defragment_concat [OF ok, of "params vm" ?es "[]" i ix 0, OF _ _ _ fragments_entries _ this] ds
  have "defragment i ix 0 (adding vm ?es) = Some (Some ?k, (adding vm ?es)\<lparr>params := params vm @ (?k, octets_value (concat ds)) # []\<rparr>)"
    by (simp add: payloads_entries variant_param.make_def mx del: fragment_entries.simps) (simp add: octets_value_def variant_param.make_def)
  then show d: "defragment i ix 0 (adding vm ?es) = Some (Some ?k, adding vm [(?k, octets_value (concat ds))])"
    by (simp add: adding_def)
  let ?m = "adding vm [(?k, octets_value (concat ds))]"
  have b: "\<forall>x \<in> set (params vm). pt_less (fst x) ?k" using assms(1) by (simp add: before_def)
  have "pt_find ?k vm = None" using b pt_order.irrefl by (intro find_absent) fastforce
  then have f: "pt_find ?k ?m = Some (octets_value (concat ds))"
    by (simp add: pt_order.find_map_of map_add_def)
  have "om_insert pt_less ?k v (params vm @ [(?k, w)]) = params vm @ [(?k, v)]" for v w
    by (rule om_insert_last [OF b])
  then show "vp_insert ?k DPT_OCTETS (v_set_type t) ?m = adding vm [(?k, (octets_value (concat ds))\<lparr>type := t\<rparr>)]"
    using f by (simp add: vp_insert_def v_set_type_def adding_def)
qed

end
