(* ===== verification/ServiceJoin.thy ===== *)
theory ServiceJoin
  imports ServiceReceive ServiceCut ParamFragments
begin

text \<open>
  What \<open>ServiceReceive\<close> makes of the pieces that \<open>ServiceCut\<close> shows to be in the packets: every typed
  parameter of the sender's map appears in the receiver's, however its pieces are spread over packets.
\<close>

section \<open>Numbers\<close>

lemma push_take: "push_bit m (take_bit 8 (drop_bit m x)) OR take_bit m x = take_bit (m + 8) (x :: u64)"
  by (rule bit_eqI) (auto simp: bit_simps)

lemma fold_octets:
  "foldl (\<lambda>v b. push_bit 8 v OR ucast b) a (map (\<lambda>i. ucast (drop_bit (8 * i) x) :: u8) (rev [0..<n])) =
   push_bit (8 * n) a OR take_bit (8 * n) (x :: u64)"
proof (induction n arbitrary: a)
  case 0
  then show ?case by simp
next
  case (Suc n)
  have c: "ucast (ucast (drop_bit (8 * n) x) :: u8) = take_bit 8 (drop_bit (8 * n) x)"
    by (rule bit_eqI) (auto simp: bit_simps)
  have "push_bit (8 * n) (push_bit 8 a OR take_bit 8 (drop_bit (8 * n) x)) OR take_bit (8 * n) x
      = push_bit (8 * Suc n) a OR (push_bit (8 * n) (take_bit 8 (drop_bit (8 * n) x)) OR take_bit (8 * n) x)"
    by (simp add: or.assoc push_bit_or ac_simps)
  then show ?case by (simp add: Suc c push_take) (simp add: ac_simps)
qed

lemma be64_inverse: "be64_value (be64 x) = x"
proof -
  have "[7, 6, 5, 4, 3, 2, 1, 0] = rev [0..<8 :: nat]" by (simp add: upt_rec)
  then have "be64_value (be64 x) = push_bit 64 0 OR take_bit 64 x"
    using fold_octets [of 0 x 8] by (simp add: be64_value_def be64_def)
  then show ?thesis by (simp add: take_bit_word_eq_self)
qed

lemma id_inverse: "sum_octets (be_octets 4 i) = i"
proof -
  have "unat i < 2 ^ (8 * 4)" using unsigned_less [of i] by simp
  then show ?thesis by (simp add: sum_be)
qed

lemma index_inverse: "unat (ix :: u32) < 256 \<Longrightarrow> ucast (ucast ix :: u8) = ix"
proof -
  assume "unat ix < 256"
  then have "unat (take_bit 8 ix) = unat ix" by (simp add: unsigned_take_bit_eq take_bit_nat_eq_self)
  then have "take_bit 8 ix = ix" by (rule unsigned_word_eqI)
  moreover have "ucast (ucast ix :: u8) = take_bit 8 ix" by (rule bit_eqI) (auto simp: bit_simps)
  ultimately show ?thesis by simp
qed

lemma variant_code_octet: "uint (word_of_int (variant_code t) :: u8) = variant_code t" "(word_of_int (variant_code t) :: u8) > 0"
  by (cases t; simp)+

lemma variant_type_code [simp]: "variant_type (variant_code t) = Some t"
  by (cases t) simp_all

declare variant_type.simps [simp del]

section \<open>The receiver between two pieces\<close>

text \<open>The pool of typed parameters: what is free, and what every object of it is.\<close>

definition typed_pool :: "nat list \<Rightarrow> factory \<Rightarrow> bool" where
  "typed_pool fr F \<longleftrightarrow> pooled F \<and> constructed_invar (sp_pools F SPT_VARIANT) \<and> constructed_free (sp_pools F SPT_VARIANT) = fr \<and>
     distinct fr \<and> (\<forall>i. sp_type (sp_store F (SPT_VARIANT, i)) = SPT_VARIANT \<and> length (sp_data (sp_store F (SPT_VARIANT, i))) = 256)"

abbreviation pool_size :: "factory \<Rightarrow> nat" where "pool_size F \<equiv> chunk_count (sp_pools F SPT_VARIANT)"

lemma typed_room: "typed_pool fr F \<Longrightarrow> length fr \<le> pool_size F"
  by (auto simp: typed_pool_def constructed_invar_def constructed_free_def)

lemma typed_take:
  assumes "typed_pool (xs @ [i]) F"
  shows "\<exists>F'. new_param SPT_VARIANT F = (Some (SPT_VARIANT, i), F') \<and> typed_pool xs F' \<and> sp_store F' = sp_store F \<and> pool_size F' = pool_size F"
proof -
  have "constructed_invar (sp_pools F SPT_VARIANT)" "constructed_free (sp_pools F SPT_VARIANT) = xs @ [i]"
    using assms by (simp_all add: typed_pool_def)
  from constructed_pool.alloc_takes [OF this] obtain p' where "allocate_constructed (sp_pools F SPT_VARIANT) = (Some i, p')"
    "constructed_invar p'" "constructed_free p' = xs" "chunk_count p' = chunk_count (sp_pools F SPT_VARIANT)" by blast
  then show ?thesis using assms by (simp add: new_param_def typed_pool_def)
qed

lemma typed_give:
  assumes "typed_pool fr F" and "length fr < pool_size F" and "i \<notin> set fr"
  shows "\<exists>F'. free_param (Some (SPT_VARIANT, i)) F = (0, F') \<and> typed_pool (fr @ [i]) F' \<and> sp_store F' = sp_store F \<and> pool_size F' = pool_size F"
proof -
  have "constructed_invar (sp_pools F SPT_VARIANT)" "length (constructed_free (sp_pools F SPT_VARIANT)) < pool_size F"
    using assms by (simp_all add: typed_pool_def)
  from constructed_pool.dealloc_adds [OF this] obtain p' where "deallocate_constructed (Some i) (sp_pools F SPT_VARIANT) = (0, p')"
    "constructed_invar p'" "constructed_free p' = constructed_free (sp_pools F SPT_VARIANT) @ [i]"
    "chunk_count p' = chunk_count (sp_pools F SPT_VARIANT)" by blast
  then show ?thesis using assms by (simp add: free_param_def typed_pool_def)
qed

lemma typed_store:
  "typed_pool fr F \<Longrightarrow> (\<And>p. sp_type (f p) = sp_type p) \<Longrightarrow> (\<And>p. length (sp_data p) = 256 \<Longrightarrow> length (sp_data (f p)) = 256) \<Longrightarrow>
   typed_pool fr (upd_param r f F)"
  by (auto simp: typed_pool_def)

text \<open>A message without callbacks of its own, that is kept when it is complete, so far without a loss.\<close>

definition kept :: "service_message \<Rightarrow> bool" where
  "kept x \<longleftrightarrow> smsg_callbacks x = no_callbacks \<and> \<not> missing_params x \<and> \<not> auto_free x"

definition resting :: "nat \<Rightarrow> u32 vpmap \<Rightarrow> nat list \<Rightarrow> manager \<Rightarrow> bool" where
  "resting m vm fr M \<longleftrightarrow> typed_pool fr (param_factory M) \<and> smsg_vpmap (messages M m) = vm \<and> frag_param (messages M m) = None \<and>
     kept (messages M m)"

definition joining :: "nat \<Rightarrow> u32 vpmap \<Rightarrow> nat list \<Rightarrow> nat \<Rightarrow> nat \<Rightarrow> manager \<Rightarrow> bool" where
  "joining m vm fr f j M \<longleftrightarrow> typed_pool fr (param_factory M) \<and> smsg_vpmap (messages M m) = vm \<and>
     frag_param (messages M m) = Some (SPT_VARIANT, f) \<and> f \<notin> set fr \<and> length fr < pool_size (param_factory M) \<and>
     fragment_index (sparam (SPT_VARIANT, f) M) = int j \<and> sp_callbacks (sparam (SPT_VARIANT, f) M) = no_callbacks \<and>
     kept (messages M m)"

section \<open>One piece\<close>

text \<open>A piece of a typed parameter, as the sender writes it and as the receiver's object holds it.\<close>

definition carries :: "service_param \<Rightarrow> u32 \<Rightarrow> u32 \<Rightarrow> VariantParamType \<Rightarrow> bool" where
  "carries p i ix t \<longleftrightarrow> sp_id p = i \<and> sp_index p = ix \<and> unat ix < 256 \<and> extra_type p = variant_code t"

abbreviation got :: "u32 \<Rightarrow> u32 \<Rightarrow> VariantParamType \<Rightarrow> octets \<Rightarrow> service_param \<Rightarrow> service_param" where
  "got i ix t d \<equiv> filled i d (ucast ix) (word_of_int (variant_code t))"

lemma got_fields:
  assumes "length d \<le> 256" and "unat ix < 256"
  shows "sp_type (got i ix t d p) = sp_type p" "length (sp_data p) = 256 \<Longrightarrow> length (sp_data (got i ix t d p)) = 256"
    "sp_id (got i ix t d p) = i" "sp_index (got i ix t d p) = ix" "extra_type (got i ix t d p) = variant_code t"
    "unat (sp_size (got i ix t d p)) = length d" "take (length d) (sp_data (got i ix t d p)) = d"
    "fragment_index (got i ix t d p) = fragment_index p"
proof -
  have n: "unat (word_of_nat (length d) :: u32) = length d" using assms(1) by (intro unat_word) simp
  then have l: "\<not> word_of_nat (length d) > (256 :: u32)" using assms(1) by (simp add: word_less_nat_alt)
  show "sp_type (got i ix t d p) = sp_type p" "length (sp_data p) = 256 \<Longrightarrow> length (sp_data (got i ix t d p)) = 256"
    "sp_id (got i ix t d p) = i" "sp_index (got i ix t d p) = ix" "extra_type (got i ix t d p) = variant_code t"
    "unat (sp_size (got i ix t d p)) = length d" "take (length d) (sp_data (got i ix t d p)) = d"
    "fragment_index (got i ix t d p) = fragment_index p"
    using assms(1) by (simp_all add: filled_def set_data_def l n reset_data_p_def put_data_def variant_code_octet index_inverse [OF assms(2)])
qed

text \<open>Without callbacks the methods of the user are not run.\<close>

lemma quiet_events [simp]:
  "smsg_callbacks (messages M m) = no_callbacks \<Longrightarrow> message_event run ty m r (s, M) = (s, M)"
  "sp_callbacks (sparam f M) = no_callbacks \<Longrightarrow> fragment_event run ty m f r (s, M) = (s, M)"
  by (simp_all add: message_event_def fragment_event_def process_callback_def no_callbacks_def)

lemma receive_typed:
  assumes "carries p i ix t" and "new_param SPT_VARIANT (param_factory M) = (Some r, F)"
  shows "receive_param run m (wire_of p d b) (s, M) =
    (let M = upd_sparam r (got i ix t d) (M\<lparr>param_factory := F\<rparr>)
     in if b then (let M = upd_sparam r (\<lambda>p. p\<lparr>fragmented := True\<rparr>) M
                   in Some (case frag_param (messages M m) of None \<Rightarrow> first_fragment run m r (s, M)
                       | Some f \<Rightarrow> more_fragment run m f r (s, M)))
        else (case frag_param (messages M m) of Some f \<Rightarrow> last_fragment run m f r (s, M) | None \<Rightarrow> short_param run m i r (s, M)))"
proof -
  have "w_data (wire_of p d b) = Some d" "w_type (wire_of p d b) = Some [word_of_int (variant_code t)]"
    "w_index (wire_of p d b) = Some [ucast ix]" "w_id (wire_of p d b) = be_octets 4 i" "w_frag (wire_of p d b) = Some [1] \<longleftrightarrow> b"
    using assms(1) by (simp_all add: wire_of_def carries_def)
  then show ?thesis unfolding receive_param_def
    by (simp add: assms(2) variant_code_octet id_inverse Let_def del: be_octets.simps)
qed

lemma add_fragment:
  assumes "carries p i ix t" and "length d \<le> 256" and "before vm (PT i ix 0 0)" and "length ds < 2 ^ 31"
    and "q = got i ix t d q0 \<or> q = (got i ix t d q0)\<lparr>fragmented := True\<rparr>" and "j = int (length ds)"
  shows "store_fragment q j (adding vm (fragment_entries i ix 0 ds)) = adding vm (fragment_entries i ix 0 (ds @ [d]))"
proof -
  have ix: "unat ix < 256" using assms(1) by (simp add: carries_def)
  note g = got_fields [OF assms(2) ix, where i = i and t = t and p = q0]
  have "sp_id q = i" "sp_index q = ix" "unat (sp_size q) = length d" "take (length d) (sp_data q) = d" using assms(5) g by auto
  then have "store_fragment q j (adding vm (fragment_entries i ix 0 ds))
      = set_octets (PT i ix (word_of_nat (length ds)) 0) (sp_data q) (length d) (adding vm (fragment_entries i ix 0 ds))"
    by (simp add: store_fragment_def assms(6))
  also have "\<dots> = adding (adding vm (fragment_entries i ix 0 ds)) [(PT i ix (word_of_nat (length ds)) 0, octets_value d)]"
  proof (rule set_octets_end)
    show "vp_max (adding vm (fragment_entries i ix 0 ds)) = 1024" using assms(3) by (simp add: before_def)
    show "take (length d) (sp_data q) = d" by fact
  qed (use before_fragments [OF assms(3,4)] assms(2) in simp_all)
  finally show ?thesis by (simp add: fragment_entries_snoc)
qed

lemma receive_first:
  assumes "resting m vm (xs @ [f]) M" and "carries p i ix t" and "length d \<le> 256" and "before vm (PT i ix 0 0)"
  shows "\<exists>M'. receive_param run m (wire_of p d True) (s, M) = Some (s, M') \<and>
    joining m (adding vm (fragment_entries i ix 0 [d])) xs f 0 M'"
proof -
  have r: "typed_pool (xs @ [f]) (param_factory M)" "smsg_vpmap (messages M m) = vm" "frag_param (messages M m) = None"
    "smsg_callbacks (messages M m) = no_callbacks" "kept (messages M m)"
    using assms(1) by (simp_all add: resting_def kept_def)
  from typed_take [OF r(1)] obtain F where F: "new_param SPT_VARIANT (param_factory M) = (Some (SPT_VARIANT, f), F)"
    "typed_pool xs F" "sp_store F = sp_store (param_factory M)" "pool_size F = pool_size (param_factory M)" by blast
  let ?q = "(got i ix t d (sp_store F (SPT_VARIANT, f)))\<lparr>fragmented := True, fragment_index := 0, sp_callbacks := no_callbacks\<rparr>"
  have ix: "unat ix < 256" using assms(2) by (simp add: carries_def)
  note g = got_fields [OF assms(3) ix, where i = i and t = t]
  have ty: "sp_type (sp_store F (SPT_VARIANT, f)) = SPT_VARIANT" using F(2) by (simp add: typed_pool_def)
  have sf: "store_fragment ?q 0 vm = adding vm (fragment_entries i ix 0 [d])"
    using add_fragment [OF assms(2-4), of "[]" "(got i ix t d (sp_store F (SPT_VARIANT, f)))\<lparr>fragmented := True\<rparr>" "sp_store F (SPT_VARIANT, f)" 0]
    by (simp add: store_fragment_def)
  let ?F = "upd_param (SPT_VARIANT, f) (\<lambda>_. ?q) F"
  let ?M = "(M\<lparr>param_factory := ?F\<rparr>)\<lparr>messages := (messages M)(m := (messages M m)\<lparr>frag_param := Some (SPT_VARIANT, f),
     smsg_vpmap := adding vm (fragment_entries i ix 0 [d])\<rparr>)\<rparr>"
  have "receive_param run m (wire_of p d True) (s, M) = Some (s, ?M)"
    unfolding receive_typed [OF assms(2) F(1)]
    by (simp add: r(2-4) first_fragment_def set_frag_param_def variant_fragment_def g(1) ty sf Let_def comp_def)
  moreover have "typed_pool xs ?F" using F(2) g(1,2) ty by (simp add: typed_pool_def)
  moreover have "f \<notin> set xs" "length xs < pool_size F" using r(1) typed_room [OF r(1)] F(4) by (auto simp: typed_pool_def)
  ultimately show ?thesis using r(5) by (intro exI [of _ ?M]) (simp add: joining_def kept_def)
qed

lemma receive_more:
  assumes "joining m (adding vm (fragment_entries i ix 0 ds)) (xs @ [r]) f j M" and "carries p i ix t" and "length d \<le> 256"
    and "before vm (PT i ix 0 0)" and "length ds < 2 ^ 31" and "length ds = Suc j"
  shows "\<exists>M'. receive_param run m (wire_of p d True) (s, M) = Some (s, M') \<and>
    joining m (adding vm (fragment_entries i ix 0 (ds @ [d]))) (xs @ [r]) f (Suc j) M'"
proof -
  have a: "typed_pool (xs @ [r]) (param_factory M)" "smsg_vpmap (messages M m) = adding vm (fragment_entries i ix 0 ds)"
    "frag_param (messages M m) = Some (SPT_VARIANT, f)" "f \<notin> set (xs @ [r])" "length (xs @ [r]) < pool_size (param_factory M)"
    "fragment_index (sparam (SPT_VARIANT, f) M) = int j" "sp_callbacks (sparam (SPT_VARIANT, f) M) = no_callbacks"
    "kept (messages M m)"
    using assms(1) by (simp_all add: joining_def)
  from typed_take [OF a(1)] obtain F where F: "new_param SPT_VARIANT (param_factory M) = (Some (SPT_VARIANT, r), F)"
    "typed_pool xs F" "sp_store F = sp_store (param_factory M)" "pool_size F = pool_size (param_factory M)" by blast
  let ?q = "(got i ix t d (sp_store F (SPT_VARIANT, r)))\<lparr>fragmented := True\<rparr>"
  have ix: "unat ix < 256" using assms(2) by (simp add: carries_def)
  note g = got_fields [OF assms(3) ix, where i = i and t = t]
  have ty: "sp_type (sp_store F (SPT_VARIANT, r)) = SPT_VARIANT" using F(2) by (simp add: typed_pool_def)
  have rf: "r \<noteq> f" using a(4) by auto
  let ?F = "upd_param (SPT_VARIANT, f) (inc_total_data_size (sp_size ?q)) (upd_param (SPT_VARIANT, r) (\<lambda>_. ?q) F)"
  have tp: "typed_pool xs ?F" using F(2) g(1,2) ty by (auto simp: typed_pool_def inc_total_data_size_def)
  have "r \<notin> set xs" "length xs < pool_size ?F" using a(1,5) F(4) by (auto simp: typed_pool_def)
  from typed_give [OF tp this(2,1)] obtain G where G: "free_param (Some (SPT_VARIANT, r)) ?F = (0, G)" "typed_pool (xs @ [r]) G"
    "sp_store G = sp_store ?F" "pool_size G = pool_size ?F" by blast
  have fi: "fragment_index (sp_store ?F (SPT_VARIANT, f)) = int (Suc j)" "sp_callbacks (sp_store ?F (SPT_VARIANT, f)) = no_callbacks"
    using rf a(6,7) F(3) by (simp_all add: inc_total_data_size_def)
  have j: "int (Suc j) = int (length ds)" using assms(6) by simp
  have sf: "store_fragment ?q (int (Suc j)) (adding vm (fragment_entries i ix 0 ds)) = adding vm (fragment_entries i ix 0 (ds @ [d]))"
    by (rule add_fragment [OF assms(2,3,4,5) _ j]) blast
  let ?M = "(M\<lparr>param_factory := G\<rparr>)\<lparr>messages := (messages M)(m := (messages M m)\<lparr>
     smsg_vpmap := adding vm (fragment_entries i ix 0 (ds @ [d]))\<rparr>)\<rparr>"
  have "receive_param run m (wire_of p d True) (s, M) = Some (s, ?M)"
    unfolding receive_typed [OF assms(2) F(1)]
    using G(1) fi sf rf by (simp add: a(2,3) more_fragment_def variant_fragment_def g(1) ty Let_def comp_def)
  moreover have "fragment_index (sp_store G (SPT_VARIANT, f)) = int (Suc j)" "sp_callbacks (sp_store G (SPT_VARIANT, f)) = no_callbacks"
    using fi G(3) by simp_all
  ultimately show ?thesis using G(2,4) F(4) a(3-5,8) by (intro exI [of _ ?M]) (simp add: joining_def kept_def)
qed

lemma receive_last:
  assumes "joining m (adding vm (fragment_entries i ix 0 ds)) (xs @ [r]) f j M" and "carries p i ix t" and "length d \<le> 256"
    and "before vm (PT i ix 0 0)" and "length (ds @ [d]) < 2 ^ 31" and "length ds = Suc j" and "length (concat (ds @ [d])) < 1024"
  shows "\<exists>M'. receive_param run m (wire_of p d False) (s, M) = Some (s, M') \<and>
    resting m (adding vm [(PT i ix 0 0, (octets_value (concat (ds @ [d])))\<lparr>type := t\<rparr>)]) (xs @ [r, f]) M'"
proof -
  have a: "typed_pool (xs @ [r]) (param_factory M)" "smsg_vpmap (messages M m) = adding vm (fragment_entries i ix 0 ds)"
    "frag_param (messages M m) = Some (SPT_VARIANT, f)" "f \<notin> set (xs @ [r])" "length (xs @ [r]) < pool_size (param_factory M)"
    "fragment_index (sparam (SPT_VARIANT, f) M) = int j" "sp_callbacks (sparam (SPT_VARIANT, f) M) = no_callbacks"
    "kept (messages M m)"
    using assms(1) by (simp_all add: joining_def)
  from typed_take [OF a(1)] obtain F where F: "new_param SPT_VARIANT (param_factory M) = (Some (SPT_VARIANT, r), F)"
    "typed_pool xs F" "sp_store F = sp_store (param_factory M)" "pool_size F = pool_size (param_factory M)" by blast
  let ?q = "(got i ix t d (sp_store F (SPT_VARIANT, r)))\<lparr>fragmented := True\<rparr>"
  have ix: "unat ix < 256" using assms(2) by (simp add: carries_def)
  note g = got_fields [OF assms(3) ix, where i = i and t = t]
  have ty: "sp_type (sp_store F (SPT_VARIANT, r)) = SPT_VARIANT" using F(2) by (simp add: typed_pool_def)
  have rf: "r \<noteq> f" using a(4) by auto
  let ?F = "upd_param (SPT_VARIANT, f) (inc_total_data_size (sp_size ?q)) (upd_param (SPT_VARIANT, r) (\<lambda>_. ?q) F)"
  have tp: "typed_pool xs ?F" using F(2) g(1,2) ty by (auto simp: typed_pool_def inc_total_data_size_def)
  have n: "r \<notin> set xs" "length xs < pool_size ?F" using a(1,5) F(4) by (auto simp: typed_pool_def)
  from typed_give [OF tp n(2,1)] obtain G where G: "free_param (Some (SPT_VARIANT, r)) ?F = (0, G)" "typed_pool (xs @ [r]) G"
    "sp_store G = sp_store ?F" "pool_size G = pool_size ?F" by blast
  have "length (xs @ [r]) < pool_size G" "f \<notin> set (xs @ [r])" using a(4,5) F(4) G(4) by auto
  from typed_give [OF G(2) this] obtain H where H: "free_param (Some (SPT_VARIANT, f)) G = (0, H)" "typed_pool (xs @ [r, f]) H"
    by auto
  have fi: "fragment_index (sp_store ?F (SPT_VARIANT, f)) = int (Suc j)" "sp_callbacks (sp_store ?F (SPT_VARIANT, f)) = no_callbacks"
    using rf a(6,7) F(3) by (simp_all add: inc_total_data_size_def)
  have j: "int (Suc j) = int (length ds)" "length ds < 2 ^ 31" using assms(5,6) by simp_all
  have sf: "store_fragment ?q (int (Suc j)) (adding vm (fragment_entries i ix 0 ds)) = adding vm (fragment_entries i ix 0 (ds @ [d]))"
    by (rule add_fragment [OF assms(2,3,4) j(2) _ j(1)]) blast
  have "ds @ [d] \<noteq> []" by simp
  note je = join_entries [OF assms(4) this assms(7,5)]
  have jf: "join_fragments ?q (adding vm (fragment_entries i ix 0 (ds @ [d])))
      = Some (adding vm [(PT i ix 0 0, (octets_value (concat (ds @ [d])))\<lparr>type := t\<rparr>)])"
    unfolding join_fragments_def using je g(3-5) by simp
  let ?M = "(M\<lparr>param_factory := H\<rparr>)\<lparr>messages := (messages M)(m := (messages M m)\<lparr>
     smsg_vpmap := adding vm [(PT i ix 0 0, (octets_value (concat (ds @ [d])))\<lparr>type := t\<rparr>)], frag_param := None\<rparr>)\<rparr>"
  have "receive_param run m (wire_of p d False) (s, M) = Some (s, ?M)"
    unfolding receive_typed [OF assms(2) F(1)]
    using G(1) H(1) fi sf rf jf
    by (simp add: a(2,3) last_fragment_def variant_fragment_def g(1) ty Let_def comp_def set_frag_param_def
        del: concat_append concat.simps)
  then show ?thesis using H(2) a(8) by (intro exI [of _ ?M]) (simp add: resting_def kept_def)
qed

lemma receive_short:
  assumes "resting m vm (xs @ [r]) M" and "carries p i ix t" and "length d \<le> 256"
    and sv: "\<And>q. sp_id q = i \<Longrightarrow> sp_index q = ix \<Longrightarrow> extra_type q = variant_code t \<Longrightarrow> sp_type q = SPT_VARIANT \<Longrightarrow>
        unat (sp_size q) = length d \<Longrightarrow> take (length d) (sp_data q) = d \<Longrightarrow> store_variant q vm = Some vm'"
  shows "\<exists>M'. receive_param run m (wire_of p d False) (s, M) = Some (s, M') \<and> resting m vm' xs M'"
proof -
  have a: "typed_pool (xs @ [r]) (param_factory M)" "smsg_vpmap (messages M m) = vm" "frag_param (messages M m) = None"
    "smsg_callbacks (messages M m) = no_callbacks" "kept (messages M m)"
    using assms(1) by (simp_all add: resting_def kept_def)
  from typed_take [OF a(1)] obtain F where F: "new_param SPT_VARIANT (param_factory M) = (Some (SPT_VARIANT, r), F)"
    "typed_pool xs F" "sp_store F = sp_store (param_factory M)" by blast
  let ?q = "(got i ix t d (sp_store F (SPT_VARIANT, r)))\<lparr>fragmented := False, sp_id := i, sp_index := ix\<rparr>"
  have ix: "unat ix < 256" using assms(2) by (simp add: carries_def)
  note g = got_fields [OF assms(3) ix, where i = i and t = t]
  have ty: "sp_type (sp_store F (SPT_VARIANT, r)) = SPT_VARIANT" using F(2) by (simp add: typed_pool_def)
  have sv': "store_variant ?q vm = Some vm'" by (rule sv) (use g ty in simp_all)
  let ?F = "upd_param (SPT_VARIANT, r) (\<lambda>_. ?q) F"
  let ?M = "(M\<lparr>param_factory := ?F\<rparr>)\<lparr>messages := (messages M)(m := (messages M m)\<lparr>tlvs := tlvs (messages M m) @ [(SPT_VARIANT, r)],
     smsg_vpmap := vm'\<rparr>)\<rparr>"
  have "receive_param run m (wire_of p d False) (s, M) = Some (s, ?M)"
    unfolding receive_typed [OF assms(2) F(1)]
    using sv' by (simp add: a(2-4) short_param_def add_param_def g(1,4) ty Let_def comp_def)
  moreover have "typed_pool xs ?F" using F(2) g(1,2) ty by (auto simp: typed_pool_def)
  ultimately show ?thesis using a(3,5) by (intro exI [of _ ?M]) (simp add: resting_def kept_def)
qed

section \<open>One parameter\<close>

lemma receive_rest:
  assumes "joining m (adding vm (fragment_entries i ix 0 ds)) (xs @ [r]) f j M" and "carries p i ix t"
    and "before vm (PT i ix 0 0)" and "length ds = Suc j" and "cs \<noteq> []" and "\<forall>c \<in> set cs. length c \<le> 256"
    and "length (concat (ds @ cs)) < 1024" and "length (ds @ cs) < 2 ^ 31"
  shows "\<exists>M'. receive_params run m (tag p cs) (s, M) = Some (s, M') \<and>
    resting m (adding vm [(PT i ix 0 0, (octets_value (concat (ds @ cs)))\<lparr>type := t\<rparr>)]) (xs @ [r, f]) M'"
  using assms
proof (induction cs arbitrary: ds j M)
  case Nil
  then show ?case by simp
next
  case (Cons c cs)
  have c: "length c \<le> 256" using Cons.prems(6) by simp
  show ?case
  proof (cases "cs = []")
    case True
    from receive_last [OF Cons.prems(1,2) c Cons.prems(3) _ Cons.prems(4), of run s] Cons.prems(7,8) True
    show ?thesis by auto
  next
    case False
    have "length ds < 2 ^ 31" using Cons.prems(8) by simp
    from receive_more [OF Cons.prems(1,2) c Cons.prems(3) this Cons.prems(4), of run s] obtain M1 where
      M1: "receive_param run m (wire_of p c True) (s, M) = Some (s, M1)"
      "joining m (adding vm (fragment_entries i ix 0 (ds @ [c]))) (xs @ [r]) f (Suc j) M1" by blast
    from Cons.IH [OF M1(2) Cons.prems(2,3) _ False] Cons.prems(4,6-8) obtain M' where
      "receive_params run m (tag p cs) (s, M1) = Some (s, M')"
      "resting m (adding vm [(PT i ix 0 0, (octets_value (concat ((ds @ [c]) @ cs)))\<lparr>type := t\<rparr>)]) (xs @ [r, f]) M'" by auto
    then show ?thesis using M1(1) False by (intro exI [of _ M']) simp
  qed
qed

text \<open>
  What a service message carries over unchanged: the parameters of context and fragment 0 and of an index
  below 256, that are integers, strings, Booleans or octets, set and shorter than the 1024 octets
  of a map's buffer. Others are sent as well, but do not arrive as they were: a double or a character
  becomes octets, and an index is cut to its lowest octet.
\<close>

definition portable :: "u32 param_tuple \<times> variant_param \<Rightarrow> bool" where
  "portable e \<longleftrightarrow> (case e of (k, v) \<Rightarrow> pt_fragment k = 0 \<and> pt_context k = 0 \<and> unat (pt_index k) < 256 \<and>
     type v \<in> {DPT_INT, DPT_STRING, DPT_BOOL, DPT_OCTETS} \<and> defined v \<and> entry_ok 1024 v \<and> data_size v < 1024)"

lemma portable_octets:
  assumes "portable (k, v)"
  shows "\<exists>d. variant_octets v = Some d \<and> length d = data_size v \<and>
    (256 < length d \<longrightarrow> v = (octets_value d)\<lparr>type := type v\<rparr>)"
  using assms
  by (cases "data v") (auto simp: portable_def defined_def entry_ok_def variant_ok_def variant_octets_def be64_def octets_value_def
      variant_param.make_def)

text \<open>A parameter that arrives in one piece is set as a copy of the map would set it.\<close>

lemma store_variant_sets:
  assumes "portable (k, v)" and "variant_octets v = Some d" and "length d \<le> 256"
    and q: "sp_id q = pt_key k" "sp_index q = pt_index k" "extra_type q = variant_code (type v)" "sp_type q = SPT_VARIANT"
      "unat (sp_size q) = length d" "take (length d) (sp_data q) = d"
  shows "store_variant q vm = set_from v k vm"
proof -
  have k: "PT (pt_key k) (pt_index k) 0 0 = k" using assms(1) by (cases k) (simp add: portable_def)
  have v: "defined v" "variant_ok v" using assms(1) by (simp_all add: portable_def entry_ok_def)
  have e: "type v \<noteq> DPT_INT \<Longrightarrow> extract_param q = d" using q by (cases "type v") (simp_all add: extract_param_def)
  have "type v \<in> {DPT_INT, DPT_STRING, DPT_BOOL, DPT_OCTETS}" using assms(1) by (simp add: portable_def)
  then consider "type v = DPT_INT" | "type v = DPT_STRING" | "type v = DPT_BOOL" | "type v = DPT_OCTETS" by auto
  then show ?thesis
  proof cases
    case 1
    then obtain x where x: "data v = U_i64 x" "d = be64 x" using v assms(2)
      by (cases "data v") (auto simp: variant_ok_def variant_octets_def defined_def)
    have "length (be64 x) = 8" by (simp add: be64_def)
    then have "extract_param q = rev (be64 x)" using q 1 x by (simp add: extract_param_def)
    then show ?thesis using 1 x q k by (simp add: store_variant_def set_from_def be64_inverse)
  next
    case 2
    then obtain str where x: "data v = U_str str" "d = str" "str \<noteq> []" "last str = 0" using v assms(2)
      by (cases "data v") (auto simp: variant_ok_def variant_octets_def defined_def)
    then have "0 \<in> set d" using last_in_set [of str] by simp
    then show ?thesis using 2 x q k e by (simp add: store_variant_def set_from_def)
  next
    case 3
    then obtain b where "data v = U_b b" "d = [if b then 1 else 0]" using v assms(2)
      by (cases "data v") (auto simp: variant_ok_def variant_octets_def defined_def)
    then show ?thesis using 3 q k e by (simp add: store_variant_def set_from_def)
  next
    case 4
    then obtain str where "data v = U_str str" "d = str" "length str = data_size v" using v assms(2)
      by (cases "data v") (auto simp: variant_ok_def variant_octets_def defined_def)
    then show ?thesis using 4 q k e by (simp add: store_variant_def set_from_def)
  qed
qed

lemma length_cut_piece: "c \<in> set (cut d) \<Longrightarrow> length c \<le> 256"
proof (induction d rule: cut.induct)
  case (1 d)
  then show ?case using cut.simps [of d] by (cases "d = []") (auto split: if_splits)
qed

lemma receive_entry:
  assumes "resting m vm fr M" and "2 \<le> length fr" and "portable (k, v)" and "before vm k"
    and "variant_octets v = Some d" and "carries p (pt_key k) (pt_index k) (type v)"
  shows "\<exists>M' fr'. receive_params run m (tag p (chunks d)) (s, M) = Some (s, M') \<and>
    resting m (adding vm [(k, v)]) fr' M' \<and> length fr \<le> length fr' + 1"
proof -
  obtain xs r f where fr: "fr = xs @ [r, f]"
  proof -
    obtain ys f where "fr = ys @ [f]" using assms(2) by (cases fr rule: rev_cases) auto
    moreover from this obtain xs r where "ys = xs @ [r]" using assms(2) by (cases ys rule: rev_cases) auto
    ultimately show thesis using that by simp
  qed
  have k: "PT (pt_key k) (pt_index k) 0 0 = k" using assms(3) by (cases k) (simp add: portable_def)
  obtain d' where "variant_octets v = Some d'" "length d' = data_size v" "256 < length d' \<longrightarrow> v = (octets_value d')\<lparr>type := type v\<rparr>"
    using portable_octets [OF assms(3)] by blast
  with assms(5) have d: "length d = data_size v" "256 < length d \<longrightarrow> v = (octets_value d)\<lparr>type := type v\<rparr>" by auto
  have size: "length d < 1024" using d(1) assms(3) by (simp add: portable_def)
  show ?thesis
  proof (cases "length d \<le> 256")
    case True
    have r': "resting m vm ((xs @ [r]) @ [f]) M" using assms(1) fr by simp
    have "set_from v k vm = Some (adding vm [(k, v)])"
    proof -
      have "set_from v k vm = Some (vm\<lparr>vpmap.params := vpmap.params vm @ (k, v\<lparr>variant_param.max_size := vp_max vm\<rparr>) # []\<rparr>)"
        by (rule set_from_fresh) (use assms(3,4) in \<open>auto simp: before_def portable_def entry_ok_def\<close>)
      moreover have "v\<lparr>variant_param.max_size := vp_max vm\<rparr> = v" using assms(3,4) by (simp add: before_def portable_def entry_ok_def)
      ultimately show ?thesis by (simp add: adding_def)
    qed
    with store_variant_sets [OF assms(3,5) True] have sv: "\<And>q. sp_id q = pt_key k \<Longrightarrow> sp_index q = pt_index k \<Longrightarrow>
        extra_type q = variant_code (type v) \<Longrightarrow> sp_type q = SPT_VARIANT \<Longrightarrow> unat (sp_size q) = length d \<Longrightarrow>
        take (length d) (sp_data q) = d \<Longrightarrow> store_variant q vm = Some (adding vm [(k, v)])" by simp
    from receive_short [OF r' assms(6) True sv, of run s] obtain M' where
      "receive_param run m (wire_of p d False) (s, M) = Some (s, M')" "resting m (adding vm [(k, v)]) (xs @ [r]) M'" by blast
    then show ?thesis using True fr by (intro exI [of _ M'] exI [of _ "xs @ [r]"]) (simp add: chunks_def)
  next
    case False
    then have ne: "d \<noteq> []" by auto
    obtain c cs where c: "chunks d = c # cs" "cut d = c # cs" using False ne by (cases "cut d") (auto simp: chunks_def)
    have cc: "concat (c # cs) = d" using concat_cut [of d] c(2) by simp
    have le: "\<forall>x \<in> set (c # cs). length x \<le> 256" using length_cut_piece [of _ d] c(2) by simp
    have "cs \<noteq> []" using cc le False by auto
    have n: "length (c # cs) < 2 ^ 31" using length_cut [of d] c(2) size by simp
    have r': "resting m vm ((xs @ [r]) @ [f]) M" using assms(1) fr by simp
    have b: "before vm (PT (pt_key k) (pt_index k) 0 0)" using assms(4) k by simp
    have "length c \<le> 256" using le by simp
    from receive_first [OF r' assms(6) this b, of run s] obtain M1 where
      M1: "receive_param run m (wire_of p c True) (s, M) = Some (s, M1)"
      "joining m (adding vm (fragment_entries (pt_key k) (pt_index k) 0 [c])) (xs @ [r]) f 0 M1" by blast
    from receive_rest [OF M1(2) assms(6) b _ \<open>cs \<noteq> []\<close>, of run s] le n cc size obtain M' where
      M': "receive_params run m (tag p cs) (s, M1) = Some (s, M')"
      "resting m (adding vm [(PT (pt_key k) (pt_index k) 0 0, (octets_value d)\<lparr>type := type v\<rparr>)]) (xs @ [r, f]) M'" by auto
    then have "resting m (adding vm [(k, v)]) fr M'" using k d(2) False fr by simp
    then show ?thesis using M1(1) M'(1) c \<open>cs \<noteq> []\<close> by (intro exI [of _ M'] exI [of _ fr]) simp
  qed
qed

end
