(* ===== verification/ServiceTalk.thy ===== *)
theory ServiceTalk
  imports ServiceJoin
begin

text \<open>
  A service message from the map of its sender to the map of its receiver: the service parameters are
  made from the map, sent in packets on a stream, and taken into the map of a new message at the other
  end.
\<close>

section \<open>From the map to the parameters\<close>

definition piece_data :: "service_param \<Rightarrow> octets list" where
  "piece_data p = (if fragmented p then cut (unsent p) else [take (unat (sp_size p)) (sp_data p)])"

lemma pieces_tag: "pieces p = tag p (piece_data p)"
  by (simp add: pieces_def piece_data_def)

lemma tag_data: "map (the \<circ> w_data) (tag p ds) = ds"
  by (induction ds) simp_all

lemma set_data_pieces:
  assumes "length (sp_data p) = 256" and "length d < 2 ^ 31"
    and q: "q = (set_data d (word_of_nat (length d)) p)\<lparr>extra_type := x, sp_id := i, sp_index := ix\<rparr>"
  shows "unstarted q" "pieces q = tag q (chunks d)"
proof -
  let ?p = "set_data d (word_of_nat (length d)) p"
  have f: "fragmented q = fragmented ?p" "unsent q = unsent ?p" "sp_size q = sp_size ?p" "sp_data q = sp_data ?p" "from_file q = from_file ?p"
    "data_p q = data_p ?p" "total_data_size q = total_data_size ?p" "in_data q = in_data ?p" "fragment_count q = fragment_count ?p"
    "fragment_index q = fragment_index ?p"
    by (simp_all add: q unsent_def)
  note s = set_data_unstarted [OF assms(1,2)]
  show "unstarted q" using s(1) unfolding unstarted_def in_memory_def f .
  have "piece_data ?p = chunks d"
    using arg_cong [OF s(2), of "map (the \<circ> w_data)"] by (simp only: pieces_tag tag_data)
  then show "pieces q = tag q (chunks d)" unfolding pieces_tag piece_data_def f by simp
qed

text \<open>A service parameter that stands for an entry of the map.\<close>

definition stands :: "service_param \<Rightarrow> u32 param_tuple \<times> variant_param \<Rightarrow> bool" where
  "stands p e \<longleftrightarrow> unstarted p \<and> carries p (pt_key (fst e)) (pt_index (fst e)) (type (snd e)) \<and>
     (\<exists>d. variant_octets (snd e) = Some d \<and> pieces p = tag p (chunks d))"

lemma set_variant_stands:
  assumes "portable (k, v)" and "length (sp_data p) = 256" and "set_variant v p = Some q"
  shows "stands (q\<lparr>sp_id := pt_key k, sp_index := pt_index k\<rparr>) (k, v)" "sp_type q = sp_type p" "length (sp_data q) = 256"
proof -
  obtain d where d: "variant_octets v = Some d" "length d = data_size v" using portable_octets [OF assms(1)] by blast
  have t: "type v \<noteq> DPT_POINTER" "data_size v < 1024" "unat (pt_index k) < 256" using assms(1) by (auto simp: portable_def)
  then have q: "q = (set_data d (word_of_nat (length d)) p)\<lparr>extra_type := variant_code (type v)\<rparr>"
    using assms(3) d by (simp add: set_variant_def)
  have n: "length d < 2 ^ 31" using d t by simp
  note s = set_data_pieces [OF assms(2) n, where q = "q\<lparr>sp_id := pt_key k, sp_index := pt_index k\<rparr>" and x = "variant_code (type v)" and i = "pt_key k"
      and ix = "pt_index k"]
  have "q\<lparr>sp_id := pt_key k, sp_index := pt_index k\<rparr> = (set_data d (word_of_nat (length d)) p)
      \<lparr>extra_type := variant_code (type v), sp_id := pt_key k, sp_index := pt_index k\<rparr>" by (simp add: q)
  note s = s [OF this]
  show "stands (q\<lparr>sp_id := pt_key k, sp_index := pt_index k\<rparr>) (k, v)"
    using s d(1) t(3) by (auto simp: stands_def carries_def q)
  have "unat (word_of_nat (length d) :: u32) = length d" using n by (rule unat_word)
  then show "sp_type q = sp_type p" "length (sp_data q) = 256" using assms(2)
    by (auto simp: q set_data_def fragment_def put_data_def word_less_nat_alt)
qed

lemma set_variant_some: "portable (k, v) \<Longrightarrow> \<exists>q. set_variant v p = Some q"
  using portable_octets [of k v] by (auto simp: set_variant_def portable_def)

lemma sync_stands:
  assumes "typed_pool fr (param_factory M)" and "length es \<le> length fr" and "\<forall>e \<in> set es. portable e"
  shows "\<exists>M' ks. sync_loop m es M = Some (False, M') \<and> tlvs (messages M' m) = tlvs (messages M m) @ map (Pair SPT_VARIANT) ks \<and>
    distinct ks \<and> set ks \<subseteq> set fr \<and> pooled (param_factory M') \<and>
    service_id (messages M' m) = service_id (messages M m) \<and>
    (\<forall>i. i \<notin> set fr \<longrightarrow> sparam (SPT_VARIANT, i) M' = sparam (SPT_VARIANT, i) M) \<and>
    list_all2 (\<lambda>i e. stands (sparam (SPT_VARIANT, i) M') e) ks es"
  using assms
proof (induction es arbitrary: M fr)
  case Nil
  then show ?case by (intro exI [of _ M] exI [of _ "[]"]) (simp add: typed_pool_def)
next
  case (Cons e es)
  obtain k v where e: "e = (k, v)" by (cases e)
  obtain xs i where fr: "fr = xs @ [i]" using Cons.prems(2) by (cases fr rule: rev_cases) auto
  from typed_take [of xs i "param_factory M"] Cons.prems(1) fr obtain F where
    F: "new_param SPT_VARIANT (param_factory M) = (Some (SPT_VARIANT, i), F)" "typed_pool xs F" "sp_store F = sp_store (param_factory M)"
    by blast
  have port: "portable (k, v)" using Cons.prems(3) e by simp
  have p: "type v \<noteq> DPT_POINTER" "pt_context k = 0" using port by (auto simp: portable_def)
  let ?p = "sp_store F (SPT_VARIANT, i)"
  have len: "length (sp_data ?p) = 256" using F(2) by (simp add: typed_pool_def)
  obtain q where q: "set_variant v ?p = Some q" using set_variant_some [OF port] by blast
  note st = set_variant_stands [OF port len q]
  let ?M = "add_param m (pt_key k) (SPT_VARIANT, i) (pt_index k) (M\<lparr>param_factory := upd_param (SPT_VARIANT, i) (\<lambda>_. q) F\<rparr>)"
  have ty: "sp_type q = SPT_VARIANT" using st(2) F(2) by (simp add: typed_pool_def)
  have tp: "typed_pool xs (param_factory ?M)" using F(2) st(3) ty by (simp add: add_param_def typed_pool_def)
  have "length es \<le> length xs" "\<forall>e \<in> set es. portable e" using Cons.prems(2,3) fr by simp_all
  from Cons.IH [OF tp this] obtain M' js where IH: "sync_loop m es ?M = Some (False, M')"
    "tlvs (messages M' m) = tlvs (messages ?M m) @ map (Pair SPT_VARIANT) js" "distinct js" "set js \<subseteq> set xs" "pooled (param_factory M')"
    "service_id (messages M' m) = service_id (messages ?M m)"
    "\<forall>i. i \<notin> set xs \<longrightarrow> sparam (SPT_VARIANT, i) M' = sparam (SPT_VARIANT, i) ?M"
    "list_all2 (\<lambda>i e. stands (sparam (SPT_VARIANT, i) M') e) js es"
    by (elim exE conjE)
  have i: "i \<notin> set xs" using Cons.prems(1) fr by (simp add: typed_pool_def)
  then have "sparam (SPT_VARIANT, i) M' = q\<lparr>sp_id := pt_key k, sp_index := pt_index k\<rparr>" using IH(7) by (simp add: add_param_def)
  then have "stands (sparam (SPT_VARIANT, i) M') e" using st(1) e by simp
  moreover have "sync_loop m (e # es) M = Some (False, M')"
    using IH(1) q p F(1) by (simp add: e)
  moreover have "tlvs (messages M' m) = tlvs (messages M m) @ map (Pair SPT_VARIANT) (i # js)" using IH(2) by (simp add: add_param_def)
  moreover have "\<forall>x. x \<notin> set fr \<longrightarrow> sparam (SPT_VARIANT, x) M' = sparam (SPT_VARIANT, x) M"
    using IH(7) F(3) fr by (auto simp: add_param_def)
  moreover have "service_id (messages M' m) = service_id (messages M m)" using IH(6) by (simp add: add_param_def)
  ultimately show ?case using IH(3-5,8) i fr by (intro exI [of _ M'] exI [of _ "i # js"]) auto
qed

section \<open>The two ends of a stream\<close>

text \<open>
  The stream protocol between the two users (theories \<open>GdtMachine\<close>, \<open>GdtTalk\<close>): before a method runs
  for a packet that continues a stream its flag ks unknown; a method that does not continue the
  stream makes the answer its end. Every packet of the sender ks answered, and the answer asks for
  the next one, while the receiver continues the stream; \<open>n\<close> bounds the packets after the first.
\<close>

definition awaiting :: "gdt_stream \<Rightarrow> gdt_stream" where "awaiting s = s\<lparr>sequence_flag := GDT_SF_UNKNOWN\<rparr>"

fun deliver :: "svc_run \<Rightarrow> nat \<Rightarrow> nat \<Rightarrow> nat \<Rightarrow> svc_state \<Rightarrow> svc_state \<Rightarrow> (svc_state \<times> svc_state) option" where
  "deliver run 0 m k S T = None"
| "deliver run (Suc n) m k (s, M) (t, N) =
     (if sequence_flag t \<noteq> GDT_SF_CONTINUE then None
      else Option.bind (next_run m (awaiting s, M)) (\<lambda>(body, s, M).
        if sequence_flag s = GDT_SF_CONTINUE
        then Option.bind (next_handler run body (awaiting t, N)) (deliver run n m k (s, M))
        else map_option (Pair (s, M)) (done_handler run k (Some (body, None)) (end_sequence t, N))))"

definition exchange :: "svc_run \<Rightarrow> bool \<Rightarrow> nat option \<Rightarrow> nat \<Rightarrow> nat \<Rightarrow> nat \<Rightarrow> svc_state \<Rightarrow> svc_state \<Rightarrow> (svc_state \<times> svc_state) option" where
  "exchange run async f n m k = (\<lambda>(s, M) (t, N).
     Option.bind (vpmap_sparam_sync m None M) (\<lambda>(err, M). if err then None
       else Option.bind (first_body async f m M) (\<lambda>(b, M).
         Option.bind (new_handler run k new_args (Some b) (t, N)) (deliver run n m k (s, M)))))"

section \<open>What the methods see\<close>

text \<open>
  While neither the message nor its first fragment has callbacks, taking in a parameter leaves the
  stream and the service id alone.
\<close>

definition calm :: "nat \<Rightarrow> manager \<Rightarrow> bool" where
  "calm m M \<longleftrightarrow> smsg_callbacks (messages M m) = no_callbacks \<and>
     (\<forall>f. frag_param (messages M m) = Some f \<longrightarrow> sp_callbacks (sparam f M) = no_callbacks)"

definition unmoved :: "nat \<Rightarrow> (svc_state \<Rightarrow> svc_state option) \<Rightarrow> manager \<Rightarrow> bool" where
  "unmoved m f M \<longleftrightarrow> (\<forall>s s' M'. f (s, M) = Some (s', M') \<longrightarrow> s' = s \<and> calm m M' \<and>
     service_id (messages M' m) = service_id (messages M m) \<and> (\<forall>s2. f (s2, M) = Some (s2, M')))"

lemma free_param_store: "sp_store (snd (free_param r F)) = sp_store F"
  by (auto simp: free_param_def split: option.splits prod.splits)

lemma new_param_frame:
  "new_param t F = (o', F') \<Longrightarrow> sp_callbacks (sp_store F' r) = sp_callbacks (sp_store F r) \<or> sp_callbacks (sp_store F' r) = no_callbacks"
  by (auto simp: new_param_def new_service_param_def Let_def split: if_splits prod.splits)

lemma filled_callbacks [simp]: "sp_callbacks (filled i d ix ty p) = sp_callbacks p"
  by (simp add: filled_def set_data_def fragment_def reset_data_p_def)

lemma variant_fragment_frame [simp]:
  "param_factory (variant_fragment m f r M) = param_factory M" "smsg_callbacks (messages (variant_fragment m f r M) m) = smsg_callbacks (messages M m)"
  "frag_param (messages (variant_fragment m f r M) m) = frag_param (messages M m)"
  "service_id (messages (variant_fragment m f r M) m) = service_id (messages M m)"
  by (simp_all add: variant_fragment_def)

lemma first_unmoved: "calm m M \<Longrightarrow> unmoved m (\<lambda>S. Some (first_fragment run m r S)) M"
  by (simp add: unmoved_def calm_def first_fragment_def set_frag_param_def Let_def)

lemma more_unmoved:
  "calm m M \<Longrightarrow> frag_param (messages M m) = Some f \<Longrightarrow> unmoved m (\<lambda>S. Some (more_fragment run m f r S)) M"
  by (auto simp: unmoved_def calm_def more_fragment_def inc_total_data_size_def Let_def free_param_store)

lemma last_unmoved:
  assumes "calm m M" and "frag_param (messages M m) = Some f"
  shows "unmoved m (last_fragment run m f r) M"
proof -
  have c: "smsg_callbacks (messages M m) = no_callbacks" "sp_callbacks (sparam f M) = no_callbacks"
    using assms by (simp_all add: calm_def)
  then show ?thesis
    by (simp add: unmoved_def last_fragment_def calm_def inc_total_data_size_def Let_def bind_eq_Some_conv set_frag_param_def split: if_splits) auto
qed

lemma short_unmoved:
  assumes "calm m M" and "frag_param (messages M m) = None"
  shows "unmoved m (short_param run m i r) M"
proof -
  have c: "smsg_callbacks (messages M m) = no_callbacks" using assms by (simp add: calm_def)
  then show ?thesis using assms(2)
    by (simp add: unmoved_def short_param_def calm_def add_param_def Let_def bind_eq_Some_conv split: if_splits) auto
qed

lemma unmoved_other:
  "unmoved m f M' \<Longrightarrow> service_id (messages M' m) = service_id (messages M m) \<Longrightarrow> (\<And>s. g (s, M) = f (s, M')) \<Longrightarrow> unmoved m g M"
  unfolding unmoved_def by (intro allI impI) metis

lemma receive_param_unmoved:
  assumes "calm m M"
  shows "unmoved m (receive_param run m w) M"
proof (cases "w_data w")
  case None
  then show ?thesis using assms by (simp add: unmoved_def receive_param_def)
next
  case (Some d)
  show ?thesis
  proof (cases "\<exists>ty ix x y. w_type w = Some (ty # x) \<and> w_index w = Some (ix # y) \<and> \<not> length (w_id w) < 4")
    case False
    then have "receive_param run m w (s, M) = None" for s
      using Some by (auto simp: receive_param_def split: option.splits list.splits)
    then show ?thesis by (simp add: unmoved_def)
  next
    case True
    then obtain ty ix x y where t: "w_type w = Some (ty # x)" "w_index w = Some (ix # y)" "\<not> length (w_id w) < 4" by blast
    let ?i = "sum_octets (take 4 (w_id w))"
    obtain o' F where n: "new_param (if ty > 0 then SPT_VARIANT else idt_get ?i (id_types M)) (param_factory M) = (o', F)" by fastforce
    have cb: "sp_callbacks (sparam f M) = no_callbacks \<Longrightarrow> sp_callbacks (sp_store F f) = no_callbacks" for f
      using new_param_frame [OF n, of f] by auto
    show ?thesis
    proof (cases o')
      case None
      then show ?thesis using assms Some t n cb by (auto simp: unmoved_def receive_param_def calm_def Let_def)
    next
      case r: (Some r)
      let ?M = "upd_sparam r (filled ?i d ix ty) (M\<lparr>param_factory := F\<rparr>)"
      let ?N = "upd_sparam r (\<lambda>p. p\<lparr>fragmented := True\<rparr>) ?M"
      have c: "calm m ?M" "calm m ?N" using assms cb by (auto simp: calm_def)
      have e: "receive_param run m w (s, M) = (if w_frag w = Some [1]
          then Some (case frag_param (messages M m) of None \<Rightarrow> first_fragment run m r (s, ?N) | Some f \<Rightarrow> more_fragment run m f r (s, ?N))
          else (case frag_param (messages M m) of Some f \<Rightarrow> last_fragment run m f r (s, ?M) | None \<Rightarrow> short_param run m ?i r (s, ?M)))" for s
        unfolding receive_param_def using Some t n r by (simp add: Let_def comp_def split: option.split)
      show ?thesis
      proof (cases "frag_param (messages M m)")
        case None
        show ?thesis
        proof (cases "w_frag w = Some [1]")
          case True
          show ?thesis by (rule unmoved_other [OF first_unmoved [OF c(2), of run r]]) (simp_all add: e None True)
        next
          case False
          show ?thesis by (rule unmoved_other [OF short_unmoved [OF c(1), of run ?i r]]) (simp_all add: e None False)
        qed
      next
        case f: (Some f)
        show ?thesis
        proof (cases "w_frag w = Some [1]")
          case True
          show ?thesis by (rule unmoved_other [OF more_unmoved [OF c(2), of f run r]]) (simp_all add: e f True)
        next
          case False
          show ?thesis by (rule unmoved_other [OF last_unmoved [OF c(1), of f run r]]) (simp_all add: e f False)
        qed
      qed
    qed
  qed
qed

lemma receive_params_unmoved: "calm m M \<Longrightarrow> unmoved m (receive_params run m ws) M"
proof (induction ws arbitrary: M)
  case Nil
  then show ?case by (simp add: unmoved_def)
next
  case (Cons w ws)
  show ?case unfolding unmoved_def
  proof (intro allI impI)
    fix s s' M' assume "receive_params run m (w # ws) (s, M) = Some (s', M')"
    then obtain s1 M1 where 1: "receive_param run m w (s, M) = Some (s1, M1)" "receive_params run m ws (s1, M1) = Some (s', M')"
      by (auto simp: bind_eq_Some_conv)
    from receive_param_unmoved [OF Cons.prems, of run w] 1(1) have a: "s1 = s" "calm m M1"
      "service_id (messages M1 m) = service_id (messages M m)" "\<forall>s2. receive_param run m w (s2, M) = Some (s2, M1)"
      unfolding unmoved_def by blast+
    from Cons.IH [OF a(2)] 1(2) have b: "s' = s1" "calm m M'" "service_id (messages M' m) = service_id (messages M1 m)"
      "\<forall>s2. receive_params run m ws (s2, M1) = Some (s2, M')"
      unfolding unmoved_def by blast+
    show "s' = s \<and> calm m M' \<and> service_id (messages M' m) = service_id (messages M m) \<and>
        (\<forall>s2. receive_params run m (w # ws) (s2, M) = Some (s2, M'))"
      using a b by simp
  qed
qed

lemma receive_params_append: "receive_params run m (ws @ vs) S = Option.bind (receive_params run m ws S) (receive_params run m vs)"
proof (induction ws arbitrary: S)
  case (Cons w ws)
  then show ?case by (cases "receive_param run m w S") simp_all
qed simp

lemma receive_split:
  assumes "calm m N" and "receive_params run m (ws @ vs) (t, N) = Some (t', F)"
  obtains N' where "\<And>s. receive_params run m ws (s, N) = Some (s, N')" "calm m N'"
    "service_id (messages N' m) = service_id (messages N m)" "receive_params run m vs (t, N') = Some (t', F)"
proof -
  from assms(2) obtain s1 N' where "receive_params run m ws (t, N) = Some (s1, N')" "receive_params run m vs (s1, N') = Some (t', F)"
    by (auto simp: receive_params_append bind_eq_Some_conv)
  with receive_params_unmoved [OF assms(1), of run ws] show thesis using that unfolding unmoved_def by blast
qed

lemma receive_body_same:
  assumes "service_id (messages N m) = i"
  shows "receive_body run m (Some (be_octets 4 i)) ws (s, N) = receive_params run m ws (s, N)"
proof -
  have "set_service_id i (messages N m) = messages N m" using assms by (cases "messages N m") (simp add: set_service_id_def)
  then have "upd_msg m (set_service_id i) N = N" by (simp add: fun_upd_idem)
  then show ?thesis by (simp add: receive_body_def id_inverse del: be_octets.simps)
qed

section \<open>The packets after the first\<close>

lemma body_fields [simp]: "ws \<noteq> [] \<Longrightarrow> b_params (body_of s ws) = Some ws" "b_id (body_of s ws) = Some (be_octets 4 (service_id s))"
  by (simp_all add: body_of_def)

definition completed :: "nat \<Rightarrow> manager \<Rightarrow> manager" where "completed m M = upd_msg m (set_complete True) M"

lemma done_empty:
  "GdtStream.get_param SMSG_PT_SMSG t = Some m \<Longrightarrow>
   done_handler run k (Some (None, None)) (t, N) = Some (stream_complete run k m (t, completed m N))"
  by (simp add: done_handler_def completes_def completed_def)

lemma done_last:
  assumes "GdtStream.get_param SMSG_PT_SMSG t = Some m" and "ws \<noteq> []" and "service_id (messages N m) = service_id x"
    and "receive_params run m ws (t, N) = Some (t, N')"
  shows "done_handler run k (Some (Some (body_of x ws), None)) (t, N) = Some (stream_complete run k m (t, completed m N'))"
  using assms receive_body_same [OF assms(3)]
  by (simp add: done_handler_def completes_def completed_def del: be_octets.simps)

lemma deliver_rest:
  assumes "sending m M" and "length (left m M) < n" and "calm mr N" and "sequence_flag t = GDT_SF_CONTINUE"
    and "GdtStream.get_param SMSG_PT_SMSG t = Some mr" and "receive_params run mr (left m M) (t0, N) = Some (t0, F)"
    and "left m M \<noteq> [] \<longrightarrow> service_id (messages N mr) = service_id (messages M m)"
  shows "\<exists>S t'. deliver run n m k (s, M) (t, N) = Some (S, stream_complete run k mr (t', completed mr F)) \<and>
    (t' = end_sequence t \<or> t' = end_sequence (continue_sequence (awaiting t)))"
  using assms
proof (induction n arbitrary: s M t N)
  case 0
  then show ?case by simp
next
  case (Suc n)
  note st = next_run_step [OF Suc.prems(1), of "awaiting s"]
  have ends: "GdtStream.get_param SMSG_PT_SMSG (end_sequence t) = Some mr" "GdtStream.get_param SMSG_PT_SMSG (awaiting t) = Some mr"
    "GdtStream.get_param SMSG_PT_SMSG (continue_sequence (awaiting t)) = Some mr"
    using Suc.prems(5) by (simp_all add: GdtStream.get_param_def end_sequence_def awaiting_def continue_sequence_def)
  have fl: "sequence_flag (awaiting x) = GDT_SF_UNKNOWN" "sequence_flag (continue_sequence x) = GDT_SF_CONTINUE" for x
    by (simp_all add: awaiting_def continue_sequence_def)
  show ?case
  proof (cases "left m M = []")
    case True
    then have "next_run m (awaiting s, M) = Some (None, awaiting s, M)" using st by simp
    moreover have "F = N" using Suc.prems(6) True by simp
    ultimately show ?thesis using Suc.prems(4) ends fl
      by (intro exI [of _ "(awaiting s, M)"] exI [of _ "end_sequence t"]) (simp add: done_empty)
  next
    case False
    then obtain ws M' where w: "next_run m (awaiting s, M)
        = Some (Some (body_of (messages M' m) ws), if left m M' = [] then awaiting s else continue_sequence (awaiting s), M')"
      "sending m M'" "left m M = ws @ left m M'" "ws \<noteq> []" and i: "service_id (messages M' m) = service_id (messages M m)"
      using st by (simp only: if_not_P if_False) blast
    have sid: "service_id (messages N mr) = service_id (messages M' m)" using Suc.prems(7) False i by simp
    have "receive_params run mr (ws @ left m M') (t0, N) = Some (t0, F)" using Suc.prems(6) w(3) by metis
    from receive_split [OF Suc.prems(3) this] obtain N' where N': "\<And>s. receive_params run mr ws (s, N) = Some (s, N')" "calm mr N'"
      "service_id (messages N' mr) = service_id (messages N mr)" "receive_params run mr (left m M') (t0, N') = Some (t0, F)" by blast
    show ?thesis
    proof (cases "left m M' = []")
      case True
      then have "F = N'" using N'(4) by simp
      then have "done_handler run k (Some (Some (body_of (messages M' m) ws), None)) (end_sequence t, N)
          = Some (stream_complete run k mr (end_sequence t, completed mr F))"
        using done_last [OF ends(1) w(4) sid N'(1)] by simp
      then show ?thesis using w(1) True Suc.prems(4) fl
        by (intro exI [of _ "(awaiting s, M')"] exI [of _ "end_sequence t"]) simp
    next
      case nd: False
      have "length (left m M') < n" using Suc.prems(2) w(3,4) by (cases ws) auto
      moreover have "left m M' \<noteq> [] \<longrightarrow> service_id (messages N' mr) = service_id (messages M' m)" using N'(3) sid by simp
      ultimately have "\<exists>S t'. deliver run n m k (continue_sequence (awaiting s), M') (continue_sequence (awaiting t), N')
          = Some (S, stream_complete run k mr (t', completed mr F)) \<and>
          (t' = end_sequence (continue_sequence (awaiting t)) \<or>
           t' = end_sequence (continue_sequence (awaiting (continue_sequence (awaiting t)))))"
        using Suc.IH [OF w(2) _ N'(2) fl(2) ends(3) N'(4)] by blast
      then obtain S t' where d: "deliver run n m k (continue_sequence (awaiting s), M') (continue_sequence (awaiting t), N')
          = Some (S, stream_complete run k mr (t', completed mr F))"
        "t' = end_sequence (continue_sequence (awaiting t)) \<or>
         t' = end_sequence (continue_sequence (awaiting (continue_sequence (awaiting t))))" by (elim exE conjE)
      have "next_handler run (Some (body_of (messages M' m) ws)) (awaiting t, N) = Some (continue_sequence (awaiting t), N')"
        using w(4) ends N'(1) receive_body_same [OF sid] by (simp add: next_handler_def del: be_octets.simps)
      moreover have "t' = end_sequence t \<or> t' = end_sequence (continue_sequence (awaiting t))"
        using d(2) by (auto simp: end_sequence_def continue_sequence_def awaiting_def)
      ultimately show ?thesis using d(1) w(1) nd Suc.prems(4) fl by (intro exI [of _ S] exI [of _ t']) simp
    qed
  qed
qed

section \<open>All parameters\<close>

lemma receive_entries:
  assumes "resting m vm fr N" and "length es < length fr" and "om_sorted pt_less (vpmap.params vm @ es)" and "vpmap_ok vm"
    and "vp_max vm = 1024" and "\<forall>e \<in> set es. portable e" and "list_all2 stands ps es"
  shows "\<exists>N' fr'. receive_params run m (concat (map pieces ps)) (s, N) = Some (s, N') \<and> resting m (adding vm es) fr' N'"
  using assms
proof (induction es arbitrary: vm fr N ps)
  case Nil
  then show ?case by (intro exI [of _ N] exI [of _ fr]) simp
next
  case (Cons e es)
  obtain k v where e: "e = (k, v)" by (cases e)
  obtain p ps' where p: "ps = p # ps'" "stands p e" "list_all2 stands ps' es" using Cons.prems(7) by (cases ps) auto
  obtain d where d: "variant_octets v = Some d" "pieces p = tag p (chunks d)" "carries p (pt_key k) (pt_index k) (type v)"
    using p(2) by (auto simp: stands_def e)
  have port: "portable (k, v)" "\<forall>e \<in> set es. portable e" using Cons.prems(6) e by simp_all
  have less: "\<forall>x \<in> set (vpmap.params vm). pt_less (fst x) k" using Cons.prems(3) e by (auto simp: om_sorted_append)
  then have "before vm k" using Cons.prems(4,5) by (simp add: before_def)
  from receive_entry [OF Cons.prems(1) _ port(1) this d(1,3), of run s] Cons.prems(2) obtain N1 fr1 where
    1: "receive_params run m (tag p (chunks d)) (s, N) = Some (s, N1)" "resting m (adding vm [(k, v)]) fr1 N1" "length fr \<le> length fr1 + 1"
    by auto
  have ok: "vpmap_ok (adding vm [(k, v)])"
    by (rule adding_ok [OF Cons.prems(4) less]) (use port(1) Cons.prems(5) in \<open>auto simp: portable_def entry_ok_def\<close>)
  have "length es < length fr1" using Cons.prems(2) 1(3) by simp
  moreover have "om_sorted pt_less (vpmap.params (adding vm [(k, v)]) @ es)" using Cons.prems(3) by (simp add: e)
  moreover have "vp_max (adding vm [(k, v)]) = 1024" using Cons.prems(5) by simp
  ultimately obtain N' fr' where "receive_params run m (concat (map pieces ps')) (s, N1) = Some (s, N')"
    "resting m (adding (adding vm [(k, v)]) es) fr' N'" using Cons.IH [OF 1(2) _ _ ok _ port(2) p(3)] by blast
  then show ?case using 1(1) by (intro exI [of _ N'] exI [of _ fr']) (simp add: p(1) d(2) receive_params_append e)
qed

lemma chunks_four: "length d < 1024 \<Longrightarrow> length (chunks d) \<le> 4"
proof -
  assume "length d < 1024"
  then have "(length d + 255) div 256 < 5" by (simp add: div_less_iff_less_mult)
  then show ?thesis by (simp add: chunks_def length_cut)
qed

lemma pieces_four:
  "list_all2 stands ps es \<Longrightarrow> \<forall>e \<in> set es. portable e \<Longrightarrow> length (concat (map pieces ps)) \<le> 4 * length es"
proof (induction rule: list_all2_induct)
  case (Cons p ps e es)
  obtain k v where e: "e = (k, v)" by (cases e)
  then obtain d where d: "variant_octets v = Some d" "pieces p = tag p (chunks d)" using Cons(1) by (auto simp: stands_def)
  have port: "portable (k, v)" using Cons.prems e by simp
  have "length d < 1024" using portable_octets [OF port] d(1) port by (auto simp: portable_def)
  then have "length (pieces p) \<le> 4" using d(2) chunks_four by simp
  then show ?case using Cons by simp
qed simp

text \<open>The message of the receiver as its method for new messages leaves it.\<close>

definition keeps :: "svc_run \<Rightarrow> nat \<Rightarrow> nat \<Rightarrow> bool" where
  "keeps run h m \<longleftrightarrow> (\<forall>s M. run h (message_args m) (s, M) = (s, upd_msg m (auto_free_update (\<lambda>_. False)) M))"

definition opened :: "nat \<Rightarrow> manager \<Rightarrow> manager" where
  "opened m N = upd_msg m (\<lambda>x. (opened_message x)\<lparr>auto_free := False\<rparr>) N"

lemma opened_resting:
  assumes "typed_pool gr (param_factory N)"
  shows "resting m (ParamMap.clear_params (smsg_vpmap (messages N m))) gr (opened m N)" "calm m (opened m N)"
    "resting m (ParamMap.clear_params (smsg_vpmap (messages N m))) gr (upd_msg m (set_service_id i) (opened m N))"
    "calm m (upd_msg m (set_service_id i) (opened m N))" "service_id (messages (upd_msg m (set_service_id i) (opened m N)) m) = i"
  using assms
  by (simp_all add: resting_def calm_def opened_def opened_message_def set_complete_def kept_def set_service_id_def)

lemma new_handler_opens:
  assumes "new_smsg N = (Some m, N1)" and "mgr_callbacks N GDT_ET_SRVC_MSG_NEW = Some h" and "keeps run h m"
  shows "\<exists>t'. new_handler run k args (Some b) (t, N) = map_option (apfst continue_sequence)
      (case b_params b of None \<Rightarrow> Some (t', opened m N1) | Some ws \<Rightarrow> receive_body run m (b_id b) ws (t', opened m N1)) \<and>
    GdtStream.get_param SMSG_PT_SMSG t' = Some m"
proof -
  let ?t = "GdtStream.set_param SMSG_PT_SMSG (Some m) (GdtStream.clear_params (t\<lparr>stream_callbacks := new_stream_callbacks (stream_callbacks t)\<rparr>))"
  have "mgr_callbacks N1 = mgr_callbacks N" using assms(1) by (auto simp: new_smsg_def split: prod.splits)
  then have "mgr_callbacks (upd_msg m opened_message N1) GDT_ET_SRVC_MSG_NEW = Some h" using assms(2) by simp
  moreover have "upd_msg m (auto_free_update (\<lambda>_. False)) (upd_msg m opened_message N1) = opened m N1" by (simp add: opened_def)
  ultimately have "snd (process_callback run GDT_ET_SRVC_MSG_NEW (message_args m) (mgr_callbacks (upd_msg m opened_message N1))
      (?t, upd_msg m opened_message N1)) = (?t, opened m N1)"
    using assms(3) by (simp add: process_callback_def keeps_def)
  moreover have "GdtStream.get_param SMSG_PT_SMSG ?t = Some m" by (simp add: GdtStream.get_param_def GdtStream.set_param_def)
  ultimately show ?thesis using assms(1)
    by (intro exI [of _ ?t]) (simp add: new_handler_def Let_def split: option.split)
qed

text \<open>
  C3. A service message of portable parameters arrives as it was sent: if the pool of the receiver has a parameter to
  spare, the typed parameters of a message, cut into fragments and packets, become exactly the typed parameters
  of the receiver's message, which is complete and without a missing one, however many packets they
  take. Portable are integers, strings, Booleans and octets that are set, of fragment and context 0,
  of an index below 256 and of less than 1024 octets; the code sends others too, but a double or a
  character arrives as octets and a larger index loses its upper bits.
\<close>

theorem message_delivered:
  assumes "typed_pool fr (param_factory M)" and "tlvs (messages M m) = []" and "frag_param (messages M m) = None"
    and "vpmap_ok (smsg_vpmap (messages M m))" and "vpmap.params (smsg_vpmap (messages M m)) = es"
    and "\<forall>e \<in> set es. portable e" and "length es \<le> length fr"
    and "new_smsg N = (Some mr, N1)" and "typed_pool gr (param_factory N)" and "length es < length gr"
    and "vp_max (smsg_vpmap (messages N mr)) = 1024" and "mgr_callbacks N GDT_ET_SRVC_MSG_NEW = Some h" and "keeps run h mr"
    and "4 * length es < n"
  shows "\<exists>S t' N'. exchange run async f n m k (s, M) (t, N) = Some (S, (t', N')) \<and>
    vpmap.params (smsg_vpmap (messages N' mr)) = es \<and> complete (messages N' mr) \<and> \<not> missing_params (messages N' mr) \<and>
    (es \<noteq> [] \<longrightarrow> service_id (messages N' mr) = service_id (messages M m))"
proof -
  let ?M = "upd_msg m (\<lambda>x. x\<lparr>tlvs := []\<rparr>) M"
  have M0: "snd (free_smsg m True False M) = ?M" using assms(2,3) by (simp add: free_smsg_def)
  have "typed_pool fr (param_factory ?M)" using assms(1) by simp
  from sync_stands [OF this assms(7,6), of m] obtain M1 ks where sync: "sync_loop m es ?M = Some (False, M1)"
    "tlvs (messages M1 m) = map (Pair SPT_VARIANT) ks" "distinct ks" "pooled (param_factory M1)"
    "service_id (messages M1 m) = service_id (messages M m)"
    "list_all2 (\<lambda>i e. stands (sparam (SPT_VARIANT, i) M1) e) ks es" by auto
  have syn: "vpmap_sparam_sync m None M = Some (False, M1)"
    using sync(1) assms(5) unfolding vpmap_sparam_sync_def M0 by (simp add: Let_def)
  let ?rs = "tlvs (messages M1 m)"
  let ?ps = "map (store_of M1) ?rs"
  have stands: "list_all2 stands ?ps es" using sync(6) by (simp add: sync(2) list_all2_map1)
  have d: "distinct ?rs" using sync(2,3) by (simp add: distinct_map inj_on_def)
  have "unstarted p" if "p \<in> set ?ps" for p
  proof -
    from that obtain j where "j < length ?ps" "p = ?ps ! j" by (metis in_set_conv_nth)
    then show ?thesis using list_all2_nthD [OF stands, of j] by (simp add: stands_def)
  qed
  then have u: "\<forall>r \<in> set ?rs. unstarted (sparam r M1)" by simp
  obtain ws M2 where b: "first_body async f m M1 = Some (body_of (messages M2 m) ws, M2)" "sending m M2"
    "queue (store_of M1) ?rs = ws @ left m M2" "ws = [] \<longrightarrow> left m M2 = []"
    "service_id (messages M2 m) = service_id (messages M1 m)" "length (left m M2) \<le> param_count m M1"
    by (rule first_body_sends [OF sync(4) d u])
  have W: "concat (map pieces ?ps) = ws @ left m M2" using b(3) by (simp add: queue_def comp_def)
  have "param_count m M1 \<le> 4 * length es"
    unfolding param_count_queue [OF u] using pieces_four [OF stands assms(6)] b(3) W by simp
  then have fuel: "length (left m M2) < n" using b(6) assms(14) by simp
  obtain t1 where nh: "new_handler run k new_args (Some (body_of (messages M2 m) ws)) (t, N) = map_option (apfst continue_sequence)
      (case b_params (body_of (messages M2 m) ws) of None \<Rightarrow> Some (t1, opened mr N1)
       | Some vs \<Rightarrow> receive_body run mr (b_id (body_of (messages M2 m) ws)) vs (t1, opened mr N1))"
    "GdtStream.get_param SMSG_PT_SMSG t1 = Some mr"
    using new_handler_opens [OF assms(8,12,13)] by blast
  have N1: "param_factory N1 = param_factory N" "messages N1 = messages N" using assms(8) by (auto simp: new_smsg_def split: prod.splits)
  let ?i = "service_id (messages M m)"
  let ?vm = "ParamMap.clear_params (smsg_vpmap (messages N mr))"
  let ?O = "if ws = [] then opened mr N1 else upd_msg mr (set_service_id ?i) (opened mr N1)"
  have tp: "typed_pool gr (param_factory N1)" using assms(9) N1 by simp
  note o = opened_resting [OF tp, of mr, unfolded N1(2)]
  have O: "resting mr ?vm gr ?O" "calm mr ?O" using o(1-4) by auto
  have vm: "vpmap.params ?vm = []" "vp_max ?vm = 1024" "vpmap_ok ?vm"
    using assms(11) by (simp_all add: ParamMap.clear_params_def vpmap_ok_def om_sorted_def)
  have "om_sorted pt_less (vpmap.params ?vm @ es)" using assms(4,5) vm(1) by (simp add: vpmap_ok_def)
  from receive_entries [OF O(1) assms(10) this vm(3,2) assms(6) stands, of run t1]
  obtain F fr' where F: "receive_params run mr (ws @ left m M2) (t1, ?O) = Some (t1, F)" "resting mr (adding ?vm es) fr' F"
    unfolding W by blast
  from receive_split [OF O(2) F(1)] obtain N2 where N2: "\<And>s. receive_params run mr ws (s, ?O) = Some (s, N2)" "calm mr N2"
    "service_id (messages N2 mr) = service_id (messages ?O mr)" "receive_params run mr (left m M2) (t1, N2) = Some (t1, F)" by blast
  have body: "new_handler run k new_args (Some (body_of (messages M2 m) ws)) (t, N) = Some (continue_sequence t1, N2)"
  proof (cases "ws = []")
    case True
    then show ?thesis using nh(1) N2(1) [of t1] by (simp add: body_of_def)
  next
    case False
    have "receive_body run mr (Some (be_octets 4 ?i)) ws (t1, opened mr N1) = receive_params run mr ws (t1, ?O)"
      using False by (simp add: receive_body_def id_inverse del: be_octets.simps)
    then show ?thesis using nh(1) N2(1) [of t1] False b(5) sync(5) by (simp del: be_octets.simps)
  qed
  have sid: "left m M2 \<noteq> [] \<longrightarrow> service_id (messages N2 mr) = service_id (messages M2 m)"
    using N2(3) b(4,5) sync(5) o(5) [of ?i] by auto
  have "sequence_flag (continue_sequence t1) = GDT_SF_CONTINUE" "GdtStream.get_param SMSG_PT_SMSG (continue_sequence t1) = Some mr"
    using nh(2) by (simp_all add: continue_sequence_def GdtStream.get_param_def)
  from deliver_rest [OF b(2) fuel N2(2) this N2(4) sid, of k s] obtain S t' where
    del: "deliver run n m k (s, M2) (continue_sequence t1, N2) = Some (S, stream_complete run k mr (t', completed mr F))" by blast
  have kept: "kept (messages (completed mr F) mr)" "smsg_callbacks (messages (completed mr F) mr) = no_callbacks"
    using F(2) by (auto simp: resting_def kept_def completed_def set_complete_def)
  then have fin: "snd (stream_complete run k mr (t', completed mr F)) = completed mr F"
    by (simp add: stream_complete_def process_callback_def no_callbacks_def kept_def)
  have "calm mr F" "service_id (messages F mr) = service_id (messages N2 mr)"
    using receive_params_unmoved [OF N2(2), of run "left m M2"] N2(4) unfolding unmoved_def by blast+
  then have "es \<noteq> [] \<longrightarrow> service_id (messages (completed mr F) mr) = ?i"
  proof (intro impI)
    assume "es \<noteq> []"
    then obtain p ps' e es' where pe: "?ps = p # ps'" "es = e # es'" "stands p e"
      using stands by (cases es; cases ?ps) auto
    then have "pieces p \<noteq> []" using unstarted_ready by (auto simp: stands_def)
    then have "ws \<noteq> []" using W b(4) pe(1) by (cases "ws = []") auto
    then show "service_id (messages (completed mr F) mr) = ?i"
      using \<open>service_id (messages F mr) = service_id (messages N2 mr)\<close> N2(3) o(5) [of ?i] by (simp add: completed_def set_complete_def)
  qed
  moreover have "exchange run async f n m k (s, M) (t, N) = Some (S, stream_complete run k mr (t', completed mr F))"
    by (simp add: exchange_def syn b(1) body del)
  moreover have "vpmap.params (smsg_vpmap (messages (completed mr F) mr)) = es" "complete (messages (completed mr F) mr)"
    "\<not> missing_params (messages (completed mr F) mr)"
    using F(2) vm(1) by (auto simp: completed_def set_complete_def resting_def kept_def adding_def)
  ultimately show ?thesis using fin by (metis prod.collapse)
qed

text \<open>A map with a number and with data of three fragments, sent to a manager that has three parameters to spare.\<close>

definition sample_map :: "u32 vpmap" where
  "sample_map = set_octets (PT 7 0 0 0) long_data 600 (set_int (PT 5 0 0 0) 42 (new_vpmap 1024))"

definition sample_end :: "nat \<Rightarrow> manager" where
  "sample_end n = new_manager (\<lambda>_. 8) 8 (\<lambda>_. None) (Some 9) None 2 n"

definition keeping :: svc_run where
  "keeping h args S = (case S of (s, M) \<Rightarrow> (s, upd_msg 0 (auto_free_update (\<lambda>_. False)) M))"

lemma sample_map_ok:
  "vpmap_ok sample_map" "map fst (vpmap.params sample_map) = [PT 5 0 0 0, PT 7 0 0 0]" "\<forall>e \<in> set (vpmap.params sample_map). portable e"
proof -
  show ok: "vpmap_ok sample_map"
    unfolding sample_map_def by (intro setters_map_ok new_vpmap_ok) (simp_all add: long_data_def)
  show "map fst (vpmap.params sample_map) = [PT 5 0 0 0, PT 7 0 0 0]"
    by (simp add: sample_map_def set_octets_def set_int_def vp_insert_def new_vpmap_def Let_def pt_less_def)
  have "\<forall>e \<in> set (vpmap.params sample_map). entry_ok 1024 (snd e)"
    using ok by (simp add: vpmap_ok_def list_all_iff)
      (simp add: sample_map_def set_octets_def set_int_def vp_insert_def new_vpmap_def Let_def)
  then show "\<forall>e \<in> set (vpmap.params sample_map). portable e"
    by (simp add: sample_map_def set_octets_def set_int_def vp_insert_def new_vpmap_def Let_def pt_less_def)
      (simp add: portable_def v_set_int_def v_set_octets_def new_variant_def variant_param.make_def defined_def long_data_def)
qed

lemma sample_pools: "typed_pool [1, 0] (param_factory (sample_end 2))" "typed_pool [2, 1, 0] (param_factory (sample_end 3))"
  "fst (new_smsg (sample_end 3)) = Some 0"
proof -
  have p: "constructed_invar (new_kind_pool 8 2)" "constructed_free (new_kind_pool 8 2) = [1, 0]"
    "constructed_invar (new_kind_pool 8 3)" "constructed_free (new_kind_pool 8 3) = [2, 1, 0]"
    "fst (allocate_constructed (new_kind_pool 8 2)) = Some 0"
    by code_simp+
  show "typed_pool [1, 0] (param_factory (sample_end 2))" "typed_pool [2, 1, 0] (param_factory (sample_end 3))"
    using p by (simp_all add: typed_pool_def sample_end_def new_manager_def new_factory_def new_service_param_def)
  show "fst (new_smsg (sample_end 3)) = Some 0"
    using p(5) by (auto simp: new_smsg_def sample_end_def new_manager_def split: prod.split)
qed

theorem message_delivered_witness:
  "\<exists>S t' N'. exchange keeping False None 9 0 0 (new_gdt_stream, upd_msg 0 (\<lambda>x. x\<lparr>smsg_vpmap := sample_map\<rparr>) (sample_end 2))
       (new_gdt_stream, sample_end 3) = Some (S, (t', N')) \<and>
     vpmap.params (smsg_vpmap (messages N' 0)) = vpmap.params sample_map \<and> vpmap.params sample_map \<noteq> []"
proof -
  let ?M = "upd_msg 0 (\<lambda>x. x\<lparr>smsg_vpmap := sample_map\<rparr>) (sample_end 2)"
  obtain N1 where N1: "new_smsg (sample_end 3) = (Some 0, N1)" using sample_pools(3) by (metis prod.collapse)
  have l: "length (vpmap.params sample_map) = 2" using arg_cong [OF sample_map_ok(2), of length] by simp
  have m: "messages (sample_end n) i = new_service_message" for n i by (simp add: sample_end_def new_manager_def)
  have "\<exists>S t' N'. exchange keeping False None 9 0 0 (new_gdt_stream, ?M) (new_gdt_stream, sample_end 3) = Some (S, (t', N')) \<and>
      vpmap.params (smsg_vpmap (messages N' 0)) = vpmap.params sample_map \<and> complete (messages N' 0) \<and> \<not> missing_params (messages N' 0) \<and>
      (vpmap.params sample_map \<noteq> [] \<longrightarrow> service_id (messages N' 0) = service_id (messages ?M 0))"
    by (rule message_delivered [of "[1, 0]" ?M 0 "vpmap.params sample_map" "sample_end 3" 0 N1 "[2, 1, 0]" 9 keeping 9 False None 0 new_gdt_stream new_gdt_stream])
      (use sample_pools sample_map_ok N1 l in \<open>simp_all add: m new_service_message_def new_vpmap_def keeps_def keeping_def\<close>,
        simp_all add: sample_end_def new_manager_def set_callback_def)
  then show ?thesis using l by (elim exE conjE) (intro exI conjI, assumption+, auto)
qed

end
