(* ===== verification/Spec2Isabelle.thy ===== *)
theory Spec2Isabelle
  imports ConfigAnswer ConfigReplica AutoComplete ConfigText ConfigUpdate BerLink GdtPacket Pools Tables Wrr ParamMap Hashing GdtTalk GdtRegister RoutingConfig ServiceTalk
begin

text \<open>
  A verification library for mink-core, a framework for distributed daemons in C++. The daemons of a
  network talk over GDT, a message protocol with streams, routing and ASN.1 (BER) encoded messages; on
  top of it run the service messages with typed parameters and a configuration daemon whose tree is
  edited in transactions and distributed to the others. The library models the framework's own code
  under \<^verbatim>\<open>src/src\<close>: the utilities, the codec, the protocol, the service layer and the configuration.

  \<^bold>\<open>Conventions.\<close> Every theory translates the files its opening text names, one definition per operation
  under the name it has in the code, and gives its lemmas after the definitions. A struct or class is
  a record, an enumeration a datatype, a machine integer a word of its width. A read through a null pointer or
  past the end, and a loop that never ends, is the result \<^term>\<open>None\<close>; return codes and exceptions are
  values. Objects reached from several places are entries of a heap or positions in a tree. Locks are left
  out where one holder runs at a time; the lock-free queue is modelled access by access.

  \<^bold>\<open>Utilities\<close> (\<^verbatim>\<open>mink_utils\<close>, \<^verbatim>\<open>atomic.h\<close>, \<^verbatim>\<open>spscq.h\<close>, \<^verbatim>\<open>pool.h\<close>).
  \<^item> Prelude: lists, options, words and the ordered map with its locale \<open>key_order\<close>, interpreted on the orders in use.
  \<^item> Hashing: FNV-1 and FNV-1a on words; octets that differ in one place hash differently.
  \<^item> Wrr: the weighted round robin with its cached gcd and maximum; \<open>run\<close> always ends, and where it stalls.
  \<^item> Variant, ParamMap: the tagged value and the map of parameters; what is set is got, types stay valid.
  \<^item> SpscQueue: the queue as a step relation over all interleavings of one producer and one consumer; first in first out, no race.
  \<^item> Pools: chunks and pools in both modes, with the queue as a provider of a contract (a locale); no block is handed out twice.
  \<^item> Tables: counters, statistics, Guid and the correlation map with its timeouts.

  \<^bold>\<open>ASN.1\<close> (\<^verbatim>\<open>asn1.cpp\<close>, \<^verbatim>\<open>asn1.h\<close>).
  \<^item> Ber: tags, lengths and integers as octets; round trips, and the tags that are not decoded to themselves.
  \<^item> BerTree: the pool, definition trees, encoding, and a reference decoder. BerPool: the decoder without a definition on the objects of the
    pool; it refines the reference decoder for messages that fit the pool, and where it fails beyond; encoding then decoding.
  \<^item> BerDefn: the decoder with a definition. BerMatch, BerValue, BerSeen, BerRead, BerReader: it is the reference decoder followed by a walk
    that links what was decoded; the values of a definition, and that every value is seen as it was sent, inside the locale \<open>asn1_schema\<close>
    of a definition's classes.
  \<^item> BerLink: linked values, prepared sizes and sessions; what is encoded is what the session has linked.

  \<^bold>\<open>GDT\<close> (\<^verbatim>\<open>gdt.cpp\<close>, \<^verbatim>\<open>gdt.h\<close>, \<^verbatim>\<open>gdt_def.h\<close>, \<^verbatim>\<open>gdt_def.cpp\<close>, \<^verbatim>\<open>gdt_reg_events.cpp\<close>).
  \<^item> GdtDefs, GdtPacket: the classes of the message definition, which interpret \<open>asn1_schema\<close>; packets are read as they were sent, and the
    element that overwrites a member.
  \<^item> GdtMessage, GdtStream, GdtOutput: headers, callbacks, counters, streams and the client's state, output and timeouts.
  \<^item> GdtMachine, GdtOwner, GdtSafety, GdtRun: the state machine of a packet and the runs of a client; streams are owned once,
    timeouts are exact, and the packet that frees a stream twice.
  \<^item> GdtTalk: two clients and the wire between them; a conversation stays in sequence.
  \<^item> GdtTables, GdtSession, GdtRoute: clients, routing tables, reference counts and the dispatch of a packet; routes lead to
    clients, references are kept, and where they are not.
  \<^item> GdtRegister: registration on both sides, connect and accept, the heartbeat.
  \<^item> RoutingConfig: how the routing daemon takes over its configuration.

  \<^bold>\<open>Service messages\<close> (\<^verbatim>\<open>gdt_utils.cpp\<close>, \<^verbatim>\<open>gdt_utils.h\<close>).
  \<^item> ServiceParam, ServiceMessage: parameters, their factory, messages and the manager.
  \<^item> ServiceSend, ServiceReceive: sending in fragments and packets, receiving them.
  \<^item> ServiceCut, ParamFragments, ServiceJoin, ServiceTalk: how a message is cut, how its pieces are joined, and that it arrives.

  \<^bold>\<open>Configuration\<close> (\<^verbatim>\<open>mink_config.cpp\<close>, \<^verbatim>\<open>mink_config.h\<close>, \<^verbatim>\<open>config_gdt.cpp\<close>, \<^verbatim>\<open>services/config/events.cpp\<close>).
  \<^item> ConfigTree: nodes by position, paths, copy, discard, commit, replace and reset; what they leave and when they end.
  \<^item> ConfigMerge: patterns, validation and merge of a file into the definition.
  \<^item> ConfigState: users and their working nodes, the transaction, the notification list.
  \<^item> AutoComplete: the command line, completed with the tab key and executed with the enter key.
  \<^item> ConfigText: the listings with their line counts, and the order of nodes.
  \<^item> ConfigNotify, ConfigUpdate: what a commit prepares for its subscribers, the stream to them and the update of their copies.
  \<^item> ConfigDaemon (\<^verbatim>\<open>configd.cpp\<close> too): requests, commands, files, replication, the packets of the answers, timeouts. A request
    carries the state it has locked, from its first packet to the end of its stream.
  \<^item> ConfigIsolation: the transaction of a user is closed to all others. ConfigCommit: what a commit leaves in the tree, the files
    and the messages. ConfigAnswer: answers are complete. ConfigReplica: other daemons come to the same configuration, and where
    they do not.

  \<^bold>\<open>Bounds and fuel.\<close> Loops over a data structure are recursive on it. Loops that need not end (discard, commit,
  sort, \<open>WRR::run\<close>) are partial functions into options, and theorems say on which inputs they return.
  Fuel is used where two sides take turns: decoding (the number of octets), the turns of a conversation and the packets of a
  message or notification (one more than there are packets). The theorems give the fuel that is enough and that the result is there.

  \<^bold>\<open>Parameters.\<close> Code that is not in the repository is an argument: the regular expressions, boost's tokenizer, \<^verbatim>\<open>std::sort\<close> (any
  permutation), \<^verbatim>\<open>atoi\<close>, the clock, random ids, the addresses of new objects, user callbacks, the contents of directories, which files can be
  opened, the parser of configuration files.

  \<^bold>\<open>Not modelled.\<close> Vendored and generated code (libantlr3c, inja, nlohmann json, protobuf, the ANTLR parser and lexer): not this program's logic. Sockets, threads, timers, signals and daemon start-up: input and output. The terminal user
  interface, the plugins, the gRPC and REST gateways, the code generator: glue around the modelled parts. In modelled files: the
  merging of messages in \<^verbatim>\<open>asn1.cpp\<close>, the copies of definition classes, debug prints, destructors, and the blocking calls that only
  send one request and wait.
\<close>

end
